(* ===== verification/Prelude.thy ===== *)
theory Prelude
  imports Main "HOL-Library.Monad_Syntax" "HOL-Library.AList" "HOL-Library.Word"
    "HOL-Library.List_Lexorder" "HOL-Library.Char_ord"
begin

text \<open>
  Shared vocabulary of the development.

  \<^item> Rust code that can panic (an \<open>assert!\<close>, an \<open>unwrap\<close> of nothing, an \<open>unreachable!\<close>, a
    \<open>todo!\<close>) returns an \<open>option\<close>: \<open>None\<close> is the panic, \<open>Some r\<close> a normal return. The same value
    stands for a recursion that has used up its bound; every bounded recursion comes with a lemma
    that a stated bound is enough.
  \<^item> A \<open>HashMap\<close> is an association list with distinct keys (\<open>map_of\<close>, \<open>AList.update\<close>,
    \<open>AList.delete\<close>), so that iterating over it is a function; a \<open>BTreeMap\<close> is an association list
    whose keys ascend. The locale \<open>dict\<close> is what both promise to their clients.
\<close>

section \<open>Collections of facts\<close>

named_theorems job_defs \<open>unfolding rules of the small accessors of the job model\<close>
named_theorems inv_intros \<open>an operation keeps the invariant of its component\<close>

section \<open>Types named after the code\<close>

type_synonym unit_id = string
type_synonym job_id = "32 word"
type_synonym usize = "64 word"
type_synonym u64 = "64 word"

section \<open>Panics\<close>

definition rust_assert :: "bool \<Rightarrow> unit option" where
  "rust_assert b = (if b then Some () else None)"

lemma rust_assert_Some [simp]: "rust_assert b = Some u \<longleftrightarrow> b"
  by (simp add: rust_assert_def)

lemma rust_assert_None [simp]: "rust_assert b = None \<longleftrightarrow> \<not> b"
  by (simp add: rust_assert_def)

lemma rust_assert_True [simp]: "rust_assert True = Some ()"
  by (simp add: rust_assert_def)

lemma rust_assert_False [simp]: "rust_assert False = None"
  by (simp add: rust_assert_def)

lemma bind_rust_assert [simp]:
  "Option.bind (rust_assert b) f = (if b then f () else None)"
  by (simp add: rust_assert_def)

lemma bind_rust_assert_SomeD:
  "Option.bind (rust_assert b) f = Some r \<Longrightarrow> b \<and> f () = Some r"
  by (simp split: if_splits)

lemma bind_SomeE:
  assumes "Option.bind m f = Some r"
  obtains x where "m = Some x" and "f x = Some r"
  using assms by (auto simp: Option.bind_eq_Some_conv)

section \<open>Option-valued folds (a loop whose body may panic)\<close>

fun fold_opt :: "('a \<Rightarrow> 's \<Rightarrow> 's option) \<Rightarrow> 'a list \<Rightarrow> 's \<Rightarrow> 's option" where
  "fold_opt f [] s = Some s"
| "fold_opt f (x # xs) s = Option.bind (f x s) (fold_opt f xs)"

lemma fold_opt_append [simp]:
  "fold_opt f (xs @ ys) s = Option.bind (fold_opt f xs s) (fold_opt f ys)"
  by (induction xs arbitrary: s) (auto split: bind_splits)

text \<open>The loop rule: what every round keeps, the loop keeps.\<close>

lemma fold_opt_inv:
  assumes "fold_opt f xs s = Some t" and "P s"
    and "\<And>x s t. x \<in> set xs \<Longrightarrow> P s \<Longrightarrow> f x s = Some t \<Longrightarrow> P t"
  shows "P t"
  using assms
proof (induction xs arbitrary: s)
  case Nil
  then show ?case by simp
next
  case (Cons x xs)
  then obtain s' where s': "f x s = Some s'" "fold_opt f xs s' = Some t"
    by (auto elim: bind_SomeE)
  have "P s'" by (rule Cons.prems(3) [OF _ Cons.prems(2) s'(1)]) simp
  with s' Cons.prems(3) show ?case by (auto intro: Cons.IH)
qed

text \<open>A loop whose rounds all return, returns.\<close>

lemma fold_opt_total:
  assumes "P s"
    and "\<And>x s. x \<in> set xs \<Longrightarrow> P s \<Longrightarrow> \<exists>t. f x s = Some t \<and> P t"
  shows "\<exists>t. fold_opt f xs s = Some t \<and> P t"
  using assms
proof (induction xs arbitrary: s)
  case Nil
  then show ?case by simp
next
  case (Cons x xs)
  then obtain s' where "f x s = Some s'" "P s'" by force
  with Cons show ?case by simp
qed

section \<open>The dictionary interface\<close>

lemma restrict_map_add_disjoint:
  "dom a \<inter> D = {} \<Longrightarrow> (m ++ a) |` (- D) = (m |` (- D)) ++ a"
  by (force simp: restrict_map_def map_add_def fun_eq_iff split: option.splits)

lemma distinct_map_of_rev: "distinct (map fst xs) \<Longrightarrow> map_of (rev xs) = map_of xs"
  by (intro map_of_eqI) (auto simp: rev_map [symmetric])

locale dict =
  fixes dlookup :: "'m \<Rightarrow> 'k \<Rightarrow> 'v option"
    and dinsert :: "'k \<Rightarrow> 'v \<Rightarrow> 'm \<Rightarrow> 'm"
    and dremove :: "'k \<Rightarrow> 'm \<Rightarrow> 'm"
    and dentries :: "'m \<Rightarrow> ('k \<times> 'v) list"
    and dinvar :: "'m \<Rightarrow> bool"
  assumes lookup_insert: "dinvar m \<Longrightarrow> dlookup (dinsert k v m) = (dlookup m)(k \<mapsto> v)"
    and lookup_remove: "dinvar m \<Longrightarrow> dlookup (dremove k m) = (dlookup m)(k := None)"
    and lookup_entries: "dinvar m \<Longrightarrow> dlookup m = map_of (dentries m)"
    and distinct_entries: "dinvar m \<Longrightarrow> distinct (map fst (dentries m))"
    and invar_insert: "dinvar m \<Longrightarrow> dinvar (dinsert k v m)"
    and invar_remove: "dinvar m \<Longrightarrow> dinvar (dremove k m)"
begin

text \<open>Inserting a list of entries one after the other, as a \<open>for\<close> loop over a collection does.\<close>

lemma invar_insert_all:
  "dinvar m \<Longrightarrow> dinvar (fold (\<lambda>(k, v). dinsert k v) xs m)"
  by (induction xs arbitrary: m) (auto simp: invar_insert)

lemma lookup_insert_all:
  "dinvar m \<Longrightarrow> dlookup (fold (\<lambda>(k, v). dinsert k v) xs m) = dlookup m ++ map_of (rev xs)"
proof (induction xs arbitrary: m)
  case Nil
  then show ?case by simp
next
  case (Cons x xs)
  then show ?case
    by (cases x) (auto simp: lookup_insert invar_insert map_add_def fun_eq_iff split: option.splits)
qed

lemma invar_remove_all:
  "dinvar m \<Longrightarrow> dinvar (fold dremove ks m)"
  by (induction ks arbitrary: m) (auto simp: invar_remove)

lemma lookup_remove_all:
  "dinvar m \<Longrightarrow> dlookup (fold dremove ks m) = dlookup m |` (- set ks)"
proof (induction ks arbitrary: m)
  case Nil
  then show ?case by simp
next
  case (Cons k ks)
  then show ?case
    by (auto simp: lookup_remove invar_remove restrict_map_def fun_eq_iff)
qed

text \<open>Draining one dictionary into an empty one loses nothing.\<close>

lemma lookup_refill:
  assumes "dinvar m" and "dinvar e" and "dentries e = []"
  shows "dlookup (fold (\<lambda>(k, v). dinsert k v) (dentries m) e) = dlookup m"
proof -
  have "dlookup e = Map.empty" using assms by (simp add: lookup_entries)
  moreover have "map_of (rev (dentries m)) = map_of (dentries m)"
    using distinct_entries [OF assms(1)] by (rule distinct_map_of_rev)
  ultimately show ?thesis
    using assms by (simp add: lookup_insert_all lookup_entries)
qed

end

section \<open>HashMap: association lists\<close>

interpretation hm: dict map_of AList.update AList.delete "\<lambda>m. m" "\<lambda>m. distinct (map fst m)"
proof unfold_locales
  fix m :: "('a \<times> 'b) list" and k v
  show "map_of (AList.update k v m) = (map_of m)(k \<mapsto> v)" by (rule update_conv')
  show "map_of (AList.delete k m) = (map_of m)(k := None)" by (rule delete_conv')
  show "distinct (map fst m) \<Longrightarrow> distinct (map fst (AList.update k v m))" by (rule distinct_update)
  show "distinct (map fst m) \<Longrightarrow> distinct (map fst (AList.delete k m))" by (rule distinct_delete)
qed auto

section \<open>BTreeMap: ascending association lists\<close>

fun bt_insert :: "'k::linorder \<Rightarrow> 'v \<Rightarrow> ('k \<times> 'v) list \<Rightarrow> ('k \<times> 'v) list" where
  "bt_insert k v [] = [(k, v)]"
| "bt_insert k v (e # es) =
     (if fst e < k then e # bt_insert k v es
      else if fst e = k then (k, v) # es
      else (k, v) # e # es)"

definition bt_sorted :: "('k::linorder \<times> 'v) list \<Rightarrow> bool" where
  "bt_sorted m \<longleftrightarrow> sorted_wrt (<) (map fst m)"

lemma set_bt_insert_keys: "fst ` set (bt_insert k v m) = insert k (fst ` set m)"
  by (induction m) auto

lemma bt_sorted_insert: "bt_sorted m \<Longrightarrow> bt_sorted (bt_insert k v m)"
proof (induction m)
  case Nil
  then show ?case by (simp add: bt_sorted_def)
next
  case (Cons e es)
  then have "bt_sorted (bt_insert k v es)" by (simp add: bt_sorted_def)
  moreover have "\<forall>x \<in> fst ` set (bt_insert k v es). fst e < x" if "fst e < k"
    using Cons.prems that by (auto simp: set_bt_insert_keys bt_sorted_def)
  ultimately show ?case
    using Cons.prems by (force simp: bt_sorted_def)
qed

lemma bt_sorted_distinct: "bt_sorted m \<Longrightarrow> distinct (map fst m)"
  unfolding bt_sorted_def by (rule strict_sorted_iff [THEN iffD1, THEN conjunct2])

lemma bt_sorted_delete: "bt_sorted m \<Longrightarrow> bt_sorted (AList.delete k m)"
  by (induction m) (auto simp: bt_sorted_def AList.delete_eq)

lemma map_of_bt_insert: "bt_sorted m \<Longrightarrow> map_of (bt_insert k v m) = (map_of m)(k \<mapsto> v)"
  by (induction m) (auto simp: bt_sorted_def fun_eq_iff)

interpretation bt: dict map_of bt_insert AList.delete "\<lambda>m. m" bt_sorted
  by unfold_locales
    (auto simp: map_of_bt_insert bt_sorted_insert bt_sorted_delete bt_sorted_distinct delete_conv')

end
