(* ===== verification/Dev_Device.thy ===== *)
theory Dev_Device
  imports Rust_Str
begin

text \<open>
  The \<open>Device\<close> object of the device library (\<open>src/libs/device/src/device.rs\<close>, \<open>device_action.rs\<close>,
  \<open>utils.rs\<close>, \<open>error.rs\<close>): its fields, the setters that keep the property map beside them, the parsing
  of a uevent message, of the \<open>uevent\<close> file and of the database, the getters that load them on
  demand, and the constructors that look a device up in \<open>/sys\<close>.

  A method that mutates the device is a state transformer that may fail or panic: \<open>None\<close> is a panic,
  \<open>Inl\<close> the error number of an \<open>Error::Nix\<close> (its message is only logged), and the device is returned
  on the error path too, because the code mutates before it fails. The file system, \<open>nix\<close> and \<open>libc\<close>
  are the record \<open>sysfs\<close>; the file system does not change during one call. A \<open>HashMap\<close> is an
  association list with distinct keys, a \<open>HashSet\<close> a list without repetition.
\<close>

section \<open>The error monad of the methods\<close>

type_synonym os_errno = int

definition EPERM :: os_errno where "EPERM = 1"
definition ENOENT :: os_errno where "ENOENT = 2"
definition ENXIO :: os_errno where "ENXIO = 6"
definition ENOEXEC :: os_errno where "ENOEXEC = 8"
definition EACCES :: os_errno where "EACCES = 13"
definition ENODEV :: os_errno where "ENODEV = 19"
definition ENOTDIR :: os_errno where "ENOTDIR = 20"
definition EISDIR :: os_errno where "EISDIR = 21"
definition EINVAL :: os_errno where "EINVAL = 22"
definition ENOTTY :: os_errno where "ENOTTY = 25"
definition EBADF :: os_errno where "EBADF = 9"
definition ENOSYS :: os_errno where "ENOSYS = 38"
definition EPROTONOSUPPORT :: os_errno where "EPROTONOSUPPORT = 93"
definition ESOCKTNOSUPPORT :: os_errno where "ESOCKTNOSUPPORT = 94"
definition EOPNOTSUPP :: os_errno where "EOPNOTSUPP = 95"
definition EPFNOSUPPORT :: os_errno where "EPFNOSUPPORT = 96"
definition EAFNOSUPPORT :: os_errno where "EAFNOSUPPORT = 97"
definition ESTALE :: os_errno where "ESTALE = 116"

lemmas errno_defs = EPERM_def ENOENT_def ENXIO_def ENOEXEC_def EACCES_def ENODEV_def ENOTDIR_def
  EISDIR_def EINVAL_def ENOTTY_def ESTALE_def

type_synonym ('d, 'a) dev_m = "'d \<Rightarrow> ((os_errno + 'a) \<times> 'd) option"

definition dret :: "'a \<Rightarrow> ('d, 'a) dev_m" where
  "dret a d = Some (Inr a, d)"

definition derr :: "os_errno \<Rightarrow> ('d, 'a) dev_m" where
  "derr e d = Some (Inl e, d)"

definition dpanic :: "('d, 'a) dev_m" where
  "dpanic d = None"

text \<open>\<open>m?\<close> followed by the rest of the body.\<close>

definition dbind :: "('d, 'a) dev_m \<Rightarrow> ('a \<Rightarrow> ('d, 'b) dev_m) \<Rightarrow> ('d, 'b) dev_m" where
  "dbind m f d = (case m d of
       None \<Rightarrow> None
     | Some (Inl e, d') \<Rightarrow> Some (Inl e, d')
     | Some (Inr a, d') \<Rightarrow> f a d')"

text \<open>\<open>match m\<close> with a branch for each result.\<close>

definition dmatch :: "('d, 'a) dev_m \<Rightarrow> (os_errno + 'a \<Rightarrow> ('d, 'b) dev_m) \<Rightarrow> ('d, 'b) dev_m" where
  "dmatch m f d = (case m d of None \<Rightarrow> None | Some (r, d') \<Rightarrow> f r d')"

definition dget :: "('d \<Rightarrow> 'a) \<Rightarrow> ('d, 'a) dev_m" where
  "dget f d = Some (Inr (f d), d)"

definition dput :: "('d \<Rightarrow> 'd) \<Rightarrow> ('d, unit) dev_m" where
  "dput g d = Some (Inr (), g d)"

fun dfold :: "('x \<Rightarrow> ('d, unit) dev_m) \<Rightarrow> 'x list \<Rightarrow> ('d, unit) dev_m" where
  "dfold f [] = dret ()"
| "dfold f (x # xs) = dbind (f x) (\<lambda>_. dfold f xs)"

lemmas dm_defs = dret_def derr_def dpanic_def dbind_def dmatch_def dget_def dput_def

text \<open>A property of the device that a method maintains, whatever it returns.\<close>

definition maintains :: "('d \<Rightarrow> bool) \<Rightarrow> ('d, 'a) dev_m \<Rightarrow> bool" where
  "maintains I m \<longleftrightarrow> (\<forall>d r d'. I d \<longrightarrow> m d = Some (r, d') \<longrightarrow> I d')"

named_theorems maintains_intros \<open>a method maintains the invariant of the device\<close>

lemma maintainsD: "maintains I m \<Longrightarrow> I d \<Longrightarrow> m d = Some (r, d') \<Longrightarrow> I d'"
  by (auto simp: maintains_def)

lemma maintains_ret [maintains_intros]: "maintains I (dret a)" "maintains I (derr e)" "maintains I dpanic" "maintains I (dget f)"
  by (auto simp: maintains_def dm_defs)

lemma maintains_put [maintains_intros]: "(\<And>d. I d \<Longrightarrow> I (g d)) \<Longrightarrow> maintains I (dput g)"
  by (auto simp: maintains_def dm_defs)

lemma maintains_bind [maintains_intros]:
  assumes "maintains I m" and "\<And>a. maintains I (f a)"
  shows "maintains I (dbind m f)"
  unfolding maintains_def
proof (intro allI impI)
  fix d r d'
  assume i: "I d" and b: "dbind m f d = Some (r, d')"
  then obtain r1 d1 where m: "m d = Some (r1, d1)" by (auto simp: dbind_def split: option.splits)
  have i1: "I d1" using maintainsD [OF assms(1) i m] .
  show "I d'"
    using b m i1 maintainsD [OF assms(2)] by (cases r1) (auto simp: dbind_def)
qed

lemma maintains_match [maintains_intros]:
  assumes "maintains I m" and "\<And>r. maintains I (f r)"
  shows "maintains I (dmatch m f)"
  unfolding maintains_def
proof (intro allI impI)
  fix d r d'
  assume i: "I d" and b: "dmatch m f d = Some (r, d')"
  then obtain r1 d1 where m: "m d = Some (r1, d1)" by (auto simp: dmatch_def split: option.splits)
  show "I d'"
    using b m maintainsD [OF assms(2) maintainsD [OF assms(1) i m]] by (simp add: dmatch_def)
qed

lemma maintains_fold [maintains_intros]: "(\<And>x. maintains I (f x)) \<Longrightarrow> maintains I (dfold f xs)"
  by (induction xs) (auto intro: maintains_intros)

lemma maintains_if [maintains_intros]: "(b \<Longrightarrow> maintains I m) \<Longrightarrow> (\<not> b \<Longrightarrow> maintains I n) \<Longrightarrow> maintains I (if b then m else n)"
  by simp

lemma maintains_option [maintains_intros]:
  "maintains I m \<Longrightarrow> (\<And>x. maintains I (f x)) \<Longrightarrow> maintains I (case v of None \<Rightarrow> m | Some x \<Rightarrow> f x)"
  by (cases v) auto

lemma maintains_sum [maintains_intros]:
  "(\<And>e. maintains I (f e)) \<Longrightarrow> (\<And>x. maintains I (g x)) \<Longrightarrow> maintains I (case v of Inl e \<Rightarrow> f e | Inr x \<Rightarrow> g x)"
  by (cases v) auto

lemma maintains_prod [maintains_intros]: "(\<And>x y. maintains I (f x y)) \<Longrightarrow> maintains I (case v of (x, y) \<Rightarrow> f x y)"
  by (cases v) auto

text \<open>A method that cannot panic.\<close>

definition total_m :: "('d, 'a) dev_m \<Rightarrow> bool" where
  "total_m m \<longleftrightarrow> (\<forall>d. m d \<noteq> None)"

named_theorems total_intros \<open>a method returns\<close>

lemma total_basic [total_intros]: "total_m (dret a)" "total_m (derr e)" "total_m (dget f)" "total_m (dput g)"
  by (auto simp: total_m_def dm_defs)

lemma total_bind [total_intros]: "total_m m \<Longrightarrow> (\<And>a. total_m (f a)) \<Longrightarrow> total_m (dbind m f)"
  by (fastforce simp: total_m_def dbind_def split: option.splits sum.splits)

lemma total_match [total_intros]: "total_m m \<Longrightarrow> (\<And>r. total_m (f r)) \<Longrightarrow> total_m (dmatch m f)"
  by (fastforce simp: total_m_def dmatch_def split: option.splits)

lemma total_fold [total_intros]: "(\<And>x. total_m (f x)) \<Longrightarrow> total_m (dfold f xs)"
  by (induction xs) (auto intro: total_intros)

lemma total_if [total_intros]: "(b \<Longrightarrow> total_m m) \<Longrightarrow> (\<not> b \<Longrightarrow> total_m n) \<Longrightarrow> total_m (if b then m else n)"
  by simp

lemma total_option [total_intros]:
  "total_m m \<Longrightarrow> (\<And>x. total_m (f x)) \<Longrightarrow> total_m (case v of None \<Rightarrow> m | Some x \<Rightarrow> f x)"
  by (cases v) auto

lemma total_sum [total_intros]:
  "(\<And>e. total_m (f e)) \<Longrightarrow> (\<And>x. total_m (g x)) \<Longrightarrow> total_m (case v of Inl e \<Rightarrow> f e | Inr x \<Rightarrow> g x)"
  by (cases v) auto

section \<open>Strings and paths of the standard library\<close>

definition str_contains :: "string \<Rightarrow> string \<Rightarrow> bool" where
  "str_contains p s \<longleftrightarrow> (\<exists>i\<in>set [0..<Suc (length s)]. starts_with p (drop i s))"

definition replace_char :: "char \<Rightarrow> char \<Rightarrow> string \<Rightarrow> string" where
  "replace_char a b s = map (\<lambda>c. if c = a then b else c) s"

definition strip_str :: "string \<Rightarrow> string \<Rightarrow> string option" where
  "strip_str p s = (if starts_with p s then Some (drop (length p) s) else None)"

text \<open>\<open>Path\<close>: components, \<open>starts_with\<close> (by component), \<open>file_name\<close> and \<open>parent\<close>, for absolute paths
  without a \<open>.\<close> component.\<close>

definition path_components :: "string \<Rightarrow> string list" where
  "path_components p = filter (\<lambda>c. c \<noteq> []) (split_on CHR ''/'' p)"

definition path_starts_with :: "string \<Rightarrow> string \<Rightarrow> bool" where
  "path_starts_with b p \<longleftrightarrow>
     starts_with ''/'' p = starts_with ''/'' b \<and>
     take (length (path_components b)) (path_components p) = path_components b"

definition path_file_name :: "string \<Rightarrow> string option" where
  "path_file_name p = (let cs = path_components p in
     if cs = [] \<or> last cs = ''..'' then None else Some (last cs))"

definition strip_end :: "(char \<Rightarrow> bool) \<Rightarrow> string \<Rightarrow> string" where
  "strip_end f s = rev (dropWhile f (rev s))"

definition path_parent :: "string \<Rightarrow> string option" where
  "path_parent p = (let q = strip_end ((=) CHR ''/'') p in
     if q = [] then None
     else let r = strip_end ((\<noteq>) CHR ''/'') q; s = strip_end ((=) CHR ''/'') r in
       Some (if s = [] \<and> r \<noteq> [] then ''/'' else s))"

lemma strip_end_le: "length (strip_end f s) \<le> length s"
  using length_dropWhile_le [of f "rev s"] by (simp add: strip_end_def)

lemma path_parent_shorter: "path_parent p = Some q \<Longrightarrow> length q < length p"
proof -
  assume a: "path_parent p = Some q"
  define u where "u = strip_end ((=) CHR ''/'') p"
  define r where "r = strip_end ((\<noteq>) CHR ''/'') u"
  define s where "s = strip_end ((=) CHR ''/'') r"
  from a have u: "u \<noteq> []" and q: "q = (if s = [] \<and> r \<noteq> [] then ''/'' else s)"
    by (auto simp: path_parent_def Let_def u_def r_def s_def split: if_splits)
  have last: "last u \<noteq> CHR ''/''"
    using u hd_dropWhile [of "(=) CHR ''/''" "rev p"]
    by (auto simp: u_def strip_end_def last_rev)
  have ru: "length r < length u"
  proof -
    have "rev u \<noteq> []" using u by simp
    then obtain c cs where c: "rev u = c # cs" by (cases "rev u") auto
    have "c = last u" using c by (metis hd_rev list.sel(1))
    then have "dropWhile ((\<noteq>) CHR ''/'') (c # cs) = dropWhile ((\<noteq>) CHR ''/'') cs" using last by auto
    then have "dropWhile ((\<noteq>) CHR ''/'') (rev u) = dropWhile ((\<noteq>) CHR ''/'') cs" by (simp only: c)
    then have "length (dropWhile ((\<noteq>) CHR ''/'') (rev u)) \<le> length cs" by (simp add: length_dropWhile_le)
    moreover have "length u = Suc (length cs)" using c by (metis length_Cons length_rev)
    ultimately show ?thesis by (simp add: r_def strip_end_def)
  qed
  have "length s \<le> length r" "length u \<le> length p" by (simp_all add: s_def u_def strip_end_le)
  then show ?thesis using q ru by (cases r) auto
qed

section \<open>Actions\<close>

datatype device_action = Act_Add | Act_Remove | Act_Change | Act_Move | Act_Online | Act_Offline
  | Act_Bind | Act_Unbind | Act_Invalid

definition action_from_str :: "string \<Rightarrow> os_errno + device_action" where
  "action_from_str s = (
     if s = ''add'' then Inr Act_Add else if s = ''remove'' then Inr Act_Remove
     else if s = ''change'' then Inr Act_Change else if s = ''move'' then Inr Act_Move
     else if s = ''online'' then Inr Act_Online else if s = ''offline'' then Inr Act_Offline
     else if s = ''bind'' then Inr Act_Bind else if s = ''unbind'' then Inr Act_Unbind
     else Inl EINVAL)"

fun action_to_string :: "device_action \<Rightarrow> string" where
  "action_to_string Act_Add = ''add''"
| "action_to_string Act_Remove = ''remove''"
| "action_to_string Act_Change = ''change''"
| "action_to_string Act_Move = ''move''"
| "action_to_string Act_Online = ''online''"
| "action_to_string Act_Offline = ''offline''"
| "action_to_string Act_Bind = ''bind''"
| "action_to_string Act_Unbind = ''unbind''"
| "action_to_string Act_Invalid = ''invalid''"

lemma action_roundtrip: "a \<noteq> Act_Invalid \<Longrightarrow> action_from_str (action_to_string a) = Inr a"
  by (cases a) (simp_all add: action_from_str_def)

lemma action_print: "action_from_str s = Inr a \<Longrightarrow> action_to_string a = s \<and> a \<noteq> Act_Invalid"
  by (auto simp: action_from_str_def split: if_splits)

section \<open>The device\<close>

record device =
  d_watch_handle :: int
  d_ifindex :: "32 word"
  d_devtype :: string
  d_devname :: string
  d_devnum :: u64
  d_syspath :: string
  d_devpath :: string
  d_sysnum :: string
  d_sysname :: string
  d_subsystem :: string
  d_driver_subsystem :: string
  d_driver :: string
  d_device_id :: string
  d_usec_initialized :: u64
  d_devmode :: "32 word"
  d_devuid :: "32 word"
  d_devgid :: "32 word"
  d_action :: device_action
  d_seqnum :: u64
  d_properties :: "(string \<times> string) list"
  d_properties_db :: "(string \<times> string) list"
  d_properties_nulstr :: string
  d_properties_nulstr_len :: nat
  d_sysattr_values :: "(string \<times> string) list"
  d_sysattrs :: "string list"
  d_all_tags :: "string list"
  d_current_tags :: "string list"
  d_devlinks :: "string list"
  d_devlink_priority :: int
  d_diskseq :: u64
  d_database_version :: "32 word"
  d_properties_buf_outdated :: bool
  d_property_devlinks_outdated :: bool
  d_property_tags_outdated :: bool
  d_uevent_loaded :: bool
  d_subsystem_set :: bool
  d_parent_set :: bool
  d_driver_set :: bool
  d_db_loaded :: bool
  d_is_initialized :: bool
  d_sealed :: bool

type_synonym 'a dm = "(device, 'a) dev_m"

definition device_new :: device where
  "device_new = \<lparr>
     d_watch_handle = -1, d_ifindex = 0, d_devtype = [], d_devname = [], d_devnum = 0,
     d_syspath = [], d_devpath = [], d_sysnum = [], d_sysname = [], d_subsystem = [],
     d_driver_subsystem = [], d_driver = [], d_device_id = [], d_usec_initialized = 0,
     d_devmode = - 1, d_devuid = - 1, d_devgid = - 1, d_action = Act_Invalid, d_seqnum = 0,
     d_properties = [], d_properties_db = [], d_properties_nulstr = [], d_properties_nulstr_len = 0,
     d_sysattr_values = [], d_sysattrs = [], d_all_tags = [], d_current_tags = [], d_devlinks = [],
     d_devlink_priority = 0, d_diskseq = 0, d_database_version = 0,
     d_properties_buf_outdated = True, d_property_devlinks_outdated = True,
     d_property_tags_outdated = True, d_uevent_loaded = False, d_subsystem_set = False,
     d_parent_set = False, d_driver_set = False, d_db_loaded = False, d_is_initialized = False,
     d_sealed = False\<rparr>"

text \<open>What the methods call of the system: \<open>std::fs\<close>, \<open>nix\<close> and \<open>libc\<close>. An \<open>io::Error\<close> is the option of
  its \<open>raw_os_error\<close>; reading an opened file to a string may fail (\<open>None\<close>).\<close>

type_synonym io_error = "os_errno option"

record sysfs =
  fs_canonicalize :: "string \<Rightarrow> io_error + string"
  fs_is_dir :: "string \<Rightarrow> bool"
  fs_exists :: "string \<Rightarrow> bool"
  fs_open_read :: "string \<Rightarrow> io_error + (io_error + string)"
  fs_open_write :: "string \<Rightarrow> string \<Rightarrow> io_error + (io_error + unit)"
  fs_lstat :: "string \<Rightarrow> os_errno + 32 word"
  fs_stat :: "string \<Rightarrow> os_errno + 32 word \<times> u64"
  os_if_indextoname :: "32 word \<Rightarrow> string option"
  os_from_i32 :: "os_errno \<Rightarrow> os_errno"
  os_makedev :: "u64 \<Rightarrow> u64 \<Rightarrow> u64"
  os_major :: "u64 \<Rightarrow> u64"
  os_minor :: "u64 \<Rightarrow> u64"

definition io_errno :: "sysfs \<Rightarrow> io_error \<Rightarrow> os_errno" where
  "io_errno E e = os_from_i32 E (case e of Some n \<Rightarrow> n | None \<Rightarrow> 0)"

section \<open>Properties and setters\<close>

definition add_property_aux :: "string \<Rightarrow> string \<Rightarrow> bool \<Rightarrow> unit dm" where
  "add_property_aux key value db = (
     if key = [] then derr EINVAL
     else let upd = (if value = [] then AList.delete key else AList.update key value) in
       if db then dput (\<lambda>d. d\<lparr>d_properties_db := upd (d_properties_db d)\<rparr>)
       else dput (\<lambda>d. d\<lparr>d_properties := upd (d_properties d), d_properties_buf_outdated := True\<rparr>))"

definition add_property_internal :: "string \<Rightarrow> string \<Rightarrow> unit dm" where
  "add_property_internal key value = add_property_aux key value False"

definition add_property :: "string \<Rightarrow> string \<Rightarrow> unit dm" where
  "add_property key value = dbind (add_property_aux key value False) (\<lambda>_.
     if \<not> starts_with ''.'' key then add_property_aux key value True else dret ())"

definition add_tag :: "string \<Rightarrow> bool \<Rightarrow> unit dm" where
  "add_tag tag both = dput (\<lambda>d. d\<lparr>d_all_tags := List.insert tag (d_all_tags d),
     d_current_tags := (if both then List.insert tag (d_current_tags d) else d_current_tags d),
     d_property_tags_outdated := True\<rparr>)"

definition add_devlink :: "string \<Rightarrow> unit dm" where
  "add_devlink devlink = dput (\<lambda>d. d\<lparr>d_devlinks := List.insert devlink (d_devlinks d),
     d_property_devlinks_outdated := True\<rparr>)"

definition NUL :: char where "NUL = CHR 0x00"

definition nulstr_of :: "(string \<times> string) list \<Rightarrow> string" where
  "nulstr_of ps = concat (map (\<lambda>(k, v). k @ ''='' @ v @ [NUL]) ps)"

definition update_properties_bufs :: "unit dm" where
  "update_properties_bufs d = (
     if \<not> d_properties_buf_outdated d then dret () d
     else let buf = nulstr_of (d_properties d) in
       dret () (d\<lparr>d_properties_nulstr := buf, d_properties_nulstr_len := length buf,
                  d_properties_buf_outdated := False\<rparr>))"

definition get_properties_nulstr :: "(string \<times> nat) dm" where
  "get_properties_nulstr = dbind update_properties_bufs (\<lambda>_.
     dget (\<lambda>d. (d_properties_nulstr d, d_properties_nulstr_len d)))"

definition set_subsystem :: "string \<Rightarrow> unit dm" where
  "set_subsystem s = dbind (add_property_internal ''SUBSYSTEM'' s) (\<lambda>_.
     dput (\<lambda>d. d\<lparr>d_subsystem_set := True, d_subsystem := s\<rparr>))"

text \<open>\<open>components.get(idx - 1)\<close>: the subtraction panics for the first component.\<close>

fun component_before :: "string list \<Rightarrow> string option \<Rightarrow> string option option" where
  "component_before [] prev = Some None"
| "component_before (c # cs) prev =
     (if c = ''drivers'' then (case prev of None \<Rightarrow> None | Some p \<Rightarrow> Some (Some p))
      else component_before cs (Some c))"

definition set_drivers_subsystem :: "unit dm" where
  "set_drivers_subsystem = dbind (dget d_devpath) (\<lambda>devpath.
     case component_before (split_on CHR ''/'' devpath) None of
       None \<Rightarrow> dpanic
     | Some r \<Rightarrow> (let subsystem = (case r of None \<Rightarrow> [] | Some s \<Rightarrow> s) in
         if subsystem = [] then derr EINVAL
         else dbind (set_subsystem ''drivers'') (\<lambda>_.
           dput (\<lambda>d. d\<lparr>d_driver_subsystem := subsystem\<rparr>))))"

definition set_devtype :: "string \<Rightarrow> unit dm" where
  "set_devtype v = dbind (add_property_internal ''DEVTYPE'' v) (\<lambda>_. dput (\<lambda>d. d\<lparr>d_devtype := v\<rparr>))"

definition set_ifindex :: "string \<Rightarrow> unit dm" where
  "set_ifindex v = dbind (add_property_internal ''IFINDEX'' v) (\<lambda>_.
     case parse_u32 v of Some n \<Rightarrow> dput (\<lambda>d. d\<lparr>d_ifindex := n\<rparr>) | None \<Rightarrow> derr EINVAL)"

definition devname_of :: "string \<Rightarrow> string" where
  "devname_of v = (if starts_with ''/'' v then v else ''/dev/'' @ v)"

definition set_devname :: "string \<Rightarrow> unit dm" where
  "set_devname v = (let n = devname_of v in
     dbind (add_property_internal ''DEVNAME'' n) (\<lambda>_. dput (\<lambda>d. d\<lparr>d_devname := n\<rparr>)))"

definition set_devmode :: "string \<Rightarrow> unit dm" where
  "set_devmode v = dbind (add_property_internal ''DEVMODE'' v) (\<lambda>_.
     case parse_u32 v of Some n \<Rightarrow> dput (\<lambda>d. d\<lparr>d_devmode := n\<rparr>) | None \<Rightarrow> derr EINVAL)"

definition set_devnum :: "sysfs \<Rightarrow> string \<Rightarrow> string \<Rightarrow> unit dm" where
  "set_devnum E major minor = (
     case parse_u64 major of None \<Rightarrow> derr EINVAL | Some ma \<Rightarrow>
     case parse_u64 minor of None \<Rightarrow> derr EINVAL | Some mi \<Rightarrow>
       dbind (add_property_internal ''MAJOR'' major) (\<lambda>_.
       dbind (add_property_internal ''MINOR'' minor) (\<lambda>_.
         dput (\<lambda>d. d\<lparr>d_devnum := os_makedev E ma mi\<rparr>))))"

definition set_diskseq :: "string \<Rightarrow> unit dm" where
  "set_diskseq v = dbind (add_property_internal ''DISKSEQ'' v) (\<lambda>_.
     case parse_u64 v of Some n \<Rightarrow> dput (\<lambda>d. d\<lparr>d_diskseq := n\<rparr>) | None \<Rightarrow> derr EINVAL)"

definition set_action :: "device_action \<Rightarrow> unit dm" where
  "set_action a = dbind (add_property_internal ''ACTION'' (action_to_string a)) (\<lambda>_.
     dput (\<lambda>d. d\<lparr>d_action := a\<rparr>))"

definition set_action_from_string :: "string \<Rightarrow> unit dm" where
  "set_action_from_string s = (case action_from_str s of Inr a \<Rightarrow> set_action a | Inl _ \<Rightarrow> derr EINVAL)"

definition set_seqnum :: "u64 \<Rightarrow> unit dm" where
  "set_seqnum n = dbind (add_property_internal ''SEQNUM'' (show_digits (unat n))) (\<lambda>_.
     dput (\<lambda>d. d\<lparr>d_seqnum := n\<rparr>))"

definition set_seqnum_from_string :: "string \<Rightarrow> unit dm" where
  "set_seqnum_from_string s = (case parse_u64 s of Some n \<Rightarrow> set_seqnum n | None \<Rightarrow> derr EINVAL)"

definition set_driver :: "string \<Rightarrow> unit dm" where
  "set_driver v = dbind (add_property_internal ''DRIVER'' v) (\<lambda>_.
     dput (\<lambda>d. d\<lparr>d_driver_set := True, d_driver := v\<rparr>))"

definition set_usec_initialized :: "u64 \<Rightarrow> unit dm" where
  "set_usec_initialized t = dbind (add_property_internal ''USEC_INITIALIZED'' (show_digits (unat t))) (\<lambda>_.
     dput (\<lambda>d. d\<lparr>d_usec_initialized := t\<rparr>))"

text \<open>The path of \<open>set_syspath\<close> with \<open>verify\<close>: the canonical directory below \<open>/sys\<close>.\<close>

definition verify_syspath :: "sysfs \<Rightarrow> string \<Rightarrow> os_errno + string" where
  "verify_syspath E path = (case fs_canonicalize E path of
       Inl e \<Rightarrow> Inl (if e = Some ENOENT then ENODEV else io_errno E e)
     | Inr p \<Rightarrow>
         if \<not> path_starts_with ''/sys'' p then Inl EINVAL
         else if path_starts_with ''/sys/devices/'' p
         then (if \<not> fs_is_dir E p then Inl ENOTDIR
               else if \<not> fs_exists E (p @ ''/uevent'') then Inl ENOENT else Inr p)
         else if \<not> fs_is_dir E p then Inl ENODEV
         else Inr p)"

definition set_syspath :: "sysfs \<Rightarrow> string \<Rightarrow> bool \<Rightarrow> unit dm" where
  "set_syspath E path verify = (
     case (if verify then verify_syspath E path
           else if \<not> starts_with ''/sys/'' path then Inl EINVAL else Inr path) of
       Inl e \<Rightarrow> derr e
     | Inr p \<Rightarrow> (case strip_str ''/sys'' p of
           None \<Rightarrow> derr EINVAL
         | Some devpath \<Rightarrow>
             if \<not> starts_with ''/'' devpath then derr ENODEV
             else dmatch (add_property_internal ''DEVPATH'' devpath) (\<lambda>r. case r of
                 Inl _ \<Rightarrow> derr ENODEV
               | Inr _ \<Rightarrow> dput (\<lambda>d. d\<lparr>d_syspath := p, d_devpath := devpath\<rparr>))))"

section \<open>A uevent message\<close>

text \<open>\<open>str::from_utf8\<close>: the well-formed byte sequences of Unicode.\<close>

definition utf8_cont :: "nat \<Rightarrow> bool" where
  "utf8_cont b \<longleftrightarrow> 128 \<le> b \<and> b \<le> 191"

fun utf8_char :: "nat list \<Rightarrow> nat list option" where
  "utf8_char [] = None"
| "utf8_char (b # bs) = (
     if b < 128 then Some bs
     else if 194 \<le> b \<and> b \<le> 223 then
       (case bs of c # r \<Rightarrow> if utf8_cont c then Some r else None | _ \<Rightarrow> None)
     else if 224 \<le> b \<and> b \<le> 239 then
       (case bs of c # c' # r \<Rightarrow>
          if utf8_cont c \<and> utf8_cont c' \<and> (b = 224 \<longrightarrow> 160 \<le> c) \<and> (b = 237 \<longrightarrow> c \<le> 159) then Some r else None
        | _ \<Rightarrow> None)
     else if 240 \<le> b \<and> b \<le> 244 then
       (case bs of c # c' # c'' # r \<Rightarrow>
          if utf8_cont c \<and> utf8_cont c' \<and> utf8_cont c'' \<and> (b = 240 \<longrightarrow> 144 \<le> c) \<and> (b = 244 \<longrightarrow> c \<le> 143)
          then Some r else None
        | _ \<Rightarrow> None)
     else None)"

lemma utf8_char_shorter: "utf8_char bs = Some r \<Longrightarrow> length r < length bs"
  by (cases bs) (auto split: if_splits list.splits)

function valid_utf8 :: "nat list \<Rightarrow> bool" where
  "valid_utf8 bs = (bs = [] \<or> (case utf8_char bs of None \<Rightarrow> False | Some r \<Rightarrow> valid_utf8 r))"
  by auto
termination
  by (relation "measure length") (auto simp: utf8_char_shorter)

declare valid_utf8.simps [simp del]

definition is_utf8 :: "string \<Rightarrow> bool" where
  "is_utf8 s = valid_utf8 (map of_char s)"

definition nulstr_key :: "sysfs \<Rightarrow> string \<Rightarrow> string \<Rightarrow> unit dm" where
  "nulstr_key E key value = (
     if key = ''DEVPATH'' then set_syspath E (''/sys'' @ value) False
     else if key = ''ACTION'' then set_action_from_string value
     else if key = ''SUBSYSTEM'' then set_subsystem value
     else if key = ''DEVTYPE'' then set_devtype value
     else if key = ''DEVNAME'' then set_devname value
     else if key = ''SEQNUM'' then set_seqnum_from_string value
     else if key = ''TAGS'' \<or> key = ''CURRENT_TAGS'' then dret ()
     else add_property_internal key value)"

text \<open>The loop over the lines: it ends at the first one without \<open>=\<close>, and keeps \<open>MAJOR\<close> and \<open>MINOR\<close>.\<close>

fun nulstr_lines :: "sysfs \<Rightarrow> string list \<Rightarrow> string \<times> string \<Rightarrow> (string \<times> string) dm" where
  "nulstr_lines E [] mm = dret mm"
| "nulstr_lines E (line # ls) mm = (case split_on CHR ''='' line of
       key # value # _ \<Rightarrow>
         if key = ''MINOR'' then nulstr_lines E ls (fst mm, value)
         else if key = ''MAJOR'' then nulstr_lines E ls (value, snd mm)
         else dbind (nulstr_key E key value) (\<lambda>_. nulstr_lines E ls mm)
     | _ \<Rightarrow> dret mm)"

definition nulstr_body :: "sysfs \<Rightarrow> string \<Rightarrow> unit dm" where
  "nulstr_body E s = dbind (nulstr_lines E (split_on NUL s) ([], [])) (\<lambda>(major, minor).
     dbind (if major \<noteq> [] then set_devnum E major minor else dret ()) (\<lambda>_. update_properties_bufs))"

definition from_nulstr :: "sysfs \<Rightarrow> string \<Rightarrow> (os_errno + device) option" where
  "from_nulstr E s = (if \<not> is_utf8 s then None
     else map_option (\<lambda>(r, d). map_sum id (\<lambda>_. d) r) (nulstr_body E s device_new))"

section \<open>Reading the uevent file and the links of \<open>/sys\<close>\<close>

unbundle bit_operations_syntax

definition ST_IFMT :: "32 word" where "ST_IFMT = 0xF000"
definition ST_IFLNK :: "32 word" where "ST_IFLNK = 0xA000"
definition ST_IFBLK :: "32 word" where "ST_IFBLK = 0x6000"
definition ST_IFDIR :: "32 word" where "ST_IFDIR = 0x4000"
definition ST_IFCHR :: "32 word" where "ST_IFCHR = 0x2000"
definition ST_IRUSR :: "32 word" where "ST_IRUSR = 0x100"

text \<open>\<open>set_sysname_and_sysnum\<close>: the part after the last \<open>/\<close>, and its trailing digits; the loop counts
  down over the characters, which are bytes here.\<close>

fun after_last :: "char \<Rightarrow> string \<Rightarrow> string option" where
  "after_last c [] = None"
| "after_last c (x # xs) = (case after_last c xs of
       Some r \<Rightarrow> Some r | None \<Rightarrow> if x = c then Some xs else None)"

fun digits_from :: "string \<Rightarrow> nat \<Rightarrow> nat" where
  "digits_from s 0 = 0"
| "digits_from s (Suc i) = (if is_digit (s ! i) then digits_from s i else Suc i)"

definition set_sysname_and_sysnum :: "unit dm" where
  "set_sysname_and_sysnum = dbind (dget d_devpath) (\<lambda>devpath.
     case after_last CHR ''/'' devpath of
       None \<Rightarrow> derr EINVAL
     | Some n \<Rightarrow> (let sysname = replace_char CHR ''!'' CHR ''/'' n;
                     ridx = digits_from sysname (length sysname) in
         dput (\<lambda>d. d\<lparr>d_sysnum := (if ridx < length sysname then drop ridx sysname else d_sysnum d),
                    d_sysname := sysname\<rparr>)))"

fun uevent_lines :: "string list \<Rightarrow> string \<times> string \<Rightarrow> (string \<times> string) dm" where
  "uevent_lines [] mm = dret mm"
| "uevent_lines (line # ls) mm = (case split_on CHR ''='' line of
       key # value # _ \<Rightarrow>
         if key = ''DEVTYPE'' then dbind (set_devtype value) (\<lambda>_. uevent_lines ls mm)
         else if key = ''IFINDEX'' then dbind (set_ifindex value) (\<lambda>_. uevent_lines ls mm)
         else if key = ''DEVNAME'' then dbind (set_devname value) (\<lambda>_. uevent_lines ls mm)
         else if key = ''DEVMODE'' then dbind (set_devmode value) (\<lambda>_. uevent_lines ls mm)
         else if key = ''DISKSEQ'' then dbind (set_diskseq value) (\<lambda>_. uevent_lines ls mm)
         else if key = ''MAJOR'' then uevent_lines ls (value, snd mm)
         else if key = ''MINOR'' then uevent_lines ls (fst mm, value)
         else uevent_lines ls mm
     | _ \<Rightarrow> dret mm)"

definition read_uevent_file :: "sysfs \<Rightarrow> unit dm" where
  "read_uevent_file E = dbind (dget (\<lambda>d. d_uevent_loaded d \<or> d_sealed d)) (\<lambda>done.
     if done then dret ()
     else dbind (dget (\<lambda>d. fs_open_read E (d_syspath d @ ''/uevent''))) (\<lambda>file. case file of
         Inl (Some n) \<Rightarrow>
           if n \<in> {EACCES, ENODEV, ENXIO, ENOENT} then dret () else derr (os_from_i32 E n)
       | Inl None \<Rightarrow> derr EINVAL
       | Inr (Inl _) \<Rightarrow> dpanic
       | Inr (Inr buf) \<Rightarrow>
           dbind (uevent_lines (split_on CHR 0x0A buf) ([], [])) (\<lambda>(major, minor).
           dbind (if major \<noteq> [] then set_devnum E major minor else dret ()) (\<lambda>_.
             dput (\<lambda>d. d\<lparr>d_uevent_loaded := True\<rparr>)))))"

text \<open>\<open>readlink_value\<close>: the name of the file a link leads to; a link to the root panics.\<close>

definition readlink_value :: "sysfs \<Rightarrow> string \<Rightarrow> string dm" where
  "readlink_value E path = (case fs_canonicalize E path of
       Inl e \<Rightarrow> derr (io_errno E e)
     | Inr p \<Rightarrow> (case path_file_name p of None \<Rightarrow> dpanic | Some n \<Rightarrow> dret n))"

section \<open>Getters\<close>

definition get_syspath :: "device \<Rightarrow> string option" where
  "get_syspath d = (if d_syspath d = [] then None else Some (d_syspath d))"

definition get_devpath :: "device \<Rightarrow> string option" where
  "get_devpath d = (if d_devpath d = [] then None else Some (d_devpath d))"

definition get_sysname :: "string option dm" where
  "get_sysname = dbind (dget (\<lambda>d. d_sysname d = [])) (\<lambda>empty.
     if empty then dmatch set_sysname_and_sysnum (\<lambda>r. case r of
         Inl _ \<Rightarrow> dret None | Inr _ \<Rightarrow> dget (\<lambda>d. Some (d_sysname d)))
     else dget (\<lambda>d. Some (d_sysname d)))"

definition get_subsystem :: "sysfs \<Rightarrow> string dm" where
  "get_subsystem E = dbind (dget d_subsystem_set) (\<lambda>set.
     dbind (if set then dret () else
       dbind (dget d_syspath) (\<lambda>syspath. dbind (dget d_devpath) (\<lambda>devpath.
       dbind (if fs_exists E (syspath @ ''/subsystem'') then readlink_value E (syspath @ ''/subsystem'')
              else dret []) (\<lambda>filename.
         if filename \<noteq> [] then set_subsystem filename
         else if starts_with ''/module/'' devpath then set_subsystem ''module''
         else if str_contains ''/drivers/'' devpath \<or> str_contains ''/drivers'' devpath then set_drivers_subsystem
         else if starts_with ''/class/'' devpath \<or> starts_with ''/bus/'' devpath then set_subsystem ''subsystem''
         else dput (\<lambda>d. d\<lparr>d_subsystem_set := True\<rparr>))))) (\<lambda>_.
     dbind (dget d_subsystem) (\<lambda>s. if s \<noteq> [] then dret s else derr ENOENT)))"

definition get_ifindex :: "sysfs \<Rightarrow> 32 word dm" where
  "get_ifindex E = dbind (read_uevent_file E) (\<lambda>_.
     dbind (dget d_ifindex) (\<lambda>n. if n = 0 then derr ENOENT else dret n))"

definition get_devtype :: "sysfs \<Rightarrow> string dm" where
  "get_devtype E = dbind (read_uevent_file E) (\<lambda>_.
     dbind (dget d_devtype) (\<lambda>s. if s = [] then derr ENOENT else dret s))"

definition get_devnum :: "sysfs \<Rightarrow> u64 dm" where
  "get_devnum E = dbind (read_uevent_file E) (\<lambda>_.
     dbind (dget d_devnum) (\<lambda>n. if os_major E n = 0 then derr ENOENT else dret n))"

definition get_devname :: "sysfs \<Rightarrow> string dm" where
  "get_devname E = dbind (read_uevent_file E) (\<lambda>_.
     dbind (dget d_devname) (\<lambda>s. if s = [] then derr ENOENT else dret s))"

definition get_diskseq :: "sysfs \<Rightarrow> u64 dm" where
  "get_diskseq E = dbind (read_uevent_file E) (\<lambda>_.
     dbind (dget d_diskseq) (\<lambda>n. if n = 0 then derr ENOENT else dret n))"

definition get_driver :: "sysfs \<Rightarrow> string dm" where
  "get_driver E = dbind (dget d_driver_set) (\<lambda>set.
     dbind (if set then dret () else
       dbind (dget get_syspath) (\<lambda>sp. case sp of
         None \<Rightarrow> dpanic
       | Some syspath \<Rightarrow> dmatch (readlink_value E (syspath @ ''/driver'')) (\<lambda>r. case r of
             Inr n \<Rightarrow> set_driver n
           | Inl e \<Rightarrow> if e \<noteq> ENOENT then derr e else set_driver []))) (\<lambda>_.
     dbind (dget d_driver) (\<lambda>s. if s = [] then derr ENOENT else dret s)))"

definition get_sysnum :: "string dm" where
  "get_sysnum = dbind (dget (\<lambda>d. d_sysname d = [])) (\<lambda>empty.
     dbind (if empty then set_sysname_and_sysnum else dret ()) (\<lambda>_.
     dbind (dget d_sysnum) (\<lambda>s. if s = [] then derr ENOENT else dret s)))"

definition get_action :: "device \<Rightarrow> os_errno + device_action" where
  "get_action d = (if d_action d = Act_Invalid then Inl ENOENT else Inr (d_action d))"

definition get_seqnum :: "device \<Rightarrow> os_errno + u64" where
  "get_seqnum d = (if d_seqnum d = 0 then Inl ENOENT else Inr (d_seqnum d))"

definition get_device_id :: "sysfs \<Rightarrow> string dm" where
  "get_device_id E = dbind (dget d_device_id) (\<lambda>old.
     if old \<noteq> [] then dret old
     else dbind (get_subsystem E) (\<lambda>subsystem.
       dbind (dmatch (get_devnum E) (\<lambda>r. case r of
           Inr n \<Rightarrow> dret ((if subsystem = ''block'' then ''b'' else ''c'') @
                     show_digits (unat (os_major E n)) @ '':'' @ show_digits (unat (os_minor E n)))
         | Inl _ \<Rightarrow> dmatch (get_ifindex E) (\<lambda>r. case r of
             Inr i \<Rightarrow> dret (''n'' @ show_digits (unat i))
           | Inl _ \<Rightarrow> dbind get_sysname (\<lambda>s. case s of
               None \<Rightarrow> derr EINVAL
             | Some sysname \<Rightarrow>
                 if subsystem = ''drivers''
                 then dget (\<lambda>d. ''+drivers:'' @ d_driver_subsystem d @ '':'' @ sysname)
                 else dret (''+'' @ subsystem @ '':'' @ sysname))))) (\<lambda>id.
       dbind (dput (\<lambda>d. d\<lparr>d_device_id := id\<rparr>)) (\<lambda>_. dret id))))"

section \<open>The database\<close>

definition DB_DIRECTORY_PATH :: string where "DB_DIRECTORY_PATH = ''/run/udev/data/''"

definition handle_db_line :: "string \<Rightarrow> string \<Rightarrow> unit dm" where
  "handle_db_line key value = (
     if key = ''G'' \<or> key = ''Q'' then add_tag value (key = ''Q'')
     else if key = ''S'' then add_devlink (''/dev/'' @ value)
     else if key = ''E'' then (case split_on CHR ''='' value of
         [k, v] \<Rightarrow> add_property_internal k v
       | _ \<Rightarrow> derr EINVAL)
     else if key = ''I'' then (case parse_u64 value of
         None \<Rightarrow> derr EINVAL
       | Some t \<Rightarrow> dmatch (set_usec_initialized t) (\<lambda>r. case r of Inl _ \<Rightarrow> derr EINVAL | Inr _ \<Rightarrow> dret ()))
     else if key = ''L'' then (case parse_i32 value of
         None \<Rightarrow> derr EINVAL | Some p \<Rightarrow> dput (\<lambda>d. d\<lparr>d_devlink_priority := p\<rparr>))
     else if key = ''W'' then dret ()
     else if key = ''V'' then (case parse_u32 value of
         None \<Rightarrow> derr EINVAL | Some v \<Rightarrow> dput (\<lambda>d. d\<lparr>d_database_version := v\<rparr>))
     else dret ())"

text \<open>\<open>&line[0..1]\<close> and \<open>&line[2..]\<close>: a line of one character panics.\<close>

definition db_line :: "string \<Rightarrow> unit dm" where
  "db_line line = (if line = [] then dret ()
     else if length line < 2 then dpanic
     else handle_db_line (take 1 line) (drop 2 line))"

definition read_db_internal_filename :: "sysfs \<Rightarrow> string \<Rightarrow> unit dm" where
  "read_db_internal_filename E filename = (case fs_open_read E filename of
       Inl (Some n) \<Rightarrow> if n = ENOENT then dret () else derr (os_from_i32 E n)
     | Inl None \<Rightarrow> derr EINVAL
     | Inr (Inl _) \<Rightarrow> dpanic
     | Inr (Inr buf) \<Rightarrow> dbind (dput (\<lambda>d. d\<lparr>d_is_initialized := True, d_db_loaded := True\<rparr>)) (\<lambda>_.
         dfold db_line (split_on CHR 0x0A buf)))"

definition read_db_internal :: "sysfs \<Rightarrow> bool \<Rightarrow> unit dm" where
  "read_db_internal E force = dbind (dget (\<lambda>d. d_db_loaded d \<or> (\<not> force \<and> d_sealed d))) (\<lambda>done.
     if done then dret ()
     else dbind (get_device_id E) (\<lambda>id. read_db_internal_filename E (DB_DIRECTORY_PATH @ id)))"

definition read_db :: "sysfs \<Rightarrow> unit dm" where
  "read_db E = read_db_internal E False"

definition get_is_initialized :: "sysfs \<Rightarrow> bool dm" where
  "get_is_initialized E = dmatch (read_db E) (\<lambda>r. case r of
       Inl e \<Rightarrow> if e = ENOENT then dret False else derr e
     | Inr _ \<Rightarrow> dget d_is_initialized)"

definition has_tag :: "sysfs \<Rightarrow> string \<Rightarrow> bool dm" where
  "has_tag E tag = dbind (read_db E) (\<lambda>_. dget (\<lambda>d. tag \<in> set (d_all_tags d)))"

definition has_current_tag :: "sysfs \<Rightarrow> string \<Rightarrow> bool dm" where
  "has_current_tag E tag = dbind (read_db E) (\<lambda>_. dget (\<lambda>d. tag \<in> set (d_current_tags d)))"

definition add_nonempty :: "string \<Rightarrow> string \<Rightarrow> unit dm" where
  "add_nonempty key value = (if value \<noteq> [] then add_property_internal key value else dret ())"

definition properties_prepare :: "sysfs \<Rightarrow> unit dm" where
  "properties_prepare E = dbind (read_uevent_file E) (\<lambda>_. dbind (read_db E) (\<lambda>_.
     dbind (dget (\<lambda>d. (d_property_devlinks_outdated d, join_with CHR '' '' (d_devlinks d)))) (\<lambda>(old, links).
     dbind (if old \<and> links \<noteq> [] then dbind (add_property_internal ''DEVLINKS'' links) (\<lambda>_.
              dput (\<lambda>d. d\<lparr>d_property_devlinks_outdated := False\<rparr>)) else dret ()) (\<lambda>_.
     dbind (dget (\<lambda>d. (d_property_tags_outdated d, join_with CHR '':'' (d_all_tags d),
                     join_with CHR '':'' (d_current_tags d)))) (\<lambda>(old, tags, current).
       if old then dbind (add_nonempty ''TAGS'' tags) (\<lambda>_. dbind (add_nonempty ''CURRENT_TAGS'' current) (\<lambda>_.
         dput (\<lambda>d. d\<lparr>d_property_tags_outdated := False\<rparr>)))
       else dret ())))))"

definition get_property_value :: "sysfs \<Rightarrow> string \<Rightarrow> string dm" where
  "get_property_value E key = dbind (properties_prepare E) (\<lambda>_.
     dbind (dget (\<lambda>d. map_of (d_properties d) key)) (\<lambda>v. case v of Some s \<Rightarrow> dret s | None \<Rightarrow> derr ENOENT))"

section \<open>Attributes\<close>

definition remove_cached_sysattr_value :: "string \<Rightarrow> unit dm" where
  "remove_cached_sysattr_value a = dput (\<lambda>d. d\<lparr>d_sysattr_values := AList.delete a (d_sysattr_values d)\<rparr>)"

definition cache_sysattr_value :: "string \<Rightarrow> string \<Rightarrow> unit dm" where
  "cache_sysattr_value a v = (if v = [] then remove_cached_sysattr_value a
     else dput (\<lambda>d. d\<lparr>d_sysattr_values := AList.update a v (d_sysattr_values d)\<rparr>))"

definition get_cached_sysattr_value :: "string \<Rightarrow> device \<Rightarrow> os_errno + string" where
  "get_cached_sysattr_value a d = (case map_of (d_sysattr_values d) a of None \<Rightarrow> Inl ESTALE | Some v \<Rightarrow> Inr v)"

text \<open>\<open>str::replace("\\n\\r", "\\0")\<close>.\<close>

fun replace_lf_cr :: "string \<Rightarrow> string" where
  "replace_lf_cr (x # y # s) =
     (if x = CHR 0x0A \<and> y = CHR 0x0D then NUL # replace_lf_cr s else x # replace_lf_cr (y # s))"
| "replace_lf_cr s = s"

definition read_sysattr :: "sysfs \<Rightarrow> string \<Rightarrow> string \<Rightarrow> string dm" where
  "read_sysattr E a path = (case fs_lstat E path of
       Inl e \<Rightarrow> dbind (remove_cached_sysattr_value a) (\<lambda>_. derr e)
     | Inr mode \<Rightarrow>
         if mode AND ST_IFMT = ST_IFLNK
         then (if a = ''driver'' \<or> a = ''subsystem'' \<or> a = ''module'' then readlink_value E path else derr EINVAL)
         else if mode AND ST_IFMT = ST_IFDIR then derr EISDIR
         else if mode AND ST_IRUSR = 0 then derr EPERM
         else (case fs_open_read E path of
             Inl e \<Rightarrow> derr (io_errno E e)
           | Inr (Inl e) \<Rightarrow> derr (io_errno E e)
           | Inr (Inr v) \<Rightarrow> dret (replace_lf_cr v)))"

definition get_sysattr_value :: "sysfs \<Rightarrow> string \<Rightarrow> string dm" where
  "get_sysattr_value E a = dbind (dget (get_cached_sysattr_value a)) (\<lambda>c. case c of
       Inr v \<Rightarrow> dret v
     | Inl e \<Rightarrow> if e \<noteq> ESTALE then derr e
         else dbind (dget get_syspath) (\<lambda>sp. case sp of
             None \<Rightarrow> dpanic
           | Some syspath \<Rightarrow> dbind (read_sysattr E a (syspath @ ''/'' @ a)) (\<lambda>value.
               dbind (cache_sysattr_value a value) (\<lambda>_. dret value))))"

definition set_sysattr_value :: "sysfs \<Rightarrow> string \<Rightarrow> string option \<Rightarrow> unit dm" where
  "set_sysattr_value E a value = (case value of
       None \<Rightarrow> remove_cached_sysattr_value a
     | Some v \<Rightarrow> dbind (dget (\<lambda>d. fs_open_write E (d_syspath d @ ''/'' @ a) v)) (\<lambda>w. case w of
         Inl e \<Rightarrow> derr (io_errno E e)
       | Inr (Inl e) \<Rightarrow> dbind (remove_cached_sysattr_value a) (\<lambda>_. derr (io_errno E e))
       | Inr (Inr _) \<Rightarrow> if a = ''uevent'' then dret () else cache_sysattr_value a v))"

definition trigger :: "sysfs \<Rightarrow> device_action \<Rightarrow> unit dm" where
  "trigger E a = set_sysattr_value E ''uevent'' (Some (action_to_string a))"

end
