(* ===== verification/Dev_Lookup.thy ===== *)
theory Dev_Lookup
  imports Dev_Device
begin

text \<open>
  Looking a device up (\<open>src/libs/device/src/device.rs\<close>): the constructors from a device number, a
  path, an interface index, a subsystem and name and a device id, the parent of a device, and
  \<open>open\<close> with the checks that the node that is opened is the device. \<open>parse_devnum\<close>,
  \<open>parse_ifindex\<close>, \<open>parse_mode\<close> and \<open>device_path_parse_devnum\<close> are those of
  \<open>src/libs/basic/src/parse_util.rs\<close>.
\<close>

section \<open>Parsing\<close>

definition parse_devnum :: "sysfs \<Rightarrow> string \<Rightarrow> u64 option" where
  "parse_devnum E s = (case split_on CHR '':'' s of
       [ma, mi] \<Rightarrow> do { major \<leftarrow> parse_u64 ma; minor \<leftarrow> parse_u64 mi; Some (os_makedev E major minor) }
     | _ \<Rightarrow> None)"

definition device_path_parse_devnum :: "sysfs \<Rightarrow> string \<Rightarrow> (32 word \<times> u64) option" where
  "device_path_parse_devnum E path = do {
     mode \<leftarrow> (if starts_with ''/dev/block/'' path then Some ST_IFBLK
             else if starts_with ''/dev/char/'' path then Some ST_IFCHR else None);
     filename \<leftarrow> path_file_name path;
     devnum \<leftarrow> parse_devnum E filename;
     Some (mode, devnum) }"

definition parse_ifindex :: "string \<Rightarrow> 32 word option" where
  "parse_ifindex s = parse_u32 s"

section \<open>Constructors\<close>

text \<open>A constructor runs the setters on a new device and drops it on an error.\<close>

definition build :: "unit dm \<Rightarrow> (os_errno + device) option" where
  "build m = map_option (\<lambda>(r, d). map_sum id (\<lambda>_. d) r) (m device_new)"

definition from_syspath :: "sysfs \<Rightarrow> string \<Rightarrow> bool \<Rightarrow> (os_errno + device) option" where
  "from_syspath E syspath strict = (
     if strict \<and> \<not> starts_with ''/sys/'' syspath then Some (Inl EINVAL)
     else build (set_syspath E syspath True))"

definition dev_type_dir :: "32 word \<Rightarrow> string option" where
  "dev_type_dir mode = (if mode AND ST_IFMT = ST_IFCHR then Some ''char''
     else if mode AND ST_IFMT = ST_IFBLK then Some ''block'' else None)"

definition from_mode_and_devnum :: "sysfs \<Rightarrow> 32 word \<Rightarrow> u64 \<Rightarrow> (os_errno + device) option" where
  "from_mode_and_devnum E mode devnum = (case dev_type_dir mode of
       None \<Rightarrow> Some (Inl ENOTTY)
     | Some t \<Rightarrow>
         if os_major E devnum = 0 then Some (Inl ENODEV)
         else build (dbind (set_syspath E (''/sys/dev/'' @ t @ ''/'' @ show_digits (unat (os_major E devnum)) @
                               '':'' @ show_digits (unat (os_minor E devnum))) True) (\<lambda>_.
           dbind (get_devnum E) (\<lambda>n. if n \<noteq> devnum then derr EINVAL else
           dbind (get_subsystem E) (\<lambda>s.
             if (s = ''block'') \<noteq> (mode AND ST_IFMT = ST_IFBLK) then derr EINVAL else dret ())))))"

definition from_devnum :: "sysfs \<Rightarrow> char \<Rightarrow> u64 \<Rightarrow> (os_errno + device) option" where
  "from_devnum E t devnum = (
     if t \<noteq> CHR ''b'' \<and> t \<noteq> CHR ''c'' then Some (Inl EINVAL)
     else from_mode_and_devnum E (if t = CHR ''b'' then ST_IFBLK else ST_IFCHR) devnum)"

definition from_devname :: "sysfs \<Rightarrow> string \<Rightarrow> (os_errno + device) option" where
  "from_devname E devname = (
     if \<not> starts_with ''/dev'' devname then Some (Inl EINVAL)
     else case device_path_parse_devnum E devname of
       Some (mode, devnum) \<Rightarrow> from_mode_and_devnum E mode devnum
     | None \<Rightarrow> (case fs_stat E devname of
           Inr (mode, rdev) \<Rightarrow> from_mode_and_devnum E mode rdev
         | Inl e \<Rightarrow> Some (Inl (if e \<in> {ENODEV, ENXIO, ENOENT} then ENODEV else e))))"

definition from_path :: "sysfs \<Rightarrow> string \<Rightarrow> (os_errno + device) option" where
  "from_path E path = (if starts_with ''/dev'' path then from_devname E path
     else from_syspath E path False)"

definition from_ifindex :: "sysfs \<Rightarrow> 32 word \<Rightarrow> (os_errno + device) option" where
  "from_ifindex E ifindex = (case os_if_indextoname E ifindex of
       None \<Rightarrow> Some (Inl ENXIO)
     | Some name \<Rightarrow>
         if \<not> is_utf8 name then Some (Inl EINVAL)
         else case from_syspath E (''/sys/class/net/'' @ name) True of
           None \<Rightarrow> None
         | Some (Inl e) \<Rightarrow> Some (Inl e)
         | Some (Inr dev) \<Rightarrow> (case get_ifindex E dev of
               None \<Rightarrow> None
             | Some (Inl e, _) \<Rightarrow> Some (Inl (if e = ENOENT then ENXIO else e))
             | Some (Inr i, dev') \<Rightarrow> Some (if i \<noteq> ifindex then Inl ENXIO else Inr dev')))"

text \<open>One attempt of \<open>from_subsystem_sysname\<close>: only \<open>ENODEV\<close> lets the next one run.\<close>

definition try_syspath :: "sysfs \<Rightarrow> string \<Rightarrow> (os_errno + device) option \<Rightarrow> (os_errno + device) option" where
  "try_syspath E path rest = (case from_syspath E path True of
       None \<Rightarrow> None
     | Some (Inr d) \<Rightarrow> Some (Inr d)
     | Some (Inl e) \<Rightarrow> if e \<noteq> ENODEV then Some (Inl e) else rest)"

definition from_subsystem_sysname :: "sysfs \<Rightarrow> string \<Rightarrow> string \<Rightarrow> (os_errno + device) option" where
  "from_subsystem_sysname E subsystem sysname0 = (
     let sysname = replace_char CHR ''/'' CHR ''!'' sysname0;
         rest = try_syspath E (''/sys/bus/'' @ subsystem @ ''/devices/'' @ sysname)
               (try_syspath E (''/sys/class/'' @ subsystem @ ''/devices/'' @ sysname)
               (try_syspath E (''/sys/firmware/'' @ subsystem @ ''/devices/'' @ sysname) (Some (Inl ENODEV))))
     in if subsystem = ''subsystem''
        then try_syspath E (''/sys/bus/'' @ sysname) (try_syspath E (''/sys/class/'' @ sysname) rest)
        else if subsystem = ''module'' then try_syspath E (''/sys/module/'' @ sysname) rest
        else if subsystem = ''drivers'' then (case split_once CHR '':'' sysname of
            Some (subsys, sep) \<Rightarrow>
              if sep = [] then rest
              else try_syspath E (if sep = ''drivers'' then ''/sys/bus/'' @ subsys @ ''/drivers''
                                  else ''/sys/bus/'' @ subsys @ ''/drivers/'' @ sep) rest
          | None \<Rightarrow> rest)
        else rest)"

definition from_device_id :: "sysfs \<Rightarrow> string \<Rightarrow> (os_errno + device) option" where
  "from_device_id E devid = (case devid of
       c # r \<Rightarrow>
         if r = [] then Some (Inl EINVAL)
         else if c = CHR ''b'' \<or> c = CHR ''c'' then (case parse_devnum E r of
             None \<Rightarrow> Some (Inl EINVAL) | Some devnum \<Rightarrow> from_devnum E c devnum)
         else if c = CHR ''n'' then (case parse_ifindex r of
             None \<Rightarrow> Some (Inl EINVAL) | Some i \<Rightarrow> from_ifindex E i)
         else if c = CHR ''+'' then (case split_once CHR '':'' r of
             None \<Rightarrow> Some (Inl EINVAL)
           | Some (subsystem, sysname) \<Rightarrow>
               if sysname = [] then Some (Inl EINVAL)
               else from_subsystem_sysname E subsystem sysname)
         else Some (Inl EINVAL)
     | [] \<Rightarrow> Some (Inl EINVAL))"

section \<open>The parent\<close>

text \<open>The loop of \<open>new_from_child\<close> over the directories above a device.\<close>

function parent_loop :: "sysfs \<Rightarrow> string option \<Rightarrow> (os_errno + device) option" where
  "parent_loop E None = Some (Inl ENODEV)"
| "parent_loop E (Some p) = (
     if path_components p = [''sys''] \<and> starts_with ''/'' p then Some (Inl ENODEV)
     else case from_syspath E p True of
       None \<Rightarrow> None
     | Some (Inr d) \<Rightarrow> Some (Inr d)
     | Some (Inl e) \<Rightarrow> if e \<noteq> ENODEV then Some (Inl e) else parent_loop E (path_parent p))"
  by pat_completeness auto
termination
  by (relation "measure (\<lambda>(E, q). case q of None \<Rightarrow> 0 | Some p \<Rightarrow> Suc (length p))")
    (auto split: option.split dest: path_parent_shorter)

declare parent_loop.simps(2) [simp del]

definition new_from_child :: "sysfs \<Rightarrow> device \<Rightarrow> (os_errno + device) option" where
  "new_from_child E d = (case get_syspath d of
       None \<Rightarrow> Some (Inl EINVAL) | Some syspath \<Rightarrow> parent_loop E (path_parent syspath))"

text \<open>A device with the parent it has cached.\<close>

datatype device_tree = DeviceTree (dt_device: device) (dt_parent: "device_tree option")

definition cached_parent :: "device_tree \<Rightarrow> os_errno + device_tree" where
  "cached_parent t = (case dt_parent t of None \<Rightarrow> Inl ENOENT | Some p \<Rightarrow> Inr p)"

definition get_parent :: "sysfs \<Rightarrow> (device_tree, device_tree) dev_m" where
  "get_parent E t = (let d = dt_device t; set = d\<lparr>d_parent_set := True\<rparr> in
     if d_parent_set d then Some (cached_parent t, t)
     else case new_from_child E d of
       None \<Rightarrow> None
     | Some (Inr p) \<Rightarrow> (let t' = DeviceTree set (Some (DeviceTree p None)) in Some (cached_parent t', t'))
     | Some (Inl e) \<Rightarrow>
         if e \<noteq> ENODEV then Some (Inl e, t)
         else (let t' = DeviceTree set (dt_parent t) in Some (cached_parent t', t')))"

section \<open>Opening the node of a device\<close>

text \<open>The system calls behind \<open>open\<close>: \<open>open\<close>, \<open>openat\<close>, \<open>fstat\<close>, whether \<open>statfs\<close> finds the
  type of the proc file system on \<open>/proc/\<close>, and the ioctl that reads a disk sequence number.\<close>

record fd_sys =
  os_open :: "string \<Rightarrow> 32 word \<Rightarrow> os_errno + int"
  os_openat :: "int \<Rightarrow> string \<Rightarrow> 32 word \<Rightarrow> os_errno + int"
  os_fstat :: "int \<Rightarrow> os_errno + 32 word \<times> u64"
  os_proc_is_procfs :: "os_errno + bool"
  os_blk_get_diskseq :: "int \<Rightarrow> os_errno + u64"

definition O_PATH :: "32 word" where "O_PATH = 0x200000"
definition O_CLOEXEC :: "32 word" where "O_CLOEXEC = 0x80000"
definition O_NOFOLLOW :: "32 word" where "O_NOFOLLOW = 0x20000"
definition O_DIRECTORY :: "32 word" where "O_DIRECTORY = 0x10000"

definition show_i32 :: "int \<Rightarrow> string" where
  "show_i32 n = (if n < 0 then CHR ''-'' # show_digits (nat (- n)) else show_digits (nat n))"

definition proc_mounted :: "fd_sys \<Rightarrow> os_errno + bool" where
  "proc_mounted F = (case os_proc_is_procfs F of
       Inr r \<Rightarrow> Inr r
     | Inl e \<Rightarrow> if e = ENOENT then Inr False else Inl e)"

definition fd_reopen :: "fd_sys \<Rightarrow> int \<Rightarrow> 32 word \<Rightarrow> os_errno + int" where
  "fd_reopen F fd oflags = (
     if oflags AND O_DIRECTORY \<noteq> 0 then os_openat F fd ''.'' oflags
     else case os_open F (''/proc/self/fd/'' @ show_i32 fd) oflags of
       Inr n \<Rightarrow> Inr n
     | Inl e \<Rightarrow>
         if e \<noteq> ENOENT then Inl e
         else case proc_mounted F of
           Inl _ \<Rightarrow> Inl ENOENT
         | Inr mounted \<Rightarrow> if \<not> mounted then Inl ENOSYS else Inl EBADF)"

definition errno_is_not_supported :: "os_errno \<Rightarrow> bool" where
  "errno_is_not_supported e \<longleftrightarrow> e \<in> set [EOPNOTSUPP, ENOTTY, ENOSYS, EAFNOSUPPORT, EPFNOSUPPORT, EPROTONOSUPPORT, ESOCKTNOSUPPORT]"

definition fd_get_diskseq :: "fd_sys \<Rightarrow> int \<Rightarrow> os_errno + u64" where
  "fd_get_diskseq F fd = (case os_blk_get_diskseq F fd of
       Inr n \<Rightarrow> Inr n
     | Inl e \<Rightarrow> if \<not> errno_is_not_supported e \<and> e \<noteq> EINVAL then Inl e else Inl EOPNOTSUPP)"

text \<open>\<open>str::parse::<bool>\<close>.\<close>

definition parse_rust_bool :: "string \<Rightarrow> bool option" where
  "parse_rust_bool s = (if s = ''true'' then Some True else if s = ''false'' then Some False else None)"

definition noexec :: "os_errno \<Rightarrow> os_errno" where
  "noexec e = (if e = ENOENT then ENOEXEC else e)"

text \<open>The expected \<open>diskseq\<close>, 0 when it is not to be checked.\<close>

definition expected_diskseq :: "sysfs \<Rightarrow> u64 dm" where
  "expected_diskseq E = dbind (get_is_initialized E) (\<lambda>init.
     if \<not> init then dret 0
     else dmatch (get_property_value E ''ID_IGNORE_DISKSEQ'') (\<lambda>r. case r of
         Inl e \<Rightarrow> if e \<noteq> ENOENT then derr e else dret 0
       | Inr v \<Rightarrow> (case parse_rust_bool v of
             None \<Rightarrow> derr EINVAL
           | Some True \<Rightarrow> dret 0
           | Some False \<Rightarrow> dmatch (get_diskseq E) (\<lambda>r. case r of
               Inr n \<Rightarrow> dret n | Inl e \<Rightarrow> if e \<noteq> ENOENT then derr e else dret 0))))"

definition node_matches :: "32 word \<Rightarrow> u64 \<Rightarrow> u64 \<Rightarrow> string \<Rightarrow> bool" where
  "node_matches mode rdev devnum subsystem \<longleftrightarrow>
     rdev = devnum \<and> mode AND ST_IFMT = (if subsystem = ''block'' then ST_IFBLK else ST_IFCHR)"

text \<open>The part after the first \<open>open\<close>; beside the result stands the list of the descriptors that are
  open afterwards. The descriptor is checked, and reopened with the flags asked for.\<close>

definition open_checked :: "sysfs \<Rightarrow> fd_sys \<Rightarrow> 32 word \<Rightarrow> u64 \<Rightarrow> string \<Rightarrow> int \<Rightarrow> ((os_errno + int) \<times> int list) dm" where
  "open_checked E F oflags devnum subsystem fd = (case os_fstat F fd of
       Inl e \<Rightarrow> dret (Inl e, [fd])
     | Inr (mode, rdev) \<Rightarrow>
         if \<not> node_matches mode rdev devnum subsystem then dret (Inl ENXIO, [fd])
         else if oflags AND O_PATH \<noteq> 0 then dret (Inr fd, [fd])
         else dmatch (expected_diskseq E) (\<lambda>r. case r of
             Inl e \<Rightarrow> dret (Inl e, [fd])
           | Inr diskseq \<Rightarrow> (case fd_reopen F fd oflags of
               Inl e \<Rightarrow> dret (Inl e, [fd])
             | Inr fd2 \<Rightarrow>
                 if diskseq = 0 then dret (Inr fd2, [fd, fd2])
                 else (case fd_get_diskseq F fd2 of
                     Inl e \<Rightarrow> dret (Inl e, [fd, fd2])
                   | Inr q \<Rightarrow> dret (if q \<noteq> diskseq then Inl ENXIO else Inr fd2, [fd, fd2])))))"

definition dev_open :: "sysfs \<Rightarrow> fd_sys \<Rightarrow> 32 word \<Rightarrow> ((os_errno + int) \<times> int list) dm" where
  "dev_open E F oflags = dmatch (get_devname E) (\<lambda>r. case r of
       Inl e \<Rightarrow> dret (Inl (noexec e), [])
     | Inr devname \<Rightarrow> dmatch (get_devnum E) (\<lambda>r. case r of
         Inl e \<Rightarrow> dret (Inl (noexec e), [])
       | Inr devnum \<Rightarrow> dmatch (get_subsystem E) (\<lambda>r.
           case (case r of Inr s \<Rightarrow> Inr s | Inl e \<Rightarrow> if e \<noteq> ENOENT then Inl e else Inr []) of
             Inl e \<Rightarrow> dret (Inl e, [])
           | Inr subsystem \<Rightarrow>
               (case os_open F devname (if oflags AND O_PATH \<noteq> 0 then oflags
                                        else O_CLOEXEC OR O_NOFOLLOW OR O_PATH) of
                  Inl e \<Rightarrow> dret (Inl e, [])
                | Inr fd \<Rightarrow> open_checked E F oflags devnum subsystem fd))))"

end
