(* ===== verification/Dev_Device_Inv.thy ===== *)
theory Dev_Device_Inv
  imports Dev_Lookup
begin

text \<open>
  The invariant of a \<open>Device\<close> and when its methods panic: the property maps have distinct non-empty
  keys and values, the message buffer is the encoding of the properties unless it is marked outdated,
  the paths agree with each other, and the current tags are tags. Every method maintains it on success
  and on error. The methods panic only for a device without a path or an environment whose files are
  not text or hold a line of one character.
\<close>

section \<open>The invariant\<close>

definition good_map :: "(string \<times> string) list \<Rightarrow> bool" where
  "good_map ps \<longleftrightarrow> distinct (map fst ps) \<and> (\<forall>(k, v)\<in>set ps. k \<noteq> [] \<and> v \<noteq> [])"

lemma set_alist_update: "x \<in> set (AList.update k v ps) \<Longrightarrow> x = (k, v) \<or> x \<in> set ps"
  by (induction ps) (auto split: if_splits)

lemma good_map_Nil [simp]: "good_map []"
  by (simp add: good_map_def)

lemma good_map_update: "good_map ps \<Longrightarrow> k \<noteq> [] \<Longrightarrow> v \<noteq> [] \<Longrightarrow> good_map (AList.update k v ps)"
  by (auto simp: good_map_def distinct_update dest!: set_alist_update)

lemma good_map_delete: "good_map ps \<Longrightarrow> good_map (AList.delete k ps)"
  by (auto simp: good_map_def AList.delete_eq intro: distinct_map_filter)

definition paths_agree :: "string \<Rightarrow> string \<Rightarrow> bool" where
  "paths_agree syspath devpath \<longleftrightarrow>
     (syspath = [] \<and> devpath = []) \<or> (syspath = ''/sys'' @ devpath \<and> starts_with ''/'' devpath)"

definition dev_inv :: "device \<Rightarrow> bool" where
  "dev_inv d \<longleftrightarrow>
     good_map (d_properties d) \<and> good_map (d_properties_db d) \<and>
     (\<not> d_properties_buf_outdated d \<longrightarrow>
        d_properties_nulstr d = nulstr_of (d_properties d) \<and>
        d_properties_nulstr_len d = length (d_properties_nulstr d)) \<and>
     paths_agree (d_syspath d) (d_devpath d) \<and>
     distinct (d_all_tags d) \<and> distinct (d_current_tags d) \<and> distinct (d_devlinks d) \<and>
     set (d_current_tags d) \<subseteq> set (d_all_tags d) \<and>
     distinct (map fst (d_sysattr_values d)) \<and> (\<forall>v\<in>snd ` set (d_sysattr_values d). v \<noteq> [])"

lemma dev_inv_new: "dev_inv device_new"
  by (simp add: dev_inv_def device_new_def paths_agree_def)

text \<open>The invariant, and for \<open>b\<close> that the device has a path.\<close>

definition dev_ok :: "bool \<Rightarrow> device \<Rightarrow> bool" where
  "dev_ok b d \<longleftrightarrow> dev_inv d \<and> (b \<longrightarrow> d_syspath d \<noteq> [])"

text \<open>The fields outside the invariant.\<close>

lemma dev_ok_free [simp]:
  "dev_ok ok (d\<lparr>d_subsystem := s\<rparr>) = dev_ok ok d" "dev_ok ok (d\<lparr>d_subsystem_set := b\<rparr>) = dev_ok ok d"
  "dev_ok ok (d\<lparr>d_driver_subsystem := s\<rparr>) = dev_ok ok d" "dev_ok ok (d\<lparr>d_devtype := s\<rparr>) = dev_ok ok d"
  "dev_ok ok (d\<lparr>d_ifindex := i\<rparr>) = dev_ok ok d" "dev_ok ok (d\<lparr>d_devname := s\<rparr>) = dev_ok ok d"
  "dev_ok ok (d\<lparr>d_devmode := i\<rparr>) = dev_ok ok d" "dev_ok ok (d\<lparr>d_devnum := n\<rparr>) = dev_ok ok d"
  "dev_ok ok (d\<lparr>d_diskseq := n\<rparr>) = dev_ok ok d" "dev_ok ok (d\<lparr>d_action := a\<rparr>) = dev_ok ok d"
  "dev_ok ok (d\<lparr>d_seqnum := n\<rparr>) = dev_ok ok d" "dev_ok ok (d\<lparr>d_driver := s\<rparr>) = dev_ok ok d"
  "dev_ok ok (d\<lparr>d_driver_set := b\<rparr>) = dev_ok ok d" "dev_ok ok (d\<lparr>d_usec_initialized := n\<rparr>) = dev_ok ok d"
  "dev_ok ok (d\<lparr>d_sysname := s\<rparr>) = dev_ok ok d" "dev_ok ok (d\<lparr>d_sysnum := s\<rparr>) = dev_ok ok d"
  "dev_ok ok (d\<lparr>d_uevent_loaded := b\<rparr>) = dev_ok ok d" "dev_ok ok (d\<lparr>d_device_id := s\<rparr>) = dev_ok ok d"
  "dev_ok ok (d\<lparr>d_devlink_priority := p\<rparr>) = dev_ok ok d" "dev_ok ok (d\<lparr>d_database_version := i\<rparr>) = dev_ok ok d"
  "dev_ok ok (d\<lparr>d_is_initialized := b\<rparr>) = dev_ok ok d" "dev_ok ok (d\<lparr>d_db_loaded := b\<rparr>) = dev_ok ok d"
  "dev_ok ok (d\<lparr>d_property_devlinks_outdated := b\<rparr>) = dev_ok ok d"
  "dev_ok ok (d\<lparr>d_property_tags_outdated := b\<rparr>) = dev_ok ok d" "dev_ok ok (d\<lparr>d_parent_set := b\<rparr>) = dev_ok ok d"
  by (simp_all add: dev_ok_def dev_inv_def)

text \<open>A method that maintains the invariant and never panics when it holds.\<close>

definition safe_at :: "('d \<Rightarrow> bool) \<Rightarrow> ('d, 'a) dev_m \<Rightarrow> 'd \<Rightarrow> bool" where
  "safe_at I m d \<longleftrightarrow> (\<exists>r d'. m d = Some (r, d') \<and> I d')"

definition safe :: "('d \<Rightarrow> bool) \<Rightarrow> ('d, 'a) dev_m \<Rightarrow> bool" where
  "safe I m \<longleftrightarrow> (\<forall>d. I d \<longrightarrow> safe_at I m d)"

named_theorems safe_intros \<open>a method maintains the invariant and does not panic\<close>

lemma safeI: "maintains I m \<Longrightarrow> (\<And>d. I d \<Longrightarrow> m d \<noteq> None) \<Longrightarrow> safe I m"
  unfolding safe_def safe_at_def maintains_def by fastforce

lemma safe_keeps: "safe I m \<Longrightarrow> maintains I m"
  unfolding safe_def safe_at_def maintains_def by fastforce

lemma safe_total: "safe I m \<Longrightarrow> I d \<Longrightarrow> m d \<noteq> None"
  unfolding safe_def safe_at_def by fastforce

lemma safe_of_total: "total_m m \<Longrightarrow> maintains I m \<Longrightarrow> safe I m"
  by (rule safeI) (auto simp: total_m_def)

lemma safe_basic [safe_intros]: "safe I (dret a)" "safe I (derr e)" "safe I (dget f)"
  by (auto simp: safe_def safe_at_def dm_defs)

lemma safe_put [safe_intros]: "(\<And>d. I d \<Longrightarrow> I (g d)) \<Longrightarrow> safe I (dput g)"
  by (auto simp: safe_def safe_at_def dm_defs)

lemma safe_bind [safe_intros]:
  assumes m: "safe I m" and f: "\<And>a. safe I (f a)"
  shows "safe I (dbind m f)"
proof (rule safeI)
  show "maintains I (dbind m f)" using m f by (intro maintains_bind safe_keeps)
  fix d assume i: "I d"
  obtain r d' where d': "m d = Some (r, d')" "I d'" using m i by (auto simp: safe_def safe_at_def)
  show "dbind m f d \<noteq> None"
    using d' safe_total [OF f d'(2)] by (cases r) (auto simp: dbind_def)
qed

lemma safe_match [safe_intros]:
  assumes m: "safe I m" and f: "\<And>r. safe I (f r)"
  shows "safe I (dmatch m f)"
proof (rule safeI)
  show "maintains I (dmatch m f)" using m f by (intro maintains_match safe_keeps)
  fix d assume i: "I d"
  obtain r d' where d': "m d = Some (r, d')" "I d'" using m i by (auto simp: safe_def safe_at_def)
  show "dmatch m f d \<noteq> None" using d' safe_total [OF f d'(2)] by (auto simp: dmatch_def)
qed

text \<open>A field that has been read is known in the rest of the body.\<close>

lemma safe_get_bind:
  assumes "\<And>d. I d \<Longrightarrow> safe_at I (f (g d)) d"
  shows "safe I (dbind (dget g) f)"
  using assms by (auto simp: safe_def safe_at_def dbind_def dget_def)

lemma safe_atI [intro]: "safe I m \<Longrightarrow> I d \<Longrightarrow> safe_at I m d"
  by (simp add: safe_def)

lemma safe_fold [safe_intros]: "(\<And>x. x \<in> set xs \<Longrightarrow> safe I (f x)) \<Longrightarrow> safe I (dfold f xs)"
  by (induction xs) (auto intro: safe_intros)

lemma safe_if [safe_intros]: "(b \<Longrightarrow> safe I m) \<Longrightarrow> (\<not> b \<Longrightarrow> safe I n) \<Longrightarrow> safe I (if b then m else n)"
  by simp

lemma safe_option [safe_intros]:
  "safe I m \<Longrightarrow> (\<And>x. safe I (f x)) \<Longrightarrow> safe I (case v of None \<Rightarrow> m | Some x \<Rightarrow> f x)"
  by (cases v) auto

lemma safe_sum [safe_intros]:
  "(\<And>e. safe I (f e)) \<Longrightarrow> (\<And>x. safe I (g x)) \<Longrightarrow> safe I (case v of Inl e \<Rightarrow> f e | Inr x \<Rightarrow> g x)"
  by (cases v) auto

lemma safe_prod [safe_intros]: "(\<And>x y. safe I (f x y)) \<Longrightarrow> safe I (case v of (x, y) \<Rightarrow> f x y)"
  by (cases v) auto

lemma safe_list [safe_intros]:
  "safe I m \<Longrightarrow> (\<And>x xs. safe I (f x xs)) \<Longrightarrow> safe I (case v of [] \<Rightarrow> m | x # xs \<Rightarrow> f x xs)"
  by (cases v) auto

section \<open>The setters keep the invariant\<close>

lemma safe_add_property_aux [safe_intros]: "safe (dev_ok ok) (add_property_aux k v db)"
  unfolding add_property_aux_def Let_def
  by (intro safe_intros) (auto simp: dev_ok_def dev_inv_def intro: good_map_update good_map_delete)

lemma safe_add_property_internal [safe_intros]: "safe (dev_ok ok) (add_property_internal k v)"
  unfolding add_property_internal_def by (rule safe_add_property_aux)

lemma safe_add_property [safe_intros]: "safe (dev_ok ok) (add_property k v)"
  unfolding add_property_def by (intro safe_intros)

lemma safe_add_tag [safe_intros]: "safe (dev_ok ok) (add_tag t b)"
  unfolding add_tag_def by (intro safe_intros) (auto simp: dev_ok_def dev_inv_def)

lemma safe_add_devlink [safe_intros]: "safe (dev_ok ok) (add_devlink l)"
  unfolding add_devlink_def by (intro safe_intros) (auto simp: dev_ok_def dev_inv_def)

lemma safe_update_properties_bufs [safe_intros]: "safe (dev_ok ok) update_properties_bufs"
  by (auto simp: safe_def safe_at_def update_properties_bufs_def dret_def dev_ok_def dev_inv_def Let_def)

lemma safe_get_properties_nulstr [safe_intros]: "safe (dev_ok ok) get_properties_nulstr"
  unfolding get_properties_nulstr_def by (intro safe_intros)

lemma safe_setters [safe_intros]:
  "safe (dev_ok ok) (set_subsystem s)" "safe (dev_ok ok) (set_devtype s)" "safe (dev_ok ok) (set_ifindex s)"
  "safe (dev_ok ok) (set_devname s)" "safe (dev_ok ok) (set_devmode s)" "safe (dev_ok ok) (set_diskseq s)"
  "safe (dev_ok ok) (set_devnum E s s')" "safe (dev_ok ok) (set_action a)" "safe (dev_ok ok) (set_seqnum n)"
  "safe (dev_ok ok) (set_driver s)" "safe (dev_ok ok) (set_usec_initialized n)"
  unfolding set_subsystem_def set_devtype_def set_ifindex_def set_devname_def set_devmode_def
    set_diskseq_def set_devnum_def set_action_def set_seqnum_def set_driver_def set_usec_initialized_def Let_def
  by (intro safe_intros; simp)+

lemma safe_set_from_string [safe_intros]:
  "safe (dev_ok ok) (set_action_from_string s)" "safe (dev_ok ok) (set_seqnum_from_string s)"
  unfolding set_action_from_string_def set_seqnum_from_string_def by (intro safe_intros)+

lemma strip_str_Some: "strip_str p s = Some r \<longleftrightarrow> s = p @ r"
  unfolding strip_str_def starts_with_def by (metis append_eq_conv_conj append_take_drop_id option.distinct(1) option.inject)

lemma safe_set_syspath [safe_intros]: "safe (dev_ok ok) (set_syspath E p v)"
proof -
  have "safe (dev_ok ok) (case strip_str ''/sys'' p of
           None \<Rightarrow> derr EINVAL
         | Some devpath \<Rightarrow>
             if \<not> starts_with ''/'' devpath then derr ENODEV
             else dmatch (add_property_internal ''DEVPATH'' devpath) (\<lambda>r. case r of
                 Inl _ \<Rightarrow> derr ENODEV
               | Inr _ \<Rightarrow> dput (\<lambda>d. d\<lparr>d_syspath := p, d_devpath := devpath\<rparr>)))" for p
  proof (cases "strip_str ''/sys'' p")
    case None
    then show ?thesis by (simp add: safe_intros)
  next
    case (Some q)
    have "p = ''/sys'' @ q" using Some by (simp only: strip_str_Some)
    moreover have "starts_with ''/'' q \<Longrightarrow> dev_ok ok d \<Longrightarrow> dev_ok ok (d\<lparr>d_syspath := ''/sys'' @ q, d_devpath := q\<rparr>)" for d
      by (auto simp: dev_ok_def dev_inv_def paths_agree_def)
    ultimately show ?thesis using Some by (auto intro!: safe_intros)
  qed
  then show ?thesis unfolding set_syspath_def by (intro safe_sum safe_basic) auto
qed

lemma safe_nulstr_key [safe_intros]: "safe (dev_ok ok) (nulstr_key E k v)"
  unfolding nulstr_key_def by (intro safe_intros)

lemma safe_nulstr_lines [safe_intros]: "safe (dev_ok ok) (nulstr_lines E ls mm)"
  by (induction ls arbitrary: mm) (auto intro!: safe_intros split: list.split)

lemma safe_nulstr_body [safe_intros]: "safe (dev_ok ok) (nulstr_body E s)"
  unfolding nulstr_body_def by (intro safe_intros)

section \<open>The methods that read the system\<close>

text \<open>The environment of a device whose methods do not panic: an opened file is text, a link does not
  lead to the root, and no line of the database has exactly one character.\<close>

definition sysfs_ok :: "sysfs \<Rightarrow> bool" where
  "sysfs_ok E \<longleftrightarrow>
     (\<forall>p e. fs_open_read E p \<noteq> Inr (Inl e)) \<and>
     (\<forall>p q. fs_canonicalize E p = Inr q \<longrightarrow> path_file_name q \<noteq> None) \<and>
     (\<forall>p buf. fs_open_read E (DB_DIRECTORY_PATH @ p) = Inr (Inr buf) \<longrightarrow>
        (\<forall>l\<in>set (split_on CHR 0x0A buf). length l \<noteq> 1))"

lemma sysfs_file: "sysfs_ok E \<Longrightarrow> fs_open_read E p \<noteq> Inr (Inl e)"
  by (simp add: sysfs_ok_def)

lemma sysfs_link: "sysfs_ok E \<Longrightarrow> fs_canonicalize E p = Inr q \<Longrightarrow> path_file_name q \<noteq> None"
  unfolding sysfs_ok_def by blast

lemma sysfs_db: "sysfs_ok E \<Longrightarrow> fs_open_read E (DB_DIRECTORY_PATH @ p) = Inr (Inr buf) \<Longrightarrow>
    l \<in> set (split_on CHR 0x0A buf) \<Longrightarrow> length l \<noteq> 1"
  unfolding sysfs_ok_def by blast

lemma component_before_Some: "component_before cs (Some p) \<noteq> None"
  by (induction cs arbitrary: p) auto

lemma component_before_path:
  assumes "paths_agree sp dp"
  shows "component_before (split_on CHR ''/'' dp) None \<noteq> None"
proof (cases dp)
  case Nil
  then show ?thesis by simp
next
  case (Cons c r)
  have "c = CHR ''/''" using assms Cons by (auto simp: paths_agree_def starts_with_def)
  then show ?thesis using Cons component_before_Some by simp
qed

lemma safe_set_drivers_subsystem [safe_intros]: "safe (dev_ok ok) set_drivers_subsystem"
  unfolding set_drivers_subsystem_def Let_def
proof (rule safe_get_bind)
  fix d assume d: "dev_ok ok d"
  have "component_before (split_on CHR ''/'' (d_devpath d)) None \<noteq> None"
    using d by (intro component_before_path [of "d_syspath d"]) (auto simp: dev_ok_def dev_inv_def)
  then obtain r where r: "component_before (split_on CHR ''/'' (d_devpath d)) None = Some r" by auto
  let ?m = "\<lambda>subsystem. if subsystem = [] then derr EINVAL
         else dbind (set_subsystem ''drivers'') (\<lambda>_. dput (\<lambda>d. d\<lparr>d_driver_subsystem := subsystem\<rparr>))"
  have "safe (dev_ok ok) (?m s)" for s by (intro safe_intros) simp
  then show "safe_at (dev_ok ok) (case component_before (split_on CHR ''/'' (d_devpath d)) None of
      None \<Rightarrow> dpanic | Some r \<Rightarrow> ?m (case r of None \<Rightarrow> [] | Some s \<Rightarrow> s)) d"
    using d r by (simp only: option.case) (rule safe_atI)
qed

lemma safe_set_sysname [safe_intros]: "safe (dev_ok ok) set_sysname_and_sysnum"
  unfolding set_sysname_and_sysnum_def Let_def by (intro safe_intros) simp

lemma safe_get_sysname [safe_intros]: "safe (dev_ok ok) get_sysname"
  unfolding get_sysname_def by (intro safe_intros)

lemma safe_get_sysnum [safe_intros]: "safe (dev_ok ok) get_sysnum"
  unfolding get_sysnum_def by (intro safe_intros)

lemma safe_uevent_lines [safe_intros]: "safe (dev_ok ok) (uevent_lines ls mm)"
proof (induction ls arbitrary: mm)
  case Nil
  show ?case by (simp add: safe_intros)
next
  case (Cons l ls)
  show ?case by (simp only: uevent_lines.simps) (intro safe_intros Cons.IH)
qed

lemma safe_file:
  assumes "sysfs_ok E" and "\<And>e. safe I (f e)" and "\<And>buf. fs_open_read E p = Inr (Inr buf) \<Longrightarrow> safe I (g buf)"
  shows "safe I (case fs_open_read E p of Inl e \<Rightarrow> f e | Inr (Inl _) \<Rightarrow> dpanic | Inr (Inr buf) \<Rightarrow> g buf)"
  using assms sysfs_file [OF assms(1)] by (auto split: sum.splits)

lemma safe_read_uevent_file [safe_intros]:
  assumes "sysfs_ok E"
  shows "safe (dev_ok ok) (read_uevent_file E)"
proof -
  let ?f = "\<lambda>file. case file of
         Inl (Some n) \<Rightarrow>
           if n \<in> {EACCES, ENODEV, ENXIO, ENOENT} then dret () else derr (os_from_i32 E n)
       | Inl None \<Rightarrow> derr EINVAL
       | Inr (Inl _) \<Rightarrow> dpanic
       | Inr (Inr buf) \<Rightarrow>
           dbind (uevent_lines (split_on CHR 0x0A buf) ([], [])) (\<lambda>(major, minor).
           dbind (if major \<noteq> [] then set_devnum E major minor else dret ()) (\<lambda>_.
             dput (\<lambda>d. d\<lparr>d_uevent_loaded := True\<rparr>)))"
  have "safe (dev_ok ok) (?f (fs_open_read E p))" for p
    by (rule safe_file [OF assms]; intro safe_intros; simp)
  then have "safe (dev_ok ok) (dbind (dget (\<lambda>d. fs_open_read E (d_syspath d @ ''/uevent''))) ?f)"
    by (intro safe_get_bind safe_atI)
  note body = this
  show ?thesis
    unfolding read_uevent_file_def
    by (rule safe_bind [OF safe_basic(3)], rule safe_if [OF safe_basic(1) body])
qed

lemma safe_readlink_value [safe_intros]: "sysfs_ok E \<Longrightarrow> safe I (readlink_value E p)"
  unfolding readlink_value_def using sysfs_link [of E p]
  by (auto intro: safe_intros split: sum.split option.split)

lemma safe_get_subsystem [safe_intros]: "sysfs_ok E \<Longrightarrow> safe (dev_ok ok) (get_subsystem E)"
  unfolding get_subsystem_def by (intro safe_intros) (simp_all add: safe_intros)

lemma safe_uevent_getters [safe_intros]:
  assumes "sysfs_ok E"
  shows "safe (dev_ok ok) (get_ifindex E)" "safe (dev_ok ok) (get_devtype E)" "safe (dev_ok ok) (get_devnum E)"
    "safe (dev_ok ok) (get_devname E)" "safe (dev_ok ok) (get_diskseq E)"
  using assms unfolding get_ifindex_def get_devtype_def get_devnum_def get_devname_def get_diskseq_def
  by (intro safe_intros; simp)+

lemma safe_get_device_id [safe_intros]: "sysfs_ok E \<Longrightarrow> safe (dev_ok ok) (get_device_id E)"
  unfolding get_device_id_def by (intro safe_intros) simp_all

lemma safe_handle_db_line [safe_intros]: "safe (dev_ok ok) (handle_db_line k v)"
  unfolding handle_db_line_def
  by (intro safe_intros) (auto intro!: safe_intros split: list.split)

lemma safe_read_db [safe_intros]:
  assumes E: "sysfs_ok E"
  shows "safe (dev_ok ok) (read_db E)"
proof -
  have line: "safe (dev_ok ok) (db_line l)" if "length l \<noteq> 1" for l
    using that unfolding db_line_def by (cases l) (auto intro!: safe_intros simp: Suc_le_eq)
  have "safe (dev_ok ok) (read_db_internal_filename E (DB_DIRECTORY_PATH @ p))" for p
    unfolding read_db_internal_filename_def
  proof (rule safe_file [OF E])
    fix buf assume "fs_open_read E (DB_DIRECTORY_PATH @ p) = Inr (Inr buf)"
    then show "safe (dev_ok ok) (dbind (dput (\<lambda>d. d\<lparr>d_is_initialized := True, d_db_loaded := True\<rparr>)) (\<lambda>_.
         dfold db_line (split_on CHR 0x0A buf)))"
      using sysfs_db [OF E] by (intro safe_bind safe_put safe_fold line) auto
  qed (intro safe_intros)
  then show ?thesis
    using E unfolding read_db_def read_db_internal_def by (intro safe_intros) simp_all
qed

lemma safe_db_getters [safe_intros]:
  assumes "sysfs_ok E"
  shows "safe (dev_ok ok) (get_is_initialized E)" "safe (dev_ok ok) (has_tag E t)"
    "safe (dev_ok ok) (has_current_tag E t)"
  using assms unfolding get_is_initialized_def has_tag_def has_current_tag_def
  by (intro safe_intros; simp)+

lemma safe_properties_prepare [safe_intros]: "sysfs_ok E \<Longrightarrow> safe (dev_ok ok) (properties_prepare E)"
  unfolding properties_prepare_def add_nonempty_def by (intro safe_intros) simp_all

lemma safe_get_property_value [safe_intros]: "sysfs_ok E \<Longrightarrow> safe (dev_ok ok) (get_property_value E k)"
  unfolding get_property_value_def by (intro safe_intros) simp_all

lemma safe_get_driver [safe_intros]:
  assumes E: "sysfs_ok E"
  shows "safe (dev_ok True) (get_driver E)"
proof -
  let ?f = "\<lambda>syspath. dmatch (readlink_value E (syspath @ ''/driver'')) (\<lambda>r. case r of
             Inr n \<Rightarrow> set_driver n
           | Inl e \<Rightarrow> if e \<noteq> ENOENT then derr e else set_driver [])"
  have f: "safe (dev_ok True) (?f syspath)" for syspath using E by (intro safe_intros) simp_all
  have "safe (dev_ok True) (dbind (dget get_syspath) (\<lambda>sp. case sp of None \<Rightarrow> dpanic | Some s \<Rightarrow> ?f s))"
  proof (rule safe_get_bind)
    fix d assume d: "dev_ok True d"
    then have "get_syspath d = Some (d_syspath d)" by (simp add: get_syspath_def dev_ok_def)
    then show "safe_at (dev_ok True) (case get_syspath d of None \<Rightarrow> dpanic | Some s \<Rightarrow> ?f s) d"
      by (simp only: option.case safe_atI [OF f d])
  qed
  note body = this
  show ?thesis unfolding get_driver_def
    by (intro safe_bind [OF safe_basic(3)] safe_bind [OF safe_if [OF safe_basic(1) body]] safe_if safe_basic)
qed

lemma safe_cache [safe_intros]:
  "safe (dev_ok ok) (remove_cached_sysattr_value a)" "safe (dev_ok ok) (cache_sysattr_value a v)"
proof -
  show r: "safe (dev_ok ok) (remove_cached_sysattr_value a)"
    unfolding remove_cached_sysattr_value_def
    by (intro safe_intros) (auto simp: dev_ok_def dev_inv_def AList.delete_eq intro: distinct_map_filter)
  show "safe (dev_ok ok) (cache_sysattr_value a v)"
    unfolding cache_sysattr_value_def
  proof (intro safe_if r safe_put)
    fix d assume v: "v \<noteq> []" and d: "dev_ok ok d"
    then show "dev_ok ok (d\<lparr>d_sysattr_values := AList.update a v (d_sysattr_values d)\<rparr>)"
      by (auto simp: dev_ok_def dev_inv_def distinct_update dest!: set_alist_update)
  qed
qed

lemma safe_read_sysattr [safe_intros]:
  assumes E: "sysfs_ok E"
  shows "safe (dev_ok ok) (read_sysattr E a p)"
  unfolding read_sysattr_def using E by (intro safe_intros) simp_all

lemma safe_get_sysattr_value [safe_intros]:
  assumes E: "sysfs_ok E"
  shows "safe (dev_ok True) (get_sysattr_value E a)"
proof -
  let ?f = "\<lambda>syspath. dbind (read_sysattr E a (syspath @ ''/'' @ a)) (\<lambda>value.
               dbind (cache_sysattr_value a value) (\<lambda>_. dret value))"
  have f: "safe (dev_ok True) (?f syspath)" for syspath using E by (intro safe_intros) simp_all
  have "safe (dev_ok True) (dbind (dget get_syspath) (\<lambda>sp. case sp of None \<Rightarrow> dpanic | Some s \<Rightarrow> ?f s))"
  proof (rule safe_get_bind)
    fix d assume d: "dev_ok True d"
    then have "get_syspath d = Some (d_syspath d)" by (simp add: get_syspath_def dev_ok_def)
    then show "safe_at (dev_ok True) (case get_syspath d of None \<Rightarrow> dpanic | Some s \<Rightarrow> ?f s) d"
      by (simp only: option.case safe_atI [OF f d])
  qed
  note body = this
  show ?thesis unfolding get_sysattr_value_def
    by (intro safe_bind [OF safe_basic(3)] safe_sum safe_basic safe_if body)
qed

lemma safe_set_sysattr_value [safe_intros]: "safe (dev_ok ok) (set_sysattr_value E a v)"
  unfolding set_sysattr_value_def by (intro safe_intros)

lemma safe_trigger [safe_intros]: "safe (dev_ok ok) (trigger E a)"
  unfolding trigger_def by (rule safe_set_sysattr_value)

lemma safe_expected_diskseq [safe_intros]: "sysfs_ok E \<Longrightarrow> safe (dev_ok ok) (expected_diskseq E)"
  unfolding expected_diskseq_def
  by (intro safe_intros) (simp_all add: safe_intros split: bool.split)

lemma safe_dev_open [safe_intros]: "sysfs_ok E \<Longrightarrow> safe (dev_ok ok) (dev_open E F oflags)"
  unfolding dev_open_def open_checked_def by (intro safe_intros) simp_all

section \<open>Sequences of calls\<close>

text \<open>The public methods of a device.\<close>

datatype dev_call = C_add_property string string | C_get_sysname | C_get_sysnum | C_get_subsystem
  | C_get_ifindex | C_get_devtype | C_get_devnum | C_get_devname | C_get_diskseq | C_get_driver
  | C_get_is_initialized | C_has_tag string | C_has_current_tag string | C_get_property_value string
  | C_get_sysattr_value string | C_set_sysattr_value string "string option" | C_trigger device_action
  | C_open fd_sys "32 word" | C_get_properties_nulstr

definition dvoid :: "'a dm \<Rightarrow> unit dm" where
  "dvoid m = dbind m (\<lambda>_. dret ())"

fun run_call :: "sysfs \<Rightarrow> dev_call \<Rightarrow> unit dm" where
  "run_call E (C_add_property k v) = add_property k v"
| "run_call E C_get_sysname = dvoid get_sysname"
| "run_call E C_get_sysnum = dvoid get_sysnum"
| "run_call E C_get_subsystem = dvoid (get_subsystem E)"
| "run_call E C_get_ifindex = dvoid (get_ifindex E)"
| "run_call E C_get_devtype = dvoid (get_devtype E)"
| "run_call E C_get_devnum = dvoid (get_devnum E)"
| "run_call E C_get_devname = dvoid (get_devname E)"
| "run_call E C_get_diskseq = dvoid (get_diskseq E)"
| "run_call E C_get_driver = dvoid (get_driver E)"
| "run_call E C_get_is_initialized = dvoid (get_is_initialized E)"
| "run_call E (C_has_tag t) = dvoid (has_tag E t)"
| "run_call E (C_has_current_tag t) = dvoid (has_current_tag E t)"
| "run_call E (C_get_property_value k) = dvoid (get_property_value E k)"
| "run_call E (C_get_sysattr_value a) = dvoid (get_sysattr_value E a)"
| "run_call E (C_set_sysattr_value a v) = set_sysattr_value E a v"
| "run_call E (C_trigger a) = trigger E a"
| "run_call E (C_open F fl) = dvoid (dev_open E F fl)"
| "run_call E C_get_properties_nulstr = dvoid get_properties_nulstr"

text \<open>Any number of calls, the environment changing between them; the caller may go on after an error.\<close>

fun run_calls :: "(sysfs \<times> dev_call) list \<Rightarrow> device \<Rightarrow> device option" where
  "run_calls [] d = Some d"
| "run_calls ((E, c) # cs) d = (case run_call E c d of None \<Rightarrow> None | Some (_, d') \<Rightarrow> run_calls cs d')"

lemma safe_run_call: "sysfs_ok E \<Longrightarrow> safe (dev_ok True) (run_call E c)"
  by (cases c) (auto simp: dvoid_def intro!: safe_intros)

lemma run_calls_ok:
  "(\<forall>(E, c)\<in>set cs. sysfs_ok E) \<Longrightarrow> dev_ok True d \<Longrightarrow> \<exists>d'. run_calls cs d = Some d' \<and> dev_ok True d'"
proof (induction cs arbitrary: d)
  case Nil
  then show ?case by simp
next
  case (Cons x cs)
  obtain E c where x: "x = (E, c)" by fastforce
  obtain r d' where "run_call E c d = Some (r, d')" "dev_ok True d'"
    using safe_run_call [of E c] Cons.prems x by (auto simp: safe_def safe_at_def)
  with Cons x show ?case by auto
qed

lemma build_ok:
  assumes "safe dev_inv m" and "build m = Some (Inr d)"
  shows "dev_inv d"
proof -
  obtain r d' where m: "m device_new = Some (r, d')" "dev_inv d'"
    using assms(1) dev_inv_new unfolding safe_def safe_at_def by blast
  then show ?thesis using assms(2) by (cases r) (simp_all add: build_def)
qed

lemma dev_ok_False: "dev_ok False = dev_inv"
  by (simp add: dev_ok_def fun_eq_iff)

lemma from_nulstr_build: "from_nulstr E s = (if is_utf8 s then build (nulstr_body E s) else None)"
  by (simp add: from_nulstr_def build_def)

lemma from_nulstr_inv: "from_nulstr E s = Some (Inr d) \<Longrightarrow> dev_inv d"
  using safe_nulstr_body [of False E s] build_ok
  by (auto simp: from_nulstr_build dev_ok_False split: if_splits)

lemma from_syspath_inv: "from_syspath E p b = Some (Inr d) \<Longrightarrow> dev_inv d"
  using safe_set_syspath [of False E p True] build_ok
  by (auto simp: from_syspath_def dev_ok_False split: if_splits)

lemma nulstr_of_dev_inv:
  "dev_inv d \<Longrightarrow> \<exists>d'. get_properties_nulstr d =
     Some (Inr (nulstr_of (d_properties d), length (nulstr_of (d_properties d))), d')"
  by (auto simp: get_properties_nulstr_def update_properties_bufs_def dm_defs dev_inv_def Let_def)


section \<open>A concrete device\<close>

definition demo_sysfs :: sysfs where
  "demo_sysfs = \<lparr>
     fs_canonicalize = (\<lambda>p. if p = ''/sys/devices/x'' \<or> p = ''/sys/dev/char/8:1'' then Inr ''/sys/devices/x''
                          else if p = ''/sys/devices/x/subsystem'' then Inr ''/sys/class/tty'' else Inl (Some ENOENT)),
     fs_is_dir = (\<lambda>p. True),
     fs_exists = (\<lambda>p. p = ''/sys/devices/x/uevent'' \<or> p = ''/sys/devices/x/subsystem''),
     fs_open_read = (\<lambda>p. if p = ''/sys/devices/x/uevent'' then Inr (Inr (''MAJOR=8'' @ [CHR 0x0A] @ ''MINOR=1'' @ [CHR 0x0A]))
                       else Inl (Some ENOENT)),
     fs_open_write = (\<lambda>p v. Inr (Inr ())), fs_lstat = (\<lambda>p. Inl ENOENT), fs_stat = (\<lambda>p. Inl ENOENT),
     os_if_indextoname = (\<lambda>i. None), os_from_i32 = (\<lambda>n. n),
     os_makedev = (\<lambda>a b. a * 256 + b), os_major = (\<lambda>n. n div 256), os_minor = (\<lambda>n. n mod 256)\<rparr>"

definition demo_msg :: string where
  "demo_msg = ''ACTION=add'' @ [NUL] @ ''DEVPATH=/devices/x'' @ [NUL] @ ''SEQNUM=7'' @ [NUL] @ ''ID=a'' @ [NUL]"

definition demo_device :: device where
  "demo_device = (case from_nulstr demo_sysfs demo_msg of Some (Inr d) \<Rightarrow> d | _ \<Rightarrow> device_new)"

lemma demo_sysfs_ok: "sysfs_ok demo_sysfs"
  by (simp add: sysfs_ok_def demo_sysfs_def path_file_name_def path_components_def DB_DIRECTORY_PATH_def)

lemma demo_received: "from_nulstr demo_sysfs demo_msg = Some (Inr demo_device)"
proof -
  have "(case from_nulstr demo_sysfs demo_msg of Some (Inr d) \<Rightarrow> True | _ \<Rightarrow> False)" by code_simp
  then show ?thesis by (auto simp: demo_device_def split: option.splits sum.splits)
qed

lemma demo_device_path: "d_syspath demo_device \<noteq> []"
  by code_simp


text \<open>A database with a line of one character makes every method that reads it panic.\<close>

lemma db_short_line_panics:
  assumes "get_device_id E d = Some (Inr i, d')" and "\<not> d_db_loaded d" "\<not> d_sealed d"
    and "fs_open_read E (DB_DIRECTORY_PATH @ i) = Inr (Inr (c # CHR 0x0A # rest))" and "c \<noteq> CHR 0x0A"
  shows "read_db E d = None"
  using assms by (simp add: read_db_def read_db_internal_def read_db_internal_filename_def dm_defs db_line_def)

text \<open>A device without a path has no driver and no attribute to look up: the calls panic.\<close>

lemma no_path_panics:
  "d_syspath d = [] \<Longrightarrow> \<not> d_driver_set d \<Longrightarrow> get_driver E d = None"
  "d_syspath d = [] \<Longrightarrow> map_of (d_sysattr_values d) a = None \<Longrightarrow> get_sysattr_value E a d = None"
  by (simp_all add: get_driver_def get_sysattr_value_def get_cached_sysattr_value_def get_syspath_def dm_defs)

section \<open>Opening and identifying a device\<close>

text \<open>\<open>open\<close> returns a descriptor only for the node of the device, and leaves the first one open.\<close>

lemma open_checked_result:
  assumes "open_checked E F fl n sub fd d = Some (Inr (Inr r, fds), d')"
  shows "(\<exists>mode. os_fstat F fd = Inr (mode, n) \<and>
            mode AND ST_IFMT = (if sub = ''block'' then ST_IFBLK else ST_IFCHR)) \<and>
         (if fl AND O_PATH \<noteq> 0 then r = fd \<and> fds = [fd] else fd_reopen F fd fl = Inr r \<and> fds = [fd, r])"
proof (cases "os_fstat F fd")
  case (Inl e)
  then show ?thesis using assms by (simp add: open_checked_def dret_def)
next
  case (Inr st)
  obtain mode rdev where st: "st = (mode, rdev)" by fastforce
  have m: "node_matches mode rdev n sub"
    using assms Inr st by (auto simp: open_checked_def dret_def split: if_splits)
  then have f: "os_fstat F fd = Inr (mode, n)" "mode AND ST_IFMT = (if sub = ''block'' then ST_IFBLK else ST_IFCHR)"
    using Inr st by (simp_all add: node_matches_def)
  show ?thesis
  proof (cases "fl AND O_PATH \<noteq> 0")
    case True
    then show ?thesis using assms Inr st m f by (auto simp: open_checked_def dret_def)
  next
    case False
    have "fd_reopen F fd fl = Inr r \<and> fds = [fd, r]"
      using assms Inr st m False
      by (auto simp: open_checked_def dmatch_def dret_def split: option.splits sum.splits if_splits)
    then show ?thesis using f False by auto
  qed
qed

text \<open>(C34) Opening the node of a device: a descriptor is returned only if the file that was opened under
  the name of the device is of the type of its subsystem and has the device number that the device
  reports; it is the descriptor of that file, or with other flags than \<open>O_PATH\<close> a reopened one. In that
  case the first descriptor is left open as well.\<close>

theorem open_is_the_device:
  assumes "dev_open E F fl d = Some (Inr (Inr r, fds), d')"
  shows "\<exists>name d1 n d2 fd mode sub. get_devname E d = Some (Inr name, d1) \<and> get_devnum E d1 = Some (Inr n, d2) \<and>
     (\<exists>d3. get_subsystem E d2 = Some (Inr sub, d3) \<or> sub = [] \<and> get_subsystem E d2 = Some (Inl ENOENT, d3)) \<and>
     os_open F name (if fl AND O_PATH \<noteq> 0 then fl else O_CLOEXEC OR O_NOFOLLOW OR O_PATH) = Inr fd \<and>
     os_fstat F fd = Inr (mode, n) \<and> mode AND ST_IFMT = (if sub = ''block'' then ST_IFBLK else ST_IFCHR) \<and>
     (if fl AND O_PATH \<noteq> 0 then r = fd \<and> fds = [fd] else fd_reopen F fd fl = Inr r \<and> fds = [fd, r])"
proof -
  obtain name d1 where 1: "get_devname E d = Some (Inr name, d1)"
    using assms by (auto simp: dev_open_def dmatch_def dret_def split: option.splits sum.splits)
  obtain n d2 where 2: "get_devnum E d1 = Some (Inr n, d2)"
    using assms 1 by (auto simp: dev_open_def dmatch_def dret_def split: option.splits sum.splits)
  obtain s d3 where 3: "get_subsystem E d2 = Some (s, d3)"
    using assms 1 2 by (auto simp: dev_open_def dmatch_def dret_def split: option.splits)
  let ?fl = "if fl AND O_PATH \<noteq> 0 then fl else O_CLOEXEC OR O_NOFOLLOW OR O_PATH"
  let ?rest = "\<lambda>sub. case os_open F name ?fl of Inl e \<Rightarrow> dret (Inl e, []) | Inr fd \<Rightarrow> open_checked E F fl n sub fd"
  have e: "dev_open E F fl d = (case (case s of Inr s \<Rightarrow> Inr s | Inl e \<Rightarrow> if e \<noteq> ENOENT then Inl e else Inr []) of
      Inl e \<Rightarrow> dret (Inl e, []) | Inr sub \<Rightarrow> ?rest sub) d3"
    unfolding dev_open_def dmatch_def 1 2 3 by (simp only: option.case sum.case prod.case 1 2 3)
  have "\<exists>sub. (s = Inr sub \<or> sub = [] \<and> s = Inl ENOENT) \<and> ?rest sub d3 = Some (Inr (Inr r, fds), d')"
    using assms e by (cases s) (auto simp: dret_def split: if_splits)
  then obtain sub where sub: "s = Inr sub \<or> sub = [] \<and> s = Inl ENOENT"
    and r: "?rest sub d3 = Some (Inr (Inr r, fds), d')" by blast
  obtain fd where fd: "os_open F name ?fl = Inr fd" "open_checked E F fl n sub fd d3 = Some (Inr (Inr r, fds), d')"
    using r by (cases "os_open F name ?fl") (simp_all add: dret_def)
  obtain mode where mode: "os_fstat F fd = Inr (mode, n)"
      "mode AND ST_IFMT = (if sub = ''block'' then ST_IFBLK else ST_IFCHR)"
    and fds: "if fl AND O_PATH \<noteq> 0 then r = fd \<and> fds = [fd] else fd_reopen F fd fl = Inr r \<and> fds = [fd, r]"
    using open_checked_result [OF fd(2)] by blast
  have 4: "\<exists>d3. get_subsystem E d2 = Some (Inr sub, d3) \<or> sub = [] \<and> get_subsystem E d2 = Some (Inl ENOENT, d3)"
    using 3 sub by auto
  show ?thesis
    by (rule exI [of _ name], rule exI [of _ d1], rule exI [of _ n], rule exI [of _ d2], rule exI [of _ fd],
        rule exI [of _ mode], rule exI [of _ sub], intro conjI) (rule 1 2 4 fd(1) mode fds)+
qed

definition demo_fds :: fd_sys where
  "demo_fds = \<lparr>os_open = (\<lambda>p f. if p = ''/dev/x'' then Inr 3 else if p = ''/proc/self/fd/3'' then Inr 4 else Inl ENOENT),
     os_openat = (\<lambda>fd p f. Inl ENOTDIR),
     os_fstat = (\<lambda>fd. Inr (ST_IFCHR, 2049)), os_proc_is_procfs = Inr True,
     os_blk_get_diskseq = (\<lambda>fd. Inl EINVAL)\<rparr>"

definition demo_node :: device where
  "demo_node = demo_device\<lparr>d_devname := ''/dev/x''\<rparr>"

definition demo_opened :: device where
  "demo_opened = (case dev_open demo_sysfs demo_fds 0 demo_node of Some (_, d) \<Rightarrow> d | None \<Rightarrow> device_new)"

lemma demo_open: "dev_open demo_sysfs demo_fds 0 demo_node = Some (Inr (Inr 4, [3, 4]), demo_opened)"
proof -
  have "map_option fst (dev_open demo_sysfs demo_fds 0 demo_node) = Some (Inr (Inr 4, [3, 4]))" by code_simp
  then show ?thesis by (auto simp: demo_opened_def)
qed

theorem open_is_the_device_witness:
  "\<exists>name d1 n d2 fd mode sub. get_devname demo_sysfs demo_node = Some (Inr name, d1) \<and>
     get_devnum demo_sysfs d1 = Some (Inr n, d2) \<and>
     (\<exists>d3. get_subsystem demo_sysfs d2 = Some (Inr sub, d3) \<or>
        sub = [] \<and> get_subsystem demo_sysfs d2 = Some (Inl ENOENT, d3)) \<and>
     os_open demo_fds name (if 0 AND O_PATH \<noteq> 0 then 0 else O_CLOEXEC OR O_NOFOLLOW OR O_PATH) = Inr fd \<and>
     os_fstat demo_fds fd = Inr (mode, n) \<and> mode AND ST_IFMT = (if sub = ''block'' then ST_IFBLK else ST_IFCHR) \<and>
     (if 0 AND O_PATH \<noteq> 0 then 4 = fd \<and> [3, 4] = [fd] else fd_reopen demo_fds fd 0 = Inr 4 \<and> [3, 4] = [fd, 4])"
  using open_is_the_device [OF demo_open] .

text \<open>The id of a device with a device number names that number.\<close>

lemma digits_no_colon: "CHR '':'' \<notin> set (show_digits n)"
  using show_digits_digits [of n] by (auto simp: list_all_iff is_digit_def)

lemma split_on_colon: "c \<notin> set a \<Longrightarrow> c \<notin> set b \<Longrightarrow> split_on c (a @ c # b) = [a, b]"
proof (induction a)
  case Nil
  then show ?case by simp (induction b, auto)
next
  case (Cons x a)
  then show ?case by auto
qed

lemma parse_u64_digits: "parse_u64 (show_digits (unat (n :: u64))) = Some n"
proof -
  have "int (unat n) \<le> 2 ^ 64 - 1" using uint_bounded [of n] by simp
  then have "parse_int 0 (2 ^ 64 - 1) (show_digits (unat n)) = Some (int (unat n))"
    by (intro parse_show_digits) simp_all
  then show ?thesis by (simp add: parse_u64_def)
qed

lemma parse_devnum_show:
  "parse_devnum E (show_digits (unat a) @ CHR '':'' # show_digits (unat b)) = Some (os_makedev E a b)"
  by (simp add: parse_devnum_def split_on_colon digits_no_colon parse_u64_digits)

lemma maintains_devnum_setters [maintains_intros]:
  "maintains (\<lambda>d. d_devnum d = n) (add_property_internal k v)"
  "maintains (\<lambda>d. d_devnum d = n) (set_subsystem s)" "maintains (\<lambda>d. d_devnum d = n) set_drivers_subsystem"
proof -
  show p: "maintains (\<lambda>d. d_devnum d = n) (add_property_internal k v)" for k v
    unfolding add_property_internal_def add_property_aux_def Let_def by (intro maintains_intros) simp_all
  show s: "maintains (\<lambda>d. d_devnum d = n) (set_subsystem s)" for s
    unfolding set_subsystem_def by (intro maintains_intros p) simp
  show "maintains (\<lambda>d. d_devnum d = n) set_drivers_subsystem"
    unfolding set_drivers_subsystem_def Let_def by (intro maintains_intros s) simp_all
qed

lemma maintains_devnum_get_subsystem: "maintains (\<lambda>d. d_devnum d = n) (get_subsystem E)"
proof -
  have "maintains (\<lambda>d. d_devnum d = n) (readlink_value E p)" for p
    unfolding readlink_value_def by (intro maintains_intros)
  then show ?thesis unfolding get_subsystem_def by (intro maintains_intros) simp_all
qed

lemma dbind_Inr: "dbind m f d = Some (Inr b, d') \<longleftrightarrow> (\<exists>a d1. m d = Some (Inr a, d1) \<and> f a d1 = Some (Inr b, d'))"
  by (auto simp: dbind_def split: option.splits sum.splits)

lemma get_devnum_Inr: "get_devnum E d = Some (Inr n, d') \<Longrightarrow> d_devnum d' = n"
  by (auto simp: get_devnum_def dbind_Inr dget_def dret_def derr_def split: if_splits)

lemma get_subsystem_Inr: "get_subsystem E d = Some (Inr s, d') \<Longrightarrow> d_subsystem d' = s \<and> s \<noteq> []"
  unfolding get_subsystem_def
  by (auto simp: dbind_Inr [where m = "if _ then _ else _"] dbind_Inr [where m = "dget _"] dget_def dret_def derr_def
      split: if_splits)

lemma from_mode_and_devnum_result:
  assumes "from_mode_and_devnum E mode n = Some (Inr d)"
  shows "d_devnum d = n \<and> (d_subsystem d = ''block'' \<longleftrightarrow> mode AND ST_IFMT = ST_IFBLK)"
proof -
  obtain t where t: "dev_type_dir mode = Some t" "os_major E n \<noteq> 0"
    using assms by (auto simp: from_mode_and_devnum_def split: option.splits if_splits)
  define path where "path = ''/sys/dev/'' @ t @ ''/'' @ show_digits (unat (os_major E n)) @ '':'' @ show_digits (unat (os_minor E n))"
  let ?m = "dbind (set_syspath E path True) (\<lambda>_. dbind (get_devnum E) (\<lambda>k. if k \<noteq> n then derr EINVAL else
      dbind (get_subsystem E) (\<lambda>s. if (s = ''block'') \<noteq> (mode AND ST_IFMT = ST_IFBLK) then derr EINVAL else dret ())))"
  have b: "build ?m = Some (Inr d)" using assms t unfolding from_mode_and_devnum_def path_def by simp
  obtain x where x: "?m device_new = Some (x, d)" "\<exists>u. x = Inr u"
    using b unfolding build_def by (cases "?m device_new"; cases "fst (the (?m device_new))") auto
  then have x': "?m device_new = Some (Inr (), d)" by auto
  obtain d1 k d2 where d2: "get_devnum E d1 = Some (Inr k, d2)"
    and r: "(if k \<noteq> n then derr EINVAL else dbind (get_subsystem E)
      (\<lambda>s. if (s = ''block'') \<noteq> (mode AND ST_IFMT = ST_IFBLK) then derr EINVAL else dret ())) d2 = Some (Inr (), d)"
    using x' by (simp only: dbind_Inr [of "set_syspath E path True"] dbind_Inr [of "get_devnum E"]) blast
  have k: "k = n" using r by (auto simp: derr_def split: if_splits)
  obtain s where s: "get_subsystem E d2 = Some (Inr s, d)" "(s = ''block'') = (mode AND ST_IFMT = ST_IFBLK)"
    using r k by (auto simp: dbind_Inr derr_def dret_def split: if_splits)
  have "d_devnum d = n" using maintainsD [OF maintains_devnum_get_subsystem _ s(1)] get_devnum_Inr [OF d2] k by simp
  then show ?thesis using get_subsystem_Inr [OF s(1)] s(2) by simp
qed


definition demo_found :: device where
  "demo_found = (case from_device_id demo_sysfs ''c8:1'' of Some (Inr d) \<Rightarrow> d | _ \<Rightarrow> device_new)"

lemma demo_lookup:
  "from_device_id demo_sysfs ''c8:1'' = Some (Inr demo_found)"
  "\<exists>d1. get_subsystem demo_sysfs demo_device = Some (Inr ''tty'', d1) \<and>
     (\<exists>d2. get_devnum demo_sysfs d1 = Some (Inr 2049, d2))"
  "\<exists>d3. get_device_id demo_sysfs demo_device = Some (Inr ''c8:1'', d3)"
proof -
  have "(case from_device_id demo_sysfs ''c8:1'' of Some (Inr d) \<Rightarrow> True | _ \<Rightarrow> False)" by code_simp
  then show "from_device_id demo_sysfs ''c8:1'' = Some (Inr demo_found)"
    by (auto simp: demo_found_def split: option.splits sum.splits)
  have "map_option fst (get_device_id demo_sysfs demo_device) = Some (Inr ''c8:1'')" by code_simp
  then show "\<exists>d3. get_device_id demo_sysfs demo_device = Some (Inr ''c8:1'', d3)" by auto
  have g: "map_option fst (get_subsystem demo_sysfs demo_device) = Some (Inr ''tty'')" by code_simp
  have "map_option fst (dbind (get_subsystem demo_sysfs) (\<lambda>_. get_devnum demo_sysfs) demo_device) = Some (Inr 2049)"
    by code_simp
  with g show "\<exists>d1. get_subsystem demo_sysfs demo_device = Some (Inr ''tty'', d1) \<and>
     (\<exists>d2. get_devnum demo_sysfs d1 = Some (Inr 2049, d2))" by (auto simp: dbind_def)
qed

lemma demo_makedev: "os_makedev demo_sysfs (os_major demo_sysfs n) (os_minor demo_sysfs n) = n"
  using div_mult_mod_eq [of n 256] by (simp add: demo_sysfs_def)


end
