(* ===== verification/Dev_Monitor.thy ===== *)
theory Dev_Monitor
  imports Dev_Device_Inv
begin

text \<open>
  The netlink messages of the device library (\<open>src/libs/device/src/device_monitor.rs\<close>): sending the
  properties of a device with the header of \<open>send_device\<close>, receiving a message of the kernel or of
  another devmaster, and what survives the way from one to the other.
\<close>

section \<open>Sending and receiving\<close>

definition bytes :: "nat list \<Rightarrow> string" where
  "bytes bs = map char_of bs"

text \<open>\<open>usize::to_be_bytes\<close>: the eight bytes, the most significant first.\<close>

definition to_be_bytes :: "nat \<Rightarrow> nat list" where
  "to_be_bytes n = map (\<lambda>i. n div 256 ^ i mod 256) (rev [0..<8])"

definition device_message :: "string \<Rightarrow> nat \<Rightarrow> string" where
  "device_message nulstr len =
     ''libdevm'' @ [NUL] @ bytes [254, 237, 190, 239] @ bytes [40, 0, 0, 0] @ bytes [40, 0, 0, 0] @
     bytes (take 4 (to_be_bytes len)) @
     bytes [0, 0, 0, 0] @ bytes [0, 0, 0, 0] @ bytes [0, 0, 0, 0] @ bytes [0, 0, 0, 0] @ nulstr"

text \<open>\<open>sendmsg(..).unwrap()\<close>: whether the call succeeds is a parameter; the message is what it sends.\<close>

definition send_device :: "bool \<Rightarrow> string dm" where
  "send_device sent = dbind get_properties_nulstr (\<lambda>(nulstr, len).
     if sent then dret (device_message nulstr len) else dpanic)"

definition RECV_SIZE :: nat where "RECV_SIZE = 8192"

definition str_slice :: "nat \<Rightarrow> nat \<Rightarrow> string \<Rightarrow> string option" where
  "str_slice i n s = (if i \<le> n \<and> n \<le> length s then Some (take (n - i) (drop i s)) else None)"

text \<open>The index of the first zero byte, 0 if there is none.\<close>

definition prefix_end :: "string \<Rightarrow> nat" where
  "prefix_end buf = (let n = length (takeWhile ((\<noteq>) NUL) buf) in if n < length buf then n else 0)"

definition receive_device :: "sysfs \<Rightarrow> os_errno + string \<Rightarrow> (os_errno + device) option" where
  "receive_device E r = (case r of
       Inl e \<Rightarrow> Some (Inl e)
     | Inr msg \<Rightarrow> (let got = take RECV_SIZE msg; n = length got;
                     buf = got @ replicate (RECV_SIZE - n) NUL; idx = prefix_end buf;
                     pre = take idx buf in
         if \<not> is_utf8 pre then None
         else if str_contains ''@/'' pre then (case str_slice (idx + 1) n buf of
             None \<Rightarrow> None | Some s \<Rightarrow> from_nulstr E s)
         else if pre = ''libdevm'' then (case str_slice 40 n buf of
             None \<Rightarrow> None | Some s \<Rightarrow> from_nulstr E s)
         else Some (Inl EINVAL)))"

section \<open>UTF-8\<close>

lemma utf8_char_append: "utf8_char a = Some r \<Longrightarrow> utf8_char (a @ b) = Some (r @ b)"
  by (cases a) (auto split: if_splits list.splits)

lemma valid_utf8_append: "valid_utf8 a \<Longrightarrow> valid_utf8 (a @ b) = valid_utf8 b"
proof (induction a rule: valid_utf8.induct)
  case (1 a)
  show ?case
  proof (cases a)
    case Nil
    then show ?thesis by simp
  next
    case Cons
    then obtain r where r: "utf8_char a = Some r" "valid_utf8 r"
      using "1.prems" by (subst (asm) valid_utf8.simps) (auto split: option.splits)
    then have "valid_utf8 (r @ b) = valid_utf8 b" using "1.IH" Cons by blast
    then show ?thesis using utf8_char_append [OF r(1), of b] Cons by (subst valid_utf8.simps) simp
  qed
qed

lemma utf8_char_ascii:
  assumes "x \<noteq> []" and "c < 128" and "utf8_char (x @ c # y) = Some r"
  shows "\<exists>q. utf8_char x = Some q \<and> r = q @ c # y"
proof -
  have n: "\<not> utf8_cont c" using assms(2) by (simp add: utf8_cont_def)
  obtain b bs where x: "x = b # bs" using assms(1) by (cases x) auto
  consider "bs = []" | d where "bs = [d]" | d e where "bs = [d, e]" | d e f fs where "bs = d # e # f # fs"
    by (metis list.exhaust)
  then show ?thesis using assms(3) x n by cases (auto split: if_splits list.splits)
qed

lemma valid_utf8_split: "valid_utf8 (x @ c # y) \<Longrightarrow> c < 128 \<Longrightarrow> valid_utf8 x \<and> valid_utf8 y"
proof (induction x rule: measure_induct_rule [where f = length])
  case (less x)
  show ?case
  proof (cases x)
    case Nil
    then show ?thesis using less.prems by (subst (asm) valid_utf8.simps) (simp add: valid_utf8.simps [of "[]"])
  next
    case Cons
    then obtain r where r: "utf8_char (x @ c # y) = Some r" "valid_utf8 r"
      using less.prems by (subst (asm) valid_utf8.simps) (auto split: option.splits)
    then obtain q where q: "utf8_char x = Some q" "r = q @ c # y"
      using utf8_char_ascii less.prems Cons by blast
    then have "valid_utf8 q \<and> valid_utf8 y"
      using less r utf8_char_shorter by blast
    then show ?thesis using q Cons by (subst valid_utf8.simps) simp
  qed
qed

lemma is_utf8_append: "is_utf8 a \<Longrightarrow> is_utf8 b \<Longrightarrow> is_utf8 (a @ b)"
  by (simp add: is_utf8_def valid_utf8_append)

lemma is_utf8_Nil [simp]: "is_utf8 []"
  by (simp add: is_utf8_def valid_utf8.simps)

definition ascii :: "string \<Rightarrow> bool" where
  "ascii s \<longleftrightarrow> (\<forall>c\<in>set s. (of_char c :: nat) < 128)"

lemma is_utf8_ascii: "ascii s \<Longrightarrow> is_utf8 s"
proof (induction s)
  case (Cons c s)
  then show ?case unfolding is_utf8_def ascii_def by (subst valid_utf8.simps) auto
qed simp

lemma is_utf8_pieces: "is_utf8 s \<Longrightarrow> (of_char c :: nat) < 128 \<Longrightarrow> p \<in> set (split_on c s) \<Longrightarrow> is_utf8 p"
proof (induction "split_on c s" arbitrary: s p)
  case Nil
  then show ?case by simp
next
  case (Cons q qs)
  show ?case
  proof (cases "c \<in> set s")
    case False
    then have "split_on c s = [s]" by (induction s) auto
    then show ?thesis using Cons.prems by simp
  next
    case True
    then obtain x y where s: "s = x @ c # y" "c \<notin> set x" by (meson split_list_first)
    have sp: "split_on c (x @ c # y) = x # split_on c y" using s(2) by (induction x) (auto split: list.splits)
    have "is_utf8 x \<and> is_utf8 y"
      using Cons.prems(1,2) s(1) valid_utf8_split [of "map of_char x" "of_char c" "map of_char y"] by (simp add: is_utf8_def)
    then show ?thesis using Cons sp s(1) by auto
  qed
qed

section \<open>Clean strings\<close>

text \<open>The keys and values of a parsed message: valid text without a separator.\<close>

definition clean_str :: "string \<Rightarrow> bool" where
  "clean_str s \<longleftrightarrow> is_utf8 s \<and> NUL \<notin> set s \<and> CHR ''='' \<notin> set s"

lemma clean_append: "clean_str a \<Longrightarrow> clean_str b \<Longrightarrow> clean_str (a @ b)"
  by (simp add: clean_str_def is_utf8_append)

lemma clean_ascii: "ascii s \<Longrightarrow> NUL \<notin> set s \<Longrightarrow> CHR ''='' \<notin> set s \<Longrightarrow> clean_str s"
  by (simp add: clean_str_def is_utf8_ascii)

lemma clean_show: "clean_str (show_digits n)"
proof (rule clean_ascii)
  have d: "\<forall>c\<in>set (show_digits n). is_digit c" using show_digits_digits [of n] by (simp add: list_all_iff)
  then show "ascii (show_digits n)" by (auto simp: ascii_def is_digit_def)
  show "NUL \<notin> set (show_digits n)" using d by (auto simp: is_digit_def NUL_def)
  show "CHR ''='' \<notin> set (show_digits n)" using d by (auto simp: is_digit_def)
qed

lemma clean_action: "clean_str (action_to_string a)"
  by (cases a) (auto intro!: clean_ascii simp: ascii_def NUL_def)

lemma clean_lit: "clean_str ''/dev/''" "clean_str ''/sys''" "clean_str []"
  by (auto intro!: clean_ascii simp: ascii_def NUL_def)

lemma split_on_single: "c \<notin> set s \<Longrightarrow> split_on c s = [s]"
  by (induction s) auto

lemma split_on_first: "c \<notin> set x \<Longrightarrow> split_on c (x @ c # y) = x # split_on c y"
  by (induction x) (auto split: list.splits)

lemma clean_pieces:
  assumes "is_utf8 s" and "line \<in> set (split_on NUL s)" and "p \<in> set (split_on CHR ''='' line)"
  shows "clean_str p"
proof -
  have l: "is_utf8 line" using is_utf8_pieces [OF assms(1) _ assms(2)] by (simp add: NUL_def)
  have "is_utf8 p" using is_utf8_pieces [OF l _ assms(3)] by simp
  moreover have "NUL \<notin> set line" using split_on_no_sep assms(2) by fast
  moreover have "set p \<subseteq> set line" using assms(3)
  proof (induction line arbitrary: p)
    case (Cons x xs)
    then show ?case by (cases "split_on CHR ''='' xs") (auto split: if_splits, blast+)
  qed simp
  ultimately show ?thesis using split_on_no_sep assms(3) by (fastforce simp: clean_str_def)
qed

section \<open>The fields of a received device agree with its properties\<close>

definition opt_str :: "string \<Rightarrow> string option" where
  "opt_str s = (if s = [] then None else Some s)"

definition devnum_agrees :: "sysfs \<Rightarrow> device \<Rightarrow> bool" where
  "devnum_agrees E d \<longleftrightarrow>
     (map_of (d_properties d) ''MAJOR'' = None \<and> map_of (d_properties d) ''MINOR'' = None \<and> d_devnum d = 0) \<or>
     (\<exists>ma mi a b. map_of (d_properties d) ''MAJOR'' = Some ma \<and> map_of (d_properties d) ''MINOR'' = Some mi \<and>
        parse_u64 ma = Some a \<and> parse_u64 mi = Some b \<and> d_devnum d = os_makedev E a b)"

definition fields_agree :: "device \<Rightarrow> bool" where
  "fields_agree d \<longleftrightarrow> (let m = map_of (d_properties d) in
     m ''ACTION'' = (if d_action d = Act_Invalid then None else Some (action_to_string (d_action d))) \<and>
     m ''DEVPATH'' = opt_str (d_devpath d) \<and>
     m ''SUBSYSTEM'' = opt_str (d_subsystem d) \<and>
     m ''DEVTYPE'' = opt_str (d_devtype d) \<and>
     m ''DEVNAME'' = opt_str (d_devname d) \<and> (d_devname d \<noteq> [] \<longrightarrow> starts_with ''/'' (d_devname d)) \<and>
     (m ''SEQNUM'' = Some (show_digits (unat (d_seqnum d))) \<or> m ''SEQNUM'' = None \<and> d_seqnum d = 0) \<and>
     m ''TAGS'' = None \<and> m ''CURRENT_TAGS'' = None \<and>
     (\<forall>(k, v)\<in>set (d_properties d). clean_str k \<and> clean_str v))"

definition recv_inv :: "device \<Rightarrow> bool" where
  "recv_inv d \<longleftrightarrow> dev_inv d \<and> fields_agree d \<and> d_devnum d = 0 \<and>
     map_of (d_properties d) ''MAJOR'' = None \<and> map_of (d_properties d) ''MINOR'' = None"

lemma recv_inv_new: "recv_inv device_new"
  using dev_inv_new by (simp add: recv_inv_def fields_agree_def opt_str_def) (simp add: device_new_def)

text \<open>The effect of a successful setter.\<close>

definition put_prop :: "string \<Rightarrow> string \<Rightarrow> device \<Rightarrow> device" where
  "put_prop k v d = d\<lparr>d_properties := (if v = [] then AList.delete k else AList.update k v) (d_properties d),
     d_properties_buf_outdated := True\<rparr>"

lemma add_property_internal_ok: "k \<noteq> [] \<Longrightarrow> add_property_internal k v d = Some (Inr (), put_prop k v d)"
  by (simp add: add_property_internal_def add_property_aux_def put_prop_def dput_def)

lemma add_property_internal_Inr:
  "add_property_internal k v d = Some (Inr (), d') \<Longrightarrow> d' = put_prop k v d \<and> k \<noteq> []"
  by (cases "k = []") (simp_all add: add_property_internal_ok, simp add: add_property_internal_def add_property_aux_def derr_def)

lemma map_of_put_prop [simp]: "map_of (d_properties (put_prop k v d)) = (map_of (d_properties d))(k := opt_str v)"
  by (simp add: put_prop_def opt_str_def update_conv' delete_conv')

lemma set_put_prop: "x \<in> set (d_properties (put_prop k v d)) \<Longrightarrow> x = (k, v) \<or> x \<in> set (d_properties d)"
  by (auto simp: put_prop_def AList.delete_eq dest!: set_alist_update split: if_splits)

lemma put_prop_fields [simp]:
  "d_action (put_prop k v d) = d_action d" "d_devpath (put_prop k v d) = d_devpath d"
  "d_subsystem (put_prop k v d) = d_subsystem d" "d_devtype (put_prop k v d) = d_devtype d"
  "d_devname (put_prop k v d) = d_devname d" "d_seqnum (put_prop k v d) = d_seqnum d"
  "d_devnum (put_prop k v d) = d_devnum d" "d_syspath (put_prop k v d) = d_syspath d"
  by (simp_all add: put_prop_def)

definition special_keys :: "string list" where
  "special_keys = [''ACTION'', ''DEVPATH'', ''SUBSYSTEM'', ''DEVTYPE'', ''DEVNAME'', ''SEQNUM'', ''TAGS'',
     ''CURRENT_TAGS'', ''MAJOR'', ''MINOR'']"

lemma nulstr_keyE:
  assumes "nulstr_key E k v d = Some (Inr (), d')"
  obtains
    (path) "k = ''DEVPATH''" "starts_with ''/'' v"
      "d' = (put_prop k v d)\<lparr>d_syspath := ''/sys'' @ v, d_devpath := v\<rparr>"
  | (action) a where "k = ''ACTION''" "action_from_str v = Inr a" "d' = (put_prop k v d)\<lparr>d_action := a\<rparr>"
  | (subsystem) "k = ''SUBSYSTEM''" "d' = (put_prop k v d)\<lparr>d_subsystem_set := True, d_subsystem := v\<rparr>"
  | (devtype) "k = ''DEVTYPE''" "d' = (put_prop k v d)\<lparr>d_devtype := v\<rparr>"
  | (devname) "k = ''DEVNAME''" "d' = (put_prop k (devname_of v) d)\<lparr>d_devname := devname_of v\<rparr>"
  | (seqnum) n where "k = ''SEQNUM''" "parse_u64 v = Some n"
      "d' = (put_prop k (show_digits (unat n)) d)\<lparr>d_seqnum := n\<rparr>"
  | (tags) "k = ''TAGS'' \<or> k = ''CURRENT_TAGS''" "d' = d"
  | (plain) "k \<notin> set special_keys - {''MAJOR'', ''MINOR''}" "k \<noteq> []" "d' = put_prop k v d"
proof -
  have pth: "starts_with ''/'' v \<and> d' = (put_prop k v d)\<lparr>d_syspath := ''/sys'' @ v, d_devpath := v\<rparr>"
    if "k = ''DEVPATH''"
  proof -
    have s: "strip_str ''/sys'' (''/sys'' @ v) = Some v" by (simp only: strip_str_Some)
    have "nulstr_key E k v = set_syspath E (''/sys'' @ v) False" using that by (simp add: nulstr_key_def)
    then have e: "set_syspath E (''/sys'' @ v) False d = Some (Inr (), d')" using assms by simp
    show ?thesis
      using e s that unfolding set_syspath_def
      by (auto simp: dm_defs add_property_internal_ok split: if_splits)
  qed
  have act: "\<exists>a. action_from_str v = Inr a \<and> d' = (put_prop k v d)\<lparr>d_action := a\<rparr>" if "k = ''ACTION''"
    using assms that action_print [of v]
    by (auto simp: nulstr_key_def set_action_from_string_def set_action_def dm_defs add_property_internal_ok split: sum.splits)
  have seq: "\<exists>n. parse_u64 v = Some n \<and> d' = (put_prop k (show_digits (unat n)) d)\<lparr>d_seqnum := n\<rparr>" if "k = ''SEQNUM''"
    using assms that
    by (auto simp: nulstr_key_def set_seqnum_from_string_def set_seqnum_def dm_defs add_property_internal_ok split: option.splits)
  have sub: "d' = (put_prop k v d)\<lparr>d_subsystem_set := True, d_subsystem := v\<rparr>" if "k = ''SUBSYSTEM''"
    using assms that by (auto simp: nulstr_key_def set_subsystem_def dm_defs add_property_internal_ok)
  have dty: "d' = (put_prop k v d)\<lparr>d_devtype := v\<rparr>" if "k = ''DEVTYPE''"
    using assms that by (auto simp: nulstr_key_def set_devtype_def dm_defs add_property_internal_ok)
  have nam: "d' = (put_prop k (devname_of v) d)\<lparr>d_devname := devname_of v\<rparr>" if "k = ''DEVNAME''"
    using assms that by (auto simp: nulstr_key_def set_devname_def dm_defs add_property_internal_ok Let_def)
  have tag: "d' = d" if "k = ''TAGS'' \<or> k = ''CURRENT_TAGS''"
    using assms that by (auto simp: nulstr_key_def dret_def)
  have oth: "k \<noteq> [] \<and> d' = put_prop k v d" if "k \<notin> set special_keys - {''MAJOR'', ''MINOR''}"
  proof -
    have "nulstr_key E k v = add_property_internal k v" using that by (auto simp: nulstr_key_def special_keys_def)
    then show ?thesis using assms add_property_internal_Inr [of k v d d'] by simp
  qed
  show thesis
  proof (cases "k \<in> set special_keys - {''MAJOR'', ''MINOR''}")
    case False
    with oth [OF False] show thesis by (intro plain) simp_all
  next
    case True
    then consider "k = ''DEVPATH''" | "k = ''ACTION''" | "k = ''SUBSYSTEM''" | "k = ''DEVTYPE''"
      | "k = ''DEVNAME''" | "k = ''SEQNUM''" | "k = ''TAGS'' \<or> k = ''CURRENT_TAGS''"
      unfolding special_keys_def by fastforce
    then show thesis
    proof cases
      case 1 then show thesis using pth [OF 1] by (intro path) simp_all
    next
      case 2 then show thesis using act [OF 2] action by auto
    next
      case 3 then show thesis using sub [OF 3] by (rule subsystem)
    next
      case 4 then show thesis using dty [OF 4] by (rule devtype)
    next
      case 5 then show thesis using nam [OF 5] by (rule devname)
    next
      case 6 then show thesis using seq [OF 6] seqnum by auto
    next
      case 7 then show thesis using tag [OF 7] by (rule tags)
    qed
  qed
qed

lemma devname_of_slash: "starts_with ''/'' (devname_of v)" "devname_of v \<noteq> []"
  by (auto simp: devname_of_def starts_with_def)

lemma show_digits_nonempty [simp]: "show_digits n \<noteq> []"
  using show_digits_digits by simp

lemma clean_props_put:
  "\<forall>(k, v)\<in>set (d_properties d). clean_str k \<and> clean_str v \<Longrightarrow> clean_str k \<Longrightarrow> clean_str v \<Longrightarrow>
   \<forall>(k, v)\<in>set (d_properties (put_prop k v d)). clean_str k \<and> clean_str v"
  by (auto dest!: set_put_prop)

lemma recv_inv_key:
  assumes step: "nulstr_key E k v d = Some (Inr (), d')" and d: "recv_inv d"
    and k: "clean_str k" "k \<noteq> ''MAJOR''" "k \<noteq> ''MINOR''" and v: "clean_str v"
  shows "recv_inv d'"
proof -
  have kp: "maintains dev_inv (nulstr_key E k v)"
    using safe_keeps [OF safe_nulstr_key [of False E k v]] by (simp only: dev_ok_False)
  have di: "dev_inv d" using d by (simp only: recv_inv_def)
  have i: "dev_inv d'" by (rule maintainsD [OF kp di step])
  have cl: "\<forall>(k, v)\<in>set (d_properties d). clean_str k \<and> clean_str v"
    using d by (simp add: recv_inv_def fields_agree_def Let_def)
  note clput = clean_props_put [OF cl k(1)]
  have cdev: "clean_str (devname_of v)" using v clean_append [OF clean_lit(1)] by (simp add: devname_of_def)
  show ?thesis
    using step
  proof (cases rule: nulstr_keyE)
    case path
    then show ?thesis using d i k clput [OF v] by (simp add: recv_inv_def fields_agree_def Let_def)
  next
    case (action a)
    have a: "action_to_string a = v" "a \<noteq> Act_Invalid" using action_print [OF action(2)] by simp_all
    have "opt_str v = Some v" using a(1) by (cases a) (auto simp: opt_str_def)
    then show ?thesis using action d i k clput [OF v] a by (simp add: recv_inv_def fields_agree_def Let_def)
  next
    case subsystem
    then show ?thesis using d i k clput [OF v] by (simp add: recv_inv_def fields_agree_def Let_def)
  next
    case devtype
    then show ?thesis using d i k clput [OF v] by (simp add: recv_inv_def fields_agree_def Let_def)
  next
    case devname
    then show ?thesis using d i k clput [OF cdev] devname_of_slash [of v]
      by (simp add: recv_inv_def fields_agree_def Let_def)
  next
    case (seqnum n)
    then show ?thesis using d i k clput [OF clean_show]
      by (simp add: recv_inv_def fields_agree_def Let_def opt_str_def)
  next
    case tags
    then show ?thesis using d by simp
  next
    case plain
    then have n: "k \<notin> set special_keys" using k by (simp add: special_keys_def)
    have all: "\<forall>x\<in>set special_keys. map_of (d_properties d') x = map_of (d_properties d) x"
      unfolding plain(3) using n by auto
    have f: "d_action d' = d_action d" "d_devpath d' = d_devpath d" "d_subsystem d' = d_subsystem d"
      "d_devtype d' = d_devtype d" "d_devname d' = d_devname d" "d_seqnum d' = d_seqnum d" "d_devnum d' = d_devnum d"
      by (simp_all add: plain(3))
    have c: "\<forall>(k, v)\<in>set (d_properties d'). clean_str k \<and> clean_str v" unfolding plain(3) by (rule clput [OF v])
    show ?thesis using d i all f c by (simp add: recv_inv_def fields_agree_def Let_def special_keys_def)
  qed
qed

lemma recv_inv_lines:
  assumes "nulstr_lines E ls mm d = Some (Inr mm', d')" and "recv_inv d"
    and "\<forall>l\<in>set ls. \<forall>p\<in>set (split_on CHR ''='' l). clean_str p" and "clean_str (fst mm)" "clean_str (snd mm)"
  shows "recv_inv d' \<and> clean_str (fst mm') \<and> clean_str (snd mm')"
  using assms
proof (induction ls arbitrary: mm d)
  case Nil
  then show ?case by (simp add: dret_def)
next
  case (Cons l ls)
  show ?case
  proof (cases "split_on CHR ''='' l")
    case Nil
    then show ?thesis by simp
  next
    case k: (Cons k rest)
    show ?thesis
    proof (cases rest)
      case Nil
      then show ?thesis using Cons.prems k by (simp add: dret_def)
    next
      case v: (Cons v rest')
      have c: "clean_str k" "clean_str v" using Cons.prems(3) k v by simp_all
      consider "k = ''MINOR''" | "k \<noteq> ''MINOR''" "k = ''MAJOR''" | "k \<noteq> ''MINOR''" "k \<noteq> ''MAJOR''" by blast
      then show ?thesis
      proof cases
        case 1
        then show ?thesis using Cons.prems k v c by (intro Cons.IH [of "(fst mm, v)" d]) auto
      next
        case 2
        then show ?thesis using Cons.prems k v c by (intro Cons.IH [of "(v, snd mm)" d]) auto
      next
        case 3
        then obtain d1 where d1: "nulstr_key E k v d = Some (Inr (), d1)" "nulstr_lines E ls mm d1 = Some (Inr mm', d')"
          using Cons.prems(1) k v by (auto simp: dbind_def split: option.splits sum.splits)
        have "recv_inv d1" using recv_inv_key [OF d1(1) Cons.prems(2)] c 3 by simp
        then show ?thesis using Cons.prems d1 by (intro Cons.IH [of mm d1]) auto
      qed
    qed
  qed
qed

text \<open>What the parsed message leaves behind.\<close>

definition received :: "sysfs \<Rightarrow> device \<Rightarrow> bool" where
  "received E d \<longleftrightarrow> dev_inv d \<and> fields_agree d \<and> devnum_agrees E d \<and> \<not> d_properties_buf_outdated d"

lemma parse_u64_nonempty: "parse_u64 s = Some n \<Longrightarrow> s \<noteq> []"
  by (auto simp: parse_u64_def parse_int_def)

lemma set_devnum_recv:
  assumes d: "recv_inv d" and mm: "clean_str major" "clean_str minor" and s: "set_devnum E major minor d = Some (Inr (), d')"
  shows "fields_agree d' \<and> devnum_agrees E d'"
proof -
  obtain a b where p: "parse_u64 major = Some a" "parse_u64 minor = Some b"
    and d': "d' = (put_prop ''MINOR'' minor (put_prop ''MAJOR'' major d))\<lparr>d_devnum := os_makedev E a b\<rparr>"
    using s by (auto simp: set_devnum_def dm_defs add_property_internal_ok split: option.splits)
  have c1: "\<forall>(k, v)\<in>set (d_properties (put_prop ''MAJOR'' major d)). clean_str k \<and> clean_str v"
    using d mm by (intro clean_props_put) (auto simp: recv_inv_def fields_agree_def Let_def intro!: clean_ascii simp: ascii_def NUL_def)
  have c2: "\<forall>(k, v)\<in>set (d_properties (put_prop ''MINOR'' minor (put_prop ''MAJOR'' major d))). clean_str k \<and> clean_str v"
    using mm by (intro clean_props_put c1) (auto intro!: clean_ascii simp: ascii_def NUL_def)
  have "fields_agree d'" using d c2 by (simp add: d' recv_inv_def fields_agree_def Let_def)
  moreover have "devnum_agrees E d'"
    using p parse_u64_nonempty [OF p(1)] parse_u64_nonempty [OF p(2)] by (simp add: d' devnum_agrees_def opt_str_def)
  ultimately show ?thesis by simp
qed

lemma update_bufs_agree:
  assumes "update_properties_bufs d = Some (r, d')" and "fields_agree d" and "devnum_agrees E d"
  shows "fields_agree d' \<and> devnum_agrees E d' \<and> \<not> d_properties_buf_outdated d'"
proof (cases "d_properties_buf_outdated d")
  case False
  then show ?thesis using assms by (simp add: update_properties_bufs_def dret_def)
next
  case True
  let ?buf = "nulstr_of (d_properties d)"
  have d': "d' = d\<lparr>d_properties_nulstr := ?buf, d_properties_nulstr_len := length ?buf, d_properties_buf_outdated := False\<rparr>"
    using assms(1) True by (simp add: update_properties_bufs_def dret_def Let_def)
  have "fields_agree d' = fields_agree d" "devnum_agrees E d' = devnum_agrees E d"
    unfolding d' fields_agree_def devnum_agrees_def Let_def by simp_all
  then show ?thesis using assms(2,3) by (simp add: d')
qed

lemma build_Inr: "build m = Some (Inr d) \<longleftrightarrow> m device_new = Some (Inr (), d)"
proof (cases "m device_new")
  case None
  then show ?thesis by (simp add: build_def)
next
  case (Some x)
  then show ?thesis by (cases x; cases "fst x") (auto simp: build_def)
qed

lemma from_nulstr_received:
  assumes "from_nulstr E s = Some (Inr d)"
  shows "received E d"
proof -
  have u: "is_utf8 s" and b: "nulstr_body E s device_new = Some (Inr (), d)"
    using assms by (simp_all add: from_nulstr_build build_Inr split: if_splits)
  obtain ma mi d1 where d1: "nulstr_lines E (split_on NUL s) ([], []) device_new = Some (Inr (ma, mi), d1)"
    and b2: "dbind (if ma \<noteq> [] then set_devnum E ma mi else dret ()) (\<lambda>_. update_properties_bufs) d1 = Some (Inr (), d)"
    using b by (auto simp: nulstr_body_def dbind_def [of "nulstr_lines E (split_on NUL s) ([], [])"]
        split: option.splits sum.splits prod.splits)
  have r: "recv_inv d1 \<and> clean_str ma \<and> clean_str mi"
    using recv_inv_lines [OF d1 recv_inv_new] clean_pieces [OF u] clean_lit(3) by simp
  have "\<exists>d2. fields_agree d2 \<and> devnum_agrees E d2 \<and> update_properties_bufs d2 = Some (Inr (), d)"
  proof (cases "ma = []")
    case True
    then have "update_properties_bufs d1 = Some (Inr (), d)" using b2 by (simp add: dbind_def dret_def)
    moreover have "devnum_agrees E d1" "fields_agree d1" using r by (simp_all add: recv_inv_def devnum_agrees_def)
    ultimately show ?thesis by blast
  next
    case False
    then obtain d2 where d2: "set_devnum E ma mi d1 = Some (Inr (), d2)" "update_properties_bufs d2 = Some (Inr (), d)"
      using b2 by (auto simp: dbind_def split: option.splits sum.splits)
    then show ?thesis using set_devnum_recv [of d1 ma mi E d2] r by blast
  qed
  then have "fields_agree d \<and> devnum_agrees E d \<and> \<not> d_properties_buf_outdated d" using update_bufs_agree by blast
  then show ?thesis using from_nulstr_inv [OF assms] by (simp add: received_def)
qed

section \<open>Parsing the message again\<close>

lemma alist_update_fresh: "k \<notin> fst ` set ps \<Longrightarrow> AList.update k v ps = ps @ [(k, v)]"
  by (induction ps) auto

lemma put_prop_fresh:
  "k \<notin> fst ` set (d_properties d) \<Longrightarrow> v \<noteq> [] \<Longrightarrow> d_properties (put_prop k v d) = d_properties d @ [(k, v)]"
  by (simp add: put_prop_def alist_update_fresh)

text \<open>A property that a parsed message may hold.\<close>

definition prop_ok :: "string \<times> string \<Rightarrow> bool" where
  "prop_ok kv \<longleftrightarrow> (case kv of (k, v) \<Rightarrow> k \<noteq> [] \<and> v \<noteq> [] \<and> clean_str k \<and> clean_str v \<and>
     k \<noteq> ''TAGS'' \<and> k \<noteq> ''CURRENT_TAGS'' \<and>
     (k = ''DEVPATH'' \<longrightarrow> starts_with ''/'' v) \<and> (k = ''DEVNAME'' \<longrightarrow> starts_with ''/'' v) \<and>
     (k = ''ACTION'' \<longrightarrow> (\<exists>a. action_from_str v = Inr a)) \<and>
     (k = ''SEQNUM'' \<longrightarrow> (\<exists>n :: u64. v = show_digits (unat n))))"

lemma show_u64_inj: "show_digits (unat (a :: u64)) = show_digits (unat b) \<Longrightarrow> a = b"
  by (metis option.inject parse_u64_digits)

lemma nulstr_key_fresh:
  assumes "prop_ok (k, v)" and "k \<notin> fst ` set (d_properties d)" and "k \<noteq> ''MAJOR''" "k \<noteq> ''MINOR''"
  shows "\<exists>d'. nulstr_key E k v d = Some (Inr (), d') \<and> d_properties d' = d_properties d @ [(k, v)]"
proof -
  have v: "k \<noteq> []" "v \<noteq> []" using assms(1) by (auto simp: prop_ok_def)
  note f = put_prop_fresh [OF assms(2) v(2)]
  consider "k = ''DEVPATH''" | "k = ''ACTION''" | "k = ''SUBSYSTEM''" | "k = ''DEVTYPE''"
    | "k = ''DEVNAME''" | "k = ''SEQNUM''" | "k \<notin> set special_keys"
    using assms by (auto simp: prop_ok_def special_keys_def)
  then show ?thesis
  proof cases
    case 1
    have s: "strip_str ''/sys'' (''/sys'' @ v) = Some v" by (simp only: strip_str_Some)
    have sl: "starts_with ''/'' v" using assms(1) 1 by (simp add: prop_ok_def)
    then have p: "starts_with ''/sys/'' (''/sys'' @ v)" by (cases v) (auto simp: starts_with_def)
    have "nulstr_key E k v = set_syspath E (''/sys'' @ v) False" using 1 by (simp add: nulstr_key_def)
    then have "nulstr_key E k v d = Some (Inr (), (put_prop k v d)\<lparr>d_syspath := ''/sys'' @ v, d_devpath := v\<rparr>)"
      using s sl p 1 unfolding set_syspath_def by (simp add: dm_defs add_property_internal_ok)
    then show ?thesis using f by simp
  next
    case 2
    then obtain a where a: "action_from_str v = Inr a" using assms(1) by (auto simp: prop_ok_def)
    have "action_to_string a = v" using action_print [OF a] by simp
    then have "nulstr_key E k v d = Some (Inr (), (put_prop k v d)\<lparr>d_action := a\<rparr>)"
      using 2 a by (simp add: nulstr_key_def set_action_from_string_def set_action_def dm_defs add_property_internal_ok)
    then show ?thesis using f by simp
  next
    case 3
    then show ?thesis using f by (simp add: nulstr_key_def set_subsystem_def dm_defs add_property_internal_ok)
  next
    case 4
    then show ?thesis using f by (simp add: nulstr_key_def set_devtype_def dm_defs add_property_internal_ok)
  next
    case 5
    then have "devname_of v = v" using assms(1) by (simp add: prop_ok_def devname_of_def)
    then show ?thesis using 5 f by (simp add: nulstr_key_def set_devname_def dm_defs add_property_internal_ok)
  next
    case 6
    then obtain n :: u64 where n: "v = show_digits (unat n)" using assms(1) by (auto simp: prop_ok_def)
    then show ?thesis using 6 f parse_u64_digits [of n]
      by (simp add: nulstr_key_def set_seqnum_from_string_def set_seqnum_def dm_defs add_property_internal_ok)
  next
    case 7
    then have "nulstr_key E k v = add_property_internal k v" by (simp add: nulstr_key_def special_keys_def)
    then show ?thesis using f v by (simp add: add_property_internal_ok)
  qed
qed

definition prop_line :: "string \<times> string \<Rightarrow> string" where
  "prop_line kv = fst kv @ CHR ''='' # snd kv"

lemma split_prop_line: "prop_ok (k, v) \<Longrightarrow> split_on CHR ''='' (prop_line (k, v)) = [k, v]"
  by (simp add: prop_ok_def clean_str_def prop_line_def split_on_first split_on_single)

lemma split_nulstr_of: "\<forall>x\<in>set ps. prop_ok x \<Longrightarrow> split_on NUL (nulstr_of ps) = map prop_line ps @ [[]]"
proof (induction ps)
  case Nil
  then show ?case by (simp add: nulstr_of_def)
next
  case (Cons x ps)
  obtain k v where x: "x = (k, v)" by fastforce
  have "NUL \<notin> set (prop_line x)" using Cons.prems x by (auto simp: prop_ok_def clean_str_def prop_line_def NUL_def)
  moreover have "nulstr_of (x # ps) = prop_line x @ NUL # nulstr_of ps" by (simp add: nulstr_of_def x prop_line_def)
  ultimately show ?case using Cons by (simp add: split_on_first)
qed

lemma utf8_nulstr_of: "\<forall>x\<in>set ps. prop_ok x \<Longrightarrow> is_utf8 (nulstr_of ps)"
proof (induction ps)
  case Nil
  then show ?case by (simp add: nulstr_of_def)
next
  case (Cons x ps)
  obtain k v where x: "x = (k, v)" by fastforce
  have e: "is_utf8 [CHR ''='']" "is_utf8 [NUL]" by (auto intro!: is_utf8_ascii simp: ascii_def NUL_def)
  have "is_utf8 (k @ [CHR ''=''] @ v @ [NUL] @ nulstr_of ps)"
    using Cons x by (intro is_utf8_append e) (auto simp: prop_ok_def clean_str_def)
  then show ?case by (simp add: nulstr_of_def x)
qed

definition is_num_key :: "string \<Rightarrow> bool" where
  "is_num_key k \<longleftrightarrow> k = ''MAJOR'' \<or> k = ''MINOR''"

definition num_value :: "string \<Rightarrow> (string \<times> string) list \<Rightarrow> string \<Rightarrow> string" where
  "num_value k ps old = (case map_of ps k of None \<Rightarrow> old | Some v \<Rightarrow> v)"

lemma lines_again:
  assumes "\<forall>x\<in>set ps. prop_ok x" and "distinct (map fst ps)" and "fst ` set ps \<inter> fst ` set (d_properties d) = {}"
  shows "\<exists>d'. nulstr_lines E (map prop_line ps @ [[]]) mm d =
      Some (Inr (num_value ''MAJOR'' ps (fst mm), num_value ''MINOR'' ps (snd mm)), d') \<and>
    d_properties d' = d_properties d @ filter (\<lambda>(k, v). \<not> is_num_key k) ps"
  using assms
proof (induction ps arbitrary: mm d)
  case Nil
  then show ?case by (simp add: dret_def num_value_def)
next
  case (Cons x ps)
  obtain k v where x: "x = (k, v)" by fastforce
  have ok: "prop_ok (k, v)" using Cons.prems(1) x by simp
  have fresh: "k \<notin> fst ` set ps" using Cons.prems(2) x by simp
  then have nm: "map_of ps k = None" by (simp add: map_of_eq_None_iff)
  note sp = split_prop_line [OF ok]
  consider "k = ''MINOR''" | "k = ''MAJOR''" | "\<not> is_num_key k" by (auto simp: is_num_key_def)
  then show ?case
  proof cases
    case 1
    then show ?thesis using Cons.IH [of d "(fst mm, v)"] Cons.prems x sp nm
      by (simp add: num_value_def is_num_key_def)
  next
    case 2
    then show ?thesis using Cons.IH [of d "(v, snd mm)"] Cons.prems x sp nm
      by (simp add: num_value_def is_num_key_def)
  next
    case 3
    then have k: "k \<noteq> ''MAJOR''" "k \<noteq> ''MINOR''" by (auto simp: is_num_key_def)
    have "k \<notin> fst ` set (d_properties d)" using Cons.prems(3) x by auto
    then obtain d1 where d1: "nulstr_key E k v d = Some (Inr (), d1)" "d_properties d1 = d_properties d @ [(k, v)]"
      using nulstr_key_fresh [OF ok _ k] by blast
    have "fst ` set ps \<inter> fst ` set (d_properties d1) = {}" using Cons.prems(3) x d1(2) fresh by auto
    then obtain d' where "nulstr_lines E (map prop_line ps @ [[]]) mm d1 =
        Some (Inr (num_value ''MAJOR'' ps (fst mm), num_value ''MINOR'' ps (snd mm)), d')"
      "d_properties d' = d_properties d1 @ filter (\<lambda>(k, v). \<not> is_num_key k) ps"
      using Cons.IH [of d1 mm] Cons.prems by auto
    moreover have "num_value n (x # ps) old = num_value n ps old" if "is_num_key n" for n old
      using that 3 x by (auto simp: num_value_def)
    ultimately show ?thesis using x sp d1 k 3 by (simp add: dbind_def is_num_key_def)
  qed
qed

lemma map_of_filter_key: "map_of (filter (\<lambda>(k, v). P k) ps) x = (if P x then map_of ps x else None)"
  by (induction ps) auto

lemma received_prop_ok:
  assumes "received E d"
  shows "\<forall>x\<in>set (d_properties d). prop_ok x"
proof
  fix x assume x: "x \<in> set (d_properties d)"
  obtain k v where kv: "x = (k, v)" by fastforce
  have g: "good_map (d_properties d)" and a: "fields_agree d"
    using assms by (simp_all add: received_def dev_inv_def)
  then have m: "map_of (d_properties d) k = Some v" using x kv by (simp add: good_map_def)
  have ne: "k \<noteq> []" "v \<noteq> []" using g x kv by (auto simp: good_map_def)
  have cl: "clean_str k" "clean_str v" using a x kv by (auto simp: fields_agree_def Let_def)
  have p: "paths_agree (d_syspath d) (d_devpath d)" using assms by (simp add: received_def dev_inv_def)
  have "k = ''DEVPATH'' \<longrightarrow> starts_with ''/'' v"
    using a m p by (auto simp: fields_agree_def Let_def opt_str_def paths_agree_def split: if_splits)
  moreover have "k = ''DEVNAME'' \<longrightarrow> starts_with ''/'' v"
    using a m by (auto simp: fields_agree_def Let_def opt_str_def split: if_splits)
  moreover have "k = ''ACTION'' \<longrightarrow> (\<exists>a. action_from_str v = Inr a)"
    using a m action_roundtrip [of "d_action d"] by (auto simp: fields_agree_def Let_def split: if_splits)
  moreover have "k = ''SEQNUM'' \<longrightarrow> (\<exists>n :: u64. v = show_digits (unat n))"
    using a m by (auto simp: fields_agree_def Let_def)
  moreover have "k \<noteq> ''TAGS''" "k \<noteq> ''CURRENT_TAGS''" using a m by (auto simp: fields_agree_def Let_def)
  ultimately show "prop_ok x" using ne cl by (simp add: kv prop_ok_def)
qed

text \<open>The fields that a message carries.\<close>

definition same_device :: "device \<Rightarrow> device \<Rightarrow> bool" where
  "same_device d d' \<longleftrightarrow> map_of (d_properties d') = map_of (d_properties d) \<and> d_action d' = d_action d \<and>
     d_seqnum d' = d_seqnum d \<and> d_syspath d' = d_syspath d \<and> d_devpath d' = d_devpath d \<and>
     d_subsystem d' = d_subsystem d \<and> d_devtype d' = d_devtype d \<and> d_devname d' = d_devname d \<and>
     d_devnum d' = d_devnum d"

lemma opt_str_inj: "opt_str a = opt_str b \<Longrightarrow> a = b"
  by (auto simp: opt_str_def split: if_splits)

lemma same_deviceI:
  assumes r: "received E d" "received E d'" and m: "map_of (d_properties d') = map_of (d_properties d)"
  shows "same_device d d'"
proof -
  have a: "fields_agree d" "fields_agree d'" and n: "devnum_agrees E d" "devnum_agrees E d'"
    and p: "paths_agree (d_syspath d) (d_devpath d)" "paths_agree (d_syspath d') (d_devpath d')"
    using r by (simp_all add: received_def dev_inv_def)
  let ?m = "map_of (d_properties d)"
  have f: "?m ''ACTION'' = (if d_action x = Act_Invalid then None else Some (action_to_string (d_action x)))"
      "?m ''DEVPATH'' = opt_str (d_devpath x)" "?m ''SUBSYSTEM'' = opt_str (d_subsystem x)"
      "?m ''DEVTYPE'' = opt_str (d_devtype x)" "?m ''DEVNAME'' = opt_str (d_devname x)"
      "?m ''SEQNUM'' = Some (show_digits (unat (d_seqnum x))) \<or> ?m ''SEQNUM'' = None \<and> d_seqnum x = 0"
    if "x = d \<or> x = d'" for x
    using a that by (auto simp only: fields_agree_def Let_def m)
  have "d_devpath d' = d_devpath d" using f(2) [of d] f(2) [of d'] by (intro opt_str_inj) simp
  moreover have "d_subsystem d' = d_subsystem d" using f(3) [of d] f(3) [of d'] by (intro opt_str_inj) simp
  moreover have "d_devtype d' = d_devtype d" using f(4) [of d] f(4) [of d'] by (intro opt_str_inj) simp
  moreover have "d_devname d' = d_devname d" using f(5) [of d] f(5) [of d'] by (intro opt_str_inj) simp
  moreover have "d_syspath d' = d_syspath d"
    using p calculation(1) by (auto simp: paths_agree_def starts_with_def)
  moreover have "d_action d' = d_action d"
    using f(1) [of d] f(1) [of d'] action_roundtrip [of "d_action d"] action_roundtrip [of "d_action d'"]
    by (auto split: if_splits)
  moreover have "d_seqnum d' = d_seqnum d"
    using f(6) [of d] f(6) [of d'] by (auto dest: show_u64_inj)
  moreover have "d_devnum d' = d_devnum d" using n m by (auto simp: devnum_agrees_def)
  ultimately show ?thesis using m by (simp add: same_device_def)
qed

lemma update_bufs_ok: "\<exists>d'. update_properties_bufs d = Some (Inr (), d') \<and> d_properties d' = d_properties d"
  by (cases "d_properties_buf_outdated d") (simp_all add: update_properties_bufs_def dret_def Let_def)

lemma nulstr_again:
  assumes "received E d"
  shows "\<exists>d'. from_nulstr E (nulstr_of (d_properties d)) = Some (Inr d') \<and> same_device d d'"
proof -
  let ?ps = "d_properties d"
  let ?s = "nulstr_of ?ps"
  have ok: "\<forall>x\<in>set ?ps. prop_ok x" by (rule received_prop_ok [OF assms])
  have dist: "distinct (map fst ?ps)" using assms by (simp add: received_def dev_inv_def good_map_def)
  have "fst ` set ?ps \<inter> fst ` set (d_properties device_new) = {}" by (simp add: device_new_def)
  from lines_again [OF ok dist this, of E "([], [])"] obtain d1 where
    d1: "nulstr_lines E (split_on NUL ?s) ([], []) device_new =
      Some (Inr (num_value ''MAJOR'' ?ps [], num_value ''MINOR'' ?ps []), d1)"
    and pr: "d_properties d1 = filter (\<lambda>(k, v). \<not> is_num_key k) ?ps"
    by (auto simp: split_nulstr_of [OF ok] device_new_def)
  have m1: "map_of (d_properties d1) x = (if \<not> is_num_key x then map_of ?ps x else None)" for x
    unfolding pr by (rule map_of_filter_key)
  define ma where "ma = num_value ''MAJOR'' ?ps []"
  define mi where "mi = num_value ''MINOR'' ?ps []"
  have "\<exists>d2. (if ma \<noteq> [] then set_devnum E ma mi else dret ()) d1 = Some (Inr (), d2) \<and>
      map_of (d_properties d2) = map_of ?ps"
  proof (cases "map_of ?ps ''MAJOR''")
    case None
    then have "map_of ?ps ''MINOR'' = None" using assms by (auto simp: received_def devnum_agrees_def)
    then have "map_of (d_properties d1) = map_of ?ps" using None m1 by (auto simp: is_num_key_def fun_eq_iff)
    then show ?thesis using None by (simp add: ma_def num_value_def dret_def)
  next
    case (Some v)
    then obtain w a b where w: "map_of ?ps ''MINOR'' = Some w" "parse_u64 v = Some a" "parse_u64 w = Some b"
      using assms by (auto simp: received_def devnum_agrees_def)
    have e: "ma = v" "mi = w" using Some w by (simp_all add: ma_def mi_def num_value_def)
    have ne: "v \<noteq> []" "w \<noteq> []" using w parse_u64_nonempty by blast+
    let ?d2 = "(put_prop ''MINOR'' w (put_prop ''MAJOR'' v d1))\<lparr>d_devnum := os_makedev E a b\<rparr>"
    have "set_devnum E v w d1 = Some (Inr (), ?d2)" using w by (simp add: set_devnum_def dm_defs add_property_internal_ok)
    moreover have "map_of (d_properties ?d2) = map_of ?ps"
      using m1 Some w(1) ne by (auto simp: is_num_key_def fun_eq_iff opt_str_def)
    ultimately show ?thesis using e ne by auto
  qed
  then obtain d2 where d2: "(if ma \<noteq> [] then set_devnum E ma mi else dret ()) d1 = Some (Inr (), d2)"
    and m2: "map_of (d_properties d2) = map_of ?ps" by blast
  obtain d3 where d3: "update_properties_bufs d2 = Some (Inr (), d3)" "d_properties d3 = d_properties d2"
    using update_bufs_ok by blast
  have l: "nulstr_lines E (split_on NUL ?s) ([], []) device_new = Some (Inr (ma, mi), d1)"
    using d1 by (simp only: ma_def mi_def)
  have "dbind (if ma \<noteq> [] then set_devnum E ma mi else dret ()) (\<lambda>_. update_properties_bufs) d1 = Some (Inr (), d3)"
    unfolding dbind_def d2 using d3(1) by simp
  then have "nulstr_body E ?s device_new = Some (Inr (), d3)"
    unfolding nulstr_body_def dbind_def [of "nulstr_lines E (split_on NUL ?s) ([], [])"] l by simp
  then have f: "from_nulstr E ?s = Some (Inr d3)" using utf8_nulstr_of [OF ok] by (simp add: from_nulstr_def)
  have "same_device d d3"
    using assms from_nulstr_received [OF f] m2 d3(2) by (intro same_deviceI) simp_all
  with f show ?thesis by blast
qed

definition msg_header :: "nat \<Rightarrow> string" where
  "msg_header len = device_message [] len"

lemma device_message_header: "device_message s len = msg_header len @ s" "length (msg_header len) = 40"
  by (simp_all add: msg_header_def device_message_def bytes_def to_be_bytes_def)

lemma msg_header_prefix: "\<exists>r. msg_header len = ''libdevm'' @ NUL # r"
  by (simp add: msg_header_def device_message_def)

lemma prefix_end_libdevm: "prefix_end (''libdevm'' @ NUL # r) = 7"
  by (simp add: prefix_end_def NUL_def)

lemma receive_own_message:
  assumes "length s + 40 \<le> RECV_SIZE"
  shows "receive_device E (Inr (device_message s len)) = from_nulstr E s"
proof -
  let ?m = "device_message s len"
  let ?buf = "?m @ replicate (RECV_SIZE - length ?m) NUL"
  have l: "length ?m = 40 + length s" by (simp add: device_message_header)
  obtain r where r: "msg_header len = ''libdevm'' @ NUL # r" using msg_header_prefix by blast
  have b: "?buf = ''libdevm'' @ NUL # (r @ s @ replicate (RECV_SIZE - length ?m) NUL)"
    by (simp add: device_message_header(1) r)
  have i: "prefix_end ?buf = 7" unfolding b by (rule prefix_end_libdevm)
  have p: "take 7 ?buf = ''libdevm''" unfolding b by simp
  have u: "is_utf8 ''libdevm''" by (intro is_utf8_ascii) (simp add: ascii_def)
  have c: "\<not> str_contains ''@/'' ''libdevm''" by (simp add: str_contains_def starts_with_def)
  have "str_slice 40 (length ?m) ?buf = Some s"
    using l device_message_header(2) [of len] by (simp add: str_slice_def device_message_header(1))
  moreover have "take RECV_SIZE ?m = ?m" using assms l by simp
  ultimately show ?thesis using i p u c by (simp add: receive_device_def Let_def)
qed

lemma receive_from_nulstr: "receive_device E r = Some (Inr d) \<Longrightarrow> \<exists>s. from_nulstr E s = Some (Inr d)"
  by (auto simp: receive_device_def Let_def split: sum.splits if_splits option.splits)


text \<open>The length field of the header is the upper half of the length, which is 0.\<close>

lemma length_field_zero: "len < 2 ^ 32 \<Longrightarrow> take 4 (to_be_bytes len) = [0, 0, 0, 0]"
  by (simp add: to_be_bytes_def upt_rec div_less_dividend)


text \<open>A value is cut at its second equals sign.\<close>

lemma value_cut_at_equals:
  "map_option (map_sum id d_properties) (from_nulstr demo_sysfs (''ID_MODEL=a=b'' @ [NUL])) =
     Some (Inr [(''ID_MODEL'', ''a'')])"
  by code_simp

end
