(* ===== verification/Dev_Rules.thy ===== *)
theory Dev_Rules
  imports Dev_Lookup
begin

text \<open>
  The rules of devmaster (\<open>src/exts/devmaster/src/lib/rules/mod.rs\<close>, \<open>rule_load.rs\<close>, \<open>utils/mod.rs\<close>,
  \<open>builtin/mod.rs\<close> and \<open>src/libs/basic/src/user_group_util.rs\<close>): the tokens, operators and substitutions,
  the checks of every key, and the loading of lines, files and directories into linked lists.

  The regular expressions, the glob patterns and the user database are the record \<open>rule_env\<close>; a
  regular expression is a value of the type variable \<open>'re\<close>. The errors are reduced to their kind.
  A list that the code links with \<open>prev\<close> and \<open>next\<close> pointers is a store of nodes at addresses.
\<close>

section \<open>Tokens, operators and substitutions\<close>

datatype token_type =
    MatchAction | MatchDevpath | MatchKernel | MatchDevlink | MatchName | MatchEnv | MatchConst |
    MatchTag | MatchSubsystem | MatchDriver | MatchAttr | MatchSysctl | MatchParentsKernel |
    MatchParentsSubsystem | MatchParentsDriver | MatchParentsAttr | MatchParentsTag | MatchTest |
    MatchProgram | MatchImportFile | MatchImportProgram | MatchImportBuiltin | MatchImportDb |
    MatchImportCmdline | MatchImportParent | MatchResult | AssignOptionsStringEscapeNone |
    AssignOptionsStringEscapeReplace | AssignOptionsDbPersist | AssignOptionsInotifyWatch |
    AssignOptionsDevlinkPriority | AssignOptionsLogLevel | AssignOwner | AssignGroup | AssignMode |
    AssignOwnerId | AssignGroupId | AssignModeId | AssignTag | AssignOptionsStaticNode |
    AssignSeclabel | AssignEnv | AssignName | AssignDevlink | AssignAttr | AssignSysctl |
    AssignRunBuiltin | AssignRunProgram | Goto | Label

text \<open>The order of the variants, which the derived \<open>PartialOrd\<close> compares.\<close>

definition token_order :: "token_type list" where
  "token_order = [
    MatchAction, MatchDevpath, MatchKernel, MatchDevlink, MatchName, MatchEnv, MatchConst, MatchTag,
    MatchSubsystem, MatchDriver, MatchAttr, MatchSysctl, MatchParentsKernel, MatchParentsSubsystem,
    MatchParentsDriver, MatchParentsAttr, MatchParentsTag, MatchTest, MatchProgram, MatchImportFile,
    MatchImportProgram, MatchImportBuiltin, MatchImportDb, MatchImportCmdline, MatchImportParent,
    MatchResult, AssignOptionsStringEscapeNone, AssignOptionsStringEscapeReplace,
    AssignOptionsDbPersist, AssignOptionsInotifyWatch, AssignOptionsDevlinkPriority,
    AssignOptionsLogLevel, AssignOwner, AssignGroup, AssignMode, AssignOwnerId, AssignGroupId,
    AssignModeId, AssignTag, AssignOptionsStaticNode, AssignSeclabel, AssignEnv, AssignName,
    AssignDevlink, AssignAttr, AssignSysctl, AssignRunBuiltin, AssignRunProgram, Goto, Label]"

fun token_rank :: "token_type \<Rightarrow> nat" where
  "token_rank MatchAction = 0"
| "token_rank MatchDevpath = 1"
| "token_rank MatchKernel = 2"
| "token_rank MatchDevlink = 3"
| "token_rank MatchName = 4"
| "token_rank MatchEnv = 5"
| "token_rank MatchConst = 6"
| "token_rank MatchTag = 7"
| "token_rank MatchSubsystem = 8"
| "token_rank MatchDriver = 9"
| "token_rank MatchAttr = 10"
| "token_rank MatchSysctl = 11"
| "token_rank MatchParentsKernel = 12"
| "token_rank MatchParentsSubsystem = 13"
| "token_rank MatchParentsDriver = 14"
| "token_rank MatchParentsAttr = 15"
| "token_rank MatchParentsTag = 16"
| "token_rank MatchTest = 17"
| "token_rank MatchProgram = 18"
| "token_rank MatchImportFile = 19"
| "token_rank MatchImportProgram = 20"
| "token_rank MatchImportBuiltin = 21"
| "token_rank MatchImportDb = 22"
| "token_rank MatchImportCmdline = 23"
| "token_rank MatchImportParent = 24"
| "token_rank MatchResult = 25"
| "token_rank AssignOptionsStringEscapeNone = 26"
| "token_rank AssignOptionsStringEscapeReplace = 27"
| "token_rank AssignOptionsDbPersist = 28"
| "token_rank AssignOptionsInotifyWatch = 29"
| "token_rank AssignOptionsDevlinkPriority = 30"
| "token_rank AssignOptionsLogLevel = 31"
| "token_rank AssignOwner = 32"
| "token_rank AssignGroup = 33"
| "token_rank AssignMode = 34"
| "token_rank AssignOwnerId = 35"
| "token_rank AssignGroupId = 36"
| "token_rank AssignModeId = 37"
| "token_rank AssignTag = 38"
| "token_rank AssignOptionsStaticNode = 39"
| "token_rank AssignSeclabel = 40"
| "token_rank AssignEnv = 41"
| "token_rank AssignName = 42"
| "token_rank AssignDevlink = 43"
| "token_rank AssignAttr = 44"
| "token_rank AssignSysctl = 45"
| "token_rank AssignRunBuiltin = 46"
| "token_rank AssignRunProgram = 47"
| "token_rank Goto = 48"
| "token_rank Label = 49"

lemma token_order_rank: "token_rank t < length token_order \<and> token_order ! token_rank t = t"
  by (cases t) (simp_all add: token_order_def)

lemma token_rank_inject: "token_rank a = token_rank b \<Longrightarrow> a = b"
  using token_order_rank by metis

instantiation token_type :: linorder
begin

definition less_eq_token_type :: "token_type \<Rightarrow> token_type \<Rightarrow> bool" where
  "less_eq_token_type a b \<longleftrightarrow> token_rank a \<le> token_rank b"

definition less_token_type :: "token_type \<Rightarrow> token_type \<Rightarrow> bool" where
  "less_token_type a b \<longleftrightarrow> token_rank a < token_rank b"

instance
  by standard (auto simp: less_eq_token_type_def less_token_type_def dest: token_rank_inject)

end

lemmas token_order_defs = less_eq_token_type_def less_token_type_def

datatype operator_type = OpMatch | OpNomatch | OpAdd | OpRemove | OpAssign | OpAssignFinal

datatype rule_error = RulesLoadError | IgnoreError

definition operator_from_str :: "string \<Rightarrow> rule_error + operator_type" where
  "operator_from_str s = (
     if s = ''=='' then Inr OpMatch else if s = ''!='' then Inr OpNomatch
     else if s = ''='' then Inr OpAssign else if s = ''+='' then Inr OpAdd
     else if s = ''-='' then Inr OpRemove else if s = '':='' then Inr OpAssignFinal
     else Inl RulesLoadError)"

fun operator_to_string :: "operator_type \<Rightarrow> string" where
  "operator_to_string OpMatch = ''==''"
| "operator_to_string OpNomatch = ''!=''"
| "operator_to_string OpAdd = ''+=''"
| "operator_to_string OpRemove = ''-=''"
| "operator_to_string OpAssignFinal = '':=''"
| "operator_to_string OpAssign = ''=''"

lemma operator_roundtrip: "operator_from_str (operator_to_string x) = Inr x"
  by (cases x) (simp_all add: operator_from_str_def)

definition op_is_match :: "operator_type \<Rightarrow> bool" where
  "op_is_match x \<longleftrightarrow> x = OpMatch \<or> x = OpNomatch"

datatype match_type = MT_Pattern | MT_Subsystem | MT_Invalid

datatype substitute_type = ST_Plain | ST_Format | ST_Subsys | ST_Invalid

definition substitute_from_str :: "string \<Rightarrow> substitute_type" where
  "substitute_from_str s = (
     if s = [] then ST_Plain
     else if starts_with ''['' s then ST_Subsys
     else if CHR ''%'' \<in> set s \<or> CHR ''$'' \<in> set s then ST_Format
     else ST_Plain)"

datatype resolve_name_time = Resolve_Never | Resolve_Late | Resolve_Early

datatype format_subst = FS_Devnode | FS_Attr | FS_Env | FS_Kernel | FS_KernelNumber | FS_Driver | FS_Devpath
  | FS_Id | FS_Major | FS_Minor | FS_Result | FS_Parent | FS_Name | FS_Links | FS_Root | FS_Sys | FS_Invalid

definition format_from_str :: "string \<Rightarrow> rule_error + format_subst" where
  "format_from_str s = (
     if s \<in> set [''devnode'', ''N'', ''tempnode''] then Inr FS_Devnode
     else if s \<in> set [''attr'', ''sysfs'', ''s''] then Inr FS_Attr
     else if s \<in> set [''env'', ''E''] then Inr FS_Env
     else if s \<in> set [''kernel'', ''k''] then Inr FS_Kernel
     else if s \<in> set [''number'', ''n''] then Inr FS_KernelNumber
     else if s \<in> set [''driver'', ''d''] then Inr FS_Driver
     else if s \<in> set [''devpath'', ''p''] then Inr FS_Devpath
     else if s \<in> set [''id'', ''b''] then Inr FS_Id
     else if s \<in> set [''major'', ''M''] then Inr FS_Major
     else if s \<in> set [''minor'', ''m''] then Inr FS_Minor
     else if s \<in> set [''result'', ''c''] then Inr FS_Result
     else if s \<in> set [''parent'', ''P''] then Inr FS_Parent
     else if s \<in> set [''name'', ''D''] then Inr FS_Name
     else if s \<in> set [''links'', ''L''] then Inr FS_Links
     else if s \<in> set [''root'', ''r''] then Inr FS_Root
     else if s \<in> set [''sys'', ''S''] then Inr FS_Sys
     else Inl RulesLoadError)"

section \<open>The libraries the loader calls\<close>

text \<open>The matches of \<open>RE_TOKEN\<close> in a line are its tokens (key, attribute, operator, value); those of the
  expression of \<open>check_format\<close> the groups \<open>long\<close>, \<open>short\<close> and \<open>attr\<close>. A user or group is its id; the
  lookups fail with a system error (\<open>None\<close>) or find no or one entry.\<close>

type_synonym raw_token = "string \<times> string option \<times> string \<times> string"

record 're rule_env =
  re_line_matches :: "string \<Rightarrow> bool"
  re_token_captures :: "string \<Rightarrow> raw_token list"
  re_subst_captures :: "string \<Rightarrow> (string option \<times> string option \<times> string option) list"
  glob_to_regex :: "string \<Rightarrow> 're option"
  user_from_uid :: "32 word \<Rightarrow> 32 word option option"
  user_from_name :: "string \<Rightarrow> 32 word option option"
  group_from_gid :: "32 word \<Rightarrow> 32 word option option"
  group_from_name :: "string \<Rightarrow> 32 word option option"

section \<open>Checking values\<close>

definition check_subst :: "string option \<times> string option \<times> string option \<Rightarrow> bool" where
  "check_subst c = (case c of (long, short, attr) \<Rightarrow>
     let t = (case long of
           Some s \<Rightarrow> (case format_from_str s of Inr t \<Rightarrow> t | Inl _ \<Rightarrow> FS_Invalid)
         | None \<Rightarrow> (case short of
             Some s \<Rightarrow> (case format_from_str s of Inr t \<Rightarrow> t | Inl _ \<Rightarrow> FS_Invalid)
           | None \<Rightarrow> FS_Invalid)) in
     t \<noteq> FS_Invalid \<and> \<not> ((t = FS_Attr \<or> t = FS_Env) \<and> attr = None) \<and>
     \<not> (t = FS_Result \<and> (case attr of Some m \<Rightarrow> parse_i32 m = None | None \<Rightarrow> False)))"

definition check_format :: "'re rule_env \<Rightarrow> string \<Rightarrow> rule_error + unit" where
  "check_format R value = (if list_all check_subst (re_subst_captures R value) then Inr () else Inl RulesLoadError)"

definition check_value_format :: "'re rule_env \<Rightarrow> string \<Rightarrow> bool \<Rightarrow> rule_error + unit" where
  "check_value_format R value nonempty = (if nonempty \<and> value = [] then Inl RulesLoadError else check_format R value)"

definition check_attr_format :: "'re rule_env \<Rightarrow> string \<Rightarrow> rule_error + unit" where
  "check_attr_format R attr = (if attr = [] then Inl RulesLoadError else check_format R attr)"

datatype builtin_command = Blkid | Btrfs | Hwdb | InputId | Keyboard | Kmod | NetId | NetSetupLink | PathId
  | Uaccess | UsbId | Example

definition builtin_from_str :: "string \<Rightarrow> builtin_command option" where
  "builtin_from_str s = (case split_on CHR '' '' s of [] \<Rightarrow> None | c # _ \<Rightarrow>
     map_of [(''blkid'', Blkid), (''btrfs'', Btrfs), (''hwdb'', Hwdb), (''input_id'', InputId),
       (''keyboard'', Keyboard), (''kmod'', Kmod), (''net_id'', NetId), (''net_setup_link'', NetSetupLink),
       (''path_id'', PathId), (''uaccess'', Uaccess), (''usb_id'', UsbId), (''example'', Example)] c)"

fun builtin_to_string :: "builtin_command \<Rightarrow> string" where
  "builtin_to_string Blkid = ''blkid''"
| "builtin_to_string Btrfs = ''btrfs''"
| "builtin_to_string Hwdb = ''hwdb''"
| "builtin_to_string InputId = ''input_id''"
| "builtin_to_string Keyboard = ''keyboard''"
| "builtin_to_string Kmod = ''kmod''"
| "builtin_to_string NetId = ''net_id''"
| "builtin_to_string NetSetupLink = ''net_setup_link''"
| "builtin_to_string PathId = ''path_id''"
| "builtin_to_string Uaccess = ''uaccess''"
| "builtin_to_string UsbId = ''usb_id''"
| "builtin_to_string Example = ''example''"

lemma builtin_roundtrip: "builtin_from_str (builtin_to_string b) = Some b"
  by (cases b) (simp_all add: builtin_from_str_def)

text \<open>\<open>parse_mode\<close> reads the mode as a decimal number and compares it with 7777.\<close>

definition parse_mode :: "string \<Rightarrow> 32 word option" where
  "parse_mode s = (case parse_u32 s of None \<Rightarrow> None | Some v \<Rightarrow> if v > 7777 then None else Some v)"

text \<open>The digits of an id: the first is not 0.\<close>

definition id_digits :: "string \<Rightarrow> bool" where
  "id_digits s = (case s of [] \<Rightarrow> True | c # cs \<Rightarrow> is_digit c \<and> c \<noteq> CHR ''0'' \<and> list_all is_digit cs)"

text \<open>\<open>parse_uid\<close> and \<open>parse_gid\<close> share their text: \<open>None\<close> is the panic when the id 0 is not in the database.\<close>

definition parse_id :: "(32 word \<Rightarrow> 32 word option option) \<Rightarrow> string \<Rightarrow> 32 word option option" where
  "parse_id db s = (
     if s = [] then Some None
     else if s = ''0'' then (case db 0 of Some (Some u) \<Rightarrow> Some (Some u) | _ \<Rightarrow> None)
     else if \<not> id_digits s then Some None
     else case parse_u32 s of
       None \<Rightarrow> Some None
     | Some n \<Rightarrow> (case db n of Some (Some u) \<Rightarrow> Some (Some u) | _ \<Rightarrow> Some None))"

definition rule_parse_uid :: "'re rule_env \<Rightarrow> string \<Rightarrow> 32 word option option" where
  "rule_parse_uid R = parse_id (user_from_uid R)"

definition rule_parse_gid :: "'re rule_env \<Rightarrow> string \<Rightarrow> 32 word option option" where
  "rule_parse_gid R = parse_id (group_from_gid R)"

text \<open>What the tokens read of \<open>Rules\<close>.\<close>

record rules_ctx =
  rc_time :: resolve_name_time
  rc_users :: "(string \<times> 32 word) list"
  rc_groups :: "(string \<times> 32 word) list"

definition resolve_user :: "'re rule_env \<Rightarrow> rules_ctx \<Rightarrow> string \<Rightarrow> rule_error + 32 word" where
  "resolve_user R C name = (case map_of (rc_users C) name of
       Some u \<Rightarrow> Inr u
     | None \<Rightarrow> (case user_from_name R name of Some (Some u) \<Rightarrow> Inr u | _ \<Rightarrow> Inl RulesLoadError))"

definition resolve_group :: "'re rule_env \<Rightarrow> rules_ctx \<Rightarrow> string \<Rightarrow> rule_error + 32 word" where
  "resolve_group R C name = (case map_of (rc_groups C) name of
       Some u \<Rightarrow> Inr u
     | None \<Rightarrow> (case group_from_name R name of Some (Some u) \<Rightarrow> Inr u | _ \<Rightarrow> Inl RulesLoadError))"

section \<open>Tokens\<close>

record 're rule_token =
  rt_type :: token_type
  rt_op :: operator_type
  rt_match_type :: match_type
  rt_value_regex :: "'re list"
  rt_attr_subst_type :: substitute_type
  rt_attr :: "string option"
  rt_value :: string

definition is_for_parents :: "'re rule_token \<Rightarrow> bool" where
  "is_for_parents t \<longleftrightarrow> rt_type t \<ge> MatchParentsKernel \<and> rt_type t \<le> MatchParentsTag"

fun globs_to_regex :: "'re rule_env \<Rightarrow> string list \<Rightarrow> 're list option" where
  "globs_to_regex R [] = Some []"
| "globs_to_regex R (s # ss) = (case glob_to_regex R s of
       None \<Rightarrow> None
     | Some r \<Rightarrow> map_option ((#) r) (globs_to_regex R ss))"

definition token_new :: "'re rule_env \<Rightarrow> token_type \<Rightarrow> operator_type \<Rightarrow> string option \<Rightarrow> string \<Rightarrow> rule_error + 're rule_token" where
  "token_new R ty opr attr value = (
     let mt = (if ty \<le> MatchResult \<and> ty = MatchSubsystem \<and> value \<in> set [''subsystem'', ''bus'', ''class'']
               then MT_Subsystem else MT_Invalid);
         globs = (if ty \<le> MatchResult \<and> (ty < MatchTest \<or> ty = MatchResult)
                  then globs_to_regex R (split_on CHR ''|'' value) else Some []);
         st = (if ty = MatchAttr \<or> ty = MatchParentsAttr
               then substitute_from_str (case attr of None \<Rightarrow> [] | Some a \<Rightarrow> a) else ST_Invalid)
     in case globs of
          None \<Rightarrow> Inl RulesLoadError
        | Some rs \<Rightarrow> Inr \<lparr>rt_type = ty, rt_op = opr, rt_match_type = mt, rt_value_regex = rs,
                        rt_attr_subst_type = st, rt_attr = attr, rt_value = value\<rparr>)"

section \<open>The keys\<close>

definition parse_ACTION :: "'re rule_env \<Rightarrow> string option \<Rightarrow> operator_type \<Rightarrow> string \<Rightarrow> rule_error + 're rule_token" where
  "parse_ACTION R attr opr value = (
     if attr \<noteq> None then Inl RulesLoadError
     else if \<not> op_is_match opr then Inl RulesLoadError
     else token_new R MatchAction opr None value)"

definition parse_DEVPATH :: "'re rule_env \<Rightarrow> string option \<Rightarrow> operator_type \<Rightarrow> string \<Rightarrow> rule_error + 're rule_token" where
  "parse_DEVPATH R attr opr value = (
     if attr \<noteq> None then Inl RulesLoadError
     else if \<not> op_is_match opr then Inl RulesLoadError
     else token_new R MatchDevpath opr None value)"

definition parse_KERNEL :: "'re rule_env \<Rightarrow> string option \<Rightarrow> operator_type \<Rightarrow> string \<Rightarrow> rule_error + 're rule_token" where
  "parse_KERNEL R attr opr value = (
     if attr \<noteq> None then Inl RulesLoadError
     else if \<not> op_is_match opr then Inl RulesLoadError
     else token_new R MatchKernel opr attr value)"

text \<open>A failed \<open>check_value_format\<close> is only logged.\<close>

definition parse_SYMLINK :: "'re rule_env \<Rightarrow> string option \<Rightarrow> operator_type \<Rightarrow> string \<Rightarrow> rule_error + 're rule_token" where
  "parse_SYMLINK R attr opr value = (
     if attr \<noteq> None then Inl RulesLoadError
     else if opr = OpRemove then Inl RulesLoadError
     else if \<not> op_is_match opr then token_new R AssignDevlink opr None value
     else token_new R MatchDevlink opr None value)"

definition parse_NAME :: "'re rule_env \<Rightarrow> string option \<Rightarrow> operator_type \<Rightarrow> string \<Rightarrow> rule_error + 're rule_token" where
  "parse_NAME R attr opr value = (
     if attr \<noteq> None then Inl RulesLoadError
     else if opr = OpRemove then Inl RulesLoadError
     else let opr' = (if opr = OpAdd then OpAssign else opr) in
       if \<not> op_is_match opr then
         (if value = ''%k'' then Inl RulesLoadError
          else if value = [] then Inl RulesLoadError
          else token_new R AssignName opr' None value)
       else token_new R MatchName opr' None value)"

definition env_readonly :: "string list" where
  "env_readonly = [''ACTION'', ''DEVLINKS'', ''DEVNAME'', ''DEVTYPE'', ''DRIVER'', ''IFINDEX'', ''MAJOR'',
     ''MINOR'', ''SEQNUM'', ''SUBSYSTEM'', ''TAGS'']"

definition parse_ENV :: "'re rule_env \<Rightarrow> string option \<Rightarrow> operator_type \<Rightarrow> string \<Rightarrow> rule_error + 're rule_token" where
  "parse_ENV R attr opr value = (case attr of
       None \<Rightarrow> Inl RulesLoadError
     | Some a \<Rightarrow>
         if opr = OpRemove then Inl RulesLoadError
         else let opr' = (if opr = OpAssignFinal then OpAssign else opr) in
           if \<not> op_is_match opr then
             (if a \<in> set env_readonly then Inl RulesLoadError
              else token_new R AssignEnv opr' attr value)
           else token_new R MatchEnv opr' attr value)"

definition parse_CONST :: "'re rule_env \<Rightarrow> string option \<Rightarrow> operator_type \<Rightarrow> string \<Rightarrow> rule_error + 're rule_token" where
  "parse_CONST R attr opr value = (
     if attr = None \<or> attr = Some ''arch'' \<or> attr = Some ''virt'' then Inl RulesLoadError
     else if \<not> op_is_match opr then Inl RulesLoadError
     else token_new R MatchConst opr attr value)"

definition parse_TAG :: "'re rule_env \<Rightarrow> string option \<Rightarrow> operator_type \<Rightarrow> string \<Rightarrow> rule_error + 're rule_token" where
  "parse_TAG R attr opr value = (
     if attr \<noteq> None then Inl RulesLoadError
     else let opr' = (if opr = OpAssignFinal then OpAssign else opr) in
       if \<not> op_is_match opr then token_new R AssignTag opr' None value
       else token_new R MatchTag opr' None value)"

definition parse_SUBSYSTEM :: "'re rule_env \<Rightarrow> string option \<Rightarrow> operator_type \<Rightarrow> string \<Rightarrow> rule_error + 're rule_token" where
  "parse_SUBSYSTEM R attr opr value = (
     if attr \<noteq> None then Inl RulesLoadError
     else if \<not> op_is_match opr then Inl RulesLoadError
     else token_new R MatchSubsystem opr None value)"

definition parse_DRIVER :: "'re rule_env \<Rightarrow> string option \<Rightarrow> operator_type \<Rightarrow> string \<Rightarrow> rule_error + 're rule_token" where
  "parse_DRIVER R attr opr value = (
     if attr \<noteq> None then Inl RulesLoadError
     else if \<not> op_is_match opr then Inl RulesLoadError
     else token_new R MatchDriver opr None value)"

definition attr_str :: "string option \<Rightarrow> string" where
  "attr_str attr = (case attr of None \<Rightarrow> [] | Some a \<Rightarrow> a)"

definition parse_ATTR :: "'re rule_env \<Rightarrow> string option \<Rightarrow> operator_type \<Rightarrow> string \<Rightarrow> rule_error + 're rule_token" where
  "parse_ATTR R attr opr value = (case check_attr_format R (attr_str attr) of
       Inl e \<Rightarrow> Inl e
     | Inr _ \<Rightarrow>
         if opr = OpRemove then Inl RulesLoadError
         else let opr' = (if opr = OpAdd \<or> opr = OpAssignFinal then OpAssign else opr) in
           if \<not> op_is_match opr then token_new R AssignAttr opr' attr value
           else token_new R MatchAttr opr' attr value)"

definition parse_SYSCTL :: "'re rule_env \<Rightarrow> string option \<Rightarrow> operator_type \<Rightarrow> string \<Rightarrow> rule_error + 're rule_token" where
  "parse_SYSCTL R attr opr value = (case check_attr_format R (attr_str attr) of
       Inl e \<Rightarrow> Inl e
     | Inr _ \<Rightarrow>
         if opr = OpRemove then Inl RulesLoadError
         else let opr' = (if opr = OpAdd \<or> opr = OpAssignFinal then OpAssign else opr) in
           if \<not> op_is_match opr then token_new R AssignAttr opr' attr value
           else token_new R MatchAttr opr' attr value)"

definition parse_KERNELS :: "'re rule_env \<Rightarrow> string option \<Rightarrow> operator_type \<Rightarrow> string \<Rightarrow> rule_error + 're rule_token" where
  "parse_KERNELS R attr opr value = (
     if attr \<noteq> None then Inl RulesLoadError
     else if \<not> op_is_match opr then Inl RulesLoadError
     else token_new R MatchParentsSubsystem opr None value)"

definition parse_SUBSYSTEMS :: "'re rule_env \<Rightarrow> string option \<Rightarrow> operator_type \<Rightarrow> string \<Rightarrow> rule_error + 're rule_token" where
  "parse_SUBSYSTEMS R attr opr value = (
     if attr \<noteq> None then Inl RulesLoadError
     else if \<not> op_is_match opr then Inl RulesLoadError
     else token_new R MatchParentsSubsystem opr None value)"

definition parse_DRIVERS :: "'re rule_env \<Rightarrow> string option \<Rightarrow> operator_type \<Rightarrow> string \<Rightarrow> rule_error + 're rule_token" where
  "parse_DRIVERS R attr opr value = (
     if attr \<noteq> None then Inl RulesLoadError
     else if \<not> op_is_match opr then Inl RulesLoadError
     else token_new R MatchParentsDriver opr None value)"

definition parse_ATTRS :: "'re rule_env \<Rightarrow> string option \<Rightarrow> operator_type \<Rightarrow> string \<Rightarrow> rule_error + 're rule_token" where
  "parse_ATTRS R attr opr value = (case check_attr_format R (attr_str attr) of
       Inl e \<Rightarrow> Inl e
     | Inr _ \<Rightarrow>
         if \<not> op_is_match opr then Inl RulesLoadError
         else token_new R MatchParentsAttr opr attr value)"

definition parse_TAGS :: "'re rule_env \<Rightarrow> string option \<Rightarrow> operator_type \<Rightarrow> string \<Rightarrow> rule_error + 're rule_token" where
  "parse_TAGS R attr opr value = (
     if attr \<noteq> None then Inl RulesLoadError
     else if \<not> op_is_match opr then Inl RulesLoadError
     else token_new R MatchParentsTag opr None value)"

definition parse_TEST :: "'re rule_env \<Rightarrow> string option \<Rightarrow> operator_type \<Rightarrow> string \<Rightarrow> rule_error + 're rule_token" where
  "parse_TEST R attr opr value = (
     if (case attr of None \<Rightarrow> False | Some a \<Rightarrow> parse_mode a = None) then Inl RulesLoadError
     else if \<not> op_is_match opr then Inl RulesLoadError
     else token_new R MatchTest opr attr value)"

definition parse_PROGRAM :: "'re rule_env \<Rightarrow> string option \<Rightarrow> operator_type \<Rightarrow> string \<Rightarrow> rule_error + 're rule_token" where
  "parse_PROGRAM R attr opr value = (
     if attr \<noteq> None then Inl RulesLoadError
     else if opr = OpRemove then Inl RulesLoadError
     else token_new R MatchProgram (if \<not> op_is_match opr then OpMatch else opr) attr value)"

definition parse_IMPORT :: "'re rule_env \<Rightarrow> string option \<Rightarrow> operator_type \<Rightarrow> string \<Rightarrow> rule_error + 're rule_token" where
  "parse_IMPORT R attr opr value = (case attr of
       None \<Rightarrow> Inl RulesLoadError
     | Some a \<Rightarrow> (let opr' = (if \<not> op_is_match opr then OpMatch else opr) in
         if a = ''file'' then token_new R MatchImportFile opr' attr value
         else if a = ''program'' then
           (case builtin_from_str value of
              Some _ \<Rightarrow> token_new R MatchImportBuiltin opr' attr value
            | None \<Rightarrow> token_new R MatchImportProgram opr' attr value)
         else if a = ''builtin'' then
           (if builtin_from_str value = None then Inl RulesLoadError
            else token_new R MatchImportBuiltin opr' attr value)
         else if a = ''db'' then token_new R MatchImportDb opr' attr value
         else if a = ''cmdline'' then token_new R MatchImportCmdline opr' attr value
         else if a = ''parent'' then token_new R MatchImportParent opr' attr value
         else Inl RulesLoadError))"

definition parse_RESULT :: "'re rule_env \<Rightarrow> string option \<Rightarrow> operator_type \<Rightarrow> string \<Rightarrow> rule_error + 're rule_token" where
  "parse_RESULT R attr opr value = (
     if attr \<noteq> None then Inl RulesLoadError
     else if \<not> op_is_match opr then Inl RulesLoadError
     else token_new R MatchResult opr attr value)"

definition parse_OPTIONS :: "'re rule_env \<Rightarrow> string option \<Rightarrow> operator_type \<Rightarrow> string \<Rightarrow> rule_error + 're rule_token" where
  "parse_OPTIONS R attr opr value = (
     if attr \<noteq> None then Inl RulesLoadError
     else if op_is_match opr \<or> opr = OpRemove then Inl RulesLoadError
     else let opr' = (if opr = OpAdd then OpAssign else opr) in
       if value = ''string_escape=none'' then token_new R AssignOptionsStringEscapeNone opr' None []
       else if value = ''string_escape=replace'' then token_new R AssignOptionsStringEscapeReplace opr' None []
       else if value = ''db_persist'' then token_new R AssignOptionsDbPersist opr' None []
       else if value = ''watch'' then token_new R AssignOptionsInotifyWatch opr' None ''1''
       else if value = ''nowatch'' then token_new R AssignOptionsInotifyWatch opr' None ''0''
       else case strip_str ''static_node='' value of
         Some v \<Rightarrow> token_new R AssignOptionsStaticNode opr' None v
       | None \<Rightarrow> (case strip_str ''link_priority='' value of
           Some v \<Rightarrow> if parse_i32 v = None then Inl RulesLoadError
                     else token_new R AssignOptionsDevlinkPriority opr' None v
         | None \<Rightarrow> (case strip_str ''log_level='' value of
             Some v \<Rightarrow> if v = ''rest'' then token_new R AssignOptionsLogLevel opr' None ''-1''
                       else if parse_i32 v = None then Inl RulesLoadError
                       else token_new R AssignOptionsLogLevel opr' None v
           | None \<Rightarrow> Inl RulesLoadError)))"

text \<open>\<open>OWNER\<close> and \<open>GROUP\<close> look the name up when the rules are given and to be resolved early.\<close>

definition parse_OWNER :: "'re rule_env \<Rightarrow> rules_ctx option \<Rightarrow> string option \<Rightarrow> operator_type \<Rightarrow> string \<Rightarrow>
    (rule_error + 're rule_token) option" where
  "parse_OWNER R rules attr opr value = (
     if attr \<noteq> None then Some (Inl RulesLoadError)
     else if op_is_match opr \<or> opr = OpRemove then Some (Inl RulesLoadError)
     else let opr' = (if opr = OpAdd then OpAssign else opr) in
       case rules of
         None \<Rightarrow> Some (Inl IgnoreError)
       | Some C \<Rightarrow> (case rule_parse_uid R value of
           None \<Rightarrow> None
         | Some (Some _) \<Rightarrow> Some (token_new R AssignOwnerId opr' attr value)
         | Some None \<Rightarrow>
             if rc_time C = Resolve_Early \<and> substitute_from_str value = ST_Plain then
               Some (case resolve_user R C value of
                   Inl e \<Rightarrow> Inl e
                 | Inr u \<Rightarrow> token_new R AssignOwnerId opr' attr (show_digits (unat u)))
             else if rc_time C \<noteq> Resolve_Never then Some (token_new R AssignOwner opr' attr value)
             else Some (Inl IgnoreError)))"

definition parse_GROUP :: "'re rule_env \<Rightarrow> rules_ctx option \<Rightarrow> string option \<Rightarrow> operator_type \<Rightarrow> string \<Rightarrow>
    (rule_error + 're rule_token) option" where
  "parse_GROUP R rules attr opr value = (
     if attr \<noteq> None then Some (Inl RulesLoadError)
     else if op_is_match opr \<or> opr = OpRemove then Some (Inl RulesLoadError)
     else let opr' = (if opr = OpAdd then OpAssign else opr) in
       case rules of
         None \<Rightarrow> Some (Inl IgnoreError)
       | Some C \<Rightarrow> (case rule_parse_gid R value of
           None \<Rightarrow> None
         | Some (Some _) \<Rightarrow> Some (token_new R AssignGroupId opr' attr value)
         | Some None \<Rightarrow>
             if rc_time C = Resolve_Early \<and> substitute_from_str value = ST_Plain then
               Some (case resolve_group R C value of
                   Inl e \<Rightarrow> Inl e
                 | Inr u \<Rightarrow> token_new R AssignGroupId opr' attr (show_digits (unat u)))
             else if rc_time C \<noteq> Resolve_Never then Some (token_new R AssignGroup opr' attr value)
             else Some (Inl IgnoreError)))"

definition parse_MODE :: "'re rule_env \<Rightarrow> string option \<Rightarrow> operator_type \<Rightarrow> string \<Rightarrow> rule_error + 're rule_token" where
  "parse_MODE R attr opr value = (
     if attr \<noteq> None then Inl RulesLoadError
     else if op_is_match opr \<or> opr = OpRemove then Inl RulesLoadError
     else let opr' = (if opr = OpAdd then OpAssign else opr) in
       if parse_mode value \<noteq> None then token_new R AssignModeId opr' None value
       else token_new R AssignMode opr' None value)"

definition parse_SECLABEL :: "'re rule_env \<Rightarrow> string option \<Rightarrow> operator_type \<Rightarrow> string \<Rightarrow> rule_error + 're rule_token" where
  "parse_SECLABEL R attr opr value = (
     if attr = None then Inl RulesLoadError
     else if op_is_match opr \<or> opr = OpRemove then Inl RulesLoadError
     else token_new R AssignSeclabel (if opr = OpAssignFinal then OpAssign else opr) attr value)"

definition parse_RUN :: "'re rule_env \<Rightarrow> string option \<Rightarrow> operator_type \<Rightarrow> string \<Rightarrow> rule_error + 're rule_token" where
  "parse_RUN R attr opr value = (
     if op_is_match opr \<or> opr = OpRemove then Inl RulesLoadError
     else if attr = None \<or> attr = Some ''program'' then token_new R AssignRunProgram opr None value
     else if attr = Some ''builtin'' then
       (if builtin_from_str value = None then Inl RulesLoadError else token_new R AssignRunBuiltin opr attr value)
     else Inl IgnoreError)"

definition parse_GOTO :: "'re rule_env \<Rightarrow> string option \<Rightarrow> operator_type \<Rightarrow> string \<Rightarrow> rule_error + 're rule_token" where
  "parse_GOTO R attr opr value = (
     if attr \<noteq> None then Inl RulesLoadError
     else if opr \<noteq> OpAssign then Inl RulesLoadError
     else token_new R Goto opr None value)"

definition parse_LABEL :: "'re rule_env \<Rightarrow> string option \<Rightarrow> operator_type \<Rightarrow> string \<Rightarrow> rule_error + 're rule_token" where
  "parse_LABEL R attr opr value = (
     if attr \<noteq> None then Inl RulesLoadError
     else if opr \<noteq> OpAssign then Inl RulesLoadError
     else token_new R Label opr None value)"

text \<open>The arms of the match that cannot panic.\<close>

definition key_parsers :: "(string \<times> ('re rule_env \<Rightarrow> string option \<Rightarrow> operator_type \<Rightarrow> string \<Rightarrow> rule_error + 're rule_token)) list" where
  "key_parsers = [(''ACTION'', parse_ACTION), (''DEVPATH'', parse_DEVPATH), (''KERNEL'', parse_KERNEL),
     (''SYMLINK'', parse_SYMLINK), (''NAME'', parse_NAME), (''ENV'', parse_ENV), (''CONST'', parse_CONST),
     (''TAG'', parse_TAG), (''SUBSYSTEM'', parse_SUBSYSTEM), (''DRIVER'', parse_DRIVER), (''ATTR'', parse_ATTR),
     (''SYSCTL'', parse_SYSCTL), (''KERNELS'', parse_KERNELS), (''SUBSYSTEMS'', parse_SUBSYSTEMS),
     (''DRIVERS'', parse_DRIVERS), (''ATTRS'', parse_ATTRS), (''TAGS'', parse_TAGS), (''TEST'', parse_TEST),
     (''PROGRAM'', parse_PROGRAM), (''IMPORT'', parse_IMPORT), (''RESULT'', parse_RESULT),
     (''OPTIONS'', parse_OPTIONS), (''MODE'', parse_MODE), (''SECLABEL'', parse_SECLABEL), (''RUN'', parse_RUN),
     (''GOTO'', parse_GOTO), (''LABEL'', parse_LABEL)]"

definition parse_token :: "'re rule_env \<Rightarrow> rules_ctx option \<Rightarrow> raw_token \<Rightarrow> (rule_error + 're rule_token) option" where
  "parse_token R rules raw = (case raw of (key, attr, opr, value) \<Rightarrow>
     case operator_from_str opr of
       Inl e \<Rightarrow> Some (Inl e)
     | Inr x \<Rightarrow>
         if key = ''OWNER'' then parse_OWNER R rules attr x value
         else if key = ''GROUP'' then parse_GROUP R rules attr x value
         else case map_of key_parsers key of
           None \<Rightarrow> Some (Inl RulesLoadError)
         | Some f \<Rightarrow> Some (f R attr x value))"

section \<open>Linked lists\<close>

text \<open>A list whose nodes point to their neighbours: the first, the last, and the nodes at their addresses.\<close>

record 'a node =
  nd_value :: 'a
  nd_prev :: "nat option"
  nd_next :: "nat option"

record 'a linked =
  ll_first :: "nat option"
  ll_last :: "nat option"
  ll_nodes :: "'a node list"

definition ll_empty :: "'a linked" where
  "ll_empty = \<lparr>ll_first = None, ll_last = None, ll_nodes = []\<rparr>"

text \<open>Appending: without a neighbour the node becomes the first one, otherwise it is linked behind the last
  one, whose absence would be a panic. \<open>add_file\<close> tests the last pointer, \<open>add_line\<close> and \<open>add_token\<close>
  the first.\<close>

definition ll_link :: "bool \<Rightarrow> 'a \<Rightarrow> 'a linked \<Rightarrow> 'a linked option" where
  "ll_link alone x l = (let a = length (ll_nodes l) in
     if alone then Some (l\<lparr>ll_first := Some a, ll_last := Some a,
         ll_nodes := ll_nodes l @ [\<lparr>nd_value = x, nd_prev = None, nd_next = None\<rparr>]\<rparr>)
     else case ll_last l of
       None \<Rightarrow> None
     | Some t \<Rightarrow> Some (l\<lparr>ll_last := Some a,
         ll_nodes := (ll_nodes l)[t := (ll_nodes l ! t)\<lparr>nd_next := Some a\<rparr>] @
           [\<lparr>nd_value = x, nd_prev = Some t, nd_next = None\<rparr>]\<rparr>))"

definition ll_add_by_last :: "'a \<Rightarrow> 'a linked \<Rightarrow> 'a linked option" where
  "ll_add_by_last x l = ll_link (ll_last l = None) x l"

definition ll_add_by_first :: "'a \<Rightarrow> 'a linked \<Rightarrow> 'a linked option" where
  "ll_add_by_first x l = ll_link (ll_first l = None) x l"

text \<open>The iterators: \<open>next\<close> returns the current node and moves on; a walk makes at most as many steps as there
  are nodes.\<close>

definition ll_next :: "'a linked \<Rightarrow> nat option \<Rightarrow> 'a option \<times> nat option" where
  "ll_next l cur = (case cur of
       None \<Rightarrow> (None, None) | Some a \<Rightarrow> (Some (nd_value (ll_nodes l ! a)), nd_next (ll_nodes l ! a)))"

fun ll_walk :: "nat \<Rightarrow> 'a linked \<Rightarrow> nat option \<Rightarrow> 'a list" where
  "ll_walk 0 l cur = []"
| "ll_walk (Suc n) l cur = (case ll_next l cur of
       (None, _) \<Rightarrow> [] | (Some x, nx) \<Rightarrow> x # ll_walk n l nx)"

definition ll_iter :: "'a linked \<Rightarrow> 'a list" where
  "ll_iter l = ll_walk (length (ll_nodes l)) l (ll_first l)"

text \<open>A well-formed list: the nodes are linked in the order of their addresses.\<close>

definition ll_ok :: "'a linked \<Rightarrow> bool" where
  "ll_ok l \<longleftrightarrow> (let n = length (ll_nodes l) in
     ll_first l = (if n = 0 then None else Some 0) \<and> ll_last l = (if n = 0 then None else Some (n - 1)) \<and>
     (\<forall>i<n. nd_prev (ll_nodes l ! i) = (if i = 0 then None else Some (i - 1)) \<and>
            nd_next (ll_nodes l ! i) = (if Suc i < n then Some (Suc i) else None)))"

definition ll_list :: "'a linked \<Rightarrow> 'a list" where
  "ll_list l = map nd_value (ll_nodes l)"

lemma ll_ok_empty [simp]: "ll_ok ll_empty" "ll_list ll_empty = []"
  by (simp_all add: ll_ok_def ll_empty_def ll_list_def)

lemma ll_link_ok:
  assumes "ll_ok l"
  shows "\<exists>l'. ll_link (ll_nodes l = []) x l = Some l' \<and> ll_ok l' \<and> ll_list l' = ll_list l @ [x]"
proof (cases "ll_nodes l = []")
  case True
  then show ?thesis by (simp add: ll_link_def ll_ok_def ll_list_def Let_def)
next
  case False
  let ?n = "length (ll_nodes l)"
  have t: "ll_last l = Some (?n - 1)" "?n \<noteq> 0" using assms False by (simp_all add: ll_ok_def Let_def)
  let ?ns = "(ll_nodes l)[?n - 1 := (ll_nodes l ! (?n - 1))\<lparr>nd_next := Some ?n\<rparr>] @
      [\<lparr>nd_value = x, nd_prev = Some (?n - 1), nd_next = None\<rparr>]"
  let ?l = "l\<lparr>ll_last := Some ?n, ll_nodes := ?ns\<rparr>"
  have e: "ll_link (ll_nodes l = []) x l = Some ?l" using False t by (simp add: ll_link_def Let_def)
  have "ll_ok ?l"
    using assms False by (auto simp: ll_ok_def Let_def nth_append nth_list_update less_Suc_eq)
  moreover have "ll_list ?l = ll_list l @ [x]"
  proof -
    have "map nd_value ((ll_nodes l)[?n - 1 := (ll_nodes l ! (?n - 1))\<lparr>nd_next := Some ?n\<rparr>]) = map nd_value (ll_nodes l)"
      using False by (simp add: map_update list_update_same_conv)
    then show ?thesis by (simp add: ll_list_def)
  qed
  ultimately show ?thesis using e by blast
qed

lemma ll_ok_nil: "ll_ok l \<Longrightarrow> (ll_first l = None) = (ll_nodes l = [])" "ll_ok l \<Longrightarrow> (ll_last l = None) = (ll_nodes l = [])"
  by (auto simp: ll_ok_def Let_def)

lemma ll_walk_from:
  assumes "ll_ok l"
  shows "i \<le> length (ll_nodes l) \<Longrightarrow> length (ll_nodes l) - i \<le> n \<Longrightarrow>
    ll_walk n l (if i < length (ll_nodes l) then Some i else None) = drop i (ll_list l)"
proof (induction n arbitrary: i)
  case 0
  then show ?case by (simp add: ll_list_def)
next
  case (Suc n)
  show ?case
  proof (cases "i < length (ll_nodes l)")
    case True
    have "ll_next l (Some i) = (Some (nd_value (ll_nodes l ! i)), if Suc i < length (ll_nodes l) then Some (Suc i) else None)"
      using assms True by (simp add: ll_next_def ll_ok_def Let_def)
    then show ?thesis using True Suc.IH [of "Suc i"] Suc.prems
      by (simp add: ll_list_def Cons_nth_drop_Suc [symmetric, of i "map nd_value (ll_nodes l)"])
  next
    case False
    then show ?thesis using Suc.prems by (simp add: ll_next_def ll_list_def)
  qed
qed

text \<open>What the clients of a list rely on.\<close>

locale push_list =
  fixes push :: "'a \<Rightarrow> 'l \<Rightarrow> 'l option" and valid :: "'l \<Rightarrow> bool" and items :: "'l \<Rightarrow> 'a list" and iter :: "'l \<Rightarrow> 'a list"
  assumes push_ok: "valid l \<Longrightarrow> \<exists>l'. push x l = Some l' \<and> valid l' \<and> items l' = items l @ [x]"
    and iter_items: "valid l \<Longrightarrow> iter l = items l"
begin

fun push_all :: "'a list \<Rightarrow> 'l \<Rightarrow> 'l option" where
  "push_all [] l = Some l"
| "push_all (x # xs) l = Option.bind (push x l) (push_all xs)"

lemma push_all_ok: "valid l \<Longrightarrow> \<exists>l'. push_all xs l = Some l' \<and> valid l' \<and> items l' = items l @ xs"
proof (induction xs arbitrary: l)
  case (Cons x xs)
  obtain l1 where l1: "push x l = Some l1" "valid l1" "items l1 = items l @ [x]" using push_ok [OF Cons.prems] by blast
  obtain l2 where "push_all xs l1 = Some l2" "valid l2" "items l2 = items l1 @ xs" using Cons.IH [OF l1(2)] by blast
  then show ?case using l1 by simp
qed simp

lemma push_unique: "valid l \<Longrightarrow> push x l = Some l' \<Longrightarrow> valid l' \<and> iter l' = iter l @ [x]"
  using push_ok [of l x] iter_items by auto

end

lemma ll_iter_ok: "ll_ok l \<Longrightarrow> ll_iter l = ll_list l"
proof -
  assume l: "ll_ok l"
  have "ll_first l = (if 0 < length (ll_nodes l) then Some 0 else None)" using l by (simp add: ll_ok_def Let_def)
  then show ?thesis using ll_walk_from [OF l, of 0 "length (ll_nodes l)"] by (simp add: ll_iter_def)
qed

interpretation by_last: push_list ll_add_by_last ll_ok ll_list ll_iter
proof
  show "ll_ok l \<Longrightarrow> \<exists>l'. ll_add_by_last x l = Some l' \<and> ll_ok l' \<and> ll_list l' = ll_list l @ [x]" for x :: 'a and l
    using ll_link_ok [of l x] ll_ok_nil(2) [of l] by (simp add: ll_add_by_last_def)
qed (rule ll_iter_ok)

interpretation by_first: push_list ll_add_by_first ll_ok ll_list ll_iter
proof
  show "ll_ok l \<Longrightarrow> \<exists>l'. ll_add_by_first x l = Some l' \<and> ll_ok l' \<and> ll_list l' = ll_list l @ [x]" for x :: 'a and l
    using ll_link_ok [of l x] ll_ok_nil(1) [of l] by (simp add: ll_add_by_first_def)
qed (rule ll_iter_ok)

section \<open>Lines\<close>

record 're rule_line =
  rl_line :: string
  rl_line_number :: "32 word"
  rl_type :: "8 word"
  rl_label :: "string option"
  rl_goto_label :: "string option"
  rl_goto_line :: "nat option"
  rl_tokens :: "'re rule_token linked"

definition HAS_GOTO :: "8 word" where "HAS_GOTO = 8"
definition HAS_LABEL :: "8 word" where "HAS_LABEL = 16"

definition line_new :: "string \<Rightarrow> 32 word \<Rightarrow> 're rule_line" where
  "line_new line n = \<lparr>rl_line = line, rl_line_number = n, rl_type = 0, rl_label = None, rl_goto_label = None,
     rl_goto_line = None, rl_tokens = ll_empty\<rparr>"

definition add_token :: "'re rule_token \<Rightarrow> 're rule_line \<Rightarrow> 're rule_line option" where
  "add_token t l = map_option (\<lambda>ts. l\<lparr>rl_tokens := ts\<rparr>) (ll_add_by_first t (rl_tokens l))"

definition place_token :: "'re rule_token \<Rightarrow> 're rule_line \<Rightarrow> 're rule_line option" where
  "place_token t l = (case rt_type t of
       Goto \<Rightarrow> Some (l\<lparr>rl_goto_label := Some (rt_value t), rl_type := rl_type l OR HAS_GOTO\<rparr>)
     | Label \<Rightarrow> Some (l\<lparr>rl_label := Some (rt_value t), rl_type := rl_type l OR HAS_LABEL\<rparr>)
     | _ \<Rightarrow> add_token t l)"

fun load_tokens :: "'re rule_env \<Rightarrow> rules_ctx option \<Rightarrow> raw_token list \<Rightarrow> 're rule_line \<Rightarrow> (rule_error + 're rule_line) option" where
  "load_tokens R rules [] l = Some (Inr l)"
| "load_tokens R rules (raw # raws) l = (case parse_token R rules raw of
       None \<Rightarrow> None
     | Some (Inl e) \<Rightarrow> Some (Inl e)
     | Some (Inr t) \<Rightarrow> (case place_token t l of None \<Rightarrow> None | Some l' \<Rightarrow> load_tokens R rules raws l'))"

definition load_line :: "'re rule_env \<Rightarrow> rules_ctx option \<Rightarrow> string \<Rightarrow> 32 word \<Rightarrow> (rule_error + 're rule_line) option" where
  "load_line R rules line n = (
     if \<not> re_line_matches R line then Some (Inl RulesLoadError)
     else load_tokens R rules (re_token_captures R line) (line_new line n))"

section \<open>Files and directories\<close>

record 're rule_file =
  rf_file_name :: string
  rf_lines :: "'re rule_line linked"

definition file_new :: "string \<Rightarrow> 're rule_file" where
  "file_new name = \<lparr>rf_file_name = name, rf_lines = ll_empty\<rparr>"

definition add_line :: "'re rule_line \<Rightarrow> 're rule_file \<Rightarrow> 're rule_file option" where
  "add_line l f = map_option (\<lambda>ls. f\<lparr>rf_lines := ls\<rparr>) (ll_add_by_first l (rf_lines f))"

text \<open>The loop over the lines of a file: the number of the line read, the text collected over continued lines
  and how many of them there were; a line that cannot be read is \<open>None\<close>.\<close>

fun parse_lines_from :: "'re rule_env \<Rightarrow> rules_ctx option \<Rightarrow> nat \<Rightarrow> string option list \<Rightarrow> string \<Rightarrow> nat \<Rightarrow>
    're rule_file \<Rightarrow> 're rule_file option" where
  "parse_lines_from R rules k [] full offset f = Some f"
| "parse_lines_from R rules k (None # ls) full offset f = parse_lines_from R rules (Suc k) ls full offset f"
| "parse_lines_from R rules k (Some raw # ls) full offset f = (let line = trim raw in
     if starts_with ''#'' line \<or> line = [] then parse_lines_from R rules (Suc k) ls full offset f
     else if last line = CHR 0x5C
     then parse_lines_from R rules (Suc k) ls (full @ butlast line) (Suc offset) f
     else case load_line R rules (full @ line) (of_nat (k + 1 - offset)) of
       Some (Inr l) \<Rightarrow> (case add_line l f of
           None \<Rightarrow> None | Some f' \<Rightarrow> parse_lines_from R rules (Suc k) ls [] 0 f')
     | _ \<Rightarrow> None)"

text \<open>\<open>File::open(..).unwrap()\<close>: the content of a file that cannot be opened is \<open>None\<close>.\<close>

definition load_file :: "'re rule_env \<Rightarrow> (string \<Rightarrow> string option list option) \<Rightarrow> rules_ctx option \<Rightarrow> string \<Rightarrow>
    're rule_file option" where
  "load_file R content rules name = (case content name of
       None \<Rightarrow> None | Some ls \<Rightarrow> parse_lines_from R rules 0 ls [] 0 (file_new name))"

record 're rules =
  ru_files :: "'re rule_file linked"
  ru_dirs :: "string list"
  ru_ctx :: rules_ctx

definition rules_new :: "string list \<Rightarrow> resolve_name_time \<Rightarrow> 're rules" where
  "rules_new dirs time = \<lparr>ru_files = ll_empty, ru_dirs = dirs,
     ru_ctx = \<lparr>rc_time = time, rc_users = [], rc_groups = []\<rparr>\<rparr>"

definition add_file :: "'re rule_file \<Rightarrow> 're rules \<Rightarrow> 're rules option" where
  "add_file f r = map_option (\<lambda>fs. r\<lparr>ru_files := fs\<rparr>) (ll_add_by_last f (ru_files r))"

definition parse_file :: "'re rule_env \<Rightarrow> (string \<Rightarrow> string option list option) \<Rightarrow> string \<Rightarrow> 're rules \<Rightarrow> 're rules option" where
  "parse_file R content name r = Option.bind (load_file R content (Some (ru_ctx r)) name) (\<lambda>f. add_file f r)"

fun parse_files :: "'re rule_env \<Rightarrow> (string \<Rightarrow> string option list option) \<Rightarrow> string list \<Rightarrow> 're rules \<Rightarrow> 're rules option" where
  "parse_files R content [] r = Some r"
| "parse_files R content (n # ns) r = Option.bind (parse_file R content n r) (parse_files R content ns)"

text \<open>The entries of a directory: \<open>None\<close> for one that is not there or not a directory, otherwise the entries
  that could be read, as paths.\<close>

definition str_ends_with :: "string \<Rightarrow> string \<Rightarrow> bool" where
  "str_ends_with p s \<longleftrightarrow> length p \<le> length s \<and> drop (length s - length p) s = p"

definition rule_files :: "(string \<Rightarrow> string option list option) \<Rightarrow> string \<Rightarrow> string list" where
  "rule_files entries dir = (case entries dir of
       None \<Rightarrow> [] | Some es \<Rightarrow> sort (filter (str_ends_with ''.rules'') (List.map_filter (\<lambda>e. e) es)))"

fun parse_dirs :: "'re rule_env \<Rightarrow> (string \<Rightarrow> string option list option) \<Rightarrow> (string \<Rightarrow> string option list option) \<Rightarrow>
    string list \<Rightarrow> 're rules \<Rightarrow> 're rules option" where
  "parse_dirs R entries content [] r = Some r"
| "parse_dirs R entries content (d # ds) r =
     Option.bind (parse_files R content (rule_files entries d) r) (parse_dirs R entries content ds)"

definition load_rules :: "'re rule_env \<Rightarrow> (string \<Rightarrow> string option list option) \<Rightarrow> (string \<Rightarrow> string option list option) \<Rightarrow>
    string list \<Rightarrow> resolve_name_time \<Rightarrow> 're rules option" where
  "load_rules R entries content dirs time = (let r = rules_new dirs time in parse_dirs R entries content (ru_dirs r) r)"

section \<open>What the tokens of a rule may be\<close>

text \<open>The attribute of a token type: must be there, must not be there, or either.\<close>

definition needs_attr :: "token_type \<Rightarrow> bool option" where
  "needs_attr t = (
     if t \<in> set [MatchEnv, MatchConst, MatchAttr, MatchParentsAttr, MatchImportFile, MatchImportProgram, MatchImportBuiltin,
        MatchImportDb, MatchImportCmdline, MatchImportParent, AssignEnv, AssignAttr, AssignSeclabel, AssignRunBuiltin]
     then Some True
     else if t = MatchTest then None
     else Some False)"

definition op_allowed :: "token_type \<Rightarrow> operator_type \<Rightarrow> bool" where
  "op_allowed t x \<longleftrightarrow> (
     if t \<le> MatchResult then op_is_match x
     else if t = Goto \<or> t = Label \<or> t = AssignAttr then x = OpAssign
     else if t = AssignTag then x \<in> set [OpAdd, OpRemove, OpAssign]
     else if t = AssignEnv \<or> t = AssignSeclabel then x \<in> set [OpAdd, OpAssign]
     else if t = AssignDevlink \<or> t = AssignRunBuiltin \<or> t = AssignRunProgram then x \<in> set [OpAdd, OpAssign, OpAssignFinal]
     else x \<in> set [OpAssign, OpAssignFinal])"

definition token_typed :: "'re rule_env \<Rightarrow> 're rule_token \<Rightarrow> bool" where
  "token_typed R t \<longleftrightarrow> op_allowed (rt_type t) (rt_op t) \<and>
     (case needs_attr (rt_type t) of None \<Rightarrow> True | Some b \<Rightarrow> (rt_attr t \<noteq> None) = b) \<and>
     (rt_type t < MatchTest \<or> rt_type t = MatchResult \<longrightarrow>
        map Some (rt_value_regex t) = map (glob_to_regex R) (split_on CHR ''|'' (rt_value t)))"

lemma globs_to_regex_Some: "globs_to_regex R ss = Some rs \<Longrightarrow> map Some rs = map (glob_to_regex R) ss"
  by (induction ss arbitrary: rs) (auto split: option.splits)

lemma token_new_fields:
  assumes "token_new R ty x attr value = Inr t"
  shows "rt_type t = ty \<and> rt_op t = x \<and> rt_attr t = attr \<and> rt_value t = value \<and>
    (ty \<le> MatchResult \<and> (ty < MatchTest \<or> ty = MatchResult) \<longrightarrow>
       map Some (rt_value_regex t) = map (glob_to_regex R) (split_on CHR ''|'' value))"
proof -
  define globs where "globs = (if ty \<le> MatchResult \<and> (ty < MatchTest \<or> ty = MatchResult)
                  then globs_to_regex R (split_on CHR ''|'' value) else Some [])"
  obtain rs where rs: "globs = Some rs" and t: "rt_type t = ty" "rt_op t = x" "rt_attr t = attr" "rt_value t = value"
      "rt_value_regex t = rs"
    using assms unfolding token_new_def Let_def globs_def [symmetric] by (cases globs) auto
  show ?thesis using rs t globs_to_regex_Some [of R _ rs] unfolding globs_def by (simp split: if_splits)
qed

lemma token_new_typed:
  assumes "token_new R ty x attr value = Inr t"
    and "op_allowed ty x" and "case needs_attr ty of None \<Rightarrow> True | Some b \<Rightarrow> (attr \<noteq> None) = b"
  shows "token_typed R t"
proof -
  have le: "ty < MatchTest \<or> ty = MatchResult \<Longrightarrow> ty \<le> MatchResult" by (auto simp: token_order_defs)
  have f: "rt_type t = ty" "rt_op t = x" "rt_attr t = attr" "rt_value t = value"
    and g: "ty \<le> MatchResult \<and> (ty < MatchTest \<or> ty = MatchResult) \<longrightarrow>
       map Some (rt_value_regex t) = map (glob_to_regex R) (split_on CHR ''|'' value)"
    using token_new_fields [OF assms(1)] by blast+
  show ?thesis unfolding token_typed_def f using assms(2,3) le g by blast
qed

text \<open>The arms of \<open>parse_token\<close>: whatever an arm accepts is a well-typed token.\<close>

definition arm_typed :: "'re rule_env \<Rightarrow> rule_error + 're rule_token \<Rightarrow> bool" where
  "arm_typed R r \<longleftrightarrow> (case r of Inl _ \<Rightarrow> True | Inr t \<Rightarrow> token_typed R t)"

lemma arm_Inl [simp]: "arm_typed R (Inl e)"
  by (simp add: arm_typed_def)

lemma arm_new:
  "op_allowed ty x \<Longrightarrow> (case needs_attr ty of None \<Rightarrow> True | Some b \<Rightarrow> (attr \<noteq> None) = b) \<Longrightarrow>
   arm_typed R (token_new R ty x attr value)"
  using token_new_typed by (auto simp: arm_typed_def split: sum.split)

lemmas arm_simps = op_allowed_def needs_attr_def token_order_defs op_is_match_def

lemma arms_match:
  "arm_typed R (parse_ACTION R attr x v)" "arm_typed R (parse_DEVPATH R attr x v)" "arm_typed R (parse_KERNEL R attr x v)"
  "arm_typed R (parse_SUBSYSTEM R attr x v)" "arm_typed R (parse_DRIVER R attr x v)" "arm_typed R (parse_KERNELS R attr x v)"
  "arm_typed R (parse_SUBSYSTEMS R attr x v)" "arm_typed R (parse_DRIVERS R attr x v)" "arm_typed R (parse_TAGS R attr x v)"
  "arm_typed R (parse_TEST R attr x v)" "arm_typed R (parse_RESULT R attr x v)" "arm_typed R (parse_CONST R attr x v)"
  unfolding parse_ACTION_def parse_DEVPATH_def parse_KERNEL_def parse_SUBSYSTEM_def parse_DRIVER_def parse_KERNELS_def
    parse_SUBSYSTEMS_def parse_DRIVERS_def parse_TAGS_def parse_TEST_def parse_RESULT_def parse_CONST_def
  by (auto intro!: arm_new simp: arm_simps)

lemma op_assignable: "\<not> op_is_match x \<Longrightarrow> x \<noteq> OpRemove \<Longrightarrow> x = OpAdd \<or> x = OpAssign \<or> x = OpAssignFinal"
  by (cases x) (simp_all add: op_is_match_def)

lemma arms_assign:
  "arm_typed R (parse_SYMLINK R attr x v)" "arm_typed R (parse_NAME R attr x v)" "arm_typed R (parse_ENV R attr x v)"
  "arm_typed R (parse_TAG R attr x v)" "arm_typed R (parse_MODE R attr x v)" "arm_typed R (parse_SECLABEL R attr x v)"
  "arm_typed R (parse_RUN R attr x v)" "arm_typed R (parse_GOTO R attr x v)" "arm_typed R (parse_LABEL R attr x v)"
  unfolding parse_SYMLINK_def parse_NAME_def parse_ENV_def parse_TAG_def parse_MODE_def parse_SECLABEL_def
    parse_RUN_def parse_GOTO_def parse_LABEL_def Let_def
  by (cases x; auto intro!: arm_new simp: arm_simps split: option.split)+

lemma check_attr_some: "check_attr_format R (attr_str attr) = Inr u \<Longrightarrow> attr \<noteq> None"
  by (auto simp: check_attr_format_def attr_str_def split: option.splits)

lemma arms_attr:
  "arm_typed R (parse_ATTR R attr x v)" "arm_typed R (parse_SYSCTL R attr x v)" "arm_typed R (parse_ATTRS R attr x v)"
  unfolding parse_ATTR_def parse_SYSCTL_def parse_ATTRS_def Let_def
  by (cases x; auto intro!: arm_new simp: arm_simps dest: check_attr_some split: sum.split)+

lemma arm_if: "(b \<Longrightarrow> arm_typed R m) \<Longrightarrow> (\<not> b \<Longrightarrow> arm_typed R n) \<Longrightarrow> arm_typed R (if b then m else n)"
  by simp

lemma arm_option: "arm_typed R m \<Longrightarrow> (\<And>y. arm_typed R (f y)) \<Longrightarrow> arm_typed R (case o' of None \<Rightarrow> m | Some y \<Rightarrow> f y)"
  by (cases o') auto

lemma arms_run:
  "arm_typed R (parse_PROGRAM R attr x v)" "arm_typed R (parse_IMPORT R attr x v)" "arm_typed R (parse_OPTIONS R attr x v)"
proof -
  have match: "op_is_match (if \<not> op_is_match x then OpMatch else x)" by (simp add: op_is_match_def)
  show "arm_typed R (parse_PROGRAM R attr x v)"
    unfolding parse_PROGRAM_def by (intro arm_if arm_new arm_Inl) (use match in \<open>simp_all add: arm_simps\<close>)
  show "arm_typed R (parse_IMPORT R attr x v)"
  proof (cases attr)
    case None
    then show ?thesis by (simp add: parse_IMPORT_def)
  next
    case (Some a)
    then show ?thesis unfolding parse_IMPORT_def Let_def option.case Some
      by (intro arm_if arm_option arm_new arm_Inl) (use match in \<open>simp_all add: arm_simps\<close>)
  qed
  have assign: "op_allowed ty (if x = OpAdd then OpAssign else x)"
    if "\<not> (op_is_match x \<or> x = OpRemove)"
      "ty \<in> {AssignOptionsStringEscapeNone, AssignOptionsStringEscapeReplace, AssignOptionsDbPersist, AssignOptionsInotifyWatch,
        AssignOptionsStaticNode, AssignOptionsDevlinkPriority, AssignOptionsLogLevel}" for ty
    using that by (cases x) (auto simp: arm_simps)
  show "arm_typed R (parse_OPTIONS R attr x v)"
    unfolding parse_OPTIONS_def Let_def
    by (intro arm_if arm_option arm_Inl; rule arm_new [OF assign]) (simp_all add: needs_attr_def)
qed

lemma arms_owner:
  assumes "parse_OWNER R rules attr x v = Some r \<or> parse_GROUP R rules attr x v = Some r"
  shows "arm_typed R r"
proof -
  have n: "\<not> op_is_match x \<Longrightarrow> x \<noteq> OpRemove \<Longrightarrow> arm_typed R (token_new R ty (if x = OpAdd then OpAssign else x) None w)"
    if "ty \<in> {AssignOwnerId, AssignOwner, AssignGroupId, AssignGroup}" for ty w
    using that by (cases x) (auto intro!: arm_new simp: arm_simps)
  show ?thesis
    using assms n
    by (auto simp: parse_OWNER_def parse_GROUP_def Let_def split: if_splits option.splits sum.splits)
qed

lemma key_parsers_typed:
  assumes "map_of key_parsers key = Some f"
  shows "arm_typed R (f R attr x v)"
proof -
  have "(key, f) \<in> set key_parsers" using assms by (rule map_of_SomeD)
  then show ?thesis
    using arms_match arms_assign arms_attr arms_run unfolding key_parsers_def by auto
qed


section \<open>What loading builds\<close>

text \<open>The lines of a file that count, with their positions, and the logical lines they are joined to, with
  the number each gets.\<close>

fun significant :: "nat \<Rightarrow> string option list \<Rightarrow> (nat \<times> string) list" where
  "significant k [] = []"
| "significant k (None # ls) = significant (Suc k) ls"
| "significant k (Some raw # ls) = (let line = trim raw in
     if starts_with ''#'' line \<or> line = [] then significant (Suc k) ls else (k, line) # significant (Suc k) ls)"

fun join_lines :: "(nat \<times> string) list \<Rightarrow> string \<Rightarrow> nat \<Rightarrow> (string \<times> nat) list" where
  "join_lines [] full offset = []"
| "join_lines ((k, line) # ls) full offset =
     (if last line = CHR 0x5C then join_lines ls (full @ butlast line) (Suc offset)
      else (full @ line, k + 1 - offset) # join_lines ls [] 0)"

definition logical_lines :: "string option list \<Rightarrow> (string \<times> nat) list" where
  "logical_lines ls = join_lines (significant 0 ls) [] 0"

lemma add_line_ok:
  assumes "ll_ok (rf_lines f)"
  shows "\<exists>f'. add_line l f = Some f' \<and> ll_ok (rf_lines f') \<and> ll_iter (rf_lines f') = ll_iter (rf_lines f) @ [l] \<and>
    rf_file_name f' = rf_file_name f"
proof -
  obtain ls where ls: "ll_add_by_first l (rf_lines f) = Some ls" "ll_ok ls" "ll_list ls = ll_list (rf_lines f) @ [l]"
    using by_first.push_ok [OF assms] by blast
  then show ?thesis using assms by (simp add: add_line_def ll_iter_ok)
qed

text \<open>The outcome of loading these logical lines behind those of \<open>f\<close>.\<close>

definition lines_outcome :: "'re rule_env \<Rightarrow> rules_ctx option \<Rightarrow> 're rule_file \<Rightarrow> (string \<times> nat) list \<Rightarrow> 're rule_file option \<Rightarrow> bool" where
  "lines_outcome R rules f js r \<longleftrightarrow> (case r of
       Some f' \<Rightarrow> rf_file_name f' = rf_file_name f \<and> ll_ok (rf_lines f') \<and>
         (\<exists>new. ll_iter (rf_lines f') = ll_iter (rf_lines f) @ new \<and>
            map (\<lambda>l. Some (Inr l)) new = map (\<lambda>(t, n). load_line R rules t (of_nat n)) js)
     | None \<Rightarrow> (\<exists>(t, n)\<in>set js. \<forall>l. load_line R rules t (of_nat n) \<noteq> Some (Inr l)))"

lemma lines_outcome_Cons:
  assumes "load_line R rules t (of_nat n) = Some (Inr l)"
    and "ll_iter (rf_lines f') = ll_iter (rf_lines f) @ [l]" and "rf_file_name f' = rf_file_name f"
    and "lines_outcome R rules f' js r"
  shows "lines_outcome R rules f ((t, n) # js) r"
proof (cases r)
  case None
  then show ?thesis using assms(4) by (auto simp: lines_outcome_def)
next
  case (Some f'')
  then obtain new where "rf_file_name f'' = rf_file_name f'" "ll_ok (rf_lines f'')"
    "ll_iter (rf_lines f'') = ll_iter (rf_lines f') @ new"
    "map (\<lambda>l. Some (Inr l)) new = map (\<lambda>(t, n). load_line R rules t (of_nat n)) js"
    using assms(4) by (auto simp: lines_outcome_def)
  then show ?thesis using Some assms(1-3)
    by (auto simp: lines_outcome_def intro!: exI [of _ "l # new"])
qed

lemma parse_lines_from_outcome:
  "ll_ok (rf_lines f) \<Longrightarrow>
   lines_outcome R rules f (join_lines (significant k ls) full offset) (parse_lines_from R rules k ls full offset f)"
proof (induction ls arbitrary: k full offset f)
  case Nil
  then show ?case by (simp add: lines_outcome_def)
next
  case (Cons x ls)
  show ?case
  proof (cases x)
    case None
    then show ?thesis using Cons by simp
  next
    case (Some raw)
    define line where "line = trim raw"
    consider (skip) "starts_with ''#'' line \<or> line = []"
      | (cont) "\<not> (starts_with ''#'' line \<or> line = [])" "last line = CHR 0x5C"
      | (full) "\<not> (starts_with ''#'' line \<or> line = [])" "last line \<noteq> CHR 0x5C" by blast
    then show ?thesis
    proof cases
      case skip
      then show ?thesis using Cons Some by (simp add: line_def [symmetric])
    next
      case cont
      then show ?thesis using Cons Some by (simp add: line_def [symmetric])
    next
      case full
      let ?r = "load_line R rules (full @ line) (of_nat (k + 1 - offset))"
      have j: "join_lines (significant k (x # ls)) full offset =
          (full @ line, k + 1 - offset) # join_lines (significant (Suc k) ls) [] 0"
        using full Some by (simp add: line_def [symmetric])
      show ?thesis
      proof (cases "\<exists>l. ?r = Some (Inr l)")
        case False
        then have "parse_lines_from R rules k (x # ls) full offset f = None"
          using full Some by (auto simp: line_def [symmetric] split: option.split sum.split)
        then show ?thesis using False j by (auto simp: lines_outcome_def)
      next
        case True
        then obtain l where l: "?r = Some (Inr l)" by blast
        obtain f' where f': "add_line l f = Some f'" "ll_ok (rf_lines f')"
            "ll_iter (rf_lines f') = ll_iter (rf_lines f) @ [l]" "rf_file_name f' = rf_file_name f"
          using add_line_ok [OF Cons.prems] by blast
        have e: "parse_lines_from R rules k (x # ls) full offset f = parse_lines_from R rules (Suc k) ls [] 0 f'"
          using full Some l f'(1) by (simp add: line_def [symmetric])
        show ?thesis unfolding e j by (rule lines_outcome_Cons [OF l f'(3,4) Cons.IH [OF f'(2)]])
      qed
    qed
  qed
qed

lemma load_file_Some:
  assumes "load_file R content rules name = Some f"
  shows "\<exists>ls. content name = Some ls \<and> rf_file_name f = name \<and> ll_ok (rf_lines f) \<and>
    map (\<lambda>l. Some (Inr l)) (ll_iter (rf_lines f)) = map (\<lambda>(t, n). load_line R rules t (of_nat n)) (logical_lines ls)"
proof -
  obtain ls where ls: "content name = Some ls" "parse_lines_from R rules 0 ls [] 0 (file_new name) = Some f"
    using assms by (auto simp: load_file_def split: option.splits)
  have ok: "ll_ok (rf_lines (file_new name))" by (simp add: file_new_def)
  have "ll_iter (rf_lines (file_new name)) = []" "rf_file_name (file_new name) = name" by (simp_all add: file_new_def ll_iter_ok)
  with parse_lines_from_outcome [OF ok, where R = R and rules = rules and k = 0 and ls = ls and full = "[]" and offset = 0] ls
  show ?thesis by (auto simp: lines_outcome_def logical_lines_def)
qed

text \<open>(C32) Loading a rule file: it succeeds exactly if each of its logical lines (the lines that are not empty or
  comments, joined where they end with a backslash) is accepted, and then the linked list of the file holds
  these lines in order; one line that is not accepted makes the loader panic.\<close>

theorem rule_file_loaded:
  "case load_file R content rules name of
     Some f \<Rightarrow> (\<exists>ls. content name = Some ls \<and> rf_file_name f = name \<and> ll_ok (rf_lines f) \<and>
       map (\<lambda>l. Some (Inr l)) (ll_iter (rf_lines f)) = map (\<lambda>(t, n). load_line R rules t (of_nat n)) (logical_lines ls))
   | None \<Rightarrow> content name = None \<or> (\<exists>ls. content name = Some ls \<and>
       (\<exists>(t, n)\<in>set (logical_lines ls). \<forall>l. load_line R rules t (of_nat n) \<noteq> Some (Inr l)))"
proof (cases "load_file R content rules name")
  case (Some f)
  then show ?thesis using load_file_Some [OF Some] by (simp only: option.case)
next
  case None
  have ok: "ll_ok (rf_lines (file_new name))" by (simp add: file_new_def)
  show ?thesis
  proof (cases "content name")
    case (Some ls)
    then have "parse_lines_from R rules 0 ls [] 0 (file_new name) = None" using None by (simp add: load_file_def)
    with parse_lines_from_outcome [OF ok, where R = R and rules = rules and k = 0 and ls = ls and full = "[]" and offset = 0] Some None
    show ?thesis by (simp add: lines_outcome_def logical_lines_def)
  qed (simp add: None)
qed

section \<open>What the parsers mix up\<close>

text \<open>\<open>KERNELS\<close> is parsed as \<open>SUBSYSTEMS\<close>, and \<open>SYSCTL\<close> as \<open>ATTR\<close>.\<close>

lemma kernels_is_subsystems: "parse_KERNELS = parse_SUBSYSTEMS"
  by (simp add: fun_eq_iff parse_KERNELS_def parse_SUBSYSTEMS_def)

lemma sysctl_is_attr: "parse_SYSCTL = parse_ATTR"
  by (simp add: fun_eq_iff parse_SYSCTL_def parse_ATTR_def)

text \<open>\<open>CONST\<close> refuses exactly the two attributes it should accept.\<close>

lemma const_refuses_arch:
  "parse_CONST R (Some ''arch'') x v = Inl RulesLoadError" "parse_CONST R (Some ''virt'') x v = Inl RulesLoadError"
  "a \<noteq> ''arch'' \<Longrightarrow> a \<noteq> ''virt'' \<Longrightarrow> parse_CONST R (Some a) OpMatch v = token_new R MatchConst OpMatch (Some a) v"
  by (simp_all add: parse_CONST_def op_is_match_def)

text \<open>An \<open>OWNER\<close> that is not to be resolved is an error to be ignored, but ends the loader in a panic.\<close>

lemma ignored_owner_panics:
  assumes "re_line_matches R line" and "re_token_captures R line = [(''OWNER'', None, ''='', user)]"
    and "rc_time C = Resolve_Never" and "rule_parse_uid R user = Some None"
    and "trim line = line" "line \<noteq> []" "\<not> starts_with ''#'' line" "last line \<noteq> CHR 0x5C"
    and "content name = Some [Some line]"
  shows "load_file R content (Some C) name = None"
  using assms
  by (simp add: load_file_def load_line_def parse_token_def operator_from_str_def parse_OWNER_def op_is_match_def Let_def)

text \<open>A continued line at the end of a file is dropped.\<close>

lemma continued_last_line_dropped: "logical_lines [Some ''A=x'', Some (''B'' @ [CHR 0x5C])] = [(''A=x'', 1)]"
  by code_simp

section \<open>A concrete environment\<close>

definition demo_rule_env :: "string rule_env" where
  "demo_rule_env = \<lparr>re_line_matches = (\<lambda>l. True),
     re_token_captures = (\<lambda>l. if l = ''A'' then [(''ACTION'', None, ''=='', ''add''), (''DEVPATH'', None, ''=='', ''/devices/x'')]
                           else if l = ''L'' then [(''LABEL'', None, ''='', ''end'')] else []),
     re_subst_captures = (\<lambda>v. []), glob_to_regex = (\<lambda>g. Some g),
     user_from_uid = (\<lambda>u. Some (Some u)), user_from_name = (\<lambda>n. Some None),
     group_from_gid = (\<lambda>u. Some (Some u)), group_from_name = (\<lambda>n. Some None)\<rparr>"

definition demo_token :: "string rule_token" where
  "demo_token = \<lparr>rt_type = MatchAction, rt_op = OpMatch, rt_match_type = MT_Invalid, rt_value_regex = [''add''],
     rt_attr_subst_type = ST_Invalid, rt_attr = None, rt_value = ''add''\<rparr>"


end
