(* ===== verification/Dev_Execute.thy ===== *)
theory Dev_Execute
  imports Dev_Rules Dev_Device_Inv
begin

text \<open>
  Applying the rules to a device (\<open>src/exts/devmaster/src/lib/rules/rule_execute.rs\<close>): the walk over the
  linked lists of files, lines and tokens, the two tokens that are implemented, and the branches that are
  still a \<open>todo!()\<close>, which panic. The trace that every line writes calls the getters of the device, so
  that it can change the caches of the device.
\<close>

section \<open>The loaded rules\<close>

definition line_wf :: "'re rule_line \<Rightarrow> bool" where
  "line_wf l \<longleftrightarrow> ll_ok (rl_tokens l) \<and> rl_goto_line l = None"

definition file_wf :: "'re rule_file \<Rightarrow> bool" where
  "file_wf f \<longleftrightarrow> ll_ok (rf_lines f) \<and> (\<forall>l\<in>set (ll_list (rf_lines f)). line_wf l)"

definition rules_wf :: "'re rules \<Rightarrow> bool" where
  "rules_wf r \<longleftrightarrow> ll_ok (ru_files r) \<and> (\<forall>f\<in>set (ll_list (ru_files r)). file_wf f)"

lemma place_token_wf:
  assumes "line_wf l"
  shows "\<exists>l'. place_token t l = Some l' \<and> line_wf l'"
proof (cases "rt_type t = Goto \<or> rt_type t = Label")
  case True
  then show ?thesis using assms by (auto simp: place_token_def line_wf_def)
next
  case False
  obtain ts where "ll_add_by_first t (rl_tokens l) = Some ts" "ll_ok ts"
    using by_first.push_ok [of "rl_tokens l" t] assms by (auto simp: line_wf_def)
  moreover have "place_token t l = add_token t l" using False by (cases "rt_type t") (simp_all add: place_token_def)
  ultimately show ?thesis using assms by (simp add: add_token_def line_wf_def)
qed

lemma load_tokens_wf: "line_wf l \<Longrightarrow> load_tokens R rules raws l = Some (Inr l') \<Longrightarrow> line_wf l'"
proof (induction raws arbitrary: l)
  case (Cons raw raws)
  obtain t where t: "parse_token R rules raw = Some (Inr t)"
    using Cons.prems(2) by (auto split: option.splits sum.splits)
  obtain l1 where "place_token t l = Some l1" "line_wf l1" using place_token_wf [OF Cons.prems(1)] by blast
  then show ?case using Cons t by auto
qed simp

lemma load_line_wf: "load_line R rules line n = Some (Inr l) \<Longrightarrow> line_wf l"
  using load_tokens_wf [of "line_new line n"] by (auto simp: load_line_def line_wf_def line_new_def split: if_splits)

lemma load_file_wf:
  assumes "load_file R content rules name = Some f"
  shows "file_wf f \<and> rf_file_name f = name"
proof -
  obtain ls where f: "rf_file_name f = name" "ll_ok (rf_lines f)"
    and m: "map (\<lambda>l. Some (Inr l)) (ll_iter (rf_lines f)) = map (\<lambda>(t, n). load_line R rules t (of_nat n)) (logical_lines ls)"
    using load_file_Some [OF assms] by blast
  have "line_wf l" if l: "l \<in> set (ll_list (rf_lines f))" for l
  proof -
    have "Some (Inr l) \<in> set (map (\<lambda>(t, n). load_line R rules t (of_nat n)) (logical_lines ls))"
      unfolding m [symmetric] using l ll_iter_ok [OF f(2)] by simp
    then obtain t n where "load_line R rules t (of_nat n) = Some (Inr l)" by auto
    then show ?thesis by (rule load_line_wf)
  qed
  then show ?thesis using f by (simp add: file_wf_def)
qed

lemma add_file_wf:
  assumes "rules_wf r" and "file_wf f"
  shows "\<exists>r'. add_file f r = Some r' \<and> rules_wf r' \<and> ll_list (ru_files r') = ll_list (ru_files r) @ [f] \<and> ru_ctx r' = ru_ctx r"
proof -
  obtain fs where "ll_add_by_last f (ru_files r) = Some fs" "ll_ok fs" "ll_list fs = ll_list (ru_files r) @ [f]"
    using by_last.push_ok [of "ru_files r" f] assms(1) by (auto simp: rules_wf_def)
  then show ?thesis using assms by (auto simp: add_file_def rules_wf_def)
qed

lemma parse_files_wf:
  "parse_files R content ns r = Some r' \<Longrightarrow> rules_wf r \<Longrightarrow>
   rules_wf r' \<and> map rf_file_name (ll_list (ru_files r')) = map rf_file_name (ll_list (ru_files r)) @ ns \<and> ru_ctx r' = ru_ctx r"
proof (induction ns arbitrary: r)
  case (Cons n ns)
  obtain r1 where r1: "parse_file R content n r = Some r1" "parse_files R content ns r1 = Some r'"
    using Cons.prems(1) by (auto simp: Option.bind_eq_Some_conv)
  obtain f where f: "load_file R content (Some (ru_ctx r)) n = Some f" "add_file f r = Some r1"
    using r1(1) by (auto simp: parse_file_def Option.bind_eq_Some_conv)
  have "rf_file_name f = n" "file_wf f" using load_file_wf [OF f(1)] by simp_all
  moreover have "rules_wf r1" "ll_list (ru_files r1) = ll_list (ru_files r) @ [f]" "ru_ctx r1 = ru_ctx r"
    using add_file_wf [OF Cons.prems(2) \<open>file_wf f\<close>] f(2) by auto
  ultimately show ?case using Cons.IH [OF r1(2)] by simp
qed simp

lemma parse_dirs_wf:
  "parse_dirs R entries content ds r = Some r' \<Longrightarrow> rules_wf r \<Longrightarrow>
   rules_wf r' \<and> map rf_file_name (ll_list (ru_files r')) = map rf_file_name (ll_list (ru_files r)) @ concat (map (rule_files entries) ds)"
proof (induction ds arbitrary: r)
  case (Cons d ds)
  obtain r1 where r1: "parse_files R content (rule_files entries d) r = Some r1" "parse_dirs R entries content ds r1 = Some r'"
    using Cons.prems(1) by (auto simp: Option.bind_eq_Some_conv)
  then show ?case using Cons.IH [OF r1(2)] parse_files_wf [OF r1(1) Cons.prems(2)] by simp
qed simp

lemma load_rules_wf:
  assumes "load_rules R entries content dirs time = Some r"
  shows "rules_wf r \<and> map rf_file_name (ll_list (ru_files r)) = concat (map (rule_files entries) dirs)"
proof -
  have "rules_wf (rules_new dirs time)" by (simp add: rules_wf_def rules_new_def)
  with parse_dirs_wf [OF _ this, of R entries content dirs r] assms show ?thesis
    by (simp add: load_rules_def rules_new_def Let_def)
qed

section \<open>Execution\<close>

definition apply_rule_token :: "'re rule_token \<Rightarrow> bool dm" where
  "apply_rule_token t = (case rt_type t of
       MatchAction \<Rightarrow> dbind (dget get_action) (\<lambda>r. case r of
           Inl e \<Rightarrow> derr e | Inr a \<Rightarrow> dret (action_to_string a = rt_value t))
     | MatchDevpath \<Rightarrow> dbind (dget get_devpath) (\<lambda>r. case r of
           None \<Rightarrow> derr EINVAL | Some p \<Rightarrow> dret (p = rt_value t))
     | _ \<Rightarrow> dpanic)"

definition apply_rule_token_on_parent :: "bool dm" where
  "apply_rule_token_on_parent = dpanic"

text \<open>The macro \<open>device_trace!\<close>: a getter that fails is replaced by a default.\<close>

definition device_trace :: "sysfs \<Rightarrow> unit dm" where
  "device_trace E = dmatch get_sysname (\<lambda>_. dmatch (get_subsystem E) (\<lambda>_. dret ()))"

text \<open>The loop over the tokens of a line; the bound is the number of tokens.\<close>

fun apply_tokens :: "nat \<Rightarrow> 're rule_token linked \<Rightarrow> nat option \<Rightarrow> bool \<Rightarrow> bool dm" where
  "apply_tokens 0 ts cur parents_done = dpanic"
| "apply_tokens (Suc n) ts cur parents_done = (case cur of
       None \<Rightarrow> dpanic
     | Some a \<Rightarrow> (let t = nd_value (ll_nodes ts ! a); nx = nd_next (ll_nodes ts ! a);
                      continue = (\<lambda>pd. if nx = None then dret True else apply_tokens n ts nx pd) in
         if is_for_parents t then
           (if \<not> parents_done then dbind apply_rule_token_on_parent (\<lambda>b. if \<not> b then dret False else continue True)
            else continue parents_done)
         else dbind (apply_rule_token t) (\<lambda>b. if \<not> b then dret False else continue parents_done)))"

definition apply_rule_line :: "sysfs \<Rightarrow> 're rule_line linked \<Rightarrow> nat option \<Rightarrow> nat option dm" where
  "apply_rule_line E ls cur = (case cur of
       None \<Rightarrow> dret None
     | Some a \<Rightarrow> (let l = nd_value (ll_nodes ls ! a); nx = nd_next (ll_nodes ls ! a); ts = rl_tokens l in
         dbind (device_trace E) (\<lambda>_.
         dbind (apply_tokens (Suc (length (ll_nodes ts))) ts (ll_first ts) False) (\<lambda>b.
           if \<not> b then dret nx
           else case rl_goto_line l of Some g \<Rightarrow> dret (Some g) | None \<Rightarrow> dret nx))))"

text \<open>The loop over the lines; a line that jumps back could run forever, which is the exhausted bound.\<close>

fun apply_lines :: "nat \<Rightarrow> sysfs \<Rightarrow> 're rule_line linked \<Rightarrow> nat option \<Rightarrow> unit dm" where
  "apply_lines 0 E ls cur = dpanic"
| "apply_lines (Suc n) E ls cur = dbind (apply_rule_line E ls cur) (\<lambda>nx.
     if nx = None then dret () else apply_lines n E ls nx)"

definition apply_rule_file :: "sysfs \<Rightarrow> 're rule_file \<Rightarrow> unit dm" where
  "apply_rule_file E f = apply_lines (Suc (length (ll_nodes (rf_lines f)))) E (rf_lines f) (ll_first (rf_lines f))"

fun apply_files :: "nat \<Rightarrow> sysfs \<Rightarrow> 're rule_file linked \<Rightarrow> nat option \<Rightarrow> unit dm" where
  "apply_files 0 E fs cur = dpanic"
| "apply_files (Suc n) E fs cur = (case cur of
       None \<Rightarrow> dpanic
     | Some a \<Rightarrow> dbind (apply_rule_file E (nd_value (ll_nodes fs ! a))) (\<lambda>_.
         let nx = nd_next (ll_nodes fs ! a) in if nx = None then dret () else apply_files n E fs nx))"

definition apply_rules :: "sysfs \<Rightarrow> 're rules \<Rightarrow> unit dm" where
  "apply_rules E r = apply_files (Suc (length (ll_nodes (ru_files r)))) E (ru_files r) (ll_first (ru_files r))"

definition execute_rules :: "sysfs \<Rightarrow> 're rules \<Rightarrow> unit dm" where
  "execute_rules E r = dbind (dget d_action) (\<lambda>a. if a = Act_Remove then dpanic else apply_rules E r)"

definition execute_run :: "unit dm" where
  "execute_run = dret ()"

definition process_device :: "sysfs \<Rightarrow> 're rules \<Rightarrow> unit dm" where
  "process_device E r = dbind (execute_rules E r) (\<lambda>_. execute_run)"

section \<open>What execution computes\<close>

text \<open>The same over plain lists and the two fields that matter.\<close>

definition token_eval :: "device_action \<Rightarrow> string \<Rightarrow> 're rule_token \<Rightarrow> (os_errno + bool) option" where
  "token_eval act path t = (
     if rt_type t = MatchAction then Some (if act = Act_Invalid then Inl ENOENT else Inr (action_to_string act = rt_value t))
     else if rt_type t = MatchDevpath then Some (if path = [] then Inl EINVAL else Inr (path = rt_value t))
     else None)"

fun tokens_eval :: "device_action \<Rightarrow> string \<Rightarrow> 're rule_token list \<Rightarrow> (os_errno + bool) option" where
  "tokens_eval act path [] = None"
| "tokens_eval act path (t # ts) = (case token_eval act path t of
       None \<Rightarrow> None
     | Some (Inl e) \<Rightarrow> Some (Inl e)
     | Some (Inr b) \<Rightarrow> if b \<and> ts \<noteq> [] then tokens_eval act path ts else Some (Inr b))"

fun lines_eval :: "device_action \<Rightarrow> string \<Rightarrow> 're rule_token list list \<Rightarrow> (os_errno + unit) option" where
  "lines_eval act path [] = Some (Inr ())"
| "lines_eval act path (l # ls) = (case tokens_eval act path l of
       None \<Rightarrow> None | Some (Inl e) \<Rightarrow> Some (Inl e) | Some (Inr _) \<Rightarrow> lines_eval act path ls)"

definition rules_eval :: "device_action \<Rightarrow> string \<Rightarrow> 're rule_token list list list \<Rightarrow> (os_errno + unit) option" where
  "rules_eval act path files = (if act = Act_Remove \<or> files = [] then None else lines_eval act path (concat files))"

definition line_tokens :: "'re rule_line \<Rightarrow> 're rule_token list" where
  "line_tokens l = ll_iter (rl_tokens l)"

definition rule_table :: "'re rules \<Rightarrow> 're rule_token list list list" where
  "rule_table r = map (\<lambda>f. map line_tokens (ll_iter (rf_lines f))) (ll_iter (ru_files r))"

text \<open>A method that computes this value (\<open>None\<close> for a panic) for a device with the invariant, and leaves
  the two fields alone.\<close>

definition at_dev :: "device_action \<Rightarrow> string \<Rightarrow> device \<Rightarrow> bool" where
  "at_dev act path d \<longleftrightarrow> dev_inv d \<and> d_action d = act \<and> d_devpath d = path"

definition computes :: "device_action \<Rightarrow> string \<Rightarrow> 'a dm \<Rightarrow> (os_errno + 'a) option \<Rightarrow> bool" where
  "computes act path m v \<longleftrightarrow> (\<forall>d. at_dev act path d \<longrightarrow> (case v of
       None \<Rightarrow> m d = None | Some x \<Rightarrow> (\<exists>d'. m d = Some (x, d') \<and> at_dev act path d')))"

lemma computes_panic [simp]: "computes act path dpanic None"
  by (simp add: computes_def dpanic_def)

lemma computes_ret [simp]: "computes act path (dret x) (Some (Inr x))" "computes act path (derr e) (Some (Inl e))"
  by (simp_all add: computes_def dret_def derr_def)

lemma computes_bind:
  assumes "computes act path m v"
    and "\<And>x. v = Some (Inr x) \<Longrightarrow> computes act path (f x) w"
    and "v = None \<Longrightarrow> w = None" and "\<And>e. v = Some (Inl e) \<Longrightarrow> w = Some (Inl e)"
  shows "computes act path (dbind m f) w"
  unfolding computes_def
proof (intro allI impI)
  fix d assume d: "at_dev act path d"
  show "case w of None \<Rightarrow> dbind m f d = None | Some x \<Rightarrow> \<exists>d'. dbind m f d = Some (x, d') \<and> at_dev act path d'"
  proof (cases v)
    case None
    then have "m d = None" using assms(1) d by (simp add: computes_def)
    then show ?thesis using assms(3) [OF None] by (simp add: dbind_def)
  next
    case (Some x)
    then obtain d' where d': "m d = Some (x, d')" "at_dev act path d'" using assms(1) d by (auto simp: computes_def)
    show ?thesis
    proof (cases x)
      case (Inl e)
      then show ?thesis using assms(4) Some d' by (simp add: dbind_def)
    next
      case (Inr y)
      have b: "dbind m f d = f y d'" using d' Inr by (simp add: dbind_def)
      have "computes act path (f y) w" using assms(2) [of y] Some Inr by simp
      then show ?thesis unfolding b using d'(2) unfolding computes_def by blast
    qed
  qed
qed

lemma computes_token: "\<not> is_for_parents t \<Longrightarrow> computes act path (apply_rule_token t) (token_eval act path t)"
  unfolding computes_def apply_rule_token_def token_eval_def
  by (cases "rt_type t")
    (auto simp: dm_defs at_dev_def get_action_def get_devpath_def)

lemma dbind_panic: "dbind dpanic f = dpanic"
  by (simp add: dbind_def dpanic_def fun_eq_iff)

lemma computes_tokens:
  assumes ok: "ll_ok ts"
  shows "i < length (ll_nodes ts) \<Longrightarrow> length (ll_nodes ts) - i \<le> n \<Longrightarrow>
    computes act path (apply_tokens n ts (Some i) False) (tokens_eval act path (drop i (ll_list ts)))"
proof (induction n arbitrary: i)
  case 0
  then show ?case by simp
next
  case (Suc n)
  let ?t = "nd_value (ll_nodes ts ! i)"
  let ?rest = "drop (Suc i) (ll_list ts)"
  have nx: "nd_next (ll_nodes ts ! i) = (if Suc i < length (ll_nodes ts) then Some (Suc i) else None)"
    using ok Suc.prems(1) by (simp add: ll_ok_def Let_def)
  have d: "drop i (ll_list ts) = ?t # ?rest"
    using Suc.prems(1) by (simp add: ll_list_def Cons_nth_drop_Suc [symmetric])
  have r: "?rest = [] \<longleftrightarrow> \<not> Suc i < length (ll_nodes ts)" by (auto simp: ll_list_def)
  show ?case
  proof (cases "is_for_parents ?t")
    case True
    then have "token_eval act path ?t = None" by (auto simp: token_eval_def is_for_parents_def token_order_defs)
    moreover have "apply_tokens (Suc n) ts (Some i) False = dpanic"
      using True by (simp add: apply_rule_token_on_parent_def dbind_panic Let_def)
    ultimately show ?thesis by (simp add: d)
  next
    case False
    let ?cont = "if nd_next (ll_nodes ts ! i) = None then dret True else apply_tokens n ts (nd_next (ll_nodes ts ! i)) False"
    have e: "apply_tokens (Suc n) ts (Some i) False = dbind (apply_rule_token ?t) (\<lambda>b. if \<not> b then dret False else ?cont)"
      using False by (simp add: Let_def)
    have c: "computes act path ?cont (if ?rest \<noteq> [] then tokens_eval act path ?rest else Some (Inr True))"
      using Suc.IH [of "Suc i"] Suc.prems nx r by auto
    show ?thesis unfolding e d
      by (rule computes_bind [OF computes_token [OF False]]) (use c in \<open>auto split: option.splits\<close>)
  qed
qed

lemma maintains_conj: "maintains I m \<Longrightarrow> maintains J m \<Longrightarrow> maintains (\<lambda>d. I d \<and> J d) m"
  unfolding maintains_def by blast

definition has_fields :: "device_action \<Rightarrow> string \<Rightarrow> device \<Rightarrow> bool" where
  "has_fields act path d \<longleftrightarrow> d_action d = act \<and> d_devpath d = path"

lemma has_fields_setters [maintains_intros]:
  "maintains (has_fields act path) (add_property_internal k v)" "maintains (has_fields act path) (set_subsystem s)"
  "maintains (has_fields act path) set_drivers_subsystem" "maintains (has_fields act path) set_sysname_and_sysnum"
proof -
  show p: "maintains (has_fields act path) (add_property_internal k v)" for k v
    unfolding add_property_internal_def add_property_aux_def Let_def by (intro maintains_intros) (simp_all add: has_fields_def)
  show s: "maintains (has_fields act path) (set_subsystem s)" for s
    unfolding set_subsystem_def by (intro maintains_intros p) (simp add: has_fields_def)
  show "maintains (has_fields act path) set_drivers_subsystem"
    unfolding set_drivers_subsystem_def Let_def by (intro maintains_intros s) (simp_all add: has_fields_def)
  show "maintains (has_fields act path) set_sysname_and_sysnum"
    unfolding set_sysname_and_sysnum_def Let_def by (intro maintains_intros) (simp add: has_fields_def)
qed

lemma has_fields_trace: "maintains (has_fields act path) (device_trace E)"
proof -
  have "maintains (has_fields act path) (readlink_value E p)" for p
    unfolding readlink_value_def by (intro maintains_intros)
  then have "maintains (has_fields act path) (get_subsystem E)"
    unfolding get_subsystem_def by (intro maintains_intros) (simp_all add: has_fields_def)
  moreover have "maintains (has_fields act path) get_sysname"
    unfolding get_sysname_def by (intro maintains_intros)
  ultimately show ?thesis unfolding device_trace_def by (intro maintains_intros)
qed

lemma computes_trace:
  assumes E: "sysfs_ok E"
  shows "computes act path (device_trace E) (Some (Inr ()))"
  unfolding computes_def option.case
proof (intro allI impI)
  fix d assume d: "at_dev act path d"
  have "safe (dev_ok False) (device_trace E)"
    unfolding device_trace_def using E by (intro safe_intros)
  then have s: "safe dev_inv (device_trace E)" by (simp only: dev_ok_False)
  then obtain r d' where r: "device_trace E d = Some (r, d')" "dev_inv d'"
    using d by (auto simp: at_dev_def safe_def safe_at_def)
  have "r = Inr ()" using r(1) by (auto simp: device_trace_def dmatch_def dret_def split: option.splits)
  moreover have "has_fields act path d'"
    using maintainsD [OF has_fields_trace _ r(1), of act path] d by (simp add: has_fields_def at_dev_def)
  ultimately show "\<exists>d'. device_trace E d = Some (Inr (), d') \<and> at_dev act path d'"
    using r by (auto simp: at_dev_def has_fields_def)
qed

lemma computes_line:
  assumes E: "sysfs_ok E" and ok: "ll_ok ls" and i: "i < length (ll_nodes ls)" and wf: "line_wf (ll_list ls ! i)"
  shows "computes act path (apply_rule_line E ls (Some i)) (case tokens_eval act path (line_tokens (ll_list ls ! i)) of
     None \<Rightarrow> None | Some (Inl e) \<Rightarrow> Some (Inl e)
   | Some (Inr _) \<Rightarrow> Some (Inr (if Suc i < length (ll_nodes ls) then Some (Suc i) else None)))"
proof -
  let ?l = "nd_value (ll_nodes ls ! i)"
  let ?ts = "rl_tokens ?l"
  have l: "ll_list ls ! i = ?l" using i by (simp add: ll_list_def)
  have t: "ll_ok ?ts" "rl_goto_line ?l = None" using wf l by (simp_all add: line_wf_def)
  have nx: "nd_next (ll_nodes ls ! i) = (if Suc i < length (ll_nodes ls) then Some (Suc i) else None)"
    using ok i by (simp add: ll_ok_def Let_def)
  have tk: "computes act path (apply_tokens (Suc (length (ll_nodes ?ts))) ?ts (ll_first ?ts) False) (tokens_eval act path (line_tokens ?l))"
  proof (cases "ll_nodes ?ts = []")
    case True
    then have "ll_first ?ts = None" using t(1) by (simp add: ll_ok_def Let_def)
    moreover have "line_tokens ?l = []" using True t(1) by (simp add: line_tokens_def ll_iter_ok ll_list_def)
    ultimately show ?thesis by simp
  next
    case False
    then have "ll_first ?ts = Some 0" using t(1) by (simp add: ll_ok_def Let_def)
    then show ?thesis
      using computes_tokens [OF t(1), of 0 "Suc (length (ll_nodes ?ts))"] False t(1)
      by (simp only: line_tokens_def ll_iter_ok [OF t(1)]) simp
  qed
  show ?thesis
    unfolding apply_rule_line_def option.case Let_def l t(2) nx
    by (rule computes_bind [OF computes_trace [OF E]], rule computes_bind [OF tk]) (auto split: option.splits)
qed

lemma computes_lines:
  assumes E: "sysfs_ok E" and ok: "ll_ok ls" and wf: "\<forall>l\<in>set (ll_list ls). line_wf l"
  shows "i < length (ll_nodes ls) \<Longrightarrow> length (ll_nodes ls) - i \<le> n \<Longrightarrow>
    computes act path (apply_lines n E ls (Some i)) (lines_eval act path (map line_tokens (drop i (ll_list ls))))"
proof (induction n arbitrary: i)
  case 0
  then show ?case by simp
next
  case (Suc n)
  have len: "length (ll_list ls) = length (ll_nodes ls)" by (simp add: ll_list_def)
  have d: "drop i (ll_list ls) = ll_list ls ! i # drop (Suc i) (ll_list ls)"
    using Suc.prems(1) len by (simp add: Cons_nth_drop_Suc)
  have w: "line_wf (ll_list ls ! i)" using wf Suc.prems(1) len by simp
  have "computes act path (if Suc i < length (ll_nodes ls) then apply_lines n E ls (Some (Suc i)) else dret ())
      (lines_eval act path (map line_tokens (drop (Suc i) (ll_list ls))))"
    using Suc.IH [of "Suc i"] Suc.prems len by auto
  then show ?case
    unfolding apply_lines.simps d
    by (intro computes_bind [OF computes_line [OF E ok Suc.prems(1) w]]) (auto split: option.splits sum.splits if_splits)
qed

lemma computes_file:
  assumes "sysfs_ok E" and "file_wf f"
  shows "computes act path (apply_rule_file E f) (lines_eval act path (map line_tokens (ll_iter (rf_lines f))))"
proof (cases "ll_nodes (rf_lines f) = []")
  case True
  have ok: "ll_ok (rf_lines f)" using assms(2) by (simp add: file_wf_def)
  then have "ll_first (rf_lines f) = None" "ll_iter (rf_lines f) = []"
    using True by (simp_all add: ll_ok_def ll_iter_ok ll_list_def Let_def)
  then show ?thesis by (simp add: apply_rule_file_def apply_rule_line_def computes_def dbind_def dret_def)
next
  case False
  have ok: "ll_ok (rf_lines f)" and wf: "\<forall>l\<in>set (ll_list (rf_lines f)). line_wf l" using assms(2) by (simp_all add: file_wf_def)
  have "ll_first (rf_lines f) = Some 0" using ok False by (simp add: ll_ok_def Let_def)
  then show ?thesis
    using computes_lines [OF assms(1) ok wf, of 0 "Suc (length (ll_nodes (rf_lines f)))"] False
    by (simp only: apply_rule_file_def ll_iter_ok [OF ok]) simp
qed

lemma lines_eval_append:
  "lines_eval act path (a @ b) = (case lines_eval act path a of
     None \<Rightarrow> None | Some (Inl e) \<Rightarrow> Some (Inl e) | Some (Inr _) \<Rightarrow> lines_eval act path b)"
  by (induction a) (auto split: option.split sum.split)

lemma computes_files:
  assumes E: "sysfs_ok E" and ok: "ll_ok fs" and wf: "\<forall>f\<in>set (ll_list fs). file_wf f"
  shows "i < length (ll_nodes fs) \<Longrightarrow> length (ll_nodes fs) - i \<le> n \<Longrightarrow>
    computes act path (apply_files n E fs (Some i))
      (lines_eval act path (concat (map (\<lambda>f. map line_tokens (ll_iter (rf_lines f))) (drop i (ll_list fs)))))"
proof (induction n arbitrary: i)
  case 0
  then show ?case by simp
next
  case (Suc n)
  let ?f = "nd_value (ll_nodes fs ! i)"
  have len: "length (ll_list fs) = length (ll_nodes fs)" by (simp add: ll_list_def)
  have f: "ll_list fs ! i = ?f" using Suc.prems(1) by (simp add: ll_list_def)
  have d: "drop i (ll_list fs) = ?f # drop (Suc i) (ll_list fs)"
    using Suc.prems(1) len f by (simp add: Cons_nth_drop_Suc [symmetric])
  have w: "file_wf ?f" using wf Suc.prems(1) len f by (metis nth_mem)
  have nx: "nd_next (ll_nodes fs ! i) = (if Suc i < length (ll_nodes fs) then Some (Suc i) else None)"
    using ok Suc.prems(1) by (simp add: ll_ok_def Let_def)
  have "computes act path (if Suc i < length (ll_nodes fs) then apply_files n E fs (Some (Suc i)) else dret ())
      (lines_eval act path (concat (map (\<lambda>f. map line_tokens (ll_iter (rf_lines f))) (drop (Suc i) (ll_list fs)))))"
    using Suc.IH [of "Suc i"] Suc.prems len by auto
  then show ?case
    unfolding apply_files.simps option.case d list.map concat.simps lines_eval_append Let_def nx
    by (intro computes_bind [OF computes_file [OF E w]]) (auto split: option.splits sum.splits if_splits)
qed

lemma computes_process:
  assumes E: "sysfs_ok E" and wf: "rules_wf r"
  shows "computes act path (process_device E r) (rules_eval act path (rule_table r))"
proof -
  have ok: "ll_ok (ru_files r)" and w: "\<forall>f\<in>set (ll_list (ru_files r)). file_wf f" using wf by (simp_all add: rules_wf_def)
  have app: "computes act path (apply_rules E r) (if rule_table r = [] then None else lines_eval act path (concat (rule_table r)))"
  proof (cases "ll_nodes (ru_files r) = []")
    case True
    then have "ll_first (ru_files r) = None" "rule_table r = []"
      using ok by (simp_all add: ll_ok_def Let_def rule_table_def ll_iter_ok ll_list_def)
    then show ?thesis by (simp add: apply_rules_def)
  next
    case False
    then have f: "ll_first (ru_files r) = Some 0" "rule_table r \<noteq> []"
      using ok by (simp_all add: ll_ok_def Let_def rule_table_def ll_iter_ok ll_list_def)
    have "computes act path (apply_files (Suc (length (ll_nodes (ru_files r)))) E (ru_files r) (Some 0))
        (lines_eval act path (concat (rule_table r)))"
      using computes_files [OF E ok w, of 0 "Suc (length (ll_nodes (ru_files r)))"] False
      unfolding rule_table_def ll_iter_ok [OF ok] by simp
    then show ?thesis using f by (simp only: apply_rules_def if_False)
  qed
  have ex: "computes act path (execute_rules E r) (rules_eval act path (rule_table r))"
    unfolding computes_def
  proof (intro allI impI)
    fix d assume d: "at_dev act path d"
    have x: "execute_rules E r d = (if act = Act_Remove then None else apply_rules E r d)"
      using d by (simp add: execute_rules_def dbind_def dget_def dpanic_def at_dev_def)
    show "case rules_eval act path (rule_table r) of None \<Rightarrow> execute_rules E r d = None
        | Some x \<Rightarrow> \<exists>d'. execute_rules E r d = Some (x, d') \<and> at_dev act path d'"
      unfolding x rules_eval_def using app d unfolding computes_def
      by (cases "act = Act_Remove"; cases "rule_table r = []") simp_all
  qed
  show ?thesis
    unfolding process_device_def execute_run_def by (rule computes_bind [OF ex]) auto
qed


definition demo_entries :: "string \<Rightarrow> string option list option" where
  "demo_entries d = (if d = ''/r'' then Some [Some ''/r/a.rules'', Some ''/r/README''] else None)"

definition demo_content :: "string \<Rightarrow> string option list option" where
  "demo_content f = (if f = ''/r/a.rules'' then Some [Some ''# rules'', Some '' A ''] else None)"

definition demo_rules :: "string rules" where
  "demo_rules = the (load_rules demo_rule_env demo_entries demo_content [''/r'', ''/none''] Resolve_Early)"

lemma demo_rules_loaded:
  "load_rules demo_rule_env demo_entries demo_content [''/r'', ''/none''] Resolve_Early = Some demo_rules"
proof -
  have "load_rules demo_rule_env demo_entries demo_content [''/r'', ''/none''] Resolve_Early \<noteq> None" by code_simp
  then show ?thesis by (simp add: demo_rules_def)
qed


lemma demo_rules_eval: "rules_eval (d_action demo_device) (d_devpath demo_device) (rule_table demo_rules) = Some (Inr ())"
  by code_simp

section \<open>What is not applied\<close>

text \<open>Without rule files every device panics; so does a line that only holds a label.\<close>

lemma no_rules_panic: "rules_wf r \<Longrightarrow> ll_list (ru_files r) = [] \<Longrightarrow> process_device E r d = None"
  by (auto simp: process_device_def execute_rules_def apply_rules_def rules_wf_def ll_ok_def ll_list_def dbind_def dget_def
      dpanic_def Let_def)

lemma label_line_panics:
  assumes l: "load_line R rules line n = Some (Inr l)" and raw: "re_token_captures R line = [(''LABEL'', None, ''='', v)]"
  shows "tokens_eval act path (line_tokens l) = None"
proof -
  have p: "parse_token R rules (''LABEL'', None, ''='', v) = Some (token_new R Label OpAssign None v)"
    by (simp add: parse_token_def operator_from_str_def key_parsers_def parse_LABEL_def)
  obtain t where t: "token_new R Label OpAssign None v = Inr t" and pl: "place_token t (line_new line n) = Some l"
    using l raw p by (auto simp: load_line_def split: if_splits sum.splits option.splits)
  have "rt_type t = Label" using t by (auto simp: token_new_def split: if_splits sum.splits option.splits)
  then have "rl_tokens l = ll_empty" using pl by (auto simp: place_token_def line_new_def)
  then show ?thesis by (simp add: line_tokens_def ll_iter_ok)
qed

text \<open>The operator of a token and the alternatives of its value play no role.\<close>

lemma operator_ignored: "apply_rule_token (t\<lparr>rt_op := x\<rparr>) = apply_rule_token t"
  by (cases "rt_type t") (simp_all add: apply_rule_token_def)

lemma alternatives_ignored:
  assumes "rt_type t = MatchAction" and "CHR ''|'' \<in> set (rt_value t)" and "act \<noteq> Act_Invalid"
  shows "token_eval act path t = Some (Inr False)"
proof -
  have "CHR ''|'' \<notin> set (action_to_string act)" by (cases act) auto
  then have "action_to_string act \<noteq> rt_value t" using assms(2) by auto
  then show ?thesis using assms by (simp add: token_eval_def)
qed

end
