(* ===== verification/Dev_Queue.thy ===== *)
theory Dev_Queue
  imports Dev_Monitor Dev_Execute
begin

text \<open>
  The framework of devmaster (\<open>src/exts/devmaster/src/lib/framework\<close>): the queue of device jobs
  (\<open>job_queue.rs\<close>), the pool of worker threads (\<open>worker_manager.rs\<close>), the uevent monitor and the control
  socket that feed them. The queue is the only strong owner of a job and the map of workers the only one of a
  worker; the weak references between them are the addresses at which the objects were allocated, so that a
  reference to a dropped object finds nothing. A worker is kept with its channel and its thread; its
  acknowledgements are the connections that wait at the listener. Where the code iterates over the hash map of
  workers the order is the argument \<open>ord\<close>.
\<close>

section \<open>Jobs\<close>

datatype devjob_state = DJ_Undef | DJ_Queued | DJ_Running

record devjob =
  dj_ref :: nat
  dj_device :: device
  dj_state :: devjob_state
  dj_seqnum :: u64
  dj_worker :: "nat option"

definition devjob_new :: "nat \<Rightarrow> device \<Rightarrow> devjob_state \<Rightarrow> u64 \<Rightarrow> devjob" where
  "devjob_new r d st n = \<lparr>dj_ref = r, dj_device = d, dj_state = st, dj_seqnum = n, dj_worker = None\<rparr>"

text \<open>\<open>binary_search\<close> and \<open>partition_point\<close> of the container, by the sequence number.\<close>

function binary_search :: "u64 \<Rightarrow> devjob list \<Rightarrow> nat \<Rightarrow> nat \<Rightarrow> nat option" where
  "binary_search k js lo hi = (
     if hi \<le> lo then None
     else let mid = (lo + hi) div 2; x = dj_seqnum (js ! mid) in
       if x = k then Some mid
       else if x < k then binary_search k js (Suc mid) hi
       else binary_search k js lo mid)"
  by pat_completeness auto
termination
  by (relation "measure (\<lambda>(k, js, lo, hi). hi - lo)") auto

function partition_point :: "u64 \<Rightarrow> devjob list \<Rightarrow> nat \<Rightarrow> nat \<Rightarrow> nat" where
  "partition_point k js lo hi = (
     if hi \<le> lo then lo
     else let mid = (lo + hi) div 2 in
       if dj_seqnum (js ! mid) < k then partition_point k js (Suc mid) hi
       else partition_point k js lo mid)"
  by pat_completeness auto
termination
  by (relation "measure (\<lambda>(k, js, lo, hi). hi - lo)") auto

declare binary_search.simps [simp del] partition_point.simps [simp del]

section \<open>Workers\<close>

datatype worker_message = Msg_Job device | Msg_Cmd string

datatype worker_state = WS_Undef | WS_Idle | WS_Running | WS_Killing | WS_Killed

text \<open>A thread waits for messages, has left its loop, or has panicked.\<close>

datatype thread_state = Th_Waiting | Th_Ended | Th_Panicked

record worker =
  wk_ref :: nat
  wk_id :: "32 word"
  wk_state :: worker_state
  wk_job :: "nat option"
  wk_inbox :: "worker_message list"
  wk_thread :: thread_state

definition worker_new :: "nat \<Rightarrow> 32 word \<Rightarrow> worker_state \<Rightarrow> worker" where
  "worker_new r i st = \<lparr>wk_ref = r, wk_id = i, wk_state = st, wk_job = None, wk_inbox = [], wk_thread = Th_Waiting\<rparr>"

text \<open>Sending to a thread that is gone is only logged.\<close>

definition worker_send_message :: "worker_message \<Rightarrow> worker \<Rightarrow> worker" where
  "worker_send_message msg w = (if wk_thread w = Th_Waiting then w\<lparr>wk_inbox := wk_inbox w @ [msg]\<rparr> else w)"

text \<open>The state of devmaster: the queue, the map of workers with its capacity, the timer that kills the workers,
  the connections that wait at the listener of the worker manager, the messages that were broadcast, the
  rules, and the address of the next allocation.\<close>

record 're devmaster =
  dv_jobs :: "devjob list"
  dv_capacity :: "32 word"
  dv_workers :: "worker list"
  dv_timer :: bool
  dv_acks :: "string list"
  dv_sent :: "string list"
  dv_rules :: "'re rules"
  dv_next :: nat

type_synonym worker_order = "worker list \<Rightarrow> worker list"

definition devmaster_new :: "'re rules \<Rightarrow> 're devmaster" where
  "devmaster_new rules = \<lparr>dv_jobs = [], dv_capacity = 3, dv_workers = [], dv_timer = False, dv_acks = [], dv_sent = [],
     dv_rules = rules, dv_next = 0\<rparr>"

definition worker_of :: "32 word \<Rightarrow> 're devmaster \<Rightarrow> worker option" where
  "worker_of i s = find (\<lambda>w. wk_id w = i) (dv_workers s)"

definition upd_worker :: "(worker \<Rightarrow> bool) \<Rightarrow> (worker \<Rightarrow> worker) \<Rightarrow> 're devmaster \<Rightarrow> 're devmaster" where
  "upd_worker P f s = s\<lparr>dv_workers := map (\<lambda>w. if P w then f w else w) (dv_workers s)\<rparr>"

definition set_worker_state :: "32 word \<Rightarrow> worker_state \<Rightarrow> 're devmaster \<Rightarrow> 're devmaster option" where
  "set_worker_state i st s = (case worker_of i s of
       None \<Rightarrow> None
     | Some _ \<Rightarrow> Some (upd_worker (\<lambda>w. wk_id w = i) (\<lambda>w. w\<lparr>wk_state := st\<rparr>) s))"

definition send_to :: "32 word \<Rightarrow> worker_message \<Rightarrow> 're devmaster \<Rightarrow> 're devmaster" where
  "send_to i msg s = upd_worker (\<lambda>w. wk_id w = i) (worker_send_message msg) s"

text \<open>The first free id below the capacity; the new worker starts undefined and becomes idle.\<close>

definition free_id :: "32 word \<Rightarrow> worker list \<Rightarrow> 32 word option" where
  "free_id cap ws = find (\<lambda>i. i \<notin> wk_id ` set ws) (map of_nat [0..<unat cap])"

definition create_new_worker :: "'re devmaster \<Rightarrow> (32 word option \<times> 're devmaster) option" where
  "create_new_worker s = (case free_id (dv_capacity s) (dv_workers s) of
       None \<Rightarrow> Some (None, s)
     | Some i \<Rightarrow> map_option (\<lambda>s'. (Some i, s'))
         (set_worker_state i WS_Idle
            (s\<lparr>dv_workers := dv_workers s @ [worker_new (dv_next s) i WS_Undef], dv_next := Suc (dv_next s)\<rparr>)))"

text \<open>Dispatch to an idle worker, or to a new one while there is room. The result is the address of the worker, or
  none when no worker is available.\<close>

definition hand_over :: "32 word \<Rightarrow> device \<Rightarrow> 're devmaster \<Rightarrow> (nat option \<times> 're devmaster) option" where
  "hand_over i d s = (case worker_of i s of
       None \<Rightarrow> None
     | Some w \<Rightarrow> (case set_worker_state i WS_Running s of
         None \<Rightarrow> None
       | Some s' \<Rightarrow> Some (Some (wk_ref w), send_to i (Msg_Job d) s')))"

definition job_dispatch :: "worker_order \<Rightarrow> devjob \<Rightarrow> 're devmaster \<Rightarrow> (nat option \<times> 're devmaster) option" where
  "job_dispatch ord j s = (case find (\<lambda>w. wk_state w = WS_Idle) (ord (dv_workers s)) of
       Some w \<Rightarrow> hand_over (wk_id w) (dj_device j) s
     | None \<Rightarrow>
         if (of_nat (length (dv_workers s)) :: 32 word) < dv_capacity s
         then (case create_new_worker s of
             None \<Rightarrow> None
           | Some (Some i, s') \<Rightarrow> hand_over i (dj_device j) s'
           | Some (None, s') \<Rightarrow> Some (None, s'))
         else Some (None, s))"

section \<open>The queue\<close>

text \<open>\<open>job_queue_start\<close> walks over the jobs in order and stops at the first one for which there is no worker. The
  list of jobs is threaded beside the rest of the state.\<close>

definition bind_worker :: "nat \<Rightarrow> nat \<Rightarrow> 're devmaster \<Rightarrow> 're devmaster" where
  "bind_worker r j s = upd_worker (\<lambda>w. wk_ref w = r) (\<lambda>w. w\<lparr>wk_job := Some j\<rparr>) s"

fun start_jobs :: "worker_order \<Rightarrow> devjob list \<Rightarrow> 're devmaster \<Rightarrow> (devjob list \<times> 're devmaster) option" where
  "start_jobs ord [] s = Some ([], s)"
| "start_jobs ord (j # js) s = (
     if dj_state j \<noteq> DJ_Queued then map_option (apfst ((#) j)) (start_jobs ord js s)
     else case job_dispatch ord j s of
       None \<Rightarrow> None
     | Some (None, s') \<Rightarrow> Some (j # js, s')
     | Some (Some r, s') \<Rightarrow>
         map_option (apfst ((#) (j\<lparr>dj_state := DJ_Running, dj_worker := Some r\<rparr>)))
           (start_jobs ord js (bind_worker r (dj_ref j) s')))"

definition job_queue_start :: "worker_order \<Rightarrow> 're devmaster \<Rightarrow> 're devmaster option" where
  "job_queue_start ord s = map_option (\<lambda>(js, s'). s'\<lparr>dv_jobs := js\<rparr>) (start_jobs ord (dv_jobs s) s)"

definition job_queue_insert :: "device \<Rightarrow> 're devmaster \<Rightarrow> 're devmaster" where
  "job_queue_insert d s = (case get_seqnum d of
       Inl _ \<Rightarrow> s
     | Inr n \<Rightarrow> (let js = dv_jobs s; j = devjob_new (dv_next s) d DJ_Queued n in
         if binary_search n js 0 (length js) \<noteq> None then s
         else let i = partition_point n js 0 (length js)
           in s\<lparr>dv_jobs := take i js @ j # drop i js, dv_next := Suc (dv_next s)\<rparr>))"

text \<open>Freeing a job: its worker forgets it, and it is removed from the queue.\<close>

definition devjob_free :: "devjob \<Rightarrow> 're devmaster \<Rightarrow> 're devmaster option" where
  "devjob_free j s = (case dj_worker j of
       None \<Rightarrow> None
     | Some r \<Rightarrow> (case find (\<lambda>w. wk_ref w = r) (dv_workers s) of
         None \<Rightarrow> None
       | Some _ \<Rightarrow> Some ((upd_worker (\<lambda>w. wk_ref w = r) (\<lambda>w. w\<lparr>wk_job := None\<rparr>) s)
           \<lparr>dv_jobs := map (\<lambda>x. if dj_ref x = dj_ref j then x\<lparr>dj_worker := None\<rparr> else x) (dv_jobs s)\<rparr>)))"

definition queue_job_free :: "devjob \<Rightarrow> 're devmaster \<Rightarrow> 're devmaster option" where
  "queue_job_free j s = (case devjob_free j s of
       None \<Rightarrow> None
     | Some s' \<Rightarrow> (case binary_search (dj_seqnum j) (dv_jobs s') 0 (length (dv_jobs s')) of
         None \<Rightarrow> Some s'
       | Some i \<Rightarrow> Some (s'\<lparr>dv_jobs := take i (dv_jobs s') @ drop (Suc i) (dv_jobs s')\<rparr>)))"

section \<open>Acknowledgements\<close>

text \<open>A killed worker is removed and its thread joined. Joining a thread that has panicked panics; one that still
  waits for messages would be waited for without end, since its channel is kept open meanwhile.\<close>

definition worker_killed :: "32 word \<Rightarrow> 're devmaster \<Rightarrow> 're devmaster option" where
  "worker_killed i s = (case worker_of i s of
       None \<Rightarrow> None
     | Some w \<Rightarrow>
         if wk_thread w \<noteq> Th_Ended then None
         else Some (s\<lparr>dv_workers := filter (\<lambda>w. wk_id w \<noteq> i) (dv_workers s)\<rparr>))"

definition worker_finished :: "worker_order \<Rightarrow> 32 word \<Rightarrow> 're devmaster \<Rightarrow> 're devmaster option" where
  "worker_finished ord i s = (case worker_of i s of
       None \<Rightarrow> None
     | Some w \<Rightarrow> (case wk_job w of
         None \<Rightarrow> None
       | Some r \<Rightarrow> (case find (\<lambda>j. dj_ref j = r) (dv_jobs s) of
           None \<Rightarrow> None
         | Some j \<Rightarrow> Option.bind (set_worker_state i WS_Idle s) (\<lambda>s1.
             Option.bind (queue_job_free j s1) (job_queue_start ord)))))"

definition worker_response_dispose :: "worker_order \<Rightarrow> string \<Rightarrow> 're devmaster \<Rightarrow> 're devmaster option" where
  "worker_response_dispose ord ack s = (case split_on CHR '' '' ack of
       [ack_kind, i] \<Rightarrow> (case parse_u32 i of
           None \<Rightarrow> None
         | Some n \<Rightarrow>
             if ack_kind = ''killed'' then worker_killed n s
             else if ack_kind = ''finished'' then worker_finished ord n s
             else None)
     | _ \<Rightarrow> Some s)"

text \<open>The dispatch of the listener: without a connection nothing happens.\<close>

definition listener_dispatch :: "worker_order \<Rightarrow> 're devmaster \<Rightarrow> 're devmaster option" where
  "listener_dispatch ord s = (case dv_acks s of
       [] \<Rightarrow> Some s
     | a # as \<Rightarrow> worker_response_dispose ord a (s\<lparr>dv_acks := as\<rparr>))"

section \<open>Killing the workers\<close>

definition start_kill_workers_timer :: "'re devmaster \<Rightarrow> 're devmaster" where
  "start_kill_workers_timer s = s\<lparr>dv_timer := True\<rparr>"

fun kill_each :: "worker list \<Rightarrow> 're devmaster \<Rightarrow> 're devmaster option" where
  "kill_each [] s = Some s"
| "kill_each (w # ws) s = (case set_worker_state (wk_id w) WS_Killing s of
       None \<Rightarrow> None
     | Some s' \<Rightarrow> kill_each ws (send_to (wk_id w) (Msg_Cmd ''kill'') s'))"

definition manager_kill_workers :: "worker_order \<Rightarrow> 're devmaster \<Rightarrow> 're devmaster option" where
  "manager_kill_workers ord s = kill_each (ord (dv_workers s)) s"

text \<open>The one-shot timer.\<close>

definition kill_timer_dispatch :: "worker_order \<Rightarrow> 're devmaster \<Rightarrow> 're devmaster option" where
  "kill_timer_dispatch ord s = (if dv_timer s then manager_kill_workers ord (s\<lparr>dv_timer := False\<rparr>) else Some s)"

section \<open>Sources of jobs\<close>

definition uevent_dispatch :: "worker_order \<Rightarrow> sysfs \<Rightarrow> os_errno + string \<Rightarrow> 're devmaster \<Rightarrow> 're devmaster option" where
  "uevent_dispatch ord E r s = (case receive_device E r of
       None \<Rightarrow> None
     | Some (Inl _) \<Rightarrow> Some s
     | Some (Inr d) \<Rightarrow> job_queue_start ord (job_queue_insert d s))"

definition cmd_process :: "worker_order \<Rightarrow> string \<Rightarrow> u64 \<Rightarrow> 're devmaster \<Rightarrow> 're devmaster option" where
  "cmd_process ord command now s = (case split_on CHR '' '' command of
       cmd_kind # devname # _ \<Rightarrow>
         if cmd_kind = ''test''
         then job_queue_start ord (job_queue_insert (device_new\<lparr>d_devname := devname, d_seqnum := now mod 1000\<rparr>) s)
         else if cmd_kind = ''kill'' then Some (start_kill_workers_timer s)
         else None
     | _ \<Rightarrow> None)"

section \<open>The threads\<close>

text \<open>What a thread meets outside: everything works, it gets no netlink socket, \<open>sendmsg\<close> fails, the connection to
  the manager fails, or writing into that connection fails.\<close>

datatype net = Net_Ok | Net_NoSocket | Net_NoSend | Net_NoConnect | Net_NoWrite

definition finished_ack :: "32 word \<Rightarrow> string" where
  "finished_ack i = ''finished '' @ show_digits (unat i)"

definition killed_ack :: "32 word \<Rightarrow> string" where
  "killed_ack i = ''killed '' @ show_digits (unat i)"

definition connect_ack :: "net \<Rightarrow> string \<Rightarrow> string option" where
  "connect_ack net ack = (case net of Net_NoConnect \<Rightarrow> None | Net_NoWrite \<Rightarrow> Some [] | _ \<Rightarrow> Some ack)"

text \<open>One round of the loop of a thread: the thread afterwards, what it broadcast and what it acknowledged. The result
  of processing a device is ignored unless it is a panic.\<close>

definition thread_job :: "sysfs \<Rightarrow> net \<Rightarrow> 're rules \<Rightarrow> 32 word \<Rightarrow> device \<Rightarrow> thread_state \<times> string list \<times> string list" where
  "thread_job E net rules i d = (case process_device E rules d of
       None \<Rightarrow> (Th_Panicked, [], [])
     | Some (_, d') \<Rightarrow> (case send_device (net \<noteq> Net_NoSend) d' of
         Some (Inr msg, _) \<Rightarrow> (case connect_ack net (finished_ack i) of
             None \<Rightarrow> (Th_Panicked, [msg], [])
           | Some a \<Rightarrow> (Th_Waiting, [msg], [a]))
       | _ \<Rightarrow> (Th_Panicked, [], [])))"

definition thread_cmd :: "net \<Rightarrow> 32 word \<Rightarrow> string \<Rightarrow> thread_state \<times> string list \<times> string list" where
  "thread_cmd net i c = (
     if c \<noteq> ''kill'' then (Th_Panicked, [], [])
     else case connect_ack net (killed_ack i) of
       None \<Rightarrow> (Th_Panicked, [], [])
     | Some a \<Rightarrow> (Th_Ended, [], [a]))"

definition thread_round :: "sysfs \<Rightarrow> net \<Rightarrow> 're rules \<Rightarrow> 32 word \<Rightarrow> worker_message \<Rightarrow> thread_state \<times> string list \<times> string list" where
  "thread_round E net rules i msg = (
     if net = Net_NoSocket then (Th_Panicked, [], [])
     else case msg of Msg_Job d \<Rightarrow> thread_job E net rules i d | Msg_Cmd c \<Rightarrow> thread_cmd net i c)"

definition thread_step :: "sysfs \<Rightarrow> net \<Rightarrow> 32 word \<Rightarrow> 're devmaster \<Rightarrow> 're devmaster" where
  "thread_step E net i s = (case worker_of i s of
       None \<Rightarrow> s
     | Some w \<Rightarrow> (case wk_inbox w of
         [] \<Rightarrow> s
       | msg # rest \<Rightarrow>
           if wk_thread w \<noteq> Th_Waiting then s
           else (case thread_round E net (dv_rules s) i msg of (st, sent, acks) \<Rightarrow>
             (upd_worker (\<lambda>w. wk_id w = i) (\<lambda>w. w\<lparr>wk_inbox := rest, wk_thread := st\<rparr>) s)
               \<lparr>dv_sent := dv_sent s @ sent, dv_acks := dv_acks s @ acks\<rparr>)))"

section \<open>Runs\<close>

datatype dm_event =
    Ev_Uevent sysfs "os_errno + string"
  | Ev_Control string u64
  | Ev_KillTimer
  | Ev_Listener
  | Ev_Thread sysfs net "32 word"

fun dm_step :: "worker_order \<Rightarrow> dm_event \<Rightarrow> 're devmaster \<Rightarrow> 're devmaster option" where
  "dm_step ord (Ev_Uevent E r) s = uevent_dispatch ord E r s"
| "dm_step ord (Ev_Control c now) s = cmd_process ord c now s"
| "dm_step ord Ev_KillTimer s = kill_timer_dispatch ord s"
| "dm_step ord Ev_Listener s = listener_dispatch ord s"
| "dm_step ord (Ev_Thread E net i) s = Some (thread_step E net i s)"

fun dm_run :: "worker_order \<Rightarrow> dm_event list \<Rightarrow> 're devmaster \<Rightarrow> 're devmaster option" where
  "dm_run ord [] s = Some s"
| "dm_run ord (e # es) s = Option.bind (dm_step ord e s) (dm_run ord es)"

end
