(* ===== verification/Dev_Queue_Inv.thy ===== *)
theory Dev_Queue_Inv
  imports Dev_Queue "HOL-Library.Multiset"
begin

text \<open>
  The invariant of the framework of devmaster through every event, and its consequences: the manager never
  panics, the queue stays sorted, jobs and workers are bound to each other, and without kills and panics of the
  threads every accepted device is processed and broadcast exactly once.
\<close>

section \<open>Searching a sorted queue\<close>

definition queue_sorted :: "devjob list \<Rightarrow> bool" where
  "queue_sorted js \<longleftrightarrow> sorted_wrt (<) (map dj_seqnum js)"

lemma queue_sorted_nth: "queue_sorted js \<Longrightarrow> i < j \<Longrightarrow> j < length js \<Longrightarrow> dj_seqnum (js ! i) < dj_seqnum (js ! j)"
  unfolding queue_sorted_def by (auto dest: sorted_wrt_nth_less)

lemma queue_sorted_mono: "queue_sorted js \<Longrightarrow> i \<le> j \<Longrightarrow> j < length js \<Longrightarrow> dj_seqnum (js ! i) \<le> dj_seqnum (js ! j)"
  using queue_sorted_nth [of js i j] by (cases "i = j") auto

lemma binary_search_from:
  "queue_sorted js \<Longrightarrow> hi \<le> length js \<Longrightarrow> \<forall>i<length js. dj_seqnum (js ! i) = k \<longrightarrow> lo \<le> i \<and> i < hi \<Longrightarrow>
    (case binary_search k js lo hi of
       Some i \<Rightarrow> i < length js \<and> dj_seqnum (js ! i) = k
     | None \<Rightarrow> \<forall>i<length js. dj_seqnum (js ! i) \<noteq> k)"
proof (induction k js lo hi rule: binary_search.induct)
  case (1 k js lo hi)
  let ?mid = "(lo + hi) div 2"
  show ?case
  proof (cases "hi \<le> lo")
    case True
    then show ?thesis using "1.prems"(3) by (subst binary_search.simps) auto
  next
    case False
    then have m: "lo \<le> ?mid" "?mid < hi" "?mid < length js" using "1.prems"(2) by auto
    have up: "i \<le> ?mid \<Longrightarrow> dj_seqnum (js ! i) \<le> dj_seqnum (js ! ?mid)" for i
      using queue_sorted_mono [OF "1.prems"(1) _ m(3)] .
    have down: "?mid \<le> i \<Longrightarrow> i < length js \<Longrightarrow> dj_seqnum (js ! ?mid) \<le> dj_seqnum (js ! i)" for i
      using queue_sorted_mono [OF "1.prems"(1)] .
    consider "dj_seqnum (js ! ?mid) = k" | "dj_seqnum (js ! ?mid) < k" | "k < dj_seqnum (js ! ?mid)" by fastforce
    then show ?thesis
    proof cases
      case 1
      then show ?thesis using False m(3) by (subst binary_search.simps) (simp add: Let_def)
    next
      case 2
      have b: "\<forall>i<length js. dj_seqnum (js ! i) = k \<longrightarrow> Suc ?mid \<le> i \<and> i < hi"
        using "1.prems"(3) 2 up by (metis leD not_less_eq_eq)
      have "binary_search k js lo hi = binary_search k js (Suc ?mid) hi"
        using False 2 by (subst binary_search.simps) (auto simp: Let_def)
      then show ?thesis using "1.IH"(1) [OF False refl refl _ 2 "1.prems"(1,2) b] 2 by simp
    next
      case 3
      have b: "\<forall>i<length js. dj_seqnum (js ! i) = k \<longrightarrow> lo \<le> i \<and> i < ?mid"
        using "1.prems"(3) 3 down by (metis leD not_le_imp_less)
      have "binary_search k js lo hi = binary_search k js lo ?mid"
        using False 3 by (subst binary_search.simps) (auto simp: Let_def)
      then show ?thesis using "1.IH"(2) [OF False refl refl _ _ "1.prems"(1) _ b] 3 m(3) by (simp add: not_less less_imp_le)
    qed
  qed
qed

lemma binary_search_sorted:
  assumes "queue_sorted js"
  shows "binary_search k js 0 (length js) = Some i \<Longrightarrow> i < length js \<and> dj_seqnum (js ! i) = k"
    and "binary_search k js 0 (length js) = None \<longleftrightarrow> k \<notin> dj_seqnum ` set js"
  using binary_search_from [OF assms order_refl, of k 0] by (auto simp: in_set_conv_nth image_iff Bex_def split: option.splits)

lemma partition_point_from:
  "queue_sorted js \<Longrightarrow> lo \<le> hi \<Longrightarrow> hi \<le> length js \<Longrightarrow> \<forall>i<lo. dj_seqnum (js ! i) < k \<Longrightarrow>
    \<forall>i<length js. hi \<le> i \<longrightarrow> \<not> dj_seqnum (js ! i) < k \<Longrightarrow>
    (let p = partition_point k js lo hi in p \<le> length js \<and> (\<forall>i<p. dj_seqnum (js ! i) < k) \<and>
       (\<forall>i<length js. p \<le> i \<longrightarrow> \<not> dj_seqnum (js ! i) < k))"
proof (induction k js lo hi rule: partition_point.induct)
  case (1 k js lo hi)
  let ?mid = "(lo + hi) div 2"
  show ?case
  proof (cases "hi \<le> lo")
    case True
    then show ?thesis using "1.prems" by (subst partition_point.simps) auto
  next
    case False
    then have m: "lo \<le> ?mid" "?mid < hi" "?mid < length js" using "1.prems"(3) by auto
    show ?thesis
    proof (cases "dj_seqnum (js ! ?mid) < k")
      case True
      have b: "\<forall>i<Suc ?mid. dj_seqnum (js ! i) < k"
        by (intro allI impI le_less_trans [OF queue_sorted_mono [OF "1.prems"(1) _ m(3)] True]) simp
      have "partition_point k js lo hi = partition_point k js (Suc ?mid) hi"
        using False True by (subst partition_point.simps) (simp add: Let_def)
      then show ?thesis using "1.IH"(1) [OF False refl True "1.prems"(1) _ "1.prems"(3) b "1.prems"(5)] m(2) by simp
    next
      case F: False
      have b: "\<forall>i<length js. ?mid \<le> i \<longrightarrow> \<not> dj_seqnum (js ! i) < k"
      proof (intro allI impI)
        fix i
        assume "i < length js" "?mid \<le> i"
        then have "dj_seqnum (js ! ?mid) \<le> dj_seqnum (js ! i)" using queue_sorted_mono [OF "1.prems"(1)] by blast
        then show "\<not> dj_seqnum (js ! i) < k" using F by (simp add: not_less)
      qed
      have "partition_point k js lo hi = partition_point k js lo ?mid"
        using False F by (subst partition_point.simps) (simp add: Let_def)
      then show ?thesis using "1.IH"(2) [OF False refl F "1.prems"(1) m(1) _ "1.prems"(4) b] m(3) by simp
    qed
  qed
qed

lemma partition_point_sorted:
  assumes "queue_sorted js"
  shows "\<forall>j\<in>set (take (partition_point k js 0 (length js)) js). dj_seqnum j < k"
    and "\<forall>j\<in>set (drop (partition_point k js 0 (length js)) js). \<not> dj_seqnum j < k"
proof -
  let ?p = "partition_point k js 0 (length js)"
  have p: "?p \<le> length js" "\<forall>i<?p. dj_seqnum (js ! i) < k" "\<forall>i<length js. ?p \<le> i \<longrightarrow> \<not> dj_seqnum (js ! i) < k"
    using partition_point_from [OF assms, of 0 "length js" k] by (simp_all add: Let_def)
  show "\<forall>j\<in>set (take ?p js). dj_seqnum j < k" using p(1,2) by (auto simp: in_set_conv_nth)
  show "\<forall>j\<in>set (drop ?p js). \<not> dj_seqnum j < k" using p(3) by (auto simp: in_set_conv_nth)
qed

lemma queue_sorted_insert:
  assumes "queue_sorted js" and "dj_seqnum j \<notin> dj_seqnum ` set js"
  shows "queue_sorted (let i = partition_point (dj_seqnum j) js 0 (length js) in take i js @ j # drop i js)"
proof -
  let ?i = "partition_point (dj_seqnum j) js 0 (length js)"
  have "sorted_wrt (<) (map dj_seqnum (take ?i js @ drop ?i js))" using assms(1) by (simp add: queue_sorted_def)
  then have s: "sorted_wrt (<) (map dj_seqnum (take ?i js))" "sorted_wrt (<) (map dj_seqnum (drop ?i js))"
      "\<forall>x\<in>set (take ?i js). \<forall>y\<in>set (drop ?i js). dj_seqnum x < dj_seqnum y"
    by (simp_all only: map_append sorted_wrt_append) auto
  have d: "\<forall>y\<in>set (drop ?i js). dj_seqnum j < dj_seqnum y"
    using partition_point_sorted(2) [OF assms(1), of "dj_seqnum j"] assms(2) by (metis image_eqI in_set_dropD linorder_neqE)
  show ?thesis
    using s d partition_point_sorted(1) [OF assms(1), of "dj_seqnum j"]
    unfolding queue_sorted_def Let_def by (simp only: map_append list.map sorted_wrt_append sorted_wrt.simps) auto
qed

section \<open>Acknowledgements\<close>

lemma parse_u32_digits [simp]: "parse_u32 (show_digits (unat (n :: 32 word))) = Some n"
proof -
  have "int (unat n) \<le> 2 ^ 32 - 1" using uint_bounded [of n] by simp
  then have "parse_int 0 (2 ^ 32 - 1) (show_digits (unat n)) = Some (int (unat n))"
    by (intro parse_show_digits) simp_all
  then show ?thesis by (simp add: parse_u32_def)
qed

lemma digits_no_space: "CHR '' '' \<notin> set (show_digits n)"
  using show_digits_digits [of n] by (auto simp: list_all_iff is_digit_def)

lemma ack_words [simp]:
  "split_on CHR '' '' (finished_ack i) = [''finished'', show_digits (unat i)]"
  "split_on CHR '' '' (killed_ack i) = [''killed'', show_digits (unat i)]"
  using split_on_colon [of "CHR '' ''" "''finished''" "show_digits (unat i)"]
    split_on_colon [of "CHR '' ''" "''killed''" "show_digits (unat i)"] digits_no_space
  by (simp_all add: finished_ack_def killed_ack_def)

lemma show_digits_inj: "show_digits (unat (i :: 32 word)) = show_digits (unat k) \<longleftrightarrow> i = k"
  by (metis option.inject parse_u32_digits)

lemma ack_simps [simp]:
  "finished_ack i = finished_ack k \<longleftrightarrow> i = k" "killed_ack i = killed_ack k \<longleftrightarrow> i = k"
  "finished_ack i \<noteq> killed_ack k" "killed_ack i \<noteq> finished_ack k" "finished_ack i \<noteq> []" "killed_ack i \<noteq> []"
  by (simp_all add: finished_ack_def killed_ack_def show_digits_inj)

definition mentions :: "32 word \<Rightarrow> string list \<Rightarrow> string list" where
  "mentions i as = filter (\<lambda>a. a = finished_ack i \<or> a = killed_ack i) as"

lemma mentions_simps [simp]:
  "mentions i [] = []" "mentions i (as @ bs) = mentions i as @ mentions i bs"
  "mentions i (a # as) = (if a = finished_ack i \<or> a = killed_ack i then a # mentions i as else mentions i as)"
  by (simp_all add: mentions_def)

lemma mentions_empty: "(\<And>a. a \<in> set as \<Longrightarrow> a \<noteq> finished_ack i \<and> a \<noteq> killed_ack i) \<Longrightarrow> mentions i as = []"
  unfolding mentions_def by (rule filter_False) blast

section \<open>The invariant\<close>

text \<open>A worker with a job owes one acknowledgement. It is on its way: the job is still in the channel, or the
  acknowledgement waits at the listener, or it is lost with the thread. A killed worker says so last.\<close>

definition owed :: "worker \<Rightarrow> nat" where
  "owed w = (if wk_job w = None then 0 else 1)"

fun jobs_in :: "worker_message list \<Rightarrow> nat" where
  "jobs_in [] = 0"
| "jobs_in (Msg_Job d # ms) = Suc (jobs_in ms)"
| "jobs_in (Msg_Cmd c # ms) = jobs_in ms"

lemma jobs_in_append [simp]: "jobs_in (ms @ ns) = jobs_in ms + jobs_in ns"
  by (induction ms rule: jobs_in.induct) auto

definition thread_ok :: "string list \<Rightarrow> worker \<Rightarrow> bool" where
  "thread_ok as w \<longleftrightarrow> (\<exists>n. case wk_thread w of
       Th_Waiting \<Rightarrow> mentions (wk_id w) as = replicate n (finished_ack (wk_id w)) \<and> n + jobs_in (wk_inbox w) \<le> owed w
     | Th_Ended \<Rightarrow> n \<le> owed w \<and> (mentions (wk_id w) as = replicate n (finished_ack (wk_id w)) \<or>
         mentions (wk_id w) as = replicate n (finished_ack (wk_id w)) @ [killed_ack (wk_id w)])
     | Th_Panicked \<Rightarrow> mentions (wk_id w) as = replicate n (finished_ack (wk_id w)) \<and> n \<le> owed w)"

text \<open>Without kills and failures the acknowledgement is never lost and the channel holds the device of the job.\<close>

definition calm_worker :: "devjob list \<Rightarrow> string list \<Rightarrow> worker \<Rightarrow> bool" where
  "calm_worker js as w \<longleftrightarrow> wk_thread w = Th_Waiting \<and> wk_state w \<noteq> WS_Killing \<and>
     length (mentions (wk_id w) as) + length (wk_inbox w) = owed w \<and>
     (\<forall>m\<in>set (wk_inbox w). \<exists>j\<in>set js. wk_job w = Some (dj_ref j) \<and> m = Msg_Job (dj_device j))"

definition bound_job :: "devjob list \<Rightarrow> worker \<Rightarrow> bool" where
  "bound_job js w \<longleftrightarrow> (\<forall>r. wk_job w = Some r \<longrightarrow>
     (\<exists>j\<in>set js. dj_ref j = r \<and> dj_state j = DJ_Running \<and> dj_worker j = Some (wk_ref w)))"

definition worker_ok :: "bool \<Rightarrow> devjob list \<Rightarrow> string list \<Rightarrow> worker \<Rightarrow> bool" where
  "worker_ok c js as w \<longleftrightarrow>
     (wk_state w = WS_Idle \<longrightarrow> wk_job w = None) \<and> (wk_state w = WS_Running \<longrightarrow> wk_job w \<noteq> None) \<and>
     wk_state w \<in> {WS_Idle, WS_Running, WS_Killing} \<and> thread_ok as w \<and> bound_job js w \<and> (c \<longrightarrow> calm_worker js as w)"

definition devjob_ok :: "nat \<Rightarrow> devjob \<Rightarrow> bool" where
  "devjob_ok nx j \<longleftrightarrow> dj_seqnum j \<noteq> 0 \<and> dj_ref j < nx \<and> dj_state j \<noteq> DJ_Undef \<and> (dj_state j = DJ_Queued \<longleftrightarrow> dj_worker j = None)"

definition jobs_ok :: "nat \<Rightarrow> devjob list \<Rightarrow> bool" where
  "jobs_ok nx js \<longleftrightarrow> queue_sorted js \<and> distinct (map dj_ref js) \<and> (\<forall>j\<in>set js. devjob_ok nx j)"

definition workers_ok :: "bool \<Rightarrow> devjob list \<Rightarrow> string list \<Rightarrow> 32 word \<Rightarrow> nat \<Rightarrow> worker list \<Rightarrow> bool" where
  "workers_ok c js as cap nx ws \<longleftrightarrow> distinct (map wk_id ws) \<and> distinct (map wk_ref ws) \<and>
     (\<forall>w\<in>set ws. wk_id w < cap \<and> wk_ref w < nx \<and> worker_ok c js as w)"

definition acks_ok :: "string list \<Rightarrow> worker list \<Rightarrow> bool" where
  "acks_ok as ws \<longleftrightarrow> (\<forall>a\<in>set as. a = [] \<or> (\<exists>w\<in>set ws. a = finished_ack (wk_id w) \<or> a = killed_ack (wk_id w)))"

definition served :: "devjob list \<Rightarrow> worker list \<Rightarrow> bool" where
  "served js ws \<longleftrightarrow> (\<forall>j\<in>set js. dj_state j = DJ_Running \<longrightarrow> (\<exists>w\<in>set ws. wk_job w = Some (dj_ref j)))"

definition queue_inv :: "bool \<Rightarrow> (device \<Rightarrow> bool) \<Rightarrow> devjob list \<Rightarrow> 're devmaster \<Rightarrow> bool" where
  "queue_inv c G js s \<longleftrightarrow> jobs_ok (dv_next s) js \<and>
     workers_ok c js (dv_acks s) (dv_capacity s) (dv_next s) (dv_workers s) \<and> acks_ok (dv_acks s) (dv_workers s) \<and>
     (c \<longrightarrow> \<not> dv_timer s \<and> (\<forall>j\<in>set js. G (dj_device j)) \<and> served js (dv_workers s))"

definition dm_inv :: "bool \<Rightarrow> (device \<Rightarrow> bool) \<Rightarrow> 're devmaster \<Rightarrow> bool" where
  "dm_inv c G s \<longleftrightarrow> queue_inv c G (dv_jobs s) s"

section \<open>Replacing a worker\<close>

definition replace :: "'a \<Rightarrow> 'a \<Rightarrow> 'a list \<Rightarrow> 'a list" where
  "replace x y xs = map (\<lambda>z. if z = x then y else z) xs"

lemma set_replace: "x \<in> set xs \<Longrightarrow> set (replace x y xs) = insert y (set xs - {x})"
  by (auto simp: replace_def)

lemma replace_same: "f y = f x \<Longrightarrow> map f (replace x y xs) = map f xs"
  by (induction xs) (auto simp: replace_def)

lemma unique_worker:
  assumes "workers_ok c js as cap nx ws" and "w \<in> set ws" and "v \<in> set ws"
  shows "wk_id v = wk_id w \<longleftrightarrow> v = w" and "wk_ref v = wk_ref w \<longleftrightarrow> v = w"
  using assms by (auto simp: workers_ok_def distinct_map dest: inj_onD)

lemma find_worker:
  assumes "workers_ok c js as cap nx ws" and "w \<in> set ws"
  shows "find (\<lambda>v. wk_id v = wk_id w) ws = Some w" and "find (\<lambda>v. wk_ref v = wk_ref w) ws = Some w"
proof -
  have *: "find P ws = Some w" if P: "\<And>v. v \<in> set ws \<Longrightarrow> P v \<longleftrightarrow> v = w" for P
  proof -
    have "find P ws = find (\<lambda>v. v = w) ws" using P by (auto intro: find_cong)
    also have "\<dots> = Some w" using assms(2) by (induction ws) auto
    finally show ?thesis .
  qed
  show "find (\<lambda>v. wk_id v = wk_id w) ws = Some w" "find (\<lambda>v. wk_ref v = wk_ref w) ws = Some w"
    using unique_worker [OF assms] by (auto intro!: *)
qed

lemma update_one:
  assumes "workers_ok c js as cap nx ws" and "w \<in> set ws"
  shows "map (\<lambda>v. if wk_id v = wk_id w then f v else v) ws = replace w (f w) ws"
    and "map (\<lambda>v. if wk_ref v = wk_ref w then f v else v) ws = replace w (f w) ws"
  unfolding replace_def using unique_worker [OF assms] by auto

lemma workers_ok_replace:
  assumes ok: "workers_ok c js as cap nx ws" and w: "w \<in> set ws" and v: "wk_id v = wk_id w" "wk_ref v = wk_ref w"
    and v_ok: "worker_ok c js' as' v" and rest: "\<And>x. x \<in> set ws \<Longrightarrow> x \<noteq> w \<Longrightarrow> worker_ok c js' as' x"
  shows "workers_ok c js' as' cap nx (replace w v ws)"
  using ok v_ok rest w v
  by (auto simp: workers_ok_def replace_same [of wk_id v w] replace_same [of wk_ref v w] set_replace)

lemma acks_ok_same_ids: "acks_ok as ws \<Longrightarrow> wk_id ` set ws = wk_id ` set ws' \<Longrightarrow> acks_ok as ws'"
  unfolding acks_ok_def by (metis (no_types, lifting) image_iff)

lemma acks_ok_replace: "acks_ok as ws \<Longrightarrow> wk_id v = wk_id w \<Longrightarrow> acks_ok as (replace w v ws)"
  by (erule acks_ok_same_ids) (metis list.set_map replace_same)


section \<open>Dispatching\<close>

definition running :: "device \<Rightarrow> worker \<Rightarrow> worker" where
  "running d w = worker_send_message (Msg_Job d) (w\<lparr>wk_state := WS_Running\<rparr>)"

lemma running_simps [simp]: "wk_id (running d w) = wk_id w" "wk_ref (running d w) = wk_ref w"
  "wk_thread (running d w) = wk_thread w" "wk_state (running d w) = WS_Running" "wk_job (running d w) = wk_job w"
  by (simp_all add: running_def worker_send_message_def)

lemma hand_over_worker:
  assumes "workers_ok c js as cap nx (dv_workers s)" and "w \<in> set (dv_workers s)"
  shows "hand_over (wk_id w) d s = Some (Some (wk_ref w), s\<lparr>dv_workers := replace w (running d w) (dv_workers s)\<rparr>)"
proof -
  have f: "worker_of (wk_id w) s = Some w" using find_worker(1) [OF assms] by (simp add: worker_of_def)
  have m: "map (\<lambda>x. if wk_id x = wk_id w then worker_send_message (Msg_Job d) x else x)
      (map (\<lambda>x. if wk_id x = wk_id w then x\<lparr>wk_state := WS_Running\<rparr> else x) (dv_workers s)) =
      map (\<lambda>x. if wk_id x = wk_id w then running d x else x) (dv_workers s)"
    by (simp add: running_def)
  show ?thesis
    using update_one(1) [OF assms, of "running d"] m
    by (simp add: hand_over_def f set_worker_state_def send_to_def upd_worker_def)
qed

lemma workers_length:
  assumes "workers_ok c js as cap nx ws"
  shows "length ws \<le> unat cap"
proof -
  have "distinct (map (\<lambda>w. unat (wk_id w)) ws)" using assms by (simp add: workers_ok_def distinct_map inj_on_def word_unat_eq_iff [symmetric])
  then have "length ws = card ((\<lambda>w. unat (wk_id w)) ` set ws)" by (metis distinct_card length_map list.set_map)
  also have "\<dots> \<le> card {..<unat cap}"
    using assms by (intro card_mono) (auto simp: workers_ok_def word_less_nat_alt)
  finally show ?thesis by simp
qed

lemma room_iff:
  assumes "workers_ok c js as cap nx ws"
  shows "(of_nat (length ws) :: 32 word) < cap \<longleftrightarrow> length ws < unat cap"
proof -
  have "length ws < 2 ^ 32" using workers_length [OF assms] unsigned_less [of cap, where ?'a = nat] by simp
  then have "unat (of_nat (length ws) :: 32 word) = length ws" by (simp add: unat_of_nat)
  then show ?thesis by (metis word_less_nat_alt)
qed

lemma free_id_some:
  assumes ok: "workers_ok c js as cap nx ws" and room: "length ws < unat cap"
  obtains i where "free_id cap ws = Some i" "i < cap" "i \<notin> wk_id ` set ws"
proof -
  let ?ids = "map of_nat [0..<unat cap] :: 32 word list"
  have inj: "inj_on (of_nat :: nat \<Rightarrow> 32 word) {0..<unat cap}"
  proof (rule inj_onI)
    fix x y :: nat
    assume xy: "x \<in> {0..<unat cap}" "y \<in> {0..<unat cap}" "(of_nat x :: 32 word) = of_nat y"
    have "x < 2 ^ 32" "y < 2 ^ 32" using xy(1,2) unsigned_less [of cap, where ?'a = nat] by auto
    then show "x = y" using arg_cong [OF xy(3), of unat] by (simp add: unat_of_nat)
  qed
  have "card (set ?ids) = unat cap" using inj by (simp add: card_image)
  moreover have "card (wk_id ` set ws) \<le> length ws" by (metis card_length length_map list.set_map)
  ultimately have "\<not> set ?ids \<subseteq> wk_id ` set ws" using room by (metis List.finite_set card_mono finite_imageI leD le_less_trans)
  then obtain i where i: "free_id cap ws = Some i" "i \<in> set ?ids" "i \<notin> wk_id ` set ws"
    unfolding free_id_def by (metis (no_types, lifting) find_None_iff find_Some_iff not_None_eq nth_mem subsetI)
  have "i < cap" using i(2) by (auto simp: word_less_nat_alt unat_of_nat intro: le_less_trans)
  then show ?thesis using i that by blast
qed

lemma fresh_worker_ok: "mentions i as = [] \<Longrightarrow> worker_ok c js as (worker_new r i WS_Idle)"
  by (simp add: worker_ok_def worker_new_def thread_ok_def bound_job_def calm_worker_def owed_def)

lemma find_last: "find P xs = None \<Longrightarrow> P x \<Longrightarrow> find P (xs @ [x]) = Some x"
  by (induction xs) (auto split: if_splits)

lemma create_worker:
  assumes ok: "workers_ok c js (dv_acks s) (dv_capacity s) (dv_next s) (dv_workers s)"
    and as: "acks_ok (dv_acks s) (dv_workers s)" and room: "length (dv_workers s) < unat (dv_capacity s)"
  obtains w s' where "create_new_worker s = Some (Some (wk_id w), s')"
    "s' = s\<lparr>dv_workers := dv_workers s @ [w], dv_next := Suc (dv_next s)\<rparr>" "wk_state w = WS_Idle" "wk_job w = None" "wk_inbox w = []"
    "workers_ok c js (dv_acks s') (dv_capacity s') (dv_next s') (dv_workers s')" "acks_ok (dv_acks s') (dv_workers s')"
proof -
  obtain i where i: "free_id (dv_capacity s) (dv_workers s) = Some i" "i < dv_capacity s" "i \<notin> wk_id ` set (dv_workers s)"
    using free_id_some [OF ok room] .
  let ?w = "worker_new (dv_next s) i WS_Idle"
  let ?s = "s\<lparr>dv_workers := dv_workers s @ [?w], dv_next := Suc (dv_next s)\<rparr>"
  have m: "map (\<lambda>w. if wk_id w = i then w\<lparr>wk_state := WS_Idle\<rparr> else w) (dv_workers s) = dv_workers s"
    using i(3) by (intro map_idI) auto
  have f: "find (\<lambda>w. wk_id w = i) (dv_workers s) = None" using i(3) by (auto simp: find_None_iff)
  have "create_new_worker s = Some (Some i, ?s)"
    using m f find_last [of "\<lambda>w. wk_id w = i" "dv_workers s" "worker_new (dv_next s) i WS_Undef"]
    by (simp add: create_new_worker_def i(1) set_worker_state_def worker_of_def upd_worker_def worker_new_def)
  moreover have "mentions i (dv_acks s) = []"
    using as i(3) by (intro mentions_empty) (auto simp: acks_ok_def)
  then have "workers_ok c js (dv_acks s) (dv_capacity s) (Suc (dv_next s)) (dv_workers s @ [?w])"
    using ok i fresh_worker_ok [of i "dv_acks s" c js "dv_next s"]
    by (auto simp: workers_ok_def worker_new_def less_Suc_eq)
  moreover have "acks_ok (dv_acks s) (dv_workers s @ [?w])" using as by (auto simp: acks_ok_def)
  ultimately show ?thesis by (intro that [of ?w ?s]) (simp_all add: worker_new_def)
qed

lemma dispatch_result:
  assumes ok: "workers_ok c js (dv_acks s) (dv_capacity s) (dv_next s) (dv_workers s)"
    and as: "acks_ok (dv_acks s) (dv_workers s)" and ord: "\<And>ws. mset (ord ws) = mset ws"
  obtains (busy) "job_dispatch ord j s = Some (None, s)" "\<forall>w\<in>set (dv_workers s). wk_state w \<noteq> WS_Idle"
      "length (dv_workers s) = unat (dv_capacity s)"
    | (given) w s1 where
      "job_dispatch ord j s = Some (Some (wk_ref w), s1\<lparr>dv_workers := replace w (running (dj_device j) w) (dv_workers s1)\<rparr>)"
      "w \<in> set (dv_workers s1)" "wk_state w = WS_Idle" "wk_job w = None"
      "workers_ok c js (dv_acks s1) (dv_capacity s1) (dv_next s1) (dv_workers s1)" "acks_ok (dv_acks s1) (dv_workers s1)"
      "s1 = s \<or> s1 = s\<lparr>dv_workers := dv_workers s @ [w], dv_next := Suc (dv_next s)\<rparr> \<and> wk_inbox w = []"
proof (cases "find (\<lambda>w. wk_state w = WS_Idle) (ord (dv_workers s))")
  case (Some w)
  then have w: "w \<in> set (dv_workers s)" "wk_state w = WS_Idle"
    using ord [of "dv_workers s"] by (metis (mono_tags, lifting) find_Some_iff nth_mem set_mset_mset)+
  then have "wk_job w = None" using ok by (auto simp: workers_ok_def worker_ok_def)
  then show ?thesis using given [of w s] w ok as hand_over_worker [OF ok w(1)] Some by (simp add: job_dispatch_def)
next
  case None
  then have no_idle: "\<forall>w\<in>set (dv_workers s). wk_state w \<noteq> WS_Idle"
    using ord [of "dv_workers s"] by (metis (mono_tags, lifting) find_None_iff set_mset_mset)
  show ?thesis
  proof (cases "length (dv_workers s) < unat (dv_capacity s)")
    case True
    obtain w s' where w: "create_new_worker s = Some (Some (wk_id w), s')"
        "s' = s\<lparr>dv_workers := dv_workers s @ [w], dv_next := Suc (dv_next s)\<rparr>" "wk_state w = WS_Idle" "wk_job w = None" "wk_inbox w = []"
        "workers_ok c js (dv_acks s') (dv_capacity s') (dv_next s') (dv_workers s')" "acks_ok (dv_acks s') (dv_workers s')"
      using create_worker [OF ok as True] by blast
    have "w \<in> set (dv_workers s')" using w(2) by simp
    then show ?thesis
      using given [of w s'] w hand_over_worker [OF w(6)] True None room_iff [OF ok] by (simp add: job_dispatch_def)
  next
    case False
    then have "length (dv_workers s) = unat (dv_capacity s)" using workers_length [OF ok] by simp
    then show ?thesis using busy no_idle None room_iff [OF ok] False by (simp add: job_dispatch_def)
  qed
qed


lemma worker_ok_jobs:
  assumes "worker_ok c js as x"
    and "\<And>j. j \<in> set js \<Longrightarrow> dj_worker j = Some (wk_ref x) \<Longrightarrow> dj_state j = DJ_Running \<Longrightarrow> j \<in> set js'"
    and "\<And>j. j \<in> set js \<Longrightarrow> wk_job x = Some (dj_ref j) \<Longrightarrow> \<exists>j'\<in>set js'. dj_ref j' = dj_ref j \<and> dj_device j' = dj_device j"
  shows "worker_ok c js' as x"
proof -
  have "bound_job js' x" using assms(1,2) unfolding worker_ok_def bound_job_def by blast
  moreover have "c \<longrightarrow> calm_worker js' as x" using assms(1,3) unfolding worker_ok_def calm_worker_def by metis
  ultimately show ?thesis using assms(1) by (simp add: worker_ok_def)
qed

definition assigned :: "devjob \<Rightarrow> worker \<Rightarrow> worker" where
  "assigned j w = (running (dj_device j) w)\<lparr>wk_job := Some (dj_ref j)\<rparr>"

definition started :: "worker \<Rightarrow> devjob \<Rightarrow> devjob" where
  "started w j = j\<lparr>dj_state := DJ_Running, dj_worker := Some (wk_ref w)\<rparr>"

lemma assigned_simps [simp]: "wk_id (assigned j w) = wk_id w" "wk_ref (assigned j w) = wk_ref w"
  "wk_thread (assigned j w) = wk_thread w" "wk_state (assigned j w) = WS_Running" "wk_job (assigned j w) = Some (dj_ref j)"
  "dj_ref (started w j) = dj_ref j" "dj_device (started w j) = dj_device j" "dj_seqnum (started w j) = dj_seqnum j"
  "dj_state (started w j) = DJ_Running" "dj_worker (started w j) = Some (wk_ref w)"
  by (simp_all add: assigned_def started_def)

lemma assigned_inbox: "wk_inbox (assigned j w) = wk_inbox w @ (if wk_thread w = Th_Waiting then [Msg_Job (dj_device j)] else [])"
  by (simp add: assigned_def running_def worker_send_message_def)

lemma assigned_ok:
  assumes "worker_ok c js as w" and "wk_job w = None" and "started w j \<in> set js'"
  shows "worker_ok c js' as (assigned j w)"
proof -
  have "thread_ok as (assigned j w)"
    using assms(1,2) unfolding worker_ok_def thread_ok_def
    by (cases "wk_thread w") (auto simp: owed_def assigned_inbox)
  moreover have "bound_job js' (assigned j w)"
    unfolding bound_job_def using assms(3) by (auto intro!: bexI [of _ "started w j"])
  moreover have "calm_worker js' as (assigned j w)" if c
    using assms that unfolding worker_ok_def calm_worker_def
    by (auto simp: owed_def assigned_inbox intro!: bexI [of _ "started w j"])
  ultimately show ?thesis by (simp add: worker_ok_def)
qed

lemma queue_sorted_same: "map dj_seqnum js' = map dj_seqnum js \<Longrightarrow> queue_sorted js' = queue_sorted js"
  by (simp add: queue_sorted_def)

lemma start_one:
  assumes inv: "queue_inv c G (pre @ j # post) s" and w: "w \<in> set (dv_workers s)" "wk_job w = None"
    and q: "dj_state j = DJ_Queued"
  shows "queue_inv c G (pre @ started w j # post) (s\<lparr>dv_workers := replace w (assigned j w) (dv_workers s)\<rparr>)"
proof -
  let ?js = "pre @ j # post" and ?js' = "pre @ started w j # post"
  have ok: "workers_ok c ?js (dv_acks s) (dv_capacity s) (dv_next s) (dv_workers s)" "jobs_ok (dv_next s) ?js"
    "acks_ok (dv_acks s) (dv_workers s)" using inv by (simp_all add: queue_inv_def)
  have "worker_ok c ?js (dv_acks s) w" using ok(1) w(1) by (simp add: workers_ok_def)
  from assigned_ok [OF this w(2), of j ?js'] have a: "worker_ok c ?js' (dv_acks s) (assigned j w)" by simp
  have "worker_ok c ?js' (dv_acks s) x" if "x \<in> set (dv_workers s)" for x
  proof (rule worker_ok_jobs [of c ?js])
    show "worker_ok c ?js (dv_acks s) x" using ok(1) that by (simp add: workers_ok_def)
    show "i \<in> set ?js'" if "i \<in> set ?js" "dj_state i = DJ_Running" for i using that q by auto
    show "\<exists>j'\<in>set ?js'. dj_ref j' = dj_ref i \<and> dj_device j' = dj_device i" if "i \<in> set ?js" for i using that by auto
  qed
  then have ws: "workers_ok c ?js' (dv_acks s) (dv_capacity s) (dv_next s) (replace w (assigned j w) (dv_workers s))"
    by (intro workers_ok_replace [OF ok(1) w(1)] a) simp_all
  have js: "jobs_ok (dv_next s) ?js'" using ok(2) queue_sorted_same [of ?js' ?js] by (auto simp: jobs_ok_def devjob_ok_def)
  have "served ?js' (replace w (assigned j w) (dv_workers s))" if c: c
    unfolding served_def
  proof (intro ballI impI)
    fix i
    assume i: "i \<in> set ?js'" "dj_state i = DJ_Running"
    show "\<exists>v\<in>set (replace w (assigned j w) (dv_workers s)). wk_job v = Some (dj_ref i)"
    proof (cases "i = started w j")
      case True
      then show ?thesis using w(1) by (auto simp: set_replace intro!: bexI [of _ "assigned j w"])
    next
      case False
      then obtain v where "v \<in> set (dv_workers s)" "wk_job v = Some (dj_ref i)"
        using inv i c by (auto simp: served_def queue_inv_def)
      then show ?thesis using w by (intro bexI [of _ v]) (auto simp: set_replace)
    qed
  qed
  then show ?thesis using inv ws js acks_ok_replace [OF ok(3), of "assigned j w" w] by (auto simp: queue_inv_def)
qed

lemma queue_inv_bound:
  assumes "queue_inv c G js s" and "x \<in> set (dv_workers s)" and "wk_job x = Some r"
  shows "\<exists>j\<in>set js. dj_ref j = r \<and> dj_state j = DJ_Running \<and> dj_worker j = Some (wk_ref x)"
proof -
  have "bound_job js x" using assms(1,2) by (auto simp: queue_inv_def workers_ok_def worker_ok_def)
  then show ?thesis using assms(3) by (simp add: bound_job_def)
qed

lemma queue_inv_unbound:
  assumes inv: "queue_inv c G js s" and j: "j \<in> set js" "dj_state j = DJ_Queued" and x: "x \<in> set (dv_workers s)"
  shows "wk_job x \<noteq> Some (dj_ref j)"
proof
  assume "wk_job x = Some (dj_ref j)"
  then obtain i where "i \<in> set js" "dj_ref i = dj_ref j" "dj_state i = DJ_Running"
    using queue_inv_bound [OF inv x] by blast
  moreover have "inj_on dj_ref (set js)" using inv by (simp add: queue_inv_def jobs_ok_def distinct_map)
  ultimately show False using j by (metis devjob_state.distinct(5) inj_onD)
qed

text \<open>The devices that have not been broadcast yet, and the number of steps that are left: three for a queued job, two
  for one in a channel, one for an acknowledgement.\<close>

definition is_sent :: "worker list \<Rightarrow> devjob \<Rightarrow> bool" where
  "is_sent ws j \<longleftrightarrow> (\<exists>w\<in>set ws. wk_job w = Some (dj_ref j) \<and> wk_inbox w = [])"

definition unsent :: "devjob list \<Rightarrow> worker list \<Rightarrow> device list" where
  "unsent js ws = map dj_device (filter (\<lambda>j. \<not> is_sent ws j) js)"

definition work_left :: "devjob list \<Rightarrow> 're devmaster \<Rightarrow> nat" where
  "work_left js s = 3 * length (filter (\<lambda>j. dj_state j = DJ_Queued) js) +
     2 * sum_list (map (\<lambda>w. length (wk_inbox w)) (dv_workers s)) + length (dv_acks s)"

lemma sum_list_replace:
  assumes "distinct xs" and "x \<in> set xs"
  shows "sum_list (map f (replace x y xs)) + f x = sum_list (map f xs) + (f y :: nat)"
  using assms
proof (induction xs)
  case (Cons z xs)
  have "replace x y xs = xs" if "x \<notin> set xs" using that by (auto simp: replace_def intro!: map_idI)
  then show ?case using Cons by (auto simp: replace_def simp del: map_map)
qed simp

lemma start_one_progress:
  assumes inv: "queue_inv True G (pre @ j # post) s" and w: "w \<in> set (dv_workers s)" "wk_job w = None"
    and q: "dj_state j = DJ_Queued"
  shows "unsent (pre @ started w j # post) (replace w (assigned j w) (dv_workers s)) = unsent (pre @ j # post) (dv_workers s)"
    and "work_left (pre @ started w j # post) (s\<lparr>dv_workers := replace w (assigned j w) (dv_workers s)\<rparr>) < work_left (pre @ j # post) s"
proof -
  let ?ws = "replace w (assigned j w) (dv_workers s)"
  have th: "wk_thread w = Th_Waiting" and ds: "distinct (dv_workers s)"
    using inv w by (auto simp: queue_inv_def workers_ok_def worker_ok_def calm_worker_def distinct_map)
  have nj: "wk_job x \<noteq> Some (dj_ref j)" if "x \<in> set (dv_workers s)" for x
    using queue_inv_unbound [OF inv _ q that] by simp
  have "is_sent ?ws i \<longleftrightarrow> is_sent (dv_workers s) i" for i
    using w th nj by (auto simp: is_sent_def set_replace assigned_inbox)
  moreover have "is_sent ws (started w j) \<longleftrightarrow> is_sent ws j" for ws by (simp add: is_sent_def)
  ultimately show "unsent (pre @ started w j # post) ?ws = unsent (pre @ j # post) (dv_workers s)"
    by (simp add: unsent_def)
  have "sum_list (map (\<lambda>w. length (wk_inbox w)) ?ws) = Suc (sum_list (map (\<lambda>w. length (wk_inbox w)) (dv_workers s)))"
    using sum_list_replace [OF ds w(1), of "\<lambda>w. length (wk_inbox w)" "assigned j w"] th by (simp add: assigned_inbox)
  then show "work_left (pre @ started w j # post) (s\<lparr>dv_workers := ?ws\<rparr>) < work_left (pre @ j # post) s"
    using q by (simp add: work_left_def)
qed

definition saturated :: "devjob list \<Rightarrow> 're devmaster \<Rightarrow> bool" where
  "saturated js s \<longleftrightarrow> (\<exists>j\<in>set js. dj_state j = DJ_Queued) \<longrightarrow>
     (\<forall>w\<in>set (dv_workers s). wk_state w \<noteq> WS_Idle) \<and> length (dv_workers s) = unat (dv_capacity s)"

definition same_outside :: "'re devmaster \<Rightarrow> 're devmaster \<Rightarrow> bool" where
  "same_outside s s' \<longleftrightarrow> dv_acks s' = dv_acks s \<and> dv_sent s' = dv_sent s \<and> dv_timer s' = dv_timer s \<and>
     dv_capacity s' = dv_capacity s \<and> dv_rules s' = dv_rules s"

lemma queue_inv_grow:
  assumes "queue_inv c G js s" and "s1 = s\<lparr>dv_workers := dv_workers s @ [w], dv_next := Suc (dv_next s)\<rparr>"
    and "workers_ok c js (dv_acks s1) (dv_capacity s1) (dv_next s1) (dv_workers s1)" and "acks_ok (dv_acks s1) (dv_workers s1)"
  shows "queue_inv c G js s1"
  using assms by (auto simp: queue_inv_def jobs_ok_def devjob_ok_def served_def less_Suc_eq)

lemma start_jobs_ok:
  assumes ord: "\<And>ws. mset (ord ws) = mset ws"
  shows "queue_inv c G (pre @ js) s \<Longrightarrow> \<exists>js' s'. start_jobs ord js s = Some (js', s') \<and> queue_inv c G (pre @ js') s' \<and>
     saturated js' s' \<and> same_outside s s' \<and>
     (c \<longrightarrow> unsent (pre @ js') (dv_workers s') = unsent (pre @ js) (dv_workers s) \<and> work_left (pre @ js') s' \<le> work_left (pre @ js) s)"
proof (induction js arbitrary: pre s)
  case Nil
  then show ?case by (simp add: saturated_def same_outside_def)
next
  case (Cons j js)
  show ?case
  proof (cases "dj_state j = DJ_Queued")
    case False
    have "queue_inv c G ((pre @ [j]) @ js) s" using Cons.prems by simp
    from Cons.IH [OF this] obtain js' s' where
      "start_jobs ord js s = Some (js', s')" "queue_inv c G (pre @ j # js') s'" "saturated js' s'" "same_outside s s'"
      "c \<longrightarrow> unsent (pre @ j # js') (dv_workers s') = unsent (pre @ j # js) (dv_workers s) \<and>
        work_left (pre @ j # js') s' \<le> work_left (pre @ j # js) s" by (elim exE conjE) simp
    then show ?thesis using False by (intro exI [of _ "j # js'"] exI [of _ s']) (auto simp: saturated_def)
  next
    case True
    have ok: "workers_ok c (pre @ j # js) (dv_acks s) (dv_capacity s) (dv_next s) (dv_workers s)"
        "acks_ok (dv_acks s) (dv_workers s)" using Cons.prems by (simp_all add: queue_inv_def)
    show ?thesis
    proof (rule dispatch_result [OF ok ord, of j], goal_cases busy given)
      case busy
      show ?thesis using busy True Cons.prems by (simp add: saturated_def same_outside_def)
    next
      case (given w s1)
      let ?s = "s1\<lparr>dv_workers := replace w (assigned j w) (dv_workers s1)\<rparr>"
      have inv1: "queue_inv c G (pre @ j # js) s1"
        using given(7) queue_inv_grow [OF Cons.prems _ given(5,6)] Cons.prems by blast
      have o1: "same_outside s s1" "work_left (pre @ j # js) s1 = work_left (pre @ j # js) s"
          "unsent (pre @ j # js) (dv_workers s1) = unsent (pre @ j # js) (dv_workers s)"
        using given(4,7) by (auto simp: same_outside_def work_left_def unsent_def is_sent_def)
      have b: "bind_worker (wk_ref w) (dj_ref j) (s1\<lparr>dv_workers := replace w (running (dj_device j) w) (dv_workers s1)\<rparr>) = ?s"
        using unique_worker(2) [OF given(5,2)] by (auto simp: bind_worker_def upd_worker_def replace_def assigned_def)
      have "queue_inv c G ((pre @ [started w j]) @ js) ?s" using start_one [OF inv1 given(2,4) True] by simp
      from Cons.IH [OF this] obtain js' s' where
        n: "start_jobs ord js ?s = Some (js', s')" "queue_inv c G (pre @ started w j # js') s'" "saturated js' s'" "same_outside ?s s'"
        "c \<longrightarrow> unsent (pre @ started w j # js') (dv_workers s') = unsent (pre @ started w j # js) (dv_workers ?s) \<and>
          work_left (pre @ started w j # js') s' \<le> work_left (pre @ started w j # js) ?s" by (elim exE conjE) simp
      have "start_jobs ord (j # js) s = Some (started w j # js', s')"
        using True given(1) b n(1) by (simp add: started_def)
      moreover have "saturated (started w j # js') s'" using n(3) by (simp add: saturated_def)
      moreover have "same_outside s s'" using o1(1) n(4) by (simp add: same_outside_def)
      moreover have "c \<longrightarrow> unsent (pre @ started w j # js') (dv_workers s') = unsent (pre @ j # js) (dv_workers s) \<and>
          work_left (pre @ started w j # js') s' \<le> work_left (pre @ j # js) s"
        using n(5) start_one_progress [OF _ given(2,4) True, of G pre js] inv1 o1(2,3) by (cases c) auto
      ultimately show ?thesis using n(2) by blast
    qed
  qed
qed

lemma job_queue_start_ok:
  assumes ord: "\<And>ws. mset (ord ws) = mset ws" and inv: "dm_inv c G s"
  obtains s' where "job_queue_start ord s = Some s'" "dm_inv c G s'" "saturated (dv_jobs s') s'" "same_outside s s'"
    "c \<Longrightarrow> unsent (dv_jobs s') (dv_workers s') = unsent (dv_jobs s) (dv_workers s)"
    "c \<Longrightarrow> work_left (dv_jobs s') s' \<le> work_left (dv_jobs s) s"
proof -
  have "queue_inv c G ([] @ dv_jobs s) s" using inv by (simp add: dm_inv_def)
  from start_jobs_ok [OF ord this] obtain js s1 where
    n: "start_jobs ord (dv_jobs s) s = Some (js, s1)" "queue_inv c G js s1" "saturated js s1" "same_outside s s1"
      "c \<longrightarrow> unsent js (dv_workers s1) = unsent (dv_jobs s) (dv_workers s) \<and> work_left js s1 \<le> work_left (dv_jobs s) s"
    by (elim exE conjE) simp
  show ?thesis
    by (rule that [of "s1\<lparr>dv_jobs := js\<rparr>"])
      (use n in \<open>auto simp: job_queue_start_def dm_inv_def queue_inv_def saturated_def same_outside_def work_left_def\<close>)
qed


section \<open>The events\<close>

lemma job_queue_insert_ok:
  assumes inv: "dm_inv c G s" and G: "c \<Longrightarrow> G d"
  shows "dm_inv c G (job_queue_insert d s)" and "same_outside s (job_queue_insert d s)"
proof -
  let ?js = "dv_jobs s" and ?n = "d_seqnum d"
  let ?j = "devjob_new (dv_next s) d DJ_Queued ?n"
  let ?i = "partition_point ?n ?js 0 (length ?js)"
  let ?js' = "take ?i ?js @ ?j # drop ?i ?js"
  have ok: "jobs_ok (dv_next s) ?js" "workers_ok c ?js (dv_acks s) (dv_capacity s) (dv_next s) (dv_workers s)"
    "acks_ok (dv_acks s) (dv_workers s)" using inv by (simp_all add: dm_inv_def queue_inv_def)
  have st: "set ?js' = insert ?j (set ?js)" by (metis append_take_drop_id list.simps(15) set_append Un_insert_right)
  have new: "dm_inv c G (s\<lparr>dv_jobs := ?js', dv_next := Suc (dv_next s)\<rparr>)" if n: "?n \<noteq> 0" "?n \<notin> dj_seqnum ` set ?js"
  proof -
    have "queue_sorted ?js'" using queue_sorted_insert [of ?js ?j] ok(1) n(2) by (simp add: jobs_ok_def Let_def devjob_new_def)
    moreover have "distinct (map dj_ref (take ?i ?js @ drop ?i ?js))" "dv_next s \<notin> dj_ref ` set ?js"
      using ok(1) by (auto simp: jobs_ok_def devjob_ok_def)
    then have "distinct (map dj_ref ?js')" by (auto simp: devjob_new_def dest: in_set_takeD in_set_dropD simp del: append_take_drop_id)
    moreover have "\<forall>j\<in>set ?js'. devjob_ok (Suc (dv_next s)) j"
      using ok(1) n(1) unfolding st by (auto simp: jobs_ok_def devjob_ok_def devjob_new_def less_Suc_eq)
    ultimately have js: "jobs_ok (Suc (dv_next s)) ?js'" unfolding jobs_ok_def by blast
    have "worker_ok c ?js' (dv_acks s) w" if "w \<in> set (dv_workers s)" for w
      by (rule worker_ok_jobs [of c ?js]) (use ok(2) that st in \<open>auto simp: workers_ok_def\<close>)
    then have "workers_ok c ?js' (dv_acks s) (dv_capacity s) (Suc (dv_next s)) (dv_workers s)"
      using ok(2) by (auto simp: workers_ok_def less_Suc_eq)
    moreover have "served ?js' (dv_workers s)" "\<forall>j\<in>set ?js'. G (dj_device j)" if c
      using inv G that unfolding dm_inv_def queue_inv_def served_def st by (auto simp: devjob_new_def)
    ultimately show ?thesis using js ok(3) inv by (auto simp: dm_inv_def queue_inv_def)
  qed
  show "dm_inv c G (job_queue_insert d s)"
    using inv new binary_search_sorted(2) [of ?js ?n] ok(1)
    by (auto simp: job_queue_insert_def get_seqnum_def Let_def jobs_ok_def)
  show "same_outside s (job_queue_insert d s)"
    by (auto simp: job_queue_insert_def same_outside_def Let_def split: sum.split)
qed

lemma remove_job:
  assumes js: "jobs_ok nx (pre @ j # post)" and seq: "dj_seqnum j' = dj_seqnum j"
  obtains i where "binary_search (dj_seqnum j) (pre @ j' # post) 0 (length (pre @ j' # post)) = Some i"
    "take i (pre @ j' # post) @ drop (Suc i) (pre @ j' # post) = pre @ post"
proof -
  let ?js = "pre @ j' # post"
  have s: "queue_sorted ?js" using js queue_sorted_same [of ?js "pre @ j # post"] seq by (simp add: jobs_ok_def)
  obtain i where i: "binary_search (dj_seqnum j) ?js 0 (length ?js) = Some i"
    using binary_search_sorted(2) [OF s, of "dj_seqnum j"] seq by fastforce
  from binary_search_sorted(1) [OF s this] have l: "i < length ?js" "dj_seqnum (?js ! i) = dj_seqnum (?js ! length pre)"
    using seq by simp_all
  have "i = length pre"
  proof (rule ccontr)
    assume "i \<noteq> length pre"
    then consider "i < length pre" | "length pre < i" by linarith
    then show False using queue_sorted_nth [OF s, of i "length pre"] queue_sorted_nth [OF s, of "length pre" i] l by cases simp_all
  qed
  then show ?thesis using i that by simp
qed


definition freed :: "worker \<Rightarrow> worker" where
  "freed w = w\<lparr>wk_state := WS_Idle, wk_job := None\<rparr>"

lemma freed_simps [simp]: "wk_id (freed w) = wk_id w" "wk_ref (freed w) = wk_ref w" "wk_thread (freed w) = wk_thread w"
  "wk_state (freed w) = WS_Idle" "wk_job (freed w) = None" "wk_inbox (freed w) = wk_inbox w"
  by (simp_all add: freed_def)

lemma thread_ok_other: "a \<noteq> finished_ack (wk_id x) \<Longrightarrow> a \<noteq> killed_ack (wk_id x) \<Longrightarrow> thread_ok (a # as) x = thread_ok as x"
  by (cases "wk_thread x") (simp_all add: thread_ok_def)

lemma worker_ok_other:
  assumes "worker_ok c js (a # as) x" and "a \<noteq> finished_ack (wk_id x)" and "a \<noteq> killed_ack (wk_id x)"
  shows "worker_ok c js as x"
  using assms by (simp add: worker_ok_def thread_ok_other calm_worker_def)

lemma finished_owed:
  assumes "worker_ok c js (finished_ack (wk_id w) # as) w"
  shows "wk_job w \<noteq> None" and "thread_ok as (freed w)" and "c \<Longrightarrow> wk_inbox w = []"
    and "c \<Longrightarrow> mentions (wk_id w) as = []"
proof -
  have t: "thread_ok (finished_ack (wk_id w) # as) w" using assms by (simp add: worker_ok_def)
  then obtain n where n: "(case wk_thread w of
       Th_Waiting \<Rightarrow> finished_ack (wk_id w) # mentions (wk_id w) as = replicate n (finished_ack (wk_id w)) \<and> n + jobs_in (wk_inbox w) \<le> owed w
     | Th_Ended \<Rightarrow> n \<le> owed w \<and> (finished_ack (wk_id w) # mentions (wk_id w) as = replicate n (finished_ack (wk_id w)) \<or>
         finished_ack (wk_id w) # mentions (wk_id w) as = replicate n (finished_ack (wk_id w)) @ [killed_ack (wk_id w)])
     | Th_Panicked \<Rightarrow> finished_ack (wk_id w) # mentions (wk_id w) as = replicate n (finished_ack (wk_id w)) \<and> n \<le> owed w)"
    by (cases "wk_thread w") (auto simp: thread_ok_def)
  have n0: "n \<noteq> 0" using n by (cases n; cases "wk_thread w") auto
  then obtain m where m: "n = Suc m" by (cases n) auto
  have o: "n \<le> owed w" using n by (cases "wk_thread w") auto
  then show j: "wk_job w \<noteq> None" using n0 by (auto simp: owed_def split: if_splits)
  then have m0: "m = 0" using o m by (auto simp: owed_def)
  show "thread_ok as (freed w)"
    unfolding thread_ok_def using n m m0 j by (intro exI [of _ 0]) (cases "wk_thread w"; simp add: owed_def)
  assume c
  then have "length (mentions (wk_id w) (finished_ack (wk_id w) # as)) + length (wk_inbox w) = owed w"
    using assms by (simp add: worker_ok_def calm_worker_def)
  then show "wk_inbox w = []" "mentions (wk_id w) as = []" using j by (simp_all add: owed_def)
qed

lemma finished_ok:
  assumes inv: "dm_inv c G s" and acks: "dv_acks s = finished_ack (wk_id w) # as" and w: "w \<in> set (dv_workers s)"
  obtains s1 where "worker_finished ord (wk_id w) (s\<lparr>dv_acks := as\<rparr>) = job_queue_start ord s1" "dm_inv c G s1"
    "same_outside s (s1\<lparr>dv_acks := dv_acks s\<rparr>)" "c \<Longrightarrow> unsent (dv_jobs s1) (dv_workers s1) = unsent (dv_jobs s) (dv_workers s)"
    "work_left (dv_jobs s1) s1 < work_left (dv_jobs s) s"
proof -
  have ok: "jobs_ok (dv_next s) (dv_jobs s)"
      "workers_ok c (dv_jobs s) (dv_acks s) (dv_capacity s) (dv_next s) (dv_workers s)"
      "acks_ok (dv_acks s) (dv_workers s)" and qi: "queue_inv c G (dv_jobs s) s"
    using inv by (simp_all add: dm_inv_def queue_inv_def)
  have wok: "worker_ok c (dv_jobs s) (finished_ack (wk_id w) # as) w" using ok(2) w acks by (simp add: workers_ok_def)
  obtain r where r: "wk_job w = Some r" using finished_owed(1) [OF wok] by blast
  obtain j where j: "j \<in> set (dv_jobs s)" "dj_ref j = r" "dj_state j = DJ_Running" "dj_worker j = Some (wk_ref w)"
    using queue_inv_bound [OF qi w r] by blast
  obtain pre post where js: "dv_jobs s = pre @ j # post" using split_list [OF j(1)] by blast
  let ?j = "j\<lparr>dj_worker := None\<rparr>"
  let ?ws = "replace w (freed w) (dv_workers s)"
  let ?s1 = "s\<lparr>dv_acks := as, dv_workers := ?ws, dv_jobs := pre @ post\<rparr>"
  have refs: "dj_ref i \<noteq> dj_ref j" if "i \<in> set pre \<union> set post" for i
    using ok(1) that unfolding js jobs_ok_def by (auto simp: image_iff)
  have fj: "find (\<lambda>i. dj_ref i = r) (dv_jobs s) = Some j"
    using refs j(2) unfolding js by (induction pre) auto
  have mj: "map (\<lambda>x. if dj_ref x = dj_ref j then x\<lparr>dj_worker := None\<rparr> else x) (dv_jobs s) = pre @ ?j # post"
    using refs unfolding js by (auto intro!: map_idI)
  have m1: "map (\<lambda>v. if wk_id v = wk_id w then v\<lparr>wk_state := WS_Idle\<rparr> else v) (dv_workers s) = replace w (w\<lparr>wk_state := WS_Idle\<rparr>) (dv_workers s)"
    by (rule update_one(1) [OF ok(2) w])
  have m2: "map (\<lambda>v. if wk_ref v = wk_ref w then v\<lparr>wk_job := None\<rparr> else v) (replace w (w\<lparr>wk_state := WS_Idle\<rparr>) (dv_workers s)) = ?ws"
    using unique_worker(2) [OF ok(2) w] by (auto simp: replace_def freed_def)
  have f2: "find (\<lambda>v. wk_ref v = wk_ref w) (replace w (w\<lparr>wk_state := WS_Idle\<rparr>) (dv_workers s)) \<noteq> None"
    using w by (auto simp: find_None_iff set_replace)
  obtain i where i: "binary_search (dj_seqnum j) (pre @ ?j # post) 0 (length (pre @ ?j # post)) = Some i"
      "take i (pre @ ?j # post) @ drop (Suc i) (pre @ ?j # post) = pre @ post"
    using remove_job [of "dv_next s" pre j post ?j] ok(1) js by auto
  have "worker_finished ord (wk_id w) (s\<lparr>dv_acks := as\<rparr>) = job_queue_start ord ?s1"
    using find_worker(1) [OF ok(2) w] r fj m1 m2 f2 i mj j(4)
    by (auto simp: worker_finished_def worker_of_def set_worker_state_def upd_worker_def queue_job_free_def devjob_free_def
        split: option.splits)
  moreover have "dm_inv c G ?s1"
  proof -
    have jo: "jobs_ok (dv_next s) (pre @ post)"
      using ok(1) unfolding js by (auto simp: jobs_ok_def queue_sorted_def sorted_wrt_append)
    have fw: "worker_ok c (pre @ post) as (freed w)"
      using finished_owed [OF wok] wok by (auto simp: worker_ok_def bound_job_def calm_worker_def owed_def)
    have ow: "worker_ok c (pre @ post) as x" if x: "x \<in> set (dv_workers s)" "x \<noteq> w" for x
    proof (rule worker_ok_jobs [of c "dv_jobs s"])
      have ne: "wk_id x \<noteq> wk_id w" "wk_ref x \<noteq> wk_ref w" using unique_worker [OF ok(2) w x(1)] x(2) by auto
      show "worker_ok c (dv_jobs s) as x"
        by (rule worker_ok_other [of c _ "finished_ack (wk_id w)"]) (use ok(2) x(1) acks ne in \<open>simp_all add: workers_ok_def\<close>)
      show "y \<in> set (pre @ post)" if "y \<in> set (dv_jobs s)" "dj_worker y = Some (wk_ref x)" for y
        using that j(4) ne(2) unfolding js by auto
      show "\<exists>j'\<in>set (pre @ post). dj_ref j' = dj_ref y \<and> dj_device j' = dj_device y"
        if y: "y \<in> set (dv_jobs s)" "wk_job x = Some (dj_ref y)" for y
      proof -
        obtain z where z: "z \<in> set (dv_jobs s)" "dj_ref z = dj_ref y" "dj_worker z = Some (wk_ref x)"
          using queue_inv_bound [OF qi x(1) y(2)] by blast
        then have "z = y" using ok(1) y(1) by (auto simp: jobs_ok_def distinct_map dest: inj_onD)
        then have "y \<noteq> j" using z(3) j(4) ne(2) by auto
        then show ?thesis using y(1) unfolding js by auto
      qed
    qed
    have wo: "workers_ok c (pre @ post) as (dv_capacity s) (dv_next s) ?ws"
      using fw ow by (intro workers_ok_replace [OF ok(2) w]) simp_all
    have ao: "acks_ok as ?ws"
      using ok(3) acks by (intro acks_ok_replace) (simp_all add: acks_ok_def)
    have "served (pre @ post) ?ws" if c: c
      unfolding served_def
    proof (intro ballI impI)
      fix y
      assume y: "y \<in> set (pre @ post)" "dj_state y = DJ_Running"
      then obtain v where v: "v \<in> set (dv_workers s)" "wk_job v = Some (dj_ref y)"
        using qi c unfolding js queue_inv_def served_def by auto
      then have "v \<noteq> w" using r j(2) refs [of y] y(1) by auto
      then show "\<exists>v\<in>set ?ws. wk_job v = Some (dj_ref y)" using v w by (intro bexI [of _ v]) (auto simp: set_replace)
    qed
    then show ?thesis using jo wo ao qi unfolding js by (auto simp: dm_inv_def queue_inv_def)
  qed
  moreover have "unsent (pre @ post) ?ws = unsent (dv_jobs s) (dv_workers s)" if c: c
  proof -
    have "is_sent (dv_workers s) j" using w r j(2) finished_owed(3) [OF wok c] by (auto simp: is_sent_def)
    moreover have "is_sent ?ws y = is_sent (dv_workers s) y" if "y \<in> set pre \<union> set post" for y
      using refs [OF that] w r j(2) by (auto simp: is_sent_def set_replace)
    ultimately show ?thesis unfolding js unsent_def by (auto cong: filter_cong)
  qed
  moreover have "work_left (pre @ post) ?s1 < work_left (dv_jobs s) s"
  proof -
    have "distinct (dv_workers s)" using ok(2) by (auto simp: workers_ok_def distinct_map)
    from sum_list_replace [OF this w, of "\<lambda>w. length (wk_inbox w)" "freed w"] show ?thesis
      using j(3) acks unfolding js by (simp add: work_left_def)
  qed
  ultimately show ?thesis using that [of ?s1] by (simp add: same_outside_def)
qed


lemma killed_ok:
  assumes inv: "dm_inv c G s" and acks: "dv_acks s = killed_ack (wk_id w) # as" and w: "w \<in> set (dv_workers s)"
  shows "\<not> c" and "\<exists>s'. worker_killed (wk_id w) (s\<lparr>dv_acks := as\<rparr>) = Some s' \<and> dm_inv c G s'"
proof -
  have ok: "jobs_ok (dv_next s) (dv_jobs s)" "workers_ok c (dv_jobs s) (dv_acks s) (dv_capacity s) (dv_next s) (dv_workers s)"
      "acks_ok (dv_acks s) (dv_workers s)" using inv by (simp_all add: dm_inv_def queue_inv_def)
  have "worker_ok c (dv_jobs s) (dv_acks s) w" using ok(2) w by (simp add: workers_ok_def)
  then obtain n where n: "(case wk_thread w of
       Th_Waiting \<Rightarrow> mentions (wk_id w) (dv_acks s) = replicate n (finished_ack (wk_id w)) \<and> n + jobs_in (wk_inbox w) \<le> owed w
     | Th_Ended \<Rightarrow> n \<le> owed w \<and> (mentions (wk_id w) (dv_acks s) = replicate n (finished_ack (wk_id w)) \<or>
         mentions (wk_id w) (dv_acks s) = replicate n (finished_ack (wk_id w)) @ [killed_ack (wk_id w)])
     | Th_Panicked \<Rightarrow> mentions (wk_id w) (dv_acks s) = replicate n (finished_ack (wk_id w)) \<and> n \<le> owed w)"
    and calm: "c \<longrightarrow> wk_thread w = Th_Waiting"
    unfolding worker_ok_def thread_ok_def calm_worker_def by blast
  have e: "wk_thread w = Th_Ended" and m: "mentions (wk_id w) as = []"
    using n unfolding acks by (cases n; cases "wk_thread w"; simp)+
  show nc: "\<not> c" using calm e by simp
  let ?ws = "filter (\<lambda>v. wk_id v \<noteq> wk_id w) (dv_workers s)"
  have r: "worker_killed (wk_id w) (s\<lparr>dv_acks := as\<rparr>) = Some (s\<lparr>dv_acks := as, dv_workers := ?ws\<rparr>)"
    using find_worker(1) [OF ok(2) w] e by (simp add: worker_killed_def worker_of_def)
  have "worker_ok c (dv_jobs s) as x" if "x \<in> set (dv_workers s)" "wk_id x \<noteq> wk_id w" for x
    by (rule worker_ok_other [of c _ "killed_ack (wk_id w)"]) (use ok(2) that acks in \<open>simp_all add: workers_ok_def\<close>)
  then have "workers_ok c (dv_jobs s) as (dv_capacity s) (dv_next s) ?ws"
    using ok(2) by (auto simp: workers_ok_def distinct_map_filter)
  moreover have "acks_ok as ?ws"
    unfolding acks_ok_def
  proof (intro ballI)
    fix a
    assume a: "a \<in> set as"
    then have "a \<noteq> finished_ack (wk_id w)" "a \<noteq> killed_ack (wk_id w)" using m by (auto simp: mentions_def filter_empty_conv)
    moreover have "a = [] \<or> (\<exists>v\<in>set (dv_workers s). a = finished_ack (wk_id v) \<or> a = killed_ack (wk_id v))"
      using ok(3) a acks by (simp add: acks_ok_def)
    ultimately show "a = [] \<or> (\<exists>v\<in>set ?ws. a = finished_ack (wk_id v) \<or> a = killed_ack (wk_id v))" by auto
  qed
  ultimately show "\<exists>s'. worker_killed (wk_id w) (s\<lparr>dv_acks := as\<rparr>) = Some s' \<and> dm_inv c G s'"
    using r ok(1) nc by (simp add: dm_inv_def queue_inv_def)
qed

lemma listener_ok:
  assumes inv: "dm_inv c G s" and sat: "c \<Longrightarrow> saturated (dv_jobs s) s" and ord: "\<And>ws. mset (ord ws) = mset ws"
  obtains s' where "listener_dispatch ord s = Some s'" "dm_inv c G s'" "c \<Longrightarrow> saturated (dv_jobs s') s'"
    "dv_sent s' = dv_sent s" "dv_rules s' = dv_rules s" "dv_capacity s' = dv_capacity s"
    "c \<Longrightarrow> unsent (dv_jobs s') (dv_workers s') = unsent (dv_jobs s) (dv_workers s)"
    "c \<Longrightarrow> dv_acks s \<noteq> [] \<Longrightarrow> work_left (dv_jobs s') s' < work_left (dv_jobs s) s"
proof (cases "dv_acks s")
  case Nil
  then show ?thesis using that [of s] inv sat by (simp add: listener_dispatch_def)
next
  case (Cons a as)
  have aok: "acks_ok (dv_acks s) (dv_workers s)"
    and wok: "workers_ok c (dv_jobs s) (dv_acks s) (dv_capacity s) (dv_next s) (dv_workers s)"
    using inv by (simp_all add: dm_inv_def queue_inv_def)
  have ld: "listener_dispatch ord s = worker_response_dispose ord a (s\<lparr>dv_acks := as\<rparr>)"
    using Cons by (simp add: listener_dispatch_def)
  consider (empty) "a = []" | (fin) w where "w \<in> set (dv_workers s)" "a = finished_ack (wk_id w)"
    | (kil) w where "w \<in> set (dv_workers s)" "a = killed_ack (wk_id w)"
    using aok Cons by (auto simp: acks_ok_def)
  then show ?thesis
  proof cases
    case empty
    let ?s = "s\<lparr>dv_acks := as\<rparr>"
    have "worker_ok c (dv_jobs s) as x" if "x \<in> set (dv_workers s)" for x
      by (rule worker_ok_other [of c _ "[]"])
        (use wok that Cons empty ack_simps(5,6) [of "wk_id x"] in \<open>simp_all add: workers_ok_def eq_commute [of "[]"]\<close>)
    then have "dm_inv c G ?s"
      using inv Cons by (auto simp: dm_inv_def queue_inv_def workers_ok_def acks_ok_def)
    then show ?thesis
      using that [of ?s] ld sat empty Cons by (simp add: worker_response_dispose_def saturated_def work_left_def)
  next
    case (fin w)
    obtain s1 where s1: "worker_finished ord (wk_id w) (s\<lparr>dv_acks := as\<rparr>) = job_queue_start ord s1" "dm_inv c G s1"
        "same_outside s (s1\<lparr>dv_acks := dv_acks s\<rparr>)" "c \<Longrightarrow> unsent (dv_jobs s1) (dv_workers s1) = unsent (dv_jobs s) (dv_workers s)"
        "work_left (dv_jobs s1) s1 < work_left (dv_jobs s) s"
      using finished_ok [OF inv _ fin(1)] Cons fin(2) by metis
    obtain s2 where s2: "job_queue_start ord s1 = Some s2" "dm_inv c G s2" "saturated (dv_jobs s2) s2" "same_outside s1 s2"
        "c \<Longrightarrow> unsent (dv_jobs s2) (dv_workers s2) = unsent (dv_jobs s1) (dv_workers s1)"
        "c \<Longrightarrow> work_left (dv_jobs s2) s2 \<le> work_left (dv_jobs s1) s1"
      using job_queue_start_ok [OF ord s1(2)] by metis
    have "listener_dispatch ord s = Some s2" using ld fin(2) s1(1) s2(1) by (simp add: worker_response_dispose_def)
    moreover have "c \<Longrightarrow> work_left (dv_jobs s2) s2 < work_left (dv_jobs s) s" using le_less_trans [OF s2(6) s1(5)] .
    ultimately show ?thesis using that [of s2] s1 s2 by (simp add: same_outside_def)
  next
    case (kil w)
    from killed_ok [OF inv _ kil(1)] Cons kil(2) obtain s' where
      "\<not> c" "worker_killed (wk_id w) (s\<lparr>dv_acks := as\<rparr>) = Some s'" "dm_inv c G s'" by metis
    moreover have "dv_sent s' = dv_sent s" "dv_rules s' = dv_rules s" "dv_capacity s' = dv_capacity s"
      using calculation(2) by (auto simp: worker_killed_def split: option.splits if_splits)
    ultimately show ?thesis using that [of s'] ld kil(2) by (simp add: worker_response_dispose_def)
  qed
qed


lemma kill_one:
  assumes inv: "dm_inv False G s" and w: "w \<in> set (dv_workers s)"
  shows "\<exists>s'. set_worker_state (wk_id w) WS_Killing s = Some s' \<and> dm_inv False G (send_to (wk_id w) (Msg_Cmd ''kill'') s') \<and>
    wk_id ` set (dv_workers (send_to (wk_id w) (Msg_Cmd ''kill'') s')) = wk_id ` set (dv_workers s)"
proof -
  have ok: "workers_ok False (dv_jobs s) (dv_acks s) (dv_capacity s) (dv_next s) (dv_workers s)" "acks_ok (dv_acks s) (dv_workers s)"
    using inv by (simp_all add: dm_inv_def queue_inv_def)
  let ?v = "worker_send_message (Msg_Cmd ''kill'') (w\<lparr>wk_state := WS_Killing\<rparr>)"
  let ?s = "s\<lparr>dv_workers := replace w ?v (dv_workers s)\<rparr>"
  have v: "wk_id ?v = wk_id w" "wk_ref ?v = wk_ref w" by (simp_all add: worker_send_message_def)
  have "worker_ok False (dv_jobs s) (dv_acks s) w" using ok(1) w by (simp add: workers_ok_def)
  then have "worker_ok False (dv_jobs s) (dv_acks s) ?v"
    by (cases "wk_thread w") (simp_all add: worker_ok_def thread_ok_def bound_job_def worker_send_message_def owed_def)
  then have "workers_ok False (dv_jobs s) (dv_acks s) (dv_capacity s) (dv_next s) (replace w ?v (dv_workers s))"
    using ok(1) by (intro workers_ok_replace [OF ok(1) w v]) (simp_all add: workers_ok_def)
  then have i: "dm_inv False G ?s" using inv acks_ok_replace [OF ok(2) v(1)] by (simp add: dm_inv_def queue_inv_def)
  have st: "set_worker_state (wk_id w) WS_Killing s = Some (s\<lparr>dv_workers := replace w (w\<lparr>wk_state := WS_Killing\<rparr>) (dv_workers s)\<rparr>)"
    using find_worker(1) [OF ok(1) w] update_one(1) [OF ok(1) w, of "\<lambda>w. w\<lparr>wk_state := WS_Killing\<rparr>"]
    by (simp add: set_worker_state_def worker_of_def upd_worker_def)
  have "map (\<lambda>x. if wk_id x = wk_id w then worker_send_message (Msg_Cmd ''kill'') x else x)
      (replace w (w\<lparr>wk_state := WS_Killing\<rparr>) (dv_workers s)) = replace w ?v (dv_workers s)"
    using unique_worker(1) [OF ok(1) w] by (auto simp: replace_def)
  then have "send_to (wk_id w) (Msg_Cmd ''kill'') (s\<lparr>dv_workers := replace w (w\<lparr>wk_state := WS_Killing\<rparr>) (dv_workers s)\<rparr>) = ?s"
    by (simp add: send_to_def upd_worker_def)
  moreover have "wk_id ` set (replace w ?v (dv_workers s)) = wk_id ` set (dv_workers s)"
    by (metis list.set_map replace_same v(1))
  ultimately show ?thesis using st i by simp
qed

lemma kill_each_ok:
  "dm_inv False G s \<Longrightarrow> wk_id ` set l \<subseteq> wk_id ` set (dv_workers s) \<Longrightarrow> \<exists>s'. kill_each l s = Some s' \<and> dm_inv False G s'"
proof (induction l arbitrary: s)
  case (Cons w l)
  then obtain x where x: "x \<in> set (dv_workers s)" "wk_id x = wk_id w" by (metis image_iff insertI1 list.set(2) subsetD)
  from kill_one [OF Cons.prems(1) x(1)] obtain s' where s': "set_worker_state (wk_id w) WS_Killing s = Some s'"
      "dm_inv False G (send_to (wk_id w) (Msg_Cmd ''kill'') s')"
      "wk_id ` set (dv_workers (send_to (wk_id w) (Msg_Cmd ''kill'') s')) = wk_id ` set (dv_workers s)"
    unfolding x(2) by blast
  from Cons.IH [OF s'(2)] s'(1,3) Cons.prems(2) show ?case by simp
qed simp

lemma kill_timer_ok:
  assumes inv: "dm_inv c G s" and ord: "\<And>ws. mset (ord ws) = mset ws"
  shows "\<exists>s'. kill_timer_dispatch ord s = Some s' \<and> dm_inv c G s' \<and> (c \<longrightarrow> s' = s)"
proof (cases "dv_timer s")
  case True
  then have nc: "\<not> c" using inv by (auto simp: dm_inv_def queue_inv_def)
  have "dm_inv False G (s\<lparr>dv_timer := False\<rparr>)" using inv nc by (simp add: dm_inv_def queue_inv_def)
  moreover have "set (ord (dv_workers s)) = set (dv_workers s)" using ord by (metis set_mset_mset)
  ultimately show ?thesis
    using kill_each_ok [of G "s\<lparr>dv_timer := False\<rparr>" "ord (dv_workers s)"] True nc
    by (simp add: kill_timer_dispatch_def manager_kill_workers_def)
next
  case False
  then show ?thesis using inv by (simp add: kill_timer_dispatch_def)
qed

text \<open>A round of a thread.\<close>

definition broadcast_of :: "sysfs \<Rightarrow> 're rules \<Rightarrow> device \<Rightarrow> string" where
  "broadcast_of E rules d = (case process_device E rules d of
       Some (_, d') \<Rightarrow> (case send_device True d' of Some (Inr msg, _) \<Rightarrow> msg | _ \<Rightarrow> [])
     | None \<Rightarrow> [])"

lemma send_device_sent: "\<exists>msg d'. send_device True d = Some (Inr msg, d')"
  by (auto simp: send_device_def get_properties_nulstr_def update_properties_bufs_def dm_defs Let_def split: prod.split)

lemma thread_round_ok:
  assumes "thread_round E net rules i msg = (st, sent, acks)"
  shows "acks = [] \<or> acks = [[]] \<or> acks = [finished_ack i] \<and> st = Th_Waiting \<and> jobs_in [msg] = 1 \<or>
      acks = [killed_ack i] \<and> st = Th_Ended"
    and "st = Th_Waiting \<Longrightarrow> jobs_in [msg] = 1"
    and "msg = Msg_Job d \<Longrightarrow> net = Net_Ok \<Longrightarrow> process_device E rules d \<noteq> None \<Longrightarrow>
      st = Th_Waiting \<and> sent = [broadcast_of E rules d] \<and> acks = [finished_ack i]"
proof -
  show "acks = [] \<or> acks = [[]] \<or> acks = [finished_ack i] \<and> st = Th_Waiting \<and> jobs_in [msg] = 1 \<or>
      acks = [killed_ack i] \<and> st = Th_Ended"
    using assms by (cases net; cases msg)
      (auto simp: thread_round_def thread_job_def thread_cmd_def connect_ack_def split: option.splits prod.splits sum.splits if_splits)
  show "st = Th_Waiting \<Longrightarrow> jobs_in [msg] = 1"
    using assms by (cases net; cases msg) (auto simp: thread_round_def thread_cmd_def connect_ack_def split: if_splits)
  assume m: "msg = Msg_Job d" "net = Net_Ok" "process_device E rules d \<noteq> None"
  then obtain r d' where p: "process_device E rules d = Some (r, d')" by fastforce
  obtain x d'' where "send_device True d' = Some (Inr x, d'')" using send_device_sent by blast
  then show "st = Th_Waiting \<and> sent = [broadcast_of E rules d] \<and> acks = [finished_ack i]"
    using assms m p by (simp add: thread_round_def thread_job_def broadcast_of_def connect_ack_def)
qed


lemma mentions_other:
  "\<forall>a\<in>set acks. a = [] \<or> a = finished_ack i \<or> a = killed_ack i \<Longrightarrow> k \<noteq> i \<Longrightarrow> mentions k acks = []"
  by (rule mentions_empty) fastforce

lemma worker_ok_mentions:
  assumes "worker_ok c js as x" and "mentions (wk_id x) bs = []"
  shows "worker_ok c js (as @ bs) x"
  using assms by (cases "wk_thread x") (simp_all add: worker_ok_def thread_ok_def calm_worker_def)

lemma round_worker_ok:
  assumes ok: "worker_ok c js as w" and msg: "wk_inbox w = msg # rest" "wk_thread w = Th_Waiting"
    and r: "thread_round E net rules (wk_id w) msg = (st, sent, acks)"
    and calm: "c \<Longrightarrow> net = Net_Ok \<and> (\<forall>j\<in>set js. process_device E rules (dj_device j) \<noteq> None)"
  shows "worker_ok c js (as @ acks) (w\<lparr>wk_inbox := rest, wk_thread := st\<rparr>)" (is "worker_ok _ _ _ ?v")
proof -
  have "thread_ok as w" using ok by (simp add: worker_ok_def)
  then obtain n where n: "mentions (wk_id w) as = replicate n (finished_ack (wk_id w))" "n + jobs_in (msg # rest) \<le> owed w"
    using msg by (auto simp: thread_ok_def)
  have jm: "jobs_in (msg # rest) = jobs_in [msg] + jobs_in rest" by (cases msg) simp_all
  have ow: "owed ?v = owed w" by (simp add: owed_def)
  have ra: "replicate n (finished_ack (wk_id w)) @ [finished_ack (wk_id w)] = replicate (Suc n) (finished_ack (wk_id w))"
    by (simp add: replicate_append_same)
  have "thread_ok (as @ acks) ?v"
  proof (cases "acks = [finished_ack (wk_id w)]")
    case True
    then have "st = Th_Waiting" "jobs_in [msg] = 1" using thread_round_ok(1) [OF r] by auto
    then show ?thesis unfolding thread_ok_def using True n ra jm ow by (intro exI [of _ "Suc n"]) simp
  next
    case False
    then show ?thesis
      unfolding thread_ok_def using thread_round_ok(1,2) [OF r] n jm ow
      by (intro exI [of _ n]) (cases st; auto simp: eq_commute [of "[]"])
  qed
  moreover have "calm_worker js (as @ acks) ?v" if c: c
  proof -
    have cw: "length (mentions (wk_id w) as) + length (msg # rest) = owed w" "wk_state w \<noteq> WS_Killing"
        "\<forall>m\<in>set (msg # rest). \<exists>j\<in>set js. wk_job w = Some (dj_ref j) \<and> m = Msg_Job (dj_device j)"
      using ok c msg by (simp_all add: worker_ok_def calm_worker_def)
    then obtain j where j: "j \<in> set js" "msg = Msg_Job (dj_device j)" by auto
    then have "st = Th_Waiting" "acks = [finished_ack (wk_id w)]"
      using thread_round_ok(3) [OF r j(2)] calm [OF c] by auto
    then show ?thesis using cw ow by (simp add: calm_worker_def)
  qed
  ultimately show ?thesis using ok by (auto simp: worker_ok_def bound_job_def)
qed

lemma thread_step_worker:
  assumes ok: "workers_ok c js as cap nx (dv_workers s)" and w: "w \<in> set (dv_workers s)"
    and msg: "wk_inbox w = msg # rest" "wk_thread w = Th_Waiting"
    and r: "thread_round E net (dv_rules s) (wk_id w) msg = (st, sent, acks)"
  shows "thread_step E net (wk_id w) s = s\<lparr>dv_workers := replace w (w\<lparr>wk_inbox := rest, wk_thread := st\<rparr>) (dv_workers s),
    dv_sent := dv_sent s @ sent, dv_acks := dv_acks s @ acks\<rparr>"
  using find_worker(1) [OF ok w] update_one(1) [OF ok w, of "\<lambda>w. w\<lparr>wk_inbox := rest, wk_thread := st\<rparr>"] msg r
  by (simp add: thread_step_def worker_of_def upd_worker_def)

lemma thread_step_idle:
  assumes ok: "workers_ok c js as cap nx (dv_workers s)"
    and none: "\<not> (\<exists>w\<in>set (dv_workers s). wk_id w = i \<and> wk_inbox w \<noteq> [] \<and> wk_thread w = Th_Waiting)"
  shows "thread_step E net i s = s"
proof (cases "worker_of i s")
  case (Some w)
  then have "w \<in> set (dv_workers s)" "wk_id w = i" by (auto simp: worker_of_def find_Some_iff)
  then show ?thesis using none Some by (auto simp: thread_step_def split: list.split)
qed (simp add: thread_step_def)

lemma served_iff: "served js ws \<longleftrightarrow> (\<forall>j\<in>set js. dj_state j = DJ_Running \<longrightarrow> Some (dj_ref j) \<in> wk_job ` set ws)"
  unfolding served_def image_iff by (simp add: eq_commute)

lemma thread_step_ok:
  assumes inv: "dm_inv c G s"
    and calm: "c \<Longrightarrow> net = Net_Ok \<and> (\<forall>d. G d \<longrightarrow> process_device E (dv_rules s) d \<noteq> None)"
  shows "dm_inv c G (thread_step E net i s)"
proof (cases "\<exists>w\<in>set (dv_workers s). wk_id w = i \<and> wk_inbox w \<noteq> [] \<and> wk_thread w = Th_Waiting")
  case True
  then obtain w msg rest where w: "w \<in> set (dv_workers s)" "i = wk_id w" "wk_inbox w = msg # rest" "wk_thread w = Th_Waiting"
    by (auto simp: neq_Nil_conv)
  have ok: "workers_ok c (dv_jobs s) (dv_acks s) (dv_capacity s) (dv_next s) (dv_workers s)" "acks_ok (dv_acks s) (dv_workers s)"
    using inv by (simp_all add: dm_inv_def queue_inv_def)
  obtain st sent acks where r: "thread_round E net (dv_rules s) (wk_id w) msg = (st, sent, acks)"
    by (cases "thread_round E net (dv_rules s) (wk_id w) msg") auto
  let ?v = "w\<lparr>wk_inbox := rest, wk_thread := st\<rparr>"
  have ack: "\<forall>a\<in>set acks. a = [] \<or> a = finished_ack (wk_id w) \<or> a = killed_ack (wk_id w)" using thread_round_ok(1) [OF r] by auto
  have G: "\<forall>j\<in>set (dv_jobs s). G (dj_device j)" if c using inv that by (simp add: dm_inv_def queue_inv_def)
  have "worker_ok c (dv_jobs s) (dv_acks s) w" using ok(1) w(1) by (simp add: workers_ok_def)
  then have v: "worker_ok c (dv_jobs s) (dv_acks s @ acks) ?v"
    using round_worker_ok [OF _ w(3,4) r] calm G by blast
  have o: "worker_ok c (dv_jobs s) (dv_acks s @ acks) x" if x: "x \<in> set (dv_workers s)" "x \<noteq> w" for x
  proof (rule worker_ok_mentions)
    show "worker_ok c (dv_jobs s) (dv_acks s) x" using ok(1) x(1) by (simp add: workers_ok_def)
    show "mentions (wk_id x) acks = []" using mentions_other [OF ack] unique_worker(1) [OF ok(1) w(1) x(1)] x(2) by blast
  qed
  have wo: "workers_ok c (dv_jobs s) (dv_acks s @ acks) (dv_capacity s) (dv_next s) (replace w ?v (dv_workers s))"
    using v o by (intro workers_ok_replace [OF ok(1) w(1)]) simp_all
  have "acks_ok (dv_acks s @ acks) (dv_workers s)" using ok(2) ack w(1) by (auto simp: acks_ok_def)
  then have ao: "acks_ok (dv_acks s @ acks) (replace w ?v (dv_workers s))" by (rule acks_ok_replace) simp
  have "served (dv_jobs s) (replace w ?v (dv_workers s))" if c
  proof -
    have "wk_job ` set (replace w ?v (dv_workers s)) = wk_job ` set (dv_workers s)"
      by (metis list.set_map replace_same worker.surjective worker.update_convs(5,6) worker.select_convs(4))
    moreover have "served (dv_jobs s) (dv_workers s)" using inv that by (simp add: dm_inv_def queue_inv_def)
    ultimately show ?thesis by (simp add: served_iff)
  qed
  then show ?thesis
    using inv wo ao unfolding w(2) thread_step_worker [OF ok(1) w(1,3,4) r] by (simp add: dm_inv_def queue_inv_def)
next
  case False
  then show ?thesis using thread_step_idle [OF _ False] inv by (auto simp: dm_inv_def queue_inv_def)
qed


section \<open>The manager never panics\<close>

text \<open>What is asked of an event. Messages of the kernel can be decoded, commands are \<open>test\<close> and \<open>kill\<close> with an argument;
  for a calm run there are no kills, the devices are ones that the rules process without a panic, and the
  network of the threads works.\<close>

definition event_ok :: "bool \<Rightarrow> (device \<Rightarrow> bool) \<Rightarrow> 're rules \<Rightarrow> dm_event \<Rightarrow> bool" where
  "event_ok c G rules e \<longleftrightarrow> (case e of
       Ev_Uevent E r \<Rightarrow> (case receive_device E r of None \<Rightarrow> False | Some (Inl _) \<Rightarrow> True | Some (Inr d) \<Rightarrow> c \<longrightarrow> G d)
     | Ev_Control command now \<Rightarrow> (case split_on CHR '' '' command of
           kind # devname # _ \<Rightarrow> kind = ''test'' \<and> (c \<longrightarrow> G (device_new\<lparr>d_devname := devname, d_seqnum := now mod 1000\<rparr>)) \<or>
             kind = ''kill'' \<and> \<not> c
         | _ \<Rightarrow> False)
     | Ev_KillTimer \<Rightarrow> True
     | Ev_Listener \<Rightarrow> True
     | Ev_Thread E net i \<Rightarrow> c \<longrightarrow> net = Net_Ok \<and> (\<forall>d. G d \<longrightarrow> process_device E rules d \<noteq> None))"

definition good_state :: "bool \<Rightarrow> (device \<Rightarrow> bool) \<Rightarrow> 're rules \<Rightarrow> 're devmaster \<Rightarrow> bool" where
  "good_state c G rules s \<longleftrightarrow> dm_inv c G s \<and> dv_rules s = rules \<and> dv_capacity s = 3 \<and> (c \<longrightarrow> saturated (dv_jobs s) s)"

lemma insert_and_start_ok:
  assumes s: "good_state c G rules s" and G: "c \<Longrightarrow> G d" and ord: "\<And>ws. mset (ord ws) = mset ws"
  shows "\<exists>s'. job_queue_start ord (job_queue_insert d s) = Some s' \<and> good_state c G rules s'"
proof -
  have i: "dm_inv c G (job_queue_insert d s)" "same_outside s (job_queue_insert d s)"
    using job_queue_insert_ok [of c G s d] s G by (simp_all add: good_state_def)
  obtain s' where "job_queue_start ord (job_queue_insert d s) = Some s'" "dm_inv c G s'" "saturated (dv_jobs s') s'"
      "same_outside (job_queue_insert d s) s'"
    using job_queue_start_ok [OF ord i(1)] by metis
  then show ?thesis using s i(2) by (simp add: good_state_def same_outside_def)
qed

lemma saturated_thread: "saturated (dv_jobs s) s \<Longrightarrow> saturated (dv_jobs (thread_step E net i s)) (thread_step E net i s)"
proof -
  have "saturated (dv_jobs s) (upd_worker P (\<lambda>w. w\<lparr>wk_inbox := m, wk_thread := t\<rparr>) s)" if "saturated (dv_jobs s) s" for P m t
    using that by (auto simp: saturated_def upd_worker_def)
  then show "saturated (dv_jobs s) s \<Longrightarrow> ?thesis"
    by (auto simp: thread_step_def saturated_def upd_worker_def split: option.split list.split prod.split)
qed

lemma thread_step_same:
  "dv_rules (thread_step E net i s) = dv_rules s" "dv_capacity (thread_step E net i s) = dv_capacity s"
  by (auto simp: thread_step_def upd_worker_def split: option.split list.split prod.split)

lemma kill_each_same: "kill_each l s = Some s' \<Longrightarrow> dv_rules s' = dv_rules s \<and> dv_capacity s' = dv_capacity s"
  by (induction l arbitrary: s) (auto simp: set_worker_state_def send_to_def upd_worker_def split: option.splits)

lemma dm_step_ok:
  assumes s: "good_state c G rules s" and e: "event_ok c G rules e" and ord: "\<And>ws. mset (ord ws) = mset ws"
  shows "\<exists>s'. dm_step ord e s = Some s' \<and> good_state c G rules s'"
proof (cases e)
  case (Ev_Uevent E r)
  then show ?thesis
    using e s insert_and_start_ok [OF s _ ord]
    by (auto simp: event_ok_def uevent_dispatch_def split: option.splits sum.splits)
next
  case (Ev_Control command now)
  then obtain kind devname rest where c: "split_on CHR '' '' command = kind # devname # rest"
    using e by (auto simp: event_ok_def split: list.splits)
  have k: "good_state c G rules (start_kill_workers_timer s)" if "\<not> c"
    using s that by (auto simp: good_state_def start_kill_workers_timer_def dm_inv_def queue_inv_def)
  show ?thesis
    using e c Ev_Control k insert_and_start_ok [OF s _ ord, of "device_new\<lparr>d_devname := devname, d_seqnum := now mod 1000\<rparr>"]
    by (auto simp: event_ok_def cmd_process_def)
next
  case Ev_KillTimer
  obtain s' where s': "kill_timer_dispatch ord s = Some s'" "dm_inv c G s'" "c \<longrightarrow> s' = s"
    using kill_timer_ok [of c G s ord, OF _ ord] s by (auto simp: good_state_def)
  moreover have "dv_rules s' = dv_rules s \<and> dv_capacity s' = dv_capacity s"
    using s'(1) kill_each_same [of "ord (dv_workers s)" "s\<lparr>dv_timer := False\<rparr>" s']
    by (auto simp: kill_timer_dispatch_def manager_kill_workers_def split: if_splits)
  ultimately show ?thesis using Ev_KillTimer s by (auto simp: good_state_def)
next
  case Ev_Listener
  obtain s' where "listener_dispatch ord s = Some s'" "dm_inv c G s'" "c \<Longrightarrow> saturated (dv_jobs s') s'"
      "dv_rules s' = dv_rules s" "dv_capacity s' = dv_capacity s"
    using listener_ok [of c G s ord, OF _ _ ord] s unfolding good_state_def by metis
  then show ?thesis using Ev_Listener s by (simp add: good_state_def)
next
  case (Ev_Thread E net i)
  then show ?thesis
    using e s thread_step_ok [of c G s net E i] saturated_thread [of s E net i]
    by (auto simp: good_state_def event_ok_def thread_step_same)
qed

lemma good_state_new: "good_state c G rules (devmaster_new rules)"
  by (simp add: good_state_def devmaster_new_def dm_inv_def queue_inv_def jobs_ok_def queue_sorted_def workers_ok_def acks_ok_def
      served_def saturated_def)

lemma dm_run_ok:
  "good_state c G rules s \<Longrightarrow> \<forall>e\<in>set es. event_ok c G rules e \<Longrightarrow> (\<And>ws. mset (ord ws) = mset ws) \<Longrightarrow>
    \<exists>s'. dm_run ord es s = Some s' \<and> good_state c G rules s'"
proof (induction es arbitrary: s)
  case (Cons e es)
  from dm_step_ok [OF Cons.prems(1) _ Cons.prems(3)] Cons.prems(2) obtain s' where
    s': "dm_step ord e s = Some s'" "good_state c G rules s'" by auto
  from Cons.IH [OF s'(2) _ Cons.prems(3)] Cons.prems(2) s'(1) show ?case by simp
qed simp



section \<open>Every device is processed\<close>

text \<open>A step that does something: the next acknowledgement, or the next message of a thread.\<close>

definition busy :: "32 word option \<Rightarrow> 're devmaster \<Rightarrow> bool" where
  "busy b s = (case b of
       None \<Rightarrow> dv_acks s \<noteq> []
     | Some i \<Rightarrow> list_ex (\<lambda>w. wk_id w = i \<and> wk_inbox w \<noteq> []) (dv_workers s))"

definition busy_event :: "sysfs \<Rightarrow> 32 word option \<Rightarrow> dm_event" where
  "busy_event E b = (case b of None \<Rightarrow> Ev_Listener | Some i \<Rightarrow> Ev_Thread E Net_Ok i)"

fun busy_run :: "worker_order \<Rightarrow> sysfs \<Rightarrow> 32 word option list \<Rightarrow> 're devmaster \<Rightarrow> 're devmaster option" where
  "busy_run ord E [] s = Some s"
| "busy_run ord E (b # bs) s = (if busy b s then Option.bind (dm_step ord (busy_event E b) s) (busy_run ord E bs) else None)"

lemma thread_progress:
  assumes inv: "dm_inv True G s" and w: "w \<in> set (dv_workers s)" "wk_inbox w \<noteq> []"
    and G: "\<forall>d. G d \<longrightarrow> process_device E (dv_rules s) d \<noteq> None"
  shows "\<exists>d. dv_sent (thread_step E Net_Ok (wk_id w) s) = dv_sent s @ [broadcast_of E (dv_rules s) d] \<and>
      mset (unsent (dv_jobs s) (dv_workers s)) =
        add_mset d (mset (unsent (dv_jobs (thread_step E Net_Ok (wk_id w) s)) (dv_workers (thread_step E Net_Ok (wk_id w) s)))) \<and>
      work_left (dv_jobs (thread_step E Net_Ok (wk_id w) s)) (thread_step E Net_Ok (wk_id w) s) < work_left (dv_jobs s) s"
proof -
  have ok: "workers_ok True (dv_jobs s) (dv_acks s) (dv_capacity s) (dv_next s) (dv_workers s)" and qi: "queue_inv True G (dv_jobs s) s"
    and jo: "jobs_ok (dv_next s) (dv_jobs s)" using inv by (simp_all add: dm_inv_def queue_inv_def)
  have cw: "calm_worker (dv_jobs s) (dv_acks s) w" using ok w(1) by (simp add: workers_ok_def worker_ok_def)
  have "length (wk_inbox w) \<le> 1" using cw by (auto simp: calm_worker_def owed_def split: if_splits)
  then obtain msg where m: "wk_inbox w = [msg]" using w(2) by (cases "wk_inbox w") auto
  then obtain j where j: "j \<in> set (dv_jobs s)" "wk_job w = Some (dj_ref j)" "msg = Msg_Job (dj_device j)"
    using cw by (auto simp: calm_worker_def)
  have th: "wk_thread w = Th_Waiting" using cw by (simp add: calm_worker_def)
  have Gj: "process_device E (dv_rules s) (dj_device j) \<noteq> None" using G qi j(1) by (simp add: queue_inv_def)
  obtain st sent acks where r: "thread_round E Net_Ok (dv_rules s) (wk_id w) msg = (st, sent, acks)"
    by (cases "thread_round E Net_Ok (dv_rules s) (wk_id w) msg") auto
  have ra: "st = Th_Waiting" "sent = [broadcast_of E (dv_rules s) (dj_device j)]" "acks = [finished_ack (wk_id w)]"
    using thread_round_ok(3) [OF r j(3) refl Gj] by simp_all
  let ?v = "w\<lparr>wk_inbox := [], wk_thread := st\<rparr>"
  let ?ws = "replace w ?v (dv_workers s)"
  have t: "thread_step E Net_Ok (wk_id w) s = s\<lparr>dv_workers := ?ws, dv_sent := dv_sent s @ sent, dv_acks := dv_acks s @ acks\<rparr>"
    by (rule thread_step_worker [OF ok w(1) m th r])
  obtain pre post where js: "dv_jobs s = pre @ j # post" using split_list [OF j(1)] by blast
  have refs: "dj_ref i \<noteq> dj_ref j" if "i \<in> set pre \<union> set post" for i
    using jo that unfolding js jobs_ok_def by (auto simp: image_iff)
  have other: "is_sent ?ws i = is_sent (dv_workers s) i" if "i \<in> set pre \<union> set post" for i
    using refs [OF that] w(1) j(2) by (auto simp: is_sent_def set_replace)
  have "\<not> is_sent (dv_workers s) j"
  proof
    assume "is_sent (dv_workers s) j"
    then obtain v where v: "v \<in> set (dv_workers s)" "wk_job v = Some (dj_ref j)" "wk_inbox v = []" by (auto simp: is_sent_def)
    obtain y z where "y \<in> set (dv_jobs s)" "dj_ref y = dj_ref j" "dj_worker y = Some (wk_ref v)"
        "z \<in> set (dv_jobs s)" "dj_ref z = dj_ref j" "dj_worker z = Some (wk_ref w)"
      using queue_inv_bound [OF qi v(1,2)] queue_inv_bound [OF qi w(1) j(2)] by blast
    moreover have "inj_on dj_ref (set (dv_jobs s))" using jo by (simp add: jobs_ok_def distinct_map)
    ultimately have "wk_ref v = wk_ref w" by (metis inj_onD option.inject)
    then show False using unique_worker(2) [OF ok w(1) v(1)] v(3) m by simp
  qed
  moreover have "is_sent ?ws j" using w(1) j(2) by (auto simp: is_sent_def set_replace intro!: bexI [of _ ?v])
  ultimately have u: "mset (unsent (dv_jobs s) (dv_workers s)) = add_mset (dj_device j) (mset (unsent (dv_jobs s) ?ws))"
    unfolding js unsent_def using other by (auto cong: filter_cong)
  have ds: "distinct (dv_workers s)" using ok by (auto simp: workers_ok_def distinct_map)
  have "work_left (dv_jobs s) (s\<lparr>dv_workers := ?ws, dv_sent := dv_sent s @ sent, dv_acks := dv_acks s @ acks\<rparr>) < work_left (dv_jobs s) s"
    using sum_list_replace [OF ds w(1), of "\<lambda>w. length (wk_inbox w)" ?v] m ra(3) by (simp add: work_left_def)
  then show ?thesis unfolding t using u ra(2) by (intro exI [of _ "dj_device j"]) simp
qed

lemma busy_step:
  assumes s: "good_state True G rules s" and b: "busy b s" and G: "\<forall>d. G d \<longrightarrow> process_device E rules d \<noteq> None"
    and ord: "\<And>ws. mset (ord ws) = mset ws"
  obtains s' where "dm_step ord (busy_event E b) s = Some s'" "good_state True G rules s'"
    "work_left (dv_jobs s') s' < work_left (dv_jobs s) s"
    "mset (dv_sent s') + mset (map (broadcast_of E rules) (unsent (dv_jobs s') (dv_workers s'))) =
      mset (dv_sent s) + mset (map (broadcast_of E rules) (unsent (dv_jobs s) (dv_workers s)))"
proof -
  have inv: "dm_inv True G s" "saturated (dv_jobs s) s" "dv_rules s = rules" using s by (simp_all add: good_state_def)
  have "event_ok True G rules (busy_event E b)" using G by (cases b) (simp_all add: event_ok_def busy_event_def)
  from dm_step_ok [OF s this ord] obtain s' where s': "dm_step ord (busy_event E b) s = Some s'" "good_state True G rules s'" by blast
  show ?thesis
  proof (cases b)
    case None
    obtain s2 where "listener_dispatch ord s = Some s2" "dv_sent s2 = dv_sent s"
        "unsent (dv_jobs s2) (dv_workers s2) = unsent (dv_jobs s) (dv_workers s)"
        "dv_acks s \<noteq> [] \<Longrightarrow> work_left (dv_jobs s2) s2 < work_left (dv_jobs s) s"
      using listener_ok [OF inv(1) inv(2) ord] by metis
    then show ?thesis using that [OF s'] s'(1) b None by (simp add: busy_def busy_event_def)
  next
    case (Some i)
    then obtain w where w: "w \<in> set (dv_workers s)" "wk_id w = i" "wk_inbox w \<noteq> []"
      using b by (auto simp: busy_def list_ex_iff)
    have e: "s' = thread_step E Net_Ok (wk_id w) s" using s'(1) Some w(2) by (simp add: busy_event_def)
    from thread_progress [OF inv(1) w(1,3)] G inv(3) obtain d where
      "dv_sent s' = dv_sent s @ [broadcast_of E rules d]"
      "mset (unsent (dv_jobs s) (dv_workers s)) = add_mset d (mset (unsent (dv_jobs s') (dv_workers s')))"
      "work_left (dv_jobs s') s' < work_left (dv_jobs s) s" unfolding e by blast
    then show ?thesis using that [OF s'] by simp
  qed
qed

lemma busy_or_done:
  assumes s: "good_state True G rules s" and j: "dv_jobs s \<noteq> []"
  shows "\<exists>b. busy b s"
proof (rule ccontr)
  assume n: "\<not> (\<exists>b. busy b s)"
  have ok: "workers_ok True (dv_jobs s) (dv_acks s) (dv_capacity s) (dv_next s) (dv_workers s)"
      "served (dv_jobs s) (dv_workers s)" "jobs_ok (dv_next s) (dv_jobs s)" "dv_capacity s = 3" "saturated (dv_jobs s) s"
    using s by (auto simp: good_state_def dm_inv_def queue_inv_def)
  have as: "dv_acks s = []" using n busy_def [of None s] by auto
  have box: "wk_inbox w = []" if "w \<in> set (dv_workers s)" for w
    using n busy_def [of "Some (wk_id w)" s] that by (auto simp: list_ex_iff)
  have idle: "wk_job w = None \<and> wk_state w = WS_Idle" if w: "w \<in> set (dv_workers s)" for w
  proof -
    have wo: "worker_ok True (dv_jobs s) [] w" using ok(1) w as by (simp add: workers_ok_def)
    then have "wk_job w = None" using box [OF w] by (simp add: worker_ok_def calm_worker_def owed_def split: if_splits)
    then show ?thesis using wo by (auto simp: worker_ok_def calm_worker_def)
  qed
  obtain y where y: "y \<in> set (dv_jobs s)" using j by (cases "dv_jobs s") auto
  then have "dj_state y \<noteq> DJ_Running" using ok(2) idle by (fastforce simp: served_def)
  then have "dj_state y = DJ_Queued" using ok(3) y by (cases "dj_state y") (auto simp: jobs_ok_def devjob_ok_def)
  then have "length (dv_workers s) = 3" "\<forall>w\<in>set (dv_workers s). wk_state w \<noteq> WS_Idle"
    using ok(4,5) y by (auto simp: saturated_def)
  then show False using idle by (cases "dv_workers s") auto
qed

lemma busy_run_ok:
  assumes G: "\<forall>d. G d \<longrightarrow> process_device E rules d \<noteq> None" and ord: "\<And>ws. mset (ord ws) = mset ws"
  shows "good_state True G rules s \<Longrightarrow> busy_run ord E bs s = Some s' \<Longrightarrow> good_state True G rules s' \<and>
     length bs + work_left (dv_jobs s') s' \<le> work_left (dv_jobs s) s \<and>
     mset (dv_sent s') + mset (map (broadcast_of E rules) (unsent (dv_jobs s') (dv_workers s'))) =
      mset (dv_sent s) + mset (map (broadcast_of E rules) (unsent (dv_jobs s) (dv_workers s)))"
proof (induction bs arbitrary: s)
  case (Cons b bs)
  then have b: "busy b s" by (simp split: if_splits)
  obtain s1 where s1: "dm_step ord (busy_event E b) s = Some s1" "good_state True G rules s1"
      "work_left (dv_jobs s1) s1 < work_left (dv_jobs s) s"
      "mset (dv_sent s1) + mset (map (broadcast_of E rules) (unsent (dv_jobs s1) (dv_workers s1))) =
        mset (dv_sent s) + mset (map (broadcast_of E rules) (unsent (dv_jobs s) (dv_workers s)))"
    using busy_step [OF Cons.prems(1) b G ord] .
  have "busy_run ord E bs s1 = Some s'" using Cons.prems(2) b s1(1) by simp
  from Cons.IH [OF s1(2) this] s1(3,4) show ?case by auto
qed simp

text \<open>(C28) Every accepted device is processed and broadcast exactly once. After any run without kills and without
  failures of the network, for devices that the rules process without a panic, in whatever order the acknowledgements and the
  messages in the channels are then handled: a step is possible as long as the queue holds a job, there are at most
  \<open>work_left\<close> steps, and when the queue is empty the messages that were broadcast in between are exactly the
  results of the devices that had not been broadcast before.\<close>

theorem devmaster_processes_all:
  assumes ord: "\<And>ws. mset (ord ws) = mset ws" and es: "\<forall>e\<in>set es. event_ok True G rules e"
    and run: "dm_run ord es (devmaster_new rules) = Some s" and G: "\<forall>d. G d \<longrightarrow> process_device E rules d \<noteq> None"
    and bs: "busy_run ord E bs s = Some s'"
  shows "length bs \<le> work_left (dv_jobs s) s \<and>
     (dv_jobs s' \<noteq> [] \<longrightarrow> (\<exists>b s''. busy_run ord E (bs @ [b]) s = Some s'')) \<and>
     (dv_jobs s' = [] \<longrightarrow>
        mset (dv_sent s') = mset (dv_sent s) + mset (map (broadcast_of E rules) (unsent (dv_jobs s) (dv_workers s))))"
proof -
  have s: "good_state True G rules s" using dm_run_ok [OF good_state_new es ord] run by auto
  from busy_run_ok [OF G ord s bs] have s': "good_state True G rules s'" "length bs \<le> work_left (dv_jobs s) s"
    "mset (dv_sent s') + mset (map (broadcast_of E rules) (unsent (dv_jobs s') (dv_workers s'))) =
      mset (dv_sent s) + mset (map (broadcast_of E rules) (unsent (dv_jobs s) (dv_workers s)))" by simp_all
  have app: "busy_run ord E (bs @ [b]) s = busy_run ord E [b] s'" for b
    using bs by (induction bs arbitrary: s) (auto split: if_splits bind_splits)
  have "\<exists>b s''. busy_run ord E (bs @ [b]) s = Some s''" if ne: "dv_jobs s' \<noteq> []"
  proof -
    obtain b where b: "busy b s'" using busy_or_done [OF s'(1) ne] by blast
    obtain s'' where "dm_step ord (busy_event E b) s' = Some s''" using busy_step [OF s'(1) b G ord] by blast
    then show ?thesis using b by (intro exI [of _ b] exI [of _ s'']) (simp add: app)
  qed
  moreover have "unsent [] ws = []" for ws by (simp add: unsent_def)
  ultimately show ?thesis using s'(2,3) by auto
qed


section \<open>Concrete runs\<close>

definition demo_events :: "dm_event list" where
  "demo_events = [Ev_Uevent demo_sysfs (Inr (device_message demo_msg 0)), Ev_Control ''kill all'' 0, Ev_KillTimer,
     Ev_Thread demo_sysfs Net_Ok 0, Ev_Thread demo_sysfs Net_NoWrite 0, Ev_Listener, Ev_Listener]"

lemma demo_message_received: "receive_device demo_sysfs (Inr (device_message demo_msg 0)) = Some (Inr demo_device)"
  using receive_own_message [of demo_msg demo_sysfs 0] demo_received by (simp add: demo_msg_def RECV_SIZE_def)

lemma demo_events_ok: "\<forall>e\<in>set demo_events. event_ok False (\<lambda>_. True) demo_rules e"
  by (simp add: demo_events_def event_ok_def demo_message_received)


text \<open>For evaluation the bytes of a length are computed on binary numbers.\<close>

lemma to_be_bytes_code [code]: "to_be_bytes n = map (\<lambda>i. nat (int n div 256 ^ i mod 256)) (rev [0..<8])"
proof -
  have "n div 256 ^ i mod 256 = nat (int n div 256 ^ i mod 256)" for i
    using nat_int [of "n div 256 ^ i mod 256"] by (simp add: zdiv_int zmod_int)
  then show ?thesis by (simp add: to_be_bytes_def)
qed

text \<open>Rules that consist of one file without lines.\<close>

definition empty_rules :: "string rules" where
  "empty_rules = the (add_file (file_new ''a.rules'') (rules_new [] Resolve_Early))"

definition demo_test :: "string \<Rightarrow> u64 \<Rightarrow> dm_event" where
  "demo_test name n = Ev_Control (''test '' @ name) n"

definition demo_test_device :: device where
  "demo_test_device = device_new\<lparr>d_devname := ''x'', d_seqnum := 7\<rparr>"

definition demo_queue :: "string devmaster" where
  "demo_queue = the (dm_run (\<lambda>ws. ws) [demo_test ''x'' 7] (devmaster_new empty_rules))"

definition demo_drained :: "string devmaster" where
  "demo_drained = the (busy_run (\<lambda>ws. ws) demo_sysfs [Some 0, None] demo_queue)"

lemma demo_queue_run: "dm_run (\<lambda>ws. ws) [demo_test ''x'' 7] (devmaster_new empty_rules) = Some demo_queue"
proof -
  have "dm_run (\<lambda>ws. ws) [demo_test ''x'' 7] (devmaster_new empty_rules) \<noteq> None" by code_simp
  then show ?thesis by (simp add: demo_queue_def)
qed

lemma demo_drained_run: "busy_run (\<lambda>ws. ws) demo_sysfs [Some 0, None] demo_queue = Some demo_drained"
proof -
  have "busy_run (\<lambda>ws. ws) demo_sysfs [Some 0, None] demo_queue \<noteq> None" by code_simp
  then show ?thesis by (simp add: demo_drained_def)
qed

lemma demo_test_processed: "process_device demo_sysfs empty_rules demo_test_device \<noteq> None"
  by code_simp

lemma demo_drained_done: "dv_jobs demo_drained = []" "length (dv_sent demo_drained) = 1"
  by code_simp+

lemma demo_test_ok: "\<forall>e\<in>set [demo_test ''x'' 7]. event_ok True (\<lambda>d. d = demo_test_device) empty_rules e"
  by (simp add: demo_test_def demo_test_device_def event_ok_def)

theorem devmaster_processes_all_witness:
  "dv_jobs demo_drained = [] \<and> length [Some (0 :: 32 word), None] \<le> work_left (dv_jobs demo_queue) demo_queue \<and>
     mset (dv_sent demo_drained) = mset (dv_sent demo_queue) +
       mset (map (broadcast_of demo_sysfs empty_rules) (unsent (dv_jobs demo_queue) (dv_workers demo_queue)))"
  using devmaster_processes_all [OF refl demo_test_ok demo_queue_run _ demo_drained_run] demo_test_processed demo_drained_done(1)
  by simp

section \<open>What goes wrong\<close>

text \<open>A worker that was told to end while it runs a job is idle again when the job is finished; the next job is sent behind
  the message that ends the thread. It stays in the queue as running, with no worker left.\<close>

definition demo_kill :: "dm_event list" where
  "demo_kill = [demo_test ''a'' 1, demo_test ''b'' 2, demo_test ''c'' 3, demo_test ''d'' 4, Ev_Control ''kill all'' 0, Ev_KillTimer,
     Ev_Thread demo_sysfs Net_Ok 0, Ev_Listener, Ev_Thread demo_sysfs Net_Ok 0, Ev_Listener]"

lemma killed_worker_loses_job:
  "map_option (\<lambda>s. (map (\<lambda>j. (dj_seqnum j, dj_state j, dj_worker j)) (dv_jobs s), map (\<lambda>w. (wk_id w, wk_ref w)) (dv_workers s)))
     (dm_run (\<lambda>ws. ws) demo_kill (devmaster_new empty_rules)) =
   Some ([(2, DJ_Running, Some 3), (3, DJ_Running, Some 5), (4, DJ_Running, Some 1)], [(1, 3), (2, 5)])"
  by code_simp

text \<open>Anyone who connects to the listener with two words makes the manager panic, and so does a command of one word.\<close>

lemma unknown_ack_panics: "worker_response_dispose ord ''hello 1'' s = None"
  by (simp add: worker_response_dispose_def split: option.split)

lemma unknown_worker_panics: "worker_of 7 s = None \<Longrightarrow> worker_response_dispose ord (finished_ack 7) s = None"
  using parse_u32_digits [of 7] by (simp add: worker_response_dispose_def worker_finished_def)

lemma short_command_panics: "cmd_process ord ''kill'' now s = None"
  by (simp add: cmd_process_def)

end
