(* ===== verification/Dev_Enumerate.thy ===== *)
theory Dev_Enumerate
  imports Dev_Device_Inv
begin

text \<open>
  The enumeration of devices and subsystems below \<open>/sys\<close>
  (\<open>src/libs/device/src/device_enumerator.rs\<close>, \<open>src/libs/device/src/utils.rs\<close>). A device is shared between the
  enumerator and the devices that have it as their parent; it is a cell of a heap, kept with the address of its cached
  parent. Directories, glob patterns and regular expressions are operations of the environment, as is the order in
  which a hash map or set is iterated. Walking to the parents and into the directories has a bound.
\<close>

section \<open>The enumerator\<close>

datatype file_kind = Kind_Dir | Kind_Symlink | Kind_Other

record dirent =
  de_name :: string
  de_path :: string
  de_type :: "io_error + file_kind"

record enum_env =
  ev_sys :: sysfs
  ev_read_dir :: "string \<Rightarrow> io_error + (io_error + dirent) list"
  ev_glob :: "string \<Rightarrow> (string \<Rightarrow> bool) option"
  ev_regex :: "string \<Rightarrow> (string \<Rightarrow> bool) option"
  ev_order :: "string list \<Rightarrow> string list"
  ev_bound :: nat

datatype filter_type = Filter_Glob | Filter_Regular

datatype match_initialized_type = Init_No | Init_Yes | Init_ALL | Init_Compat

datatype enumeration_type = Enum_Devices | Enum_Subsystems | Enum_All

record enumerator =
  en_etype :: enumeration_type
  en_by_syspath :: "(string \<times> nat) list"
  en_devices :: "nat list"
  en_scan_up_to_date :: bool
  en_sorted :: bool
  en_prioritized_subsystems :: "string list"
  en_match_subsystem :: "string list"
  en_not_match_subsystem :: "string list"
  en_match_sysattr :: "(string \<times> string list) list"
  en_not_match_sysattr :: "(string \<times> string list) list"
  en_match_property :: "(string \<times> string) list"
  en_match_sysname :: "string list"
  en_not_match_sysname :: "string list"
  en_match_tag :: "string list"
  en_match_parent :: "string list"
  en_match_initialized :: match_initialized_type
  en_filter_type :: filter_type
  en_heap :: "(device \<times> nat option) list"

type_synonym 'a em = "(enumerator, 'a) dev_m"

definition enumerator_new :: enumerator where
  "enumerator_new = \<lparr>en_etype = Enum_Devices, en_by_syspath = [], en_devices = [], en_scan_up_to_date = False,
     en_sorted = False, en_prioritized_subsystems = [], en_match_subsystem = [], en_not_match_subsystem = [],
     en_match_sysattr = [], en_not_match_sysattr = [], en_match_property = [], en_match_sysname = [],
     en_not_match_sysname = [], en_match_tag = [], en_match_parent = [], en_match_initialized = Init_Compat,
     en_filter_type = Filter_Glob, en_heap = []\<rparr>"

section \<open>Filters\<close>

definition set_enumerator_type :: "enumeration_type \<Rightarrow> enumerator \<Rightarrow> enumerator" where
  "set_enumerator_type t e = (if en_etype e \<noteq> t then e\<lparr>en_scan_up_to_date := False\<rparr> else e)\<lparr>en_etype := t\<rparr>"

definition add_prioritized_subsystem :: "string \<Rightarrow> enumerator \<Rightarrow> enumerator" where
  "add_prioritized_subsystem s e =
     e\<lparr>en_prioritized_subsystems := en_prioritized_subsystems e @ [s], en_scan_up_to_date := False\<rparr>"

definition add_match_subsystem :: "string \<Rightarrow> bool \<Rightarrow> enumerator \<Rightarrow> enumerator" where
  "add_match_subsystem s whether_match e =
     (if whether_match then e\<lparr>en_match_subsystem := List.insert s (en_match_subsystem e)\<rparr>
      else e\<lparr>en_not_match_subsystem := List.insert s (en_not_match_subsystem e)\<rparr>)\<lparr>en_scan_up_to_date := False\<rparr>"

definition add_value :: "string \<Rightarrow> string \<Rightarrow> (string \<times> string list) list \<Rightarrow> (string \<times> string list) list" where
  "add_value k v m = AList.update k (List.insert v (case map_of m k of Some vs \<Rightarrow> vs | None \<Rightarrow> [])) m"

definition add_match_sysattr :: "string \<Rightarrow> string \<Rightarrow> bool \<Rightarrow> enumerator \<Rightarrow> enumerator" where
  "add_match_sysattr k v whether_match e =
     (if whether_match then e\<lparr>en_match_sysattr := add_value k v (en_match_sysattr e)\<rparr>
      else e\<lparr>en_not_match_sysattr := add_value k v (en_not_match_sysattr e)\<rparr>)\<lparr>en_scan_up_to_date := False\<rparr>"

definition add_match_property :: "string \<Rightarrow> string \<Rightarrow> enumerator \<Rightarrow> enumerator" where
  "add_match_property k v e =
     e\<lparr>en_match_property := AList.update k v (en_match_property e), en_scan_up_to_date := False\<rparr>"

definition add_match_sysname :: "string \<Rightarrow> bool \<Rightarrow> enumerator \<Rightarrow> enumerator" where
  "add_match_sysname s whether_match e =
     (if whether_match then e\<lparr>en_match_sysname := List.insert s (en_match_sysname e)\<rparr>
      else e\<lparr>en_not_match_sysname := List.insert s (en_not_match_sysname e)\<rparr>)\<lparr>en_scan_up_to_date := False\<rparr>"

definition add_match_tag :: "string \<Rightarrow> enumerator \<Rightarrow> enumerator" where
  "add_match_tag t e = e\<lparr>en_match_tag := List.insert t (en_match_tag e), en_scan_up_to_date := False\<rparr>"

definition add_match_parent_incremental :: "device \<Rightarrow> unit em" where
  "add_match_parent_incremental parent = (case get_syspath parent of
       None \<Rightarrow> derr EINVAL
     | Some p \<Rightarrow> dput (\<lambda>e. e\<lparr>en_match_parent := List.insert p (en_match_parent e), en_scan_up_to_date := False\<rparr>))"

definition add_match_parent :: "device \<Rightarrow> unit em" where
  "add_match_parent parent = dbind (dput (\<lambda>e. e\<lparr>en_match_parent := []\<rparr>)) (\<lambda>_. add_match_parent_incremental parent)"

definition allow_uninitialized :: "enumerator \<Rightarrow> enumerator" where
  "allow_uninitialized e = e\<lparr>en_match_initialized := Init_ALL, en_scan_up_to_date := False\<rparr>"

definition add_match_is_initialized :: "match_initialized_type \<Rightarrow> enumerator \<Rightarrow> enumerator" where
  "add_match_is_initialized t e = e\<lparr>en_match_initialized := t, en_scan_up_to_date := False\<rparr>"

section \<open>Matching\<close>

definition pattern_match :: "enum_env \<Rightarrow> enumerator \<Rightarrow> string \<Rightarrow> string \<Rightarrow> os_errno + bool" where
  "pattern_match V e pattern value = (
     case (case en_filter_type e of Filter_Glob \<Rightarrow> ev_glob V pattern | Filter_Regular \<Rightarrow> ev_regex V pattern) of
       None \<Rightarrow> Inl EINVAL | Some f \<Rightarrow> Inr (f value))"

fun any_match :: "enum_env \<Rightarrow> enumerator \<Rightarrow> string list \<Rightarrow> string \<Rightarrow> os_errno + bool" where
  "any_match V e [] value = Inr False"
| "any_match V e (p # ps) value = (case pattern_match V e p value of
       Inl err \<Rightarrow> Inl err | Inr True \<Rightarrow> Inr True | Inr False \<Rightarrow> any_match V e ps value)"

definition set_pattern_match :: "enum_env \<Rightarrow> enumerator \<Rightarrow> string list \<Rightarrow> string list \<Rightarrow> string \<Rightarrow> os_errno + bool" where
  "set_pattern_match V e incl excl value = (case any_match V e (ev_order V excl) value of
       Inl err \<Rightarrow> Inl err
     | Inr True \<Rightarrow> Inr False
     | Inr False \<Rightarrow> if incl = [] then Inr True else any_match V e (ev_order V incl) value)"

definition match_sysname :: "enum_env \<Rightarrow> string \<Rightarrow> enumerator \<Rightarrow> os_errno + bool" where
  "match_sysname V s e = set_pattern_match V e (en_match_sysname e) (en_not_match_sysname e) s"

definition match_subsystem :: "enum_env \<Rightarrow> string \<Rightarrow> enumerator \<Rightarrow> os_errno + bool" where
  "match_subsystem V s e = set_pattern_match V e (en_match_subsystem e) (en_not_match_subsystem e) s"

definition match_parent :: "device \<Rightarrow> enumerator \<Rightarrow> bool" where
  "match_parent d e \<longleftrightarrow> en_match_parent e = [] \<or> list_ex (\<lambda>p. starts_with p (d_syspath d)) (en_match_parent e)"

fun property_values :: "enum_env \<Rightarrow> enumerator \<Rightarrow> string \<Rightarrow> string \<Rightarrow> (string \<times> string) list \<Rightarrow> os_errno + bool" where
  "property_values V e kp vp [] = Inr False"
| "property_values V e kp vp ((k, v) # ps) = (case pattern_match V e kp k of
       Inl err \<Rightarrow> Inl err
     | Inr False \<Rightarrow> property_values V e kp vp ps
     | Inr True \<Rightarrow> (case pattern_match V e vp v of
         Inl err \<Rightarrow> Inl err | Inr True \<Rightarrow> Inr True | Inr False \<Rightarrow> property_values V e kp vp ps))"

fun property_patterns :: "enum_env \<Rightarrow> enumerator \<Rightarrow> string list \<Rightarrow> device \<Rightarrow> os_errno + bool" where
  "property_patterns V e [] d = Inr False"
| "property_patterns V e (kp # kps) d = (
     case property_values V e kp (the (map_of (en_match_property e) kp)) (d_properties d) of
       Inl err \<Rightarrow> Inl err | Inr True \<Rightarrow> Inr True | Inr False \<Rightarrow> property_patterns V e kps d)"

definition match_property :: "enum_env \<Rightarrow> device \<Rightarrow> enumerator \<Rightarrow> os_errno + bool" where
  "match_property V d e = (if en_match_property e = [] then Inr True
     else property_patterns V e (ev_order V (map fst (en_match_property e))) d)"

text \<open>The comparison of attributes is not implemented: any filter on them panics. Tags and the initialized state
  are not compared at all.\<close>

definition match_sysattr :: "bool em" where
  "match_sysattr e = (if en_match_sysattr e \<noteq> [] \<or> en_not_match_sysattr e \<noteq> [] then None else Some (Inr True, e))"

definition match_tag :: "bool em" where
  "match_tag = dret True"

definition match_initialized :: "bool em" where
  "match_initialized = dret True"

section \<open>Devices of the heap\<close>

definition dev_at :: "enumerator \<Rightarrow> nat \<Rightarrow> device" where
  "dev_at e a = fst (en_heap e ! a)"

definition on_dev :: "nat \<Rightarrow> 'a dm \<Rightarrow> 'a em" where
  "on_dev a m e = (case m (dev_at e a) of
       None \<Rightarrow> None
     | Some (r, d) \<Rightarrow> Some (r, e\<lparr>en_heap := (en_heap e)[a := (d, snd (en_heap e ! a))]\<rparr>))"

definition alloc_dev :: "device \<Rightarrow> nat em" where
  "alloc_dev d e = Some (Inr (length (en_heap e)), e\<lparr>en_heap := en_heap e @ [(d, None)]\<rparr>)"

definition lift_res :: "os_errno + 'a \<Rightarrow> 'a em" where
  "lift_res r = (case r of Inl err \<Rightarrow> derr err | Inr x \<Rightarrow> dret x)"

definition cell_parent :: "nat \<Rightarrow> nat em" where
  "cell_parent a e = (case snd (en_heap e ! a) of None \<Rightarrow> Some (Inl ENOENT, e) | Some p \<Rightarrow> Some (Inr p, e))"

definition cell_get_parent :: "enum_env \<Rightarrow> nat \<Rightarrow> nat em" where
  "cell_get_parent V a e = (let d = dev_at e a in
     if d_parent_set d then cell_parent a e
     else case new_from_child (ev_sys V) d of
       None \<Rightarrow> None
     | Some (Inr p) \<Rightarrow> cell_parent a
         (e\<lparr>en_heap := (en_heap e)[a := (d\<lparr>d_parent_set := True\<rparr>, Some (length (en_heap e)))] @ [(p, None)]\<rparr>)
     | Some (Inl err) \<Rightarrow>
         if err \<noteq> ENODEV then Some (Inl err, e)
         else cell_parent a (e\<lparr>en_heap := (en_heap e)[a := (d\<lparr>d_parent_set := True\<rparr>, snd (en_heap e ! a))]\<rparr>))"

section \<open>Testing and adding\<close>

definition FLAG_SYSNAME :: "8 word" where "FLAG_SYSNAME = 1"
definition FLAG_SUBSYSTEM :: "8 word" where "FLAG_SUBSYSTEM = 2"
definition FLAG_PARENT :: "8 word" where "FLAG_PARENT = 4"
definition FLAG_TAG :: "8 word" where "FLAG_TAG = 8"
definition FLAG_ALL :: "8 word" where "FLAG_ALL = 15"

definition when_flag :: "bool \<Rightarrow> bool em \<Rightarrow> bool em \<Rightarrow> bool em" where
  "when_flag flag test rest = (if flag then dbind test (\<lambda>b. if b then rest else dret False) else rest)"

definition test_sysname :: "enum_env \<Rightarrow> nat \<Rightarrow> bool em" where
  "test_sysname V a = dbind (on_dev a get_sysname) (\<lambda>n. case n of
       None \<Rightarrow> dpanic | Some s \<Rightarrow> dbind (dget (match_sysname V s)) lift_res)"

definition test_subsystem :: "enum_env \<Rightarrow> nat \<Rightarrow> bool em" where
  "test_subsystem V a = dmatch (on_dev a (get_subsystem (ev_sys V))) (\<lambda>r. case r of
       Inl err \<Rightarrow> if err = ENOENT then dret False else derr err
     | Inr s \<Rightarrow> dbind (dget (match_subsystem V s)) lift_res)"

definition test_matches :: "enum_env \<Rightarrow> nat \<Rightarrow> 8 word \<Rightarrow> bool em" where
  "test_matches V a flags =
     when_flag (flags AND FLAG_SYSNAME \<noteq> 0) (test_sysname V a)
    (when_flag (flags AND FLAG_SUBSYSTEM \<noteq> 0) (test_subsystem V a)
    (when_flag (flags AND FLAG_PARENT \<noteq> 0) (dget (\<lambda>e. match_parent (dev_at e a) e))
    (when_flag (flags AND FLAG_TAG \<noteq> 0) match_tag
    (when_flag True match_initialized
    (when_flag True (dbind (dget (\<lambda>e. match_property V (dev_at e a) e)) lift_res)
    (when_flag True match_sysattr (dret True)))))))"

text \<open>The result tells whether the map already had a device under this path; only then the order is lost.\<close>

definition add_device :: "nat \<Rightarrow> bool em" where
  "add_device a e = (case get_syspath (dev_at e a) of
       None \<Rightarrow> Some (Inl EINVAL, e)
     | Some p \<Rightarrow> (let e' = e\<lparr>en_by_syspath := AList.update p a (en_by_syspath e)\<rparr> in
         case map_of (en_by_syspath e) p of
           Some _ \<Rightarrow> Some (Inr True, e'\<lparr>en_sorted := False\<rparr>)
         | None \<Rightarrow> Some (Inr False, e')))"

fun add_parent_devices :: "nat \<Rightarrow> enum_env \<Rightarrow> nat \<Rightarrow> 8 word \<Rightarrow> unit em" where
  "add_parent_devices 0 V a flags = dpanic"
| "add_parent_devices (Suc n) V a flags = dmatch (cell_get_parent V a) (\<lambda>r. case r of
       Inl err \<Rightarrow> if err = ENOENT then dret () else derr err
     | Inr p \<Rightarrow> dbind (test_matches V p flags) (\<lambda>b.
         if \<not> b then add_parent_devices n V p flags
         else dbind (add_device p) (\<lambda>b. if \<not> b then dret () else add_parent_devices n V p flags)))"

section \<open>Scanning\<close>

definition relevant_sysfs_subdir :: "enum_env \<Rightarrow> dirent \<Rightarrow> bool" where
  "relevant_sysfs_subdir V de = (case fs_canonicalize (ev_sys V) (de_path de) of
       Inl _ \<Rightarrow> False
     | Inr p \<Rightarrow> path_starts_with ''/sys/'' p \<and>
         (case de_type de of Inl _ \<Rightarrow> False | Inr t \<Rightarrow> t = Kind_Dir \<or> t = Kind_Symlink))"

text \<open>\<open>if let Err(e) = .. { ret = Err(e) }\<close>, and the final \<open>ret\<close>.\<close>

definition keep_err :: "'a em \<Rightarrow> os_errno + unit \<Rightarrow> (os_errno + unit) em" where
  "keep_err m ret = dmatch m (\<lambda>r. dret (case r of Inl err \<Rightarrow> Inl err | Inr _ \<Rightarrow> ret))"

fun each_entry :: "('x \<Rightarrow> os_errno + unit \<Rightarrow> (os_errno + unit) em) \<Rightarrow> 'x list \<Rightarrow> os_errno + unit \<Rightarrow> (os_errno + unit) em" where
  "each_entry f [] ret = dret ret"
| "each_entry f (x # xs) ret = dbind (f x ret) (each_entry f xs)"

definition add_found :: "enum_env \<Rightarrow> string \<Rightarrow> os_errno + unit \<Rightarrow> (os_errno + unit) em" where
  "add_found V syspath ret = (case from_syspath (ev_sys V) syspath True of
       None \<Rightarrow> dpanic
     | Some (Inl err) \<Rightarrow> dret (if err \<noteq> ENODEV then Inl err else ret)
     | Some (Inr d) \<Rightarrow> dbind (alloc_dev d) (\<lambda>a.
         dmatch (test_matches V a (FLAG_ALL AND NOT FLAG_SYSNAME)) (\<lambda>r. case r of
             Inl err \<Rightarrow> dret (Inl err)
           | Inr False \<Rightarrow> dret ret
           | Inr True \<Rightarrow> dbind (keep_err (add_device a) ret) (keep_err (add_parent_devices (ev_bound V) V a FLAG_ALL)))))"

definition scan_entry :: "enum_env \<Rightarrow> io_error + dirent \<Rightarrow> os_errno + unit \<Rightarrow> (os_errno + unit) em" where
  "scan_entry V entry ret = (case entry of
       Inl err \<Rightarrow> dret (Inl (io_errno (ev_sys V) err))
     | Inr de \<Rightarrow>
         if \<not> relevant_sysfs_subdir V de then dret ret
         else dbind (dbind (dget (match_sysname V (de_name de))) lift_res) (\<lambda>b.
           if \<not> b then dret ret
           else case fs_canonicalize (ev_sys V) (de_path de) of
             Inl (Some n) \<Rightarrow> dret (if n \<noteq> ENODEV then Inl (os_from_i32 (ev_sys V) n) else ret)
           | Inl None \<Rightarrow> dret ret
           | Inr syspath \<Rightarrow> add_found V syspath ret))"

fun join_path :: "string list \<Rightarrow> string" where
  "join_path [] = []"
| "join_path [x] = x"
| "join_path (x # xs) = x @ ''/'' @ join_path xs"

definition scan_dir_and_add_devices :: "enum_env \<Rightarrow> string \<Rightarrow> string list \<Rightarrow> unit em" where
  "scan_dir_and_add_devices V basedir subdirs = (
     case fs_canonicalize (ev_sys V) (join_path (''/sys'' # basedir # subdirs)) of
       Inl err \<Rightarrow> if io_errno (ev_sys V) err = ENOENT then dret () else derr (io_errno (ev_sys V) err)
     | Inr path \<Rightarrow> (case ev_read_dir V path of
         Inl _ \<Rightarrow> dpanic
       | Inr entries \<Rightarrow> dbind (each_entry (scan_entry V) entries (Inr ())) lift_res))"

definition scan_dir_entry :: "enum_env \<Rightarrow> string \<Rightarrow> string option \<Rightarrow> string option \<Rightarrow> io_error + dirent \<Rightarrow>
    os_errno + unit \<Rightarrow> (os_errno + unit) em" where
  "scan_dir_entry V basedir subdir subsystem entry ret = (case entry of
       Inl err \<Rightarrow> dret (Inl (io_errno (ev_sys V) err))
     | Inr de \<Rightarrow>
         if \<not> relevant_sysfs_subdir V de then dret ret
         else dbind (dget (match_subsystem V (case subsystem of Some s \<Rightarrow> s | None \<Rightarrow> de_name de))) (\<lambda>r.
           if r \<noteq> Inr True then dret ret
           else keep_err (scan_dir_and_add_devices V basedir
                  (de_name de # (case subdir of Some s \<Rightarrow> [s] | None \<Rightarrow> []))) ret))"

definition scan_dir :: "enum_env \<Rightarrow> string \<Rightarrow> string option \<Rightarrow> string option \<Rightarrow> unit em" where
  "scan_dir V basedir subdir subsystem = (case fs_canonicalize (ev_sys V) (''/sys/'' @ basedir) of
       Inl _ \<Rightarrow> derr EINVAL
     | Inr path \<Rightarrow> (case ev_read_dir V path of
         Inl err \<Rightarrow> if err = Some ENOENT then dret () else derr (io_errno (ev_sys V) err)
       | Inr entries \<Rightarrow> dbind (each_entry (scan_dir_entry V basedir subdir subsystem) entries (Inr ())) lift_res))"

definition scan_devices_tags :: "unit em" where
  "scan_devices_tags e = (if en_match_tag e \<noteq> [] then None else Some (Inr (), e))"

definition parent_add_child :: "enum_env \<Rightarrow> string \<Rightarrow> 8 word \<Rightarrow> bool em" where
  "parent_add_child V path flags = (case from_syspath (ev_sys V) path True of
       None \<Rightarrow> dpanic
     | Some (Inl err) \<Rightarrow> derr err
     | Some (Inr d) \<Rightarrow> dbind (alloc_dev d) (\<lambda>a. dbind (test_matches V a flags) (\<lambda>b. if \<not> b then dret False else add_device a)))"

text \<open>Crawling a directory returns its result beside the directories that are still to be crawled.\<close>

definition crawl_entry :: "enum_env \<Rightarrow> io_error + dirent \<Rightarrow> (os_errno + unit) \<times> string list \<Rightarrow> ((os_errno + unit) \<times> string list) em" where
  "crawl_entry V entry acc = (case entry of
       Inl err \<Rightarrow> dret (Inl (io_errno (ev_sys V) err), snd acc)
     | Inr de \<Rightarrow>
         if de_name de = [] \<or> starts_with ''.'' (de_name de) \<or> de_type de \<noteq> Inr Kind_Dir then dret acc
         else case fs_canonicalize (ev_sys V) (de_path de) of
           Inl err \<Rightarrow> dret (Inl (io_errno (ev_sys V) err), snd acc)
         | Inr p \<Rightarrow> dbind (dget (match_sysname V (de_name de))) (\<lambda>r.
             dbind (if r = Inr True
                    then keep_err (parent_add_child V p (FLAG_ALL AND NOT (FLAG_SYSNAME OR FLAG_PARENT))) (fst acc)
                    else dret (fst acc)) (\<lambda>ret. dret (ret, List.insert p (snd acc)))))"

fun crawl_entries :: "enum_env \<Rightarrow> (io_error + dirent) list \<Rightarrow> (os_errno + unit) \<times> string list \<Rightarrow> ((os_errno + unit) \<times> string list) em" where
  "crawl_entries V [] acc = dret acc"
| "crawl_entries V (x # xs) acc = dbind (crawl_entry V x acc) (crawl_entries V xs)"

definition parent_crawl_children :: "enum_env \<Rightarrow> string \<Rightarrow> string list \<Rightarrow> ((os_errno + unit) \<times> string list) em" where
  "parent_crawl_children V path stack = (case ev_read_dir V path of
       Inl err \<Rightarrow> dret (if err = Some ENOENT then (Inr (), stack) else (Inl (io_errno (ev_sys V) err), stack))
     | Inr entries \<Rightarrow> crawl_entries V entries (Inr (), stack))"

definition crawl :: "enum_env \<Rightarrow> string \<Rightarrow> (os_errno + unit) \<times> string list \<Rightarrow> ((os_errno + unit) \<times> string list) em" where
  "crawl V path acc = dbind (parent_crawl_children V path (snd acc)) (\<lambda>(r, stack).
     dret (case r of Inl err \<Rightarrow> Inl err | Inr _ \<Rightarrow> fst acc, stack))"

fun crawl_parents :: "enum_env \<Rightarrow> string list \<Rightarrow> (os_errno + unit) \<times> string list \<Rightarrow> ((os_errno + unit) \<times> string list) em" where
  "crawl_parents V [] acc = dret acc"
| "crawl_parents V (p # ps) acc = dbind (keep_err (parent_add_child V p (FLAG_ALL AND NOT FLAG_PARENT)) (fst acc)) (\<lambda>ret.
     dbind (crawl V p (ret, snd acc)) (crawl_parents V ps))"

fun crawl_stack :: "nat \<Rightarrow> enum_env \<Rightarrow> (os_errno + unit) \<times> string list \<Rightarrow> (os_errno + unit) em" where
  "crawl_stack 0 V acc = dpanic"
| "crawl_stack (Suc n) V acc = (case ev_order V (snd acc) of
       [] \<Rightarrow> dret (fst acc)
     | p # _ \<Rightarrow> dbind (crawl V p (fst acc, remove1 p (snd acc))) (crawl_stack n V))"

definition scan_devices_children :: "enum_env \<Rightarrow> unit em" where
  "scan_devices_children V = dbind (dget (\<lambda>e. ev_order V (en_match_parent e))) (\<lambda>ps.
     dbind (crawl_parents V ps (Inr (), [])) (\<lambda>acc. dbind (crawl_stack (ev_bound V) V acc) lift_res))"

definition scan_devices_all :: "enum_env \<Rightarrow> unit em" where
  "scan_devices_all V =
     dbind (keep_err (scan_dir V ''bus'' (Some ''devices'') None) (Inr ())) (\<lambda>ret.
     dbind (keep_err (scan_dir V ''class'' None None) ret) lift_res)"

definition if_subsystem :: "enum_env \<Rightarrow> string \<Rightarrow> unit em \<Rightarrow> os_errno + unit \<Rightarrow> (os_errno + unit) em" where
  "if_subsystem V s m ret = dbind (dbind (dget (match_subsystem V s)) lift_res) (\<lambda>b. if b then keep_err m ret else dret ret)"

definition scan_subsystems_all :: "enum_env \<Rightarrow> unit em" where
  "scan_subsystems_all V =
     dbind (if_subsystem V ''module'' (scan_dir_and_add_devices V ''module'' []) (Inr ())) (\<lambda>ret.
     dbind (if_subsystem V ''subsystem'' (scan_dir_and_add_devices V ''bus'' []) ret) (\<lambda>ret.
     dbind (if_subsystem V ''drivers'' (scan_dir V ''bus'' (Some ''drivers'') (Some ''drivers'')) ret) lift_res))"

definition clear_devices :: "unit em" where
  "clear_devices = dput (\<lambda>e. e\<lparr>en_by_syspath := [], en_devices := []\<rparr>)"

definition scanned :: "enumeration_type \<Rightarrow> os_errno + unit \<Rightarrow> unit em" where
  "scanned t ret = dbind (dput (\<lambda>e. e\<lparr>en_scan_up_to_date := True, en_etype := t\<rparr>)) (\<lambda>_. lift_res ret)"

definition scan_filtered :: "enum_env \<Rightarrow> (os_errno + unit) em \<Rightarrow> (os_errno + unit) em" where
  "scan_filtered V every = dbind (dget (\<lambda>e. (en_match_tag e \<noteq> [], en_match_parent e \<noteq> []))) (\<lambda>(tags, parents).
     if tags then keep_err scan_devices_tags (Inr ())
     else if parents then keep_err (scan_devices_children V) (Inr ())
     else every)"

definition scan_devices :: "enum_env \<Rightarrow> unit em" where
  "scan_devices V = dbind (dget (\<lambda>e. en_scan_up_to_date e \<and> en_etype e = Enum_Devices)) (\<lambda>fresh.
     if fresh then dret ()
     else dbind clear_devices (\<lambda>_. dbind (scan_filtered V (keep_err (scan_devices_all V) (Inr ()))) (scanned Enum_Devices)))"

definition scan_subsystems :: "enum_env \<Rightarrow> unit em" where
  "scan_subsystems V = dbind (dget (\<lambda>e. en_scan_up_to_date e \<and> en_etype e = Enum_Subsystems)) (\<lambda>fresh.
     if fresh then dret ()
     else dbind clear_devices (\<lambda>_. dbind (keep_err (scan_subsystems_all V) (Inr ())) (scanned Enum_Subsystems)))"

definition scan_devices_and_subsystems :: "enum_env \<Rightarrow> unit em" where
  "scan_devices_and_subsystems V = dbind (dget (\<lambda>e. en_scan_up_to_date e \<and> en_etype e = Enum_All)) (\<lambda>fresh.
     if fresh then dret ()
     else dbind clear_devices (\<lambda>_. dbind (scan_filtered V (dbind (keep_err (scan_devices_all V) (Inr ()))
            (keep_err (scan_subsystems_all V)))) (scanned Enum_All)))"


section \<open>Sorting\<close>

datatype ordering = Ord_Less | Ord_Equal | Ord_Greater

definition cmp_of :: "'a::linorder \<Rightarrow> 'a \<Rightarrow> ordering" where
  "cmp_of a b = (if a < b then Ord_Less else if b < a then Ord_Greater else Ord_Equal)"

definition find_sub :: "string \<Rightarrow> string \<Rightarrow> nat option" where
  "find_sub p s = find (\<lambda>i. starts_with p (drop i s)) [0..<Suc (length s)]"

definition sound_device_compare :: "string \<Rightarrow> string \<Rightarrow> ordering" where
  "sound_device_compare a b = (case find_sub ''/sound/card'' a of
       None \<Rightarrow> Ord_Equal
     | Some i \<Rightarrow> (case find_sub ''/'' (drop (i + length ''/sound/card'') a) of
         None \<Rightarrow> Ord_Equal
       | Some k \<Rightarrow> (let n = i + k in
           if length b < n \<or> take n a \<noteq> take n b then Ord_Equal
           else cmp_of (str_contains ''/controlC'' (drop n a)) (str_contains ''/controlC'' (drop n b)))))"

definition devpath_is_late_block :: "string \<Rightarrow> bool" where
  "devpath_is_late_block p \<longleftrightarrow> str_contains ''/block/md'' p \<or> str_contains ''/block/dm-'' p"

definition device_compare :: "device \<Rightarrow> device \<Rightarrow> ordering option" where
  "device_compare x y = (case (get_devpath x, get_devpath y) of
       (Some a, Some b) \<Rightarrow> Some (
         if sound_device_compare a b \<noteq> Ord_Equal then sound_device_compare a b
         else if cmp_of (devpath_is_late_block a) (devpath_is_late_block b) \<noteq> Ord_Equal
         then cmp_of (devpath_is_late_block a) (devpath_is_late_block b)
         else cmp_of a b)
     | _ \<Rightarrow> None)"

text \<open>\<open>sort_by\<close>: a stable sort by a comparison that may panic. For a comparison that is no order the library promises
  only some permutation; this is one of them.\<close>

fun insert_by :: "('x \<Rightarrow> 'x \<Rightarrow> ordering option) \<Rightarrow> 'x \<Rightarrow> 'x list \<Rightarrow> 'x list option" where
  "insert_by cmp x [] = Some [x]"
| "insert_by cmp x (y # ys) = (case cmp x y of
       None \<Rightarrow> None
     | Some Ord_Greater \<Rightarrow> map_option ((#) y) (insert_by cmp x ys)
     | Some _ \<Rightarrow> Some (x # y # ys))"

fun sort_by :: "('x \<Rightarrow> 'x \<Rightarrow> ordering option) \<Rightarrow> 'x list \<Rightarrow> 'x list option" where
  "sort_by cmp [] = Some []"
| "sort_by cmp (x # xs) = Option.bind (sort_by cmp xs) (insert_by cmp x)"

definition sort_from :: "nat \<Rightarrow> nat list \<Rightarrow> nat list em" where
  "sort_from n ds e = map_option (\<lambda>xs. (Inr (take n ds @ xs), e))
     (sort_by (\<lambda>a b. device_compare (dev_at e a) (dev_at e b)) (drop n ds))"

function ancestors :: "(string \<times> nat) list \<Rightarrow> string \<Rightarrow> nat list" where
  "ancestors m p = (case path_parent p of
       None \<Rightarrow> []
     | Some q \<Rightarrow> (case map_of m q of None \<Rightarrow> [] | Some a \<Rightarrow> a # ancestors m q))"
  by pat_completeness auto
termination
  by (relation "measure (\<lambda>(m, p). length p)") (auto dest: path_parent_shorter)

declare ancestors.simps [simp del]

fun find_prioritized :: "enum_env \<Rightarrow> string \<Rightarrow> string list \<Rightarrow> nat list em" where
  "find_prioritized V sub [] = dret []"
| "find_prioritized V sub (k # ks) = dbind (dget (\<lambda>e. the (map_of (en_by_syspath e) k))) (\<lambda>a.
     dmatch (on_dev a (get_subsystem (ev_sys V))) (\<lambda>r.
       if r \<noteq> Inr sub then find_prioritized V sub ks
       else dget (\<lambda>e. a # ancestors (en_by_syspath e) k)))"

definition remove_device :: "nat \<Rightarrow> unit em" where
  "remove_device a e = (case get_syspath (dev_at e a) of
       None \<Rightarrow> Some (Inl EINVAL, e)
     | Some p \<Rightarrow> Some (Inr (), e\<lparr>en_by_syspath := AList.delete p (en_by_syspath e)\<rparr>))"

fun take_prioritized :: "nat \<Rightarrow> enum_env \<Rightarrow> string \<Rightarrow> nat list \<Rightarrow> nat list em" where
  "take_prioritized 0 V sub ds = dpanic"
| "take_prioritized (Suc n) V sub ds = dbind (dget (\<lambda>e. ev_order V (map fst (en_by_syspath e)))) (\<lambda>ks.
     dbind (find_prioritized V sub ks) (\<lambda>new.
     dbind (dfold remove_device new) (\<lambda>_.
       if new = [] then dret ds else take_prioritized n V sub (ds @ new))))"

fun sort_prioritized :: "enum_env \<Rightarrow> string list \<Rightarrow> nat list \<Rightarrow> nat list em" where
  "sort_prioritized V [] ds = dret ds"
| "sort_prioritized V (sub # subs) ds = dbind (dget (\<lambda>e. Suc (length (en_by_syspath e)))) (\<lambda>n.
     dbind (take_prioritized n V sub ds) (\<lambda>ds'.
     dbind (sort_from (length ds) ds') (sort_prioritized V subs)))"

definition put_back :: "nat \<Rightarrow> unit em" where
  "put_back a e = (case get_syspath (dev_at e a) of
       None \<Rightarrow> None
     | Some p \<Rightarrow> Some (Inr (), e\<lparr>en_by_syspath := AList.update p a (en_by_syspath e)\<rparr>))"

definition sort_devices :: "enum_env \<Rightarrow> unit em" where
  "sort_devices V = dbind (dget en_sorted) (\<lambda>done.
     if done then dret ()
     else dbind (dget en_prioritized_subsystems) (\<lambda>subs.
       dbind (sort_prioritized V subs []) (\<lambda>ds.
       dbind (dget (\<lambda>e. map (\<lambda>k. the (map_of (en_by_syspath e) k)) (ev_order V (map fst (en_by_syspath e))))) (\<lambda>rest.
       dbind (dfold put_back ds) (\<lambda>_.
       dbind (sort_from (length ds) (ds @ rest)) (\<lambda>sorted.
         dput (\<lambda>e. e\<lparr>en_devices := sorted, en_sorted := True\<rparr>)))))))"

section \<open>Iterating\<close>

definition scan_of_type :: "enum_env \<Rightarrow> enumeration_type \<Rightarrow> unit em" where
  "scan_of_type V t = (case t of Enum_Devices \<Rightarrow> scan_devices V | Enum_Subsystems \<Rightarrow> scan_subsystems V
     | Enum_All \<Rightarrow> scan_devices_and_subsystems V)"

text \<open>\<open>next\<close> of the iterator with the current index; an error ends the iteration.\<close>

definition enumerator_next :: "enum_env \<Rightarrow> nat \<Rightarrow> (nat option \<times> nat) em" where
  "enumerator_next V i = dbind (dget (\<lambda>e. (en_scan_up_to_date e, en_etype e))) (\<lambda>(fresh, t).
     dmatch (if fresh then dret () else scan_of_type V t) (\<lambda>r. case r of
         Inl _ \<Rightarrow> dret (None, i)
       | Inr _ \<Rightarrow> dbind (dget en_sorted) (\<lambda>done.
           dmatch (if done then dret () else sort_devices V) (\<lambda>r. case r of
               Inl _ \<Rightarrow> dret (None, i)
             | Inr _ \<Rightarrow> dget (\<lambda>e. if i < length (en_devices e) then (Some (en_devices e ! i), Suc i) else (None, i))))))"

definition get_devices :: "enum_env \<Rightarrow> nat list option em" where
  "get_devices V = dbind (dget en_scan_up_to_date) (\<lambda>fresh.
     if \<not> fresh then dret None
     else dmatch (sort_devices V) (\<lambda>r. case r of Inl _ \<Rightarrow> dret None | Inr _ \<Rightarrow> dget (\<lambda>e. Some (en_devices e))))"

end
