(* ===== verification/Dev_Enumerate_Inv.thy ===== *)
theory Dev_Enumerate_Inv
  imports Dev_Enumerate "HOL-Library.Multiset"
begin

text \<open>
  Correctness of the enumeration of devices: the map of found devices and the heap are kept well formed by every scan,
  every device of the map passes the subsystem and property filters, and sorting returns every found device once.
\<close>

section \<open>Well-formed enumerators\<close>

definition sys_key :: "enumerator \<Rightarrow> nat \<Rightarrow> string" where
  "sys_key e a = d_syspath (dev_at e a)"

definition heap_ok :: "(device \<times> nat option) list \<Rightarrow> bool" where
  "heap_ok h \<longleftrightarrow> (\<forall>(d, p)\<in>set h. dev_inv d \<and> (\<forall>q. p = Some q \<longrightarrow> q < length h))"

definition passes :: "enum_env \<Rightarrow> enumerator \<Rightarrow> device \<Rightarrow> bool" where
  "passes V e d \<longleftrightarrow> d_syspath d \<noteq> [] \<and> d_subsystem_set d \<and> d_subsystem d \<noteq> [] \<and>
     match_subsystem V (d_subsystem d) e = Inr True \<and> match_property V d e = Inr True"

definition found_ok :: "enum_env \<Rightarrow> enumerator \<Rightarrow> bool" where
  "found_ok V e \<longleftrightarrow> heap_ok (en_heap e) \<and> distinct (map fst (en_by_syspath e)) \<and>
     (\<forall>(k, a)\<in>set (en_by_syspath e). a < length (en_heap e) \<and> sys_key e a = k \<and> passes V e (dev_at e a))"

definition order_ok :: "enum_env \<Rightarrow> bool" where
  "order_ok V \<longleftrightarrow> (\<forall>ks. mset (ev_order V ks) = mset ks)"

lemma order_set: "order_ok V \<Longrightarrow> set (ev_order V ks) = set ks"
  unfolding order_ok_def by (metis set_mset_mset)

section \<open>Sorting\<close>

text \<open>While devices are sorted the map is the list of its devices under their paths, and the devices do not change.\<close>

definition entries :: "enumerator \<Rightarrow> nat list \<Rightarrow> (string \<times> nat) list" where
  "entries e as = map (\<lambda>a. (sys_key e a, a)) as"

definition sortable :: "enumerator \<Rightarrow> nat list \<Rightarrow> bool" where
  "sortable e as \<longleftrightarrow> distinct (map (sys_key e) as) \<and>
     (\<forall>a\<in>set as. d_syspath (dev_at e a) \<noteq> [] \<and> d_devpath (dev_at e a) \<noteq> [] \<and> d_subsystem_set (dev_at e a) \<and> d_subsystem (dev_at e a) \<noteq> [])"

definition with_map :: "enumerator \<Rightarrow> nat list \<Rightarrow> enumerator" where
  "with_map e as = e\<lparr>en_by_syspath := entries e as\<rparr>"

lemma with_map_simps [simp]:
  "en_by_syspath (with_map e as) = entries e as" "dev_at (with_map e as) a = dev_at e a"
  "sys_key (with_map e as) a = sys_key e a" "en_heap (with_map e as) = en_heap e"
  "with_map (with_map e as) bs = with_map e bs" "en_sorted (with_map e as) = en_sorted e"
  "en_prioritized_subsystems (with_map e as) = en_prioritized_subsystems e"
  by (simp_all add: with_map_def dev_at_def sys_key_def entries_def)

lemma with_map_update [simp]: "(with_map e as)\<lparr>en_by_syspath := entries e bs\<rparr> = with_map e bs"
  by (simp add: with_map_def)

lemma fst_entries [simp]: "map fst (entries e as) = map (sys_key e) as" "map snd (entries e as) = as"
  by (simp_all add: entries_def comp_def)

lemma length_entries [simp]: "length (entries e as) = length as"
  by (simp add: entries_def)

lemma map_of_entries: "map_of (entries e as) k = Some a \<Longrightarrow> a \<in> set as \<and> sys_key e a = k"
  by (auto simp: entries_def dest!: map_of_SomeD)

lemma map_of_entries_key:
  "distinct (map (sys_key e) as) \<Longrightarrow> a \<in> set as \<Longrightarrow> map_of (entries e as) (sys_key e a) = Some a"
  by (rule map_of_is_SomeI) (auto simp: entries_def comp_def)

lemma delete_entries: "AList.delete p (entries e as) = entries e (filter (\<lambda>a. sys_key e a \<noteq> p) as)"
  by (induction as) (auto simp: entries_def)

lemma update_entries:
  "sys_key e a \<notin> sys_key e ` set as \<Longrightarrow> AList.update (sys_key e a) a (entries e as) = entries e (as @ [a])"
  by (induction as) (auto simp: entries_def)

lemma cached_subsystem:
  "d_subsystem_set d \<Longrightarrow> d_subsystem d \<noteq> [] \<Longrightarrow> get_subsystem E d = Some (Inr (d_subsystem d), d)"
  by (simp add: get_subsystem_def dm_defs)

lemma on_dev_pure: "m (dev_at e a) = Some (r, dev_at e a) \<Longrightarrow> on_dev a m e = Some (r, e)"
  by (cases "a < length (en_heap e)") (simp_all add: on_dev_def dev_at_def)

lemma sort_subsystem: "sortable e as \<Longrightarrow> a \<in> set as \<Longrightarrow>
    on_dev a (get_subsystem E) (with_map e bs) = Some (Inr (d_subsystem (dev_at e a)), with_map e bs)"
  by (rule on_dev_pure) (auto simp: sortable_def intro!: cached_subsystem)

lemma ancestors_ok: "set (ancestors (entries e as) p) \<subseteq> set as \<and>
    (\<forall>a\<in>set (ancestors (entries e as) p). length (sys_key e a) < length p) \<and>
    distinct (map (sys_key e) (ancestors (entries e as) p))"
proof (induction "entries e as" p rule: ancestors.induct)
  case (1 p)
  show ?case
  proof (cases "path_parent p")
    case None
    then show ?thesis by (simp add: ancestors.simps [of _ p])
  next
    case (Some q)
    have lt: "length q < length p" using path_parent_shorter [OF Some] .
    show ?thesis
    proof (cases "map_of (entries e as) q")
      case None
      then show ?thesis using Some by (simp add: ancestors.simps [of _ p])
    next
      case (Some a)
      note IH = "1"(1) [OF \<open>path_parent p = Some q\<close> Some]
      have "a \<in> set as" "sys_key e a = q" using map_of_entries [OF Some] by auto
      moreover have "ancestors (entries e as) p = a # ancestors (entries e as) q"
        using Some \<open>path_parent p = Some q\<close> by (simp add: ancestors.simps [of _ p])
      ultimately show ?thesis using IH lt by fastforce
    qed
  qed
qed

definition taken_ok :: "enumerator \<Rightarrow> nat list \<Rightarrow> nat list \<Rightarrow> bool" where
  "taken_ok e as new \<longleftrightarrow> set new \<subseteq> set as \<and> distinct (map (sys_key e) new)"

lemma find_prioritized_ok:
  assumes s: "sortable e as" and "set ks \<subseteq> sys_key e ` set as"
  shows "\<exists>new. find_prioritized V sub ks (with_map e as) = Some (Inr new, with_map e as) \<and> taken_ok e as new \<and>
    (new = [] \<longrightarrow> (\<forall>a\<in>set as. sys_key e a \<in> set ks \<longrightarrow> d_subsystem (dev_at e a) \<noteq> sub))"
  using assms(2)
proof (induction ks)
  case Nil
  then show ?case by (simp add: dret_def taken_ok_def)
next
  case (Cons k ks)
  then obtain a where a: "a \<in> set as" "k = sys_key e a" by auto
  have m: "map_of (entries e as) k = Some a"
    using s a map_of_entries_key by (auto simp: sortable_def)
  have uniq: "b = a" if "b \<in> set as" "sys_key e b = k" for b
    using that a s by (auto simp: sortable_def distinct_map inj_on_def)
  let ?rest = "\<lambda>r. if r \<noteq> Inr sub then find_prioritized V sub ks
       else dget (\<lambda>e. a # ancestors (en_by_syspath e) k)"
  have step: "find_prioritized V sub (k # ks) (with_map e as) = ?rest (Inr (d_subsystem (dev_at e a))) (with_map e as)"
    using m sort_subsystem [OF s a(1), of "ev_sys V" as] by (simp add: dbind_def dget_def dmatch_def)
  show ?case
  proof (cases "d_subsystem (dev_at e a) = sub")
    case True
    then have "find_prioritized V sub (k # ks) (with_map e as) = Some (Inr (a # ancestors (entries e as) k), with_map e as)"
      using step by (simp add: dget_def)
    moreover have "taken_ok e as (a # ancestors (entries e as) k)"
      using ancestors_ok [of e as k] a unfolding taken_ok_def by fastforce
    ultimately show ?thesis by blast
  next
    case False
    then show ?thesis using Cons step uniq by auto
  qed
qed

lemma remove_taken:
  assumes "\<forall>a\<in>set new. d_syspath (dev_at e a) \<noteq> []"
  shows "dfold remove_device new (with_map e as) =
     Some (Inr (), with_map e (filter (\<lambda>a. sys_key e a \<notin> sys_key e ` set new) as))"
  using assms
proof (induction new arbitrary: as)
  case Nil
  then show ?case by (simp add: dret_def)
next
  case (Cons n new)
  have "remove_device n (with_map e as) = Some (Inr (), with_map e (filter (\<lambda>a. sys_key e a \<noteq> sys_key e n) as))"
    using Cons.prems delete_entries [of "sys_key e n" e as]
    by (simp add: remove_device_def get_syspath_def flip: sys_key_def)
  then show ?case using Cons by (simp add: dbind_def conj_commute)
qed

lemma sortable_filter: "sortable e as \<Longrightarrow> sortable e (filter f as)"
  by (auto simp: sortable_def distinct_map intro: inj_on_subset)

lemma sortable_key: "sortable e as \<Longrightarrow> set bs \<subseteq> set as \<Longrightarrow> a \<in> set as \<Longrightarrow> sys_key e a \<in> sys_key e ` set bs \<longleftrightarrow> a \<in> set bs"
  by (auto simp: sortable_def distinct_map inj_on_def)

lemma taken_mset:
  assumes "sortable e as" and "taken_ok e as new"
  shows "mset new + mset (filter (\<lambda>a. sys_key e a \<notin> sys_key e ` set new) as) = mset as"
proof -
  have d: "distinct as" "distinct new" and sub: "set new \<subseteq> set as"
    using assms by (auto simp: sortable_def taken_ok_def distinct_map)
  have "filter (\<lambda>a. sys_key e a \<notin> sys_key e ` set new) as = filter (\<lambda>a. a \<notin> set new) as"
    using sortable_key [OF assms(1) sub] by (intro filter_cong) auto
  moreover have "mset new = mset (filter (\<lambda>a. a \<in> set new) as)"
    using d sub by (intro set_eq_iff_mset_eq_distinct [THEN iffD1]) auto
  ultimately show ?thesis using multiset_partition [of "mset as" "\<lambda>a. a \<in> set new"] by (simp add: mset_filter)
qed

lemma take_prioritized_ok:
  assumes "order_ok V" and "sortable e as" and "length as < n"
  shows "\<exists>new as'. take_prioritized n V sub ds (with_map e as) = Some (Inr (ds @ new), with_map e as') \<and>
     set as' \<subseteq> set as \<and> sortable e as' \<and> mset new + mset as' = mset as \<and> (\<forall>a\<in>set as'. d_subsystem (dev_at e a) \<noteq> sub)"
  using assms(2,3)
proof (induction n arbitrary: as ds)
  case 0
  then show ?case by simp
next
  case (Suc n)
  let ?ks = "ev_order V (map (sys_key e) as)"
  have ks: "set ?ks = sys_key e ` set as" using order_set [OF assms(1)] by simp
  obtain new where f: "find_prioritized V sub ?ks (with_map e as) = Some (Inr new, with_map e as)" and t: "taken_ok e as new"
    and none: "new = [] \<Longrightarrow> \<forall>a\<in>set as. d_subsystem (dev_at e a) \<noteq> sub"
    using find_prioritized_ok [OF Suc.prems(1), of ?ks V sub] ks by auto
  define bs where "bs = filter (\<lambda>a. sys_key e a \<notin> sys_key e ` set new) as"
  have "\<forall>a\<in>set new. d_syspath (dev_at e a) \<noteq> []" using t Suc.prems(1) by (auto simp: taken_ok_def sortable_def)
  then have r: "dfold remove_device new (with_map e as) = Some (Inr (), with_map e bs)"
    unfolding bs_def by (rule remove_taken)
  have m: "mset new + mset bs = mset as" unfolding bs_def using taken_mset [OF Suc.prems(1) t] .
  have b: "sortable e bs" "set bs \<subseteq> set as" using Suc.prems(1) by (auto simp: bs_def sortable_filter)
  have step: "take_prioritized (Suc n) V sub ds (with_map e as) =
      (if new = [] then dret ds else take_prioritized n V sub (ds @ new)) (with_map e bs)"
    using f r by (simp add: dbind_def dget_def)
  show ?case
  proof (cases "new = []")
    case True
    then have "bs = as" by (simp add: bs_def)
    then show ?thesis using True step none Suc.prems(1) by (auto simp: dret_def)
  next
    case False
    have "length bs < length as" using arg_cong [OF m, of size] False by (cases new) simp_all
    then obtain new' as' where t: "take_prioritized n V sub (ds @ new) (with_map e bs) = Some (Inr ((ds @ new) @ new'), with_map e as')"
        "set as' \<subseteq> set bs" "sortable e as'" "mset new' + mset as' = mset bs" "\<forall>a\<in>set as'. d_subsystem (dev_at e a) \<noteq> sub"
      using Suc.IH [of bs "ds @ new"] b Suc.prems by auto
    then have "mset (new @ new') + mset as' = mset as" by (simp add: m [symmetric] t(4) [symmetric] ac_simps)
    then show ?thesis using t b False step by (intro exI [of _ "new @ new'"] exI [of _ as']) auto
  qed
qed

text \<open>A stable sort returns a permutation whatever its comparison says.\<close>

lemma insert_by_mset: "\<forall>y\<in>set ys. cmp x y \<noteq> None \<Longrightarrow> \<exists>zs. insert_by cmp x ys = Some zs \<and> mset zs = add_mset x (mset ys)"
proof (induction ys)
  case (Cons y ys)
  then obtain zs where "insert_by cmp x ys = Some zs" "mset zs = add_mset x (mset ys)" by auto
  moreover obtain c where "cmp x y = Some c" using Cons.prems by auto
  ultimately show ?case by (cases c) auto
qed simp

lemma sort_by_mset: "\<forall>x\<in>set xs. \<forall>y\<in>set xs. cmp x y \<noteq> None \<Longrightarrow> \<exists>zs. sort_by cmp xs = Some zs \<and> mset zs = mset xs"
proof (induction xs)
  case (Cons x xs)
  then obtain zs where zs: "sort_by cmp xs = Some zs" "mset zs = mset xs" by auto
  then have "set zs = set xs" by (metis set_mset_mset)
  then show ?case using Cons.prems zs insert_by_mset [of zs cmp x] by simp
qed simp

lemma sort_from_ok:
  assumes "\<forall>a\<in>set ds. d_devpath (dev_at e a) \<noteq> []"
  shows "\<exists>xs. sort_from n ds (with_map e as) = Some (Inr (take n ds @ xs), with_map e as) \<and> mset xs = mset (drop n ds)"
proof -
  have "\<forall>a\<in>set (drop n ds). \<forall>b\<in>set (drop n ds). device_compare (dev_at e a) (dev_at e b) \<noteq> None"
    using assms by (auto simp: device_compare_def get_devpath_def dest: in_set_dropD)
  from sort_by_mset [OF this] show ?thesis by (auto simp: sort_from_def)
qed

lemma sort_prioritized_ok:
  assumes "order_ok V" and "sortable e as" and "\<forall>a\<in>set ds. d_devpath (dev_at e a) \<noteq> []"
  shows "\<exists>new as'. sort_prioritized V subs ds (with_map e as) = Some (Inr (ds @ new), with_map e as') \<and> sortable e as' \<and>
     mset new + mset as' = mset as \<and> (\<forall>a\<in>set as'. d_subsystem (dev_at e a) \<notin> set subs)"
  using assms(2,3)
proof (induction subs arbitrary: as ds)
  case Nil
  then show ?case by (auto simp: dret_def)
next
  case (Cons sub subs)
  obtain new bs where t: "take_prioritized (Suc (length as)) V sub ds (with_map e as) = Some (Inr (ds @ new), with_map e bs)"
      "set bs \<subseteq> set as" "sortable e bs" "mset new + mset bs = mset as" "\<forall>a\<in>set bs. d_subsystem (dev_at e a) \<noteq> sub"
    using take_prioritized_ok [OF assms(1) Cons.prems(1) lessI, of sub ds] by blast
  have new: "set new \<subseteq> set as" using arg_cong [OF t(4), of set_mset] by auto
  have dp: "\<forall>a\<in>set (ds @ new). d_devpath (dev_at e a) \<noteq> []" using Cons.prems new by (auto simp: sortable_def)
  obtain xs where x: "sort_from (length ds) (ds @ new) (with_map e bs) = Some (Inr (ds @ xs), with_map e bs)" "mset xs = mset new"
    using sort_from_ok [OF dp, of "length ds" bs] by auto
  have "set xs = set new" using x(2) by (metis set_mset_mset)
  then have "\<forall>a\<in>set (ds @ xs). d_devpath (dev_at e a) \<noteq> []" using dp by simp
  then obtain new' as' where s: "sort_prioritized V subs (ds @ xs) (with_map e bs) = Some (Inr ((ds @ xs) @ new'), with_map e as')"
      "sortable e as'" "mset new' + mset as' = mset bs" "\<forall>a\<in>set as'. d_subsystem (dev_at e a) \<notin> set subs"
    using Cons.IH [OF t(3)] by blast
  have m: "mset (xs @ new') + mset as' = mset as"
    by (simp add: t(4) [symmetric] s(3) [symmetric] x(2) ac_simps)
  have "set as' \<subseteq> set bs" using arg_cong [OF s(3), of set_mset] by auto
  moreover have "sort_prioritized V (sub # subs) ds (with_map e as) = Some (Inr (ds @ xs @ new'), with_map e as')"
    using t(1) x(1) s(1) by (simp add: dbind_def dget_def)
  ultimately show ?case using m s t(5) by (intro exI [of _ "xs @ new'"] exI [of _ as']) auto
qed

lemma put_back_ok:
  assumes "\<forall>a\<in>set ds. d_syspath (dev_at e a) \<noteq> []" and "distinct (map (sys_key e) (as @ ds))"
  shows "dfold put_back ds (with_map e as) = Some (Inr (), with_map e (as @ ds))"
  using assms
proof (induction ds arbitrary: as)
  case Nil
  then show ?case by (simp add: dret_def)
next
  case (Cons a ds)
  have "sys_key e a \<notin> sys_key e ` set as" using Cons.prems(2) by auto
  then have "put_back a (with_map e as) = Some (Inr (), with_map e (as @ [a]))"
    using Cons.prems(1) update_entries [of e a as] by (simp add: put_back_def get_syspath_def flip: sys_key_def)
  moreover have "distinct (map (sys_key e) ((as @ [a]) @ ds))" using Cons.prems(2) by simp
  ultimately show ?case using Cons.IH [of "as @ [a]"] Cons.prems(1) by (simp add: dbind_def)
qed

lemma found_entries:
  assumes "found_ok V e"
  shows "en_by_syspath e = entries e (map snd (en_by_syspath e))"
proof -
  have "(sys_key e (snd x), snd x) = x" if "x \<in> set (en_by_syspath e)" for x
    using assms that by (cases x) (auto simp: found_ok_def)
  then show ?thesis by (simp add: entries_def comp_def map_idI)
qed

lemma found_with_map: "found_ok V e \<Longrightarrow> with_map e (map snd (en_by_syspath e)) = e"
  using found_entries [of V e, symmetric] by (simp add: with_map_def)

lemma heap_dev: "heap_ok (en_heap e) \<Longrightarrow> a < length (en_heap e) \<Longrightarrow> dev_inv (dev_at e a)"
  using nth_mem [of a "en_heap e"] unfolding heap_ok_def dev_at_def by (auto simp: split_beta)

lemma dev_inv_devpath: "dev_inv d \<Longrightarrow> d_syspath d \<noteq> [] \<Longrightarrow> d_devpath d \<noteq> []"
  by (auto simp: dev_inv_def paths_agree_def starts_with_def)

lemma found_sortable:
  assumes "found_ok V e"
  shows "sortable e (map snd (en_by_syspath e))"
proof -
  have "map (sys_key e) (map snd (en_by_syspath e)) = map fst (en_by_syspath e)"
    using found_entries [OF assms] by (metis fst_entries(1))
  then have "distinct (map (sys_key e) (map snd (en_by_syspath e)))" using assms by (simp only: found_ok_def)
  moreover have "passes V e (dev_at e a) \<and> dev_inv (dev_at e a)" if "a \<in> set (map snd (en_by_syspath e))" for a
    using assms that heap_dev [of e a] by (auto simp: found_ok_def)
  ultimately show ?thesis using dev_inv_devpath unfolding sortable_def passes_def by blast
qed

lemma mset_distinct_map: "mset xs = mset ys \<Longrightarrow> distinct (map f xs) \<longleftrightarrow> distinct (map f ys)"
  by (metis mset_eq_imp_distinct_iff mset_map)

lemma sort_devices_ok:
  assumes V: "order_ok V" and s: "sortable e as" and u: "\<not> en_sorted e"
  shows "\<exists>new rest bs. sort_devices V (with_map e as) =
      Some (Inr (), (with_map e bs)\<lparr>en_devices := new @ rest, en_sorted := True\<rparr>) \<and>
    mset bs = mset as \<and> mset (new @ rest) = mset as \<and>
    (\<forall>a\<in>set rest. d_subsystem (dev_at e a) \<notin> set (en_prioritized_subsystems e))"
proof -
  obtain new as' where p: "sort_prioritized V (en_prioritized_subsystems e) [] (with_map e as) = Some (Inr new, with_map e as')"
      "sortable e as'" "mset new + mset as' = mset as" "\<forall>a\<in>set as'. d_subsystem (dev_at e a) \<notin> set (en_prioritized_subsystems e)"
    using sort_prioritized_ok [OF V s, of "[]" "en_prioritized_subsystems e"] by auto
  define rest where "rest = map (\<lambda>k. the (map_of (entries e as') k)) (ev_order V (map (sys_key e) as'))"
  have "mset rest = image_mset (\<lambda>k. the (map_of (entries e as') k)) (image_mset (sys_key e) (mset as'))"
    using V by (simp add: rest_def order_ok_def)
  also have "\<dots> = image_mset id (mset as')"
    unfolding multiset.map_comp using p(2) by (intro image_mset_cong) (simp add: sortable_def map_of_entries_key)
  finally have rest: "mset rest = mset as'" by simp
  have eq: "set new \<union> set as' = set as" using arg_cong [OF p(3), of set_mset] by simp
  have "mset (as' @ new) = mset as" using p(3) by (simp add: ac_simps)
  then have "distinct (map (sys_key e) (as' @ new))" using s mset_distinct_map unfolding sortable_def by blast
  moreover have "\<forall>a\<in>set new. d_syspath (dev_at e a) \<noteq> []" using s eq by (auto simp: sortable_def)
  ultimately have b: "dfold put_back new (with_map e as') = Some (Inr (), with_map e (as' @ new))" by (simp only: put_back_ok)
  have "set (new @ rest) = set as" using eq rest by (metis set_append set_mset_mset)
  then obtain xs where x: "sort_from (length new) (new @ rest) (with_map e (as' @ new)) =
      Some (Inr (new @ xs), with_map e (as' @ new))" "mset xs = mset rest"
    using sort_from_ok [of "new @ rest" e "length new" "as' @ new"] s by (auto simp: sortable_def)
  have "sort_devices V (with_map e as) = Some (Inr (), (with_map e (as' @ new))\<lparr>en_devices := new @ xs, en_sorted := True\<rparr>)"
    using u p(1) b x(1) by (simp add: sort_devices_def dbind_def dget_def dput_def rest_def)
  moreover have "mset (as' @ new) = mset as" "mset (new @ xs) = mset as" using p(3) rest x(2) by (simp_all add: ac_simps)
  moreover have "set xs = set as'" using x(2) rest by (metis set_mset_mset)
  ultimately show ?thesis using p(4) by blast
qed

section \<open>Scanning keeps the enumerator well formed\<close>

definition filters :: "enumerator \<Rightarrow> _" where
  "filters e = ((en_prioritized_subsystems e, en_match_subsystem e, en_not_match_subsystem e, en_match_sysattr e,
     en_not_match_sysattr e), (en_match_property e, en_match_sysname e, en_not_match_sysname e, en_match_tag e,
     en_match_parent e, en_match_initialized e, en_filter_type e))"

text \<open>What a method of a device that is shared with the map keeps.\<close>

definition stays :: "device \<Rightarrow> device \<Rightarrow> bool" where
  "stays d d' \<longleftrightarrow> d_syspath d' = d_syspath d \<and> (dev_inv d \<longrightarrow> dev_inv d') \<and>
     (d_subsystem_set d \<and> d_subsystem d \<noteq> [] \<longrightarrow>
        d_subsystem_set d' \<and> d_subsystem d' = d_subsystem d \<and> d_properties d' = d_properties d)"

lemma stays_refl [simp]: "stays d d"
  by (simp add: stays_def)

lemma stays_trans: "stays a b \<Longrightarrow> stays b c \<Longrightarrow> stays a c"
  by (auto simp: stays_def)

definition grows :: "enumerator \<Rightarrow> enumerator \<Rightarrow> bool" where
  "grows e0 e \<longleftrightarrow> filters e = filters e0 \<and> en_devices e = en_devices e0 \<and> length (en_heap e0) \<le> length (en_heap e) \<and>
     (\<forall>a<length (en_heap e0). stays (dev_at e0 a) (dev_at e a))"

lemma grows_refl [simp]: "grows e e"
  by (simp add: grows_def)

lemma grows_trans: "grows a b \<Longrightarrow> grows b c \<Longrightarrow> grows a c"
  unfolding grows_def by (auto intro: stays_trans)

lemma grows_length: "grows e e' \<Longrightarrow> a < length (en_heap e) \<Longrightarrow> a < length (en_heap e')"
  by (simp add: grows_def)

definition follows :: "enum_env \<Rightarrow> enumerator \<Rightarrow> enumerator \<Rightarrow> bool" where
  "follows V e0 e \<longleftrightarrow> found_ok V e \<and> grows e0 e"

text \<open>The filters see only their own fields.\<close>

definition core_filters :: "enumerator \<Rightarrow> _" where
  "core_filters e = (en_match_subsystem e, en_not_match_subsystem e, en_match_property e, en_filter_type e)"

lemma core_eqD:
  assumes "core_filters e' = core_filters e"
  shows "en_filter_type e' = en_filter_type e" "en_match_subsystem e' = en_match_subsystem e"
    "en_not_match_subsystem e' = en_not_match_subsystem e" "en_match_property e' = en_match_property e"
  using assms by (simp_all add: core_filters_def)

lemma filters_core: "filters e' = filters e \<Longrightarrow> core_filters e' = core_filters e"
  by (simp add: filters_def core_filters_def)

lemma pattern_match_cong: "en_filter_type e' = en_filter_type e \<Longrightarrow> pattern_match V e' = pattern_match V e"
  by (simp add: pattern_match_def fun_eq_iff)

lemma any_match_cong: "en_filter_type e' = en_filter_type e \<Longrightarrow> any_match V e' ps v = any_match V e ps v"
  using pattern_match_cong [of e' e V] by (induction ps) (simp_all cong: sum.case_cong bool.case_cong)

lemma match_subsystem_cong: "core_filters e' = core_filters e \<Longrightarrow> match_subsystem V s e' = match_subsystem V s e"
  using any_match_cong [of e' e V] core_eqD [of e' e] by (simp add: match_subsystem_def set_pattern_match_def cong: sum.case_cong bool.case_cong)

lemma property_values_cong:
  "en_filter_type e' = en_filter_type e \<Longrightarrow> property_values V e' kp vp ps = property_values V e kp vp ps"
  using pattern_match_cong [of e' e V]
  by (induction ps) (simp_all add: split_paired_all cong: sum.case_cong bool.case_cong)

lemma property_patterns_cong:
  "core_filters e' = core_filters e \<Longrightarrow> d_properties d' = d_properties d \<Longrightarrow> property_patterns V e' ks d' = property_patterns V e ks d"
  using property_values_cong [of e' e V] core_eqD [of e' e]
  by (induction ks) (simp_all cong: sum.case_cong bool.case_cong)

lemma passes_core: "passes V e d \<Longrightarrow> core_filters e' = core_filters e \<Longrightarrow> stays d d' \<Longrightarrow> passes V e' d'"
  using property_patterns_cong [of e' e d' d V] match_subsystem_cong [of e' e V] core_eqD [of e' e]
  by (auto simp: passes_def stays_def match_property_def)

lemma passes_stays: "passes V e d \<Longrightarrow> filters e' = filters e \<Longrightarrow> stays d d' \<Longrightarrow> passes V e' d'"
  using passes_core filters_core by blast

lemma found_grows:
  assumes "found_ok V e" and "grows e e'" and "heap_ok (en_heap e')" and "en_by_syspath e' = en_by_syspath e"
  shows "found_ok V e'"
proof -
  have "a < length (en_heap e') \<and> sys_key e' a = k \<and> passes V e' (dev_at e' a)" if "(k, a) \<in> set (en_by_syspath e)" for k a
  proof -
    have a: "a < length (en_heap e)" "sys_key e a = k" "passes V e (dev_at e a)"
      using assms(1) that by (auto simp: found_ok_def)
    then have "stays (dev_at e a) (dev_at e' a)" "filters e' = filters e" using assms(2) by (auto simp: grows_def)
    then show ?thesis using a grows_length [OF assms(2)] passes_stays by (auto simp: stays_def sys_key_def)
  qed
  then show ?thesis using assms by (auto simp: found_ok_def)
qed

lemma heap_update: "heap_ok h \<Longrightarrow> dev_inv d \<Longrightarrow> p = snd (h ! a) \<or> (\<exists>q<length h. p = Some q) \<Longrightarrow> heap_ok (h[a := (d, p)])"
proof -
  assume h: "heap_ok h" "dev_inv d" and p: "p = snd (h ! a) \<or> (\<exists>q<length h. p = Some q)"
  show ?thesis
  proof (cases "a < length h")
    case True
    then have "h ! a \<in> set h" by simp
    then have "q < length h" if "p = Some q" for q using h p that by (auto simp: heap_ok_def split_beta)
    then show ?thesis using h set_update_subset_insert [of h a "(d, p)"] by (fastforce simp: heap_ok_def)
  next
    case False
    then show ?thesis using h by (simp add: not_less list_update_beyond)
  qed
qed

lemma heap_append: "heap_ok h \<Longrightarrow> dev_inv d \<Longrightarrow> heap_ok (h @ [(d, None)])"
  by (fastforce simp: heap_ok_def)

lemma dev_at_update:
  "dev_at (e\<lparr>en_heap := (en_heap e)[a := (d, p)] @ c\<rparr>) b =
     (if b = a \<and> a < length (en_heap e) then d else if b < length (en_heap e) then dev_at e b else fst (c ! (b - length (en_heap e))))"
  by (auto simp: dev_at_def nth_append nth_list_update)

lemma grows_update:
  assumes "stays (dev_at e a) d"
  shows "grows e (e\<lparr>en_heap := (en_heap e)[a := (d, p)] @ c\<rparr>)"
  using assms unfolding grows_def dev_at_update by (auto simp: filters_def)

lemma follows_on_dev:
  assumes a: "a < length (en_heap e0)" and m: "\<And>d r d'. m d = Some (r, d') \<Longrightarrow> stays d d'"
  shows "maintains (follows V e0) (on_dev a m)"
  unfolding maintains_def
proof (intro allI impI)
  fix e r e'
  assume f: "follows V e0 e" and o: "on_dev a m e = Some (r, e')"
  then obtain d where d: "m (dev_at e a) = Some (r, d)" "e' = e\<lparr>en_heap := (en_heap e)[a := (d, snd (en_heap e ! a))] @ []\<rparr>"
    by (auto simp: on_dev_def split: option.splits)
  have s: "stays (dev_at e a) d" using m d(1) .
  have g: "grows e e'" unfolding d(2) by (rule grows_update [OF s])
  have "a < length (en_heap e)" using f a by (auto simp: follows_def dest: grows_length)
  then have "dev_inv d" using f s heap_dev by (auto simp: follows_def found_ok_def stays_def)
  then have "heap_ok (en_heap e')" using f heap_update by (simp add: follows_def found_ok_def d(2))
  then have "found_ok V e'" using found_grows [OF _ g] f d(2) by (auto simp: follows_def)
  then show "follows V e0 e'" using f g grows_trans by (auto simp: follows_def)
qed

text \<open>The two methods of a device that a scan calls.\<close>

lemma syspath_keepers [maintains_intros]:
  "maintains (\<lambda>d. d_syspath d = p) (add_property_internal k v)" "maintains (\<lambda>d. d_syspath d = p) (set_subsystem s)"
  "maintains (\<lambda>d. d_syspath d = p) set_drivers_subsystem"
proof -
  show i: "maintains (\<lambda>d. d_syspath d = p) (add_property_internal k v)" for k v
    unfolding add_property_internal_def add_property_aux_def Let_def by (intro maintains_intros) simp_all
  show s: "maintains (\<lambda>d. d_syspath d = p) (set_subsystem s)" for s
    unfolding set_subsystem_def by (intro maintains_intros i) simp
  show "maintains (\<lambda>d. d_syspath d = p) set_drivers_subsystem"
    unfolding set_drivers_subsystem_def Let_def by (intro maintains_intros s) simp_all
qed

lemma inv_keepers [maintains_intros]: "maintains dev_inv (set_subsystem s)" "maintains dev_inv set_drivers_subsystem"
  using safe_keeps [OF safe_setters(1) [of False s]] safe_keeps [OF safe_set_drivers_subsystem [of False]]
  by (simp_all add: dev_ok_False)

lemma readlink_keeps [maintains_intros]: "maintains I (readlink_value E p)"
  unfolding readlink_value_def by (intro maintains_intros)

lemma dev_inv_subsystem_set: "dev_inv d \<Longrightarrow> dev_inv (d\<lparr>d_subsystem_set := b\<rparr>)"
  using dev_ok_free(2) [of False] by (simp add: dev_ok_False)

lemma get_subsystem_stays:
  assumes "get_subsystem E d = Some (r, d')"
  shows "stays d d'"
proof -
  have "maintains dev_inv (get_subsystem E)"
    unfolding get_subsystem_def by (intro maintains_intros) (rule dev_inv_subsystem_set)
  moreover have "maintains (\<lambda>x. d_syspath x = d_syspath d) (get_subsystem E)"
    unfolding get_subsystem_def by (intro maintains_intros) simp
  ultimately have "dev_inv d \<longrightarrow> dev_inv d'" "d_syspath d' = d_syspath d" using assms by (auto dest: maintainsD)
  moreover have "d' = d" if "d_subsystem_set d" "d_subsystem d \<noteq> []" using cached_subsystem [OF that] assms by auto
  ultimately show ?thesis by (auto simp: stays_def)
qed

lemma get_subsystem_cached:
  assumes "get_subsystem E d = Some (Inr s, d')"
  shows "d_subsystem d' = s \<and> s \<noteq> [] \<and> d_subsystem_set d'"
proof -
  have p: "d_subsystem_set d1" if "add_property_internal k v d = Some (Inr (), d1)" "d_subsystem_set d" for k v d d1
    using that by (auto simp: add_property_internal_def add_property_aux_def dm_defs split: if_splits)
  have s: "d_subsystem_set d1" if "set_subsystem x d = Some (Inr u, d1)" for x d d1 u
    using that by (auto simp: set_subsystem_def dbind_Inr dput_def)
  have dr: "d_subsystem_set d1" if "set_drivers_subsystem d = Some (Inr u, d1)" for d d1 u
    using that s by (auto simp: set_drivers_subsystem_def Let_def dbind_Inr dget_def dput_def derr_def dpanic_def
        split: option.splits if_splits)
  have "d_subsystem_set d'"
    using assms s dr unfolding get_subsystem_def
    by (auto simp: dbind_Inr dget_def dput_def derr_def dret_def split: if_splits)
  then show ?thesis using get_subsystem_Inr [OF assms] by simp
qed

lemma get_sysname_stays:
  assumes "get_sysname d = Some (r, d')"
  shows "stays d d'"
proof -
  let ?I = "\<lambda>x. stays d x"
  have i: "stays d (x\<lparr>d_sysnum := a, d_sysname := b\<rparr>)" if "stays d x" for x a b
    using that by (auto simp: stays_def dev_inv_def)
  have "maintains ?I set_sysname_and_sysnum"
    unfolding set_sysname_and_sysnum_def Let_def by (intro maintains_intros i)
  then have "maintains ?I get_sysname" unfolding get_sysname_def by (intro maintains_intros)
  from maintainsD [OF this stays_refl assms] show ?thesis .
qed

lemma lift_res_keeps [maintains_intros]: "maintains I (lift_res r)"
  unfolding lift_res_def by (intro maintains_intros)

lemma when_flag_keeps [maintains_intros]: "maintains I m \<Longrightarrow> maintains I n \<Longrightarrow> maintains I (when_flag b m n)"
  unfolding when_flag_def by (intro maintains_intros)

lemma const_tests [maintains_intros]: "maintains I match_sysattr" "maintains I match_tag" "maintains I match_initialized"
  by (auto simp: maintains_def match_sysattr_def match_tag_def match_initialized_def dret_def split: if_splits)

lemma test_matches_keeps:
  assumes "a < length (en_heap e0)"
  shows "maintains (follows V e0) (test_matches V a flags)"
proof -
  have d: "maintains (follows V e0) (on_dev a get_sysname)" "maintains (follows V e0) (on_dev a (get_subsystem E))" for E
    by (rule follows_on_dev [OF assms]; erule get_sysname_stays get_subsystem_stays)+
  have "maintains (follows V e0) (test_sysname V a)" unfolding test_sysname_def by (intro maintains_intros d)
  moreover have "maintains (follows V e0) (test_subsystem V a)"
    unfolding test_subsystem_def by (intro maintains_intros d)
  ultimately show ?thesis unfolding test_matches_def by (intro maintains_intros)
qed

lemma on_dev_length [maintains_intros]: "maintains (\<lambda>e. length (en_heap e) = n) (on_dev a m)"
  by (auto simp: maintains_def on_dev_def split: option.splits)

lemma test_sysname_length: "maintains (\<lambda>e. length (en_heap e) = n) (test_sysname V a)"
  unfolding test_sysname_def by (intro maintains_intros)

lemma when_flag_True: "when_flag b m n e = Some (Inr True, e') \<Longrightarrow>
    if b then \<exists>e1. m e = Some (Inr True, e1) \<and> n e1 = Some (Inr True, e') else n e = Some (Inr True, e')"
  by (auto simp: when_flag_def dbind_Inr dret_def split: if_splits)

lemma test_matches_passes:
  assumes "test_matches V a flags e = Some (Inr True, e')" and "flags AND FLAG_SUBSYSTEM \<noteq> 0" and "a < length (en_heap e)"
    and "d_syspath (dev_at e' a) \<noteq> []"
  shows "passes V e' (dev_at e' a)"
proof -
  define pt where "pt = dbind (dget (\<lambda>e. match_property V (dev_at e a) e)) lift_res"
  define rest where "rest = when_flag (flags AND FLAG_PARENT \<noteq> 0) (dget (\<lambda>e. match_parent (dev_at e a) e))
    (when_flag (flags AND FLAG_TAG \<noteq> 0) match_tag (when_flag True match_initialized
    (when_flag True pt (when_flag True match_sysattr (dret True)))))"
  have t: "test_matches V a flags = when_flag (flags AND FLAG_SYSNAME \<noteq> 0) (test_sysname V a)
      (when_flag (flags AND FLAG_SUBSYSTEM \<noteq> 0) (test_subsystem V a) rest)"
    unfolding rest_def pt_def test_matches_def by (rule refl)
  obtain e1 where e1: "test_sysname V a e = Some (Inr True, e1) \<or> e1 = e"
    and m: "when_flag (flags AND FLAG_SUBSYSTEM \<noteq> 0) (test_subsystem V a) rest e1 = Some (Inr True, e')"
    using when_flag_True [OF assms(1) [unfolded t]] by (cases "flags AND FLAG_SYSNAME = 0") auto
  obtain e2 where e2: "test_subsystem V a e1 = Some (Inr True, e2)" and r: "rest e2 = Some (Inr True, e')"
    using when_flag_True [OF m] assms(2) by auto
  have same: "e' = e2" and p: "match_property V (dev_at e2 a) e2 = Inr True"
    using r unfolding rest_def pt_def
    by (auto dest!: when_flag_True simp: dget_def match_tag_def match_initialized_def match_sysattr_def dbind_Inr
        dret_def lift_res_def derr_def split: if_splits sum.splits)
  obtain s e3 where s: "on_dev a (get_subsystem (ev_sys V)) e1 = Some (Inr s, e3)" "match_subsystem V s e3 = Inr True" "e3 = e2"
    using e2 by (auto simp: test_subsystem_def dmatch_def dbind_Inr dget_def lift_res_def dret_def derr_def
        split: option.splits sum.splits if_splits)
  have "length (en_heap e1) = length (en_heap e)"
    using e1 maintainsD [OF test_sysname_length [of "length (en_heap e)" V a] refl] by auto
  then obtain d where d: "get_subsystem (ev_sys V) (dev_at e1 a) = Some (Inr s, d)" "dev_at e2 a = d"
    using s(1,3) assms(3) by (auto simp: on_dev_def dev_at_def split: option.splits)
  show ?thesis
    using get_subsystem_cached [OF d(1)] assms(4) s(2,3) p same d(2) by (auto simp: passes_def)
qed

lemma add_device_follows:
  assumes "follows V e0 e" and "a < length (en_heap e0)" and "d_syspath (dev_at e a) \<noteq> [] \<Longrightarrow> passes V e (dev_at e a)"
    and "add_device a e = Some (r, e')"
  shows "follows V e0 e'"
proof (cases "d_syspath (dev_at e a) = []")
  case True
  then show ?thesis using assms by (simp add: add_device_def get_syspath_def)
next
  case False
  note ps = assms(3) [OF False]
  have e': "en_by_syspath e' = AList.update (sys_key e a) a (en_by_syspath e)" "en_heap e' = en_heap e" "en_devices e' = en_devices e"
    and f: "filters e' = filters e"
    using ps assms(4) by (auto simp: add_device_def get_syspath_def passes_def sys_key_def Let_def filters_def split: option.splits)
  have d: "dev_at e' = dev_at e" by (simp add: e' dev_at_def fun_eq_iff)
  have p: "passes V e' x \<longleftrightarrow> passes V e x" for x using passes_stays f by (metis stays_refl)
  have a: "a < length (en_heap e)" using assms(1,2) by (auto simp: follows_def dest: grows_length)
  have "distinct (map fst (en_by_syspath e'))"
    using assms(1) distinct_update by (auto simp: e' follows_def found_ok_def)
  moreover have "\<forall>(k, b)\<in>set (en_by_syspath e'). b < length (en_heap e) \<and> d_syspath (dev_at e b) = k \<and> passes V e (dev_at e b)"
    using assms(1) ps a set_alist_update [of _ "sys_key e a" a "en_by_syspath e"]
    by (fastforce simp: e' follows_def found_ok_def sys_key_def)
  ultimately have "found_ok V e'" using assms(1) p d by (auto simp: found_ok_def follows_def sys_key_def e')
  moreover have "grows e0 e'" using assms(1) d f by (simp add: follows_def grows_def e')
  ultimately show ?thesis by (simp add: follows_def)
qed

lemma parent_loop_inv: "parent_loop E p = Some (Inr d) \<Longrightarrow> dev_inv d"
  by (induction E p rule: parent_loop.induct) (auto simp: parent_loop.simps split: if_splits option.splits sum.splits dest: from_syspath_inv)

lemma new_from_child_inv: "new_from_child E d = Some (Inr p) \<Longrightarrow> dev_inv p"
  by (auto simp: new_from_child_def split: option.splits dest: parent_loop_inv)

lemma stays_parent_set [simp]: "stays d (d\<lparr>d_parent_set := b\<rparr>)"
  by (simp add: stays_def dev_inv_def)

lemma follows_heap:
  assumes "follows V e0 e" and "stays (dev_at e a) d" and "heap_ok ((en_heap e)[a := (d, p)] @ c)"
  shows "follows V e0 (e\<lparr>en_heap := (en_heap e)[a := (d, p)] @ c\<rparr>)"
  using assms found_grows [OF _ grows_update [OF assms(2), of p c]] grows_trans [OF _ grows_update [OF assms(2), of p c]]
  by (simp add: follows_def)

lemma alloc_follows:
  assumes "follows V e0 e" and "dev_inv d"
  shows "follows V e0 (e\<lparr>en_heap := en_heap e @ [(d, None)]\<rparr>)"
  using follows_heap [of V e0 e "length (en_heap e)" "dev_at e (length (en_heap e))" _ "[(d, None)]"] assms heap_append
  by (simp add: follows_def found_ok_def list_update_beyond)

lemma heap_parent: "heap_ok h \<Longrightarrow> a < length h \<Longrightarrow> snd (h ! a) = Some p \<Longrightarrow> p < length h"
  using nth_mem [of a h] unfolding heap_ok_def by (auto simp: split_beta)

lemma cell_parent_valid:
  "cell_parent a e = Some (r, e') \<Longrightarrow> heap_ok (en_heap e) \<Longrightarrow> a < length (en_heap e) \<Longrightarrow>
    e' = e \<and> (\<forall>p. r = Inr p \<longrightarrow> p < length (en_heap e))"
  using heap_parent by (auto simp: cell_parent_def split: option.splits)

lemma heap_new_parent: "heap_ok h \<Longrightarrow> dev_inv d \<Longrightarrow> dev_inv p \<Longrightarrow> heap_ok (h[a := (d, Some (length h))] @ [(p, None)])"
  using set_update_subset_insert [of h a "(d, Some (length h))"] by (fastforce simp: heap_ok_def)

lemma cell_get_parent_follows:
  assumes f: "follows V e0 e" and a: "a < length (en_heap e)" and c: "cell_get_parent V a e = Some (r, e')"
  shows "follows V e0 e' \<and> (\<forall>p. r = Inr p \<longrightarrow> p < length (en_heap e'))"
proof -
  let ?d = "(dev_at e a)\<lparr>d_parent_set := True\<rparr>"
  have h: "heap_ok (en_heap e)" using f by (simp add: follows_def found_ok_def)
  have d: "dev_inv ?d" using heap_dev [OF h a] stays_parent_set [of "dev_at e a" True] by (simp add: stays_def)
  consider (cached) "cell_parent a e = Some (r, e')" | (err) "e' = e" "\<exists>x. r = Inl x"
    | (new) p where "dev_inv p" "cell_parent a (e\<lparr>en_heap := (en_heap e)[a := (?d, Some (length (en_heap e)))] @ [(p, None)]\<rparr>) = Some (r, e')"
    | (none) "cell_parent a (e\<lparr>en_heap := (en_heap e)[a := (?d, snd (en_heap e ! a))] @ []\<rparr>) = Some (r, e')"
    using c by (auto simp: cell_get_parent_def Let_def split: if_splits option.splits sum.splits dest: new_from_child_inv)
  then show ?thesis
  proof cases
    case cached
    from cell_parent_valid [OF this h a] f show ?thesis by auto
  next
    case err
    then show ?thesis using f by auto
  next
    case new
    note hn = heap_new_parent [OF h d new(1)]
    from cell_parent_valid [OF new(2)] hn follows_heap [OF f _ hn] a show ?thesis by auto
  next
    case none
    have hn: "heap_ok ((en_heap e)[a := (?d, snd (en_heap e ! a))] @ [])" using heap_update [OF h d] by simp
    from cell_parent_valid [OF none] hn follows_heap [OF f _ hn] a show ?thesis by auto
  qed
qed

lemma follows_trans: "follows V e0 e \<Longrightarrow> follows V e e' \<Longrightarrow> follows V e0 e'"
  using grows_trans by (auto simp: follows_def)

lemma follows_self: "follows V e0 e \<Longrightarrow> follows V e e"
  by (simp add: follows_def)

lemma tested_follows:
  assumes "follows V e0 e" and "a < length (en_heap e)" and "test_matches V a flags e = Some (r, e')"
  shows "follows V e0 e'" "a < length (en_heap e')"
proof -
  have "follows V e e'" using maintainsD [OF test_matches_keeps [OF assms(2)] follows_self [OF assms(1)] assms(3)] .
  then show "follows V e0 e'" "a < length (en_heap e')"
    using assms(1,2) follows_trans grows_length by (auto simp: follows_def)
qed

lemma added_follows:
  assumes "follows V e0 e" and "a < length (en_heap e)" and "flags AND FLAG_SUBSYSTEM \<noteq> 0"
    and "test_matches V a flags e = Some (Inr True, e1)" and "add_device a e1 = Some (r, e')"
  shows "follows V e0 e'" "a < length (en_heap e')"
proof -
  note t = tested_follows [OF assms(1,2,4)]
  have "follows V e1 e'"
    using add_device_follows [OF follows_self [OF t(1)] t(2) test_matches_passes [OF assms(4,3,2)] assms(5)] .
  then show "follows V e0 e'" "a < length (en_heap e')"
    using t follows_trans grows_length by (auto simp: follows_def)
qed

lemma dmatch_Some: "dmatch m f e = Some (r, e') \<longleftrightarrow> (\<exists>x e1. m e = Some (x, e1) \<and> f x e1 = Some (r, e'))"
  by (auto simp: dmatch_def split: option.splits)

lemma dbind_Some: "dbind m f e = Some (r, e') \<longleftrightarrow>
    (\<exists>x. m e = Some (Inl x, e') \<and> r = Inl x) \<or> (\<exists>x e1. m e = Some (Inr x, e1) \<and> f x e1 = Some (r, e'))"
  by (auto simp: dbind_def split: option.splits sum.splits)

lemma add_parent_devices_follows:
  assumes "flags AND FLAG_SUBSYSTEM \<noteq> 0"
  shows "follows V e0 e \<Longrightarrow> a < length (en_heap e) \<Longrightarrow> add_parent_devices n V a flags e = Some (r, e') \<Longrightarrow> follows V e0 e'"
proof (induction n arbitrary: a e)
  case 0
  then show ?case by (simp add: dpanic_def)
next
  case (Suc n)
  obtain x e1 where c: "cell_get_parent V a e = Some (x, e1)"
    and rest: "(case x of Inl err \<Rightarrow> if err = ENOENT then dret () else derr err
       | Inr p \<Rightarrow> dbind (test_matches V p flags) (\<lambda>b.
         if \<not> b then add_parent_devices n V p flags
         else dbind (add_device p) (\<lambda>b. if \<not> b then dret () else add_parent_devices n V p flags))) e1 = Some (r, e')"
    using Suc.prems(3) unfolding add_parent_devices.simps dmatch_Some by blast
  note f1 = cell_get_parent_follows [OF Suc.prems(1,2) c]
  show ?case
  proof (cases x)
    case (Inl err)
    then show ?thesis using rest f1 by (auto simp: dret_def derr_def split: if_splits)
  next
    case (Inr p)
    then have p: "follows V e0 e1" "p < length (en_heap e1)" using f1 by auto
    consider (err) y where "test_matches V p flags e1 = Some (y, e')"
      | (no) e2 where "test_matches V p flags e1 = Some (Inr False, e2)" "add_parent_devices n V p flags e2 = Some (r, e')"
      | (last) e2 y where "test_matches V p flags e1 = Some (Inr True, e2)" "add_device p e2 = Some (y, e')"
      | (up) e2 e3 y where "test_matches V p flags e1 = Some (Inr True, e2)" "add_device p e2 = Some (Inr y, e3)"
          "add_parent_devices n V p flags e3 = Some (r, e')"
      using rest Inr by (auto simp: dbind_Some dret_def split: if_splits)
    then show ?thesis
      using Suc.IH tested_follows [OF p] added_follows [OF p assms] by cases blast+
  qed
qed

lemma alloc_new: "follows V e0 e \<Longrightarrow> dev_inv d \<Longrightarrow> alloc_dev d e = Some (r, e') \<Longrightarrow>
    follows V e0 e' \<and> r = Inr (length (en_heap e)) \<and> length (en_heap e) < length (en_heap e')"
  using alloc_follows by (auto simp: alloc_dev_def)

lemma subsystem_flags [simp]: "FLAG_ALL AND FLAG_SUBSYSTEM \<noteq> 0" "(FLAG_ALL AND NOT FLAG_SYSNAME) AND FLAG_SUBSYSTEM \<noteq> 0"
  "(FLAG_ALL AND NOT FLAG_PARENT) AND FLAG_SUBSYSTEM \<noteq> 0" "(FLAG_ALL AND NOT (FLAG_SYSNAME OR FLAG_PARENT)) AND FLAG_SUBSYSTEM \<noteq> 0"
  by (simp_all add: FLAG_ALL_def FLAG_SUBSYSTEM_def FLAG_SYSNAME_def FLAG_PARENT_def)

lemma keep_err_Some: "keep_err m ret e = Some (r, e') \<Longrightarrow> \<exists>x. m e = Some (x, e')"
  by (auto simp: keep_err_def dmatch_Some dret_def)

lemma keep_err_keeps [maintains_intros]: "maintains I m \<Longrightarrow> maintains I (keep_err m ret)"
  unfolding keep_err_def by (intro maintains_intros)

lemma parent_add_child_follows:
  assumes "flags AND FLAG_SUBSYSTEM \<noteq> 0"
  shows "maintains (follows V e0) (parent_add_child V path flags)"
  unfolding maintains_def
proof (intro allI impI)
  fix e r e'
  assume f: "follows V e0 e" and c: "parent_add_child V path flags e = Some (r, e')"
  show "follows V e0 e'"
  proof (cases "\<exists>d. from_syspath (ev_sys V) path True = Some (Inr d)")
    case False
    then show ?thesis using f c
      by (auto simp: parent_add_child_def dpanic_def derr_def split: option.splits sum.splits)
  next
    case True
    then obtain d where d: "from_syspath (ev_sys V) path True = Some (Inr d)" by blast
    define a e1 where "a = length (en_heap e)" and "e1 = e\<lparr>en_heap := en_heap e @ [(d, None)]\<rparr>"
    have al: "alloc_dev d e = Some (Inr a, e1)" by (simp add: alloc_dev_def a_def e1_def)
    note f1 = alloc_new [OF f from_syspath_inv [OF d] al]
    then have p: "follows V e0 e1" "a < length (en_heap e1)" by auto
    consider (no) y where "test_matches V a flags e1 = Some (y, e')"
      | (add) e2 y where "test_matches V a flags e1 = Some (Inr True, e2)" "add_device a e2 = Some (y, e')"
      using c by (auto simp: parent_add_child_def d dbind_Some [of "alloc_dev d"] al dbind_Some dret_def split: if_splits)
    then show ?thesis using tested_follows [OF p] added_follows [OF p assms] by cases blast+
  qed
qed

lemma add_found_follows [maintains_intros]: "maintains (follows V e0) (add_found V path ret)"
  unfolding maintains_def
proof (intro allI impI)
  fix e r e'
  assume f: "follows V e0 e" and c: "add_found V path ret e = Some (r, e')"
  let ?flags = "FLAG_ALL AND NOT FLAG_SYSNAME"
  show "follows V e0 e'"
  proof (cases "\<exists>d. from_syspath (ev_sys V) path True = Some (Inr d)")
    case False
    then show ?thesis using f c by (auto simp: add_found_def dpanic_def dret_def split: option.splits sum.splits)
  next
    case True
    then obtain d where d: "from_syspath (ev_sys V) path True = Some (Inr d)" by blast
    define a e1 where "a = length (en_heap e)" and "e1 = e\<lparr>en_heap := en_heap e @ [(d, None)]\<rparr>"
    have al: "alloc_dev d e = Some (Inr a, e1)" by (simp add: alloc_dev_def a_def e1_def)
    note f1 = alloc_new [OF f from_syspath_inv [OF d] al]
    then have p: "follows V e0 e1" "a < length (en_heap e1)" by auto
    obtain x e2 where x: "test_matches V a ?flags e1 = Some (x, e2)" and r: "(case x of
             Inl err \<Rightarrow> dret (Inl err)
           | Inr False \<Rightarrow> dret ret
           | Inr True \<Rightarrow> dbind (keep_err (add_device a) ret) (keep_err (add_parent_devices (ev_bound V) V a FLAG_ALL))) e2 = Some (r, e')"
      using c by (auto simp: add_found_def d dbind_Some [of "alloc_dev d"] al dmatch_Some)
    consider (no) "x \<noteq> Inr True" "e' = e2"
      | (add) e3 y z where "x = Inr True" "add_device a e2 = Some (y, e3)"
          "e3 = e' \<or> add_parent_devices (ev_bound V) V a FLAG_ALL e3 = Some (z, e')"
      using r by (cases x) (auto simp: dbind_Some dret_def split: bool.splits dest!: keep_err_Some)
    then show ?thesis
    proof cases
      case no
      then show ?thesis using tested_follows [OF p x] by simp
    next
      case add
      note f3 = added_follows [OF p subsystem_flags(2) x [unfolded add(1)] add(2)]
      then show ?thesis using add(3) add_parent_devices_follows [OF subsystem_flags(1) f3] by blast
    qed
  qed
qed

lemma each_entry_keeps [maintains_intros]: "(\<And>x ret. maintains I (f x ret)) \<Longrightarrow> maintains I (each_entry f xs ret)"
  by (induction xs arbitrary: ret) (auto intro: maintains_intros)

lemma scan_keeps [maintains_intros]:
  "maintains (follows V e0) (scan_entry V entry ret)" "maintains (follows V e0) (scan_dir_and_add_devices V b subs)"
  "maintains (follows V e0) (scan_dir_entry V b sd ss entry ret)" "maintains (follows V e0) (scan_dir V b sd ss)"
proof -
  show e: "maintains (follows V e0) (scan_entry V entry ret)" for entry ret
    unfolding scan_entry_def by (intro maintains_intros)
  show d: "maintains (follows V e0) (scan_dir_and_add_devices V b subs)" for b subs
    unfolding scan_dir_and_add_devices_def by (intro maintains_intros e)
  show s: "maintains (follows V e0) (scan_dir_entry V b sd ss entry ret)" for entry ret
    unfolding scan_dir_entry_def by (intro maintains_intros d)
  show "maintains (follows V e0) (scan_dir V b sd ss)"
    unfolding scan_dir_def by (intro maintains_intros s)
qed

lemma crawl_keeps [maintains_intros]:
  "maintains (follows V e0) (crawl_entry V entry acc)" "maintains (follows V e0) (crawl_entries V es acc)"
  "maintains (follows V e0) (crawl V path acc)" "maintains (follows V e0) (crawl_parents V ps acc)"
  "maintains (follows V e0) (crawl_stack n V acc)"
proof -
  show x: "maintains (follows V e0) (crawl_entry V entry acc)" for entry acc
    unfolding crawl_entry_def by (intro maintains_intros parent_add_child_follows subsystem_flags)
  show xs: "maintains (follows V e0) (crawl_entries V es acc)" for es acc
    by (induction es arbitrary: acc) (auto intro: maintains_intros x)
  show c: "maintains (follows V e0) (crawl V path acc)" for path acc
    unfolding crawl_def parent_crawl_children_def by (intro maintains_intros xs)
  show "maintains (follows V e0) (crawl_parents V ps acc)"
    by (induction ps arbitrary: acc) (auto intro!: maintains_intros c parent_add_child_follows subsystem_flags)
  show "maintains (follows V e0) (crawl_stack n V acc)"
    by (induction n arbitrary: acc) (auto intro: maintains_intros c split: list.split)
qed

lemma scan_parts_keep [maintains_intros]:
  "maintains (follows V e0) (scan_devices_children V)" "maintains (follows V e0) (scan_devices_all V)"
  "maintains (follows V e0) (scan_subsystems_all V)" "maintains (follows V e0) scan_devices_tags"
  unfolding scan_devices_children_def scan_devices_all_def scan_subsystems_all_def if_subsystem_def
  by (intro maintains_intros)+ (auto simp: maintains_def scan_devices_tags_def split: if_splits)

section \<open>The enumerator under its methods\<close>

lemma found_etype: "found_ok V (e\<lparr>en_etype := t\<rparr>) \<longleftrightarrow> found_ok V e"
  using passes_core [of V e _ "e\<lparr>en_etype := t\<rparr>", OF _ _ stays_refl] passes_core [of V "e\<lparr>en_etype := t\<rparr>" _ e, OF _ _ stays_refl]
  by (auto simp: found_ok_def sys_key_def dev_at_def core_filters_def)

lemma found_fresh: "found_ok V (e\<lparr>en_scan_up_to_date := b\<rparr>) \<longleftrightarrow> found_ok V e"
  using passes_core [of V e _ "e\<lparr>en_scan_up_to_date := b\<rparr>", OF _ _ stays_refl]
    passes_core [of V "e\<lparr>en_scan_up_to_date := b\<rparr>" _ e, OF _ _ stays_refl]
  by (auto simp: found_ok_def sys_key_def dev_at_def core_filters_def)

lemma scanned_keeps [maintains_intros]: "maintains (follows V e0) (scanned t ret)"
  unfolding scanned_def
  by (intro maintains_intros) (auto simp: follows_def found_etype found_fresh grows_def filters_def dev_at_def)

lemma rescan_follows:
  assumes "maintains (follows V (e\<lparr>en_by_syspath := [], en_devices := []\<rparr>)) m" and "heap_ok (en_heap e)"
    and "dbind clear_devices (\<lambda>_. m) e = Some (r, e')"
  shows "found_ok V e' \<and> filters e' = filters e \<and> en_devices e' = []"
proof -
  let ?e = "e\<lparr>en_by_syspath := [], en_devices := []\<rparr>"
  have "follows V ?e ?e" using assms(2) by (simp add: follows_def found_ok_def)
  moreover have "m ?e = Some (r, e')" using assms(3) by (simp add: clear_devices_def dbind_def dput_def)
  ultimately have "follows V ?e e'" using assms(1) by (auto dest: maintainsD)
  then show ?thesis by (simp add: follows_def grows_def filters_def)
qed

lemma scan_found:
  assumes "heap_ok (en_heap e)" and "\<not> (en_scan_up_to_date e \<and> en_etype e = t)" and "scan_of_type V t e = Some (r, e')"
  shows "found_ok V e' \<and> filters e' = filters e \<and> en_devices e' = []"
proof -
  have f: "maintains (follows V e0) (scan_filtered V m)" if "maintains (follows V e0) m" for e0 m
    unfolding scan_filtered_def by (intro maintains_intros that)
  define m where "m = (case t of
       Enum_Devices \<Rightarrow> dbind (scan_filtered V (keep_err (scan_devices_all V) (Inr ()))) (scanned t)
     | Enum_Subsystems \<Rightarrow> dbind (keep_err (scan_subsystems_all V) (Inr ())) (scanned t)
     | Enum_All \<Rightarrow> dbind (scan_filtered V (dbind (keep_err (scan_devices_all V) (Inr ()))
            (keep_err (scan_subsystems_all V)))) (scanned t))"
  have "maintains (follows V e0) m" for e0
    by (cases t) (simp_all add: m_def f maintains_intros)
  moreover have "dbind clear_devices (\<lambda>_. m) e = Some (r, e')"
    using assms(2,3)
    by (cases t) (auto simp: m_def scan_of_type_def scan_devices_def scan_subsystems_def scan_devices_and_subsystems_def
        dbind_def [of "dget _"] dget_def split: if_splits)
  ultimately show ?thesis by (rule rescan_follows [OF _ assms(1)])
qed

definition enum_inv :: "enum_env \<Rightarrow> enumerator \<Rightarrow> bool" where
  "enum_inv V e \<longleftrightarrow> heap_ok (en_heap e) \<and>
     (en_scan_up_to_date e \<longrightarrow> found_ok V e \<and> set (en_devices e) \<subseteq> snd ` set (en_by_syspath e))"

definition listed_ok :: "enum_env \<Rightarrow> enumerator \<Rightarrow> bool" where
  "listed_ok V e \<longleftrightarrow> found_ok V e \<and> set (en_devices e) \<subseteq> snd ` set (en_by_syspath e)"

lemma listed_inv: "listed_ok V e \<Longrightarrow> enum_inv V e"
  by (simp add: listed_ok_def enum_inv_def found_ok_def)

lemma listed_passes: "listed_ok V e \<Longrightarrow> a \<in> set (en_devices e) \<Longrightarrow> passes V e (dev_at e a)"
  unfolding listed_ok_def found_ok_def by fastforce

lemma scan_if_stale:
  assumes "enum_inv V e" and "(if en_scan_up_to_date e then dret () else scan_of_type V (en_etype e)) e = Some (r, e')"
  shows "listed_ok V e' \<and> filters e' = filters e"
proof (cases "en_scan_up_to_date e")
  case True
  then show ?thesis using assms by (simp add: dret_def enum_inv_def listed_ok_def)
next
  case False
  then show ?thesis using assms scan_found [of e "en_etype e" V r e'] by (simp add: enum_inv_def listed_ok_def)
qed

lemma sorted_listed:
  assumes V: "order_ok V" and f: "found_ok V e" and "sort_devices V e = Some (r, e')" and u: "\<not> en_sorted e"
  shows "listed_ok V e' \<and> filters e' = filters e"
proof -
  let ?as = "map snd (en_by_syspath e)"
  note s = found_sortable [OF f] and w = found_with_map [OF f]
  obtain ds bs where e': "e' = (with_map e bs)\<lparr>en_devices := ds, en_sorted := True\<rparr>" and m: "mset bs = mset ?as" "mset ds = mset ?as"
    using sort_devices_ok [OF V s u] assms(3) unfolding w by auto
  have eq: "set bs = set ?as" "set ds = set ?as" using m by (metis set_mset_mset)+
  have fl: "filters e' = filters e" by (simp add: e' filters_def with_map_def)
  have d: "dev_at e' = dev_at e" by (simp add: e' dev_at_def with_map_def fun_eq_iff)
  have p: "passes V e' x \<longleftrightarrow> passes V e x" for x using passes_stays fl by (metis stays_refl)
  have mp: "en_by_syspath e' = entries e bs" by (simp add: e')
  have "distinct (map fst (en_by_syspath e'))"
    using s m(1) mset_distinct_map unfolding mp fst_entries sortable_def by blast
  moreover have "a < length (en_heap e) \<and> passes V e (dev_at e a)" if "a \<in> set bs" for a
    using that f by (auto simp: eq found_ok_def)
  ultimately have "found_ok V e'"
    using f p d by (auto simp: found_ok_def mp sys_key_def entries_def) (simp_all add: e')
  then show ?thesis using fl eq by (simp add: listed_ok_def mp entries_def image_image) (simp add: e')
qed

lemma next_listed:
  assumes V: "order_ok V" and i: "enum_inv V e" and n: "enumerator_next V i e = Some (r, e')"
  shows "enum_inv V e' \<and> filters e' = filters e \<and> (\<forall>a j. r = Inr (Some a, j) \<longrightarrow> passes V e' (dev_at e' a))"
proof -
  obtain r1 e1 where s: "(if en_scan_up_to_date e then dret () else scan_of_type V (en_etype e)) e = Some (r1, e1)"
    and k: "(case r1 of Inl _ \<Rightarrow> dret (None, i)
       | Inr _ \<Rightarrow> dbind (dget en_sorted) (\<lambda>done.
           dmatch (if done then dret () else sort_devices V) (\<lambda>r. case r of
               Inl _ \<Rightarrow> dret (None, i)
             | Inr _ \<Rightarrow> dget (\<lambda>e. if i < length (en_devices e) then (Some (en_devices e ! i), Suc i) else (None, i))))) e1 = Some (r, e')"
    using n by (auto simp: enumerator_next_def dbind_def [of "dget _"] dget_def dmatch_Some)
  note l1 = scan_if_stale [OF i s]
  show ?thesis
  proof (cases r1)
    case (Inl err)
    then show ?thesis using k l1 listed_inv by (auto simp: dret_def)
  next
    case (Inr u)
    obtain r2 e2 where t: "(if en_sorted e1 then dret () else sort_devices V) e1 = Some (r2, e2)"
      and k2: "(case r2 of Inl _ \<Rightarrow> dret (None, i)
             | Inr _ \<Rightarrow> dget (\<lambda>e. if i < length (en_devices e) then (Some (en_devices e ! i), Suc i) else (None, i))) e2 = Some (r, e')"
      using k Inr by (auto simp: dbind_def [of "dget _"] dget_def dmatch_Some)
    have l2: "listed_ok V e2 \<and> filters e2 = filters e"
      using l1 t sorted_listed [OF V, of e1 r2 e2] by (auto simp: dret_def listed_ok_def split: if_splits)
    then show ?thesis
      using k2 listed_inv listed_passes by (auto simp: dret_def dget_def split: sum.splits if_splits)
  qed
qed

text \<open>The methods a client calls on an enumerator, in any order.\<close>

datatype enum_call = E_type enumeration_type | E_prioritized string | E_subsystem string bool | E_sysattr string string bool
  | E_property string string | E_sysname string bool | E_tag string | E_parent_incremental device | E_parent device
  | E_uninitialized | E_initialized match_initialized_type | E_next nat | E_get_devices

definition enum_step :: "enum_env \<Rightarrow> enum_call \<Rightarrow> enumerator \<Rightarrow> enumerator option" where
  "enum_step V c e = (case c of
       E_type t \<Rightarrow> Some (set_enumerator_type t e)
     | E_prioritized s \<Rightarrow> Some (add_prioritized_subsystem s e)
     | E_subsystem s b \<Rightarrow> Some (add_match_subsystem s b e)
     | E_sysattr k v b \<Rightarrow> Some (add_match_sysattr k v b e)
     | E_property k v \<Rightarrow> Some (add_match_property k v e)
     | E_sysname s b \<Rightarrow> Some (add_match_sysname s b e)
     | E_tag t \<Rightarrow> Some (add_match_tag t e)
     | E_parent_incremental d \<Rightarrow> map_option snd (add_match_parent_incremental d e)
     | E_parent d \<Rightarrow> map_option snd (add_match_parent d e)
     | E_uninitialized \<Rightarrow> Some (allow_uninitialized e)
     | E_initialized t \<Rightarrow> Some (add_match_is_initialized t e)
     | E_next i \<Rightarrow> map_option snd (enumerator_next V i e)
     | E_get_devices \<Rightarrow> map_option snd (get_devices V e))"

fun enum_run :: "enum_env \<Rightarrow> enum_call list \<Rightarrow> enumerator \<Rightarrow> enumerator option" where
  "enum_run V [] e = Some e"
| "enum_run V (c # cs) e = Option.bind (enum_step V c e) (enum_run V cs)"

lemma stale_inv: "enum_inv V e \<Longrightarrow> en_heap e' = en_heap e \<Longrightarrow> \<not> en_scan_up_to_date e' \<Longrightarrow> enum_inv V e'"
  by (simp add: enum_inv_def)

lemma type_inv: "enum_inv V e \<Longrightarrow> enum_inv V (set_enumerator_type t e)"
  by (simp add: set_enumerator_type_def enum_inv_def found_etype)

lemma parent_filter_inv: "listed_ok V e \<Longrightarrow> listed_ok V (e\<lparr>en_match_parent := ps\<rparr>)"
  using passes_core [of V e _ "e\<lparr>en_match_parent := ps\<rparr>", OF _ _ stays_refl]
  by (auto simp: listed_ok_def found_ok_def sys_key_def dev_at_def core_filters_def)

lemma get_devices_inv:
  assumes V: "order_ok V" and i: "enum_inv V e" and g: "get_devices V e = Some (r, e')"
  shows "enum_inv V e'"
proof (cases "en_scan_up_to_date e \<and> \<not> en_sorted e")
  case True
  then have f: "found_ok V e" using i by (simp add: enum_inv_def)
  obtain x where "sort_devices V e = Some (x, e')"
    using g True
    by (auto simp: get_devices_def dbind_def [of "dget _"] dget_def dmatch_Some)
      (auto simp: dret_def dget_def split: sum.splits)
  then show ?thesis using sorted_listed [OF V f] True listed_inv by blast
next
  case False
  then have "e' = e"
    using g by (auto simp: get_devices_def sort_devices_def dbind_def dget_def dmatch_def dret_def split: if_splits)
  then show ?thesis using i by simp
qed

lemmas setter_defs = add_prioritized_subsystem_def add_match_subsystem_def add_match_sysattr_def add_match_property_def
  add_match_sysname_def add_match_tag_def allow_uninitialized_def add_match_is_initialized_def

lemma incremental_inv: "enum_inv V e \<Longrightarrow> add_match_parent_incremental d e = Some (r, e') \<Longrightarrow> enum_inv V e'"
  by (auto simp: add_match_parent_incremental_def derr_def dput_def enum_inv_def split: option.splits)

lemma enum_step_inv:
  assumes V: "order_ok V" and i: "enum_inv V e" and s: "enum_step V c e = Some e'"
  shows "enum_inv V e'"
proof (cases c)
  case (E_parent d)
  let ?e = "e\<lparr>en_match_parent := []\<rparr>"
  have "enum_inv V ?e" using i parent_filter_inv [of V e "[]"] by (simp add: enum_inv_def listed_ok_def)
  then show ?thesis
    using s E_parent incremental_inv [of V ?e d] by (auto simp: enum_step_def add_match_parent_def dbind_Some dput_def dbind_def split: option.splits sum.splits)
next
  case (E_next n)
  then show ?thesis using s next_listed [OF V i] by (auto simp: enum_step_def)
next
  case E_get_devices
  then show ?thesis using s get_devices_inv [OF V i] by (auto simp: enum_step_def)
next
  case (E_parent_incremental d)
  then show ?thesis using s incremental_inv [OF i] by (auto simp: enum_step_def)
next
  case (E_type t)
  then show ?thesis using s type_inv [OF i] by (auto simp: enum_step_def)
qed (use s stale_inv [OF i] in \<open>auto simp: enum_step_def setter_defs\<close>)

lemma enum_run_inv: "order_ok V \<Longrightarrow> enum_inv V e \<Longrightarrow> enum_run V cs e = Some e' \<Longrightarrow> enum_inv V e'"
  by (induction cs arbitrary: e) (auto simp: bind_eq_Some_conv dest: enum_step_inv)

lemma enum_inv_new: "enum_inv V enumerator_new"
  by (simp add: enum_inv_def enumerator_new_def heap_ok_def)

text \<open>(C36) Whatever filters were set and however often the enumerator was iterated before: a device that
  the iterator yields has passed the subsystem and the property filters that are set at that moment, and yielding it changes no filter.\<close>

theorem enumerated_devices_match:
  assumes V: "order_ok V" and run: "enum_run V calls enumerator_new = Some e"
    and n: "enumerator_next V i e = Some (Inr (Some a, j), e')"
  shows "match_subsystem V (d_subsystem (dev_at e' a)) e' = Inr True \<and> match_property V (dev_at e' a) e' = Inr True \<and>
    d_syspath (dev_at e' a) \<noteq> [] \<and> filters e' = filters e"
  using next_listed [OF V enum_run_inv [OF V enum_inv_new run] n] by (simp add: passes_def)


section \<open>A concrete tree\<close>

definition demo_tree :: sysfs where
  "demo_tree = demo_sysfs\<lparr>fs_canonicalize := (\<lambda>p.
     if p \<in> set [''/sys/bus'', ''/sys/class'', ''/sys/class/tty'', ''/sys/devices/x'', ''/sys/devices/y''] then Inr p
     else if p = ''/sys/class/tty/x'' then Inr ''/sys/devices/x''
     else if p = ''/sys/class/tty/y'' then Inr ''/sys/devices/y''
     else if p \<in> set [''/sys/devices/x/subsystem'', ''/sys/devices/y/subsystem''] then Inr ''/sys/class/tty''
     else Inl (Some ENOENT)),
   fs_exists := (\<lambda>p. p \<in> set [''/sys/devices/x/uevent'', ''/sys/devices/x/subsystem'', ''/sys/devices/y/uevent'', ''/sys/devices/y/subsystem''])\<rparr>"

definition demo_dirent :: "string \<Rightarrow> string \<Rightarrow> file_kind \<Rightarrow> io_error + dirent" where
  "demo_dirent dir n k = Inr \<lparr>de_name = n, de_path = dir @ ''/'' @ n, de_type = Inr k\<rparr>"

definition demo_enum_env :: enum_env where
  "demo_enum_env = \<lparr>ev_sys = demo_tree,
     ev_read_dir = (\<lambda>p. if p = ''/sys/bus'' then Inr []
       else if p = ''/sys/class'' then Inr [demo_dirent p ''tty'' Kind_Dir]
       else if p = ''/sys/class/tty'' then Inr [demo_dirent p ''y'' Kind_Symlink, demo_dirent p ''x'' Kind_Symlink]
       else Inl (Some ENOENT)),
     ev_glob = (\<lambda>p. Some (\<lambda>s. p = s)), ev_regex = (\<lambda>p. Some (\<lambda>s. p = s)), ev_order = (\<lambda>ks. ks), ev_bound = 5\<rparr>"

definition yielded :: "(os_errno + (nat option \<times> nat)) \<times> enumerator \<Rightarrow> string option" where
  "yielded r = (case r of (Inr (Some a, _), e) \<Rightarrow> get_syspath (dev_at e a) | _ \<Rightarrow> None)"

definition first_of :: "enum_call list \<Rightarrow> string option option" where
  "first_of cs = map_option yielded (Option.bind (enum_run demo_enum_env cs enumerator_new) (enumerator_next demo_enum_env 0))"

lemma first_tty: "first_of [E_subsystem ''tty'' True, E_property ''SUBSYSTEM'' ''tty''] = Some (Some ''/sys/devices/x'')"
  by code_simp

lemma demo_order: "order_ok demo_enum_env"
  by (simp add: order_ok_def demo_enum_env_def)

theorem enumerated_devices_match_witness:
  "\<exists>e e' a j. enum_run demo_enum_env [E_subsystem ''tty'' True, E_property ''SUBSYSTEM'' ''tty''] enumerator_new = Some e \<and>
     enumerator_next demo_enum_env 0 e = Some (Inr (Some a, j), e') \<and>
     match_subsystem demo_enum_env (d_subsystem (dev_at e' a)) e' = Inr True \<and>
     match_property demo_enum_env (dev_at e' a) e' = Inr True \<and> d_syspath (dev_at e' a) \<noteq> [] \<and> filters e' = filters e"
proof -
  let ?cs = "[E_subsystem ''tty'' True, E_property ''SUBSYSTEM'' ''tty'']"
  obtain e r e' where e: "enum_run demo_enum_env ?cs enumerator_new = Some e" "enumerator_next demo_enum_env 0 e = Some (r, e')"
    and y: "yielded (r, e') \<noteq> None"
    using first_tty unfolding first_of_def by (auto simp: bind_eq_Some_conv)
  obtain a j where r: "r = Inr (Some a, j)"
    using y by (auto simp: yielded_def split: sum.splits prod.splits option.splits)
  show ?thesis using enumerated_devices_match [OF demo_order e(1) e(2) [unfolded r]] e r by blast
qed

definition demo_filled :: enumerator where
  "demo_filled = snd (the (scan_of_type demo_enum_env Enum_Devices (add_prioritized_subsystem ''tty'' enumerator_new)))"

lemma demo_filled_scan: "scan_of_type demo_enum_env Enum_Devices (add_prioritized_subsystem ''tty'' enumerator_new) \<noteq> None"
  by code_simp

lemma demo_filled_ok: "found_ok demo_enum_env demo_filled"
proof -
  let ?e = "add_prioritized_subsystem ''tty'' enumerator_new"
  obtain r e where e: "scan_of_type demo_enum_env Enum_Devices ?e = Some (r, e)" using demo_filled_scan by fast
  have "heap_ok (en_heap ?e)" "\<not> (en_scan_up_to_date ?e \<and> en_etype ?e = Enum_Devices)"
    by (simp_all add: add_prioritized_subsystem_def enumerator_new_def heap_ok_def)
  from scan_found [OF this e] show ?thesis by (simp add: demo_filled_def e)
qed

lemma demo_filled_unsorted: "\<not> en_sorted demo_filled" "map fst (en_by_syspath demo_filled) = [''/sys/devices/y'', ''/sys/devices/x'']"
  by code_simp+


section \<open>Where the enumeration goes wrong\<close>

text \<open>A new device is reported as a known one, and does not unset \<open>sorted\<close>.\<close>

lemma new_device_reported_known:
  assumes "d_syspath (dev_at e a) \<noteq> []" and "map_of (en_by_syspath e) (d_syspath (dev_at e a)) = None"
  shows "\<exists>e'. add_device a e = Some (Inr False, e') \<and> en_sorted e' = en_sorted e \<and>
    map_of (en_by_syspath e') (d_syspath (dev_at e a)) = Some a"
  using assms by (auto simp: add_device_def get_syspath_def AList.update_Some_unfold AList.update_conv)

text \<open>So after a first iteration a further filter leaves nothing to enumerate, although a fresh enumerator with this
  filter finds the device.\<close>

lemma second_filter_yields_nothing:
  "first_of [E_property ''SUBSYSTEM'' ''tty''] = Some (Some ''/sys/devices/x'')"
  "first_of [E_next 0, E_property ''SUBSYSTEM'' ''tty''] = Some None"
  by code_simp+

text \<open>And the search for parents ends at the first parent that is new.\<close>

lemma first_new_parent_ends:
  assumes "cell_get_parent V a e = Some (Inr p, e1)" and "test_matches V p flags e1 = Some (Inr True, e2)"
    and "d_syspath (dev_at e2 p) \<noteq> []" and "map_of (en_by_syspath e2) (d_syspath (dev_at e2 p)) = None"
  shows "\<exists>e'. add_parent_devices (Suc n) V a flags e = Some (Inr (), e') \<and>
    en_by_syspath e' = AList.update (d_syspath (dev_at e2 p)) p (en_by_syspath e2)"
  using assms by (simp add: dmatch_def dbind_def add_device_def get_syspath_def dret_def)

text \<open>A filter on attributes or tags panics; a filter on a property of the \<open>uevent\<close> file of a device (here
  \<open>MAJOR=8\<close>) does not see it.\<close>

lemma attribute_filter_panics:
  "first_of [E_sysattr ''dev'' ''8:1'' True] = None" "first_of [E_tag ''systemd''] = None"
  "first_of [E_property ''MAJOR'' ''8''] = Some None"
  by code_simp+

text \<open>A device in a directory whose name continues that of the parent is taken for a child.\<close>

lemma sibling_matches_parent:
  "match_parent (device_new\<lparr>d_syspath := ''/sys/devices/ab''\<rparr>) (enumerator_new\<lparr>en_match_parent := [''/sys/devices/a'']\<rparr>)"
  by code_simp

text \<open>The comparison of devices is not an order: each of these two is less than the other.\<close>

lemma device_compare_not_antisymmetric:
  "device_compare (device_new\<lparr>d_devpath := ''/devices/x/sound/card0/pcm''\<rparr>) (device_new\<lparr>d_devpath := ''/devices/x/a/controlC0''\<rparr>) = Some Ord_Less"
  "device_compare (device_new\<lparr>d_devpath := ''/devices/x/a/controlC0''\<rparr>) (device_new\<lparr>d_devpath := ''/devices/x/sound/card0/pcm''\<rparr>) = Some Ord_Less"
  by code_simp+

end
