(* ===== verification/Unit_State.thy ===== *)
theory Unit_State
  imports Prelude
begin

unbundle bit_operations_syntax

text \<open>
  What the job engine sees of a unit: its active state and the flags of a state notification
  (\<^verbatim>\<open>core/lib/unit/state.rs\<close>), its load state and the job modes (\<^verbatim>\<open>core/bin/unit/rentry.rs\<close>), the
  error values (\<^verbatim>\<open>core/lib/error.rs\<close>) and the operations \<open>start\<close>, \<open>stop\<close>, \<open>reload\<close> of \<open>Unit\<close>
  (\<^verbatim>\<open>core/bin/unit/entry/uentry.rs\<close>) with their guards.

  Behind these guards sits a plugin object (\<open>Box<dyn SubUnit>\<close>) that is loaded at run time. It is the
  argument \<open>U\<close> of the definitions: a record of its operations over an arbitrary world \<open>'w\<close>. An
  operation of the plugin returns its result, the state notifications it raised while it ran
  (\<open>Unit::notify\<close>, delivered to the job manager) and the new world. Nothing is assumed of it.
\<close>

section \<open>States, flags, modes and errors\<close>

datatype unit_active_state =
  UnitActive | UnitReloading | UnitInActive | UnitFailed | UnitActivating | UnitDeActivating
  | UnitMaintenance

fun is_active_or_reloading :: "unit_active_state \<Rightarrow> bool" where
  "is_active_or_reloading s = (s = UnitActive \<or> s = UnitReloading)"

fun is_inactive_or_failed :: "unit_active_state \<Rightarrow> bool" where
  "is_inactive_or_failed s = (s = UnitInActive \<or> s = UnitFailed)"

datatype unit_load_state =
  LoadStub | LoadLoaded | LoadNotFound | LoadError | LoadBadSetting | LoadMerged | LoadMasked

type_synonym unit_notify_flags = "8 word"

definition UNIT_NOTIFY_SUCCESS :: unit_notify_flags where
  "UNIT_NOTIFY_SUCCESS = 0"

definition UNIT_NOTIFY_RELOAD_FAILURE :: unit_notify_flags where
  "UNIT_NOTIFY_RELOAD_FAILURE = push_bit 0 1"

definition UNIT_NOTIFY_WILL_AUTO_RESTART :: unit_notify_flags where
  "UNIT_NOTIFY_WILL_AUTO_RESTART = push_bit 1 1"

definition flags_intersects :: "unit_notify_flags \<Rightarrow> unit_notify_flags \<Rightarrow> bool" where
  "flags_intersects a b = (a AND b \<noteq> 0)"

datatype job_mode =
  ModeFail | ModeReplace | ModeReplaceIrreversible | ModeIsolate | ModeFlush
  | ModeIgnoreDependencies | ModeIgnoreRequirements | ModeTrigger

text \<open>The error values; what a variant wraps of another crate is left out, its message is kept.\<close>

datatype error =
  EOF | Parse | PluginLoad string | Confique | Cgroup | Var | Util | Io | Nix | Heed | InvalidData
  | NotFound string | Other string | Shared | ConvertToSysmaster
  | Input | Conflict | NotExisted | Internal | NotSupported | BadRequest
  | EventError string | Timeout | NoCmdFound | SpawnError | LoadErrorMsg string
  | ConfigureError string
  | UnitActionEAgain | UnitActionEAlready | UnitActionEComm | UnitActionEBadR | UnitActionENoExec
  | UnitActionEProto | UnitActionEOpNotSupp | UnitActionENolink | UnitActionEStale
  | UnitActionEFailed | UnitActionEInval | UnitActionEBusy | UnitActionENoent
  | UnitActionECanceled | UnitActionERefuseManualStart | UnitActionERefuseManualStop

section \<open>The unit behind the job engine\<close>

record unit_config =
  IgnoreOnIsolate :: bool
  JobTimeoutSec :: u64
  OnFailureJobMode :: job_mode
  OnSuccessJobMode :: job_mode

text \<open>One call of \<open>Unit::notify\<close>: the unit, the original state, the new state and the flags.\<close>

type_synonym unit_notify =
  "unit_id \<times> unit_active_state \<times> unit_active_state \<times> unit_notify_flags"

type_synonym 'w unit_action = "'w \<Rightarrow> (error + unit) \<times> unit_notify list \<times> 'w"

record 'w unit_ops =
  uo_active_state :: "unit_id \<Rightarrow> 'w \<Rightarrow> unit_active_state"
  uo_load_state :: "unit_id \<Rightarrow> 'w \<Rightarrow> unit_load_state"
  uo_perpetual :: "unit_id \<Rightarrow> 'w \<Rightarrow> bool"
  uo_config :: "unit_id \<Rightarrow> 'w \<Rightarrow> unit_config"
  uo_conditions_test :: "unit_id \<Rightarrow> 'w \<Rightarrow> bool"
  uo_asserts_test :: "unit_id \<Rightarrow> 'w \<Rightarrow> bool"
  uo_can_reload :: "unit_id \<Rightarrow> 'w \<Rightarrow> bool"
  uo_sub_start :: "unit_id \<Rightarrow> 'w unit_action"
  uo_sub_stop :: "unit_id \<Rightarrow> bool \<Rightarrow> 'w unit_action"
  uo_sub_reload :: "unit_id \<Rightarrow> 'w unit_action"

section \<open>The guarded operations of a unit\<close>

definition unit_load_complete :: "'w unit_ops \<Rightarrow> unit_id \<Rightarrow> 'w \<Rightarrow> bool" where
  "unit_load_complete U u w = (uo_load_state U u w \<noteq> LoadStub \<and> uo_load_state U u w \<noteq> LoadMerged)"

definition unit_validate_load_state :: "'w unit_ops \<Rightarrow> unit_id \<Rightarrow> 'w \<Rightarrow> error + unit" where
  "unit_validate_load_state U u w =
     (case uo_load_state U u w of
        LoadStub \<Rightarrow> Inl (LoadErrorMsg (''unexpected load state of unit: '' @ u))
      | LoadMerged \<Rightarrow> Inl (LoadErrorMsg (''unexpected load state of unit: '' @ u))
      | LoadLoaded \<Rightarrow> Inr ()
      | LoadNotFound \<Rightarrow> Inl (LoadErrorMsg (''unit file is not found: '' @ u))
      | LoadError \<Rightarrow> Inl (LoadErrorMsg (''load unit file failed, adjust the unit file: '' @ u))
      | LoadBadSetting \<Rightarrow> Inl (LoadErrorMsg (''unit file '' @ u @ '' has bad setting''))
      | LoadMasked \<Rightarrow> Inl (LoadErrorMsg (''unit file '' @ u @ '' is masked'')))"

definition unit_start :: "'w unit_ops \<Rightarrow> unit_id \<Rightarrow> 'w unit_action" where
  "unit_start U u w =
     (let active_state = uo_active_state U u w in
      if is_active_or_reloading active_state then (Inl UnitActionEAlready, [], w)
      else if active_state = UnitMaintenance then (Inl UnitActionEAgain, [], w)
      else if uo_load_state U u w \<noteq> LoadLoaded then (Inl UnitActionEInval, [], w)
      else if active_state \<noteq> UnitActivating \<and> \<not> uo_conditions_test U u w
        then (Inl UnitActionEInval, [], w)
      else if active_state \<noteq> UnitActivating \<and> \<not> uo_asserts_test U u w
        then (Inl UnitActionEInval, [], w)
      else uo_sub_start U u w)"

definition unit_stop :: "'w unit_ops \<Rightarrow> unit_id \<Rightarrow> bool \<Rightarrow> 'w unit_action" where
  "unit_stop U u force w =
     (if \<not> force \<and> is_inactive_or_failed (uo_active_state U u w)
      then (Inl UnitActionEAlready, [], w)
      else uo_sub_stop U u force w)"

definition unit_reload :: "'w unit_ops \<Rightarrow> unit_id \<Rightarrow> 'w unit_action" where
  "unit_reload U u w =
     (let active_state = uo_active_state U u w in
      if \<not> uo_can_reload U u w then (Inl UnitActionEBadR, [], w)
      else if active_state = UnitReloading then (Inl UnitActionEAgain, [], w)
      else if active_state \<noteq> UnitActive then (Inl UnitActionENoExec, [], w)
      else case uo_sub_reload U u w of
             (Inr (), notes, w') \<Rightarrow> (Inr (), notes, w')
           | (Inl e, notes, w') \<Rightarrow>
               (if e = UnitActionEOpNotSupp
                then (Inr (), notes @ [(u, active_state, active_state, UNIT_NOTIFY_SUCCESS)], w')
                else (Inl e, notes, w')))"

section \<open>Properties\<close>

lemma validate_load_state_ok:
  "unit_validate_load_state U u w = Inr () \<longleftrightarrow> uo_load_state U u w = LoadLoaded"
  by (simp add: unit_validate_load_state_def split: unit_load_state.splits)

lemma validate_load_state_not_EBadR:
  "unit_validate_load_state U u w \<noteq> Inl UnitActionEBadR"
  by (simp add: unit_validate_load_state_def split: unit_load_state.splits)

lemma flags_intersects_success [simp]: "\<not> flags_intersects UNIT_NOTIFY_SUCCESS f"
  by (simp add: flags_intersects_def UNIT_NOTIFY_SUCCESS_def)

end
