(* ===== verification/Service_Conf.thy ===== *)
theory Service_Conf
  imports Rust_Str Unit_State
begin

text \<open>
  Configuration and enumerations of the service unit type: \<^verbatim>\<open>coms/service/src/rentry.rs\<close>, \<open>config.rs\<close>,
  \<open>monitor.rs\<close>, the verification of \<open>unit.rs\<close>, the commands of \<^verbatim>\<open>core/lib/exec/cmd.rs\<close> and the kill
  operations of \<^verbatim>\<open>core/lib/unit/kill.rs\<close>. Options that only reach the spawned process (users,
  directories, environment, limits) are left out of the record; a signal is its name
  (\<open>Signal::as_str\<close>), and \<open>Signal::from_str\<close> is the argument \<open>sig_ok\<close>.
\<close>

type_synonym pid = int
type_synonym signal = string
type_synonym u32 = "32 word"

section \<open>Enumerations\<close>

datatype service_type = Simple | Forking | Oneshot | Notify | Idle | Exec | TypeMax | TypeInvalid

datatype notify_access = NaNone | NaMain

datatype service_restart = RestartNo | OnSuccess | OnFailure | OnWatchdog | OnAbnormal | OnAbort | Always

datatype preserve_mode = PreserveNo | PreserveYes | PreserveRestart

datatype service_state =
  SvDead | SvCondition | SvStartPre | SvStart | SvStartPost | SvRunning | SvExited | SvReload | SvStop
  | SvStopWatchdog | SvStopPost | SvStopSigterm | SvStopSigkill | SvFinalWatchdog | SvFinalSigterm
  | SvFinalSigkill | SvAutoRestart | SvFailed | SvCleaning

datatype service_result =
  Success | FailureProtocol | FailureResources | FailureSignal | FailureStartLimitHit | FailureWatchdog
  | FailureExitCode | FailureCoreDump | FailureTimeout | SkipCondition | ResultInvalid

datatype service_command =
  CmdCondition | CmdStartPre | CmdStart | CmdStartPost | CmdReload | CmdStop | CmdStopPost

datatype notify_state = NsUnknown | NsReady | NsStopping

datatype kill_operation =
  KillTerminate | KillTerminateAndLog | KillRestart | KillKill | KillWatchdog | KillInvalid

datatype kill_mode = ControlGroup | Process | Mixed

text \<open>\<open>nix::sys::wait::WaitStatus\<close>\<close>

datatype wait_status =
  Exited pid int | Signaled pid signal bool | Stopped pid signal | PtraceEvent pid signal int
  | PtraceSyscall pid | Continued pid | StillAlive

fun wait_status_pid :: "wait_status \<Rightarrow> pid option" where
  "wait_status_pid (Exited p _) = Some p"
| "wait_status_pid (Signaled p _ _) = Some p"
| "wait_status_pid (Stopped p _) = Some p"
| "wait_status_pid (PtraceEvent p _ _) = Some p"
| "wait_status_pid (PtraceSyscall p) = Some p"
| "wait_status_pid (Continued p) = Some p"
| "wait_status_pid StillAlive = None"

section \<open>Parsing of single options\<close>

definition service_type_deserialize :: "string \<Rightarrow> service_type" where
  "service_type_deserialize s =
     (if s = ''simple'' then Simple else if s = ''forking'' then Forking
      else if s = ''oneshot'' then Oneshot else if s = ''notify'' then Notify else Simple)"

definition preserve_mode_deserialize :: "string \<Rightarrow> preserve_mode" where
  "preserve_mode_deserialize s =
     (if s = ''no'' then PreserveNo else if s = ''yes'' then PreserveYes
      else if s = ''restart'' then PreserveRestart else PreserveNo)"

definition kill_mode_deserialize :: "string \<Rightarrow> kill_mode" where
  "kill_mode_deserialize s =
     (if s = ''control-group'' then ControlGroup else if s = ''process'' then Process
      else if s = ''mixed'' then Mixed else ControlGroup)"

definition kill_op_to_signal :: "signal \<Rightarrow> kill_operation \<Rightarrow> signal" where
  "kill_op_to_signal kill_signal ko =
     (case ko of
        KillTerminate \<Rightarrow> kill_signal | KillTerminateAndLog \<Rightarrow> kill_signal | KillRestart \<Rightarrow> kill_signal
      | KillKill \<Rightarrow> ''SIGKILL'' | KillWatchdog \<Rightarrow> ''SIGABRT'' | KillInvalid \<Rightarrow> ''SIGTERM'')"

definition USEC_PER_SEC :: u64 where
  "USEC_PER_SEC = 1000000"

definition u64_MAX :: u64 where
  "u64_MAX = - 1"

definition deserialize_timeout :: "u64 \<Rightarrow> u64" where
  "deserialize_timeout timeout =
     (if timeout = 0 then u64_MAX
      else if timeout \<ge> u64_MAX div USEC_PER_SEC then u64_MAX
      else timeout * USEC_PER_SEC)"

text \<open>\<open>Path::join\<close>: an absolute path replaces the prefix.\<close>

definition is_absolute :: "string \<Rightarrow> bool" where
  "is_absolute p = (case p of c # _ \<Rightarrow> c = CHR ''/'' | [] \<Rightarrow> False)"

definition deserialize_pidfile :: "string \<Rightarrow> string" where
  "deserialize_pidfile file = (if is_absolute file then file else ''/run/'' @ file)"

section \<open>Exit status sets\<close>

record exit_status_set =
  es_status :: "8 word list"
  es_signal :: "signal list"

definition exit_status_default :: exit_status_set where
  "exit_status_default = \<lparr>es_status = [], es_signal = []\<rparr>"

definition add_status :: "8 word \<Rightarrow> exit_status_set \<Rightarrow> exit_status_set" where
  "add_status v es = es\<lparr>es_status := es_status es @ [v]\<rparr>"

definition add_signal :: "signal \<Rightarrow> exit_status_set \<Rightarrow> exit_status_set" where
  "add_signal v es = es\<lparr>es_signal := es_signal es @ [v]\<rparr>"

definition exit_status_deserialize :: "(string \<Rightarrow> bool) \<Rightarrow> string \<Rightarrow> exit_status_set" where
  "exit_status_deserialize sig_ok s =
     fold (\<lambda>cmd es. case parse_u8 cmd of
             Some v \<Rightarrow> add_status v es
           | None \<Rightarrow> if sig_ok cmd then add_signal cmd es else es)
       (split_whitespace s) exit_status_default"

fun exit_status_enabled :: "exit_status_set \<Rightarrow> wait_status \<Rightarrow> bool" where
  "exit_status_enabled es (Exited _ status) = ((of_int status :: 8 word) \<in> set (es_status es))"
| "exit_status_enabled es (Signaled _ sig _) = (sig \<in> set (es_signal es))"
| "exit_status_enabled es _ = False"

section \<open>Commands\<close>

record exec_command =
  ec_path :: string
  ec_argv :: "string list"
  ec_flags :: "8 word"

definition EXEC_COMMAND_EMPTY :: "8 word" where
  "EXEC_COMMAND_EMPTY = 0"

definition EXEC_COMMAND_IGNORE_FAILURE :: "8 word" where
  "EXEC_COMMAND_IGNORE_FAILURE = push_bit 0 1"

definition exec_command_new :: "string \<Rightarrow> string list \<Rightarrow> exec_command" where
  "exec_command_new path argv = \<lparr>ec_path = path, ec_argv = argv, ec_flags = EXEC_COMMAND_EMPTY\<rparr>"

definition exec_command_empty :: exec_command where
  "exec_command_empty = \<lparr>ec_path = [], ec_argv = [[]], ec_flags = EXEC_COMMAND_EMPTY\<rparr>"

unbundle bit_operations_syntax

definition add_exec_flag :: "8 word \<Rightarrow> exec_command \<Rightarrow> exec_command" where
  "add_exec_flag f c = c\<lparr>ec_flags := ec_flags c OR f\<rparr>"

definition has_exec_flag :: "8 word \<Rightarrow> exec_command \<Rightarrow> bool" where
  "has_exec_flag f c = (ec_flags c AND f = f)"

text \<open>
  \<open>ExecCommand::deserialize_with\<close>. The words of a piece are the matches of a regular expression, whose
  engine is another crate: the argument \<open>words\<close>. \<open>command.remove(0)\<close> panics when there is no word.
\<close>

definition exec_piece :: "(string \<Rightarrow> string list) \<Rightarrow> 8 word \<Rightarrow> string \<Rightarrow> (error + exec_command) option" where
  "exec_piece words flag cmd =
     (case words cmd of
        [] \<Rightarrow> None
      | exec_cmd # args \<Rightarrow>
          Some (if is_absolute exec_cmd then Inr (add_exec_flag flag (exec_command_new exec_cmd args))
                else Inl (ConfigureError ''only accept absolute path'')))"

fun exec_pieces :: "(string \<Rightarrow> string list) \<Rightarrow> 8 word \<Rightarrow> string list \<Rightarrow> (error + exec_command list) option" where
  "exec_pieces words flag [] = Some (Inr [])"
| "exec_pieces words flag (cmd # cmds) =
     (if cmd = [] then exec_pieces words flag cmds
      else do {
        r \<leftarrow> exec_piece words flag cmd;
        case r of
          Inl e \<Rightarrow> Some (Inl e)
        | Inr c \<Rightarrow> map_option (map_sum id ((#) c)) (exec_pieces words flag cmds) })"

definition exec_command_deserialize :: "(string \<Rightarrow> string list) \<Rightarrow> string \<Rightarrow> (error + exec_command list) option" where
  "exec_command_deserialize words s =
     (case s of
        [] \<Rightarrow> Some (Inl (ConfigureError ''The configured value is empty.''))
      | first # _ \<Rightarrow>
          let minus = (first = CHR ''-'');
              s' = (if minus then trim_start_matches CHR ''-'' s else s);
              exec_flag = (if minus then EXEC_COMMAND_IGNORE_FAILURE else EXEC_COMMAND_EMPTY)
          in exec_pieces words exec_flag (split_terminator CHR '';'' (trim s')))"

section \<open>The configuration\<close>

record service_conf =
  Type :: service_type
  ExecStart :: "exec_command list option"
  ExecStartPre :: "exec_command list option"
  ExecStartPost :: "exec_command list option"
  ExecStop :: "exec_command list option"
  ExecStopPost :: "exec_command list option"
  ExecReload :: "exec_command list option"
  ExecCondition :: "exec_command list option"
  WatchdogSec :: u64
  PIDFile :: "string option"
  RemainAfterExit :: bool
  NotifyAccess :: "notify_access option"
  RuntimeDirectory :: "string list option"
  RuntimeDirectoryPreserve :: preserve_mode
  Restart :: service_restart
  RestartPreventExitStatus :: exit_status_set
  RestartSec :: u64
  TimeoutSec :: u64
  TimeoutStartSec :: u64
  TimeoutStopSec :: u64

definition get_exec_cmds :: "service_conf \<Rightarrow> service_command \<Rightarrow> exec_command list option" where
  "get_exec_cmds C cmd_type =
     (case cmd_type of
        CmdCondition \<Rightarrow> ExecCondition C | CmdStartPre \<Rightarrow> ExecStartPre C | CmdStart \<Rightarrow> ExecStart C
      | CmdStartPost \<Rightarrow> ExecStartPost C | CmdReload \<Rightarrow> ExecReload C | CmdStop \<Rightarrow> ExecStop C
      | CmdStopPost \<Rightarrow> ExecStopPost C)"

definition set_notify_access :: "notify_access \<Rightarrow> service_conf \<Rightarrow> service_conf" where
  "set_notify_access v C = C\<lparr>NotifyAccess := Some v\<rparr>"

definition set_timeout_start :: "u64 \<Rightarrow> service_conf \<Rightarrow> service_conf" where
  "set_timeout_start t C = (if TimeoutStartSec C = 0 then C\<lparr>TimeoutStartSec := t\<rparr> else C)"

definition set_timeout_stop :: "u64 \<Rightarrow> service_conf \<Rightarrow> service_conf" where
  "set_timeout_stop t C = (if TimeoutStopSec C = 0 then C\<lparr>TimeoutStopSec := t\<rparr> else C)"

definition flush_timeout :: "service_conf \<Rightarrow> service_conf" where
  "flush_timeout C =
     (let time_out = TimeoutSec C in
      if time_out = 0 then C else set_timeout_stop time_out (set_timeout_start time_out C))"

definition can_reload :: "service_conf \<Rightarrow> bool" where
  "can_reload C = (case get_exec_cmds C CmdReload of None \<Rightarrow> False | Some cmds \<Rightarrow> cmds \<noteq> [])"

text \<open>\<open>service_add_extras\<close> without the default dependencies.\<close>

definition service_extras_conf :: "service_conf \<Rightarrow> service_conf" where
  "service_extras_conf C = (if Type C = Notify then set_notify_access NaMain C else C)"

definition no_start_cmd :: "service_conf \<Rightarrow> bool" where
  "no_start_cmd C = (case get_exec_cmds C CmdStart of None \<Rightarrow> True | Some cmds \<Rightarrow> cmds = [])"

definition service_verify :: "service_conf \<Rightarrow> (error + unit) option" where
  "service_verify C =
     (if \<not> RemainAfterExit C \<and> no_start_cmd C
      then Some (Inl (ConfigureError ''No ExecStart command is configured and RemainAfterExit if false''))
      else if Type C \<noteq> Oneshot \<and> no_start_cmd C
      then Some (Inl (ConfigureError ''No ExecStart command is configured, service type is not oneshot''))
      else do {
        many \<leftarrow> (if Type C \<noteq> Oneshot then map_option (\<lambda>cmds. length cmds > 1) (get_exec_cmds C CmdStart)
                 else Some False);
        if many
        then Some (Inl (ConfigureError ''More than Oneshot ExecStart command is configured, service type is not oneshot''))
        else if Type C = Oneshot \<and> Restart C \<notin> {RestartNo, OnFailure, OnAbnormal, OnWatchdog, OnAbort}
        then Some (Inl (ConfigureError ''When service type is onoshot, Restart= is not allowed set to Always or OnSuccess''))
        else Some (Inr ()) })"

text \<open>
  \<open>ServiceUnit::load\<close> on the values read from the files: the timeouts are flushed, the extras added, the result
  verified. The dependencies it adds and the kill context are left out.
\<close>

definition service_load :: "service_conf \<Rightarrow> (error + service_conf) option" where
  "service_load C = do {
     let C1 = service_extras_conf (flush_timeout C);
     r \<leftarrow> service_verify C1;
     Some (case r of Inl e \<Rightarrow> Inl e | Inr _ \<Rightarrow> Inr C1) }"

section \<open>States\<close>

definition to_unit_active_state :: "service_state \<Rightarrow> unit_active_state" where
  "to_unit_active_state s =
     (case s of
        SvDead \<Rightarrow> UnitInActive
      | SvCondition \<Rightarrow> UnitActivating | SvStartPre \<Rightarrow> UnitActivating | SvStart \<Rightarrow> UnitActivating
      | SvStartPost \<Rightarrow> UnitActivating | SvAutoRestart \<Rightarrow> UnitActivating
      | SvRunning \<Rightarrow> UnitActive | SvExited \<Rightarrow> UnitActive
      | SvReload \<Rightarrow> UnitReloading
      | SvStop \<Rightarrow> UnitDeActivating | SvStopWatchdog \<Rightarrow> UnitDeActivating | SvStopPost \<Rightarrow> UnitDeActivating
      | SvStopSigterm \<Rightarrow> UnitDeActivating | SvStopSigkill \<Rightarrow> UnitDeActivating
      | SvFinalSigterm \<Rightarrow> UnitDeActivating | SvFinalSigkill \<Rightarrow> UnitDeActivating
      | SvFinalWatchdog \<Rightarrow> UnitDeActivating
      | SvFailed \<Rightarrow> UnitFailed
      | SvCleaning \<Rightarrow> UnitMaintenance)"

definition to_unit_active_state_idle :: "service_state \<Rightarrow> unit_active_state" where
  "to_unit_active_state_idle s =
     (case s of
        SvDead \<Rightarrow> UnitInActive
      | SvCondition \<Rightarrow> UnitActive | SvStartPre \<Rightarrow> UnitActive | SvStart \<Rightarrow> UnitActive
      | SvStartPost \<Rightarrow> UnitActive | SvRunning \<Rightarrow> UnitActive | SvExited \<Rightarrow> UnitActive
      | SvReload \<Rightarrow> UnitReloading
      | SvStop \<Rightarrow> UnitDeActivating | SvStopWatchdog \<Rightarrow> UnitDeActivating | SvStopPost \<Rightarrow> UnitDeActivating
      | SvStopSigterm \<Rightarrow> UnitDeActivating | SvStopSigkill \<Rightarrow> UnitDeActivating
      | SvFinalSigterm \<Rightarrow> UnitDeActivating | SvFinalSigkill \<Rightarrow> UnitDeActivating
      | SvFinalWatchdog \<Rightarrow> UnitDeActivating
      | SvFailed \<Rightarrow> UnitFailed
      | SvCleaning \<Rightarrow> UnitMaintenance
      | SvAutoRestart \<Rightarrow> UnitActivating)"

definition service_state_to_unit_state :: "service_type \<Rightarrow> service_state \<Rightarrow> unit_active_state" where
  "service_state_to_unit_state ty s =
     (if ty = Idle then to_unit_active_state_idle s else to_unit_active_state s)"

definition to_kill_operation :: "service_state \<Rightarrow> kill_operation" where
  "to_kill_operation s =
     (case s of
        SvStopWatchdog \<Rightarrow> KillWatchdog
      | SvStopSigterm \<Rightarrow> KillTerminate | SvFinalSigterm \<Rightarrow> KillTerminate
      | SvStopSigkill \<Rightarrow> KillKill | SvFinalSigkill \<Rightarrow> KillKill
      | _ \<Rightarrow> KillInvalid)"

section \<open>Exit status as it is stored\<close>

datatype exit_status = ExitStatus int int

text \<open>
  \<open>ExitStatus::from(WaitStatus)\<close> and back. The number of a signal (\<open>sig as i32\<close>) and \<open>WaitStatus::from_raw\<close>
  belong to another crate: the arguments \<open>sig_no\<close> and \<open>from_raw\<close>.
\<close>

fun exit_status_from :: "(signal \<Rightarrow> int) \<Rightarrow> wait_status \<Rightarrow> exit_status" where
  "exit_status_from sig_no (Exited p st) = ExitStatus p st"
| "exit_status_from sig_no (Signaled p sig _) = ExitStatus p (sig_no sig)"
| "exit_status_from sig_no _ = ExitStatus 0 0"

fun wait_status_from :: "(int \<Rightarrow> int \<Rightarrow> wait_status option) \<Rightarrow> exit_status \<Rightarrow> wait_status" where
  "wait_status_from from_raw (ExitStatus p st) =
     (case from_raw p st of Some w \<Rightarrow> w | None \<Rightarrow> Exited (-1) 0)"

section \<open>The watchdog settings\<close>

record service_monitor =
  watchdog_original_usec :: u64
  watchdog_override_usec :: u64
  watchdog_override_enable :: bool

definition service_monitor_new :: service_monitor where
  "service_monitor_new =
     \<lparr>watchdog_original_usec = 0, watchdog_override_usec = 0, watchdog_override_enable = False\<rparr>"

definition mon_override_watchdog_usec :: "u64 \<Rightarrow> service_monitor \<Rightarrow> service_monitor" where
  "mon_override_watchdog_usec usec m = m\<lparr>watchdog_override_enable := True, watchdog_override_usec := usec\<rparr>"

definition set_original_watchdog :: "u64 \<Rightarrow> service_monitor \<Rightarrow> service_monitor" where
  "set_original_watchdog usec m = m\<lparr>watchdog_original_usec := usec\<rparr>"

definition watchdog_usec :: "service_monitor \<Rightarrow> u64" where
  "watchdog_usec m = (if watchdog_override_enable m then watchdog_override_usec m else watchdog_original_usec m)"

text \<open>
  \<open>ServiceMonitorData::time_relative\<close>, the delay given to the event loop: a \<open>u64\<close> product, which panics on
  overflow where overflow checks are compiled in (\<open>checks\<close>) and wraps around otherwise.
\<close>

definition watchdog_time_relative :: "bool \<Rightarrow> u64 \<Rightarrow> u64 option" where
  "watchdog_time_relative checks t =
     (if checks \<and> 2 ^ 64 \<le> uint t * 1000000 then None else Some (t * 1000000))"

section \<open>What a loaded configuration is like\<close>

lemma flush_timeout_frame [simp]:
  "Type (flush_timeout C) = Type C" "ExecStart (flush_timeout C) = ExecStart C" "Restart (flush_timeout C) = Restart C"
  "RemainAfterExit (flush_timeout C) = RemainAfterExit C"
  by (simp_all add: flush_timeout_def set_timeout_start_def set_timeout_stop_def Let_def)

lemma service_extras_frame [simp]:
  "Type (service_extras_conf C) = Type C" "ExecStart (service_extras_conf C) = ExecStart C"
  "Restart (service_extras_conf C) = Restart C" "RemainAfterExit (service_extras_conf C) = RemainAfterExit C"
  by (simp_all add: service_extras_conf_def set_notify_access_def)

lemma no_start_cmd_iff: "no_start_cmd C \<longleftrightarrow> ExecStart C = None \<or> ExecStart C = Some []"
  by (auto simp: no_start_cmd_def get_exec_cmds_def split: option.splits)

text \<open>The types \<open>service_type_deserialize\<close> can give; the other constructors have no start code.\<close>

definition type_ok :: "service_conf \<Rightarrow> bool" where
  "type_ok C \<longleftrightarrow> Type C \<in> {Simple, Forking, Oneshot, Notify}"

text \<open>
  (C25) Loading is total and what it accepts is well typed. A configuration whose type was read from a file is either
  refused with an error or accepted with a type the state machine implements, exactly one start command unless it
  is oneshot, a start command or \<open>RemainAfterExit\<close> when it is oneshot, no restart policy that would restart a
  successful oneshot for ever, and notifications of the main process only when it is a notify service.
\<close>

theorem loaded_service_well_typed:
  assumes "Type C = service_type_deserialize ty"
  shows "(\<exists>e. service_load C = Some (Inl e)) \<or>
    (\<exists>C'. service_load C = Some (Inr C') \<and> type_ok C' \<and> (Type C' \<noteq> Oneshot \<longrightarrow> (\<exists>c. ExecStart C' = Some [c])) \<and>
      (Type C' = Oneshot \<longrightarrow> (RemainAfterExit C' \<or> \<not> no_start_cmd C') \<and> Restart C' \<notin> {Always, OnSuccess}) \<and>
      (Type C' = Notify \<longrightarrow> NotifyAccess C' = Some NaMain))"
proof -
  let ?C = "service_extras_conf (flush_timeout C)"
  have t: "type_ok ?C" using assms by (simp add: type_ok_def service_type_deserialize_def)
  have n: "Type ?C = Notify \<longrightarrow> NotifyAccess ?C = Some NaMain" by (simp add: service_extras_conf_def set_notify_access_def)
  have one: "\<exists>c. ExecStart ?C = Some [c]" if "\<not> no_start_cmd ?C" "\<not> length (the (ExecStart ?C)) > 1"
    using that by (cases "ExecStart ?C"; cases "the (ExecStart ?C)"; simp add: no_start_cmd_iff)
  have "service_verify ?C = Some (Inr ()) \<Longrightarrow> (Type ?C \<noteq> Oneshot \<longrightarrow> (\<exists>c. ExecStart ?C = Some [c])) \<and>
      (Type ?C = Oneshot \<longrightarrow> (RemainAfterExit ?C \<or> \<not> no_start_cmd ?C) \<and> Restart ?C \<notin> {Always, OnSuccess})"
    using one by (cases "ExecStart ?C") (auto simp: service_verify_def get_exec_cmds_def split: if_splits)
  moreover have "\<exists>r. service_verify ?C = Some r"
    by (cases "ExecStart ?C") (auto simp: service_verify_def no_start_cmd_iff get_exec_cmds_def)
  ultimately show ?thesis using t n
    by (auto simp: service_load_def split: sum.splits)
qed

theorem loaded_service_well_typed_witness:
  "let C = \<lparr>Type = Simple, ExecStart = Some [exec_command_new ''/bin/d'' []], ExecStartPre = None, ExecStartPost = None,
     ExecStop = None, ExecStopPost = None, ExecReload = None, ExecCondition = None, WatchdogSec = 0,
     PIDFile = None, RemainAfterExit = False, NotifyAccess = None, RuntimeDirectory = None,
     RuntimeDirectoryPreserve = PreserveNo, Restart = Always, RestartPreventExitStatus = exit_status_default,
     RestartSec = 100000, TimeoutSec = u64_MAX, TimeoutStartSec = u64_MAX, TimeoutStopSec = u64_MAX\<rparr> in
   service_load C = Some (Inr C) \<and> type_ok C"
proof -
  let ?C = "\<lparr>Type = Simple, ExecStart = Some [exec_command_new ''/bin/d'' []], ExecStartPre = None, ExecStartPost = None,
     ExecStop = None, ExecStopPost = None, ExecReload = None, ExecCondition = None, WatchdogSec = 0,
     PIDFile = None, RemainAfterExit = False, NotifyAccess = None, RuntimeDirectory = None,
     RuntimeDirectoryPreserve = PreserveNo, Restart = Always, RestartPreventExitStatus = exit_status_default,
     RestartSec = 100000, TimeoutSec = u64_MAX, TimeoutStartSec = u64_MAX, TimeoutStopSec = u64_MAX\<rparr>"
  have l: "service_load ?C = Some (Inr ?C)" by code_simp
  have "Type ?C = service_type_deserialize ''simple''" by (simp add: service_type_deserialize_def)
  from loaded_service_well_typed [OF this] l show ?thesis by simp
qed

text \<open>
  Bounds of a configured timeout. It is never 0; 0 and values whose microseconds do not fit in 64 bits give
  \<open>u64::MAX\<close> (no timeout), every other number of seconds is converted exactly and stays below \<open>u64::MAX\<close>. Since
  0 is never the result, flushing \<open>TimeoutSec\<close> changes no start or stop timeout that was converted this way.
\<close>

theorem timeout_bounds:
  "deserialize_timeout n \<noteq> 0 \<and>
   (if n = 0 \<or> uint n \<ge> (2 ^ 64 - 1) div 1000000 then deserialize_timeout n = u64_MAX
    else uint (deserialize_timeout n) = uint n * 1000000 \<and> uint (deserialize_timeout n) < 2 ^ 64 - 1) \<and>
   flush_timeout (C\<lparr>TimeoutStartSec := deserialize_timeout n, TimeoutStopSec := deserialize_timeout m\<rparr>) =
     C\<lparr>TimeoutStartSec := deserialize_timeout n, TimeoutStopSec := deserialize_timeout m\<rparr>"
proof -
  have b: "deserialize_timeout n \<noteq> 0 \<and> (if n = 0 \<or> uint n \<ge> (2 ^ 64 - 1) div 1000000 then deserialize_timeout n = u64_MAX
    else uint (deserialize_timeout n) = uint n * 1000000 \<and> uint (deserialize_timeout n) < 2 ^ 64 - 1)" for n
  proof -
    have q: "uint (u64_MAX div USEC_PER_SEC) = (2 ^ 64 - 1) div 1000000"
      unfolding u64_MAX_def USEC_PER_SEC_def by code_simp
    have u: "uint (n * USEC_PER_SEC) = uint n * 1000000" if "uint n < (2 ^ 64 - 1) div 1000000"
    proof -
      have "uint n * 1000000 < 2 ^ 64" "0 \<le> uint n" using that by simp_all
      then show ?thesis by (simp add: uint_word_ariths USEC_PER_SEC_def)
    qed
    have z: "n \<noteq> 0 \<Longrightarrow> uint n > 0" using uint_nonnegative [of n] by (metis uint_0_iff order_le_less)
    show ?thesis
    proof (cases "n = 0 \<or> uint n \<ge> (2 ^ 64 - 1) div 1000000")
      case True
      then have "deserialize_timeout n = u64_MAX" by (auto simp: deserialize_timeout_def word_le_def q)
      then show ?thesis using True by (simp add: u64_MAX_def)
    next
      case False
      then have d: "deserialize_timeout n = n * USEC_PER_SEC" by (auto simp: deserialize_timeout_def word_le_def q)
      have lt: "uint n < (2 ^ 64 - 1) div 1000000" using False by simp
      have e: "uint (deserialize_timeout n) = uint n * 1000000" unfolding d by (rule u [OF lt])
      have "uint (deserialize_timeout n) > 0" using e z False by simp
      then have "deserialize_timeout n \<noteq> 0" by auto
      moreover have "uint n * 1000000 < 2 ^ 64 - 1" using lt by simp
      ultimately show ?thesis using False e by simp
    qed
  qed
  show ?thesis using b [of n] b [of m] by (simp add: flush_timeout_def set_timeout_start_def set_timeout_stop_def Let_def)
qed

end
