(* ===== verification/Event_Loop.thy ===== *)
theory Event_Loop
  imports Prelude "HOL-Library.Multiset"
begin

text \<open>
  The event loop (\<^verbatim>\<open>libs/event/src/events.rs\<close>, \<open>timer.rs\<close>, \<open>source.rs\<close>): the registered sources with their
  states, the queue of pending sources, the heaps of timers, one round of the loop.

  A source (\<open>Rc<dyn Source>\<close>) is the record of what its methods return at the call; token, type, priority
  never change, the times are read when it is switched on. System calls (epoll, timerfd, the clocks) are the
  operations \<open>E\<close> over a world \<open>'w\<close>. A \<open>BinaryHeap\<close> is a list from which the least element (in the order the
  code inverts) is taken, the earliest pushed of equal ones; the code does not specify that choice.
\<close>

section \<open>Sources\<close>

datatype event_type =
  EvIo | EvTimerRealtime | EvTimerBoottime | EvTimerMonotonic | EvTimerRealtimeAlarm | EvTimerBoottimeAlarm
  | EvSignal | EvChild | EvPidfd | EvWatchdog | EvInotify | EvDefer | EvPost | EvExit

datatype event_state = EvOn | EvOff | EvOneShot

record source =
  src_token :: u64
  src_type :: event_type
  src_priority :: int
  src_fd :: int
  src_time_relative :: u64
  src_time :: u64

definition is_timer :: "event_type \<Rightarrow> bool" where
  "is_timer et \<longleftrightarrow> et \<in> {EvTimerRealtime, EvTimerBoottime, EvTimerMonotonic, EvTimerRealtimeAlarm, EvTimerBoottimeAlarm}"

definition is_fd_type :: "event_type \<Rightarrow> bool" where
  "is_fd_type et \<longleftrightarrow> et \<in> {EvIo, EvPidfd, EvSignal, EvChild, EvInotify}"

text \<open>\<open>Ord for dyn Source\<close> compares priorities only, inverted for the max-heap.\<close>

definition source_cmp_equal :: "source \<Rightarrow> source \<Rightarrow> bool" where
  "source_cmp_equal a b \<longleftrightarrow> src_priority a = src_priority b"

fun take_min :: "('a \<Rightarrow> 'k::linorder) \<Rightarrow> 'a list \<Rightarrow> ('a \<times> 'a list) option" where
  "take_min key [] = None"
| "take_min key (x # xs) =
     (case take_min key xs of
        None \<Rightarrow> Some (x, [])
      | Some (y, ys) \<Rightarrow> if key x \<le> key y then Some (x, xs) else Some (y, x # ys))"

section \<open>State\<close>

datatype reg_fd = RegFd int | RegSignal | RegPid | RegTimer event_type | RegInotify

datatype ev_error = Syscall | EvOther

record 'w ev_ops =
  eo_register :: "reg_fd \<Rightarrow> 'w \<Rightarrow> bool \<times> 'w"
  eo_unregister :: "reg_fd \<Rightarrow> 'w \<Rightarrow> bool \<times> 'w"
  eo_add_child :: "source \<Rightarrow> 'w \<Rightarrow> 'w"
  eo_poll :: "int \<Rightarrow> 'w \<Rightarrow> u64 list option \<times> 'w"
  eo_now :: "event_type \<Rightarrow> 'w \<Rightarrow> u64 \<times> 'w"
  eo_settime :: "event_type \<Rightarrow> u64 \<Rightarrow> 'w \<Rightarrow> 'w"
  eo_flush :: "event_type \<Rightarrow> 'w \<Rightarrow> bool \<times> 'w"
  eo_checks :: bool

type_synonym clock_data = "source \<times> u64"

record 'w events =
  ed_exit :: bool
  ed_sources :: "(u64 \<times> source) list"
  ed_defer_sources :: "(u64 \<times> source) list"
  ed_post_sources :: "(u64 \<times> source) list"
  ed_exit_sources :: "(u64 \<times> source) list"
  ed_pending :: "source list"
  ed_state :: "(u64 \<times> event_state) list"
  ed_timerfd :: "event_type list"
  ed_timer :: "(event_type \<times> clock_data list) list"
  ed_env :: 'w

definition events_new :: "'w \<Rightarrow> 'w events" where
  "events_new w = \<lparr>ed_exit = False, ed_sources = [], ed_defer_sources = [], ed_post_sources = [],
     ed_exit_sources = [], ed_pending = [], ed_state = [], ed_timerfd = [], ed_timer = [], ed_env = w\<rparr>"

definition ev_env :: "('w \<Rightarrow> 'a \<times> 'w) \<Rightarrow> 'w events \<Rightarrow> 'a \<times> 'w events" where
  "ev_env f s = (let (a, w) = f (ed_env s) in (a, s\<lparr>ed_env := w\<rparr>))"

section \<open>Timers\<close>

text \<open>
  \<open>Timer::push\<close>: the expiry is the relative time plus the clock, or the absolute time; an addition that
  overflows panics where overflow checks are compiled in and wraps around otherwise.
\<close>

definition timer_next_of :: "bool \<Rightarrow> source \<Rightarrow> u64 \<Rightarrow> u64 option" where
  "timer_next_of checks src now =
     (let rel = src_time_relative src in
      do { next \<leftarrow> (if rel \<noteq> - 1
                   then (if checks \<and> 2 ^ 64 \<le> uint rel + uint now then None else Some (rel + now))
                   else Some (src_time src));
           rust_assert (next \<noteq> - 1);
           Some next })"

definition timer_clocks :: "event_type \<Rightarrow> 'w events \<Rightarrow> clock_data list" where
  "timer_clocks et s = (case map_of (ed_timer s) et of Some cs \<Rightarrow> cs | None \<Rightarrow> [])"

definition timer_push :: "'w ev_ops \<Rightarrow> source \<Rightarrow> 'w events \<Rightarrow> 'w events option" where
  "timer_push E src s = do {
     let et = src_type src;
     let (now, s1) = (if src_time_relative src \<noteq> - 1 then ev_env (eo_now E et) s else (0, s));
     next \<leftarrow> timer_next_of (eo_checks E) src now;
     Some (s1\<lparr>ed_timer := AList.update et (timer_clocks et s1 @ [(src, next)]) (ed_timer s1)\<rparr>) }"

text \<open>\<open>TimerInner::remove\<close> keeps the clocks whose source does not compare equal.\<close>

definition timer_inner_remove :: "source \<Rightarrow> clock_data list \<Rightarrow> clock_data list" where
  "timer_inner_remove src cs = filter (\<lambda>c. \<not> source_cmp_equal (fst c) src) cs"

definition timer_remove :: "event_type \<Rightarrow> source \<Rightarrow> 'w events \<Rightarrow> 'w events" where
  "timer_remove et src s =
     (case map_of (ed_timer s) et of
        Some cs \<Rightarrow> s\<lparr>ed_timer := AList.update et (timer_inner_remove src cs) (ed_timer s)\<rparr>
      | None \<Rightarrow> s)"

definition timer_is_empty :: "event_type \<Rightarrow> 'w events \<Rightarrow> bool" where
  "timer_is_empty et s = (timer_clocks et s = [])"

definition timer_next :: "event_type \<Rightarrow> 'w events \<Rightarrow> u64 option" where
  "timer_next et s = map_option (\<lambda>(c, _). snd c) (take_min snd (timer_clocks et s))"

definition timer_pop :: "'w ev_ops \<Rightarrow> event_type \<Rightarrow> 'w events \<Rightarrow> source option \<times> 'w events" where
  "timer_pop E et s =
     (let (now, s1) = ev_env (eo_now E et) s in
      case map_of (ed_timer s1) et of
        None \<Rightarrow> (None, s1)
      | Some cs \<Rightarrow>
          (case take_min snd cs of
             None \<Rightarrow> (None, s1\<lparr>ed_timer := AList.delete et (ed_timer s1)\<rparr>)
           | Some (c, rest) \<Rightarrow>
               if snd c \<le> now then (Some (fst c), s1\<lparr>ed_timer := AList.update et rest (ed_timer s1)\<rparr>)
               else (None, s1)))"

definition pending_push :: "source \<Rightarrow> 'w events \<Rightarrow> 'w events" where
  "pending_push src s = s\<lparr>ed_pending := ed_pending s @ [src]\<rparr>"

definition pending_pop :: "'w events \<Rightarrow> source option \<times> 'w events" where
  "pending_pop s =
     (case take_min src_priority (ed_pending s) of
        None \<Rightarrow> (None, s)
      | Some (src, rest) \<Rightarrow> (Some src, s\<lparr>ed_pending := rest\<rparr>))"

lemma take_min_None [simp]: "take_min key xs = None \<longleftrightarrow> xs = []"
  by (cases xs) (auto split: option.splits)

lemma take_min_length: "take_min key xs = Some (x, ys) \<Longrightarrow> length xs = Suc (length ys)"
  by (induction xs arbitrary: x ys) (auto split: option.splits if_splits prod.splits)

text \<open>\<open>while let Some(source) = timer.pop(..)\<close>: every round takes a clock out of the heap.\<close>

function timer_pop_all :: "'w ev_ops \<Rightarrow> event_type \<Rightarrow> 'w events \<Rightarrow> 'w events" where
  "timer_pop_all E et s =
     (case timer_pop E et s of
        (None, s1) \<Rightarrow> s1
      | (Some src, s1) \<Rightarrow> timer_pop_all E et (pending_push src s1))"
  by pat_completeness auto

lemma timer_pop_shrinks:
  assumes "timer_pop E et s = (Some src, s1)"
  shows "length (timer_clocks et s1) < length (timer_clocks et s)"
  using assms
  by (auto simp: timer_pop_def timer_clocks_def ev_env_def Let_def update_conv' split: option.splits prod.splits
      if_splits dest: take_min_length)

lemma timer_clocks_pending_push [simp]: "timer_clocks et (pending_push src s) = timer_clocks et s"
  by (simp add: pending_push_def timer_clocks_def)

termination timer_pop_all
proof (relation "measure (\<lambda>(E, et, s). length (timer_clocks et s))", goal_cases)
  case 1
  then show ?case by simp
next
  case (2 E et s x y src)
  then show ?case using timer_pop_shrinks by (metis case_prod_conv in_measure timer_clocks_pending_push)
qed

declare timer_pop_all.simps [simp del]

section \<open>Switching sources on and off\<close>

type_synonym 'w ev_result = "((ev_error + unit) \<times> 'w events) option"

definition ev_syscall :: "bool \<times> 'w events \<Rightarrow> 'w ev_result" where
  "ev_syscall r = Some ((if fst r then Inr () else Inl Syscall), snd r)"

definition source_online :: "'w ev_ops \<Rightarrow> source \<Rightarrow> 'w events \<Rightarrow> 'w ev_result" where
  "source_online E src s =
     (let et = src_type src in
      case et of
        EvIo \<Rightarrow> ev_syscall (ev_env (eo_register E (RegFd (src_fd src))) s)
      | EvPidfd \<Rightarrow> ev_syscall (ev_env (eo_register E (RegFd (src_fd src))) s)
      | EvSignal \<Rightarrow> ev_syscall (ev_env (eo_register E RegSignal) s)
      | EvChild \<Rightarrow> Some (Inr (), s\<lparr>ed_env := eo_add_child E src (ed_env s)\<rparr>)
      | EvDefer \<Rightarrow> Some (Inr (), pending_push src s)
      | EvInotify \<Rightarrow> ev_syscall (ev_env (eo_register E RegInotify) s)
      | EvPost \<Rightarrow> None
      | EvExit \<Rightarrow> None
      | EvWatchdog \<Rightarrow> None
      | _ \<Rightarrow>
          if et \<in> set (ed_timerfd s) then map_option (Pair (Inr ())) (timer_push E src s)
          else (let (ok, s1) = ev_env (eo_register E (RegTimer et)) (s\<lparr>ed_timerfd := et # ed_timerfd s\<rparr>) in
                if ok then map_option (Pair (Inr ())) (timer_push E src s1)
                else Some (Inl Syscall, s1)))"

definition source_offline :: "'w ev_ops \<Rightarrow> source \<Rightarrow> 'w events \<Rightarrow> 'w ev_result" where
  "source_offline E src s =
     (case map_of (ed_state s) (src_token src) of
        None \<Rightarrow> Some (Inr (), s)
      | Some EvOff \<Rightarrow> Some (Inr (), s)
      | Some _ \<Rightarrow>
          (let et = src_type src in
           case et of
             EvIo \<Rightarrow> ev_syscall (ev_env (eo_unregister E (RegFd (src_fd src))) s)
           | EvPidfd \<Rightarrow> ev_syscall (ev_env (eo_unregister E (RegFd (src_fd src))) s)
           | EvSignal \<Rightarrow> ev_syscall (ev_env (eo_unregister E RegSignal) s)
           | EvChild \<Rightarrow> ev_syscall (ev_env (eo_unregister E RegPid) s)
           | EvInotify \<Rightarrow> ev_syscall (ev_env (eo_unregister E RegInotify) s)
           | EvDefer \<Rightarrow> Some (Inr (), s)
           | EvPost \<Rightarrow> None
           | EvExit \<Rightarrow> None
           | EvWatchdog \<Rightarrow> None
           | _ \<Rightarrow>
               (let s1 = timer_remove et src s in
                if timer_is_empty et s1 \<and> et \<in> set (ed_timerfd s1)
                then ev_syscall (ev_env (eo_unregister E (RegTimer et))
                       (s1\<lparr>ed_timerfd := filter (\<lambda>e. e \<noteq> et) (ed_timerfd s1)\<rparr>))
                else Some (Inr (), s1))))"

definition add_source :: "source \<Rightarrow> 'w events \<Rightarrow> 'w ev_result" where
  "add_source src s =
     (let token = src_token src; et = src_type src in do {
      s1 \<leftarrow> (if is_fd_type et then Some (s\<lparr>ed_sources := AList.update token src (ed_sources s)\<rparr>)
             else if et = EvDefer then Some (s\<lparr>ed_defer_sources := AList.update token src (ed_defer_sources s)\<rparr>)
             else if et = EvPost then Some (s\<lparr>ed_post_sources := AList.update token src (ed_post_sources s)\<rparr>)
             else if et = EvExit then Some (s\<lparr>ed_exit_sources := AList.update token src (ed_exit_sources s)\<rparr>)
             else if et = EvWatchdog then None
             else Some s);
      Some (Inr (), s1\<lparr>ed_state := AList.update token EvOff (ed_state s1)\<rparr>) })"

text \<open>\<open>?\<close>: go on with the rest of the body, or return the error.\<close>

definition ev_try :: "'w ev_result \<Rightarrow> ('w events \<Rightarrow> 'w ev_result) \<Rightarrow> 'w ev_result" where
  "ev_try m f = do { (r, s) \<leftarrow> m; case r of Inl e \<Rightarrow> Some (Inl e, s) | Inr _ \<Rightarrow> f s }"

lemma ev_try_Err [simp]: "ev_try (Some (Inl e, s)) f = Some (Inl e, s)"
  by (simp add: ev_try_def)

lemma ev_try_Inr [simp]: "ev_try (Some (Inr u, s)) f = f s"
  by (simp add: ev_try_def)

lemma ev_try_None [simp]: "ev_try None f = None"
  by (simp add: ev_try_def)

lemma ev_try_OkE:
  assumes "ev_try m f = Some (Inr u, s')"
  obtains s1 where "m = Some (Inr (), s1)" and "f s1 = Some (Inr u, s')"
proof (cases m)
  case None
  then show ?thesis using assms by simp
next
  case (Some x)
  obtain r t where x: "x = (r, t)" by (cases x)
  show ?thesis
  proof (cases r)
    case (Inl e)
    then show ?thesis using assms Some x by simp
  next
    case (Inr v)
    then show ?thesis using assms Some x that [of t] by simp
  qed
qed

definition del_source :: "'w ev_ops \<Rightarrow> source \<Rightarrow> 'w events \<Rightarrow> 'w ev_result" where
  "del_source E src s = ev_try (source_offline E src s) (\<lambda>s1.
     let token = src_token src; et = src_type src;
         drop_state = (\<lambda>s :: 'w events. Some (Inr (), s\<lparr>ed_state := AList.delete token (ed_state s)\<rparr>))
     in if is_fd_type et then drop_state (s1\<lparr>ed_sources := AList.delete token (ed_sources s1)\<rparr>)
        else if et = EvDefer
        then (if map_of (ed_defer_sources s1) token = None then Some (Inl EvOther, s1)
              else drop_state (s1\<lparr>ed_defer_sources := AList.delete token (ed_defer_sources s1)\<rparr>))
        else if et = EvPost
        then (if map_of (ed_post_sources s1) token = None then Some (Inl EvOther, s1)
              else drop_state (s1\<lparr>ed_post_sources := AList.delete token (ed_post_sources s1)\<rparr>))
        else if et = EvExit
        then (if map_of (ed_exit_sources s1) token = None then Some (Inl EvOther, s1)
              else drop_state (s1\<lparr>ed_exit_sources := AList.delete token (ed_exit_sources s1)\<rparr>))
        else if et = EvWatchdog then None
        else drop_state s1)"

definition set_enabled :: "'w ev_ops \<Rightarrow> source \<Rightarrow> event_state \<Rightarrow> 'w events \<Rightarrow> 'w ev_result" where
  "set_enabled E src st s =
     ev_try (if st = EvOff then source_offline E src s else source_online E src s)
       (\<lambda>s1. Some (Inr (), s1\<lparr>ed_state := AList.update (src_token src) st (ed_state s1)\<rparr>))"

section \<open>One round\<close>

definition timer_types :: "event_type list" where
  "timer_types = [EvTimerRealtime, EvTimerBoottime, EvTimerMonotonic, EvTimerRealtimeAlarm, EvTimerBoottimeAlarm]"

text \<open>
  \<open>wait\<close>: the ready sources and then the expired timers become pending. The flag is whether the loop
  over the clocks goes on; \<open>flush_timer\<close> reads the timer descriptor, which has to exist.
\<close>

definition wait_timer :: "'w ev_ops \<Rightarrow> event_type \<Rightarrow> bool \<times> 'w events \<Rightarrow> (bool \<times> 'w events) option" where
  "wait_timer E et r = do {
     let (go, s) = r;
     if \<not> go then Some r
     else case timer_next et s of
            None \<Rightarrow> Some r
          | Some next \<Rightarrow>
              let (now, s1) = ev_env (eo_now E et) s in
              if now \<ge> next then do {
                rust_assert (et \<in> set (ed_timerfd s1));
                let (ok, s2) = ev_env (eo_flush E et) s1;
                if ok then Some (True, timer_pop_all E et s2) else Some (False, s2) }
              else Some (True, s1) }"

definition events_wait :: "'w ev_ops \<Rightarrow> int \<Rightarrow> 'w events \<Rightarrow> (bool \<times> 'w events) option" where
  "events_wait E timeout s = do {
     let (tokens, s1) = ev_env (eo_poll E timeout) s;
     case tokens of
       None \<Rightarrow> Some (False, s1)
     | Some ts \<Rightarrow> do {
         let s2 = fold (\<lambda>t s. case map_of (ed_sources s) t of Some src \<Rightarrow> pending_push src s | None \<Rightarrow> s) ts s1;
         (go, s3) \<leftarrow> fold_opt (wait_timer E) timer_types (True, s2);
         Some (go \<and> (ed_pending s3 \<noteq> [] \<or> ts \<noteq> []), s3) } }"

definition prepare_timer :: "'w ev_ops \<Rightarrow> event_type \<Rightarrow> bool \<times> 'w events \<Rightarrow> (bool \<times> 'w events) option" where
  "prepare_timer E et r = do {
     let (ret, s) = r;
     case timer_next et s of
       None \<Rightarrow> Some r
     | Some next \<Rightarrow>
         let (now, s1) = ev_env (eo_now E et) s in
         if now \<ge> next then Some (True, timer_pop_all E et s1)
         else do {
           rust_assert (et \<in> set (ed_timerfd s1));
           Some (ret, s1\<lparr>ed_env := eo_settime E et next (ed_env s1)\<rparr>) } }"

definition events_prepare :: "'w ev_ops \<Rightarrow> 'w events \<Rightarrow> (bool \<times> 'w events) option" where
  "events_prepare E s = do {
     (ret, s1) \<leftarrow> fold_opt (prepare_timer E) timer_types (False, s);
     if ed_pending s1 \<noteq> [] then events_wait E 0 s1 else Some (ret, s1) }"

text \<open>
  \<open>dispatch\<close>: the callback of the source (\<open>Source::dispatch\<close>, the argument \<open>cb\<close>) may change the loop.
  \<open>source_state(..).unwrap()\<close> panics when the source has been deleted since it became pending.
\<close>

definition events_dispatch ::
  "'w ev_ops \<Rightarrow> (source \<Rightarrow> 'w events \<Rightarrow> 'w events option) \<Rightarrow> 'w events \<Rightarrow> 'w ev_result" where
  "events_dispatch E cb s =
     (if ed_exit s then Some (Inr (), s)
      else case pending_pop s of
             (None, s1) \<Rightarrow> Some (Inr (), s1)
           | (Some first, s1) \<Rightarrow> do {
               state \<leftarrow> map_of (ed_state s1) (src_token first);
               case state of
                 EvOff \<Rightarrow> Some (Inr (), s1)
               | EvOn \<Rightarrow> do {
                   s2 \<leftarrow> cb first s1;
                   Some (Inr (), if src_type first = EvDefer then pending_push first s2 else s2) }
               | EvOneShot \<Rightarrow> ev_try (set_enabled E first EvOff s1) (\<lambda>s2. map_option (Pair (Inr ())) (cb first s2)) })"

definition events_run ::
  "'w ev_ops \<Rightarrow> (source \<Rightarrow> 'w events \<Rightarrow> 'w events option) \<Rightarrow> int \<Rightarrow> 'w events \<Rightarrow> 'w ev_result" where
  "events_run E cb timeout s =
     (if ed_exit s then Some (Inr (), s)
      else do {
        (ready, s1) \<leftarrow> events_prepare E s;
        s2 \<leftarrow> (if ready then Some s1 else map_option snd (events_wait E timeout s1));
        events_dispatch E cb s2 })"

definition set_exit :: "'w events \<Rightarrow> 'w events" where
  "set_exit s = s\<lparr>ed_exit := True\<rparr>"

definition events_clear :: "'w events \<Rightarrow> 'w events" where
  "events_clear s = s\<lparr>ed_sources := [], ed_defer_sources := [], ed_post_sources := [], ed_exit_sources := [],
     ed_pending := [], ed_state := [], ed_timerfd := []\<rparr>"

section \<open>The queue of pending sources\<close>

lemma take_min_least:
  "take_min key xs = Some (x, ys) \<Longrightarrow> mset xs = add_mset x (mset ys) \<and> (\<forall>y \<in> set xs. key x \<le> key y)"
proof (induction xs arbitrary: x ys)
  case Nil
  then show ?case by simp
next
  case (Cons z xs)
  show ?case
  proof (cases "take_min key xs")
    case None
    then show ?thesis using Cons.prems by auto
  next
    case (Some r)
    obtain y zs where r: "take_min key xs = Some (y, zs)" using Some by (cases r) auto
    then show ?thesis using Cons.IH [OF r] Cons.prems by (fastforce split: if_splits)
  qed
qed

lemma take_min_set: "take_min key xs = Some (x, ys) \<Longrightarrow> set xs = insert x (set ys)"
  using take_min_least [of key xs x ys] by (metis set_mset_add_mset_insert set_mset_mset)

text \<open>Popping until nothing is left.\<close>

function pending_drain :: "'w events \<Rightarrow> source list" where
  "pending_drain s = (case pending_pop s of (None, _) \<Rightarrow> [] | (Some src, s1) \<Rightarrow> src # pending_drain s1)"
  by pat_completeness auto

lemma pending_pop_shrinks: "pending_pop s = (Some src, s1) \<Longrightarrow> length (ed_pending s1) < length (ed_pending s)"
  by (auto simp: pending_pop_def split: option.splits dest: take_min_length)

termination pending_drain
proof (relation "measure (\<lambda>s. length (ed_pending s))", goal_cases)
  case 1
  then show ?case by simp
next
  case (2 s x y src)
  then show ?case using pending_pop_shrinks by (metis in_measure)
qed

declare pending_drain.simps [simp del]

lemma pending_pop_cases:
  obtains "ed_pending s = []" "pending_pop s = (None, s)"
  | src rest where "take_min src_priority (ed_pending s) = Some (src, rest)"
      "pending_pop s = (Some src, s\<lparr>ed_pending := rest\<rparr>)"
  by (cases "take_min src_priority (ed_pending s)") (auto simp: pending_pop_def)

text \<open>
  Pending sources are handled in the order of their priorities, least value first, and none is lost or
  handled twice: emptying the queue yields a permutation of it that ascends in the priorities.
\<close>

theorem pending_priority_order:
  "sorted (map src_priority (pending_drain s)) \<and> mset (pending_drain s) = mset (ed_pending s)"
proof (induction s rule: pending_drain.induct)
  case (1 s)
  show ?case
  proof (cases s rule: pending_pop_cases)
    case 1
    then show ?thesis by (subst (1 2) pending_drain.simps) simp
  next
    case (2 src rest)
    have IH: "sorted (map src_priority (pending_drain (s\<lparr>ed_pending := rest\<rparr>)))"
      "mset (pending_drain (s\<lparr>ed_pending := rest\<rparr>)) = mset rest"
      using "1.IH" [OF 2(2) [symmetric] refl] by simp_all
    have d: "pending_drain s = src # pending_drain (s\<lparr>ed_pending := rest\<rparr>)"
      using 2(2) by (subst pending_drain.simps) simp
    have l: "mset (ed_pending s) = add_mset src (mset rest)" "\<forall>y \<in> set (ed_pending s). src_priority src \<le> src_priority y"
      using take_min_least [OF 2(1)] by simp_all
    have "set (pending_drain (s\<lparr>ed_pending := rest\<rparr>)) = set rest" using IH(2) by (metis set_mset_mset)
    moreover have "set rest \<subseteq> set (ed_pending s)" using take_min_set [OF 2(1)] by blast
    ultimately show ?thesis using d IH l by auto
  qed
qed

section \<open>Timers that compare equal\<close>

lemma map_of_timer_remove: "timer_clocks et (timer_remove et src s) = timer_inner_remove src (timer_clocks et s)"
  by (auto simp: timer_remove_def timer_clocks_def update_conv' timer_inner_remove_def split: option.splits)

lemma timer_remove_same [simp]:
  "ed_state (timer_remove et src s) = ed_state s" "ed_pending (timer_remove et src s) = ed_pending s"
  "ed_exit (timer_remove et src s) = ed_exit s"
  "ed_timerfd (timer_remove et src s) = ed_timerfd s" "ed_sources (timer_remove et src s) = ed_sources s"
  by (auto simp: timer_remove_def split: option.splits)

lemma timer_clocks_frame [simp]:
  "timer_clocks et (s\<lparr>ed_env := w\<rparr>) = timer_clocks et s" "timer_clocks et (s\<lparr>ed_state := m\<rparr>) = timer_clocks et s"
  "timer_clocks et (s\<lparr>ed_timerfd := f\<rparr>) = timer_clocks et s" "timer_clocks et (s\<lparr>ed_pending := q\<rparr>) = timer_clocks et s"
  by (simp_all add: timer_clocks_def)

lemma timer_offline:
  assumes "is_timer (src_type src)" and "map_of (ed_state s) (src_token src) \<in> {Some EvOn, Some EvOneShot}"
    and "source_offline E src s = Some (r, s1)"
  shows "timer_clocks (src_type src) s1 = timer_inner_remove src (timer_clocks (src_type src) s) \<and>
    ed_state s1 = ed_state s \<and> ed_pending s1 = ed_pending s"
  using assms
  by (cases "src_type src")
    (auto simp: source_offline_def is_timer_def Let_def ev_syscall_def ev_env_def map_of_timer_remove
      split: if_splits prod.splits)

text \<open>
  Switching off one timer switches off its peers. \<open>TimerInner::remove\<close> compares sources with \<open>Ord\<close>, which
  looks at the priority only. So when a one-shot timer fires (or is disabled or deleted), every other timer of
  the same clock and the same priority leaves the heap as well and never fires, although the loop still
  records it as switched on.
\<close>

theorem firing_timer_drops_peers:
  assumes "\<not> ed_exit s" and "pending_pop s = (Some src, s1)" and "is_timer (src_type src)"
    and "map_of (ed_state s) (src_token src) = Some EvOneShot"
    and "events_dispatch E (\<lambda>_ s. Some s) s = Some (Inr (), s')"
    and "(peer, t) \<in> set (timer_clocks (src_type src) s)" and "src_priority peer = src_priority src"
    and "src_token peer \<noteq> src_token src"
  shows "(\<forall>u. (peer, u) \<notin> set (timer_clocks (src_type src) s')) \<and>
    map_of (ed_state s') (src_token peer) = map_of (ed_state s) (src_token peer)"
proof -
  have s1: "ed_state s1 = ed_state s" "timer_clocks (src_type src) s1 = timer_clocks (src_type src) s"
    using assms(2) by (auto simp: pending_pop_def split: option.splits)
  have "ev_try (set_enabled E src EvOff s1) (\<lambda>s2. Some (Inr (), s2)) = Some (Inr (), s')"
    using assms(1,2,4,5) s1(1) by (simp add: events_dispatch_def)
  then have "set_enabled E src EvOff s1 = Some (Inr (), s')" by (auto elim: ev_try_OkE)
  then obtain s2 where o: "source_offline E src s1 = Some (Inr (), s2)" and
    s': "s' = s2\<lparr>ed_state := AList.update (src_token src) EvOff (ed_state s2)\<rparr>"
    by (auto simp: set_enabled_def elim: ev_try_OkE)
  have "timer_clocks (src_type src) s2 = timer_inner_remove src (timer_clocks (src_type src) s1)"
    "ed_state s2 = ed_state s1"
    using timer_offline [OF assms(3) _ o] assms(4) s1(1) by auto
  then show ?thesis using s1 assms(7,8) s'
    by (simp add: timer_inner_remove_def source_cmp_equal_def update_conv')
qed

section \<open>Deleted sources\<close>

lemma offline_pending: "source_offline E src s = Some (r, s1) \<Longrightarrow> ed_pending s1 = ed_pending s \<and> ed_exit s1 = ed_exit s"
proof (cases "map_of (ed_state s) (src_token src)")
  case (Some st)
  assume "source_offline E src s = Some (r, s1)"
  then show ?thesis
    by (cases st; cases "src_type src")
      (auto simp: Some source_offline_def Let_def ev_syscall_def ev_env_def split: if_splits prod.splits)
qed (auto simp: source_offline_def)

lemma del_source_effect:
  fixes s :: "'w events"
  assumes "del_source E src s = Some (Inr (), s')"
  shows "ed_pending s' = ed_pending s \<and> ed_exit s' = ed_exit s \<and> map_of (ed_state s') (src_token src) = None"
proof -
  obtain s1 where o: "source_offline E src s = Some (Inr (), s1)"
    and d: "(let token = src_token src; et = src_type src;
         drop_state = (\<lambda>s :: 'w events. Some (Inr (), s\<lparr>ed_state := AList.delete token (ed_state s)\<rparr>))
     in if is_fd_type et then drop_state (s1\<lparr>ed_sources := AList.delete token (ed_sources s1)\<rparr>)
        else if et = EvDefer
        then (if map_of (ed_defer_sources s1) token = None then Some (Inl EvOther, s1)
              else drop_state (s1\<lparr>ed_defer_sources := AList.delete token (ed_defer_sources s1)\<rparr>))
        else if et = EvPost
        then (if map_of (ed_post_sources s1) token = None then Some (Inl EvOther, s1)
              else drop_state (s1\<lparr>ed_post_sources := AList.delete token (ed_post_sources s1)\<rparr>))
        else if et = EvExit
        then (if map_of (ed_exit_sources s1) token = None then Some (Inl EvOther, s1)
              else drop_state (s1\<lparr>ed_exit_sources := AList.delete token (ed_exit_sources s1)\<rparr>))
        else if et = EvWatchdog then None
        else drop_state s1) = Some (Inr (), s')"
    using assms unfolding del_source_def by (rule ev_try_OkE)
  have "ed_pending s' = ed_pending s1 \<and> ed_exit s' = ed_exit s1 \<and> map_of (ed_state s') (src_token src) = None"
    using d by (auto simp: Let_def delete_conv' split: if_splits)
  then show ?thesis using offline_pending [OF o] by simp
qed

text \<open>
  A source that is deleted while it is pending brings the loop down: the deletion removes its state but
  not its entry in the queue, and when its turn comes, \<open>source_state(..).unwrap()\<close> panics.
\<close>

theorem deleted_pending_source_panics:
  assumes "\<not> ed_exit s" and "pending_pop s = (Some src, s1)" and "del_source E src s = Some (Inr (), s')"
  shows "events_dispatch E cb s' = None"
proof -
  note e = del_source_effect [OF assms(3)]
  obtain rest where "pending_pop s' = (Some src, s'\<lparr>ed_pending := rest\<rparr>)"
    using assms(2) e by (auto simp: pending_pop_def split: option.splits)
  then show ?thesis using assms(1) e by (simp add: events_dispatch_def)
qed

section \<open>The invariant of the loop\<close>

definition ev_ok_src :: "'w events \<Rightarrow> source \<Rightarrow> bool" where
  "ev_ok_src s src \<longleftrightarrow> map_of (ed_state s) (src_token src) \<noteq> None \<and> src_type src \<notin> {EvPost, EvExit, EvWatchdog}"

definition ev_wf :: "'w events \<Rightarrow> bool" where
  "ev_wf s \<longleftrightarrow> (\<forall>et. timer_clocks et s \<noteq> [] \<longrightarrow> et \<in> set (ed_timerfd s)) \<and>
     (\<forall>src \<in> set (ed_pending s). ev_ok_src s src) \<and>
     (\<forall>t src. map_of (ed_sources s) t = Some src \<longrightarrow> ev_ok_src s src) \<and>
     (\<forall>et c. c \<in> set (timer_clocks et s) \<longrightarrow> ev_ok_src s (fst c))"

lemma ev_wfD:
  assumes "ev_wf s"
  shows "timer_clocks et s \<noteq> [] \<Longrightarrow> et \<in> set (ed_timerfd s)" and "src \<in> set (ed_pending s) \<Longrightarrow> ev_ok_src s src"
    and "map_of (ed_sources s) t = Some src \<Longrightarrow> ev_ok_src s src"
    and "c \<in> set (timer_clocks et s) \<Longrightarrow> ev_ok_src s (fst c)"
  using assms unfolding ev_wf_def by blast+

lemma ev_ok_src_frame [simp]:
  "ev_ok_src (s\<lparr>ed_env := w\<rparr>) = ev_ok_src s" "ev_ok_src (s\<lparr>ed_pending := q\<rparr>) = ev_ok_src s"
  "ev_ok_src (s\<lparr>ed_timer := c\<rparr>) = ev_ok_src s" "ev_ok_src (s\<lparr>ed_timerfd := f\<rparr>) = ev_ok_src s"
  "ev_ok_src (s\<lparr>ed_sources := m\<rparr>) = ev_ok_src s" "ev_ok_src (pending_push x s) = ev_ok_src s"
  by (simp_all add: ev_ok_src_def fun_eq_iff pending_push_def)

lemma ev_wf_env [simp]: "ev_wf (s\<lparr>ed_env := w\<rparr>) = ev_wf s"
  by (simp add: ev_wf_def)

lemma ev_env_wf [simp]: "ev_wf (snd (ev_env f s)) = ev_wf s"
  by (simp add: ev_env_def split: prod.splits)

lemma ev_wf_push: "ev_wf s \<Longrightarrow> ev_ok_src s src \<Longrightarrow> ev_wf (pending_push src s)"
  unfolding ev_wf_def by (simp add: pending_push_def)

lemma timer_clocks_update:
  "timer_clocks e (s\<lparr>ed_timer := AList.update et cs (ed_timer s)\<rparr>) = (if e = et then cs else timer_clocks e s)"
  by (simp add: timer_clocks_def update_conv')

lemma ev_wf_sub_clocks:
  assumes "ev_wf s" and "set cs \<subseteq> set (timer_clocks et s)"
  shows "ev_wf (s\<lparr>ed_timer := AList.update et cs (ed_timer s)\<rparr>)"
proof -
  have ne: "timer_clocks et s \<noteq> []" if "cs \<noteq> []" using that assms(2) by auto
  have ok: "ev_ok_src s a" if "(a, b) \<in> set cs" for a b
    using that assms(2) ev_wfD(4) [OF assms(1), of "(a, b)"] by auto
  show ?thesis
    using assms(1) ne unfolding ev_wf_def by (auto simp: timer_clocks_update intro: ok)
qed

lemma ev_wf_delete_clocks:
  assumes "ev_wf s" shows "ev_wf (s\<lparr>ed_timer := AList.delete et (ed_timer s)\<rparr>)"
proof -
  have "timer_clocks e (s\<lparr>ed_timer := AList.delete et (ed_timer s)\<rparr>) = (if e = et then [] else timer_clocks e s)" for e
    by (simp add: timer_clocks_def delete_conv')
  then show ?thesis using assms unfolding ev_wf_def by (simp split: if_splits)
qed

lemma timer_pop_wf:
  assumes wf: "ev_wf s" and p: "timer_pop E et s = (r, s1)"
  shows "ev_wf s1 \<and> (\<forall>src. r = Some src \<longrightarrow> ev_ok_src s1 src)"
proof -
  obtain now s0 where e: "ev_env (eo_now E et) s = (now, s0)" by (cases "ev_env (eo_now E et) s")
  have wf0: "ev_wf s0" using wf ev_env_wf [of "eo_now E et" s] e by simp
  show ?thesis
  proof (cases "map_of (ed_timer s0) et")
    case None
    then show ?thesis using p wf0 e by (auto simp: timer_pop_def)
  next
    case (Some cs)
    have tc: "timer_clocks et s0 = cs" by (simp add: timer_clocks_def Some)
    show ?thesis
    proof (cases "take_min snd cs")
      case None
      then show ?thesis using p Some e ev_wf_delete_clocks [OF wf0] by (auto simp: timer_pop_def)
    next
      case (Some cr)
      obtain c rest where m: "take_min snd cs = Some (c, rest)" using Some by (cases cr) auto
      note cset = take_min_set [OF m]
      have sub: "set rest \<subseteq> set (timer_clocks et s0)" using cset tc by blast
      have "ev_ok_src s0 (fst c)" using ev_wfD(4) [OF wf0, of c et] cset tc by simp
      then show ?thesis
        using p \<open>map_of (ed_timer s0) et = Some cs\<close> e m ev_wf_sub_clocks [OF wf0 sub] wf0
        by (auto simp: timer_pop_def split: if_splits)
    qed
  qed
qed

lemma timer_pop_all_wf: "ev_wf s \<Longrightarrow> ev_wf (timer_pop_all E et s)"
proof (induction E et s rule: timer_pop_all.induct)
  case (1 E et s)
  obtain r s1 where p: "timer_pop E et s = (r, s1)" by (cases "timer_pop E et s")
  note w = timer_pop_wf [OF "1.prems" p]
  show ?case
  proof (cases r)
    case None
    then show ?thesis using p w by (subst timer_pop_all.simps) simp
  next
    case (Some src)
    have "ev_wf (timer_pop_all E et (pending_push src s1))"
      by (rule "1.IH" [OF p [symmetric] Some]) (use w Some ev_wf_push in blast)
    then show ?thesis using p Some by (subst timer_pop_all.simps) simp
  qed
qed

lemma timer_next_nonempty: "timer_next et s = Some n \<Longrightarrow> timer_clocks et s \<noteq> []"
  by (auto simp: timer_next_def)

lemma ev_env_frame: "ev_env f s = (a, s1) \<Longrightarrow> timer_clocks et s1 = timer_clocks et s \<and> ed_timerfd s1 = ed_timerfd s"
  by (auto simp: ev_env_def split: prod.splits)

lemma wait_timer_wf:
  assumes wf: "ev_wf (snd r)"
  shows "\<exists>r'. wait_timer E et r = Some r' \<and> ev_wf (snd r')"
proof -
  obtain go s where r: "r = (go, s)" by (cases r)
  show ?thesis
  proof (cases "\<not> go \<or> timer_next et s = None")
    case True
    then show ?thesis using wf by (auto simp: wait_timer_def r)
  next
    case False
    then obtain n where n: "timer_next et s = Some n" and g: go by auto
    obtain now s1 where e: "ev_env (eo_now E et) s = (now, s1)" by (cases "ev_env (eo_now E et) s")
    obtain ok s2 where f: "ev_env (eo_flush E et) s1 = (ok, s2)" by (cases "ev_env (eo_flush E et) s1")
    have w1: "ev_wf s1" using wf ev_env_wf [of "eo_now E et" s] e r by simp
    then have w2: "ev_wf s2" using ev_env_wf [of "eo_flush E et" s1] f by simp
    have "et \<in> set (ed_timerfd s1)"
      using ev_wfD(1) [OF w1, of et] timer_next_nonempty [OF n] ev_env_frame [OF e, of et] by simp
    then show ?thesis using g n e f w1 w2 timer_pop_all_wf [OF w2] by (simp add: wait_timer_def r ex_bool_eq)
  qed
qed

lemma prepare_timer_wf:
  assumes wf: "ev_wf (snd r)"
  shows "\<exists>r'. prepare_timer E et r = Some r' \<and> ev_wf (snd r')"
proof -
  obtain go s where r: "r = (go, s)" by (cases r)
  show ?thesis
  proof (cases "timer_next et s")
    case None
    then show ?thesis using wf by (auto simp: prepare_timer_def r)
  next
    case (Some n)
    obtain now s1 where e: "ev_env (eo_now E et) s = (now, s1)" by (cases "ev_env (eo_now E et) s")
    have w1: "ev_wf s1" using wf ev_env_wf [of "eo_now E et" s] e r by simp
    have "et \<in> set (ed_timerfd s1)"
      using ev_wfD(1) [OF w1, of et] timer_next_nonempty [OF Some] ev_env_frame [OF e, of et] by simp
    then show ?thesis using Some e w1 timer_pop_all_wf [OF w1] by (simp add: prepare_timer_def r ex_bool_eq)
  qed
qed

lemma events_wait_wf:
  assumes wf: "ev_wf s"
  shows "\<exists>b s'. events_wait E timeout s = Some (b, s') \<and> ev_wf s'"
proof -
  obtain ts s1 where e: "ev_env (eo_poll E timeout) s = (ts, s1)" by (cases "ev_env (eo_poll E timeout) s")
  have w1: "ev_wf s1" using wf ev_env_wf [of "eo_poll E timeout" s] e by simp
  show ?thesis
  proof (cases ts)
    case None
    then show ?thesis using e w1 by (simp add: events_wait_def ex_bool_eq)
  next
    case (Some l)
    let ?f = "\<lambda>t s. case map_of (ed_sources s) t of Some src \<Rightarrow> pending_push src s | None \<Rightarrow> s"
    have "ev_wf (fold ?f l s)" if "ev_wf s" for s :: "'a events"
      using that by (induction l arbitrary: s) (auto split: option.splits intro: ev_wf_push dest: ev_wfD(3))
    then have "ev_wf (snd (True, fold ?f l s1))" using w1 by simp
    from fold_opt_total [of "\<lambda>r. ev_wf (snd r)", OF this, of timer_types "wait_timer E"]
    obtain r where "fold_opt (wait_timer E) timer_types (True, fold ?f l s1) = Some r" "ev_wf (snd r)"
      using wait_timer_wf by blast
    then show ?thesis using e Some by (cases r) (simp add: events_wait_def)
  qed
qed

lemma events_prepare_wf:
  assumes wf: "ev_wf s"
  shows "\<exists>b s'. events_prepare E s = Some (b, s') \<and> ev_wf s'"
proof -
  have "ev_wf (snd (False, s))" using wf by simp
  from fold_opt_total [of "\<lambda>r. ev_wf (snd r)", OF this, of timer_types "prepare_timer E"]
  obtain ret s1 where "fold_opt (prepare_timer E) timer_types (False, s) = Some (ret, s1)" "ev_wf s1"
    using prepare_timer_wf by (metis snd_conv surj_pair)
  then show ?thesis using events_wait_wf [of s1 E 0] by (simp add: events_prepare_def)
qed

lemma offline_total:
  assumes wf: "ev_wf s" and t: "src_type src \<notin> {EvPost, EvExit, EvWatchdog}"
  shows "\<exists>r s1. source_offline E src s = Some (r, s1) \<and> ev_wf s1 \<and> ed_state s1 = ed_state s"
proof -
  have sub: "ev_wf (timer_remove et src s)" for et
  proof (cases "map_of (ed_timer s) et")
    case (Some cs)
    then have "set (timer_inner_remove src cs) \<subseteq> set (timer_clocks et s)"
      by (auto simp: timer_inner_remove_def timer_clocks_def)
    then show ?thesis using ev_wf_sub_clocks [OF wf] Some by (simp add: timer_remove_def)
  qed (simp add: timer_remove_def wf)
  have empty: "ev_wf (s1\<lparr>ed_timerfd := filter (\<lambda>e. e \<noteq> et) (ed_timerfd s1), ed_env := w\<rparr>)"
    if "ev_wf s1" "timer_is_empty et s1" for s1 et w
    using that unfolding ev_wf_def timer_is_empty_def by (auto simp: timer_clocks_def)
  show ?thesis
  proof (cases "map_of (ed_state s) (src_token src) \<in> {None, Some EvOff}")
    case True
    then show ?thesis using wf by (auto simp: source_offline_def)
  next
    case False
    then obtain st where st: "map_of (ed_state s) (src_token src) = Some st" "st \<noteq> EvOff" by auto
    show ?thesis
    proof (cases "is_timer (src_type src)")
      case True
      let ?s = "timer_remove (src_type src) src s"
      have o: "source_offline E src s = (if timer_is_empty (src_type src) ?s \<and> src_type src \<in> set (ed_timerfd ?s)
          then ev_syscall (ev_env (eo_unregister E (RegTimer (src_type src)))
            (?s\<lparr>ed_timerfd := filter (\<lambda>e. e \<noteq> src_type src) (ed_timerfd ?s)\<rparr>))
          else Some (Inr (), ?s))"
        using True st by (cases st; cases "src_type src") (simp_all add: source_offline_def is_timer_def Let_def)
      show ?thesis
      proof (cases "timer_is_empty (src_type src) ?s")
        case True
        then show ?thesis using o sub empty [OF sub True]
          by (simp add: ev_syscall_def ev_env_def split: prod.splits)
      qed (use o sub in simp)
    next
      case False
      then show ?thesis using st t wf
        by (cases st; cases "src_type src")
          (simp_all add: source_offline_def is_timer_def Let_def ev_syscall_def ev_env_def split: prod.splits)
    qed
  qed
qed

lemma ev_wf_state:
  assumes "ev_wf s" shows "ev_wf (s\<lparr>ed_state := AList.update t st (ed_state s)\<rparr>)"
proof -
  have "ev_ok_src s src \<Longrightarrow> ev_ok_src (s\<lparr>ed_state := AList.update t st (ed_state s)\<rparr>) src" for src
    by (simp add: ev_ok_src_def update_conv')
  then show ?thesis using assms unfolding ev_wf_def by auto
qed


section \<open>Instances\<close>

definition demo_src :: "u64 \<Rightarrow> source" where
  "demo_src t = \<lparr>src_token = t, src_type = EvTimerMonotonic, src_priority = 0, src_fd = 0,
     src_time_relative = 5, src_time = - 1\<rparr>"

definition demo_ev :: "unit ev_ops" where
  "demo_ev = \<lparr>eo_register = (\<lambda>_ w. (True, w)), eo_unregister = (\<lambda>_ w. (True, w)), eo_add_child = (\<lambda>_ w. w),
     eo_poll = (\<lambda>_ w. (Some [], w)), eo_now = (\<lambda>_ w. (100, w)), eo_settime = (\<lambda>_ _ w. w),
     eo_flush = (\<lambda>_ w. (True, w)), eo_checks = True\<rparr>"

text \<open>Two timers; the first has expired and is pending, the second would expire later.\<close>

definition demo_loop :: "unit events" where
  "demo_loop = (events_new ())\<lparr>ed_pending := [demo_src 1], ed_state := [(1, EvOneShot), (2, EvOneShot)],
     ed_timerfd := [EvTimerMonotonic], ed_timer := [(EvTimerMonotonic, [(demo_src 2, 200)])]\<rparr>"

lemmas demo_loop_defs = demo_loop_def demo_src_def demo_ev_def events_new_def

theorem firing_timer_drops_peers_witness:
  "\<exists>s'. events_dispatch demo_ev (\<lambda>_ s. Some s) demo_loop = Some (Inr (), s') \<and>
     (demo_src 2, 200) \<notin> set (timer_clocks EvTimerMonotonic s') \<and> map_of (ed_state s') 2 = Some EvOneShot"
proof -
  obtain s' where d: "events_dispatch demo_ev (\<lambda>_ s. Some s) demo_loop = Some (Inr (), s')"
    by (simp add: events_dispatch_def demo_loop_defs pending_pop_def set_enabled_def source_offline_def
        timer_remove_def timer_inner_remove_def source_cmp_equal_def timer_is_empty_def timer_clocks_def
        ev_syscall_def ev_env_def)
  have "\<not> ed_exit demo_loop" "pending_pop demo_loop = (Some (demo_src 1), demo_loop\<lparr>ed_pending := []\<rparr>)"
    "is_timer (src_type (demo_src 1))" "map_of (ed_state demo_loop) (src_token (demo_src 1)) = Some EvOneShot"
    by (simp_all add: demo_loop_defs pending_pop_def is_timer_def)
  from firing_timer_drops_peers [OF this d, of "demo_src 2" 200] d show ?thesis
    by (simp add: demo_loop_defs timer_clocks_def)
qed

theorem deleted_pending_source_panics_witness:
  "\<exists>s'. del_source demo_ev (demo_src 1) demo_loop = Some (Inr (), s') \<and> events_dispatch demo_ev (\<lambda>_ s. Some s) s' = None"
proof -
  obtain s' where d: "del_source demo_ev (demo_src 1) demo_loop = Some (Inr (), s')"
    by (simp add: del_source_def demo_loop_defs source_offline_def is_fd_type_def
        timer_remove_def timer_inner_remove_def source_cmp_equal_def timer_is_empty_def timer_clocks_def
        ev_syscall_def ev_env_def)
  have "\<not> ed_exit demo_loop" "pending_pop demo_loop = (Some (demo_src 1), demo_loop\<lparr>ed_pending := []\<rparr>)"
    by (simp_all add: demo_loop_defs pending_pop_def)
  from deleted_pending_source_panics [OF this d] d show ?thesis by blast
qed


end
