(* ===== verification/Service_Mng.thy ===== *)
theory Service_Mng
  imports Service_Conf Event_Loop
begin

text \<open>
  The state machine of a service: \<open>ServiceMng\<close>, \<open>RunningData\<close>, \<open>ServiceTimer\<close>, \<open>ServiceMonitorData\<close> and
  \<open>PathIntofy\<close> of \<^verbatim>\<open>coms/service/src/mng.rs\<close>, \<open>ServicePid\<close> of \<open>pid.rs\<close>, \<open>start_service\<close> of \<open>spawn.rs\<close> and
  the entry points of \<open>unit.rs\<close>.

  The objects a service consists of share one state, the record \<open>svc\<close>; its configuration is the argument
  \<open>C\<close>. What the service calls outside (the unit manager, the unit it belongs to, processes, files, epoll) are
  the operations \<open>V\<close> over a world \<open>'w\<close>. The field \<open>sv_events\<close> is the entry of the event loop for each source of
  the service, changed by the three calls as \<open>Event_Loop\<close> does when they succeed.
\<close>

section \<open>State\<close>

datatype sv_source = SrcTimer | SrcWatchdog | SrcInotify nat

datatype sv_event_op = OpAdd sv_source | OpDel sv_source | OpEnable sv_source event_state

type_synonym exec_flags = "16 word"

definition EXEC_CONTROL :: exec_flags where
  "EXEC_CONTROL = push_bit 1 1"

definition EXEC_PASS_FDS :: exec_flags where
  "EXEC_PASS_FDS = push_bit 2 1"

definition EXEC_SOFT_WATCHDOG :: exec_flags where
  "EXEC_SOFT_WATCHDOG = push_bit 3 1"

text \<open>What reading the pid file gives: not a regular file, an error, or its first line.\<close>

datatype pid_file_read = NoFile | ReadError | FirstLine string

record 'w svc_ops =
  so_event :: "sv_event_op \<Rightarrow> 'w \<Rightarrow> bool \<times> 'w"
  so_prepare_exec :: "'w \<Rightarrow> bool \<times> 'w"
  so_notify_socket :: "'w \<Rightarrow> bool"
  so_exec_params :: "'w \<Rightarrow> bool"
  so_exec_spawn :: "exec_command \<Rightarrow> exec_flags \<Rightarrow> pid option \<Rightarrow> 'w \<Rightarrow> pid option \<times> 'w"
  so_child_watch_pid :: "pid \<Rightarrow> 'w \<Rightarrow> 'w"
  so_child_unwatch_pid :: "pid \<Rightarrow> 'w \<Rightarrow> 'w"
  so_child_watch_all_pids :: "'w \<Rightarrow> 'w"
  so_kill_context :: "pid option \<Rightarrow> pid option \<Rightarrow> kill_operation \<Rightarrow> bool \<Rightarrow> 'w \<Rightarrow> bool option \<times> 'w"
  so_notify :: "unit_active_state \<Rightarrow> unit_active_state \<Rightarrow> unit_notify_flags \<Rightarrow> 'w \<Rightarrow> 'w"
  so_has_stop_job :: "'w \<Rightarrow> bool"
  so_has_start_job :: "'w \<Rightarrow> bool"
  so_restart_unit :: "'w \<Rightarrow> bool \<times> 'w"
  so_test_start_limit :: "'w \<Rightarrow> bool \<times> 'w"
  so_alive :: "pid \<Rightarrow> 'w \<Rightarrow> bool"
  so_my_child :: "pid \<Rightarrow> 'w \<Rightarrow> bool"
  so_getpid :: pid
  so_same_unit_with_pid :: "pid \<Rightarrow> 'w \<Rightarrow> bool"
  so_cg_is_empty :: "'w \<Rightarrow> bool option"
  so_guess_main_pid :: "'w \<Rightarrow> pid option"
  so_read_pid_file :: "string \<Rightarrow> 'w \<Rightarrow> pid_file_read"
  so_add_watch_path :: "string \<Rightarrow> 'w \<Rightarrow> bool \<times> 'w"
  so_inotify_unwatch :: "'w \<Rightarrow> 'w"
  so_read_fd_event :: "'w \<Rightarrow> bool \<times> 'w"
  so_kill_and_cont :: "pid \<Rightarrow> 'w \<Rightarrow> 'w"
  so_destroy_runtime_data :: "string list \<Rightarrow> 'w \<Rightarrow> 'w"
  so_unlink :: "string \<Rightarrow> 'w \<Rightarrow> 'w"
  so_sig_no :: "signal \<Rightarrow> int"
  so_from_raw :: "int \<Rightarrow> int \<Rightarrow> wait_status option"

record service_re_mng =
  rm_state :: service_state
  rm_result :: service_result
  rm_main_pid :: "pid option"
  rm_control_pid :: "pid option"
  rm_main_cmd_len :: nat
  rm_control_cmd_type :: "service_command option"
  rm_control_cmd_len :: nat
  rm_notify_state :: notify_state
  rm_forbid_restart :: bool
  rm_reset_restart :: bool
  rm_restarts :: u32
  rm_exit_status :: exit_status
  rm_monitor :: service_monitor

record 'w svc =
  sv_owner :: bool
  sv_state :: service_state
  sv_result :: service_result
  sv_reload_result :: service_result
  sv_main :: "pid option"
  sv_main_alien :: bool
  sv_main_known :: bool
  sv_control :: "pid option"
  sv_main_command :: "exec_command list"
  sv_control_cmd_type :: "service_command option"
  sv_control_command :: "exec_command list"
  sv_current_main_command :: exec_command
  sv_monitor :: service_monitor
  sv_exec_params :: "string list option option"
  sv_errno :: int
  sv_notify_state :: notify_state
  sv_inotify :: "nat option"
  sv_inotify_next :: nat
  sv_forbid_restart :: bool
  sv_reset_restarts :: bool
  sv_will_auto_restart :: bool
  sv_restarts :: u32
  sv_timer :: "u64 option"
  sv_exec_status :: wait_status
  sv_watchdog :: "u64 option"
  sv_events :: "sv_source \<Rightarrow> event_state option"
  sv_db :: "service_re_mng option"
  sv_env :: 'w

definition svc_new :: "bool \<Rightarrow> 'w \<Rightarrow> 'w svc" where
  "svc_new owner w = \<lparr>sv_owner = owner, sv_state = SvDead, sv_result = Success, sv_reload_result = Success,
     sv_main = None, sv_main_alien = False, sv_main_known = False, sv_control = None,
     sv_main_command = [], sv_control_cmd_type = None, sv_control_command = [],
     sv_current_main_command = exec_command_empty, sv_monitor = service_monitor_new, sv_exec_params = None,
     sv_errno = 0, sv_notify_state = NsUnknown, sv_inotify = None, sv_inotify_next = 0,
     sv_forbid_restart = False, sv_reset_restarts = False, sv_will_auto_restart = False, sv_restarts = 0,
     sv_timer = None, sv_exec_status = StillAlive, sv_watchdog = None, sv_events = (\<lambda>_. None),
     sv_db = None, sv_env = w\<rparr>"

definition sv_do :: "('w \<Rightarrow> 'w) \<Rightarrow> 'w svc \<Rightarrow> 'w svc" where
  "sv_do f s = s\<lparr>sv_env := f (sv_env s)\<rparr>"

definition sv_ask :: "('w \<Rightarrow> 'a \<times> 'w) \<Rightarrow> 'w svc \<Rightarrow> 'a \<times> 'w svc" where
  "sv_ask f s = (let (a, w) = f (sv_env s) in (a, s\<lparr>sv_env := w\<rparr>))"

section \<open>Calls of the event loop\<close>

fun sv_event_apply :: "sv_event_op \<Rightarrow> (sv_source \<Rightarrow> event_state option) \<Rightarrow> sv_source \<Rightarrow> event_state option" where
  "sv_event_apply (OpAdd src) m = m(src \<mapsto> EvOff)"
| "sv_event_apply (OpDel src) m = m(src := None)"
| "sv_event_apply (OpEnable src st) m = m(src \<mapsto> st)"

definition ev_call :: "'w svc_ops \<Rightarrow> sv_event_op \<Rightarrow> 'w svc \<Rightarrow> bool \<times> 'w svc" where
  "ev_call V op s =
     (let (ok, s1) = sv_ask (so_event V op) s in
      (ok, if ok then s1\<lparr>sv_events := sv_event_apply op (sv_events s1)\<rparr> else s1))"

text \<open>The call followed by \<open>unwrap()\<close>.\<close>

definition ev_unwrap :: "'w svc_ops \<Rightarrow> sv_event_op \<Rightarrow> 'w svc \<Rightarrow> 'w svc option" where
  "ev_unwrap V op s = (let (ok, s1) = ev_call V op s in if ok then Some s1 else None)"

text \<open>Several calls with \<open>?\<close> after each.\<close>

fun ev_calls :: "'w svc_ops \<Rightarrow> sv_event_op list \<Rightarrow> 'w svc \<Rightarrow> bool \<times> 'w svc" where
  "ev_calls V [] s = (True, s)"
| "ev_calls V (op # ops) s = (let (ok, s1) = ev_call V op s in if ok then ev_calls V ops s1 else (False, s1))"

definition enable_timer :: "'w svc_ops \<Rightarrow> u64 \<Rightarrow> 'w svc \<Rightarrow> bool \<times> 'w svc" where
  "enable_timer V usec s =
     (if usec = u64_MAX
      then (if sv_timer s \<noteq> None then ev_calls V [OpDel SrcTimer] s else (True, s))
      else if sv_timer s \<noteq> None
      then (let (ok, s1) = ev_call V (OpEnable SrcTimer EvOff) s in
            if ok then ev_calls V [OpEnable SrcTimer EvOneShot] (s1\<lparr>sv_timer := Some usec\<rparr>) else (False, s1))
      else ev_calls V [OpAdd SrcTimer, OpEnable SrcTimer EvOneShot] (s\<lparr>sv_timer := Some usec\<rparr>))"

definition delete_timer :: "'w svc_ops \<Rightarrow> 'w svc \<Rightarrow> 'w svc option" where
  "delete_timer V s =
     (if sv_timer s = None then Some s
      else do { s1 \<leftarrow> ev_unwrap V (OpEnable SrcTimer EvOff) s; ev_unwrap V (OpDel SrcTimer) s1 })"

section \<open>Process ids\<close>

definition set_main :: "'w svc_ops \<Rightarrow> pid \<Rightarrow> 'w svc \<Rightarrow> bool \<times> 'w svc" where
  "set_main V pid s =
     (if sv_main s = Some pid then (True, s)
      else let s1 = (case sv_main s of
                       Some p \<Rightarrow> (if sv_owner s then sv_do (so_child_unwatch_pid V p) s else s)\<lparr>sv_main := None\<rparr>
                     | None \<Rightarrow> s)
           in if pid < 1 then (False, s1)
              else (True, s1\<lparr>sv_main := Some pid, sv_main_alien := \<not> so_my_child V pid (sv_env s1), sv_main_known := True\<rparr>))"

definition reset_main :: "'w svc \<Rightarrow> 'w svc" where
  "reset_main s = s\<lparr>sv_main := None\<rparr>"

definition unwatch_main :: "'w svc_ops \<Rightarrow> 'w svc \<Rightarrow> 'w svc" where
  "unwatch_main V s =
     (case sv_main s of
        Some p \<Rightarrow> reset_main (if sv_owner s then sv_do (so_child_unwatch_pid V p) s else s)
      | None \<Rightarrow> s)"

definition set_control :: "pid \<Rightarrow> 'w svc \<Rightarrow> 'w svc" where
  "set_control pid s = s\<lparr>sv_control := Some pid\<rparr>"

definition reset_control :: "'w svc \<Rightarrow> 'w svc" where
  "reset_control s = s\<lparr>sv_control := None\<rparr>"

definition unwatch_control :: "'w svc_ops \<Rightarrow> 'w svc \<Rightarrow> 'w svc" where
  "unwatch_control V s =
     (case sv_control s of
        Some p \<Rightarrow> reset_control (if sv_owner s then sv_do (so_child_unwatch_pid V p) s else s)
      | None \<Rightarrow> s)"

definition update_main :: "'w svc_ops \<Rightarrow> pid option \<Rightarrow> 'w svc \<Rightarrow> 'w svc" where
  "update_main V p s = (case p of Some pid \<Rightarrow> snd (set_main V pid s) | None \<Rightarrow> reset_main s)"

definition update_control :: "pid option \<Rightarrow> 'w svc \<Rightarrow> 'w svc" where
  "update_control p s = (case p of Some pid \<Rightarrow> set_control pid s | None \<Rightarrow> reset_control s)"

text \<open>\<open>main_alive\<close>; \<open>None\<close> is the error (the main process is not known).\<close>

definition main_alive :: "'w svc_ops \<Rightarrow> 'w svc \<Rightarrow> bool option" where
  "main_alive V s =
     (if \<not> sv_main_known s then None
      else case sv_main s of None \<Rightarrow> Some False | Some p \<Rightarrow> Some (so_alive V p (sv_env s)))"

section \<open>Commands\<close>

definition main_command_fill :: "service_conf \<Rightarrow> 'w svc \<Rightarrow> 'w svc" where
  "main_command_fill C s =
     (case get_exec_cmds C CmdStart of Some cmds \<Rightarrow> s\<lparr>sv_main_command := cmds\<rparr> | None \<Rightarrow> s)"

definition main_command_pop :: "'w svc \<Rightarrow> exec_command option \<times> 'w svc" where
  "main_command_pop s =
     (case sv_main_command s of [] \<Rightarrow> (None, s) | c # cs \<Rightarrow> (Some c, s\<lparr>sv_main_command := cs\<rparr>))"

definition main_command_update :: "service_conf \<Rightarrow> nat \<Rightarrow> 'w svc \<Rightarrow> 'w svc" where
  "main_command_update C len s =
     (let s1 = main_command_fill C (s\<lparr>sv_main_command := []\<rparr>)
      in ((\<lambda>s. snd (main_command_pop s)) ^^ (length (sv_main_command s1) - len)) s1)"

definition control_command_fill :: "service_conf \<Rightarrow> service_command \<Rightarrow> 'w svc \<Rightarrow> 'w svc" where
  "control_command_fill C cmd_type s =
     (case get_exec_cmds C cmd_type of
        Some cmds \<Rightarrow>
          (let s1 = s\<lparr>sv_control_command := cmds\<rparr> in
           if cmds \<noteq> [] then s1\<lparr>sv_control_cmd_type := Some cmd_type\<rparr> else s1)
      | None \<Rightarrow> s)"

definition control_command_pop :: "'w svc \<Rightarrow> exec_command option \<times> 'w svc" where
  "control_command_pop s =
     (case sv_control_command s of [] \<Rightarrow> (None, s) | c # cs \<Rightarrow> (Some c, s\<lparr>sv_control_command := cs\<rparr>))"

definition control_command_update ::
  "service_conf \<Rightarrow> service_command option \<Rightarrow> nat \<Rightarrow> 'w svc \<Rightarrow> 'w svc option" where
  "control_command_update C cmd_type len s =
     (case cmd_type of
        Some c_type \<Rightarrow>
          (let s1 = control_command_fill C c_type (s\<lparr>sv_control_command := []\<rparr>)
           in Some (((\<lambda>s. snd (control_command_pop s)) ^^ (length (sv_control_command s1) - len)) s1))
      | None \<Rightarrow> do { rust_assert (len = 0); Some s })"

section \<open>Spawning\<close>

definition path_join :: "string \<Rightarrow> string \<Rightarrow> string" where
  "path_join a b = (if is_absolute b then b else a @ CHR ''/'' # b)"

text \<open>\<open>add_runtime_directory\<close> and \<open>get_runtime_directory\<close> of \<open>ExecParameters\<close>.\<close>

definition exec_runtime_directory :: "service_conf \<Rightarrow> string list option" where
  "exec_runtime_directory C =
     (case RuntimeDirectory C of
        Some ds \<Rightarrow> if ds = [] then None else Some (map (path_join ''/run'') ds)
      | None \<Rightarrow> None)"

text \<open>
  \<open>start_service\<close>: \<open>Some (None, _)\<close> is the error. Collecting the socket descriptors and the environment for the
  child is part of \<open>so_exec_spawn\<close>, the parameters that may be refused are \<open>so_exec_params\<close>; the socket path is
  unwrapped.
\<close>

definition start_service ::
  "'w svc_ops \<Rightarrow> service_conf \<Rightarrow> exec_command \<Rightarrow> u64 \<Rightarrow> exec_flags \<Rightarrow> 'w svc \<Rightarrow> (pid option \<times> 'w svc) option" where
  "start_service V C cmd time_out flags s =
     (if \<not> sv_owner s then Some (None, s)
      else let (prepared, s1) = sv_ask (so_prepare_exec V) s in
      if \<not> prepared then Some (None, s1)
      else let (armed, s2) = enable_timer V time_out s1 in
      if \<not> armed then Some (None, s2)
      else do {
        rust_assert (\<not> (Type C = Notify \<or> WatchdogSec C > 0) \<or> so_notify_socket V (sv_env s2));
        if \<not> so_exec_params V (sv_env s2) then Some (None, s2)
        else let (p, s3) = sv_ask (so_exec_spawn V cmd flags (sv_main s2)) s2 in
        case p of
          None \<Rightarrow> Some (None, s3)
        | Some pid \<Rightarrow>
            Some (Some pid, (sv_do (so_child_watch_pid V pid) s3)\<lparr>sv_exec_params := Some (exec_runtime_directory C)\<rparr>) })"

text \<open>
  The step shared by the control phases: fill the commands, pop the first, spawn it, record its pid. What
  follows depends on the outcome.
\<close>

datatype spawn_outcome = NoCmd | SpawnOk | SpawnErr

definition spawn_control ::
  "'w svc_ops \<Rightarrow> service_conf \<Rightarrow> service_command \<Rightarrow> u64 \<Rightarrow> 'w svc \<Rightarrow> (spawn_outcome \<times> 'w svc) option" where
  "spawn_control V C cmd_type time_out s = do {
     let (cmd, s1) = control_command_pop (control_command_fill C cmd_type s);
     case cmd of
       None \<Rightarrow> Some (NoCmd, s1)
     | Some c \<Rightarrow> do {
         (p, s2) \<leftarrow> start_service V C c time_out EXEC_CONTROL s1;
         case p of
           Some pid \<Rightarrow> Some (SpawnOk, set_control pid s2)
         | None \<Rightarrow> Some (SpawnErr, s2) } }"

section \<open>State changes\<close>

definition timer_states :: "service_state list" where
  "timer_states = [SvCondition, SvStartPre, SvStart, SvStartPost, SvRunning, SvReload, SvStop, SvStopWatchdog,
     SvStopSigterm, SvStopSigkill, SvStopPost, SvFinalWatchdog, SvFinalSigterm, SvFinalSigkill, SvAutoRestart,
     SvCleaning]"

definition main_states :: "service_state list" where
  "main_states = [SvStart, SvStartPost, SvRunning, SvReload, SvStop, SvStopWatchdog, SvStopSigterm, SvStopSigkill,
     SvStopPost, SvFinalWatchdog, SvFinalSigterm, SvFinalSigkill]"

definition control_states :: "service_state list" where
  "control_states = [SvCondition, SvStartPre, SvStart, SvStartPost, SvReload, SvStop, SvStopWatchdog, SvStopSigterm,
     SvStopSigkill, SvStopPost, SvFinalWatchdog, SvFinalSigterm, SvFinalSigkill, SvCleaning]"

definition notify_flags :: "'w svc \<Rightarrow> unit_notify_flags" where
  "notify_flags s =
     (UNIT_NOTIFY_SUCCESS OR (if sv_will_auto_restart s then UNIT_NOTIFY_WILL_AUTO_RESTART else 0))
       OR (if sv_reload_result s \<noteq> Success then UNIT_NOTIFY_RELOAD_FAILURE else 0)"

definition set_state :: "'w svc_ops \<Rightarrow> service_conf \<Rightarrow> service_state \<Rightarrow> 'w svc \<Rightarrow> 'w svc option" where
  "set_state V C state s = do {
     let original_state = sv_state s;
     let s1 = s\<lparr>sv_state := state\<rparr>;
     s2 \<leftarrow> (if state \<notin> set timer_states then delete_timer V s1 else Some s1);
     let s3 = (if state \<notin> set main_states then (unwatch_main V s2)\<lparr>sv_main_command := []\<rparr> else s2);
     let s4 = (if state \<notin> set control_states
               then (unwatch_control V s3)\<lparr>sv_control_command := [], sv_control_cmd_type := None\<rparr> else s3);
     let os = service_state_to_unit_state (Type C) original_state;
     let ns = service_state_to_unit_state (Type C) state;
     Some (if sv_owner s4 then sv_do (so_notify V os ns (notify_flags s4)) s4 else s4) }"

definition set_result_once :: "service_result \<Rightarrow> 'w svc \<Rightarrow> 'w svc" where
  "set_result_once res s = (if sv_result s = Success then s\<lparr>sv_result := res\<rparr> else s)"

section \<open>Ending\<close>

definition shall_restart :: "service_conf \<Rightarrow> 'w svc \<Rightarrow> bool" where
  "shall_restart C s =
     (if sv_forbid_restart s then False
      else if exit_status_enabled (RestartPreventExitStatus C) (sv_exec_status s) then False
      else case Restart C of
             RestartNo \<Rightarrow> False
           | OnSuccess \<Rightarrow> sv_result s = Success
           | OnFailure \<Rightarrow> sv_result s \<notin> {Success, SkipCondition}
           | OnWatchdog \<Rightarrow> sv_result s = FailureWatchdog
           | OnAbnormal \<Rightarrow> sv_result s \<notin> {Success, FailureExitCode, SkipCondition}
           | OnAbort \<Rightarrow> sv_result s \<in> {FailureSignal, FailureCoreDump}
           | Always \<Rightarrow> sv_result s \<noteq> SkipCondition)"

definition will_restart :: "'w svc_ops \<Rightarrow> 'w svc \<Rightarrow> bool" where
  "will_restart V s =
     (if sv_will_auto_restart s then True
      else if sv_state s = SvAutoRestart then True
      else sv_owner s \<and> so_has_start_job V (sv_env s))"

text \<open>The end of \<open>enter_dead\<close>: runtime directory (unwrapping the parameters of the last spawn) and pid file.\<close>

definition dead_cleanup :: "'w svc_ops \<Rightarrow> service_conf \<Rightarrow> 'w svc \<Rightarrow> 'w svc option" where
  "dead_cleanup V C s = do {
     let s1 = s\<lparr>sv_forbid_restart := False\<rparr>;
     s2 \<leftarrow> (if RuntimeDirectoryPreserve C = PreserveNo \<or>
               RuntimeDirectoryPreserve C = PreserveRestart \<and> \<not> will_restart V s1
            then do {
              params \<leftarrow> sv_exec_params s1;
              Some (case params of Some dirs \<Rightarrow> sv_do (so_destroy_runtime_data V dirs) s1 | None \<Rightarrow> s1) }
            else Some s1);
     Some (case PIDFile C of Some f \<Rightarrow> sv_do (so_unlink V f) s2 | None \<Rightarrow> s2) }"

text \<open>Whether \<open>enter_dead\<close> arms a restart: it was asked for, no stop is pending, and the policy allows it.\<close>

definition dead_restarts :: "'w svc_ops \<Rightarrow> service_conf \<Rightarrow> service_result \<Rightarrow> bool \<Rightarrow> 'w svc \<Rightarrow> bool" where
  "dead_restarts V C res force_restart s =
     (force_restart \<and> \<not> so_has_stop_job V (sv_env s) \<and> shall_restart C (set_result_once res s))"

function enter_dead :: "'w svc_ops \<Rightarrow> service_conf \<Rightarrow> service_result \<Rightarrow> bool \<Rightarrow> 'w svc \<Rightarrow> 'w svc option" where
  "enter_dead V C res force_restart s =
     (if \<not> sv_owner s then Some s
      else if dead_restarts V C res force_restart s
      then do {
        s1 \<leftarrow> set_state V C (if sv_result (set_result_once res s) = Success then SvDead else SvFailed)
                ((set_result_once res s)\<lparr>sv_will_auto_restart := True\<rparr>);
        (case enable_timer V (RestartSec C) (s1\<lparr>sv_will_auto_restart := False\<rparr>) of
           (ok, s2) \<Rightarrow> if ok then do { s3 \<leftarrow> set_state V C SvAutoRestart s2; dead_cleanup V C s3 }
                      else enter_dead V C FailureResources False s2) }
      else do {
        s1 \<leftarrow> set_state V C (if sv_result (set_result_once res s) = Success then SvDead else SvFailed)
                (set_result_once res s);
        dead_cleanup V C (s1\<lparr>sv_reset_restarts := True\<rparr>) })"
  by pat_completeness auto

termination enter_dead
proof (relation "measure (\<lambda>(V, C, res, force, s). if force then 1 else 0)", goal_cases)
  case 1
  then show ?case by simp
next
  case (2 V C res force s)
  then have force by (simp add: dead_restarts_def)
  then show ?case by simp
qed

declare enter_dead.simps [simp del]

definition stop_signal_states :: "service_state list" where
  "stop_signal_states = [SvStopWatchdog, SvStopSigterm, SvStopSigkill]"

definition signal_rank :: "service_state \<Rightarrow> nat" where
  "signal_rank state =
     (if state \<in> set stop_signal_states then 3 else if state \<in> {SvFinalWatchdog, SvFinalSigterm} then 1 else 0)"

function enter_signal :: "'w svc_ops \<Rightarrow> service_conf \<Rightarrow> service_state \<Rightarrow> service_result \<Rightarrow> 'w svc \<Rightarrow> 'w svc option"
  and enter_stop_post :: "'w svc_ops \<Rightarrow> service_conf \<Rightarrow> service_result \<Rightarrow> 'w svc \<Rightarrow> 'w svc option" where
  "enter_signal V C state res s =
     (if \<not> sv_owner s then None
      else case sv_ask (so_kill_context V (sv_main s) (sv_control s) (to_kill_operation state) (sv_main_alien s))
                  (sv_do (so_child_watch_all_pids V) (set_result_once res s)) of
             (ret, s1) \<Rightarrow>
               (case ret of
                  None \<Rightarrow> if state \<in> set stop_signal_states then enter_stop_post V C FailureResources s1
                          else enter_dead V C FailureResources True s1
                | Some True \<Rightarrow>
                    (case enable_timer V (TimeoutStopSec C) s1 of
                       (ok, s2) \<Rightarrow>
                         if ok then set_state V C state s2
                         else if state \<in> set stop_signal_states then enter_stop_post V C FailureResources s2
                         else enter_dead V C FailureResources True s2)
                | Some False \<Rightarrow>
                    if state \<in> set stop_signal_states then enter_stop_post V C Success s1
                    else if state \<in> {SvFinalWatchdog, SvFinalSigterm} then enter_signal V C SvFinalSigkill Success s1
                    else enter_dead V C Success True s1))"
| "enter_stop_post V C res s = do {
     (out, s1) \<leftarrow> spawn_control V C CmdStopPost 0 (set_result_once res s);
     case out of
       SpawnOk \<Rightarrow> set_state V C SvStopPost s1
     | SpawnErr \<Rightarrow> enter_signal V C SvFinalSigterm FailureResources s1
     | NoCmd \<Rightarrow> enter_signal V C SvFinalSigterm Success s1 }"
  by pat_completeness auto

termination
  by (relation "measure (\<lambda>x. case x of Inl (V, C, state, res, s) \<Rightarrow> signal_rank state | Inr _ \<Rightarrow> 2)")
    (auto simp: signal_rank_def stop_signal_states_def)

declare enter_signal.simps [simp del] enter_stop_post.simps [simp del]

section \<open>Stopping, running, reloading\<close>

definition enter_stop :: "'w svc_ops \<Rightarrow> service_conf \<Rightarrow> service_result \<Rightarrow> 'w svc \<Rightarrow> 'w svc option" where
  "enter_stop V C res s = do {
     (out, s1) \<leftarrow> spawn_control V C CmdStop 0 (set_result_once res s);
     case out of
       SpawnOk \<Rightarrow> set_state V C SvStop s1
     | SpawnErr \<Rightarrow> enter_signal V C SvStopSigterm FailureResources s1
     | NoCmd \<Rightarrow> enter_signal V C SvStopSigterm Success s1 }"

definition enter_stop_by_notify :: "'w svc_ops \<Rightarrow> service_conf \<Rightarrow> 'w svc \<Rightarrow> 'w svc option" where
  "enter_stop_by_notify V C s = set_state V C SvStopSigterm (snd (enable_timer V (TimeoutStopSec C) s))"

definition cgroup_good :: "'w svc_ops \<Rightarrow> 'w svc \<Rightarrow> bool" where
  "cgroup_good V s = (sv_owner s \<and> so_cg_is_empty V (sv_env s) = Some False)"

definition service_alive :: "'w svc_ops \<Rightarrow> 'w svc \<Rightarrow> bool" where
  "service_alive V s = (case main_alive V s of Some v \<Rightarrow> v | None \<Rightarrow> cgroup_good V s)"

definition enter_running :: "'w svc_ops \<Rightarrow> service_conf \<Rightarrow> service_result \<Rightarrow> 'w svc \<Rightarrow> 'w svc option" where
  "enter_running V C sr s =
     (let s1 = set_result_once sr (unwatch_control V s) in
      if sv_result s1 \<noteq> Success then enter_signal V C SvStopSigterm sr s1
      else if service_alive V s1
      then (if sv_notify_state s1 = NsStopping then enter_stop_by_notify V C s1
            else do { s2 \<leftarrow> set_state V C SvRunning s1; Some (snd (enable_timer V u64_MAX s2)) })
      else if RemainAfterExit C then set_state V C SvExited s1
      else enter_stop V C sr s1)"

definition stop_watchdog :: "'w svc_ops \<Rightarrow> 'w svc \<Rightarrow> 'w svc option" where
  "stop_watchdog V s = (if sv_watchdog s \<noteq> None then ev_unwrap V (OpDel SrcWatchdog) s else Some s)"

definition restart_watchdog :: "'w svc_ops \<Rightarrow> service_conf \<Rightarrow> 'w svc \<Rightarrow> 'w svc option" where
  "restart_watchdog V C s = do {
     let s1 = s\<lparr>sv_monitor := set_original_watchdog (WatchdogSec C) (sv_monitor s)\<rparr>;
     let usec = watchdog_usec (sv_monitor s1);
     if usec = 0 \<or> usec = u64_MAX then stop_watchdog V s1
     else do {
       s2 \<leftarrow> (if sv_watchdog s1 \<noteq> None then ev_unwrap V (OpDel SrcWatchdog) s1 else Some s1);
       s3 \<leftarrow> ev_unwrap V (OpAdd SrcWatchdog) (s2\<lparr>sv_watchdog := Some usec\<rparr>);
       ev_unwrap V (OpEnable SrcWatchdog EvOneShot) s3 } }"

definition enter_start_post :: "'w svc_ops \<Rightarrow> service_conf \<Rightarrow> 'w svc \<Rightarrow> 'w svc option" where
  "enter_start_post V C s = do {
     s1 \<leftarrow> restart_watchdog V C (unwatch_control V s);
     (out, s2) \<leftarrow> spawn_control V C CmdStartPost (TimeoutStartSec C) s1;
     case out of
       SpawnOk \<Rightarrow> set_state V C SvStartPost s2
     | SpawnErr \<Rightarrow> Some s2
     | NoCmd \<Rightarrow> enter_running V C Success s2 }"

section \<open>Starting\<close>

definition start_cmd_pop :: "service_conf \<Rightarrow> 'w svc \<Rightarrow> exec_command option \<times> 'w svc" where
  "start_cmd_pop C s =
     (if Type C = Forking then control_command_pop (control_command_fill C CmdStart s)
      else main_command_pop (main_command_fill C s))"

definition enter_start :: "'w svc_ops \<Rightarrow> service_conf \<Rightarrow> 'w svc \<Rightarrow> 'w svc option" where
  "enter_start V C s = do {
     let s1 = main_command_fill C (unwatch_main V (unwatch_control V (s\<lparr>sv_control_command := []\<rparr>)));
     let (cmd, s2) = start_cmd_pop C s1;
     case cmd of
       None \<Rightarrow>
         if Type C \<noteq> Oneshot then enter_signal V C SvStopSigterm FailureResources s2
         else do { s3 \<leftarrow> set_state V C SvStart s2; enter_start_post V C s3 }
     | Some c \<Rightarrow> do {
         let time_out = (if Type C = Simple \<or> Type C = Idle then u64_MAX else TimeoutStartSec C);
         (ret, s3) \<leftarrow> start_service V C c time_out (EXEC_PASS_FDS OR EXEC_SOFT_WATCHDOG) s2;
         case ret of
           None \<Rightarrow> enter_signal V C SvStopSigterm FailureResources s3
         | Some pid \<Rightarrow> do {
             let s4 = s3\<lparr>sv_current_main_command := c\<rparr>;
             case Type C of
               Simple \<Rightarrow> enter_start_post V C (snd (set_main V pid s4))
             | Forking \<Rightarrow> set_state V C SvStart (set_control pid s4)
             | Oneshot \<Rightarrow> set_state V C SvStart (snd (set_main V pid s4))
             | Notify \<Rightarrow> set_state V C SvStart (snd (set_main V pid s4))
             | Idle \<Rightarrow> None
             | Exec \<Rightarrow> None
             | _ \<Rightarrow> Some s4 } } }"

definition enter_prestart :: "'w svc_ops \<Rightarrow> service_conf \<Rightarrow> 'w svc \<Rightarrow> 'w svc option" where
  "enter_prestart V C s = do {
     (out, s1) \<leftarrow> spawn_control V C CmdStartPre (TimeoutStartSec C) (unwatch_control V s);
     case out of
       SpawnOk \<Rightarrow> set_state V C SvStartPre s1
     | SpawnErr \<Rightarrow> enter_dead V C FailureResources True s1
     | NoCmd \<Rightarrow> enter_start V C s1 }"

definition enter_contion :: "'w svc_ops \<Rightarrow> service_conf \<Rightarrow> 'w svc \<Rightarrow> 'w svc option" where
  "enter_contion V C s = do {
     (out, s1) \<leftarrow> spawn_control V C CmdCondition (TimeoutStartSec C) s;
     case out of
       SpawnOk \<Rightarrow> set_state V C SvCondition s1
     | SpawnErr \<Rightarrow> enter_dead V C FailureResources True s1
     | NoCmd \<Rightarrow> enter_prestart V C s1 }"

definition enter_reload :: "'w svc_ops \<Rightarrow> service_conf \<Rightarrow> 'w svc \<Rightarrow> 'w svc option" where
  "enter_reload V C s = do {
     let s1 = unwatch_control V (s\<lparr>sv_control_command := []\<rparr>);
     (out, s2) \<leftarrow> (do {
        let (cmd, s3) = control_command_pop ((control_command_fill C CmdReload s1)\<lparr>sv_reload_result := Success\<rparr>);
        case cmd of
          None \<Rightarrow> Some (NoCmd, s3)
        | Some c \<Rightarrow> do {
            (p, s4) \<leftarrow> start_service V C c (TimeoutStartSec C) EXEC_CONTROL s3;
            case p of Some pid \<Rightarrow> Some (SpawnOk, set_control pid s4) | None \<Rightarrow> Some (SpawnErr, s4) } });
     case out of
       SpawnOk \<Rightarrow> set_state V C SvReload s2
     | SpawnErr \<Rightarrow> enter_running V C Success (s2\<lparr>sv_reload_result := FailureResources\<rparr>)
     | NoCmd \<Rightarrow> enter_running V C Success s2 }"

text \<open>\<open>restarts += 1\<close> on a \<open>u32\<close>; \<open>checks\<close> says whether overflow checks are compiled in.\<close>

definition add_restarts :: "bool \<Rightarrow> 'w svc \<Rightarrow> 'w svc option" where
  "add_restarts checks s =
     (if checks \<and> sv_restarts s = - 1 then None else Some (s\<lparr>sv_restarts := sv_restarts s + 1\<rparr>))"

definition enter_restart :: "'w svc_ops \<Rightarrow> service_conf \<Rightarrow> bool \<Rightarrow> 'w svc \<Rightarrow> 'w svc option" where
  "enter_restart V C checks s =
     (if \<not> sv_owner s then None
      else if so_has_stop_job V (sv_env s) then Some s
      else let (ok, s1) = sv_ask (so_restart_unit V) s in
      if \<not> ok then enter_dead V C FailureResources False s1
      else do { s2 \<leftarrow> add_restarts checks s1; Some (s2\<lparr>sv_reset_restarts := False\<rparr>) })"

section \<open>Recovery data\<close>

definition svc_db_row :: "'w svc_ops \<Rightarrow> 'w svc \<Rightarrow> service_re_mng" where
  "svc_db_row V s = \<lparr>rm_state = sv_state s, rm_result = sv_result s, rm_main_pid = sv_main s, rm_control_pid = sv_control s,
     rm_main_cmd_len = length (sv_main_command s), rm_control_cmd_type = sv_control_cmd_type s,
     rm_control_cmd_len = length (sv_control_command s), rm_notify_state = sv_notify_state s,
     rm_forbid_restart = sv_forbid_restart s, rm_reset_restart = sv_reset_restarts s, rm_restarts = sv_restarts s,
     rm_exit_status = exit_status_from (so_sig_no V) (sv_exec_status s), rm_monitor = sv_monitor s\<rparr>"

definition svc_db_update :: "'w svc_ops \<Rightarrow> 'w svc \<Rightarrow> 'w svc" where
  "svc_db_update V s = (if sv_owner s then s\<lparr>sv_db := Some (svc_db_row V s)\<rparr> else s)"

definition svc_db_map :: "'w svc_ops \<Rightarrow> service_conf \<Rightarrow> 'w svc \<Rightarrow> 'w svc option" where
  "svc_db_map V C s =
     (case (if sv_owner s then sv_db s else None) of
        None \<Rightarrow> Some s
      | Some m \<Rightarrow> do {
          let s1 = update_control (rm_control_pid m) (update_main V (rm_main_pid m)
                     (s\<lparr>sv_state := rm_state m, sv_result := rm_result m\<rparr>));
          let s2 = main_command_update C (rm_main_cmd_len m) s1;
          s3 \<leftarrow> control_command_update C (rm_control_cmd_type m) (rm_control_cmd_len m) s2;
          Some (s3\<lparr>sv_notify_state := rm_notify_state m, sv_forbid_restart := rm_forbid_restart m,
                   sv_reset_restarts := rm_reset_restart m, sv_restarts := rm_restarts m,
                   sv_exec_status := wait_status_from (so_from_raw V) (rm_exit_status m),
                   sv_monitor := rm_monitor m\<rparr>) })"

section \<open>Requests\<close>

definition start_check :: "'w svc_ops \<Rightarrow> service_conf \<Rightarrow> 'w svc \<Rightarrow> ((error + bool) \<times> 'w svc) option" where
  "start_check V C s =
     (if sv_state s \<in> {SvStop, SvStopWatchdog, SvStopSigterm, SvStopSigkill, SvStopPost, SvFinalWatchdog,
           SvFinalSigterm, SvFinalSigkill, SvCleaning}
      then Some (Inl UnitActionEAgain, s)
      else if sv_state s \<in> {SvCondition, SvStartPre, SvStart, SvStartPost} then Some (Inr True, s)
      else let (ret, s1) = (if sv_owner s then sv_ask (so_test_start_limit V) s else (False, s)) in
      if \<not> ret then do { s2 \<leftarrow> enter_dead V C FailureStartLimitHit False s1; Some (Inl UnitActionECanceled, s2) }
      else Some (Inr False, s1))"

definition start_action :: "'w svc_ops \<Rightarrow> service_conf \<Rightarrow> 'w svc \<Rightarrow> 'w svc option" where
  "start_action V C s = do {
     let s1 = (if sv_reset_restarts s then s\<lparr>sv_restarts := 0, sv_reset_restarts := False\<rparr> else s);
     s2 \<leftarrow> enter_contion V C (s1\<lparr>sv_result := Success, sv_forbid_restart := False\<rparr>);
     Some (svc_db_update V s2) }"

definition svc_start :: "'w svc_ops \<Rightarrow> service_conf \<Rightarrow> 'w svc \<Rightarrow> ((error + unit) \<times> 'w svc) option" where
  "svc_start V C s = do {
     (r, s1) \<leftarrow> start_check V C s;
     case r of
       Inl e \<Rightarrow> Some (Inl e, s1)
     | Inr started \<Rightarrow> if started then Some (Inr (), s1) else map_option (Pair (Inr ())) (start_action V C s1) }"

definition stop_action :: "'w svc_ops \<Rightarrow> service_conf \<Rightarrow> 'w svc \<Rightarrow> 'w svc option" where
  "stop_action V C s =
     (let s1 = s\<lparr>sv_forbid_restart := True\<rparr> in
      if sv_state s1 \<in> set [SvStop, SvStopSigterm, SvStopSigkill, SvStopPost, SvFinalWatchdog, SvFinalSigterm, SvFinalWatchdog]
      then Some s1
      else if sv_state s1 = SvAutoRestart then set_state V C SvDead s1
      else if sv_state s1 \<in> set [SvCondition, SvStartPre, SvStart, SvStartPost, SvReload, SvStopWatchdog]
      then map_option (svc_db_update V) (enter_signal V C SvStopSigterm Success s1)
      else if sv_state s1 = SvCleaning then enter_signal V C SvFinalSigkill Success s1
      else map_option (svc_db_update V) (enter_stop V C Success s1))"

definition reload_action :: "'w svc_ops \<Rightarrow> service_conf \<Rightarrow> 'w svc \<Rightarrow> 'w svc option" where
  "reload_action V C s = map_option (svc_db_update V) (enter_reload V C s)"

definition current_active_state :: "service_conf \<Rightarrow> 'w svc \<Rightarrow> unit_active_state" where
  "current_active_state C s = service_state_to_unit_state (Type C) (sv_state s)"

section \<open>The pid file\<close>

definition valid_main_pid :: "'w svc_ops \<Rightarrow> pid \<Rightarrow> 'w svc \<Rightarrow> error + bool" where
  "valid_main_pid V pid s =
     (if pid = so_getpid V then Inl (Other ''main pid is the sysmaster's pid'')
      else if sv_control s = Some pid then Inl (Other ''main pid is the control process'')
      else if \<not> so_alive V pid (sv_env s) then Inl (Other ''main pid is not alive'')
      else Inr (so_same_unit_with_pid V pid (sv_env s)))"

definition load_pid_file :: "'w svc_ops \<Rightarrow> service_conf \<Rightarrow> 'w svc \<Rightarrow> (error + bool) \<times> 'w svc" where
  "load_pid_file V C s =
     (case PIDFile C of
        None \<Rightarrow> (Inl (Other ''pid file is not configured''), s)
      | Some f \<Rightarrow>
          (case so_read_pid_file V f (sv_env s) of
             NoFile \<Rightarrow> (Inl (NotFound ''pid file is not a file or not exist''), s)
           | ReadError \<Rightarrow> (Inl Parse, s)
           | FirstLine l \<Rightarrow>
               (case parse_i32 (trim l) of
                  None \<Rightarrow> (Inl (Other ''parsed the pid from pid file failed''), s)
                | Some pid \<Rightarrow>
                    if sv_main s = Some pid then (Inr False, s)
                    else case valid_main_pid V pid s of
                           Inl e \<Rightarrow> (Inl e, s)
                         | Inr _ \<Rightarrow>
                             let (ok, s1) = set_main V pid (unwatch_main V s) in
                             if ok then (Inr True, sv_do (so_child_watch_pid V pid) s1)
                             else (Inl (Other ''invalid main pid''), s1))))"

definition unwatch_pid_file :: "'w svc_ops \<Rightarrow> 'w svc \<Rightarrow> 'w svc option" where
  "unwatch_pid_file V s = do {
     n \<leftarrow> sv_inotify s;
     s1 \<leftarrow> ev_unwrap V (OpDel (SrcInotify n)) s;
     Some (sv_do (so_inotify_unwatch V) s1) }"

definition retry_pid_file :: "'w svc_ops \<Rightarrow> service_conf \<Rightarrow> 'w svc \<Rightarrow> ((error + unit) \<times> 'w svc) option" where
  "retry_pid_file V C s =
     (case load_pid_file V C s of
        (Inl e, s1) \<Rightarrow> Some (Inl e, s1)
      | (Inr _, s1) \<Rightarrow> do {
          s2 \<leftarrow> unwatch_pid_file V s1;
          s3 \<leftarrow> enter_running V C Success s2;
          Some (Inr (), s3) })"

definition watch_pid_file :: "'w svc_ops \<Rightarrow> service_conf \<Rightarrow> 'w svc \<Rightarrow> ((error + unit) \<times> 'w svc) option" where
  "watch_pid_file V C s = do {
     n \<leftarrow> sv_inotify s;
     f \<leftarrow> PIDFile C;
     let (ok, s1) = sv_ask (so_add_watch_path V f) s;
     if ok then do {
       s2 \<leftarrow> ev_unwrap V (OpAdd (SrcInotify n)) s1;
       s3 \<leftarrow> ev_unwrap V (OpEnable (SrcInotify n) EvOn) s2;
       (_, s4) \<leftarrow> retry_pid_file V C s3;
       Some (Inr (), s4) }
     else do {
       s2 \<leftarrow> unwatch_pid_file V s1;
       Some (Inl (Other ''watch on any of the ancestor failed''), s2) } }"

definition demand_pid_file :: "'w svc_ops \<Rightarrow> service_conf \<Rightarrow> 'w svc \<Rightarrow> ((error + unit) \<times> 'w svc) option" where
  "demand_pid_file V C s = do {
     _ \<leftarrow> PIDFile C;
     watch_pid_file V C (s\<lparr>sv_inotify := Some (sv_inotify_next s), sv_inotify_next := Suc (sv_inotify_next s)\<rparr>) }"

definition guess_main_pid :: "'w svc_ops \<Rightarrow> 'w svc \<Rightarrow> 'w svc" where
  "guess_main_pid V s =
     (if sv_main s \<noteq> None \<or> \<not> sv_owner s then s
      else case so_guess_main_pid V (sv_env s) of
             None \<Rightarrow> s
           | Some pid \<Rightarrow>
               let (ok, s1) = set_main V pid s in
               if ok then sv_do (so_child_watch_pid V pid) s1 else s1)"

section \<open>The end of a process\<close>

definition sigchld_result :: "service_conf \<Rightarrow> wait_status \<Rightarrow> 'w svc \<Rightarrow> service_result option" where
  "sigchld_result C wait_status s =
     (case wait_status of
        Exited _ status \<Rightarrow> Some (if status = 0 then Success else FailureExitCode)
      | Signaled pid sig core_dump \<Rightarrow>
          (let is_daemon = (Type C \<noteq> Oneshot \<or> sv_control s \<noteq> Some pid \<or> sv_control_cmd_type s = Some CmdStart) in
           Some (if core_dump then FailureCoreDump
                 else if is_daemon \<and> sig \<in> {''SIGHUP'', ''SIGINT'', ''SIGTERM'', ''SIGPIPE''} then Success
                 else FailureSignal))
      | _ \<Rightarrow> None)"

definition run_next_control :: "'w svc_ops \<Rightarrow> service_conf \<Rightarrow> 'w svc \<Rightarrow> 'w svc option" where
  "run_next_control V C s =
     (let time_out = (if sv_state s \<in> {SvCondition, SvStartPre, SvStart, SvStartPost, SvRunning, SvReload}
                      then TimeoutStartSec C else TimeoutStopSec C) in
      case control_command_pop s of
        (None, s1) \<Rightarrow> Some s1
      | (Some cmd, s1) \<Rightarrow> do {
          (p, s2) \<leftarrow> start_service V C cmd time_out EXEC_CONTROL s1;
          case p of
            Some pid \<Rightarrow> Some (set_control pid s2)
          | None \<Rightarrow>
              if sv_state s2 \<in> {SvCondition, SvStartPre, SvStartPost, SvStop}
              then enter_signal V C SvStopSigterm FailureResources s2
              else if sv_state s2 = SvStopPost then enter_dead V C FailureResources True s2
              else if sv_state s2 = SvReload
              then enter_running V C Success (s2\<lparr>sv_reload_result := FailureResources\<rparr>)
              else enter_stop V C FailureResources s2 })"

definition run_next_main :: "'w svc_ops \<Rightarrow> service_conf \<Rightarrow> 'w svc \<Rightarrow> 'w svc option" where
  "run_next_main V C s =
     (case main_command_pop s of
        (None, s1) \<Rightarrow> Some s1
      | (Some cmd, s1) \<Rightarrow> do {
          (p, s2) \<leftarrow> start_service V C cmd (TimeoutStartSec C) (EXEC_PASS_FDS OR EXEC_SOFT_WATCHDOG) s1;
          Some (case p of Some pid \<Rightarrow> snd (set_main V pid s2) | None \<Rightarrow> s2) })"

text \<open>The main process has ended and no further main command is to run: what the state asks for.\<close>

definition main_exited :: "'w svc_ops \<Rightarrow> service_conf \<Rightarrow> service_result \<Rightarrow> 'w svc \<Rightarrow> 'w svc option" where
  "main_exited V C res s =
     (case sv_state s of
        SvStart \<Rightarrow>
          if Type C = Oneshot
          then (if res = Success then enter_start_post V C s else enter_signal V C SvStopSigterm res s)
          else if Type C = Notify
          then (if res \<noteq> Success then enter_signal V C SvStopSigterm res s
                else enter_signal V C SvStopSigterm FailureProtocol s)
          else enter_running V C res s
      | SvRunning \<Rightarrow> enter_running V C res s
      | SvStartPost \<Rightarrow> if sv_control s = None then enter_stop V C res s else Some s
      | SvReload \<Rightarrow> if sv_control s = None then enter_stop V C res s else Some s
      | SvStop \<Rightarrow> if sv_control s = None then enter_stop V C res s else Some s
      | SvStopWatchdog \<Rightarrow> if sv_control s = None then enter_stop_post V C res s else Some s
      | SvStopSigkill \<Rightarrow> if sv_control s = None then enter_stop_post V C res s else Some s
      | SvStopSigterm \<Rightarrow> if sv_control s = None then enter_stop_post V C res s else Some s
      | SvStopPost \<Rightarrow> if sv_control s = None then enter_signal V C SvFinalSigterm res s else Some s
      | SvFinalSigterm \<Rightarrow> if sv_control s = None then enter_dead V C res True s else Some s
      | SvFinalSigkill \<Rightarrow> if sv_control s = None then enter_dead V C res True s else Some s
      | SvFinalWatchdog \<Rightarrow> if sv_control s = None then enter_dead V C res True s else Some s
      | _ \<Rightarrow> None)"

definition sigchld_main :: "'w svc_ops \<Rightarrow> service_conf \<Rightarrow> wait_status \<Rightarrow> service_result \<Rightarrow> 'w svc \<Rightarrow> 'w svc option" where
  "sigchld_main V C wait_status res s =
     (case load_pid_file V C s of
        (Inr True, s1) \<Rightarrow> Some s1
      | (_, s1) \<Rightarrow>
          (let s2 = (reset_main s1)\<lparr>sv_exec_status := wait_status\<rparr>;
               ignore = has_exec_flag EXEC_COMMAND_IGNORE_FAILURE (sv_current_main_command s2);
               res' = (if ignore then Success else res);
               s3 = set_result_once res' (if ignore then s2\<lparr>sv_result := Success\<rparr> else s2)
           in if sv_main_command s3 \<noteq> [] \<and> res' = Success \<and> Type C = Oneshot then run_next_main V C s3
              else main_exited V C res' (s3\<lparr>sv_main_command := []\<rparr>)))"

text \<open>A forking service in \<open>Start\<close> whose starting process has ended successfully.\<close>

definition forking_started :: "'w svc_ops \<Rightarrow> service_conf \<Rightarrow> 'w svc \<Rightarrow> 'w svc option" where
  "forking_started V C s =
     (if PIDFile C \<noteq> None
      then let start_post_exist = (case get_exec_cmds C CmdStartPost of None \<Rightarrow> False | Some cmds \<Rightarrow> cmds \<noteq> []);
               (loaded, s1) = load_pid_file V C s
           in if isl loaded \<and> \<not> start_post_exist
              then do {
                (r, s2) \<leftarrow> demand_pid_file V C s1;
                case r of
                  Inr _ \<Rightarrow> if \<not> cgroup_good V s2 then enter_signal V C SvStopSigterm FailureProtocol s2 else Some s2
                | Inl _ \<Rightarrow> enter_signal V C SvStopSigterm FailureProtocol s2 }
              else do { s2 \<leftarrow> enter_start_post V C s1; enter_start_post V C s2 }
      else enter_start_post V C (guess_main_pid V s))"

text \<open>A start-post command has ended. A failure does not return before the pid file is looked at.\<close>

definition start_post_exited :: "'w svc_ops \<Rightarrow> service_conf \<Rightarrow> service_result \<Rightarrow> 'w svc \<Rightarrow> 'w svc option" where
  "start_post_exited V C res s = do {
     s1 \<leftarrow> (if res \<noteq> Success then enter_signal V C SvStopSigterm res s else Some s);
     if PIDFile C \<noteq> None
     then (case load_pid_file V C s1 of
             (Inl _, s2) \<Rightarrow> do {
               (r, s3) \<leftarrow> demand_pid_file V C s2;
               case r of
                 Inr _ \<Rightarrow> if \<not> cgroup_good V s3 then enter_stop V C FailureProtocol s3 else Some s3
               | Inl _ \<Rightarrow> enter_signal V C SvStopSigterm FailureProtocol s3 }
           | (Inr _, s2) \<Rightarrow> enter_running V C Success s2)
     else enter_running V C Success (guess_main_pid V s1) }"

definition control_exited :: "'w svc_ops \<Rightarrow> service_conf \<Rightarrow> service_result \<Rightarrow> 'w svc \<Rightarrow> 'w svc option" where
  "control_exited V C res s =
     (case sv_state s of
        SvCondition \<Rightarrow> if res = Success then enter_prestart V C s else enter_signal V C SvStopSigterm res s
      | SvStartPre \<Rightarrow> if res = Success then enter_start V C s else enter_signal V C SvStopSigterm res s
      | SvStart \<Rightarrow>
          if Type C \<noteq> Forking then Some s
          else if res \<noteq> Success then enter_signal V C SvStopSigterm res s
          else forking_started V C s
      | SvStartPost \<Rightarrow> start_post_exited V C res s
      | SvReload \<Rightarrow> enter_running V C res (s\<lparr>sv_reload_result := res\<rparr>)
      | SvStop \<Rightarrow> enter_signal V C SvStopSigterm res s
      | SvStopSigterm \<Rightarrow> if sv_main s = None then enter_stop_post V C res s else Some s
      | SvStopSigkill \<Rightarrow> if sv_main s = None then enter_stop_post V C res s else Some s
      | SvStopWatchdog \<Rightarrow> if sv_main s = None then enter_stop_post V C res s else Some s
      | SvStopPost \<Rightarrow> if sv_main s = None then enter_signal V C SvFinalSigterm res s else Some s
      | SvFinalSigterm \<Rightarrow> if sv_main s = None then enter_dead V C res True s else Some s
      | SvFinalSigkill \<Rightarrow> if sv_main s = None then enter_dead V C res True s else Some s
      | SvFinalWatchdog \<Rightarrow> if sv_main s = None then enter_dead V C res True s else Some s
      | _ \<Rightarrow> None)"

definition sigchld_control :: "'w svc_ops \<Rightarrow> service_conf \<Rightarrow> service_result \<Rightarrow> 'w svc \<Rightarrow> 'w svc option" where
  "sigchld_control V C res s =
     (let s1 = reset_control s in
      if sv_control_command s1 \<noteq> [] \<and> res = Success then run_next_control V C s1
      else control_exited V C res (s1\<lparr>sv_control_command := [], sv_control_cmd_type := None\<rparr>))"

definition do_sigchld_event :: "'w svc_ops \<Rightarrow> service_conf \<Rightarrow> wait_status \<Rightarrow> 'w svc \<Rightarrow> 'w svc option" where
  "do_sigchld_event V C wait_status s = do {
     pid \<leftarrow> wait_status_pid wait_status;
     res \<leftarrow> sigchld_result C wait_status s;
     if sv_main s = Some pid then sigchld_main V C wait_status res s
     else if sv_control s = Some pid then sigchld_control V C res s
     else Some s }"

definition sigchld_event :: "'w svc_ops \<Rightarrow> service_conf \<Rightarrow> wait_status \<Rightarrow> 'w svc \<Rightarrow> 'w svc option" where
  "sigchld_event V C wait_status s = map_option (svc_db_update V) (do_sigchld_event V C wait_status s)"

section \<open>Notifications of the service\<close>

text \<open>One entry of the message, in the order the map yields them.\<close>

definition notify_entry :: "'w svc_ops \<Rightarrow> service_conf \<Rightarrow> string \<times> string \<Rightarrow> 'w svc \<Rightarrow> 'w svc option" where
  "notify_entry V C kv s = do {
     let (key, v) = kv;
     s1 \<leftarrow> (if key = ''READY'' \<and> v = ''1''
            then (let s' = s\<lparr>sv_notify_state := NsReady\<rparr> in
                  if Type C = Notify \<and> sv_state s' = SvStart then enter_start_post V C s' else Some s')
            else Some s);
     s2 \<leftarrow> (if key = ''STOPPING'' \<and> v = ''1''
            then (let s' = s1\<lparr>sv_notify_state := NsStopping\<rparr> in
                  if sv_state s' = SvRunning then enter_stop_by_notify V C s' else Some s')
            else Some s1);
     let s3 = (if key = ''ERRNO''
               then (case parse_i32 v of Some n \<Rightarrow> s2\<lparr>sv_errno := n\<rparr> | None \<Rightarrow> s2) else s2);
     s4 \<leftarrow> (if key = ''WATCHDOG''
            then (if v = ''1'' then restart_watchdog V C s3
                  else if v = ''trigger'' then enter_signal V C SvStopWatchdog FailureWatchdog s3
                  else do { rust_assert (sv_owner s3); Some s3 })
            else Some s3);
     (if key = ''WATCHDOG_USEC''
      then (case parse_u64 v of
              Some n \<Rightarrow> restart_watchdog V C (s4\<lparr>sv_monitor := mon_override_watchdog_usec n (sv_monitor s4)\<rparr>)
            | None \<Rightarrow> Some s4)
      else Some s4) }"

definition notify_mainpid :: "'w svc_ops \<Rightarrow> pid \<Rightarrow> (string \<times> string) list \<Rightarrow> 'w svc \<Rightarrow> (error + unit) \<times> 'w svc" where
  "notify_mainpid V ucred_pid messages s =
     (case map_of messages ''MAINPID'' of
        None \<Rightarrow> (Inr (), s)
      | Some pidr \<Rightarrow>
          if sv_state s \<notin> {SvStart, SvStartPost, SvRunning} then (Inr (), s)
          else case parse_i32 pidr of
                 None \<Rightarrow> (Inl Parse, s)
               | Some pid \<Rightarrow>
                   if sv_main s = Some pid then (Inr (), s)
                   else case valid_main_pid V pid s of
                          Inl e \<Rightarrow> (Inl e, s)
                        | Inr valid \<Rightarrow>
                            (Inr (), if ucred_pid = 0 \<or> valid
                                     then sv_do (so_child_watch_pid V pid) (snd (set_main V pid s)) else s))"

definition do_notify_message ::
  "'w svc_ops \<Rightarrow> service_conf \<Rightarrow> pid \<Rightarrow> (string \<times> string) list \<Rightarrow> 'w svc \<Rightarrow> ((error + unit) \<times> 'w svc) option" where
  "do_notify_message V C ucred_pid messages s =
     (case notify_mainpid V ucred_pid messages s of
        (Inl e, s1) \<Rightarrow> Some (Inl e, s1)
      | (Inr _, s1) \<Rightarrow> map_option (Pair (Inr ())) (fold_opt (notify_entry V C) messages s1))"

definition notify_message ::
  "'w svc_ops \<Rightarrow> service_conf \<Rightarrow> pid \<Rightarrow> (string \<times> string) list \<Rightarrow> 'w svc \<Rightarrow> ((error + unit) \<times> 'w svc) option" where
  "notify_message V C ucred_pid messages s =
     map_option (\<lambda>(r, s1). (r, svc_db_update V s1)) (do_notify_message V C ucred_pid messages s)"

section \<open>Timers and watches\<close>

definition kill_control_process :: "'w svc_ops \<Rightarrow> 'w svc \<Rightarrow> 'w svc" where
  "kill_control_process V s = (case sv_control s of Some p \<Rightarrow> sv_do (so_kill_and_cont V p) s | None \<Rightarrow> s)"

definition timer_dispatch :: "'w svc_ops \<Rightarrow> service_conf \<Rightarrow> bool \<Rightarrow> 'w svc \<Rightarrow> 'w svc option" where
  "timer_dispatch V C checks s =
     (case sv_state s of
        SvCondition \<Rightarrow> enter_signal V C SvStopSigterm FailureTimeout s
      | SvStartPre \<Rightarrow> enter_signal V C SvStopSigterm FailureTimeout s
      | SvStart \<Rightarrow> enter_signal V C SvStopSigterm FailureTimeout s
      | SvStartPost \<Rightarrow> enter_signal V C SvStopSigterm FailureTimeout s
      | SvRunning \<Rightarrow> enter_stop V C FailureTimeout s
      | SvReload \<Rightarrow> enter_running V C Success ((kill_control_process V s)\<lparr>sv_reload_result := FailureTimeout\<rparr>)
      | SvStop \<Rightarrow> enter_signal V C SvStopSigterm FailureTimeout s
      | SvStopWatchdog \<Rightarrow> enter_stop_post V C FailureTimeout s
      | SvStopPost \<Rightarrow> enter_signal V C SvFinalSigterm FailureTimeout s
      | SvStopSigterm \<Rightarrow> enter_stop_post V C FailureTimeout s
      | SvStopSigkill \<Rightarrow> enter_stop_post V C FailureTimeout s
      | SvFinalWatchdog \<Rightarrow> enter_dead V C FailureTimeout False s
      | SvFinalSigterm \<Rightarrow> enter_dead V C FailureTimeout False s
      | SvFinalSigkill \<Rightarrow> enter_dead V C FailureTimeout True s
      | SvAutoRestart \<Rightarrow> enter_restart V C checks s
      | SvCleaning \<Rightarrow> enter_signal V C SvFinalSigkill FailureTimeout s
      | _ \<Rightarrow> None)"

definition watchdog_dispatch :: "'w svc_ops \<Rightarrow> service_conf \<Rightarrow> 'w svc \<Rightarrow> 'w svc option" where
  "watchdog_dispatch V C s = enter_signal V C SvStopWatchdog FailureWatchdog s"

text \<open>\<open>PathIntofy::dispatch\<close>: the event is read, the pid file tried again, the watch renewed, or the service stopped.\<close>

definition inotify_dispatch :: "'w svc_ops \<Rightarrow> service_conf \<Rightarrow> 'w svc \<Rightarrow> 'w svc option" where
  "inotify_dispatch V C s = do {
     let (ok, s1) = sv_ask (so_read_fd_event V) s;
     s2 \<leftarrow> (if \<not> ok then Some s1
            else do {
              (r1, s2) \<leftarrow> retry_pid_file V C s1;
              case r1 of
                Inr _ \<Rightarrow> Some s2
              | Inl _ \<Rightarrow> do {
                  (r2, s3) \<leftarrow> watch_pid_file V C s2;
                  case r2 of
                    Inr _ \<Rightarrow> Some s3
                  | Inl _ \<Rightarrow> do {
                      s4 \<leftarrow> unwatch_pid_file V s3;
                      enter_signal V C SvStopSigterm FailureResources s4 } } });
     Some (svc_db_update V s2) }"

end
