(* ===== verification/Service_Inv.thy ===== *)
theory Service_Inv
  imports Service_Mng
begin

text \<open>
  The invariant of a service and that no event makes it panic. \<open>svc_core\<close> is what every step keeps, also in
  the middle of a handler; \<open>svc_wf\<close> relates the processes and the timer to the state, and every change of
  state establishes it anew.
\<close>

section \<open>What the environment promises\<close>

text \<open>
  The event loop accepts the calls, the notification socket exists, commands can be spawned. A failed spawn
  is a normal outcome everywhere but in the start-post phase; there it leaves the state as it was.
\<close>

definition env_ok :: "'w svc_ops \<Rightarrow> bool" where
  "env_ok V \<longleftrightarrow> (\<forall>op w. fst (so_event V op w)) \<and> (\<forall>w. so_notify_socket V w)"

definition spawn_ok :: "'w svc_ops \<Rightarrow> bool" where
  "spawn_ok V \<longleftrightarrow> (\<forall>w. fst (so_prepare_exec V w)) \<and> (\<forall>w. so_exec_params V w) \<and>
     (\<forall>c f m w. fst (so_exec_spawn V c f m w) \<noteq> None)"

section \<open>The invariant\<close>

definition timer_on :: "'w svc \<Rightarrow> bool" where
  "timer_on s \<longleftrightarrow> sv_events s SrcTimer = Some EvOn \<or> sv_events s SrcTimer = Some EvOneShot"

definition svc_core :: "service_conf \<Rightarrow> 'w svc \<Rightarrow> bool" where
  "svc_core C s \<longleftrightarrow> sv_owner s \<and> (sv_exec_params s \<noteq> None \<or> RuntimeDirectoryPreserve C = PreserveYes) \<and>
     (sv_timer s = None \<longrightarrow> \<not> timer_on s)"

definition dead_states :: "service_state list" where
  "dead_states = [SvStopSigkill, SvFinalWatchdog, SvCleaning]"

definition svc_wf :: "service_conf \<Rightarrow> 'w svc \<Rightarrow> bool" where
  "svc_wf C s \<longleftrightarrow> svc_core C s \<and> (sv_main s \<noteq> None \<longrightarrow> sv_state s \<in> set main_states) \<and>
     (sv_control s \<noteq> None \<longrightarrow> sv_state s \<in> set control_states) \<and>
     (timer_on s \<longrightarrow> sv_state s \<in> set timer_states) \<and> sv_state s \<notin> set dead_states"

lemma svc_wf_core: "svc_wf C s \<Longrightarrow> svc_core C s"
  by (simp add: svc_wf_def)

text \<open>A part of a handler that leaves state and processes alone.\<close>

definition same_procs :: "'w svc \<Rightarrow> 'w svc \<Rightarrow> bool" where
  "same_procs s s' \<longleftrightarrow> sv_state s' = sv_state s \<and> sv_main s' = sv_main s \<and> sv_control s' = sv_control s"

lemma same_procs_refl [simp]: "same_procs s s"
  by (simp add: same_procs_def)

lemma same_procs_trans: "same_procs s s' \<Longrightarrow> same_procs s' s'' \<Longrightarrow> same_procs s s''"
  by (simp add: same_procs_def)

text \<open>Updates that neither the core nor the processes see.\<close>

lemma core_frame [simp]:
  "svc_core C (s\<lparr>sv_env := w\<rparr>) = svc_core C s" "svc_core C (s\<lparr>sv_result := r\<rparr>) = svc_core C s"
  "svc_core C (s\<lparr>sv_reload_result := r\<rparr>) = svc_core C s" "svc_core C (s\<lparr>sv_state := st\<rparr>) = svc_core C s"
  "svc_core C (s\<lparr>sv_main := m\<rparr>) = svc_core C s" "svc_core C (s\<lparr>sv_control := m\<rparr>) = svc_core C s"
  "svc_core C (s\<lparr>sv_main_command := c\<rparr>) = svc_core C s" "svc_core C (s\<lparr>sv_control_command := c\<rparr>) = svc_core C s"
  "svc_core C (s\<lparr>sv_control_cmd_type := ct\<rparr>) = svc_core C s" "svc_core C (s\<lparr>sv_current_main_command := cc\<rparr>) = svc_core C s"
  "svc_core C (s\<lparr>sv_monitor := mo\<rparr>) = svc_core C s" "svc_core C (s\<lparr>sv_errno := n\<rparr>) = svc_core C s"
  "svc_core C (s\<lparr>sv_notify_state := ns\<rparr>) = svc_core C s" "svc_core C (s\<lparr>sv_inotify := i\<rparr>) = svc_core C s"
  "svc_core C (s\<lparr>sv_inotify_next := k\<rparr>) = svc_core C s" "svc_core C (s\<lparr>sv_forbid_restart := b\<rparr>) = svc_core C s"
  "svc_core C (s\<lparr>sv_reset_restarts := b\<rparr>) = svc_core C s" "svc_core C (s\<lparr>sv_will_auto_restart := b\<rparr>) = svc_core C s"
  "svc_core C (s\<lparr>sv_restarts := u\<rparr>) = svc_core C s" "svc_core C (s\<lparr>sv_exec_status := ws\<rparr>) = svc_core C s"
  "svc_core C (s\<lparr>sv_watchdog := wd\<rparr>) = svc_core C s" "svc_core C (s\<lparr>sv_db := db\<rparr>) = svc_core C s"
  "svc_core C (s\<lparr>sv_main_alien := b\<rparr>) = svc_core C s" "svc_core C (s\<lparr>sv_main_known := b\<rparr>) = svc_core C s"
  by (simp_all add: svc_core_def timer_on_def)

lemma svc_core_do [simp]: "svc_core C (sv_do f s) = svc_core C s"
  by (simp add: sv_do_def)

lemma sv_do_fields [simp]:
  "sv_state (sv_do f s) = sv_state s" "sv_main (sv_do f s) = sv_main s" "sv_control (sv_do f s) = sv_control s"
  "sv_owner (sv_do f s) = sv_owner s" "sv_events (sv_do f s) = sv_events s" "sv_timer (sv_do f s) = sv_timer s"
  "sv_result (sv_do f s) = sv_result s" "sv_exec_params (sv_do f s) = sv_exec_params s"
  "sv_db (sv_do f s) = sv_db s" "sv_inotify (sv_do f s) = sv_inotify s"
  by (simp_all add: sv_do_def)

lemma sv_askE:
  obtains a w where "sv_ask f s = (a, s\<lparr>sv_env := w\<rparr>)" "f (sv_env s) = (a, w)"
  by (cases "f (sv_env s)") (simp add: sv_ask_def)

lemma timer_on_simps:
  "timer_on (s\<lparr>sv_main_command := c\<rparr>) = timer_on s" "timer_on (s\<lparr>sv_control_command := c\<rparr>) = timer_on s"
  "timer_on (s\<lparr>sv_control_cmd_type := ct\<rparr>) = timer_on s" "timer_on (s\<lparr>sv_state := st\<rparr>) = timer_on s"
  "timer_on (s\<lparr>sv_main := m\<rparr>) = timer_on s" "timer_on (s\<lparr>sv_control := m\<rparr>) = timer_on s"
  "timer_on (s\<lparr>sv_env := w\<rparr>) = timer_on s" "timer_on (sv_do f s) = timer_on s"
  by (simp_all add: timer_on_def)

section \<open>Calls of the event loop\<close>

lemma ev_call_ok:
  assumes "env_ok V"
  obtains w where "ev_call V op s = (True, s\<lparr>sv_env := w, sv_events := sv_event_apply op (sv_events s)\<rparr>)"
proof -
  obtain a w where a: "sv_ask (so_event V op) s = (a, s\<lparr>sv_env := w\<rparr>)" "so_event V op (sv_env s) = (a, w)"
    by (rule sv_askE)
  have "fst (so_event V op (sv_env s))" using assms by (simp add: env_ok_def)
  then show ?thesis using a that by (simp add: ev_call_def)
qed

lemma ev_unwrap_ok:
  assumes "env_ok V"
  obtains w where "ev_unwrap V op s = Some (s\<lparr>sv_env := w, sv_events := sv_event_apply op (sv_events s)\<rparr>)"
  by (rule ev_call_ok [OF assms, of op s]) (simp add: ev_unwrap_def that)

lemma enable_timer_spec:
  assumes V: "env_ok V"
  shows "\<exists>w e t. enable_timer V usec s = (True, s\<lparr>sv_env := w, sv_events := e, sv_timer := t\<rparr>) \<and>
    (t = None \<longrightarrow> sv_timer s = None \<and> e = sv_events s) \<and> (\<forall>x. x \<noteq> SrcTimer \<longrightarrow> e x = sv_events s x) \<and>
    (usec = u64_MAX \<and> t \<noteq> None \<longrightarrow> e SrcTimer = None) \<and> (usec \<noteq> u64_MAX \<longrightarrow> e SrcTimer = Some EvOneShot)"
proof (cases "usec = u64_MAX")
  case True
  obtain w where w: "ev_call V (OpDel SrcTimer) s = (True, s\<lparr>sv_env := w, sv_events := sv_event_apply (OpDel SrcTimer) (sv_events s)\<rparr>)"
    by (rule ev_call_ok [OF V])
  show ?thesis
  proof (cases "sv_timer s")
    case None
    have "enable_timer V usec s = (True, s\<lparr>sv_env := sv_env s, sv_events := sv_events s, sv_timer := sv_timer s\<rparr>)"
      using True None by (simp add: enable_timer_def)
    then show ?thesis using True None by (intro exI conjI) (assumption, simp_all)
  next
    case (Some old)
    have "enable_timer V usec s = (True, s\<lparr>sv_env := w, sv_events := (sv_events s)(SrcTimer := None), sv_timer := sv_timer s\<rparr>)"
      using True Some w by (simp add: enable_timer_def)
    then show ?thesis using True Some by (intro exI conjI) (assumption, simp_all)
  qed
next
  case False
  show ?thesis
  proof (cases "sv_timer s")
    case None
    let ?s = "s\<lparr>sv_timer := Some usec\<rparr>"
    obtain w1 where 1: "ev_call V (OpAdd SrcTimer) ?s = (True, ?s\<lparr>sv_env := w1, sv_events := sv_event_apply (OpAdd SrcTimer) (sv_events ?s)\<rparr>)"
      by (rule ev_call_ok [OF V])
    let ?s1 = "?s\<lparr>sv_env := w1, sv_events := sv_event_apply (OpAdd SrcTimer) (sv_events ?s)\<rparr>"
    obtain w2 where 2: "ev_call V (OpEnable SrcTimer EvOneShot) ?s1 =
        (True, ?s1\<lparr>sv_env := w2, sv_events := sv_event_apply (OpEnable SrcTimer EvOneShot) (sv_events ?s1)\<rparr>)"
      by (rule ev_call_ok [OF V])
    have "enable_timer V usec s = (True, s\<lparr>sv_env := w2, sv_events := (sv_events s)(SrcTimer \<mapsto> EvOneShot), sv_timer := Some usec\<rparr>)"
      using False None 1 2 by (simp add: enable_timer_def)
    then show ?thesis using False by (intro exI conjI) (assumption, simp_all)
  next
    case (Some old)
    obtain w1 where 1: "ev_call V (OpEnable SrcTimer EvOff) s = (True, s\<lparr>sv_env := w1, sv_events := sv_event_apply (OpEnable SrcTimer EvOff) (sv_events s)\<rparr>)"
      by (rule ev_call_ok [OF V])
    let ?s1 = "s\<lparr>sv_env := w1, sv_events := sv_event_apply (OpEnable SrcTimer EvOff) (sv_events s), sv_timer := Some usec\<rparr>"
    obtain w2 where 2: "ev_call V (OpEnable SrcTimer EvOneShot) ?s1 =
        (True, ?s1\<lparr>sv_env := w2, sv_events := sv_event_apply (OpEnable SrcTimer EvOneShot) (sv_events ?s1)\<rparr>)"
      by (rule ev_call_ok [OF V])
    have "enable_timer V usec s = (True, s\<lparr>sv_env := w2, sv_events := (sv_events s)(SrcTimer \<mapsto> EvOneShot), sv_timer := Some usec\<rparr>)"
      using False Some 1 2 by (simp add: enable_timer_def)
    then show ?thesis using False by (intro exI conjI) (assumption, simp_all)
  qed
qed

lemma enable_timer_core:
  assumes V: "env_ok V" and c: "svc_core C s"
  shows "\<exists>s'. enable_timer V usec s = (True, s') \<and> svc_core C s' \<and> same_procs s s' \<and>
    (timer_on s' \<longrightarrow> timer_on s \<or> usec \<noteq> u64_MAX) \<and> sv_db s' = sv_db s \<and> (usec \<noteq> u64_MAX \<longrightarrow> timer_on s')"
proof -
  obtain w e t where t: "enable_timer V usec s = (True, s\<lparr>sv_env := w, sv_events := e, sv_timer := t\<rparr>)"
    "t = None \<longrightarrow> sv_timer s = None \<and> e = sv_events s" "usec = u64_MAX \<and> t \<noteq> None \<longrightarrow> e SrcTimer = None"
    "usec \<noteq> u64_MAX \<longrightarrow> e SrcTimer = Some EvOneShot"
    using enable_timer_spec [OF V, of usec s] by blast
  let ?s = "s\<lparr>sv_env := w, sv_events := e, sv_timer := t\<rparr>"
  have "svc_core C ?s" "timer_on ?s \<longrightarrow> timer_on s \<or> usec \<noteq> u64_MAX" "usec \<noteq> u64_MAX \<longrightarrow> timer_on ?s"
    using c t(2-4) by (auto simp: svc_core_def timer_on_def)
  moreover have "same_procs s ?s" "sv_db ?s = sv_db s" by (simp_all add: same_procs_def)
  ultimately show ?thesis using t(1) by blast
qed

lemma delete_timer_spec:
  assumes V: "env_ok V" and c: "svc_core C s"
  shows "\<exists>s'. delete_timer V s = Some s' \<and> svc_core C s' \<and> same_procs s s' \<and> \<not> timer_on s'"
proof (cases "sv_timer s")
  case None
  then show ?thesis using c by (simp add: delete_timer_def svc_core_def)
next
  case (Some t)
  obtain w1 where 1: "ev_unwrap V (OpEnable SrcTimer EvOff) s = Some (s\<lparr>sv_env := w1, sv_events := sv_event_apply (OpEnable SrcTimer EvOff) (sv_events s)\<rparr>)"
    by (rule ev_unwrap_ok [OF V])
  let ?s1 = "s\<lparr>sv_env := w1, sv_events := sv_event_apply (OpEnable SrcTimer EvOff) (sv_events s)\<rparr>"
  obtain w2 where 2: "ev_unwrap V (OpDel SrcTimer) ?s1 = Some (?s1\<lparr>sv_env := w2, sv_events := sv_event_apply (OpDel SrcTimer) (sv_events ?s1)\<rparr>)"
    by (rule ev_unwrap_ok [OF V])
  have "delete_timer V s = Some (s\<lparr>sv_env := w2, sv_events := (sv_events s)(SrcTimer := None)\<rparr>)"
    using Some 1 2 by (simp add: delete_timer_def)
  then show ?thesis using Some c by (simp add: svc_core_def same_procs_def timer_on_def)
qed

section \<open>Processes\<close>

lemma unwatch_main_spec [simp]:
  "svc_core C (unwatch_main V s) = svc_core C s" "sv_main (unwatch_main V s) = None"
  "sv_state (unwatch_main V s) = sv_state s" "sv_control (unwatch_main V s) = sv_control s"
  "timer_on (unwatch_main V s) = timer_on s" "sv_control_command (unwatch_main V s) = sv_control_command s"
  by (simp_all add: unwatch_main_def reset_main_def timer_on_def sv_do_def split: option.splits)

lemma unwatch_control_spec [simp]:
  "svc_core C (unwatch_control V s) = svc_core C s" "sv_control (unwatch_control V s) = None"
  "sv_state (unwatch_control V s) = sv_state s" "sv_main (unwatch_control V s) = sv_main s"
  "timer_on (unwatch_control V s) = timer_on s"
  by (simp_all add: unwatch_control_def reset_control_def timer_on_def split: option.splits)

lemma set_main_spec [simp]:
  "svc_core C (snd (set_main V p s)) = svc_core C s" "sv_state (snd (set_main V p s)) = sv_state s"
  "sv_control (snd (set_main V p s)) = sv_control s" "timer_on (snd (set_main V p s)) = timer_on s"
  by (simp_all add: set_main_def Let_def timer_on_def split: option.splits)

lemma fill_spec [simp]:
  "svc_core C' (main_command_fill C s) = svc_core C' s" "same_procs s (main_command_fill C s)"
  "svc_core C' (control_command_fill C t s) = svc_core C' s" "same_procs s (control_command_fill C t s)"
  by (simp_all add: main_command_fill_def control_command_fill_def same_procs_def Let_def split: option.splits)

lemma pop_spec [simp]:
  "svc_core C' (snd (main_command_pop s)) = svc_core C' s" "same_procs s (snd (main_command_pop s))"
  "svc_core C' (snd (control_command_pop s)) = svc_core C' s" "same_procs s (snd (control_command_pop s))"
  by (simp_all add: main_command_pop_def control_command_pop_def same_procs_def split: list.splits)

lemma result_once_spec [simp]:
  "svc_core C' (set_result_once r s) = svc_core C' s" "same_procs s (set_result_once r s)"
  "sv_owner (set_result_once r s) = sv_owner s" "sv_db (set_result_once r s) = sv_db s"
  by (simp_all add: set_result_once_def same_procs_def)

section \<open>Changing state\<close>

lemma set_state_ok:
  assumes V: "env_ok V" and c: "svc_core C s" and d: "st \<notin> set dead_states"
  shows "\<exists>s'. set_state V C st s = Some s' \<and> svc_wf C s' \<and> sv_state s' = st \<and>
    (st \<in> set timer_states \<longrightarrow> timer_on s' = timer_on s \<and> sv_timer s' = sv_timer s)"
proof -
  let ?s1 = "s\<lparr>sv_state := st\<rparr>"
  obtain s2 where s2: "(if st \<notin> set timer_states then delete_timer V ?s1 else Some ?s1) = Some s2"
    "svc_core C s2" "sv_state s2 = st" "timer_on s2 \<longrightarrow> st \<in> set timer_states"
    "st \<in> set timer_states \<longrightarrow> s2 = ?s1"
  proof (cases "st \<in> set timer_states")
    case False
    obtain s' where "delete_timer V ?s1 = Some s'" "svc_core C s'" "same_procs ?s1 s'" "\<not> timer_on s'"
      using delete_timer_spec [OF V, of C ?s1] c by auto
    then show ?thesis using False that by (simp add: same_procs_def)
  qed (use c that in simp)
  define s3 where "s3 = (if st \<notin> set main_states then (unwatch_main V s2)\<lparr>sv_main_command := []\<rparr> else s2)"
  have 3: "svc_core C s3" "sv_state s3 = st" "timer_on s3 = timer_on s2" "sv_main s3 \<noteq> None \<longrightarrow> st \<in> set main_states"
    using s2 by (simp_all add: s3_def timer_on_simps)
  define s4 where "s4 = (if st \<notin> set control_states
    then (unwatch_control V s3)\<lparr>sv_control_command := [], sv_control_cmd_type := None\<rparr> else s3)"
  have 4: "svc_core C s4" "sv_state s4 = st" "timer_on s4 = timer_on s2" "sv_main s4 \<noteq> None \<longrightarrow> st \<in> set main_states"
    "sv_control s4 \<noteq> None \<longrightarrow> st \<in> set control_states"
    using 3 by (simp_all add: s4_def timer_on_simps)
  have "set_state V C st s = Some (if sv_owner s4 then sv_do (so_notify V
      (service_state_to_unit_state (Type C) (sv_state s)) (service_state_to_unit_state (Type C) st) (notify_flags s4)) s4 else s4)"
    unfolding set_state_def Let_def s2(1) Option.bind.bind_lunit s4_def s3_def by (rule refl)
  moreover have "svc_wf C (sv_do f s4)" for f
    using 4 s2(4) d by (simp add: svc_wf_def timer_on_simps)
  moreover have "sv_owner s4" using 4(1) by (simp add: svc_core_def)
  moreover have "sv_timer s4 = sv_timer s2"
    by (simp add: s4_def s3_def unwatch_control_def unwatch_main_def reset_main_def reset_control_def split: option.splits)
  moreover have "st \<in> set timer_states \<Longrightarrow> timer_on s2 = timer_on s \<and> sv_timer s2 = sv_timer s"
    using s2(5) by (simp add: timer_on_simps)
  ultimately show ?thesis using 4(2,3) by (simp add: timer_on_simps)
qed

lemma set_state_auto: "env_ok V \<Longrightarrow> svc_core C s \<Longrightarrow> st \<notin> set dead_states \<Longrightarrow> \<exists>s'. set_state V C st s = Some s' \<and> svc_wf C s'"
  using set_state_ok by blast

section \<open>Spawning\<close>

lemma start_service_spec:
  assumes V: "env_ok V" and c: "svc_core C s"
  shows "\<exists>p s'. start_service V C cmd t fl s = Some (p, s') \<and> svc_core C s' \<and> same_procs s s' \<and> (spawn_ok V \<longrightarrow> p \<noteq> None) \<and>
    (p \<noteq> None \<longrightarrow> t \<noteq> u64_MAX \<longrightarrow> timer_on s')"
proof -
  have o: "sv_owner s" using c by (simp add: svc_core_def)
  obtain b w where a: "sv_ask (so_prepare_exec V) s = (b, s\<lparr>sv_env := w\<rparr>)" "so_prepare_exec V (sv_env s) = (b, w)"
    by (rule sv_askE)
  show ?thesis
  proof (cases b)
    case False
    have "same_procs s (s\<lparr>sv_env := w\<rparr>)" by (simp add: same_procs_def)
    moreover have "\<not> spawn_ok V" using a(2) False unfolding spawn_ok_def by (metis fst_conv)
    ultimately show ?thesis using o a(1) c False by (simp add: start_service_def)
  next
    case True
    obtain s2 where e: "enable_timer V t (s\<lparr>sv_env := w\<rparr>) = (True, s2)" "svc_core C s2" "same_procs (s\<lparr>sv_env := w\<rparr>) s2"
      "t \<noteq> u64_MAX \<longrightarrow> timer_on s2"
      using enable_timer_core [OF V, of C "s\<lparr>sv_env := w\<rparr>"] c by auto
    have pr: "same_procs s s2" using e(3) by (simp add: same_procs_def)
    have n: "so_notify_socket V (sv_env s2)" using V by (simp add: env_ok_def)
    obtain p w2 where k: "sv_ask (so_exec_spawn V cmd fl (sv_main s2)) s2 = (p, s2\<lparr>sv_env := w2\<rparr>)"
      "so_exec_spawn V cmd fl (sv_main s2) (sv_env s2) = (p, w2)"
      by (rule sv_askE)
    have u: "start_service V C cmd t fl s = (if \<not> so_exec_params V (sv_env s2) then Some (None, s2)
        else case p of None \<Rightarrow> Some (None, s2\<lparr>sv_env := w2\<rparr>)
        | Some pid \<Rightarrow> Some (Some pid, (sv_do (so_child_watch_pid V pid) (s2\<lparr>sv_env := w2\<rparr>))\<lparr>sv_exec_params := Some (exec_runtime_directory C)\<rparr>))"
      unfolding start_service_def Let_def a(1) prod.case e(1) k(1) using o True e(1) n by simp
    show ?thesis
    proof (cases "so_exec_params V (sv_env s2)")
      case False
      then show ?thesis using u e(2) pr by (auto simp: spawn_ok_def)
    next
      case ok: True
      show ?thesis
      proof (cases p)
        case None
        have "\<not> spawn_ok V" using k(2) None unfolding spawn_ok_def by (metis fst_conv)
        moreover have "same_procs s (s2\<lparr>sv_env := w2\<rparr>)" "svc_core C (s2\<lparr>sv_env := w2\<rparr>)"
          using pr e(2) by (simp_all add: same_procs_def)
        ultimately show ?thesis using u ok None by simp
      next
        case (Some pid)
        let ?s = "(sv_do (so_child_watch_pid V pid) (s2\<lparr>sv_env := w2\<rparr>))\<lparr>sv_exec_params := Some (exec_runtime_directory C)\<rparr>"
        have "same_procs s ?s" "svc_core C ?s" "timer_on ?s = timer_on s2"
          using pr e(2) by (simp_all add: same_procs_def svc_core_def timer_on_def)
        then show ?thesis using u ok Some e(4) by simp
      qed
    qed
  qed
qed

lemma svc_core_control [simp]: "svc_core C (set_control p s) = svc_core C s"
  by (simp add: set_control_def)

lemma set_control_fields [simp]:
  "sv_state (set_control p s) = sv_state s" "sv_main (set_control p s) = sv_main s" "timer_on (set_control p s) = timer_on s"
  "sv_control (set_control p s) = Some p"
  by (simp_all add: set_control_def timer_on_def)

text \<open>A popped command that is spawned as a control command, and what comes of it.\<close>

lemma spawn_popped_spec:
  assumes V: "env_ok V" and c: "svc_core C s"
  shows "\<exists>out s'. (case control_command_pop s of (cmd, s1) \<Rightarrow> (case cmd of
       None \<Rightarrow> Some (NoCmd, s1)
     | Some c \<Rightarrow> do {
         (p, s2) \<leftarrow> start_service V C c t EXEC_CONTROL s1;
         case p of
           Some pid \<Rightarrow> Some (SpawnOk, set_control pid s2)
         | None \<Rightarrow> Some (SpawnErr, s2) })) = Some (out, s') \<and> svc_core C s' \<and> sv_state s' = sv_state s \<and>
    sv_main s' = sv_main s \<and> (out \<noteq> SpawnOk \<longrightarrow> sv_control s' = sv_control s) \<and> (spawn_ok V \<longrightarrow> out \<noteq> SpawnErr) \<and>
    (out = SpawnOk \<longrightarrow> t \<noteq> u64_MAX \<longrightarrow> timer_on s')"
proof -
  obtain cmd s1 where p: "control_command_pop s = (cmd, s1)" by (cases "control_command_pop s")
  have 1: "svc_core C s1" "same_procs s s1" using c p pop_spec(3) [of C s] pop_spec(4) [of s] by simp_all
  show ?thesis
  proof (cases cmd)
    case None
    then show ?thesis using p 1 by (simp add: same_procs_def)
  next
    case (Some cm)
    obtain q s2 where q: "start_service V C cm t EXEC_CONTROL s1 = Some (q, s2)" "svc_core C s2" "same_procs s1 s2"
      "spawn_ok V \<longrightarrow> q \<noteq> None" "q \<noteq> None \<longrightarrow> t \<noteq> u64_MAX \<longrightarrow> timer_on s2"
      using start_service_spec [OF V 1(1)] by blast
    then show ?thesis using p 1(2) Some by (cases q) (simp_all add: same_procs_def)
  qed
qed

lemma spawn_control_spec:
  assumes V: "env_ok V" and c: "svc_core C s"
  shows "\<exists>out s'. spawn_control V C k t s = Some (out, s') \<and> svc_core C s' \<and> sv_state s' = sv_state s \<and>
    sv_main s' = sv_main s \<and> (out \<noteq> SpawnOk \<longrightarrow> sv_control s' = sv_control s) \<and> (spawn_ok V \<longrightarrow> out \<noteq> SpawnErr) \<and>
    (out = SpawnOk \<longrightarrow> t \<noteq> u64_MAX \<longrightarrow> timer_on s')"
proof -
  have "svc_core C (control_command_fill C k s)" using c by simp
  from spawn_popped_spec [OF V this, of t] show ?thesis
    using fill_spec(4) [of s C k] by (simp add: spawn_control_def same_procs_def)
qed

section \<open>The phases of a service\<close>

text \<open>Every phase returns and leaves the service well formed, whatever the state it is entered from.\<close>

definition settles :: "service_conf \<Rightarrow> 'w svc option \<Rightarrow> bool" where
  "settles C r \<longleftrightarrow> (\<exists>s'. r = Some s' \<and> svc_wf C s')"

lemma settlesI: "r = Some s' \<Longrightarrow> svc_wf C s' \<Longrightarrow> settles C r"
  by (auto simp: settles_def)

lemma settles_set_state: "env_ok V \<Longrightarrow> svc_core C s \<Longrightarrow> st \<notin> set dead_states \<Longrightarrow> settles C (set_state V C st s)"
  using set_state_auto by (auto simp: settles_def)

lemma settles_map: "settles C r \<Longrightarrow> (\<And>s. svc_wf C s \<Longrightarrow> svc_wf C (f s)) \<Longrightarrow> settles C (map_option f r)"
  by (auto simp: settles_def)

lemma wf_frame [simp]:
  "svc_wf C (s\<lparr>sv_env := w\<rparr>) = svc_wf C s" "svc_wf C (sv_do f s) = svc_wf C s"
  "svc_wf C (s\<lparr>sv_forbid_restart := b\<rparr>) = svc_wf C s" "svc_wf C (s\<lparr>sv_reset_restarts := b\<rparr>) = svc_wf C s"
  "svc_wf C (s\<lparr>sv_db := d\<rparr>) = svc_wf C s" "svc_wf C (s\<lparr>sv_restarts := n\<rparr>) = svc_wf C s"
  "svc_wf C (s\<lparr>sv_result := r\<rparr>) = svc_wf C s" "svc_wf C (s\<lparr>sv_reload_result := r\<rparr>) = svc_wf C s"
  "svc_wf C (s\<lparr>sv_exec_status := es\<rparr>) = svc_wf C s" "svc_wf C (s\<lparr>sv_main_command := c\<rparr>) = svc_wf C s"
  "svc_wf C (s\<lparr>sv_control_command := c\<rparr>) = svc_wf C s" "svc_wf C (s\<lparr>sv_control_cmd_type := ct\<rparr>) = svc_wf C s"
  "svc_wf C (s\<lparr>sv_notify_state := ns\<rparr>) = svc_wf C s" "svc_wf C (s\<lparr>sv_errno := i\<rparr>) = svc_wf C s"
  "svc_wf C (s\<lparr>sv_monitor := mo\<rparr>) = svc_wf C s" "svc_wf C (s\<lparr>sv_watchdog := wd\<rparr>) = svc_wf C s"
  "svc_wf C (s\<lparr>sv_inotify := ino\<rparr>) = svc_wf C s" "svc_wf C (s\<lparr>sv_inotify_next := k\<rparr>) = svc_wf C s"
  by (simp_all add: svc_wf_def timer_on_def)

lemma wf_db_update [simp]: "svc_wf C (svc_db_update V s) = svc_wf C s"
  by (simp add: svc_db_update_def)

lemma dead_cleanup_ok:
  assumes "svc_wf C s" shows "settles C (dead_cleanup V C s)"
proof -
  have "sv_exec_params s \<noteq> None \<or> RuntimeDirectoryPreserve C = PreserveYes"
    using assms by (simp add: svc_wf_def svc_core_def)
  then show ?thesis using assms
    by (auto simp: dead_cleanup_def settles_def Let_def split: option.splits)
qed

lemma dead_states_simps [simp]:
  "SvDead \<notin> set dead_states" "SvFailed \<notin> set dead_states" "SvAutoRestart \<notin> set dead_states" "SvStopPost \<notin> set dead_states"
  "SvStop \<notin> set dead_states" "SvRunning \<notin> set dead_states" "SvExited \<notin> set dead_states" "SvStartPost \<notin> set dead_states"
  "SvStart \<notin> set dead_states" "SvStartPre \<notin> set dead_states" "SvCondition \<notin> set dead_states" "SvReload \<notin> set dead_states"
  "SvStopSigterm \<notin> set dead_states" "SvStopWatchdog \<notin> set dead_states" "SvFinalSigterm \<notin> set dead_states"
  "SvFinalSigkill \<notin> set dead_states"
  by (simp_all add: dead_states_def)

lemma enter_dead_ok:
  assumes V: "env_ok V" and c: "svc_core C s"
  shows "settles C (enter_dead V C res force s)"
proof -
  have o: "sv_owner s" using c by (simp add: svc_core_def)
  let ?st = "if sv_result (set_result_once res s) = Success then SvDead else SvFailed"
  have st: "?st \<notin> set dead_states" by simp
  show ?thesis
  proof (cases "dead_restarts V C res force s")
    case False
    have "svc_core C (set_result_once res s)" using c by simp
    from set_state_auto [OF V this st] obtain s1 where s1: "set_state V C ?st (set_result_once res s) = Some s1" "svc_wf C s1"
      by blast
    have "svc_wf C (s1\<lparr>sv_reset_restarts := True\<rparr>)" using s1(2) by simp
    from dead_cleanup_ok [OF this] show ?thesis
      unfolding enter_dead.simps [of V C res force s] using o False s1(1) by simp
  next
    case True
    have "svc_core C ((set_result_once res s)\<lparr>sv_will_auto_restart := True\<rparr>)" using c by simp
    from set_state_auto [OF V this st] obtain s1 where
      s1: "set_state V C ?st ((set_result_once res s)\<lparr>sv_will_auto_restart := True\<rparr>) = Some s1" "svc_wf C s1" by blast
    have "svc_core C (s1\<lparr>sv_will_auto_restart := False\<rparr>)" using svc_wf_core [OF s1(2)] by simp
    from enable_timer_core [OF V this] obtain s2 where
      s2: "enable_timer V (RestartSec C) (s1\<lparr>sv_will_auto_restart := False\<rparr>) = (True, s2)" "svc_core C s2" by blast
    from set_state_auto [OF V s2(2)] obtain s3 where s3: "set_state V C SvAutoRestart s2 = Some s3" "svc_wf C s3"
      by (metis dead_states_simps(3))
    from dead_cleanup_ok [OF s3(2)] show ?thesis
      unfolding enter_dead.simps [of V C res force s] using o True s1(1) s2(1) s3(1) by simp
  qed
qed

lemma signal_stop_post_ok:
  fixes V :: "'w svc_ops"
  shows "env_ok V \<Longrightarrow> st \<notin> set dead_states \<Longrightarrow> svc_core C s \<Longrightarrow> settles C (enter_signal V C st res s)"
    and "env_ok V \<Longrightarrow> svc_core C s \<Longrightarrow> settles C (enter_stop_post V C res s)"
proof (induction V C st res s and V C res s rule: enter_signal_enter_stop_post.induct)
  case (1 V C st res s)
  have o: "sv_owner s" using 1(7) by (simp add: svc_core_def)
  let ?s0 = "sv_do (so_child_watch_all_pids V) (set_result_once res s)"
  have c0: "svc_core C ?s0" using 1(7) by simp
  let ?ask = "sv_ask (so_kill_context V (sv_main s) (sv_control s) (to_kill_operation st) (sv_main_alien s)) ?s0"
  obtain ret w where a: "?ask = (ret, ?s0\<lparr>sv_env := w\<rparr>)" by (rule sv_askE)
  let ?s1 = "?s0\<lparr>sv_env := w\<rparr>"
  have c1: "svc_core C ?s1" using c0 by simp
  note e = enter_signal.simps [of V C st res s]
  show ?case
  proof (cases "ret = None")
    case True
    then show ?thesis
      using 1(1) [OF _ a [symmetric] True] 1(5) c1 o enter_dead_ok [OF 1(5) c1] a unfolding e by simp
  next
    case False
    then obtain b where b: "ret = Some b" by blast
    show ?thesis
    proof (cases b)
      case True
      obtain s2 where s2: "enable_timer V (TimeoutStopSec C) ?s1 = (True, s2)" "svc_core C s2"
        using enable_timer_core [OF 1(5) c1] by blast
      have "enter_signal V C st res s = set_state V C st s2" unfolding e using o a b True s2(1) by simp
      then show ?thesis using settles_set_state [OF 1(5) s2(2) 1(6)] by simp
    next
      case False
      then show ?thesis
        using 1(3) [OF _ a [symmetric] b] 1(4) [OF _ a [symmetric] b] 1(5) c1 o enter_dead_ok [OF 1(5) c1] a b unfolding e by simp
    qed
  qed
next
  case (2 V C res s)
  have "svc_core C (set_result_once res s)" using 2(4) by simp
  from spawn_control_spec [OF 2(3) this] obtain out s1 where
    s1: "spawn_control V C CmdStopPost 0 (set_result_once res s) = Some (out, s1)" "svc_core C s1" by blast
  show ?case
    using s1 2(1) [OF s1(1) refl] 2(2) [OF s1(1) refl] settles_set_state [OF 2(3) s1(2)] 2(3)
    by (cases out) (simp_all add: enter_stop_post.simps)
qed

lemmas signal_ok = signal_stop_post_ok(1) and stop_post_ok = signal_stop_post_ok(2)

lemma enter_stop_ok:
  assumes V: "env_ok V" and c: "svc_core C s" shows "settles C (enter_stop V C res s)"
proof -
  have "svc_core C (set_result_once res s)" using c by simp
  from spawn_control_spec [OF V this] obtain out s1 where
    s1: "spawn_control V C CmdStop 0 (set_result_once res s) = Some (out, s1)" "svc_core C s1" by blast
  then show ?thesis using signal_ok [OF V _ s1(2)] settles_set_state [OF V s1(2)]
    by (cases out) (simp_all add: enter_stop_def)
qed

lemma enter_stop_by_notify_ok:
  assumes V: "env_ok V" and c: "svc_core C s" shows "settles C (enter_stop_by_notify V C s)"
proof -
  obtain s1 where "enable_timer V (TimeoutStopSec C) s = (True, s1)" "svc_core C s1"
    using enable_timer_core [OF V c] by blast
  then show ?thesis using settles_set_state [OF V] by (simp add: enter_stop_by_notify_def)
qed

lemma enter_running_ok:
  assumes V: "env_ok V" and c: "svc_core C s" shows "settles C (enter_running V C sr s)"
proof -
  let ?s = "set_result_once sr (unwatch_control V s)"
  have c1: "svc_core C ?s" using c by simp
  obtain s2 where s2: "set_state V C SvRunning ?s = Some s2" "svc_wf C s2" "sv_state s2 = SvRunning"
    using set_state_ok [OF V c1, of SvRunning] by auto
  obtain s3 where s3: "enable_timer V u64_MAX s2 = (True, s3)" "svc_core C s3" "same_procs s2 s3"
    "timer_on s3 \<longrightarrow> timer_on s2 \<or> u64_MAX \<noteq> u64_MAX"
    using enable_timer_core [OF V svc_wf_core [OF s2(2)]] by blast
  have "svc_wf C s3" using s2(2,3) s3(2-4) by (simp add: svc_wf_def same_procs_def)
  then have run: "settles C (do { s2 \<leftarrow> set_state V C SvRunning ?s; Some (snd (enable_timer V u64_MAX s2)) })"
    using s2(1) s3(1) by (simp add: settles_def)
  have ex: "settles C (set_state V C SvExited ?s)" using settles_set_state [OF V c1] by simp
  show ?thesis
    unfolding enter_running_def Let_def
    using run ex signal_ok [OF V _ c1] enter_stop_by_notify_ok [OF V c1] enter_stop_ok [OF V c1] by simp
qed

lemma ev_unwrap_core:
  assumes V: "env_ok V" and c: "svc_core C s" and w: "op \<in> {OpAdd x, OpDel x, OpEnable x st}" "x \<noteq> SrcTimer"
  shows "\<exists>s'. ev_unwrap V op s = Some s' \<and> svc_core C s' \<and> same_procs s s' \<and> timer_on s' = timer_on s \<and> sv_inotify s' = sv_inotify s"
proof -
  obtain w' where e: "ev_unwrap V op s = Some (s\<lparr>sv_env := w', sv_events := sv_event_apply op (sv_events s)\<rparr>)"
    by (rule ev_unwrap_ok [OF V])
  let ?s = "s\<lparr>sv_env := w', sv_events := sv_event_apply op (sv_events s)\<rparr>"
  have "sv_event_apply op (sv_events s) SrcTimer = sv_events s SrcTimer" using w by auto
  then have "timer_on ?s = timer_on s" "svc_core C ?s" using c by (simp_all add: timer_on_def svc_core_def)
  moreover have "same_procs s ?s" by (simp add: same_procs_def)
  ultimately show ?thesis using e by simp
qed

text \<open>Steps that change neither state nor processes and keep the timer.\<close>

definition quiet :: "service_conf \<Rightarrow> 'w svc \<Rightarrow> 'w svc \<Rightarrow> bool" where
  "quiet C s s' \<longleftrightarrow> svc_core C s' \<and> same_procs s s' \<and> timer_on s' = timer_on s \<and> sv_inotify s' = sv_inotify s"

lemma quiet_wf: "svc_wf C s \<Longrightarrow> quiet C s s' \<Longrightarrow> svc_wf C s'"
  by (simp add: quiet_def svc_wf_def same_procs_def)

lemma quiet_trans: "quiet C s s' \<Longrightarrow> quiet C s' s'' \<Longrightarrow> quiet C s s''"
  by (simp add: quiet_def same_procs_def)

lemma ev_unwrap_quiet:
  "env_ok V \<Longrightarrow> svc_core C s \<Longrightarrow> op \<in> {OpAdd x, OpDel x, OpEnable x st} \<Longrightarrow> x \<noteq> SrcTimer \<Longrightarrow>
   \<exists>s'. ev_unwrap V op s = Some s' \<and> quiet C s s'"
  using ev_unwrap_core unfolding quiet_def by blast

lemma quiet_monitor: "svc_core C s \<Longrightarrow> quiet C s (s\<lparr>sv_monitor := m\<rparr>)" "svc_core C s \<Longrightarrow> quiet C s (s\<lparr>sv_watchdog := wd\<rparr>)"
  by (simp_all add: quiet_def same_procs_def timer_on_def)

lemma restart_watchdog_ok:
  assumes V: "env_ok V" and c: "svc_core C s"
  shows "\<exists>s'. restart_watchdog V C s = Some s' \<and> quiet C s s'"
proof -
  let ?s1 = "s\<lparr>sv_monitor := set_original_watchdog (WatchdogSec C) (sv_monitor s)\<rparr>"
  let ?u = "watchdog_usec (sv_monitor ?s1)"
  have q1: "quiet C s ?s1" and c1: "svc_core C ?s1" using quiet_monitor [OF c] c by simp_all
  obtain d where d: "ev_unwrap V (OpDel SrcWatchdog) ?s1 = Some d" "quiet C ?s1 d"
    using ev_unwrap_quiet [OF V c1, of "OpDel SrcWatchdog" SrcWatchdog] by auto
  let ?s2 = "if sv_watchdog ?s1 \<noteq> None then d else ?s1"
  have q2: "quiet C s ?s2" using q1 quiet_trans [OF q1 d(2)] by simp
  have c2: "svc_core C ?s2" using q2 by (simp add: quiet_def)
  have q3: "quiet C s (?s2\<lparr>sv_watchdog := Some ?u\<rparr>)" using quiet_trans [OF q2 quiet_monitor(2) [OF c2]] .
  have c3: "svc_core C (?s2\<lparr>sv_watchdog := Some ?u\<rparr>)" using q3 by (simp add: quiet_def)
  obtain s4 where s4: "ev_unwrap V (OpAdd SrcWatchdog) (?s2\<lparr>sv_watchdog := Some ?u\<rparr>) = Some s4"
    "quiet C (?s2\<lparr>sv_watchdog := Some ?u\<rparr>) s4"
    using ev_unwrap_quiet [OF V c3, of "OpAdd SrcWatchdog" SrcWatchdog] by auto
  have c4: "svc_core C s4" using s4(2) by (simp add: quiet_def)
  obtain s5 where s5: "ev_unwrap V (OpEnable SrcWatchdog EvOneShot) s4 = Some s5" "quiet C s4 s5"
    using ev_unwrap_quiet [OF V c4, of "OpEnable SrcWatchdog EvOneShot" SrcWatchdog] by auto
  have "quiet C s s5" using quiet_trans [OF q3 quiet_trans [OF s4(2) s5(2)]] .
  moreover have "restart_watchdog V C s = (if ?u = 0 \<or> ?u = u64_MAX then (if sv_watchdog ?s1 \<noteq> None then Some d else Some ?s1) else Some s5)"
    using d(1) s4(1) s5(1) unfolding restart_watchdog_def Let_def stop_watchdog_def
    by (cases "sv_watchdog s") simp_all
  ultimately show ?thesis using q2 by auto
qed

lemma enter_start_post_ok:
  assumes V: "env_ok V" "spawn_ok V" and c: "svc_core C s" shows "settles C (enter_start_post V C s)"
proof -
  have "svc_core C (unwatch_control V s)" using c by simp
  then obtain s1 where s1: "restart_watchdog V C (unwatch_control V s) = Some s1" "svc_core C s1"
    using restart_watchdog_ok [OF V(1)] unfolding quiet_def by blast
  obtain out s2 where s2: "spawn_control V C CmdStartPost (TimeoutStartSec C) s1 = Some (out, s2)" "svc_core C s2" "out \<noteq> SpawnErr"
    using spawn_control_spec [OF V(1) s1(2)] V(2) by blast
  then show ?thesis using s1(1) enter_running_ok [OF V(1) s2(2)] settles_set_state [OF V(1) s2(2)]
    by (cases out) (simp_all add: enter_start_post_def)
qed

lemma start_cmd_pop_core: "svc_core C' (snd (start_cmd_pop C s)) = svc_core C' s"
  by (simp add: start_cmd_pop_def)

lemma enter_start_ok:
  assumes V: "env_ok V" "spawn_ok V" and t: "type_ok C" and c: "svc_core C s"
  shows "settles C (enter_start V C s)"
proof -
  let ?s1 = "main_command_fill C (unwatch_main V (unwatch_control V (s\<lparr>sv_control_command := []\<rparr>)))"
  obtain cmd s2 where p: "start_cmd_pop C ?s1 = (cmd, s2)" by (cases "start_cmd_pop C ?s1")
  have c2: "svc_core C s2" using c start_cmd_pop_core [of C C ?s1] p by simp
  show ?thesis
  proof (cases cmd)
    case None
    obtain s3 where "set_state V C SvStart s2 = Some s3" "svc_wf C s3" using set_state_auto [OF V(1) c2, of SvStart] by auto
    then have "settles C (do { s3 \<leftarrow> set_state V C SvStart s2; enter_start_post V C s3 })"
      using enter_start_post_ok [OF V svc_wf_core] by simp
    then show ?thesis unfolding enter_start_def Let_def p using None signal_ok [OF V(1) _ c2] by simp
  next
    case (Some cm)
    let ?t = "if Type C = Simple \<or> Type C = Idle then u64_MAX else TimeoutStartSec C"
    obtain pid s3 where s3: "start_service V C cm ?t (EXEC_PASS_FDS OR EXEC_SOFT_WATCHDOG) s2 = Some (Some pid, s3)" "svc_core C s3"
      using start_service_spec [OF V(1) c2] V(2) by (metis option.exhaust)
    let ?s4 = "s3\<lparr>sv_current_main_command := cm\<rparr>"
    have c4: "svc_core C (snd (set_main V pid ?s4))" "svc_core C (set_control pid ?s4)" using s3(2) by simp_all
    show ?thesis unfolding enter_start_def Let_def p
      using Some s3(1) t enter_start_post_ok [OF V c4(1)] settles_set_state [OF V(1) c4(1)] settles_set_state [OF V(1) c4(2)]
      by (auto simp: type_ok_def)
  qed
qed

lemma enter_prestart_ok:
  assumes V: "env_ok V" "spawn_ok V" and t: "type_ok C" and c: "svc_core C s"
  shows "settles C (enter_prestart V C s)"
proof -
  have "svc_core C (unwatch_control V s)" using c by simp
  from spawn_control_spec [OF V(1) this] obtain out s1 where
    s1: "spawn_control V C CmdStartPre (TimeoutStartSec C) (unwatch_control V s) = Some (out, s1)" "svc_core C s1" by blast
  then show ?thesis using enter_start_ok [OF V t s1(2)] enter_dead_ok [OF V(1) s1(2)] settles_set_state [OF V(1) s1(2)]
    by (cases out) (simp_all add: enter_prestart_def)
qed

lemma enter_contion_ok:
  assumes V: "env_ok V" "spawn_ok V" and t: "type_ok C" and c: "svc_core C s"
  shows "settles C (enter_contion V C s)"
proof -
  from spawn_control_spec [OF V(1) c] obtain out s1 where
    s1: "spawn_control V C CmdCondition (TimeoutStartSec C) s = Some (out, s1)" "svc_core C s1" by blast
  then show ?thesis using enter_prestart_ok [OF V t s1(2)] enter_dead_ok [OF V(1) s1(2)] settles_set_state [OF V(1) s1(2)]
    by (cases out) (simp_all add: enter_contion_def)
qed

lemma enter_reload_ok:
  assumes V: "env_ok V" and c: "svc_core C s"
  shows "settles C (enter_reload V C s)"
proof -
  let ?s1 = "(control_command_fill C CmdReload (unwatch_control V (s\<lparr>sv_control_command := []\<rparr>)))\<lparr>sv_reload_result := Success\<rparr>"
  have "svc_core C ?s1" using c by simp
  from spawn_popped_spec [OF V this, of "TimeoutStartSec C"] obtain out s2 where
    s2: "(case control_command_pop ?s1 of (cmd, s1) \<Rightarrow> (case cmd of
       None \<Rightarrow> Some (NoCmd, s1)
     | Some c \<Rightarrow> do {
         (p, s2) \<leftarrow> start_service V C c (TimeoutStartSec C) EXEC_CONTROL s1;
         case p of
           Some pid \<Rightarrow> Some (SpawnOk, set_control pid s2)
         | None \<Rightarrow> Some (SpawnErr, s2) })) = Some (out, s2)" "svc_core C s2" by blast
  have "svc_core C (s2\<lparr>sv_reload_result := FailureResources\<rparr>)" using s2(2) by simp
  note e = enter_running_ok [OF V this] enter_running_ok [OF V s2(2)] settles_set_state [OF V s2(2)]
  show ?thesis unfolding enter_reload_def Let_def s2(1) using e by (cases out) simp_all
qed

lemma enter_restart_ok:
  assumes V: "env_ok V" and wf: "svc_wf C s"
  shows "settles C (enter_restart V C False s)"
proof -
  have c: "svc_core C s" by (rule svc_wf_core [OF wf])
  obtain ok w where a: "sv_ask (so_restart_unit V) s = (ok, s\<lparr>sv_env := w\<rparr>)" by (rule sv_askE)
  have "svc_core C (s\<lparr>sv_env := w\<rparr>)" using c by simp
  from enter_dead_ok [OF V this] show ?thesis
    using c wf a by (auto simp: enter_restart_def add_restarts_def settles_def svc_core_def)
qed

section \<open>The pid file\<close>

lemma load_pid_file_spec:
  assumes c: "svc_core C s" and l: "load_pid_file V C s = (r, s')"
  shows "svc_core C s' \<and> sv_state s' = sv_state s \<and> sv_control s' = sv_control s \<and> timer_on s' = timer_on s \<and>
    sv_inotify s' = sv_inotify s \<and> (isl r \<longrightarrow> sv_main s' = sv_main s \<or> sv_main s' = None) \<and>
    (PIDFile C = None \<longrightarrow> s' = s)"
proof -
  have sm: "sv_inotify (snd (set_main V p (unwatch_main V s))) = sv_inotify s" for p
    by (simp add: set_main_def Let_def unwatch_main_def reset_main_def split: option.splits)
  have main: "\<not> fst (set_main V p (unwatch_main V s)) \<Longrightarrow> sv_main (snd (set_main V p (unwatch_main V s))) = None" for p
    by (auto simp: set_main_def Let_def split: if_splits)
  show ?thesis
  proof (cases "PIDFile C")
    case None
    then show ?thesis using l c by (auto simp: load_pid_file_def)
  next
    case (Some f)
    show ?thesis
    proof (cases "\<exists>p v. so_read_pid_file V f (sv_env s) = FirstLine v \<and> parse_i32 (trim v) = Some p \<and> sv_main s \<noteq> Some p \<and>
        \<not> isl (valid_main_pid V p s)")
      case False
      then have "s' = s" "isl r \<longrightarrow> sv_main s' = sv_main s" using l Some
        by (auto simp: load_pid_file_def split: pid_file_read.splits option.splits if_splits sum.splits)
      then show ?thesis using c by simp
    next
      case True
      then obtain p v b where p: "so_read_pid_file V f (sv_env s) = FirstLine v" "parse_i32 (trim v) = Some p"
        "sv_main s \<noteq> Some p" "valid_main_pid V p s = Inr b" by (auto simp: isl_def split: sum.splits) (metis sum.collapse(2) isl_def)
      obtain ok s1 where m: "set_main V p (unwatch_main V s) = (ok, s1)" by (cases "set_main V p (unwatch_main V s)")
      have 1: "svc_core C s1" "sv_state s1 = sv_state s" "sv_control s1 = sv_control s" "timer_on s1 = timer_on s"
        "sv_inotify s1 = sv_inotify s" "\<not> ok \<Longrightarrow> sv_main s1 = None"
        using c m set_main_spec(1) [of C V p "unwatch_main V s"] set_main_spec(2-4) [of V p "unwatch_main V s"] sm [of p] main [of p]
        by simp_all
      have "r = (if ok then Inr True else Inl (Other ''invalid main pid''))"
        "s' = (if ok then sv_do (so_child_watch_pid V p) s1 else s1)"
        using l Some p m by (simp_all add: load_pid_file_def split: if_splits)
      then show ?thesis using 1 Some by (simp add: timer_on_simps)
    qed
  qed
qed

lemma load_pid_file_wf:
  assumes wf: "svc_wf C s" and l: "load_pid_file V C s = (r, s')" and m: "isl r \<or> sv_state s \<in> set main_states"
  shows "svc_wf C s'"
  using load_pid_file_spec [OF svc_wf_core [OF wf] l] wf m by (auto simp: svc_wf_def)

lemma unwatch_pid_file_ok:
  assumes V: "env_ok V" and c: "svc_core C s" and i: "sv_inotify s \<noteq> None"
  shows "\<exists>s'. unwatch_pid_file V s = Some s' \<and> quiet C s s'"
proof -
  obtain n where n: "sv_inotify s = Some n" using i by blast
  obtain s1 where s1: "ev_unwrap V (OpDel (SrcInotify n)) s = Some s1" "quiet C s s1"
    using ev_unwrap_quiet [OF V c, of "OpDel (SrcInotify n)" "SrcInotify n"] by auto
  have "quiet C s (sv_do f s1)" for f using s1(2) by (simp add: quiet_def same_procs_def timer_on_simps)
  then show ?thesis using n s1(1) by (simp add: unwatch_pid_file_def)
qed

lemma retry_pid_file_ok:
  assumes V: "env_ok V" and wf: "svc_wf C s" and i: "sv_inotify s \<noteq> None"
  shows "\<exists>r s'. retry_pid_file V C s = Some (r, s') \<and> svc_wf C s' \<and> (isl r \<longrightarrow> sv_inotify s' \<noteq> None)"
proof -
  obtain r s1 where l: "load_pid_file V C s = (r, s1)" by (cases "load_pid_file V C s")
  note sp = load_pid_file_spec [OF svc_wf_core [OF wf] l]
  show ?thesis
  proof (cases r)
    case (Inl e)
    then show ?thesis using l sp load_pid_file_wf [OF wf l] i by (simp add: retry_pid_file_def)
  next
    case (Inr b)
    obtain s2 where s2: "unwatch_pid_file V s1 = Some s2" "quiet C s1 s2"
      using unwatch_pid_file_ok [OF V] sp i by metis
    then have "svc_core C s2" by (simp add: quiet_def)
    from enter_running_ok [OF V this, of Success] show ?thesis
      using l Inr s2(1) by (auto simp: retry_pid_file_def settles_def)
  qed
qed

lemma quiet_env: "svc_core C s \<Longrightarrow> quiet C s (s\<lparr>sv_env := w\<rparr>)"
  by (simp add: quiet_def same_procs_def timer_on_simps)

lemma watch_pid_file_ok:
  assumes V: "env_ok V" and wf: "svc_wf C s" and i: "sv_inotify s \<noteq> None" and f: "PIDFile C \<noteq> None"
  shows "\<exists>r s'. watch_pid_file V C s = Some (r, s') \<and> svc_wf C s' \<and> (isl r \<longrightarrow> sv_inotify s' \<noteq> None)"
proof -
  have c: "svc_core C s" by (rule svc_wf_core [OF wf])
  obtain n where n: "sv_inotify s = Some n" using i by blast
  obtain pf where pf: "PIDFile C = Some pf" using f by blast
  obtain ok w where a: "sv_ask (so_add_watch_path V pf) s = (ok, s\<lparr>sv_env := w\<rparr>)" by (rule sv_askE)
  let ?s1 = "s\<lparr>sv_env := w\<rparr>"
  have q1: "quiet C s ?s1" and c1: "svc_core C ?s1" using quiet_env [OF c] c by simp_all
  have w1: "svc_wf C ?s1" using wf by simp
  have i1: "sv_inotify ?s1 \<noteq> None" using i by simp
  show ?thesis
  proof (cases ok)
    case True
    obtain s2 where s2: "ev_unwrap V (OpAdd (SrcInotify n)) ?s1 = Some s2" "quiet C ?s1 s2"
      using ev_unwrap_quiet [OF V c1, of "OpAdd (SrcInotify n)" "SrcInotify n"] by auto
    have c2: "svc_core C s2" using s2(2) by (simp add: quiet_def)
    obtain s3 where s3: "ev_unwrap V (OpEnable (SrcInotify n) EvOn) s2 = Some s3" "quiet C s2 s3"
      using ev_unwrap_quiet [OF V c2, of "OpEnable (SrcInotify n) EvOn" "SrcInotify n"] by auto
    have q: "quiet C ?s1 s3" by (rule quiet_trans [OF s2(2) s3(2)])
    have w3: "svc_wf C s3" by (rule quiet_wf [OF w1 q])
    have i3: "sv_inotify s3 \<noteq> None" using q i by (simp add: quiet_def)
    obtain r s4 where "retry_pid_file V C s3 = Some (r, s4)" "svc_wf C s4" using retry_pid_file_ok [OF V w3 i3] by blast
    then show ?thesis using n pf a True s2(1) s3(1) by (simp add: watch_pid_file_def)
  next
    case False
    obtain s2 where s2: "unwatch_pid_file V ?s1 = Some s2" "quiet C ?s1 s2"
      using unwatch_pid_file_ok [OF V c1 i1] by blast
    moreover have "svc_wf C s2" by (rule quiet_wf [OF w1 s2(2)])
    moreover have "sv_inotify s2 \<noteq> None" using s2(2) i by (simp add: quiet_def)
    ultimately show ?thesis using n pf a False by (simp add: watch_pid_file_def)
  qed
qed

lemma demand_pid_file_ok:
  assumes V: "env_ok V" and wf: "svc_wf C s" and f: "PIDFile C \<noteq> None"
  shows "\<exists>r s'. demand_pid_file V C s = Some (r, s') \<and> svc_wf C s'"
proof -
  let ?s = "s\<lparr>sv_inotify := Some (sv_inotify_next s), sv_inotify_next := Suc (sv_inotify_next s)\<rparr>"
  obtain r s' where w: "watch_pid_file V C ?s = Some (r, s')" "svc_wf C s'" using watch_pid_file_ok [OF V _ _ f, of ?s] wf by auto
  obtain pf where "PIDFile C = Some pf" using f by blast
  then show ?thesis using w by (simp add: demand_pid_file_def)
qed

lemma guess_main_pid_wf:
  assumes wf: "svc_wf C s" and m: "sv_state s \<in> set main_states" shows "svc_wf C (guess_main_pid V s)"
proof (cases "sv_main s \<noteq> None \<or> \<not> sv_owner s \<or> so_guess_main_pid V (sv_env s) = None")
  case True
  then show ?thesis using wf by (auto simp: guess_main_pid_def)
next
  case False
  then obtain p where p: "so_guess_main_pid V (sv_env s) = Some p" by blast
  obtain ok s1 where s1: "set_main V p s = (ok, s1)" by (cases "set_main V p s")
  have "svc_wf C s1" using set_main_spec(1) [of C V p s] set_main_spec(2-4) [of V p s] s1 wf m
    by (simp add: svc_wf_def)
  then show ?thesis using False p s1 by (simp add: guess_main_pid_def)
qed

lemma guess_main_pid_core: "svc_core C s \<Longrightarrow> svc_core C (guess_main_pid V s)"
proof (cases "so_guess_main_pid V (sv_env s)")
  case (Some p)
  assume c: "svc_core C s"
  obtain ok s1 where s1: "set_main V p s = (ok, s1)" by (cases "set_main V p s")
  then have "svc_core C s1" using c set_main_spec(1) [of C V p s] by simp
  then show ?thesis using c Some s1 by (simp add: guess_main_pid_def)
qed (simp add: guess_main_pid_def)

section \<open>The end of a process\<close>

lemma main_exited_ok:
  assumes V: "env_ok V" "spawn_ok V" and wf: "svc_wf C s" and m: "sv_state s \<in> set main_states"
  shows "settles C (main_exited V C res s)"
proof -
  have c: "svc_core C s" by (rule svc_wf_core [OF wf])
  have same: "settles C (Some s)" using wf by (simp add: settles_def)
  have "sv_state s \<in> set main_states - set dead_states" using m wf by (simp add: svc_wf_def)
  then consider "sv_state s = SvStart" | "sv_state s = SvStartPost" | "sv_state s = SvRunning" | "sv_state s = SvReload"
    | "sv_state s = SvStop" | "sv_state s = SvStopWatchdog" | "sv_state s = SvStopSigterm" | "sv_state s = SvStopPost"
    | "sv_state s = SvFinalSigterm" | "sv_state s = SvFinalSigkill"
    by (auto simp: main_states_def dead_states_def)
  then show ?thesis
    by cases (simp_all add: main_exited_def same enter_start_post_ok [OF V c] signal_ok [OF V(1) _ c]
      enter_running_ok [OF V(1) c] enter_stop_ok [OF V(1) c] stop_post_ok [OF V(1) c] enter_dead_ok [OF V(1) c])
qed

lemma forking_started_ok:
  assumes V: "env_ok V" "spawn_ok V" and wf: "svc_wf C s" and st: "sv_state s = SvStart"
  shows "settles C (forking_started V C s)"
proof -
  have c: "svc_core C s" by (rule svc_wf_core [OF wf])
  have m: "sv_state s \<in> set main_states" using st by (simp add: main_states_def)
  show ?thesis
  proof (cases "PIDFile C = None")
    case True
    have "svc_core C (guess_main_pid V s)" using guess_main_pid_wf [OF wf m] svc_wf_core by blast
    from enter_start_post_ok [OF V this] show ?thesis using True by (simp add: forking_started_def)
  next
    case False
    obtain r s1 where l: "load_pid_file V C s = (r, s1)" by (cases "load_pid_file V C s")
    have w1: "svc_wf C s1" using load_pid_file_wf [OF wf l] m by blast
    obtain r2 s2 where d: "demand_pid_file V C s1 = Some (r2, s2)" "svc_wf C s2"
      using demand_pid_file_ok [OF V(1) w1 False] by blast
    obtain s3 where s3: "enter_start_post V C s1 = Some s3" "svc_wf C s3"
      using enter_start_post_ok [OF V svc_wf_core [OF w1]] by (auto simp: settles_def)
    have e: "settles C (enter_start_post V C s3)" by (rule enter_start_post_ok [OF V svc_wf_core [OF s3(2)]])
    have g: "settles C (enter_signal V C SvStopSigterm FailureProtocol s2)" "settles C (Some s2)"
      using signal_ok [OF V(1) _ svc_wf_core [OF d(2)]] d(2) by (simp_all add: settles_def)
    show ?thesis unfolding forking_started_def Let_def l prod.case
      using False d(1) s3(1) e g by (cases r2) auto
  qed
qed

lemma start_post_exited_ok:
  assumes V: "env_ok V" "spawn_ok V" and wf: "svc_wf C s" and st: "sv_state s = SvStartPost"
  shows "settles C (start_post_exited V C res s)"
proof -
  have c: "svc_core C s" by (rule svc_wf_core [OF wf])
  obtain s1 where s1: "(if res \<noteq> Success then enter_signal V C SvStopSigterm res s else Some s) = Some s1" "svc_wf C s1"
    using signal_ok [OF V(1) _ c, of SvStopSigterm res] wf by (cases "res = Success") (auto simp: settles_def)
  obtain r s2 where l: "load_pid_file V C s1 = (r, s2)" by (cases "load_pid_file V C s1")
  have c2: "svc_core C s2" using load_pid_file_spec [OF svc_wf_core [OF s1(2)] l] by blast
  have g: "svc_core C (guess_main_pid V s1)" using guess_main_pid_core svc_wf_core [OF s1(2)] by blast
  show ?thesis
  proof (cases "isl r \<and> PIDFile C \<noteq> None")
    case True
    then obtain e where e: "r = Inl e" by (auto simp: isl_def)
    have w2: "svc_wf C s2" using load_pid_file_wf [OF s1(2) l] True by blast
    obtain r3 s3 where d: "demand_pid_file V C s2 = Some (r3, s3)" "svc_wf C s3"
      using demand_pid_file_ok [OF V(1) w2] True by blast
    have h: "settles C (enter_signal V C SvStopSigterm FailureProtocol s3)" "settles C (Some s3)" "settles C (enter_stop V C FailureProtocol s3)"
      using signal_ok [OF V(1) _ svc_wf_core [OF d(2)]] enter_stop_ok [OF V(1) svc_wf_core [OF d(2)]] d(2)
      by (simp_all add: settles_def)
    show ?thesis unfolding start_post_exited_def s1(1) Option.bind.bind_lunit l
      using True e d(1) h by (cases r3) simp_all
  next
    case False
    then show ?thesis unfolding start_post_exited_def s1(1) Option.bind.bind_lunit l
      using enter_running_ok [OF V(1) c2] enter_running_ok [OF V(1) g] by (cases r) simp_all
  qed
qed

lemma control_exited_ok:
  assumes V: "env_ok V" "spawn_ok V" and t: "type_ok C" and wf: "svc_wf C s" and m: "sv_state s \<in> set control_states"
  shows "settles C (control_exited V C res s)"
proof -
  have c: "svc_core C s" by (rule svc_wf_core [OF wf])
  have c': "svc_core C (s\<lparr>sv_reload_result := res\<rparr>)" using c by simp
  have same: "settles C (Some s)" using wf by (simp add: settles_def)
  have "sv_state s \<in> set control_states - set dead_states" using m wf by (simp add: svc_wf_def)
  then consider "sv_state s = SvCondition" | "sv_state s = SvStartPre" | "sv_state s = SvStart" | "sv_state s = SvStartPost"
    | "sv_state s = SvReload" | "sv_state s = SvStop" | "sv_state s = SvStopWatchdog" | "sv_state s = SvStopSigterm"
    | "sv_state s = SvStopPost" | "sv_state s = SvFinalSigterm" | "sv_state s = SvFinalSigkill"
    by (auto simp: control_states_def dead_states_def)
  then show ?thesis
    by cases (simp_all add: control_exited_def same enter_prestart_ok [OF V t c] enter_start_ok [OF V t c]
      forking_started_ok [OF V wf] start_post_exited_ok [OF V wf] signal_ok [OF V(1) _ c]
      enter_running_ok [OF V(1) c'] stop_post_ok [OF V(1) c] enter_dead_ok [OF V(1) c])
qed

lemma run_next_control_ok:
  assumes V: "env_ok V" and wf: "svc_wf C s" and m: "sv_state s \<in> set control_states"
  shows "settles C (run_next_control V C s)"
proof -
  obtain cmd s1 where p: "control_command_pop s = (cmd, s1)" by (cases "control_command_pop s")
  have 1: "same_procs s s1" "timer_on s1 = timer_on s" "svc_core C s1" "svc_wf C s1"
    using p wf pop_spec(4) [of s] pop_spec(3) [of C s]
    by (auto simp: control_command_pop_def timer_on_simps svc_wf_core split: list.splits)
  show ?thesis
  proof (cases cmd)
    case None
    then show ?thesis using p 1(4) by (simp add: run_next_control_def settles_def)
  next
    case (Some cm)
    let ?t = "if sv_state s \<in> {SvCondition, SvStartPre, SvStart, SvStartPost, SvRunning, SvReload} then TimeoutStartSec C else TimeoutStopSec C"
    obtain q s2 where q: "start_service V C cm ?t EXEC_CONTROL s1 = Some (q, s2)" "svc_core C s2" "same_procs s1 s2"
      using start_service_spec [OF V 1(3)] by blast
    have c': "svc_core C (s2\<lparr>sv_reload_result := FailureResources\<rparr>)" using q(2) by simp
    show ?thesis
    proof (cases q)
      case None
      then show ?thesis unfolding run_next_control_def Let_def p prod.case Some option.case q(1) Option.bind.bind_lunit
        using signal_ok [OF V _ q(2)] enter_dead_ok [OF V q(2)] enter_running_ok [OF V c'] enter_stop_ok [OF V q(2)] by simp
    next
      case (Some pid)
      have tm: "set control_states \<subseteq> set timer_states" by (simp add: control_states_def timer_states_def)
      have "svc_wf C (set_control pid s2)"
        using q(2,3) 1(1) m wf tm by (auto simp: svc_wf_def same_procs_def)
      then show ?thesis unfolding run_next_control_def Let_def p prod.case \<open>cmd = Some cm\<close> option.case q(1) Option.bind.bind_lunit
        using Some by (simp add: settles_def)
    qed
  qed
qed

lemma run_next_main_ok:
  assumes V: "env_ok V" and wf: "svc_wf C s" and m: "sv_state s \<in> set main_states"
  shows "settles C (run_next_main V C s)"
proof -
  obtain cmd s1 where p: "main_command_pop s = (cmd, s1)" by (cases "main_command_pop s")
  have 1: "same_procs s s1" "svc_core C s1" "svc_wf C s1"
    using p wf pop_spec(2) [of s] pop_spec(1) [of C s] by (auto simp: main_command_pop_def svc_wf_core split: list.splits)
  show ?thesis
  proof (cases cmd)
    case None
    then show ?thesis using p 1(3) by (simp add: run_next_main_def settles_def)
  next
    case (Some cm)
    obtain q s2 where q: "start_service V C cm (TimeoutStartSec C) (EXEC_PASS_FDS OR EXEC_SOFT_WATCHDOG) s1 = Some (q, s2)"
      "svc_core C s2" "same_procs s1 s2"
      using start_service_spec [OF V 1(2)] by blast
    have tm: "set main_states \<subseteq> set timer_states" by (simp add: main_states_def timer_states_def)
    have st: "sv_state s2 = sv_state s" "sv_control s2 = sv_control s" using q(3) 1(1) by (simp_all add: same_procs_def)
    have "svc_wf C (snd (set_main V pid s2))" "svc_wf C s2" for pid
      using q(2) st m wf tm by (auto simp: svc_wf_def)
    then show ?thesis using p Some q(1) by (simp add: run_next_main_def settles_def split: option.splits)
  qed
qed

lemma wf_drop_main: "svc_wf C s \<Longrightarrow> svc_wf C (s\<lparr>sv_main := None\<rparr>)"
  by (simp add: svc_wf_def timer_on_def)

lemma wf_drop_control: "svc_wf C s \<Longrightarrow> svc_wf C (s\<lparr>sv_control := None\<rparr>)"
  by (simp add: svc_wf_def timer_on_def)

lemma sigchld_main_ok:
  assumes V: "env_ok V" "spawn_ok V" and wf: "svc_wf C s" and m: "sv_main s \<noteq> None"
  shows "settles C (sigchld_main V C ws res s)"
proof -
  have st: "sv_state s \<in> set main_states" using wf m by (simp add: svc_wf_def)
  obtain r s1 where l: "load_pid_file V C s = (r, s1)" by (cases "load_pid_file V C s")
  have w1: "svc_wf C s1" using load_pid_file_wf [OF wf l] st by blast
  have st1: "sv_state s1 \<in> set main_states" using load_pid_file_spec [OF svc_wf_core [OF wf] l] st by simp
  define s2 where "s2 = (reset_main s1)\<lparr>sv_exec_status := ws\<rparr>"
  define ig where "ig = has_exec_flag EXEC_COMMAND_IGNORE_FAILURE (sv_current_main_command s2)"
  define res' where "res' = (if ig then Success else res)"
  define s3 where "s3 = set_result_once res' (if ig then s2\<lparr>sv_result := Success\<rparr> else s2)"
  have w3: "svc_wf C s3" "sv_state s3 \<in> set main_states"
    using wf_drop_main [OF w1] st1 by (auto simp: s3_def s2_def reset_main_def set_result_once_def)
  have "svc_wf C (s3\<lparr>sv_main_command := []\<rparr>)" "sv_state (s3\<lparr>sv_main_command := []\<rparr>) \<in> set main_states" using w3 by simp_all
  note e = main_exited_ok [OF V this, of res'] run_next_main_ok [OF V(1) w3]
  have "sigchld_main V C ws res s = (case r of Inr True \<Rightarrow> Some s1 | _ \<Rightarrow>
      (if sv_main_command s3 \<noteq> [] \<and> res' = Success \<and> Type C = Oneshot then run_next_main V C s3
       else main_exited V C res' (s3\<lparr>sv_main_command := []\<rparr>)))"
    unfolding sigchld_main_def l prod.case Let_def s3_def res'_def ig_def s2_def by (simp split: sum.splits bool.splits)
  then show ?thesis using e w1 by (auto simp: settles_def split: sum.splits bool.splits)
qed

lemma sigchld_control_ok:
  assumes V: "env_ok V" "spawn_ok V" and t: "type_ok C" and wf: "svc_wf C s" and m: "sv_control s \<noteq> None"
  shows "settles C (sigchld_control V C res s)"
proof -
  have st: "sv_state s \<in> set control_states" using wf m by (simp add: svc_wf_def)
  have w1: "svc_wf C (reset_control s)" "sv_state (reset_control s) \<in> set control_states"
    using wf_drop_control [OF wf] st by (simp_all add: reset_control_def)
  let ?s = "(reset_control s)\<lparr>sv_control_command := [], sv_control_cmd_type := None\<rparr>"
  have "svc_wf C ?s" "sv_state ?s \<in> set control_states" using w1 by simp_all
  note e = control_exited_ok [OF V t this, of res] run_next_control_ok [OF V(1) w1]
  then show ?thesis by (simp add: sigchld_control_def Let_def)
qed

lemma sigchld_event_ok:
  assumes V: "env_ok V" "spawn_ok V" and t: "type_ok C" and wf: "svc_wf C s"
    and ws: "(\<exists>p n. ws = Exited p n) \<or> (\<exists>p sg b. ws = Signaled p sg b)"
  shows "settles C (sigchld_event V C ws s)"
proof -
  obtain p res where p: "wait_status_pid ws = Some p" "sigchld_result C ws s = Some res"
    using ws by (auto simp: sigchld_result_def Let_def)
  have "settles C (do_sigchld_event V C ws s)"
    using p sigchld_main_ok [OF V wf, of ws res] sigchld_control_ok [OF V t wf, of res] wf
    by (auto simp: do_sigchld_event_def settles_def)
  then show ?thesis by (auto simp: sigchld_event_def intro: settles_map)
qed

section \<open>Notifications, timers, watches\<close>

lemma settlesE: "settles C r \<Longrightarrow> (\<And>s'. r = Some s' \<Longrightarrow> svc_wf C s' \<Longrightarrow> P) \<Longrightarrow> P"
  by (auto simp: settles_def)

lemma notify_entry_ok:
  assumes V: "env_ok V" "spawn_ok V" and wf: "svc_wf C s"
  shows "settles C (notify_entry V C kv s)"
proof -
  obtain key v where kv: "kv = (key, v)" by (cases kv)
  let ?r1 = "if key = ''READY'' \<and> v = ''1''
            then (let s' = s\<lparr>sv_notify_state := NsReady\<rparr> in
                  if Type C = Notify \<and> sv_state s' = SvStart then enter_start_post V C s' else Some s')
            else Some s"
  have c: "svc_core C (s\<lparr>sv_notify_state := n\<rparr>)" for n using svc_wf_core [OF wf] by simp
  have "settles C ?r1" using enter_start_post_ok [OF V c] wf by (simp add: Let_def settles_def)
  then obtain s1 where s1: "?r1 = Some s1" "svc_wf C s1" by (rule settlesE)
  let ?r2 = "if key = ''STOPPING'' \<and> v = ''1''
            then (let s' = s1\<lparr>sv_notify_state := NsStopping\<rparr> in
                  if sv_state s' = SvRunning then enter_stop_by_notify V C s' else Some s')
            else Some s1"
  have c1: "svc_core C (s1\<lparr>sv_notify_state := n\<rparr>)" for n using svc_wf_core [OF s1(2)] by simp
  have "settles C ?r2" using enter_stop_by_notify_ok [OF V(1) c1] s1(2) by (simp add: Let_def settles_def)
  then obtain s2 where s2: "?r2 = Some s2" "svc_wf C s2" by (rule settlesE)
  let ?s3 = "if key = ''ERRNO'' then (case parse_i32 v of Some n \<Rightarrow> s2\<lparr>sv_errno := n\<rparr> | None \<Rightarrow> s2) else s2"
  have w3: "svc_wf C ?s3" using s2(2) by (simp split: option.splits)
  have c3: "svc_core C ?s3" by (rule svc_wf_core [OF w3])
  let ?r4 = "if key = ''WATCHDOG''
            then (if v = ''1'' then restart_watchdog V C ?s3
                  else if v = ''trigger'' then enter_signal V C SvStopWatchdog FailureWatchdog ?s3
                  else do { rust_assert (sv_owner ?s3); Some ?s3 })
            else Some ?s3"
  have o3: "sv_owner ?s3" using c3 by (simp only: svc_core_def)
  obtain s3' where "restart_watchdog V C ?s3 = Some s3'" "quiet C ?s3 s3'" using restart_watchdog_ok [OF V(1) c3] by blast
  then have "settles C (restart_watchdog V C ?s3)" using quiet_wf [OF w3] by (auto simp: settles_def)
  moreover have "settles C (Some ?s3)" using w3 by (simp only: settles_def option.inject ex_simps) blast
  ultimately have "settles C ?r4" using signal_ok [OF V(1) _ c3, of SvStopWatchdog FailureWatchdog] o3
    by (simp only: bind_rust_assert if_True dead_states_simps not_False_eq_True split: if_split) blast
  then obtain s4 where s4: "?r4 = Some s4" "svc_wf C s4" by (rule settlesE)
  have "svc_core C (s4\<lparr>sv_monitor := m\<rparr>)" "svc_wf C (s4\<lparr>sv_monitor := m\<rparr>)" for m
    using svc_wf_core [OF s4(2)] s4(2) by simp_all
  then have rw: "settles C (restart_watchdog V C (s4\<lparr>sv_monitor := m\<rparr>))" for m
    using restart_watchdog_ok [OF V(1), of C "s4\<lparr>sv_monitor := m\<rparr>"] quiet_wf unfolding settles_def by blast
  have "notify_entry V C kv s = (if key = ''WATCHDOG_USEC''
      then (case parse_u64 v of
              Some n \<Rightarrow> restart_watchdog V C (s4\<lparr>sv_monitor := mon_override_watchdog_usec n (sv_monitor s4)\<rparr>)
            | None \<Rightarrow> Some s4)
      else Some s4)"
    unfolding notify_entry_def kv Let_def prod.case s1(1) [unfolded Let_def] Option.bind.bind_lunit
      s2(1) [unfolded Let_def] s4(1) by (rule refl)
  then show ?thesis using rw s4(2) by (simp add: settles_def split: option.splits)
qed

lemma notify_mainpid_wf:
  assumes wf: "svc_wf C s" and n: "notify_mainpid V u ms s = (r, s1)" shows "svc_wf C s1"
proof (cases "s1 = s")
  case False
  then obtain p where p: "sv_state s \<in> {SvStart, SvStartPost, SvRunning}"
    "s1 = sv_do (so_child_watch_pid V p) (snd (set_main V p s))"
    using n by (auto simp: notify_mainpid_def split: option.splits if_splits sum.splits)
  have "sv_state s \<in> set main_states" using p(1) by (auto simp: main_states_def)
  then show ?thesis using wf p(2) by (simp add: svc_wf_def timer_on_simps)
qed (use wf in simp)

lemma notify_message_ok:
  assumes V: "env_ok V" "spawn_ok V" and wf: "svc_wf C s"
  shows "\<exists>r s'. notify_message V C u ms s = Some (r, s') \<and> svc_wf C s'"
proof -
  obtain r s1 where n: "notify_mainpid V u ms s = (r, s1)" by (cases "notify_mainpid V u ms s")
  have w1: "svc_wf C s1" by (rule notify_mainpid_wf [OF wf n])
  obtain s2 where f: "fold_opt (notify_entry V C) ms s1 = Some s2" "svc_wf C s2"
    using fold_opt_total [of "svc_wf C" s1 ms "notify_entry V C", OF w1] notify_entry_ok [OF V] unfolding settles_def by blast
  show ?thesis
  proof (cases r)
    case (Inl e)
    then show ?thesis using n w1 by (simp add: notify_message_def do_notify_message_def)
  next
    case (Inr x)
    then show ?thesis using n f by (simp add: notify_message_def do_notify_message_def)
  qed
qed

lemma timer_dispatch_ok:
  assumes V: "env_ok V" and wf: "svc_wf C s" and t: "sv_state s \<in> set timer_states"
  shows "settles C (timer_dispatch V C False s)"
proof -
  have c: "svc_core C s" by (rule svc_wf_core [OF wf])
  have c': "svc_core C ((kill_control_process V s)\<lparr>sv_reload_result := FailureTimeout\<rparr>)"
    using c by (simp add: kill_control_process_def split: option.splits)
  have "sv_state s \<in> set timer_states - set dead_states" using t wf by (simp add: svc_wf_def)
  then consider "sv_state s = SvCondition" | "sv_state s = SvStartPre" | "sv_state s = SvStart" | "sv_state s = SvStartPost"
    | "sv_state s = SvRunning" | "sv_state s = SvReload" | "sv_state s = SvStop" | "sv_state s = SvStopWatchdog"
    | "sv_state s = SvStopSigterm" | "sv_state s = SvStopPost" | "sv_state s = SvFinalSigterm" | "sv_state s = SvFinalSigkill"
    | "sv_state s = SvAutoRestart"
    by (auto simp: timer_states_def dead_states_def)
  then show ?thesis
    by cases (simp_all add: timer_dispatch_def signal_ok [OF V _ c] enter_stop_ok [OF V c] enter_running_ok [OF V c']
      stop_post_ok [OF V c] enter_dead_ok [OF V c] enter_restart_ok [OF V wf])
qed

lemma inotify_dispatch_ok:
  assumes V: "env_ok V" and wf: "svc_wf C s" and i: "sv_inotify s \<noteq> None" and f: "PIDFile C \<noteq> None"
  shows "settles C (inotify_dispatch V C s)"
proof -
  obtain ok w where a: "sv_ask (so_read_fd_event V) s = (ok, s\<lparr>sv_env := w\<rparr>)" by (rule sv_askE)
  have w1: "svc_wf C (s\<lparr>sv_env := w\<rparr>)" "sv_inotify (s\<lparr>sv_env := w\<rparr>) \<noteq> None" using wf i by simp_all
  obtain r1 s2 where r1: "retry_pid_file V C (s\<lparr>sv_env := w\<rparr>) = Some (r1, s2)" "svc_wf C s2" "isl r1 \<longrightarrow> sv_inotify s2 \<noteq> None"
    using retry_pid_file_ok [OF V w1] by blast
  show ?thesis
  proof (cases "ok \<and> isl r1")
    case False
    then have "inotify_dispatch V C s = Some (svc_db_update V (if ok then s2 else s\<lparr>sv_env := w\<rparr>))"
      unfolding inotify_dispatch_def Let_def a prod.case using r1(1) by (cases r1) auto
    then show ?thesis using r1(2) w1(1) by (simp add: settles_def)
  next
    case True
    then obtain e where e: "r1 = Inl e" by (auto simp: isl_def)
    obtain r2 s3 where r2: "watch_pid_file V C s2 = Some (r2, s3)" "svc_wf C s3" "isl r2 \<longrightarrow> sv_inotify s3 \<noteq> None"
      using watch_pid_file_ok [OF V r1(2) _ f] r1(3) True by blast
    show ?thesis
    proof (cases r2)
      case (Inl e2)
      obtain s4 where s4: "unwatch_pid_file V s3 = Some s4" "svc_core C s4"
        using unwatch_pid_file_ok [OF V svc_wf_core [OF r2(2)]] r2(3) Inl by (auto simp: quiet_def)
      have "settles C (enter_signal V C SvStopSigterm FailureResources s4)" using signal_ok [OF V _ s4(2)] by simp
      then obtain s5 where "enter_signal V C SvStopSigterm FailureResources s4 = Some s5" "svc_wf C s5" by (rule settlesE)
      then show ?thesis unfolding inotify_dispatch_def Let_def a prod.case
        using True r1(1) e r2(1) Inl s4(1) by (simp add: settles_def)
    next
      case (Inr x)
      then show ?thesis unfolding inotify_dispatch_def Let_def a prod.case
        using True r1(1) e r2 by (simp add: settles_def)
    qed
  qed
qed

section \<open>Requests\<close>

lemma svc_start_ok:
  assumes V: "env_ok V" "spawn_ok V" and t: "type_ok C" and wf: "svc_wf C s"
  shows "\<exists>r s'. svc_start V C s = Some (r, s') \<and> svc_wf C s'"
proof -
  have c: "svc_core C s" by (rule svc_wf_core [OF wf])
  have sa: "settles C (start_action V C s')" if "svc_core C s'" for s'
  proof -
    let ?s = "(if sv_reset_restarts s' then s'\<lparr>sv_restarts := 0, sv_reset_restarts := False\<rparr> else s')\<lparr>sv_result := Success, sv_forbid_restart := False\<rparr>"
    have "svc_core C ?s" using that by simp
    from enter_contion_ok [OF V t this] obtain s2 where "enter_contion V C ?s = Some s2" "svc_wf C s2" by (rule settlesE)
    then show ?thesis by (simp add: start_action_def Let_def settles_def)
  qed
  have "\<exists>r s1. start_check V C s = Some (r, s1) \<and> svc_wf C s1"
  proof -
    obtain ok w where a: "sv_ask (so_test_start_limit V) s = (ok, s\<lparr>sv_env := w\<rparr>)" by (rule sv_askE)
    have c1: "svc_core C (s\<lparr>sv_env := w\<rparr>)" using c by simp
    from enter_dead_ok [OF V(1) c1, of FailureStartLimitHit False] obtain s2 where
      s2: "enter_dead V C FailureStartLimitHit False (s\<lparr>sv_env := w\<rparr>) = Some s2" "svc_wf C s2" by (rule settlesE)
    have "sv_owner s" using c by (simp add: svc_core_def)
    then show ?thesis using a s2 wf by (simp add: start_check_def Let_def)
  qed
  then obtain r s1 where k: "start_check V C s = Some (r, s1)" "svc_wf C s1" by blast
  obtain s2 where s2: "start_action V C s1 = Some s2" "svc_wf C s2" using sa [OF svc_wf_core [OF k(2)]] by (rule settlesE)
  show ?thesis
  proof (cases r)
    case (Inl e)
    then show ?thesis using k by (simp add: svc_start_def)
  next
    case (Inr b)
    then show ?thesis using k s2 by (simp add: svc_start_def)
  qed
qed

lemma stop_action_ok:
  assumes V: "env_ok V" and wf: "svc_wf C s"
  shows "settles C (stop_action V C s)"
proof -
  let ?s = "s\<lparr>sv_forbid_restart := True\<rparr>"
  have c: "svc_core C ?s" and w: "svc_wf C ?s" using wf svc_wf_core [OF wf] by simp_all
  have m: "settles C (map_option (svc_db_update V) r)" if "settles C r" for r
    using that by (auto intro: settles_map)
  have "settles C (Some ?s)" using w by (simp add: settles_def)
  then show ?thesis unfolding stop_action_def Let_def
    using settles_set_state [OF V c, of SvDead] m [OF signal_ok [OF V _ c, of SvStopSigterm]] signal_ok [OF V _ c, of SvFinalSigkill]
      m [OF enter_stop_ok [OF V c]] by (simp only: dead_states_simps not_False_eq_True split: if_split) blast
qed

end
