(* ===== verification/Service_Steps.thy ===== *)
theory Service_Steps
  imports Service_Inv
begin

text \<open>
  A service as a state machine: the events that reach it, the states it can reach, and what the properties
  of the single phases give for every run. The last section holds runs on concrete services.
\<close>

section \<open>Events\<close>

datatype svc_event =
  ReqStart | ReqStop | ReqReload | Sigchld wait_status | NotifyMsg pid "(string \<times> string) list"
  | TimerFired | WatchdogFired | InotifyFired

text \<open>
  The event loop switches a one-shot source off before it calls the source; if that fails nothing is called.
\<close>

definition fire :: "'w svc_ops \<Rightarrow> sv_source \<Rightarrow> ('w svc \<Rightarrow> 'w svc option) \<Rightarrow> 'w svc \<Rightarrow> 'w svc option" where
  "fire V src cb s = (let (ok, s1) = ev_call V (OpEnable src EvOff) s in if ok then cb s1 else Some s1)"

definition svc_handle :: "'w svc_ops \<Rightarrow> service_conf \<Rightarrow> svc_event \<Rightarrow> 'w svc \<Rightarrow> 'w svc option" where
  "svc_handle V C ev s =
     (case ev of
        ReqStart \<Rightarrow> map_option snd (svc_start V C s)
      | ReqStop \<Rightarrow> stop_action V C s
      | ReqReload \<Rightarrow> reload_action V C s
      | Sigchld ws \<Rightarrow> sigchld_event V C ws s
      | NotifyMsg u ms \<Rightarrow> map_option snd (notify_message V C u ms s)
      | TimerFired \<Rightarrow> fire V SrcTimer (timer_dispatch V C False) s
      | WatchdogFired \<Rightarrow> fire V SrcWatchdog (watchdog_dispatch V C) s
      | InotifyFired \<Rightarrow> inotify_dispatch V C s)"

text \<open>
  When an event can occur: only terminated processes are reported, a timer fires when it is switched on, and
  the pid file is watched only after it has been asked for.
\<close>

fun svc_enabled :: "service_conf \<Rightarrow> 'w svc \<Rightarrow> svc_event \<Rightarrow> bool" where
  "svc_enabled C s (Sigchld (Exited _ _)) = True"
| "svc_enabled C s (Sigchld (Signaled _ _ _)) = True"
| "svc_enabled C s (Sigchld _) = False"
| "svc_enabled C s TimerFired = (sv_events s SrcTimer = Some EvOneShot)"
| "svc_enabled C s WatchdogFired = (sv_events s SrcWatchdog = Some EvOneShot)"
| "svc_enabled C s InotifyFired = (sv_inotify s \<noteq> None \<and> PIDFile C \<noteq> None)"
| "svc_enabled C s _ = True"

inductive svc_steps :: "'w svc_ops \<Rightarrow> service_conf \<Rightarrow> 'w svc \<Rightarrow> 'w svc \<Rightarrow> bool" for V C where
  steps_refl: "svc_steps V C s s"
| steps_step: "svc_steps V C s t \<Longrightarrow> svc_enabled C t ev \<Longrightarrow> svc_handle V C ev t = Some t' \<Longrightarrow> svc_steps V C s t'"

lemma fire_ok:
  assumes V: "env_ok V" and wf: "svc_wf C s" and cb: "\<And>s'. svc_wf C s' \<Longrightarrow> sv_state s' = sv_state s \<Longrightarrow> settles C (cb s')"
  shows "settles C (fire V src cb s)"
proof -
  obtain w where e: "ev_call V (OpEnable src EvOff) s = (True, s\<lparr>sv_env := w, sv_events := sv_event_apply (OpEnable src EvOff) (sv_events s)\<rparr>)"
    by (rule ev_call_ok [OF V])
  let ?s = "s\<lparr>sv_env := w, sv_events := sv_event_apply (OpEnable src EvOff) (sv_events s)\<rparr>"
  have "timer_on ?s \<longrightarrow> timer_on s" by (cases "src = SrcTimer") (auto simp: timer_on_def)
  then have "svc_wf C ?s" using wf by (auto simp: svc_wf_def svc_core_def)
  from cb [OF this] show ?thesis using e by (simp add: fire_def)
qed

lemma svc_handle_ok:
  assumes V: "env_ok V" "spawn_ok V" and t: "type_ok C" and wf: "svc_wf C s" and en: "svc_enabled C s ev"
  shows "settles C (svc_handle V C ev s)"
proof (cases ev)
  case ReqStart
  then show ?thesis using svc_start_ok [OF V t wf] by (auto simp: svc_handle_def settles_def)
next
  case ReqStop
  then show ?thesis using stop_action_ok [OF V(1) wf] by (simp add: svc_handle_def)
next
  case ReqReload
  then show ?thesis using settles_map [OF enter_reload_ok [OF V(1) svc_wf_core [OF wf]], of "svc_db_update V"]
    by (simp add: svc_handle_def reload_action_def)
next
  case (Sigchld ws)
  then have "(\<exists>p n. ws = Exited p n) \<or> (\<exists>p sg b. ws = Signaled p sg b)" using en by (cases ws) simp_all
  then show ?thesis using Sigchld sigchld_event_ok [OF V t wf] by (simp add: svc_handle_def)
next
  case (NotifyMsg u ms)
  then show ?thesis using notify_message_ok [OF V wf, of u ms] by (auto simp: svc_handle_def settles_def)
next
  case TimerFired
  then have "timer_on s" using en by (simp add: timer_on_def)
  then have "sv_state s \<in> set timer_states" using wf by (simp add: svc_wf_def)
  then show ?thesis using TimerFired fire_ok [OF V(1) wf, of "timer_dispatch V C False"] timer_dispatch_ok [OF V(1)]
    by (simp add: svc_handle_def)
next
  case WatchdogFired
  have "settles C (watchdog_dispatch V C s')" if "svc_wf C s'" for s'
    using signal_ok [OF V(1) _ svc_wf_core [OF that]] by (simp add: watchdog_dispatch_def)
  then show ?thesis using WatchdogFired fire_ok [OF V(1) wf, of "watchdog_dispatch V C"] by (simp add: svc_handle_def)
next
  case InotifyFired
  then show ?thesis using inotify_dispatch_ok [OF V(1) wf] en by (simp add: svc_handle_def)
qed

lemma svc_steps_wf:
  assumes V: "env_ok V" "spawn_ok V" and t: "type_ok C"
  shows "svc_steps V C s t \<Longrightarrow> svc_wf C s \<Longrightarrow> svc_wf C t"
proof (induction rule: svc_steps.induct)
  case (steps_step s t ev t')
  then show ?case using svc_handle_ok [OF V t, of t ev] by (auto simp: settles_def)
qed


section \<open>Restart policy\<close>

lemma enter_dead_state:
  assumes V: "env_ok V" and c: "svc_core C s"
  shows "\<exists>s'. enter_dead V C res force s = Some s' \<and> svc_wf C s' \<and>
    sv_state s' = (if force \<and> \<not> so_has_stop_job V (sv_env s) \<and> shall_restart C (set_result_once res s) then SvAutoRestart
                   else if sv_result s = Success \<and> res = Success then SvDead else SvFailed)"
proof -
  let ?d = "dead_restarts V C res force s"
  have d: "?d = (force \<and> \<not> so_has_stop_job V (sv_env s) \<and> shall_restart C (set_result_once res s))"
    by (simp add: dead_restarts_def)
  have o: "sv_owner s" using c by (simp add: svc_core_def)
  have r: "sv_result (set_result_once res s) = Success \<longleftrightarrow> sv_result s = Success \<and> res = Success"
    by (simp add: set_result_once_def)
  let ?st = "if sv_result (set_result_once res s) = Success then SvDead else SvFailed"
  have st: "?st \<notin> set dead_states" by simp
  have cl: "\<exists>s'. dead_cleanup V C t = Some s' \<and> sv_state s' = sv_state t \<and> svc_wf C s'" if "svc_wf C t" for t
    using dead_cleanup_ok [OF that, of V] by (auto simp: settles_def dead_cleanup_def Let_def split: option.splits if_splits bind_splits)
  show ?thesis
  proof (cases ?d)
    case False
    obtain s1 where s1: "set_state V C ?st (set_result_once res s) = Some s1" "svc_wf C s1" "sv_state s1 = ?st"
      using set_state_ok [OF V _ st, of C "set_result_once res s"] c by auto
    obtain s2 where s2: "dead_cleanup V C (s1\<lparr>sv_reset_restarts := True\<rparr>) = Some s2" "sv_state s2 = ?st" "svc_wf C s2"
      using cl [of "s1\<lparr>sv_reset_restarts := True\<rparr>"] s1(2,3) by auto
    have "enter_dead V C res force s = Some s2"
      unfolding enter_dead.simps [of V C res force s] using o False s1(1) s2(1) by simp
    then show ?thesis using s2(2,3) False [unfolded d] unfolding r by (intro exI [of _ s2]) auto
  next
    case True
    obtain s1 where s1: "set_state V C ?st ((set_result_once res s)\<lparr>sv_will_auto_restart := True\<rparr>) = Some s1" "svc_wf C s1"
      using set_state_ok [OF V _ st, of C "(set_result_once res s)\<lparr>sv_will_auto_restart := True\<rparr>"] c by auto
    obtain s2 where s2: "enable_timer V (RestartSec C) (s1\<lparr>sv_will_auto_restart := False\<rparr>) = (True, s2)" "svc_core C s2"
      using enable_timer_core [OF V, of C "s1\<lparr>sv_will_auto_restart := False\<rparr>"] svc_wf_core [OF s1(2)] by auto
    obtain s3 where s3: "set_state V C SvAutoRestart s2 = Some s3" "svc_wf C s3" "sv_state s3 = SvAutoRestart"
      using set_state_ok [OF V s2(2), of SvAutoRestart] by auto
    obtain s4 where s4: "dead_cleanup V C s3 = Some s4" "sv_state s4 = SvAutoRestart" "svc_wf C s4"
      using cl [OF s3(2)] s3(3) by auto
    have "enter_dead V C res force s = Some s4"
      unfolding enter_dead.simps [of V C res force s] using o True s1(1) s2(1) s3(1) s4(1) by simp
    then show ?thesis using s4(2,3) True [unfolded d] by simp
  qed
qed

text \<open>
  (C16) How a service ends. \<open>enter_dead\<close> always returns; the service is then waiting for its automatic restart
  exactly if a restart was asked for, no stop job is pending and the policy allows it for the result, and
  otherwise dead or failed depending on the result. The first failure decides the result. After a requested
  stop (\<open>sv_forbid_restart\<close>) there is no restart whatever the policy.
\<close>

theorem enter_dead_outcome:
  assumes V: "env_ok V" and c: "svc_core C s"
  shows "\<exists>s'. enter_dead V C res force s = Some s' \<and> svc_wf C s' \<and>
    sv_state s' = (if force \<and> \<not> so_has_stop_job V (sv_env s) \<and> shall_restart C (set_result_once res s) then SvAutoRestart
                   else if sv_result s = Success \<and> res = Success then SvDead else SvFailed) \<and>
    (sv_forbid_restart s \<longrightarrow> sv_state s' \<noteq> SvAutoRestart)"
proof -
  have "\<not> shall_restart C (set_result_once res s)" if "sv_forbid_restart s"
    using that by (simp add: shall_restart_def set_result_once_def)
  then show ?thesis using enter_dead_state [OF assms, of res force] by auto
qed

section \<open>Stopping by timeouts\<close>

definition stop_rank :: "service_state \<Rightarrow> nat" where
  "stop_rank st =
     (case st of
        SvDead \<Rightarrow> 0 | SvFailed \<Rightarrow> 0 | SvAutoRestart \<Rightarrow> 0
      | SvFinalSigkill \<Rightarrow> 1 | SvFinalSigterm \<Rightarrow> 2 | SvFinalWatchdog \<Rightarrow> 2 | SvStopPost \<Rightarrow> 3
      | SvStopSigterm \<Rightarrow> 4 | SvStopSigkill \<Rightarrow> 4 | SvStopWatchdog \<Rightarrow> 4 | SvStop \<Rightarrow> 5
      | _ \<Rightarrow> 6)"

text \<open>The phase settles in a state of at most that rank; unless the service has ended, its timer runs.\<close>

definition lands :: "service_conf \<Rightarrow> nat \<Rightarrow> 'w svc option \<Rightarrow> bool" where
  "lands C n r \<longleftrightarrow> (\<exists>s'. r = Some s' \<and> svc_wf C s' \<and> stop_rank (sv_state s') \<le> n \<and>
     (TimeoutStopSec C \<noteq> u64_MAX \<longrightarrow> stop_rank (sv_state s') > 0 \<longrightarrow> timer_on s'))"

lemma lands_mono: "lands C m r \<Longrightarrow> m \<le> n \<Longrightarrow> lands C n r"
  by (auto simp: lands_def intro: order_trans)

lemma enter_dead_lands:
  assumes "env_ok V" and "svc_core C s" shows "lands C 0 (enter_dead V C res force s)"
proof -
  obtain s' where "enter_dead V C res force s = Some s'" "svc_wf C s'" "sv_state s' \<in> {SvDead, SvFailed, SvAutoRestart}"
    using enter_dead_state [OF assms, of res force] by auto
  then show ?thesis by (auto simp: lands_def stop_rank_def)
qed

lemma set_state_lands:
  assumes V: "env_ok V" and c: "svc_core C s" and st: "st \<notin> set dead_states" "st \<in> set timer_states"
    and t: "TimeoutStopSec C \<noteq> u64_MAX \<longrightarrow> timer_on s"
  shows "lands C (stop_rank st) (set_state V C st s)"
  using set_state_ok [OF V c st(1)] st(2) t by (auto simp: lands_def)

lemma signal_stop_post_lands:
  fixes V :: "'w svc_ops"
  shows "env_ok V \<Longrightarrow> st \<in> {SvStopSigterm, SvStopWatchdog, SvFinalSigterm, SvFinalSigkill} \<Longrightarrow> svc_core C s \<Longrightarrow>
      lands C (stop_rank st) (enter_signal V C st res s)"
    and "env_ok V \<Longrightarrow> svc_core C s \<Longrightarrow> lands C 3 (enter_stop_post V C res s)"
proof (induction V C st res s and V C res s rule: enter_signal_enter_stop_post.induct)
  case (1 V C st res s)
  have o: "sv_owner s" using 1(7) by (simp add: svc_core_def)
  let ?s0 = "sv_do (so_child_watch_all_pids V) (set_result_once res s)"
  have c0: "svc_core C ?s0" using 1(7) by simp
  let ?ask = "sv_ask (so_kill_context V (sv_main s) (sv_control s) (to_kill_operation st) (sv_main_alien s)) ?s0"
  obtain ret w where a: "?ask = (ret, ?s0\<lparr>sv_env := w\<rparr>)" by (rule sv_askE)
  let ?s1 = "?s0\<lparr>sv_env := w\<rparr>"
  have c1: "svc_core C ?s1" using c0 by simp
  note e = enter_signal.simps [of V C st res s]
  have dead: "lands C (stop_rank st) (enter_dead V C r b ?s1)" for r b
    by (rule lands_mono [OF enter_dead_lands [OF 1(5) c1]]) simp
  have post: "lands C 3 r \<Longrightarrow> st \<in> set stop_signal_states \<Longrightarrow> lands C (stop_rank st) r" for r :: "'w svc option"
    by (erule lands_mono) (use 1(6) in \<open>auto simp: stop_rank_def stop_signal_states_def\<close>)
  have kill: "lands C (stop_rank SvFinalSigkill) r \<Longrightarrow> lands C (stop_rank st) r" for r :: "'w svc option"
    by (erule lands_mono) (use 1(6) in \<open>auto simp: stop_rank_def\<close>)
  show ?case
  proof (cases "ret = None")
    case True
    then show ?thesis
      using 1(1) [OF _ a [symmetric] True] 1(5) c1 o dead post a unfolding e by simp
  next
    case False
    then obtain b where b: "ret = Some b" by blast
    show ?thesis
    proof (cases b)
      case True
      obtain s2 where s2: "enable_timer V (TimeoutStopSec C) ?s1 = (True, s2)" "svc_core C s2"
        "TimeoutStopSec C \<noteq> u64_MAX \<longrightarrow> timer_on s2"
        using enable_timer_core [OF 1(5) c1] by blast
      have "enter_signal V C st res s = set_state V C st s2" unfolding e using o a b True s2(1) by simp
      moreover have "st \<notin> set dead_states" "st \<in> set timer_states"
        using 1(6) by (auto simp: dead_states_def timer_states_def)
      ultimately show ?thesis using set_state_lands [OF 1(5) s2(2) _ _ s2(3)] by simp
    next
      case False
      show ?thesis
        using 1(3) [OF _ a [symmetric] b] 1(4) [OF _ a [symmetric] b] 1(5) c1 o dead post kill a b False unfolding e by simp
    qed
  qed
next
  case (2 V C res s)
  have "svc_core C (set_result_once res s)" using 2(4) by simp
  from spawn_control_spec [OF 2(3) this, of CmdStopPost 0] obtain out s1 where
    s1: "spawn_control V C CmdStopPost 0 (set_result_once res s) = Some (out, s1)" "svc_core C s1"
      "out = SpawnOk \<longrightarrow> timer_on s1" by (auto simp: u64_MAX_def)
  have "lands C (stop_rank SvFinalSigterm) r \<Longrightarrow> lands C 3 r" for r :: "'w svc option"
    by (erule lands_mono) (simp add: stop_rank_def)
  moreover have "out = SpawnOk \<Longrightarrow> lands C (stop_rank SvStopPost) (set_state V C SvStopPost s1)"
    by (rule set_state_lands [OF 2(3) s1(2)]) (use s1(3) in \<open>simp_all add: timer_states_def\<close>)
  moreover have "stop_rank SvStopPost = 3" by (simp add: stop_rank_def)
  ultimately show ?case
    using s1 2(1) [OF s1(1) refl] 2(2) [OF s1(1) refl] 2(3)
    by (cases out) (simp_all add: enter_stop_post.simps)
qed

lemmas signal_lands = signal_stop_post_lands(1) and stop_post_lands = signal_stop_post_lands(2)

definition ending_states :: "service_state list" where
  "ending_states = [SvCondition, SvStartPre, SvStart, SvStartPost, SvStop, SvStopWatchdog, SvStopSigterm, SvStopPost,
     SvFinalSigterm, SvFinalSigkill]"

lemma timer_dispatch_lands:
  assumes V: "env_ok V" and wf: "svc_wf C s" and st: "sv_state s \<in> set ending_states"
  shows "lands C (stop_rank (sv_state s) - 1) (timer_dispatch V C False s)"
proof -
  have c: "svc_core C s" by (rule svc_wf_core [OF wf])
  have sg: "lands C n (enter_signal V C x res s)" if "x \<in> {SvStopSigterm, SvFinalSigterm}" "stop_rank x \<le> n" for x n res
    using lands_mono [OF signal_lands [OF V _ c] that(2)] that(1) by blast
  have po: "lands C n (enter_stop_post V C res s)" if "3 \<le> n" for n res
    using lands_mono [OF stop_post_lands [OF V c] that] .
  have de: "lands C n (enter_dead V C res b s)" for n res b
    using lands_mono [OF enter_dead_lands [OF V c]] by blast
  from st consider "sv_state s = SvCondition" | "sv_state s = SvStartPre" | "sv_state s = SvStart" | "sv_state s = SvStartPost"
    | "sv_state s = SvStop" | "sv_state s = SvStopWatchdog" | "sv_state s = SvStopSigterm" | "sv_state s = SvStopPost"
    | "sv_state s = SvFinalSigterm" | "sv_state s = SvFinalSigkill"
    by (auto simp: ending_states_def)
  then show ?thesis
    by cases (simp_all add: timer_dispatch_def sg po de stop_rank_def)
qed

text \<open>Expiries of the timer one after the other, each switching the timer off first.\<close>

fun timeouts :: "'w svc_ops \<Rightarrow> service_conf \<Rightarrow> nat \<Rightarrow> 'w svc \<Rightarrow> 'w svc option" where
  "timeouts V C 0 s = Some s"
| "timeouts V C (Suc n) s =
     (if stop_rank (sv_state s) = 0 then Some s
      else Option.bind (fire V SrcTimer (timer_dispatch V C False) s) (timeouts V C n))"

lemma fire_timer_lands:
  assumes V: "env_ok V" and wf: "svc_wf C s" and st: "sv_state s \<in> set ending_states"
  shows "lands C (stop_rank (sv_state s) - 1) (fire V SrcTimer (timer_dispatch V C False) s)"
proof -
  obtain w where e: "ev_call V (OpEnable SrcTimer EvOff) s =
      (True, s\<lparr>sv_env := w, sv_events := sv_event_apply (OpEnable SrcTimer EvOff) (sv_events s)\<rparr>)"
    by (rule ev_call_ok [OF V])
  let ?s = "s\<lparr>sv_env := w, sv_events := sv_event_apply (OpEnable SrcTimer EvOff) (sv_events s)\<rparr>"
  have "svc_wf C ?s" using wf by (auto simp: svc_wf_def svc_core_def timer_on_def)
  from timer_dispatch_lands [OF V this] st show ?thesis using e by (simp add: fire_def)
qed

lemma rank_below_six: "stop_rank st < 6 \<Longrightarrow> stop_rank st > 0 \<Longrightarrow> st \<notin> set dead_states \<Longrightarrow> st \<in> set ending_states"
  by (cases st) (simp_all add: stop_rank_def ending_states_def dead_states_def)

lemma timeouts_end:
  "env_ok V \<Longrightarrow> svc_wf C s \<Longrightarrow> stop_rank (sv_state s) \<le> n \<Longrightarrow> sv_state s \<in> set ending_states \<or> stop_rank (sv_state s) = 0 \<Longrightarrow>
   \<exists>s'. timeouts V C n s = Some s' \<and> stop_rank (sv_state s') = 0 \<and> svc_wf C s'"
proof (induction n arbitrary: s)
  case 0
  then show ?case by simp
next
  case (Suc n)
  show ?case
  proof (cases "stop_rank (sv_state s) = 0")
    case True
    then show ?thesis using Suc.prems(2) by simp
  next
    case False
    then have en: "sv_state s \<in> set ending_states" using Suc.prems(4) by simp
    from fire_timer_lands [OF Suc.prems(1,2) en] obtain s1 where
      s1: "fire V SrcTimer (timer_dispatch V C False) s = Some s1" "svc_wf C s1" "stop_rank (sv_state s1) \<le> stop_rank (sv_state s) - 1"
      unfolding lands_def by blast
    have "stop_rank (sv_state s) \<le> 6" by (cases "sv_state s") (simp_all add: stop_rank_def)
    then have "stop_rank (sv_state s1) < 6" using s1(3) False by linarith
    moreover have "sv_state s1 \<notin> set dead_states" using s1(2) by (simp add: svc_wf_def)
    ultimately have "sv_state s1 \<in> set ending_states \<or> stop_rank (sv_state s1) = 0" using rank_below_six by blast
    moreover have "stop_rank (sv_state s1) \<le> n" using s1(3) Suc.prems(3) False by linarith
    ultimately show ?thesis using Suc.IH [OF Suc.prems(1) s1(2)] s1(1) False by simp
  qed
qed

text \<open>
  (C15) A service that starts or stops cannot hang for ever when its processes never answer: with a stop timeout
  configured, every expiry of the timer moves it on and leaves the timer running until the service is dead,
  failed or waiting for its restart, which is the case after at most six expiries, whatever signals,
  spawns and the kernel do.
\<close>

theorem timeouts_end_service:
  assumes "env_ok V" and "svc_wf C s" and "sv_state s \<in> set ending_states" and "TimeoutStopSec C \<noteq> u64_MAX"
  shows "(\<exists>s'. timeouts V C 6 s = Some s' \<and> sv_state s' \<in> {SvDead, SvFailed, SvAutoRestart} \<and> svc_wf C s') \<and>
    (\<exists>s1. fire V SrcTimer (timer_dispatch V C False) s = Some s1 \<and> stop_rank (sv_state s1) < stop_rank (sv_state s) \<and>
       (sv_state s1 \<notin> {SvDead, SvFailed, SvAutoRestart} \<longrightarrow> timer_on s1))"
proof
  have z: "stop_rank x = 0 \<longleftrightarrow> x \<in> {SvDead, SvFailed, SvAutoRestart}" for x by (cases x) (simp_all add: stop_rank_def)
  have "stop_rank (sv_state s) \<le> 6" by (cases "sv_state s") (simp_all add: stop_rank_def)
  from timeouts_end [OF assms(1,2) this disjI1 [OF assms(3)]] obtain s' where
    s': "timeouts V C 6 s = Some s'" "stop_rank (sv_state s') = 0" "svc_wf C s'" by (elim exE conjE)
  have "sv_state s' \<in> {SvDead, SvFailed, SvAutoRestart}" using s'(2) by (simp only: z)
  then show "\<exists>s'. timeouts V C 6 s = Some s' \<and> sv_state s' \<in> {SvDead, SvFailed, SvAutoRestart} \<and> svc_wf C s'"
    using s'(1,3) by (intro exI conjI)
  from fire_timer_lands [OF assms(1-3)] obtain s1 where s1: "fire V SrcTimer (timer_dispatch V C False) s = Some s1"
    "stop_rank (sv_state s1) \<le> stop_rank (sv_state s) - 1"
    "TimeoutStopSec C \<noteq> u64_MAX \<longrightarrow> stop_rank (sv_state s1) > 0 \<longrightarrow> timer_on s1"
    unfolding lands_def by (elim exE conjE)
  have "stop_rank (sv_state s) > 0" using assms(3) by (auto simp: ending_states_def stop_rank_def)
  then have lt: "stop_rank (sv_state s1) < stop_rank (sv_state s)" using s1(2) by linarith
  have on: "sv_state s1 \<notin> {SvDead, SvFailed, SvAutoRestart} \<longrightarrow> timer_on s1"
    using s1(3) assms(4) by (simp only: z [symmetric] simp_thms neq0_conv)
  show "\<exists>s1. fire V SrcTimer (timer_dispatch V C False) s = Some s1 \<and> stop_rank (sv_state s1) < stop_rank (sv_state s) \<and>
       (sv_state s1 \<notin> {SvDead, SvFailed, SvAutoRestart} \<longrightarrow> timer_on s1)"
    using s1(1) lt on by (intro exI conjI)
qed

section \<open>Runs on concrete services\<close>

text \<open>
  An environment that accepts everything; \<open>spawn\<close> says which commands can be spawned and as which process,
  \<open>kill\<close> what killing reports. The world is the list of the commands spawned so far.
\<close>

definition demo_svc_ops :: "(string list \<Rightarrow> string \<Rightarrow> pid option) \<Rightarrow> bool option \<Rightarrow> string list svc_ops" where
  "demo_svc_ops spawn kill = \<lparr>so_event = (\<lambda>_ w. (True, w)), so_prepare_exec = (\<lambda>w. (True, w)),
     so_notify_socket = (\<lambda>_. True), so_exec_params = (\<lambda>_. True),
     so_exec_spawn = (\<lambda>c _ _ w. (spawn w (ec_path c), w @ [ec_path c])),
     so_child_watch_pid = (\<lambda>_ w. w), so_child_unwatch_pid = (\<lambda>_ w. w), so_child_watch_all_pids = (\<lambda>w. w),
     so_kill_context = (\<lambda>_ _ _ _ w. (kill, w)), so_notify = (\<lambda>_ _ _ w. w), so_has_stop_job = (\<lambda>_. False),
     so_has_start_job = (\<lambda>_. False), so_restart_unit = (\<lambda>w. (True, w)), so_test_start_limit = (\<lambda>w. (True, w)),
     so_alive = (\<lambda>_ _. True), so_my_child = (\<lambda>_ _. True), so_getpid = 1, so_same_unit_with_pid = (\<lambda>_ _. True),
     so_cg_is_empty = (\<lambda>_. Some False), so_guess_main_pid = (\<lambda>_. None), so_read_pid_file = (\<lambda>_ _. FirstLine ''70''),
     so_add_watch_path = (\<lambda>_ w. (True, w)), so_inotify_unwatch = (\<lambda>w. w), so_read_fd_event = (\<lambda>w. (True, w)),
     so_kill_and_cont = (\<lambda>_ w. w), so_destroy_runtime_data = (\<lambda>_ w. w), so_unlink = (\<lambda>_ w. w),
     so_sig_no = (\<lambda>_. 15), so_from_raw = (\<lambda>_ _. None)\<rparr>"

definition demo_cmd :: "string \<Rightarrow> exec_command" where
  "demo_cmd p = exec_command_new p []"

definition demo_conf :: service_conf where
  "demo_conf = \<lparr>Type = Simple, ExecStart = Some [demo_cmd ''/main''], ExecStartPre = None, ExecStartPost = None,
     ExecStop = None, ExecStopPost = None, ExecReload = None, ExecCondition = None, WatchdogSec = 0,
     PIDFile = None, RemainAfterExit = False, NotifyAccess = None, RuntimeDirectory = None,
     RuntimeDirectoryPreserve = PreserveNo, Restart = Always, RestartPreventExitStatus = exit_status_default,
     RestartSec = 100000, TimeoutSec = u64_MAX, TimeoutStartSec = 30000000, TimeoutStopSec = 30000000\<rparr>"

lemma demo_env_ok: "env_ok (demo_svc_ops spawn kill)"
  by (simp add: env_ok_def demo_svc_ops_def)

lemma demo_spawn_ok: "spawn_ok (demo_svc_ops (\<lambda>_ _. Some p) kill)"
  by (simp add: spawn_ok_def demo_svc_ops_def)

definition demo_svc :: "service_state \<Rightarrow> string list svc" where
  "demo_svc st = (svc_new True [])\<lparr>sv_state := st, sv_exec_params := Some None\<rparr>"

lemma demo_svc_wf: "st \<notin> set dead_states \<Longrightarrow> svc_wf demo_conf (demo_svc st)"
  by (simp add: svc_wf_def svc_core_def timer_on_def demo_svc_def svc_new_def)


theorem enter_dead_outcome_witness:
  "\<exists>s'. enter_dead (demo_svc_ops (\<lambda>_ _. Some 100) (Some True)) demo_conf FailureTimeout True (demo_svc SvFinalSigkill) = Some s' \<and>
     sv_state s' = SvAutoRestart"
proof -
  have "svc_core demo_conf (demo_svc SvFinalSigkill)" by (rule svc_wf_core [OF demo_svc_wf]) simp
  from enter_dead_outcome [OF demo_env_ok this, of "\<lambda>_ _. Some 100" "Some True" FailureTimeout True]
  show ?thesis
    by (auto simp: demo_svc_ops_def shall_restart_def demo_conf_def demo_svc_def svc_new_def set_result_once_def)
qed

theorem timeouts_end_service_witness:
  "\<exists>s'. timeouts (demo_svc_ops (\<lambda>_ _. None) (Some True)) demo_conf 6 (demo_svc SvStartPre) = Some s' \<and>
     sv_state s' \<in> {SvDead, SvFailed, SvAutoRestart}"
proof -
  have "svc_wf demo_conf (demo_svc SvStartPre)" by (rule demo_svc_wf) simp
  moreover have "sv_state (demo_svc SvStartPre) \<in> set ending_states" by (simp add: demo_svc_def ending_states_def)
  moreover have "TimeoutStopSec demo_conf \<noteq> u64_MAX" by (simp add: demo_conf_def u64_MAX_def)
  ultimately show ?thesis
    using timeouts_end_service [OF demo_env_ok, of demo_conf "demo_svc SvStartPre" "\<lambda>_ _. None" "Some True"] by blast
qed

end
