(* ===== verification/Service_Recovery.thy ===== *)
theory Service_Recovery
  imports Service_Steps "HOL-Library.Sublist"
begin

text \<open>
  Recovery of a service after the manager has been executed again. The stored row (\<open>ServiceReMng\<close>) keeps
  lengths of command lists only: what makes it enough is that the commands left to run are always the last ones
  of a configured list. \<open>cmds_ok\<close> says so and \<open>keeps\<close> carries it through every handler. The last section is
  about what the row does not hold.
\<close>

section \<open>The commands left to run\<close>

definition cmds_of :: "service_conf \<Rightarrow> service_command \<Rightarrow> exec_command list" where
  "cmds_of C t = (case get_exec_cmds C t of Some cs \<Rightarrow> cs | None \<Rightarrow> [])"

definition control_left :: "service_conf \<Rightarrow> service_command option \<Rightarrow> exec_command list \<Rightarrow> bool" where
  "control_left C ty cs = (case ty of None \<Rightarrow> cs = [] | Some t \<Rightarrow> cmds_of C t \<noteq> [] \<and> suffix cs (cmds_of C t))"

definition cmds_ok :: "service_conf \<Rightarrow> 'w svc \<Rightarrow> bool" where
  "cmds_ok C s \<longleftrightarrow> suffix (sv_main_command s) (cmds_of C CmdStart) \<and> (\<forall>p. sv_main s = Some p \<longrightarrow> 1 \<le> p) \<and>
     control_left C (sv_control_cmd_type s) (sv_control_command s)"

lemma control_left_simps [simp]: "control_left C None cs \<longleftrightarrow> cs = []" "control_left C ty []  \<longleftrightarrow> (\<forall>t. ty = Some t \<longrightarrow> cmds_of C t \<noteq> [])"
  by (auto simp: control_left_def split: option.splits)

lemma control_left_Cons: "control_left C ty (c # cs) \<Longrightarrow> control_left C ty cs"
  by (auto simp: control_left_def split: option.splits dest: suffix_ConsD)

lemma control_left_type: "control_left C ty cs \<Longrightarrow> ty = Some t \<Longrightarrow> cmds_of C t \<noteq> []"
  by (simp add: control_left_def)

lemma control_left_full: "get_exec_cmds C t = Some cs \<Longrightarrow> cs \<noteq> [] \<Longrightarrow> control_left C (Some t) cs"
  by (simp add: control_left_def cmds_of_def)

definition keeps :: "service_conf \<Rightarrow> 'w svc option \<Rightarrow> bool" where
  "keeps C r \<longleftrightarrow> (\<forall>s'. r = Some s' \<longrightarrow> cmds_ok C s')"

definition keeps2 :: "service_conf \<Rightarrow> ('a \<times> 'w svc) option \<Rightarrow> bool" where
  "keeps2 C r \<longleftrightarrow> (\<forall>x s'. r = Some (x, s') \<longrightarrow> cmds_ok C s')"

lemma keeps_simps [simp]:
  "keeps C (Some s) = cmds_ok C s" "keeps C None" "keeps2 C (Some xs) = cmds_ok C (snd xs)" "keeps2 C None"
  by (auto simp: keeps_def keeps2_def) (cases xs, simp)

lemma keeps_bind: "keeps C m \<Longrightarrow> (\<And>s. cmds_ok C s \<Longrightarrow> keeps C (f s)) \<Longrightarrow> keeps C (Option.bind m f)"
  by (cases m) auto

lemma keeps_bind2: "keeps2 C m \<Longrightarrow> (\<And>x s. cmds_ok C s \<Longrightarrow> keeps C (f (x, s))) \<Longrightarrow> keeps C (Option.bind m f)"
  by (cases m) auto

lemma keeps2_bind: "keeps C m \<Longrightarrow> (\<And>s. cmds_ok C s \<Longrightarrow> keeps2 C (f s)) \<Longrightarrow> keeps2 C (Option.bind m f)"
  by (cases m) auto

lemma keeps2_bind2: "keeps2 C m \<Longrightarrow> (\<And>x s. cmds_ok C s \<Longrightarrow> keeps2 C (f (x, s))) \<Longrightarrow> keeps2 C (Option.bind m f)"
  by (cases m) auto

lemma keeps_bind_plain: "(\<And>x. m = Some x \<Longrightarrow> keeps C (f x)) \<Longrightarrow> keeps C (Option.bind m f)"
  by (cases m) auto

lemma keeps2_bind_plain: "(\<And>x. m = Some x \<Longrightarrow> keeps2 C (f x)) \<Longrightarrow> keeps2 C (Option.bind m f)"
  by (cases m) auto

lemma keeps_map: "keeps C m \<Longrightarrow> (\<And>s. cmds_ok C s \<Longrightarrow> cmds_ok C (f s)) \<Longrightarrow> keeps C (map_option f m)"
  by (cases m) auto

lemma keeps2_map: "keeps C m \<Longrightarrow> keeps2 C (map_option (Pair x) m)"
  by (cases m) auto

section \<open>Every step keeps them\<close>

lemma cmds_ok_frame [simp]:
  "cmds_ok C (s\<lparr>sv_env := w\<rparr>) = cmds_ok C s" "cmds_ok C (s\<lparr>sv_result := r\<rparr>) = cmds_ok C s"
  "cmds_ok C (s\<lparr>sv_reload_result := r\<rparr>) = cmds_ok C s" "cmds_ok C (s\<lparr>sv_state := st\<rparr>) = cmds_ok C s"
  "cmds_ok C (s\<lparr>sv_control := m\<rparr>) = cmds_ok C s" "cmds_ok C (s\<lparr>sv_current_main_command := cc\<rparr>) = cmds_ok C s"
  "cmds_ok C (s\<lparr>sv_monitor := mo\<rparr>) = cmds_ok C s" "cmds_ok C (s\<lparr>sv_errno := n\<rparr>) = cmds_ok C s"
  "cmds_ok C (s\<lparr>sv_notify_state := ns\<rparr>) = cmds_ok C s" "cmds_ok C (s\<lparr>sv_inotify := i\<rparr>) = cmds_ok C s"
  "cmds_ok C (s\<lparr>sv_inotify_next := k\<rparr>) = cmds_ok C s" "cmds_ok C (s\<lparr>sv_forbid_restart := b\<rparr>) = cmds_ok C s"
  "cmds_ok C (s\<lparr>sv_reset_restarts := b\<rparr>) = cmds_ok C s" "cmds_ok C (s\<lparr>sv_will_auto_restart := b\<rparr>) = cmds_ok C s"
  "cmds_ok C (s\<lparr>sv_restarts := u\<rparr>) = cmds_ok C s" "cmds_ok C (s\<lparr>sv_exec_status := ws\<rparr>) = cmds_ok C s"
  "cmds_ok C (s\<lparr>sv_watchdog := wd\<rparr>) = cmds_ok C s" "cmds_ok C (s\<lparr>sv_db := db\<rparr>) = cmds_ok C s"
  "cmds_ok C (s\<lparr>sv_main_alien := b\<rparr>) = cmds_ok C s" "cmds_ok C (s\<lparr>sv_main_known := b\<rparr>) = cmds_ok C s"
  "cmds_ok C (s\<lparr>sv_timer := ti\<rparr>) = cmds_ok C s" "cmds_ok C (s\<lparr>sv_events := ev\<rparr>) = cmds_ok C s"
  "cmds_ok C (s\<lparr>sv_exec_params := ep\<rparr>) = cmds_ok C s" "cmds_ok C (sv_do f s) = cmds_ok C s"
  by (simp_all add: cmds_ok_def sv_do_def)

lemma cmds_ok_clear [simp]:
  "cmds_ok C s \<Longrightarrow> cmds_ok C (s\<lparr>sv_main_command := []\<rparr>)" "cmds_ok C s \<Longrightarrow> cmds_ok C (s\<lparr>sv_control_command := []\<rparr>)"
  "cmds_ok C s \<Longrightarrow> cmds_ok C (s\<lparr>sv_control_command := [], sv_control_cmd_type := None\<rparr>)"
  "cmds_ok C s \<Longrightarrow> cmds_ok C (s\<lparr>sv_main := None\<rparr>)"
  by (auto simp: cmds_ok_def dest: control_left_type)

lemma cmds_ok_ask [simp]: "cmds_ok C (snd (sv_ask f s)) = cmds_ok C s"
  by (rule sv_askE [of f s]) simp

lemma cmds_ok_ev_call [simp]: "cmds_ok C (snd (ev_call V op s)) = cmds_ok C s"
  by (simp add: ev_call_def case_prod_beta Let_def)

lemma cmds_ok_ev_calls [simp]: "cmds_ok C (snd (ev_calls V ops s)) = cmds_ok C s"
  by (induction ops arbitrary: s) (simp_all add: case_prod_beta Let_def)

lemma cmds_ok_enable_timer [simp]: "cmds_ok C (snd (enable_timer V u s)) = cmds_ok C s"
  by (simp add: enable_timer_def case_prod_beta Let_def del: ev_calls.simps)

lemma keeps_ev_unwrap: "cmds_ok C s \<Longrightarrow> keeps C (ev_unwrap V op s)"
  by (simp add: ev_unwrap_def case_prod_beta Let_def)

lemma keeps_delete_timer: "cmds_ok C s \<Longrightarrow> keeps C (delete_timer V s)"
  by (auto simp: delete_timer_def intro!: keeps_bind keeps_ev_unwrap)

lemma cmds_ok_processes [simp]:
  "cmds_ok C s \<Longrightarrow> cmds_ok C (snd (set_main V p s))" "cmds_ok C s \<Longrightarrow> cmds_ok C (reset_main s)"
  "cmds_ok C s \<Longrightarrow> cmds_ok C (unwatch_main V s)" "cmds_ok C s \<Longrightarrow> cmds_ok C (set_control p s)"
  "cmds_ok C s \<Longrightarrow> cmds_ok C (reset_control s)" "cmds_ok C s \<Longrightarrow> cmds_ok C (unwatch_control V s)"
proof -
  have m: "cmds_ok C (s\<lparr>sv_main := Some p\<rparr>)" if "cmds_ok C s" "1 \<le> p" for s :: "'a svc" and p
    using that by (simp add: cmds_ok_def)
  show "cmds_ok C s \<Longrightarrow> cmds_ok C (snd (set_main V p s))"
    by (auto simp: set_main_def Let_def m split: option.splits)
qed (auto simp: reset_main_def unwatch_main_def set_control_def reset_control_def unwatch_control_def split: option.splits)

lemma cmds_ok_commands [simp]:
  "cmds_ok C s \<Longrightarrow> cmds_ok C (main_command_fill C s)" "cmds_ok C s \<Longrightarrow> cmds_ok C (snd (main_command_pop s))"
  "cmds_ok C s \<Longrightarrow> cmds_ok C (control_command_fill C t s)" "cmds_ok C s \<Longrightarrow> cmds_ok C (snd (control_command_pop s))"
  "cmds_ok C s \<Longrightarrow> cmds_ok C (snd (start_cmd_pop C s))"
proof -
  have a: "cmds_ok C s \<Longrightarrow> cmds_ok C (main_command_fill C s)" for s :: "'a svc"
    by (auto simp: main_command_fill_def cmds_ok_def cmds_of_def split: option.splits)
  have b: "cmds_ok C s \<Longrightarrow> cmds_ok C (snd (main_command_pop s))" for s :: "'a svc"
    by (auto simp: main_command_pop_def cmds_ok_def split: list.splits dest: suffix_ConsD)
  have c: "cmds_ok C s \<Longrightarrow> cmds_ok C (control_command_fill C t s)" for s :: "'a svc" and t
    by (auto simp: control_command_fill_def cmds_ok_def control_left_full Let_def split: option.splits dest: control_left_type)
  have d: "cmds_ok C s \<Longrightarrow> cmds_ok C (snd (control_command_pop s))" for s :: "'a svc"
    by (auto simp: control_command_pop_def cmds_ok_def split: list.splits dest: control_left_Cons)
  show "cmds_ok C s \<Longrightarrow> cmds_ok C (main_command_fill C s)" "cmds_ok C s \<Longrightarrow> cmds_ok C (snd (main_command_pop s))"
    "cmds_ok C s \<Longrightarrow> cmds_ok C (control_command_fill C t s)" "cmds_ok C s \<Longrightarrow> cmds_ok C (snd (control_command_pop s))"
    "cmds_ok C s \<Longrightarrow> cmds_ok C (snd (start_cmd_pop C s))"
    using a b c d by (simp_all add: start_cmd_pop_def)
qed

lemma cmds_ok_result_once [simp]: "cmds_ok C (set_result_once r s) = cmds_ok C s"
  by (simp add: set_result_once_def)

lemma cmds_ok_db_update [simp]: "cmds_ok C (svc_db_update V s) = cmds_ok C s"
  by (simp add: svc_db_update_def)

lemma keeps2_start_service: "cmds_ok C s \<Longrightarrow> keeps2 C (start_service V C c u fl s)"
  by (auto simp: start_service_def case_prod_beta Let_def split: option.splits)

lemma keeps2_spawn_control: "cmds_ok C s \<Longrightarrow> keeps2 C (spawn_control V C t u s)"
  by (auto simp: spawn_control_def case_prod_beta Let_def split: option.splits intro!: keeps2_bind2 keeps2_start_service)

lemma keeps_set_state: "cmds_ok C s \<Longrightarrow> keeps C (set_state V C st s)"
  by (auto simp: set_state_def Let_def intro!: keeps_bind keeps_delete_timer)

lemma keeps_dead_cleanup: "cmds_ok C s \<Longrightarrow> keeps C (dead_cleanup V C s)"
  by (auto simp: dead_cleanup_def Let_def split: option.splits intro!: keeps_bind_plain)

lemma keeps_enter_dead: "cmds_ok C s \<Longrightarrow> keeps C (enter_dead V C res force s)"
proof -
  have f: "keeps C (enter_dead V C r False t)" if "cmds_ok C t" for r t
    unfolding enter_dead.simps [of V C r False t]
    using that by (auto simp: dead_restarts_def intro!: keeps_bind keeps_set_state keeps_dead_cleanup)
  show "cmds_ok C s \<Longrightarrow> keeps C (enter_dead V C res force s)"
    unfolding enter_dead.simps [of V C res force s]
    by (auto simp: case_prod_beta intro!: keeps_bind keeps_set_state keeps_dead_cleanup f)
qed

lemma keeps_signal_after:
  assumes "cmds_ok C s"
    and "\<And>r t. st \<in> set stop_signal_states \<Longrightarrow> cmds_ok C t \<Longrightarrow> keeps C (enter_stop_post V C r t)"
    and "\<And>t. st \<in> {SvFinalWatchdog, SvFinalSigterm} \<Longrightarrow> cmds_ok C t \<Longrightarrow> keeps C (enter_signal V C SvFinalSigkill Success t)"
  shows "keeps C (enter_signal V C st res s)"
proof -
  let ?a = "sv_ask (so_kill_context V (sv_main s) (sv_control s) (to_kill_operation st) (sv_main_alien s))
    (sv_do (so_child_watch_all_pids V) (set_result_once res s))"
  obtain r s1 where a: "?a = (r, s1)" by fastforce
  have s1: "cmds_ok C s1" using assms(1) cmds_ok_ask [of C, where f = "so_kill_context V (sv_main s) (sv_control s) (to_kill_operation st) (sv_main_alien s)"] a
    by (metis cmds_ok_frame(24) cmds_ok_result_once snd_conv)
  obtain ok s2 where t: "enable_timer V (TimeoutStopSec C) s1 = (ok, s2)" by fastforce
  have s2: "cmds_ok C s2" using cmds_ok_enable_timer [of C V "TimeoutStopSec C" s1] t s1 by simp
  show ?thesis
  proof (cases r)
    case None
    then show ?thesis using a s1 assms(2) unfolding enter_signal.simps [of V C st res s] by (simp add: keeps_enter_dead)
  next
    case (Some b)
    then show ?thesis using a t s1 s2 assms(2,3) unfolding enter_signal.simps [of V C st res s]
      by (cases b) (simp_all add: keeps_enter_dead keeps_set_state)
  qed
qed

lemma keeps_signal_stop_post:
  "cmds_ok C s \<Longrightarrow> keeps C (enter_signal V C st res s)" "cmds_ok C s \<Longrightarrow> keeps C (enter_stop_post V C res s)"
proof -
  have k: "keeps C (enter_signal V C SvFinalSigkill r t)" if "cmds_ok C t" for r t
    by (rule keeps_signal_after [OF that]) (simp_all add: stop_signal_states_def)
  have t: "keeps C (enter_signal V C SvFinalSigterm r t)" if "cmds_ok C t" for r t
    by (rule keeps_signal_after [OF that]) (simp_all add: stop_signal_states_def k)
  have p: "keeps C (enter_stop_post V C r t)" if "cmds_ok C t" for r t
    unfolding enter_stop_post.simps [of V C r t]
    by (rule keeps_bind2 [OF keeps2_spawn_control]) (simp_all add: that t keeps_set_state split: spawn_outcome.split)
  show "cmds_ok C s \<Longrightarrow> keeps C (enter_signal V C st res s)"
    by (rule keeps_signal_after) (simp_all add: k p)
  show "cmds_ok C s \<Longrightarrow> keeps C (enter_stop_post V C res s)" by (rule p)
qed

lemmas keeps_intros = keeps_bind keeps_bind2 keeps2_bind keeps2_bind2 keeps_map keeps2_map keeps_ev_unwrap
  keeps2_start_service keeps2_spawn_control keeps_set_state keeps_enter_dead keeps_signal_stop_post

lemma keeps_enter_stop: "cmds_ok C s \<Longrightarrow> keeps C (enter_stop V C res s)"
  by (auto simp: enter_stop_def split: spawn_outcome.splits intro!: keeps_intros)

lemma keeps_enter_stop_by_notify: "cmds_ok C s \<Longrightarrow> keeps C (enter_stop_by_notify V C s)"
  by (auto simp: enter_stop_by_notify_def intro!: keeps_intros)

lemma keeps_enter_running: "cmds_ok C s \<Longrightarrow> keeps C (enter_running V C res s)"
  by (auto simp: enter_running_def Let_def intro!: keeps_intros keeps_enter_stop keeps_enter_stop_by_notify)

lemma keeps_watchdog: "cmds_ok C s \<Longrightarrow> keeps C (stop_watchdog V s)" "cmds_ok C s \<Longrightarrow> keeps C (restart_watchdog V C s)"
  by (auto simp: restart_watchdog_def stop_watchdog_def Let_def intro!: keeps_intros)

lemma keeps_enter_start_post: "cmds_ok C s \<Longrightarrow> keeps C (enter_start_post V C s)"
  by (auto simp: enter_start_post_def split: spawn_outcome.splits intro!: keeps_intros keeps_watchdog keeps_enter_running)

lemma keeps_enter_start: "cmds_ok C s \<Longrightarrow> keeps C (enter_start V C s)"
  by (auto simp: enter_start_def Let_def case_prod_beta split: option.splits service_type.splits
      intro!: keeps_intros keeps_enter_start_post)

lemma keeps_starting: "cmds_ok C s \<Longrightarrow> keeps C (enter_prestart V C s)" "cmds_ok C s \<Longrightarrow> keeps C (enter_contion V C s)"
proof -
  have p: "cmds_ok C s \<Longrightarrow> keeps C (enter_prestart V C s)" for s
    by (auto simp: enter_prestart_def split: spawn_outcome.splits intro!: keeps_intros keeps_enter_start)
  then show "cmds_ok C s \<Longrightarrow> keeps C (enter_prestart V C s)" "cmds_ok C s \<Longrightarrow> keeps C (enter_contion V C s)"
    by (auto simp: enter_contion_def split: spawn_outcome.splits intro!: keeps_intros)
qed

lemma keeps_enter_reload: "cmds_ok C s \<Longrightarrow> keeps C (enter_reload V C s)"
  by (auto simp: enter_reload_def Let_def case_prod_beta split: spawn_outcome.splits option.splits
      intro!: keeps_intros keeps_enter_running)

lemma keeps_enter_restart: "cmds_ok C s \<Longrightarrow> keeps C (enter_restart V C ch s)"
  by (auto simp: enter_restart_def add_restarts_def Let_def case_prod_beta intro!: keeps_enter_dead)

section \<open>Pid file, ended processes, notifications\<close>

lemma cmds_ok_load_pid_file [simp]: "cmds_ok C s \<Longrightarrow> cmds_ok C (snd (load_pid_file V C s))"
  by (auto simp: load_pid_file_def Let_def case_prod_beta split: option.splits pid_file_read.splits sum.splits)

lemma cmds_ok_loaded: "load_pid_file V C s = (r, s') \<Longrightarrow> cmds_ok C s \<Longrightarrow> cmds_ok C s'"
  using cmds_ok_load_pid_file [of C s V] by simp

lemma cmds_ok_popped:
  "control_command_pop s = (r, s') \<Longrightarrow> cmds_ok C s \<Longrightarrow> cmds_ok C s'" "main_command_pop s = (r, s') \<Longrightarrow> cmds_ok C s \<Longrightarrow> cmds_ok C s'"
  using cmds_ok_commands(2,4) [of C s] by simp_all

lemma keeps_unwatch_pid_file: "cmds_ok C s \<Longrightarrow> keeps C (unwatch_pid_file V s)"
  unfolding unwatch_pid_file_def by (rule keeps_bind_plain) (auto intro!: keeps_intros)

lemma keeps2_retry_pid_file: "cmds_ok C s \<Longrightarrow> keeps2 C (retry_pid_file V C s)"
  by (auto simp: retry_pid_file_def split: prod.splits sum.splits dest: cmds_ok_loaded
      intro!: keeps2_bind keeps_unwatch_pid_file keeps_enter_running)

lemma keeps2_watch_pid_file: "cmds_ok C s \<Longrightarrow> keeps2 C (watch_pid_file V C s)"
  by (auto simp: watch_pid_file_def Let_def case_prod_beta
      intro!: keeps2_bind_plain [of "sv_inotify s"] keeps2_bind_plain [of "PIDFile C"] keeps2_bind keeps2_bind2
        keeps_ev_unwrap keeps2_retry_pid_file keeps_unwatch_pid_file)

lemma keeps2_demand_pid_file: "cmds_ok C s \<Longrightarrow> keeps2 C (demand_pid_file V C s)"
  by (auto simp: demand_pid_file_def intro!: keeps2_bind_plain keeps2_watch_pid_file)

lemma cmds_ok_guess_main_pid [simp]: "cmds_ok C s \<Longrightarrow> cmds_ok C (guess_main_pid V s)"
  by (auto simp: guess_main_pid_def Let_def case_prod_beta split: option.splits)

lemmas keeps_more = keeps_intros keeps_enter_stop keeps_enter_running keeps_enter_start_post keeps_enter_start
  keeps_starting keeps2_demand_pid_file

lemma keeps_run_next: "cmds_ok C s \<Longrightarrow> keeps C (run_next_control V C s)" "cmds_ok C s \<Longrightarrow> keeps C (run_next_main V C s)"
proof -
  assume s: "cmds_ok C s"
  obtain c s1 where c: "control_command_pop s = (c, s1)" by fastforce
  obtain m s2 where m: "main_command_pop s = (m, s2)" by fastforce
  show "keeps C (run_next_control V C s)"
    using cmds_ok_popped(1) [OF c s] unfolding run_next_control_def c Let_def
    by (simp split: option.split add: keeps_bind2 keeps_more)
  show "keeps C (run_next_main V C s)"
    using cmds_ok_popped(2) [OF m s] unfolding run_next_main_def m
    by (auto split: option.split intro!: keeps_intros)
qed

lemma keeps_main_exited: "cmds_ok C s \<Longrightarrow> keeps C (main_exited V C res s)"
  by (auto simp: main_exited_def split: service_state.splits intro!: keeps_more)

lemma keeps_sigchld_main: "cmds_ok C s \<Longrightarrow> keeps C (sigchld_main V C ws res s)"
proof -
  assume s: "cmds_ok C s"
  obtain r s1 where l: "load_pid_file V C s = (r, s1)" by fastforce
  show ?thesis
    using cmds_ok_loaded [OF l s] unfolding sigchld_main_def l
    by (auto simp: Let_def split: sum.split bool.split intro!: keeps_run_next keeps_main_exited)
qed

lemma keeps_forking_started: "cmds_ok C s \<Longrightarrow> keeps C (forking_started V C s)"
  by (auto simp: forking_started_def Let_def case_prod_beta split: sum.splits intro!: keeps_more)

lemma keeps_start_post_exited: "cmds_ok C s \<Longrightarrow> keeps C (start_post_exited V C res s)"
proof -
  have "keeps C (case load_pid_file V C s1 of
             (Inl _, s2) \<Rightarrow> do {
               (r, s3) \<leftarrow> demand_pid_file V C s2;
               case r of
                 Inr _ \<Rightarrow> if \<not> cgroup_good V s3 then enter_stop V C FailureProtocol s3 else Some s3
               | Inl _ \<Rightarrow> enter_signal V C SvStopSigterm FailureProtocol s3 }
           | (Inr _, s2) \<Rightarrow> enter_running V C Success s2)" if "cmds_ok C s1" for s1
    using that by (auto split: prod.splits sum.splits dest: cmds_ok_loaded intro!: keeps_more)
  then show "cmds_ok C s \<Longrightarrow> keeps C (start_post_exited V C res s)"
    unfolding start_post_exited_def by (intro keeps_bind) (auto intro!: keeps_more)
qed

lemma keeps_sigchld_control: "cmds_ok C s \<Longrightarrow> keeps C (sigchld_control V C res s)"
  by (auto simp: sigchld_control_def control_exited_def Let_def split: service_state.splits
      intro!: keeps_run_next keeps_more keeps_forking_started keeps_start_post_exited)

lemma keeps_sigchld_event: "cmds_ok C s \<Longrightarrow> keeps C (sigchld_event V C ws s)"
  by (auto simp: sigchld_event_def do_sigchld_event_def
      intro!: keeps_map keeps_bind_plain keeps_sigchld_main keeps_sigchld_control)

lemma keeps_notify_entry: "cmds_ok C s \<Longrightarrow> keeps C (notify_entry V C kv s)"
  unfolding notify_entry_def Let_def case_prod_beta
  by (intro keeps_bind)
    (auto split: option.splits intro!: keeps_enter_start_post keeps_enter_stop_by_notify keeps_watchdog keeps_signal_stop_post)

lemma keeps2_notify_message: "cmds_ok C s \<Longrightarrow> keeps2 C (notify_message V C u ms s)"
proof -
  assume s: "cmds_ok C s"
  obtain r s1 where m: "notify_mainpid V u ms s = (r, s1)" by fastforce
  have "cmds_ok C (snd (notify_mainpid V u ms s))"
    using s by (simp add: notify_mainpid_def split: option.split sum.split)
  then have s1: "cmds_ok C s1" using m by simp
  have "keeps C (fold_opt (notify_entry V C) ms s1)"
    unfolding keeps_def using fold_opt_inv [of "notify_entry V C" ms s1 _ "cmds_ok C"] s1 keeps_notify_entry [of C _ V]
    by (metis keeps_def)
  then have "keeps2 C (do_notify_message V C u ms s)"
    using s1 unfolding do_notify_message_def m by (simp split: sum.split add: keeps2_map)
  then show ?thesis by (cases "do_notify_message V C u ms s") (auto simp: notify_message_def case_prod_beta)
qed

lemma keeps_timer_dispatch: "cmds_ok C s \<Longrightarrow> keeps C (timer_dispatch V C ch s)"
proof -
  assume s: "cmds_ok C s"
  then have "cmds_ok C (kill_control_process V s)" by (simp add: kill_control_process_def split: option.split)
  then show ?thesis using s
    by (auto simp: timer_dispatch_def split: service_state.split
        intro!: keeps_signal_stop_post keeps_enter_stop keeps_enter_running keeps_enter_dead keeps_enter_restart)
qed

lemma keeps_inotify_dispatch: "cmds_ok C s \<Longrightarrow> keeps C (inotify_dispatch V C s)"
  unfolding inotify_dispatch_def Let_def case_prod_beta
  by (intro keeps_bind)
    (auto split: sum.splits intro!: keeps_bind2 keeps_bind keeps2_retry_pid_file keeps2_watch_pid_file keeps_unwatch_pid_file
      keeps_signal_stop_post)

lemma keeps2_start_check: "cmds_ok C s \<Longrightarrow> keeps2 C (start_check V C s)"
  by (auto simp: start_check_def Let_def case_prod_beta intro!: keeps2_bind keeps_enter_dead)

lemma keeps_start_action: "cmds_ok C s \<Longrightarrow> keeps C (start_action V C s)"
  by (auto simp: start_action_def Let_def intro!: keeps_bind keeps_starting)

lemma keeps2_svc_start: "cmds_ok C s \<Longrightarrow> keeps2 C (svc_start V C s)"
  by (auto simp: svc_start_def split: sum.splits intro!: keeps2_bind2 keeps2_start_check keeps2_map keeps_start_action)

lemma keeps_stop_action: "cmds_ok C s \<Longrightarrow> keeps C (stop_action V C s)"
  by (simp add: stop_action_def Let_def keeps_set_state keeps_map keeps_signal_stop_post keeps_enter_stop)

lemma keeps_fire: "cmds_ok C s \<Longrightarrow> (\<And>s'. cmds_ok C s' \<Longrightarrow> keeps C (cb s')) \<Longrightarrow> keeps C (fire V src cb s)"
  by (simp add: fire_def Let_def case_prod_beta)

lemma keeps_snd: "keeps2 C r \<Longrightarrow> keeps C (map_option snd r)"
  by (cases r) simp_all

lemma keeps_svc_handle: "cmds_ok C s \<Longrightarrow> keeps C (svc_handle V C ev s)"
  unfolding svc_handle_def
  by (auto split: svc_event.split simp: reload_action_def watchdog_dispatch_def
      intro!: keeps_snd keeps2_svc_start keeps_stop_action keeps_map keeps_enter_reload keeps_sigchld_event
        keeps2_notify_message keeps_fire keeps_timer_dispatch keeps_signal_stop_post keeps_inotify_dispatch)

lemma svc_steps_cmds_ok: "svc_steps V C s t \<Longrightarrow> cmds_ok C s \<Longrightarrow> cmds_ok C t"
proof (induction rule: svc_steps.induct)
  case (steps_step s t ev t')
  then show ?case using keeps_svc_handle [of C t V ev] by (simp add: keeps_def)
qed

lemma cmds_ok_new: "cmds_ok C (svc_new b w)"
  by (simp add: cmds_ok_def svc_new_def)

section \<open>The recovered service\<close>

lemma pop_main: "snd (main_command_pop s) = s\<lparr>sv_main_command := tl (sv_main_command s)\<rparr>"
  by (cases s) (simp add: main_command_pop_def split: list.split)

lemma pop_control: "snd (control_command_pop s) = s\<lparr>sv_control_command := tl (sv_control_command s)\<rparr>"
  by (cases s) (simp add: control_command_pop_def split: list.split)

lemma main_command_update_suffix:
  assumes "suffix cs (cmds_of C CmdStart)"
  shows "main_command_update C (length cs) s = s\<lparr>sv_main_command := cs\<rparr>"
proof -
  have pop: "((\<lambda>s. snd (main_command_pop s)) ^^ n) (s\<lparr>sv_main_command := xs\<rparr>) = s\<lparr>sv_main_command := drop n xs\<rparr>" for n xs
    by (induction n) (simp_all add: pop_main tl_drop [symmetric] drop_Suc)
  have fill: "main_command_fill C (s\<lparr>sv_main_command := []\<rparr>) = s\<lparr>sv_main_command := cmds_of C CmdStart\<rparr>"
    by (simp add: main_command_fill_def cmds_of_def split: option.split)
  have "drop (length (cmds_of C CmdStart) - length cs) (cmds_of C CmdStart) = cs"
    using assms by (auto simp: suffix_def)
  then show ?thesis by (simp add: main_command_update_def fill pop Let_def)
qed

lemma control_command_update_suffix:
  assumes "control_left C ty cs"
  shows "control_command_update C ty (length cs) s =
    Some (case ty of None \<Rightarrow> s | Some t \<Rightarrow> s\<lparr>sv_control_cmd_type := ty, sv_control_command := cs\<rparr>)"
proof (cases ty)
  case None
  then show ?thesis using assms by (simp add: control_command_update_def)
next
  case (Some t)
  have pop: "((\<lambda>s. snd (control_command_pop s)) ^^ n) (s\<lparr>sv_control_command := xs\<rparr>) = s\<lparr>sv_control_command := drop n xs\<rparr>" for n xs s
    by (induction n) (simp_all add: pop_control tl_drop [symmetric] drop_Suc)
  have t: "cmds_of C t \<noteq> []" "suffix cs (cmds_of C t)" using assms Some by (simp_all add: control_left_def)
  obtain all where g: "get_exec_cmds C t = Some all" using t(1) by (cases "get_exec_cmds C t") (simp_all add: cmds_of_def)
  have fill: "control_command_fill C t (s\<lparr>sv_control_command := []\<rparr>) =
      s\<lparr>sv_control_cmd_type := Some t, sv_control_command := cmds_of C t\<rparr>"
    using t(1) by (simp add: control_command_fill_def cmds_of_def g Let_def)
  have "drop (length (cmds_of C t) - length cs) (cmds_of C t) = cs" using t(2) by (auto simp: suffix_def)
  then show ?thesis using Some by (simp add: control_command_update_def Let_def fill pop)
qed

text \<open>A service of a freshly executed manager, with what the earlier one stored.\<close>

definition re_executed :: "'w svc \<Rightarrow> 'w \<Rightarrow> 'w svc" where
  "re_executed s w = (svc_new True w)\<lparr>sv_db := sv_db s\<rparr>"

lemma recovered_fields:
  assumes "cmds_ok C s" and "sv_owner s"
  obtains t where "svc_db_map V C (re_executed (svc_db_update V s) w) = Some t"
    "sv_state t = sv_state s" "sv_result t = sv_result s" "sv_main t = sv_main s" "sv_control t = sv_control s"
    "sv_main_command t = sv_main_command s" "sv_control_cmd_type t = sv_control_cmd_type s"
    "sv_control_command t = sv_control_command s" "sv_notify_state t = sv_notify_state s"
    "sv_forbid_restart t = sv_forbid_restart s" "sv_reset_restarts t = sv_reset_restarts s"
    "sv_restarts t = sv_restarts s" "sv_monitor t = sv_monitor s" "sv_exec_params t = None" "sv_timer t = None"
    "sv_owner t" "sv_current_main_command t = exec_command_empty" "sv_env t = w" "sv_main s \<noteq> None \<longrightarrow> sv_main_known t"
    "sv_exec_status t = wait_status_from (so_from_raw V) (exit_status_from (so_sig_no V) (sv_exec_status s))"
proof -
  have k: "suffix (sv_main_command s) (cmds_of C CmdStart)" "control_left C (sv_control_cmd_type s) (sv_control_command s)"
    "\<And>p. sv_main s = Some p \<Longrightarrow> 1 \<le> p" using assms(1) by (simp_all add: cmds_ok_def)
  let ?s = "re_executed (svc_db_update V s) w"
  define u where "u = update_control (sv_control s) (update_main V (sv_main s) (?s\<lparr>sv_state := sv_state s, sv_result := sv_result s\<rparr>))"
  have u: "sv_state u = sv_state s" "sv_result u = sv_result s" "sv_main u = sv_main s" "sv_control u = sv_control s"
    "sv_control_cmd_type u = None" "sv_control_command u = []" "sv_exec_params u = None" "sv_timer u = None" "sv_owner u"
    "sv_current_main_command u = exec_command_empty" "sv_env u = w" "sv_main s \<noteq> None \<longrightarrow> sv_main_known u"
    using k(3) by (auto simp: u_def re_executed_def svc_new_def update_control_def set_control_def reset_control_def
        update_main_def set_main_def reset_main_def split: option.split)
  define v where "v = (case sv_control_cmd_type s of None \<Rightarrow> u\<lparr>sv_main_command := sv_main_command s\<rparr>
     | Some t \<Rightarrow> u\<lparr>sv_main_command := sv_main_command s, sv_control_cmd_type := sv_control_cmd_type s,
                  sv_control_command := sv_control_command s\<rparr>)"
  have v: "sv_state v = sv_state s" "sv_result v = sv_result s" "sv_main v = sv_main s" "sv_control v = sv_control s"
    "sv_main_command v = sv_main_command s" "sv_control_cmd_type v = sv_control_cmd_type s"
    "sv_control_command v = sv_control_command s" "sv_exec_params v = None" "sv_timer v = None" "sv_owner v"
    "sv_current_main_command v = exec_command_empty" "sv_env v = w" "sv_main s \<noteq> None \<longrightarrow> sv_main_known v"
    using u k(2) by (auto simp: v_def split: option.split)
  have "svc_db_map V C ?s = Some (v\<lparr>sv_notify_state := sv_notify_state s, sv_forbid_restart := sv_forbid_restart s,
      sv_reset_restarts := sv_reset_restarts s, sv_restarts := sv_restarts s,
      sv_exec_status := wait_status_from (so_from_raw V) (exit_status_from (so_sig_no V) (sv_exec_status s)),
      sv_monitor := sv_monitor s\<rparr>)"
    using assms(2) unfolding v_def u_def
    by (simp add: svc_db_map_def re_executed_def svc_new_def svc_db_update_def svc_db_row_def Let_def
        main_command_update_suffix [OF k(1)] control_command_update_suffix [OF k(2)] split: option.split)
  from that [OF this] v show ?thesis by simp
qed


section \<open>What the row does not hold\<close>

text \<open>No command has been spawned by this manager, and none is left over.\<close>

definition unspawned :: "'w svc \<Rightarrow> bool" where
  "unspawned s \<longleftrightarrow> sv_owner s \<and> sv_exec_params s = None \<and> sv_control_command s = []"

lemma unspawned_frame [simp]:
  "unspawned (s\<lparr>sv_env := w\<rparr>) = unspawned s" "unspawned (s\<lparr>sv_result := r\<rparr>) = unspawned s"
  "unspawned (s\<lparr>sv_state := st\<rparr>) = unspawned s" "unspawned (s\<lparr>sv_control := m\<rparr>) = unspawned s"
  "unspawned (s\<lparr>sv_main := m\<rparr>) = unspawned s" "unspawned (s\<lparr>sv_main_command := cs\<rparr>) = unspawned s"
  "unspawned (s\<lparr>sv_timer := t\<rparr>) = unspawned s" "unspawned (s\<lparr>sv_events := ev\<rparr>) = unspawned s"
  "unspawned (s\<lparr>sv_will_auto_restart := b\<rparr>) = unspawned s" "unspawned (s\<lparr>sv_reset_restarts := b\<rparr>) = unspawned s"
  "unspawned (s\<lparr>sv_exec_status := ws\<rparr>) = unspawned s" "unspawned (sv_do f s) = unspawned s"
  "unspawned (set_result_once res s) = unspawned s" "unspawned (unwatch_main V s) = unspawned s"
  "unspawned (unwatch_control V s) = unspawned s" "unspawned (reset_main s) = unspawned s"
  "unspawned s \<Longrightarrow> unspawned (s\<lparr>sv_control_command := [], sv_control_cmd_type := ty\<rparr>)"
  by (simp_all add: unspawned_def sv_do_def set_result_once_def unwatch_main_def unwatch_control_def reset_main_def
      reset_control_def split: option.split)

lemma unspawned_calls [simp]:
  "unspawned (snd (sv_ask f s)) = unspawned s" "unspawned (snd (ev_call V op s)) = unspawned s"
  "unspawned (snd (ev_calls V ops s)) = unspawned s" "unspawned (snd (enable_timer V u s)) = unspawned s"
proof -
  have a: "unspawned (snd (sv_ask g t)) = unspawned t" for g :: "'a \<Rightarrow> 'c \<times> 'a" and t
    by (rule sv_askE [of g t]) simp
  have c: "unspawned (snd (ev_call V op t)) = unspawned t" for op t
    by (simp add: ev_call_def case_prod_beta Let_def a)
  have cs: "unspawned (snd (ev_calls V ops t)) = unspawned t" for ops t
    by (induction ops arbitrary: t) (simp_all add: case_prod_beta Let_def c)
  show "unspawned (snd (sv_ask f s)) = unspawned s" "unspawned (snd (ev_call V op s)) = unspawned s"
    "unspawned (snd (ev_calls V ops s)) = unspawned s" "unspawned (snd (enable_timer V u s)) = unspawned s"
    by (simp_all add: a c cs enable_timer_def case_prod_beta Let_def del: ev_calls.simps)
qed

lemma unspawned_set_state: "set_state V C st s = Some s' \<Longrightarrow> unspawned s \<Longrightarrow> unspawned s'"
proof -
  have u: "unspawned t'" if "ev_unwrap V op t = Some t'" "unspawned t" for op t t'
  proof -
    have "t' = snd (ev_call V op t)" using that(1) by (auto simp: ev_unwrap_def Let_def split: prod.splits if_splits)
    then show ?thesis using that(2) by simp
  qed
  have d: "delete_timer V t = Some t' \<Longrightarrow> unspawned t \<Longrightarrow> unspawned t'" for t t'
    by (auto simp: delete_timer_def split: if_splits bind_splits dest: u)
  have i: "(if b then delete_timer V t else Some t) = Some t' \<Longrightarrow> unspawned t \<Longrightarrow> unspawned t'" for b t t'
    by (cases b) (auto dest: d)
  show "set_state V C st s = Some s' \<Longrightarrow> unspawned s \<Longrightarrow> unspawned s'"
    unfolding set_state_def Let_def by (erule bind_SomeE) (auto dest!: i)
qed

lemma bind_NoneI: "(\<And>x. m = Some x \<Longrightarrow> f x = None) \<Longrightarrow> Option.bind m f = None"
  by (cases m) simp_all

lemma unspawned_enter_dead:
  assumes V: "env_ok V" and p: "RuntimeDirectoryPreserve C = PreserveNo" and s: "unspawned s"
  shows "enter_dead V C res force s = None"
proof -
  have c: "dead_cleanup V C t = None" if "unspawned t" for t
    using that p by (simp add: dead_cleanup_def unspawned_def Let_def)
  have e: "fst (enable_timer V u t)" for u t
    using enable_timer_spec [OF V, of u t] by (elim exE conjE) simp
  have o: "sv_owner s" using s by (simp add: unspawned_def)
  show ?thesis
    unfolding enter_dead.simps [of V C res force s]
    using s o e by (auto simp: case_prod_beta intro!: bind_NoneI c dest!: unspawned_set_state)
qed

text \<open>Nothing is left to kill: the way from the end of the main process to \<open>enter_dead\<close>.\<close>

definition nothing_to_kill :: "'w svc_ops \<Rightarrow> bool" where
  "nothing_to_kill V \<longleftrightarrow> (\<forall>m c op alien w. fst (so_kill_context V m c op alien w) = Some False)"

lemma enter_signal_nothing:
  assumes n: "nothing_to_kill V" and s: "unspawned s"
    and "\<And>r t. st \<in> set stop_signal_states \<Longrightarrow> unspawned t \<Longrightarrow> enter_stop_post V C r t = None"
    and "\<And>r t. st \<in> {SvFinalWatchdog, SvFinalSigterm} \<Longrightarrow> unspawned t \<Longrightarrow> enter_signal V C SvFinalSigkill r t = None"
    and "\<And>r f t. unspawned t \<Longrightarrow> enter_dead V C r f t = None"
  shows "enter_signal V C st res s = None"
proof -
  let ?s = "sv_do (so_child_watch_all_pids V) (set_result_once res s)"
  let ?f = "so_kill_context V (sv_main s) (sv_control s) (to_kill_operation st) (sv_main_alien s)"
  obtain w where a: "sv_ask ?f ?s = (Some False, ?s\<lparr>sv_env := w\<rparr>)"
    using n by (metis nothing_to_kill_def sv_askE fst_conv)
  show ?thesis unfolding enter_signal.simps [of V C st res s] using s a assms(3-5) by simp
qed

lemma unspawned_stop:
  assumes V: "env_ok V" and p: "RuntimeDirectoryPreserve C = PreserveNo" and n: "nothing_to_kill V" and "ExecStopPost C = None"
    and s: "unspawned s"
  shows "enter_signal V C SvStopSigterm res s = None"
proof -
  note d = unspawned_enter_dead [OF V p]
  have k: "enter_signal V C SvFinalSigkill r t = None" if "unspawned t" for r t
    by (rule enter_signal_nothing [OF n that]) (simp_all add: stop_signal_states_def d)
  have t: "enter_signal V C SvFinalSigterm r t = None" if "unspawned t" for r t
    by (rule enter_signal_nothing [OF n that]) (simp_all add: stop_signal_states_def d k)
  have p: "enter_stop_post V C r t = None" if "unspawned t" for r t
  proof -
    have "spawn_control V C CmdStopPost 0 (set_result_once r t) = Some (NoCmd, set_result_once r t)"
      using that assms(4) by (simp add: spawn_control_def control_command_fill_def get_exec_cmds_def control_command_pop_def
          unspawned_def set_result_once_def)
    then show ?thesis unfolding enter_stop_post.simps [of V C r t] using t that by simp
  qed
  show ?thesis by (rule enter_signal_nothing [OF n s]) (simp_all add: stop_signal_states_def d p)
qed

lemma unspawned_running:
  assumes V: "env_ok V" and p: "RuntimeDirectoryPreserve C = PreserveNo" and n: "nothing_to_kill V"
    and c: "ExecStop C = None" "ExecStopPost C = None" "\<not> RemainAfterExit C"
    and s: "unspawned s" "sv_main s = None" "sv_main_known s" "sv_control s = None"
  shows "enter_running V C res s = None"
proof -
  note d = unspawned_stop [OF V p n c(2)]
  let ?s = "set_result_once res s"
  have "\<not> service_alive V ?s" using s by (simp add: service_alive_def main_alive_def set_result_once_def)
  moreover have "unwatch_control V s = s" using s(4) by (simp add: unwatch_control_def)
  moreover have "enter_stop V C res ?s = None"
  proof -
    have "spawn_control V C CmdStop 0 (set_result_once res ?s) = Some (NoCmd, set_result_once res ?s)"
      using s c(1) by (simp add: spawn_control_def control_command_fill_def get_exec_cmds_def control_command_pop_def
          unspawned_def set_result_once_def)
    then show ?thesis using s d by (simp add: enter_stop_def)
  qed
  ultimately show ?thesis using s c d by (simp add: enter_running_def Let_def)
qed

text \<open>
  After the manager has been executed again, the end of a service takes the manager down. The parameters of
  the last spawn are not part of the stored row, and \<open>enter_dead\<close> unwraps them unless the runtime directory is
  preserved, which it is not by default. So for every recovered service \<open>enter_dead\<close> panics; for a running one
  without stop commands this is what the exit of its main process leads to.
\<close>

theorem recovered_service_panics:
  assumes V: "env_ok V" and p: "RuntimeDirectoryPreserve C = PreserveNo"
    and s: "svc_steps V C (svc_new True w0) s" "sv_owner s" "sv_state s = SvRunning" "sv_main s = Some pid"
      "sv_control s = None" "sv_control_command s = []"
    and c: "PIDFile C = None" "ExecStop C = None" "ExecStopPost C = None" "\<not> RemainAfterExit C" "Type C \<noteq> Oneshot"
    and n: "nothing_to_kill V" and m: "svc_db_map V C (re_executed (svc_db_update V s) w) = Some t"
  shows "enter_dead V C res force t = None \<and> sigchld_event V C (Exited pid status) t = None"
proof -
  obtain t' where "svc_db_map V C (re_executed (svc_db_update V s) w) = Some t'" "sv_state t' = SvRunning" "sv_main t' = Some pid"
    "sv_control t' = None" "sv_control_command t' = []" "sv_exec_params t' = None" "sv_owner t'" "sv_main_known t'"
    by (rule recovered_fields [OF svc_steps_cmds_ok [OF s(1) cmds_ok_new] s(2), of V w]) (simp add: s(3-6))
  with m have t: "sv_state t = SvRunning" "sv_main t = Some pid" "sv_control t = None" "unspawned t" "sv_main_known t"
    by (simp_all add: unspawned_def)
  have "enter_running V C r u = None" if "unspawned u" "sv_main u = None" "sv_main_known u" "sv_control u = None" for r u
    by (rule unspawned_running [OF V p n c(2-4) that])
  then have "sigchld_main V C (Exited pid status) r t = None" for r
    using t c by (simp add: sigchld_main_def load_pid_file_def main_exited_def reset_main_def set_result_once_def Let_def)
  then show ?thesis using unspawned_enter_dead [OF V p t(4)] t
    by (simp add: sigchld_event_def do_sigchld_event_def sigchld_result_def bind_NoneI)
qed

section \<open>A concrete service\<close>

abbreviation quiet_ops :: "string list svc_ops" where
  "quiet_ops \<equiv> demo_svc_ops (\<lambda>_ _. Some 100) (Some False)"

definition demo_running :: "string list svc" where
  "demo_running = the (svc_handle quiet_ops demo_conf ReqStart (svc_new True []))"

lemma demo_running_reached: "svc_steps quiet_ops demo_conf (svc_new True []) demo_running"
proof -
  have "svc_handle quiet_ops demo_conf ReqStart (svc_new True []) \<noteq> None" by code_simp
  then have "svc_handle quiet_ops demo_conf ReqStart (svc_new True []) = Some demo_running" by (simp add: demo_running_def)
  then show ?thesis using steps_step [OF steps_refl] by (metis svc_enabled.simps(11))
qed

lemma demo_running_fields:
  "sv_owner demo_running" "sv_state demo_running = SvRunning" "sv_main demo_running = Some 100"
  "sv_control demo_running = None" "sv_control_command demo_running = []"
  by code_simp+

lemma quiet_nothing: "nothing_to_kill quiet_ops"
  by (simp add: nothing_to_kill_def demo_svc_ops_def)


theorem recovered_service_panics_witness:
  "\<exists>t. svc_db_map quiet_ops demo_conf (re_executed (svc_db_update quiet_ops demo_running) []) = Some t \<and>
     sv_state t = SvRunning \<and> sigchld_event quiet_ops demo_conf (Exited 100 0) t = None"
proof -
  obtain t where t: "svc_db_map quiet_ops demo_conf (re_executed (svc_db_update quiet_ops demo_running) []) = Some t"
    "sv_state t = sv_state demo_running"
    by (rule recovered_fields [OF svc_steps_cmds_ok [OF demo_running_reached cmds_ok_new] demo_running_fields(1), of quiet_ops "[]"])
  have c: "RuntimeDirectoryPreserve demo_conf = PreserveNo" "PIDFile demo_conf = None" "ExecStop demo_conf = None"
    "ExecStopPost demo_conf = None" "\<not> RemainAfterExit demo_conf" "Type demo_conf \<noteq> Oneshot" by (simp_all add: demo_conf_def)
  from recovered_service_panics [OF demo_env_ok c(1) demo_running_reached demo_running_fields c(2-6) quiet_nothing t(1)]
  show ?thesis using t demo_running_fields(2) by (intro exI [of _ t] conjI) simp_all
qed

end
