(* ===== verification/Unit_Relations.thy ===== *)
theory Unit_Relations
  imports Prelude
begin

text \<open>
  The vocabulary of dependencies between units: \<open>UnitRelations\<close> and \<open>UnitRelationAtom\<close> of
  \<^verbatim>\<open>core/lib/unit/deps.rs\<close>, the inverse of a relation (\<^verbatim>\<open>core/bin/unit/base/relation.rs\<close>) and the
  two tables between relations and atoms (\<^verbatim>\<open>core/bin/unit/base/relation_atom.rs\<close>). The lemmas say
  that taking the inverse is an involution, which the two-way insertion of a dependency rests on,
  and how far the two tables agree.
\<close>

section \<open>Relations and atoms\<close>

datatype unit_relations =
    UnitRequires | UnitRequisite | UnitWants | UnitBindsTo | UnitPartOf | UnitUpHolds
    | UnitRequiresBy | UnitRequisiteOf | UnitWantsBy | UnitBoundBy | UnitConsistsOf
    | UnitUpHeldBy | UnitConflicts | UnitConflictedBy | UnitBefore | UnitAfter
    | UnitOnSuccess | UnitOnSuccessOf | UnitOnFailure | UnitOnFailureOf | UnitTriggers
    | UnitTriggeredBy | UnitPropagatesReloadTo | UnitReloadPropagatedFrom
    | UnitPropagatesStopTo | UnitStopPropagatedFrom | UnitJoinsNameSpaceOf | UnitReferences
    | UnitReferencedBy | UnitInSlice | UnitSliceOf

datatype unit_relation_atom =
    UnitAtomPullInStart | UnitAtomPullInStartIgnored | UnitAtomPullInVerify | UnitAtomPullInStop
    | UnitAtomPullInStopIgnored | UnitAtomAddStopWhenUnneededQueue
    | UnitAtomPinsStopWhenUnneeded | UnitAtomCannotBeActiveWithout
    | UnitAtomAddCannotBeActiveWithoutQueue | UnitAtomStartSteadily
    | UnitAtomAddStartWhenUpheldQueue | UnitAtomRetroActiveStartReplace
    | UnitAtomRetroActiveStartFail | UnitAtomRetroActiveStopOnStart
    | UnitAtomRetroActiveStopOnStop | UnitAtomPropagateStartFailure
    | UnitAtomPropagateStopFailure | UnitAtomPropagateInactiveStartAsFailure
    | UnitAtomPropagateStop | UnitAtomPropagateRestart
    | UnitAtomAddDefaultTargetDependencyQueue | UnitAtomDefaultTargetDependencies
    | UnitAtomBefore | UnitAtomAfter | UnitAtomOnSuccess | UnitAtomOnFailure
    | UnitAtomTriggers | UnitAtomTriggeredBy | UnitAtomPropagatesReloadTo
    | UnitAtomJoinsNameSpaceOf | UnitAtomReferences | UnitAtomReferencedBy | UnitAtomInSlice
    | UnitAtomSliceOf

section \<open>The inverse of a relation\<close>

fun unit_relation_to_inverse :: "unit_relations \<Rightarrow> unit_relations" where
  "unit_relation_to_inverse UnitRequires = UnitRequiresBy"
| "unit_relation_to_inverse UnitRequisite = UnitRequisiteOf"
| "unit_relation_to_inverse UnitWants = UnitWantsBy"
| "unit_relation_to_inverse UnitBindsTo = UnitBoundBy"
| "unit_relation_to_inverse UnitPartOf = UnitConsistsOf"
| "unit_relation_to_inverse UnitUpHolds = UnitUpHeldBy"
| "unit_relation_to_inverse UnitRequiresBy = UnitRequires"
| "unit_relation_to_inverse UnitRequisiteOf = UnitRequisite"
| "unit_relation_to_inverse UnitWantsBy = UnitWants"
| "unit_relation_to_inverse UnitBoundBy = UnitBindsTo"
| "unit_relation_to_inverse UnitConsistsOf = UnitPartOf"
| "unit_relation_to_inverse UnitUpHeldBy = UnitUpHolds"
| "unit_relation_to_inverse UnitConflicts = UnitConflictedBy"
| "unit_relation_to_inverse UnitConflictedBy = UnitConflicts"
| "unit_relation_to_inverse UnitBefore = UnitAfter"
| "unit_relation_to_inverse UnitAfter = UnitBefore"
| "unit_relation_to_inverse UnitOnSuccess = UnitOnSuccessOf"
| "unit_relation_to_inverse UnitOnSuccessOf = UnitOnSuccess"
| "unit_relation_to_inverse UnitOnFailure = UnitOnFailureOf"
| "unit_relation_to_inverse UnitOnFailureOf = UnitOnFailure"
| "unit_relation_to_inverse UnitTriggers = UnitTriggeredBy"
| "unit_relation_to_inverse UnitTriggeredBy = UnitTriggers"
| "unit_relation_to_inverse UnitPropagatesReloadTo = UnitReloadPropagatedFrom"
| "unit_relation_to_inverse UnitReloadPropagatedFrom = UnitPropagatesReloadTo"
| "unit_relation_to_inverse UnitPropagatesStopTo = UnitStopPropagatedFrom"
| "unit_relation_to_inverse UnitStopPropagatedFrom = UnitPropagatesStopTo"
| "unit_relation_to_inverse UnitJoinsNameSpaceOf = UnitJoinsNameSpaceOf"
| "unit_relation_to_inverse UnitReferences = UnitReferencedBy"
| "unit_relation_to_inverse UnitReferencedBy = UnitReferences"
| "unit_relation_to_inverse UnitInSlice = UnitSliceOf"
| "unit_relation_to_inverse UnitSliceOf = UnitInSlice"

section \<open>The tables between relations and atoms\<close>

fun unit_relation_to_atom :: "unit_relations \<Rightarrow> unit_relation_atom list" where
  "unit_relation_to_atom UnitRequires =
     [UnitAtomPullInStart, UnitAtomRetroActiveStartReplace, UnitAtomAddStopWhenUnneededQueue
      , UnitAtomAddDefaultTargetDependencyQueue]"
| "unit_relation_to_atom UnitRequisite =
     [UnitAtomPullInVerify, UnitAtomAddStopWhenUnneededQueue
      , UnitAtomAddDefaultTargetDependencyQueue]"
| "unit_relation_to_atom UnitWants =
     [UnitAtomPullInStartIgnored, UnitAtomRetroActiveStartFail, UnitAtomAddStopWhenUnneededQueue
      , UnitAtomDefaultTargetDependencies]"
| "unit_relation_to_atom UnitBindsTo =
     [UnitAtomPullInStart, UnitAtomRetroActiveStartReplace, UnitAtomCannotBeActiveWithout
      , UnitAtomAddStopWhenUnneededQueue, UnitAtomAddDefaultTargetDependencyQueue]"
| "unit_relation_to_atom UnitPartOf = [UnitAtomAddDefaultTargetDependencyQueue]"
| "unit_relation_to_atom UnitUpHolds =
     [UnitAtomPullInStartIgnored, UnitAtomRetroActiveStartReplace, UnitAtomAddStartWhenUpheldQueue
      , UnitAtomAddStopWhenUnneededQueue, UnitAtomAddDefaultTargetDependencyQueue]"
| "unit_relation_to_atom UnitRequiresBy =
     [UnitAtomPropagateStop, UnitAtomPropagateRestart, UnitAtomPropagateStartFailure
      , UnitAtomPinsStopWhenUnneeded, UnitAtomDefaultTargetDependencies]"
| "unit_relation_to_atom UnitRequisiteOf =
     [UnitAtomPropagateStop, UnitAtomPropagateRestart, UnitAtomPropagateStartFailure
      , UnitAtomPropagateInactiveStartAsFailure, UnitAtomPinsStopWhenUnneeded
      , UnitAtomDefaultTargetDependencies]"
| "unit_relation_to_atom UnitWantsBy =
     [UnitAtomDefaultTargetDependencies, UnitAtomPinsStopWhenUnneeded]"
| "unit_relation_to_atom UnitBoundBy =
     [UnitAtomRetroActiveStopOnStop, UnitAtomPropagateStop, UnitAtomPropagateRestart
      , UnitAtomPropagateStartFailure, UnitAtomPinsStopWhenUnneeded
      , UnitAtomAddCannotBeActiveWithoutQueue, UnitAtomDefaultTargetDependencies]"
| "unit_relation_to_atom UnitUpHeldBy =
     [UnitAtomStartSteadily, UnitAtomDefaultTargetDependencies, UnitAtomPinsStopWhenUnneeded]"
| "unit_relation_to_atom UnitConsistsOf = [UnitAtomPropagateStop, UnitAtomPropagateRestart]"
| "unit_relation_to_atom UnitConflicts = [UnitAtomPullInStop, UnitAtomRetroActiveStopOnStart]"
| "unit_relation_to_atom UnitConflictedBy =
     [UnitAtomPullInStopIgnored, UnitAtomRetroActiveStopOnStart, UnitAtomPropagateStopFailure]"
| "unit_relation_to_atom UnitPropagatesStopTo =
     [UnitAtomRetroActiveStopOnStop, UnitAtomPropagateStop]"
| "unit_relation_to_atom UnitBefore = [UnitAtomBefore]"
| "unit_relation_to_atom UnitAfter = [UnitAtomAfter]"
| "unit_relation_to_atom UnitOnSuccess = [UnitAtomOnSuccess]"
| "unit_relation_to_atom UnitOnFailure = [UnitAtomOnFailure]"
| "unit_relation_to_atom UnitTriggers = [UnitAtomTriggers]"
| "unit_relation_to_atom UnitTriggeredBy = [UnitAtomTriggeredBy]"
| "unit_relation_to_atom UnitPropagatesReloadTo = [UnitAtomPropagatesReloadTo]"
| "unit_relation_to_atom UnitJoinsNameSpaceOf = [UnitAtomJoinsNameSpaceOf]"
| "unit_relation_to_atom UnitReferences = [UnitAtomReferences]"
| "unit_relation_to_atom UnitReferencedBy = [UnitAtomReferences]"
| "unit_relation_to_atom UnitInSlice = [UnitAtomInSlice]"
| "unit_relation_to_atom UnitSliceOf = [UnitAtomSliceOf]"
| "unit_relation_to_atom UnitReloadPropagatedFrom = []"
| "unit_relation_to_atom UnitOnSuccessOf = []"
| "unit_relation_to_atom UnitOnFailureOf = []"
| "unit_relation_to_atom UnitStopPropagatedFrom = []"

fun unit_relation_from_unique_atom :: "unit_relation_atom \<Rightarrow> unit_relations list" where
  "unit_relation_from_unique_atom UnitAtomPullInStart = [UnitRequires, UnitBindsTo]"
| "unit_relation_from_unique_atom UnitAtomPullInStartIgnored = [UnitWants, UnitUpHolds]"
| "unit_relation_from_unique_atom UnitAtomPullInVerify = [UnitRequisite]"
| "unit_relation_from_unique_atom UnitAtomPullInStop = [UnitConflicts]"
| "unit_relation_from_unique_atom UnitAtomPullInStopIgnored = [UnitConflictedBy]"
| "unit_relation_from_unique_atom UnitAtomAddStopWhenUnneededQueue =
     [UnitRequires, UnitRequisite, UnitWants, UnitBindsTo, UnitUpHolds]"
| "unit_relation_from_unique_atom UnitAtomPinsStopWhenUnneeded =
     [UnitRequiresBy, UnitRequisiteOf, UnitWantsBy, UnitBoundBy, UnitUpHeldBy]"
| "unit_relation_from_unique_atom UnitAtomCannotBeActiveWithout = [UnitBindsTo]"
| "unit_relation_from_unique_atom UnitAtomAddCannotBeActiveWithoutQueue = [UnitBoundBy]"
| "unit_relation_from_unique_atom UnitAtomStartSteadily = [UnitUpHeldBy]"
| "unit_relation_from_unique_atom UnitAtomAddStartWhenUpheldQueue = [UnitUpHolds]"
| "unit_relation_from_unique_atom UnitAtomRetroActiveStartReplace =
     [UnitRequires, UnitBindsTo, UnitUpHolds]"
| "unit_relation_from_unique_atom UnitAtomRetroActiveStartFail = [UnitWants]"
| "unit_relation_from_unique_atom UnitAtomRetroActiveStopOnStart =
     [UnitConflicts, UnitConflictedBy]"
| "unit_relation_from_unique_atom UnitAtomRetroActiveStopOnStop =
     [UnitBoundBy, UnitPropagatesStopTo]"
| "unit_relation_from_unique_atom UnitAtomPropagateStartFailure =
     [UnitRequiresBy, UnitRequisiteOf, UnitBoundBy]"
| "unit_relation_from_unique_atom UnitAtomPropagateStopFailure = [UnitConflictedBy]"
| "unit_relation_from_unique_atom UnitAtomPropagateInactiveStartAsFailure = [UnitRequisiteOf]"
| "unit_relation_from_unique_atom UnitAtomPropagateStop =
     [UnitRequiresBy, UnitRequisiteOf, UnitBoundBy, UnitConsistsOf, UnitPropagatesStopTo]"
| "unit_relation_from_unique_atom UnitAtomPropagateRestart =
     [UnitRequiresBy, UnitRequisiteOf, UnitBoundBy, UnitConsistsOf]"
| "unit_relation_from_unique_atom UnitAtomAddDefaultTargetDependencyQueue =
     [UnitRequires, UnitRequisite, UnitWants, UnitBindsTo, UnitPartOf, UnitUpHolds]"
| "unit_relation_from_unique_atom UnitAtomDefaultTargetDependencies =
     [UnitRequiresBy, UnitRequisiteOf, UnitWantsBy, UnitBoundBy, UnitUpHeldBy]"
| "unit_relation_from_unique_atom UnitAtomBefore = [UnitBefore]"
| "unit_relation_from_unique_atom UnitAtomAfter = [UnitAfter]"
| "unit_relation_from_unique_atom UnitAtomOnSuccess = [UnitOnSuccess]"
| "unit_relation_from_unique_atom UnitAtomOnFailure = [UnitOnFailure]"
| "unit_relation_from_unique_atom UnitAtomTriggers = [UnitTriggers]"
| "unit_relation_from_unique_atom UnitAtomTriggeredBy = [UnitTriggeredBy]"
| "unit_relation_from_unique_atom UnitAtomPropagatesReloadTo = [UnitPropagatesReloadTo]"
| "unit_relation_from_unique_atom UnitAtomJoinsNameSpaceOf = [UnitJoinsNameSpaceOf]"
| "unit_relation_from_unique_atom UnitAtomReferences = [UnitReferences]"
| "unit_relation_from_unique_atom UnitAtomReferencedBy = [UnitReferencedBy]"
| "unit_relation_from_unique_atom UnitAtomInSlice = [UnitInSlice]"
| "unit_relation_from_unique_atom UnitAtomSliceOf = [UnitSliceOf]"

section \<open>Properties\<close>

lemma unit_relation_to_inverse_involution [simp]:
  "unit_relation_to_inverse (unit_relation_to_inverse r) = r"
  by (cases r) simp_all

lemma unit_relation_to_inverse_inject [simp]:
  "unit_relation_to_inverse r = unit_relation_to_inverse r' \<longleftrightarrow> r = r'"
  by (metis unit_relation_to_inverse_involution)

lemma distinct_from_unique_atom [simp]: "distinct (unit_relation_from_unique_atom a)"
  by (cases a) simp_all

text \<open>
  The two tables. \<open>unit_relation_to_atom\<close> lists the atoms of a relation,
  \<open>unit_relation_from_unique_atom\<close> the relations of an atom; the code looks an atom up through the
  second one. They are converses of each other except at exactly four pairs: \<open>UnitWants\<close> with the two
  default-target atoms, and \<open>UnitReferencedBy\<close> with the two reference atoms.
\<close>

theorem relation_tables_converse_except:
  "(a \<in> set (unit_relation_to_atom r)) \<noteq> (r \<in> set (unit_relation_from_unique_atom a)) \<longleftrightarrow>
   (r, a) \<in> {(UnitWants, UnitAtomAddDefaultTargetDependencyQueue),
             (UnitWants, UnitAtomDefaultTargetDependencies),
             (UnitReferencedBy, UnitAtomReferences),
             (UnitReferencedBy, UnitAtomReferencedBy)}"
  by (cases r; simp; cases a; simp)

end
