(* ===== verification/Reli_Db.thy ===== *)
theory Reli_Db
  imports Prelude
begin

text \<open>
  The reliability table \<open>ReDb\<close> of \<^verbatim>\<open>core/lib/rel/base.rs\<close>: a cache in front of an external
  key-value database, with the changes not yet exported kept as an \<open>add\<close> map and a \<open>del\<close> set. The
  database itself is the third-party crate \<open>heed\<close>: its content is the field \<open>rd_db\<close>, and its two
  writing operations are the arguments \<open>put\<close> and \<open>del\<close> of the export, which are only assumed to
  be a dictionary (\<open>dict\<close>). The lemmas show that the pending changes always describe the difference
  between cache and database, so that an export followed by an import loses nothing.
\<close>

section \<open>State and operations\<close>

record ('k, 'v) redb =
  rd_ignore :: bool
  rd_db :: "('k \<times> 'v) list"
  rd_cache :: "('k \<times> 'v) list"
  rd_add :: "('k \<times> 'v) list"
  rd_del :: "'k set"

definition redb_new :: "('k \<times> 'v) list \<Rightarrow> ('k, 'v) redb" where
  "redb_new db = \<lparr>rd_ignore = False, rd_db = db, rd_cache = [], rd_add = [], rd_del = {}\<rparr>"

definition redb_do_clear :: "('k, 'v) redb \<Rightarrow> ('k, 'v) redb" where
  "redb_do_clear r = r\<lparr>rd_db := [], rd_cache := [], rd_add := [], rd_del := {}\<rparr>"

definition redb_set_ignore :: "bool \<Rightarrow> ('k, 'v) redb \<Rightarrow> ('k, 'v) redb" where
  "redb_set_ignore ignore r = r\<lparr>rd_ignore := ignore\<rparr>"

definition redb_insert :: "'k \<Rightarrow> 'v \<Rightarrow> ('k, 'v) redb \<Rightarrow> ('k, 'v) redb" where
  "redb_insert k v r =
     (if rd_ignore r then r
      else r\<lparr>rd_del := rd_del r - {k},
             rd_add := AList.update k v (rd_add r),
             rd_cache := AList.update k v (rd_cache r)\<rparr>)"

definition redb_remove :: "'k \<Rightarrow> ('k, 'v) redb \<Rightarrow> ('k, 'v) redb" where
  "redb_remove k r =
     (if rd_ignore r then r
      else r\<lparr>rd_add := AList.delete k (rd_add r),
             rd_del := insert k (rd_del r),
             rd_cache := AList.delete k (rd_cache r)\<rparr>)"

definition redb_get :: "('k, 'v) redb \<Rightarrow> 'k \<Rightarrow> 'v option" where
  "redb_get r k = map_of (rd_cache r) k"

definition redb_contains_key :: "('k, 'v) redb \<Rightarrow> 'k \<Rightarrow> bool" where
  "redb_contains_key r k = (map_of (rd_cache r) k \<noteq> None)"

definition redb_keys :: "('k, 'v) redb \<Rightarrow> 'k list" where
  "redb_keys r = map fst (rd_cache r)"

definition redb_entries :: "('k, 'v) redb \<Rightarrow> ('k \<times> 'v) list" where
  "redb_entries r = rd_cache r"

text \<open>
  The export walks the \<open>del\<close> set in an order the code leaves open: the argument \<open>dels\<close> lists it.
\<close>

definition redb_cache_2_db ::
  "('k \<Rightarrow> 'v \<Rightarrow> ('k \<times> 'v) list \<Rightarrow> ('k \<times> 'v) list) \<Rightarrow> ('k \<Rightarrow> ('k \<times> 'v) list \<Rightarrow> ('k \<times> 'v) list) \<Rightarrow>
   'k list \<Rightarrow> ('k, 'v) redb \<Rightarrow> ('k, 'v) redb" where
  "redb_cache_2_db put delete dels r =
     (let db = fold (\<lambda>(k, v). put k v) (rd_add r) (rd_db r);
          db' = fold delete dels db
      in r\<lparr>rd_db := db', rd_add := [], rd_del := {}\<rparr>)"

definition redb_db_2_cache :: "('k, 'v) redb \<Rightarrow> ('k, 'v) redb" where
  "redb_db_2_cache r =
     r\<lparr>rd_add := [], rd_del := {}, rd_cache := fold (\<lambda>(k, v). AList.update k v) (rd_db r) []\<rparr>"

section \<open>The invariant: cache = database + pending changes\<close>

definition redb_wf :: "('k, 'v) redb \<Rightarrow> bool" where
  "redb_wf r \<longleftrightarrow>
     distinct (map fst (rd_cache r)) \<and> distinct (map fst (rd_add r)) \<and>
     dom (map_of (rd_add r)) \<inter> rd_del r = {} \<and>
     map_of (rd_cache r) = (map_of (rd_db r) |` (- rd_del r)) ++ map_of (rd_add r)"

lemmas redb_ops = redb_insert_def redb_remove_def redb_set_ignore_def redb_do_clear_def

lemma redb_wf_new [inv_intros]: "redb_wf (redb_new [])"
  by (simp add: redb_wf_def redb_new_def)

lemma redb_wf_insert [inv_intros]: "redb_wf r \<Longrightarrow> redb_wf (redb_insert k v r)"
  by (auto simp: redb_wf_def redb_insert_def distinct_update update_conv' fun_eq_iff
      map_add_def restrict_map_def split: option.splits)

lemma redb_wf_remove [inv_intros]: "redb_wf r \<Longrightarrow> redb_wf (redb_remove k r)"
  by (auto simp: redb_wf_def redb_remove_def distinct_delete delete_conv' fun_eq_iff
      map_add_def restrict_map_def split: option.splits)

lemma redb_wf_set_ignore [inv_intros]: "redb_wf r \<Longrightarrow> redb_wf (redb_set_ignore b r)"
  by (simp add: redb_wf_def redb_set_ignore_def)

lemma redb_wf_do_clear [inv_intros]: "redb_wf (redb_do_clear r)"
  by (simp add: redb_wf_def redb_do_clear_def)

section \<open>Reading back what was written\<close>

lemma redb_get_insert [simp]:
  "\<not> rd_ignore r \<Longrightarrow> redb_get (redb_insert k v r) k' = (if k' = k then Some v else redb_get r k')"
  by (simp add: redb_get_def redb_insert_def update_conv')

lemma redb_get_remove [simp]:
  "\<not> rd_ignore r \<Longrightarrow> redb_get (redb_remove k r) k' = (if k' = k then None else redb_get r k')"
  by (simp add: redb_get_def redb_remove_def delete_conv')

lemma redb_ignored [simp]:
  "rd_ignore r \<Longrightarrow> redb_insert k v r = r"
  "rd_ignore r \<Longrightarrow> redb_remove k r = r"
  by (simp_all add: redb_ops)

lemma rd_ignore_ops [simp]:
  "rd_ignore (redb_insert k v r) = rd_ignore r"
  "rd_ignore (redb_remove k r) = rd_ignore r"
  by (simp_all add: redb_ops)

lemma redb_keys_get: "k \<in> set (redb_keys r) \<longleftrightarrow> redb_get r k \<noteq> None"
  by (simp add: redb_keys_def redb_get_def map_of_eq_None_iff)

lemma redb_entries_get:
  "redb_wf r \<Longrightarrow> (k, v) \<in> set (redb_entries r) \<longleftrightarrow> redb_get r k = Some v"
  unfolding redb_entries_def redb_get_def redb_wf_def by (metis map_of_eq_Some_iff)

section \<open>Export and import\<close>

lemma redb_export_db:
  assumes db: "dict map_of put delete (\<lambda>m. m) db_ok"
    and "db_ok (rd_db r)" and wf: "redb_wf r" and dels: "set dels = rd_del r"
  shows "map_of (rd_db (redb_cache_2_db put delete dels r)) = map_of (rd_cache r)"
proof -
  let ?db = "fold (\<lambda>(k, v). put k v) (rd_add r) (rd_db r)"
  have add: "map_of ?db = map_of (rd_db r) ++ map_of (rd_add r)"
    using dict.lookup_insert_all [OF db assms(2), of "rd_add r"] wf
    by (simp add: redb_wf_def distinct_map_of_rev)
  have "db_ok ?db" by (rule dict.invar_insert_all [OF db assms(2)])
  then have "map_of (fold delete dels ?db) = map_of ?db |` (- rd_del r)"
    using dict.lookup_remove_all [OF db] dels by simp
  then show ?thesis
    using wf add by (simp add: redb_cache_2_db_def Let_def redb_wf_def restrict_map_add_disjoint)
qed

lemma redb_wf_import [inv_intros]:
  "distinct (map fst (rd_db r)) \<Longrightarrow> redb_wf (redb_db_2_cache r)"
  using hm.lookup_insert_all [of "[]" "rd_db r"] hm.invar_insert_all [of "[]" "rd_db r"]
  by (auto simp: redb_db_2_cache_def redb_wf_def distinct_map_of_rev)

lemma redb_import_get:
  "distinct (map fst (rd_db r)) \<Longrightarrow> redb_get (redb_db_2_cache r) = map_of (rd_db r)"
  using hm.lookup_insert_all [of "[]" "rd_db r"]
  by (auto simp: redb_db_2_cache_def redb_get_def distinct_map_of_rev fun_eq_iff)

text \<open>
  Export and import. Let the operations of the external database be a dictionary. Whatever was
  inserted into and removed from the table since the last import, an export followed by an import
  gives back exactly the cached content, with no pending change left, and the table is again
  consistent.
\<close>

theorem redb_export_import:
  assumes db: "dict map_of put delete (\<lambda>m. m) db_ok"
    and ok: "db_ok (rd_db r)" and wf: "redb_wf r" and dels: "set dels = rd_del r"
  shows "let r' = redb_db_2_cache (redb_cache_2_db put delete dels r) in
    redb_wf r' \<and> redb_get r' = redb_get r \<and> rd_add r' = [] \<and> rd_del r' = {}"
proof -
  let ?e = "redb_cache_2_db put delete dels r"
  have "db_ok (rd_db ?e)"
    using dict.invar_remove_all [OF db dict.invar_insert_all [OF db ok]]
    by (simp add: redb_cache_2_db_def Let_def)
  then have "distinct (map fst (rd_db ?e))" by (rule dict.distinct_entries [OF db])
  with redb_wf_import [of ?e] redb_import_get [of ?e] redb_export_db [OF assms] show ?thesis
    by (simp add: Let_def redb_get_def [abs_def] redb_db_2_cache_def)
qed

text \<open>The hypothesis on the database is met by an association list and by a search tree's list.\<close>

theorem redb_export_import_witness:
  "let r = redb_remove ''b'' (redb_insert ''c'' 3 (redb_insert ''b'' (2::nat) (redb_new [])));
       r' = redb_db_2_cache (redb_cache_2_db bt_insert AList.delete [''b''] r)
   in redb_get r' ''c'' = Some 3 \<and> redb_get r' ''b'' = None \<and> rd_add r' = []"
proof -
  let ?r = "redb_remove ''b'' (redb_insert ''c'' 3 (redb_insert ''b'' (2::nat) (redb_new [])))"
  have "redb_wf ?r" by (intro inv_intros)
  moreover have "bt_sorted (rd_db ?r)" "set [''b''] = rd_del ?r"
    by (simp_all add: redb_ops redb_new_def bt_sorted_def)
  ultimately show ?thesis
    using redb_export_import [OF bt.dict_axioms, of ?r "[''b'']"]
    by (simp add: Let_def redb_new_def)
qed

end
