(* ===== verification/Unit_Deps.thy ===== *)
theory Unit_Deps
  imports Unit_Relations Reli_Db
begin

text \<open>
  The dependency store \<open>UnitDep\<close> of \<^verbatim>\<open>core/bin/unit/datastore/deps.rs\<close>: a three-level hash map from a
  unit and a relation to the related units with their masks, mirrored into the reliability table of
  dependencies (\<open>dep_insert\<close>, \<open>dep_get\<close>, \<open>dep_keys\<close> of \<^verbatim>\<open>core/bin/unit/rentry.rs\<close>). Units are
  identified by their ids.

  The abstraction of the store is its set of edges. The lemmas show that every operation keeps the
  edge set closed under inversion, free of self edges and mirrored in the reliability table, that
  removing a unit removes exactly the edges that touch it, and that the store can be rebuilt from the
  table. The locale \<open>dep_view\<close> is what the job engine relies on.
\<close>

section \<open>State\<close>

record unit_dep_mask =
  source_mask :: "16 word"
  dest_mask :: "16 word"

definition unit_dep_mask_new :: "16 word \<Rightarrow> 16 word \<Rightarrow> unit_dep_mask" where
  "unit_dep_mask_new s d = \<lparr>source_mask = s, dest_mask = d\<rparr>"

type_synonym dep_dv = "(unit_id \<times> unit_dep_mask) list"
type_synonym dep_sv = "(unit_relations \<times> dep_dv) list"

text \<open>\<open>ud_base\<close> holds the keys of the base table, which \<open>dep_insert\<close> asserts.\<close>

record unit_dep =
  ud_t :: "(unit_id \<times> dep_sv) list"
  ud_dep :: "(unit_id, (unit_relations \<times> unit_id) list) redb"
  ud_base :: "unit_id set"

section \<open>Operations\<close>

definition get_sv_pad :: "(unit_id \<times> dep_sv) list \<Rightarrow> unit_id \<Rightarrow> dep_sv" where
  "get_sv_pad t source = (case map_of t source of None \<Rightarrow> [] | Some sv \<Rightarrow> sv)"

definition get_dv_pad :: "(unit_id \<times> dep_sv) list \<Rightarrow> unit_id \<Rightarrow> unit_relations \<Rightarrow> dep_dv" where
  "get_dv_pad t source relation =
     (case map_of (get_sv_pad t source) relation of None \<Rightarrow> [] | Some dv \<Rightarrow> dv)"

definition insert_one_way ::
  "unit_id \<Rightarrow> unit_relations \<Rightarrow> unit_id \<Rightarrow> unit_dep_mask \<Rightarrow> (unit_id \<times> dep_sv) list \<Rightarrow>
   (unit_id \<times> dep_sv) list" where
  "insert_one_way source relation dest msk t =
     (let sv = get_sv_pad t source; dv = get_dv_pad t source relation in
      AList.update source (AList.update relation (AList.update dest msk dv) sv) t)"

definition remove_one_way ::
  "unit_id \<Rightarrow> unit_relations \<Rightarrow> unit_id \<Rightarrow> (unit_id \<times> dep_sv) list \<Rightarrow> (unit_id \<times> dep_sv) list" where
  "remove_one_way source relation dest t =
     (case map_of t source of
        None \<Rightarrow> t
      | Some sv \<Rightarrow>
          (case map_of sv relation of
             None \<Rightarrow> t
           | Some dv \<Rightarrow>
               (let dv' = AList.delete dest dv;
                    sv' = (if dv' = [] then AList.delete relation sv
                           else AList.update relation dv' sv)
                in if sv' = [] then AList.delete source t else AList.update source sv' t)))"

definition dep_insert ::
  "unit_id \<Rightarrow> (unit_relations \<times> unit_id) list \<Rightarrow> unit_dep \<Rightarrow> unit_dep option" where
  "dep_insert u deps d = do {
     rust_assert (u \<in> ud_base d);
     Some (d\<lparr>ud_dep := redb_insert u deps (ud_dep d)\<rparr>) }"

definition dep_get :: "unit_dep \<Rightarrow> unit_id \<Rightarrow> (unit_relations \<times> unit_id) list" where
  "dep_get d u = (case redb_get (ud_dep d) u of None \<Rightarrow> [] | Some deps \<Rightarrow> deps)"

definition dep_keys :: "unit_dep \<Rightarrow> unit_id list" where
  "dep_keys d = redb_keys (ud_dep d)"

definition sv_pairs :: "dep_sv \<Rightarrow> (unit_relations \<times> unit_id) list" where
  "sv_pairs sv = concat (map (\<lambda>(relation, dv). map (\<lambda>(dest, _). (relation, dest)) dv) sv)"

definition db_update :: "unit_id \<Rightarrow> unit_dep \<Rightarrow> unit_dep option" where
  "db_update u d = dep_insert u (sv_pairs (get_sv_pad (ud_t d) u)) d"

definition dep_data_insert ::
  "unit_id \<Rightarrow> unit_relations \<Rightarrow> unit_id \<Rightarrow> bool \<Rightarrow> 16 word \<Rightarrow> unit_dep \<Rightarrow> unit_dep option" where
  "dep_data_insert source relation dest reference smask d =
     (if source = dest then Some d
      else do {
        let msk = unit_dep_mask_new smask 0;
        let mask_inverse = unit_dep_mask_new 0 smask;
        let t1 = insert_one_way dest (unit_relation_to_inverse relation) source mask_inverse
                   (insert_one_way source relation dest msk (ud_t d));
        let t2 = (if reference
                  then insert_one_way dest (unit_relation_to_inverse UnitReferences) source mask_inverse
                         (insert_one_way source UnitReferences dest msk t1)
                  else t1);
        d1 \<leftarrow> db_update source (d\<lparr>ud_t := t2\<rparr>);
        db_update dest d1 })"

text \<open>\<open>UnitDep::insert\<close>: the check \<open>UnitX::dep_check\<close> accepts everything.\<close>

definition dep_check :: "unit_id \<Rightarrow> unit_relations \<Rightarrow> unit_id \<Rightarrow> bool" where
  "dep_check source relation dest = True"

definition unit_dep_insert ::
  "unit_id \<Rightarrow> unit_relations \<Rightarrow> unit_id \<Rightarrow> bool \<Rightarrow> 16 word \<Rightarrow> unit_dep \<Rightarrow> unit_dep option" where
  "unit_dep_insert source relation dest reference smask d =
     (if dep_check source relation dest
      then dep_data_insert source relation dest reference smask d else Some d)"

definition dep_remove ::
  "unit_id \<Rightarrow> unit_relations \<Rightarrow> unit_id \<Rightarrow> unit_dep \<Rightarrow> unit_dep option" where
  "dep_remove source relation dest d = do {
     let t1 = remove_one_way source relation dest (ud_t d);
     let t2 = remove_one_way dest (unit_relation_to_inverse relation) source t1;
     d1 \<leftarrow> db_update source (d\<lparr>ud_t := t2\<rparr>);
     db_update dest d1 }"

definition dep_remove_unit :: "unit_id \<Rightarrow> unit_dep \<Rightarrow> unit_dep option" where
  "dep_remove_unit source d =
     (case map_of (ud_t d) source of
        None \<Rightarrow> Some d
      | Some sv \<Rightarrow> fold_opt (\<lambda>(relation, dest). dep_remove source relation dest) (sv_pairs sv) d)"

definition dep_gets :: "unit_dep \<Rightarrow> unit_id \<Rightarrow> unit_relations \<Rightarrow> unit_id list" where
  "dep_gets d source relation = map fst (get_dv_pad (ud_t d) source relation)"

definition dep_gets_atom :: "unit_dep \<Rightarrow> unit_id \<Rightarrow> unit_relation_atom \<Rightarrow> unit_id list" where
  "dep_gets_atom d source atom =
     concat (map (dep_gets d source) (unit_relation_from_unique_atom atom))"

definition is_dep_with :: "unit_dep \<Rightarrow> unit_id \<Rightarrow> unit_relations \<Rightarrow> unit_id \<Rightarrow> bool" where
  "is_dep_with d source relation dest =
     (map_of (get_dv_pad (ud_t d) source relation) dest \<noteq> None)"

definition is_dep_atom_with :: "unit_dep \<Rightarrow> unit_id \<Rightarrow> unit_relation_atom \<Rightarrow> unit_id \<Rightarrow> bool" where
  "is_dep_atom_with d source atom dest =
     list_ex (\<lambda>relation. is_dep_with d source relation dest) (unit_relation_from_unique_atom atom)"

definition dep_entry_clear :: "unit_dep \<Rightarrow> unit_dep" where
  "dep_entry_clear d = d\<lparr>ud_t := []\<rparr>"

text \<open>Recovery; \<open>units\<close> are the units the unit sets hold, a missing one panics.\<close>

definition db_map_edge ::
  "unit_id set \<Rightarrow> unit_id \<Rightarrow> unit_relations \<times> unit_id \<Rightarrow> unit_dep \<Rightarrow> unit_dep option" where
  "db_map_edge units src e d = do {
     let (r_src, dst) = e;
     let r_dst = unit_relation_to_inverse r_src;
     let msk = unit_dep_mask_new 0 0;
     rust_assert (dst \<in> units);
     Some (d\<lparr>ud_t := insert_one_way dst r_dst src msk (insert_one_way src r_src dst msk (ud_t d))\<rparr>) }"

definition db_map_source :: "unit_id set \<Rightarrow> unit_id \<Rightarrow> unit_dep \<Rightarrow> unit_dep option" where
  "db_map_source units src d = do {
     rust_assert (src \<in> units);
     fold_opt (db_map_edge units src) (dep_get d src) d }"

definition dep_db_map :: "unit_id set \<Rightarrow> unit_dep \<Rightarrow> unit_dep option" where
  "dep_db_map units d = fold_opt (db_map_source units) (dep_keys d) d"

section \<open>One-way edges\<close>

definition edge :: "(unit_id \<times> dep_sv) list \<Rightarrow> unit_id \<Rightarrow> unit_relations \<Rightarrow> unit_id \<Rightarrow> bool" where
  "edge t s r x \<longleftrightarrow> map_of (get_dv_pad t s r) x \<noteq> None"

lemma is_dep_with_edge: "is_dep_with d s r x = edge (ud_t d) s r x"
  by (simp add: is_dep_with_def edge_def)

definition sv_wf :: "dep_sv \<Rightarrow> bool" where
  "sv_wf sv \<longleftrightarrow> distinct (map fst sv) \<and>
     (\<forall>(r, dv) \<in> set sv. dv \<noteq> [] \<and> distinct (map fst dv))"

definition t_wf :: "(unit_id \<times> dep_sv) list \<Rightarrow> bool" where
  "t_wf t \<longleftrightarrow> distinct (map fst t) \<and> (\<forall>(s, sv) \<in> set t. sv \<noteq> [] \<and> sv_wf sv)"

lemma set_update_sub: "set (AList.update k v m) \<subseteq> insert (k, v) (set m)"
  by (induction m) auto

lemma set_delete_sub: "set (AList.delete k m) \<subseteq> set m"
  by (auto simp: AList.delete_eq)

lemma update_not_Nil [simp]: "AList.update k v m \<noteq> []"
  by (cases m) auto

lemma sv_wf_Nil [simp]: "sv_wf []"
  by (simp add: sv_wf_def)

lemma sv_wf_update: "sv_wf sv \<Longrightarrow> dv \<noteq> [] \<Longrightarrow> distinct (map fst dv) \<Longrightarrow> sv_wf (AList.update r dv sv)"
  using set_update_sub [of r dv sv] by (fastforce simp: sv_wf_def distinct_update)

lemma sv_wf_delete: "sv_wf sv \<Longrightarrow> sv_wf (AList.delete r sv)"
  using set_delete_sub [of r sv] by (fastforce simp: sv_wf_def distinct_delete)

lemma t_wf_update: "t_wf t \<Longrightarrow> sv \<noteq> [] \<Longrightarrow> sv_wf sv \<Longrightarrow> t_wf (AList.update s sv t)"
  using set_update_sub [of s sv t] by (fastforce simp: t_wf_def distinct_update)

lemma t_wf_delete: "t_wf t \<Longrightarrow> t_wf (AList.delete s t)"
  using set_delete_sub [of s t] by (fastforce simp: t_wf_def distinct_delete)

lemma t_wf_sv: "t_wf t \<Longrightarrow> sv_wf (get_sv_pad t s)"
  by (auto simp: t_wf_def get_sv_pad_def dest: map_of_SomeD split: option.splits)

lemma sv_wf_dv: "sv_wf sv \<Longrightarrow> map_of sv r = Some dv \<Longrightarrow> dv \<noteq> [] \<and> distinct (map fst dv)"
  by (auto simp: sv_wf_def dest: map_of_SomeD)

lemma t_wf_dv: "t_wf t \<Longrightarrow> distinct (map fst (get_dv_pad t s r))"
  using sv_wf_dv [OF t_wf_sv] by (auto simp: get_dv_pad_def split: option.splits)

lemma t_wf_insert_one_way [inv_intros]: "t_wf t \<Longrightarrow> t_wf (insert_one_way s r x m t)"
  by (simp add: insert_one_way_def Let_def t_wf_update sv_wf_update t_wf_sv t_wf_dv distinct_update)

lemma t_wf_remove_one_way [inv_intros]:
  assumes "t_wf t"
  shows "t_wf (remove_one_way s r x t)"
proof -
  have "sv_wf sv" if "map_of t s = Some sv" for sv
    using t_wf_sv [OF assms, of s] that by (simp add: get_sv_pad_def)
  then show ?thesis
    using assms
    by (auto simp: remove_one_way_def Let_def dest: sv_wf_dv
        intro!: distinct_delete t_wf_delete t_wf_update sv_wf_delete sv_wf_update split: option.splits)
qed

lemma get_dv_pad_insert:
  "get_dv_pad (insert_one_way s r x m t) s' r' =
     (if s' = s \<and> r' = r then AList.update x m (get_dv_pad t s r) else get_dv_pad t s' r')"
  by (simp add: get_dv_pad_def get_sv_pad_def insert_one_way_def Let_def update_conv')

lemma edge_insert [simp]:
  "edge (insert_one_way s r x m t) s' r' x' \<longleftrightarrow> edge t s' r' x' \<or> (s', r', x') = (s, r, x)"
  by (auto simp: edge_def get_dv_pad_insert update_conv' split: if_splits)

lemma delete_NilD: "AList.delete k m = [] \<Longrightarrow> k' \<noteq> k \<Longrightarrow> map_of m k' = None"
  by (metis delete_conv' fun_upd_other map_of.simps(1))

lemma edge_remove [simp]:
  "edge (remove_one_way s r x t) s' r' x' \<longleftrightarrow> edge t s' r' x' \<and> (s', r', x') \<noteq> (s, r, x)"
  by (auto simp: edge_def get_dv_pad_def get_sv_pad_def remove_one_way_def Let_def update_conv'
      delete_conv' dest: delete_NilD split: option.splits if_splits)

lemma set_sv_pairs: "set (sv_pairs sv) = {(r, x). \<exists>dv. (r, dv) \<in> set sv \<and> x \<in> fst ` set dv}"
  by (force simp: sv_pairs_def)

lemma sv_pairs_edge:
  assumes "t_wf t"
  shows "(r, x) \<in> set (sv_pairs (get_sv_pad t s)) \<longleftrightarrow> edge t s r x"
proof -
  let ?sv = "get_sv_pad t s"
  have "distinct (map fst ?sv)" using t_wf_sv [OF assms] by (simp add: sv_wf_def)
  then have "(r, dv) \<in> set ?sv \<longleftrightarrow> map_of ?sv r = Some dv" for dv by simp
  then show ?thesis
    by (force simp: set_sv_pairs edge_def get_dv_pad_def map_of_eq_None_iff split: option.splits)
qed

section \<open>The invariant of the store\<close>

definition dep_wf :: "unit_dep \<Rightarrow> bool" where
  "dep_wf d \<longleftrightarrow> t_wf (ud_t d) \<and> \<not> rd_ignore (ud_dep d) \<and>
     (\<forall>s r x. edge (ud_t d) s r x \<longrightarrow>
        s \<noteq> x \<and> edge (ud_t d) x (unit_relation_to_inverse r) s \<and> s \<in> ud_base d) \<and>
     (\<forall>u. set (dep_get d u) = {(r, x). edge (ud_t d) u r x})"

lemma dep_wfD:
  assumes "dep_wf d"
  shows "t_wf (ud_t d)" and "\<not> rd_ignore (ud_dep d)"
    and "edge (ud_t d) s r x \<Longrightarrow> s \<noteq> x"
    and "edge (ud_t d) s r x \<Longrightarrow> edge (ud_t d) x (unit_relation_to_inverse r) s"
    and "edge (ud_t d) s r x \<Longrightarrow> s \<in> ud_base d"
    and "set (dep_get d u) = {(r, x). edge (ud_t d) u r x}"
  using assms by (auto simp: dep_wf_def)

lemma dep_wf_empty: "dep_wf \<lparr>ud_t = [], ud_dep = redb_new [], ud_base = B\<rparr>"
  by (simp add: dep_wf_def t_wf_def edge_def get_dv_pad_def get_sv_pad_def dep_get_def redb_get_def
      redb_new_def)

lemma db_update_total:
  assumes "u \<in> ud_base d" and "\<not> rd_ignore (ud_dep d)"
  shows "\<exists>d'. db_update u d = Some d' \<and> ud_t d' = ud_t d \<and> ud_base d' = ud_base d \<and>
    \<not> rd_ignore (ud_dep d') \<and>
    (\<forall>v. dep_get d' v = (if v = u then sv_pairs (get_sv_pad (ud_t d) u) else dep_get d v))"
  using assms by (simp add: db_update_def dep_insert_def dep_get_def)

text \<open>Changing the edges of two units and then writing both to the table restores the mirror.\<close>

lemma db_update_both:
  assumes wf: "dep_wf d" and "t_wf t" and base: "s \<in> ud_base d" "x \<in> ud_base d"
    and sym: "\<And>a r b. edge t a r b \<Longrightarrow> a \<noteq> b \<and> edge t b (unit_relation_to_inverse r) a \<and> a \<in> ud_base d"
    and same: "\<And>u r y. u \<noteq> s \<Longrightarrow> u \<noteq> x \<Longrightarrow> edge t u r y = edge (ud_t d) u r y"
  shows "\<exists>d1 d2. db_update s (d\<lparr>ud_t := t\<rparr>) = Some d1 \<and> db_update x d1 = Some d2 \<and>
    ud_t d2 = t \<and> ud_base d2 = ud_base d \<and> dep_wf d2"
proof -
  obtain d1 where d1: "db_update s (d\<lparr>ud_t := t\<rparr>) = Some d1" "ud_t d1 = t" "ud_base d1 = ud_base d"
    "\<not> rd_ignore (ud_dep d1)"
    "\<And>v. dep_get d1 v = (if v = s then sv_pairs (get_sv_pad t s) else dep_get d v)"
    using db_update_total [of s "d\<lparr>ud_t := t\<rparr>"] base dep_wfD(2) [OF wf]
    by (auto simp: dep_get_def)
  obtain d2 where d2: "db_update x d1 = Some d2" "ud_t d2 = t" "ud_base d2 = ud_base d"
    "\<not> rd_ignore (ud_dep d2)"
    "\<And>v. dep_get d2 v = (if v = x then sv_pairs (get_sv_pad t x) else dep_get d1 v)"
    using db_update_total [of x d1] base d1 by auto
  have "set (dep_get d2 u) = {(r, y). edge t u r y}" for u
    using sv_pairs_edge [OF assms(2)] d1(5) d2(5) dep_wfD(6) [OF wf, of u] same [of u]
    by (auto split: if_splits)
  then have "dep_wf d2" using d2 assms(2) sym by (auto simp: dep_wf_def)
  with d1 d2 show ?thesis by blast
qed

section \<open>Insertion and removal\<close>

definition new_edges ::
  "unit_id \<Rightarrow> unit_relations \<Rightarrow> unit_id \<Rightarrow> bool \<Rightarrow> (unit_id \<times> unit_relations \<times> unit_id) set" where
  "new_edges s r x reference =
     {(s, r, x), (x, unit_relation_to_inverse r, s)} \<union>
     (if reference then {(s, UnitReferences, x), (x, UnitReferencedBy, s)} else {})"

lemma dep_data_insert_total:
  assumes wf: "dep_wf d" and "s \<in> ud_base d" "x \<in> ud_base d" and "s \<noteq> x"
  shows "\<exists>d'. dep_data_insert s r x reference m d = Some d' \<and> dep_wf d' \<and> ud_base d' = ud_base d \<and>
    (\<forall>a q b. edge (ud_t d') a q b \<longleftrightarrow> edge (ud_t d) a q b \<or> (a, q, b) \<in> new_edges s r x reference)"
proof -
  define t1 where "t1 = insert_one_way x (unit_relation_to_inverse r) s (unit_dep_mask_new 0 m)
    (insert_one_way s r x (unit_dep_mask_new m 0) (ud_t d))"
  define t2 where "t2 = (if reference
    then insert_one_way x UnitReferencedBy s (unit_dep_mask_new 0 m)
           (insert_one_way s UnitReferences x (unit_dep_mask_new m 0) t1) else t1)"
  have e: "edge t2 a q b \<longleftrightarrow> edge (ud_t d) a q b \<or> (a, q, b) \<in> new_edges s r x reference" for a q b
    by (auto simp: t2_def t1_def new_edges_def)
  have "t_wf t2"
    by (simp add: t2_def t1_def t_wf_insert_one_way dep_wfD(1) [OF wf])
  moreover have "a \<noteq> b \<and> edge t2 b (unit_relation_to_inverse q) a \<and> a \<in> ud_base d"
    if "edge t2 a q b" for a q b
    using that assms(2-4) dep_wfD(3-5) [OF wf, of a q b]
    by (auto simp: e) (auto simp: new_edges_def split: if_splits)
  moreover have "edge t2 u q y = edge (ud_t d) u q y" if "u \<noteq> s" "u \<noteq> x" for u q y
    using that by (auto simp: e new_edges_def)
  ultimately obtain d1 d2 where "db_update s (d\<lparr>ud_t := t2\<rparr>) = Some d1" "db_update x d1 = Some d2"
    "ud_t d2 = t2" "ud_base d2 = ud_base d" "dep_wf d2"
    using db_update_both [OF wf _ assms(2,3), of t2] by blast
  moreover from this have "dep_data_insert s r x reference m d = Some d2"
    using assms(4) by (simp add: dep_data_insert_def t1_def t2_def Let_def split: if_splits)
  ultimately show ?thesis using e by auto
qed

lemma dep_remove_total:
  assumes wf: "dep_wf d" and "s \<in> ud_base d" "x \<in> ud_base d"
  shows "\<exists>d'. dep_remove s r x d = Some d' \<and> dep_wf d' \<and> ud_base d' = ud_base d \<and>
    (\<forall>a q b. edge (ud_t d') a q b \<longleftrightarrow>
       edge (ud_t d) a q b \<and> (a, q, b) \<notin> {(s, r, x), (x, unit_relation_to_inverse r, s)})"
proof -
  define t2 where "t2 = remove_one_way x (unit_relation_to_inverse r) s
    (remove_one_way s r x (ud_t d))"
  have e: "edge t2 a q b \<longleftrightarrow>
      edge (ud_t d) a q b \<and> (a, q, b) \<notin> {(s, r, x), (x, unit_relation_to_inverse r, s)}" for a q b
    by (auto simp: t2_def)
  have "t_wf t2"
    by (simp add: t2_def t_wf_remove_one_way dep_wfD(1) [OF wf])
  moreover have "a \<noteq> b \<and> edge t2 b (unit_relation_to_inverse q) a \<and> a \<in> ud_base d"
    if "edge t2 a q b" for a q b
    using that dep_wfD(3-5) [OF wf, of a q b] by (auto simp: e)
  moreover have "edge t2 u q y = edge (ud_t d) u q y" if "u \<noteq> s" "u \<noteq> x" for u q y
    using that by (auto simp: e)
  ultimately obtain d1 d2 where "db_update s (d\<lparr>ud_t := t2\<rparr>) = Some d1" "db_update x d1 = Some d2"
    "ud_t d2 = t2" "ud_base d2 = ud_base d" "dep_wf d2"
    using db_update_both [OF wf _ assms(2,3), of t2] by blast
  moreover from this have "dep_remove s r x d = Some d2"
    by (simp add: dep_remove_def t2_def Let_def)
  ultimately show ?thesis using e by auto
qed

lemma dep_remove_all_total:
  assumes "dep_wf d" and "s \<in> ud_base d" and "snd ` set ps \<subseteq> ud_base d"
  shows "\<exists>d'. fold_opt (\<lambda>(r, x). dep_remove s r x) ps d = Some d' \<and> dep_wf d' \<and>
    ud_base d' = ud_base d \<and>
    (\<forall>a q b. edge (ud_t d') a q b \<longleftrightarrow> edge (ud_t d) a q b \<and> \<not> (a = s \<and> (q, b) \<in> set ps) \<and>
       \<not> (b = s \<and> (unit_relation_to_inverse q, a) \<in> set ps))"
  using assms
proof (induction ps arbitrary: d)
  case Nil
  then show ?case by simp
next
  case (Cons p ps)
  obtain r x where p: "p = (r, x)" by (cases p)
  have "x \<in> ud_base d" using Cons.prems(3) p by simp
  then obtain d1 where d1: "dep_remove s r x d = Some d1" "dep_wf d1" "ud_base d1 = ud_base d"
    "\<And>a q b. edge (ud_t d1) a q b \<longleftrightarrow>
       edge (ud_t d) a q b \<and> (a, q, b) \<notin> {(s, r, x), (x, unit_relation_to_inverse r, s)}"
    using dep_remove_total [OF Cons.prems(1,2), of x r] by blast
  have "snd ` set ps \<subseteq> ud_base d1" using Cons.prems(3) d1(3) by simp
  from Cons.IH [OF d1(2) _ this] Cons.prems(2) d1(3)
  obtain d2 where "fold_opt (\<lambda>(r, x). dep_remove s r x) ps d1 = Some d2" "dep_wf d2"
    "ud_base d2 = ud_base d"
    "\<And>a q b. edge (ud_t d2) a q b \<longleftrightarrow> edge (ud_t d1) a q b \<and> \<not> (a = s \<and> (q, b) \<in> set ps) \<and>
       \<not> (b = s \<and> (unit_relation_to_inverse q, a) \<in> set ps)"
    by auto
  moreover have "q = unit_relation_to_inverse r \<longleftrightarrow> unit_relation_to_inverse q = r" for q
    by auto
  ultimately show ?case using d1(1,4) p by auto
qed

lemma dep_remove_unit_total:
  assumes wf: "dep_wf d"
  shows "\<exists>d'. dep_remove_unit u d = Some d' \<and> dep_wf d' \<and> ud_base d' = ud_base d \<and>
    (\<forall>a q b. edge (ud_t d') a q b \<longleftrightarrow> edge (ud_t d) a q b \<and> a \<noteq> u \<and> b \<noteq> u)"
proof (cases "map_of (ud_t d) u")
  case None
  then have "\<not> edge (ud_t d) u r x" for r x
    by (simp add: edge_def get_dv_pad_def get_sv_pad_def)
  moreover from this have "\<not> edge (ud_t d) x r u" for r x
    using dep_wfD(4) [OF wf] by blast
  ultimately show ?thesis using wf None by (auto simp: dep_remove_unit_def)
next
  case (Some sv)
  let ?ps = "sv_pairs (get_sv_pad (ud_t d) u)"
  have ps: "(r, x) \<in> set ?ps \<longleftrightarrow> edge (ud_t d) u r x" for r x
    by (rule sv_pairs_edge [OF dep_wfD(1) [OF wf]])
  obtain r x where "edge (ud_t d) u r x"
  proof -
    have "sv \<noteq> []" "sv_wf sv"
      using dep_wfD(1) [OF wf] Some by (auto simp: t_wf_def dest: map_of_SomeD)
    then obtain r dv where "(r, dv) \<in> set sv" "dv \<noteq> []" by (cases sv) (auto simp: sv_wf_def)
    then have "(r, fst (hd dv)) \<in> set ?ps" using Some
      by (auto simp: set_sv_pairs get_sv_pad_def)
    then show thesis using ps that by blast
  qed
  then have base: "u \<in> ud_base d" "snd ` set ?ps \<subseteq> ud_base d"
    using ps dep_wfD(4,5) [OF wf] by fastforce+
  obtain d' where d': "fold_opt (\<lambda>(r, x). dep_remove u r x) ?ps d = Some d'" "dep_wf d'"
    "ud_base d' = ud_base d"
    "\<forall>a q b. edge (ud_t d') a q b \<longleftrightarrow> edge (ud_t d) a q b \<and> \<not> (a = u \<and> (q, b) \<in> set ?ps) \<and>
       \<not> (b = u \<and> (unit_relation_to_inverse q, a) \<in> set ?ps)"
    using dep_remove_all_total [OF wf base] by blast
  have "edge (ud_t d') a q b \<longleftrightarrow> edge (ud_t d) a q b \<and> a \<noteq> u \<and> b \<noteq> u" for a q b
    using d'(4) ps dep_wfD(4) [OF wf, of a q b] by auto
  with d'(1-3) Some show ?thesis by (auto simp: dep_remove_unit_def get_sv_pad_def)
qed

section \<open>Recovery\<close>

lemma db_map_inner_total:
  assumes "t_wf (ud_t d)" and "snd ` set ps \<subseteq> units"
  shows "\<exists>d'. fold_opt (db_map_edge units s) ps d = Some d' \<and>
    t_wf (ud_t d') \<and> ud_dep d' = ud_dep d \<and> ud_base d' = ud_base d \<and>
    (\<forall>a q b. edge (ud_t d') a q b \<longleftrightarrow> edge (ud_t d) a q b \<or> a = s \<and> (q, b) \<in> set ps \<or>
       b = s \<and> (unit_relation_to_inverse q, a) \<in> set ps)"
  using assms
proof (induction ps arbitrary: d)
  case Nil
  then show ?case by simp
next
  case (Cons p ps)
  obtain r x where p: "p = (r, x)" by (cases p)
  let ?d1 = "d\<lparr>ud_t := insert_one_way x (unit_relation_to_inverse r) s (unit_dep_mask_new 0 0)
    (insert_one_way s r x (unit_dep_mask_new 0 0) (ud_t d))\<rparr>"
  have "t_wf (ud_t ?d1)" using Cons.prems by (simp add: t_wf_insert_one_way)
  from Cons.IH [OF this] Cons.prems(2) p show ?case
    by (auto simp: db_map_edge_def Let_def)
qed

lemma db_map_outer_total:
  assumes "t_wf (ud_t d)" and "set ss \<subseteq> units" and "\<And>s. snd ` set (dep_get d s) \<subseteq> units"
  shows "\<exists>d'. fold_opt (db_map_source units) ss d = Some d' \<and>
    t_wf (ud_t d') \<and> ud_dep d' = ud_dep d \<and> ud_base d' = ud_base d \<and>
    (\<forall>a q b. edge (ud_t d') a q b \<longleftrightarrow> edge (ud_t d) a q b \<or> a \<in> set ss \<and> (q, b) \<in> set (dep_get d a) \<or>
       b \<in> set ss \<and> (unit_relation_to_inverse q, a) \<in> set (dep_get d b))"
  using assms
proof (induction ss arbitrary: d)
  case Nil
  then show ?case by simp
next
  case (Cons s ss)
  obtain d1 where d1: "fold_opt (db_map_edge units s) (dep_get d s) d = Some d1"
    "t_wf (ud_t d1)" "ud_dep d1 = ud_dep d" "ud_base d1 = ud_base d"
    "\<forall>a q b. edge (ud_t d1) a q b \<longleftrightarrow> edge (ud_t d) a q b \<or> a = s \<and> (q, b) \<in> set (dep_get d s) \<or>
       b = s \<and> (unit_relation_to_inverse q, a) \<in> set (dep_get d s)"
    using db_map_inner_total [OF Cons.prems(1,3)] by blast
  have same: "dep_get d1 u = dep_get d u" for u using d1(3) by (simp add: dep_get_def)
  have ss: "s \<in> units" "set ss \<subseteq> units" using Cons.prems(2) by auto
  obtain d2 where "fold_opt (db_map_source units) ss d1 = Some d2"
    "t_wf (ud_t d2)" "ud_dep d2 = ud_dep d1" "ud_base d2 = ud_base d1"
    "\<forall>a q b. edge (ud_t d2) a q b \<longleftrightarrow> edge (ud_t d1) a q b \<or> a \<in> set ss \<and> (q, b) \<in> set (dep_get d a) \<or>
       b \<in> set ss \<and> (unit_relation_to_inverse q, a) \<in> set (dep_get d b)"
    using Cons.IH [OF d1(2) ss(2)] Cons.prems(3) unfolding same by blast
  moreover have "db_map_source units s d = Some d1" using d1(1) ss(1) by (simp add: db_map_source_def)
  ultimately show ?case using d1(3-5) by auto
qed

lemma dep_recovery_total:
  assumes wf: "dep_wf d" and keys: "set (dep_keys d) \<subseteq> units"
  shows "\<exists>d'. dep_db_map units (dep_entry_clear d) = Some d' \<and> dep_wf d' \<and>
    (\<forall>a q b. edge (ud_t d') a q b \<longleftrightarrow> edge (ud_t d) a q b)"
proof -
  let ?c = "dep_entry_clear d"
  have c: "t_wf (ud_t ?c)" "dep_get ?c = dep_get d" "dep_keys ?c = dep_keys d" "\<not> edge (ud_t ?c) a q b"
    "ud_dep ?c = ud_dep d" "ud_base ?c = ud_base d" for a q b
    by (auto simp: dep_entry_clear_def t_wf_def dep_get_def dep_keys_def edge_def get_dv_pad_def
        get_sv_pad_def)
  have key: "a \<in> set (dep_keys d)" if "edge (ud_t d) a q b" for a q b
    using that dep_wfD(6) [OF wf, of a]
    by (cases "redb_get (ud_dep d) a") (auto simp: dep_keys_def redb_keys_get dep_get_def)
  have "snd ` set (dep_get d s) \<subseteq> units" for s
    using key keys dep_wfD(4,6) [OF wf] by fastforce
  then have sub: "snd ` set (dep_get ?c s) \<subseteq> units" for s by (simp add: c(2))
  obtain d' where d': "dep_db_map units ?c = Some d'" "t_wf (ud_t d')" "ud_dep d' = ud_dep d"
    "ud_base d' = ud_base d"
    "\<forall>a q b. edge (ud_t d') a q b \<longleftrightarrow> edge (ud_t ?c) a q b \<or>
       a \<in> set (dep_keys d) \<and> (q, b) \<in> set (dep_get d a) \<or>
       b \<in> set (dep_keys d) \<and> (unit_relation_to_inverse q, a) \<in> set (dep_get d b)"
    using db_map_outer_total [OF c(1) keys sub] unfolding dep_db_map_def c(2,3,5,6) by blast
  have e: "edge (ud_t d') a q b \<longleftrightarrow> edge (ud_t d) a q b" for a q b
    using d'(5) c(4) key [of a q b] key [of b "unit_relation_to_inverse q" a]
      dep_wfD(4) [OF wf, of a q b] dep_wfD(4) [OF wf, of b "unit_relation_to_inverse q" a]
      dep_wfD(6) [OF wf, of a] dep_wfD(6) [OF wf, of b] by auto
  moreover from e d'(2-4) wf have "dep_wf d'" by (simp add: dep_wf_def dep_get_def)
  ultimately show ?thesis using d'(1) by blast
qed

section \<open>What the job engine relies on\<close>

locale dep_view =
  fixes gets_atom :: "'d \<Rightarrow> unit_id \<Rightarrow> unit_relation_atom \<Rightarrow> unit_id list"
    and dep_ok :: "'d \<Rightarrow> bool"
  assumes order_sym: "dep_ok d \<Longrightarrow>
      v \<in> set (gets_atom d u UnitAtomAfter) \<longleftrightarrow> u \<in> set (gets_atom d v UnitAtomBefore)"
    and no_self: "dep_ok d \<Longrightarrow> u \<notin> set (gets_atom d u atom)"
begin

lemma order_neighbours:
  "dep_ok d \<Longrightarrow> v \<in> set (gets_atom d u UnitAtomAfter) \<union> set (gets_atom d u UnitAtomBefore) \<longleftrightarrow>
     u \<in> set (gets_atom d v UnitAtomAfter) \<union> set (gets_atom d v UnitAtomBefore)"
  using order_sym by blast

end

lemma dep_gets_edge: "x \<in> set (dep_gets d s r) \<longleftrightarrow> edge (ud_t d) s r x"
  by (simp add: dep_gets_def edge_def map_of_eq_None_iff)

lemma dep_gets_atom_edge:
  "x \<in> set (dep_gets_atom d s a) \<longleftrightarrow> (\<exists>r \<in> set (unit_relation_from_unique_atom a). edge (ud_t d) s r x)"
  by (simp add: dep_gets_atom_def dep_gets_edge)

lemma is_dep_atom_with_gets_atom: "is_dep_atom_with d s a x \<longleftrightarrow> x \<in> set (dep_gets_atom d s a)"
  by (simp add: is_dep_atom_with_def dep_gets_atom_edge is_dep_with_edge list_ex_iff)

lemma order_edge_sym:
  assumes "dep_wf d"
  shows "edge (ud_t d) u UnitAfter v \<longleftrightarrow> edge (ud_t d) v UnitBefore u"
  using dep_wfD(4) [OF assms, of u UnitAfter v] dep_wfD(4) [OF assms, of v UnitBefore u] by auto

interpretation dep: dep_view dep_gets_atom dep_wf
  by unfold_locales (auto simp: dep_gets_atom_edge order_edge_sym dest: dep_wfD(3))

section \<open>Properties\<close>

text \<open>
  Insertion. On a consistent store, inserting a dependency between two different known units
  succeeds, keeps the store consistent (no empty maps, no self edges, closed under inversion,
  mirrored in the reliability table) and adds exactly the edge, its inverse and, when asked, the
  reference edge with its inverse. Inserting a dependency of a unit on itself changes nothing.
\<close>

theorem unit_dep_insert_correct:
  assumes "dep_wf d" and "s \<in> ud_base d" and "x \<in> ud_base d"
  shows "\<exists>d'. unit_dep_insert s r x reference m d = Some d' \<and> dep_wf d' \<and>
    (s = x \<longrightarrow> d' = d) \<and>
    (s \<noteq> x \<longrightarrow> (\<forall>a q b. is_dep_with d' a q b \<longleftrightarrow>
       is_dep_with d a q b \<or> (a, q, b) \<in> new_edges s r x reference))"
proof (cases "s = x")
  case True
  then show ?thesis using assms(1) by (simp add: unit_dep_insert_def dep_check_def dep_data_insert_def)
next
  case False
  from dep_data_insert_total [OF assms False, of r reference m] False show ?thesis
    by (auto simp: unit_dep_insert_def dep_check_def is_dep_with_edge)
qed

definition empty_deps :: "unit_id set \<Rightarrow> unit_dep" where
  "empty_deps B = \<lparr>ud_t = [], ud_dep = redb_new [], ud_base = B\<rparr>"

theorem unit_dep_insert_correct_witness:
  "\<exists>d'. unit_dep_insert ''a'' UnitRequires ''b'' True 1 (empty_deps {''a'', ''b''}) = Some d' \<and>
     is_dep_with d' ''b'' UnitRequiresBy ''a'' \<and> is_dep_with d' ''b'' UnitReferencedBy ''a''"
  using unit_dep_insert_correct [of "empty_deps {''a'', ''b''}" "''a''" "''b''" UnitRequires True 1]
  by (auto simp: empty_deps_def dep_wf_empty new_edges_def)

lemma demo_dep:
  obtains d where "unit_dep_insert ''a'' UnitAfter ''b'' False 0 (empty_deps {''a'', ''b''}) = Some d"
    and "dep_wf d" and "is_dep_with d ''b'' UnitBefore ''a''"
proof -
  let ?e = "empty_deps {''a'', ''b''}"
  have wf: "dep_wf ?e" by (simp add: empty_deps_def dep_wf_empty)
  have base: "''a'' \<in> ud_base ?e" "''b'' \<in> ud_base ?e" "''a'' \<noteq> ''b''"
    by (simp_all add: empty_deps_def)
  from dep_data_insert_total [OF wf base, of UnitAfter False 0] obtain d
    where d: "dep_data_insert ''a'' UnitAfter ''b'' False 0 ?e = Some d" "dep_wf d"
      "\<forall>a q b. edge (ud_t d) a q b \<longleftrightarrow>
         edge (ud_t ?e) a q b \<or> (a, q, b) \<in> new_edges ''a'' UnitAfter ''b'' False"
    by blast
  then show thesis
    by (intro that [of d]) (simp_all add: unit_dep_insert_def dep_check_def is_dep_with_edge new_edges_def)
qed

text \<open>
  Removal of a unit. On a consistent store \<open>remove_unit\<close> never panics, keeps the store consistent
  and removes exactly the edges that start or end at the unit: no unit keeps a dangling dependency.
\<close>

theorem dep_remove_unit_correct:
  assumes "dep_wf d"
  shows "\<exists>d'. dep_remove_unit u d = Some d' \<and> dep_wf d' \<and>
    (\<forall>a q b. is_dep_with d' a q b \<longleftrightarrow> is_dep_with d a q b \<and> a \<noteq> u \<and> b \<noteq> u)"
  using dep_remove_unit_total [OF assms, of u] by (auto simp: is_dep_with_edge)

theorem dep_remove_unit_correct_witness:
  "\<exists>d d'. unit_dep_insert ''a'' UnitAfter ''b'' False 0 (empty_deps {''a'', ''b''}) = Some d \<and>
     is_dep_with d ''b'' UnitBefore ''a'' \<and>
     dep_remove_unit ''a'' d = Some d' \<and> \<not> is_dep_with d' ''b'' UnitBefore ''a''"
proof -
  obtain d where d: "unit_dep_insert ''a'' UnitAfter ''b'' False 0 (empty_deps {''a'', ''b''}) = Some d"
    "dep_wf d" "is_dep_with d ''b'' UnitBefore ''a''"
    by (rule demo_dep)
  then show ?thesis using dep_remove_unit_correct [OF d(2), of "''a''"] d(1,3) by auto
qed

text \<open>
  (C12) Recovery. If all units named by the reliability table still exist, clearing the store and
  rebuilding it from the table (\<open>entry_clear\<close>, \<open>db_map\<close>) never panics and gives a consistent store
  with exactly the same dependencies.
\<close>

theorem dep_recovery_roundtrip:
  assumes "dep_wf d" and "set (dep_keys d) \<subseteq> units"
  shows "\<exists>d'. dep_db_map units (dep_entry_clear d) = Some d' \<and> dep_wf d' \<and>
    (\<forall>a q b. is_dep_with d' a q b \<longleftrightarrow> is_dep_with d a q b)"
  using dep_recovery_total [OF assms] by (simp add: is_dep_with_edge)

theorem dep_recovery_roundtrip_witness:
  "\<exists>d d'. unit_dep_insert ''a'' UnitAfter ''b'' False 0 (empty_deps {''a'', ''b''}) = Some d \<and>
     is_dep_with d ''b'' UnitBefore ''a'' \<and>
     dep_db_map UNIV (dep_entry_clear d) = Some d' \<and> is_dep_with d' ''b'' UnitBefore ''a''"
proof -
  obtain d where d: "unit_dep_insert ''a'' UnitAfter ''b'' False 0 (empty_deps {''a'', ''b''}) = Some d"
    "dep_wf d" "is_dep_with d ''b'' UnitBefore ''a''"
    by (rule demo_dep)
  then show ?thesis using dep_recovery_roundtrip [OF d(2) subset_UNIV] d(1,3) by auto
qed

end
