(* ===== verification/Unit_Load.thy ===== *)
theory Unit_Load
  imports Unit_Deps Unit_State Rust_Str
begin

text \<open>
  Loading of units: the queues of \<^verbatim>\<open>core/bin/unit/runtime.rs\<close>, the creation of units and of the units they
  refer to in \<^verbatim>\<open>core/bin/unit/uload.rs\<close>, the load step of a unit (\<^verbatim>\<open>entry/uentry.rs\<close>, \<^verbatim>\<open>entry/load.rs\<close>) and
  the requests the unit types make while they load (\<open>unit_add_dependency\<close>, \<open>load_unit_success\<close> of
  \<^verbatim>\<open>unit/manager.rs\<close>), which drain the queue from inside a load.

  The unit files and the unit types are parameters (\<open>load_env\<close>), read once per load; they do not change while
  a queue is drained. A unit is identified by its name: an object that was removed and created again is the
  same \<open>rt_obj\<close>. The loop over the queue has a bound \<open>n\<close> on its rounds; \<open>None\<close> for every bound is a loop that
  does not end.
\<close>

section \<open>Unit types\<close>

datatype unit_type = UnitService | UnitTarget | UnitSocket | UnitMount | UnitTypeMax | UnitTypeInvalid | UnitTypeErrnoMax

definition unit_type_from_str :: "string \<Rightarrow> unit_type" where
  "unit_type_from_str s = (let l = map ascii_lower s in
     if l = ''service'' then UnitService
     else if l = ''target'' then UnitTarget
     else if l = ''socket'' then UnitSocket
     else if l = ''mount'' then UnitMount
     else UnitTypeInvalid)"

definition unit_name_to_type :: "unit_id \<Rightarrow> unit_type" where
  "unit_name_to_type name = unit_type_from_str (last (split_on CHR ''.'' name))"

section \<open>State\<close>

record unit_x =
  ux_type :: unit_type
  ux_load_state :: unit_load_state
  ux_in_load_queue :: bool
  ux_in_target_dep_queue :: bool

text \<open>
  \<open>rt_units\<close> are the names in \<open>UnitSets\<close>. The base table is the field \<open>ud_base\<close> of the dependency store, which
  asserts it too.
\<close>

record unit_rt =
  rt_obj :: "unit_id \<Rightarrow> unit_x"
  rt_units :: "unit_id set"
  rt_dep :: unit_dep
  rt_load :: "(unit_id, unit_load_state) redb"
  rt_pps :: "(unit_id, 32 word) redb"
  rt_load_queue :: "unit_id list"
  rt_target_dep_queue :: "unit_id list"

text \<open>What a unit type asks for while it loads; the flag is whether it passes an error on.\<close>

datatype sub_call = SubDep unit_relations unit_id bool | SubRef unit_id

text \<open>
  \<open>le_plugin\<close>: an object of this type can be created; \<open>le_conf\<close>: the dependencies in the section \<^verbatim>\<open>[Unit]\<close>, or
  \<open>None\<close> if the file is missing or malformed; \<open>le_order\<close>: the order in which the hash map of them is walked;
  \<open>le_sub\<close>: the requests of the unit type and whether its own section is accepted.
\<close>

record load_env =
  le_plugin :: "unit_type \<Rightarrow> bool"
  le_conf :: "unit_id \<Rightarrow> (unit_relations \<Rightarrow> unit_id list) option"
  le_order :: "unit_id \<Rightarrow> unit_relations list"
  le_default_dependencies :: "unit_id \<Rightarrow> bool"
  le_sub :: "unit_id \<Rightarrow> sub_call list \<times> bool"

definition ud_conf_relations :: "unit_relations list" where
  "ud_conf_relations = [UnitWants, UnitAfter, UnitBefore, UnitRequires, UnitBindsTo, UnitRequisite, UnitOnFailure,
     UnitOnSuccess, UnitPartOf, UnitConflicts]"

definition upd_unit :: "unit_id \<Rightarrow> (unit_x \<Rightarrow> unit_x) \<Rightarrow> unit_rt \<Rightarrow> unit_rt" where
  "upd_unit u f s = s\<lparr>rt_obj := (rt_obj s)(u := f (rt_obj s u))\<rparr>"

section \<open>The reliability entries\<close>

definition QUEUE_LOAD :: "32 word" where
  "QUEUE_LOAD = 0x8"

definition QUEUE_TARGET_DEPS :: "32 word" where
  "QUEUE_TARGET_DEPS = 0x10"

definition base_contains :: "unit_rt \<Rightarrow> unit_id \<Rightarrow> bool" where
  "base_contains s u \<longleftrightarrow> u \<in> ud_base (rt_dep s)"

definition base_insert :: "unit_id \<Rightarrow> unit_rt \<Rightarrow> unit_rt" where
  "base_insert u s = s\<lparr>rt_dep := (rt_dep s)\<lparr>ud_base := insert u (ud_base (rt_dep s))\<rparr>\<rparr>"

definition load_insert :: "unit_id \<Rightarrow> unit_load_state \<Rightarrow> unit_rt \<Rightarrow> unit_rt option" where
  "load_insert u st s = do {
     rust_assert (base_contains s u);
     Some (s\<lparr>rt_load := redb_insert u st (rt_load s)\<rparr>) }"

definition pps_get :: "unit_rt \<Rightarrow> unit_id \<Rightarrow> 32 word" where
  "pps_get s u = (case redb_get (rt_pps s) u of None \<Rightarrow> 0 | Some p \<Rightarrow> p)"

definition pps_put :: "unit_id \<Rightarrow> 32 word \<Rightarrow> unit_rt \<Rightarrow> unit_rt option" where
  "pps_put u p s = do {
     rust_assert (base_contains s u);
     Some (s\<lparr>rt_pps := redb_insert u p (rt_pps s)\<rparr>) }"

definition pps_insert :: "unit_id \<Rightarrow> unit_rt \<Rightarrow> unit_rt option" where
  "pps_insert u = pps_put u 0"

definition pps_set :: "unit_id \<Rightarrow> 32 word \<Rightarrow> unit_rt \<Rightarrow> unit_rt option" where
  "pps_set u msk s = pps_put u (or (pps_get s u) msk) s"

definition pps_clear :: "unit_id \<Rightarrow> 32 word \<Rightarrow> unit_rt \<Rightarrow> unit_rt option" where
  "pps_clear u msk s = pps_put u (and (pps_get s u) (not msk)) s"

definition pps_contains :: "unit_rt \<Rightarrow> unit_id \<Rightarrow> 32 word \<Rightarrow> bool" where
  "pps_contains s u msk \<longleftrightarrow> and (pps_get s u) msk = msk"

section \<open>The queues\<close>

definition set_in_load_queue :: "bool \<Rightarrow> unit_id \<Rightarrow> unit_rt \<Rightarrow> unit_rt option" where
  "set_in_load_queue t u s =
     (let s1 = upd_unit u (\<lambda>x. x\<lparr>ux_in_load_queue := t\<rparr>) s in
      if t then pps_set u QUEUE_LOAD s1 else pps_clear u QUEUE_LOAD s1)"

definition set_in_target_dep_queue :: "bool \<Rightarrow> unit_id \<Rightarrow> unit_rt \<Rightarrow> unit_rt option" where
  "set_in_target_dep_queue t u s =
     (let s1 = upd_unit u (\<lambda>x. x\<lparr>ux_in_target_dep_queue := t\<rparr>) s in
      if t then pps_set u QUEUE_TARGET_DEPS s1 else pps_clear u QUEUE_TARGET_DEPS s1)"

definition set_load_state :: "unit_load_state \<Rightarrow> unit_id \<Rightarrow> unit_rt \<Rightarrow> unit_rt option" where
  "set_load_state st u s = load_insert u st (upd_unit u (\<lambda>x. x\<lparr>ux_load_state := st\<rparr>) s)"

definition push_load_queue :: "unit_id \<Rightarrow> unit_rt \<Rightarrow> unit_rt option" where
  "push_load_queue u s =
     (if ux_in_load_queue (rt_obj s u) then Some s
      else do {
        s1 \<leftarrow> set_in_load_queue True u s;
        Some (s1\<lparr>rt_load_queue := rt_load_queue s1 @ [u]\<rparr>) })"

definition push_target_dep_queue :: "unit_id \<Rightarrow> unit_rt \<Rightarrow> unit_rt option" where
  "push_target_dep_queue u s =
     (if ux_in_target_dep_queue (rt_obj s u) then Some s
      else do {
        s1 \<leftarrow> set_in_target_dep_queue True u s;
        Some (s1\<lparr>rt_target_dep_queue := rt_target_dep_queue s1 @ [u]\<rparr>) })"

section \<open>Creating units\<close>

text \<open>\<open>UnitX::new\<close>: the base entry, an empty pipeline entry and the load entry of a stub.\<close>

definition unit_x_new :: "unit_type \<Rightarrow> unit_id \<Rightarrow> unit_rt \<Rightarrow> unit_rt option" where
  "unit_x_new ut u s = do {
     s1 \<leftarrow> pps_insert u (base_insert u s);
     let s2 = upd_unit u (\<lambda>_. \<lparr>ux_type = ut, ux_load_state = LoadStub, ux_in_load_queue = False,
                            ux_in_target_dep_queue = False\<rparr>) s1;
     s3 \<leftarrow> load_insert u LoadStub s2;
     pps_clear u (or QUEUE_LOAD QUEUE_TARGET_DEPS) s3 }"

definition try_new_unit :: "load_env \<Rightarrow> unit_id \<Rightarrow> unit_rt \<Rightarrow> (bool \<times> unit_rt) option" where
  "try_new_unit L u s = (let ut = unit_name_to_type u in
     if ut = UnitTypeInvalid then Some (False, s)
     else if \<not> le_plugin L ut then Some (False, s)
     else map_option (Pair True) (unit_x_new ut u s))"

definition prepare_unit :: "load_env \<Rightarrow> unit_id \<Rightarrow> unit_rt \<Rightarrow> (bool \<times> unit_rt) option" where
  "prepare_unit L u s =
     (if u \<in> rt_units s
      then if ux_load_state (rt_obj s u) \<noteq> LoadNotFound then Some (True, s)
           else map_option (Pair True) (push_load_queue u s)
      else do {
        (ok, s1) \<leftarrow> try_new_unit L u s;
        if ok then map_option (Pair True) (push_load_queue u (s1\<lparr>rt_units := insert u (rt_units s1)\<rparr>))
        else Some (False, s1) })"

definition push_dep_unit_into_load_queue :: "load_env \<Rightarrow> unit_id \<Rightarrow> unit_rt \<Rightarrow> (bool \<times> unit_rt) option" where
  "push_dep_unit_into_load_queue L u s = (if u \<in> rt_units s then Some (True, s) else prepare_unit L u s)"

definition unit_remove :: "unit_id \<Rightarrow> unit_rt \<Rightarrow> unit_rt option" where
  "unit_remove u s =
     (if u \<in> rt_units s
      then do {
        d \<leftarrow> dep_remove_unit u (rt_dep s);
        Some (s\<lparr>rt_units := rt_units s - {u}, rt_dep := d\<rparr>) }
      else Some s)"

section \<open>The dependencies of a unit file\<close>

fun insert_udconf_deps :: "load_env \<Rightarrow> unit_id \<Rightarrow> (unit_relations \<times> unit_id) list \<Rightarrow> unit_rt \<Rightarrow> unit_rt option" where
  "insert_udconf_deps L u [] s = Some s"
| "insert_udconf_deps L u ((r, x) # es) s = do {
     (ok, s1) \<leftarrow> push_dep_unit_into_load_queue L x s;
     if \<not> ok then Some s1
     else do {
       d \<leftarrow> unit_dep_insert u r x True 0 (rt_dep s1);
       insert_udconf_deps L u es (s1\<lparr>rt_dep := d\<rparr>) } }"

definition udconf_deps :: "load_env \<Rightarrow> unit_id \<Rightarrow> (unit_relations \<Rightarrow> unit_id list) \<Rightarrow> (unit_relations \<times> unit_id) list" where
  "udconf_deps L u conf = concat (map (\<lambda>r. map (Pair r) (conf r)) (filter (\<lambda>r. r \<in> set ud_conf_relations) (le_order L u)))"

definition insert_udconf :: "load_env \<Rightarrow> unit_id \<Rightarrow> (unit_relations \<Rightarrow> unit_id list) \<Rightarrow> unit_rt \<Rightarrow> unit_rt option" where
  "insert_udconf L u conf s =
     (if u \<in> rt_units s then insert_udconf_deps L u (udconf_deps L u conf) s else Some s)"

definition load_unit_confs :: "load_env \<Rightarrow> unit_id \<Rightarrow> unit_rt \<Rightarrow> (bool \<times> unit_rt) option" where
  "load_unit_confs L u s =
     (case le_conf L u of
        None \<Rightarrow> Some (False, s)
      | Some conf \<Rightarrow> map_option (Pair True) (insert_udconf L u conf s))"

section \<open>Requests of a unit type\<close>

text \<open>\<open>drain\<close> is \<open>dispatch_load_queue\<close> called from inside a load.\<close>

type_synonym drain = "unit_rt \<Rightarrow> unit_rt option"

definition load_unit :: "load_env \<Rightarrow> drain \<Rightarrow> unit_id \<Rightarrow> unit_rt \<Rightarrow> (bool \<times> unit_rt) option" where
  "load_unit L drain u s = do {
     (ok, s1) \<leftarrow> prepare_unit L u s;
     if ok then map_option (Pair True) (drain s1) else Some (False, s1) }"

definition load_unit_success :: "load_env \<Rightarrow> drain \<Rightarrow> unit_id \<Rightarrow> unit_rt \<Rightarrow> (bool \<times> unit_rt) option" where
  "load_unit_success L drain u s = do {
     (ok, s1) \<leftarrow> load_unit L drain u s;
     Some (ok \<and> ux_load_state (rt_obj s1 u) = LoadLoaded, s1) }"

definition unit_add_dependency ::
  "load_env \<Rightarrow> drain \<Rightarrow> unit_id \<Rightarrow> unit_relations \<Rightarrow> unit_id \<Rightarrow> unit_rt \<Rightarrow> (bool \<times> unit_rt) option" where
  "unit_add_dependency L drain u r x s = do {
     (ok, s1) \<leftarrow> load_unit L drain u s;
     if \<not> ok then Some (False, s1)
     else do {
       (ok', s2) \<leftarrow> load_unit L drain x s1;
       if \<not> ok' then Some (False, s2)
       else do {
         d \<leftarrow> unit_dep_insert u r x True (push_bit 2 1) (rt_dep s2);
         Some (True, s2\<lparr>rt_dep := d\<rparr>) } } }"

fun sub_calls :: "load_env \<Rightarrow> drain \<Rightarrow> unit_id \<Rightarrow> sub_call list \<Rightarrow> unit_rt \<Rightarrow> (bool \<times> unit_rt) option" where
  "sub_calls L drain u [] s = Some (True, s)"
| "sub_calls L drain u (SubDep r x strict # cs) s = do {
     (ok, s1) \<leftarrow> unit_add_dependency L drain u r x s;
     if ok \<or> \<not> strict then sub_calls L drain u cs s1 else Some (False, s1) }"
| "sub_calls L drain u (SubRef x # cs) s = do {
     (ok, s1) \<leftarrow> load_unit_success L drain x s;
     if ok then sub_calls L drain u cs s1 else Some (False, s1) }"

definition sub_load :: "load_env \<Rightarrow> drain \<Rightarrow> unit_id \<Rightarrow> unit_rt \<Rightarrow> (bool \<times> unit_rt) option" where
  "sub_load L drain u s = do {
     (ok, s1) \<leftarrow> sub_calls L drain u (fst (le_sub L u)) s;
     Some (ok \<and> snd (le_sub L u), s1) }"

section \<open>Loading\<close>

definition unit_load :: "load_env \<Rightarrow> drain \<Rightarrow> unit_id \<Rightarrow> unit_rt \<Rightarrow> (bool \<times> unit_rt) option" where
  "unit_load L drain u s = do {
     s1 \<leftarrow> set_in_load_queue False u s;
     if ux_type (rt_obj s1 u) = UnitMount then map_option (Pair True) (set_load_state LoadLoaded u s1)
     else do {
       (ok, s2) \<leftarrow> load_unit_confs L u s1;
       if \<not> ok then map_option (Pair False) (set_load_state LoadNotFound u s2)
       else do {
         (ok', s3) \<leftarrow> sub_load L drain u s2;
         if ok' then map_option (Pair True) (set_load_state LoadLoaded u s3) else Some (False, s3) } } }"

fun target_dep_scan :: "load_env \<Rightarrow> unit_id \<Rightarrow> unit_id list \<Rightarrow> unit_rt \<Rightarrow> unit_rt option" where
  "target_dep_scan L u [] s = Some s"
| "target_dep_scan L u (t # ts) s =
     (if ux_type (rt_obj s t) \<noteq> UnitTarget then Some s
      else if ux_load_state (rt_obj s u) \<noteq> LoadLoaded \<or> ux_load_state (rt_obj s t) \<noteq> LoadLoaded then Some s
      else if \<not> le_default_dependencies L u \<or> \<not> le_default_dependencies L t then Some s
      else if is_dep_atom_with (rt_dep s) t UnitAtomBefore u then Some s
      else do {
        d \<leftarrow> unit_dep_insert t UnitAfter u True (push_bit 2 1) (rt_dep s);
        target_dep_scan L u ts (s\<lparr>rt_dep := d\<rparr>) })"

definition dispatch_target_dep_unit :: "load_env \<Rightarrow> unit_id \<Rightarrow> unit_rt \<Rightarrow> unit_rt option" where
  "dispatch_target_dep_unit L u s = do {
     s1 \<leftarrow> set_in_target_dep_queue False u s;
     target_dep_scan L u (dep_gets_atom (rt_dep s1) u UnitAtomDefaultTargetDependencies) s1 }"

text \<open>Nothing is pushed while this queue is drained.\<close>

definition dispatch_target_dep_queue :: "load_env \<Rightarrow> unit_rt \<Rightarrow> unit_rt option" where
  "dispatch_target_dep_queue L s =
     fold_opt (dispatch_target_dep_unit L) (rt_target_dep_queue s) (s\<lparr>rt_target_dep_queue := []\<rparr>)"

definition load_queue_round :: "load_env \<Rightarrow> drain \<Rightarrow> unit_id \<Rightarrow> unit_rt \<Rightarrow> unit_rt option" where
  "load_queue_round L drain u s = do {
     (ok, s1) \<leftarrow> unit_load L drain u s;
     if ok then if ux_load_state (rt_obj s1 u) = LoadLoaded then push_target_dep_queue u s1 else Some s1
     else unit_remove u s1 }"

fun dispatch_load_queue :: "load_env \<Rightarrow> nat \<Rightarrow> unit_rt \<Rightarrow> unit_rt option" where
  "dispatch_load_queue L 0 s =
     (case rt_load_queue s of [] \<Rightarrow> dispatch_target_dep_queue L s | _ \<Rightarrow> None)"
| "dispatch_load_queue L (Suc n) s =
     (case rt_load_queue s of
        [] \<Rightarrow> dispatch_target_dep_queue L s
      | u # q \<Rightarrow> do {
          s1 \<leftarrow> load_queue_round L (dispatch_load_queue L n) u (s\<lparr>rt_load_queue := q\<rparr>);
          dispatch_load_queue L n s1 })"

text \<open>Recovery of the queues.\<close>

definition rt_map_one :: "unit_id \<Rightarrow> unit_rt \<Rightarrow> unit_rt option" where
  "rt_map_one u s = do {
     s1 \<leftarrow> (if pps_contains s u QUEUE_LOAD then do { rust_assert (u \<in> rt_units s); push_load_queue u s } else Some s);
     if pps_contains s1 u QUEUE_TARGET_DEPS then do { rust_assert (u \<in> rt_units s1); push_target_dep_queue u s1 } else Some s1 }"

definition rt_db_map :: "bool \<Rightarrow> unit_rt \<Rightarrow> unit_rt option" where
  "rt_db_map reload s = (if reload then Some s else fold_opt rt_map_one (redb_keys (rt_pps s)) s)"

definition rt_entry_clear :: "unit_rt \<Rightarrow> unit_rt" where
  "rt_entry_clear s = s\<lparr>rt_load_queue := [], rt_target_dep_queue := []\<rparr>"

section \<open>Loading terminates\<close>

text \<open>
  A file that is read can be loaded (\<open>good\<close>); \<open>refs\<close> are the names a load asks for. \<open>loads_fine\<close> is a set of
  unit names closed under them in which every unit whose file is read is also accepted by its unit type.
\<close>

definition good :: "load_env \<Rightarrow> unit_id \<Rightarrow> bool" where
  "good L u \<longleftrightarrow> unit_name_to_type u = UnitMount \<or> le_conf L u \<noteq> None"

fun call_target :: "sub_call \<Rightarrow> unit_id" where
  "call_target (SubDep _ x _) = x"
| "call_target (SubRef x) = x"

definition refs :: "load_env \<Rightarrow> unit_id \<Rightarrow> unit_id list" where
  "refs L u = (if unit_name_to_type u = UnitMount then []
     else (case le_conf L u of None \<Rightarrow> [] | Some conf \<Rightarrow> map snd (udconf_deps L u conf)) @ map call_target (fst (le_sub L u)))"

definition loads_fine :: "load_env \<Rightarrow> unit_id set \<Rightarrow> bool" where
  "loads_fine L us \<longleftrightarrow> finite us \<and> (\<forall>u \<in> us. set (refs L u) \<subseteq> us \<and>
     unit_name_to_type u \<noteq> UnitTypeInvalid \<and> le_plugin L (unit_name_to_type u) \<and>
     (good L u \<longrightarrow> unit_name_to_type u \<noteq> UnitMount \<longrightarrow> snd (le_sub L u)) \<and>
     (\<forall>c \<in> set (fst (le_sub L u)). \<exists>r x b. c = SubDep r x b))"

definition cost :: "load_env \<Rightarrow> unit_id \<Rightarrow> nat" where
  "cost L u = (if good L u then Suc (length (refs L u)) else 1)"

definition pending :: "load_env \<Rightarrow> unit_rt \<Rightarrow> unit_id \<Rightarrow> bool" where
  "pending L s u \<longleftrightarrow> u \<in> set (rt_load_queue s) \<or> good L u \<and> u \<notin> rt_units s"

definition weight :: "load_env \<Rightarrow> unit_id set \<Rightarrow> unit_rt \<Rightarrow> nat" where
  "weight L us s = (\<Sum>u \<in> us. if pending L s u then cost L u else 0)"

text \<open>\<open>S\<close> are the units whose load is under way.\<close>

definition unit_ok :: "load_env \<Rightarrow> unit_id set \<Rightarrow> unit_rt \<Rightarrow> unit_id \<Rightarrow> bool" where
  "unit_ok L S s u \<longleftrightarrow> ux_type (rt_obj s u) = unit_name_to_type u \<and>
     (ux_in_load_queue (rt_obj s u) \<longleftrightarrow> u \<in> set (rt_load_queue s)) \<and>
     ux_load_state (rt_obj s u) = (if u \<in> S \<union> set (rt_load_queue s) then LoadStub else LoadLoaded) \<and>
     (u \<notin> S \<union> set (rt_load_queue s) \<longrightarrow> good L u \<and> set (refs L u) \<subseteq> rt_units s \<union> {x. \<not> good L x})"

definition rt_inv :: "load_env \<Rightarrow> unit_id set \<Rightarrow> unit_id set \<Rightarrow> unit_rt \<Rightarrow> bool" where
  "rt_inv L us S s \<longleftrightarrow> dep_wf (rt_dep s) \<and> rt_units s \<subseteq> ud_base (rt_dep s) \<and> ud_base (rt_dep s) \<subseteq> us \<and>
     distinct (rt_load_queue s) \<and> S \<union> set (rt_load_queue s) \<subseteq> rt_units s \<and> S \<inter> set (rt_load_queue s) = {} \<and>
     set (rt_target_dep_queue s) \<subseteq> ud_base (rt_dep s) \<and> (\<forall>u \<in> rt_units s. unit_ok L S s u)"

lemma rt_invD:
  assumes "rt_inv L us S s"
  shows "dep_wf (rt_dep s)" "rt_units s \<subseteq> us" "rt_units s \<subseteq> ud_base (rt_dep s)" "distinct (rt_load_queue s)"
    "S \<subseteq> rt_units s" "set (rt_load_queue s) \<subseteq> rt_units s" "S \<inter> set (rt_load_queue s) = {}"
    "set (rt_target_dep_queue s) \<subseteq> ud_base (rt_dep s)" "\<And>u. u \<in> rt_units s \<Longrightarrow> unit_ok L S s u" "ud_base (rt_dep s) \<subseteq> us"
  using assms by (auto simp: rt_inv_def)

text \<open>What a step may do to the rest: no unit that can be loaded disappears, and the base table only grows.\<close>

definition kept :: "load_env \<Rightarrow> unit_rt \<Rightarrow> unit_rt \<Rightarrow> bool" where
  "kept L s s' \<longleftrightarrow> (\<forall>x \<in> rt_units s. good L x \<longrightarrow> x \<in> rt_units s') \<and> ud_base (rt_dep s) \<subseteq> ud_base (rt_dep s')"

lemma kept_refl [simp]: "kept L s s"
  by (simp add: kept_def)

lemma kept_trans [trans]: "kept L s1 s2 \<Longrightarrow> kept L s2 s3 \<Longrightarrow> kept L s1 s3"
  by (auto simp: kept_def)

lemma pps_put_eq: "u \<in> ud_base (rt_dep s) \<Longrightarrow> pps_put u p s = Some (s\<lparr>rt_pps := redb_insert u p (rt_pps s)\<rparr>)"
  by (simp add: pps_put_def base_contains_def)

lemma load_insert_eq: "u \<in> ud_base (rt_dep s) \<Longrightarrow> load_insert u st s = Some (s\<lparr>rt_load := redb_insert u st (rt_load s)\<rparr>)"
  by (simp add: load_insert_def base_contains_def)

lemmas table_defs = pps_insert_def pps_set_def pps_clear_def pps_put_eq load_insert_eq upd_unit_def Let_def

lemma unit_dep_insert_total:
  assumes "dep_wf d" "s \<in> ud_base d" "x \<in> ud_base d"
  shows "\<exists>d'. unit_dep_insert s r x reference m d = Some d' \<and> dep_wf d' \<and> ud_base d' = ud_base d"
proof (cases "s = x")
  case True
  then show ?thesis using assms(1) by (simp add: unit_dep_insert_def dep_check_def dep_data_insert_def)
next
  case False
  then show ?thesis using dep_data_insert_total [OF assms False, of r reference m]
    by (auto simp: unit_dep_insert_def dep_check_def)
qed

lemma rt_inv_dep:
  assumes "rt_inv L us S s" "dep_wf d" "ud_base d = ud_base (rt_dep s)"
  shows "rt_inv L us S (s\<lparr>rt_dep := d\<rparr>)"
  using assms by (simp add: rt_inv_def unit_ok_def)

lemma weight_dep [simp]: "weight L us (s\<lparr>rt_dep := d\<rparr>) = weight L us s"
  by (simp add: weight_def pending_def)

lemma sum_point:
  fixes f g :: "'a \<Rightarrow> nat"
  assumes "finite A" and "x \<in> A" and "\<And>y. y \<noteq> x \<Longrightarrow> f y = g y"
  shows "(\<Sum>y \<in> A. f y) + g x = (\<Sum>y \<in> A. g y) + f x"
proof -
  have "(\<Sum>y \<in> A. f y) = f x + (\<Sum>y \<in> A - {x}. f y)" "(\<Sum>y \<in> A. g y) = g x + (\<Sum>y \<in> A - {x}. g y)"
    using assms(1,2) by (simp_all add: sum.remove)
  moreover have "(\<Sum>y \<in> A - {x}. f y) = (\<Sum>y \<in> A - {x}. g y)" by (rule sum.cong) (use assms(3) in auto)
  ultimately show ?thesis by simp
qed

section \<open>Asking for a unit\<close>

lemma dep_wf_base_mono: "dep_wf d \<Longrightarrow> dep_wf (d\<lparr>ud_base := insert u (ud_base d)\<rparr>)"
  by (auto simp: dep_wf_def dep_get_def)

lemma prepare_new:
  assumes inv: "rt_inv L us S s" and fine: "loads_fine L us" and x: "x \<in> us" "x \<notin> rt_units s"
  shows "\<exists>s'. prepare_unit L x s = Some (True, s') \<and> rt_inv L us S s' \<and> rt_units s' = insert x (rt_units s) \<and>
    kept L s s' \<and> x \<in> ud_base (rt_dep s') \<and> weight L us s' \<le> weight L us s + 1"
proof -
  note d = rt_invD [OF inv]
  have f: "finite us" "unit_name_to_type x \<noteq> UnitTypeInvalid" "le_plugin L (unit_name_to_type x)"
    using fine x by (auto simp: loads_fine_def)
  let ?o = "\<lparr>ux_type = unit_name_to_type x, ux_load_state = LoadStub, ux_in_load_queue = True, ux_in_target_dep_queue = False\<rparr>"
  have "\<exists>s'. prepare_unit L x s = Some (True, s') \<and> rt_obj s' = (rt_obj s)(x := ?o) \<and> rt_units s' = insert x (rt_units s) \<and>
      rt_dep s' = (rt_dep s)\<lparr>ud_base := insert x (ud_base (rt_dep s))\<rparr> \<and> rt_load_queue s' = rt_load_queue s @ [x] \<and>
      rt_target_dep_queue s' = rt_target_dep_queue s"
    using x(2) f(2,3) by (simp add: prepare_unit_def try_new_unit_def Let_def unit_x_new_def base_insert_def table_defs
        push_load_queue_def set_in_load_queue_def)
  then obtain s' where p: "prepare_unit L x s = Some (True, s')" and e: "rt_obj s' = (rt_obj s)(x := ?o)"
      "rt_units s' = insert x (rt_units s)" "rt_dep s' = (rt_dep s)\<lparr>ud_base := insert x (ud_base (rt_dep s))\<rparr>"
      "rt_load_queue s' = rt_load_queue s @ [x]" "rt_target_dep_queue s' = rt_target_dep_queue s" by (elim exE conjE)
  have q: "x \<notin> set (rt_load_queue s)" "x \<notin> S" using d(5,6) x(2) by auto
  have "unit_ok L S s' u" if "u \<in> rt_units s'" for u
    using that d(9) [of u] x(2) q by (cases "u = x") (auto simp: unit_ok_def e)
  then have "rt_inv L us S s'" using d x q dep_wf_base_mono [OF d(1)] by (auto simp: rt_inv_def e)
  moreover have "weight L us s' \<le> weight L us s + 1"
  proof -
    have "weight L us s' + (if pending L s x then cost L x else 0) = weight L us s + (if pending L s' x then cost L x else 0)"
      unfolding weight_def by (rule sum_point [OF f(1) x(1)]) (auto simp: pending_def e)
    moreover have "pending L s' x" "pending L s x \<longleftrightarrow> good L x" using x(2) q by (auto simp: pending_def e)
    ultimately show ?thesis by (simp add: cost_def split: if_splits)
  qed
  moreover have "kept L s s'" by (auto simp: kept_def e)
  ultimately show ?thesis using p e(2,3) by simp
qed

lemma prepare_total:
  assumes inv: "rt_inv L us S s" and fine: "loads_fine L us" and x: "x \<in> us"
  shows "\<exists>s'. prepare_unit L x s = Some (True, s') \<and> rt_inv L us S s' \<and> rt_units s' = insert x (rt_units s) \<and>
    kept L s s' \<and> x \<in> ud_base (rt_dep s') \<and> weight L us s' \<le> weight L us s + (if x \<in> rt_units s then 0 else 1)"
proof (cases "x \<in> rt_units s")
  case True
  then have "unit_ok L S s x" "x \<in> ud_base (rt_dep s)" using rt_invD(3,9) [OF inv] by auto
  then have "prepare_unit L x s = Some (True, s)" using True by (simp add: prepare_unit_def unit_ok_def)
  then show ?thesis using inv True \<open>x \<in> ud_base (rt_dep s)\<close> by (simp add: insert_absorb)
next
  case False
  then show ?thesis using prepare_new [OF assms False] by simp
qed

lemma insert_deps_total:
  assumes fine: "loads_fine L us"
  shows "rt_inv L us S s \<Longrightarrow> u \<in> ud_base (rt_dep s) \<Longrightarrow> snd ` set es \<subseteq> us \<Longrightarrow>
    \<exists>s'. insert_udconf_deps L u es s = Some s' \<and> rt_inv L us S s' \<and> kept L s s' \<and> rt_units s' = rt_units s \<union> snd ` set es \<and>
      weight L us s' \<le> weight L us s + length es"
proof (induction es arbitrary: s)
  case (Cons e es)
  obtain r x where e: "e = (r, x)" by (cases e)
  have x: "x \<in> us" using Cons.prems(3) e by simp
  obtain s1 where s1: "push_dep_unit_into_load_queue L x s = Some (True, s1)" "rt_inv L us S s1" "rt_units s1 = insert x (rt_units s)"
    "kept L s s1" "x \<in> ud_base (rt_dep s1)" "weight L us s1 \<le> weight L us s + 1"
  proof (cases "x \<in> rt_units s")
    case True
    then show ?thesis using that [of s] Cons.prems(1) rt_invD(3) [OF Cons.prems(1)]
      by (auto simp: push_dep_unit_into_load_queue_def insert_absorb)
  next
    case False
    then show ?thesis using that prepare_new [OF Cons.prems(1) fine x False] by (auto simp: push_dep_unit_into_load_queue_def)
  qed
  have u: "u \<in> ud_base (rt_dep s1)" using s1(4) Cons.prems(2) by (auto simp: kept_def)
  obtain d where d: "unit_dep_insert u r x True 0 (rt_dep s1) = Some d" "dep_wf d" "ud_base d = ud_base (rt_dep s1)"
    using unit_dep_insert_total [OF rt_invD(1) [OF s1(2)] u s1(5)] by blast
  let ?s = "s1\<lparr>rt_dep := d\<rparr>"
  have "\<exists>s'. insert_udconf_deps L u es ?s = Some s' \<and> rt_inv L us S s' \<and> kept L ?s s' \<and> rt_units s' = rt_units ?s \<union> snd ` set es \<and>
      weight L us s' \<le> weight L us ?s + length es"
    by (rule Cons.IH) (use rt_inv_dep [OF s1(2) d(2,3)] d(3) u Cons.prems(3) in auto)
  then obtain s' where s': "insert_udconf_deps L u es ?s = Some s'" "rt_inv L us S s'" "kept L ?s s'" "rt_units s' = rt_units ?s \<union> snd ` set es"
    "weight L us s' \<le> weight L us ?s + length es" by (elim exE conjE)
  have "kept L s ?s" using s1(4) d(3) by (simp add: kept_def)
  then have "kept L s s'" using s'(3) by (rule kept_trans)
  then show ?case using s1(1,3,6) d(1) s' e by (intro exI [of _ s']) simp
qed simp

text \<open>What a drain started from inside a load does, for weights up to \<open>n\<close>.\<close>

definition drain_ok :: "load_env \<Rightarrow> unit_id set \<Rightarrow> nat \<Rightarrow> drain \<Rightarrow> bool" where
  "drain_ok L us n drain \<longleftrightarrow> (\<forall>S s. rt_inv L us S s \<longrightarrow> weight L us s \<le> n \<longrightarrow>
     (\<exists>s'. drain s = Some s' \<and> rt_inv L us S s' \<and> kept L s s' \<and> weight L us s' \<le> weight L us s \<and>
        rt_load_queue s' = [] \<and> rt_target_dep_queue s' = []))"

lemma load_unit_total:
  assumes dr: "drain_ok L us n drain" and fine: "loads_fine L us" and inv: "rt_inv L us S s" and x: "x \<in> us"
    and w: "weight L us s + (if x \<in> rt_units s then 0 else 1) \<le> n"
  shows "\<exists>s'. load_unit L drain x s = Some (True, s') \<and> rt_inv L us S s' \<and> kept L s s' \<and> x \<in> ud_base (rt_dep s') \<and>
    (good L x \<longrightarrow> x \<in> rt_units s') \<and> weight L us s' \<le> weight L us s + (if x \<in> rt_units s then 0 else 1) \<and>
    rt_load_queue s' = [] \<and> rt_target_dep_queue s' = []"
proof -
  obtain s1 where s1: "prepare_unit L x s = Some (True, s1)" "rt_inv L us S s1" "rt_units s1 = insert x (rt_units s)" "kept L s s1"
    "x \<in> ud_base (rt_dep s1)" "weight L us s1 \<le> weight L us s + (if x \<in> rt_units s then 0 else 1)"
    using prepare_total [OF inv fine x] by blast
  obtain s2 where s2: "drain s1 = Some s2" "rt_inv L us S s2" "kept L s1 s2" "weight L us s2 \<le> weight L us s1"
    "rt_load_queue s2 = []" "rt_target_dep_queue s2 = []"
    using dr s1(2) order_trans [OF s1(6) w] unfolding drain_ok_def by blast
  have "kept L s s2" using kept_trans [OF s1(4) s2(3)] .
  moreover have "x \<in> ud_base (rt_dep s2)" "good L x \<longrightarrow> x \<in> rt_units s2" using s2(3) s1(3,5) by (auto simp: kept_def)
  ultimately show ?thesis using s1(1) s2 order_trans [OF s2(4) s1(6)] by (simp add: load_unit_def)
qed

lemma sub_calls_total:
  assumes dr: "drain_ok L us n drain" and fine: "loads_fine L us" and g: "good L u"
  shows "rt_inv L us S s \<Longrightarrow> u \<in> rt_units s \<Longrightarrow> call_target ` set cs \<subseteq> us \<Longrightarrow> \<forall>c \<in> set cs. \<exists>r x b. c = SubDep r x b \<Longrightarrow>
    weight L us s + length cs \<le> n \<Longrightarrow>
    \<exists>s'. sub_calls L drain u cs s = Some (True, s') \<and> rt_inv L us S s' \<and> kept L s s' \<and>
      call_target ` set cs \<subseteq> rt_units s' \<union> {x. \<not> good L x} \<and> weight L us s' \<le> weight L us s + length cs"
proof (induction cs arbitrary: s)
  case (Cons c cs)
  obtain r x b where c: "c = SubDep r x b" using Cons.prems(4) by auto
  have us: "u \<in> us" "x \<in> us" using Cons.prems(2,3) rt_invD(2) [OF Cons.prems(1)] c by auto
  have w: "weight L us s + (if u \<in> rt_units s then 0 else 1) \<le> n" using Cons.prems(2,5) by simp
  obtain s1 where s1: "load_unit L drain u s = Some (True, s1)" "rt_inv L us S s1" "kept L s s1" "u \<in> rt_units s1"
    "weight L us s1 \<le> weight L us s"
    using load_unit_total [OF dr fine Cons.prems(1) us(1) w] g Cons.prems(2) by auto
  have w: "weight L us s1 + (if x \<in> rt_units s1 then 0 else 1) \<le> n" using s1(5) Cons.prems(5) by simp
  obtain s2 where s2: "load_unit L drain x s1 = Some (True, s2)" "rt_inv L us S s2" "kept L s1 s2" "x \<in> ud_base (rt_dep s2)"
    "good L x \<longrightarrow> x \<in> rt_units s2" "weight L us s2 \<le> weight L us s1 + (if x \<in> rt_units s1 then 0 else 1)"
    using load_unit_total [OF dr fine s1(2) us(2) w] by (elim exE conjE)
  have u: "u \<in> rt_units s2" using s1(4) s2(3) g by (auto simp: kept_def)
  have "u \<in> ud_base (rt_dep s2)" using u rt_invD(3) [OF s2(2)] by auto
  then obtain d where d: "unit_dep_insert u r x True (push_bit 2 1) (rt_dep s2) = Some d" "dep_wf d" "ud_base d = ud_base (rt_dep s2)"
    using unit_dep_insert_total [OF rt_invD(1) [OF s2(2)] _ s2(4)] by blast
  let ?s = "s2\<lparr>rt_dep := d\<rparr>"
  have ad: "unit_add_dependency L drain u r x s = Some (True, ?s)" using s1(1) s2(1) d(1) by (simp add: unit_add_dependency_def)
  have k: "kept L s ?s" using kept_trans [OF s1(3) s2(3)] d(3) by (simp add: kept_def)
  have ws: "weight L us ?s \<le> weight L us s + 1" using s2(6) s1(5) by (simp split: if_splits)
  have "\<exists>s'. sub_calls L drain u cs ?s = Some (True, s') \<and> rt_inv L us S s' \<and> kept L ?s s' \<and>
      call_target ` set cs \<subseteq> rt_units s' \<union> {x. \<not> good L x} \<and> weight L us s' \<le> weight L us ?s + length cs"
    by (rule Cons.IH) (use rt_inv_dep [OF s2(2) d(2,3)] u ws Cons.prems(3-5) in auto)
  then obtain s' where s': "sub_calls L drain u cs ?s = Some (True, s')" "rt_inv L us S s'" "kept L ?s s'"
    "call_target ` set cs \<subseteq> rt_units s' \<union> {x. \<not> good L x}" "weight L us s' \<le> weight L us ?s + length cs" by (elim exE conjE)
  have "x \<in> rt_units s' \<or> \<not> good L x" using s2(5) s'(3) by (auto simp: kept_def)
  then show ?case using s' ad c kept_trans [OF k s'(3)] ws by (intro exI [of _ s']) auto
qed simp

section \<open>One round\<close>

lemma pop_total:
  assumes inv: "rt_inv L us S s" and q: "rt_load_queue s = u # q" and fine: "loads_fine L us"
  shows "\<exists>s'. set_in_load_queue False u (s\<lparr>rt_load_queue := q\<rparr>) = Some s' \<and> rt_inv L us (insert u S) s' \<and> kept L s s' \<and>
    u \<in> rt_units s' \<and> u \<notin> S \<and> u \<notin> set (rt_load_queue s') \<and> ux_type (rt_obj s' u) = unit_name_to_type u \<and>
    weight L us s' + cost L u = weight L us s"
proof -
  note d = rt_invD [OF inv]
  have u: "u \<in> rt_units s" "u \<notin> set q" "u \<notin> S" "u \<in> us" "u \<in> ud_base (rt_dep s)" using d(2-7) q by auto
  let ?x = "(rt_obj s u)\<lparr>ux_in_load_queue := False\<rparr>"
  have "\<exists>s'. set_in_load_queue False u (s\<lparr>rt_load_queue := q\<rparr>) = Some s' \<and> rt_obj s' = (rt_obj s)(u := ?x) \<and>
      rt_units s' = rt_units s \<and> rt_dep s' = rt_dep s \<and> rt_load_queue s' = q \<and> rt_target_dep_queue s' = rt_target_dep_queue s"
    using u(5) by (simp add: set_in_load_queue_def table_defs)
  then obtain s' where s': "set_in_load_queue False u (s\<lparr>rt_load_queue := q\<rparr>) = Some s'" and e: "rt_obj s' = (rt_obj s)(u := ?x)"
      "rt_units s' = rt_units s" "rt_dep s' = rt_dep s" "rt_load_queue s' = q" "rt_target_dep_queue s' = rt_target_dep_queue s"
    by (elim exE conjE)
  have "unit_ok L (insert u S) s' v" if "v \<in> rt_units s'" for v
    using that d(9) [of v] q u by (cases "v = u") (auto simp: unit_ok_def e)
  then have "rt_inv L us (insert u S) s'" using d q u by (auto simp: rt_inv_def e)
  moreover have "weight L us s' + (if pending L s u then cost L u else 0) = weight L us s + (if pending L s' u then cost L u else 0)"
    unfolding weight_def by (rule sum_point) (use fine u in \<open>auto simp: loads_fine_def pending_def e q\<close>)
  then have "weight L us s' + cost L u = weight L us s" using u q by (simp add: pending_def e)
  ultimately show ?thesis using s' d(9) [OF u(1)] u by (simp add: e kept_def unit_ok_def)
qed

lemma unit_load_bad:
  assumes inv: "rt_inv L us (insert u S) s" and u: "u \<in> rt_units s" "u \<notin> S" and b: "\<not> good L u"
    and t: "ux_type (rt_obj s u) = unit_name_to_type u"
  shows "\<exists>s1 s'. load_unit_confs L u s = Some (False, s) \<and> set_load_state LoadNotFound u s = Some s1 \<and> unit_remove u s1 = Some s' \<and>
    rt_inv L us S s' \<and> kept L s s' \<and> weight L us s' = weight L us s"
proof -
  note d = rt_invD [OF inv]
  have c: "le_conf L u = None" using b by (simp add: good_def)
  have ub: "u \<in> ud_base (rt_dep s)" using u d(3) by auto
  let ?s1 = "s\<lparr>rt_obj := (rt_obj s)(u := (rt_obj s u)\<lparr>ux_load_state := LoadNotFound\<rparr>), rt_load := redb_insert u LoadNotFound (rt_load s)\<rparr>"
  have s1: "set_load_state LoadNotFound u s = Some ?s1" using ub by (simp add: set_load_state_def table_defs)
  obtain dp where dp: "dep_remove_unit u (rt_dep s) = Some dp" "dep_wf dp" "ud_base dp = ud_base (rt_dep s)"
    using dep_remove_unit_total [OF d(1), of u] by blast
  let ?s = "?s1\<lparr>rt_units := rt_units s - {u}, rt_dep := dp\<rparr>"
  have r: "unit_remove u ?s1 = Some ?s" using u(1) dp(1) by (simp add: unit_remove_def)
  have "unit_ok L S ?s v" if "v \<in> rt_units ?s" for v
    using that d(9) [of v] b by (auto simp: unit_ok_def)
  then have "rt_inv L us S ?s" using d u dp by (auto simp: rt_inv_def)
  moreover have "kept L s ?s" using b dp(3) by (auto simp: kept_def)
  moreover have "weight L us ?s = weight L us s"
    unfolding weight_def by (rule sum.cong) (use b in \<open>auto simp: pending_def\<close>)
  ultimately show ?thesis using s1 r c by (simp add: load_unit_confs_def)
qed

text \<open>A unit that has loaded: it leaves \<open>S\<close>.\<close>

lemma loaded_total:
  assumes inv: "rt_inv L us (insert u S) s" and u: "u \<in> rt_units s" "u \<notin> S" and g: "good L u"
    and r: "set (refs L u) \<subseteq> rt_units s \<union> {x. \<not> good L x}"
  shows "\<exists>s1 s'. set_load_state LoadLoaded u s = Some s1 \<and> ux_load_state (rt_obj s1 u) = LoadLoaded \<and>
    push_target_dep_queue u s1 = Some s' \<and> rt_inv L us S s' \<and> kept L s s' \<and> weight L us s' = weight L us s"
proof -
  note d = rt_invD [OF inv]
  have ub: "u \<in> ud_base (rt_dep s)" "u \<notin> set (rt_load_queue s)" using u d(3,7) by auto
  let ?s1 = "s\<lparr>rt_obj := (rt_obj s)(u := (rt_obj s u)\<lparr>ux_load_state := LoadLoaded\<rparr>), rt_load := redb_insert u LoadLoaded (rt_load s)\<rparr>"
  have s1: "set_load_state LoadLoaded u s = Some ?s1" using ub by (simp add: set_load_state_def table_defs)
  have "\<exists>s' b. push_target_dep_queue u ?s1 = Some s' \<and>
      rt_obj s' = (rt_obj s)(u := (rt_obj s u)\<lparr>ux_load_state := LoadLoaded, ux_in_target_dep_queue := b\<rparr>) \<and>
      rt_units s' = rt_units s \<and> rt_dep s' = rt_dep s \<and> rt_load_queue s' = rt_load_queue s \<and>
      set (rt_target_dep_queue s') \<subseteq> insert u (set (rt_target_dep_queue s))"
  proof (cases "ux_in_target_dep_queue (rt_obj s u)")
    case True
    then show ?thesis by (intro exI [of _ ?s1] exI [of _ True]) (auto simp: push_target_dep_queue_def)
  next
    case False
    then show ?thesis using ub by (auto simp: push_target_dep_queue_def set_in_target_dep_queue_def table_defs)
  qed
  then obtain s' b where s': "push_target_dep_queue u ?s1 = Some s'"
      and e: "rt_obj s' = (rt_obj s)(u := (rt_obj s u)\<lparr>ux_load_state := LoadLoaded, ux_in_target_dep_queue := b\<rparr>)"
      "rt_units s' = rt_units s" "rt_dep s' = rt_dep s" "rt_load_queue s' = rt_load_queue s"
      "set (rt_target_dep_queue s') \<subseteq> insert u (set (rt_target_dep_queue s))" by (elim exE conjE)
  have "unit_ok L S s' v" if "v \<in> rt_units s'" for v
    using that d(9) [of v] g r u ub by (cases "v = u") (auto simp: unit_ok_def e)
  then have "rt_inv L us S s'" using d u ub e(5) by (auto simp: rt_inv_def e(2-4))
  moreover have "weight L us s' = weight L us s" by (simp add: weight_def pending_def e)
  ultimately show ?thesis using s1 s' by (simp add: kept_def e)
qed

lemma unit_load_good:
  assumes dr: "drain_ok L us n drain" and fine: "loads_fine L us" and inv: "rt_inv L us S s" and u: "u \<in> rt_units s"
    and g: "good L u" and m: "unit_name_to_type u \<noteq> UnitMount" and w: "weight L us s + length (refs L u) \<le> n"
  shows "\<exists>s1 s'. load_unit_confs L u s = Some (True, s1) \<and> sub_load L drain u s1 = Some (True, s') \<and> rt_inv L us S s' \<and> kept L s s' \<and>
    u \<in> rt_units s' \<and> set (refs L u) \<subseteq> rt_units s' \<union> {x. \<not> good L x} \<and> weight L us s' \<le> weight L us s + length (refs L u)"
proof -
  obtain conf where c: "le_conf L u = Some conf" using g m by (auto simp: good_def)
  let ?es = "udconf_deps L u conf" and ?cs = "fst (le_sub L u)"
  have rf: "refs L u = map snd ?es @ map call_target ?cs" using m c by (simp add: refs_def)
  have us: "u \<in> us" "u \<in> ud_base (rt_dep s)" using u rt_invD(2,3) [OF inv] by auto
  have f: "set (refs L u) \<subseteq> us" "snd (le_sub L u)" "\<forall>c \<in> set ?cs. \<exists>r x b. c = SubDep r x b"
    using fine us(1) g m by (auto simp: loads_fine_def)
  have ls: "snd ` set ?es \<subseteq> us" "call_target ` set ?cs \<subseteq> us" using f(1) by (auto simp: rf)
  obtain s1 where s1: "insert_udconf_deps L u ?es s = Some s1" "rt_inv L us S s1" "kept L s s1" "rt_units s1 = rt_units s \<union> snd ` set ?es"
    "weight L us s1 \<le> weight L us s + length ?es" using insert_deps_total [OF fine inv us(2) ls(1)] by (elim exE conjE)
  have w1: "weight L us s1 + length ?cs \<le> n" using s1(5) w by (simp add: rf)
  have u1: "u \<in> rt_units s1" using u s1(4) by simp
  obtain s' where s': "sub_calls L drain u ?cs s1 = Some (True, s')" "rt_inv L us S s'" "kept L s1 s'"
    "call_target ` set ?cs \<subseteq> rt_units s' \<union> {x. \<not> good L x}" "weight L us s' \<le> weight L us s1 + length ?cs"
    using sub_calls_total [OF dr fine g s1(2) u1 ls(2) f(3) w1] by (elim exE conjE)
  have "snd ` set ?es \<subseteq> rt_units s' \<union> {x. \<not> good L x}" using s1(4) s'(3) by (auto simp: kept_def)
  then have "set (refs L u) \<subseteq> rt_units s' \<union> {x. \<not> good L x}" using s'(4) by (auto simp: rf)
  moreover have "u \<in> rt_units s'" using u1 s'(3) g by (auto simp: kept_def)
  moreover have "load_unit_confs L u s = Some (True, s1)" using c s1(1) u by (simp add: load_unit_confs_def insert_udconf_def)
  moreover have "sub_load L drain u s1 = Some (True, s')" using s'(1) f(2) by (simp add: sub_load_def)
  moreover have "weight L us s' \<le> weight L us s + length (refs L u)" using s1(5) s'(5) by (simp add: rf)
  ultimately show ?thesis using s'(2) kept_trans [OF s1(3) s'(3)] by blast
qed

lemma round_total:
  assumes dr: "drain_ok L us n drain" and fine: "loads_fine L us" and inv: "rt_inv L us S s" and q: "rt_load_queue s = u # q"
    and w: "weight L us s \<le> Suc n"
  shows "\<exists>s'. load_queue_round L drain u (s\<lparr>rt_load_queue := q\<rparr>) = Some s' \<and> rt_inv L us S s' \<and> kept L s s' \<and> weight L us s' < weight L us s"
proof -
  obtain s0 where s0: "set_in_load_queue False u (s\<lparr>rt_load_queue := q\<rparr>) = Some s0" "rt_inv L us (insert u S) s0" "kept L s s0"
    "u \<in> rt_units s0" "u \<notin> S" "u \<notin> set (rt_load_queue s0)" "ux_type (rt_obj s0 u) = unit_name_to_type u" "weight L us s0 + cost L u = weight L us s"
    using pop_total [OF inv q fine] by (elim exE conjE)
  consider (bad) "\<not> good L u" | (mount) "unit_name_to_type u = UnitMount" | (conf) "good L u" "unit_name_to_type u \<noteq> UnitMount" by blast
  then show ?thesis
  proof cases
    case bad
    then have "unit_name_to_type u \<noteq> UnitMount" by (simp add: good_def)
    moreover obtain s1 s' where s': "load_unit_confs L u s0 = Some (False, s0)" "set_load_state LoadNotFound u s0 = Some s1" "unit_remove u s1 = Some s'"
      "rt_inv L us S s'" "kept L s0 s'" "weight L us s' = weight L us s0"
      using unit_load_bad [OF s0(2,4,5) bad s0(7)] by (elim exE conjE)
    ultimately show ?thesis using s0(1,7,8) bad kept_trans [OF s0(3) s'(5)]
      by (intro exI [of _ s']) (simp add: load_queue_round_def unit_load_def cost_def)
  next
    case mount
    then have "good L u" "set (refs L u) \<subseteq> rt_units s0 \<union> {x. \<not> good L x}" by (simp_all add: good_def refs_def)
    then obtain s1 s' where s': "set_load_state LoadLoaded u s0 = Some s1" "ux_load_state (rt_obj s1 u) = LoadLoaded"
      "push_target_dep_queue u s1 = Some s'" "rt_inv L us S s'" "kept L s0 s'" "weight L us s' = weight L us s0"
      using loaded_total [OF s0(2,4,5)] by blast
    then show ?thesis using s0(1,7,8) mount kept_trans [OF s0(3) s'(5)]
      by (intro exI [of _ s']) (simp add: load_queue_round_def unit_load_def cost_def split: if_splits)
  next
    case conf
    have w0: "weight L us s0 + length (refs L u) \<le> n" using s0(8) w conf(1) by (simp add: cost_def)
    obtain s1 s2 where s2: "load_unit_confs L u s0 = Some (True, s1)" "sub_load L drain u s1 = Some (True, s2)" "rt_inv L us (insert u S) s2"
      "kept L s0 s2" "u \<in> rt_units s2" "set (refs L u) \<subseteq> rt_units s2 \<union> {x. \<not> good L x}" "weight L us s2 \<le> weight L us s0 + length (refs L u)"
      using unit_load_good [OF dr fine s0(2,4) conf w0] by (elim exE conjE)
    obtain s3 s' where s': "set_load_state LoadLoaded u s2 = Some s3" "ux_load_state (rt_obj s3 u) = LoadLoaded"
      "push_target_dep_queue u s3 = Some s'" "rt_inv L us S s'" "kept L s2 s'" "weight L us s' = weight L us s2"
      using loaded_total [OF s2(3,5) s0(5) conf(1) s2(6)] by (elim exE conjE)
    then show ?thesis using s0(1,7,8) conf s2(1,2,7) kept_trans [OF s0(3) kept_trans [OF s2(4) s'(5)]]
      by (intro exI [of _ s']) (simp add: load_queue_round_def unit_load_def cost_def)
  qed
qed

section \<open>Draining the queues\<close>

lemma edge_base: "dep_wf d \<Longrightarrow> edge (ud_t d) a r x \<Longrightarrow> x \<in> ud_base d"
  by (meson dep_wf_def)

lemma target_dep_scan_total:
  "dep_wf (rt_dep s) \<Longrightarrow> set ts \<subseteq> ud_base (rt_dep s) \<Longrightarrow> u \<in> ud_base (rt_dep s) \<Longrightarrow>
    \<exists>d. target_dep_scan L u ts s = Some (s\<lparr>rt_dep := d\<rparr>) \<and> dep_wf d \<and> ud_base d = ud_base (rt_dep s)"
proof (induction ts arbitrary: s)
  case Nil
  then show ?case by (intro exI [of _ "rt_dep s"]) simp
next
  case (Cons t ts)
  have stop: "\<exists>d. Some s = Some (s\<lparr>rt_dep := d\<rparr>) \<and> dep_wf d \<and> ud_base d = ud_base (rt_dep s)"
    using Cons.prems(1) by (intro exI [of _ "rt_dep s"]) simp
  have t: "t \<in> ud_base (rt_dep s)" using Cons.prems(2) by simp
  obtain d where d: "unit_dep_insert t UnitAfter u True (push_bit 2 1) (rt_dep s) = Some d" "dep_wf d" "ud_base d = ud_base (rt_dep s)"
    using unit_dep_insert_total [OF Cons.prems(1) t Cons.prems(3)] by blast
  have "\<exists>d'. target_dep_scan L u ts (s\<lparr>rt_dep := d\<rparr>) = Some ((s\<lparr>rt_dep := d\<rparr>)\<lparr>rt_dep := d'\<rparr>) \<and> dep_wf d' \<and>
      ud_base d' = ud_base (rt_dep (s\<lparr>rt_dep := d\<rparr>))"
    by (rule Cons.IH) (use d Cons.prems in auto)
  then show ?case using stop d by simp
qed

lemma dispatch_target_total:
  assumes inv: "rt_inv L us S s" and u: "u \<in> ud_base (rt_dep s)"
  shows "\<exists>s'. dispatch_target_dep_unit L u s = Some s' \<and> rt_inv L us S s' \<and> kept L s s' \<and> weight L us s' = weight L us s \<and>
    rt_load_queue s' = rt_load_queue s \<and> rt_target_dep_queue s' = rt_target_dep_queue s \<and> ud_base (rt_dep s') = ud_base (rt_dep s)"
proof -
  note d = rt_invD [OF inv]
  let ?x = "(rt_obj s u)\<lparr>ux_in_target_dep_queue := False\<rparr>"
  have "\<exists>s1. set_in_target_dep_queue False u s = Some s1 \<and> rt_obj s1 = (rt_obj s)(u := ?x) \<and> rt_units s1 = rt_units s \<and>
      rt_dep s1 = rt_dep s \<and> rt_load_queue s1 = rt_load_queue s \<and> rt_target_dep_queue s1 = rt_target_dep_queue s"
    using u by (simp add: set_in_target_dep_queue_def table_defs)
  then obtain s1 where s1: "set_in_target_dep_queue False u s = Some s1" and e: "rt_obj s1 = (rt_obj s)(u := ?x)" "rt_units s1 = rt_units s"
      "rt_dep s1 = rt_dep s" "rt_load_queue s1 = rt_load_queue s" "rt_target_dep_queue s1 = rt_target_dep_queue s" by (elim exE conjE)
  let ?ts = "dep_gets_atom (rt_dep s1) u UnitAtomDefaultTargetDependencies"
  have "set ?ts \<subseteq> ud_base (rt_dep s1)"
    using edge_base [OF d(1)] e(3) by (auto simp only: dep_gets_atom_edge)
  then obtain dp where dp: "target_dep_scan L u ?ts s1 = Some (s1\<lparr>rt_dep := dp\<rparr>)" "dep_wf dp" "ud_base dp = ud_base (rt_dep s1)"
    using target_dep_scan_total [of s1 ?ts u L] d(1) e(3) u by auto
  have "unit_ok L S (s1\<lparr>rt_dep := dp\<rparr>) v" if "v \<in> rt_units s1" for v
    using that d(9) [of v] by (auto simp: unit_ok_def e)
  then have "rt_inv L us S (s1\<lparr>rt_dep := dp\<rparr>)" using d dp(2,3) by (auto simp: rt_inv_def e)
  then show ?thesis using s1 dp by (simp add: dispatch_target_dep_unit_def kept_def e weight_def pending_def)
qed

lemma target_fold_total:
  "rt_inv L us S s \<Longrightarrow> set q \<subseteq> ud_base (rt_dep s) \<Longrightarrow>
   \<exists>s'. fold_opt (dispatch_target_dep_unit L) q s = Some s' \<and> rt_inv L us S s' \<and> kept L s s' \<and> weight L us s' = weight L us s \<and>
     rt_load_queue s' = rt_load_queue s \<and> rt_target_dep_queue s' = rt_target_dep_queue s"
proof (induction q arbitrary: s)
  case (Cons u q)
  obtain s1 where s1: "dispatch_target_dep_unit L u s = Some s1" "rt_inv L us S s1" "kept L s s1" "weight L us s1 = weight L us s"
    "rt_load_queue s1 = rt_load_queue s" "rt_target_dep_queue s1 = rt_target_dep_queue s" "ud_base (rt_dep s1) = ud_base (rt_dep s)"
    using dispatch_target_total [OF Cons.prems(1), of u] Cons.prems(2) by auto
  have "set q \<subseteq> ud_base (rt_dep s1)" using Cons.prems(2) s1(7) by simp
  from Cons.IH [OF s1(2) this] obtain s' where s': "fold_opt (dispatch_target_dep_unit L) q s1 = Some s'" "rt_inv L us S s'" "kept L s1 s'"
    "weight L us s' = weight L us s1" "rt_load_queue s' = rt_load_queue s1" "rt_target_dep_queue s' = rt_target_dep_queue s1" by (elim exE conjE)
  then show ?case using s1 kept_trans [OF s1(3) s'(3)] by simp
qed simp

lemma target_queue_total:
  assumes inv: "rt_inv L us S s" and q: "rt_load_queue s = []"
  shows "\<exists>s'. dispatch_target_dep_queue L s = Some s' \<and> rt_inv L us S s' \<and> kept L s s' \<and> weight L us s' \<le> weight L us s \<and>
    rt_load_queue s' = [] \<and> rt_target_dep_queue s' = []"
proof -
  let ?s = "s\<lparr>rt_target_dep_queue := []\<rparr>"
  have "rt_inv L us S ?s" using inv by (simp add: rt_inv_def unit_ok_def)
  moreover have "weight L us ?s = weight L us s" "kept L s ?s" by (simp_all add: weight_def pending_def kept_def)
  ultimately show ?thesis using target_fold_total [of L us S ?s "rt_target_dep_queue s"] rt_invD(8) [OF inv] q
    by (auto simp: dispatch_target_dep_queue_def kept_def)
qed

lemma dispatch_drain_ok:
  assumes fine: "loads_fine L us"
  shows "drain_ok L us n (dispatch_load_queue L n)"
proof (induction n)
  case 0
  have "rt_load_queue s = []" if inv: "rt_inv L us S s" and w: "weight L us s \<le> 0" for S s
  proof (cases "rt_load_queue s")
    case (Cons u q)
    then show ?thesis using pop_total [OF inv Cons fine] w by (auto simp: cost_def split: if_splits)
  qed
  then show ?case unfolding drain_ok_def using target_queue_total by fastforce
next
  case (Suc n)
  show ?case
    unfolding drain_ok_def
  proof (intro allI impI)
    fix S s assume inv: "rt_inv L us S s" and w: "weight L us s \<le> Suc n"
    show "\<exists>s'. dispatch_load_queue L (Suc n) s = Some s' \<and> rt_inv L us S s' \<and> kept L s s' \<and> weight L us s' \<le> weight L us s \<and>
        rt_load_queue s' = [] \<and> rt_target_dep_queue s' = []"
    proof (cases "rt_load_queue s")
      case Nil
      then show ?thesis using target_queue_total [OF inv Nil] by simp
    next
      case (Cons u q)
      obtain s1 where s1: "load_queue_round L (dispatch_load_queue L n) u (s\<lparr>rt_load_queue := q\<rparr>) = Some s1" "rt_inv L us S s1" "kept L s s1"
        "weight L us s1 < weight L us s" using round_total [OF Suc.IH fine inv Cons w] by (elim exE conjE)
      have "weight L us s1 \<le> n" using s1(4) w by simp
      with Suc.IH s1(2) obtain s' where s': "dispatch_load_queue L n s1 = Some s'" "rt_inv L us S s'" "kept L s1 s'" "weight L us s' \<le> weight L us s1"
        "rt_load_queue s' = []" "rt_target_dep_queue s' = []" unfolding drain_ok_def by blast
      then show ?thesis using Cons s1 kept_trans [OF s1(3) s'(3)] by simp
    qed
  qed
qed

lemma weight_le: "loads_fine L us \<Longrightarrow> weight L us s \<le> (\<Sum>u \<in> us. cost L u)"
  unfolding weight_def by (rule sum_mono) simp


section \<open>Loads that do not end\<close>

text \<open>\<open>x\<close> has a file that refers to \<open>y\<close>, and a section of its own that its unit type rejects.\<close>

definition rejects :: "load_env \<Rightarrow> unit_id \<Rightarrow> unit_id \<Rightarrow> bool" where
  "rejects L x y \<longleftrightarrow> x \<noteq> y \<and> unit_name_to_type x \<notin> {UnitTypeInvalid, UnitMount} \<and> le_plugin L (unit_name_to_type x) \<and>
     le_sub L x = ([], False) \<and> (\<exists>conf r. le_conf L x = Some conf \<and> udconf_deps L x conf = [(r, y)])"

definition waits :: "unit_id \<Rightarrow> unit_id \<Rightarrow> unit_rt \<Rightarrow> bool" where
  "waits x y s \<longleftrightarrow> rt_load_queue s = [x] \<and> x \<in> rt_units s \<and> y \<notin> rt_units s \<and> dep_wf (rt_dep s) \<and> rt_units s \<subseteq> ud_base (rt_dep s) \<and>
     ux_type (rt_obj s x) = unit_name_to_type x"

fun load_rounds :: "load_env \<Rightarrow> drain \<Rightarrow> nat \<Rightarrow> unit_rt \<Rightarrow> unit_rt option" where
  "load_rounds L drain 0 s = Some s"
| "load_rounds L drain (Suc k) s =
     (case rt_load_queue s of
        [] \<Rightarrow> None
      | u # q \<Rightarrow> do { s1 \<leftarrow> load_queue_round L drain u (s\<lparr>rt_load_queue := q\<rparr>); load_rounds L drain k s1 })"

lemma round_waits:
  assumes x: "rejects L x y" and y: "rejects L y x" and w: "waits x y s"
  shows "\<exists>s'. load_queue_round L drain x (s\<lparr>rt_load_queue := []\<rparr>) = Some s' \<and> waits y x s'"
proof -
  have s: "rt_load_queue s = [x]" "x \<in> rt_units s" "y \<notin> rt_units s" "dep_wf (rt_dep s)" "rt_units s \<subseteq> ud_base (rt_dep s)"
    "ux_type (rt_obj s x) = unit_name_to_type x" using w by (simp_all add: waits_def)
  obtain conf r where c: "le_conf L x = Some conf" "udconf_deps L x conf = [(r, y)]" using x by (auto simp: rejects_def)
  let ?ox = "(rt_obj s x)\<lparr>ux_in_load_queue := False\<rparr>"
  let ?oy = "\<lparr>ux_type = unit_name_to_type y, ux_load_state = LoadStub, ux_in_load_queue = True, ux_in_target_dep_queue = False\<rparr>"
  have xb: "x \<in> ud_base (rt_dep s)" using s(2,5) by auto
  have "\<exists>s1. set_in_load_queue False x (s\<lparr>rt_load_queue := []\<rparr>) = Some s1 \<and> rt_obj s1 = (rt_obj s)(x := ?ox) \<and> rt_units s1 = rt_units s \<and>
      rt_dep s1 = rt_dep s \<and> rt_load_queue s1 = []" using xb by (simp add: set_in_load_queue_def table_defs)
  then obtain s1 where s1: "set_in_load_queue False x (s\<lparr>rt_load_queue := []\<rparr>) = Some s1" "rt_obj s1 = (rt_obj s)(x := ?ox)" "rt_units s1 = rt_units s"
      "rt_dep s1 = rt_dep s" "rt_load_queue s1 = []" by (elim exE conjE)
  have "\<exists>s2. push_dep_unit_into_load_queue L y s1 = Some (True, s2) \<and> rt_obj s2 = (rt_obj s1)(y := ?oy) \<and> rt_units s2 = insert y (rt_units s1) \<and>
      rt_dep s2 = (rt_dep s1)\<lparr>ud_base := insert y (ud_base (rt_dep s1))\<rparr> \<and> rt_load_queue s2 = [y]"
    using s(3) s1(3,5) y by (simp add: push_dep_unit_into_load_queue_def prepare_unit_def try_new_unit_def unit_x_new_def base_insert_def table_defs
        push_load_queue_def set_in_load_queue_def rejects_def)
  then obtain s2 where s2: "push_dep_unit_into_load_queue L y s1 = Some (True, s2)" "rt_obj s2 = (rt_obj s1)(y := ?oy)" "rt_units s2 = insert y (rt_units s1)"
      "rt_dep s2 = (rt_dep s1)\<lparr>ud_base := insert y (ud_base (rt_dep s1))\<rparr>" "rt_load_queue s2 = [y]" by (elim exE conjE)
  have wf2: "dep_wf (rt_dep s2)" using dep_wf_base_mono s(4) by (simp add: s2(4) s1(4))
  obtain d where d: "unit_dep_insert x r y True 0 (rt_dep s2) = Some d" "dep_wf d" "ud_base d = ud_base (rt_dep s2)"
    using unit_dep_insert_total [OF wf2, of x y r True 0] xb s2(4) s1(4) by auto
  obtain d' where d': "dep_remove_unit x d = Some d'" "dep_wf d'" "ud_base d' = ud_base d" using dep_remove_unit_total [OF d(2), of x] by blast
  have ld: "unit_load L drain x (s\<lparr>rt_load_queue := []\<rparr>) = Some (False, s2\<lparr>rt_dep := d\<rparr>)"
    using x s1 s2(1) d(1) c s(2,6) by (simp add: unit_load_def load_unit_confs_def insert_udconf_def sub_load_def rejects_def)
  have xy: "x \<noteq> y" using x by (simp add: rejects_def)
  let ?s = "s2\<lparr>rt_units := rt_units s2 - {x}, rt_dep := d'\<rparr>"
  have "unit_remove x (s2\<lparr>rt_dep := d\<rparr>) = Some ?s" using s2(3) s1(3) s(2) d'(1) by (simp add: unit_remove_def)
  then have "load_queue_round L drain x (s\<lparr>rt_load_queue := []\<rparr>) = Some ?s" using ld by (simp add: load_queue_round_def)
  moreover have "waits y x ?s" using s2 s1 s d' d xy by (auto simp: waits_def)
  ultimately show ?thesis by blast
qed

text \<open>
  (C40) Two units that refer to each other and whose own sections are rejected are loaded for ever: each load creates
  the other unit and then removes its own, so that the queue never gets empty and no number of rounds ends it.
\<close>

theorem rejected_pair_loads_forever:
  assumes a: "rejects L a b" and b: "rejects L b a" and s: "waits a b s"
  shows "dispatch_load_queue L n s = None \<and> (\<exists>s'. load_rounds L drain n s = Some s' \<and> rt_load_queue s' \<noteq> [])"
proof -
  have "dispatch_load_queue L n s = None" if "rejects L a b" "rejects L b a" "waits a b s" for a b n s
    using that
  proof (induction n arbitrary: a b s)
    case (Suc n)
    obtain s1 where s1: "load_queue_round L (dispatch_load_queue L n) a (s\<lparr>rt_load_queue := []\<rparr>) = Some s1" "waits b a s1"
      using round_waits [OF Suc.prems] by blast
    have "dispatch_load_queue L n s1 = None" using Suc.IH [OF Suc.prems(2,1) s1(2)] .
    then show ?case using s1(1) Suc.prems(3) by (simp add: waits_def)
  qed (simp add: waits_def)
  moreover have "\<exists>s'. load_rounds L drain n s = Some s' \<and> rt_load_queue s' \<noteq> []" if "rejects L a b" "rejects L b a" "waits a b s" for a b n s
    using that
  proof (induction n arbitrary: a b s)
    case (Suc n)
    obtain s1 where s1: "load_queue_round L drain a (s\<lparr>rt_load_queue := []\<rparr>) = Some s1" "waits b a s1"
      using round_waits [OF Suc.prems] by blast
    from Suc.IH [OF Suc.prems(2,1) s1(2)] show ?case using s1(1) Suc.prems(3) by (simp add: waits_def)
  qed (simp add: waits_def)
  ultimately show ?thesis using assms by blast
qed

text \<open>A unit that a previous manager could not find, queued because its file is there now.\<close>

definition refound :: "unit_id \<Rightarrow> unit_rt \<Rightarrow> bool" where
  "refound u s \<longleftrightarrow> rt_load_queue s = [u] \<and> u \<in> rt_units s \<and> u \<in> ud_base (rt_dep s) \<and>
     ux_type (rt_obj s u) \<noteq> UnitMount \<and> ux_load_state (rt_obj s u) = LoadNotFound"

lemma refound_again:
  assumes c: "le_conf L u = Some conf" "udconf_deps L u conf = []" and sb: "fst (le_sub L u) = SubDep r x b # cs" and s: "refound u s"
  shows "\<exists>s'. refound u s' \<and> (\<forall>drain. drain s' = None \<longrightarrow> load_queue_round L drain u (s\<lparr>rt_load_queue := []\<rparr>) = None)"
proof -
  let ?o = "(rt_obj s u)\<lparr>ux_in_load_queue := True\<rparr>"
  have d: "u \<in> rt_units s" "u \<in> ud_base (rt_dep s)" "ux_type (rt_obj s u) \<noteq> UnitMount" "ux_load_state (rt_obj s u) = LoadNotFound"
    using s by (simp_all add: refound_def)
  obtain p where p: "set_in_load_queue False u (s\<lparr>rt_load_queue := []\<rparr>) =
      Some (s\<lparr>rt_load_queue := [], rt_obj := (rt_obj s)(u := (rt_obj s u)\<lparr>ux_in_load_queue := False\<rparr>), rt_pps := p\<rparr>)"
    using d(2) by (simp add: set_in_load_queue_def table_defs)
  let ?s1 = "s\<lparr>rt_load_queue := [], rt_obj := (rt_obj s)(u := (rt_obj s u)\<lparr>ux_in_load_queue := False\<rparr>), rt_pps := p\<rparr>"
  have "\<exists>s'. prepare_unit L u ?s1 = Some (True, s') \<and> rt_obj s' = (rt_obj s)(u := ?o) \<and> rt_units s' = rt_units s \<and> rt_dep s' = rt_dep s \<and>
      rt_load_queue s' = [u]"
    using d by (simp add: prepare_unit_def push_load_queue_def set_in_load_queue_def table_defs)
  then obtain s' where s': "prepare_unit L u ?s1 = Some (True, s')" "rt_obj s' = (rt_obj s)(u := ?o)" "rt_units s' = rt_units s" "rt_dep s' = rt_dep s"
      "rt_load_queue s' = [u]" by (elim exE conjE)
  have "load_queue_round L drain u (s\<lparr>rt_load_queue := []\<rparr>) = None" if "drain s' = None" for drain
    using that p s'(1) c sb d(3)
    by (simp add: load_queue_round_def unit_load_def load_unit_confs_def insert_udconf_def sub_load_def unit_add_dependency_def load_unit_def)
  then show ?thesis using s' d by (intro exI [of _ s']) (simp add: refound_def)
qed

text \<open>
  A unit whose state is still \<open>NotFound\<close> when its unit type asks for a dependency of its own is queued and loaded
  again from inside its load, without end: the state changes only after the load. That is the state of a unit
  that a previous manager could not find, once its file exists.
\<close>

theorem refound_unit_loads_forever:
  assumes c: "le_conf L u = Some conf" "udconf_deps L u conf = []" and sb: "fst (le_sub L u) = SubDep r x b # cs" and s: "refound u s"
  shows "dispatch_load_queue L n s = None \<and>
    (\<exists>s'. refound u s' \<and> (\<forall>drain. drain s' = None \<longrightarrow> load_queue_round L drain u (s\<lparr>rt_load_queue := []\<rparr>) = None))"
proof -
  have "dispatch_load_queue L n s = None"
    using s
  proof (induction n arbitrary: s)
    case (Suc n)
    obtain s' where s': "refound u s'" "\<forall>drain. drain s' = None \<longrightarrow> load_queue_round L drain u (s\<lparr>rt_load_queue := []\<rparr>) = None"
      using refound_again [OF c sb Suc.prems] by blast
    then have "load_queue_round L (dispatch_load_queue L n) u (s\<lparr>rt_load_queue := []\<rparr>) = None" using Suc.IH [OF s'(1)] by blast
    then show ?case using Suc.prems by (simp add: refound_def)
  qed (simp add: refound_def)
  then show ?thesis using refound_again [OF assms] by blast
qed

section \<open>Instances\<close>

definition empty_rt :: unit_rt where
  "empty_rt = \<lparr>rt_obj = (\<lambda>_. \<lparr>ux_type = UnitService, ux_load_state = LoadStub, ux_in_load_queue = False, ux_in_target_dep_queue = False\<rparr>),
     rt_units = {}, rt_dep = \<lparr>ud_t = [], ud_dep = redb_new [], ud_base = {}\<rparr>, rt_load = redb_new [], rt_pps = redb_new [],
     rt_load_queue = [], rt_target_dep_queue = []\<rparr>"

text \<open>A store with one unit, queued.\<close>

definition queued_rt :: "unit_id \<Rightarrow> unit_load_state \<Rightarrow> unit_rt" where
  "queued_rt u st = empty_rt\<lparr>rt_obj := (\<lambda>_. \<lparr>ux_type = UnitService, ux_load_state = st, ux_in_load_queue = True, ux_in_target_dep_queue = False\<rparr>),
     rt_units := {u}, rt_dep := \<lparr>ud_t = [], ud_dep = redb_new [], ud_base = {u}\<rparr>, rt_load_queue := [u]\<rparr>"

text \<open>Unit files by name: what is wanted, and what the unit type does.\<close>

definition demo_files :: "(unit_id \<times> unit_id list \<times> sub_call list \<times> bool) list \<Rightarrow> load_env" where
  "demo_files fs = \<lparr>le_plugin = (\<lambda>_. True),
     le_conf = (\<lambda>u. map_option (\<lambda>(ws, _). (\<lambda>r. if r = UnitWants then ws else [])) (map_of fs u)),
     le_order = (\<lambda>_. ud_conf_relations), le_default_dependencies = (\<lambda>_. True),
     le_sub = (\<lambda>u. case map_of fs u of None \<Rightarrow> ([], True) | Some (_, cs, ok) \<Rightarrow> (cs, ok))\<rparr>"

definition demo_load :: load_env where
  "demo_load = demo_files [(''a.service'', [''b.service'', ''c.service''], [SubDep UnitAfter ''s.target'' True], True),
     (''b.service'', [''a.service''], [], True), (''s.target'', [], [], True)]"

lemma demo_types [simp]:
  "unit_name_to_type ''a.service'' = UnitService" "unit_name_to_type ''b.service'' = UnitService"
  "unit_name_to_type ''c.service'' = UnitService" "unit_name_to_type ''s.target'' = UnitTarget"
  by code_simp+

lemma demo_refs [simp]:
  "refs demo_load ''a.service'' = [''b.service'', ''c.service'', ''s.target'']" "refs demo_load ''b.service'' = [''a.service'']"
  "refs demo_load ''c.service'' = []" "refs demo_load ''s.target'' = []"
  by code_simp+

lemma demo_good [simp]:
  "good demo_load ''a.service''" "good demo_load ''b.service''" "\<not> good demo_load ''c.service''" "good demo_load ''s.target''"
  by code_simp+

lemma demo_load_fine: "loads_fine demo_load {''a.service'', ''b.service'', ''c.service'', ''s.target''}"
  by (simp add: loads_fine_def) (auto simp: demo_load_def demo_files_def)

lemma demo_load_inv: "rt_inv demo_load us {} empty_rt"
  by (simp add: rt_inv_def empty_rt_def dep_wf_empty)


theorem rejected_pair_loads_forever_witness:
  "let L = demo_files [(''a.service'', [''b.service''], [], False), (''b.service'', [''a.service''], [], False)] in
   dispatch_load_queue L 1000 (queued_rt ''a.service'' LoadStub) = None \<and>
   (\<exists>s'. load_rounds L (\<lambda>_. None) 1000 (queued_rt ''a.service'' LoadStub) = Some s' \<and> rt_load_queue s' \<noteq> [])"
proof -
  let ?L = "demo_files [(''a.service'', [''b.service''], [], False), (''b.service'', [''a.service''], [], False)]"
  have "rejects ?L ''a.service'' ''b.service''" "rejects ?L ''b.service'' ''a.service''"
    by (simp_all add: rejects_def demo_files_def udconf_deps_def ud_conf_relations_def)
  moreover have "waits ''a.service'' ''b.service'' (queued_rt ''a.service'' LoadStub)"
    by (simp add: waits_def queued_rt_def empty_rt_def dep_wf_empty)
  ultimately show ?thesis using rejected_pair_loads_forever [of ?L "''a.service''" "''b.service''" _ 1000 "\<lambda>_. None"] by (simp add: Let_def)
qed

theorem refound_unit_loads_forever_witness:
  "let L = demo_files [(''a.service'', [], [SubDep UnitAfter ''s.target'' True], True), (''s.target'', [], [], True)] in
   dispatch_load_queue L 1000 (queued_rt ''a.service'' LoadNotFound) = None \<and>
   dispatch_load_queue L 10 (queued_rt ''a.service'' LoadStub) \<noteq> None"
proof -
  let ?L = "demo_files [(''a.service'', [], [SubDep UnitAfter ''s.target'' True], True), (''s.target'', [], [], True)]"
  obtain conf where c: "le_conf ?L ''a.service'' = Some conf" "udconf_deps ?L ''a.service'' conf = []"
    by (simp add: demo_files_def udconf_deps_def ud_conf_relations_def)
  have sb: "fst (le_sub ?L ''a.service'') = [SubDep UnitAfter ''s.target'' True]" by (simp add: demo_files_def)
  have "refound ''a.service'' (queued_rt ''a.service'' LoadNotFound)" by (simp add: refound_def queued_rt_def empty_rt_def)
  from refound_unit_loads_forever [OF c sb this, of 1000]
  have "dispatch_load_queue ?L 1000 (queued_rt ''a.service'' LoadNotFound) = None" by (elim conjE)
  moreover have "dispatch_load_queue ?L 10 (queued_rt ''a.service'' LoadStub) \<noteq> None" by code_simp
  ultimately show ?thesis by (simp add: Let_def)
qed

end
