(* ===== verification/Socket_Conf.thy ===== *)
theory Socket_Conf
  imports Service_Conf Unit_Load
begin

text \<open>
  Configuration of the socket unit type: the enumerations of \<^verbatim>\<open>coms/socket/src/rentry.rs\<close>, the protocols of
  \<open>base.rs\<close>, the section with its addresses of \<open>config.rs\<close> and what loading asks of the unit manager (\<open>load.rs\<close>).

  Of an address the model keeps what the code branches on; the bytes of an IP address only reach \<open>bind\<close>.
  Whether a path fits into a socket address, whether a string is an IP address with a port and whether the
  system has IPv6 are the environment \<open>A\<close>.
\<close>

section \<open>Enumerations\<close>

datatype socket_state =
  SkDead | SkStartPre | SkStartChown | SkStartPost | SkListening | SkRunning | SkStopPre | SkStopPreSigterm
  | SkStopPreSigkill | SkStopPost | SkFinalSigterm | SkFinalSigkill | SkFailed | SkCleaning | SkStateMax

datatype socket_result =
  SkSuccess | SkFailureResources | SkFailureTimeout | SkFailureExitCode | SkFailureSignal | SkFailureCoreDump
  | SkFailureStartLimitHit | SkFailureTriggerLimitHit | SkFailureServiceStartLimitHit | SkResultInvalid

datatype socket_command = SkCmdStartPre | SkCmdStartPost | SkCmdStopPre | SkCmdStopPost

datatype port_type = PortSocket | PortFifo | PortSpecial | PortInvalid

datatype netlink_protocol =
  NetlinkRoute | NetlinkFirewall | NetlinkInetDiag | NetlinkNflog | NetlinkXfrm | NetlinkSelinux | NetlinkIscsi
  | NetlinkAudit | NetlinkFibLookup | NetlinkConnector | NetlinkNetfilter | NetlinkIpv6Fw | NetlinkDnrtMag
  | NetlinkKobjectUevent | NetlinkGeneric | NetlinkSCSITransport | NetlinkEcryptfs | NetlinkRdma | NetlinkInvalid

datatype sock_protocol =
  SpRoute | SpSockDiag | SpSELinux | SpISCSI | SpAudit | SpFIBLookup | SpNetFilter | SpIPv6Firewall
  | SpDECNetRoutingMessage | SpKObjectUEvent | SpSCSITransport | SpRDMA

definition netlink_names :: "(string \<times> netlink_protocol) list" where
  "netlink_names = [(''route'', NetlinkRoute), (''firewall'', NetlinkFirewall), (''inet-diag'', NetlinkInetDiag),
     (''nflog'', NetlinkNflog), (''xfrm'', NetlinkXfrm), (''selinux'', NetlinkSelinux), (''iscsi'', NetlinkIscsi),
     (''audit'', NetlinkAudit), (''fib-lookup'', NetlinkFibLookup), (''connector'', NetlinkConnector),
     (''netfilter'', NetlinkNetfilter), (''ip6-fw'', NetlinkIpv6Fw), (''dnrtmsg'', NetlinkDnrtMag),
     (''kobject-uevent'', NetlinkKobjectUevent), (''generic'', NetlinkGeneric),
     (''scsitransport'', NetlinkSCSITransport), (''ecryptfs'', NetlinkEcryptfs), (''rdma'', NetlinkRdma)]"

definition netlink_from :: "string \<Rightarrow> netlink_protocol" where
  "netlink_from s = (case map_of netlink_names s of Some p \<Rightarrow> p | None \<Rightarrow> NetlinkInvalid)"

text \<open>\<open>SockProtocol::from\<close>: \<open>todo!()\<close> for seven protocols.\<close>

definition sock_protocol_from :: "netlink_protocol \<Rightarrow> sock_protocol option" where
  "sock_protocol_from p =
     (case p of
        NetlinkRoute \<Rightarrow> Some SpRoute | NetlinkFirewall \<Rightarrow> None | NetlinkInetDiag \<Rightarrow> Some SpSockDiag
      | NetlinkNflog \<Rightarrow> None | NetlinkXfrm \<Rightarrow> None | NetlinkSelinux \<Rightarrow> Some SpSELinux | NetlinkIscsi \<Rightarrow> Some SpISCSI
      | NetlinkAudit \<Rightarrow> Some SpAudit | NetlinkFibLookup \<Rightarrow> Some SpFIBLookup | NetlinkConnector \<Rightarrow> None
      | NetlinkNetfilter \<Rightarrow> Some SpNetFilter | NetlinkIpv6Fw \<Rightarrow> Some SpIPv6Firewall
      | NetlinkDnrtMag \<Rightarrow> Some SpDECNetRoutingMessage | NetlinkKobjectUevent \<Rightarrow> Some SpKObjectUEvent
      | NetlinkGeneric \<Rightarrow> None | NetlinkSCSITransport \<Rightarrow> Some SpSCSITransport | NetlinkEcryptfs \<Rightarrow> None
      | NetlinkRdma \<Rightarrow> Some SpRDMA | NetlinkInvalid \<Rightarrow> None)"

section \<open>Addresses\<close>

datatype sock_type = Datagram | Stream | SeqPacket | RawSock

datatype sock_addr =
  UnixPath string | UnixAbstract string | Inet6Any "16 word" | InetAny "16 word" | InetAddr string
  | NetlinkGroup "32 word"

record socket_address =
  sa_addr :: sock_addr
  sa_type :: sock_type
  sa_protocol :: "sock_protocol option"

record addr_env =
  ae_unix :: "string \<Rightarrow> bool"
  ae_abstract :: "string \<Rightarrow> bool"
  ae_inet :: "string \<Rightarrow> bool"
  ae_ipv6 :: bool

definition socket_address_empty :: socket_address where
  "socket_address_empty = \<lparr>sa_addr = UnixPath ''/dev/null'', sa_type = RawSock, sa_protocol = None\<rparr>"

definition sa_can_accept :: "socket_address \<Rightarrow> bool" where
  "sa_can_accept sa \<longleftrightarrow> sa_type sa \<in> {SeqPacket, Stream}"

definition sa_path :: "socket_address \<Rightarrow> string option" where
  "sa_path sa = (case sa_addr sa of UnixPath p \<Rightarrow> Some p | _ \<Rightarrow> None)"

definition parse_u16 :: "string \<Rightarrow> 16 word option" where
  "parse_u16 s = map_option of_int (parse_int 0 (2 ^ 16 - 1) s)"

type_synonym 'a parsed = "(error + 'a) option"

definition parse_netlink_address :: "string \<Rightarrow> sock_type \<Rightarrow> socket_address parsed" where
  "parse_netlink_address item st =
     (case split_whitespace item of
        [w0, w1] \<Rightarrow>
          let family = netlink_from w0 in
          if family = NetlinkInvalid then Some (Inl (Other ''Netlink family is invalid''))
          else (case parse_u32 w1 of
                  None \<Rightarrow> Some (Inl (Other ''Netlink group is invalid''))
                | Some g \<Rightarrow> do {
                    p \<leftarrow> sock_protocol_from family;
                    Some (Inr \<lparr>sa_addr = NetlinkGroup g, sa_type = st, sa_protocol = Some p\<rparr>) })
      | _ \<Rightarrow> Some (Inl (Other (''Netlink configuration format is not correct: '' @ item))))"

definition parse_socket_address :: "addr_env \<Rightarrow> string \<Rightarrow> sock_type \<Rightarrow> socket_address parsed" where
  "parse_socket_address A item st =
     (let ok = (\<lambda>a. Some (Inr \<lparr>sa_addr = a, sa_type = st, sa_protocol = None\<rparr>)) in
      if take 1 item = ''/'' then (if ae_unix A item then ok (UnixPath item) else Some (Inl Nix))
      else if take 1 item = ''@''
      then (let address = trim_start_matches CHR ''@'' item in
            if ae_abstract A address then ok (UnixAbstract address) else Some (Inl Nix))
      else case parse_u16 item of
             Some port \<Rightarrow>
               if port = 0 then Some (Inl (Other ''invalid port number''))
               else if ae_ipv6 A then ok (Inet6Any port)
               else ok (InetAny port)
           | None \<Rightarrow>
               if ae_inet A item then ok (InetAddr item)
               else Some (Inl (Other ''invalid listening config'')))"

section \<open>Ports\<close>

record port_conf =
  pc_type :: port_type
  pc_sa :: socket_address
  pc_listen :: string

definition pc_can_accept :: "port_conf \<Rightarrow> bool" where
  "pc_can_accept p \<longleftrightarrow> pc_type p = PortSocket \<and> sa_can_accept (pc_sa p)"

definition can_be_symlinked :: "port_conf \<Rightarrow> bool" where
  "can_be_symlinked p \<longleftrightarrow> pc_type p \<in> {PortSocket, PortFifo} \<and> take 1 (pc_listen p) = ''/''"

definition chown_path :: "port_conf \<Rightarrow> string option" where
  "chown_path p = (if pc_type p = PortFifo then Some (pc_listen p) else sa_path (pc_sa p))"

datatype listen_item = ListenStreamItem | ListenDatagramItem | ListenNetlinkItem | ListenSequentialPacketItem

definition listen_sock_type :: "listen_item \<Rightarrow> sock_type" where
  "listen_sock_type li =
     (case li of ListenDatagramItem \<Rightarrow> Datagram | ListenStreamItem \<Rightarrow> Stream | ListenSequentialPacketItem \<Rightarrow> SeqPacket
      | ListenNetlinkItem \<Rightarrow> RawSock)"

text \<open>The loops push the ports they have parsed before they fail.\<close>

fun parse_sockets :: "addr_env \<Rightarrow> listen_item \<Rightarrow> string list \<Rightarrow> port_conf list \<Rightarrow> (bool \<times> port_conf list) option" where
  "parse_sockets A li [] ps = Some (True, ps)"
| "parse_sockets A li (v # vs) ps =
     (if v = [] then parse_sockets A li vs ps
      else do {
        r \<leftarrow> (if li = ListenNetlinkItem then parse_netlink_address v (listen_sock_type li)
             else parse_socket_address A v (listen_sock_type li));
        case r of
          Inl _ \<Rightarrow> Some (False, ps)
        | Inr sa \<Rightarrow> parse_sockets A li vs (ps @ [\<lparr>pc_type = PortSocket, pc_sa = sa, pc_listen = v\<rparr>]) })"

definition parse_paths :: "port_type \<Rightarrow> string list \<Rightarrow> port_conf list \<Rightarrow> port_conf list" where
  "parse_paths pt vs ps = ps @ map (\<lambda>v. \<lparr>pc_type = pt, pc_sa = socket_address_empty, pc_listen = v\<rparr>) vs"

section \<open>The section\<close>

record section_socket =
  SkExecStartPre :: "exec_command list option"
  SkExecStartPost :: "exec_command list option"
  SkExecStopPre :: "exec_command list option"
  SkExecStopPost :: "exec_command list option"
  ListenStream :: "string list option"
  ListenDatagram :: "string list option"
  ListenNetlink :: "string list option"
  ListenSequentialPacket :: "string list option"
  ListenFIFO :: "string list option"
  ListenSpecial :: "string list option"
  Accept :: bool
  SkService :: "unit_id option"
  RemoveOnStop :: bool
  Symlinks :: "string list option"
  SocketUser :: string
  SocketGroup :: string
  SkKillSignal :: signal

definition sk_get_exec_cmds :: "section_socket \<Rightarrow> socket_command \<Rightarrow> exec_command list option" where
  "sk_get_exec_cmds C cmd_type =
     (case cmd_type of SkCmdStartPre \<Rightarrow> SkExecStartPre C | SkCmdStartPost \<Rightarrow> SkExecStartPost C
      | SkCmdStopPre \<Rightarrow> SkExecStopPre C | SkCmdStopPost \<Rightarrow> SkExecStopPost C)"

text \<open>A step of \<open>parse_port\<close> with its \<open>?\<close>.\<close>

definition then_parse :: "(port_conf list \<Rightarrow> (bool \<times> port_conf list) option) \<Rightarrow> (bool \<times> port_conf list) option \<Rightarrow> (bool \<times> port_conf list) option" where
  "then_parse f m = do { (ok, ps) \<leftarrow> m; if ok then f ps else Some (False, ps) }"

definition parse_listens :: "addr_env \<Rightarrow> listen_item \<Rightarrow> string list option \<Rightarrow> port_conf list \<Rightarrow> (bool \<times> port_conf list) option" where
  "parse_listens A li v ps = (case v of None \<Rightarrow> Some (True, ps) | Some vs \<Rightarrow> parse_sockets A li vs ps)"

definition parse_port :: "addr_env \<Rightarrow> section_socket \<Rightarrow> port_conf list \<Rightarrow> (bool \<times> port_conf list) option" where
  "parse_port A C ps =
     map_option (\<lambda>(ok, qs). (ok, if \<not> ok then qs else
        let qs1 = (case ListenFIFO C of None \<Rightarrow> qs | Some vs \<Rightarrow> parse_paths PortFifo vs qs)
        in case ListenSpecial C of None \<Rightarrow> qs1 | Some vs \<Rightarrow> parse_paths PortSpecial vs qs1))
       (then_parse (parse_listens A ListenSequentialPacketItem (ListenSequentialPacket C))
         (then_parse (parse_listens A ListenNetlinkItem (ListenNetlink C))
           (then_parse (parse_listens A ListenDatagramItem (ListenDatagram C))
             (parse_listens A ListenStreamItem (ListenStream C) ps))))"

section \<open>Loading\<close>

text \<open>
  \<open>SocketUnit::load\<close> on the values read from the files: the requests it makes of the unit manager in their
  order and whether the section is accepted if they succeed. \<open>parse_service\<close> and \<open>load_related_unit\<close> load the
  service; \<open>sig_ok\<close> is \<open>Signal::from_str\<close>. A request that fails ends the load with an error, as in \<open>sub_calls\<close>;
  the ports are parsed before \<open>parse_service\<close>'s error is returned.
\<close>

definition related_unit :: "unit_id \<Rightarrow> unit_id" where
  "related_unit u = (let ws = split_on CHR ''.'' u in
     (if length ws \<le> 1 \<or> (length ws = 2 \<and> hd ws = []) then u else join_with CHR ''.'' (butlast ws)) @ ''.service'')"

definition no_accept_socket :: "port_conf list \<Rightarrow> bool" where
  "no_accept_socket ps \<longleftrightarrow> (\<exists>p \<in> set ps. pc_type p \<noteq> PortSocket \<or> \<not> pc_can_accept p)"

definition sl_can_accept :: "section_socket \<Rightarrow> port_conf list \<Rightarrow> bool" where
  "sl_can_accept C ps \<longleftrightarrow> (if \<not> Accept C then True else no_accept_socket ps)"

definition socket_default_dependencies :: "sub_call list" where
  "socket_default_dependencies =
     [SubDep UnitAfter ''sockets.target'' True, SubDep UnitAfter ''sysinit.target'' True, SubDep UnitRequires ''sysinit.target'' True,
      SubDep UnitBefore ''shutdown.target'' True, SubDep UnitConflicts ''shutdown.target'' True]"

definition socket_add_extras :: "bool \<Rightarrow> section_socket \<Rightarrow> unit_id option \<Rightarrow> port_conf list \<Rightarrow> unit_id \<Rightarrow> sub_call list" where
  "socket_add_extras dflt C target ps u =
     (if sl_can_accept C ps
      then (let svc = (case target of Some t \<Rightarrow> t | None \<Rightarrow> related_unit u) in
            (if target = None then [SubRef svc] else []) @ [SubDep UnitBefore svc True, SubDep UnitTriggers svc True])
      else []) @ (if dflt then socket_default_dependencies else [])"

definition ends_with :: "string \<Rightarrow> string \<Rightarrow> bool" where
  "ends_with s suf \<longleftrightarrow> length suf \<le> length s \<and> drop (length s - length suf) s = suf"

definition socket_load :: "addr_env \<Rightarrow> (signal \<Rightarrow> bool) \<Rightarrow> bool \<Rightarrow> section_socket \<Rightarrow> unit_id \<Rightarrow> (sub_call list \<times> bool) option" where
  "socket_load A sig_ok dflt C u =
     (if \<not> sig_ok (SkKillSignal C) then Some ([], False)
      else do {
        let svc_bad = (case SkService C of Some v \<Rightarrow> \<not> ends_with v ''.service'' | None \<Rightarrow> False);
        let calls1 = (case SkService C of Some v \<Rightarrow> if svc_bad then [] else [SubRef v] | None \<Rightarrow> []);
        (ok, ps) \<leftarrow> parse_port A C [];
        if svc_bad \<or> \<not> ok then Some (calls1, False)
        else Some (calls1 @ socket_add_extras dflt C (SkService C) ps u, True) })"

definition find_symlink_target :: "port_conf list \<Rightarrow> string option" where
  "find_symlink_target ps = (case filter can_be_symlinked ps of [p] \<Rightarrow> Some (pc_listen p) | _ \<Rightarrow> None)"

definition socket_verify :: "port_conf list \<Rightarrow> section_socket \<Rightarrow> section_socket" where
  "socket_verify ps C =
     (case Symlinks C of
        Some (_ # _) \<Rightarrow> if find_symlink_target ps = None then C\<lparr>Symlinks := None\<rparr> else C
      | _ \<Rightarrow> C)"

end
