(* ===== verification/Socket_Mng.thy ===== *)
theory Socket_Mng
  imports Socket_Conf Event_Loop
begin

text \<open>
  The state machine of a socket: \<open>SocketMng\<close> and \<open>SocketMngPort\<close> of \<^verbatim>\<open>coms/socket/src/mng.rs\<close>, \<open>SocketPort\<close> of
  \<open>port.rs\<close>, \<open>SocketPid\<close> of \<open>pid.rs\<close>, \<open>start_socket\<close> of \<open>spawn.rs\<close> and the entry points of \<open>unit.rs\<close>.

  The objects a socket consists of share one state, the record \<open>sock\<close>, with its configuration as the argument
  \<open>C\<close>. The event loop is the one of \<open>Event_Loop\<close>: every port is a source of it, and its environment is the world
  \<open>'w\<close>, over which the operations \<open>K\<close> are the system calls and the calls into the unit manager.
\<close>

section \<open>State\<close>

datatype errno = EINTR | EBADF | EOther

record sk_port =
  sp_conf :: port_conf
  sp_token :: u64
  sp_fd :: int

datatype socket_re_frame = FdListen bool

record socket_re_mng =
  skr_state :: socket_state
  skr_result :: socket_result
  skr_control_pid :: "pid option"
  skr_control_cmd_type :: "socket_command option"
  skr_control_cmd_len :: nat
  skr_refused :: int
  skr_ports :: "(port_type \<times> string \<times> int) list"

record 'w sock_ops =
  ko_events :: "'w ev_ops"
  ko_prepare_exec :: "'w \<Rightarrow> bool \<times> 'w"
  ko_exec_spawn :: "exec_command \<Rightarrow> 'w \<Rightarrow> pid option \<times> 'w"
  ko_child_watch_pid :: "pid \<Rightarrow> 'w \<Rightarrow> 'w"
  ko_child_unwatch_pid :: "pid \<Rightarrow> 'w \<Rightarrow> 'w"
  ko_kill_context :: "pid option \<Rightarrow> kill_operation \<Rightarrow> 'w \<Rightarrow> bool \<times> 'w"
  ko_notify :: "unit_active_state \<Rightarrow> unit_active_state \<Rightarrow> unit_notify_flags \<Rightarrow> 'w \<Rightarrow> 'w"
  ko_has_stop_job :: "'w \<Rightarrow> bool"
  ko_relation_active_or_pending :: "'w \<Rightarrow> bool"
  ko_unit_start_by_job :: "unit_id \<Rightarrow> 'w \<Rightarrow> bool \<times> 'w"
  ko_unit_enabled :: "unit_id \<Rightarrow> 'w \<Rightarrow> error + unit"
  ko_test_start_limit :: "'w \<Rightarrow> bool \<times> 'w"
  ko_mark_last :: "bool \<Rightarrow> 'w \<Rightarrow> 'w"
  ko_fd_take :: "int \<Rightarrow> 'w \<Rightarrow> int \<times> 'w"
  ko_fd_cloexec :: "int \<Rightarrow> bool \<Rightarrow> 'w \<Rightarrow> bool \<times> 'w"
  ko_listen :: "port_conf \<Rightarrow> 'w \<Rightarrow> int option \<times> 'w"
  ko_open_fifo :: "port_conf \<Rightarrow> 'w \<Rightarrow> int option \<times> 'w"
  ko_open_special :: "port_conf \<Rightarrow> 'w \<Rightarrow> int option \<times> 'w"
  ko_symlink :: "string \<Rightarrow> string \<Rightarrow> 'w \<Rightarrow> 'w"
  ko_unlink :: "string \<Rightarrow> 'w \<Rightarrow> 'w"
  ko_close :: "int \<Rightarrow> 'w \<Rightarrow> 'w"
  ko_sock_opt :: "int \<Rightarrow> 'w \<Rightarrow> 'w"
  ko_accept_conn :: "int \<Rightarrow> 'w \<Rightarrow> bool"
  ko_ppoll :: "int \<Rightarrow> 'w \<Rightarrow> (errno + int \<times> bool) \<times> 'w"
  ko_accept4 :: "int \<Rightarrow> 'w \<Rightarrow> int option \<times> 'w"
  ko_read :: "int \<Rightarrow> 'w \<Rightarrow> (errno + nat) \<times> 'w"
  ko_user_creds :: "string \<Rightarrow> (32 word \<times> 32 word) option"
  ko_group_creds :: "string \<Rightarrow> (32 word) option"
  ko_chown :: "string \<Rightarrow> 32 word \<Rightarrow> 32 word \<Rightarrow> 'w \<Rightarrow> bool \<times> 'w"

record 'w sock =
  sk_owner :: bool
  sk_service :: "unit_id option"
  sk_state :: socket_state
  sk_result :: socket_result
  sk_control :: "pid option"
  sk_ports :: "sk_port list"
  sk_control_cmd_type :: "socket_command option"
  sk_control_command :: "exec_command list"
  sk_refused :: int
  sk_db :: "socket_re_mng option"
  sk_frame :: "socket_re_frame option"
  sk_ev :: "'w events"

definition sock_new :: "bool \<Rightarrow> unit_id option \<Rightarrow> 'w events \<Rightarrow> 'w sock" where
  "sock_new owner svc ev = \<lparr>sk_owner = owner, sk_service = svc, sk_state = SkStateMax, sk_result = SkSuccess, sk_control = None,
     sk_ports = [], sk_control_cmd_type = None, sk_control_command = [], sk_refused = 0, sk_db = None, sk_frame = None, sk_ev = ev\<rparr>"

abbreviation sk_world :: "'w sock \<Rightarrow> 'w" where
  "sk_world s \<equiv> ed_env (sk_ev s)"

definition sk_do :: "('w \<Rightarrow> 'w) \<Rightarrow> 'w sock \<Rightarrow> 'w sock" where
  "sk_do f s = s\<lparr>sk_ev := (sk_ev s)\<lparr>ed_env := f (sk_world s)\<rparr>\<rparr>"

definition sk_ask :: "('w \<Rightarrow> 'a \<times> 'w) \<Rightarrow> 'w sock \<Rightarrow> 'a \<times> 'w sock" where
  "sk_ask f s = (let (a, w) = f (sk_world s) in (a, s\<lparr>sk_ev := (sk_ev s)\<lparr>ed_env := w\<rparr>\<rparr>))"

definition sk_active_state :: "socket_state \<Rightarrow> unit_active_state" where
  "sk_active_state st =
     (case st of
        SkDead \<Rightarrow> UnitInActive
      | SkStartPre \<Rightarrow> UnitActivating | SkStartChown \<Rightarrow> UnitActivating | SkStartPost \<Rightarrow> UnitActivating
      | SkListening \<Rightarrow> UnitActive | SkRunning \<Rightarrow> UnitActive
      | SkStopPre \<Rightarrow> UnitDeActivating | SkStopPreSigterm \<Rightarrow> UnitDeActivating | SkStopPost \<Rightarrow> UnitDeActivating
      | SkStopPreSigkill \<Rightarrow> UnitDeActivating | SkStateMax \<Rightarrow> UnitDeActivating | SkFinalSigterm \<Rightarrow> UnitDeActivating
      | SkFinalSigkill \<Rightarrow> UnitDeActivating
      | SkFailed \<Rightarrow> UnitFailed
      | SkCleaning \<Rightarrow> UnitMaintenance)"

definition sk_kill_operation :: "socket_state \<Rightarrow> kill_operation" where
  "sk_kill_operation st =
     (case st of SkStopPreSigterm \<Rightarrow> KillKill | SkFinalSigterm \<Rightarrow> KillTerminate | _ \<Rightarrow> KillKill)"

section \<open>The control process\<close>

definition sk_unwatch_control :: "'w sock_ops \<Rightarrow> 'w sock \<Rightarrow> 'w sock" where
  "sk_unwatch_control K s =
     (case sk_control s of
        Some p \<Rightarrow> (if sk_owner s then sk_do (ko_child_unwatch_pid K p) s else s)\<lparr>sk_control := None\<rparr>
      | None \<Rightarrow> s)"

definition sk_set_control :: "pid \<Rightarrow> 'w sock \<Rightarrow> 'w sock" where
  "sk_set_control p s = s\<lparr>sk_control := Some p\<rparr>"

definition sk_update_control :: "pid option \<Rightarrow> 'w sock \<Rightarrow> 'w sock" where
  "sk_update_control p s = (case p of Some i \<Rightarrow> sk_set_control i s | None \<Rightarrow> s\<lparr>sk_control := None\<rparr>)"

definition start_socket :: "'w sock_ops \<Rightarrow> exec_command \<Rightarrow> 'w sock \<Rightarrow> pid option \<times> 'w sock" where
  "start_socket K cmdline s =
     (if \<not> sk_owner s then (None, s)
      else let (ok, s1) = sk_ask (ko_prepare_exec K) s in
           if \<not> ok then (None, s1)
           else let (p, s2) = sk_ask (ko_exec_spawn K cmdline) s1 in
                case p of
                  Some pid \<Rightarrow> (Some pid, sk_do (ko_child_watch_pid K pid) s2)
                | None \<Rightarrow> (None, s2))"

definition sk_command_fill :: "section_socket \<Rightarrow> socket_command \<Rightarrow> 'w sock \<Rightarrow> 'w sock" where
  "sk_command_fill C ct s =
     (case sk_get_exec_cmds C ct of Some cmds \<Rightarrow> s\<lparr>sk_control_command := cmds\<rparr> | None \<Rightarrow> s)"

definition sk_command_pop :: "'w sock \<Rightarrow> exec_command option \<times> 'w sock" where
  "sk_command_pop s =
     (case sk_control_command s of [] \<Rightarrow> (None, s) | c # cs \<Rightarrow> (Some c, s\<lparr>sk_control_command := cs\<rparr>))"

section \<open>Ports\<close>

definition port_source :: "sk_port \<Rightarrow> source" where
  "port_source p = \<lparr>src_token = sp_token p, src_type = EvIo, src_priority = 0, src_fd = sp_fd p,
     src_time_relative = - 1, src_time = - 1\<rparr>"

definition sp_type :: "sk_port \<Rightarrow> port_type" where
  "sp_type p = pc_type (sp_conf p)"

definition sk_set_fd :: "nat \<Rightarrow> int \<Rightarrow> 'w sock \<Rightarrow> 'w sock" where
  "sk_set_fd i fd s = s\<lparr>sk_ports := (sk_ports s)[i := (sk_ports s ! i)\<lparr>sp_fd := fd\<rparr>]\<rparr>"

definition apply_symlink :: "'w sock_ops \<Rightarrow> section_socket \<Rightarrow> port_conf \<Rightarrow> 'w sock \<Rightarrow> 'w sock" where
  "apply_symlink K C p s =
     (if \<not> can_be_symlinked p then s
      else case Symlinks C of None \<Rightarrow> s | Some ls \<Rightarrow> fold (\<lambda>l. sk_do (ko_symlink K (pc_listen p) l)) ls s)"

definition port_close :: "'w sock_ops \<Rightarrow> nat \<Rightarrow> 'w sock \<Rightarrow> 'w sock" where
  "port_close K i s =
     (let fd = sp_fd (sk_ports s ! i) in
      if fd < 0 then s
      else sk_set_fd i (- 1) (sk_do (ko_close K fd) (snd (sk_ask (ko_fd_cloexec K fd True) s))))"

text \<open>The descriptor of a port, or \<open>None\<close> if it cannot be had; the outer \<open>option\<close> is \<open>todo!()\<close>.\<close>

definition port_open_fd :: "'w sock_ops \<Rightarrow> section_socket \<Rightarrow> port_conf \<Rightarrow> 'w sock \<Rightarrow> (int option \<times> 'w sock) option" where
  "port_open_fd K C p s =
     (let linked = (\<lambda>(fd, s1). (fd, if fd = None then s1 else apply_symlink K C p s1)) in
      case pc_type p of
        PortSocket \<Rightarrow> Some (linked (sk_ask (ko_listen K p) s))
      | PortFifo \<Rightarrow> Some (linked (sk_ask (ko_open_fifo K p) s))
      | PortSpecial \<Rightarrow> Some (sk_ask (ko_open_special K p) s)
      | PortInvalid \<Rightarrow> None)"

definition open_port :: "'w sock_ops \<Rightarrow> section_socket \<Rightarrow> nat \<Rightarrow> 'w sock \<Rightarrow> (bool \<times> 'w sock) option" where
  "open_port K C i s =
     (let p = sk_ports s ! i in
      if sp_fd p \<ge> 0 then Some (True, s)
      else do {
        (r, s1) \<leftarrow> port_open_fd K C (sp_conf p) s;
        case r of
          None \<Rightarrow> Some (False, s1)
        | Some fd \<Rightarrow>
            let (ok, s2) = sk_ask (ko_fd_cloexec K fd False) s1 in
            if ok then Some (True, sk_set_fd i fd s2) else Some (False, port_close K i s2) })"

definition port_unlink :: "'w sock_ops \<Rightarrow> port_conf \<Rightarrow> 'w sock \<Rightarrow> 'w sock option" where
  "port_unlink K p s =
     (case pc_type p of
        PortSocket \<Rightarrow> Some (case sa_path (pc_sa p) of Some f \<Rightarrow> sk_do (ko_unlink K f) s | None \<Rightarrow> s)
      | PortFifo \<Rightarrow> Some (sk_do (ko_unlink K (pc_listen p)) s)
      | PortSpecial \<Rightarrow> Some s
      | PortInvalid \<Rightarrow> None)"

text \<open>\<open>wait_for_events\<close> of \<^verbatim>\<open>libs/basic/src/io_util.rs\<close>: an invalid descriptor is reported in the returned events.\<close>

definition wait_for_events :: "'w sock_ops \<Rightarrow> int \<Rightarrow> 'w \<Rightarrow> (errno + int) \<times> 'w" where
  "wait_for_events K fd w =
     (case ko_ppoll K fd w of
        (Inl e, w1) \<Rightarrow> (Inl e, w1)
      | (Inr (n, nval), w1) \<Rightarrow> (if n = 0 then Inr 0 else if nval then Inl EBADF else Inr n, w1))"

partial_function (option) flush_wait :: "'w sock_ops \<Rightarrow> int \<Rightarrow> 'w \<Rightarrow> (bool \<times> 'w) option" where
  "flush_wait K fd w =
     (case wait_for_events K fd w of
        (Inl EINTR, w1) \<Rightarrow> flush_wait K fd w1
      | (Inl _, w1) \<Rightarrow> Some (False, w1)
      | (Inr _, w1) \<Rightarrow> Some (True, w1))"

text \<open>An accepted connection closes the listening descriptor, not the new one.\<close>

fun flush_accepts :: "'w sock_ops \<Rightarrow> int \<Rightarrow> nat \<Rightarrow> 'w \<Rightarrow> 'w option" where
  "flush_accepts K fd 0 w = Some w"
| "flush_accepts K fd (Suc n) w = do {
     (ready, w1) \<leftarrow> flush_wait K fd w;
     if \<not> ready then Some w1
     else case ko_accept4 K fd w1 of
            (Some _, w2) \<Rightarrow> flush_accepts K fd n (ko_close K fd w2)
          | (None, w2) \<Rightarrow> Some w2 }"

definition flush_accept :: "'w sock_ops \<Rightarrow> int \<Rightarrow> 'w \<Rightarrow> 'w option" where
  "flush_accept K fd w = (if ko_accept_conn K fd w then flush_accepts K fd 1023 w else Some w)"

partial_function (option) flush_fd :: "'w sock_ops \<Rightarrow> int \<Rightarrow> 'w \<Rightarrow> 'w option" where
  "flush_fd K fd w =
     (let (r, w1) = wait_for_events K fd w;
          v = (case r of Inl _ \<Rightarrow> 0 | Inr n \<Rightarrow> n) in
      if v = 0 then Some w1
      else let (r2, w2) = ko_read K fd w1;
               v2 = (case r2 of Inl e \<Rightarrow> if e = EINTR then 1 else 0 | Inr n \<Rightarrow> n) in
           if v2 = 0 then Some w2 else flush_fd K fd w2)"

definition flush_ports :: "'w sock_ops \<Rightarrow> 'w sock \<Rightarrow> 'w sock option" where
  "flush_ports K s = do {
     w \<leftarrow> fold_opt (\<lambda>p w. do { w1 \<leftarrow> flush_accept K (sp_fd p) w; flush_fd K (sp_fd p) w1 }) (sk_ports s) (sk_world s);
     Some (sk_do (\<lambda>_. w) s) }"

section \<open>Watching the ports\<close>

text \<open>A call of the event loop followed by \<open>unwrap()\<close>.\<close>

definition sk_events :: "('w events \<Rightarrow> 'w ev_result) \<Rightarrow> 'w sock \<Rightarrow> 'w sock option" where
  "sk_events f s = do {
     (r, ev) \<leftarrow> f (sk_ev s);
     case r of Inl _ \<Rightarrow> None | Inr _ \<Rightarrow> Some (s\<lparr>sk_ev := ev\<rparr>) }"

definition watch_fds :: "'w sock_ops \<Rightarrow> 'w sock \<Rightarrow> 'w sock option" where
  "watch_fds K s = fold_opt (\<lambda>p s.
      if sp_fd p < 0 then Some s
      else do {
        s1 \<leftarrow> sk_events (add_source (port_source p)) s;
        sk_events (set_enabled (ko_events K) (port_source p) EvOn) s1 }) (sk_ports s) s"

definition unwatch_fds :: "'w sock_ops \<Rightarrow> 'w sock \<Rightarrow> 'w sock option" where
  "unwatch_fds K s =
     fold_opt (\<lambda>p. sk_events (set_enabled (ko_events K) (port_source p) EvOff)) (sk_ports s) s"

definition close_fds :: "'w sock_ops \<Rightarrow> section_socket \<Rightarrow> 'w sock \<Rightarrow> 'w sock option" where
  "close_fds K C s = do {
     s1 \<leftarrow> fold_opt (\<lambda>p. sk_events (del_source (ko_events K) (port_source p))) (sk_ports s) s;
     let s2 = fold (port_close K) [0..<length (sk_ports s1)] s1;
     if \<not> RemoveOnStop C then Some s2
     else do {
       s3 \<leftarrow> fold_opt (\<lambda>p. port_unlink K (sp_conf p)) (sk_ports s2) s2;
       Some (case Symlinks C of None \<Rightarrow> s3 | Some ls \<Rightarrow> fold (\<lambda>l. sk_do (ko_unlink K l)) ls s3) } }"

fun open_fds_from :: "'w sock_ops \<Rightarrow> section_socket \<Rightarrow> nat list \<Rightarrow> 'w sock \<Rightarrow> (bool \<times> 'w sock) option" where
  "open_fds_from K C [] s = Some (True, s)"
| "open_fds_from K C (i # is) s = do {
     (ok, s1) \<leftarrow> open_port K C i s;
     if \<not> ok then map_option (Pair False) (close_fds K C s1)
     else open_fds_from K C is (sk_do (ko_sock_opt K (sp_fd (sk_ports s1 ! i))) s1) }"

definition open_fds :: "'w sock_ops \<Rightarrow> section_socket \<Rightarrow> 'w sock \<Rightarrow> (bool \<times> 'w sock) option" where
  "open_fds K C s = open_fds_from K C [0..<length (sk_ports s)] s"

fun chown_ports :: "'w sock_ops \<Rightarrow> 32 word \<Rightarrow> 32 word \<Rightarrow> sk_port list \<Rightarrow> 'w sock \<Rightarrow> bool \<times> 'w sock" where
  "chown_ports K uid gid [] s = (True, s)"
| "chown_ports K uid gid (p # ps) s =
     (case chown_path (sp_conf p) of
        None \<Rightarrow> chown_ports K uid gid ps s
      | Some f \<Rightarrow> let (ok, s1) = sk_ask (ko_chown K f uid gid) s in
                 if ok then chown_ports K uid gid ps s1 else (False, s1))"

definition socket_chown :: "'w sock_ops \<Rightarrow> section_socket \<Rightarrow> 'w sock \<Rightarrow> bool \<times> 'w sock" where
  "socket_chown K C s =
     (case (if SocketUser C = [] then Some (- 1, - 1) else ko_user_creds K (SocketUser C)) of
        None \<Rightarrow> (False, s)
      | Some (uid, gid) \<Rightarrow>
          (case (if SocketGroup C = [] then Some gid else ko_group_creds K (SocketGroup C)) of
             None \<Rightarrow> (False, s)
           | Some gid' \<Rightarrow> chown_ports K uid gid' (sk_ports s) s))"

section \<open>Phases\<close>

definition control_kept :: "socket_state list" where
  "control_kept = [SkStartPre, SkStartChown, SkStartPost, SkStopPre, SkStopPreSigterm, SkStopPreSigkill, SkStopPost,
     SkFinalSigterm, SkFinalSigkill]"

definition fds_kept :: "socket_state list" where
  "fds_kept = [SkStartChown, SkStartPost, SkListening, SkRunning, SkStopPre, SkStopPreSigterm, SkStopPreSigkill]"

definition sk_set_state :: "'w sock_ops \<Rightarrow> section_socket \<Rightarrow> socket_state \<Rightarrow> 'w sock \<Rightarrow> 'w sock option" where
  "sk_set_state K C st s = do {
     let old = sk_state s;
     let s1 = s\<lparr>sk_state := st\<rparr>;
     let s2 = (if st \<notin> set control_kept then sk_unwatch_control K s1 else s1);
     s3 \<leftarrow> (if st \<noteq> SkListening then unwatch_fds K s2 else Some s2);
     s4 \<leftarrow> (if st \<notin> set fds_kept then close_fds K C s3 else Some s3);
     Some (if sk_owner s4 then sk_do (ko_notify K (sk_active_state old) (sk_active_state st) UNIT_NOTIFY_RELOAD_FAILURE) s4 else s4) }"

definition sk_note_result :: "socket_result \<Rightarrow> 'w sock \<Rightarrow> 'w sock" where
  "sk_note_result res s = (if sk_result s = SkSuccess then s\<lparr>sk_result := res\<rparr> else s)"

definition sk_enter_dead :: "'w sock_ops \<Rightarrow> section_socket \<Rightarrow> socket_result \<Rightarrow> 'w sock \<Rightarrow> 'w sock option" where
  "sk_enter_dead K C res s =
     (let s1 = sk_note_result res s in
      sk_set_state K C (if sk_result s1 = SkSuccess then SkDead else SkFailed) s1)"

text \<open>
  \<open>enter_signal\<close> and \<open>enter_stop_post\<close> call each other: from a signal of the stop-pre phase to the stop-post
  phase and from there to the final signals.
\<close>

definition final_signal :: "'w sock_ops \<Rightarrow> section_socket \<Rightarrow> socket_state \<Rightarrow> ('w sock \<Rightarrow> 'w sock option) \<Rightarrow> ('w sock \<Rightarrow> 'w sock option) \<Rightarrow>
    socket_result \<Rightarrow> 'w sock \<Rightarrow> 'w sock option" where
  "final_signal K C st fail next res s =
     (let s1 = sk_note_result res s in
      if \<not> sk_owner s1 then next s1
      else let (ok, s2) = sk_ask (ko_kill_context K (sk_control s1) (sk_kill_operation st)) s1 in
           if ok then next s2 else fail s2)"

definition sk_enter_final_sigkill :: "'w sock_ops \<Rightarrow> section_socket \<Rightarrow> socket_result \<Rightarrow> 'w sock \<Rightarrow> 'w sock option" where
  "sk_enter_final_sigkill K C =
     final_signal K C SkFinalSigkill (sk_enter_dead K C SkFailureResources) (sk_enter_dead K C SkSuccess)"

definition sk_enter_final_sigterm :: "'w sock_ops \<Rightarrow> section_socket \<Rightarrow> socket_result \<Rightarrow> 'w sock \<Rightarrow> 'w sock option" where
  "sk_enter_final_sigterm K C =
     final_signal K C SkFinalSigterm (sk_enter_dead K C SkFailureResources) (sk_enter_final_sigkill K C SkSuccess)"

definition sk_enter_stop_post :: "'w sock_ops \<Rightarrow> section_socket \<Rightarrow> socket_result \<Rightarrow> 'w sock \<Rightarrow> 'w sock option" where
  "sk_enter_stop_post K C res s =
     (let s1 = sk_command_fill C SkCmdStopPost (sk_note_result res s) in
      case sk_command_pop s1 of
        (Some c, s2) \<Rightarrow>
          (case start_socket K c s2 of
             (Some pid, s3) \<Rightarrow> sk_set_state K C SkStopPost (sk_set_control pid s3)
           | (None, s3) \<Rightarrow> sk_enter_final_sigterm K C SkFailureResources s3)
      | (None, s2) \<Rightarrow> sk_enter_final_sigterm K C SkSuccess s2)"

definition sk_enter_stop_pre_sigkill :: "'w sock_ops \<Rightarrow> section_socket \<Rightarrow> socket_result \<Rightarrow> 'w sock \<Rightarrow> 'w sock option" where
  "sk_enter_stop_pre_sigkill K C =
     final_signal K C SkStopPreSigkill (sk_enter_stop_post K C SkFailureResources) (sk_enter_stop_post K C SkSuccess)"

definition sk_enter_stop_pre_sigterm :: "'w sock_ops \<Rightarrow> section_socket \<Rightarrow> socket_result \<Rightarrow> 'w sock \<Rightarrow> 'w sock option" where
  "sk_enter_stop_pre_sigterm K C =
     final_signal K C SkStopPreSigterm (sk_enter_stop_post K C SkFailureResources) (sk_enter_stop_pre_sigkill K C SkSuccess)"

definition sk_enter_signal :: "'w sock_ops \<Rightarrow> section_socket \<Rightarrow> socket_state \<Rightarrow> socket_result \<Rightarrow> 'w sock \<Rightarrow> 'w sock option" where
  "sk_enter_signal K C st =
     (if st = SkStopPreSigterm then sk_enter_stop_pre_sigterm K C
      else if st = SkStopPreSigkill then sk_enter_stop_pre_sigkill K C
      else if st = SkFinalSigterm then sk_enter_final_sigterm K C
      else final_signal K C st (sk_enter_dead K C SkFailureResources) (sk_enter_dead K C SkSuccess))"

definition sk_enter_stop_pre :: "'w sock_ops \<Rightarrow> section_socket \<Rightarrow> socket_result \<Rightarrow> 'w sock \<Rightarrow> 'w sock option" where
  "sk_enter_stop_pre K C res s =
     (let s1 = sk_command_fill C SkCmdStopPre (sk_unwatch_control K (sk_note_result res s)) in
      case sk_command_pop s1 of
        (Some c, s2) \<Rightarrow>
          (case start_socket K c s2 of
             (Some pid, s3) \<Rightarrow> sk_set_state K C SkStopPre (sk_set_control pid s3)
           | (None, s3) \<Rightarrow> sk_enter_stop_post K C SkFailureResources s3)
      | (None, s2) \<Rightarrow> sk_enter_stop_post K C SkSuccess s2)"

definition sk_enter_listening :: "'w sock_ops \<Rightarrow> section_socket \<Rightarrow> 'w sock \<Rightarrow> 'w sock option" where
  "sk_enter_listening K C s = do {
     s1 \<leftarrow> (if \<not> Accept C then flush_ports K s else Some s);
     s2 \<leftarrow> watch_fds K s1;
     sk_set_state K C SkListening s2 }"

definition sk_enter_start_post :: "'w sock_ops \<Rightarrow> section_socket \<Rightarrow> 'w sock \<Rightarrow> 'w sock option" where
  "sk_enter_start_post K C s =
     (let s1 = sk_command_fill C SkCmdStartPost (sk_unwatch_control K s) in
      case sk_command_pop s1 of
        (None, s2) \<Rightarrow> sk_enter_listening K C s2
      | (Some c, s2) \<Rightarrow>
          (case start_socket K c s2 of
             (Some pid, s3) \<Rightarrow> sk_set_state K C SkStartPost (sk_set_control pid s3)
           | (None, s3) \<Rightarrow> sk_enter_stop_pre K C SkFailureResources s3))"

definition sk_enter_start_chown :: "'w sock_ops \<Rightarrow> section_socket \<Rightarrow> 'w sock \<Rightarrow> 'w sock option" where
  "sk_enter_start_chown K C s = do {
     (ok, s1) \<leftarrow> open_fds K C s;
     if \<not> ok then sk_enter_stop_pre K C SkFailureResources s1
     else if SocketUser C \<noteq> [] \<or> SocketGroup C \<noteq> []
     then (let (ok2, s2) = socket_chown K C s1 in
           if ok2 then sk_enter_start_post K C s2 else sk_enter_stop_pre K C SkFailureResources s2)
     else sk_enter_start_post K C s1 }"

definition sk_enter_start_pre :: "'w sock_ops \<Rightarrow> section_socket \<Rightarrow> 'w sock \<Rightarrow> 'w sock option" where
  "sk_enter_start_pre K C s =
     (let s1 = sk_command_fill C SkCmdStartPre (sk_unwatch_control K s) in
      case sk_command_pop s1 of
        (None, s2) \<Rightarrow> sk_enter_start_chown K C s2
      | (Some c, s2) \<Rightarrow>
          (case start_socket K c s2 of
             (Some pid, s3) \<Rightarrow> sk_set_state K C SkStartPre (sk_set_control pid s3)
           | (None, s3) \<Rightarrow> sk_enter_dead K C SkFailureResources s3))"

text \<open>\<open>refused\<close> is an \<open>i32\<close>; a connection that was accepted would reach the \<open>todo!()\<close>.\<close>

definition sk_enter_running :: "'w sock_ops \<Rightarrow> section_socket \<Rightarrow> int \<Rightarrow> 'w sock \<Rightarrow> 'w sock option" where
  "sk_enter_running K C fd s =
     (if \<not> sk_owner s then Some s
      else if ko_has_stop_job K (sk_world s)
      then (if fd \<ge> 0
            then (if sk_refused s < 2 ^ 31 - 1 then Some (s\<lparr>sk_refused := sk_refused s + 1\<rparr>) else None)
            else flush_ports K s)
      else if fd \<ge> 0 then None
      else if ko_relation_active_or_pending K (sk_world s) then sk_set_state K C SkRunning s
      else case sk_service s of
             None \<Rightarrow> sk_enter_stop_pre K C SkFailureResources s
           | Some svc \<Rightarrow>
               let (ok, s1) = sk_ask (ko_unit_start_by_job K svc) (s\<lparr>sk_frame := Some (FdListen False)\<rparr>);
                   s2 = s1\<lparr>sk_frame := Some (FdListen True)\<rparr> in
               if ok then sk_set_state K C SkRunning s2 else sk_enter_stop_pre K C SkFailureResources s2)"

definition sk_run_next :: "'w sock_ops \<Rightarrow> 'w sock \<Rightarrow> 'w sock" where
  "sk_run_next K s =
     (case sk_command_pop s of
        (None, s1) \<Rightarrow> s1
      | (Some c, s1) \<Rightarrow> (case start_socket K c s1 of (Some pid, s2) \<Rightarrow> sk_set_control pid s2 | (None, s2) \<Rightarrow> s2))"

section \<open>The reliability table\<close>

definition sk_db_insert :: "'w sock \<Rightarrow> 'w sock" where
  "sk_db_insert s =
     (if \<not> sk_owner s then s
      else s\<lparr>sk_db := Some \<lparr>skr_state = sk_state s, skr_result = sk_result s, skr_control_pid = sk_control s,
               skr_control_cmd_type = sk_control_cmd_type s, skr_control_cmd_len = length (sk_control_command s),
               skr_refused = sk_refused s,
               skr_ports = map (\<lambda>p. (sp_type p, pc_listen (sp_conf p), sp_fd p)) (sk_ports s)\<rparr>\<rparr>)"

text \<open>For \<open>_i in len..max\<close> a command is popped, from the front.\<close>

definition sk_command_update :: "section_socket \<Rightarrow> socket_command option \<Rightarrow> nat \<Rightarrow> 'w sock \<Rightarrow> 'w sock option" where
  "sk_command_update C ct len s =
     (case ct of
        Some c \<Rightarrow>
          (let s1 = sk_command_fill C c (s\<lparr>sk_control_command := []\<rparr>) in
           Some (s1\<lparr>sk_control_command := drop (length (sk_control_command s1) - len) (sk_control_command s1)\<rparr>))
      | None \<Rightarrow> do { rust_assert (len = 0); Some s })"

fun ports_find :: "port_type \<Rightarrow> string \<Rightarrow> sk_port list \<Rightarrow> nat option" where
  "ports_find pt l [] = None"
| "ports_find pt l (p # ps) =
     (if sp_type p = pt \<and> pc_listen (sp_conf p) = l then Some 0 else map_option Suc (ports_find pt l ps))"

definition map_port_fd :: "'w sock_ops \<Rightarrow> port_type \<times> string \<times> int \<Rightarrow> 'w sock \<Rightarrow> 'w sock" where
  "map_port_fd K r s =
     (let (pt, l, fd) = r in
      case ports_find pt l (sk_ports s) of
        Some i \<Rightarrow> (let (fd', s1) = sk_ask (ko_fd_take K fd) s in sk_set_fd i fd' s1)
      | None \<Rightarrow> s)"

definition map_ports_fd :: "'w sock_ops \<Rightarrow> (port_type \<times> string \<times> int) list \<Rightarrow> 'w sock \<Rightarrow> 'w sock option" where
  "map_ports_fd K rports s = do {
     rust_assert (length rports = length (sk_ports s));
     Some (fold (map_port_fd K) rports s) }"

definition sk_db_map :: "'w sock_ops \<Rightarrow> section_socket \<Rightarrow> 'w sock \<Rightarrow> 'w sock option" where
  "sk_db_map K C s =
     (if \<not> sk_owner s then Some s
      else case sk_db s of
        None \<Rightarrow> Some s
      | Some r \<Rightarrow> do {
          let s1 = sk_update_control (skr_control_pid r) (s\<lparr>sk_state := skr_state r, sk_result := skr_result r\<rparr>);
          s2 \<leftarrow> sk_command_update C (skr_control_cmd_type r) (skr_control_cmd_len r) s1;
          map_ports_fd K (skr_ports r) (s2\<lparr>sk_refused := skr_refused r\<rparr>) })"

definition sk_entry_coldplug :: "'w sock_ops \<Rightarrow> 'w sock \<Rightarrow> 'w sock option" where
  "sk_entry_coldplug K s = (if sk_state s \<noteq> SkListening then watch_fds K s else Some s)"

definition sk_entry_clear :: "'w sock_ops \<Rightarrow> section_socket \<Rightarrow> 'w sock \<Rightarrow> 'w sock option" where
  "sk_entry_clear = close_fds"

section \<open>Events\<close>

definition starting_states :: "socket_state list" where
  "starting_states = [SkStartPre, SkStartChown, SkStartPost]"

definition sk_stopping_states :: "socket_state list" where
  "sk_stopping_states = [SkStopPre, SkStopPreSigterm, SkStopPreSigkill, SkStopPost, SkFinalSigterm, SkFinalSigkill]"

definition sk_start_check :: "'w sock_ops \<Rightarrow> section_socket \<Rightarrow> 'w sock \<Rightarrow> ((error + bool) \<times> 'w sock) option" where
  "sk_start_check K C s =
     (if sk_state s \<in> set (SkCleaning # sk_stopping_states) then Some (Inl UnitActionEAgain, s)
      else if sk_state s \<in> set starting_states then Some (Inr True, s)
      else case (case sk_service s of None \<Rightarrow> Inr () | Some name \<Rightarrow> ko_unit_enabled K name (sk_world s)) of
             Inl e \<Rightarrow> Some (Inl e, s)
           | Inr _ \<Rightarrow>
               let (ok, s1) = (if sk_owner s then sk_ask (ko_test_start_limit K) s else (False, s)) in
               if ok then Some (Inr False, s1)
               else map_option (Pair (Inl UnitActionECanceled)) (sk_enter_dead K C SkFailureStartLimitHit s1))"

definition sk_start_action :: "'w sock_ops \<Rightarrow> section_socket \<Rightarrow> 'w sock \<Rightarrow> 'w sock option" where
  "sk_start_action K C s = map_option sk_db_insert (sk_enter_start_pre K C (s\<lparr>sk_result := SkSuccess\<rparr>))"

definition sk_start :: "'w sock_ops \<Rightarrow> section_socket \<Rightarrow> 'w sock \<Rightarrow> ((error + unit) \<times> 'w sock) option" where
  "sk_start K C s = do {
     (r, s1) \<leftarrow> sk_start_check K C s;
     case r of
       Inl e \<Rightarrow> Some (Inl e, s1)
     | Inr starting \<Rightarrow> if starting then Some (Inr (), s1) else map_option (Pair (Inr ())) (sk_start_action K C s1) }"

definition sk_stop_check :: "'w sock_ops \<Rightarrow> section_socket \<Rightarrow> 'w sock \<Rightarrow> ((error + bool) \<times> 'w sock) option" where
  "sk_stop_check K C s =
     (if sk_state s \<in> set sk_stopping_states then Some (Inr True, s)
      else if sk_state s \<in> set starting_states
      then map_option (Pair (Inl UnitActionEAgain)) (sk_enter_signal K C SkStopPreSigterm SkSuccess s)
      else Some (Inr False, s))"

definition sk_stop_action :: "'w sock_ops \<Rightarrow> section_socket \<Rightarrow> 'w sock \<Rightarrow> 'w sock option" where
  "sk_stop_action K C s = map_option sk_db_insert (sk_enter_stop_pre K C SkSuccess s)"

definition sk_stop :: "'w sock_ops \<Rightarrow> section_socket \<Rightarrow> bool \<Rightarrow> 'w sock \<Rightarrow> ((error + unit) \<times> 'w sock) option" where
  "sk_stop K C force s =
     (if force then map_option (Pair (Inr ())) (sk_stop_action K C s)
      else do {
        (r, s1) \<leftarrow> sk_stop_check K C s;
        case r of
          Inl e \<Rightarrow> Some (Inl e, s1)
        | Inr stopping \<Rightarrow> if stopping then Some (Inr (), s1) else map_option (Pair (Inr ())) (sk_stop_action K C s1) })"

fun sk_sigchld_result :: "wait_status \<Rightarrow> socket_result option" where
  "sk_sigchld_result (Exited _ status) = Some (if status = 0 then SkSuccess else SkFailureExitCode)"
| "sk_sigchld_result (Signaled _ _ core_dump) = Some (if core_dump then SkFailureCoreDump else SkFailureSignal)"
| "sk_sigchld_result _ = None"

definition sk_sigchld_state :: "'w sock_ops \<Rightarrow> section_socket \<Rightarrow> socket_result \<Rightarrow> 'w sock \<Rightarrow> 'w sock option" where
  "sk_sigchld_state K C res s =
     (case sk_state s of
        SkStartPre \<Rightarrow> if res = SkSuccess then sk_enter_start_chown K C s else sk_enter_signal K C SkFinalSigterm res s
      | SkStartChown \<Rightarrow> if res = SkSuccess then sk_enter_start_post K C s else sk_enter_stop_pre K C res s
      | SkStartPost \<Rightarrow> if res = SkSuccess then sk_enter_listening K C s else sk_enter_stop_pre K C res s
      | SkStopPre \<Rightarrow> sk_enter_stop_post K C res s
      | SkStopPreSigterm \<Rightarrow> sk_enter_stop_post K C res s
      | SkStopPreSigkill \<Rightarrow> sk_enter_stop_post K C res s
      | SkStopPost \<Rightarrow> sk_enter_dead K C res s
      | SkFinalSigterm \<Rightarrow> sk_enter_dead K C res s
      | SkFinalSigkill \<Rightarrow> sk_enter_dead K C res s
      | _ \<Rightarrow> None)"

definition sk_sigchld_event :: "'w sock_ops \<Rightarrow> section_socket \<Rightarrow> wait_status \<Rightarrow> 'w sock \<Rightarrow> 'w sock option" where
  "sk_sigchld_event K C ws s = do {
     res \<leftarrow> sk_sigchld_result ws;
     s1 \<leftarrow> (if sk_control_command s \<noteq> [] \<and> res = SkSuccess then Some (sk_run_next K s) else sk_sigchld_state K C res s);
     Some (sk_db_insert s1) }"

text \<open>\<open>dispatch_io\<close>: the accepted descriptor is bound to a new variable, \<open>enter_running\<close> gets \<open>-1\<close>.\<close>

definition dispatch_io :: "'w sock_ops \<Rightarrow> section_socket \<Rightarrow> sk_port \<Rightarrow> 'w sock \<Rightarrow> (bool \<times> 'w sock) option" where
  "dispatch_io K C p s =
     (if sk_state s \<noteq> SkListening then Some (True, s)
      else
        let (go, s1) =
          (if Accept C \<and> sp_type p = PortSocket \<and> pc_can_accept (sp_conf p)
           then (let (r, s1) = sk_ask (ko_accept4 K (sp_fd p)) s in
                 case r of None \<Rightarrow> (False, s1) | Some afd \<Rightarrow> (True, sk_do (ko_sock_opt K afd) s1))
           else (True, s)) in
        if \<not> go then Some (False, s1)
        else map_option (\<lambda>s2. (True, sk_db_insert s2)) (sk_enter_running K C (- 1) s1))"

definition sk_dispatch :: "'w sock_ops \<Rightarrow> section_socket \<Rightarrow> sk_port \<Rightarrow> 'w sock \<Rightarrow> (int \<times> 'w sock) option" where
  "sk_dispatch K C p s = do {
     rust_assert (sk_owner s);
     let s1 = sk_do (ko_mark_last K True) (s\<lparr>sk_frame := Some (FdListen True)\<rparr>);
     (ok, s2) \<leftarrow> dispatch_io K C p s1;
     let s3 = sk_do (ko_mark_last K False) (s2\<lparr>sk_frame := None\<rparr>);
     Some (if ok then 0 else - 1, s3) }"

definition push_port :: "sk_port \<Rightarrow> 'w sock \<Rightarrow> 'w sock" where
  "push_port p s = sk_db_insert (s\<lparr>sk_ports := sk_ports s @ [p]\<rparr>)"

definition build_ports :: "(nat \<Rightarrow> u64) \<Rightarrow> port_conf list \<Rightarrow> 'w sock \<Rightarrow> 'w sock" where
  "build_ports tok ps s =
     fold (\<lambda>(i, pc). push_port \<lparr>sp_conf = pc, sp_token = tok i, sp_fd = - 1\<rparr>) (List.enumerate (length (sk_ports s)) ps) s"

definition sk_collect_fds :: "'w sock \<Rightarrow> int list" where
  "sk_collect_fds s = filter (\<lambda>fd. fd \<ge> 0) (map sp_fd (sk_ports s))"

end
