(* ===== verification/Socket_Inv.thy ===== *)
theory Socket_Inv
  imports Socket_Mng
begin

text \<open>
  The invariant of a socket and what every event does to it: which process is its control process, when its
  ports are open and when the event loop watches them. \<open>sk_core\<close> is what every step keeps, also in the middle
  of a handler; \<open>sk_wf\<close> is established anew by every change of state.
\<close>

section \<open>What the environment promises\<close>

text \<open>
  The calls of epoll succeed, a descriptor that was opened is not negative, and draining the ports ends: an
  interrupted poll and a read that returned something use up what \<open>m\<close> counts.
\<close>

definition flush_measure :: "'w sock_ops \<Rightarrow> ('w \<Rightarrow> nat) \<Rightarrow> bool" where
  "flush_measure K m \<longleftrightarrow> (\<forall>fd w. m (snd (ko_ppoll K fd w)) \<le> m w) \<and>
     (\<forall>fd w w'. ko_ppoll K fd w = (Inl EINTR, w') \<longrightarrow> m w' < m w) \<and>
     (\<forall>fd w r w'. ko_read K fd w = (r, w') \<and> (r = Inl EINTR \<or> (\<exists>n > 0. r = Inr n)) \<longrightarrow> m w' < m w)"

definition opened_nonneg :: "('w \<Rightarrow> int option \<times> 'w) \<Rightarrow> bool" where
  "opened_nonneg f \<longleftrightarrow> (\<forall>w fd. fst (f w) = Some fd \<longrightarrow> 0 \<le> fd)"

definition epoll_ok :: "'w sock_ops \<Rightarrow> bool" where
  "epoll_ok K \<longleftrightarrow> (\<forall>r w. fst (eo_register (ko_events K) r w)) \<and> (\<forall>r w. fst (eo_unregister (ko_events K) r w))"

definition sock_env_ok :: "'w sock_ops \<Rightarrow> bool" where
  "sock_env_ok K \<longleftrightarrow> epoll_ok K \<and> (\<exists>m. flush_measure K m) \<and>
     (\<forall>p. opened_nonneg (ko_listen K p) \<and> opened_nonneg (ko_open_fifo K p) \<and> opened_nonneg (ko_open_special K p))"

lemma sock_env_okD:
  assumes "sock_env_ok K"
  shows "epoll_ok K" "\<exists>m. flush_measure K m" "opened_nonneg (ko_listen K p)" "opened_nonneg (ko_open_fifo K p)"
    "opened_nonneg (ko_open_special K p)"
  using assms by (simp_all add: sock_env_ok_def)

section \<open>The event loop seen from a port\<close>

definition est :: "'w events \<Rightarrow> u64 \<Rightarrow> event_state option" where
  "est ev = map_of (ed_state ev)"

lemma est_env [simp]: "est (ev\<lparr>ed_env := w\<rparr>) = est ev"
  by (simp add: est_def)

lemma port_source_sel [simp]:
  "src_token (port_source p) = sp_token p" "src_type (port_source p) = EvIo" "src_fd (port_source p) = sp_fd p"
  by (simp_all add: port_source_def)

lemma add_source_port:
  "\<exists>ev'. add_source (port_source p) ev = Some (Inr (), ev') \<and> est ev' = (est ev)(sp_token p \<mapsto> EvOff)"
  by (simp add: add_source_def is_fd_type_def est_def update_conv' Let_def)

lemma source_offline_port:
  assumes "epoll_ok K"
  shows "\<exists>ev'. source_offline (ko_events K) (port_source p) ev = Some (Inr (), ev') \<and> est ev' = est ev"
proof (cases "map_of (ed_state ev) (sp_token p)")
  case None
  then show ?thesis by (simp add: source_offline_def)
next
  case (Some st)
  obtain b w where "eo_unregister (ko_events K) (RegFd (sp_fd p)) (ed_env ev) = (b, w)" by fastforce
  moreover have "b" using calculation assms by (metis epoll_ok_def fst_conv)
  ultimately show ?thesis
    using Some by (cases st) (simp_all add: source_offline_def ev_env_def ev_syscall_def Let_def)
qed

lemma set_enabled_off_port:
  assumes "epoll_ok K"
  shows "\<exists>ev'. set_enabled (ko_events K) (port_source p) EvOff ev = Some (Inr (), ev') \<and> est ev' = (est ev)(sp_token p \<mapsto> EvOff)"
proof -
  obtain ev' where "source_offline (ko_events K) (port_source p) ev = Some (Inr (), ev')" "est ev' = est ev"
    using source_offline_port [OF assms] by blast
  then show ?thesis by (simp add: set_enabled_def est_def update_conv')
qed

lemma set_enabled_on_port:
  assumes "epoll_ok K"
  shows "\<exists>ev'. set_enabled (ko_events K) (port_source p) EvOn ev = Some (Inr (), ev') \<and> est ev' = (est ev)(sp_token p \<mapsto> EvOn)"
proof -
  obtain b w where b: "eo_register (ko_events K) (RegFd (sp_fd p)) (ed_env ev) = (b, w)" by fastforce
  then have "b" using assms by (metis epoll_ok_def fst_conv)
  then show ?thesis
    using b by (simp add: set_enabled_def source_online_def ev_env_def ev_syscall_def est_def update_conv' Let_def)
qed

lemma del_source_port:
  assumes "epoll_ok K"
  shows "\<exists>ev'. del_source (ko_events K) (port_source p) ev = Some (Inr (), ev') \<and> est ev' = (est ev)(sp_token p := None)"
proof -
  obtain ev' where "source_offline (ko_events K) (port_source p) ev = Some (Inr (), ev')" "est ev' = est ev"
    using source_offline_port [OF assms] by blast
  then show ?thesis by (simp add: del_source_def est_def is_fd_type_def delete_conv' Let_def)
qed

section \<open>Frames\<close>

text \<open>Only the events and the world differ.\<close>

definition ev_only :: "'w sock \<Rightarrow> 'w sock \<Rightarrow> bool" where
  "ev_only s s' \<longleftrightarrow> (\<exists>ev. s' = s\<lparr>sk_ev := ev\<rparr>)"

definition world_only :: "'w sock \<Rightarrow> 'w sock \<Rightarrow> bool" where
  "world_only s s' \<longleftrightarrow> (\<exists>w. s' = s\<lparr>sk_ev := (sk_ev s)\<lparr>ed_env := w\<rparr>\<rparr>)"

lemma ev_only_refl [simp]: "ev_only s s"
  unfolding ev_only_def by (rule exI [of _ "sk_ev s"]) simp

lemma ev_only_trans [trans]: "ev_only s s' \<Longrightarrow> ev_only s' s'' \<Longrightarrow> ev_only s s''"
  by (auto simp: ev_only_def)

lemma ev_onlyD:
  assumes "ev_only s s'"
  shows "sk_owner s' = sk_owner s" "sk_service s' = sk_service s" "sk_state s' = sk_state s" "sk_result s' = sk_result s"
    "sk_control s' = sk_control s" "sk_ports s' = sk_ports s" "sk_control_command s' = sk_control_command s" "sk_db s' = sk_db s"
    "sk_control_cmd_type s' = sk_control_cmd_type s" "sk_refused s' = sk_refused s"
  using assms by (auto simp: ev_only_def)

lemma world_only_refl [simp]: "world_only s s"
  unfolding world_only_def by (rule exI [of _ "sk_world s"]) simp

lemma world_only_trans [trans]: "world_only s s' \<Longrightarrow> world_only s' s'' \<Longrightarrow> world_only s s''"
  by (auto simp: world_only_def)

lemma world_only_ev: "world_only s s' \<Longrightarrow> ev_only s s' \<and> est (sk_ev s') = est (sk_ev s)"
  by (auto simp: world_only_def ev_only_def)

lemmas world_onlyD = ev_onlyD [OF conjunct1 [OF world_only_ev]] conjunct2 [OF world_only_ev]

lemma sk_do_world [simp]: "world_only s (sk_do f s)"
  by (auto simp: sk_do_def world_only_def)

lemma sk_ask_world: "sk_ask f s = (a, s') \<Longrightarrow> world_only s s'"
  by (auto simp: sk_ask_def world_only_def split: prod.splits)

lemma fold_sk_do_world: "world_only s (fold (\<lambda>l. sk_do (f l)) ls s)"
  by (induction ls arbitrary: s) (auto intro: world_only_trans [OF sk_do_world])

lemma sk_do_sel [simp]:
  "sk_owner (sk_do f s) = sk_owner s" "sk_state (sk_do f s) = sk_state s" "sk_result (sk_do f s) = sk_result s"
  "sk_control (sk_do f s) = sk_control s" "sk_ports (sk_do f s) = sk_ports s" "sk_service (sk_do f s) = sk_service s"
  "sk_control_command (sk_do f s) = sk_control_command s" "sk_db (sk_do f s) = sk_db s" "est (sk_ev (sk_do f s)) = est (sk_ev s)"
  by (simp_all add: sk_do_def)

section \<open>Watching and closing ports\<close>

lemma sk_events_ok:
  assumes "f (sk_ev s) = Some (Inr (), ev')"
  shows "sk_events f s = Some (s\<lparr>sk_ev := ev'\<rparr>)"
  using assms by (simp add: sk_events_def)

lemma fold_events_ok:
  assumes step: "\<And>p ev. p \<in> set ps \<Longrightarrow> \<exists>ev'. f p ev = Some (Inr (), ev') \<and> est ev' = (est ev)(sp_token p := v)"
  shows "\<exists>s'. fold_opt (\<lambda>p. sk_events (f p)) ps s = Some s' \<and> ev_only s s' \<and>
    est (sk_ev s') = (\<lambda>t. if t \<in> sp_token ` set ps then v else est (sk_ev s) t)"
  using step
proof (induction ps arbitrary: s)
  case Nil
  then show ?case by simp
next
  case (Cons p ps)
  obtain ev' where ev': "f p (sk_ev s) = Some (Inr (), ev')" "est ev' = (est (sk_ev s))(sp_token p := v)"
    using Cons.prems [OF list.set_intros(1)] by blast
  let ?s = "s\<lparr>sk_ev := ev'\<rparr>"
  obtain s' where s': "fold_opt (\<lambda>p. sk_events (f p)) ps ?s = Some s'" "ev_only ?s s'"
    "est (sk_ev s') = (\<lambda>t. if t \<in> sp_token ` set ps then v else est (sk_ev ?s) t)"
    using Cons.IH [of ?s] Cons.prems by auto
  have "ev_only s s'" using s'(2) by (auto simp: ev_only_def)
  then show ?case using s' ev' by (auto simp: sk_events_ok fun_eq_iff)
qed

lemma unwatch_fds_ok:
  assumes "epoll_ok K"
  shows "\<exists>s'. unwatch_fds K s = Some s' \<and> ev_only s s' \<and>
    est (sk_ev s') = (\<lambda>t. if t \<in> sp_token ` set (sk_ports s) then Some EvOff else est (sk_ev s) t)"
  unfolding unwatch_fds_def by (rule fold_events_ok) (rule set_enabled_off_port [OF assms])

lemma watch_fds_ok:
  assumes E: "epoll_ok K"
  shows "\<exists>s'. watch_fds K s = Some s' \<and> ev_only s s' \<and>
    (\<forall>p \<in> set (sk_ports s). 0 \<le> sp_fd p \<longrightarrow> est (sk_ev s') (sp_token p) = Some EvOn)"
proof -
  let ?f = "\<lambda>p s. if sp_fd p < 0 then Some s
      else Option.bind (sk_events (add_source (port_source p)) s) (sk_events (set_enabled (ko_events K) (port_source p) EvOn))"
  have "\<exists>s'. fold_opt ?f ps s = Some s' \<and> ev_only s s' \<and>
      (\<forall>t. est (sk_ev s) t = Some EvOn \<longrightarrow> est (sk_ev s') t = Some EvOn) \<and>
      (\<forall>p \<in> set ps. 0 \<le> sp_fd p \<longrightarrow> est (sk_ev s') (sp_token p) = Some EvOn)" for ps and s :: "'a sock"
  proof (induction ps arbitrary: s)
    case Nil
    then show ?case by simp
  next
    case (Cons p ps)
    show ?case
    proof (cases "sp_fd p < 0")
      case True
      then show ?thesis using Cons.IH [of s] by auto
    next
      case False
      obtain ev1 where a: "add_source (port_source p) (sk_ev s) = Some (Inr (), ev1)" "est ev1 = (est (sk_ev s))(sp_token p \<mapsto> EvOff)"
        using add_source_port by blast
      obtain ev2 where b: "set_enabled (ko_events K) (port_source p) EvOn ev1 = Some (Inr (), ev2)" "est ev2 = (est ev1)(sp_token p \<mapsto> EvOn)"
        using set_enabled_on_port [OF E] by blast
      let ?s = "s\<lparr>sk_ev := ev2\<rparr>"
      have f: "?f p s = Some ?s" using False a(1) b(1) by (simp add: sk_events_ok)
      obtain s' where s': "fold_opt ?f ps ?s = Some s'" "ev_only ?s s'" "\<forall>t. est (sk_ev ?s) t = Some EvOn \<longrightarrow> est (sk_ev s') t = Some EvOn"
        "\<forall>p \<in> set ps. 0 \<le> sp_fd p \<longrightarrow> est (sk_ev s') (sp_token p) = Some EvOn"
        using Cons.IH [of ?s] by (elim exE conjE)
      have o: "ev_only s s'" using s'(2) by (auto simp: ev_only_def)
      have "fold_opt ?f (p # ps) s = Some s'" using f s'(1) by simp
      moreover have "est (sk_ev s') (sp_token p) = Some EvOn" using s'(3) b(2) by simp
      moreover have "\<forall>t. est (sk_ev s) t = Some EvOn \<longrightarrow> est (sk_ev s') t = Some EvOn" using s'(3) a(2) b(2) by simp
      ultimately show ?thesis using o s'(4) by (intro exI [of _ s']) auto
    qed
  qed
  from this [of "sk_ports s" s] show ?thesis unfolding watch_fds_def by blast
qed

section \<open>The ports of a socket\<close>

text \<open>The fields that no phase changes: the owner, the service, and the ports but for their descriptors.\<close>

definition port_ids :: "'w sock \<Rightarrow> (port_conf \<times> u64) list" where
  "port_ids s = map (\<lambda>p. (sp_conf p, sp_token p)) (sk_ports s)"

definition sk_core :: "'w sock \<Rightarrow> bool" where
  "sk_core s \<longleftrightarrow> sk_owner s \<and> distinct (map snd (port_ids s)) \<and> (\<forall>(c, t) \<in> set (port_ids s). pc_type c \<noteq> PortInvalid)"

definition same_unit :: "'w sock \<Rightarrow> 'w sock \<Rightarrow> bool" where
  "same_unit s s' \<longleftrightarrow> sk_owner s' = sk_owner s \<and> sk_service s' = sk_service s \<and> port_ids s' = port_ids s"

lemma same_unit_refl [simp]: "same_unit s s"
  by (simp add: same_unit_def)

lemma same_unit_trans [trans]: "same_unit s s' \<Longrightarrow> same_unit s' s'' \<Longrightarrow> same_unit s s''"
  by (simp add: same_unit_def)

lemma same_unit_core: "same_unit s s' \<Longrightarrow> sk_core s' = sk_core s"
  by (simp add: same_unit_def sk_core_def)

lemma ev_only_unit: "ev_only s s' \<Longrightarrow> same_unit s s'"
  by (auto simp: ev_only_def same_unit_def port_ids_def)

lemma world_only_unit: "world_only s s' \<Longrightarrow> same_unit s s'"
  using world_only_ev ev_only_unit by blast

lemma same_unit_upd [simp]:
  "same_unit s (s\<lparr>sk_state := a\<rparr>)" "same_unit s (s\<lparr>sk_result := b\<rparr>)" "same_unit s (s\<lparr>sk_control := c\<rparr>)"
  "same_unit s (s\<lparr>sk_control_command := d\<rparr>)" "same_unit s (s\<lparr>sk_db := e\<rparr>)" "same_unit s (s\<lparr>sk_frame := f\<rparr>)"
  "same_unit s (sk_do g s)" "same_unit s (sk_set_control i s)"
  by (simp_all add: same_unit_def port_ids_def sk_set_control_def)

lemma port_ids_length [simp]: "length (port_ids s) = length (sk_ports s)"
  by (simp add: port_ids_def)

text \<open>Setting the descriptor of one port.\<close>

lemma sk_set_fd_unit [simp]: "same_unit s (sk_set_fd i fd s)"
proof (cases "i < length (sk_ports s)")
  case True
  have "port_ids (sk_set_fd i fd s) = port_ids s"
    by (rule nth_equalityI) (use True in \<open>auto simp: port_ids_def sk_set_fd_def nth_list_update\<close>)
  then show ?thesis by (simp add: same_unit_def sk_set_fd_def)
next
  case False
  then have "(sk_ports s)[i := (sk_ports s ! i)\<lparr>sp_fd := fd\<rparr>] = sk_ports s" by (simp add: list_update_beyond)
  then show ?thesis by (simp add: sk_set_fd_def same_unit_def port_ids_def)
qed

lemma sk_set_fd_sel [simp]:
  "sk_state (sk_set_fd i fd s) = sk_state s" "sk_result (sk_set_fd i fd s) = sk_result s" "sk_control (sk_set_fd i fd s) = sk_control s"
  "sk_control_command (sk_set_fd i fd s) = sk_control_command s" "sk_ev (sk_set_fd i fd s) = sk_ev s" "sk_owner (sk_set_fd i fd s) = sk_owner s"
  "sk_db (sk_set_fd i fd s) = sk_db s"
  by (simp_all add: sk_set_fd_def)

definition fds :: "'w sock \<Rightarrow> int list" where
  "fds s = map sp_fd (sk_ports s)"

lemma fds_length [simp]: "length (fds s) = length (sk_ports s)"
  by (simp add: fds_def)

lemma fds_set_fd: "i < length (sk_ports s) \<Longrightarrow> fds (sk_set_fd i fd s) = (fds s)[i := fd]"
  by (simp add: fds_def sk_set_fd_def map_update)

lemma fds_ports: "sk_ports s' = sk_ports s \<Longrightarrow> fds s' = fds s"
  by (simp add: fds_def)

text \<open>What the steps on ports leave alone.\<close>

definition fd_step :: "'w sock \<Rightarrow> 'w sock \<Rightarrow> bool" where
  "fd_step s s' \<longleftrightarrow> same_unit s s' \<and> sk_state s' = sk_state s \<and> sk_result s' = sk_result s \<and> sk_control s' = sk_control s \<and>
     sk_control_command s' = sk_control_command s"

lemma fd_step_refl [simp]: "fd_step s s"
  by (simp add: fd_step_def)

lemma fd_step_trans [trans]: "fd_step s s' \<Longrightarrow> fd_step s' s'' \<Longrightarrow> fd_step s s''"
  by (auto simp: fd_step_def intro: same_unit_trans)

lemma fd_step_unit: "fd_step s s' \<Longrightarrow> same_unit s s'"
  by (simp add: fd_step_def)

lemma ev_only_fd_step: "ev_only s s' \<Longrightarrow> fd_step s s'"
  by (simp add: fd_step_def ev_only_unit ev_onlyD)

lemma world_only_fd_step: "world_only s s' \<Longrightarrow> fd_step s s'"
  using world_only_ev ev_only_fd_step by blast

lemma set_fd_fd_step [simp]: "fd_step s (sk_set_fd i fd s)"
  by (simp add: fd_step_def)

lemma fd_step_length: "fd_step s s' \<Longrightarrow> length (sk_ports s') = length (sk_ports s)"
  by (metis fd_step_def same_unit_def port_ids_length)

lemma fd_step_tokens: "fd_step s s' \<Longrightarrow> sp_token ` set (sk_ports s') = sp_token ` set (sk_ports s)"
proof -
  assume "fd_step s s'"
  then have "snd ` set (port_ids s') = snd ` set (port_ids s)" by (simp add: fd_step_def same_unit_def)
  then show ?thesis by (simp add: port_ids_def image_image)
qed

section \<open>Closing\<close>

lemma port_close_step:
  assumes "i < length (sk_ports s)"
  shows "fd_step s (port_close K i s) \<and> est (sk_ev (port_close K i s)) = est (sk_ev s) \<and>
    (\<exists>fd < 0. fds (port_close K i s) = (fds s)[i := fd])"
proof (cases "sp_fd (sk_ports s ! i) < 0")
  case True
  then have "fds s = (fds s)[i := sp_fd (sk_ports s ! i)]" using assms
    by (metis fds_def list_update_id nth_map)
  then show ?thesis using True by (auto simp: port_close_def Let_def)
next
  case False
  let ?fd = "sp_fd (sk_ports s ! i)"
  obtain b s1 where b: "sk_ask (ko_fd_cloexec K ?fd True) s = (b, s1)" by fastforce
  let ?s2 = "sk_do (ko_close K ?fd) s1"
  have w: "world_only s ?s2" using world_only_trans [OF sk_ask_world [OF b] sk_do_world] .
  then have p: "sk_ports ?s2 = sk_ports s" by (rule world_onlyD)
  have "port_close K i s = sk_set_fd i (- 1) ?s2" using False b by (simp add: port_close_def Let_def)
  moreover have "fd_step s (sk_set_fd i (- 1) ?s2)" using fd_step_trans [OF world_only_fd_step [OF w] set_fd_fd_step] .
  moreover have "fds (sk_set_fd i (- 1) ?s2) = (fds s)[i := - 1]" using assms fds_set_fd [of i ?s2 "- 1"] fds_ports [OF p] p by simp
  ultimately show ?thesis using world_only_ev [OF w] by (auto intro!: exI [of _ "- 1"])
qed

lemma close_ports_step:
  "n \<le> length (sk_ports s) \<Longrightarrow> fd_step s (fold (port_close K) [0..<n] s) \<and> est (sk_ev (fold (port_close K) [0..<n] s)) = est (sk_ev s) \<and>
    (\<forall>i < n. fds (fold (port_close K) [0..<n] s) ! i < 0)"
proof (induction n)
  case 0
  then show ?case by simp
next
  case (Suc n)
  let ?t = "fold (port_close K) [0..<n] s"
  have t: "fd_step s ?t" "est (sk_ev ?t) = est (sk_ev s)" "\<forall>i < n. fds ?t ! i < 0" using Suc by auto
  have n: "n < length (sk_ports ?t)" using Suc.prems fd_step_length [OF t(1)] by simp
  obtain fd where c: "fd_step ?t (port_close K n ?t)" "est (sk_ev (port_close K n ?t)) = est (sk_ev ?t)"
    "fd < 0" "fds (port_close K n ?t) = (fds ?t)[n := fd]"
    using port_close_step [OF n] by blast
  have "\<forall>i < Suc n. fds (port_close K n ?t) ! i < 0" using c(3,4) t(3) n by (auto simp: nth_list_update less_Suc_eq)
  then show ?case using fd_step_trans [OF t(1) c(1)] c(2) t(2) by simp
qed

lemma port_unlink_ok: "pc_type p \<noteq> PortInvalid \<Longrightarrow> \<exists>s'. port_unlink K p s = Some s' \<and> world_only s s'"
  by (cases "pc_type p") (auto simp: port_unlink_def split: option.split)

lemma unlink_ports_ok:
  assumes "\<And>p. p \<in> set ps \<Longrightarrow> sp_type p \<noteq> PortInvalid"
  shows "\<exists>s'. fold_opt (\<lambda>p. port_unlink K (sp_conf p)) ps s = Some s' \<and> world_only s s'"
proof (rule fold_opt_total)
  fix p t
  assume "p \<in> set ps" "world_only s t"
  then show "\<exists>t'. port_unlink K (sp_conf p) t = Some t' \<and> world_only s t'"
    using port_unlink_ok [of "sp_conf p" K t] assms [of p] world_only_trans by (auto simp: sp_type_def)
qed simp

lemma core_types: "sk_core s \<Longrightarrow> p \<in> set (sk_ports s) \<Longrightarrow> sp_type p \<noteq> PortInvalid"
  by (force simp: sk_core_def port_ids_def sp_type_def)

definition closed :: "'w sock \<Rightarrow> bool" where
  "closed s \<longleftrightarrow> (\<forall>fd \<in> set (fds s). fd < 0)"

definition unwatched :: "'w sock \<Rightarrow> bool" where
  "unwatched s \<longleftrightarrow> (\<forall>p \<in> set (sk_ports s). est (sk_ev s) (sp_token p) \<noteq> Some EvOn)"

lemma unwatched_tokens: "unwatched s \<longleftrightarrow> (\<forall>t \<in> sp_token ` set (sk_ports s). est (sk_ev s) t \<noteq> Some EvOn)"
  by (auto simp: unwatched_def)

lemma close_fds_ok:
  assumes E: "epoll_ok K" and core: "sk_core s"
  shows "\<exists>s'. close_fds K C s = Some s' \<and> fd_step s s' \<and> closed s' \<and> unwatched s'"
proof -
  obtain s1 where s1: "fold_opt (\<lambda>p. sk_events (del_source (ko_events K) (port_source p))) (sk_ports s) s = Some s1" "ev_only s s1"
    "est (sk_ev s1) = (\<lambda>t. if t \<in> sp_token ` set (sk_ports s) then None else est (sk_ev s) t)"
    using fold_events_ok [OF del_source_port [OF E]] by blast
  let ?s2 = "fold (port_close K) [0..<length (sk_ports s1)] s1"
  have s2: "fd_step s1 ?s2" "est (sk_ev ?s2) = est (sk_ev s1)" "\<forall>i < length (sk_ports s1). fds ?s2 ! i < 0"
    using close_ports_step [of "length (sk_ports s1)" s1 K] by auto
  have st: "fd_step s ?s2" using fd_step_trans [OF ev_only_fd_step [OF s1(2)] s2(1)] .
  have cl: "closed ?s2" using s2(3) fd_step_length [OF s2(1)] by (auto simp: closed_def in_set_conv_nth)
  have un: "unwatched ?s2" using s2(2) s1(3) fd_step_tokens [OF st] by (simp add: unwatched_tokens)
  have core2: "sk_core ?s2" using core same_unit_core [OF fd_step_unit [OF st]] by simp
  obtain s3 where s3: "fold_opt (\<lambda>p. port_unlink K (sp_conf p)) (sk_ports ?s2) ?s2 = Some s3" "world_only ?s2 s3"
    using unlink_ports_ok [of "sk_ports ?s2" K ?s2] core_types [OF core2] by blast
  let ?s4 = "case Symlinks C of None \<Rightarrow> s3 | Some ls \<Rightarrow> fold (\<lambda>l. sk_do (ko_unlink K l)) ls s3"
  have w4: "world_only ?s2 ?s4" using world_only_trans [OF s3(2) fold_sk_do_world] s3(2) by (cases "Symlinks C") auto
  have "closed ?s4 \<and> unwatched ?s4" using cl un world_onlyD(6,11) [OF w4] by (simp add: closed_def unwatched_def fds_def)
  moreover have "fd_step s ?s4" using fd_step_trans [OF st world_only_fd_step [OF w4]] .
  ultimately show ?thesis using st cl un s1(1) s3(1) by (cases "RemoveOnStop C") (auto simp: close_fds_def Let_def)
qed

section \<open>Draining\<close>

lemma wait_for_events_world: "snd (wait_for_events K fd w) = snd (ko_ppoll K fd w)"
  by (auto simp: wait_for_events_def split: prod.splits sum.splits)

lemma wait_for_events_EINTR: "wait_for_events K fd w = (Inl EINTR, w') \<Longrightarrow> ko_ppoll K fd w = (Inl EINTR, w')"
  by (auto simp: wait_for_events_def split: prod.splits sum.splits if_splits)

lemma flush_wait_total:
  assumes "flush_measure K m"
  shows "\<exists>r. flush_wait K fd w = Some r"
proof (induction "m w" arbitrary: w rule: less_induct)
  case less
  obtain r w1 where r: "wait_for_events K fd w = (r, w1)" by fastforce
  show ?case
  proof (cases "r = Inl EINTR")
    case True
    then have "ko_ppoll K fd w = (Inl EINTR, w1)" using wait_for_events_EINTR r by simp
    then have "m w1 < m w" using assms unfolding flush_measure_def by blast
    then show ?thesis using less [of w1] r True by (subst flush_wait.simps) simp
  next
    case False
    then show ?thesis using r by (subst flush_wait.simps) (auto split: sum.split errno.split)
  qed
qed

lemma flush_accepts_total:
  assumes "flush_measure K m"
  shows "\<exists>w'. flush_accepts K fd n w = Some w'"
proof (induction n arbitrary: w)
  case (Suc n)
  obtain b w1 where "flush_wait K fd w = Some (b, w1)" using flush_wait_total [OF assms] by fastforce
  then show ?case using Suc by (auto split: prod.splits option.splits)
qed simp

lemma flush_fd_total:
  assumes m: "flush_measure K m"
  shows "\<exists>w'. flush_fd K fd w = Some w'"
proof (induction "m w" arbitrary: w rule: less_induct)
  case less
  obtain r w1 where r: "wait_for_events K fd w = (r, w1)" by fastforce
  obtain r2 w2 where r2: "ko_read K fd w1 = (r2, w2)" by fastforce
  let ?v = "case r of Inl _ \<Rightarrow> 0 | Inr n \<Rightarrow> n" and ?v2 = "case r2 of Inl e \<Rightarrow> if e = EINTR then 1 else 0 | Inr n \<Rightarrow> n"
  have e: "flush_fd K fd w = (if ?v = 0 then Some w1 else if ?v2 = 0 then Some w2 else flush_fd K fd w2)"
    using r r2 by (subst flush_fd.simps) (simp add: Let_def)
  show ?case
  proof (cases "?v2 = 0")
    case True
    then show ?thesis using e by simp
  next
    case False
    then have "r2 = Inl EINTR \<or> (\<exists>n > 0. r2 = Inr n)" by (cases r2) (auto split: if_splits)
    then have "m w2 < m w1" using m r2 unfolding flush_measure_def by blast
    moreover have "m w1 \<le> m w" using m wait_for_events_world [of K fd w] r by (metis flush_measure_def snd_conv)
    ultimately show ?thesis using less [of w2] e by simp
  qed
qed

lemma flush_ports_ok:
  assumes "sock_env_ok K"
  shows "\<exists>s'. flush_ports K s = Some s' \<and> world_only s s'"
proof -
  obtain m where m: "flush_measure K m" using sock_env_okD(2) [OF assms] by blast
  have "\<exists>w'. fold_opt (\<lambda>p w. Option.bind (flush_accept K (sp_fd p) w) (flush_fd K (sp_fd p))) ps w = Some w' \<and> True" for ps w
  proof (rule fold_opt_total)
    fix p w
    obtain w1 where "flush_accept K (sp_fd p) w = Some w1"
      using flush_accepts_total [OF m, of "sp_fd p" 1023 w] unfolding flush_accept_def by metis
    then show "\<exists>t. Option.bind (flush_accept K (sp_fd p) w) (flush_fd K (sp_fd p)) = Some t \<and> True"
      using flush_fd_total [OF m] by simp
  qed simp
  from this [of "sk_ports s" "sk_world s"] show ?thesis by (auto simp: flush_ports_def)
qed

section \<open>Opening\<close>

lemma apply_symlink_world: "world_only s (apply_symlink K C p s)"
  using fold_sk_do_world by (auto simp: apply_symlink_def split: option.split)

lemma sk_ask_opened: "opened_nonneg f \<Longrightarrow> sk_ask f s = (Some fd, s') \<Longrightarrow> 0 \<le> fd"
  by (auto simp: opened_nonneg_def sk_ask_def split: prod.splits) (metis fst_conv)

lemma port_open_fd_ok:
  assumes K: "sock_env_ok K" and p: "pc_type p \<noteq> PortInvalid"
  shows "\<exists>r s'. port_open_fd K C p s = Some (r, s') \<and> world_only s s' \<and> (\<forall>fd. r = Some fd \<longrightarrow> 0 \<le> fd)"
proof -
  have ask: "\<exists>r s'. sk_ask f s = (r, s') \<and> world_only s s' \<and> (\<forall>fd. r = Some fd \<longrightarrow> 0 \<le> fd)" if "opened_nonneg f" for f
    using sk_ask_world sk_ask_opened [OF that] by (metis surj_pair)
  have linked: "\<exists>r s'. (case sk_ask f s of (fd, s1) \<Rightarrow> (fd, if fd = None then s1 else apply_symlink K C p s1)) = (r, s') \<and>
      world_only s s' \<and> (\<forall>fd. r = Some fd \<longrightarrow> 0 \<le> fd)" if "opened_nonneg f" for f
    using ask [OF that] apply_symlink_world world_only_trans by (smt (verit, best) case_prod_conv)
  show ?thesis
    using p linked [OF sock_env_okD(3) [OF K]] linked [OF sock_env_okD(4) [OF K]] ask [OF sock_env_okD(5) [OF K]]
    by (cases "pc_type p") (simp_all add: port_open_fd_def Let_def)
qed

lemma open_port_ok:
  assumes K: "sock_env_ok K" and core: "sk_core s" and i: "i < length (sk_ports s)"
  shows "\<exists>ok s'. open_port K C i s = Some (ok, s') \<and> fd_step s s' \<and>
    (ok \<longrightarrow> est (sk_ev s') = est (sk_ev s) \<and> (\<exists>fd \<ge> 0. fds s' = (fds s)[i := fd]))"
proof (cases "sp_fd (sk_ports s ! i) \<ge> 0")
  case True
  then have "fds s = (fds s)[i := sp_fd (sk_ports s ! i)]" using i by (metis fds_def list_update_id nth_map)
  then show ?thesis using True by (auto simp: open_port_def Let_def)
next
  case False
  let ?p = "sp_conf (sk_ports s ! i)"
  have "pc_type ?p \<noteq> PortInvalid" using core_types [OF core nth_mem [OF i]] by (simp add: sp_type_def)
  then obtain r s1 where r: "port_open_fd K C ?p s = Some (r, s1)" "world_only s s1" "\<forall>fd. r = Some fd \<longrightarrow> 0 \<le> fd"
    using port_open_fd_ok [OF K] by blast
  show ?thesis
  proof (cases r)
    case None
    then show ?thesis using False r world_only_fd_step by (auto simp: open_port_def Let_def)
  next
    case (Some fd)
    obtain b s2 where b: "sk_ask (ko_fd_cloexec K fd False) s1 = (b, s2)" by fastforce
    have w: "world_only s s2" using world_only_trans [OF r(2) sk_ask_world [OF b]] .
    have ports: "sk_ports s2 = sk_ports s" using world_onlyD(6) [OF w] .
    have o: "open_port K C i s = Some (if b then (True, sk_set_fd i fd s2) else (False, port_close K i s2))"
      using False r(1) b Some by (simp add: open_port_def Let_def)
    have "fd_step s (sk_set_fd i fd s2)" using fd_step_trans [OF world_only_fd_step [OF w] set_fd_fd_step] .
    moreover have "fd_step s (port_close K i s2)"
      using fd_step_trans [OF world_only_fd_step [OF w]] port_close_step [of i s2 K] i ports by simp
    moreover have "fds (sk_set_fd i fd s2) = (fds s)[i := fd]" using fds_set_fd [of i s2 fd] i ports by (simp add: fds_ports [OF ports])
    ultimately show ?thesis using o r(3) Some world_onlyD(11) [OF w] by (cases b) auto
  qed
qed

definition opened :: "'w sock \<Rightarrow> bool" where
  "opened s \<longleftrightarrow> (\<forall>fd \<in> set (fds s). 0 \<le> fd)"

lemma opened_ports: "sk_ports s' = sk_ports s \<Longrightarrow> opened s' = opened s"
  by (simp add: opened_def fds_def)

lemma open_fds_from_ok:
  assumes K: "sock_env_ok K"
  shows "sk_core s \<Longrightarrow> k \<le> length (sk_ports s) \<Longrightarrow> \<forall>i < k. 0 \<le> fds s ! i \<Longrightarrow>
    \<exists>ok s'. open_fds_from K C [k..<length (sk_ports s)] s = Some (ok, s') \<and> fd_step s s' \<and> (ok \<longrightarrow> opened s')"
proof (induction "length (sk_ports s) - k" arbitrary: k s)
  case 0
  then have "opened s" by (auto simp: opened_def in_set_conv_nth)
  then show ?case using 0 by (intro exI [of _ True]) simp
next
  case (Suc n)
  then have k: "k < length (sk_ports s)" "[k..<length (sk_ports s)] = k # [Suc k..<length (sk_ports s)]"
    by (simp_all add: upt_conv_Cons)
  obtain ok s1 where s1: "open_port K C k s = Some (ok, s1)" "fd_step s s1"
    "ok \<longrightarrow> est (sk_ev s1) = est (sk_ev s) \<and> (\<exists>fd \<ge> 0. fds s1 = (fds s)[k := fd])"
    using open_port_ok [OF K Suc.prems(1) k(1)] by blast
  have core1: "sk_core s1" using Suc.prems(1) same_unit_core [OF fd_step_unit [OF s1(2)]] by simp
  show ?case
  proof (cases ok)
    case False
    obtain s' where "close_fds K C s1 = Some s'" "fd_step s1 s'" using close_fds_ok [OF sock_env_okD(1) [OF K] core1] by blast
    then show ?thesis using False s1(1) k(2) fd_step_trans [OF s1(2)] by auto
  next
    case True
    let ?s2 = "sk_do (ko_sock_opt K (sp_fd (sk_ports s1 ! k))) s1"
    have len: "length (sk_ports ?s2) = length (sk_ports s)" using fd_step_length [OF s1(2)] by simp
    have core2: "sk_core ?s2" using core1 same_unit_core [OF same_unit_upd(7)] by blast
    have "\<forall>i < Suc k. 0 \<le> fds ?s2 ! i" using s1(3) True Suc.prems(3) k(1) by (auto simp: fds_def nth_list_update less_Suc_eq)
    moreover have "n = length (sk_ports ?s2) - Suc k" "Suc k \<le> length (sk_ports ?s2)" using Suc.hyps(2) k(1) len by simp_all
    ultimately obtain ok' s' where s': "open_fds_from K C [Suc k..<length (sk_ports ?s2)] ?s2 = Some (ok', s')" "fd_step ?s2 s'"
      "ok' \<longrightarrow> opened s'" using Suc.hyps(1) [of ?s2 "Suc k"] core2 by blast
    have "fd_step s s'" using fd_step_trans [OF fd_step_trans [OF s1(2) world_only_fd_step [OF sk_do_world]] s'(2)] .
    then show ?thesis using s' s1(1) True k(2) len by simp
  qed
qed

lemma open_fds_ok:
  assumes K: "sock_env_ok K" and core: "sk_core s"
  shows "\<exists>ok s'. open_fds K C s = Some (ok, s') \<and> fd_step s s' \<and> (ok \<longrightarrow> opened s')"
  unfolding open_fds_def using open_fds_from_ok [OF K core, of 0 C] by simp

lemma chown_ports_world: "chown_ports K uid gid ps s = (ok, s') \<Longrightarrow> world_only s s'"
proof (induction ps arbitrary: s)
  case (Cons p ps)
  show ?case
  proof (cases "chown_path (sp_conf p)")
    case None
    then show ?thesis using Cons by simp
  next
    case (Some f)
    obtain b s1 where b: "sk_ask (ko_chown K f uid gid) s = (b, s1)" by fastforce
    then show ?thesis
      using Some Cons.prems Cons.IH [of s1] sk_ask_world [OF b] world_only_trans by (cases b) auto
  qed
qed simp

lemma socket_chown_world: "socket_chown K C s = (ok, s') \<Longrightarrow> world_only s s'"
  by (auto simp: socket_chown_def split: option.splits if_splits prod.splits dest: chown_ports_world)

lemma start_socket_world: "start_socket K c s = (r, s') \<Longrightarrow> world_only s s'"
  by (auto simp: start_socket_def Let_def split: if_splits prod.splits option.splits
      dest!: sk_ask_world intro: world_only_trans)

section \<open>The invariant\<close>

definition live_states :: "socket_state list" where
  "live_states = [SkStateMax, SkDead, SkStartPre, SkStartPost, SkListening, SkRunning, SkStopPre, SkStopPost, SkFailed]"

definition process_states :: "socket_state list" where
  "process_states = [SkStartPre, SkStartPost, SkStopPre, SkStopPost]"

definition open_states :: "socket_state list" where
  "open_states = [SkStartPost, SkListening, SkRunning]"

definition watched :: "'w sock \<Rightarrow> bool" where
  "watched s \<longleftrightarrow> (\<forall>p \<in> set (sk_ports s). est (sk_ev s) (sp_token p) = Some EvOn)"

definition sk_wf :: "'w sock \<Rightarrow> bool" where
  "sk_wf s \<longleftrightarrow> sk_core s \<and> sk_state s \<in> set live_states \<and> (sk_control s \<noteq> None \<longleftrightarrow> sk_state s \<in> set process_states) \<and>
     (sk_state s \<notin> set fds_kept \<longrightarrow> closed s) \<and> (sk_state s \<in> set open_states \<longrightarrow> opened s) \<and>
     (if sk_state s = SkListening then watched s else unwatched s)"

lemma sk_wfD:
  assumes "sk_wf s"
  shows "sk_core s" "sk_state s \<in> set live_states" "sk_control s \<noteq> None \<longleftrightarrow> sk_state s \<in> set process_states"
    "sk_state s \<notin> set fds_kept \<Longrightarrow> closed s" "sk_state s \<in> set open_states \<Longrightarrow> opened s"
    "sk_state s = SkListening \<Longrightarrow> watched s" "sk_state s \<noteq> SkListening \<Longrightarrow> unwatched s"
  using assms by (simp_all add: sk_wf_def)

lemma sk_wf_cong:
  assumes "same_unit s s'" "sk_state s' = sk_state s" "sk_control s' = None \<longleftrightarrow> sk_control s = None" "sk_ports s' = sk_ports s"
    "est (sk_ev s') = est (sk_ev s)" "sk_wf s"
  shows "sk_wf s'"
  using assms same_unit_core [OF assms(1)]
  by (auto simp: sk_wf_def closed_def opened_def fds_def watched_def unwatched_def)

lemma sk_wf_world: "world_only s s' \<Longrightarrow> sk_wf s \<Longrightarrow> sk_wf s'"
  by (rule sk_wf_cong [of s]) (simp_all add: world_onlyD world_only_unit)

text \<open>A handler comes to an end in one of the states \<open>A\<close> with the invariant.\<close>

definition settles :: "socket_state set \<Rightarrow> 'w sock \<Rightarrow> 'w sock option \<Rightarrow> bool" where
  "settles A s m \<longleftrightarrow> (\<exists>s'. m = Some s' \<and> sk_wf s' \<and> same_unit s s' \<and> sk_state s' \<in> A)"

lemma settles_mono: "settles A s m \<Longrightarrow> A \<subseteq> B \<Longrightarrow> settles B s m"
  by (auto simp: settles_def)

lemma settles_from: "same_unit s t \<Longrightarrow> settles A t m \<Longrightarrow> settles A s m"
  by (auto simp: settles_def intro: same_unit_trans)

lemma sk_settlesE:
  assumes "settles A s m"
  obtains s' where "m = Some s'" "sk_wf s'" "same_unit s s'" "sk_state s' \<in> A"
  using assms by (auto simp: settles_def)

lemma unwatch_control_sel:
  "sk_ports (sk_unwatch_control K s) = sk_ports s" "sk_state (sk_unwatch_control K s) = sk_state s" "sk_control (sk_unwatch_control K s) = None"
  "est (sk_ev (sk_unwatch_control K s)) = est (sk_ev s)" "sk_control_command (sk_unwatch_control K s) = sk_control_command s"
  "sk_result (sk_unwatch_control K s) = sk_result s" "sk_owner (sk_unwatch_control K s) = sk_owner s"
  by (simp_all add: sk_unwatch_control_def split: option.split)

lemma unwatch_control_unit [simp]: "same_unit s (sk_unwatch_control K s)"
  by (auto simp: sk_unwatch_control_def same_unit_def port_ids_def split: option.split)

section \<open>Changing the state\<close>

lemma sk_set_state_ok:
  assumes E: "epoll_ok K" and core: "sk_core s" and st: "st \<in> set live_states" "st \<noteq> SkStateMax"
    and pr: "st \<in> set process_states \<longrightarrow> sk_control s \<noteq> None"
    and op: "st \<in> set open_states \<longrightarrow> opened s" and wa: "st = SkListening \<longrightarrow> watched s"
  shows "settles {st} s (sk_set_state K C st s)"
proof -
  let ?s1 = "s\<lparr>sk_state := st\<rparr>"
  let ?s2 = "if st \<notin> set control_kept then sk_unwatch_control K ?s1 else ?s1"
  have u2: "same_unit s ?s2" using same_unit_trans [OF same_unit_upd(1) unwatch_control_unit, of s K st] by simp
  have f2: "sk_ports ?s2 = sk_ports s" "sk_state ?s2 = st" "est (sk_ev ?s2) = est (sk_ev s)" by (simp_all add: unwatch_control_sel)
  have c2: "sk_control ?s2 \<noteq> None \<longleftrightarrow> st \<in> set process_states"
    using st pr by (auto simp: control_kept_def process_states_def live_states_def unwatch_control_sel)
  obtain s3 where s3: "(if st \<noteq> SkListening then unwatch_fds K ?s2 else Some ?s2) = Some s3" "ev_only ?s2 s3"
    "st \<noteq> SkListening \<longrightarrow> unwatched s3" "st = SkListening \<longrightarrow> s3 = ?s2"
    using unwatch_fds_ok [OF E, of ?s2] by (cases "st = SkListening") (auto simp: unwatched_def ev_onlyD(6))
  have core3: "sk_core s3" using core same_unit_core [OF u2] same_unit_core [OF ev_only_unit [OF s3(2)]] by simp
  obtain s4 where s4: "(if st \<notin> set fds_kept then close_fds K C s3 else Some s3) = Some s4" "fd_step s3 s4"
    "st \<notin> set fds_kept \<longrightarrow> closed s4 \<and> unwatched s4" "st \<in> set fds_kept \<longrightarrow> s4 = s3"
    using close_fds_ok [OF E core3, of C] by (cases "st \<in> set fds_kept") auto
  have u4: "same_unit s s4" using same_unit_trans [OF same_unit_trans [OF u2 ev_only_unit [OF s3(2)]] fd_step_unit [OF s4(2)]] .
  have f4: "sk_state s4 = st" "sk_control s4 \<noteq> None \<longleftrightarrow> st \<in> set process_states"
    using s4(2) ev_onlyD [OF s3(2)] f2 c2 by (simp_all add: fd_step_def)
  have "st \<in> set open_states \<longrightarrow> opened s4"
  proof
    assume st': "st \<in> set open_states"
    then have "s4 = s3" using s4(4) by (auto simp: open_states_def fds_kept_def)
    then have "sk_ports s4 = sk_ports s" using ev_onlyD(6) [OF s3(2)] f2(1) by simp
    then show "opened s4" using op st' opened_ports by blast
  qed
  moreover have "if st = SkListening then watched s4 else unwatched s4"
  proof (cases "st = SkListening")
    case True
    then have "s4 = ?s2" using s3(4) s4(4) by (simp add: fds_kept_def)
    then show ?thesis using True wa f2(1,3) by (simp add: watched_def)
  next
    case False
    then show ?thesis using s3(3) s4(3,4) by (cases "st \<in> set fds_kept") simp_all
  qed
  ultimately have "sk_wf s4" using f4 st(1) s4(3) core same_unit_core [OF u4] by (simp add: sk_wf_def)
  moreover have "sk_set_state K C st s = Some (if sk_owner s4
      then sk_do (ko_notify K (sk_active_state (sk_state s)) (sk_active_state st) UNIT_NOTIFY_RELOAD_FAILURE) s4 else s4)"
    using s3(1) s4(1) by (simp add: sk_set_state_def Let_def)
  ultimately show ?thesis
    using f4(1) u4 sk_wf_world [OF sk_do_world] same_unit_trans [OF u4 same_unit_upd(7)] by (auto simp: settles_def)
qed

section \<open>Stopping\<close>

lemma note_result_unit [simp]: "same_unit s (sk_note_result res s)"
  by (simp add: sk_note_result_def)

lemma note_result_sel [simp]:
  "sk_ports (sk_note_result res s) = sk_ports s" "sk_control (sk_note_result res s) = sk_control s" "sk_owner (sk_note_result res s) = sk_owner s"
  "sk_ev (sk_note_result res s) = sk_ev s" "sk_control_command (sk_note_result res s) = sk_control_command s"
  "sk_state (sk_note_result res s) = sk_state s"
  by (simp_all add: sk_note_result_def)

lemma command_fill_unit [simp]: "same_unit s (sk_command_fill C ct s)"
  by (simp add: sk_command_fill_def split: option.split)

lemma command_fill_ports [simp]: "sk_ports (sk_command_fill C ct s) = sk_ports s"
  by (simp add: sk_command_fill_def split: option.split)

lemma command_pop_frame:
  assumes "sk_command_pop s = (c, s')"
  shows "same_unit s s'" "sk_ports s' = sk_ports s" "sk_state s' = sk_state s" "sk_control s' = sk_control s" "sk_ev s' = sk_ev s"
    "sk_result s' = sk_result s" "sk_owner s' = sk_owner s"
  using assms by (auto simp: sk_command_pop_def split: list.splits)

abbreviation "ended \<equiv> {SkDead, SkFailed}"

lemma sk_enter_dead_ok:
  assumes "epoll_ok K" and "sk_core s"
  shows "settles ended s (sk_enter_dead K C res s)"
proof -
  let ?s = "sk_note_result res s" and ?st = "if sk_result (sk_note_result res s) = SkSuccess then SkDead else SkFailed"
  have "sk_core ?s" using assms(2) same_unit_core [OF note_result_unit] by blast
  then have "settles {?st} ?s (sk_set_state K C ?st ?s)"
    by (intro sk_set_state_ok) (simp_all add: assms(1) live_states_def process_states_def open_states_def)
  then have "settles ended ?s (sk_set_state K C ?st ?s)" by (rule settles_mono) simp
  from settles_from [OF note_result_unit this] show ?thesis by (simp only: sk_enter_dead_def Let_def)
qed

lemma final_signal_ok:
  assumes fail: "\<And>t. sk_core t \<Longrightarrow> settles A t (fail t)" and nxt: "\<And>t. sk_core t \<Longrightarrow> settles A t (next t)" and core: "sk_core s"
  shows "settles A s (final_signal K C st fail next res s)"
proof -
  let ?s1 = "sk_note_result res s"
  obtain b s2 where b: "sk_ask (ko_kill_context K (sk_control ?s1) (sk_kill_operation st)) ?s1 = (b, s2)" by fastforce
  have u2: "same_unit s s2" using same_unit_trans [OF note_result_unit world_only_unit [OF sk_ask_world [OF b]]] .
  have o: "sk_owner ?s1" using core by (simp add: sk_core_def)
  have core2: "sk_core s2" using core same_unit_core [OF u2] by simp
  show ?thesis
    using o b settles_from [OF u2 fail [OF core2]] settles_from [OF u2 nxt [OF core2]] by (simp add: final_signal_def)
qed

lemma final_sigkill_ok: "epoll_ok K \<Longrightarrow> sk_core s \<Longrightarrow> settles ended s (sk_enter_final_sigkill K C res s)"
  unfolding sk_enter_final_sigkill_def by (rule final_signal_ok) (rule sk_enter_dead_ok; assumption)+

lemma final_sigterm_ok: "epoll_ok K \<Longrightarrow> sk_core s \<Longrightarrow> settles ended s (sk_enter_final_sigterm K C res s)"
  unfolding sk_enter_final_sigterm_def
  by (rule final_signal_ok) (erule (1) sk_enter_dead_ok final_sigkill_ok | assumption)+

text \<open>A phase that runs its first command, or goes on if there is none or it cannot be started.\<close>

lemma run_first_ok:
  assumes E: "epoll_ok K" and core: "sk_core s" and st: "st \<in> set process_states" "st \<in> A" and op: "st \<in> set open_states \<longrightarrow> opened s"
    and none: "\<And>t. sk_core t \<Longrightarrow> sk_ports t = sk_ports s \<Longrightarrow> settles A t (none t)"
    and fail: "\<And>t. sk_core t \<Longrightarrow> settles A t (fail t)"
  shows "settles A s (case sk_command_pop s of
      (Some c, s2) \<Rightarrow> (case start_socket K c s2 of (Some pid, s3) \<Rightarrow> sk_set_state K C st (sk_set_control pid s3) | (None, s3) \<Rightarrow> fail s3)
    | (None, s2) \<Rightarrow> none s2)"
proof -
  obtain c s2 where pop: "sk_command_pop s = (c, s2)" by fastforce
  note f2 = command_pop_frame [OF pop]
  have core2: "sk_core s2" using core same_unit_core [OF f2(1)] by simp
  show ?thesis
  proof (cases c)
    case None
    then show ?thesis using pop settles_from [OF f2(1) none [OF core2 f2(2)]] by simp
  next
    case (Some cmd)
    obtain r s3 where r: "start_socket K cmd s2 = (r, s3)" by fastforce
    have w3: "world_only s2 s3" using start_socket_world [OF r] .
    have u3: "same_unit s s3" using same_unit_trans [OF f2(1) world_only_unit [OF w3]] .
    have core3: "sk_core s3" using core same_unit_core [OF u3] by simp
    show ?thesis
    proof (cases r)
      case None
      then show ?thesis using pop Some r settles_from [OF u3 fail [OF core3]] by simp
    next
      case (Some pid)
      let ?s4 = "sk_set_control pid s3"
      have core4: "sk_core ?s4" using core3 same_unit_core [OF same_unit_upd(8)] by blast
      have "settles {st} ?s4 (sk_set_state K C st ?s4)"
      proof (rule sk_set_state_ok [OF E core4])
        show "st \<in> set open_states \<longrightarrow> opened ?s4"
          using op world_onlyD(6) [OF w3] f2(2) by (simp add: opened_def fds_def sk_set_control_def)
      qed (use st in \<open>auto simp: process_states_def live_states_def sk_set_control_def\<close>)
      then have "settles A s (sk_set_state K C st ?s4)"
        using settles_mono [of "{st}"] st(2) settles_from [OF same_unit_trans [OF u3 same_unit_upd(8)]] by blast
      then show ?thesis using pop r Some \<open>c = Some cmd\<close> by simp
    qed
  qed
qed

abbreviation "after_stop_pre \<equiv> {SkStopPost, SkDead, SkFailed}"

abbreviation "sk_stopping \<equiv> {SkStopPre, SkStopPost, SkDead, SkFailed}"

lemma stop_post_ok:
  assumes E: "epoll_ok K" and core: "sk_core s"
  shows "settles after_stop_pre s (sk_enter_stop_post K C res s)"
proof -
  let ?s = "sk_command_fill C SkCmdStopPost (sk_note_result res s)"
  have u: "same_unit s ?s" using same_unit_trans [OF note_result_unit command_fill_unit] .
  have "settles after_stop_pre ?s (sk_enter_stop_post K C res s)"
    unfolding sk_enter_stop_post_def Let_def
  proof (rule run_first_ok [OF E])
    show "sk_core ?s" using core same_unit_core [OF u] by simp
  qed (auto simp: process_states_def open_states_def intro: settles_mono [OF final_sigterm_ok [OF E]])
  then show ?thesis by (rule settles_from [OF u])
qed

lemma stop_pre_sigkill_ok: "epoll_ok K \<Longrightarrow> sk_core s \<Longrightarrow> settles after_stop_pre s (sk_enter_stop_pre_sigkill K C res s)"
  unfolding sk_enter_stop_pre_sigkill_def by (rule final_signal_ok) (rule stop_post_ok; assumption)+

lemma stop_pre_sigterm_ok: "epoll_ok K \<Longrightarrow> sk_core s \<Longrightarrow> settles after_stop_pre s (sk_enter_stop_pre_sigterm K C res s)"
  unfolding sk_enter_stop_pre_sigterm_def
  by (rule final_signal_ok) (erule (1) stop_post_ok stop_pre_sigkill_ok | assumption)+

lemma stop_pre_ok:
  assumes E: "epoll_ok K" and core: "sk_core s"
  shows "settles sk_stopping s (sk_enter_stop_pre K C res s)"
proof -
  let ?s = "sk_command_fill C SkCmdStopPre (sk_unwatch_control K (sk_note_result res s))"
  have u: "same_unit s ?s" using same_unit_trans [OF same_unit_trans [OF note_result_unit unwatch_control_unit] command_fill_unit] .
  have "settles sk_stopping ?s (sk_enter_stop_pre K C res s)"
    unfolding sk_enter_stop_pre_def Let_def
  proof (rule run_first_ok [OF E])
    show "sk_core ?s" using core same_unit_core [OF u] by simp
  qed (auto simp: process_states_def open_states_def intro: settles_mono [OF stop_post_ok [OF E]])
  then show ?thesis by (rule settles_from [OF u])
qed

section \<open>Starting\<close>

lemma listening_ok:
  assumes K: "sock_env_ok K" and core: "sk_core s" and op: "opened s"
  shows "settles {SkListening} s (sk_enter_listening K C s)"
proof -
  obtain s1 where s1: "(if \<not> Accept C then flush_ports K s else Some s) = Some s1" "world_only s s1"
    using flush_ports_ok [OF K] by (cases "Accept C") auto
  have p1: "sk_ports s1 = sk_ports s" using world_onlyD(6) [OF s1(2)] .
  obtain s2 where s2: "watch_fds K s1 = Some s2" "ev_only s1 s2"
    "\<forall>p \<in> set (sk_ports s1). 0 \<le> sp_fd p \<longrightarrow> est (sk_ev s2) (sp_token p) = Some EvOn"
    using watch_fds_ok [OF sock_env_okD(1) [OF K]] by blast
  have p2: "sk_ports s2 = sk_ports s" using ev_onlyD(6) [OF s2(2)] p1 by simp
  have u2: "same_unit s s2" using same_unit_trans [OF world_only_unit [OF s1(2)] ev_only_unit [OF s2(2)]] .
  have wa: "watched s2" using s2(3) op p1 p2 by (auto simp: watched_def opened_def fds_def)
  have "settles {SkListening} s2 (sk_set_state K C SkListening s2)"
  proof (rule sk_set_state_ok [OF sock_env_okD(1) [OF K]])
    show "sk_core s2" using core same_unit_core [OF u2] by simp
  qed (use wa op opened_ports [OF p2] in \<open>simp_all add: live_states_def process_states_def\<close>)
  then show ?thesis using settles_from [OF u2] s1(1) s2(1) by (simp add: sk_enter_listening_def)
qed

abbreviation "after_start_pre \<equiv> {SkStartPost, SkListening} \<union> sk_stopping"

lemma start_post_ok:
  assumes K: "sock_env_ok K" and core: "sk_core s" and op: "opened s"
  shows "settles after_start_pre s (sk_enter_start_post K C s)"
proof -
  let ?s = "sk_command_fill C SkCmdStartPost (sk_unwatch_control K s)"
  have u: "same_unit s ?s" using same_unit_trans [OF unwatch_control_unit command_fill_unit] .
  have op': "opened ?s" using op by (simp add: opened_def fds_def unwatch_control_sel)
  have "settles after_start_pre ?s (case sk_command_pop ?s of
      (Some c, s2) \<Rightarrow> (case start_socket K c s2 of (Some pid, s3) \<Rightarrow> sk_set_state K C SkStartPost (sk_set_control pid s3)
        | (None, s3) \<Rightarrow> sk_enter_stop_pre K C SkFailureResources s3)
    | (None, s2) \<Rightarrow> sk_enter_listening K C s2)"
  proof (rule run_first_ok [OF sock_env_okD(1) [OF K]])
    show "sk_core ?s" using core same_unit_core [OF u] by simp
    fix t :: "'a sock"
    assume t: "sk_core t"
    show "settles after_start_pre t (sk_enter_stop_pre K C SkFailureResources t)"
      by (rule settles_mono [OF stop_pre_ok [OF sock_env_okD(1) [OF K] t]]) auto
    assume "sk_ports t = sk_ports ?s"
    then show "settles after_start_pre t (sk_enter_listening K C t)"
      using listening_ok [OF K t] op' opened_ports [of t ?s] by (auto intro: settles_mono)
  qed (use op' in \<open>auto simp: process_states_def\<close>)
  moreover have "sk_enter_start_post K C s = (case sk_command_pop ?s of
      (Some c, s2) \<Rightarrow> (case start_socket K c s2 of (Some pid, s3) \<Rightarrow> sk_set_state K C SkStartPost (sk_set_control pid s3)
        | (None, s3) \<Rightarrow> sk_enter_stop_pre K C SkFailureResources s3)
    | (None, s2) \<Rightarrow> sk_enter_listening K C s2)"
    by (auto simp: sk_enter_start_post_def Let_def split: option.splits prod.splits)
  ultimately show ?thesis using settles_from [OF u] by simp
qed

lemma start_chown_ok:
  assumes K: "sock_env_ok K" and core: "sk_core s"
  shows "settles after_start_pre s (sk_enter_start_chown K C s)"
proof -
  obtain ok s1 where o: "open_fds K C s = Some (ok, s1)" "fd_step s s1" "ok \<longrightarrow> opened s1" using open_fds_ok [OF K core] by blast
  obtain ok2 s2 where c: "socket_chown K C s1 = (ok2, s2)" by fastforce
  note w2 = socket_chown_world [OF c]
  have u1: "same_unit s s1" using fd_step_unit [OF o(2)] .
  have u2: "same_unit s s2" using same_unit_trans [OF u1 world_only_unit [OF w2]] .
  have core1: "sk_core s1" and core2: "sk_core s2" using core same_unit_core [OF u1] same_unit_core [OF u2] by simp_all
  have stop: "settles after_start_pre s (sk_enter_stop_pre K C SkFailureResources t)" if "same_unit s t" for t
  proof -
    have "sk_core t" using core same_unit_core [OF that] by simp
    from settles_mono [OF stop_pre_ok [OF sock_env_okD(1) [OF K] this]] settles_from [OF that] show ?thesis by blast
  qed
  have post1: "ok \<Longrightarrow> settles after_start_pre s (sk_enter_start_post K C s1)"
    using settles_from [OF u1 start_post_ok [OF K core1]] o(3) by simp
  have post2: "ok \<Longrightarrow> settles after_start_pre s (sk_enter_start_post K C s2)"
    using settles_from [OF u2 start_post_ok [OF K core2]] o(3) opened_ports [OF world_onlyD(6) [OF w2]] by simp
  show ?thesis
    using stop [OF u1] stop [OF u2] post1 post2 o(1) c by (cases ok; cases ok2) (auto simp: sk_enter_start_chown_def)
qed

abbreviation "after_start \<equiv> {SkStartPre} \<union> after_start_pre"

lemma start_pre_ok:
  assumes K: "sock_env_ok K" and core: "sk_core s"
  shows "settles after_start s (sk_enter_start_pre K C s)"
proof -
  let ?s = "sk_command_fill C SkCmdStartPre (sk_unwatch_control K s)"
  have u: "same_unit s ?s" using same_unit_trans [OF unwatch_control_unit command_fill_unit] .
  have "settles after_start ?s (case sk_command_pop ?s of
      (Some c, s2) \<Rightarrow> (case start_socket K c s2 of (Some pid, s3) \<Rightarrow> sk_set_state K C SkStartPre (sk_set_control pid s3)
        | (None, s3) \<Rightarrow> sk_enter_dead K C SkFailureResources s3)
    | (None, s2) \<Rightarrow> sk_enter_start_chown K C s2)"
  proof (rule run_first_ok [OF sock_env_okD(1) [OF K]])
    show "sk_core ?s" using core same_unit_core [OF u] by simp
    fix t :: "'a sock"
    assume t: "sk_core t"
    show "settles after_start t (sk_enter_dead K C SkFailureResources t)"
      by (rule settles_mono [OF sk_enter_dead_ok [OF sock_env_okD(1) [OF K] t]]) auto
    show "settles after_start t (sk_enter_start_chown K C t)" by (rule settles_mono [OF start_chown_ok [OF K t]]) auto
  qed (auto simp: process_states_def open_states_def)
  moreover have "sk_enter_start_pre K C s = (case sk_command_pop ?s of
      (Some c, s2) \<Rightarrow> (case start_socket K c s2 of (Some pid, s3) \<Rightarrow> sk_set_state K C SkStartPre (sk_set_control pid s3)
        | (None, s3) \<Rightarrow> sk_enter_dead K C SkFailureResources s3)
    | (None, s2) \<Rightarrow> sk_enter_start_chown K C s2)"
    by (auto simp: sk_enter_start_pre_def Let_def split: option.splits prod.splits)
  ultimately show ?thesis using settles_from [OF u] by simp
qed

section \<open>Running\<close>

lemma running_ok:
  assumes K: "sock_env_ok K" and wf: "sk_wf s" and st: "sk_state s = SkListening"
  shows "settles ({SkListening, SkRunning} \<union> sk_stopping) s (sk_enter_running K C (- 1) s)"
proof -
  let ?A = "{SkListening, SkRunning} \<union> sk_stopping"
  have op: "opened s" using sk_wfD(5) [OF wf] st by (simp add: open_states_def)
  obtain s0 where s0: "flush_ports K s = Some s0" "world_only s s0" using flush_ports_ok [OF K] by blast
  have flush: "settles ?A s (Some s0)"
    using sk_wf_world [OF s0(2) wf] world_only_unit [OF s0(2)] world_onlyD(3) [OF s0(2)] st by (simp add: settles_def)
  have stop: "settles ?A s (sk_enter_stop_pre K C SkFailureResources t)" and run: "settles ?A s (sk_set_state K C SkRunning t)"
    if t: "same_unit s t" "sk_ports t = sk_ports s" for t
  proof -
    have core: "sk_core t" using sk_wfD(1) [OF wf] same_unit_core [OF t(1)] by simp
    show "settles ?A s (sk_enter_stop_pre K C SkFailureResources t)"
      by (rule settles_from [OF t(1)], rule settles_mono [OF stop_pre_ok [OF sock_env_okD(1) [OF K] core]]) auto
    have "settles {SkRunning} t (sk_set_state K C SkRunning t)"
      by (rule sk_set_state_ok [OF sock_env_okD(1) [OF K] core])
        (use op opened_ports [OF t(2)] in \<open>simp_all add: live_states_def process_states_def\<close>)
    then show "settles ?A s (sk_set_state K C SkRunning t)" by (intro settles_from [OF t(1)]) (auto intro: settles_mono)
  qed
  show ?thesis
  proof (cases "sk_service s")
    case None
    then show ?thesis using flush s0(1) stop [of s] run [of s] sk_wfD(1) [OF wf] by (simp add: sk_enter_running_def sk_core_def)
  next
    case (Some svc)
    let ?s = "s\<lparr>sk_frame := Some (FdListen False)\<rparr>"
    obtain b s1 where b: "sk_ask (ko_unit_start_by_job K svc) ?s = (b, s1)" by fastforce
    let ?s2 = "s1\<lparr>sk_frame := Some (FdListen True)\<rparr>"
    note w1 = sk_ask_world [OF b]
    have "same_unit s ?s2" using same_unit_trans [OF same_unit_trans [OF same_unit_upd(6) world_only_unit [OF w1]] same_unit_upd(6)] .
    moreover have "sk_ports ?s2 = sk_ports s" using world_onlyD(6) [OF w1] by simp
    ultimately show ?thesis
      using flush s0(1) stop [of ?s2] run [of ?s2] run [of s] b Some sk_wfD(1) [OF wf] by (simp add: sk_enter_running_def sk_core_def Let_def)
  qed
qed

end
