(* ===== verification/Socket_Steps.thy ===== *)
theory Socket_Steps
  imports Socket_Inv
begin

text \<open>
  A socket as a state machine: the events that reach it, what they keep, recovery from the reliability table,
  and runs on concrete sockets.
\<close>

section \<open>Events\<close>

datatype sock_event = SkStart | SkStop bool | SkChild wait_status | SkIo nat

text \<open>
  When an event can occur: the end of the control process is reported, and a port is dispatched while the event
  loop watches it.
\<close>

fun sock_enabled :: "'w sock \<Rightarrow> sock_event \<Rightarrow> bool" where
  "sock_enabled s (SkChild ws) =
     (sk_control s \<noteq> None \<and> wait_status_pid ws = sk_control s \<and> sk_sigchld_result ws \<noteq> None)"
| "sock_enabled s (SkIo i) =
     (i < length (sk_ports s) \<and> est (sk_ev s) (sp_token (sk_ports s ! i)) = Some EvOn)"
| "sock_enabled s _ = True"

definition sock_handle :: "'w sock_ops \<Rightarrow> section_socket \<Rightarrow> sock_event \<Rightarrow> 'w sock \<Rightarrow> 'w sock option" where
  "sock_handle K C ev s =
     (case ev of
        SkStart \<Rightarrow> map_option snd (sk_start K C s)
      | SkStop force \<Rightarrow> map_option snd (sk_stop K C force s)
      | SkChild ws \<Rightarrow> sk_sigchld_event K C ws s
      | SkIo i \<Rightarrow> map_option snd (sk_dispatch K C (sk_ports s ! i) s))"

inductive sock_steps :: "'w sock_ops \<Rightarrow> section_socket \<Rightarrow> 'w sock \<Rightarrow> 'w sock \<Rightarrow> bool" for K C where
  sock_refl: "sock_steps K C s s"
| sock_step: "sock_steps K C s t \<Longrightarrow> sock_enabled t ev \<Longrightarrow> sock_handle K C ev t = Some t' \<Longrightarrow> sock_steps K C s t'"

section \<open>Every event settles\<close>

lemma db_insert_frame:
  "same_unit s (sk_db_insert s)" "sk_state (sk_db_insert s) = sk_state s" "sk_wf (sk_db_insert s) = sk_wf s"
  by (simp_all add: sk_db_insert_def sk_wf_def sk_core_def closed_def opened_def fds_def watched_def unwatched_def port_ids_def)

lemma settles_db: "settles A s m \<Longrightarrow> settles A s (map_option sk_db_insert m)"
  using same_unit_trans [OF _ db_insert_frame(1)] by (auto simp: settles_def db_insert_frame(2,3))

lemma settles_Some: "settles A s m \<Longrightarrow> \<exists>s'. m = Some s' \<and> settles UNIV s (Some s')"
  by (auto simp: settles_def)

lemma settles_refl: "sk_wf s \<Longrightarrow> settles UNIV s (Some s)"
  by (simp add: settles_def)

lemmas settles_UNIV = settles_mono [OF _ subset_UNIV]

lemma sk_start_ok:
  assumes K: "sock_env_ok K" and wf: "sk_wf s"
  shows "settles UNIV s (map_option snd (sk_start K C s))"
proof -
  note E = sock_env_okD(1) [OF K] and core = sk_wfD(1) [OF wf]
  obtain b s1 where b: "sk_ask (ko_test_start_limit K) s = (b, s1)" by fastforce
  have u1: "same_unit s s1" using world_only_unit [OF sk_ask_world [OF b]] .
  have core1: "sk_core s1" using core same_unit_core [OF u1] by simp
  obtain s2 where s2: "sk_enter_dead K C SkFailureStartLimitHit s1 = Some s2" "settles UNIV s (Some s2)"
    using settles_Some [OF settles_from [OF u1 sk_enter_dead_ok [OF E core1]]] by blast
  have u2: "same_unit s (s1\<lparr>sk_result := SkSuccess\<rparr>)" using same_unit_trans [OF u1 same_unit_upd(2)] .
  have "sk_core (s1\<lparr>sk_result := SkSuccess\<rparr>)" using core same_unit_core [OF u2] by simp
  from settles_Some [OF settles_db [OF settles_from [OF u2 start_pre_ok [OF K this]]]]
  obtain s3 where s3: "sk_start_action K C s1 = Some s3" "settles UNIV s (Some s3)"
    unfolding sk_start_action_def by blast
  show ?thesis
    using core b s2 s3 settles_refl [OF wf]
    by (auto simp: sk_start_def sk_start_check_def sk_core_def Let_def split: option.split sum.split)
qed

lemma sk_stop_ok:
  assumes K: "sock_env_ok K" and wf: "sk_wf s"
  shows "settles UNIV s (map_option snd (sk_stop K C force s))"
proof -
  note E = sock_env_okD(1) [OF K] and core = sk_wfD(1) [OF wf]
  obtain s1 where s1: "sk_enter_signal K C SkStopPreSigterm SkSuccess s = Some s1" "settles UNIV s (Some s1)"
    using settles_Some [OF stop_pre_sigterm_ok [OF E core]] by (auto simp: sk_enter_signal_def)
  obtain s2 where s2: "sk_stop_action K C s = Some s2" "settles UNIV s (Some s2)"
    using settles_Some [OF settles_db [OF stop_pre_ok [OF E core]]] unfolding sk_stop_action_def by blast
  show ?thesis using s1 s2 settles_refl [OF wf] by (auto simp: sk_stop_def sk_stop_check_def)
qed

lemma run_next_ok:
  assumes wf: "sk_wf s" and p: "sk_control s \<noteq> None"
  shows "settles UNIV s (Some (sk_run_next K s))"
proof -
  obtain c s1 where pop: "sk_command_pop s = (c, s1)" by fastforce
  note f1 = command_pop_frame [OF pop]
  have wf1: "sk_wf s1" by (rule sk_wf_cong [OF f1(1) f1(3) _ f1(2)]) (simp_all add: f1 wf)
  show ?thesis
  proof (cases c)
    case None
    then show ?thesis using pop wf1 f1(1) by (simp add: sk_run_next_def settles_def)
  next
    case (Some cmd)
    obtain r s2 where r: "start_socket K cmd s1 = (r, s2)" by fastforce
    note w2 = start_socket_world [OF r]
    have wf2: "sk_wf s2" using sk_wf_world [OF w2 wf1] .
    have u2: "same_unit s s2" using same_unit_trans [OF f1(1) world_only_unit [OF w2]] .
    have "sk_wf (sk_set_control i s2)" for i
      by (rule sk_wf_cong [OF same_unit_upd(8) _ _ _ _ wf2]) (use p f1(4) world_onlyD(5) [OF w2] in \<open>auto simp: sk_set_control_def\<close>)
    then show ?thesis
      using pop Some r wf2 u2 same_unit_trans [OF u2 same_unit_upd(8)]
      by (cases r) (auto simp: sk_run_next_def settles_def)
  qed
qed

lemma sigchld_state_ok:
  assumes K: "sock_env_ok K" and wf: "sk_wf s" and p: "sk_state s \<in> set process_states"
  shows "settles UNIV s (sk_sigchld_state K C res s)"
proof -
  note E = sock_env_okD(1) [OF K] and core = sk_wfD(1) [OF wf]
  have op: "sk_state s = SkStartPost \<Longrightarrow> opened s" using sk_wfD(5) [OF wf] by (simp add: open_states_def)
  show ?thesis
    using p op settles_UNIV [OF start_chown_ok [OF K core]] settles_UNIV [OF final_sigterm_ok [OF E core]]
      settles_UNIV [OF listening_ok [OF K core]] settles_UNIV [OF stop_pre_ok [OF E core]]
      settles_UNIV [OF stop_post_ok [OF E core]] settles_UNIV [OF sk_enter_dead_ok [OF E core]]
    by (auto simp: process_states_def sk_sigchld_state_def sk_enter_signal_def)
qed

lemma sk_sigchld_event_ok:
  assumes K: "sock_env_ok K" and wf: "sk_wf s" and en: "sock_enabled s (SkChild ws)"
  shows "settles UNIV s (sk_sigchld_event K C ws s)"
proof -
  obtain res where res: "sk_sigchld_result ws = Some res" and c: "sk_control s \<noteq> None" using en by auto
  let ?m = "if sk_control_command s \<noteq> [] \<and> res = SkSuccess then Some (sk_run_next K s) else sk_sigchld_state K C res s"
  have "settles UNIV s ?m"
    using run_next_ok [OF wf c] sigchld_state_ok [OF K wf] sk_wfD(3) [OF wf] c by simp
  then obtain s1 where "?m = Some s1" "settles UNIV s (Some s1)" by (auto simp: settles_def)
  then show ?thesis using settles_db [of UNIV s "Some s1"] res by (simp add: sk_sigchld_event_def)
qed

lemma dispatch_ok:
  assumes K: "sock_env_ok K" and wf: "sk_wf s"
  shows "settles UNIV s (map_option snd (sk_dispatch K C p s))"
proof -
  let ?s1 = "sk_do (ko_mark_last K True) (s\<lparr>sk_frame := Some (FdListen True)\<rparr>)"
  have wf0: "sk_wf (s\<lparr>sk_frame := x\<rparr>)" if "sk_wf s" for x and s :: "'a sock"
    by (rule sk_wf_cong [OF same_unit_upd(6) _ _ _ _ that]) simp_all
  have wf1: "sk_wf ?s1" using sk_wf_world [OF sk_do_world wf0 [OF wf]] .
  have u1: "same_unit s ?s1" using same_unit_trans [OF same_unit_upd(6) same_unit_upd(7)] .
  have "\<exists>ok s2. dispatch_io K C p ?s1 = Some (ok, s2) \<and> sk_wf s2 \<and> same_unit s s2"
  proof (cases "sk_state ?s1 = SkListening")
    case False
    then show ?thesis using wf1 u1 by (intro exI [of _ True] exI [of _ ?s1]) (simp add: dispatch_io_def)
  next
    case True
    obtain go s2 where a: "(if Accept C \<and> sp_type p = PortSocket \<and> pc_can_accept (sp_conf p)
           then (let (r, s1) = sk_ask (ko_accept4 K (sp_fd p)) ?s1 in
                 case r of None \<Rightarrow> (False, s1) | Some afd \<Rightarrow> (True, sk_do (ko_sock_opt K afd) s1))
           else (True, ?s1)) = (go, s2)" by fastforce
    have w2: "world_only ?s1 s2"
      using a by (auto simp: Let_def split: if_splits prod.splits option.splits dest!: sk_ask_world intro: world_only_trans)
    have wf2: "sk_wf s2" using sk_wf_world [OF w2 wf1] .
    have u2: "same_unit s s2" using same_unit_trans [OF u1 world_only_unit [OF w2]] .
    have "sk_state s2 = SkListening" using True world_onlyD(3) [OF w2] by simp
    from settles_db [OF settles_from [OF u2 running_ok [OF K wf2 this]]]
    obtain s3 where "map_option sk_db_insert (sk_enter_running K C (- 1) s2) = Some s3" "sk_wf s3" "same_unit s s3" by (rule sk_settlesE)
    then show ?thesis using True a wf2 u2 by (cases go) (auto simp: dispatch_io_def)
  qed
  then obtain ok s2 where s2: "dispatch_io K C p ?s1 = Some (ok, s2)" "sk_wf s2" "same_unit s s2" by blast
  let ?s3 = "sk_do (ko_mark_last K False) (s2\<lparr>sk_frame := None\<rparr>)"
  have "same_unit s ?s3" using same_unit_trans [OF s2(3) same_unit_trans [OF same_unit_upd(6) same_unit_upd(7)]] .
  moreover have "sk_wf ?s3" using sk_wf_world [OF sk_do_world wf0 [OF s2(2)]] .
  moreover have "sk_owner s" using sk_wfD(1) [OF wf] by (simp add: sk_core_def)
  ultimately show ?thesis using s2(1) by (simp add: sk_dispatch_def settles_def)
qed

lemma sock_handle_ok:
  assumes K: "sock_env_ok K" and wf: "sk_wf s" and en: "sock_enabled s ev"
  shows "settles UNIV s (sock_handle K C ev s)"
proof (cases ev)
  case SkStart
  then show ?thesis using sk_start_ok [OF K wf] by (simp add: sock_handle_def)
next
  case (SkStop force)
  then show ?thesis using sk_stop_ok [OF K wf] by (simp add: sock_handle_def)
next
  case (SkChild ws)
  then show ?thesis using sk_sigchld_event_ok [OF K wf] en by (simp add: sock_handle_def)
next
  case (SkIo i)
  then show ?thesis using dispatch_ok [OF K wf] by (simp add: sock_handle_def)
qed

lemma sock_steps_wf:
  assumes st: "sock_steps K C s t" and K: "sock_env_ok K" and wf: "sk_wf s"
  shows "sk_wf t \<and> same_unit s t"
  using st wf
proof (induction rule: sock_steps.induct)
  case (sock_refl s)
  then show ?case by simp
next
  case (sock_step s t ev t')
  then show ?case using sock_handle_ok [OF K, of t ev C] by (auto simp: settles_def intro: same_unit_trans)
qed

text \<open>
  (C18) A socket whose calls of epoll succeed never makes the manager panic: from a freshly built socket, every
  start, stop, end of its control process and connection on a watched port is handled to an end, in any order.
  Afterwards the control process is known exactly in the phases that wait for one, the ports are closed in every
  state that does not serve them and open while the socket starts up, listens or runs, and the event loop watches
  them exactly while the socket listens.
\<close>

theorem socket_never_panics:
  assumes "sock_env_ok K" and "sk_wf s" and "sock_steps K C s t" and "sock_enabled t ev"
  shows "\<exists>t'. sock_handle K C ev t = Some t' \<and>
    (sk_control t' \<noteq> None \<longleftrightarrow> sk_state t' \<in> {SkStartPre, SkStartPost, SkStopPre, SkStopPost}) \<and>
    (sk_state t' \<in> {SkDead, SkFailed, SkStartPre, SkStopPost} \<longrightarrow> sk_collect_fds t' = []) \<and>
    (sk_state t' \<in> {SkStartPost, SkListening, SkRunning} \<longrightarrow> sk_collect_fds t' = map sp_fd (sk_ports t')) \<and>
    (\<forall>p \<in> set (sk_ports t'). map_of (ed_state (sk_ev t')) (sp_token p) = Some EvOn \<longleftrightarrow> sk_state t' = SkListening)"
proof -
  have "sk_wf t" using sock_steps_wf [OF assms(3,1,2)] by simp
  from sk_settlesE [OF sock_handle_ok [OF assms(1) this assms(4)]]
  obtain t' where t': "sock_handle K C ev t = Some t'" "sk_wf t'" by blast
  note D = sk_wfD [OF t'(2)]
  have "sk_state t' \<in> {SkDead, SkFailed, SkStartPre, SkStopPost} \<longrightarrow> sk_collect_fds t' = []"
    using D(4) by (auto simp: fds_kept_def closed_def fds_def sk_collect_fds_def filter_empty_conv not_le)
  moreover have "sk_state t' \<in> {SkStartPost, SkListening, SkRunning} \<longrightarrow> sk_collect_fds t' = map sp_fd (sk_ports t')"
    using D(5) by (auto simp: open_states_def opened_def fds_def sk_collect_fds_def filter_id_conv)
  moreover have "\<forall>p \<in> set (sk_ports t'). map_of (ed_state (sk_ev t')) (sp_token p) = Some EvOn \<longleftrightarrow> sk_state t' = SkListening"
    using D(6,7) by (auto simp: watched_def unwatched_def est_def)
  ultimately show ?thesis using t'(1) D(3) by (auto simp: process_states_def)
qed

section \<open>Recovery\<close>

text \<open>
  The object a new manager builds: the same unit with closed ports, not connected to the event loop, and the
  row of the table.
\<close>

definition sk_rebuilt :: "'w events \<Rightarrow> 'w sock \<Rightarrow> 'w sock" where
  "sk_rebuilt ev s = (sock_new (sk_owner s) (sk_service s) ev)\<lparr>sk_ports := map (\<lambda>p. p\<lparr>sp_fd := - 1\<rparr>) (sk_ports s), sk_db := sk_db s\<rparr>"

definition port_key :: "sk_port \<Rightarrow> port_type \<times> string" where
  "port_key p = (sp_type p, pc_listen (sp_conf p))"

lemma ports_find_nth:
  assumes "distinct (map port_key ps)" and "i < length ps"
  shows "ports_find (sp_type (ps ! i)) (pc_listen (sp_conf (ps ! i))) ps = Some i"
  using assms
proof (induction ps arbitrary: i)
  case (Cons p ps)
  show ?case
  proof (cases i)
    case (Suc j)
    then have "port_key (ps ! j) \<noteq> port_key p" using Cons.prems nth_mem [of j ps]
      by (metis Suc_less_eq distinct.simps(2) image_eqI length_Cons list.set_map list.simps(9))
    then show ?thesis using Suc Cons by (auto simp: port_key_def)
  qed simp
qed simp

definition fd_kept :: "'w sock_ops \<Rightarrow> bool" where
  "fd_kept K \<longleftrightarrow> (\<forall>fd w. fst (ko_fd_take K fd w) = fd)"

lemma port_key_fd [simp]: "port_key (p\<lparr>sp_fd := fd\<rparr>) = port_key p" "sp_type (p\<lparr>sp_fd := fd\<rparr>) = sp_type p"
  by (simp_all add: port_key_def sp_type_def)

lemma port_same: "sp_conf p = sp_conf q \<Longrightarrow> sp_token p = sp_token q \<Longrightarrow> sp_fd p = sp_fd q \<Longrightarrow> p = (q :: sk_port)"
  by (cases p; cases q) simp

lemma map_ports_restores:
  assumes tk: "fd_kept K" and d: "distinct (map port_key qs)"
  shows "k \<le> length qs \<Longrightarrow> length (sk_ports s) = length qs \<Longrightarrow>
    \<forall>i < length qs. sp_conf (sk_ports s ! i) = sp_conf (qs ! i) \<and> sp_token (sk_ports s ! i) = sp_token (qs ! i) \<Longrightarrow>
    \<forall>i < k. sk_ports s ! i = qs ! i \<Longrightarrow>
    \<exists>s'. fold (map_port_fd K) (map (\<lambda>p. (sp_type p, pc_listen (sp_conf p), sp_fd p)) (drop k qs)) s = s' \<and>
      (\<exists>w. s' = s\<lparr>sk_ports := qs, sk_ev := (sk_ev s)\<lparr>ed_env := w\<rparr>\<rparr>)"
proof (induction "length qs - k" arbitrary: k s)
  case 0
  then have "sk_ports s = qs" by (intro nth_equalityI) auto
  then show ?case using 0 by (intro exI [of _ s] conjI exI [of _ "sk_world s"]) simp_all
next
  case (Suc n)
  then have k: "k < length qs" "drop k qs = qs ! k # drop (Suc k) qs" by (simp_all add: Cons_nth_drop_Suc)
  let ?q = "qs ! k"
  have keys: "map port_key (sk_ports s) = map port_key qs"
    by (rule nth_equalityI) (use Suc.prems in \<open>auto simp: port_key_def sp_type_def\<close>)
  have k': "k < length (sk_ports s)" "sp_type (sk_ports s ! k) = sp_type ?q" "sp_conf (sk_ports s ! k) = sp_conf ?q"
    using k(1) Suc.prems(2,3) by (simp_all add: sp_type_def)
  have find: "ports_find (sp_type ?q) (pc_listen (sp_conf ?q)) (sk_ports s) = Some k"
    using ports_find_nth [of "sk_ports s" k] d k' keys by simp
  obtain fd w where fd: "ko_fd_take K (sp_fd ?q) (sk_world s) = (fd, w)" by fastforce
  then have "fd = sp_fd ?q" using tk by (metis fd_kept_def fst_conv)
  let ?s1 = "sk_set_fd k (sp_fd ?q) (s\<lparr>sk_ev := (sk_ev s)\<lparr>ed_env := w\<rparr>\<rparr>)"
  have m: "map_port_fd K (sp_type ?q, pc_listen (sp_conf ?q), sp_fd ?q) s = ?s1"
    using find fd \<open>fd = sp_fd ?q\<close> by (simp add: map_port_fd_def sk_ask_def)
  have p1: "sk_ports ?s1 = (sk_ports s)[k := (sk_ports s ! k)\<lparr>sp_fd := sp_fd ?q\<rparr>]" by (simp add: sk_set_fd_def)
  have qk: "(sk_ports s ! k)\<lparr>sp_fd := sp_fd ?q\<rparr> = ?q" using Suc.prems(3) k(1) by (intro port_same) simp_all
  have "\<forall>i < length qs. sp_conf (sk_ports ?s1 ! i) = sp_conf (qs ! i) \<and> sp_token (sk_ports ?s1 ! i) = sp_token (qs ! i)"
    using Suc.prems(2,3) k'(1) by (auto simp: p1 qk nth_list_update)
  moreover have "\<forall>i < Suc k. sk_ports ?s1 ! i = qs ! i" using Suc.prems(2,4) p1 qk k(1) by (auto simp: nth_list_update less_Suc_eq)
  moreover have "n = length qs - Suc k" "Suc k \<le> length qs" "length (sk_ports ?s1) = length qs"
    using Suc.hyps(2) k(1) Suc.prems(2) p1 by simp_all
  ultimately obtain w' where
    "fold (map_port_fd K) (map (\<lambda>p. (sp_type p, pc_listen (sp_conf p), sp_fd p)) (drop (Suc k) qs)) ?s1 =
       ?s1\<lparr>sk_ports := qs, sk_ev := (sk_ev ?s1)\<lparr>ed_env := w'\<rparr>\<rparr>"
    using Suc.hyps(1) [of "Suc k" ?s1] by blast
  then show ?case using m k(2) by (auto simp: sk_set_fd_def)
qed

lemma map_ports_fd_restores:
  assumes "fd_kept K" and "distinct (map port_key (sk_ports s))" and "sk_ports r = map (\<lambda>p. p\<lparr>sp_fd := - 1\<rparr>) (sk_ports s)"
  shows "\<exists>w. map_ports_fd K (map (\<lambda>p. (sp_type p, pc_listen (sp_conf p), sp_fd p)) (sk_ports s)) r =
    Some (r\<lparr>sk_ports := sk_ports s, sk_ev := (sk_ev r)\<lparr>ed_env := w\<rparr>\<rparr>)"
  using map_ports_restores [OF assms(1,2), of 0 r] assms(3) by (auto simp: map_ports_fd_def)


section \<open>A connection that waits\<close>

text \<open>
  What the kernel does with a descriptor that is not open (\<open>op\<close>): \<open>ppoll\<close> reports it as invalid and epoll
  refuses it; \<open>close\<close> makes it one.
\<close>

definition closed_fd_laws :: "'w sock_ops \<Rightarrow> (int \<Rightarrow> 'w \<Rightarrow> bool) \<Rightarrow> bool" where
  "closed_fd_laws K op \<longleftrightarrow> (\<forall>fd w. \<not> op fd (ko_close K fd w)) \<and>
     (\<forall>fd w. \<not> op fd w \<longrightarrow> fst (ko_ppoll K fd w) = Inr (1, True) \<and> \<not> op fd (snd (ko_ppoll K fd w))) \<and>
     (\<forall>fd w. \<not> op fd w \<longrightarrow> \<not> fst (eo_register (ko_events K) (RegFd fd) w))"

lemma closed_fd_wait:
  assumes "closed_fd_laws K op" and "\<not> op fd w"
  shows "\<exists>w'. wait_for_events K fd w = (Inl EBADF, w') \<and> \<not> op fd w'"
  using assms by (cases "ko_ppoll K fd w") (fastforce simp: closed_fd_laws_def wait_for_events_def)

lemma closed_fd_flush:
  assumes L: "closed_fd_laws K op" and w: "\<not> op fd w"
  shows "\<exists>w'. flush_accepts K fd n w = Some w' \<and> \<not> op fd w'" "\<exists>w'. flush_fd K fd w = Some w' \<and> \<not> op fd w'"
proof -
  obtain w' where w': "wait_for_events K fd w = (Inl EBADF, w')" "\<not> op fd w'" using closed_fd_wait [OF L w] by blast
  then show "\<exists>w'. flush_accepts K fd n w = Some w' \<and> \<not> op fd w'"
    using w by (cases n) (auto simp: flush_wait.simps)
  show "\<exists>w'. flush_fd K fd w = Some w' \<and> \<not> op fd w'" using w' by (subst flush_fd.simps) simp
qed

text \<open>
  A client that connects before the socket listens takes the manager down: draining the port accepts the
  connection and then closes the listening descriptor instead of the new one, and watching the port unwraps the
  error of epoll for a descriptor that is closed.
\<close>

theorem pending_connection_panics:
  assumes L: "closed_fd_laws K op" and s: "sk_ports s = [p]" "0 \<le> sp_fd p" "\<not> Accept C"
    and pend: "ko_accept_conn K (sp_fd p) (sk_world s)" "ko_ppoll K (sp_fd p) (sk_world s) = (Inr (n, False), w1)"
      "ko_accept4 K (sp_fd p) w1 = (Some afd, w2)"
  shows "(\<exists>s1. flush_ports K s = Some s1 \<and> watch_fds K s1 = None) \<and> sk_enter_listening K C s = None"
proof -
  let ?fd = "sp_fd p"
  have wt: "flush_wait K ?fd (sk_world s) = Some (True, w1)"
    using pend(2) by (subst flush_wait.simps) (simp add: wait_for_events_def)
  have "\<not> op ?fd (ko_close K ?fd w2)" using L by (simp add: closed_fd_laws_def)
  from closed_fd_flush(1) [OF L this, of 1022] obtain w3 where w3: "flush_accepts K ?fd 1022 (ko_close K ?fd w2) = Some w3" "\<not> op ?fd w3"
    by blast
  have "flush_accept K ?fd (sk_world s) = Some w3"
    using flush_accepts.simps(2) [of K ?fd 1022 "sk_world s"] pend(1,3) wt w3(1) by (simp add: flush_accept_def)
  moreover obtain w4 where w4: "flush_fd K ?fd w3 = Some w4" "\<not> op ?fd w4" using closed_fd_flush(2) [OF L w3(2)] by blast
  ultimately have f: "flush_ports K s = Some (sk_do (\<lambda>_. w4) s)" using s(1) by (simp add: flush_ports_def)
  obtain ev where ev: "add_source (port_source p) (sk_ev (sk_do (\<lambda>_. w4) s)) = Some (Inr (), ev)" "ed_env ev = w4"
    by (auto simp: add_source_def is_fd_type_def sk_do_def Let_def)
  obtain b w5 where b: "eo_register (ko_events K) (RegFd ?fd) w4 = (b, w5)" by fastforce
  then have "\<not> b" using L w4(2) by (metis closed_fd_laws_def fst_conv)
  then have "\<exists>e ev'. set_enabled (ko_events K) (port_source p) EvOn ev = Some (Inl e, ev')"
    using b ev(2) by (simp add: set_enabled_def source_online_def ev_env_def ev_syscall_def)
  then have "watch_fds K (sk_do (\<lambda>_. w4) s) = None"
    using s(1,2) ev(1) by (auto simp: watch_fds_def sk_events_def)
  then show ?thesis using f s(3) by (simp add: sk_enter_listening_def)
qed

section \<open>Runs\<close>

text \<open>
  A small kernel: the next process id, the processes watched for the unit, the next descriptor, the open
  descriptors, the commands started, and the connections that wait on each port. With \<open>strict\<close> epoll refuses
  descriptors that are not open.
\<close>

record demo_kernel =
  dk_pid :: int
  dk_watched :: "pid list"
  dk_fd :: int
  dk_open :: "int list"
  dk_started :: "exec_command list"
  dk_conns :: nat

definition demo_ev_ops :: "bool \<Rightarrow> demo_kernel ev_ops" where
  "demo_ev_ops strict = \<lparr>eo_register = (\<lambda>r w. (case r of RegFd fd \<Rightarrow> \<not> strict \<or> fd \<in> set (dk_open w) | _ \<Rightarrow> True, w)),
     eo_unregister = (\<lambda>_ w. (True, w)), eo_add_child = (\<lambda>_ w. w), eo_poll = (\<lambda>_ w. (None, w)), eo_now = (\<lambda>_ w. (0, w)),
     eo_settime = (\<lambda>_ _ w. w), eo_flush = (\<lambda>_ w. (True, w)), eo_checks = True\<rparr>"

definition demo_open :: "demo_kernel \<Rightarrow> int option \<times> demo_kernel" where
  "demo_open w = (Some (abs (dk_fd w)), w\<lparr>dk_fd := dk_fd w + 1, dk_open := abs (dk_fd w) # dk_open w\<rparr>)"

definition demo_sock_ops :: "bool \<Rightarrow> demo_kernel sock_ops" where
  "demo_sock_ops strict = \<lparr>ko_events = demo_ev_ops strict, ko_prepare_exec = Pair True,
     ko_exec_spawn = (\<lambda>c w. (Some (dk_pid w), w\<lparr>dk_pid := dk_pid w + 1, dk_started := dk_started w @ [c]\<rparr>)),
     ko_child_watch_pid = (\<lambda>p w. w\<lparr>dk_watched := p # dk_watched w\<rparr>),
     ko_child_unwatch_pid = (\<lambda>p w. w\<lparr>dk_watched := removeAll p (dk_watched w)\<rparr>), ko_kill_context = (\<lambda>_ _. Pair True),
     ko_notify = (\<lambda>_ _ _ w. w), ko_has_stop_job = (\<lambda>_. False), ko_relation_active_or_pending = (\<lambda>_. False),
     ko_unit_start_by_job = (\<lambda>_. Pair True), ko_unit_enabled = (\<lambda>_ _. Inr ()), ko_test_start_limit = Pair True,
     ko_mark_last = (\<lambda>_ w. w), ko_fd_take = Pair, ko_fd_cloexec = (\<lambda>_ _. Pair True), ko_listen = (\<lambda>_. demo_open),
     ko_open_fifo = (\<lambda>_. demo_open), ko_open_special = (\<lambda>_. demo_open), ko_symlink = (\<lambda>_ _ w. w), ko_unlink = (\<lambda>_ w. w),
     ko_close = (\<lambda>fd w. w\<lparr>dk_open := removeAll fd (dk_open w)\<rparr>), ko_sock_opt = (\<lambda>_ w. w), ko_accept_conn = (\<lambda>_ w. 0 < dk_conns w),
     ko_ppoll = (\<lambda>fd w. (if fd \<in> set (dk_open w) then Inr (if 0 < dk_conns w then 1 else 0, False) else Inr (1, True), w)),
     ko_accept4 = (\<lambda>fd w. if fd \<in> set (dk_open w) \<and> 0 < dk_conns w
       then (Some (dk_fd w), w\<lparr>dk_fd := dk_fd w + 1, dk_open := dk_fd w # dk_open w, dk_conns := dk_conns w - 1\<rparr>) else (None, w)),
     ko_read = (\<lambda>_ w. (Inr 0, w)), ko_user_creds = (\<lambda>_. None), ko_group_creds = (\<lambda>_. None), ko_chown = (\<lambda>_ _ _. Pair True)\<rparr>"

definition demo_kernel_start :: demo_kernel where
  "demo_kernel_start = \<lparr>dk_pid = 100, dk_watched = [], dk_fd = 7, dk_open = [], dk_started = [], dk_conns = 0\<rparr>"

definition demo_section :: section_socket where
  "demo_section = \<lparr>SkExecStartPre = None, SkExecStartPost = None, SkExecStopPre = None, SkExecStopPost = None,
     ListenStream = Some [''/run/a''], ListenDatagram = None, ListenNetlink = None, ListenSequentialPacket = None, ListenFIFO = None,
     ListenSpecial = None, Accept = False, SkService = None, RemoveOnStop = False, Symlinks = None, SocketUser = [], SocketGroup = [],
     SkKillSignal = ''SIGTERM''\<rparr>"

definition demo_port_conf :: port_conf where
  "demo_port_conf = \<lparr>pc_type = PortSocket, pc_sa = \<lparr>sa_addr = UnixPath ''/run/a'', sa_type = Stream, sa_protocol = None\<rparr>, pc_listen = ''/run/a''\<rparr>"

definition demo_sock :: "demo_kernel sock" where
  "demo_sock = build_ports of_nat [demo_port_conf] (sock_new True (Some ''a.service'') (events_new demo_kernel_start))"

lemma demo_sock_env_ok: "sock_env_ok (demo_sock_ops False)"
proof -
  have "flush_measure (demo_sock_ops False) (\<lambda>_. 0)" by (auto simp: flush_measure_def demo_sock_ops_def)
  then show ?thesis
    by (auto simp: sock_env_ok_def epoll_ok_def opened_nonneg_def demo_sock_ops_def demo_ev_ops_def demo_open_def split: reg_fd.splits)
qed

lemma demo_sock_eq: "sk_ports demo_sock = [\<lparr>sp_conf = demo_port_conf, sp_token = 0, sp_fd = - 1\<rparr>]" "sk_state demo_sock = SkStateMax"
  "sk_control demo_sock = None" "sk_owner demo_sock" "ed_state (sk_ev demo_sock) = []"
  by (simp_all add: demo_sock_def build_ports_def push_port_def sk_db_insert_def sock_new_def events_new_def enumerate_eq_zip)

lemma demo_sock_wf: "sk_wf demo_sock"
  by (simp add: sk_wf_def sk_core_def port_ids_def demo_sock_eq live_states_def process_states_def open_states_def closed_def fds_def
      unwatched_def est_def demo_port_conf_def)

theorem socket_never_panics_witness:
  "\<exists>t. sock_handle (demo_sock_ops False) demo_section SkStart demo_sock = Some t \<and>
    (sk_state t \<in> {SkStartPost, SkListening, SkRunning} \<longrightarrow> sk_collect_fds t = map sp_fd (sk_ports t))"
  using socket_never_panics [OF demo_sock_env_ok demo_sock_wf sock_steps.sock_refl, of SkStart demo_section] by auto


lemma demo_closed_laws: "closed_fd_laws (demo_sock_ops True) (\<lambda>fd w. fd \<in> set (dk_open w))"
  by (simp add: closed_fd_laws_def demo_sock_ops_def demo_ev_ops_def)

text \<open>The demo socket with its port open and a client waiting.\<close>

definition demo_pending :: "demo_kernel sock" where
  "demo_pending = sk_set_fd 0 3 (sk_do (\<lambda>w. w\<lparr>dk_open := [3], dk_conns := 1\<rparr>) demo_sock)"

theorem pending_connection_panics_witness:
  "sk_ports demo_pending \<noteq> [] \<and> sk_enter_listening (demo_sock_ops True) demo_section demo_pending = None"
proof -
  let ?p = "\<lparr>sp_conf = demo_port_conf, sp_token = 0, sp_fd = 3\<rparr>" and ?w = "sk_world demo_pending"
  have p: "sk_ports demo_pending = [?p]" by (simp add: demo_pending_def sk_set_fd_def demo_sock_eq)
  have w: "dk_open ?w = [3]" "dk_conns ?w = 1" by (simp_all add: demo_pending_def sk_do_def)
  have a: "\<not> Accept demo_section" by (simp add: demo_section_def)
  have c: "ko_accept_conn (demo_sock_ops True) (sp_fd ?p) ?w" "ko_ppoll (demo_sock_ops True) (sp_fd ?p) ?w = (Inr (1, False), ?w)"
    using w by (simp_all add: demo_sock_ops_def)
  have d: "ko_accept4 (demo_sock_ops True) (sp_fd ?p) ?w =
      (Some (dk_fd ?w), ?w\<lparr>dk_fd := dk_fd ?w + 1, dk_open := dk_fd ?w # dk_open ?w, dk_conns := dk_conns ?w - 1\<rparr>)"
    using w by (simp add: demo_sock_ops_def)
  show ?thesis using pending_connection_panics [OF demo_closed_laws p _ a c d] p by simp
qed

text \<open>
  Two runs that show what the control process hides. A stop while the first command runs starts the stop command
  without waiting for the first process: if that one is reaped last, its end reaches a dead socket and the manager
  panics. And a stop with a start command left over runs that command as the stop command.
\<close>

definition demo_cmd :: "string \<Rightarrow> exec_command" where
  "demo_cmd name = exec_command_new name []"

definition demo_two_phases :: section_socket where
  "demo_two_phases = demo_section\<lparr>SkExecStartPre := Some [demo_cmd ''/bin/pre''], SkExecStopPost := Some [demo_cmd ''/bin/post'']\<rparr>"

definition demo_two_commands :: section_socket where
  "demo_two_commands = demo_section\<lparr>SkExecStartPre := Some [demo_cmd ''/bin/pre1'', demo_cmd ''/bin/pre2'']\<rparr>"

definition demo_stopped :: "section_socket \<Rightarrow> demo_kernel sock option" where
  "demo_stopped C = do {
     (_, s1) \<leftarrow> sk_start (demo_sock_ops True) C demo_sock;
     (_, s2) \<leftarrow> sk_stop (demo_sock_ops True) C False s1;
     Some s2 }"

lemma late_reap_panics:
  "\<exists>s2 s3. demo_stopped demo_two_phases = Some s2 \<and> sk_control s2 = Some 101 \<and> dk_watched (sk_world s2) = [101, 100] \<and>
     sk_sigchld_event (demo_sock_ops True) demo_two_phases (Exited 101 0) s2 = Some s3 \<and> sk_state s3 = SkDead \<and>
     dk_watched (sk_world s3) = [100] \<and>
     sk_sigchld_event (demo_sock_ops True) demo_two_phases (Signaled 100 ''SIGKILL'' False) s3 = None"
proof -
  define s2 where "s2 = the (demo_stopped demo_two_phases)"
  define s3 where "s3 = the (sk_sigchld_event (demo_sock_ops True) demo_two_phases (Exited 101 0) s2)"
  have "demo_stopped demo_two_phases = Some s2" unfolding s2_def by code_simp
  moreover have "sk_control s2 = Some 101" "dk_watched (sk_world s2) = [101, 100]" unfolding s2_def by code_simp+
  moreover have "sk_sigchld_event (demo_sock_ops True) demo_two_phases (Exited 101 0) s2 = Some s3" unfolding s3_def s2_def by code_simp
  moreover have "sk_state s3 = SkDead" "dk_watched (sk_world s3) = [100]" unfolding s3_def s2_def by code_simp+
  moreover have "sk_sigchld_event (demo_sock_ops True) demo_two_phases (Signaled 100 ''SIGKILL'' False) s3 = None"
    unfolding s3_def s2_def by code_simp
  ultimately show ?thesis by blast
qed

lemma left_over_command_runs:
  "map_option sk_state (demo_stopped demo_two_commands) = Some SkStopPost"
  "map_option (dk_started \<circ> sk_world) (demo_stopped demo_two_commands) = Some [demo_cmd ''/bin/pre1'', demo_cmd ''/bin/pre2'']"
  by code_simp+

text \<open>Two ports with the same address string are one port to the recovery.\<close>

lemma same_address_ports_collide:
  "ports_find PortSocket ''80'' [\<lparr>sp_conf = c, sp_token = t, sp_fd = f\<rparr>, \<lparr>sp_conf = c', sp_token = t', sp_fd = f'\<rparr>] = Some 0"
  if "pc_type c = PortSocket" "pc_listen c = ''80''"
  using that by (simp add: sp_type_def)

end
