(* ===== verification/Job_Entry.thy ===== *)
theory Job_Entry
  imports Unit_Relations Unit_State Reli_Db
begin

text \<open>
  One job: its kind, attributes and stages (\<^verbatim>\<open>core/bin/job/rentry.rs\<close>, \<^verbatim>\<open>core/bin/job/entry.rs\<close>)
  and the operations that move it through its life. The code shares jobs as \<open>Rc<Job>\<close> and compares
  them by id, so a reference is the job's id and the objects live in the heap \<open>jw_job\<close>, beside the
  reliability tables every stage change writes to. The lemmas relate each operation to the abstract
  life cycle \<open>job_step\<close>, show that a job never moves backwards, and that two ordered jobs never both
  wait for and never both ignore each other.
\<close>

section \<open>Kinds, attributes, results and stages\<close>

datatype job_kind =
  Start | Stop | Reload | Restart | Verify | Nop | TryReload | TryRestart | ReloadOrStart

fun job_is_basic_op :: "job_kind \<Rightarrow> bool" where
  "job_is_basic_op Start = True"
| "job_is_basic_op Stop = True"
| "job_is_basic_op Reload = True"
| "job_is_basic_op Restart = True"
| "job_is_basic_op Verify = True"
| "job_is_basic_op Nop = True"
| "job_is_basic_op TryReload = False"
| "job_is_basic_op TryRestart = False"
| "job_is_basic_op ReloadOrStart = False"

record job_attr =
  ignore_order :: bool
  irreversible :: bool
  force :: bool
  no_relevancy :: bool

definition job_attr_new :: "bool \<Rightarrow> bool \<Rightarrow> bool \<Rightarrow> bool \<Rightarrow> job_attr" where
  "job_attr_new io ir f nr =
     \<lparr>ignore_order = io, irreversible = ir, force = f, no_relevancy = nr\<rparr>"

definition job_attr_or :: "job_attr \<Rightarrow> job_attr \<Rightarrow> job_attr" where
  "job_attr_or a b =
     \<lparr>ignore_order = (ignore_order a \<or> ignore_order b),
      irreversible = (irreversible a \<or> irreversible b),
      force = (force a \<or> force b),
      no_relevancy = (no_relevancy a \<or> no_relevancy b)\<rparr>"

datatype job_result =
  Done | Cancelled | TimeOut | Failed | Dependency | Skipped | Invalid | Assert | UnSupported
  | Collected | Once | Merged

datatype job_stage = Init | Wait | Running | End job_result

section \<open>The reliability tables of the jobs\<close>

record job_re =
  re_trigger :: "(unit_id, job_kind \<times> job_attr) redb"
  re_suspends :: "(unit_id \<times> job_kind, job_attr) redb"

definition job_re_new :: job_re where
  "job_re_new = \<lparr>re_trigger = redb_new [], re_suspends = redb_new []\<rparr>"

definition trigger_insert :: "unit_id \<Rightarrow> job_kind \<Rightarrow> job_attr \<Rightarrow> job_re \<Rightarrow> job_re option" where
  "trigger_insert u kind attr re = do {
     rust_assert (job_is_basic_op kind);
     Some (re\<lparr>re_trigger := redb_insert u (kind, attr) (re_trigger re)\<rparr>) }"

definition trigger_remove :: "unit_id \<Rightarrow> job_re \<Rightarrow> job_re" where
  "trigger_remove u re = re\<lparr>re_trigger := redb_remove u (re_trigger re)\<rparr>"

definition trigger_get :: "job_re \<Rightarrow> unit_id \<Rightarrow> (job_kind \<times> job_attr) option" where
  "trigger_get re u = redb_get (re_trigger re) u"

definition trigger_keys :: "job_re \<Rightarrow> unit_id list" where
  "trigger_keys re = redb_keys (re_trigger re)"

definition trigger_entries :: "job_re \<Rightarrow> (unit_id \<times> job_kind \<times> job_attr) list" where
  "trigger_entries re = map (\<lambda>(u, (k, a)). (u, k, a)) (redb_entries (re_trigger re))"

definition suspends_insert :: "unit_id \<Rightarrow> job_kind \<Rightarrow> job_attr \<Rightarrow> job_re \<Rightarrow> job_re option" where
  "suspends_insert u kind attr re = do {
     rust_assert (job_is_basic_op kind);
     Some (re\<lparr>re_suspends := redb_insert (u, kind) attr (re_suspends re)\<rparr>) }"

definition suspends_remove :: "unit_id \<Rightarrow> job_kind \<Rightarrow> job_re \<Rightarrow> job_re" where
  "suspends_remove u kind re = re\<lparr>re_suspends := redb_remove (u, kind) (re_suspends re)\<rparr>"

definition suspends_get :: "job_re \<Rightarrow> unit_id \<Rightarrow> job_kind \<Rightarrow> job_attr option" where
  "suspends_get re u kind = redb_get (re_suspends re) (u, kind)"

definition suspends_entries :: "job_re \<Rightarrow> (unit_id \<times> job_kind \<times> job_attr) list" where
  "suspends_entries re = map (\<lambda>((u, k), a). (u, k, a)) (redb_entries (re_suspends re))"

section \<open>Jobs and the job heap\<close>

record job =
  j_id :: job_id
  j_time_usec :: u64
  j_unit :: unit_id
  j_kind :: job_kind
  j_attr :: job_attr
  j_run_kind :: job_kind
  j_stage :: job_stage

text \<open>\<open>JobInfo\<close> is a copy of the job's data at the time it is taken.\<close>

record job_info =
  ji_id :: job_id
  ji_unit :: unit_id
  ji_kind :: job_kind
  ji_attr :: job_attr
  ji_run_kind :: job_kind
  ji_stage :: job_stage

definition job_info_map :: "job \<Rightarrow> job_info" where
  "job_info_map j = \<lparr>ji_id = j_id j, ji_unit = j_unit j, ji_kind = j_kind j, ji_attr = j_attr j,
     ji_run_kind = j_run_kind j, ji_stage = j_stage j\<rparr>"

text \<open>
  The state the jobs share: the heap, the reliability tables, the ids whose timer is registered and
  enabled in the event loop, the unit recorded as the last one worked on, the notifications the
  units raised and nobody has consumed yet, and the world of the units.
\<close>

record 'w jworld =
  jw_job :: "job_id \<Rightarrow> job"
  jw_rentry :: job_re
  jw_timers :: "job_id set"
  jw_last_unit :: "unit_id option"
  jw_notes :: "unit_notify list"
  jw_env :: 'w

definition upd_job :: "job_id \<Rightarrow> (job \<Rightarrow> job) \<Rightarrow> 'w jworld \<Rightarrow> 'w jworld" where
  "upd_job j f w = w\<lparr>jw_job := (jw_job w)(j := f (jw_job w j))\<rparr>"

abbreviation kind_of :: "'w jworld \<Rightarrow> job_id \<Rightarrow> job_kind" where
  "kind_of w j \<equiv> j_kind (jw_job w j)"

abbreviation stage_of :: "'w jworld \<Rightarrow> job_id \<Rightarrow> job_stage" where
  "stage_of w j \<equiv> j_stage (jw_job w j)"

abbreviation attr_of :: "'w jworld \<Rightarrow> job_id \<Rightarrow> job_attr" where
  "attr_of w j \<equiv> j_attr (jw_job w j)"

section \<open>Run kinds and the decisions of the free functions\<close>

fun job_rkind_new :: "job_kind \<Rightarrow> job_kind" where
  "job_rkind_new kind = (if kind = Restart then Stop else kind)"

fun job_rkind_map :: "job_kind \<Rightarrow> job_kind \<Rightarrow> job_kind" where
  "job_rkind_map Restart Stop = Start"
| "job_rkind_map Restart Start = Start"
| "job_rkind_map kind _ = kind"

fun job_trigger_err_to_result :: "error \<Rightarrow> job_result option" where
  "job_trigger_err_to_result UnitActionEAgain = None"
| "job_trigger_err_to_result UnitActionEAlready = Some Done"
| "job_trigger_err_to_result UnitActionEComm = Some Done"
| "job_trigger_err_to_result UnitActionEBadR = Some Skipped"
| "job_trigger_err_to_result UnitActionENoExec = Some Invalid"
| "job_trigger_err_to_result UnitActionEProto = Some Assert"
| "job_trigger_err_to_result UnitActionEOpNotSupp = Some UnSupported"
| "job_trigger_err_to_result UnitActionENolink = Some Dependency"
| "job_trigger_err_to_result UnitActionEStale = Some Once"
| "job_trigger_err_to_result UnitActionEFailed = Some Failed"
| "job_trigger_err_to_result UnitActionEInval = Some Failed"
| "job_trigger_err_to_result UnitActionEBusy = Some Failed"
| "job_trigger_err_to_result UnitActionENoent = Some Failed"
| "job_trigger_err_to_result UnitActionECanceled = Some Failed"
| "job_trigger_err_to_result _ = Some Skipped"

text \<open>
  \<open>job_trigger_unit\<close> calls into the unit. Its result is \<open>Inr ()\<close> for \<open>Ok\<close>, \<open>Inl None\<close> for "trigger
  again later" and \<open>Inl (Some r)\<close> for a job that is over with result \<open>r\<close>.
\<close>

definition job_trigger_unit ::
  "'w unit_ops \<Rightarrow> unit_id \<Rightarrow> job_kind \<Rightarrow> bool \<Rightarrow> 'w \<Rightarrow>
   ((job_result option + unit) \<times> unit_notify list \<times> 'w) option" where
  "job_trigger_unit U u run_kind frc w = do {
     (ret, notes, w') \<leftarrow>
       (case run_kind of
          Start \<Rightarrow> Some (unit_start U u w)
        | Stop \<Rightarrow> Some (unit_stop U u frc w)
        | Reload \<Rightarrow> Some (unit_reload U u w)
        | Verify \<Rightarrow>
            Some (case uo_active_state U u w of
                    UnitActive \<Rightarrow> Inl UnitActionEAlready
                  | UnitReloading \<Rightarrow> Inl UnitActionEAlready
                  | UnitActivating \<Rightarrow> Inl UnitActionEAgain
                  | _ \<Rightarrow> Inl UnitActionEBadR, [], w)
        | Nop \<Rightarrow> Some (Inl UnitActionEAlready, [], w)
        | _ \<Rightarrow> None);
     Some (case ret of
             Inr () \<Rightarrow> (Inr (), notes, w')
           | Inl err \<Rightarrow> (Inl (job_trigger_err_to_result err), notes, w')) }"

fun job_process_unit_start :: "unit_active_state \<Rightarrow> job_result option \<times> bool" where
  "job_process_unit_start UnitActive = (Some Done, True)"
| "job_process_unit_start UnitActivating = (None, True)"
| "job_process_unit_start UnitInActive = (Some Done, False)"
| "job_process_unit_start UnitFailed = (Some Failed, False)"
| "job_process_unit_start _ = (None, False)"

fun job_process_unit_stop :: "unit_active_state \<Rightarrow> job_result option \<times> bool" where
  "job_process_unit_stop UnitInActive = (Some Done, True)"
| "job_process_unit_stop UnitFailed = (Some Done, True)"
| "job_process_unit_stop UnitDeActivating = (None, True)"
| "job_process_unit_stop UnitActive = (Some Failed, False)"
| "job_process_unit_stop _ = (Some Failed, False)"

definition job_process_unit_reload ::
  "unit_active_state \<Rightarrow> unit_notify_flags \<Rightarrow> job_result option \<times> bool" where
  "job_process_unit_reload ns flags =
     (let result = (if flags_intersects flags UNIT_NOTIFY_RELOAD_FAILURE then Failed else Done) in
      case ns of
        UnitActive \<Rightarrow> (Some result, True)
      | UnitReloading \<Rightarrow> (None, True)
      | UnitInActive \<Rightarrow> (Some Done, False)
      | UnitFailed \<Rightarrow> (Some Failed, False)
      | _ \<Rightarrow> (None, False))"

definition job_process_unit ::
  "job_kind \<Rightarrow> unit_active_state \<Rightarrow> unit_notify_flags \<Rightarrow> (job_result option \<times> bool) option" where
  "job_process_unit run_kind ns flags =
     (case run_kind of
        Start \<Rightarrow> Some (job_process_unit_start ns)
      | Stop \<Rightarrow> Some (job_process_unit_stop ns)
      | Reload \<Rightarrow> Some (job_process_unit_reload ns flags)
      | _ \<Rightarrow> None)"

text \<open>\<open>UnitX::can_start\<close>, \<open>can_stop\<close> and \<open>can_reload\<close> are \<open>todo!()\<close>: asking them panics.\<close>

definition job_is_unit_applicable :: "'w unit_ops \<Rightarrow> job_kind \<Rightarrow> unit_id \<Rightarrow> 'w \<Rightarrow> bool option" where
  "job_is_unit_applicable U kind u w =
     (case kind of
        Start \<Rightarrow> Some True | Verify \<Rightarrow> Some True | Nop \<Rightarrow> Some True
      | Stop \<Rightarrow> Some (\<not> uo_perpetual U u w)
      | _ \<Rightarrow> None)"

fun job_merge_unit :: "job_kind \<Rightarrow> bool \<Rightarrow> job_kind" where
  "job_merge_unit TryReload False = Nop"
| "job_merge_unit TryReload True = Reload"
| "job_merge_unit TryRestart False = Nop"
| "job_merge_unit TryRestart True = Restart"
| "job_merge_unit ReloadOrStart False = Start"
| "job_merge_unit ReloadOrStart True = Reload"
| "job_merge_unit kind _ = kind"

text \<open>A job configuration is a unit and a kind; \<open>JobConf::map\<close> resolves the compound kinds.\<close>

type_synonym job_conf = "unit_id \<times> job_kind"

definition job_conf_map :: "'w unit_ops \<Rightarrow> job_conf \<Rightarrow> 'w \<Rightarrow> job_conf" where
  "job_conf_map U c w =
     (fst c, job_merge_unit (snd c) (is_active_or_reloading (uo_active_state U (fst c) w)))"

text \<open>Asked with \<open>UnitAtomBefore\<close> and \<open>UnitAtomAfter\<close> only (the caller asserts it).\<close>

function job_order_compare :: "job_kind \<Rightarrow> job_kind \<Rightarrow> unit_relation_atom \<Rightarrow> int" where
  "job_order_compare rk_a rk_b atom =
     (if rk_a = Nop \<or> rk_b = Nop then 0
      else if atom = UnitAtomAfter then - job_order_compare rk_b rk_a UnitAtomBefore
      else if rk_b = Stop then 1 else - 1)"
  by pat_completeness auto
termination
  by (relation "measure (\<lambda>(_, _, atom). if atom = UnitAtomAfter then 1 else 0)") auto

section \<open>The operations of a job\<close>

definition job_new :: "job_id \<Rightarrow> unit_id \<Rightarrow> job_kind \<Rightarrow> job" where
  "job_new jid u kind =
     \<lparr>j_id = jid, j_time_usec = 0, j_unit = u, j_kind = kind,
      j_attr = job_attr_new False False False False,
      j_run_kind = job_rkind_new kind, j_stage = Init\<rparr>"

text \<open>\<open>sec * 1000000\<close> is a product of \<open>u64\<close> values: it wraps around.\<close>

definition job_set_timer :: "'w unit_ops \<Rightarrow> job_id \<Rightarrow> 'w jworld \<Rightarrow> 'w jworld" where
  "job_set_timer U j w =
     (let sec = JobTimeoutSec (uo_config U (j_unit (jw_job w j)) (jw_env w)) in
      if sec = 0 then w else upd_job j (\<lambda>jb. jb\<lparr>j_time_usec := sec * 1000000\<rparr>) w)"

definition job_clear :: "job_id \<Rightarrow> 'w jworld \<Rightarrow> 'w jworld" where
  "job_clear j w = w\<lparr>jw_timers := jw_timers w - {j}\<rparr>"

definition rentry_trigger_insert :: "job_id \<Rightarrow> 'w jworld \<Rightarrow> 'w jworld option" where
  "rentry_trigger_insert j w = do {
     let jb = jw_job w j;
     re \<leftarrow> trigger_insert (j_unit jb) (j_kind jb) (j_attr jb) (jw_rentry w);
     Some (w\<lparr>jw_rentry := re\<rparr>) }"

definition rentry_trigger_remove :: "job_id \<Rightarrow> 'w jworld \<Rightarrow> 'w jworld" where
  "rentry_trigger_remove j w =
     w\<lparr>jw_rentry := trigger_remove (j_unit (jw_job w j)) (jw_rentry w)\<rparr>"

definition rentry_suspends_insert :: "job_id \<Rightarrow> 'w jworld \<Rightarrow> 'w jworld option" where
  "rentry_suspends_insert j w = do {
     let jb = jw_job w j;
     re \<leftarrow> suspends_insert (j_unit jb) (j_kind jb) (j_attr jb) (jw_rentry w);
     Some (w\<lparr>jw_rentry := re\<rparr>) }"

definition rentry_suspends_remove :: "job_id \<Rightarrow> 'w jworld \<Rightarrow> 'w jworld" where
  "rentry_suspends_remove j w =
     w\<lparr>jw_rentry := suspends_remove (j_unit (jw_job w j)) (j_kind (jw_job w j)) (jw_rentry w)\<rparr>"

definition rentry_map_trigger :: "job_id \<Rightarrow> 'w jworld \<Rightarrow> 'w jworld option" where
  "rentry_map_trigger j w = do {
     (kind, attr) \<leftarrow> trigger_get (jw_rentry w) (j_unit (jw_job w j));
     rust_assert (kind = kind_of w j);
     Some (upd_job j (\<lambda>jb. jb\<lparr>j_stage := Running, j_attr := attr\<rparr>) w) }"

definition rentry_map_suspend :: "job_id \<Rightarrow> 'w jworld \<Rightarrow> 'w jworld option" where
  "rentry_map_suspend j w = do {
     attr \<leftarrow> suspends_get (jw_rentry w) (j_unit (jw_job w j)) (kind_of w j);
     Some (upd_job j (\<lambda>jb. jb\<lparr>j_stage := Wait, j_attr := attr\<rparr>) w) }"

definition job_coldplug_trigger :: "job_id \<Rightarrow> 'w jworld \<Rightarrow> 'w jworld" where
  "job_coldplug_trigger j w = w\<lparr>jw_timers := insert j (jw_timers w - {j})\<rparr>"

definition job_coldplug_suspend :: "job_id \<Rightarrow> 'w jworld \<Rightarrow> 'w jworld" where
  "job_coldplug_suspend j w = w\<lparr>jw_timers := insert j (jw_timers w - {j})\<rparr>"

definition job_init_attr :: "job_mode \<Rightarrow> job_id \<Rightarrow> 'w jworld \<Rightarrow> 'w jworld option" where
  "job_init_attr mode j w = do {
     rust_assert (stage_of w j = Init);
     let w1 = (if mode = ModeIgnoreDependencies \<or> kind_of w j = Nop
               then upd_job j (\<lambda>jb. jb\<lparr>j_attr := (j_attr jb)\<lparr>ignore_order := True\<rparr>\<rparr>) w else w);
     Some (if mode = ModeReplaceIrreversible
           then upd_job j (\<lambda>jb. jb\<lparr>j_attr := (j_attr jb)\<lparr>irreversible := True\<rparr>\<rparr>) w1 else w1) }"

definition job_merge_attr :: "job_id \<Rightarrow> job_id \<Rightarrow> 'w jworld \<Rightarrow> 'w jworld option" where
  "job_merge_attr j other w = do {
     rust_assert (stage_of w j = Wait);
     rust_assert (kind_of w j = kind_of w other);
     rentry_suspends_insert j
       (upd_job j (\<lambda>jb. jb\<lparr>j_attr := job_attr_or (j_attr jb) (attr_of w other)\<rparr>) w) }"

definition job_wait :: "job_id \<Rightarrow> 'w jworld \<Rightarrow> 'w jworld option" where
  "job_wait j w = do {
     rust_assert (stage_of w j = Init);
     rentry_suspends_insert j (upd_job j (\<lambda>jb. jb\<lparr>j_stage := Wait\<rparr>) w) }"

text \<open>
  \<open>run\<close>: the job enters the stage \<open>Running\<close>, with its timer and its table entries, and then its unit is
  called. The notifications the unit raises are appended to \<open>jw_notes\<close>.
\<close>

definition job_enter_running :: "job_id \<Rightarrow> 'w jworld \<Rightarrow> 'w jworld option" where
  "job_enter_running j w = do {
     let stage = stage_of w j;
     rust_assert (stage = Wait \<or> stage = Running);
     let w1 = upd_job j (\<lambda>jb. jb\<lparr>j_stage := Running\<rparr>) w;
     let w2 = (if j_time_usec (jw_job w1 j) \<noteq> 0
               then w1\<lparr>jw_timers := insert j (jw_timers w1)\<rparr> else w1);
     let w3 = w2\<lparr>jw_last_unit := Some (j_unit (jw_job w2 j))\<rparr>;
     if stage = Wait then rentry_trigger_insert j (rentry_suspends_remove j w3) else Some w3 }"

definition job_run ::
  "'w unit_ops \<Rightarrow> job_id \<Rightarrow> 'w jworld \<Rightarrow> ((job_result option + unit) \<times> 'w jworld) option" where
  "job_run U j w = do {
     w1 \<leftarrow> job_enter_running j w;
     (ret, notes, env) \<leftarrow>
       job_trigger_unit U (j_unit (jw_job w1 j)) (j_run_kind (jw_job w1 j))
         (force (attr_of w1 j)) (jw_env w1);
     Some (ret, w1\<lparr>jw_notes := jw_notes w1 @ notes, jw_env := env\<rparr>) }"

definition job_update_runkind :: "job_id \<Rightarrow> 'w jworld \<Rightarrow> bool \<times> 'w jworld" where
  "job_update_runkind j w =
     (let last_rkind = j_run_kind (jw_job w j); rkind = job_rkind_map (kind_of w j) last_rkind in
      (last_rkind \<noteq> rkind, upd_job j (\<lambda>jb. jb\<lparr>j_run_kind := rkind\<rparr>) w))"

definition job_finish :: "job_result \<Rightarrow> job_id \<Rightarrow> 'w jworld \<Rightarrow> (bool \<times> 'w jworld) option" where
  "job_finish result j w = do {
     let stage = stage_of w j;
     rust_assert (stage = Wait \<or> stage = Running);
     let (retry, w1) = (if result = Done then job_update_runkind j w else (False, w));
     Some (if retry then (True, upd_job j (\<lambda>jb. jb\<lparr>j_stage := Running\<rparr>) w1)
           else (let w2 = upd_job j (\<lambda>jb. jb\<lparr>j_stage := End result\<rparr>) w1 in
                 (False, if stage = Wait then rentry_suspends_remove j w2
                         else rentry_trigger_remove j w2))) }"

definition job_is_order_with ::
  "'w jworld \<Rightarrow> job_id \<Rightarrow> job_id \<Rightarrow> unit_relation_atom \<Rightarrow> int option" where
  "job_is_order_with w j other atom = do {
     rust_assert (atom = UnitAtomAfter \<or> atom = UnitAtomBefore);
     Some (if ignore_order (attr_of w j) \<or> ignore_order (attr_of w other) then 0
           else job_order_compare (j_run_kind (jw_job w j)) (j_run_kind (jw_job w other)) atom) }"

section \<open>Rewriting the heap\<close>

declare job_order_compare.simps [simp del]

lemma upd_job_simps [simp]:
  "jw_job (upd_job j f w) = (jw_job w)(j := f (jw_job w j))"
  "jw_rentry (upd_job j f w) = jw_rentry w"
  "jw_timers (upd_job j f w) = jw_timers w"
  "jw_last_unit (upd_job j f w) = jw_last_unit w"
  "jw_notes (upd_job j f w) = jw_notes w"
  "jw_env (upd_job j f w) = jw_env w"
  by (simp_all add: upd_job_def)

lemma rentry_remove_simps [simp]:
  "jw_job (rentry_suspends_remove j w) = jw_job w"
  "jw_job (rentry_trigger_remove j w) = jw_job w"
  by (simp_all add: rentry_suspends_remove_def rentry_trigger_remove_def)

lemma rentry_insert_SomeD:
  "rentry_suspends_insert j w = Some w' \<Longrightarrow>
     jw_job w' = jw_job w \<and> job_is_basic_op (kind_of w j) \<and>
     jw_rentry w' = (jw_rentry w)\<lparr>re_suspends :=
       redb_insert (j_unit (jw_job w j), kind_of w j) (attr_of w j) (re_suspends (jw_rentry w))\<rparr>"
  "rentry_trigger_insert j w = Some w' \<Longrightarrow>
     jw_job w' = jw_job w \<and> job_is_basic_op (kind_of w j) \<and>
     jw_rentry w' = (jw_rentry w)\<lparr>re_trigger :=
       redb_insert (j_unit (jw_job w j)) (kind_of w j, attr_of w j) (re_trigger (jw_rentry w))\<rparr>"
  by (auto simp: rentry_suspends_insert_def suspends_insert_def rentry_trigger_insert_def
      trigger_insert_def Let_def split: if_splits)

text \<open>What each operation leaves in the heap.\<close>

lemma job_wait_heap:
  "job_wait j w = Some w' \<Longrightarrow>
     stage_of w j = Init \<and> jw_job w' = (jw_job w)(j := (jw_job w j)\<lparr>j_stage := Wait\<rparr>)"
  by (auto simp: job_wait_def dest!: rentry_insert_SomeD split: if_splits)

lemma job_init_attr_heap:
  assumes "job_init_attr mode j w = Some w'"
  shows "stage_of w j = Init" and "jw_rentry w' = jw_rentry w"
    and "\<exists>a. jw_job w' = (jw_job w)(j := (jw_job w j)\<lparr>j_attr := a\<rparr>)"
proof -
  show "\<exists>a. jw_job w' = (jw_job w)(j := (jw_job w j)\<lparr>j_attr := a\<rparr>)"
    by (rule exI [of _ "attr_of w' j"])
      (use assms in \<open>auto simp: job_init_attr_def Let_def split: if_splits\<close>)
qed (use assms in \<open>auto simp: job_init_attr_def Let_def split: if_splits\<close>)

lemma job_set_timer_heap:
  "\<exists>t. jw_job (job_set_timer U j w) = (jw_job w)(j := (jw_job w j)\<lparr>j_time_usec := t\<rparr>)"
  by (rule exI [of _ "j_time_usec (jw_job (job_set_timer U j w) j)"])
    (simp add: job_set_timer_def Let_def)

lemma job_timer_ops_heap [simp]:
  "jw_job (job_clear j w) = jw_job w"
  "jw_job (job_coldplug_trigger j w) = jw_job w"
  "jw_job (job_coldplug_suspend j w) = jw_job w"
  by (simp_all add: job_clear_def job_coldplug_trigger_def job_coldplug_suspend_def)

lemma job_merge_attr_heap:
  "job_merge_attr j k w = Some w' \<Longrightarrow>
     stage_of w j = Wait \<and> kind_of w j = kind_of w k \<and>
     jw_job w' = (jw_job w)(j := (jw_job w j)\<lparr>j_attr := job_attr_or (attr_of w j) (attr_of w k)\<rparr>)"
  by (auto simp: job_merge_attr_def dest!: rentry_insert_SomeD split: if_splits)

lemma job_run_heap:
  "job_run U j w = Some (ret, w') \<Longrightarrow>
     (stage_of w j = Wait \<or> stage_of w j = Running) \<and>
     jw_job w' = (jw_job w)(j := (jw_job w j)\<lparr>j_stage := Running\<rparr>)"
  by (auto simp: job_run_def job_enter_running_def Let_def dest!: rentry_insert_SomeD elim!: bind_SomeE
      split: if_splits)

text \<open>
  The run kind of a job is its kind, except that a restart runs as a stop first and as a start then.
\<close>

definition job_rkind_ok :: "job \<Rightarrow> bool" where
  "job_rkind_ok jb =
     (if j_kind jb = Restart then j_run_kind jb = Stop \<or> j_run_kind jb = Start
      else j_run_kind jb = j_kind jb)"

lemma job_rkind_ok_new [simp]: "job_rkind_ok (job_new i u k)"
  by (simp add: job_rkind_ok_def job_new_def)

lemma job_rkind_map_cases:
  "job_rkind_ok jb \<Longrightarrow> job_rkind_map (j_kind jb) (j_run_kind jb) =
     (if j_kind jb = Restart then Start else j_kind jb)"
  by (cases "j_kind jb") (auto simp: job_rkind_ok_def)

lemma job_finish_heap:
  assumes "job_finish r j w = Some (retry, w')" and "job_rkind_ok (jw_job w j)"
  shows "stage_of w j = Wait \<or> stage_of w j = Running"
    and "retry \<longleftrightarrow> r = Done \<and> kind_of w j = Restart \<and> j_run_kind (jw_job w j) = Stop"
    and "jw_job w' = (jw_job w)(j := if retry then (jw_job w j)\<lparr>j_run_kind := Start, j_stage := Running\<rparr>
                                     else (jw_job w j)\<lparr>j_stage := End r\<rparr>)"
  using assms job_rkind_map_cases [OF assms(2)]
  by (auto simp: job_finish_def job_update_runkind_def Let_def job_rkind_ok_def split: if_splits)

section \<open>The life cycle of a job\<close>

datatype job_phase = PInit | PWait | PRun job_kind | PEnd job_result

definition phase_of :: "job \<Rightarrow> job_phase" where
  "phase_of jb = (case j_stage jb of
      Init \<Rightarrow> PInit | Wait \<Rightarrow> PWait | Running \<Rightarrow> PRun (j_run_kind jb) | End r \<Rightarrow> PEnd r)"

inductive job_step :: "job_kind \<Rightarrow> job_phase \<Rightarrow> job_phase \<Rightarrow> bool" where
  step_wait: "job_step k PInit PWait"
| step_run: "job_step k PWait (PRun (job_rkind_new k))"
| step_half: "job_step Restart (PRun Stop) (PRun Start)"
| step_half_wait: "job_step Restart PWait (PRun Start)"
| step_end_wait: "job_step k PWait (PEnd r)"
| step_end: "job_step k (PRun rk) (PEnd r)"

inductive_simps job_step_simps [simp]:
  "job_step k PInit p" "job_step k PWait p" "job_step k (PRun rk) p" "job_step k (PEnd r) p"

text \<open>
  One use of a job by the engine. The stages \<open>Wait\<close> and \<open>Init\<close> still have the initial run kind.
\<close>

inductive job_op :: "'w unit_ops \<Rightarrow> job_id \<Rightarrow> 'w jworld \<Rightarrow> 'w jworld \<Rightarrow> bool" for U j where
  "job_set_timer U j w = w' \<Longrightarrow> job_op U j w w'"
| "job_clear j w = w' \<Longrightarrow> job_op U j w w'"
| "job_coldplug_trigger j w = w' \<Longrightarrow> job_op U j w w'"
| "job_coldplug_suspend j w = w' \<Longrightarrow> job_op U j w w'"
| "job_init_attr mode j w = Some w' \<Longrightarrow> job_op U j w w'"
| "job_merge_attr j other w = Some w' \<Longrightarrow> job_op U j w w'"
| "job_wait j w = Some w' \<Longrightarrow> job_op U j w w'"
| "job_run U j w = Some (ret, w') \<Longrightarrow> job_op U j w w'"
| "job_finish r j w = Some (retry, w') \<Longrightarrow> job_op U j w w'"

definition job_ok :: "job \<Rightarrow> bool" where
  "job_ok jb \<longleftrightarrow> job_rkind_ok jb \<and>
     (j_stage jb = Init \<or> j_stage jb = Wait \<longrightarrow> j_run_kind jb = job_rkind_new (j_kind jb))"

lemma job_ok_new: "job_ok (job_new i u k)"
  by (simp add: job_ok_def) (simp add: job_new_def)

text \<open>All that can happen to one job object, as a relation on the object.\<close>

inductive job_move :: "job \<Rightarrow> job \<Rightarrow> bool" where
  move_stay: "job_move jb jb"
| move_time: "job_move jb (jb\<lparr>j_time_usec := t\<rparr>)"
| move_attr: "j_stage jb = Init \<or> j_stage jb = Wait \<Longrightarrow> job_move jb (jb\<lparr>j_attr := a\<rparr>)"
| move_wait: "j_stage jb = Init \<Longrightarrow> job_move jb (jb\<lparr>j_stage := Wait\<rparr>)"
| move_run: "j_stage jb = Wait \<or> j_stage jb = Running \<Longrightarrow> job_move jb (jb\<lparr>j_stage := Running\<rparr>)"
| move_half: "j_stage jb = Wait \<or> j_stage jb = Running \<Longrightarrow> j_kind jb = Restart \<Longrightarrow> j_run_kind jb = Stop
    \<Longrightarrow> job_move jb (jb\<lparr>j_run_kind := Start, j_stage := Running\<rparr>)"
| move_end: "j_stage jb = Wait \<or> j_stage jb = Running \<Longrightarrow> job_move jb (jb\<lparr>j_stage := End r\<rparr>)"

lemma job_op_move:
  assumes "job_op U j w w'" and rk: "job_rkind_ok (jw_job w j)"
  shows "\<exists>jb. jw_job w' = (jw_job w)(j := jb) \<and> job_move (jw_job w j) jb"
  using assms(1)
proof cases
  case 1
  then show ?thesis using job_set_timer_heap [of U j w] by (auto intro: job_move.intros)
next
  case (5 mode)
  then show ?thesis using job_init_attr_heap [OF 5] by (auto intro: job_move.intros)
next
  case (6 other)
  then show ?thesis using job_merge_attr_heap [OF 6] by (auto intro: job_move.intros)
next
  case 7
  then show ?thesis using job_wait_heap [OF 7] by (auto intro: job_move.intros)
next
  case (8 ret)
  then show ?thesis using job_run_heap [OF 8] by (auto intro: job_move.intros)
next
  case (9 r retry)
  note f = job_finish_heap [OF 9 rk]
  show ?thesis
  proof (cases retry)
    case True
    then show ?thesis using f by (auto intro!: move_half)
  next
    case False
    then show ?thesis using f by (auto intro!: move_end)
  qed
qed (auto simp: fun_upd_triv intro: exI [of _ "jw_job w j"] job_move.intros)

lemma job_move_ok:
  "job_move jb jb' \<Longrightarrow> job_ok jb \<Longrightarrow> job_ok jb'"
  by (induction rule: job_move.induct) (simp_all add: job_ok_def job_rkind_ok_def split: if_splits)

lemma job_move_const:
  "job_move jb jb' \<Longrightarrow> j_id jb' = j_id jb \<and> j_unit jb' = j_unit jb \<and> j_kind jb' = j_kind jb"
  by (induction rule: job_move.induct) simp_all

lemma job_move_phase:
  "job_move jb jb' \<Longrightarrow> job_ok jb \<Longrightarrow>
     phase_of jb' = phase_of jb \<or> job_step (j_kind jb) (phase_of jb) (phase_of jb')"
  by (induction rule: job_move.induct) (auto simp: job_ok_def job_rkind_ok_def phase_of_def split: job_stage.splits)

text \<open>
  (C10) Refinement to the life cycle. Whatever operation the engine applies to a job, the job keeps its
  id, unit and kind, no other job changes, the run kind stays consistent with the kind and the stage,
  and the stage either stays or makes one step of \<open>job_step\<close>: \<open>Init\<close>, \<open>Wait\<close>, \<open>Running\<close> (a restart
  first as stop, then as start), \<open>End\<close>.
\<close>

theorem job_op_life_cycle:
  assumes "job_op U j w w'" and "job_ok (jw_job w j)"
  shows "job_ok (jw_job w' j) \<and> j_id (jw_job w' j) = j_id (jw_job w j) \<and>
    j_unit (jw_job w' j) = j_unit (jw_job w j) \<and> kind_of w' j = kind_of w j \<and>
    (\<forall>k. k \<noteq> j \<longrightarrow> jw_job w' k = jw_job w k) \<and>
    (phase_of (jw_job w' j) = phase_of (jw_job w j) \<or>
     job_step (kind_of w j) (phase_of (jw_job w j)) (phase_of (jw_job w' j)))"
proof -
  obtain jb where "jw_job w' = (jw_job w)(j := jb)" and "job_move (jw_job w j) jb"
    using job_op_move [OF assms(1)] assms(2) by (auto simp: job_ok_def)
  then show ?thesis
    using assms(2) job_move_ok job_move_const job_move_phase by fastforce
qed

definition demo_ops :: "(unit_id \<Rightarrow> unit_active_state) unit_ops" where
  "demo_ops = \<lparr>uo_active_state = (\<lambda>u w. w u), uo_load_state = (\<lambda>u w. LoadLoaded),
     uo_perpetual = (\<lambda>u w. False),
     uo_config = (\<lambda>u w. \<lparr>IgnoreOnIsolate = False, JobTimeoutSec = 0,
                         OnFailureJobMode = ModeReplace, OnSuccessJobMode = ModeReplace\<rparr>),
     uo_conditions_test = (\<lambda>u w. True), uo_asserts_test = (\<lambda>u w. True),
     uo_can_reload = (\<lambda>u w. True),
     uo_sub_start = (\<lambda>u w. (Inr (), [(u, w u, UnitActivating, 0)], w(u := UnitActivating))),
     uo_sub_stop = (\<lambda>u f w. (Inr (), [(u, w u, UnitDeActivating, 0)], w(u := UnitDeActivating))),
     uo_sub_reload = (\<lambda>u w. (Inl UnitActionEOpNotSupp, [], w))\<rparr>"

definition demo_world :: "(job_id \<Rightarrow> job) \<Rightarrow> (unit_id \<Rightarrow> unit_active_state) jworld" where
  "demo_world jobs = \<lparr>jw_job = jobs, jw_rentry = job_re_new, jw_timers = {}, jw_last_unit = None,
     jw_notes = [], jw_env = (\<lambda>u. UnitInActive)\<rparr>"

theorem job_op_life_cycle_witness:
  "\<exists>w'. job_op demo_ops 1 (demo_world (\<lambda>i. job_new i ''a'' Restart)) w' \<and>
     phase_of (jw_job w' 1) = PWait"
proof -
  let ?w = "demo_world (\<lambda>i. job_new i ''a'' Restart)"
  obtain w' where w': "job_wait 1 ?w = Some w'"
    by (simp add: job_wait_def rentry_suspends_insert_def suspends_insert_def demo_world_def
        job_new_def Let_def)
  then have op: "job_op demo_ops 1 ?w w'" by (rule job_op.intros)
  from job_op_life_cycle [OF op] have "job_step Restart PInit (phase_of (jw_job w' 1))"
    using job_wait_heap [OF w'] by (simp add: demo_world_def job_ok_new phase_of_def)
  with op show ?thesis by auto
qed

section \<open>Every life cycle ends\<close>

fun phase_rank :: "job_phase \<Rightarrow> nat" where
  "phase_rank PInit = 0"
| "phase_rank PWait = 1"
| "phase_rank (PRun k) = (if k = Stop then 2 else 3)"
| "phase_rank (PEnd r) = 4"

lemma job_step_rank: "job_step k p q \<Longrightarrow> phase_rank p < phase_rank q"
  by (induction rule: job_step.induct) (simp_all split: if_splits)

lemma job_steps_rank: "(job_step k ^^ n) p q \<Longrightarrow> phase_rank p + n \<le> phase_rank q"
proof (induction n arbitrary: q)
  case (Suc n)
  then obtain r where "(job_step k ^^ n) p r" "job_step k r q" by auto
  with Suc.IH [of r] job_step_rank [of k r q] show ?case by simp
qed simp

text \<open>
  A run of the engine on one job: the phases it goes through. Each entry of the list is the world
  after one operation on the job.
\<close>

inductive job_run_of :: "'w unit_ops \<Rightarrow> job_id \<Rightarrow> 'w jworld \<Rightarrow> 'w jworld list \<Rightarrow> bool" for U j where
  run_nil: "job_run_of U j w []"
| run_op: "job_op U j w w' \<Longrightarrow> job_run_of U j w' ws \<Longrightarrow> job_run_of U j w (w' # ws)"

fun phase_changes :: "job_id \<Rightarrow> 'w jworld \<Rightarrow> 'w jworld list \<Rightarrow> nat" where
  "phase_changes j w [] = 0"
| "phase_changes j w (w' # ws) =
     (if phase_of (jw_job w' j) = phase_of (jw_job w j) then 0 else 1) + phase_changes j w' ws"

lemma phase_rank_le: "phase_rank p \<le> 4"
  by (cases p) simp_all

lemma phase_changes_rank:
  "job_run_of U j w ws \<Longrightarrow> job_ok (jw_job w j) \<Longrightarrow>
     phase_rank (phase_of (jw_job w j)) + phase_changes j w ws \<le> 4"
proof (induction rule: job_run_of.induct)
  case (run_nil w)
  then show ?case by (simp add: phase_rank_le)
next
  case (run_op w w' ws)
  from job_op_move [OF run_op.hyps(1)] run_op.prems
  have "job_move (jw_job w j) (jw_job w' j)" by (auto simp: job_ok_def)
  with run_op job_move_ok job_move_phase job_step_rank show ?case by fastforce
qed

text \<open>
  Termination of the life cycle. In any sequence of operations on a job that starts with a fresh
  job, the phase changes at most four times, and a job that has ended does not change phase again.
\<close>

theorem job_life_cycle_bounded:
  assumes "job_run_of U j w ws" and "job_ok (jw_job w j)"
  shows "phase_changes j w ws \<le> 4 \<and>
    (stage_of w j = End r \<longrightarrow> phase_changes j w ws = 0)"
  using phase_changes_rank [OF assms] by (auto simp: phase_of_def)

theorem job_life_cycle_bounded_witness:
  "\<exists>w'. job_run_of demo_ops 1 (demo_world (\<lambda>i. job_new i ''a'' Start)) [w'] \<and>
     phase_changes 1 (demo_world (\<lambda>i. job_new i ''a'' Start)) [w'] \<le> 4"
proof -
  let ?w = "demo_world (\<lambda>i. job_new i ''a'' Start)"
  have "job_run_of demo_ops 1 ?w [job_clear 1 ?w]"
    by (auto intro!: job_run_of.intros job_op.intros(2))
  moreover have "job_ok (jw_job ?w 1)" by (simp add: demo_world_def job_ok_new)
  ultimately show ?thesis using job_life_cycle_bounded by blast
qed

section \<open>Recovery: the tables describe the waiting and the running jobs\<close>

definition job_recoverable :: "'w jworld \<Rightarrow> job_id \<Rightarrow> bool" where
  "job_recoverable w j \<longleftrightarrow>
     (stage_of w j = Wait \<longrightarrow>
        suspends_get (jw_rentry w) (j_unit (jw_job w j)) (kind_of w j) = Some (attr_of w j)) \<and>
     (stage_of w j = Running \<longrightarrow>
        trigger_get (jw_rentry w) (j_unit (jw_job w j)) = Some (kind_of w j, attr_of w j))"

definition tables_live :: "job_re \<Rightarrow> bool" where
  "tables_live re \<longleftrightarrow> \<not> rd_ignore (re_trigger re) \<and> \<not> rd_ignore (re_suspends re)"

lemmas rentry_defs = rentry_suspends_insert_def suspends_insert_def rentry_trigger_insert_def
  trigger_insert_def rentry_suspends_remove_def suspends_remove_def rentry_trigger_remove_def
  trigger_remove_def suspends_get_def trigger_get_def

lemma job_run_rentry:
  assumes "job_run U j w = Some (ret, w')" and "tables_live (jw_rentry w)"
  shows "tables_live (jw_rentry w')"
    and "stage_of w j = Running \<Longrightarrow> jw_rentry w' = jw_rentry w"
    and "stage_of w j = Wait \<Longrightarrow>
      trigger_get (jw_rentry w') (j_unit (jw_job w j)) = Some (kind_of w j, attr_of w j) \<and>
      suspends_get (jw_rentry w') (j_unit (jw_job w j)) (kind_of w j) = None"
  using assms
  by (auto simp: job_run_def job_enter_running_def Let_def rentry_defs tables_live_def elim!: bind_SomeE
      split: if_splits)

lemma job_wait_rentry:
  assumes "job_wait j w = Some w'" and "tables_live (jw_rentry w)"
  shows "tables_live (jw_rentry w')"
    and "suspends_get (jw_rentry w') (j_unit (jw_job w j)) (kind_of w j) = Some (attr_of w j)"
  using assms
  by (auto simp: job_wait_def Let_def rentry_defs tables_live_def split: if_splits)

lemma job_merge_attr_rentry:
  assumes "job_merge_attr j k w = Some w'" and "tables_live (jw_rentry w)"
  shows "tables_live (jw_rentry w')"
    and "suspends_get (jw_rentry w') (j_unit (jw_job w j)) (kind_of w j)
         = Some (job_attr_or (attr_of w j) (attr_of w k))"
  using assms
  by (auto simp: job_merge_attr_def Let_def rentry_defs tables_live_def split: if_splits)

lemma job_finish_rentry:
  assumes "job_finish r j w = Some (retry, w')"
  shows "retry \<Longrightarrow> jw_rentry w' = jw_rentry w"
    and "tables_live (jw_rentry w) \<Longrightarrow> tables_live (jw_rentry w')"
    and "tables_live (jw_rentry w) \<Longrightarrow> \<not> retry \<Longrightarrow> stage_of w j = Running \<Longrightarrow>
      trigger_get (jw_rentry w') (j_unit (jw_job w j)) = None"
    and "tables_live (jw_rentry w) \<Longrightarrow> \<not> retry \<Longrightarrow> stage_of w j = Wait \<Longrightarrow>
      suspends_get (jw_rentry w') (j_unit (jw_job w j)) (kind_of w j) = None"
  using assms
  by (auto simp: job_finish_def job_update_runkind_def Let_def rentry_defs tables_live_def
      split: if_splits)

text \<open>
  The engine ends a waiting job with another result than \<open>Done\<close>; \<open>finish(Done)\<close> on a waiting restart
  would leave it running without an entry in the table of running jobs.
\<close>

inductive job_live_op :: "'w unit_ops \<Rightarrow> job_id \<Rightarrow> 'w jworld \<Rightarrow> 'w jworld \<Rightarrow> bool" for U j where
  "job_init_attr mode j w = Some w' \<Longrightarrow> job_live_op U j w w'"
| "job_merge_attr j other w = Some w' \<Longrightarrow> job_live_op U j w w'"
| "job_wait j w = Some w' \<Longrightarrow> job_live_op U j w w'"
| "job_run U j w = Some (ret, w') \<Longrightarrow> job_live_op U j w w'"
| "job_finish r j w = Some (retry, w') \<Longrightarrow> stage_of w j = Running \<or> r \<noteq> Done \<Longrightarrow> job_live_op U j w w'"

lemma job_live_op_recoverable:
  assumes "job_live_op U j w w'" and "job_rkind_ok (jw_job w j)" and "tables_live (jw_rentry w)"
    and "job_recoverable w j"
  shows "job_recoverable w' j"
  using assms(1)
proof cases
  case (1 mode)
  then show ?thesis using job_init_attr_heap [OF 1] by (auto simp: job_recoverable_def)
next
  case (2 other)
  then show ?thesis using job_merge_attr_heap [OF 2] job_merge_attr_rentry [OF 2 assms(3)]
    by (simp add: job_recoverable_def)
next
  case 3
  then show ?thesis using job_wait_heap [OF 3] job_wait_rentry [OF 3 assms(3)]
    by (simp add: job_recoverable_def)
next
  case (4 ret)
  then show ?thesis using job_run_heap [OF 4] job_run_rentry [OF 4 assms(3)] assms(4)
    by (auto simp: job_recoverable_def)
next
  case (5 r retry)
  then show ?thesis
    using job_finish_heap [OF 5(1) assms(2)] job_finish_rentry(1) [OF 5(1)] assms(4)
    by (cases retry) (auto simp: job_recoverable_def)
qed

lemma rentry_map_running:
  assumes "job_recoverable w j" and "stage_of w j = Running" and "jw_rentry v = jw_rentry w"
    and "jw_job v i = job_new i (j_unit (jw_job w j)) (kind_of w j)"
  shows "\<exists>v'. rentry_map_trigger i v = Some v' \<and>
    jw_job v' i = (jw_job v i)\<lparr>j_stage := Running, j_attr := attr_of w j\<rparr>"
  using assms by (simp add: rentry_map_trigger_def job_recoverable_def job_new_def)

lemma rentry_map_waiting:
  assumes "job_recoverable w j" and "stage_of w j = Wait" and "jw_rentry v = jw_rentry w"
    and "jw_job v i = job_new i (j_unit (jw_job w j)) (kind_of w j)"
  shows "\<exists>v'. rentry_map_suspend i v = Some v' \<and>
    jw_job v' i = (jw_job v i)\<lparr>j_stage := Wait, j_attr := attr_of w j\<rparr>"
  using assms by (simp add: rentry_map_suspend_def job_recoverable_def job_new_def)

text \<open>
  (C11) Recovery round trip. After any operation the engine applies to a job whose table entry is up to
  date, the tables again determine it: a restarted manager that allocates a fresh job for the same
  unit and kind and maps it from the tables gets a job with the same stage and attributes. (The run
  kind is the initial one: a restart caught in its start half begins again with the stop half.)
\<close>

theorem job_recovery_roundtrip:
  assumes "job_live_op U j w w'" and "job_ok (jw_job w j)" and "tables_live (jw_rentry w)"
    and "job_recoverable w j"
    and "jw_rentry v = jw_rentry w'" and "jw_job v i = job_new i (j_unit (jw_job w' j)) (kind_of w' j)"
  shows "(stage_of w' j = Running \<longrightarrow> (\<exists>v'. rentry_map_trigger i v = Some v' \<and>
      jw_job v' i = (jw_job v i)\<lparr>j_stage := Running, j_attr := attr_of w' j\<rparr>)) \<and>
    (stage_of w' j = Wait \<longrightarrow> (\<exists>v'. rentry_map_suspend i v = Some v' \<and>
      jw_job v' i = (jw_job v i)\<lparr>j_stage := Wait, j_attr := attr_of w' j\<rparr>))"
proof -
  have "job_recoverable w' j"
    using job_live_op_recoverable assms by (auto simp: job_ok_def)
  then show ?thesis
    using rentry_map_running rentry_map_waiting assms(5,6) by blast
qed

theorem job_recovery_roundtrip_witness:
  "\<exists>w'. job_wait 1 (demo_world (\<lambda>i. job_new i ''a'' Restart)) = Some w' \<and>
     (\<exists>v'. rentry_map_suspend 2 (w'\<lparr>jw_job := (jw_job w')(2 := job_new 2 ''a'' Restart)\<rparr>) = Some v' \<and>
       stage_of v' 2 = Wait \<and> attr_of v' 2 = attr_of w' 1)"
proof -
  let ?w = "demo_world (\<lambda>i. job_new i ''a'' Restart)"
  obtain w' where w': "job_wait 1 ?w = Some w'"
    by (simp add: job_wait_def rentry_defs demo_world_def job_new_def Let_def)
  note h = job_wait_heap [OF w']
  let ?v = "w'\<lparr>jw_job := (jw_job w')(2 := job_new 2 ''a'' Restart)\<rparr>"
  have "job_live_op demo_ops 1 ?w w'" using w' by (rule job_live_op.intros)
  moreover have "job_ok (jw_job ?w 1)" "job_recoverable ?w 1" "tables_live (jw_rentry ?w)"
    by (simp_all add: demo_world_def job_ok_def job_rkind_ok_def tables_live_def job_re_new_def
        redb_new_def job_recoverable_def job_new_def)
  moreover have "jw_job ?v 2 = job_new 2 (j_unit (jw_job w' 1)) (kind_of w' 1)"
    using h by (simp add: demo_world_def) (simp add: job_new_def)
  ultimately have "\<exists>v'. rentry_map_suspend 2 ?v = Some v' \<and>
      jw_job v' 2 = (jw_job ?v 2)\<lparr>j_stage := Wait, j_attr := attr_of w' 1\<rparr>"
    using job_recovery_roundtrip [of demo_ops 1 ?w w' ?v 2] h by simp
  then show ?thesis using w' by auto
qed

section \<open>Restart\<close>

text \<open>
  A running restart is over after two successful halves: the first \<open>Done\<close> turns it from stop to
  start and asks for another run, the second one ends it; any other result ends it at once.
\<close>

theorem restart_two_halves:
  assumes "stage_of w j = Running" and "kind_of w j = Restart" and "j_run_kind (jw_job w j) = Stop"
  shows "(\<exists>w1 w2. job_finish Done j w = Some (True, w1) \<and> stage_of w1 j = Running \<and>
            j_run_kind (jw_job w1 j) = Start \<and>
            job_finish Done j w1 = Some (False, w2) \<and> stage_of w2 j = End Done) \<and>
         (r \<noteq> Done \<longrightarrow> (\<exists>w1. job_finish r j w = Some (False, w1) \<and> stage_of w1 j = End r))"
  using assms by (simp add: job_finish_def job_update_runkind_def Let_def)

theorem restart_two_halves_witness:
  "\<exists>w1. job_finish Done 7
      (demo_world (\<lambda>i. (job_new i ''a'' Restart)\<lparr>j_stage := Running\<rparr>)) = Some (True, w1) \<and>
     j_run_kind (jw_job w1 7) = Start"
  using restart_two_halves [of "demo_world (\<lambda>i. (job_new i ''a'' Restart)\<lparr>j_stage := Running\<rparr>)" 7 Failed]
  by (auto simp: demo_world_def job_new_def)

section \<open>Ordering of two jobs\<close>

lemma job_order_compare_Before:
  "rk_a \<noteq> Nop \<Longrightarrow> rk_b \<noteq> Nop \<Longrightarrow>
     job_order_compare rk_a rk_b UnitAtomBefore = (if rk_b = Stop then 1 else - 1)"
  by (simp add: job_order_compare.simps)

lemma job_order_compare_After:
  "rk_a \<noteq> Nop \<Longrightarrow> rk_b \<noteq> Nop \<Longrightarrow>
     job_order_compare rk_a rk_b UnitAtomAfter = (if rk_a = Stop then - 1 else 1)"
  by (subst job_order_compare.simps) (simp add: job_order_compare_Before)

lemma job_order_compare_Nop [simp]:
  "job_order_compare Nop rk atom = 0" "job_order_compare rk Nop atom = 0"
  by (simp_all add: job_order_compare.simps)

text \<open>
  Ordering. Let the unit of job \<open>a\<close> be ordered after the unit of job \<open>b\<close>, so that \<open>a\<close> is asked with
  \<open>UnitAtomAfter\<close> and \<open>b\<close> with \<open>UnitAtomBefore\<close>. A positive answer means "wait". If neither job
  ignores order and neither runs as \<open>Nop\<close>, exactly one of them waits: \<open>b\<close> when \<open>a\<close> is stopping
  (shutdown in reverse order), otherwise \<open>a\<close>. So the pair never blocks itself and never runs
  unordered.
\<close>

theorem ordered_jobs_exactly_one_waits:
  assumes "\<not> ignore_order (attr_of w a)" and "\<not> ignore_order (attr_of w b)"
    and "j_run_kind (jw_job w a) \<noteq> Nop" and "j_run_kind (jw_job w b) \<noteq> Nop"
  shows "\<exists>x y. job_is_order_with w a b UnitAtomAfter = Some x \<and>
    job_is_order_with w b a UnitAtomBefore = Some y \<and>
    (x > 0 \<longleftrightarrow> j_run_kind (jw_job w a) \<noteq> Stop) \<and> (y > 0 \<longleftrightarrow> j_run_kind (jw_job w a) = Stop)"
  using assms by (simp add: job_is_order_with_def job_order_compare_Before job_order_compare_After)

theorem ordered_jobs_exactly_one_waits_witness:
  "job_is_order_with (demo_world (\<lambda>i. job_new i ''a'' (if i = 1 then Start else Stop))) 1 2
     UnitAtomAfter = Some 1"
proof -
  let ?w = "demo_world (\<lambda>i. job_new i ''a'' (if i = 1 then Start else Stop))"
  have "job_order_compare Start Stop UnitAtomAfter = 1" by (simp add: job_order_compare_After)
  then show ?thesis
    using ordered_jobs_exactly_one_waits [of ?w 1 2]
    by (auto simp: demo_world_def job_new_def job_attr_new_def job_is_order_with_def)
qed

section \<open>No panic when a job runs\<close>

lemma job_trigger_unit_total:
  assumes "rk \<in> {Start, Stop, Reload, Verify, Nop}"
  shows "job_trigger_unit U u rk f w \<noteq> None"
  using assms by (cases rk) (simp_all add: job_trigger_unit_def split_beta)

lemma run_kind_runnable:
  "job_ok jb \<Longrightarrow> job_is_basic_op (j_kind jb) \<Longrightarrow> j_run_kind jb \<in> {Start, Stop, Reload, Verify, Nop}"
  by (cases "j_kind jb") (auto simp: job_ok_def job_rkind_ok_def)

lemma job_enter_running_total:
  assumes "stage_of w j = Wait \<or> stage_of w j = Running" and "job_is_basic_op (kind_of w j)"
  shows "\<exists>w1. job_enter_running j w = Some w1 \<and> jw_job w1 = (jw_job w)(j := (jw_job w j)\<lparr>j_stage := Running\<rparr>)"
  using assms
  by (auto simp: job_enter_running_def rentry_trigger_insert_def trigger_insert_def Let_def)

lemma job_run_total:
  assumes "stage_of w j = Wait \<or> stage_of w j = Running" and "job_ok (jw_job w j)"
    and "job_is_basic_op (kind_of w j)"
  shows "\<exists>ret w'. job_run U j w = Some (ret, w')"
proof -
  obtain w1 where w1: "job_enter_running j w = Some w1"
    "jw_job w1 = (jw_job w)(j := (jw_job w j)\<lparr>j_stage := Running\<rparr>)"
    using job_enter_running_total [OF assms(1,3)] by blast
  obtain res where "job_trigger_unit U (j_unit (jw_job w1 j)) (j_run_kind (jw_job w1 j))
      (force (attr_of w1 j)) (jw_env w1) = Some res"
    using job_trigger_unit_total run_kind_runnable [OF assms(2,3)] w1(2) by fastforce
  with w1(1) show ?thesis by (cases res) (auto simp: job_run_def)
qed

end
