(* ===== verification/Job_Alloc.thy ===== *)
theory Job_Alloc
  imports Job_Entry
begin

text \<open>
  The allocator of jobs, \<^verbatim>\<open>core/bin/job/alloc.rs\<close>. Ids are \<open>u32\<close> values; the search for the next one
  is an endless \<open>loop\<close> in the code, hence a \<open>partial_function\<close>: \<open>None\<close> is a loop that does not end. The
  lemmas show that it ends exactly when some id is left, that the id it returns is the first free
  one after the last, and that an allocation overwrites no job that is in use.
\<close>

section \<open>State and operations\<close>

record job_alloc =
  al_ids :: "job_id set"
  al_last_id :: job_id

definition job_alloc_new :: job_alloc where
  "job_alloc_new = \<lparr>al_ids = {}, al_last_id = 0\<rparr>"

definition job_alloc_clear :: "job_alloc \<Rightarrow> job_alloc" where
  "job_alloc_clear a = a\<lparr>al_ids := {}, al_last_id := 0\<rparr>"

partial_function (option) alloc_id :: "job_alloc \<Rightarrow> (job_id \<times> job_alloc) option" where
  "alloc_id a =
     (let i = al_last_id a + 1; a1 = a\<lparr>al_last_id := i\<rparr> in
      if i \<in> al_ids a then alloc_id a1
      else Some (i, a1\<lparr>al_ids := insert i (al_ids a)\<rparr>))"

definition alloc_job ::
  "'w unit_ops \<Rightarrow> job_conf \<Rightarrow> job_alloc \<times> 'w jworld \<Rightarrow> (job_id \<times> job_alloc \<times> 'w jworld) option" where
  "alloc_job U conf s = do {
     (i, a) \<leftarrow> alloc_id (fst s);
     let w = upd_job i (\<lambda>_. job_new i (fst conf) (snd conf)) (snd s);
     Some (i, a, job_set_timer U i w) }"

section \<open>The search for an id\<close>

lemma alloc_id_step:
  "al_last_id a + 1 \<in> al_ids a \<Longrightarrow> alloc_id a = alloc_id (a\<lparr>al_last_id := al_last_id a + 1\<rparr>)"
  "al_last_id a + 1 \<notin> al_ids a \<Longrightarrow> alloc_id a =
     Some (al_last_id a + 1, a\<lparr>al_last_id := al_last_id a + 1, al_ids := insert (al_last_id a + 1) (al_ids a)\<rparr>)"
  by (subst alloc_id.simps; simp add: Let_def)+

lemma alloc_id_finds:
  assumes "\<And>m. m < n \<Longrightarrow> al_last_id a + 1 + of_nat m \<in> al_ids a"
    and "al_last_id a + 1 + of_nat n \<notin> al_ids a"
  shows "alloc_id a = Some (al_last_id a + 1 + of_nat n,
    a\<lparr>al_last_id := al_last_id a + 1 + of_nat n, al_ids := insert (al_last_id a + 1 + of_nat n) (al_ids a)\<rparr>)"
  using assms
proof (induction n arbitrary: a)
  case 0
  then show ?case by (simp add: alloc_id_step(2))
next
  case (Suc n)
  let ?a = "a\<lparr>al_last_id := al_last_id a + 1\<rparr>"
  have "al_last_id a + 1 \<in> al_ids a" using Suc.prems(1) [of 0] by simp
  then have "alloc_id a = alloc_id ?a" by (rule alloc_id_step)
  moreover have "al_last_id ?a + 1 + of_nat m \<in> al_ids ?a" if "m < n" for m
    using Suc.prems(1) [of "Suc m"] that by (simp add: ac_simps)
  ultimately show ?case using Suc.IH [of ?a] Suc.prems(2) by (simp add: ac_simps)
qed

lemma word_reaches: "\<exists>n. (i :: 'a::len word) = k + of_nat n"
  by (rule exI [of _ "unat (i - k)"]) simp

lemma alloc_id_total:
  assumes "al_ids a \<noteq> UNIV"
  shows "\<exists>n. (\<forall>m < n. al_last_id a + 1 + of_nat m \<in> al_ids a) \<and>
    al_last_id a + 1 + of_nat n \<notin> al_ids a"
proof -
  obtain i where "i \<notin> al_ids a" using assms by blast
  moreover obtain k where "i = al_last_id a + 1 + of_nat k" using word_reaches by blast
  ultimately show ?thesis
    using exists_least_iff [of "\<lambda>n. al_last_id a + 1 + of_nat n \<notin> al_ids a"] by auto
qed

lemma alloc_id_Some: "al_ids a \<noteq> UNIV \<Longrightarrow> \<exists>i a'. alloc_id a = Some (i, a')"
  using alloc_id_total [of a] alloc_id_finds [of _ a] by blast

lemma alloc_id_result:
  assumes "alloc_id a = Some r"
  shows "al_ids a \<noteq> UNIV"
proof (rule alloc_id.raw_induct [where P = "\<lambda>a r. al_ids a \<noteq> UNIV", OF _ assms])
  fix f :: "job_alloc \<Rightarrow> (job_id \<times> job_alloc) option" and a r
  assume "\<And>a r. f a = Some r \<Longrightarrow> al_ids a \<noteq> UNIV"
    and "(let i = al_last_id a + 1; a1 = a\<lparr>al_last_id := i\<rparr> in
      if i \<in> al_ids a then f a1 else Some (i, a1\<lparr>al_ids := insert i (al_ids a)\<rparr>)) = Some r"
  then show "al_ids a \<noteq> UNIV" by (fastforce simp: Let_def split: if_splits)
qed

lemma alloc_id_SomeD:
  assumes "alloc_id a = Some (i, a')"
  shows "i \<notin> al_ids a" and "al_ids a' = insert i (al_ids a)" and "al_last_id a' = i"
proof -
  obtain n where n: "\<forall>m < n. al_last_id a + 1 + of_nat m \<in> al_ids a"
    "al_last_id a + 1 + of_nat n \<notin> al_ids a"
    using alloc_id_total alloc_id_result [OF assms] by blast
  with alloc_id_finds [of n a] assms
  show "i \<notin> al_ids a" and "al_ids a' = insert i (al_ids a)" and "al_last_id a' = i" by auto
qed

lemma alloc_job_SomeD:
  assumes "alloc_job U conf (a, w) = Some (i, a', w')"
  shows "i \<notin> al_ids a" and "al_ids a' = insert i (al_ids a)"
    and "k \<noteq> i \<Longrightarrow> jw_job w' k = jw_job w k"
    and "\<exists>t. jw_job w' i = (job_new i (fst conf) (snd conf))\<lparr>j_time_usec := t\<rparr>"
    and "jw_rentry w' = jw_rentry w" and "jw_env w' = jw_env w" and "jw_notes w' = jw_notes w"
    and "jw_timers w' = jw_timers w"
proof -
  from assms obtain v where r: "alloc_id a = Some (i, a')"
    and v: "v = upd_job i (\<lambda>_. job_new i (fst conf) (snd conf)) w" "w' = job_set_timer U i v"
    by (auto simp: alloc_job_def Let_def elim: bind_SomeE)
  show "i \<notin> al_ids a" and "al_ids a' = insert i (al_ids a)" using alloc_id_SomeD [OF r] by auto
  obtain t where "jw_job w' = (jw_job v)(i := (jw_job v i)\<lparr>j_time_usec := t\<rparr>)"
    using job_set_timer_heap v(2) by metis
  then show "k \<noteq> i \<Longrightarrow> jw_job w' k = jw_job w k"
    and "\<exists>t. jw_job w' i = (job_new i (fst conf) (snd conf))\<lparr>j_time_usec := t\<rparr>"
    using v(1) by auto
  show "jw_rentry w' = jw_rentry w" and "jw_env w' = jw_env w" and "jw_notes w' = jw_notes w"
    and "jw_timers w' = jw_timers w"
    using v by (simp_all add: job_set_timer_def Let_def)
qed

text \<open>
  Termination and freshness of ids. The search returns if and only if not all \<open>2 ^ 32\<close> ids are
  taken; then it returns the first free id after the last one (counting with wrap-around) and records
  it. Ids are never given back, so after \<open>2 ^ 32\<close> allocations the next one loops for ever.
\<close>

theorem alloc_id_terminates_iff:
  "(\<exists>i a'. alloc_id a = Some (i, a')) \<longleftrightarrow> al_ids a \<noteq> UNIV"
proof
  show "al_ids a \<noteq> UNIV" if "\<exists>i a'. alloc_id a = Some (i, a')"
    using that alloc_id_result by blast
qed (rule alloc_id_Some)

text \<open>
  Allocation. A job that is allocated gets an id that no earlier allocation returned, starts in
  stage \<open>Init\<close> with the unit and kind of its configuration and no attribute set, and no other job, no
  table and no timer changes.
\<close>

theorem alloc_job_fresh:
  assumes "alloc_job U conf (a, w) = Some (i, a', w')"
  shows "i \<notin> al_ids a \<and> al_ids a' = insert i (al_ids a) \<and> j_id (jw_job w' i) = i \<and>
    phase_of (jw_job w' i) = PInit \<and> j_unit (jw_job w' i) = fst conf \<and> kind_of w' i = snd conf \<and>
    attr_of w' i = job_attr_new False False False False \<and> job_ok (jw_job w' i) \<and>
    (\<forall>k. k \<noteq> i \<longrightarrow> jw_job w' k = jw_job w k) \<and> jw_rentry w' = jw_rentry w \<and>
    jw_timers w' = jw_timers w"
  using alloc_job_SomeD [OF assms] by (auto simp: job_new_def phase_of_def job_ok_def job_rkind_ok_def)

theorem alloc_job_fresh_witness:
  "\<exists>i a' w'. alloc_job demo_ops (''a'', Stop) (job_alloc_new, demo_world (\<lambda>i. job_new i ''z'' Start))
     = Some (i, a', w') \<and> j_unit (jw_job w' i) = ''a''"
proof -
  have "alloc_id job_alloc_new = Some (1, \<lparr>al_ids = {1}, al_last_id = 1\<rparr>)"
    by (simp add: alloc_id_step(2) job_alloc_new_def)
  then obtain i a' w' where
    "alloc_job demo_ops (''a'', Stop) (job_alloc_new, demo_world (\<lambda>i. job_new i ''z'' Start))
     = Some (i, a', w')"
    by (simp add: alloc_job_def Let_def)
  with alloc_job_fresh [OF this] show ?thesis by auto
qed

end
