(* ===== verification/Job_Unit.thy ===== *)
theory Job_Unit
  imports Job_Alloc
begin

text \<open>
  All jobs of one unit, \<^verbatim>\<open>core/bin/job/junit.rs\<close>: at most one suspended job per kind, at most one
  triggered job, the ordered queue \<open>sq\<close> of what is to be triggered next, and the flags that decide
  whether the entry is ready. The operations that also finish, start or merge jobs take and return
  the world of jobs. \<open>suspends\<close> is a hash map, so the lemmas hold for every order of its entries.
\<close>

section \<open>State\<close>

record job_unit =
  ju_unit :: unit_id
  ju_suspends :: "(job_kind \<times> job_id) list"
  ju_trigger :: "job_id option"
  ju_order :: bool
  ju_sq :: "job_id list"
  ju_interrupt :: bool
  ju_retrigger :: bool
  ju_dirty :: bool
  ju_pause :: bool
  ju_ready :: bool
  ju_up_ready :: bool

definition JOBUNIT_SQ_MUTOP_MAX_NUM :: nat where "JOBUNIT_SQ_MUTOP_MAX_NUM = 1"
definition JOBUNIT_SQ_MAX_NUM :: nat where "JOBUNIT_SQ_MAX_NUM = 3"

definition job_unit_new :: "unit_id \<Rightarrow> job_unit" where
  "job_unit_new u = \<lparr>ju_unit = u, ju_suspends = [], ju_trigger = None, ju_order = True, ju_sq = [],
     ju_interrupt = False, ju_retrigger = False, ju_dirty = False, ju_pause = False,
     ju_ready = False, ju_up_ready = False\<rparr>"

section \<open>Readiness\<close>

text \<open>
  The inner value is the code's \<open>Option<bool>\<close>: \<open>Some True\<close>, the first suspended job is next;
  \<open>Some False\<close>, the triggered one is to be triggered again; \<open>None\<close>, not ready. The outer \<open>None\<close> is
  a failed assertion.
\<close>

definition calc_natural_ready_ts :: "job_unit \<Rightarrow> bool option option" where
  "calc_natural_ready_ts ju =
     (case (ju_interrupt ju, ju_retrigger ju) of
        (True, _) \<Rightarrow> Some (Some True)
      | (False, True) \<Rightarrow> Some (Some False)
      | (False, False) \<Rightarrow> Some None)"

definition calc_natural_ready_t :: "job_unit \<Rightarrow> bool option option" where
  "calc_natural_ready_t ju = do {
     rust_assert (\<not> ju_interrupt ju);
     Some (if ju_retrigger ju then Some False else None) }"

definition calc_natural_ready_s :: "job_unit \<Rightarrow> bool option option" where
  "calc_natural_ready_s ju = do { rust_assert (\<not> ju_interrupt ju); Some (Some True) }"

definition calc_natural_ready :: "job_unit \<Rightarrow> bool option option" where
  "calc_natural_ready ju =
     (if ju_order ju then
        (case (ju_trigger ju \<noteq> None, ju_sq ju \<noteq> []) of
           (True, True) \<Rightarrow> calc_natural_ready_ts ju
         | (True, False) \<Rightarrow> calc_natural_ready_t ju
         | (False, True) \<Rightarrow> calc_natural_ready_s ju
         | (False, False) \<Rightarrow> Some None)
      else Some None)"

definition calc_ready :: "job_unit \<Rightarrow> bool option option" where
  "calc_ready ju = (if \<not> ju_pause ju then calc_natural_ready ju else Some None)"

definition update_ready :: "job_unit \<Rightarrow> job_unit option" where
  "update_ready ju = do { r \<leftarrow> calc_ready ju; Some (ju\<lparr>ju_ready := (r \<noteq> None)\<rparr>) }"

section \<open>Queries\<close>

definition is_trigger :: "job_unit \<Rightarrow> job_id \<Rightarrow> bool" where
  "is_trigger ju j = (case ju_trigger ju of Some t \<Rightarrow> t = j | None \<Rightarrow> False)"

definition has_suspend :: "job_unit \<Rightarrow> job_kind \<Rightarrow> bool" where
  "has_suspend ju k = (map_of (ju_suspends ju) k \<noteq> None)"

definition suspends_kind_len :: "job_unit \<Rightarrow> job_kind \<Rightarrow> nat" where
  "suspends_kind_len ju k = (if has_suspend ju k then 1 else 0)"

definition ju_len :: "job_unit \<Rightarrow> nat" where
  "ju_len ju = (if ju_trigger ju \<noteq> None then 1 else 0) + length (ju_suspends ju)"

definition get_suspend :: "job_unit \<Rightarrow> job_kind \<Rightarrow> job_id option" where
  "get_suspend ju k = map_of (ju_suspends ju) k"

definition get_suspends :: "job_unit \<Rightarrow> job_id list" where
  "get_suspends ju = map snd (ju_suspends ju)"

definition ju_is_empty :: "job_unit \<Rightarrow> bool" where
  "ju_is_empty ju = (ju_trigger ju = None \<and> ju_suspends ju = [])"

definition num_others :: "job_unit \<Rightarrow> nat" where
  "num_others ju =
     length (ju_suspends ju) - suspends_kind_len ju Stop - suspends_kind_len ju Nop"

definition is_suspends_conflict :: "job_unit \<Rightarrow> bool" where
  "is_suspends_conflict ju = (suspends_kind_len ju Stop > 0 \<and> num_others ju > 0)"

definition is_suspends_conflict_with :: "job_unit \<Rightarrow> job_unit \<Rightarrow> bool" where
  "is_suspends_conflict_with ju ou =
     (suspends_kind_len ju Stop + suspends_kind_len ou Stop > 0 \<and> num_others ju + num_others ou > 0)"

definition is_suspends_irreversible :: "'w jworld \<Rightarrow> job_unit \<Rightarrow> bool" where
  "is_suspends_irreversible w ju = list_ex (\<lambda>(_, j). irreversible (attr_of w j)) (ju_suspends ju)"

definition is_suspends_replace_with :: "'w jworld \<Rightarrow> job_unit \<Rightarrow> job_unit \<Rightarrow> bool option" where
  "is_suspends_replace_with w ju ou = do {
     rust_assert (\<not> is_suspends_conflict ju \<and> \<not> is_suspends_conflict ou);
     let stop_s = suspends_kind_len ju Stop;
     let others_s = num_others ju;
     let stop_o = suspends_kind_len ou Stop;
     let others_o = num_others ou;
     Some (if others_s > 0 \<and> stop_o > 0 then \<not> is_suspends_irreversible w ju
           else if stop_s > 0 \<and> others_o > 0 then \<not> is_suspends_irreversible w ju
           else True) }"

definition get_next_trigger_retrigger :: "job_unit \<Rightarrow> job_id option" where
  "get_next_trigger_retrigger ju = do {
     rust_assert (ju_trigger ju \<noteq> None \<and> ju_retrigger ju);
     ju_trigger ju }"

definition get_next_trigger_suspend :: "job_unit \<Rightarrow> job_id option" where
  "get_next_trigger_suspend ju = (case ju_sq ju of [] \<Rightarrow> None | j # _ \<Rightarrow> Some j)"

definition get_next_trigger :: "job_unit \<Rightarrow> job_id option" where
  "get_next_trigger ju = do {
     r \<leftarrow> calc_ready ju;
     s \<leftarrow> r;
     if s then get_next_trigger_suspend ju else get_next_trigger_retrigger ju }"

text \<open>The loop over the jobs of the other unit stops at the first one that is to go first.\<close>

fun order_scan :: "'w jworld \<Rightarrow> job_id \<Rightarrow> unit_relation_atom \<Rightarrow> job_id list \<Rightarrow> bool option" where
  "order_scan w j atom [] = Some True"
| "order_scan w j atom (other # others) = do {
     ord \<leftarrow> job_is_order_with w j other atom;
     if ord > 0 then Some False else order_scan w j atom others }"

definition is_next_trigger_order_with ::
  "'w jworld \<Rightarrow> job_unit \<Rightarrow> job_unit \<Rightarrow> unit_relation_atom \<Rightarrow> bool option" where
  "is_next_trigger_order_with w ju ou atom = do {
     rust_assert (ju_ready ju \<and> ju_order ou);
     j \<leftarrow> get_next_trigger ju;
     if ignore_order (attr_of w j) then Some True
     else if kind_of w j = Nop then Some True
     else order_scan w j atom
            (get_suspends ou @ (case ju_trigger ou of Some t \<Rightarrow> [t] | None \<Rightarrow> [])) }"

section \<open>Suspended jobs\<close>

definition insert_suspend ::
  "job_id \<Rightarrow> bool \<Rightarrow> job_unit \<times> 'w jworld \<Rightarrow> (job_unit \<times> 'w jworld) option" where
  "insert_suspend j operate s = do {
     let (ju, w) = s;
     rust_assert (job_is_basic_op (kind_of w j));
     rust_assert (\<not> is_trigger ju j);
     rust_assert (map_of (ju_suspends ju) (kind_of w j) = None);
     ju' \<leftarrow> update_ready (ju\<lparr>ju_suspends := AList.update (kind_of w j) j (ju_suspends ju),
                            ju_order := False, ju_dirty := True\<rparr>);
     w' \<leftarrow> (if operate then job_wait j w else Some w);
     Some (ju', w') }"

definition remove_suspend ::
  "job_kind \<Rightarrow> job_result \<Rightarrow> job_unit \<times> 'w jworld \<Rightarrow> (job_id option \<times> job_unit \<times> 'w jworld) option" where
  "remove_suspend k result s = do {
     let (ju, w) = s;
     let del_job = map_of (ju_suspends ju) k;
     ju' \<leftarrow> update_ready (ju\<lparr>ju_suspends := AList.delete k (ju_suspends ju),
                            ju_order := False, ju_dirty := True\<rparr>);
     w' \<leftarrow> (case del_job of
              Some j \<Rightarrow> map_option snd (job_finish result j w)
            | None \<Rightarrow> Some w);
     Some (del_job, ju', w') }"

definition finish_all :: "job_result \<Rightarrow> job_id list \<Rightarrow> 'w jworld \<Rightarrow> 'w jworld option" where
  "finish_all result js w = fold_opt (\<lambda>j w. map_option snd (job_finish result j w)) js w"

definition flush_suspends ::
  "job_unit \<times> 'w jworld \<Rightarrow> (job_id list \<times> job_unit \<times> 'w jworld) option" where
  "flush_suspends s = do {
     let (ju, w) = s;
     let del_jobs = map snd (ju_suspends ju);
     ju' \<leftarrow> update_ready (ju\<lparr>ju_suspends := [], ju_order := False, ju_dirty := True\<rparr>);
     w' \<leftarrow> finish_all Cancelled del_jobs w;
     Some (del_jobs, ju', w') }"

text \<open>One round of the union in \<open>merge_suspends\<close>; the lists are \<open>add_jobs\<close> and \<open>update_jobs\<close>.\<close>

definition merge_one ::
  "job_kind \<times> job_id \<Rightarrow> (job_id list \<times> job_id list) \<times> job_unit \<times> 'w jworld \<Rightarrow>
   ((job_id list \<times> job_id list) \<times> job_unit \<times> 'w jworld) option" where
  "merge_one o_entry s = do {
     let ((adds, upds), ju, w) = s;
     let o_job = snd o_entry;
     (case map_of (ju_suspends ju) (kind_of w o_job) of
        Some j \<Rightarrow> do {
          w' \<leftarrow> job_merge_attr j o_job w;
          Some ((adds, upds @ [j]), ju, w') }
      | None \<Rightarrow> do {
          (ju', w') \<leftarrow> insert_suspend o_job True (ju, w);
          Some ((adds @ [o_job], upds), ju', w') }) }"

definition merge_suspends ::
  "job_unit \<Rightarrow> job_unit \<times> 'w jworld \<Rightarrow>
   ((job_id list \<times> job_id list \<times> job_id list) \<times> job_unit \<times> 'w jworld) option" where
  "merge_suspends ou s = do {
     (dels, ju, w) \<leftarrow> (if is_suspends_conflict_with (fst s) ou then flush_suspends s
                        else Some ([], s));
     ((adds, upds), ju', w') \<leftarrow> fold_opt merge_one (ju_suspends ou) (([], []), ju, w);
     Some ((adds, dels, upds), ju', w') }"

section \<open>Reshuffling: merging and ordering\<close>

definition jobs_suspends_remove :: "job_kind \<Rightarrow> job_unit \<times> job_id list \<Rightarrow> job_unit \<times> job_id list" where
  "jobs_suspends_remove k s =
     (case map_of (ju_suspends (fst s)) k of
        Some j \<Rightarrow> ((fst s)\<lparr>ju_suspends := AList.delete k (ju_suspends (fst s))\<rparr>, snd s @ [j])
      | None \<Rightarrow> s)"

definition jobs_ms_start_and_reload :: "job_unit \<times> job_id list \<Rightarrow> job_unit \<times> job_id list" where
  "jobs_ms_start_and_reload s = jobs_suspends_remove Reload (jobs_suspends_remove Start s)"

definition jobs_ms_start_or_reload ::
  "unit_active_state \<Rightarrow> job_unit \<times> job_id list \<Rightarrow> job_unit \<times> job_id list" where
  "jobs_ms_start_or_reload act s =
     (if is_active_or_reloading act then jobs_suspends_remove Start s
      else jobs_suspends_remove Reload s)"

definition jobs_merge_suspend ::
  "unit_active_state \<Rightarrow> job_unit \<times> job_id list \<Rightarrow> (job_unit \<times> job_id list) option" where
  "jobs_merge_suspend act s = do {
     rust_assert (\<not> ju_order (fst s));
     Some (if \<not> has_suspend (fst s) Stop then
             (case (has_suspend (fst s) Restart, has_suspend (fst s) Start, has_suspend (fst s) Reload) of
                (True, _, _) \<Rightarrow> jobs_ms_start_and_reload s
              | (False, True, True) \<Rightarrow> jobs_ms_start_or_reload act s
              | _ \<Rightarrow> s)
           else s) }"

definition sq_order_pushback :: "job_kind \<Rightarrow> job_unit \<Rightarrow> job_unit" where
  "sq_order_pushback k ju =
     (case map_of (ju_suspends ju) k of
        Some j \<Rightarrow> ju\<lparr>ju_sq := ju_sq ju @ [j]\<rparr>
      | None \<Rightarrow> ju)"

definition sq_order :: "job_unit \<Rightarrow> job_unit option" where
  "sq_order ju = (let ju0 = ju\<lparr>ju_sq := []\<rparr> in
     if \<not> has_suspend ju Stop then do {
       let ju1 = sq_order_pushback Reload (sq_order_pushback Start (sq_order_pushback Restart ju0));
       rust_assert (length (ju_sq ju1) \<le> JOBUNIT_SQ_MUTOP_MAX_NUM);
       let ju2 = sq_order_pushback Nop (sq_order_pushback Verify ju1);
       rust_assert (length (ju_sq ju2) \<le> JOBUNIT_SQ_MAX_NUM);
       Some ju2 }
     else Some (sq_order_pushback Stop ju0))"

definition jobs_merge_trigger_prepare :: "'w jworld \<Rightarrow> job_unit \<Rightarrow> job_unit option" where
  "jobs_merge_trigger_prepare w ju = do {
     rust_assert (ju_order ju);
     Some (case (ju_trigger ju, ju_sq ju) of
             (Some _, j # _) \<Rightarrow> ju\<lparr>ju_interrupt := (kind_of w j = Stop \<or> kind_of w j = Restart)\<rparr>
           | _ \<Rightarrow> ju) }"

definition reshuffle ::
  "'w unit_ops \<Rightarrow> job_unit \<times> 'w jworld \<Rightarrow> (job_id list \<times> job_unit \<times> 'w jworld) option" where
  "reshuffle U s = do {
     let (ju, w) = s;
     rust_assert (\<not> is_suspends_conflict ju);
     (ju1, merge_jobs) \<leftarrow>
       (if \<not> ju_order ju then do {
          (ju', ms) \<leftarrow> jobs_merge_suspend (uo_active_state U (ju_unit ju) (jw_env w)) (ju, []);
          ju'' \<leftarrow> sq_order ju';
          Some (ju''\<lparr>ju_order := True\<rparr>, ms) }
        else Some (ju, []));
     ju2 \<leftarrow> jobs_merge_trigger_prepare w ju1;
     ju3 \<leftarrow> update_ready ju2;
     w' \<leftarrow> finish_all Merged merge_jobs w;
     Some (merge_jobs, ju3, w') }"

section \<open>The triggered job\<close>

definition ju_set_pause :: "job_unit \<Rightarrow> job_unit option" where
  "ju_set_pause ju = do {
     rust_assert (ju_order ju);
     update_ready (ju\<lparr>ju_dirty := True, ju_pause := True\<rparr>) }"

definition ju_resume :: "job_unit \<Rightarrow> job_unit option" where
  "ju_resume ju = do {
     rust_assert (ju_order ju);
     update_ready (ju\<lparr>ju_dirty := True, ju_pause := False\<rparr>) }"

definition retrigger_trigger :: "job_unit \<Rightarrow> job_unit option" where
  "retrigger_trigger ju = do {
     rust_assert (ju_trigger ju \<noteq> None);
     rust_assert (ju_order ju);
     update_ready (ju\<lparr>ju_retrigger := True, ju_dirty := True\<rparr>) }"

definition insert_trigger :: "job_id \<Rightarrow> job_unit \<times> 'w jworld \<Rightarrow> job_unit option" where
  "insert_trigger j s = do {
     let (ju, w) = s;
     rust_assert (ju_trigger ju = None);
     rust_assert (ju_suspends ju = []);
     rust_assert (job_is_basic_op (kind_of w j));
     rust_assert (ju_order ju);
     ju1 \<leftarrow> retrigger_trigger (ju\<lparr>ju_trigger := Some j\<rparr>);
     update_ready (ju1\<lparr>ju_dirty := True\<rparr>) }"

definition finish_trigger ::
  "job_result \<Rightarrow> job_unit \<times> 'w jworld \<Rightarrow> (job_id option \<times> job_unit \<times> 'w jworld) option" where
  "finish_trigger result s = do {
     let (ju, w) = s;
     j \<leftarrow> ju_trigger ju;
     rust_assert (ju_order ju);
     (again, w') \<leftarrow> job_finish result j w;
     (del_trigger, ju1) \<leftarrow>
       (if again then map_option (Pair None) (retrigger_trigger ju)
        else Some (Some j, ju\<lparr>ju_interrupt := False, ju_retrigger := False, ju_trigger := None\<rparr>));
     ju2 \<leftarrow> update_ready (ju1\<lparr>ju_dirty := True\<rparr>);
     Some (del_trigger, ju2, w') }"

definition do_next_trigger_retrigger :: "job_unit \<Rightarrow> (job_id \<times> job_id option \<times> job_unit) option" where
  "do_next_trigger_retrigger ju = do {
     rust_assert (ju_trigger ju \<noteq> None \<and> ju_retrigger ju);
     rust_assert (ju_order ju);
     j \<leftarrow> ju_trigger ju;
     rust_assert (\<not> ju_interrupt ju);
     ju' \<leftarrow> update_ready (ju\<lparr>ju_retrigger := False, ju_dirty := True\<rparr>);
     Some (j, None, ju') }"

definition do_next_trigger_suspend ::
  "'w jworld \<Rightarrow> job_unit \<Rightarrow> (job_id \<times> job_id option \<times> job_unit) option" where
  "do_next_trigger_suspend w ju = do {
     rust_assert (ju_sq ju \<noteq> []);
     rust_assert (ju_order ju);
     let (merge_trigger, ju1) =
       (if ju_interrupt ju
        then (ju_trigger ju, ju\<lparr>ju_interrupt := False, ju_retrigger := False, ju_trigger := None\<rparr>)
        else (None, ju));
     let j = hd (ju_sq ju1);
     ju2 \<leftarrow> update_ready (ju1\<lparr>ju_trigger := Some j, ju_sq := tl (ju_sq ju1),
              ju_suspends := AList.delete (kind_of w j) (ju_suspends ju1), ju_dirty := True\<rparr>);
     Some (j, merge_trigger, ju2) }"

definition do_next_trigger ::
  "'w jworld \<Rightarrow> job_unit \<Rightarrow> (job_id \<times> job_id option \<times> job_unit) option" where
  "do_next_trigger w ju = do {
     r \<leftarrow> calc_ready ju;
     (case r of
        Some True \<Rightarrow> do_next_trigger_suspend w ju
      | Some False \<Rightarrow> do_next_trigger_retrigger ju
      | None \<Rightarrow> None) }"

definition do_trigger ::
  "'w unit_ops \<Rightarrow> job_unit \<times> 'w jworld \<Rightarrow>
   ((job_info \<times> job_result option) \<times> job_id option \<times> job_unit \<times> 'w jworld) option" where
  "do_trigger U s = do {
     let (ju, w) = s;
     (cur, merge_trigger, ju1) \<leftarrow> do_next_trigger w ju;
     let t_jinfo = job_info_map (jw_job w cur);
     w1 \<leftarrow> (case merge_trigger of
              Some j \<Rightarrow> do {
                w' \<leftarrow> (if kind_of w j = kind_of w cur then job_merge_attr cur j w else Some w);
                map_option snd (job_finish Merged j w') }
            | None \<Rightarrow> Some w);
     (ret, w2) \<leftarrow> job_run U cur w1;
     (case ret of
        Inr () \<Rightarrow> Some ((t_jinfo, None), merge_trigger, ju1, w2)
      | Inl None \<Rightarrow> do {
          ju2 \<leftarrow> ju_set_pause ju1;
          ju3 \<leftarrow> retrigger_trigger ju2;
          Some ((t_jinfo, None), merge_trigger, ju3, w2) }
      | Inl (Some r) \<Rightarrow> Some ((t_jinfo, Some r), merge_trigger, ju1, w2)) }"

definition ju_clear_dirty :: "job_unit \<Rightarrow> job_unit" where
  "ju_clear_dirty ju = ju\<lparr>ju_dirty := False\<rparr>"

definition ju_set_up_ready :: "job_unit \<Rightarrow> job_unit" where
  "ju_set_up_ready ju = ju\<lparr>ju_up_ready := True\<rparr>"

definition ju_clear_up_ready :: "job_unit \<Rightarrow> job_unit" where
  "ju_clear_up_ready ju = ju\<lparr>ju_up_ready := False\<rparr>"

section \<open>Merging kinds into a triggered job\<close>

fun job_merge_trigger_iskeep :: "job_kind \<Rightarrow> bool option" where
  "job_merge_trigger_iskeep Start = Some False"
| "job_merge_trigger_iskeep Reload = Some False"
| "job_merge_trigger_iskeep Restart = Some False"
| "job_merge_trigger_iskeep Stop = Some True"
| "job_merge_trigger_iskeep Verify = Some True"
| "job_merge_trigger_iskeep Nop = Some True"
| "job_merge_trigger_iskeep _ = None"

definition job_merge_trigger_map :: "job_kind \<Rightarrow> job_kind option" where
  "job_merge_trigger_map old =
     map_option (\<lambda>keep. if keep then old else Restart) (job_merge_trigger_iskeep old)"

section \<open>Which kinds are suspended\<close>

abbreviation susp_ok :: "job_unit \<Rightarrow> bool" where
  "susp_ok ju \<equiv> distinct (map fst (ju_suspends ju))"

definition kinds_of :: "job_unit \<Rightarrow> job_kind set" where
  "kinds_of ju = dom (map_of (ju_suspends ju))"

lemma has_suspend_kinds: "has_suspend ju k \<longleftrightarrow> k \<in> kinds_of ju"
  by (auto simp: has_suspend_def kinds_of_def)

lemma finite_kinds_of [simp]: "finite (kinds_of ju)"
  by (simp add: kinds_of_def finite_dom_map_of)

lemma length_suspends: "susp_ok ju \<Longrightarrow> length (ju_suspends ju) = card (kinds_of ju)"
  by (metis kinds_of_def dom_map_of_conv_image_fst distinct_card length_map list.set_map)

lemma num_others_card:
  assumes "susp_ok ju"
  shows "num_others ju = card (kinds_of ju - {Stop, Nop})"
proof -
  have "card (kinds_of ju \<inter> {Stop, Nop}) = suspends_kind_len ju Stop + suspends_kind_len ju Nop"
    by (auto simp: suspends_kind_len_def has_suspend_kinds)
  then show ?thesis
    using length_suspends [OF assms] by (simp add: num_others_def card_Diff_subset_Int)
qed

lemma num_others_pos: "susp_ok ju \<Longrightarrow> 0 < num_others ju \<longleftrightarrow> kinds_of ju - {Stop, Nop} \<noteq> {}"
  by (auto simp: num_others_card card_gt_0_iff)

lemma conflict_iff:
  "susp_ok ju \<Longrightarrow> is_suspends_conflict ju \<longleftrightarrow> Stop \<in> kinds_of ju \<and> kinds_of ju - {Stop, Nop} \<noteq> {}"
  by (auto simp: is_suspends_conflict_def suspends_kind_len_def has_suspend_kinds num_others_pos)

lemma conflict_with_iff:
  "susp_ok ju \<Longrightarrow> susp_ok ou \<Longrightarrow> is_suspends_conflict_with ju ou \<longleftrightarrow>
     Stop \<in> kinds_of ju \<union> kinds_of ou \<and> (kinds_of ju \<union> kinds_of ou) - {Stop, Nop} \<noteq> {}"
  using num_others_pos [of ju] num_others_pos [of ou]
  by (auto simp: is_suspends_conflict_with_def suspends_kind_len_def has_suspend_kinds)

section \<open>The queue\<close>

definition opt_list :: "'a option \<Rightarrow> 'a list" where
  "opt_list x = (case x of None \<Rightarrow> [] | Some y \<Rightarrow> [y])"

lemma opt_list_simps [simp]:
  "opt_list None = []" "opt_list (Some y) = [y]"
  "length (opt_list x) = (if x = None then 0 else 1)" "set (opt_list x) = set_option x"
  "opt_list x = [] \<longleftrightarrow> x = None"
  by (cases x; simp add: opt_list_def)+

definition queue_of :: "job_unit \<Rightarrow> job_id list" where
  "queue_of ju =
     (let S = map_of (ju_suspends ju) in
      if S Stop \<noteq> None then opt_list (S Stop)
      else opt_list (S Restart) @ opt_list (S Start) @ opt_list (S Reload) @ opt_list (S Verify) @
           opt_list (S Nop))"

lemma pushback_sq:
  "sq_order_pushback k ju = ju\<lparr>ju_sq := ju_sq ju @ opt_list (map_of (ju_suspends ju) k)\<rparr>"
  by (simp add: sq_order_pushback_def split: option.splits)

text \<open>At most one of the jobs that change the unit's state, as after a merge.\<close>

definition one_mutop :: "job_unit \<Rightarrow> bool" where
  "one_mutop ju \<longleftrightarrow> \<not> (has_suspend ju Restart \<and> has_suspend ju Start) \<and>
     \<not> (has_suspend ju Restart \<and> has_suspend ju Reload) \<and> \<not> (has_suspend ju Start \<and> has_suspend ju Reload)"

lemma sq_order_queue:
  "sq_order ju = (if has_suspend ju Stop \<or> one_mutop ju then Some (ju\<lparr>ju_sq := queue_of ju\<rparr>) else None)"
  by (simp add: sq_order_def Let_def pushback_sq queue_of_def has_suspend_def one_mutop_def
      JOBUNIT_SQ_MUTOP_MAX_NUM_def JOBUNIT_SQ_MAX_NUM_def)

lemma queue_of_sub: "set (queue_of ju) \<subseteq> snd ` set (ju_suspends ju)"
  by (force simp: queue_of_def Let_def dest: map_of_SomeD split: if_splits)

lemma length_queue_of: "one_mutop ju \<Longrightarrow> length (queue_of ju) \<le> 3"
  by (auto simp: queue_of_def Let_def one_mutop_def has_suspend_def)

lemma length_queue_le:
  assumes "Stop \<in> kinds_of ju \<or> one_mutop ju"
  shows "length (queue_of ju) \<le> 3"
proof (cases "Stop \<in> kinds_of ju")
  case True
  then show ?thesis by (auto simp: queue_of_def Let_def kinds_of_def)
next
  case False
  then show ?thesis using assms length_queue_of by blast
qed

section \<open>Merging suspended jobs\<close>

definition merged_kinds :: "unit_active_state \<Rightarrow> job_unit \<Rightarrow> job_kind list" where
  "merged_kinds act ju =
     (if has_suspend ju Stop then []
      else if has_suspend ju Restart then filter (has_suspend ju) [Start, Reload]
      else if has_suspend ju Start \<and> has_suspend ju Reload
        then [if is_active_or_reloading act then Start else Reload]
      else [])"

definition merged :: "unit_active_state \<Rightarrow> job_unit \<Rightarrow> job_unit" where
  "merged act ju = ju\<lparr>ju_suspends := fold AList.delete (merged_kinds act ju) (ju_suspends ju)\<rparr>"

definition merged_jobs :: "unit_active_state \<Rightarrow> job_unit \<Rightarrow> job_id list" where
  "merged_jobs act ju = map (\<lambda>k. the (map_of (ju_suspends ju) k)) (merged_kinds act ju)"

lemma jobs_merge_suspend_merged:
  assumes "\<not> ju_order ju"
  shows "jobs_merge_suspend act (ju, []) = Some (merged act ju, merged_jobs act ju)"
proof -
  let ?S = "map_of (ju_suspends ju)"
  show ?thesis
    using assms
    by (cases "?S Stop"; cases "?S Restart"; cases "?S Start"; cases "?S Reload")
      (simp_all add: jobs_merge_suspend_def jobs_ms_start_and_reload_def jobs_ms_start_or_reload_def
        jobs_suspends_remove_def merged_def merged_jobs_def merged_kinds_def has_suspend_def
        delete_conv')
qed

lemma susp_ok_merged: "susp_ok ju \<Longrightarrow> susp_ok (merged act ju)"
  by (simp add: merged_def hm.invar_remove_all)

lemma map_of_merged:
  "susp_ok ju \<Longrightarrow>
     map_of (ju_suspends (merged act ju)) = map_of (ju_suspends ju) |` (- set (merged_kinds act ju))"
  by (simp add: merged_def hm.lookup_remove_all)

lemma merged_simps [simp]:
  "ju_unit (merged act ju) = ju_unit ju" "ju_trigger (merged act ju) = ju_trigger ju"
  "ju_order (merged act ju) = ju_order ju" "ju_sq (merged act ju) = ju_sq ju"
  "ju_interrupt (merged act ju) = ju_interrupt ju" "ju_retrigger (merged act ju) = ju_retrigger ju"
  "ju_pause (merged act ju) = ju_pause ju" "ju_up_ready (merged act ju) = ju_up_ready ju"
  "ju_dirty (merged act ju) = ju_dirty ju"
  by (simp_all add: merged_def)

lemma kinds_of_merged: "susp_ok ju \<Longrightarrow> kinds_of (merged act ju) = kinds_of ju - set (merged_kinds act ju)"
  by (auto simp: kinds_of_def map_of_merged)

lemma merged_kinds_sub: "set (merged_kinds act ju) \<subseteq> kinds_of ju \<inter> {Start, Reload}"
  by (auto simp: merged_kinds_def has_suspend_kinds)

lemma merged_one_mutop:
  "susp_ok ju \<Longrightarrow> Stop \<in> kinds_of (merged act ju) \<or> one_mutop (merged act ju)"
  by (auto simp: one_mutop_def has_suspend_kinds kinds_of_merged merged_kinds_def)

lemma merged_jobs_susp:
  assumes "susp_ok ju"
  shows "j \<in> set (merged_jobs act ju) \<longleftrightarrow>
    (\<exists>k \<in> set (merged_kinds act ju). map_of (ju_suspends ju) k = Some j)"
  using merged_kinds_sub [of act ju] by (force simp: merged_jobs_def kinds_of_def)

section \<open>Finishing a list of jobs\<close>

lemma job_finish_total:
  assumes "stage_of w j = Wait \<or> stage_of w j = Running" and "r \<noteq> Done"
  shows "\<exists>w'. job_finish r j w = Some (False, w') \<and>
    jw_job w' = (jw_job w)(j := (jw_job w j)\<lparr>j_stage := End r\<rparr>) \<and> jw_env w' = jw_env w \<and>
    jw_notes w' = jw_notes w \<and> jw_timers w' = jw_timers w"
  using assms
  by (auto simp: job_finish_def Let_def rentry_suspends_remove_def rentry_trigger_remove_def)

lemma finish_all_total:
  assumes "distinct js" and "\<And>j. j \<in> set js \<Longrightarrow> stage_of w j = Wait \<or> stage_of w j = Running"
    and "r \<noteq> Done"
  shows "\<exists>w'. finish_all r js w = Some w' \<and>
    jw_job w' = (\<lambda>j. if j \<in> set js then (jw_job w j)\<lparr>j_stage := End r\<rparr> else jw_job w j) \<and>
    jw_env w' = jw_env w \<and> jw_notes w' = jw_notes w \<and> jw_timers w' = jw_timers w"
  using assms(1,2)
proof (induction js arbitrary: w)
  case Nil
  then show ?case by (simp add: finish_all_def)
next
  case (Cons j js)
  obtain w1 where w1: "job_finish r j w = Some (False, w1)"
    "jw_job w1 = (jw_job w)(j := (jw_job w j)\<lparr>j_stage := End r\<rparr>)" "jw_env w1 = jw_env w"
    "jw_notes w1 = jw_notes w" "jw_timers w1 = jw_timers w"
    using job_finish_total [of w j r] Cons.prems(2) [of j] assms(3) by auto
  have "stage_of w1 k = Wait \<or> stage_of w1 k = Running" if "k \<in> set js" for k
    using Cons.prems that w1(2) by auto
  with Cons.IH [of w1] Cons.prems(1) obtain w2 where
    "finish_all r js w1 = Some w2"
    "jw_job w2 = (\<lambda>j. if j \<in> set js then (jw_job w1 j)\<lparr>j_stage := End r\<rparr> else jw_job w1 j)"
    "jw_env w2 = jw_env w1" "jw_notes w2 = jw_notes w1" "jw_timers w2 = jw_timers w1"
    by auto
  with w1 Cons.prems(1) show ?case by (auto simp: finish_all_def fun_eq_iff)
qed

section \<open>Readiness without the assertions\<close>

definition ready_of :: "job_unit \<Rightarrow> bool option" where
  "ready_of ju =
     (if ju_pause ju \<or> \<not> ju_order ju then None
      else if ju_interrupt ju then Some True
      else if ju_trigger ju \<noteq> None then (if ju_retrigger ju then Some False else None)
      else if ju_sq ju \<noteq> [] then Some True else None)"

lemma calc_ready_cases:
  "calc_ready ju =
     (if \<not> ju_pause ju \<and> ju_order ju \<and> ju_interrupt ju \<and> (ju_trigger ju = None) \<noteq> (ju_sq ju = [])
      then None
      else if \<not> ju_pause ju \<and> ju_order ju \<and> ju_trigger ju = None \<and> ju_sq ju = [] then Some None
      else Some (ready_of ju))"
  by (auto simp: calc_ready_def calc_natural_ready_def calc_natural_ready_ts_def
      calc_natural_ready_t_def calc_natural_ready_s_def ready_of_def split: bool.splits)

definition interrupt_ok :: "job_unit \<Rightarrow> bool" where
  "interrupt_ok ju \<longleftrightarrow> (ju_order ju \<and> ju_interrupt ju \<longrightarrow> ju_trigger ju \<noteq> None \<and> ju_sq ju \<noteq> [])"

lemma calc_ready_eq: "interrupt_ok ju \<Longrightarrow> calc_ready ju = Some (ready_of ju)"
  by (auto simp: calc_ready_cases interrupt_ok_def ready_of_def)

lemma update_ready_eq:
  "interrupt_ok ju \<Longrightarrow> update_ready ju = Some (ju\<lparr>ju_ready := (ready_of ju \<noteq> None)\<rparr>)"
  by (simp add: update_ready_def calc_ready_eq)

lemma ready_of_update [simp]:
  "ready_of (ju\<lparr>ju_ready := b\<rparr>) = ready_of ju" "ready_of (ju\<lparr>ju_dirty := b\<rparr>) = ready_of ju"
  "ready_of (ju\<lparr>ju_up_ready := b\<rparr>) = ready_of ju"
  by (simp_all add: ready_of_def)

section \<open>The invariant of an installed entry\<close>

definition susp_wf :: "'w jworld \<Rightarrow> job_stage \<Rightarrow> job_unit \<Rightarrow> bool" where
  "susp_wf w st ju \<longleftrightarrow> susp_ok ju \<and>
     (\<forall>k j. map_of (ju_suspends ju) k = Some j \<longrightarrow> kind_of w j = k \<and> job_is_basic_op k \<and>
        stage_of w j = st \<and> job_ok (jw_job w j) \<and> j_unit (jw_job w j) = ju_unit ju)"

definition trigger_wf :: "'w jworld \<Rightarrow> job_unit \<Rightarrow> bool" where
  "trigger_wf w ju \<longleftrightarrow>
     (case ju_trigger ju of
        None \<Rightarrow> \<not> ju_interrupt ju \<and> \<not> ju_retrigger ju
      | Some t \<Rightarrow> stage_of w t = Running \<and> job_is_basic_op (kind_of w t) \<and> job_ok (jw_job w t) \<and>
          j_unit (jw_job w t) = ju_unit ju)"

definition stop_like :: "'w jworld \<Rightarrow> job_id \<Rightarrow> bool" where
  "stop_like w j \<longleftrightarrow> kind_of w j = Stop \<or> kind_of w j = Restart"

definition ju_ordered :: "'w jworld \<Rightarrow> job_unit \<Rightarrow> bool" where
  "ju_ordered w ju \<longleftrightarrow> \<not> is_suspends_conflict ju \<and> (Stop \<in> kinds_of ju \<or> one_mutop ju) \<and>
     (ju_sq ju = queue_of ju \<or> ju_sq ju = [] \<and> kinds_of ju = {Nop}) \<and>
     (ju_interrupt ju \<longleftrightarrow> ju_trigger ju \<noteq> None \<and> ju_sq ju \<noteq> [] \<and> stop_like w (hd (ju_sq ju)))"

definition ju_core :: "'w jworld \<Rightarrow> job_unit \<Rightarrow> bool" where
  "ju_core w ju \<longleftrightarrow> susp_wf w Wait ju \<and> trigger_wf w ju"

definition ju_inv :: "'w jworld \<Rightarrow> job_unit \<Rightarrow> bool" where
  "ju_inv w ju \<longleftrightarrow> ju_core w ju \<and> (ju_order ju \<longrightarrow> ju_ordered w ju) \<and>
     (ju_ready ju \<longleftrightarrow> ready_of ju \<noteq> None)"

lemma ju_inv_interrupt_ok: "ju_inv w ju \<Longrightarrow> interrupt_ok ju"
  by (auto simp: ju_inv_def ju_ordered_def interrupt_ok_def)

lemma ju_inv_new [inv_intros]: "ju_inv w (job_unit_new u)"
  by (simp add: ju_inv_def ju_core_def susp_wf_def trigger_wf_def job_unit_new_def ju_ordered_def
      kinds_of_def queue_of_def is_suspends_conflict_def suspends_kind_len_def has_suspend_def
      ready_of_def one_mutop_def)

text \<open>The invariant depends on the heap at the jobs of the entry only.\<close>

definition jobs_of :: "job_unit \<Rightarrow> job_id set" where
  "jobs_of ju = ran (map_of (ju_suspends ju)) \<union> set_option (ju_trigger ju)"

lemma set_get_suspends: "susp_ok ju \<Longrightarrow> set (get_suspends ju) = ran (map_of (ju_suspends ju))"
  by (force simp: get_suspends_def ran_def)

lemma queue_of_ran: "set (queue_of ju) \<subseteq> ran (map_of (ju_suspends ju))"
  by (auto simp: queue_of_def Let_def ran_def split: if_splits)

lemma ju_core_cong:
  assumes "\<And>j. j \<in> jobs_of ju \<Longrightarrow> jw_job w' j = jw_job w j"
  shows "ju_core w' ju = ju_core w ju"
proof -
  have "map_of (ju_suspends ju) k = Some j \<Longrightarrow> jw_job w' j = jw_job w j" for k j
    using assms [of j] by (auto simp: jobs_of_def ran_def)
  moreover have "ju_trigger ju = Some t \<Longrightarrow> jw_job w' t = jw_job w t" for t
    using assms [of t] by (simp add: jobs_of_def)
  ultimately show ?thesis
    by (auto simp: ju_core_def susp_wf_def trigger_wf_def split: option.splits)
qed

lemma ju_ordered_cong:
  assumes "\<And>j. j \<in> jobs_of ju \<Longrightarrow> jw_job w' j = jw_job w j"
  shows "ju_ordered w' ju = ju_ordered w ju"
proof -
  have "stop_like w' (hd (ju_sq ju)) = stop_like w (hd (ju_sq ju))"
    if "ju_sq ju = queue_of ju" "ju_sq ju \<noteq> []"
    using that queue_of_ran [of ju] assms [of "hd (ju_sq ju)"]
    by (auto simp: stop_like_def jobs_of_def dest!: hd_in_set)
  then show ?thesis by (auto simp: ju_ordered_def)
qed

lemma ju_inv_cong:
  "(\<And>j. j \<in> jobs_of ju \<Longrightarrow> jw_job w' j = jw_job w j) \<Longrightarrow> ju_inv w' ju = ju_inv w ju"
  unfolding ju_inv_def by (metis ju_core_cong ju_ordered_cong)

section \<open>Reshuffling keeps the invariant\<close>

lemma susp_wfD:
  assumes "susp_wf w st ju"
  shows "susp_ok ju"
    and "map_of (ju_suspends ju) k = Some j \<Longrightarrow> kind_of w j = k"
    and "map_of (ju_suspends ju) k = Some j \<Longrightarrow> job_is_basic_op k"
    and "map_of (ju_suspends ju) k = Some j \<Longrightarrow> stage_of w j = st"
    and "map_of (ju_suspends ju) k = Some j \<Longrightarrow> job_ok (jw_job w j)"
    and "map_of (ju_suspends ju) k = Some j \<Longrightarrow> j_unit (jw_job w j) = ju_unit ju"
  using assms by (auto simp: susp_wf_def)

lemma ju_coreD:
  assumes "ju_core w ju"
  shows "susp_wf w Wait ju" and "trigger_wf w ju"
  using assms by (auto simp: ju_core_def)

lemma susp_wf_inj:
  "susp_wf w st ju \<Longrightarrow> map_of (ju_suspends ju) k = Some j \<Longrightarrow> map_of (ju_suspends ju) k' = Some j \<Longrightarrow> k = k'"
  using susp_wfD(2) by metis

lemma susp_wf_sub:
  assumes "susp_wf w st ju" and "susp_ok ju'" and "ju_unit ju' = ju_unit ju"
    and "\<And>k i. map_of (ju_suspends ju') k = Some i \<Longrightarrow>
      map_of (ju_suspends ju) k = Some i \<and> jw_job w' i = jw_job w i"
  shows "susp_wf w' st ju'"
  unfolding susp_wf_def
proof (intro conjI allI impI)
  fix k i
  assume "map_of (ju_suspends ju') k = Some i"
  from assms(4) [OF this] have i: "map_of (ju_suspends ju) k = Some i" "jw_job w' i = jw_job w i" by auto
  show "kind_of w' i = k" "job_is_basic_op k" "stage_of w' i = st" "job_ok (jw_job w' i)"
    "j_unit (jw_job w' i) = ju_unit ju'"
    using susp_wfD(2-6) [OF assms(1) i(1)] i(2) assms(3) by simp_all
qed (rule assms(2))

lemma susp_wf_merged: "susp_wf w st ju \<Longrightarrow> susp_wf w st (merged act ju)"
  by (auto simp: susp_wf_def susp_ok_merged map_of_merged restrict_map_def split: if_splits)

lemma kinds_of_basic: "susp_wf w st ju \<Longrightarrow> k \<in> kinds_of ju \<Longrightarrow> job_is_basic_op k"
  by (auto simp: kinds_of_def dest: susp_wfD(3))

lemma queue_of_Nil_iff:
  assumes "susp_wf w st ju"
  shows "queue_of ju = [] \<longleftrightarrow> kinds_of ju = {}"
proof -
  have "k \<in> {Start, Stop, Reload, Restart, Verify, Nop}" if "k \<in> kinds_of ju" for k
    using kinds_of_basic [OF assms that] by (cases k) auto
  then have "kinds_of ju \<subseteq> {Start, Stop, Reload, Restart, Verify, Nop}" by blast
  moreover have "queue_of ju = [] \<longleftrightarrow> kinds_of ju \<inter> {Start, Stop, Reload, Restart, Verify, Nop} = {}"
    by (auto simp: queue_of_def Let_def kinds_of_def)
  ultimately show ?thesis by blast
qed

lemma merged_kinds_Nil: "susp_ok ju \<Longrightarrow> kinds_of (merged act ju) = {} \<longleftrightarrow> kinds_of ju = {}"
  by (auto simp: kinds_of_merged merged_kinds_def has_suspend_kinds split: if_splits)

lemma distinct_merged_kinds [simp]: "distinct (merged_kinds act ju)"
  by (simp add: merged_kinds_def)

lemma distinct_merged_jobs:
  assumes "susp_wf w st ju"
  shows "distinct (merged_jobs act ju)"
proof -
  have "inj_on (\<lambda>k. the (map_of (ju_suspends ju) k)) (set (merged_kinds act ju))"
  proof (rule inj_onI)
    fix k k'
    assume "k \<in> set (merged_kinds act ju)" "k' \<in> set (merged_kinds act ju)"
      and eq: "the (map_of (ju_suspends ju) k) = the (map_of (ju_suspends ju) k')"
    then obtain j j' where "map_of (ju_suspends ju) k = Some j" "map_of (ju_suspends ju) k' = Some j'"
      using merged_kinds_sub [of act ju] unfolding kinds_of_def by blast
    with eq show "k = k'" using susp_wf_inj [OF assms] by auto
  qed
  then show ?thesis by (simp add: merged_jobs_def distinct_map)
qed

text \<open>What the entry looks like after its suspended jobs have been merged and queued.\<close>

definition next_interrupt :: "'w jworld \<Rightarrow> job_unit \<Rightarrow> bool" where
  "next_interrupt w ju =
     (if ju_trigger ju \<noteq> None \<and> ju_sq ju \<noteq> [] then stop_like w (hd (ju_sq ju)) else ju_interrupt ju)"

definition queued :: "'w jworld \<Rightarrow> job_unit \<Rightarrow> job_unit" where
  "queued w ju = (let ju1 = ju\<lparr>ju_sq := queue_of ju, ju_order := True\<rparr> in
     ju1\<lparr>ju_interrupt := next_interrupt w ju1\<rparr>)"

definition with_ready :: "job_unit \<Rightarrow> job_unit" where
  "with_ready ju = ju\<lparr>ju_ready := (ready_of ju \<noteq> None)\<rparr>"

definition reshuffled :: "'w jworld \<Rightarrow> unit_active_state \<Rightarrow> job_unit \<Rightarrow> job_unit" where
  "reshuffled w act ju = with_ready (queued w (merged act ju))"

lemma merge_trigger_prepare_eq:
  "ju_order ju \<Longrightarrow> jobs_merge_trigger_prepare w ju = Some (ju\<lparr>ju_interrupt := next_interrupt w ju\<rparr>)"
  by (auto simp: jobs_merge_trigger_prepare_def stop_like_def next_interrupt_def
      split: option.splits list.splits)

lemma update_ready_with: "interrupt_ok ju \<Longrightarrow> update_ready ju = Some (with_ready ju)"
  by (simp add: update_ready_eq with_ready_def)

lemma queued_simps [simp]:
  "ju_unit (queued w ju) = ju_unit ju" "ju_suspends (queued w ju) = ju_suspends ju"
  "ju_trigger (queued w ju) = ju_trigger ju" "ju_sq (queued w ju) = queue_of ju"
  "ju_order (queued w ju)" "ju_retrigger (queued w ju) = ju_retrigger ju"
  "ju_pause (queued w ju) = ju_pause ju"
  "ju_interrupt (queued w ju) = (if ju_trigger ju \<noteq> None \<and> queue_of ju \<noteq> []
     then stop_like w (hd (queue_of ju)) else ju_interrupt ju)"
  by (simp_all add: queued_def next_interrupt_def Let_def)

lemma with_ready_simps [simp]:
  "ju_unit (with_ready ju) = ju_unit ju" "ju_suspends (with_ready ju) = ju_suspends ju"
  "ju_trigger (with_ready ju) = ju_trigger ju" "ju_sq (with_ready ju) = ju_sq ju"
  "ju_order (with_ready ju) = ju_order ju" "ju_retrigger (with_ready ju) = ju_retrigger ju"
  "ju_pause (with_ready ju) = ju_pause ju" "ju_interrupt (with_ready ju) = ju_interrupt ju"
  "ju_dirty (with_ready ju) = ju_dirty ju" "ju_up_ready (with_ready ju) = ju_up_ready ju"
  "ju_ready (with_ready ju) \<longleftrightarrow> ready_of ju \<noteq> None" "ready_of (with_ready ju) = ready_of ju"
  by (simp_all add: with_ready_def)

definition reshuffle_heap :: "'w unit_ops \<Rightarrow> job_unit \<Rightarrow> 'w jworld \<Rightarrow> 'w jworld \<Rightarrow> bool" where
  "reshuffle_heap U ju w w' \<longleftrightarrow> (let act = uo_active_state U (ju_unit ju) (jw_env w) in
     jw_job w' = (\<lambda>j. if j \<in> set (merged_jobs act ju) then (jw_job w j)\<lparr>j_stage := End Merged\<rparr> else jw_job w j) \<and>
     jw_env w' = jw_env w \<and> jw_notes w' = jw_notes w \<and> jw_timers w' = jw_timers w)"

lemma reshuffle_unordered:
  assumes core: "ju_core w ju" and "\<not> ju_order ju" and "\<not> is_suspends_conflict ju"
    and ok: "\<not> (ju_interrupt ju \<and> kinds_of ju = {})"
  shows "\<exists>w'. reshuffle U (ju, w) =
      Some (merged_jobs (uo_active_state U (ju_unit ju) (jw_env w)) ju,
            reshuffled w (uo_active_state U (ju_unit ju) (jw_env w)) ju, w') \<and>
    reshuffle_heap U ju w w'"
proof -
  let ?act = "uo_active_state U (ju_unit ju) (jw_env w)"
  let ?m = "merged ?act ju"
  note wf = ju_coreD(1) [OF core]
  have so: "susp_ok ju" by (rule susp_wfD(1) [OF wf])
  have "sq_order ?m = Some (?m\<lparr>ju_sq := queue_of ?m\<rparr>)"
    using merged_one_mutop [OF so, of ?act] by (simp add: sq_order_queue has_suspend_kinds)
  moreover have "interrupt_ok (queued w ?m)"
  proof -
    have "queue_of ?m \<noteq> []" if "ju_interrupt ju"
      using that ok queue_of_Nil_iff [OF susp_wf_merged [OF wf]] merged_kinds_Nil [OF so] by simp
    moreover have "ju_trigger ju \<noteq> None" if "ju_interrupt ju"
      using that ju_coreD(2) [OF core] by (auto simp: trigger_wf_def split: option.splits)
    ultimately show ?thesis by (simp add: interrupt_ok_def)
  qed
  moreover obtain w' where "finish_all Merged (merged_jobs ?act ju) w = Some w'"
    "reshuffle_heap U ju w w'"
  proof -
    have "stage_of w j = Wait \<or> stage_of w j = Running" if "j \<in> set (merged_jobs ?act ju)" for j
      using that susp_wfD(4) [OF wf] by (auto simp: merged_jobs_susp [OF so])
    from finish_all_total [OF distinct_merged_jobs [OF wf] this, of ?act Merged] show thesis
      using that by (auto simp: reshuffle_heap_def Let_def)
  qed
  ultimately show ?thesis
    using assms(2,3)
    by (simp add: reshuffle_def jobs_merge_suspend_merged merge_trigger_prepare_eq update_ready_with
        reshuffled_def queued_def Let_def)
qed

lemma conflict_cong: "ju_suspends ju = ju_suspends ju' \<Longrightarrow> is_suspends_conflict ju = is_suspends_conflict ju'"
  by (simp add: is_suspends_conflict_def suspends_kind_len_def has_suspend_def num_others_def)

lemma one_mutop_cong: "ju_suspends ju = ju_suspends ju' \<Longrightarrow> one_mutop ju = one_mutop ju'"
  by (simp add: one_mutop_def has_suspend_def)

lemma queue_of_cong: "ju_suspends ju = ju_suspends ju' \<Longrightarrow> queue_of ju = queue_of ju'"
  by (simp add: queue_of_def)

lemma kinds_of_cong: "ju_suspends ju = ju_suspends ju' \<Longrightarrow> kinds_of ju = kinds_of ju'"
  by (simp add: kinds_of_def)

lemma same_suspends:
  assumes "ju_suspends ju = ju_suspends ju'"
  shows "is_suspends_conflict ju = is_suspends_conflict ju'" "one_mutop ju = one_mutop ju'"
    "queue_of ju = queue_of ju'" "kinds_of ju = kinds_of ju'"
  by (intro conflict_cong one_mutop_cong queue_of_cong kinds_of_cong assms)+

lemma ju_ordered_queued:
  assumes core: "ju_core w ju" and "\<not> is_suspends_conflict ju" and "Stop \<in> kinds_of ju \<or> one_mutop ju"
    and "\<not> (ju_interrupt ju \<and> kinds_of ju = {})"
  shows "ju_ordered w (queued w ju)"
proof -
  note same = same_suspends [OF queued_simps(2), of w ju]
  have "queue_of ju \<noteq> []" if "ju_interrupt ju"
    using that assms(4) queue_of_Nil_iff [OF ju_coreD(1) [OF core]] by simp
  moreover have "ju_trigger ju \<noteq> None" if "ju_interrupt ju"
    using that ju_coreD(2) [OF core] by (auto simp: trigger_wf_def split: option.splits)
  ultimately show ?thesis
    using assms(2,3) by (auto simp: ju_ordered_def same)
qed

lemma ju_core_queued [simp]: "ju_core w ju \<Longrightarrow> ju_core w (queued w ju)"
  by (auto simp: ju_core_def susp_wf_def trigger_wf_def split: option.splits)

lemma ju_core_with_ready [simp]: "ju_core w (with_ready ju) = ju_core w ju"
  by (simp add: ju_core_def susp_wf_def trigger_wf_def split: option.split)

lemma ju_ordered_with_ready [simp]: "ju_ordered w (with_ready ju) = ju_ordered w ju"
  using same_suspends [OF with_ready_simps(2), of ju] by (simp add: ju_ordered_def)

lemma ju_inv_with_ready: "ju_core w ju \<Longrightarrow> (ju_order ju \<Longrightarrow> ju_ordered w ju) \<Longrightarrow> ju_inv w (with_ready ju)"
  by (simp add: ju_inv_def)

lemma ju_core_merged: "ju_core w ju \<Longrightarrow> ju_core w (merged act ju)"
  by (auto simp: ju_core_def susp_wf_merged trigger_wf_def split: option.splits)

lemma conflict_merged:
  "susp_ok ju \<Longrightarrow> \<not> is_suspends_conflict ju \<Longrightarrow> \<not> is_suspends_conflict (merged act ju)"
  using susp_ok_merged [of ju act] by (auto simp: conflict_iff kinds_of_merged)

lemma merged_jobs_disjoint:
  assumes "ju_core w ju" and "j \<in> jobs_of (merged act ju)"
  shows "j \<notin> set (merged_jobs act ju)"
proof
  note wf = ju_coreD(1) [OF assms(1)]
  assume "j \<in> set (merged_jobs act ju)"
  then obtain k where k: "k \<in> set (merged_kinds act ju)" "map_of (ju_suspends ju) k = Some j"
    by (auto simp: merged_jobs_susp [OF susp_wfD(1) [OF wf]])
  have "stage_of w j = Wait" by (rule susp_wfD(4) [OF wf k(2)])
  then have "ju_trigger ju \<noteq> Some j"
    using ju_coreD(2) [OF assms(1)] by (auto simp: trigger_wf_def)
  moreover have "j \<notin> ran (map_of (ju_suspends (merged act ju)))"
  proof
    assume "j \<in> ran (map_of (ju_suspends (merged act ju)))"
    then obtain k' where "map_of (ju_suspends ju) k' = Some j" "k' \<notin> set (merged_kinds act ju)"
      by (auto simp: ran_def map_of_merged [OF susp_wfD(1) [OF wf]] restrict_map_def split: if_splits)
    with k susp_wf_inj [OF wf] show False by blast
  qed
  ultimately show False using assms(2) by (auto simp: jobs_of_def)
qed

lemma ju_inv_reshuffled:
  assumes core: "ju_core w ju" and "\<not> is_suspends_conflict ju"
    and ok: "\<not> (ju_interrupt ju \<and> kinds_of ju = {})" and heap: "reshuffle_heap U ju w w'"
  shows "ju_inv w' (reshuffled w (uo_active_state U (ju_unit ju) (jw_env w)) ju)"
proof -
  let ?act = "uo_active_state U (ju_unit ju) (jw_env w)"
  let ?q = "queued w (merged ?act ju)"
  have so: "susp_ok ju" by (rule susp_wfD(1) [OF ju_coreD(1) [OF core]])
  have c: "ju_core w (merged ?act ju)" by (rule ju_core_merged [OF core])
  have "ju_ordered w ?q"
    by (rule ju_ordered_queued [OF c])
      (use assms(2) ok so in \<open>simp_all add: conflict_merged merged_one_mutop merged_kinds_Nil\<close>)
  then have "ju_inv w (reshuffled w ?act ju)"
    unfolding reshuffled_def using c by (intro ju_inv_with_ready) simp_all
  moreover have "jw_job w' j = jw_job w j" if "j \<in> jobs_of (reshuffled w ?act ju)" for j
    using that merged_jobs_disjoint [OF core, of j ?act] heap
    by (auto simp: reshuffle_heap_def Let_def reshuffled_def jobs_of_def)
  ultimately show ?thesis using ju_inv_cong by blast
qed

section \<open>Triggering\<close>

lemma stop_like_susp:
  "susp_wf w st ju \<Longrightarrow> map_of (ju_suspends ju) k = Some j \<Longrightarrow> stop_like w j \<longleftrightarrow> k = Stop \<or> k = Restart"
  by (auto simp: stop_like_def dest: susp_wfD(2))

lemma kinds_of_delete: "kinds_of (ju\<lparr>ju_suspends := AList.delete k (ju_suspends ju)\<rparr>) = kinds_of ju - {k}"
  by (auto simp: kinds_of_def delete_conv')

text \<open>
  Taking the head of the queue: the tail is the queue of what is left, unless a \<open>Nop\<close> was suspended
  beside a \<open>Stop\<close>; no job of the tail can interrupt.
\<close>

lemma queue_of_tl:
  assumes wf: "susp_wf w st ju" and "\<not> is_suspends_conflict ju" and "Stop \<in> kinds_of ju \<or> one_mutop ju"
    and q: "queue_of ju = j # q"
  defines "ju' \<equiv> ju\<lparr>ju_suspends := AList.delete (kind_of w j) (ju_suspends ju)\<rparr>"
  shows "map_of (ju_suspends ju) (kind_of w j) = Some j"
    and "q = queue_of ju' \<or> q = [] \<and> kinds_of ju' = {Nop}"
    and "\<And>x. x \<in> set q \<Longrightarrow> \<not> stop_like w x"
proof -
  have "j \<in> ran (map_of (ju_suspends ju))" using queue_of_ran [of ju] q by simp
  then show "map_of (ju_suspends ju) (kind_of w j) = Some j"
    using susp_wfD(2) [OF wf] by (auto simp: ran_def)
  have "q = queue_of ju' \<or> q = [] \<and> kinds_of ju' = {Nop}"
  proof (cases "map_of (ju_suspends ju) Stop")
    case None
    then have "one_mutop ju" using assms(3) by (auto simp: kinds_of_def)
    with None q have "q = queue_of ju'"
      by (cases "map_of (ju_suspends ju) Restart"; cases "map_of (ju_suspends ju) Start";
          cases "map_of (ju_suspends ju) Reload"; cases "map_of (ju_suspends ju) Verify";
          cases "map_of (ju_suspends ju) Nop")
        (auto simp: queue_of_def ju'_def delete_conv' one_mutop_def has_suspend_def
          dest!: susp_wfD(2) [OF wf])
    then show ?thesis ..
  next
    case (Some i)
    then have "kinds_of ju - {Stop, Nop} = {}" "Stop \<in> kinds_of ju"
      using assms(2) susp_wfD(1) [OF wf] by (auto simp: conflict_iff kinds_of_def)
    moreover have ji: "j = i" "q = []" using q Some by (auto simp: queue_of_def Let_def)
    moreover have "kind_of w j = Stop" using susp_wfD(2) [OF wf Some] ji by simp
    ultimately have "kinds_of ju' = {} \<or> kinds_of ju' = {Nop}"
      by (auto simp: ju'_def kinds_of_delete)
    moreover have "susp_wf w st ju'" using wf by (auto simp: ju'_def susp_wf_def distinct_delete delete_conv')
    ultimately show ?thesis using ji(2) queue_of_Nil_iff by metis
  qed
  then show "q = queue_of ju' \<or> q = [] \<and> kinds_of ju' = {Nop}" .
  show "\<not> stop_like w x" if "x \<in> set q" for x
  proof (cases "map_of (ju_suspends ju) Stop")
    case None
    then have "one_mutop ju" using assms(3) by (auto simp: kinds_of_def)
    with None q that show ?thesis
      by (cases "map_of (ju_suspends ju) Restart"; cases "map_of (ju_suspends ju) Start";
          cases "map_of (ju_suspends ju) Reload"; cases "map_of (ju_suspends ju) Verify";
          cases "map_of (ju_suspends ju) Nop")
        (auto simp: queue_of_def one_mutop_def has_suspend_def stop_like_def dest!: susp_wfD(2) [OF wf])
  next
    case (Some i)
    then show ?thesis using q that by (auto simp: queue_of_def Let_def)
  qed
qed

section \<open>Triggering keeps the invariant\<close>

lemma one_mutop_mono: "one_mutop ju \<Longrightarrow> kinds_of ju' \<subseteq> kinds_of ju \<Longrightarrow> one_mutop ju'"
  by (auto simp: one_mutop_def has_suspend_kinds)

lemma conflict_mono:
  "susp_ok ju \<Longrightarrow> susp_ok ju' \<Longrightarrow> \<not> is_suspends_conflict ju \<Longrightarrow> kinds_of ju' \<subseteq> kinds_of ju \<Longrightarrow>
     \<not> is_suspends_conflict ju'"
  by (auto simp: conflict_iff)

lemma ju_ordered_kinds:
  "(\<And>j. kind_of w' j = kind_of w j) \<Longrightarrow> ju_ordered w' ju = ju_ordered w ju"
  by (simp add: ju_ordered_def stop_like_def)

lemma mutop_after_delete:
  assumes "susp_ok ju" "\<not> is_suspends_conflict ju" "Stop \<in> kinds_of ju \<or> one_mutop ju"
    and "kinds_of ju' \<subseteq> kinds_of ju"
  shows "Stop \<in> kinds_of ju' \<or> one_mutop ju'"
proof (cases "Stop \<in> kinds_of ju")
  case True
  then have "kinds_of ju \<subseteq> {Stop, Nop}" using assms(1,2) by (auto simp: conflict_iff)
  then show ?thesis using assms(4) by (auto simp: one_mutop_def has_suspend_kinds)
next
  case False
  then show ?thesis using assms(3,4) one_mutop_mono by blast
qed

text \<open>The entry after its next job has been chosen: it is triggered, and nothing else is ready.\<close>

definition triggered :: "job_id \<Rightarrow> job_unit \<Rightarrow> bool" where
  "triggered j ju \<longleftrightarrow> ju_trigger ju = Some j \<and> \<not> ju_interrupt ju \<and> \<not> ju_retrigger ju \<and> ju_order ju \<and>
     \<not> ju_ready ju \<and> \<not> ju_pause ju \<and> ju_dirty ju"

lemma do_next_trigger_suspend_total:
  assumes inv: "ju_inv w ju" and "ready_of ju = Some True"
  shows "\<exists>j ju'. do_next_trigger w ju = Some (j, ju_trigger ju, ju') \<and> triggered j ju' \<and>
    map_of (ju_suspends ju) (kind_of w j) = Some j \<and>
    ju_suspends ju' = AList.delete (kind_of w j) (ju_suspends ju) \<and>
    ju_ordered w ju' \<and> ju_unit ju' = ju_unit ju \<and> ju_up_ready ju' = ju_up_ready ju"
proof -
  have st: "ju_order ju" "\<not> ju_pause ju" "ju_interrupt ju \<or> ju_trigger ju = None \<and> ju_sq ju \<noteq> []"
    using assms(2) by (auto simp: ready_of_def split: if_splits)
  have ord: "ju_ordered w ju" and core: "ju_core w ju" using inv st(1) by (auto simp: ju_inv_def)
  have "ju_sq ju \<noteq> []" using st(3) ord by (auto simp: ju_ordered_def)
  then obtain j q where q: "ju_sq ju = j # q" by (cases "ju_sq ju") auto
  then have qo: "queue_of ju = j # q" using ord by (auto simp: ju_ordered_def)
  define ju1 where "ju1 = ju\<lparr>ju_interrupt := False, ju_retrigger := False, ju_trigger := Some j, ju_sq := q,
    ju_suspends := AList.delete (kind_of w j) (ju_suspends ju), ju_dirty := True\<rparr>"
  note wf = ju_coreD(1) [OF core]
  note tl = queue_of_tl [OF wf _ _ qo]
  have nc: "\<not> is_suspends_conflict ju" "Stop \<in> kinds_of ju \<or> one_mutop ju"
    using ord by (auto simp: ju_ordered_def)
  let ?d = "ju\<lparr>ju_suspends := AList.delete (kind_of w j) (ju_suspends ju)\<rparr>"
  have same: "queue_of ju1 = queue_of ?d" "kinds_of ju1 = kinds_of ?d"
    by (intro queue_of_cong kinds_of_cong, simp add: ju1_def)+
  have sub: "kinds_of ju1 \<subseteq> kinds_of ju" by (auto simp: same kinds_of_delete)
  have so: "susp_ok ju" "susp_ok ju1" using susp_wfD(1) [OF wf] by (auto simp: ju1_def distinct_delete)
  have "q = queue_of ju1 \<or> q = [] \<and> kinds_of ju1 = {Nop}"
    unfolding same using tl(2) nc by simp
  moreover have "\<not> (q \<noteq> [] \<and> stop_like w (hd q))" using tl(3) nc by (cases q) simp_all
  moreover have "ju_sq ju1 = q" "\<not> ju_interrupt ju1" by (simp_all add: ju1_def)
  ultimately have "ju_ordered w ju1"
    using conflict_mono [OF so nc(1) sub] mutop_after_delete [OF so(1) nc sub]
    by (intro ju_ordered_def [THEN iffD2] conjI) simp_all
  have "ready_of ju1 = None" by (simp add: ready_of_def ju1_def)
  have "interrupt_ok ju1" by (simp add: interrupt_ok_def ju1_def)
  moreover have "do_next_trigger_suspend w ju =
      map_option (\<lambda>ju'. (j, ju_trigger ju, ju')) (update_ready ju1)"
  proof (cases "ju_interrupt ju")
    case True
    then show ?thesis using st(1) q
      by (simp add: do_next_trigger_suspend_def Let_def ju1_def map_conv_bind_option comp_def)
  next
    case False
    then have "ju_trigger ju = None" using st(3) by simp
    moreover from this have "\<not> ju_retrigger ju"
      using ju_coreD(2) [OF core] by (auto simp: trigger_wf_def)
    ultimately have "ju1 = ju\<lparr>ju_trigger := Some j, ju_sq := q,
        ju_suspends := AList.delete (kind_of w j) (ju_suspends ju), ju_dirty := True\<rparr>"
      using False by (simp add: ju1_def)
    then show ?thesis using st(1) q False \<open>ju_trigger ju = None\<close>
      by (simp add: do_next_trigger_suspend_def Let_def map_conv_bind_option comp_def)
  qed
  ultimately have "do_next_trigger w ju = Some (j, ju_trigger ju, with_ready ju1)"
    using ju_inv_interrupt_ok [OF inv] assms(2)
    by (simp add: do_next_trigger_def calc_ready_eq update_ready_with)
  moreover have "triggered j (with_ready ju1)"
    using \<open>ready_of ju1 = None\<close> st by (simp add: triggered_def ju1_def)
  ultimately show ?thesis
    using \<open>ju_ordered w ju1\<close> tl(1) nc by (auto simp: ju1_def)
qed

lemma do_next_trigger_retrigger_total:
  assumes inv: "ju_inv w ju" and "ready_of ju = Some False"
  shows "\<exists>j ju'. do_next_trigger w ju = Some (j, None, ju') \<and> triggered j ju' \<and>
    ju_trigger ju = Some j \<and> ju_suspends ju' = ju_suspends ju \<and>
    ju_ordered w ju' \<and> ju_unit ju' = ju_unit ju \<and> ju_up_ready ju' = ju_up_ready ju"
proof -
  have st: "ju_order ju" "\<not> ju_pause ju" "\<not> ju_interrupt ju" "ju_retrigger ju"
    and "ju_trigger ju \<noteq> None"
    using assms(2) by (auto simp: ready_of_def split: if_splits)
  then obtain j where j: "ju_trigger ju = Some j" by auto
  define ju1 where "ju1 = ju\<lparr>ju_retrigger := False, ju_dirty := True\<rparr>"
  have same: "queue_of ju1 = queue_of ju" "kinds_of ju1 = kinds_of ju"
    "is_suspends_conflict ju1 = is_suspends_conflict ju" "one_mutop ju1 = one_mutop ju"
    by (intro queue_of_cong kinds_of_cong conflict_cong one_mutop_cong, simp add: ju1_def)+
  have "ju_ordered w ju" using inv st(1) by (simp add: ju_inv_def)
  then have "ju_ordered w ju1" unfolding ju_ordered_def same by (simp add: ju1_def)
  moreover have "ready_of ju1 = None" using st j by (simp add: ready_of_def ju1_def)
  moreover have "interrupt_ok ju1" using st by (simp add: interrupt_ok_def ju1_def)
  moreover from this have "do_next_trigger w ju = Some (j, None, with_ready ju1)"
    using ju_inv_interrupt_ok [OF inv] assms(2) st j
    by (simp add: do_next_trigger_def calc_ready_eq do_next_trigger_retrigger_def ju1_def [symmetric]
        update_ready_with)
  moreover have "triggered j (with_ready ju1)"
    using \<open>ready_of ju1 = None\<close> st j by (simp add: triggered_def ju1_def)
  ultimately show ?thesis using j by (auto simp: ju1_def)
qed

lemma job_merge_attr_total:
  assumes "stage_of w j = Wait" and "kind_of w j = kind_of w t" and "job_is_basic_op (kind_of w j)"
  shows "\<exists>w'. job_merge_attr j t w = Some w' \<and>
    jw_job w' = (jw_job w)(j := (jw_job w j)\<lparr>j_attr := job_attr_or (attr_of w j) (attr_of w t)\<rparr>)"
  using assms by (simp add: job_merge_attr_def rentry_suspends_insert_def suspends_insert_def Let_def)

text \<open>The interrupted job is merged and finished, then the chosen job runs.\<close>

definition merge_interrupted :: "job_id \<Rightarrow> job_id option \<Rightarrow> 'w jworld \<Rightarrow> 'w jworld option" where
  "merge_interrupted cur merge_trigger w =
     (case merge_trigger of
        Some j \<Rightarrow> do {
          w' \<leftarrow> (if kind_of w j = kind_of w cur then job_merge_attr cur j w else Some w);
          map_option snd (job_finish Merged j w') }
      | None \<Rightarrow> Some w)"

lemma merge_interrupted_total:
  assumes "\<And>t. m = Some t \<Longrightarrow> t \<noteq> j \<and> stage_of w t = Running \<and> stage_of w j = Wait"
    and "job_is_basic_op (kind_of w j)"
  shows "\<exists>w1 a. merge_interrupted j m w = Some w1 \<and> jw_job w1 j = (jw_job w j)\<lparr>j_attr := a\<rparr> \<and>
    (\<forall>t. m = Some t \<longrightarrow> jw_job w1 t = (jw_job w t)\<lparr>j_stage := End Merged\<rparr>) \<and>
    (\<forall>k. k \<noteq> j \<longrightarrow> m \<noteq> Some k \<longrightarrow> jw_job w1 k = jw_job w k)"
proof (cases m)
  case None
  then show ?thesis
    by (intro exI [of _ w] exI [of _ "attr_of w j"]) (simp add: merge_interrupted_def)
next
  case (Some t)
  obtain w' a where w': "(if kind_of w t = kind_of w j then job_merge_attr j t w else Some w) = Some w'"
    "jw_job w' = (jw_job w)(j := (jw_job w j)\<lparr>j_attr := a\<rparr>)"
  proof (cases "kind_of w t = kind_of w j")
    case True
    then show ?thesis using that job_merge_attr_total [of w j t] assms Some by auto
  next
    case False
    then show ?thesis using that [of w "attr_of w j"] by simp
  qed
  moreover have "stage_of w' t = Running" "t \<noteq> j" using assms(1) [OF Some] w'(2) by auto
  moreover from this obtain w1 where "job_finish Merged t w' = Some (False, w1)"
    "jw_job w1 = (jw_job w')(t := (jw_job w' t)\<lparr>j_stage := End Merged\<rparr>)"
    using job_finish_total [of w' t Merged] by auto
  ultimately show ?thesis using Some by (auto simp: merge_interrupted_def)
qed

lemma do_trigger_eq:
  "do_next_trigger w ju = Some (cur, m, ju1) \<Longrightarrow> merge_interrupted cur m w = Some w1 \<Longrightarrow>
   job_run U cur w1 = Some (ret, w2) \<Longrightarrow>
   do_trigger U (ju, w) =
     (case ret of
        Inr () \<Rightarrow> Some ((job_info_map (jw_job w cur), None), m, ju1, w2)
      | Inl None \<Rightarrow> do {
          ju2 \<leftarrow> ju_set_pause ju1;
          ju3 \<leftarrow> retrigger_trigger ju2;
          Some ((job_info_map (jw_job w cur), None), m, ju3, w2) }
      | Inl (Some r) \<Rightarrow> Some ((job_info_map (jw_job w cur), Some r), m, ju1, w2))"
  by (simp add: do_trigger_def Let_def merge_interrupted_def)

lemma job_ok_running [simp]: "job_ok jb \<Longrightarrow> job_ok (jb\<lparr>j_attr := a, j_stage := Running\<rparr>)"
  by (simp add: job_ok_def job_rkind_ok_def)

text \<open>What is left suspended and what is now running form an entry that satisfies the invariant.\<close>

lemma ju_inv_triggered:
  assumes core: "ju_core w ju" and tr: "triggered j ju'" and "ju_ordered w ju'"
    and u: "ju_unit ju' = ju_unit ju" "j_unit (jw_job w j) = ju_unit ju"
    and jb: "job_ok (jw_job w j)" "job_is_basic_op (kind_of w j)"
    and susp: "susp_ok ju'" "\<And>k i. map_of (ju_suspends ju') k = Some i \<Longrightarrow>
      map_of (ju_suspends ju) k = Some i \<and> i \<noteq> j \<and> m \<noteq> Some i"
    and heap: "jw_job w2 j = (jw_job w j)\<lparr>j_attr := a, j_stage := Running\<rparr>"
      "\<And>t. m = Some t \<Longrightarrow> jw_job w2 t = (jw_job w t)\<lparr>j_stage := End Merged\<rparr>"
      "\<And>k. k \<noteq> j \<Longrightarrow> m \<noteq> Some k \<Longrightarrow> jw_job w2 k = jw_job w k"
  shows "ju_inv w2 ju'"
proof -
  note wf = ju_coreD(1) [OF core]
  have "kind_of w2 i = kind_of w i" for i
  proof -
    consider "i = j" | "m = Some i" | "i \<noteq> j" "m \<noteq> Some i" by blast
    then show ?thesis by cases (simp_all add: heap(1), simp_all add: heap(2,3))
  qed
  then have "ju_ordered w2 ju'" using assms(3) ju_ordered_kinds by blast
  moreover have "susp_wf w2 Wait ju'"
    by (rule susp_wf_sub [OF wf susp(1) u(1)]) (simp add: susp(2) heap(3))
  moreover have "trigger_wf w2 ju'"
    using tr heap(1) jb u by (simp add: trigger_wf_def triggered_def)
  moreover have "ready_of ju' = None" "\<not> ju_ready ju'"
    using tr by (auto simp: ready_of_def triggered_def)
  ultimately show ?thesis by (simp add: ju_inv_def ju_core_def)
qed

lemma ju_pause_retrigger:
  assumes "triggered j ju"
  shows "\<exists>ju2 ju3. ju_set_pause ju = Some ju2 \<and> retrigger_trigger ju2 = Some ju3 \<and>
    ju3 = with_ready (ju\<lparr>ju_dirty := True, ju_pause := True, ju_retrigger := True\<rparr>)"
proof -
  have "interrupt_ok (ju\<lparr>ju_dirty := True, ju_pause := True\<rparr>)"
    using assms by (simp add: interrupt_ok_def triggered_def)
  moreover have "interrupt_ok (with_ready (ju\<lparr>ju_dirty := True, ju_pause := True\<rparr>)\<lparr>ju_retrigger := True, ju_dirty := True\<rparr>)"
    using assms by (simp add: interrupt_ok_def triggered_def)
  ultimately show ?thesis
    using assms
    by (simp add: ju_set_pause_def retrigger_trigger_def triggered_def update_ready_with)
      (simp add: with_ready_def ready_of_def)
qed

lemma ju_inv_paused:
  assumes "ju_inv w ju" and "ju_trigger ju \<noteq> None"
  shows "ju_inv w (with_ready (ju\<lparr>ju_dirty := True, ju_pause := True, ju_retrigger := True\<rparr>))"
proof (rule ju_inv_with_ready)
  let ?j = "ju\<lparr>ju_dirty := True, ju_pause := True, ju_retrigger := True\<rparr>"
  show "ju_core w ?j" using assms by (auto simp: ju_inv_def ju_core_def susp_wf_def trigger_wf_def)
  have same: "queue_of ?j = queue_of ju" "kinds_of ?j = kinds_of ju"
    "is_suspends_conflict ?j = is_suspends_conflict ju" "one_mutop ?j = one_mutop ju"
    by (intro queue_of_cong kinds_of_cong conflict_cong one_mutop_cong, simp)+
  show "ju_ordered w ?j" if "ju_order ?j"
    using that assms(1) unfolding ju_inv_def ju_ordered_def same by simp
qed

definition run_outcome ::
  "'w jworld \<Rightarrow> job_unit \<Rightarrow> job_id \<Rightarrow> job_id option \<Rightarrow> job_info \<times> job_result option \<Rightarrow> job_unit \<Rightarrow> 'w jworld \<Rightarrow> bool" where
  "run_outcome w ju1 j m info ju' w' \<longleftrightarrow> fst info = job_info_map (jw_job w j) \<and>
    ju_inv w' ju' \<and> \<not> ju_ready ju' \<and> ju_trigger ju' = Some j \<and> ju_suspends ju' = ju_suspends ju1 \<and>
    ju_unit ju' = ju_unit ju1 \<and> ju_up_ready ju' = ju_up_ready ju1 \<and> ju_order ju' \<and>
    (\<exists>a. jw_job w' j = (jw_job w j)\<lparr>j_attr := a, j_stage := Running\<rparr>) \<and>
    (\<forall>t. m = Some t \<longrightarrow> jw_job w' t = (jw_job w t)\<lparr>j_stage := End Merged\<rparr>) \<and>
    (\<forall>k. k \<noteq> j \<longrightarrow> m \<noteq> Some k \<longrightarrow> jw_job w' k = jw_job w k)"

lemma do_trigger_finish:
  fixes w :: "'w jworld"
  assumes nx: "do_next_trigger w ju = Some (j, m, ju1)" and tr: "triggered j ju1"
    and m: "\<And>t. m = Some t \<Longrightarrow> t \<noteq> j \<and> stage_of w t = Running \<and> stage_of w j = Wait"
    and jb: "job_ok (jw_job w j)" "job_is_basic_op (kind_of w j)" "stage_of w j = Wait \<or> stage_of w j = Running"
    and core: "ju_core w ju" and ord: "ju_ordered w ju1"
    and u: "ju_unit ju1 = ju_unit ju" "j_unit (jw_job w j) = ju_unit ju"
    and susp: "susp_ok ju1" "\<And>k i. map_of (ju_suspends ju1) k = Some i \<Longrightarrow>
      map_of (ju_suspends ju) k = Some i \<and> i \<noteq> j \<and> m \<noteq> Some i"
  shows "\<exists>info ju' w'. do_trigger U (ju, w) = Some (info, m, ju', w') \<and> run_outcome w ju1 j m info ju' w'"
proof -
  obtain w1 a where w1: "merge_interrupted j m w = Some w1" "jw_job w1 j = (jw_job w j)\<lparr>j_attr := a\<rparr>"
    "\<forall>t. m = Some t \<longrightarrow> jw_job w1 t = (jw_job w t)\<lparr>j_stage := End Merged\<rparr>"
    "\<forall>k. k \<noteq> j \<longrightarrow> m \<noteq> Some k \<longrightarrow> jw_job w1 k = jw_job w k"
    using merge_interrupted_total [OF m jb(2)] by blast
  have "job_ok (jw_job w1 j)" using jb(1) w1(2) by (simp add: job_ok_def job_rkind_ok_def)
  then obtain ret w2 where run: "job_run U j w1 = Some (ret, w2)"
    using job_run_total [of w1 j U] jb w1(2) by auto
  have h: "jw_job w2 = (jw_job w1)(j := (jw_job w1 j)\<lparr>j_stage := Running\<rparr>)"
    using job_run_heap [OF run] by simp
  have heap: "jw_job w2 j = (jw_job w j)\<lparr>j_attr := a, j_stage := Running\<rparr>"
    "\<And>t. m = Some t \<Longrightarrow> jw_job w2 t = (jw_job w t)\<lparr>j_stage := End Merged\<rparr>"
    "\<And>k. k \<noteq> j \<Longrightarrow> m \<noteq> Some k \<Longrightarrow> jw_job w2 k = jw_job w k"
    using h w1(2-4) m by auto
  have i: "ju_inv w2 ju1" by (rule ju_inv_triggered [OF core tr ord u jb(1,2) susp heap])
  obtain ju2 ju3 where p: "ju_set_pause ju1 = Some ju2" "retrigger_trigger ju2 = Some ju3"
    "ju3 = with_ready (ju1\<lparr>ju_dirty := True, ju_pause := True, ju_retrigger := True\<rparr>)"
    using ju_pause_retrigger [OF tr] by blast
  have i3: "ju_inv w2 ju3" using ju_inv_paused [OF i] p(3) tr by (simp add: triggered_def)
  have t3: "\<not> ju_ready ju3" "ju_trigger ju3 = Some j" "ju_suspends ju3 = ju_suspends ju1"
    "ju_unit ju3 = ju_unit ju1" "ju_up_ready ju3 = ju_up_ready ju1" "ju_order ju3"
    using tr p(3) by (simp_all add: ready_of_def triggered_def)
  have t1: "\<not> ju_ready ju1" "ju_trigger ju1 = Some j" "ju_order ju1" using tr by (simp_all add: triggered_def)
  note eq = do_trigger_eq [OF nx w1(1) run]
  define good where "good = (\<lambda>ju'. ju_inv w2 ju' \<and> \<not> ju_ready ju' \<and> ju_trigger ju' = Some j \<and>
    ju_suspends ju' = ju_suspends ju1 \<and> ju_unit ju' = ju_unit ju1 \<and> ju_up_ready ju' = ju_up_ready ju1 \<and>
    ju_order ju')"
  have "good ju1" "good ju3" using i i3 t1 t3 by (simp_all add: good_def)
  moreover have "\<exists>info ju'. do_trigger U (ju, w) = Some (info, m, ju', w2) \<and>
      fst info = job_info_map (jw_job w j) \<and> (ju' = ju1 \<or> ju' = ju3)"
    unfolding eq using p(1,2) by (auto split: sum.splits option.splits unit.splits)
  ultimately obtain info ju' where "do_trigger U (ju, w) = Some (info, m, ju', w2)"
    "fst info = job_info_map (jw_job w j)" "good ju'" by blast
  then show ?thesis using heap unfolding good_def run_outcome_def by blast
qed

text \<open>The outcome of a trigger, for an entry that is ready.\<close>

definition trigger_outcome ::
  "'w jworld \<Rightarrow> job_unit \<Rightarrow> job_info \<times> job_result option \<Rightarrow> job_id option \<Rightarrow> job_unit \<Rightarrow> 'w jworld \<Rightarrow> bool" where
  "trigger_outcome w ju info m ju' w' \<longleftrightarrow>
     (\<exists>j a. ju_inv w' ju' \<and> \<not> ju_ready ju' \<and> ju_order ju' \<and> ju_trigger ju' = Some j \<and>
        ju_unit ju' = ju_unit ju \<and> ju_up_ready ju' = ju_up_ready ju \<and>
        fst info = job_info_map (jw_job w j) \<and> j \<in> jobs_of ju \<and>
        jw_job w' j = (jw_job w j)\<lparr>j_attr := a, j_stage := Running\<rparr> \<and>
        (ju_trigger ju = Some j \<or> m = ju_trigger ju) \<and>
        jobs_of ju' = jobs_of ju - set_option m \<and> set_option m \<subseteq> set_option (ju_trigger ju) - {j} \<and>
        (\<forall>t. m = Some t \<longrightarrow> jw_job w' t = (jw_job w t)\<lparr>j_stage := End Merged\<rparr>) \<and>
        (\<forall>k. k \<noteq> j \<longrightarrow> m \<noteq> Some k \<longrightarrow> jw_job w' k = jw_job w k))"

lemma ran_delete_susp:
  assumes "susp_wf w st ju" and "map_of (ju_suspends ju) k = Some j"
  shows "ran (map_of (AList.delete k (ju_suspends ju))) = ran (map_of (ju_suspends ju)) - {j}"
proof -
  let ?S = "map_of (ju_suspends ju)"
  have 1: "x \<noteq> j" if "k' \<noteq> k" "?S k' = Some x" for k' x
    using that susp_wf_inj [OF assms(1), of k' x k] assms(2) by blast
  have 2: "k' \<noteq> k" if "x \<noteq> j" "?S k' = Some x" for k' x
    using that assms(2) by auto
  have "ran (map_of (AList.delete k (ju_suspends ju))) = {x. \<exists>k'. k' \<noteq> k \<and> ?S k' = Some x}"
    by (auto simp: ran_def delete_conv')
  also have "\<dots> = ran ?S - {j}" unfolding ran_def using 1 2 by blast
  finally show ?thesis .
qed

lemma trigger_not_suspended:
  assumes "ju_core w ju" and "ju_trigger ju = Some t"
  shows "t \<notin> ran (map_of (ju_suspends ju))" and "stage_of w t = Running"
  using assms by (auto simp: ju_core_def trigger_wf_def ran_def dest: susp_wfD(4))

lemma trigger_outcomeI:
  assumes "run_outcome w ju1 j m info ju' w'" and "ju_unit ju1 = ju_unit ju" "ju_up_ready ju1 = ju_up_ready ju"
    and "ran (map_of (ju_suspends ju1)) \<union> {j} = jobs_of ju - set_option m" and "j \<in> jobs_of ju"
    and "ju_trigger ju = Some j \<or> m = ju_trigger ju" and "set_option m \<subseteq> set_option (ju_trigger ju) - {j}"
  shows "trigger_outcome w ju info m ju' w'"
proof -
  have "jobs_of ju' = jobs_of ju - set_option m"
    using assms(1,4) by (simp add: run_outcome_def jobs_of_def)
  with assms show ?thesis unfolding run_outcome_def trigger_outcome_def by metis
qed

lemma do_trigger_suspended:
  assumes inv: "ju_inv w ju" and r: "ready_of ju = Some True"
  shows "\<exists>info m ju' w'. do_trigger U (ju, w) = Some (info, m, ju', w') \<and> trigger_outcome w ju info m ju' w'"
proof -
  obtain j ju1 where nx: "do_next_trigger w ju = Some (j, ju_trigger ju, ju1)" "triggered j ju1"
    "map_of (ju_suspends ju) (kind_of w j) = Some j"
    "ju_suspends ju1 = AList.delete (kind_of w j) (ju_suspends ju)"
    "ju_ordered w ju1" "ju_unit ju1 = ju_unit ju" "ju_up_ready ju1 = ju_up_ready ju"
    using do_next_trigger_suspend_total [OF inv r] by blast
  have core: "ju_core w ju" using inv by (simp add: ju_inv_def)
  note wf = ju_coreD(1) [OF core]
  note jb = susp_wfD(3-6) [OF wf nx(3)]
  have m: "t \<noteq> j \<and> stage_of w t = Running \<and> stage_of w j = Wait" if "ju_trigger ju = Some t" for t
    using trigger_not_suspended [OF core that] nx(3) jb(2) by (auto simp: ran_def)
  have ran: "ran (map_of (ju_suspends ju1)) = ran (map_of (ju_suspends ju)) - {j}"
    using ran_delete_susp [OF wf nx(3)] nx(4) by simp
  have s: "susp_ok ju1" using susp_wfD(1) [OF wf] nx(4) by (simp add: distinct_delete)
  have s2: "map_of (ju_suspends ju) k = Some i \<and> i \<noteq> j \<and> ju_trigger ju \<noteq> Some i"
    if "map_of (ju_suspends ju1) k = Some i" for k i
  proof -
    have "i \<noteq> j" using ran that by (auto simp: ran_def)
    moreover have "map_of (ju_suspends ju) k = Some i"
      using that nx(4) by (simp add: delete_conv' split: if_splits)
    ultimately show ?thesis using trigger_not_suspended(1) [OF core, of i] by (auto simp: ran_def)
  qed
  obtain info ju' w' where d: "do_trigger U (ju, w) = Some (info, ju_trigger ju, ju', w')"
    "run_outcome w ju1 j (ju_trigger ju) info ju' w'"
    using do_trigger_finish [OF nx(1,2) m jb(3,1) disjI1 [OF jb(2)] core nx(5,6) jb(4) s s2, of U] by blast
  have j: "j \<in> jobs_of ju" using nx(3) by (auto simp: jobs_of_def ran_def)
  have "trigger_outcome w ju info (ju_trigger ju) ju' w'"
  proof (rule trigger_outcomeI [OF d(2) nx(6,7) _ j])
    show "ran (map_of (ju_suspends ju1)) \<union> {j} = jobs_of ju - set_option (ju_trigger ju)"
      unfolding ran using trigger_not_suspended(1) [OF core] nx(3) m
      by (auto simp: jobs_of_def ran_def)
    show "set_option (ju_trigger ju) \<subseteq> set_option (ju_trigger ju) - {j}" using m by auto
  qed simp
  with d(1) show ?thesis by blast
qed

lemma do_trigger_retriggered:
  assumes inv: "ju_inv w ju" and r: "ready_of ju = Some False"
  shows "\<exists>info m ju' w'. do_trigger U (ju, w) = Some (info, m, ju', w') \<and> trigger_outcome w ju info m ju' w'"
proof -
  obtain j ju1 where nx: "do_next_trigger w ju = Some (j, None, ju1)" "triggered j ju1"
    "ju_trigger ju = Some j" "ju_suspends ju1 = ju_suspends ju"
    "ju_ordered w ju1" "ju_unit ju1 = ju_unit ju" "ju_up_ready ju1 = ju_up_ready ju"
    using do_next_trigger_retrigger_total [OF inv r] by blast
  have core: "ju_core w ju" using inv by (simp add: ju_inv_def)
  have jb: "job_ok (jw_job w j)" "job_is_basic_op (kind_of w j)" "j_unit (jw_job w j) = ju_unit ju"
    "stage_of w j = Running"
    using ju_coreD(2) [OF core] nx(3) by (simp_all add: trigger_wf_def)
  have s: "susp_ok ju1" using susp_wfD(1) [OF ju_coreD(1) [OF core]] nx(4) by simp
  have s2: "map_of (ju_suspends ju) k = Some i \<and> i \<noteq> j \<and> None \<noteq> Some i"
    if "map_of (ju_suspends ju1) k = Some i" for k i
    using that nx(4) trigger_not_suspended(1) [OF core nx(3)] by (auto simp: ran_def)
  have m: "t \<noteq> j \<and> stage_of w t = Running \<and> stage_of w j = Wait" if "None = Some t" for t
    using that by simp
  obtain info ju' w' where d: "do_trigger U (ju, w) = Some (info, None, ju', w')"
    "run_outcome w ju1 j None info ju' w'"
    using do_trigger_finish [OF nx(1,2) m jb(1,2) disjI2 [OF jb(4)] core nx(5,6) jb(3) s s2, of U] by blast
  have j: "j \<in> jobs_of ju" using nx(3) by (simp add: jobs_of_def)
  have "trigger_outcome w ju info None ju' w'"
    by (rule trigger_outcomeI [OF d(2) nx(6,7) _ j]) (use nx(3,4) in \<open>auto simp: jobs_of_def\<close>)
  with d(1) show ?thesis by blast
qed

lemma do_trigger_total:
  assumes inv: "ju_inv w ju" and "ju_ready ju"
  shows "\<exists>info m ju' w'. do_trigger U (ju, w) = Some (info, m, ju', w') \<and> trigger_outcome w ju info m ju' w'"
proof -
  obtain s where "ready_of ju = Some s" using assms by (auto simp: ju_inv_def)
  then show ?thesis
    using do_trigger_suspended [OF inv, of U] do_trigger_retriggered [OF inv, of U] by (cases s) simp_all
qed

section \<open>Finishing, pausing and resuming keep the invariant\<close>

lemma ju_ordered_same:
  assumes "ju_ordered w ju" and "ju_suspends ju' = ju_suspends ju" "ju_sq ju' = ju_sq ju"
    and "ju_interrupt ju' \<longleftrightarrow> ju_trigger ju' \<noteq> None \<and> ju_sq ju \<noteq> [] \<and> stop_like w (hd (ju_sq ju))"
  shows "ju_ordered w ju'"
  using assms(1,3,4) unfolding ju_ordered_def same_suspends [OF assms(2)] by simp

lemma ju_inv_pause_flags:
  assumes "ju_inv w ju"
  shows "ju_inv w (with_ready (ju\<lparr>ju_dirty := d, ju_pause := p\<rparr>))"
proof (rule ju_inv_with_ready)
  let ?j = "ju\<lparr>ju_dirty := d, ju_pause := p\<rparr>"
  show "ju_core w ?j"
    using assms by (simp add: ju_inv_def ju_core_def susp_wf_def trigger_wf_def split: option.splits)
  show "ju_ordered w ?j" if "ju_order ?j"
  proof -
    have ord: "ju_ordered w ju" using that assms by (simp add: ju_inv_def)
    show ?thesis by (rule ju_ordered_same [OF ord]) (use ord in \<open>simp_all add: ju_ordered_def\<close>)
  qed
qed

lemma ju_set_pause_total:
  assumes "ju_inv w ju" and "ju_order ju"
  shows "ju_set_pause ju = Some (with_ready (ju\<lparr>ju_dirty := True, ju_pause := True\<rparr>))"
  using assms by (simp add: ju_set_pause_def update_ready_with interrupt_ok_def)
    (use ju_inv_interrupt_ok [OF assms(1)] in \<open>simp add: interrupt_ok_def update_ready_with\<close>)

lemma ju_resume_total:
  assumes "ju_inv w ju" and "ju_order ju"
  shows "ju_resume ju = Some (with_ready (ju\<lparr>ju_dirty := True, ju_pause := False\<rparr>))"
  using assms ju_inv_interrupt_ok [OF assms(1)]
  by (simp add: ju_resume_def interrupt_ok_def update_ready_with)

lemma ju_inv_dirty [simp]: "ju_inv w (ju\<lparr>ju_dirty := b\<rparr>) = ju_inv w ju"
proof -
  have "ju_ordered w (ju\<lparr>ju_dirty := b\<rparr>) = ju_ordered w ju"
    unfolding ju_ordered_def using same_suspends [of "ju\<lparr>ju_dirty := b\<rparr>" ju] by simp
  then show ?thesis by (simp add: ju_inv_def ju_core_def susp_wf_def trigger_wf_def split: option.split)
qed

lemma ju_inv_up_ready [simp]: "ju_inv w (ju\<lparr>ju_up_ready := b\<rparr>) = ju_inv w ju"
proof -
  have "ju_ordered w (ju\<lparr>ju_up_ready := b\<rparr>) = ju_ordered w ju"
    unfolding ju_ordered_def using same_suspends [of "ju\<lparr>ju_up_ready := b\<rparr>" ju] by simp
  then show ?thesis by (simp add: ju_inv_def ju_core_def susp_wf_def trigger_wf_def split: option.split)
qed

lemma job_finish_cases:
  assumes "stage_of w j = Running" and "job_rkind_ok (jw_job w j)"
  shows "\<exists>w'. job_finish r j w = Some (r = Done \<and> kind_of w j = Restart \<and> j_run_kind (jw_job w j) = Stop, w')"
proof -
  have "job_finish r j w \<noteq> None" using assms(1) by (simp add: job_finish_def Let_def split_beta)
  then obtain b w' where f: "job_finish r j w = Some (b, w')" by auto
  show ?thesis by (rule exI [of _ w']) (simp only: f job_finish_heap(2) [OF f assms(2)])
qed

lemma finish_trigger_ended:
  assumes inv: "ju_inv w ju" and "ju_order ju" and t: "ju_trigger ju = Some t"
    and f: "job_finish r t w = Some (False, w')"
  shows "\<exists>ju'. finish_trigger r (ju, w) = Some (Some t, ju', w') \<and> ju_inv w' ju' \<and> ju_trigger ju' = None \<and>
    ju_suspends ju' = ju_suspends ju \<and> ju_unit ju' = ju_unit ju \<and> ju_up_ready ju' = ju_up_ready ju \<and>
    ju_order ju' \<and> ju_sq ju' = ju_sq ju"
proof -
  let ?j = "ju\<lparr>ju_interrupt := False, ju_retrigger := False, ju_trigger := None, ju_dirty := True\<rparr>"
  have core: "ju_core w ju" and ord: "ju_ordered w ju" using inv assms(2) by (auto simp: ju_inv_def)
  have rk: "job_rkind_ok (jw_job w t)" using ju_coreD(2) [OF core] t by (simp add: trigger_wf_def job_ok_def)
  have heap: "jw_job w' = (jw_job w)(t := (jw_job w t)\<lparr>j_stage := End r\<rparr>)"
    using job_finish_heap(3) [OF f rk] by simp
  have "interrupt_ok ?j" by (simp add: interrupt_ok_def)
  then have "finish_trigger r (ju, w) = Some (Some t, with_ready ?j, w')"
    using assms(2) t f by (simp add: finish_trigger_def update_ready_with)
  moreover have "ju_inv w' (with_ready ?j)"
  proof (rule ju_inv_with_ready)
    have "susp_wf w' Wait ?j"
      by (rule susp_wf_sub [OF ju_coreD(1) [OF core]])
        (use susp_wfD(1) [OF ju_coreD(1) [OF core]] trigger_not_suspended(1) [OF core t] heap
         in \<open>auto simp: ran_def\<close>)
    then show "ju_core w' ?j" by (simp add: ju_core_def trigger_wf_def)
    have "ju_ordered w ?j" by (rule ju_ordered_same [OF ord]) simp_all
    then show "ju_ordered w' ?j" using heap by (subst ju_ordered_kinds [of w' w]) auto
  qed
  ultimately show ?thesis using assms(2) by auto
qed

lemma finish_trigger_again:
  assumes inv: "ju_inv w ju" and "ju_order ju" and t: "ju_trigger ju = Some t"
    and f: "job_finish r t w = Some (True, w')"
  shows "\<exists>ju'. finish_trigger r (ju, w) = Some (None, ju', w') \<and> ju_inv w' ju' \<and> ju_trigger ju' = Some t \<and>
    ju_retrigger ju' \<and> (ju_ready ju' \<longleftrightarrow> \<not> ju_pause ju) \<and>
    ju_suspends ju' = ju_suspends ju \<and> ju_unit ju' = ju_unit ju \<and> ju_up_ready ju' = ju_up_ready ju \<and>
    ju_order ju'"
proof -
  let ?j = "ju\<lparr>ju_retrigger := True, ju_dirty := True\<rparr>"
  have core: "ju_core w ju" and ord: "ju_ordered w ju" using inv assms(2) by (auto simp: ju_inv_def)
  have ok: "job_ok (jw_job w t)" and bas: "job_is_basic_op (kind_of w t)"
    and u: "j_unit (jw_job w t) = ju_unit ju"
    using ju_coreD(2) [OF core] t by (simp_all add: trigger_wf_def)
  then have rk: "job_rkind_ok (jw_job w t)" by (simp add: job_ok_def)
  note h = job_finish_heap [OF f rk]
  have heap: "jw_job w' = (jw_job w)(t := (jw_job w t)\<lparr>j_run_kind := Start, j_stage := Running\<rparr>)"
    using h(3) by simp
  have io: "interrupt_ok ?j" "interrupt_ok (with_ready ?j\<lparr>ju_dirty := True\<rparr>)"
    using ju_inv_interrupt_ok [OF inv] by (simp_all add: interrupt_ok_def)
  have wr: "with_ready (with_ready ?j\<lparr>ju_dirty := True\<rparr>) = with_ready ?j"
    by (simp add: with_ready_def ready_of_def)
  have "finish_trigger r (ju, w) = Some (None, with_ready ?j, w')"
    using assms(2) t f io wr by (simp add: finish_trigger_def retrigger_trigger_def update_ready_with)
  moreover have "ju_inv w' (with_ready ?j)"
  proof (rule ju_inv_with_ready)
    have "susp_wf w' Wait ?j"
      by (rule susp_wf_sub [OF ju_coreD(1) [OF core]])
        (use susp_wfD(1) [OF ju_coreD(1) [OF core]] trigger_not_suspended(1) [OF core t] heap
         in \<open>auto simp: ran_def\<close>)
    moreover have "job_ok (jw_job w' t)" using h(2) heap by (simp add: job_ok_def job_rkind_ok_def)
    ultimately show "ju_core w' ?j" using t heap bas u by (simp add: ju_core_def trigger_wf_def)
    have "ju_ordered w ?j" by (rule ju_ordered_same [OF ord]) (use ord in \<open>simp_all add: ju_ordered_def\<close>)
    then show "ju_ordered w' ?j" using heap by (subst ju_ordered_kinds [of w' w]) auto
  qed
  ultimately show ?thesis using assms(2) t by (auto simp: ready_of_def)
qed

section \<open>Properties of one entry\<close>

text \<open>
  Reshuffling. Take an entry with waiting jobs that do not conflict, changed since it was last
  ordered, whose interrupt flag does not dangle. Reshuffling it never panics. It merges start and
  reload into a restart (or one of the two into the other, by the state of the unit), finishes
  exactly the merged jobs with \<open>Merged\<close> and leaves the others alone; at most one job that changes the
  unit's state is left, the queue holds \<open>[stop]\<close> or the (restart, start or reload), verify, nop order
  with at most three jobs, and the entry satisfies its invariant.
\<close>

theorem reshuffle_correct:
  assumes "ju_core w ju" and "\<not> ju_order ju" and "\<not> is_suspends_conflict ju"
    and "\<not> (ju_interrupt ju \<and> kinds_of ju = {})"
  shows "\<exists>ms ju' w'. reshuffle U (ju, w) = Some (ms, ju', w') \<and> ju_inv w' ju' \<and> ju_order ju' \<and>
    ju_sq ju' = queue_of ju' \<and> length (ju_sq ju') \<le> 3 \<and> (Stop \<in> kinds_of ju' \<or> one_mutop ju') \<and>
    kinds_of ju' = kinds_of ju - set (merged_kinds (uo_active_state U (ju_unit ju) (jw_env w)) ju) \<and>
    (\<forall>j. jw_job w' j = (if j \<in> set ms then (jw_job w j)\<lparr>j_stage := End Merged\<rparr> else jw_job w j)) \<and>
    set ms = {j. \<exists>k. map_of (ju_suspends ju) k = Some j \<and> k \<notin> kinds_of ju'}"
proof -
  let ?act = "uo_active_state U (ju_unit ju) (jw_env w)"
  let ?r = "reshuffled w ?act ju"
  note so = susp_wfD(1) [OF ju_coreD(1) [OF assms(1)]]
  obtain w' where w': "reshuffle U (ju, w) = Some (merged_jobs ?act ju, ?r, w')" "reshuffle_heap U ju w w'"
    using reshuffle_unordered [OF assms] by blast
  have k: "kinds_of ?r = kinds_of (merged ?act ju)" "queue_of ?r = queue_of (merged ?act ju)"
    "one_mutop ?r = one_mutop (merged ?act ju)"
    by (intro kinds_of_cong queue_of_cong one_mutop_cong, simp add: reshuffled_def)+
  have len: "length (queue_of ?r) \<le> 3"
    unfolding k by (rule length_queue_le [OF merged_one_mutop [OF so]])
  have ms: "set (merged_jobs ?act ju) = {j. \<exists>k. map_of (ju_suspends ju) k = Some j \<and> k \<notin> kinds_of ?r}"
    unfolding k kinds_of_merged [OF so] by (auto simp: merged_jobs_susp [OF so] kinds_of_def)
  show ?thesis
    by (rule exI [of _ "merged_jobs ?act ju"], rule exI [of _ ?r], rule exI [of _ w'])
      (use w' ju_inv_reshuffled [OF assms(1,3,4) w'(2)] len ms merged_one_mutop [OF so, of ?act]
       in \<open>simp add: k kinds_of_merged [OF so] reshuffle_heap_def Let_def\<close>,
       simp add: reshuffled_def)
qed

definition demo_jobs :: "job_kind list \<Rightarrow> job_stage \<Rightarrow> job_id \<Rightarrow> job" where
  "demo_jobs ks st i = (job_new i ''a'' (if unat i < length ks then ks ! unat i else Nop))\<lparr>j_stage := st\<rparr>"

definition demo_entry :: "(job_kind \<times> job_id) list \<Rightarrow> job_unit" where
  "demo_entry sus = (job_unit_new ''a'')\<lparr>ju_suspends := sus, ju_order := False\<rparr>"

lemmas demo_entry_defs = demo_entry_def demo_jobs_def demo_world_def job_unit_new_def job_new_def
  ju_core_def susp_wf_def trigger_wf_def job_ok_def job_rkind_ok_def is_suspends_conflict_def
  suspends_kind_len_def has_suspend_def num_others_def kinds_of_def

theorem reshuffle_correct_witness:
  "\<exists>ms ju' w'. reshuffle demo_ops (demo_entry [(Start, 0), (Reload, 1), (Verify, 2)],
       demo_world (demo_jobs [Start, Reload, Verify] Wait)) = Some (ms, ju', w') \<and>
     kinds_of ju' = {Start, Verify} \<and> ju_order ju' \<and> set ms = {1}"
proof -
  let ?ju = "demo_entry [(Start, 0), (Reload, 1), (Verify, 2)]"
  let ?w = "demo_world (demo_jobs [Start, Reload, Verify] Wait)"
  have k: "kinds_of ?ju = {Start, Reload, Verify}" "set (merged_kinds UnitInActive ?ju) = {Reload}"
    by (auto simp: demo_entry_defs merged_kinds_def split: if_splits)
  have act: "uo_active_state demo_ops (ju_unit ?ju) (jw_env ?w) = UnitInActive"
    by (simp add: demo_ops_def demo_world_def)
  have "ju_core ?w ?ju" "\<not> ju_order ?ju" "\<not> is_suspends_conflict ?ju" "\<not> ju_interrupt ?ju"
    by (simp_all add: demo_entry_defs)
  from reshuffle_correct [OF this(1,2,3), of demo_ops] this(4)
  obtain ms ju' w' where r: "reshuffle demo_ops (?ju, ?w) = Some (ms, ju', w')" "ju_order ju'"
    "kinds_of ju' = kinds_of ?ju - set (merged_kinds UnitInActive ?ju)"
    "set ms = {j. \<exists>k. map_of (ju_suspends ?ju) k = Some j \<and> k \<notin> kinds_of ju'}"
    unfolding act by blast
  have "kinds_of ju' = {Start, Verify}" using r(3) k by auto
  moreover from this have "set ms = {1}" using r(4) by (auto simp: demo_entry_def split: if_splits)
  ultimately show ?thesis using r by blast
qed

text \<open>
  A dangling interrupt flag. \<open>jobs_merge_trigger_prepare\<close> recomputes \<open>interrupt\<close> only when a job is
  triggered and the queue is not empty. If an interrupting stop or restart was suspended over a running
  job and all suspended jobs are taken away before the next trigger (a flush, an isolate, a removal),
  the flag stays set, and the next reshuffle of the entry fails the assertion of
  \<open>calc_natural_ready_t\<close>: the manager panics.
\<close>

theorem reshuffle_dangling_interrupt_panics:
  assumes "ju_interrupt ju" and "ju_trigger ju = Some t" and "ju_suspends ju = []"
    and "\<not> ju_pause ju" and "\<not> ju_order ju"
  shows "reshuffle U (ju, w) = None"
  using assms
  by (simp add: reshuffle_def is_suspends_conflict_def suspends_kind_len_def has_suspend_def Let_def
      jobs_merge_suspend_merged merged_def merged_kinds_def sq_order_queue one_mutop_def queue_of_def
      merge_trigger_prepare_eq next_interrupt_def update_ready_def calc_ready_cases)

text \<open>The state is reached from a running start, with a stop suspended over it, by a flush.\<close>

theorem reshuffle_dangling_interrupt_panics_witness:
  "\<exists>ju1 w1 ju2 w2 w. w = demo_world (\<lambda>i. if i = 0 then (job_new 0 ''a'' Start)\<lparr>j_stage := Running\<rparr>
       else (job_new i ''a'' Stop)\<lparr>j_stage := Wait\<rparr>) \<and>
     reshuffle demo_ops ((demo_entry [(Stop, 1)])\<lparr>ju_trigger := Some 0\<rparr>, w) = Some ([], ju1, w1) \<and>
     flush_suspends (ju1, w1) = Some ([1], ju2, w2) \<and> reshuffle demo_ops (ju2, w2) = None"
proof -
  define w where "w = demo_world (\<lambda>i. if i = 0 then (job_new 0 ''a'' Start)\<lparr>j_stage := Running\<rparr>
    else (job_new i ''a'' Stop)\<lparr>j_stage := Wait\<rparr>)"
  let ?ju = "(demo_entry [(Stop, 1)])\<lparr>ju_trigger := Some 0\<rparr>"
  let ?r = "?ju\<lparr>ju_order := True, ju_sq := [1], ju_interrupt := True, ju_ready := True\<rparr>"
  have r: "reshuffle demo_ops (?ju, w) = Some ([], ?r, w)"
    by (simp add: reshuffle_def demo_entry_def job_unit_new_def is_suspends_conflict_def
        suspends_kind_len_def has_suspend_def num_others_def Let_def jobs_merge_suspend_def sq_order_def
        sq_order_pushback_def jobs_merge_trigger_prepare_def update_ready_def calc_ready_cases ready_of_def
        finish_all_def w_def demo_world_def job_new_def ex_bool_eq)
  let ?f = "?r\<lparr>ju_suspends := [], ju_order := False, ju_dirty := True, ju_ready := False\<rparr>"
  have "stage_of w 1 = Wait" by (simp add: w_def demo_world_def)
  then obtain w2 where "job_finish Cancelled 1 w = Some (False, w2)"
    using job_finish_total [of w 1 Cancelled] by auto
  then have f: "flush_suspends (?r, w) = Some ([1], ?f, w2)"
    by (simp add: flush_suspends_def demo_entry_def job_unit_new_def update_ready_def calc_ready_cases
        ready_of_def finish_all_def Let_def)
  have "reshuffle demo_ops (?f, w2) = None"
    by (rule reshuffle_dangling_interrupt_panics [where t = 0])
      (simp_all add: demo_entry_def job_unit_new_def)
  with r f show ?thesis unfolding w_def by blast
qed

text \<open>
  (C1) Triggering. On an entry that is ready, \<open>do_trigger\<close> never panics, whatever the unit answers. One of
  the entry's jobs is running afterwards: either the triggered job is run again, or a suspended job
  takes its place, and then the job that ran before is interrupted and ended as \<open>Merged\<close>. No other
  job changes, the entry keeps all its jobs but the interrupted one, satisfies its invariant and is
  no longer ready.
\<close>

theorem do_trigger_correct:
  assumes "ju_inv w ju" and "ju_ready ju"
  shows "\<exists>info m ju' w' j a. do_trigger U (ju, w) = Some (info, m, ju', w') \<and>
    ju_inv w' ju' \<and> \<not> ju_ready ju' \<and> ju_trigger ju' = Some j \<and> j \<in> jobs_of ju \<and>
    fst info = job_info_map (jw_job w j) \<and>
    jw_job w' j = (jw_job w j)\<lparr>j_attr := a, j_stage := Running\<rparr> \<and>
    (ju_trigger ju = Some j \<and> m = None \<or> ju_trigger ju \<noteq> Some j \<and> m = ju_trigger ju) \<and>
    jobs_of ju' = jobs_of ju - set_option m \<and>
    (\<forall>t. m = Some t \<longrightarrow> jw_job w' t = (jw_job w t)\<lparr>j_stage := End Merged\<rparr>) \<and>
    (\<forall>k. k \<noteq> j \<longrightarrow> m \<noteq> Some k \<longrightarrow> jw_job w' k = jw_job w k)"
proof -
  obtain info m ju' w' where d: "do_trigger U (ju, w) = Some (info, m, ju', w')"
    "trigger_outcome w ju info m ju' w'"
    using do_trigger_total [OF assms] by blast
  have "ju_trigger ju = Some j \<and> m = None \<or> ju_trigger ju \<noteq> Some j \<and> m = ju_trigger ju"
    if "ju_trigger ju = Some j \<or> m = ju_trigger ju" "set_option m \<subseteq> set_option (ju_trigger ju) - {j}" for j
    using that by (cases m) auto
  then show ?thesis using d unfolding trigger_outcome_def by blast
qed

theorem do_trigger_correct_witness:
  "\<exists>info m ju' w'. do_trigger demo_ops ((demo_entry [(Start, 0)])\<lparr>ju_order := True, ju_sq := [0],
       ju_ready := True\<rparr>, demo_world (demo_jobs [Start] Wait)) = Some (info, m, ju', w') \<and>
     ju_trigger ju' = Some 0 \<and> stage_of w' 0 = Running"
proof -
  let ?ju = "(demo_entry [(Start, 0)])\<lparr>ju_order := True, ju_sq := [0], ju_ready := True\<rparr>"
  let ?w = "demo_world (demo_jobs [Start] Wait)"
  have "ju_inv ?w ?ju" "ju_ready ?ju"
    by (simp_all add: ju_inv_def ju_ordered_def ready_of_def queue_of_def one_mutop_def demo_entry_defs)
  moreover have "jobs_of ?ju = {0}" by (simp add: jobs_of_def demo_entry_def job_unit_new_def)
  ultimately show ?thesis using do_trigger_correct [of ?w ?ju demo_ops] by force
qed

text \<open>
  Finishing the triggered job. \<open>finish_trigger\<close> on an ordered entry with a triggered job never
  panics. A restart that has finished its stop half with \<open>Done\<close> stays triggered, is marked for
  another trigger and makes the entry ready unless it is paused; every other outcome ends the job with
  the given result and frees the entry's trigger slot. The invariant is kept and no suspended job is
  touched.
\<close>

theorem finish_trigger_correct:
  assumes inv: "ju_inv w ju" and "ju_order ju" and t: "ju_trigger ju = Some t"
  shows "\<exists>d ju' w'. finish_trigger r (ju, w) = Some (d, ju', w') \<and> ju_inv w' ju' \<and>
    ju_suspends ju' = ju_suspends ju \<and> (\<forall>k. k \<noteq> t \<longrightarrow> jw_job w' k = jw_job w k) \<and>
    (if r = Done \<and> kind_of w t = Restart \<and> j_run_kind (jw_job w t) = Stop
     then d = None \<and> ju_trigger ju' = Some t \<and> j_run_kind (jw_job w' t) = Start \<and>
       stage_of w' t = Running \<and> (ju_ready ju' \<longleftrightarrow> \<not> ju_pause ju)
     else d = Some t \<and> ju_trigger ju' = None \<and> stage_of w' t = End r)"
proof -
  have t_ok: "stage_of w t = Running" "job_rkind_ok (jw_job w t)"
    using inv t by (simp_all add: ju_inv_def ju_core_def trigger_wf_def job_ok_def)
  let ?again = "r = Done \<and> kind_of w t = Restart \<and> j_run_kind (jw_job w t) = Stop"
  obtain w' where f: "job_finish r t w = Some (?again, w')" using job_finish_cases [OF t_ok] by blast
  note heap = job_finish_heap(3) [OF f t_ok(2)]
  show ?thesis
  proof (cases ?again)
    case True
    then have "job_finish r t w = Some (True, w')" using f by simp
    from finish_trigger_again [OF inv assms(2) t this] True heap show ?thesis by auto
  next
    case False
    then have "job_finish r t w = Some (False, w')" using f by (metis (full_types))
    from finish_trigger_ended [OF inv assms(2) t this] False heap show ?thesis by auto
  qed
qed

theorem finish_trigger_correct_witness:
  "\<exists>ju' w'. finish_trigger Done ((demo_entry [])\<lparr>ju_order := True, ju_trigger := Some 0\<rparr>,
       demo_world (demo_jobs [Restart] Running)) = Some (None, ju', w') \<and> ju_ready ju'"
proof -
  let ?ju = "(demo_entry [])\<lparr>ju_order := True, ju_trigger := Some 0\<rparr>"
  let ?w = "demo_world (demo_jobs [Restart] Running)"
  have "ju_inv ?w ?ju" "ju_order ?ju" "ju_trigger ?ju = Some 0" "\<not> ju_pause ?ju"
    by (simp_all add: ju_inv_def ju_ordered_def ready_of_def queue_of_def one_mutop_def demo_entry_defs)
  moreover have "kind_of ?w 0 = Restart" "j_run_kind (jw_job ?w 0) = Stop"
    by (simp_all add: demo_world_def demo_jobs_def job_new_def)
  ultimately show ?thesis using finish_trigger_correct [of ?w ?ju 0 Done] by auto
qed

section \<open>Ordering between entries\<close>

abbreviation rk_of :: "'w jworld \<Rightarrow> job_id \<Rightarrow> job_kind" where
  "rk_of w j \<equiv> j_run_kind (jw_job w j)"

definition unordered :: "'w jworld \<Rightarrow> job_id \<Rightarrow> bool" where
  "unordered w j \<longleftrightarrow> ignore_order (attr_of w j) \<or> rk_of w j = Nop"

lemma order_with_After:
  "\<exists>x. job_is_order_with w j k UnitAtomAfter = Some x \<and>
     (x > 0 \<longleftrightarrow> \<not> unordered w j \<and> \<not> unordered w k \<and> rk_of w j \<noteq> Stop)"
proof (cases "rk_of w j = Nop \<or> rk_of w k = Nop")
  case True
  then have "job_order_compare (rk_of w j) (rk_of w k) UnitAtomAfter = 0" by auto
  then show ?thesis using True by (auto simp: job_is_order_with_def unordered_def)
next
  case False
  then show ?thesis by (simp add: job_is_order_with_def unordered_def job_order_compare_After)
qed

lemma order_with_Before:
  "\<exists>x. job_is_order_with w j k UnitAtomBefore = Some x \<and>
     (x > 0 \<longleftrightarrow> \<not> unordered w j \<and> \<not> unordered w k \<and> rk_of w k = Stop)"
proof (cases "rk_of w j = Nop \<or> rk_of w k = Nop")
  case True
  then have "job_order_compare (rk_of w j) (rk_of w k) UnitAtomBefore = 0" by auto
  then show ?thesis using True by (auto simp: job_is_order_with_def unordered_def)
next
  case False
  then show ?thesis by (simp add: job_is_order_with_def unordered_def job_order_compare_Before)
qed

lemma order_scan_After:
  "order_scan w j UnitAtomAfter js =
     Some (unordered w j \<or> rk_of w j = Stop \<or> (\<forall>k \<in> set js. unordered w k))"
proof (induction js)
  case (Cons k js)
  obtain x where "job_is_order_with w j k UnitAtomAfter = Some x"
    "x > 0 \<longleftrightarrow> \<not> unordered w j \<and> \<not> unordered w k \<and> rk_of w j \<noteq> Stop"
    using order_with_After by blast
  then show ?case using Cons by auto
qed simp

lemma order_scan_Before:
  "order_scan w j UnitAtomBefore js =
     Some (unordered w j \<or> (\<forall>k \<in> set js. unordered w k \<or> rk_of w k \<noteq> Stop))"
proof (induction js)
  case (Cons k js)
  obtain x where "job_is_order_with w j k UnitAtomBefore = Some x"
    "x > 0 \<longleftrightarrow> \<not> unordered w j \<and> \<not> unordered w k \<and> rk_of w k = Stop"
    using order_with_Before by blast
  then show ?case using Cons by auto
qed simp

text \<open>The next job of a ready entry: stopping jobs come first.\<close>

lemma job_ok_wait_rk: "job_ok jb \<Longrightarrow> j_stage jb = Wait \<Longrightarrow> j_run_kind jb = job_rkind_new (j_kind jb)"
  by (simp add: job_ok_def)

lemma suspended_rk_Stop:
  assumes "susp_wf w Wait ju" and "i \<in> ran (map_of (ju_suspends ju))"
  shows "rk_of w i = Stop \<longleftrightarrow> stop_like w i"
proof -
  obtain k where "map_of (ju_suspends ju) k = Some i" using assms(2) by (auto simp: ran_def)
  then show ?thesis
    using susp_wfD(4,5) [OF assms(1)] job_ok_wait_rk [of "jw_job w i"] by (auto simp: stop_like_def)
qed

lemma no_stop_suspended:
  assumes wf: "susp_wf w st ju" and ord: "ju_ordered w ju"
    and hd: "ju_sq ju = [] \<or> \<not> stop_like w (hd (ju_sq ju))"
    and i: "i \<in> ran (map_of (ju_suspends ju))"
  shows "\<not> stop_like w i"
proof -
  obtain k where k: "map_of (ju_suspends ju) k = Some i" using i by (auto simp: ran_def)
  have "Stop \<notin> kinds_of ju \<and> Restart \<notin> kinds_of ju"
  proof (cases "ju_sq ju = queue_of ju")
    case True
    have "queue_of ju \<noteq> []" using k queue_of_Nil_iff [OF wf] by (auto simp: kinds_of_def)
    then have nhd: "\<not> stop_like w (hd (queue_of ju))" using True hd by simp
    have "Stop \<notin> kinds_of ju"
    proof
      assume "Stop \<in> kinds_of ju"
      then obtain x where "map_of (ju_suspends ju) Stop = Some x" by (auto simp: kinds_of_def)
      then show False using nhd stop_like_susp [OF wf] by (simp add: queue_of_def)
    qed
    moreover have "Restart \<notin> kinds_of ju"
    proof
      assume "Restart \<in> kinds_of ju"
      then obtain x where "map_of (ju_suspends ju) Restart = Some x" by (auto simp: kinds_of_def)
      then show False using nhd stop_like_susp [OF wf] \<open>Stop \<notin> kinds_of ju\<close>
        by (simp add: queue_of_def kinds_of_def domIff Let_def)
    qed
    ultimately show ?thesis by simp
  next
    case False
    then show ?thesis using ord by (auto simp: ju_ordered_def)
  qed
  then show ?thesis using stop_like_susp [OF wf k] k by (auto simp: kinds_of_def)
qed

lemma next_trigger_stop_first:
  assumes inv: "ju_inv w ju" and "ju_ready ju"
  shows "\<exists>j. get_next_trigger ju = Some j \<and> j \<in> jobs_of ju \<and>
    (rk_of w j \<noteq> Stop \<longrightarrow> (\<forall>i \<in> jobs_of ju. rk_of w i \<noteq> Stop))"
proof -
  have core: "ju_core w ju" using inv by (simp add: ju_inv_def)
  note wf = ju_coreD(1) [OF core]
  obtain s where s: "ready_of ju = Some s" using assms by (auto simp: ju_inv_def)
  then have "ju_order ju" by (auto simp: ready_of_def split: if_splits)
  then have ord: "ju_ordered w ju" using inv by (simp add: ju_inv_def)
  have nx: "get_next_trigger ju = (if s then get_next_trigger_suspend ju else get_next_trigger_retrigger ju)"
    by (simp add: get_next_trigger_def calc_ready_eq [OF ju_inv_interrupt_ok [OF inv]] s)
  note calm = no_stop_suspended [OF wf ord]
  show ?thesis
  proof (cases s)
    case True
    then have "ju_interrupt ju \<or> ju_trigger ju = None \<and> ju_sq ju \<noteq> []"
      using s by (auto simp: ready_of_def split: if_splits)
    then obtain j q where q: "ju_sq ju = j # q" using ord by (cases "ju_sq ju") (auto simp: ju_ordered_def)
    then have "queue_of ju = j # q" using ord by (auto simp: ju_ordered_def)
    then have "j \<in> ran (map_of (ju_suspends ju))" using queue_of_ran [of ju] by simp
    moreover have "\<forall>i \<in> jobs_of ju. rk_of w i \<noteq> Stop" if "rk_of w j \<noteq> Stop"
    proof -
      have j: "\<not> stop_like w j" using that suspended_rk_Stop [OF wf \<open>j \<in> ran _\<close>] by simp
      then have "ju_trigger ju = None"
        using ord q \<open>ju_interrupt ju \<or> _\<close> by (auto simp: ju_ordered_def)
      then show ?thesis using calm q j suspended_rk_Stop [OF wf] by (auto simp: jobs_of_def)
    qed
    ultimately show ?thesis using True nx q by (auto simp: get_next_trigger_suspend_def jobs_of_def)
  next
    case False
    then have st: "ju_retrigger ju" "\<not> ju_interrupt ju" "ju_trigger ju \<noteq> None"
      using s by (auto simp: ready_of_def split: if_splits)
    then obtain t where t: "ju_trigger ju = Some t" by auto
    have "ju_sq ju = [] \<or> \<not> stop_like w (hd (ju_sq ju))" using ord st by (auto simp: ju_ordered_def)
    then have "\<forall>i \<in> jobs_of ju. rk_of w i \<noteq> Stop" if "rk_of w t \<noteq> Stop"
      using that calm suspended_rk_Stop [OF wf] t by (auto simp: jobs_of_def)
    then show ?thesis using False nx st t by (auto simp: get_next_trigger_retrigger_def jobs_of_def)
  qed
qed

lemma job_ok_kind_Nop: "job_ok jb \<Longrightarrow> j_kind jb = Nop \<longleftrightarrow> j_run_kind jb = Nop"
  by (auto simp: job_ok_def job_rkind_ok_def split: if_splits)

lemma jobs_of_ok: "ju_core w ju \<Longrightarrow> j \<in> jobs_of ju \<Longrightarrow> job_ok (jw_job w j)"
  by (auto simp: ju_core_def trigger_wf_def jobs_of_def ran_def dest: susp_wfD(5))

lemma order_list_jobs:
  "susp_ok ou \<Longrightarrow>
     set (get_suspends ou @ (case ju_trigger ou of Some t \<Rightarrow> [t] | None \<Rightarrow> [])) = jobs_of ou"
  by (auto simp: set_get_suspends jobs_of_def split: option.splits)

lemma next_order_with:
  assumes inv: "ju_inv w ju" "ju_inv w ou" and rdy: "ju_ready ju" "ju_order ou"
    and j: "get_next_trigger ju = Some j" "j \<in> jobs_of ju"
  shows "is_next_trigger_order_with w ju ou UnitAtomAfter =
      Some (unordered w j \<or> rk_of w j = Stop \<or> (\<forall>k \<in> jobs_of ou. unordered w k))"
    and "is_next_trigger_order_with w ju ou UnitAtomBefore =
      Some (unordered w j \<or> (\<forall>k \<in> jobs_of ou. unordered w k \<or> rk_of w k \<noteq> Stop))"
proof -
  have so: "susp_ok ou" using inv(2) by (simp add: ju_inv_def ju_core_def susp_wf_def)
  have "job_ok (jw_job w j)" by (rule jobs_of_ok [OF _ j(2)]) (use inv(1) in \<open>simp add: ju_inv_def\<close>)
  then have "kind_of w j = Nop \<longleftrightarrow> rk_of w j = Nop" by (rule job_ok_kind_Nop)
  then show "is_next_trigger_order_with w ju ou UnitAtomAfter =
      Some (unordered w j \<or> rk_of w j = Stop \<or> (\<forall>k \<in> jobs_of ou. unordered w k))"
    and "is_next_trigger_order_with w ju ou UnitAtomBefore =
      Some (unordered w j \<or> (\<forall>k \<in> jobs_of ou. unordered w k \<or> rk_of w k \<noteq> Stop))"
    unfolding is_next_trigger_order_with_def order_scan_After order_scan_Before order_list_jobs [OF so]
    using rdy j(1) by (auto simp: unordered_def)
qed

text \<open>
  (C8) Ready entries do not block each other. Let the unit of \<open>ju\<close> be ordered after the unit of \<open>ou\<close> and
  let both entries be ready. The scheduler asks \<open>ju\<close> with \<open>UnitAtomAfter\<close> and \<open>ou\<close> with \<open>UnitAtomBefore\<close>.
  Neither question panics and at least one answer is yes, so two units ordered against each other
  never deadlock. \<open>ju\<close> may go only if its next job stops the unit or ignores order, or if nothing
  ordered is pending in \<open>ou\<close>; \<open>ou\<close> may go only if its next job ignores order or no ordered stop is
  pending in \<open>ju\<close>.
\<close>

theorem ready_entries_never_block_each_other:
  assumes "ju_inv w ju" and "ju_inv w ou" and "ju_ready ju" and "ju_ready ou"
  shows "\<exists>x y j k. is_next_trigger_order_with w ju ou UnitAtomAfter = Some x \<and>
    is_next_trigger_order_with w ou ju UnitAtomBefore = Some y \<and> (x \<or> y) \<and>
    get_next_trigger ju = Some j \<and> get_next_trigger ou = Some k \<and>
    (x \<longleftrightarrow> unordered w j \<or> rk_of w j = Stop \<or> (\<forall>b \<in> jobs_of ou. unordered w b)) \<and>
    (y \<longleftrightarrow> unordered w k \<or> (\<forall>a \<in> jobs_of ju. unordered w a \<or> rk_of w a \<noteq> Stop))"
proof -
  obtain j where j: "get_next_trigger ju = Some j" "j \<in> jobs_of ju"
    "rk_of w j \<noteq> Stop \<longrightarrow> (\<forall>i \<in> jobs_of ju. rk_of w i \<noteq> Stop)"
    using next_trigger_stop_first [OF assms(1,3)] by blast
  obtain k where k: "get_next_trigger ou = Some k" "k \<in> jobs_of ou"
    using next_trigger_stop_first [OF assms(2,4)] by blast
  have "ju_order ju" "ju_order ou"
    using assms by (auto simp: ju_inv_def ready_of_def split: if_splits)
  then show ?thesis
    using next_order_with(1) [OF assms(1,2,3) _ j(1,2)] next_order_with(2) [OF assms(2,1,4) _ k] j k
    by auto
qed

theorem ready_entries_never_block_each_other_witness:
  "\<exists>x y. is_next_trigger_order_with (demo_world (demo_jobs [Start, Stop] Wait))
       ((demo_entry [(Start, 0)])\<lparr>ju_order := True, ju_sq := [0], ju_ready := True\<rparr>)
       ((demo_entry [(Stop, 1)])\<lparr>ju_order := True, ju_sq := [1], ju_ready := True\<rparr>) UnitAtomAfter = Some x \<and>
     is_next_trigger_order_with (demo_world (demo_jobs [Start, Stop] Wait))
       ((demo_entry [(Stop, 1)])\<lparr>ju_order := True, ju_sq := [1], ju_ready := True\<rparr>)
       ((demo_entry [(Start, 0)])\<lparr>ju_order := True, ju_sq := [0], ju_ready := True\<rparr>) UnitAtomBefore = Some y \<and>
     (x \<or> y)"
proof -
  let ?w = "demo_world (demo_jobs [Start, Stop] Wait)"
  let ?a = "(demo_entry [(Start, 0)])\<lparr>ju_order := True, ju_sq := [0], ju_ready := True\<rparr>"
  let ?b = "(demo_entry [(Stop, 1)])\<lparr>ju_order := True, ju_sq := [1], ju_ready := True\<rparr>"
  have "ju_inv ?w ?a" "ju_inv ?w ?b" "ju_ready ?a" "ju_ready ?b"
    by (simp_all add: ju_inv_def ju_ordered_def ready_of_def queue_of_def one_mutop_def demo_entry_defs)
  from ready_entries_never_block_each_other [OF this] show ?thesis by blast
qed

end
