(* ===== verification/Job_Table.thy ===== *)
theory Job_Table
  imports Job_Unit Unit_Deps
begin

text \<open>
  The table of jobs, \<^verbatim>\<open>core/bin/job/table.rs\<close>: the index \<open>t_id\<close> of job ids, the per-unit entries
  \<open>t_data\<close>, and the two containers \<open>t_ready\<close> (a \<open>BTreeMap\<close>) and \<open>readys\<close> (a vector the map is poured
  into so that its last entry can be popped). The entries are shared objects (\<open>Rc<JobUnit>\<close>) held by
  up to two containers at once, so the table keeps them in a store \<open>tu_uv\<close> and the containers hold
  references. The dependency view \<open>D\<close> is \<open>UnitDb::dep_gets_atom\<close>.
\<close>

section \<open>State\<close>

type_synonym uvref = nat
type_synonym deps = "unit_id \<Rightarrow> unit_relation_atom \<Rightarrow> unit_id list"

record job_unit_table =
  tu_data :: "(unit_id \<times> uvref) list"
  tu_ready :: "(unit_id \<times> uvref) list"
  tu_readys :: "uvref list"
  tu_up_ready :: bool
  tu_sync :: bool
  tu_uv :: "uvref \<Rightarrow> job_unit"
  tu_next :: uvref

record job_table =
  jt_id :: "job_id set"
  jt_unit :: job_unit_table

type_synonym 'w tu_state = "job_unit_table \<times> 'w jworld"
type_synonym 'w jt_state = "job_table \<times> 'w jworld"

definition job_unit_table_new :: job_unit_table where
  "job_unit_table_new = \<lparr>tu_data = [], tu_ready = [], tu_readys = [], tu_up_ready = False,
     tu_sync = True, tu_uv = (\<lambda>_. job_unit_new []), tu_next = 0\<rparr>"

definition job_table_new :: job_table where
  "job_table_new = \<lparr>jt_id = {}, jt_unit = job_unit_table_new\<rparr>"

definition set_uv :: "uvref \<Rightarrow> job_unit \<Rightarrow> job_unit_table \<Rightarrow> job_unit_table" where
  "set_uv r ju t = t\<lparr>tu_uv := (tu_uv t)(r := ju)\<rparr>"

section \<open>The ready containers\<close>

definition readys_backfill :: "job_unit_table \<Rightarrow> job_unit_table" where
  "readys_backfill t =
     (if tu_readys t \<noteq> []
      then t\<lparr>tu_readys := [],
             tu_ready := fold (\<lambda>r m. bt_insert (ju_unit (tu_uv t r)) r m) (tu_readys t) (tu_ready t)\<rparr>
      else t)"

definition readys_fill :: "job_unit_table \<Rightarrow> job_unit_table" where
  "readys_fill t =
     (if tu_readys t = [] then t\<lparr>tu_readys := map snd (tu_ready t), tu_ready := []\<rparr> else t)"

definition ready_insert :: "unit_id \<Rightarrow> uvref \<Rightarrow> job_unit_table \<Rightarrow> job_unit_table" where
  "ready_insert u r t =
     (if \<not> ju_up_ready (tu_uv t r)
      then (let t1 = readys_backfill t; t2 = t1\<lparr>tu_ready := bt_insert u r (tu_ready t1)\<rparr>
            in set_uv r (ju_set_up_ready (tu_uv t2 r)) t2)
      else t)"

definition ready_remove :: "unit_id \<Rightarrow> uvref \<Rightarrow> job_unit_table \<Rightarrow> job_unit_table" where
  "ready_remove u r t =
     (if ju_up_ready (tu_uv t r)
      then (let t1 = readys_backfill t; t2 = t1\<lparr>tu_ready := AList.delete u (tu_ready t1)\<rparr>
            in set_uv r (ju_clear_up_ready (tu_uv t2 r)) t2)
      else t)"

definition ready_sync :: "unit_id \<Rightarrow> uvref \<Rightarrow> job_unit_table \<Rightarrow> job_unit_table" where
  "ready_sync u r t = (if ju_ready (tu_uv t r) then ready_insert u r t else ready_remove u r t)"

definition ready_pop :: "unit_id option \<Rightarrow> job_unit_table \<Rightarrow> uvref option \<times> job_unit_table" where
  "ready_pop uo t =
     (let (uv_ret, t1) =
        (case uo of
           Some u \<Rightarrow> (let t0 = readys_backfill t in
             (map_of (tu_ready t0) u, t0\<lparr>tu_ready := AList.delete u (tu_ready t0)\<rparr>))
         | None \<Rightarrow> (let t0 = readys_fill t in
             (case tu_readys t0 of
                [] \<Rightarrow> (None, t0)
              | _ \<Rightarrow> (Some (last (tu_readys t0)), t0\<lparr>tu_readys := butlast (tu_readys t0)\<rparr>))))
      in (case uv_ret of
            None \<Rightarrow> (None, t1)
          | Some r \<Rightarrow> (Some r, set_uv r (ju_clear_up_ready (tu_uv t1 r)) t1)))"

definition tu_calc_ready :: "job_unit_table \<Rightarrow> bool" where
  "tu_calc_ready t = (if tu_sync t then \<not> (tu_ready t = [] \<and> tu_readys t = []) else False)"

definition tu_update_up_ready :: "job_unit_table \<Rightarrow> job_unit_table" where
  "tu_update_up_ready t = t\<lparr>tu_up_ready := tu_calc_ready t\<rparr>"

section \<open>Entries\<close>

text \<open>\<open>get_mut_uv_pad\<close>: the entry of a unit, a new one when there is none.\<close>

definition get_uv_pad :: "unit_id \<Rightarrow> job_unit_table \<Rightarrow> uvref \<times> job_unit_table" where
  "get_uv_pad u t =
     (case map_of (tu_data t) u of
        Some r \<Rightarrow> (r, t)
      | None \<Rightarrow> (tu_next t, set_uv (tu_next t) (job_unit_new u)
          (t\<lparr>tu_data := AList.update u (tu_next t) (tu_data t), tu_next := Suc (tu_next t)\<rparr>)))"

definition try_gc_empty_unit :: "unit_id \<Rightarrow> uvref \<Rightarrow> job_unit_table \<Rightarrow> job_unit_table option" where
  "try_gc_empty_unit u r t =
     (if ju_is_empty (tu_uv t r) then do {
        rust_assert (\<not> ju_ready (tu_uv t r));
        rust_assert (\<not> ju_up_ready (tu_uv t r));
        Some (t\<lparr>tu_data := AList.delete u (tu_data t), tu_ready := AList.delete u (tu_ready t)\<rparr>) }
      else Some t)"

definition reshuffle_entry ::
  "'w unit_ops \<Rightarrow> unit_id \<Rightarrow> uvref \<Rightarrow> 'w tu_state \<Rightarrow> (job_id list \<times> 'w tu_state) option" where
  "reshuffle_entry U u r s = do {
     let (t, w) = s;
     if ju_dirty (tu_uv t r) then do {
       (merge_jobs, ju, w') \<leftarrow> reshuffle U (tu_uv t r, w);
       let t1 = ready_sync u r (set_uv r ju t);
       Some (merge_jobs, set_uv r (ju_clear_dirty (tu_uv t1 r)) t1, w') }
     else Some ([], s) }"

definition finish_entry ::
  "unit_id \<Rightarrow> uvref \<Rightarrow> job_result \<Rightarrow> 'w tu_state \<Rightarrow> (job_id option \<times> 'w tu_state) option" where
  "finish_entry u r result s = do {
     let (t, w) = s;
     rust_assert (\<not> ju_dirty (tu_uv t r));
     (del_trigger, ju, w') \<leftarrow> finish_trigger result (tu_uv t r, w);
     let t1 = ready_sync u r (set_uv r ju t);
     Some (del_trigger, set_uv r (ju_clear_dirty (tu_uv t1 r)) t1, w') }"

definition remove_entry ::
  "'w unit_ops \<Rightarrow> unit_id \<Rightarrow> uvref \<Rightarrow> job_kind \<Rightarrow> job_kind option \<Rightarrow> job_result \<Rightarrow> 'w tu_state \<Rightarrow>
   (job_id list \<times> 'w tu_state) option" where
  "remove_entry U u r kind1 kind2 result s = do {
     let (t, w) = s;
     rust_assert (\<not> ju_dirty (tu_uv t r));
     (d1, ju1, w1) \<leftarrow> remove_suspend kind1 result (tu_uv t r, w);
     (d2, ju2, w2) \<leftarrow> (case kind2 of
        Some k2 \<Rightarrow> remove_suspend k2 result (ju1, w1)
      | None \<Rightarrow> Some (None, ju1, w1));
     (_, t', w') \<leftarrow> reshuffle_entry U u r (set_uv r ju2 t, w2);
     Some ((case d1 of Some j \<Rightarrow> [j] | None \<Rightarrow> []) @ (case d2 of Some j \<Rightarrow> [j] | None \<Rightarrow> []), t', w') }"

definition resume_entry :: "unit_id \<Rightarrow> uvref \<Rightarrow> job_unit_table \<Rightarrow> job_unit_table option" where
  "resume_entry u r t = do {
     rust_assert (\<not> ju_dirty (tu_uv t r));
     if ju_pause (tu_uv t r) then do {
       ju \<leftarrow> ju_resume (tu_uv t r);
       let t1 = ready_sync u r (set_uv r ju t);
       Some (set_uv r (ju_clear_dirty (tu_uv t1 r)) t1) }
     else Some t }"

section \<open>Operations of the unit table\<close>

definition tu_clear :: "job_unit_table \<Rightarrow> job_unit_table" where
  "tu_clear t = t\<lparr>tu_data := [], tu_ready := [], tu_readys := [], tu_up_ready := False,
     tu_sync := True\<rparr>"

definition tu_insert_suspend :: "job_id \<Rightarrow> 'w tu_state \<Rightarrow> 'w tu_state option" where
  "tu_insert_suspend j s = do {
     let (t, w) = s;
     let (r, t1) = get_uv_pad (j_unit (jw_job w j)) t;
     (ju, w') \<leftarrow> insert_suspend j False (tu_uv t1 r, w);
     rust_assert (ju_dirty ju);
     Some ((set_uv r ju t1)\<lparr>tu_sync := False\<rparr>, w') }"

definition tu_insert_trigger :: "job_id \<Rightarrow> 'w tu_state \<Rightarrow> 'w tu_state option" where
  "tu_insert_trigger j s = do {
     let (t, w) = s;
     let (r, t1) = get_uv_pad (j_unit (jw_job w j)) t;
     ju \<leftarrow> insert_trigger j (tu_uv t1 r, w);
     rust_assert (ju_dirty ju);
     Some ((set_uv r ju t1)\<lparr>tu_sync := False\<rparr>, w) }"

definition isolate_one ::
  "'w unit_ops \<Rightarrow> job_unit_table \<Rightarrow> unit_id \<times> uvref \<Rightarrow> job_id list \<times> 'w tu_state \<Rightarrow>
   (job_id list \<times> 'w tu_state) option" where
  "isolate_one U other e s = do {
     let (u, r) = e;
     let (dels, t, w) = s;
     if IgnoreOnIsolate (uo_config U u (jw_env w)) then Some s
     else if map_of (tu_data other) u \<noteq> None then Some s
     else do {
       (ds, ju, w') \<leftarrow> flush_suspends (tu_uv t r, w);
       rust_assert (ju_dirty ju);
       Some (dels @ ds, set_uv r ju t, w') } }"

definition tu_isolate_suspends ::
  "'w unit_ops \<Rightarrow> job_unit_table \<Rightarrow> 'w tu_state \<Rightarrow> (job_id list \<times> 'w tu_state) option" where
  "tu_isolate_suspends U other s = do {
     (dels, t, w) \<leftarrow> fold_opt (isolate_one U other) (tu_data (fst s)) ([], s);
     Some (dels, t\<lparr>tu_sync := False\<rparr>, w) }"

definition merge_unit ::
  "job_unit_table \<Rightarrow> unit_id \<times> uvref \<Rightarrow> (job_id list \<times> job_id list \<times> job_id list) \<times> 'w tu_state \<Rightarrow>
   ((job_id list \<times> job_id list \<times> job_id list) \<times> 'w tu_state) option" where
  "merge_unit other e s = do {
     let (u, o_r) = e;
     let ((adds, dels, upds), t, w) = s;
     let (r, t1) = get_uv_pad u t;
     ((as, ds, us), ju, w') \<leftarrow> merge_suspends (tu_uv other o_r) (tu_uv t1 r, w);
     Some ((adds @ as, dels @ ds, upds @ us), set_uv r ju t1, w') }"

definition tu_merge_suspends ::
  "job_unit_table \<Rightarrow> 'w tu_state \<Rightarrow>
   ((job_id list \<times> job_id list \<times> job_id list) \<times> 'w tu_state) option" where
  "tu_merge_suspends other s = do {
     (changes, t, w) \<leftarrow> fold_opt (merge_unit other) (tu_data other) (([], [], []), s);
     Some (changes, t\<lparr>tu_sync := False\<rparr>, w) }"

definition reshuffle_unit ::
  "'w unit_ops \<Rightarrow> unit_id \<times> uvref \<Rightarrow> job_id list \<times> 'w tu_state \<Rightarrow>
   (job_id list \<times> 'w tu_state) option" where
  "reshuffle_unit U e s = do {
     let (u, r) = e;
     let (ms, t, w) = s;
     (ms1, t1, w1) \<leftarrow> reshuffle_entry U u r (t, w);
     t2 \<leftarrow> try_gc_empty_unit u r t1;
     Some (ms @ ms1, t2, w1) }"

definition tu_reshuffle :: "'w unit_ops \<Rightarrow> 'w tu_state \<Rightarrow> (job_id list \<times> 'w tu_state) option" where
  "tu_reshuffle U s = do {
     (ms, t, w) \<leftarrow> fold_opt (reshuffle_unit U) (tu_data (fst s)) ([], s);
     Some (ms, t\<lparr>tu_sync := True\<rparr>, w) }"

definition tu_finish_trigger ::
  "unit_id \<Rightarrow> job_result \<Rightarrow> 'w tu_state \<Rightarrow> (job_id option \<times> 'w tu_state) option" where
  "tu_finish_trigger u result s = do {
     rust_assert (tu_sync (fst s));
     r \<leftarrow> map_of (tu_data (fst s)) u;
     rust_assert (ju_trigger (tu_uv (fst s) r) \<noteq> None);
     (del_trigger, t1, w1) \<leftarrow> finish_entry u r result s;
     t2 \<leftarrow> try_gc_empty_unit u r t1;
     Some (del_trigger, t2, w1) }"

definition tu_remove_suspends ::
  "'w unit_ops \<Rightarrow> unit_id \<Rightarrow> job_kind \<Rightarrow> job_kind option \<Rightarrow> job_result \<Rightarrow> 'w tu_state \<Rightarrow>
   (job_id list \<times> 'w tu_state) option" where
  "tu_remove_suspends U u kind1 kind2 result s = do {
     rust_assert (tu_sync (fst s));
     (case map_of (tu_data (fst s)) u of
        Some r \<Rightarrow> do {
          (dels, t1, w1) \<leftarrow> remove_entry U u r kind1 kind2 result s;
          t2 \<leftarrow> try_gc_empty_unit u r t1;
          Some (dels, t2, w1) }
      | None \<Rightarrow> Some ([], s)) }"

definition tu_resume_unit :: "unit_id \<Rightarrow> job_unit_table \<Rightarrow> job_unit_table option" where
  "tu_resume_unit u t =
     (case map_of (tu_data t) u of Some r \<Rightarrow> resume_entry u r t | None \<Rightarrow> Some t)"

definition tu_remove_unit :: "unit_id \<Rightarrow> job_unit_table \<Rightarrow> job_unit_table" where
  "tu_remove_unit u t =
     t\<lparr>tu_data := AList.delete u (tu_data t), tu_ready := AList.delete u (tu_ready t)\<rparr>"

section \<open>Queries of the unit table\<close>

definition tu_get_suspend :: "job_unit_table \<Rightarrow> unit_id \<Rightarrow> job_kind \<Rightarrow> job_id option" where
  "tu_get_suspend t u kind =
     (case map_of (tu_data t) u of Some r \<Rightarrow> get_suspend (tu_uv t r) kind | None \<Rightarrow> None)"

definition tu_get_suspends :: "job_unit_table \<Rightarrow> unit_id \<Rightarrow> job_id list" where
  "tu_get_suspends t u =
     (case map_of (tu_data t) u of Some r \<Rightarrow> get_suspends (tu_uv t r) | None \<Rightarrow> [])"

definition tu_get_trigger_info :: "job_unit_table \<Rightarrow> unit_id \<Rightarrow> (job_id \<times> bool) option" where
  "tu_get_trigger_info t u =
     (case map_of (tu_data t) u of
        Some r \<Rightarrow> map_option (\<lambda>j. (j, ju_pause (tu_uv t r))) (ju_trigger (tu_uv t r))
      | None \<Rightarrow> None)"

definition tu_is_empty :: "job_unit_table \<Rightarrow> bool" where
  "tu_is_empty t = (tu_data t = [])"

definition tu_is_unit_empty :: "job_unit_table \<Rightarrow> unit_id \<Rightarrow> bool" where
  "tu_is_unit_empty t u = (map_of (tu_data t) u \<noteq> None)"

definition tu_is_suspends_conflict :: "job_unit_table \<Rightarrow> bool" where
  "tu_is_suspends_conflict t = list_ex (\<lambda>(_, r). is_suspends_conflict (tu_uv t r)) (tu_data t)"

definition tu_is_suspends_conflict_with :: "job_unit_table \<Rightarrow> job_unit_table \<Rightarrow> bool" where
  "tu_is_suspends_conflict_with t other =
     list_ex (\<lambda>(u, r). case map_of (tu_data other) u of
         Some o_r \<Rightarrow> is_suspends_conflict_with (tu_uv t r) (tu_uv other o_r)
       | None \<Rightarrow> False) (tu_data t)"

fun replace_scan ::
  "'w jworld \<Rightarrow> job_unit_table \<Rightarrow> job_unit_table \<Rightarrow> (unit_id \<times> uvref) list \<Rightarrow> bool option" where
  "replace_scan w t other [] = Some True"
| "replace_scan w t other ((u, r) # es) =
     (case map_of (tu_data other) u of
        Some o_r \<Rightarrow> do {
          b \<leftarrow> is_suspends_replace_with w (tu_uv t r) (tu_uv other o_r);
          if b then replace_scan w t other es else Some False }
      | None \<Rightarrow> replace_scan w t other es)"

definition tu_is_suspends_replace_with ::
  "'w jworld \<Rightarrow> job_unit_table \<Rightarrow> job_unit_table \<Rightarrow> bool option" where
  "tu_is_suspends_replace_with w t other = replace_scan w t other (tu_data t)"

fun runnable_scan ::
  "'w jworld \<Rightarrow> job_unit_table \<Rightarrow> job_unit \<Rightarrow> unit_relation_atom \<Rightarrow> unit_id list \<Rightarrow> bool option" where
  "runnable_scan w t ju atom [] = Some True"
| "runnable_scan w t ju atom (v # vs) =
     (case map_of (tu_data t) v of
        Some o_r \<Rightarrow> do {
          b \<leftarrow> is_next_trigger_order_with w ju (tu_uv t o_r) atom;
          if b then runnable_scan w t ju atom vs else Some False }
      | None \<Rightarrow> runnable_scan w t ju atom vs)"

definition is_uv_runnable :: "deps \<Rightarrow> 'w jworld \<Rightarrow> job_unit_table \<Rightarrow> job_unit \<Rightarrow> bool option" where
  "is_uv_runnable D w t ju = do {
     a \<leftarrow> runnable_scan w t ju UnitAtomAfter (D (ju_unit ju) UnitAtomAfter);
     if \<not> a then Some False
     else runnable_scan w t ju UnitAtomBefore (D (ju_unit ju) UnitAtomBefore) }"

section \<open>Operations of the job table\<close>

definition jt_lift_unit :: "job_table \<Rightarrow> job_unit_table \<Rightarrow> job_table" where
  "jt_lift_unit t tu = t\<lparr>jt_unit := tu\<rparr>"

definition jt_clear :: "'w jt_state \<Rightarrow> 'w jt_state" where
  "jt_clear s = (let (t, w) = s in
     (t\<lparr>jt_id := {}, jt_unit := tu_clear (jt_unit t)\<rparr>, w\<lparr>jw_timers := jw_timers w - jt_id t\<rparr>))"

definition jt_insert_suspend :: "job_id \<Rightarrow> 'w jt_state \<Rightarrow> (error + 'w jt_state) option" where
  "jt_insert_suspend j s = (let (t, w) = s in
     if j \<in> jt_id t then Some (Inl Internal)
     else do {
       (tu, w') \<leftarrow> tu_insert_suspend j (jt_unit t, w);
       Some (Inr (t\<lparr>jt_id := insert j (jt_id t), jt_unit := tu\<rparr>, w')) })"

definition jt_insert_trigger :: "job_id \<Rightarrow> 'w jt_state \<Rightarrow> (error + 'w jt_state) option" where
  "jt_insert_trigger j s = (let (t, w) = s in
     if j \<in> jt_id t then Some (Inl Internal)
     else do {
       (tu, w') \<leftarrow> tu_insert_trigger j (jt_unit t, w);
       Some (Inr (t\<lparr>jt_id := insert j (jt_id t), jt_unit := tu\<rparr>, w')) })"

text \<open>\<open>unwrap\<close> and \<open>expect\<close>: an error value is a panic.\<close>

fun unwrap :: "(error + 'a) \<Rightarrow> 'a option" where
  "unwrap (Inl e) = None"
| "unwrap (Inr x) = Some x"

definition jt_rentry_map_suspend ::
  "'w unit_ops \<Rightarrow> job_conf \<Rightarrow> job_alloc \<times> 'w jt_state \<Rightarrow> (job_id \<times> job_alloc \<times> 'w jt_state) option" where
  "jt_rentry_map_suspend U conf s = do {
     let (a, t, w) = s;
     (j, a1, w1) \<leftarrow> alloc_job U conf (a, w);
     w2 \<leftarrow> rentry_map_suspend j w1;
     res \<leftarrow> jt_insert_suspend j (t, w2);
     s3 \<leftarrow> unwrap res;
     Some (j, a1, s3) }"

definition jt_rentry_map_trigger ::
  "'w unit_ops \<Rightarrow> job_conf \<Rightarrow> job_alloc \<times> 'w jt_state \<Rightarrow> (job_id \<times> job_alloc \<times> 'w jt_state) option" where
  "jt_rentry_map_trigger U conf s = do {
     let (a, t, w) = s;
     (j, a1, w1) \<leftarrow> alloc_job U conf (a, w);
     w2 \<leftarrow> rentry_map_trigger j w1;
     res \<leftarrow> jt_insert_trigger j (t, w2);
     s3 \<leftarrow> unwrap res;
     Some (j, a1, s3) }"

definition jt_coldplug_suspend :: "unit_id \<Rightarrow> 'w jt_state \<Rightarrow> 'w jt_state" where
  "jt_coldplug_suspend u s =
     (fst s, fold job_coldplug_suspend (tu_get_suspends (jt_unit (fst s)) u) (snd s))"

definition jt_coldplug_trigger :: "unit_id \<Rightarrow> 'w jt_state \<Rightarrow> 'w jt_state" where
  "jt_coldplug_trigger u s =
     (case tu_get_trigger_info (jt_unit (fst s)) u of
        Some (j, _) \<Rightarrow> (fst s, job_coldplug_trigger j (snd s))
      | None \<Rightarrow> s)"

definition jt_record_suspend ::
  "'w unit_ops \<Rightarrow> job_conf \<Rightarrow> job_mode \<Rightarrow> job_alloc \<times> 'w jt_state \<Rightarrow>
   (bool \<times> job_alloc \<times> 'w jt_state) option" where
  "jt_record_suspend U conf mode s = (let (a, t, w) = s in
     if tu_get_suspend (jt_unit t) (fst conf) (snd conf) = None then do {
       (j, a1, w1) \<leftarrow> alloc_job U conf (a, w);
       w2 \<leftarrow> job_init_attr mode j w1;
       res \<leftarrow> jt_insert_suspend j (t, w2);
       s3 \<leftarrow> unwrap res;
       Some (True, a1, s3) }
     else Some (False, s))"

text \<open>
  \<open>process_relation\<close>: the notification \<open>UnitX::trigger\<close> has an empty body, so what is left is that the
  order-related units are resumed.
\<close>

definition process_relation :: "deps \<Rightarrow> unit_id \<Rightarrow> bool \<Rightarrow> job_table \<Rightarrow> job_table option" where
  "process_relation D u st_deleted t = do {
     tu1 \<leftarrow> fold_opt tu_resume_unit (D u UnitAtomAfter) (jt_unit t);
     tu2 \<leftarrow> fold_opt tu_resume_unit (D u UnitAtomBefore) tu1;
     Some (t\<lparr>jt_unit := tu2\<rparr>) }"

definition jt_isolate_suspends ::
  "'w unit_ops \<Rightarrow> job_table \<Rightarrow> job_mode \<Rightarrow> 'w jt_state \<Rightarrow> (job_id list \<times> 'w jt_state) option" where
  "jt_isolate_suspends U other mode s = do {
     let (t, w) = s;
     (dels, tu, w') \<leftarrow>
       (if mode = ModeIsolate \<or> mode = ModeFlush
        then tu_isolate_suspends U (jt_unit other) (jt_unit t, w)
        else Some ([], jt_unit t, w));
     Some (dels, t\<lparr>jt_id := jt_id t - set dels, jt_unit := tu\<rparr>, w') }"

definition jt_merge_suspends ::
  "job_table \<Rightarrow> 'w jt_state \<Rightarrow> ((job_id list \<times> job_id list \<times> job_id list) \<times> 'w jt_state) option" where
  "jt_merge_suspends other s = do {
     let (t, w) = s;
     ((adds, dels, upds), tu, w') \<leftarrow> tu_merge_suspends (jt_unit other) (jt_unit t, w);
     Some ((adds, dels, upds), t\<lparr>jt_id := (jt_id t \<union> set adds) - set dels, jt_unit := tu\<rparr>, w') }"

definition jt_reshuffle :: "'w unit_ops \<Rightarrow> 'w jt_state \<Rightarrow> (job_id list \<times> 'w jt_state) option" where
  "jt_reshuffle U s = do {
     let (t, w) = s;
     (ms, tu, w') \<leftarrow> tu_reshuffle U (jt_unit t, w);
     Some (ms, t\<lparr>jt_id := jt_id t - set ms, jt_unit := tu\<rparr>, w') }"

text \<open>A \<open>HashSet\<close> of units; its order is not specified by the code.\<close>

definition jobs_2_units :: "'w jworld \<Rightarrow> job_id list \<Rightarrow> unit_id list" where
  "jobs_2_units w js = remdups (map (\<lambda>j. j_unit (jw_job w j)) js)"

definition jt_commit ::
  "'w unit_ops \<Rightarrow> deps \<Rightarrow> job_table \<Rightarrow> job_mode \<Rightarrow> 'w jt_state \<Rightarrow>
   (error + ((job_id list \<times> job_id list \<times> job_id list) \<times> 'w jt_state)) option" where
  "jt_commit U D other mode s =
     (if jt_id other \<inter> jt_id (fst s) \<noteq> {} then Some (Inl Internal)
      else do {
        (iso_jobs, s1) \<leftarrow> jt_isolate_suspends U other mode s;
        ((add_jobs, flush_jobs, update_jobs), s2) \<leftarrow> jt_merge_suspends other s1;
        (merge_jobs, t3, w3) \<leftarrow> jt_reshuffle U s2;
        t4 \<leftarrow> (if iso_jobs \<noteq> [] \<or> flush_jobs \<noteq> [] then do {
                 t' \<leftarrow> fold_opt (\<lambda>u. process_relation D u True) (jobs_2_units w3 iso_jobs) t3;
                 fold_opt (\<lambda>u. process_relation D u True) (jobs_2_units w3 flush_jobs) t' }
               else Some t3);
        Some (Inr ((add_jobs, iso_jobs @ flush_jobs @ merge_jobs, update_jobs), t4, w3)) })"

definition jt_remove_suspends ::
  "'w unit_ops \<Rightarrow> deps \<Rightarrow> unit_id \<Rightarrow> job_kind \<Rightarrow> job_kind option \<Rightarrow> job_result \<Rightarrow> 'w jt_state \<Rightarrow>
   (job_id list \<times> 'w jt_state) option" where
  "jt_remove_suspends U D u kind1 kind2 result s = do {
     let (t, w) = s;
     (dels, tu, w') \<leftarrow> tu_remove_suspends U u kind1 kind2 result (jt_unit t, w);
     let t1 = t\<lparr>jt_id := jt_id t - set dels, jt_unit := tu\<rparr>;
     t2 \<leftarrow> (if dels \<noteq> [] then process_relation D u True t1 else Some t1);
     Some (dels, t2, w') }"

definition try_trigger_entry ::
  "'w unit_ops \<Rightarrow> deps \<Rightarrow> uvref \<Rightarrow> 'w tu_state \<Rightarrow>
   ((job_info \<times> job_result option) option \<times> job_id option \<times> 'w tu_state) option" where
  "try_trigger_entry U D r s = do {
     let (t, w) = s;
     rust_assert (\<not> ju_dirty (tu_uv t r));
     run \<leftarrow> is_uv_runnable D w t (tu_uv t r);
     (info, merge, ju, w') \<leftarrow>
       (if run then map_option (\<lambda>(i, m, ju, w'). (Some i, m, ju, w')) (do_trigger U (tu_uv t r, w))
        else map_option (\<lambda>ju. (None, None, ju, w)) (ju_set_pause (tu_uv t r)));
     rust_assert (\<not> ju_ready ju);
     Some (info, merge, set_uv r (ju_clear_dirty ju) t, w') }"

definition do_try_trigger ::
  "'w unit_ops \<Rightarrow> deps \<Rightarrow> unit_id option \<Rightarrow> 'w tu_state \<Rightarrow>
   (((job_info \<times> job_result option) option \<times> job_id option) option \<times> 'w tu_state) option" where
  "do_try_trigger U D uo s = do {
     let (t, w) = s;
     rust_assert (tu_sync t);
     (case ready_pop uo t of
        (Some r, t1) \<Rightarrow> do {
          (info, merge, t2, w2) \<leftarrow> try_trigger_entry U D r (t1, w);
          rust_assert (\<not> ju_is_empty (tu_uv t2 r));
          Some (Some (info, merge), t2, w2) }
      | (None, t1) \<Rightarrow> Some (None, t1, w)) }"

definition jt_try_trigger ::
  "'w unit_ops \<Rightarrow> deps \<Rightarrow> unit_id option \<Rightarrow> 'w jt_state \<Rightarrow>
   (((job_info \<times> job_result option) option \<times> job_id option) option \<times> 'w jt_state) option" where
  "jt_try_trigger U D uo s = do {
     let (t, w) = s;
     (ret, tu, w') \<leftarrow> do_try_trigger U D uo (jt_unit t, w);
     let ids = (case ret of Some (_, Some j) \<Rightarrow> jt_id t - {j} | _ \<Rightarrow> jt_id t);
     Some (ret, t\<lparr>jt_id := ids, jt_unit := tu\<rparr>, w') }"

definition jt_finish_trigger ::
  "deps \<Rightarrow> unit_id \<Rightarrow> job_result \<Rightarrow> 'w jt_state \<Rightarrow> (job_id option \<times> 'w jt_state) option" where
  "jt_finish_trigger D u result s = do {
     let (t, w) = s;
     rust_assert (tu_get_trigger_info (jt_unit t) u \<noteq> None);
     (del_trigger, tu, w') \<leftarrow> tu_finish_trigger u result (jt_unit t, w);
     let t1 = t\<lparr>jt_id := (case del_trigger of Some j \<Rightarrow> jt_id t - {j} | None \<Rightarrow> jt_id t), jt_unit := tu\<rparr>;
     t2 \<leftarrow> process_relation D u (del_trigger \<noteq> None) t1;
     Some (del_trigger, t2, w') }"

definition jt_resume_unit :: "unit_id \<Rightarrow> job_table \<Rightarrow> job_table option" where
  "jt_resume_unit u t = map_option (jt_lift_unit t) (tu_resume_unit u (jt_unit t))"

definition jt_remove_unit :: "unit_id \<Rightarrow> job_table \<Rightarrow> (job_id option \<times> job_id list) \<times> job_table" where
  "jt_remove_unit u t =
     (let del_trigger = map_option fst (tu_get_trigger_info (jt_unit t) u);
          del_suspends = tu_get_suspends (jt_unit t) u;
          ids = jt_id t - set_option del_trigger - set del_suspends
      in ((del_trigger, del_suspends), t\<lparr>jt_id := ids, jt_unit := tu_remove_unit u (jt_unit t)\<rparr>))"

definition jt_update_up_ready :: "job_table \<Rightarrow> job_table" where
  "jt_update_up_ready t = t\<lparr>jt_unit := tu_update_up_ready (jt_unit t)\<rparr>"

definition jt_len :: "job_table \<Rightarrow> nat" where
  "jt_len t = card (jt_id t)"

definition jt_get :: "'w jworld \<Rightarrow> job_table \<Rightarrow> job_id \<Rightarrow> job_info option" where
  "jt_get w t i = (if i \<in> jt_id t then Some (job_info_map (jw_job w i)) else None)"

definition jt_get_suspend :: "'w jworld \<Rightarrow> job_table \<Rightarrow> unit_id \<Rightarrow> job_kind \<Rightarrow> job_info option" where
  "jt_get_suspend w t u kind =
     map_option (\<lambda>j. job_info_map (jw_job w j)) (tu_get_suspend (jt_unit t) u kind)"

definition jt_get_trigger_info :: "'w jworld \<Rightarrow> job_table \<Rightarrow> unit_id \<Rightarrow> (job_info \<times> bool) option" where
  "jt_get_trigger_info w t u =
     map_option (\<lambda>(j, pause). (job_info_map (jw_job w j), pause)) (tu_get_trigger_info (jt_unit t) u)"

definition jt_is_trigger :: "'w jworld \<Rightarrow> job_table \<Rightarrow> job_id \<Rightarrow> bool" where
  "jt_is_trigger w t i =
     (case jt_get w t i of
        None \<Rightarrow> False
      | Some ji \<Rightarrow>
          (case jt_get_trigger_info w t (ji_unit ji) of
             Some (ti, _) \<Rightarrow> ji_id ti = ji_id ji
           | None \<Rightarrow> False))"

definition jt_is_suspend :: "'w jworld \<Rightarrow> job_table \<Rightarrow> job_id \<Rightarrow> bool" where
  "jt_is_suspend w t i =
     (case jt_get w t i of
        None \<Rightarrow> False
      | Some ji \<Rightarrow>
          (case jt_get_suspend w t (ji_unit ji) (ji_kind ji) of
             Some si \<Rightarrow> ji_id si = ji_id ji
           | None \<Rightarrow> False))"

end
