(* ===== verification/Job_Transaction.thy ===== *)
theory Job_Transaction
  imports Job_Table
begin

text \<open>
  Transactions, \<^verbatim>\<open>core/bin/job/transaction.rs\<close>: expanding a request along the dependencies into the
  staging table, the jobs that isolate and trigger modes add, the check of the stage against the
  table of installed jobs, and the fallback that removes jobs whose dependency failed.

  The expansion and the fallback recurse over the dependency graph. They carry a bound \<open>n\<close> on the
  depth; running out of it is \<open>None\<close>. The expansion stops at a unit and kind that is staged already,
  so a bound of one more than the number of pairs that can still be staged is enough.
\<close>

section \<open>Expansion\<close>

type_synonym 'w stage_state = "job_alloc \<times> 'w jt_state"
type_synonym 'w expander = "job_conf \<Rightarrow> 'w stage_state \<Rightarrow> ((error + unit) \<times> 'w stage_state) option"

definition trans_expand_check_input :: "'w unit_ops \<Rightarrow> job_conf \<Rightarrow> 'w \<Rightarrow> (error + unit) option" where
  "trans_expand_check_input U conf w = (let (u, kind) = conf in
     if \<not> unit_load_complete U u w then Some (Inl Input)
     else if kind \<noteq> Stop then
       Some (case unit_validate_load_state U u w of
               Inr () \<Rightarrow> Inr ()
             | Inl e \<Rightarrow> if e = UnitActionEBadR then Inl BadRequest else Inl Input)
     else do {
       ok \<leftarrow> job_is_unit_applicable U kind u w;
       Some (if \<not> ok then Inl Input else Inr ()) })"

definition trans_is_expand :: "job_conf \<Rightarrow> bool \<Rightarrow> job_mode \<Rightarrow> bool" where
  "trans_is_expand conf new mode =
     (if snd conf = Nop then False
      else if \<not> new then False
      else if mode = ModeIgnoreDependencies \<or> mode = ModeIgnoreRequirements then False
      else True)"

text \<open>
  The two kinds of loops over the units of an atom: one passes every error but \<open>BadRequest\<close> on, the
  other one ignores all of them. What was staged before an error stays in the stage.
\<close>

fun expand_strict :: "'w expander \<Rightarrow> job_kind \<Rightarrow> unit_id list \<Rightarrow> 'w stage_state \<Rightarrow>
   ((error + unit) \<times> 'w stage_state) option" where
  "expand_strict rec kind [] s = Some (Inr (), s)"
| "expand_strict rec kind (v # vs) s = do {
     (res, s1) \<leftarrow> rec (v, kind) s;
     (case res of
        Inl e \<Rightarrow> if e = BadRequest then expand_strict rec kind vs s1 else Some (Inl e, s1)
      | Inr () \<Rightarrow> expand_strict rec kind vs s1) }"

fun expand_ignored :: "'w expander \<Rightarrow> job_kind \<Rightarrow> unit_id list \<Rightarrow> 'w stage_state \<Rightarrow>
   ((error + unit) \<times> 'w stage_state) option" where
  "expand_ignored rec kind [] s = Some (Inr (), s)"
| "expand_ignored rec kind (v # vs) s = do {
     (_, s1) \<leftarrow> rec (v, kind) s;
     expand_ignored rec kind vs s1 }"

text \<open>The operator \<open>?\<close> between two statements.\<close>

definition seq_res ::
  "('w stage_state \<Rightarrow> ((error + unit) \<times> 'w stage_state) option) \<Rightarrow>
   ('w stage_state \<Rightarrow> ((error + unit) \<times> 'w stage_state) option) \<Rightarrow>
   'w stage_state \<Rightarrow> ((error + unit) \<times> 'w stage_state) option" where
  "seq_res f g s = do {
     (res, s1) \<leftarrow> f s;
     (case res of Inl e \<Rightarrow> Some (Inl e, s1) | Inr () \<Rightarrow> g s1) }"

definition trans_expand_start ::
  "deps \<Rightarrow> 'w expander \<Rightarrow> job_conf \<Rightarrow> 'w stage_state \<Rightarrow> ((error + unit) \<times> 'w stage_state) option" where
  "trans_expand_start D rec conf =
     seq_res (expand_strict rec Start (D (fst conf) UnitAtomPullInStart))
    (seq_res (expand_ignored rec Start (D (fst conf) UnitAtomPullInStartIgnored))
    (seq_res (expand_strict rec Verify (D (fst conf) UnitAtomPullInVerify))
    (seq_res (expand_strict rec Stop (D (fst conf) UnitAtomPullInStop))
             (expand_ignored rec Stop (D (fst conf) UnitAtomPullInStopIgnored)))))"

definition trans_expand_stop ::
  "deps \<Rightarrow> 'w expander \<Rightarrow> job_conf \<Rightarrow> 'w stage_state \<Rightarrow> ((error + unit) \<times> 'w stage_state) option" where
  "trans_expand_stop D rec conf s =
     (case snd conf of
        Stop \<Rightarrow> expand_strict rec Stop (D (fst conf) UnitAtomPropagateStop) s
      | Restart \<Rightarrow> expand_strict rec TryRestart (D (fst conf) UnitAtomPropagateRestart) s
      | _ \<Rightarrow> None)"

definition trans_expand_reload ::
  "deps \<Rightarrow> 'w expander \<Rightarrow> job_conf \<Rightarrow> 'w stage_state \<Rightarrow> ((error + unit) \<times> 'w stage_state) option" where
  "trans_expand_reload D rec conf =
     expand_ignored rec TryReload (D (fst conf) UnitAtomPropagatesReloadTo)"

definition trans_expand_kind ::
  "deps \<Rightarrow> 'w expander \<Rightarrow> job_conf \<Rightarrow> 'w stage_state \<Rightarrow> ((error + unit) \<times> 'w stage_state) option" where
  "trans_expand_kind D rec conf s =
     (case snd conf of
        Start \<Rightarrow> trans_expand_start D rec conf s
      | Stop \<Rightarrow> trans_expand_stop D rec conf s
      | Reload \<Rightarrow> trans_expand_reload D rec conf s
      | Restart \<Rightarrow> seq_res (trans_expand_start D rec conf) (trans_expand_stop D rec conf) s
      | Verify \<Rightarrow> Some (Inr (), s)
      | Nop \<Rightarrow> Some (Inr (), s)
      | _ \<Rightarrow> None)"

fun job_trans_expand ::
  "'w unit_ops \<Rightarrow> deps \<Rightarrow> job_mode \<Rightarrow> nat \<Rightarrow> 'w expander" where
  "job_trans_expand U D mode 0 config s = None"
| "job_trans_expand U D mode (Suc n) config s = do {
     let w = jw_env (snd (snd s));
     chk \<leftarrow> trans_expand_check_input U config w;
     (case chk of
        Inl e \<Rightarrow> Some (Inl e, s)
      | Inr () \<Rightarrow> do {
          let conf = job_conf_map U config w;
          (new, s1) \<leftarrow> jt_record_suspend U conf mode s;
          if trans_is_expand conf new mode
          then trans_expand_kind D (job_trans_expand U D mode n) conf s1
          else Some (Inr (), s1) }) }"

section \<open>What a mode adds\<close>

text \<open>\<open>units\<close> is \<open>UnitDb::units_get_all(None)\<close>.\<close>

fun isolate_scan ::
  "'w unit_ops \<Rightarrow> 'w expander \<Rightarrow> unit_id list \<Rightarrow> 'w stage_state \<Rightarrow> ((error + unit) \<times> 'w stage_state) option" where
  "isolate_scan U rec [] s = Some (Inr (), s)"
| "isolate_scan U rec (v # vs) s =
     (if IgnoreOnIsolate (uo_config U v (jw_env (snd (snd s)))) then isolate_scan U rec vs s
      else if \<not> tu_is_unit_empty (jt_unit (fst (snd s))) v then isolate_scan U rec vs s
      else do {
        (_, s1) \<leftarrow> rec (v, Stop) s;
        isolate_scan U rec vs s1 })"

definition trans_affect_isolate ::
  "'w unit_ops \<Rightarrow> deps \<Rightarrow> unit_id list \<Rightarrow> job_mode \<Rightarrow> nat \<Rightarrow> 'w stage_state \<Rightarrow>
   ((error + unit) \<times> 'w stage_state) option" where
  "trans_affect_isolate U D units mode n s = do {
     rust_assert (mode = ModeIsolate);
     isolate_scan U (job_trans_expand U D mode n) units s }"

fun trigger_scan ::
  "'w expander \<Rightarrow> unit_id \<Rightarrow> unit_id list \<Rightarrow> 'w stage_state \<Rightarrow> ((error + unit) \<times> 'w stage_state) option" where
  "trigger_scan rec u [] s = Some (Inr (), s)"
| "trigger_scan rec u (v # vs) s =
     (if \<not> tu_is_unit_empty (jt_unit (fst (snd s))) u then trigger_scan rec u vs s
      else do {
        (_, s1) \<leftarrow> rec (v, Stop) s;
        trigger_scan rec u vs s1 })"

definition trans_affect_trigger ::
  "'w unit_ops \<Rightarrow> deps \<Rightarrow> job_conf \<Rightarrow> job_mode \<Rightarrow> nat \<Rightarrow> 'w stage_state \<Rightarrow>
   ((error + unit) \<times> 'w stage_state) option" where
  "trans_affect_trigger U D config mode n s = do {
     rust_assert (snd config = Stop);
     rust_assert (mode = ModeTrigger);
     trigger_scan (job_trans_expand U D mode n) (fst config)
       (D (fst config) UnitAtomTriggeredBy) s }"

definition job_trans_affect ::
  "'w unit_ops \<Rightarrow> deps \<Rightarrow> unit_id list \<Rightarrow> job_conf \<Rightarrow> job_mode \<Rightarrow> nat \<Rightarrow> 'w stage_state \<Rightarrow>
   ((error + unit) \<times> 'w stage_state) option" where
  "job_trans_affect U D units config mode n s =
     (case mode of
        ModeIsolate \<Rightarrow> trans_affect_isolate U D units mode n s
      | ModeTrigger \<Rightarrow> trans_affect_trigger U D config mode n s
      | _ \<Rightarrow> Some (Inr (), s))"

section \<open>Verification against the installed jobs\<close>

definition trans_verify_is_conflict :: "job_table \<Rightarrow> error + unit" where
  "trans_verify_is_conflict stage =
     (if tu_is_suspends_conflict (jt_unit stage) then Inl Conflict else Inr ())"

definition trans_verify_is_destructive ::
  "'w jworld \<Rightarrow> job_table \<Rightarrow> job_table \<Rightarrow> job_mode \<Rightarrow> (error + unit) option" where
  "trans_verify_is_destructive w stage jobs mode = do {
     rust_assert (\<not> tu_is_suspends_conflict (jt_unit jobs));
     if \<not> tu_is_suspends_conflict_with (jt_unit jobs) (jt_unit stage) then Some (Inr ())
     else if mode = ModeFail then Some (Inl Conflict)
     else do {
       b \<leftarrow> tu_is_suspends_replace_with w (jt_unit jobs) (jt_unit stage);
       Some (if b then Inr () else Inl Conflict) } }"

definition job_trans_verify ::
  "'w jworld \<Rightarrow> job_table \<Rightarrow> job_table \<Rightarrow> job_mode \<Rightarrow> (error + unit) option" where
  "job_trans_verify w stage jobs mode =
     (case trans_verify_is_conflict stage of
        Inl e \<Rightarrow> Some (Inl e)
      | Inr () \<Rightarrow> trans_verify_is_destructive w stage jobs mode)"

section \<open>Fallback\<close>

definition fallback_one ::
  "'w unit_ops \<Rightarrow> deps \<Rightarrow> job_result \<Rightarrow> unit_id \<Rightarrow> job_id list \<times> 'w jt_state \<Rightarrow>
   (job_id list \<times> 'w jt_state) option" where
  "fallback_one U D f_result other s = do {
     let (dels, t, w) = s;
     (dels1, s1) \<leftarrow>
       (case jt_get_trigger_info w t other of
          Some (trigger, _) \<Rightarrow>
            if ji_run_kind trigger = Start \<or> ji_run_kind trigger = Verify then do {
              (del, s') \<leftarrow> jt_finish_trigger D other f_result (t, w);
              Some (case del of Some j \<Rightarrow> (dels @ [j], s') | None \<Rightarrow> (dels, s')) }
            else Some (dels, t, w)
        | None \<Rightarrow> Some (dels, t, w));
     (ds, s2) \<leftarrow> jt_remove_suspends U D other Start (Some Verify) f_result s1;
     Some (dels1 @ ds, s2) }"

definition trans_fallback ::
  "'w unit_ops \<Rightarrow> deps \<Rightarrow> unit_id \<Rightarrow> job_result \<Rightarrow> unit_relation_atom \<Rightarrow> 'w jt_state \<Rightarrow>
   (job_id list \<times> 'w jt_state) option" where
  "trans_fallback U D u f_result atom s = fold_opt (fallback_one U D f_result) (D u atom) ([], s)"

definition trans_fallback_start ::
  "'w unit_ops \<Rightarrow> deps \<Rightarrow> unit_id \<Rightarrow> job_result \<Rightarrow> 'w jt_state \<Rightarrow> (job_id list \<times> 'w jt_state) option" where
  "trans_fallback_start U D u f_result = trans_fallback U D u f_result UnitAtomPropagateStartFailure"

definition trans_fallback_stop ::
  "'w unit_ops \<Rightarrow> deps \<Rightarrow> unit_id \<Rightarrow> job_result \<Rightarrow> 'w jt_state \<Rightarrow> (job_id list \<times> 'w jt_state) option" where
  "trans_fallback_stop U D u f_result = trans_fallback U D u f_result UnitAtomPropagateStopFailure"

definition trans_fallback_action ::
  "'w unit_ops \<Rightarrow> deps \<Rightarrow> unit_id \<Rightarrow> job_kind \<Rightarrow> job_result \<Rightarrow> 'w jt_state \<Rightarrow>
   (job_id list \<times> 'w jt_state) option" where
  "trans_fallback_action U D u run_kind f_result s =
     (case run_kind of
        Start \<Rightarrow> trans_fallback_start U D u f_result s
      | Stop \<Rightarrow> trans_fallback_stop U D u f_result s
      | Verify \<Rightarrow> trans_fallback_start U D u f_result s
      | _ \<Rightarrow> Some ([], s))"

fun trans_fallback_body ::
  "'w unit_ops \<Rightarrow> deps \<Rightarrow> job_result \<Rightarrow> nat \<Rightarrow> unit_id \<Rightarrow> job_kind \<Rightarrow> job_id list \<times> 'w jt_state \<Rightarrow>
   (job_id list \<times> 'w jt_state) option" where
  "trans_fallback_body U D f_result 0 u run_kind s = None"
| "trans_fallback_body U D f_result (Suc n) u run_kind s = do {
     let (del_jobs, st) = s;
     (dels, st1) \<leftarrow> trans_fallback_action U D u run_kind f_result st;
     (del_jobs1, st2) \<leftarrow>
       fold_opt (\<lambda>j s. let jb = jw_job (snd (snd s)) j in
           trans_fallback_body U D f_result n (j_unit jb) (j_run_kind jb) s) dels (del_jobs, st1);
     Some (del_jobs1 @ dels, st2) }"

definition job_trans_fallback ::
  "'w unit_ops \<Rightarrow> deps \<Rightarrow> nat \<Rightarrow> unit_id \<Rightarrow> job_kind \<Rightarrow> job_result \<Rightarrow> 'w jt_state \<Rightarrow>
   (job_id list \<times> 'w jt_state) option" where
  "job_trans_fallback U D n u run_kind f_result s =
     trans_fallback_body U D f_result n u run_kind ([], s)"

end
