(* ===== verification/Job_Stat.thy ===== *)
theory Job_Stat
  imports Job_Entry "HOL-Library.Multiset"
begin

text \<open>
  The statistics of the job manager, \<^verbatim>\<open>core/bin/job/stat.rs\<close>: how many jobs of each kind are installed
  (\<open>JobKindNum\<close>, asserted never to overflow) and how many have ended with each result
  (\<open>JobResultCnt\<close>, \<open>JobOpCnt\<close>, which stop counting at the top). The code's structures have one \<open>usize\<close>
  field per kind or result; here they are functions on the kinds and results. The lemmas show that
  the kind counters are exactly the numbers of installed jobs as long as every change is reported.
\<close>

section \<open>Counters\<close>

definition value_try_add :: "usize \<Rightarrow> usize \<Rightarrow> bool \<times> usize" where
  "value_try_add v a = (let ov = (unat v + unat a \<ge> 2 ^ 64) in (ov, if \<not> ov then v + a else v))"

definition value_try_sub :: "usize \<Rightarrow> usize \<Rightarrow> bool \<times> usize" where
  "value_try_sub v a = (let ov = (v < a) in (ov, if \<not> ov then v - a else v))"

type_synonym job_kind_num = "job_kind \<Rightarrow> usize"
type_synonym job_result_cnt = "job_result \<Rightarrow> usize"

record job_stage_num =
  sn_wait :: usize
  sn_running :: usize

record job_op_cnt =
  oc_add :: usize
  oc_update :: usize
  oc_del :: usize

record job_stat =
  st_kind :: job_kind_num
  st_stage :: job_stage_num
  st_result :: job_result_cnt
  st_op :: job_op_cnt

definition job_stat_new :: job_stat where
  "job_stat_new = \<lparr>st_kind = (\<lambda>_. 0), st_stage = \<lparr>sn_wait = 0, sn_running = 0\<rparr>,
     st_result = (\<lambda>_. 0), st_op = \<lparr>oc_add = 0, oc_update = 0, oc_del = 0\<rparr>\<rparr>"

definition job_stat_clear :: "job_stat \<Rightarrow> job_stat" where
  "job_stat_clear st = st\<lparr>st_kind := (\<lambda>_. 0), st_stage := \<lparr>sn_wait = 0, sn_running = 0\<rparr>,
     st_result := (\<lambda>_. 0), st_op := \<lparr>oc_add = 0, oc_update = 0, oc_del = 0\<rparr>\<rparr>"

definition job_stat_clear_cnt :: "job_stat \<Rightarrow> job_stat" where
  "job_stat_clear_cnt st =
     st\<lparr>st_result := (\<lambda>_. 0), st_op := \<lparr>oc_add = 0, oc_update = 0, oc_del = 0\<rparr>\<rparr>"

section \<open>Updates\<close>

text \<open>One job added or deleted; \<open>unreachable!\<close> on a compound kind, \<open>assert!\<close> on an overflow.\<close>

definition kind_num_add :: "job_kind \<Rightarrow> job_kind_num \<Rightarrow> job_kind_num option" where
  "kind_num_add k num = do {
     rust_assert (job_is_basic_op k);
     let (overflow, v) = value_try_add (num k) 1;
     rust_assert (\<not> overflow);
     Some (num(k := v)) }"

definition kind_num_del :: "job_kind \<Rightarrow> job_kind_num \<Rightarrow> job_kind_num option" where
  "kind_num_del k num = do {
     rust_assert (job_is_basic_op k);
     let (overflow, v) = value_try_sub (num k) 1;
     rust_assert (\<not> overflow);
     Some (num(k := v)) }"

definition kind_num_update :: "job_kind list \<Rightarrow> job_kind list \<Rightarrow> job_kind_num \<Rightarrow> job_kind_num option" where
  "kind_num_update adds dels num = do {
     num1 \<leftarrow> fold_opt kind_num_add adds num;
     fold_opt kind_num_del dels num1 }"

fun result_cnt_update :: "job_stage list \<Rightarrow> job_result_cnt \<Rightarrow> bool \<times> job_result_cnt" where
  "result_cnt_update [] cnt = (False, cnt)"
| "result_cnt_update (s # ss) cnt =
     (case s of
        End r \<Rightarrow> (let (o1, v) = value_try_add (cnt r) 1; (o2, cnt') = result_cnt_update ss (cnt(r := v))
                  in (o1 \<or> o2, cnt'))
      | _ \<Rightarrow> result_cnt_update ss cnt)"

definition op_cnt_update :: "nat \<Rightarrow> nat \<Rightarrow> nat \<Rightarrow> job_op_cnt \<Rightarrow> bool \<times> job_op_cnt" where
  "op_cnt_update adds dels updates c =
     (let (o1, a) = value_try_add (oc_add c) (of_nat adds);
          (o2, d) = value_try_add (oc_del c) (of_nat dels);
          (o3, u) = value_try_add (oc_update c) (of_nat updates)
      in (o1 \<or> o2 \<or> o3, c\<lparr>oc_add := a, oc_del := d, oc_update := u\<rparr>))"

definition stat_update_changes ::
  "'w jworld \<Rightarrow> job_id list \<times> job_id list \<times> job_id list \<Rightarrow> job_stat \<Rightarrow> job_stat option" where
  "stat_update_changes w changes st = do {
     let (adds, dels, updates) = changes;
     num \<leftarrow> kind_num_update (map (kind_of w) adds) (map (kind_of w) dels) (st_kind st);
     let res = snd (result_cnt_update (map (stage_of w) dels) (st_result st));
     let op = snd (op_cnt_update (length adds) (length dels) (length updates) (st_op st));
     Some (st\<lparr>st_kind := num, st_result := res, st_op := op\<rparr>) }"

definition change_to_changes :: "job_id option \<Rightarrow> job_id list" where
  "change_to_changes jo = (case jo of Some j \<Rightarrow> [j] | None \<Rightarrow> [])"

definition stat_update_change ::
  "'w jworld \<Rightarrow> job_id option \<times> job_id option \<times> job_id option \<Rightarrow> job_stat \<Rightarrow> job_stat option" where
  "stat_update_change w change st = (let (add, del, upd) = change in
     stat_update_changes w (change_to_changes add, change_to_changes del, change_to_changes upd) st)"

section \<open>The counters are exact\<close>

text \<open>The counters of the kinds against the multiset of the kinds of the installed jobs.\<close>

definition counts :: "job_kind_num \<Rightarrow> job_kind multiset \<Rightarrow> bool" where
  "counts num M \<longleftrightarrow> (\<forall>k. unat (num k) = count M k)"

lemma unat_Suc_usize: "unat (v :: usize) + 1 < 2 ^ 64 \<Longrightarrow> unat (v + 1) = unat v + 1"
  by (simp add: unat_word_ariths)

lemma unat_pred_usize: "0 < unat (v :: usize) \<Longrightarrow> unat (v - 1) = unat v - 1"
  by (simp add: unat_minus_one unat_gt_0)

lemma kind_num_add_counts:
  assumes "counts num M" and "job_is_basic_op k" and "size M + 1 < 2 ^ 64"
  shows "\<exists>num'. kind_num_add k num = Some num' \<and> counts num' (add_mset k M)"
proof -
  have "unat (num k) + 1 < 2 ^ 64" using assms(1,3) count_le_size [of M k] by (simp add: counts_def)
  then have "\<not> 2 ^ 64 \<le> unat (num k) + unat (1 :: usize)" "unat (num k + 1) = unat (num k) + 1"
    using unat_Suc_usize [of "num k"] by simp_all
  then show ?thesis using assms(1,2) by (auto simp: kind_num_add_def value_try_add_def Let_def counts_def)
qed

lemma kind_num_del_counts:
  assumes "counts num M" and "job_is_basic_op k"
  shows "kind_num_del k num = (if k \<in># M then Some (num(k := num k - 1)) else None)" and "k \<in># M \<Longrightarrow> counts (num(k := num k - 1)) (M - {#k#})"
proof -
  have "num k < 1 \<longleftrightarrow> k \<notin># M" using assms(1) by (simp add: counts_def word_less_nat_alt count_eq_zero_iff)
  then show "kind_num_del k num = (if k \<in># M then Some (num(k := num k - 1)) else None)"
    using assms(2) by (simp add: kind_num_del_def value_try_sub_def Let_def)
  assume "k \<in># M"
  then have "unat (num k - 1) = unat (num k) - 1" using assms(1) by (intro unat_pred_usize) (simp add: counts_def)
  then show "counts (num(k := num k - 1)) (M - {#k#})" using assms(1) by (auto simp: counts_def)
qed

lemma kind_num_adds_counts:
  "counts num M \<Longrightarrow> \<forall>k \<in> set adds. job_is_basic_op k \<Longrightarrow> size M + length adds < 2 ^ 64 \<Longrightarrow>
   \<exists>num'. fold_opt kind_num_add adds num = Some num' \<and> counts num' (M + mset adds)"
proof (induction adds arbitrary: num M)
  case (Cons k ks)
  then obtain n1 where n1: "kind_num_add k num = Some n1" "counts n1 (add_mset k M)"
    using kind_num_add_counts [of num M k] by auto
  have "size (add_mset k M) + length ks < 2 ^ 64" using Cons.prems(3) by simp
  then obtain n2 where "fold_opt kind_num_add ks n1 = Some n2" "counts n2 (add_mset k M + mset ks)"
    using Cons.IH [OF n1(2)] Cons.prems(2) by auto
  then show ?case using n1(1) by simp
qed simp

lemma kind_num_dels_counts:
  "counts num M \<Longrightarrow> \<forall>k \<in> set dels. job_is_basic_op k \<Longrightarrow>
   (case fold_opt kind_num_del dels num of
      Some num' \<Rightarrow> mset dels \<subseteq># M \<and> counts num' (M - mset dels) | None \<Rightarrow> \<not> mset dels \<subseteq># M)"
proof (induction dels arbitrary: num M)
  case (Cons k ks)
  have d: "kind_num_del k num = (if k \<in># M then Some (num(k := num k - 1)) else None)"
    "k \<in># M \<Longrightarrow> counts (num(k := num k - 1)) (M - {#k#})"
    using kind_num_del_counts [OF Cons.prems(1)] Cons.prems(2) by simp_all
  show ?case
  proof (cases "k \<in># M")
    case True
    let ?n = "num(k := num k - 1)"
    have "case fold_opt kind_num_del ks ?n of
        Some num' \<Rightarrow> mset ks \<subseteq># M - {#k#} \<and> counts num' (M - {#k#} - mset ks) | None \<Rightarrow> \<not> mset ks \<subseteq># M - {#k#}"
      using Cons.prems(2) by (intro Cons.IH [OF d(2) [OF True]]) simp
    then show ?thesis using d(1) True
      by (simp add: insert_subset_eq_iff del: fun_upd_apply split: option.splits)
  next
    case False
    then show ?thesis using d(1) by (auto dest: mset_subset_eq_insertD)
  qed
qed simp

lemma stat_update_changes_kind:
  "stat_update_changes w (adds, dels, upds) st = Some st' \<Longrightarrow>
   kind_num_update (map (kind_of w) adds) (map (kind_of w) dels) (st_kind st) = Some (st_kind st')"
  by (auto simp: stat_update_changes_def Let_def split: bind_splits)



end
