(* ===== verification/Job_Manager.thy ===== *)
theory Job_Manager
  imports Job_Transaction Job_Notify Job_Stat
begin

text \<open>
  The job manager, \<^verbatim>\<open>core/bin/job/manager.rs\<close>: it executes requests as transactions, runs what is
  ready, and finishes jobs when their units report a change of state.

  While a job is triggered, its unit may report state changes synchronously. The code guards against
  this re-entry with the flag \<open>running\<close> and remembers the first report in \<open>text\<close>. In the model the
  reports of one trigger are collected in \<open>jw_notes\<close> and handed to \<open>try_finish\<close> right after the
  trigger, with \<open>running\<close> still set: in between the code neither reads nor writes anything that
  \<open>try_finish\<close> touches. The loop \<open>run\<close> may go on for ever (a failing unit can request itself
  again), so it is a \<open>partial_function\<close>.
\<close>

section \<open>State\<close>

text \<open>
  What the manager is given: the unit operations, the dependency queries, all units (\<open>UnitDb\<close>) and
  the bound on the depth of the recursions over the dependencies.
\<close>

record 'w env =
  env_ops :: "'w unit_ops"
  env_deps :: deps
  env_is_dep :: "unit_id \<Rightarrow> unit_relation_atom \<Rightarrow> unit_id \<Rightarrow> bool"
  env_units :: "unit_id list"
  env_bound :: nat

record job_affect =
  af_adds :: "job_info list"
  af_dels :: "job_info list"
  af_updates :: "job_info list"
  af_interested :: bool

definition job_affect_new :: "bool \<Rightarrow> job_affect" where
  "job_affect_new i = \<lparr>af_adds = [], af_dels = [], af_updates = [], af_interested = i\<rparr>"

definition jobs_2_jobinfo :: "'w jworld \<Rightarrow> job_id list \<Rightarrow> job_info list" where
  "jobs_2_jobinfo w js = map (\<lambda>j. job_info_map (jw_job w j)) js"

definition job_affect_record ::
  "'w jworld \<Rightarrow> job_id list \<times> job_id list \<times> job_id list \<Rightarrow> job_affect \<Rightarrow> job_affect" where
  "job_affect_record w jobs af = (let (adds, dels, updates) = jobs in
     if af_interested af
     then af\<lparr>af_adds := af_adds af @ jobs_2_jobinfo w adds,
             af_dels := af_dels af @ jobs_2_jobinfo w dels,
             af_updates := af_updates af @ jobs_2_jobinfo w updates\<rparr>
     else af)"

text \<open>\<open>jm_enabled\<close>: the manager's event source is enabled (one shot) in the event loop.\<close>

record 'w jmgr =
  jm_alloc :: job_alloc
  jm_jobs :: job_table
  jm_stage :: job_table
  jm_running :: bool
  jm_text :: "unit_notify option"
  jm_stat :: job_stat
  jm_world :: "'w jworld"
  jm_enabled :: bool

definition jm_with :: "'w jmgr \<Rightarrow> 'w jt_state \<Rightarrow> 'w jmgr" where
  "jm_with m s = m\<lparr>jm_jobs := fst s, jm_world := snd s\<rparr>"

definition jm_new :: "'w jworld \<Rightarrow> 'w jmgr" where
  "jm_new w = \<lparr>jm_alloc = job_alloc_new, jm_jobs = job_table_new, jm_stage = job_table_new,
     jm_running = False, jm_text = None, jm_stat = job_stat_new, jm_world = w, jm_enabled = False\<rparr>"

definition jm_clear_stage :: "'w jmgr \<Rightarrow> 'w jmgr" where
  "jm_clear_stage m = (let (stage, w) = jt_clear (jm_stage m, jm_world m) in
     m\<lparr>jm_stage := stage, jm_world := w\<rparr>)"

definition jm_entry_clear :: "'w jmgr \<Rightarrow> 'w jmgr" where
  "jm_entry_clear m = (let (jobs, w) = jt_clear (jm_jobs m, jm_world m);
       m1 = jm_clear_stage (m\<lparr>jm_jobs := jobs, jm_world := w\<rparr>) in
     m1\<lparr>jm_alloc := job_alloc_clear (jm_alloc m1), jm_running := False, jm_text := None,
        jm_stat := job_stat_clear (jm_stat m1)\<rparr>)"

definition jm_update_up_ready :: "'w jmgr \<Rightarrow> 'w jmgr" where
  "jm_update_up_ready m = m\<lparr>jm_jobs := jt_update_up_ready (jm_jobs m)\<rparr>"

definition jm_calc_jobs_ready :: "'w jmgr \<Rightarrow> bool" where
  "jm_calc_jobs_ready m = tu_calc_ready (jt_unit (jm_jobs m))"

definition jm_up_ready :: "'w jmgr \<Rightarrow> bool" where
  "jm_up_ready m = tu_up_ready (jt_unit (jm_jobs m))"

definition jm_try_enable :: "'w jmgr \<Rightarrow> 'w jmgr" where
  "jm_try_enable m =
     jm_update_up_ready
       (if jm_calc_jobs_ready m \<and> \<not> jm_up_ready m then m\<lparr>jm_enabled := True\<rparr> else m)"

definition jm_update_change ::
  "job_id option \<times> job_id option \<times> job_id option \<Rightarrow> 'w jmgr \<Rightarrow> 'w jmgr option" where
  "jm_update_change c m =
     map_option (\<lambda>st. m\<lparr>jm_stat := st\<rparr>) (stat_update_change (jm_world m) c (jm_stat m))"

definition jm_update_changes ::
  "job_id list \<times> job_id list \<times> job_id list \<Rightarrow> 'w jmgr \<Rightarrow> 'w jmgr option" where
  "jm_update_changes c m =
     map_option (\<lambda>st. m\<lparr>jm_stat := st\<rparr>) (stat_update_changes (jm_world m) c (jm_stat m))"

section \<open>Executing a request\<close>

definition job_trans_check_input :: "job_conf \<Rightarrow> job_mode \<Rightarrow> error + unit" where
  "job_trans_check_input config mode =
     (if mode = ModeIsolate \<and> snd config \<noteq> Start then Inl Input
      else if mode = ModeTrigger \<and> snd config \<noteq> Stop then Inl Input
      else Inr ())"

definition jm_with_stage :: "'w jmgr \<Rightarrow> 'w stage_state \<Rightarrow> 'w jmgr" where
  "jm_with_stage m s = m\<lparr>jm_alloc := fst s, jm_stage := fst (snd s), jm_world := snd (snd s)\<rparr>"

definition jm_build_stage ::
  "'w env \<Rightarrow> job_conf \<Rightarrow> job_mode \<Rightarrow> 'w jmgr \<Rightarrow> ((error + unit) \<times> 'w jmgr) option" where
  "jm_build_stage E config mode m = do {
     let U = env_ops E;
     let D = env_deps E;
     let n = env_bound E;
     (r1, s1) \<leftarrow> job_trans_expand U D mode n config (jm_alloc m, jm_stage m, jm_world m);
     (case r1 of
        Inl e \<Rightarrow> Some (Inl e, jm_with_stage m s1)
      | Inr () \<Rightarrow> do {
          (r2, s2) \<leftarrow> job_trans_affect U D (env_units E) config mode n s1;
          (case r2 of
             Inl e \<Rightarrow> Some (Inl e, jm_with_stage m s2)
           | Inr () \<Rightarrow> do {
               let m2 = jm_with_stage m s2;
               r3 \<leftarrow> job_trans_verify (jm_world m2) (jm_stage m2) (jm_jobs m2) mode;
               Some (r3, m2) }) }) }"

definition jm_do_exec ::
  "'w env \<Rightarrow> job_conf \<Rightarrow> job_mode \<Rightarrow> job_affect \<Rightarrow> 'w jmgr \<Rightarrow>
   ((error + unit) \<times> job_affect \<times> 'w jmgr) option" where
  "jm_do_exec E config mode af m =
     (case job_trans_check_input config mode of
        Inl e \<Rightarrow> Some (Inl e, af, m)
      | Inr () \<Rightarrow> do {
          (r1, m1) \<leftarrow> jm_build_stage E config mode (jm_clear_stage m);
          (case r1 of
             Inl e \<Rightarrow> Some (Inl e, af, m1)
           | Inr () \<Rightarrow> do {
               r2 \<leftarrow> jt_commit (env_ops E) (env_deps E) (jm_stage m1) mode (jm_jobs m1, jm_world m1);
               (case r2 of
                  Inl e \<Rightarrow> Some (Inl e, af, m1)
                | Inr (changes, s2) \<Rightarrow> do {
                    let m2 = jm_clear_stage (jm_with m1 s2);
                    m3 \<leftarrow> jm_update_changes changes m2;
                    Some (Inr (), job_affect_record (jm_world m3) changes af, m3) }) }) })"

definition jm_exec ::
  "'w env \<Rightarrow> job_conf \<Rightarrow> job_mode \<Rightarrow> job_affect \<Rightarrow> 'w jmgr \<Rightarrow>
   ((error + unit) \<times> job_affect \<times> 'w jmgr) option" where
  "jm_exec E config mode af m = do {
     (res, af', m') \<leftarrow> jm_do_exec E config mode af m;
     Some (case res of Inl e \<Rightarrow> (Inl e, af', m') | Inr () \<Rightarrow> (Inr (), af', jm_try_enable m')) }"

text \<open>A request whose result is ignored.\<close>

definition jm_exec_ignored :: "'w env \<Rightarrow> job_conf \<times> job_mode \<Rightarrow> 'w jmgr \<Rightarrow> 'w jmgr option" where
  "jm_exec_ignored E c m =
     map_option (\<lambda>(_, _, m'). m') (jm_do_exec E (fst c) (snd c) (job_affect_new False) m)"

definition jm_exec_on ::
  "'w env \<Rightarrow> unit_id \<Rightarrow> unit_relation_atom \<Rightarrow> job_mode \<Rightarrow> 'w jmgr \<Rightarrow> 'w jmgr option" where
  "jm_exec_on E u atom mode m = do {
     (configs, mode') \<leftarrow> job_notify_result (env_deps E) u atom mode;
     fold_opt (\<lambda>c. jm_exec_ignored E (c, mode')) configs m }"

definition jm_do_notify :: "'w env \<Rightarrow> job_conf \<Rightarrow> job_mode option \<Rightarrow> 'w jmgr \<Rightarrow> 'w jmgr option" where
  "jm_do_notify E config mode_option m = do {
     targets \<leftarrow> job_notify_event (env_deps E) (env_is_dep E) config mode_option;
     fold_opt (jm_exec_ignored E) targets m }"

definition jm_notify ::
  "'w env \<Rightarrow> job_conf \<Rightarrow> job_mode \<Rightarrow> 'w jmgr \<Rightarrow> ((error + unit) \<times> 'w jmgr) option" where
  "jm_notify E config mode m =
     (if snd config \<noteq> Reload then Some (Inl Input, m)
      else do {
        m' \<leftarrow> jm_do_notify E config (Some mode) m;
        Some (Inr (), jm_try_enable m') })"

section \<open>Finishing jobs\<close>

definition jm_simulate_job_notify ::
  "'w env \<Rightarrow> unit_id \<Rightarrow> unit_active_state \<Rightarrow> unit_active_state \<Rightarrow> 'w jmgr \<Rightarrow> 'w jmgr option" where
  "jm_simulate_job_notify E u os ns m =
     (if (os = UnitInActive \<or> os = UnitFailed) \<and> (ns = UnitActive \<or> ns = UnitActivating)
      then jm_do_notify E (u, Start) None m
      else if (os = UnitActive \<or> os = UnitActivating) \<and> (ns = UnitInActive \<or> ns = UnitDeActivating)
      then jm_do_notify E (u, Stop) None m
      else Some m)"

definition unit_conf :: "'w env \<Rightarrow> 'w jmgr \<Rightarrow> unit_id \<Rightarrow> unit_config" where
  "unit_conf E m u = uo_config (env_ops E) u (jw_env (jm_world m))"

definition jm_simulate_unit_notify ::
  "'w env \<Rightarrow> unit_id \<Rightarrow> job_result \<Rightarrow> bool \<Rightarrow> 'w jmgr \<Rightarrow> 'w jmgr option" where
  "jm_simulate_unit_notify E u result inside m =
     (if inside \<and> result \<noteq> Done \<and> OnFailureJobMode (unit_conf E m u) = ModeFail
      then jm_exec_on E u UnitAtomOnFailure ModeFail m else Some m)"

definition jm_unit_start_on ::
  "'w env \<Rightarrow> unit_id \<Rightarrow> unit_active_state \<Rightarrow> unit_active_state \<Rightarrow> unit_notify_flags \<Rightarrow> 'w jmgr \<Rightarrow>
   'w jmgr option" where
  "jm_unit_start_on E u os ns flags m = do {
     let restart = flags_intersects flags UNIT_NOTIFY_WILL_AUTO_RESTART;
     m1 \<leftarrow> (if ns \<noteq> os \<and> \<not> restart \<and> ns = UnitFailed
            then jm_exec_on E u UnitAtomOnFailure (OnFailureJobMode (unit_conf E m u)) m else Some m);
     if ns = UnitInActive \<and> \<not> restart \<and> os \<notin> {UnitFailed, UnitInActive, UnitMaintenance}
     then jm_exec_on E u UnitAtomOnSuccess (OnSuccessJobMode (unit_conf E m1 u)) m1 else Some m1 }"

definition jm_do_remove_one ::
  "'w env \<Rightarrow> job_info \<Rightarrow> job_result \<Rightarrow> bool \<Rightarrow> 'w jmgr \<Rightarrow> (bool \<times> 'w jmgr) option" where
  "jm_do_remove_one E ji result inside m = do {
     let s = (jm_jobs m, jm_world m);
     let u = ji_unit ji;
     (del_trigger, del_suspend, s1) \<leftarrow>
       (if jt_is_trigger (jm_world m) (jm_jobs m) (ji_id ji)
        then map_option (\<lambda>(d, s'). (d, None, s')) (jt_finish_trigger (env_deps E) u result s)
        else do {
          (ds, s') \<leftarrow> jt_remove_suspends (env_ops E) (env_deps E) u (ji_kind ji) None result s;
          rust_assert (length ds = 1);
          Some (None, Some (last ds), s') });
     let del_one = (del_trigger \<noteq> None \<or> del_suspend \<noteq> None);
     m2 \<leftarrow> (if del_one then jm_simulate_unit_notify E u result inside (jm_with m s1)
            else Some (jm_with m s1));
     m3 \<leftarrow> jm_update_change (None, del_trigger, None) m2;
     m4 \<leftarrow> jm_update_change (None, del_suspend, None) m3;
     Some (del_one, m4) }"

definition jm_do_remove_relation :: "'w env \<Rightarrow> job_info \<Rightarrow> 'w jmgr \<Rightarrow> 'w jmgr option" where
  "jm_do_remove_relation E ji m =
     (if no_relevancy (ji_attr ji) then jm_exec_ignored E ((ji_unit ji, Stop), ModeReplace) m
      else do {
        (del_rel, s1) \<leftarrow> job_trans_fallback (env_ops E) (env_deps E) (env_bound E) (ji_unit ji)
                           (ji_run_kind ji) Dependency (jm_jobs m, jm_world m);
        m2 \<leftarrow> fold_opt (\<lambda>u m. if u \<noteq> ji_unit ji
                               then jm_simulate_unit_notify E u Dependency True m else Some m)
                (jobs_2_units (snd s1) del_rel) (jm_with m s1);
        jm_update_changes ([], del_rel, []) m2 })"

definition jm_do_remove ::
  "'w env \<Rightarrow> job_info \<Rightarrow> job_result \<Rightarrow> bool \<Rightarrow> 'w jmgr \<Rightarrow> (bool \<times> 'w jmgr) option" where
  "jm_do_remove E ji result inside m = do {
     (del_one, m1) \<leftarrow> jm_do_remove_one E ji result inside m;
     if \<not> del_one then Some (False, m1)
     else do {
       m2 \<leftarrow> (if result \<noteq> Done then jm_do_remove_relation E ji m1 else Some m1);
       Some (True, m2) } }"

text \<open>The compensating \<open>UnitX::trigger\<close> calls at the end of \<open>do_try_finish\<close> have empty bodies.\<close>

definition jm_do_try_finish :: "'w env \<Rightarrow> unit_notify \<Rightarrow> 'w jmgr \<Rightarrow> 'w jmgr option" where
  "jm_do_try_finish E note m = do {
     let (u, os, ns, flags) = note;
     (generated, m1) \<leftarrow>
       (case jt_get_trigger_info (jm_world m) (jm_jobs m) u of
          None \<Rightarrow> Some (False, m)
        | Some (trigger, pause) \<Rightarrow>
            if pause then do {
              t \<leftarrow> jt_resume_unit u (jm_jobs m);
              Some (True, m\<lparr>jm_jobs := t\<rparr>) }
            else do {
              (suggest_r, suggest_g) \<leftarrow> job_process_unit (ji_run_kind trigger) ns flags;
              m' \<leftarrow> (case suggest_r of
                       Some result \<Rightarrow> map_option snd (jm_do_remove E trigger result False m)
                     | None \<Rightarrow> Some m);
              Some (suggest_g, m') });
     m2 \<leftarrow> (if \<not> generated then jm_simulate_job_notify E u os ns m1 else Some m1);
     jm_unit_start_on E u os ns flags m2 }"

definition jm_try_finish ::
  "'w env \<Rightarrow> unit_notify \<Rightarrow> 'w jmgr \<Rightarrow> ((error + unit) \<times> 'w jmgr) option" where
  "jm_try_finish E note m =
     (if jm_running m then
        Some (if jm_text m \<noteq> None then (Inl Input, m)
              else (Inr (), jm_try_enable (m\<lparr>jm_text := Some note\<rparr>)))
      else do {
        m' \<leftarrow> jm_do_try_finish E note m;
        Some (Inr (), jm_try_enable m') })"

definition jm_remove :: "'w env \<Rightarrow> job_id \<Rightarrow> 'w jmgr \<Rightarrow> ((error + unit) \<times> 'w jmgr) option" where
  "jm_remove E i m = do {
     rust_assert (\<not> jm_running m);
     (case jt_get (jm_world m) (jm_jobs m) i of
        None \<Rightarrow> Some (Inl NotExisted, m)
      | Some ji \<Rightarrow>
          if jt_is_trigger (jm_world m) (jm_jobs m) i then Some (Inl NotSupported, m)
          else if \<not> jt_is_suspend (jm_world m) (jm_jobs m) i then Some (Inl Internal, m)
          else do {
            (_, m') \<leftarrow> jm_do_remove E ji Cancelled False m;
            Some (Inr (), jm_try_enable m') }) }"

section \<open>Running\<close>

definition jm_run_trigger ::
  "'w env \<Rightarrow> unit_id option \<Rightarrow> 'w jmgr \<Rightarrow>
   (((job_info \<times> job_result option) option \<times> job_id option) option \<times> 'w jmgr) option" where
  "jm_run_trigger E uo m = do {
     let m0 = m\<lparr>jm_text := None, jm_running := True\<rparr>;
     (ret, s1) \<leftarrow> jt_try_trigger (env_ops E) (env_deps E) uo (jm_jobs m0, jm_world m0);
     let m1 = jm_with m0 s1;
     m2 \<leftarrow> fold_opt (\<lambda>note m. map_option snd (jm_try_finish E note m)) (jw_notes (jm_world m1)) m1;
     Some (ret, m2\<lparr>jm_running := False, jm_world := (jm_world m2)\<lparr>jw_notes := []\<rparr>\<rparr>) }"

definition jm_run_round :: "'w env \<Rightarrow> unit_id option \<Rightarrow> 'w jmgr \<Rightarrow> (bool \<times> 'w jmgr) option" where
  "jm_run_round E uo m = do {
     (ret, m1) \<leftarrow> jm_run_trigger E uo m;
     (case ret of
        None \<Rightarrow> Some (False, m1)
      | Some (trigger_info, merge_trigger) \<Rightarrow> do {
          m2 \<leftarrow> jm_update_change (None, merge_trigger, None) m1;
          m3 \<leftarrow> (case jm_text m2 of
                   Some note \<Rightarrow> map_option (\<lambda>m'. m'\<lparr>jm_text := None\<rparr>)
                                  (jm_do_try_finish E note (m2\<lparr>jm_text := None\<rparr>))
                 | None \<Rightarrow> Some m2);
          m4 \<leftarrow> (case trigger_info of
                   Some (t_jinfo, Some tend_r) \<Rightarrow>
                     if jt_get (jm_world m3) (jm_jobs m3) (ji_id t_jinfo) \<noteq> None
                     then map_option snd (jm_do_remove E t_jinfo tend_r True m3)
                     else Some m3
                 | _ \<Rightarrow> Some m3);
          Some (True, m4\<lparr>jm_world := (jm_world m4)\<lparr>jw_last_unit := None\<rparr>\<rparr>) }) }"

partial_function (option) jm_run ::
  "'w env \<Rightarrow> unit_id option \<Rightarrow> usize \<Rightarrow> 'w jmgr \<Rightarrow> (usize \<times> 'w jmgr) option" where
  "jm_run E uo cnt m = do {
     (go, m1) \<leftarrow> jm_run_round E uo m;
     if go then jm_run E uo (cnt + 1) m1 else Some (cnt, m1) }"

definition jm_dispatch :: "'w env \<Rightarrow> 'w jmgr \<Rightarrow> 'w jmgr option" where
  "jm_dispatch E m = do {
     (_, m1) \<leftarrow> jm_run E None 0 (m\<lparr>jm_enabled := False\<rparr>);
     let m2 = jm_update_up_ready m1;
     rust_assert (\<not> jm_calc_jobs_ready m2);
     Some m2 }"

definition jm_trigger_unit :: "'w env \<Rightarrow> unit_id \<Rightarrow> 'w jmgr \<Rightarrow> 'w jmgr option" where
  "jm_trigger_unit E u m = do {
     rust_assert (u \<in> set (env_units E));
     (cnt, m1) \<leftarrow> jm_run E (Some u) 0 m;
     rust_assert (cnt \<noteq> 0);
     Some (jm_try_enable m1) }"

section \<open>Units that go, recovery\<close>

definition jm_remove_unit :: "unit_id \<Rightarrow> 'w jmgr \<Rightarrow> 'w jmgr option" where
  "jm_remove_unit u m = do {
     let ((del_trigger, del_suspends), t) = jt_remove_unit u (jm_jobs m);
     m1 \<leftarrow> jm_update_change (None, del_trigger, None) (m\<lparr>jm_jobs := t\<rparr>);
     jm_update_changes ([], del_suspends, []) m1 }"

definition jm_rentry_trigger_merge :: "unit_id \<Rightarrow> bool \<Rightarrow> 'w jmgr \<Rightarrow> 'w jmgr option" where
  "jm_rentry_trigger_merge u frc m = do {
     let re = jw_rentry (jm_world m);
     let (k_o, a_o) = (case trigger_get re u of
        Some ka \<Rightarrow> ka | None \<Rightarrow> (Restart, job_attr_new True True frc True));
     relevancy \<leftarrow> job_merge_trigger_iskeep k_o;
     k_n \<leftarrow> job_merge_trigger_map k_o;
     let a_n = job_attr_or (job_attr_new True True frc (\<not> relevancy)) a_o;
     re' \<leftarrow> trigger_insert u k_n a_n re;
     Some (m\<lparr>jm_world := (jm_world m)\<lparr>jw_rentry := re'\<rparr>\<rparr>) }"

definition jm_map_one ::
  "'w env \<Rightarrow> (job_conf \<Rightarrow> job_alloc \<times> 'w jt_state \<Rightarrow> (job_id \<times> job_alloc \<times> 'w jt_state) option) \<Rightarrow>
   unit_id \<times> job_kind \<times> job_attr \<Rightarrow> job_id list \<times> 'w jmgr \<Rightarrow> (job_id list \<times> 'w jmgr) option" where
  "jm_map_one E f e s = do {
     let (u, kind, _) = e;
     let (js, m) = s;
     rust_assert (u \<in> set (env_units E));
     (j, a, st) \<leftarrow> f (u, kind) (jm_alloc m, jm_jobs m, jm_world m);
     Some (js @ [j], jm_with (m\<lparr>jm_alloc := a\<rparr>) st) }"

definition jm_db_map :: "'w env \<Rightarrow> 'w jmgr \<Rightarrow> 'w jmgr option" where
  "jm_db_map E m = do {
     let re = jw_rentry (jm_world m);
     (triggers, m1) \<leftarrow>
       fold_opt (jm_map_one E (jt_rentry_map_trigger (env_ops E))) (trigger_entries re) ([], m);
     (suspends, m2) \<leftarrow>
       fold_opt (jm_map_one E (jt_rentry_map_suspend (env_ops E))) (suspends_entries re) ([], m1);
     (_, s3) \<leftarrow> jt_reshuffle (env_ops E) (jm_jobs m2, jm_world m2);
     m4 \<leftarrow> jm_update_changes (triggers, [], []) (jm_with m2 s3);
     m5 \<leftarrow> jm_update_changes (suspends, [], []) m4;
     Some (m5\<lparr>jm_stat := job_stat_clear_cnt (jm_stat m5)\<rparr>) }"

definition jm_coldplug_unit :: "unit_id \<Rightarrow> 'w jmgr \<Rightarrow> 'w jmgr" where
  "jm_coldplug_unit u m =
     jm_with m (jt_coldplug_suspend u (jt_coldplug_trigger u (jm_jobs m, jm_world m)))"

definition jm_db_compensate_last :: "unit_id option \<Rightarrow> 'w jmgr \<Rightarrow> 'w jmgr option" where
  "jm_db_compensate_last lunit m =
     (case lunit of Some u \<Rightarrow> jm_rentry_trigger_merge u True m | None \<Rightarrow> Some m)"

definition jm_db_compensate_history :: "'w jmgr \<Rightarrow> 'w jmgr option" where
  "jm_db_compensate_history m =
     fold_opt (\<lambda>u. jm_rentry_trigger_merge u False) (trigger_keys (jw_rentry (jm_world m))) m"

definition jm_do_compensate_last :: "'w env \<Rightarrow> unit_id option \<Rightarrow> 'w jmgr \<Rightarrow> 'w jmgr option" where
  "jm_do_compensate_last E lunit m =
     (case lunit of Some u \<Rightarrow> jm_trigger_unit E u m | None \<Rightarrow> Some m)"

definition jm_do_compensate_others :: "'w env \<Rightarrow> unit_id option \<Rightarrow> 'w jmgr \<Rightarrow> 'w jmgr option" where
  "jm_do_compensate_others E lunit m =
     fold_opt (\<lambda>u m. if Some u \<noteq> lunit then jm_trigger_unit E u m else Some m)
       (trigger_keys (jw_rentry (jm_world m))) m"

definition jm_has_stop_job :: "'w jmgr \<Rightarrow> unit_id \<Rightarrow> bool" where
  "jm_has_stop_job m u = (jt_get_suspend (jm_world m) (jm_jobs m) u Stop \<noteq> None)"

definition jm_has_start_job :: "'w jmgr \<Rightarrow> unit_id \<Rightarrow> bool" where
  "jm_has_start_job m u = (jt_get_suspend (jm_world m) (jm_jobs m) u Start \<noteq> None)"

definition jm_has_start_like_job :: "'w jmgr \<Rightarrow> unit_id \<Rightarrow> bool" where
  "jm_has_start_like_job m u =
     (jt_get_suspend (jm_world m) (jm_jobs m) u Start \<noteq> None \<or>
      jt_get_suspend (jm_world m) (jm_jobs m) u ReloadOrStart \<noteq> None \<or>
      jt_get_suspend (jm_world m) (jm_jobs m) u Restart \<noteq> None)"

end
