(* ===== verification/Job_Ready.thy ===== *)
theory Job_Ready
  imports Job_Table
begin

text \<open>
  The two containers of ready units in \<^verbatim>\<open>core/bin/job/table.rs\<close>. \<open>BTreeMap::pop_last\<close> was not
  available to the authors, so \<open>t_ready\<close> is poured into the vector \<open>readys\<close> and popped from there, and
  poured back before it is used as a map. The theory shows that the pair behaves as one ordered map
  with \<open>pop_last\<close>: the locale \<open>pop_map\<close> is that interface, interpreted on the operations of the table.
\<close>

section \<open>An ordered map with pop-last\<close>

locale pop_map =
  fixes view :: "'t \<Rightarrow> 'k::linorder \<Rightarrow> 'v option"
    and entry :: "'t \<Rightarrow> 'k \<Rightarrow> 'v option"
    and pinsert :: "'k \<Rightarrow> 'v \<Rightarrow> 't \<Rightarrow> 't"
    and premove :: "'k \<Rightarrow> 'v \<Rightarrow> 't \<Rightarrow> 't"
    and ppop :: "'k option \<Rightarrow> 't \<Rightarrow> 'v option \<times> 't"
    and pinv :: "'t \<Rightarrow> bool"
  assumes view_insert: "pinv t \<Longrightarrow> entry t k = Some v \<Longrightarrow> view (pinsert k v t) = (view t)(k \<mapsto> v)"
    and view_remove: "pinv t \<Longrightarrow> entry t k = Some v \<Longrightarrow> view (premove k v t) = (view t)(k := None)"
    and view_pop: "pinv t \<Longrightarrow> fst (ppop (Some k) t) = view t k \<and> view (snd (ppop (Some k) t)) = (view t)(k := None)"
    and view_pop_empty: "pinv t \<Longrightarrow> view t = Map.empty \<Longrightarrow> fst (ppop None t) = None \<and> view (snd (ppop None t)) = Map.empty"
    and view_pop_last: "pinv t \<Longrightarrow> view t \<noteq> Map.empty \<Longrightarrow>
      fst (ppop None t) = view t (Max (dom (view t))) \<and>
      view (snd (ppop None t)) = (view t)(Max (dom (view t)) := None)"
    and finite_view: "pinv t \<Longrightarrow> finite (dom (view t))"
    and inv_insert: "pinv t \<Longrightarrow> entry t k = Some v \<Longrightarrow> pinv (pinsert k v t)"
    and inv_remove: "pinv t \<Longrightarrow> entry t k = Some v \<Longrightarrow> pinv (premove k v t)"
    and inv_pop: "pinv t \<Longrightarrow> pinv (snd (ppop ko t))"
begin

lemma pop_last_none_iff: "pinv t \<Longrightarrow> fst (ppop None t) = None \<longleftrightarrow> view t = Map.empty"
proof (cases "view t = Map.empty")
  case False
  assume "pinv t"
  moreover have "Max (dom (view t)) \<in> dom (view t)"
    using False finite_view [OF \<open>pinv t\<close>] by (intro Max_in) auto
  ultimately show ?thesis using view_pop_last [of t] False by auto
qed (use view_pop_empty in blast)

lemma pop_last_decreases:
  "pinv t \<Longrightarrow> view t \<noteq> Map.empty \<Longrightarrow>
     card (dom (view (snd (ppop None t)))) < card (dom (view t))"
proof -
  assume t: "pinv t" "view t \<noteq> Map.empty"
  then have "Max (dom (view t)) \<in> dom (view t)" using finite_view by (intro Max_in) auto
  moreover have "dom (view (snd (ppop None t))) = dom (view t) - {Max (dom (view t))}"
    using view_pop_last [OF t] by simp
  ultimately show ?thesis using finite_view [OF t(1)] by (metis card_Diff1_less)
qed

text \<open>Popping until nothing is left.\<close>

fun drain :: "nat \<Rightarrow> 't \<Rightarrow> 'v list \<times> 't" where
  "drain 0 t = ([], t)"
| "drain (Suc n) t =
     (case ppop None t of
        (None, t') \<Rightarrow> ([], t')
      | (Some v, t') \<Rightarrow> (v # fst (drain n t'), snd (drain n t')))"

lemma drain_all:
  assumes "pinv t"
  shows "card (dom (view t)) \<le> n \<Longrightarrow> view (snd (drain (Suc n) t)) = Map.empty \<and>
    map Some (fst (drain (Suc n) t)) = map (view t) (rev (sorted_list_of_set (dom (view t))))"
  using assms
proof (induction n arbitrary: t)
  case 0
  then have e: "view t = Map.empty" using finite_view by auto
  with 0 view_pop_empty [of t] show ?case by (auto split: prod.splits option.splits)
next
  case (Suc n)
  note fin = finite_view [OF Suc.prems(2)]
  show ?case
  proof (cases "view t = Map.empty")
    case True
    then show ?thesis using Suc.prems view_pop_empty [of t] by (auto split: prod.splits option.splits)
  next
    case False
    let ?m = "Max (dom (view t))"
    have m: "?m \<in> dom (view t)" using False fin by (intro Max_in) auto
    then obtain v where v: "view t ?m = Some v" by auto
    obtain t1 where pop: "ppop None t = (Some v, t1)" "view t1 = (view t)(?m := None)"
      using view_pop_last [OF Suc.prems(2) False] v by (cases "ppop None t") auto
    have inv: "pinv t1" using inv_pop [OF Suc.prems(2), of None] pop(1) by simp
    have dr: "drain (Suc (Suc n)) t = (v # fst (drain (Suc n) t1), snd (drain (Suc n) t1))"
      by (subst drain.simps(2)) (simp only: pop(1) prod.case option.case)
    have d: "dom (view t1) = dom (view t) - {?m}" using pop(2) by simp
    then have "card (dom (view t1)) \<le> n" using m fin Suc.prems(1) by (simp add: card_Diff_subset)
    from Suc.IH [OF this inv]
    have ih: "view (snd (drain (Suc n) t1)) = Map.empty"
      "map Some (fst (drain (Suc n) t1)) = map (view t1) (rev (sorted_list_of_set (dom (view t1))))" by auto
    have "map (view t1) (rev (sorted_list_of_set (dom (view t1)))) =
        map (view t) (rev (sorted_list_of_set (dom (view t) - {?m})))"
      unfolding d by (rule map_cong) (use pop(2) fin in auto)
    moreover have "sorted_list_of_set (dom (view t)) = sorted_list_of_set (dom (view t) - {?m}) @ [?m]"
    proof -
      let ?l = "sorted_list_of_set (dom (view t) - {?m}) @ [?m]"
      have "sorted ?l" "distinct ?l" "set ?l = dom (view t)" using fin m by (auto simp: sorted_append)
      then show ?thesis using sorted_list_of_set.idem_if_sorted_distinct [of ?l] by simp
    qed
    ultimately show ?thesis unfolding dr using ih v by (simp del: drain.simps)
  qed
qed

end

section \<open>The containers of the table as one map\<close>

definition ready_abs :: "job_unit_table \<Rightarrow> (unit_id \<times> uvref) list" where
  "ready_abs t = tu_ready t @ map (\<lambda>r. (ju_unit (tu_uv t r), r)) (tu_readys t)"

definition ready_view :: "job_unit_table \<Rightarrow> unit_id \<Rightarrow> uvref option" where
  "ready_view t = map_of (ready_abs t)"

definition entry_of :: "job_unit_table \<Rightarrow> unit_id \<Rightarrow> uvref option" where
  "entry_of t = map_of (tu_data t)"

definition ready_wf :: "job_unit_table \<Rightarrow> bool" where
  "ready_wf t \<longleftrightarrow> distinct (map fst (tu_data t)) \<and>
     (\<forall>u r. entry_of t u = Some r \<longrightarrow> ju_unit (tu_uv t r) = u) \<and>
     (tu_readys t = [] \<or> tu_ready t = []) \<and> bt_sorted (ready_abs t) \<and>
     (\<forall>u r. (u, r) \<in> set (ready_abs t) \<longleftrightarrow> entry_of t u = Some r \<and> ju_up_ready (tu_uv t r))"

lemma ready_wfD:
  assumes "ready_wf t"
  shows "distinct (map fst (tu_data t))"
    and "entry_of t u = Some r \<Longrightarrow> ju_unit (tu_uv t r) = u"
    and "tu_readys t = [] \<or> tu_ready t = []" and "bt_sorted (ready_abs t)"
    and "(u, r) \<in> set (ready_abs t) \<longleftrightarrow> entry_of t u = Some r \<and> ju_up_ready (tu_uv t r)"
  using assms by (auto simp: ready_wf_def)

lemma entry_of_inj: "ready_wf t \<Longrightarrow> entry_of t u = Some r \<Longrightarrow> entry_of t v = Some r \<Longrightarrow> u = v"
  using ready_wfD(2) by blast

lemma ready_view_iff:
  assumes "ready_wf t"
  shows "ready_view t u = Some r \<longleftrightarrow> entry_of t u = Some r \<and> ju_up_ready (tu_uv t r)"
  using ready_wfD(5) [OF assms] bt_sorted_distinct [OF ready_wfD(4) [OF assms]]
  by (simp add: ready_view_def map_of_eq_Some_iff)

text \<open>What the operations on the containers leave alone.\<close>

definition same_frame :: "job_unit_table \<Rightarrow> job_unit_table \<Rightarrow> bool" where
  "same_frame t t' \<longleftrightarrow> tu_data t' = tu_data t \<and> tu_up_ready t' = tu_up_ready t \<and>
     tu_sync t' = tu_sync t \<and> tu_next t' = tu_next t"

lemma same_frame_refl [simp]: "same_frame t t"
  by (simp add: same_frame_def)

lemma same_frame_trans [trans]: "same_frame t t' \<Longrightarrow> same_frame t' t'' \<Longrightarrow> same_frame t t''"
  by (simp add: same_frame_def)

lemma set_uv_simps [simp]:
  "tu_data (set_uv r ju t) = tu_data t" "tu_ready (set_uv r ju t) = tu_ready t"
  "tu_readys (set_uv r ju t) = tu_readys t" "tu_up_ready (set_uv r ju t) = tu_up_ready t"
  "tu_sync (set_uv r ju t) = tu_sync t" "tu_next (set_uv r ju t) = tu_next t"
  "tu_uv (set_uv r ju t) = (tu_uv t)(r := ju)" "entry_of (set_uv r ju t) = entry_of t"
  by (simp_all add: set_uv_def entry_of_def)

lemma same_frame_set_uv [simp]: "same_frame t (set_uv r ju t)"
  by (simp add: same_frame_def)

lemma set_of_map_of_eq:
  "distinct (map fst a) \<Longrightarrow> distinct (map fst b) \<Longrightarrow> map_of a = map_of b \<Longrightarrow> set a = set b"
  by (simp add: map_of_inject_set)

lemma readys_backfill_spec:
  assumes wf: "ready_wf t"
  shows "ready_wf (readys_backfill t)" and "same_frame t (readys_backfill t)"
    and "tu_readys (readys_backfill t) = []" and "tu_uv (readys_backfill t) = tu_uv t"
    and "map_of (tu_ready (readys_backfill t)) = ready_view t"
    and "bt_sorted (tu_ready (readys_backfill t))"
proof -
  let ?b = "readys_backfill t"
  show fr: "same_frame t ?b" and r: "tu_readys ?b = []" and uv: "tu_uv ?b = tu_uv t"
    by (simp_all add: readys_backfill_def same_frame_def)
  have abs: "bt_sorted (tu_ready ?b) \<and> map_of (tu_ready ?b) = ready_view t"
  proof (cases "tu_readys t = []")
    case True
    then show ?thesis using ready_wfD(4) [OF wf] by (simp add: readys_backfill_def ready_abs_def ready_view_def)
  next
    case False
    let ?xs = "map (\<lambda>r. (ju_unit (tu_uv t r), r)) (tu_readys t)"
    have e: "tu_ready t = []" using ready_wfD(3) [OF wf] False by simp
    have eq: "tu_ready ?b = fold (\<lambda>(k, v). bt_insert k v) ?xs []"
      using False e by (simp add: readys_backfill_def fold_map comp_def)
    have xs: "ready_abs t = ?xs" using e by (simp add: ready_abs_def)
    have "bt_sorted []" by (simp add: bt_sorted_def)
    then have "bt_sorted (tu_ready ?b)" unfolding eq by (rule bt.invar_insert_all)
    moreover have "map_of (tu_ready ?b) = map_of (rev ?xs)"
      unfolding eq using bt.lookup_insert_all [OF \<open>bt_sorted []\<close>, of ?xs] by simp
    moreover have "map_of (rev ?xs) = map_of ?xs"
      by (rule distinct_map_of_rev) (use bt_sorted_distinct [OF ready_wfD(4) [OF wf]] xs in simp)
    ultimately show ?thesis by (simp add: ready_view_def xs)
  qed
  then show "map_of (tu_ready ?b) = ready_view t" and s: "bt_sorted (tu_ready ?b)" by simp_all
  have a: "ready_abs ?b = tu_ready ?b" using r by (simp add: ready_abs_def)
  have "set (tu_ready ?b) = set (ready_abs t)"
    using abs bt_sorted_distinct ready_wfD(4) [OF wf] by (intro set_of_map_of_eq) (auto simp: ready_view_def)
  moreover have "entry_of ?b = entry_of t" using fr by (simp add: same_frame_def entry_of_def)
  ultimately show "ready_wf ?b"
    using wf s r uv fr unfolding ready_wf_def a by (simp add: same_frame_def)
qed

lemma readys_fill_spec:
  assumes wf: "ready_wf t"
  shows "ready_abs (readys_fill t) = ready_abs t" and "same_frame t (readys_fill t)"
    and "tu_ready (readys_fill t) = []" and "tu_uv (readys_fill t) = tu_uv t"
proof -
  show "same_frame t (readys_fill t)" "tu_uv (readys_fill t) = tu_uv t"
    by (simp_all add: readys_fill_def same_frame_def)
  show "tu_ready (readys_fill t) = []" using ready_wfD(3) [OF wf] by (auto simp: readys_fill_def)
  show "ready_abs (readys_fill t) = ready_abs t"
  proof (cases "tu_readys t = []")
    case True
    have "ju_unit (tu_uv t r) = u" if "(u, r) \<in> set (tu_ready t)" for u r
      using that ready_wfD(2,5) [OF wf] by (auto simp: ready_abs_def)
    then have "map (\<lambda>r. (ju_unit (tu_uv t r), r)) (map snd (tu_ready t)) = tu_ready t"
      unfolding map_map by (intro map_idI) auto
    then show ?thesis using True by (simp add: readys_fill_def ready_abs_def)
  qed (simp add: readys_fill_def)
qed

text \<open>Replacing an entry by one with the same unit and the same position in the containers.\<close>

lemma ready_abs_set_uv:
  "ju_unit ju = ju_unit (tu_uv t r) \<Longrightarrow> ready_abs (set_uv r ju t) = ready_abs t"
  by (auto simp: ready_abs_def)

lemma ready_wf_set_uv:
  assumes "ready_wf t" and "ju_unit ju = ju_unit (tu_uv t r)" and "ju_up_ready ju = ju_up_ready (tu_uv t r)"
  shows "ready_wf (set_uv r ju t)"
  using assms(1,3) ready_abs_set_uv [OF assms(2)] assms(2)
  by (auto simp: ready_wf_def)

lemma ready_step:
  assumes wf: "ready_wf t" and u: "entry_of t u = Some r"
    and m: "bt_sorted m" "map_of m = (ready_view t)(u := if b then Some r else None)"
    and t': "t' = set_uv r ((tu_uv t r)\<lparr>ju_up_ready := b\<rparr>) ((readys_backfill t)\<lparr>tu_ready := m\<rparr>)"
  shows "ready_wf t'" and "same_frame t t'"
    and "tu_uv t' = (tu_uv t)(r := (tu_uv t r)\<lparr>ju_up_ready := b\<rparr>)"
proof -
  note bf = readys_backfill_spec [OF wf]
  show uv: "tu_uv t' = (tu_uv t)(r := (tu_uv t r)\<lparr>ju_up_ready := b\<rparr>)" using bf(4) by (simp add: t')
  show fr: "same_frame t t'" using bf(2) by (simp add: t' same_frame_def)
  then have en: "entry_of t' = entry_of t" by (simp add: same_frame_def entry_of_def)
  have a: "ready_abs t' = m" "tu_readys t' = []" using bf(3) by (simp_all add: t' ready_abs_def)
  have mem: "(v, x) \<in> set m \<longleftrightarrow> ((ready_view t)(u := if b then Some r else None)) v = Some x" for v x
    using map_of_eq_Some_iff [OF bt_sorted_distinct [OF m(1)]] m(2) by simp
  have "(v, x) \<in> set m \<longleftrightarrow> entry_of t v = Some x \<and> ju_up_ready (tu_uv t' x)" for v x
  proof (cases "v = u")
    case True
    then show ?thesis using mem [of v x] u uv by auto
  next
    case False
    then have "entry_of t v = Some x \<Longrightarrow> x \<noteq> r" using entry_of_inj [OF wf u] by blast
    then show ?thesis using mem [of v x] False ready_view_iff [OF wf, of v x] uv by auto
  qed
  moreover have "ju_unit (tu_uv t' x) = v" if "entry_of t v = Some x" for v x
    using ready_wfD(2) [OF wf that] uv by auto
  ultimately show "ready_wf t'"
    unfolding ready_wf_def en a using m(1) ready_wfD(1) [OF wf] fr by (simp add: same_frame_def)
qed

definition up_ready_set :: "uvref \<Rightarrow> bool \<Rightarrow> job_unit_table \<Rightarrow> job_unit_table \<Rightarrow> bool" where
  "up_ready_set r b t t' \<longleftrightarrow> ready_wf t' \<and> same_frame t t' \<and>
     tu_uv t' = (tu_uv t)(r := (tu_uv t r)\<lparr>ju_up_ready := b\<rparr>)"

lemma up_ready_set_same:
  assumes "ready_wf t" and "ju_up_ready (tu_uv t r) = b"
  shows "up_ready_set r b t t"
proof -
  have "(tu_uv t r)\<lparr>ju_up_ready := b\<rparr> = tu_uv t r" using assms(2) by (cases "tu_uv t r") auto
  then show ?thesis using assms(1) by (simp add: up_ready_set_def del: fun_upd_apply)
qed

lemma ready_insert_spec:
  assumes wf: "ready_wf t" and u: "entry_of t u = Some r"
  shows "up_ready_set r True t (ready_insert u r t)"
proof (cases "ju_up_ready (tu_uv t r)")
  case True
  then show ?thesis using up_ready_set_same [OF wf, of r True] by (simp add: ready_insert_def)
next
  case False
  note bf = readys_backfill_spec [OF wf]
  let ?m = "bt_insert u r (tu_ready (readys_backfill t))"
  have "map_of ?m = (ready_view t)(u := if True then Some r else None)"
    using map_of_bt_insert [OF bf(6)] bf(5) by simp
  moreover have "ready_insert u r t =
      set_uv r ((tu_uv t r)\<lparr>ju_up_ready := True\<rparr>) ((readys_backfill t)\<lparr>tu_ready := ?m\<rparr>)"
    using False bf(4) by (simp add: ready_insert_def Let_def ju_set_up_ready_def)
  ultimately show ?thesis
    unfolding up_ready_set_def by (intro conjI ready_step [OF wf u bt_sorted_insert [OF bf(6)]])
qed

lemma ready_remove_spec:
  assumes wf: "ready_wf t" and u: "entry_of t u = Some r"
  shows "up_ready_set r False t (ready_remove u r t)"
proof (cases "ju_up_ready (tu_uv t r)")
  case False
  then show ?thesis using up_ready_set_same [OF wf, of r False] by (simp add: ready_remove_def)
next
  case True
  note bf = readys_backfill_spec [OF wf]
  let ?m = "AList.delete u (tu_ready (readys_backfill t))"
  have "map_of ?m = (ready_view t)(u := if False then Some r else None)"
    using bf(5) by (simp add: delete_conv')
  moreover have "ready_remove u r t =
      set_uv r ((tu_uv t r)\<lparr>ju_up_ready := False\<rparr>) ((readys_backfill t)\<lparr>tu_ready := ?m\<rparr>)"
    using True bf(4) by (simp add: ready_remove_def Let_def ju_clear_up_ready_def)
  ultimately show ?thesis
    unfolding up_ready_set_def by (intro conjI ready_step [OF wf u bt_sorted_delete [OF bf(6)]])
qed

lemma ready_sync_spec:
  assumes "ready_wf t" and "entry_of t u = Some r"
  shows "up_ready_set r (ju_ready (tu_uv t r)) t (ready_sync u r t)"
  using ready_insert_spec [OF assms] ready_remove_spec [OF assms] by (simp add: ready_sync_def)

lemma up_ready_set_view:
  assumes wf: "ready_wf t" and u: "entry_of t u = Some r" and s: "up_ready_set r b t t'"
  shows "ready_view t' = (ready_view t)(u := if b then Some r else None)"
proof
  fix v
  have "entry_of t' = entry_of t" using s by (simp add: up_ready_set_def same_frame_def entry_of_def)
  then have *: "ready_view t' v = Some x \<longleftrightarrow> entry_of t v = Some x \<and> ju_up_ready (tu_uv t' x)" for x
    using ready_view_iff [of t' v x] s by (simp add: up_ready_set_def)
  have uv: "tu_uv t' x = (if x = r then (tu_uv t r)\<lparr>ju_up_ready := b\<rparr> else tu_uv t x)" for x
    using s by (simp add: up_ready_set_def)
  show "ready_view t' v = ((ready_view t)(u := if b then Some r else None)) v"
  proof (cases "v = u")
    case True
    have "ready_view t' u = Some x \<longleftrightarrow> b \<and> x = r" for x using * [of x] True u uv [of x] by auto
    then show ?thesis using True by (cases "ready_view t' u") auto
  next
    case False
    then have "x \<noteq> r" if "entry_of t v = Some x" for x using that entry_of_inj [OF wf u] by blast
    then have "ready_view t' v = Some x \<longleftrightarrow> ready_view t v = Some x" for x
      using * [of x] uv [of x] ready_view_iff [OF wf, of v x] by auto
    then show ?thesis using False by (metis fun_upd_other option.exhaust)
  qed
qed

section \<open>Popping\<close>

lemma ready_pop_named_none:
  assumes wf: "ready_wf t" and v: "ready_view t u = None"
  shows "ready_pop (Some u) t = (None, readys_backfill t)"
proof -
  note bf = readys_backfill_spec [OF wf]
  have "map_of (tu_ready (readys_backfill t)) u = None" using bf(5) v by simp
  then have "AList.delete u (tu_ready (readys_backfill t)) = tu_ready (readys_backfill t)"
    by (simp add: map_of_eq_None_iff)
  then show ?thesis using bf(5) v by (simp add: ready_pop_def)
qed

lemma ready_pop_named_some:
  assumes wf: "ready_wf t" and v: "ready_view t u = Some r"
  shows "\<exists>t'. ready_pop (Some u) t = (Some r, t') \<and> up_ready_set r False t t'"
proof -
  note bf = readys_backfill_spec [OF wf]
  have u: "entry_of t u = Some r" using v ready_view_iff [OF wf] by blast
  let ?m = "AList.delete u (tu_ready (readys_backfill t))"
  let ?t = "set_uv r ((tu_uv t r)\<lparr>ju_up_ready := False\<rparr>) ((readys_backfill t)\<lparr>tu_ready := ?m\<rparr>)"
  have m: "map_of ?m = (ready_view t)(u := if False then Some r else None)" using bf(5) by (simp add: delete_conv')
  have "up_ready_set r False t ?t"
    unfolding up_ready_set_def by (intro conjI ready_step [OF wf u bt_sorted_delete [OF bf(6)] m refl])
  moreover have "ready_pop (Some u) t = (Some r, ?t)"
    using bf(4,5) v by (simp add: ready_pop_def Let_def ju_clear_up_ready_def)
  ultimately show ?thesis by blast
qed

lemma bt_sorted_last_Max:
  assumes "bt_sorted l" and "l \<noteq> []"
  shows "fst (last l) = Max (fst ` set l)"
proof -
  have l: "l = butlast l @ [last l]" using assms(2) by simp
  have "sorted_wrt (<) (map fst (butlast l @ [last l]))" using assms(1) l by (simp add: bt_sorted_def)
  then have "\<forall>x \<in> set (butlast l). fst x < fst (last l)" by (simp add: sorted_wrt_append)
  then have "\<forall>k \<in> fst ` set l. k \<le> fst (last l)" by (subst l) (auto simp: less_imp_le)
  moreover have "fst (last l) \<in> fst ` set l" using assms(2) by simp
  ultimately show ?thesis by (intro Max_eqI [symmetric]) auto
qed

lemma bt_sorted_butlast: "bt_sorted l \<Longrightarrow> bt_sorted (butlast l)"
  by (cases l rule: rev_cases) (auto simp: bt_sorted_def sorted_wrt_append)

lemma set_butlast_distinct: "distinct l \<Longrightarrow> l \<noteq> [] \<Longrightarrow> set (butlast l) = set l - {last l}"
  by (cases l rule: rev_cases) auto

lemma ready_pop_last_none:
  assumes "ready_wf t" and "ready_view t = Map.empty"
  shows "ready_pop None t = (None, readys_fill t)" and "tu_ready t = []" and "tu_readys t = []"
proof -
  show e: "tu_ready t = []" "tu_readys t = []"
    using assms(2) by (simp_all add: ready_view_def ready_abs_def)
  then have "tu_readys (readys_fill t) = []" by (simp add: readys_fill_def)
  then show "ready_pop None t = (None, readys_fill t)" by (simp add: ready_pop_def)
qed

lemma ready_pop_last_some:
  assumes wf: "ready_wf t" and v: "ready_view t \<noteq> Map.empty"
  shows "\<exists>r t'. ready_pop None t = (Some r, t') \<and> up_ready_set r False t t' \<and>
    ready_view t (Max (dom (ready_view t))) = Some r"
proof -
  note fl = readys_fill_spec [OF wf]
  let ?f = "readys_fill t"
  define l where "l = ready_abs t"
  have l: "l = map (\<lambda>r. (ju_unit (tu_uv t r), r)) (tu_readys ?f)"
    using fl(1,3,4) by (simp add: l_def ready_abs_def)
  have ne: "l \<noteq> []" using v by (simp add: l_def ready_view_def)
  have s: "bt_sorted l" using ready_wfD(4) [OF wf] by (simp add: l_def)
  then have d: "distinct (map fst l)" by (rule bt_sorted_distinct)
  obtain u r where ur: "last l = (u, r)" by (cases "last l")
  have rne: "tu_readys ?f \<noteq> []" using ne l by auto
  then have r: "last (tu_readys ?f) = r" "ju_unit (tu_uv t r) = u"
    using ur by (auto simp: l last_map)
  have mem: "(u, r) \<in> set l" using ur last_in_set [OF ne] by simp
  then have view: "ready_view t u = Some r" using d by (simp add: ready_view_def l_def [symmetric])
  have u: "entry_of t u = Some r" using view ready_view_iff [OF wf] by blast
  have "u = Max (dom (ready_view t))"
    using bt_sorted_last_Max [OF s ne] ur by (simp add: ready_view_def l_def [symmetric] dom_map_of_conv_image_fst)
  define t' where "t' = set_uv r ((tu_uv t r)\<lparr>ju_up_ready := False\<rparr>) (?f\<lparr>tu_readys := butlast (tu_readys ?f)\<rparr>)"
  have pop: "ready_pop None t = (Some r, t')"
    using rne r(1) fl(4)
    by (cases "tu_readys ?f") (simp_all add: ready_pop_def t'_def ju_clear_up_ready_def Let_def)
  have uv: "tu_uv t' = (tu_uv t)(r := (tu_uv t r)\<lparr>ju_up_ready := False\<rparr>)" using fl(4) by (simp add: t'_def)
  have fr: "same_frame t t'" using fl(2) by (simp add: t'_def same_frame_def)
  then have en: "entry_of t' = entry_of t" by (simp add: same_frame_def entry_of_def)
  have "ju_unit (tu_uv t' x) = ju_unit (tu_uv t x)" for x by (simp add: uv)
  then have a: "ready_abs t' = butlast l" using fl(3) by (simp add: t'_def ready_abs_def l map_butlast)
  have "distinct l" using d by (simp add: distinct_map)
  then have set_a: "set (butlast l) = set l - {(u, r)}" using set_butlast_distinct [OF _ ne] ur by simp
  have "(v, x) \<in> set (butlast l) \<longleftrightarrow> entry_of t v = Some x \<and> ju_up_ready (tu_uv t' x)" for v x
  proof (cases "x = r")
    case True
    then have "entry_of t v = Some x \<Longrightarrow> v = u" using entry_of_inj [OF wf u] by blast
    then show ?thesis using True set_a uv ready_wfD(5) [OF wf, of v x] by (auto simp: l_def)
  next
    case False
    then show ?thesis using set_a uv ready_wfD(5) [OF wf, of v x] by (auto simp: l_def)
  qed
  moreover have "ju_unit (tu_uv t' x) = v" if "entry_of t v = Some x" for v x
    using ready_wfD(2) [OF wf that] uv by auto
  moreover have "tu_ready t' = []" using fl(3) by (simp add: t'_def)
  ultimately have "ready_wf t'"
    unfolding ready_wf_def en a using bt_sorted_butlast [OF s] ready_wfD(1) [OF wf] fr
    by (simp add: same_frame_def)
  then show ?thesis using pop uv fr view \<open>u = _\<close> by (auto simp: up_ready_set_def)
qed

interpretation rdy: pop_map ready_view entry_of ready_insert ready_remove ready_pop ready_wf
proof unfold_locales
  fix t :: job_unit_table and u :: unit_id and r :: uvref and ko :: "unit_id option"
  assume wf: "ready_wf t"
  show "entry_of t u = Some r \<Longrightarrow> ready_view (ready_insert u r t) = (ready_view t)(u \<mapsto> r)"
    using up_ready_set_view [OF wf _ ready_insert_spec [OF wf]] by simp
  show "entry_of t u = Some r \<Longrightarrow> ready_view (ready_remove u r t) = (ready_view t)(u := None)"
    using up_ready_set_view [OF wf _ ready_remove_spec [OF wf]] by simp
  show "entry_of t u = Some r \<Longrightarrow> ready_wf (ready_insert u r t)"
    using ready_insert_spec [OF wf] by (simp add: up_ready_set_def)
  show "entry_of t u = Some r \<Longrightarrow> ready_wf (ready_remove u r t)"
    using ready_remove_spec [OF wf] by (simp add: up_ready_set_def)
  show "finite (dom (ready_view t))" by (simp add: ready_view_def finite_dom_map_of)
  show "fst (ready_pop (Some u) t) = ready_view t u \<and>
      ready_view (snd (ready_pop (Some u) t)) = (ready_view t)(u := None)"
  proof (cases "ready_view t u")
    case None
    have "ready_view (readys_backfill t) = ready_view t"
      using readys_backfill_spec [OF wf] by (simp add: ready_view_def ready_abs_def)
    then show ?thesis using ready_pop_named_none [OF wf None] None by auto
  next
    case (Some x)
    then have "entry_of t u = Some x" using ready_view_iff [OF wf] by blast
    then show ?thesis using ready_pop_named_some [OF wf Some] up_ready_set_view [OF wf] Some by force
  qed
  show "ready_view t = Map.empty \<Longrightarrow>
      fst (ready_pop None t) = None \<and> ready_view (snd (ready_pop None t)) = Map.empty"
    using ready_pop_last_none [OF wf] readys_fill_spec [OF wf] by (simp add: ready_view_def)
  show "ready_view t \<noteq> Map.empty \<Longrightarrow> fst (ready_pop None t) = ready_view t (Max (dom (ready_view t))) \<and>
      ready_view (snd (ready_pop None t)) = (ready_view t)(Max (dom (ready_view t)) := None)"
    using ready_pop_last_some [OF wf] up_ready_set_view [OF wf] ready_view_iff [OF wf] by force
  show "ready_wf (snd (ready_pop ko t))"
  proof (cases ko)
    case (Some v)
    then show ?thesis
      using ready_pop_named_none [OF wf, of v] ready_pop_named_some [OF wf, of v] readys_backfill_spec(1) [OF wf]
      by (cases "ready_view t v") (auto simp: up_ready_set_def)
  next
    case None
    show ?thesis
    proof (cases "ready_view t = Map.empty")
      case True
      have "readys_fill t = t" using ready_pop_last_none [OF wf True] by (simp add: readys_fill_def)
      then show ?thesis using None ready_pop_last_none(1) [OF wf True] wf by simp
    next
      case False
      then show ?thesis using None ready_pop_last_some [OF wf False] by (auto simp: up_ready_set_def)
    qed
  qed
qed

text \<open>
  (C9) The containers simulate \<open>BTreeMap::pop_last\<close>. Whatever mixture of the map and the poured vector the
  ready units are in, \<open>ready_pop(None)\<close> takes the greatest ready unit and leaves the others,
  \<open>ready_pop(Some(u))\<close> takes \<open>u\<close> if it is ready, inserting and removing act on one map, and popping
  until nothing is left yields every ready entry exactly once, in descending order of the units.
\<close>

theorem ready_containers_pop_last:
  assumes wf: "ready_wf t" and u: "entry_of t u = Some r"
  shows "(ready_view t = Map.empty \<longleftrightarrow> fst (ready_pop None t) = None) \<and>
    (ready_view t \<noteq> Map.empty \<longrightarrow> fst (ready_pop None t) = ready_view t (Max (dom (ready_view t))) \<and>
      ready_view (snd (ready_pop None t)) = (ready_view t)(Max (dom (ready_view t)) := None)) \<and>
    fst (ready_pop (Some u) t) = ready_view t u \<and>
    ready_view (snd (ready_pop (Some u) t)) = (ready_view t)(u := None) \<and>
    ready_view (ready_insert u r t) = (ready_view t)(u \<mapsto> r) \<and>
    ready_view (ready_remove u r t) = (ready_view t)(u := None) \<and>
    map Some (fst (rdy.drain (Suc (card (dom (ready_view t)))) t)) =
      map (ready_view t) (rev (sorted_list_of_set (dom (ready_view t))))"
  using rdy.pop_last_none_iff [OF wf] rdy.view_pop_last [OF wf] rdy.view_pop [OF wf]
    rdy.view_insert [OF wf u] rdy.view_remove [OF wf u] rdy.drain_all [OF wf order_refl] by auto

text \<open>Three ready units, two of them poured.\<close>

definition demo_tab :: job_unit_table where
  "demo_tab = job_unit_table_new\<lparr>tu_data := [(''b'', 0), (''a'', 1), (''c'', 2)], tu_readys := [1, 2],
     tu_uv := (\<lambda>r. (job_unit_new ([''b'', ''a'', ''c''] ! r))\<lparr>ju_up_ready := (r \<noteq> 0)\<rparr>), tu_next := 3\<rparr>"

lemma demo_tab_wf: "ready_wf demo_tab"
  by (auto simp: ready_wf_def demo_tab_def entry_of_def ready_abs_def job_unit_table_new_def
      job_unit_new_def bt_sorted_def split: if_splits)

theorem ready_containers_pop_last_witness:
  "fst (ready_pop None demo_tab) = ready_view demo_tab (Max (dom (ready_view demo_tab))) \<and>
   fst (ready_pop (Some ''a'') demo_tab) = Some 1"
proof -
  have u: "entry_of demo_tab ''a'' = Some 1" by (simp add: entry_of_def demo_tab_def)
  have v: "ready_view demo_tab ''a'' = Some 1"
    by (simp add: ready_view_def ready_abs_def demo_tab_def job_unit_table_new_def job_unit_new_def)
  then have "ready_view demo_tab \<noteq> Map.empty" by auto
  then have "fst (ready_pop None demo_tab) = ready_view demo_tab (Max (dom (ready_view demo_tab)))"
    and "fst (ready_pop (Some ''a'') demo_tab) = ready_view demo_tab ''a''"
    using ready_containers_pop_last [OF demo_tab_wf u] by blast+
  then show ?thesis using v by simp
qed

end
