(* ===== verification/Job_Unit_Merge.thy ===== *)
theory Job_Unit_Merge
  imports Job_Unit
begin

text \<open>
  Adding, removing, flushing and merging the suspended jobs of one unit (\<open>insert_suspend\<close>,
  \<open>remove_suspend\<close>, \<open>flush_suspends\<close>, \<open>merge_suspends\<close> of \<^verbatim>\<open>core/bin/job/junit.rs\<close>): none of them
  panics on an entry that satisfies its invariant, and each keeps it.
\<close>

section \<open>One suspended job more or less\<close>

lemma jobs_of_stage: "ju_core w ju \<Longrightarrow> j \<in> jobs_of ju \<Longrightarrow> stage_of w j = Wait \<or> stage_of w j = Running"
  by (auto simp: ju_core_def trigger_wf_def jobs_of_def ran_def dest: susp_wfD(4))

lemma job_wait_total:
  assumes "stage_of w j = Init" and "job_is_basic_op (kind_of w j)"
  shows "\<exists>w'. job_wait j w = Some w' \<and> jw_job w' = (jw_job w)(j := (jw_job w j)\<lparr>j_stage := Wait\<rparr>)"
  using assms by (simp add: job_wait_def rentry_defs Let_def)

text \<open>A suspend entry that is not ordered: only the jobs themselves are constrained.\<close>

lemma ju_inv_unordered:
  "ju_core w ju \<Longrightarrow> \<not> ju_order ju \<Longrightarrow> ju_inv w (with_ready ju)"
  by (rule ju_inv_with_ready) simp_all

definition fresh_job :: "'w jworld \<Rightarrow> job_unit \<Rightarrow> job_id \<Rightarrow> bool" where
  "fresh_job w ju j \<longleftrightarrow> stage_of w j = Init \<and> job_is_basic_op (kind_of w j) \<and> job_ok (jw_job w j) \<and>
     j_unit (jw_job w j) = ju_unit ju"

definition with_suspend :: "job_kind \<Rightarrow> job_id \<Rightarrow> job_unit \<Rightarrow> job_unit" where
  "with_suspend k j ju = with_ready (ju\<lparr>ju_suspends := AList.update k j (ju_suspends ju),
     ju_order := False, ju_dirty := True\<rparr>)"

lemma with_suspend_simps [simp]:
  "ju_unit (with_suspend k j ju) = ju_unit ju" "ju_trigger (with_suspend k j ju) = ju_trigger ju"
  "ju_interrupt (with_suspend k j ju) = ju_interrupt ju" "ju_up_ready (with_suspend k j ju) = ju_up_ready ju"
  "\<not> ju_order (with_suspend k j ju)" "ju_dirty (with_suspend k j ju)" "ju_pause (with_suspend k j ju) = ju_pause ju"
  "ju_suspends (with_suspend k j ju) = AList.update k j (ju_suspends ju)"
  by (simp_all add: with_suspend_def)

lemma insert_suspend_total:
  fixes w :: "'w jworld"
  assumes inv: "ju_inv w ju" and j: "fresh_job w ju j" and k: "kind_of w j \<notin> kinds_of ju"
  shows "\<exists>w'. insert_suspend j True (ju, w) = Some (with_suspend (kind_of w j) j ju, w') \<and>
    jw_job w' = (jw_job w)(j := (jw_job w j)\<lparr>j_stage := Wait\<rparr>) \<and>
    ju_inv w' (with_suspend (kind_of w j) j ju)"
proof -
  let ?u = "ju\<lparr>ju_suspends := AList.update (kind_of w j) j (ju_suspends ju), ju_order := False, ju_dirty := True\<rparr>"
  have core: "ju_core w ju" using inv by (simp add: ju_inv_def)
  have "j \<notin> jobs_of ju" using jobs_of_stage [OF core, of j] j by (auto simp: fresh_job_def)
  then have nt: "\<not> is_trigger ju j" by (auto simp: is_trigger_def jobs_of_def split: option.splits)
  obtain w' where w': "job_wait j w = Some w'" "jw_job w' = (jw_job w)(j := (jw_job w j)\<lparr>j_stage := Wait\<rparr>)"
    using job_wait_total [of w j] j by (auto simp: fresh_job_def)
  have "interrupt_ok ?u" by (simp add: interrupt_ok_def)
  then have eq: "insert_suspend j True (ju, w) = Some (with_suspend (kind_of w j) j ju, w')"
    using nt k j w'(1)
    by (simp add: insert_suspend_def Let_def update_ready_with with_suspend_def fresh_job_def kinds_of_def domIff)
  have old: "jw_job w' i = jw_job w i" if "i \<in> jobs_of ju" for i
    using that \<open>j \<notin> jobs_of ju\<close> w'(2) by auto
  have core': "ju_core w' ju" using ju_core_cong [of ju w' w] old core by simp
  have "ju_core w' ?u"
    unfolding ju_core_def
  proof
    show "susp_wf w' Wait ?u"
      unfolding susp_wf_def
    proof (intro conjI allI impI)
      show "susp_ok ?u" using susp_wfD(1) [OF ju_coreD(1) [OF core]] by (simp add: distinct_update)
      fix k' i
      assume "map_of (ju_suspends ?u) k' = Some i"
      then have "((map_of (ju_suspends ju))(kind_of w j \<mapsto> j)) k' = Some i" by (simp add: update_conv')
      then consider "k' = kind_of w j \<and> i = j" | "map_of (ju_suspends ju) k' = Some i"
        by (cases "k' = kind_of w j") simp_all
      then have "kind_of w' i = k' \<and> job_is_basic_op k' \<and> stage_of w' i = Wait \<and> job_ok (jw_job w' i) \<and>
        j_unit (jw_job w' i) = ju_unit ju"
      proof cases
        case 1
        then show ?thesis using w'(2) j by (simp add: fresh_job_def job_ok_def job_rkind_ok_def)
      next
        case 2
        then show ?thesis using susp_wfD(2-6) [OF ju_coreD(1) [OF core'] 2] by simp
      qed
      then show "kind_of w' i = k'" "job_is_basic_op k'" "stage_of w' i = Wait" "job_ok (jw_job w' i)"
        "j_unit (jw_job w' i) = ju_unit ?u"
        by simp_all
    qed
    show "trigger_wf w' ?u" using ju_coreD(2) [OF core'] by (simp add: trigger_wf_def split: option.splits)
  qed
  then have "ju_inv w' (with_suspend (kind_of w j) j ju)"
    unfolding with_suspend_def by (rule ju_inv_unordered) simp
  with eq w'(2) show ?thesis by blast
qed

section \<open>Merging the suspended jobs of another entry\<close>

lemma ju_inv_attr:
  assumes "ju_inv w ju" and h: "\<And>i. i \<in> jobs_of ju \<Longrightarrow> \<exists>a. jw_job w' i = (jw_job w i)\<lparr>j_attr := a\<rparr>"
  shows "ju_inv w' ju"
proof -
  have core: "ju_core w ju" using assms(1) by (simp add: ju_inv_def)
  have same: "kind_of w' i = kind_of w i" "stage_of w' i = stage_of w i"
    "j_unit (jw_job w' i) = j_unit (jw_job w i)" "job_ok (jw_job w' i) = job_ok (jw_job w i)"
    if "i \<in> jobs_of ju" for i
    using h [OF that] by (auto simp: job_ok_def job_rkind_ok_def)
  have "susp_wf w' Wait ju"
    unfolding susp_wf_def
  proof (intro conjI allI impI)
    show "susp_ok ju" by (rule susp_wfD(1) [OF ju_coreD(1) [OF core]])
    fix k i
    assume i: "map_of (ju_suspends ju) k = Some i"
    then have "i \<in> jobs_of ju" by (auto simp: jobs_of_def ran_def)
    from same [OF this] susp_wfD(2-6) [OF ju_coreD(1) [OF core] i]
    show "kind_of w' i = k" "job_is_basic_op k" "stage_of w' i = Wait" "job_ok (jw_job w' i)"
      "j_unit (jw_job w' i) = ju_unit ju" by simp_all
  qed
  moreover have "trigger_wf w' ju"
  proof (cases "ju_trigger ju")
    case (Some t)
    then have "t \<in> jobs_of ju" by (simp add: jobs_of_def)
    from same [OF this] show ?thesis using ju_coreD(2) [OF core] Some by (simp add: trigger_wf_def)
  qed (use ju_coreD(2) [OF core] in \<open>simp add: trigger_wf_def\<close>)
  moreover have "ju_ordered w' ju" if "ju_order ju"
  proof -
    have ord: "ju_ordered w ju" using that assms(1) by (simp add: ju_inv_def)
    have "stop_like w' (hd (ju_sq ju)) = stop_like w (hd (ju_sq ju))" if "ju_sq ju \<noteq> []"
    proof -
      have "hd (ju_sq ju) \<in> set (queue_of ju)" using that ord by (auto simp: ju_ordered_def)
      then have "hd (ju_sq ju) \<in> jobs_of ju" using queue_of_ran [of ju] by (auto simp: jobs_of_def)
      from same(1) [OF this] show ?thesis by (simp add: stop_like_def)
    qed
    then show ?thesis using ord unfolding ju_ordered_def by blast
  qed
  ultimately show ?thesis using assms(1) by (simp add: ju_inv_def ju_core_def)
qed

lemma merge_one_existing:
  assumes inv: "ju_inv w ju" and i: "fresh_job w ju i" and j: "map_of (ju_suspends ju) (kind_of w i) = Some j"
  shows "\<exists>w'. merge_one (k, i) ((adds, upds), ju, w) = Some ((adds, upds @ [j]), ju, w') \<and> ju_inv w' ju \<and>
    jw_job w' = (jw_job w)(j := (jw_job w j)\<lparr>j_attr := job_attr_or (attr_of w j) (attr_of w i)\<rparr>)"
proof -
  have core: "ju_core w ju" using inv by (simp add: ju_inv_def)
  note jj = susp_wfD [OF ju_coreD(1) [OF core]]
  obtain w' where w': "job_merge_attr j i w = Some w'"
    "jw_job w' = (jw_job w)(j := (jw_job w j)\<lparr>j_attr := job_attr_or (attr_of w j) (attr_of w i)\<rparr>)"
    using job_merge_attr_total [of w j i] jj(2-4) [OF j] i by (auto simp: fresh_job_def)
  have "ju_inv w' ju"
  proof (rule ju_inv_attr [OF inv])
    fix x
    show "\<exists>a. jw_job w' x = (jw_job w x)\<lparr>j_attr := a\<rparr>"
      by (rule exI [of _ "attr_of w' x"]) (simp add: w'(2))
  qed
  then show ?thesis using w' j by (simp add: merge_one_def)
qed

lemma merge_one_new:
  assumes "ju_inv w ju" and "fresh_job w ju i" and "kind_of w i \<notin> kinds_of ju"
  shows "\<exists>w'. merge_one (k, i) ((adds, upds), ju, w) =
      Some ((adds @ [i], upds), with_suspend (kind_of w i) i ju, w') \<and>
    ju_inv w' (with_suspend (kind_of w i) i ju) \<and>
    jw_job w' = (jw_job w)(i := (jw_job w i)\<lparr>j_stage := Wait\<rparr>)"
  using insert_suspend_total [OF assms] assms(3) by (auto simp: merge_one_def kinds_of_def domIff)

definition new_jobs :: "(job_kind \<times> job_id) list \<Rightarrow> job_unit \<Rightarrow> job_id list" where
  "new_jobs es ju = map snd (filter (\<lambda>(k, _). k \<notin> kinds_of ju) es)"

definition old_jobs :: "(job_kind \<times> job_id) list \<Rightarrow> job_unit \<Rightarrow> job_id list" where
  "old_jobs es ju = map (\<lambda>(k, _). the (map_of (ju_suspends ju) k)) (filter (\<lambda>(k, _). k \<in> kinds_of ju) es)"

definition merge_shape :: "(job_kind \<times> job_id) list \<Rightarrow> job_unit \<Rightarrow> job_unit \<Rightarrow> bool" where
  "merge_shape es ju ju' \<longleftrightarrow>
     map_of (ju_suspends ju') = map_of es ++ map_of (ju_suspends ju) \<and>
     ju_unit ju' = ju_unit ju \<and> ju_trigger ju' = ju_trigger ju \<and> ju_interrupt ju' = ju_interrupt ju \<and>
     ju_up_ready ju' = ju_up_ready ju \<and> ju_pause ju' = ju_pause ju \<and>
     (ju_order ju' \<longleftrightarrow> ju_order ju \<and> new_jobs es ju = []) \<and>
     (ju_dirty ju' \<longleftrightarrow> ju_dirty ju \<or> new_jobs es ju \<noteq> []) \<and>
     (new_jobs es ju = [] \<longrightarrow> ju_ready ju' = ju_ready ju)"

definition merge_heap :: "(job_kind \<times> job_id) list \<Rightarrow> job_unit \<Rightarrow> 'w jworld \<Rightarrow> 'w jworld \<Rightarrow> bool" where
  "merge_heap es ju w w' \<longleftrightarrow>
     (\<forall>i \<in> set (new_jobs es ju). jw_job w' i = (jw_job w i)\<lparr>j_stage := Wait\<rparr>) \<and>
     (\<forall>k j i. map_of (ju_suspends ju) k = Some j \<longrightarrow> map_of es k = Some i \<longrightarrow>
        jw_job w' j = (jw_job w j)\<lparr>j_attr := job_attr_or (attr_of w j) (attr_of w i)\<rparr>) \<and>
     (\<forall>i. i \<notin> set (new_jobs es ju) \<longrightarrow> i \<notin> set (old_jobs es ju) \<longrightarrow> jw_job w' i = jw_job w i)"

lemma merge_heapD:
  assumes "merge_heap es ju w w'"
  shows "i \<in> set (new_jobs es ju) \<Longrightarrow> jw_job w' i = (jw_job w i)\<lparr>j_stage := Wait\<rparr>"
    and "map_of (ju_suspends ju) k = Some j \<Longrightarrow> map_of es k = Some i \<Longrightarrow>
        jw_job w' j = (jw_job w j)\<lparr>j_attr := job_attr_or (attr_of w j) (attr_of w i)\<rparr>"
    and "i \<notin> set (new_jobs es ju) \<Longrightarrow> i \<notin> set (old_jobs es ju) \<Longrightarrow> jw_job w' i = jw_job w i"
  using assms by (auto simp: merge_heap_def)

lemma merge_heapI:
  assumes "\<And>i. i \<in> set (new_jobs es ju) \<Longrightarrow> jw_job w' i = (jw_job w i)\<lparr>j_stage := Wait\<rparr>"
    and "\<And>k j i. map_of (ju_suspends ju) k = Some j \<Longrightarrow> map_of es k = Some i \<Longrightarrow>
        jw_job w' j = (jw_job w j)\<lparr>j_attr := job_attr_or (attr_of w j) (attr_of w i)\<rparr>"
    and "\<And>i. i \<notin> set (new_jobs es ju) \<Longrightarrow> i \<notin> set (old_jobs es ju) \<Longrightarrow> jw_job w' i = jw_job w i"
  shows "merge_heap es ju w w'"
  using assms unfolding merge_heap_def by blast

definition fresh_list :: "'w jworld \<Rightarrow> job_unit \<Rightarrow> (job_kind \<times> job_id) list \<Rightarrow> bool" where
  "fresh_list w ju es \<longleftrightarrow> distinct (map fst es) \<and>
     (\<forall>(k, i) \<in> set es. fresh_job w ju i \<and> kind_of w i = k)"

lemma fresh_list_not_susp:
  assumes "ju_core w ju" and "fresh_list w ju es" and "(k, i) \<in> set es"
  shows "i \<notin> jobs_of ju"
  using assms jobs_of_stage [OF assms(1), of i] by (auto simp: fresh_list_def fresh_job_def)

lemma map_of_with_suspend:
  "map_of (ju_suspends (with_suspend k i ju)) = (map_of (ju_suspends ju))(k \<mapsto> i)"
  by (simp add: update_conv')

lemma kinds_of_with_suspend: "kinds_of (with_suspend k i ju) = insert k (kinds_of ju)"
  unfolding kinds_of_def map_of_with_suspend by simp

lemma jobs_lists_with_suspend:
  assumes "k \<notin> fst ` set es"
  shows "new_jobs es (with_suspend k i ju) = new_jobs es ju"
    and "old_jobs es (with_suspend k i ju) = old_jobs es ju"
proof -
  have "filter (\<lambda>(k', _). k' \<notin> kinds_of (with_suspend k i ju)) es = filter (\<lambda>(k', _). k' \<notin> kinds_of ju) es"
    using assms by (intro filter_cong) (force simp: kinds_of_with_suspend)+
  then show "new_jobs es (with_suspend k i ju) = new_jobs es ju" by (simp add: new_jobs_def)
  have "filter (\<lambda>(k', _). k' \<in> kinds_of (with_suspend k i ju)) es = filter (\<lambda>(k', _). k' \<in> kinds_of ju) es"
    using assms by (intro filter_cong) (force simp: kinds_of_with_suspend)+
  then show "old_jobs es (with_suspend k i ju) = old_jobs es ju"
    using assms unfolding old_jobs_def map_of_with_suspend by (force intro!: map_cong)
qed

lemma fresh_list_step:
  assumes "fresh_list w ju ((k, i) # es)" and "ju_unit ju' = ju_unit ju"
    and "\<And>x. x \<in> snd ` set es \<Longrightarrow> jw_job w' x = jw_job w x"
  shows "fresh_list w' ju' es"
proof -
  have "fresh_job w' ju' x \<and> kind_of w' x = k'" if "(k', x) \<in> set es" for k' x
  proof -
    have "jw_job w' x = jw_job w x" using that by (intro assms(3)) force
    then show ?thesis using that assms(1,2) by (auto simp: fresh_list_def fresh_job_def)
  qed
  then show ?thesis using assms(1) by (auto simp: fresh_list_def)
qed

lemma set_new_jobs: "set (new_jobs es ju) = {i. \<exists>k. (k, i) \<in> set es \<and> k \<notin> kinds_of ju}"
  by (force simp: new_jobs_def)

lemma set_old_jobs: "set (old_jobs es ju) = {j. \<exists>k. k \<in> fst ` set es \<and> map_of (ju_suspends ju) k = Some j}"
  by (force simp: old_jobs_def kinds_of_def)

lemma merge_heap_existing:
  assumes inv: "ju_inv w ju" and fl: "fresh_list w ju ((k, i) # es)"
    and j: "map_of (ju_suspends ju) k = Some j"
    and w1: "jw_job w1 = (jw_job w)(j := (jw_job w j)\<lparr>j_attr := job_attr_or (attr_of w j) (attr_of w i)\<rparr>)"
    and out: "merge_heap es ju w1 w'"
  shows "merge_heap ((k, i) # es) ju w w'"
proof -
  have core: "ju_core w ju" using inv by (simp add: ju_inv_def)
  have kin: "k \<in> kinds_of ju" using j by (auto simp: kinds_of_def)
  have lists: "new_jobs ((k, i) # es) ju = new_jobs es ju" "old_jobs ((k, i) # es) ju = j # old_jobs es ju"
    using kin j by (simp_all add: new_jobs_def old_jobs_def)
  have jin: "j \<in> jobs_of ju" using j by (auto simp: jobs_of_def ran_def)
  have ne: "x \<noteq> j" if "(k', x) \<in> set ((k, i) # es)" for k' x
    using fresh_list_not_susp [OF core fl that] jin by auto
  have kes: "k \<notin> fst ` set es" using fl by (simp add: fresh_list_def)
  note inj = susp_wf_inj [OF ju_coreD(1) [OF core]]
  have jn: "j \<notin> set (new_jobs es ju)" using ne by (auto simp: set_new_jobs)
  have jo: "j \<notin> set (old_jobs es ju)" using inj [OF j] kes by (auto simp: set_old_jobs)
  show ?thesis
  proof (rule merge_heapI)
    fix x assume "x \<in> set (new_jobs ((k, i) # es) ju)"
    then have "x \<in> set (new_jobs es ju)" "x \<noteq> j" using jn by (auto simp: lists)
    then show "jw_job w' x = (jw_job w x)\<lparr>j_stage := Wait\<rparr>" using merge_heapD(1) [OF out] w1 by simp
  next
    fix k' j' i'
    assume a: "map_of (ju_suspends ju) k' = Some j'" "map_of ((k, i) # es) k' = Some i'"
    show "jw_job w' j' = (jw_job w j')\<lparr>j_attr := job_attr_or (attr_of w j') (attr_of w i')\<rparr>"
    proof (cases "k' = k")
      case True
      then have "j' = j" "i' = i" using a j by simp_all
      moreover have "jw_job w' j = jw_job w1 j" using merge_heapD(3) [OF out] jn jo by blast
      ultimately show ?thesis using w1 by simp
    next
      case False
      then have ev: "map_of es k' = Some i'" "j' \<noteq> j" using a inj [OF j] by auto
      moreover have "i' \<noteq> j" using ev(1) ne map_of_SomeD by fastforce
      ultimately show ?thesis using merge_heapD(2) [OF out a(1) ev(1)] w1 by simp
    qed
  next
    fix x assume "x \<notin> set (new_jobs ((k, i) # es) ju)" "x \<notin> set (old_jobs ((k, i) # es) ju)"
    then show "jw_job w' x = jw_job w x" using merge_heapD(3) [OF out, of x] w1 by (simp add: lists)
  qed
qed

lemma merge_heap_new:
  assumes inv: "ju_inv w ju" and fl: "fresh_list w ju ((k, i) # es)" and k: "k \<notin> kinds_of ju"
    and w1: "jw_job w1 = (jw_job w)(i := (jw_job w i)\<lparr>j_stage := Wait\<rparr>)"
    and out: "merge_heap es (with_suspend k i ju) w1 w'"
  shows "merge_heap ((k, i) # es) ju w w'"
proof -
  have core: "ju_core w ju" using inv by (simp add: ju_inv_def)
  have kes: "k \<notin> fst ` set es" using fl by (simp add: fresh_list_def)
  have lists: "new_jobs ((k, i) # es) ju = i # new_jobs es (with_suspend k i ju)"
    "old_jobs ((k, i) # es) ju = old_jobs es (with_suspend k i ju)"
    using k unfolding jobs_lists_with_suspend [OF kes] by (simp_all add: new_jobs_def old_jobs_def)
  have kind: "kind_of w x = k'" if "(k', x) \<in> set ((k, i) # es)" for k' x
    using fl that by (auto simp: fresh_list_def)
  have ine: "x \<noteq> i" if "(k', x) \<in> set es" for k' x
  proof
    assume "x = i"
    then have "k' = k" using kind [of k' x] kind [of k i] that by simp
    then show False using that kes by force
  qed
  have inot: "i \<notin> jobs_of ju" using fresh_list_not_susp [OF core fl, of k i] by simp
  have jn: "i \<notin> set (new_jobs es (with_suspend k i ju))" using ine by (auto simp: set_new_jobs)
  have jo: "i \<notin> set (old_jobs es (with_suspend k i ju))"
    using inot unfolding jobs_lists_with_suspend [OF kes] by (auto simp: set_old_jobs jobs_of_def ran_def)
  show ?thesis
  proof (rule merge_heapI)
    fix x assume "x \<in> set (new_jobs ((k, i) # es) ju)"
    then consider "x = i" | "x \<in> set (new_jobs es (with_suspend k i ju))" "x \<noteq> i" by (auto simp: lists)
    then show "jw_job w' x = (jw_job w x)\<lparr>j_stage := Wait\<rparr>"
    proof cases
      case 1
      then show ?thesis using merge_heapD(3) [OF out jn jo] w1 by simp
    next
      case 2
      then show ?thesis using merge_heapD(1) [OF out 2(1)] w1 by simp
    qed
  next
    fix k' j' i'
    assume a: "map_of (ju_suspends ju) k' = Some j'" "map_of ((k, i) # es) k' = Some i'"
    then have "k' \<noteq> k" using k by (auto simp: kinds_of_def)
    then have ev: "map_of (ju_suspends (with_suspend k i ju)) k' = Some j'" "map_of es k' = Some i'"
      using a unfolding map_of_with_suspend by simp_all
    have "i' \<noteq> i" using ev(2) ine map_of_SomeD by fastforce
    moreover have "j' \<noteq> i" using a(1) inot by (auto simp: jobs_of_def ran_def)
    ultimately show "jw_job w' j' = (jw_job w j')\<lparr>j_attr := job_attr_or (attr_of w j') (attr_of w i')\<rparr>"
      using merge_heapD(2) [OF out ev] w1 by simp
  next
    fix x assume "x \<notin> set (new_jobs ((k, i) # es) ju)" "x \<notin> set (old_jobs ((k, i) # es) ju)"
    then show "jw_job w' x = jw_job w x" using merge_heapD(3) [OF out, of x] w1 by (simp add: lists)
  qed
qed

lemma merge_fold_total:
  "ju_inv w ju \<Longrightarrow> fresh_list w ju es \<Longrightarrow>
   \<exists>ju' w'. fold_opt merge_one es ((adds, upds), ju, w) =
      Some ((adds @ new_jobs es ju, upds @ old_jobs es ju), ju', w') \<and>
    ju_inv w' ju' \<and> merge_shape es ju ju' \<and> merge_heap es ju w w'"
proof (induction es arbitrary: adds upds ju w)
  case Nil
  then show ?case by (simp add: merge_shape_def merge_heap_def new_jobs_def old_jobs_def)
next
  case (Cons e es)
  obtain k i where e: "e = (k, i)" by (cases e)
  have fi: "fresh_job w ju i" "kind_of w i = k" using Cons.prems(2) by (auto simp: fresh_list_def e)
  note inv = Cons.prems(1) and fl = Cons.prems(2) [unfolded e]
  have core: "ju_core w ju" using inv by (simp add: ju_inv_def)
  have kes: "k \<notin> fst ` set es" using fl by (simp add: fresh_list_def)
  show ?case
  proof (cases "map_of (ju_suspends ju) k")
    case (Some j)
    obtain w1 where w1: "merge_one (k, i) ((adds, upds), ju, w) = Some ((adds, upds @ [j]), ju, w1)" "ju_inv w1 ju"
      "jw_job w1 = (jw_job w)(j := (jw_job w j)\<lparr>j_attr := job_attr_or (attr_of w j) (attr_of w i)\<rparr>)"
      using merge_one_existing [OF inv fi(1), of j] Some fi(2) by blast
    have "jw_job w1 x = jw_job w x" if "x \<in> snd ` set es" for x
      using that fresh_list_not_susp [OF core fl] Some w1(3) by (force simp: jobs_of_def ran_def)
    then have "fresh_list w1 ju es" by (intro fresh_list_step [OF fl]) simp_all
    from Cons.IH [OF w1(2) this, of adds "upds @ [j]"] obtain ju' w' where r:
      "fold_opt merge_one es ((adds, upds @ [j]), ju, w1) =
        Some ((adds @ new_jobs es ju, (upds @ [j]) @ old_jobs es ju), ju', w')"
      "ju_inv w' ju'" "merge_shape es ju ju'" "merge_heap es ju w1 w'" by blast
    have kin: "k \<in> kinds_of ju" using Some by (auto simp: kinds_of_def)
    have "merge_shape (e # es) ju ju'"
      using r(3) Some kin by (auto simp: merge_shape_def e new_jobs_def map_add_def split: option.splits)
    moreover have "merge_heap (e # es) ju w w'"
      unfolding e by (rule merge_heap_existing [OF inv fl Some w1(3) r(4)])
    moreover have "fold_opt merge_one (e # es) ((adds, upds), ju, w) =
        Some ((adds @ new_jobs (e # es) ju, upds @ old_jobs (e # es) ju), ju', w')"
      using w1(1) r(1) Some kin by (simp add: e new_jobs_def old_jobs_def)
    ultimately show ?thesis using r(2) by blast
  next
    case None
    then have kn: "k \<notin> kinds_of ju" by (simp add: kinds_of_def domIff)
    let ?ju1 = "with_suspend k i ju"
    obtain w1 where w1: "merge_one (k, i) ((adds, upds), ju, w) = Some ((adds @ [i], upds), ?ju1, w1)"
      "ju_inv w1 ?ju1" "jw_job w1 = (jw_job w)(i := (jw_job w i)\<lparr>j_stage := Wait\<rparr>)"
      using merge_one_new [OF inv fi(1)] kn fi(2) by blast
    have "jw_job w1 x = jw_job w x" if "x \<in> snd ` set es" for x
      using that kes fl w1(3) by (force simp: fresh_list_def)
    then have "fresh_list w1 ?ju1 es" by (intro fresh_list_step [OF fl]) simp_all
    from Cons.IH [OF w1(2) this, of "adds @ [i]" upds] obtain ju' w' where r:
      "fold_opt merge_one es ((adds @ [i], upds), ?ju1, w1) =
        Some (((adds @ [i]) @ new_jobs es ?ju1, upds @ old_jobs es ?ju1), ju', w')"
      "ju_inv w' ju'" "merge_shape es ?ju1 ju'" "merge_heap es ?ju1 w1 w'" by blast
    have "map_of es k = None" using kes by (simp add: map_of_eq_None_iff)
    then have "map_of es ++ (map_of (ju_suspends ju))(k \<mapsto> i) = map_of (e # es) ++ map_of (ju_suspends ju)"
      using None by (auto simp: e map_add_def fun_eq_iff split: option.splits)
    then have "merge_shape (e # es) ju ju'"
      using r(3) kn unfolding merge_shape_def map_of_with_suspend by (simp add: e new_jobs_def)
    moreover have "merge_heap (e # es) ju w w'"
      unfolding e by (rule merge_heap_new [OF inv fl kn w1(3) r(4)])
    moreover have "fold_opt merge_one (e # es) ((adds, upds), ju, w) =
        Some ((adds @ new_jobs (e # es) ju, upds @ old_jobs (e # es) ju), ju', w')"
      using w1(1) r(1) kn unfolding jobs_lists_with_suspend [OF kes] by (simp add: e new_jobs_def old_jobs_def)
    ultimately show ?thesis using r(2) by blast
  qed
qed

section \<open>Flushing and removing\<close>

definition flushed :: "job_unit \<Rightarrow> job_unit" where
  "flushed ju = with_ready (ju\<lparr>ju_suspends := [], ju_order := False, ju_dirty := True\<rparr>)"

lemma ju_core_no_susp:
  assumes "ju_core w ju" and "\<And>t. ju_trigger ju = Some t \<Longrightarrow> jw_job w' t = jw_job w t"
    and "ju_suspends ju' = []" "ju_unit ju' = ju_unit ju" "ju_trigger ju' = ju_trigger ju"
    "ju_interrupt ju' = ju_interrupt ju" "ju_retrigger ju' = ju_retrigger ju"
  shows "ju_core w' ju'"
  using assms(2) ju_coreD(2) [OF assms(1)] assms(3-)
  by (auto simp: ju_core_def susp_wf_def trigger_wf_def split: option.splits)

lemma distinct_get_suspends: "susp_wf w st ju \<Longrightarrow> distinct (map snd (ju_suspends ju))"
proof -
  assume wf: "susp_wf w st ju"
  have "inj_on snd (set (ju_suspends ju))"
  proof (rule inj_onI)
    fix x y assume a: "x \<in> set (ju_suspends ju)" "y \<in> set (ju_suspends ju)" "snd x = snd y"
    have "map_of (ju_suspends ju) (fst z) = Some (snd z)" if "z \<in> set (ju_suspends ju)" for z
      using that susp_wfD(1) [OF wf] by (simp add: map_of_eq_Some_iff)
    from this [OF a(1)] this [OF a(2)] show "x = y"
      using a(3) susp_wf_inj [OF wf] by (simp add: prod_eq_iff)
  qed
  then show ?thesis using susp_wfD(1) [OF wf] by (simp add: distinct_map)
qed

lemma flush_suspends_total:
  fixes w :: "'w jworld"
  assumes inv: "ju_inv w ju"
  shows "\<exists>w'. flush_suspends (ju, w) = Some (get_suspends ju, flushed ju, w') \<and> ju_inv w' (flushed ju) \<and>
    jw_job w' = (\<lambda>j. if j \<in> set (get_suspends ju) then (jw_job w j)\<lparr>j_stage := End Cancelled\<rparr> else jw_job w j)"
proof -
  let ?u = "ju\<lparr>ju_suspends := [], ju_order := False, ju_dirty := True\<rparr>"
  have core: "ju_core w ju" using inv by (simp add: ju_inv_def)
  note wf = ju_coreD(1) [OF core]
  have gs: "set (get_suspends ju) = ran (map_of (ju_suspends ju))"
    by (rule set_get_suspends [OF susp_wfD(1) [OF wf]])
  have st: "stage_of w j = Wait \<or> stage_of w j = Running" if "j \<in> set (get_suspends ju)" for j
    using that susp_wfD(4) [OF wf] unfolding gs by (auto simp: ran_def)
  have "distinct (get_suspends ju)" using distinct_get_suspends [OF wf] by (simp add: get_suspends_def)
  from finish_all_total [OF this st, of Cancelled]
  obtain w' where w': "finish_all Cancelled (get_suspends ju) w = Some w'"
    "jw_job w' = (\<lambda>j. if j \<in> set (get_suspends ju) then (jw_job w j)\<lparr>j_stage := End Cancelled\<rparr> else jw_job w j)"
    by auto
  have "interrupt_ok ?u" by (simp add: interrupt_ok_def)
  then have "flush_suspends (ju, w) = Some (get_suspends ju, flushed ju, w')"
    using w'(1) by (simp add: flush_suspends_def Let_def update_ready_with flushed_def get_suspends_def)
  moreover have "ju_core w' ?u"
    by (rule ju_core_no_susp [OF core])
      (use w'(2) trigger_not_suspended(1) [OF core] in \<open>simp_all add: gs\<close>)
  then have "ju_inv w' (flushed ju)" unfolding flushed_def by (rule ju_inv_unordered) simp
  ultimately show ?thesis using w'(2) by blast
qed

lemma remove_suspend_total:
  fixes w :: "'w jworld"
  assumes inv: "ju_inv w ju" and "r \<noteq> Done" and j: "map_of (ju_suspends ju) k = Some j"
  shows "\<exists>ju' w'. remove_suspend k r (ju, w) = Some (Some j, ju', w') \<and> ju_inv w' ju' \<and> \<not> ju_order ju' \<and>
    ju_suspends ju' = AList.delete k (ju_suspends ju) \<and> ju_trigger ju' = ju_trigger ju \<and>
    jw_job w' = (jw_job w)(j := (jw_job w j)\<lparr>j_stage := End r\<rparr>)"
proof -
  let ?u = "ju\<lparr>ju_suspends := AList.delete k (ju_suspends ju), ju_order := False, ju_dirty := True\<rparr>"
  have core: "ju_core w ju" using inv by (simp add: ju_inv_def)
  note wf = ju_coreD(1) [OF core]
  obtain w' where w': "job_finish r j w = Some (False, w')"
    "jw_job w' = (jw_job w)(j := (jw_job w j)\<lparr>j_stage := End r\<rparr>)"
    using job_finish_total [of w j r] susp_wfD(4) [OF wf j] assms(2) by auto
  have "interrupt_ok ?u" by (simp add: interrupt_ok_def)
  then have eq: "remove_suspend k r (ju, w) = Some (Some j, with_ready ?u, w')"
    using w'(1) j by (simp add: remove_suspend_def Let_def update_ready_with)
  have "susp_wf w' Wait ?u"
  proof (rule susp_wf_sub [OF wf])
    fix k' i
    assume a: "map_of (ju_suspends ?u) k' = Some i"
    then have "k' \<noteq> k" "map_of (ju_suspends ju) k' = Some i" by (auto simp: delete_conv' split: if_splits)
    moreover from this have "i \<noteq> j" using susp_wf_inj [OF wf j] by blast
    ultimately show "map_of (ju_suspends ju) k' = Some i \<and> jw_job w' i = jw_job w i" using w'(2) by simp
  qed (use susp_wfD(1) [OF wf] in \<open>simp_all add: distinct_delete\<close>)
  moreover have "trigger_wf w' ?u"
    using ju_coreD(2) [OF core] w'(2) susp_wfD(4) [OF wf j] by (auto simp: trigger_wf_def split: option.splits)
  ultimately have "ju_inv w' (with_ready ?u)" by (intro ju_inv_unordered) (simp_all add: ju_core_def)
  with eq w'(2) show ?thesis by auto
qed

definition merge_lists ::
  "job_unit \<Rightarrow> job_unit \<Rightarrow> job_id list \<Rightarrow> job_id list \<Rightarrow> job_id list \<Rightarrow> bool" where
  "merge_lists ju ou adds dels upds \<longleftrightarrow>
     (let S = (if is_suspends_conflict_with ju ou then Map.empty else map_of (ju_suspends ju)) in
      set adds = {i. \<exists>k. map_of (ju_suspends ou) k = Some i \<and> S k = None} \<and>
      set upds \<subseteq> ran (map_of (ju_suspends ju)))"

definition merge_flags :: "job_unit \<Rightarrow> job_unit \<Rightarrow> bool" where
  "merge_flags ju ju' \<longleftrightarrow> ju_up_ready ju' = ju_up_ready ju \<and> ju_interrupt ju' = ju_interrupt ju \<and>
     (ju_dirty ju' \<and> \<not> ju_order ju' \<or>
      ju_dirty ju' = ju_dirty ju \<and> ju_order ju' = ju_order ju \<and> ju_ready ju' = ju_ready ju)"

lemma merge_lists_of:
  assumes "susp_ok ou" and "ju_suspends ju1 = ju_suspends ju \<and> \<not> is_suspends_conflict_with ju ou \<or>
    ju_suspends ju1 = [] \<and> is_suspends_conflict_with ju ou"
  shows "merge_lists ju ou (new_jobs (ju_suspends ou) ju1) dels (old_jobs (ju_suspends ou) ju1)"
proof -
  have "map_of (ju_suspends ju1) = (if is_suspends_conflict_with ju ou then Map.empty else map_of (ju_suspends ju))"
    using assms(2) by auto
  moreover have "set (old_jobs (ju_suspends ou) ju1) \<subseteq> ran (map_of (ju_suspends ju))"
    using assms(2) by (auto simp: set_old_jobs ran_def)
  ultimately show ?thesis
    using assms(1) unfolding merge_lists_def Let_def
    by (auto simp: set_new_jobs kinds_of_def map_of_eq_Some_iff domIff)
qed

text \<open>The entry after a merge, with the flags that decide what a reshuffle has to do.\<close>

lemma merge_suspends_total:
  assumes inv: "ju_inv w ju" and wf: "susp_wf w Init ou" and "ju_unit ou = ju_unit ju"
    and nc: "\<not> is_suspends_conflict ju" "\<not> is_suspends_conflict ou"
  shows "\<exists>adds dels upds ju' w'. merge_suspends ou (ju, w) = Some ((adds, dels, upds), ju', w') \<and>
    ju_inv w' ju' \<and> \<not> is_suspends_conflict ju' \<and>
    ju_trigger ju' = ju_trigger ju \<and> ju_unit ju' = ju_unit ju \<and>
    (if is_suspends_conflict_with ju ou
     then set dels = ran (map_of (ju_suspends ju)) \<and> upds = [] \<and>
       map_of (ju_suspends ju') = map_of (ju_suspends ou) \<and>
       (\<forall>j \<in> set dels. jw_job w' j = (jw_job w j)\<lparr>j_stage := End Cancelled\<rparr>)
     else dels = [] \<and> map_of (ju_suspends ju') = map_of (ju_suspends ou) ++ map_of (ju_suspends ju) \<and>
       (\<forall>k j i. map_of (ju_suspends ju) k = Some j \<longrightarrow> map_of (ju_suspends ou) k = Some i \<longrightarrow>
         jw_job w' j = (jw_job w j)\<lparr>j_attr := job_attr_or (attr_of w j) (attr_of w i)\<rparr>)) \<and>
    (\<forall>j \<in> set adds. jw_job w' j = (jw_job w j)\<lparr>j_stage := Wait\<rparr>) \<and>
    (\<forall>j. j \<notin> set adds \<union> set dels \<union> set upds \<longrightarrow> jw_job w' j = jw_job w j) \<and>
    merge_lists ju ou adds dels upds \<and> merge_flags ju ju'"
proof -
  have core: "ju_core w ju" using inv by (simp add: ju_inv_def)
  have so: "susp_ok ju" "susp_ok ou" using susp_wfD(1) [OF ju_coreD(1) [OF core]] susp_wfD(1) [OF wf] .
  have fl: "fresh_list w ju (ju_suspends ou)"
    using wf assms(3) by (auto simp: fresh_list_def fresh_job_def susp_wf_def map_of_eq_Some_iff)
  show ?thesis
  proof (cases "is_suspends_conflict_with ju ou")
    case False
    obtain ju' w' where m: "fold_opt merge_one (ju_suspends ou) (([], []), ju, w) =
        Some (([] @ new_jobs (ju_suspends ou) ju, [] @ old_jobs (ju_suspends ou) ju), ju', w')"
      "ju_inv w' ju'" "merge_shape (ju_suspends ou) ju ju'" "merge_heap (ju_suspends ou) ju w w'"
      using merge_fold_total [OF inv fl] by blast
    have k: "kinds_of ju' = kinds_of ju \<union> kinds_of ou" "susp_ok ju'"
      using m(2,3) by (auto simp: merge_shape_def kinds_of_def ju_inv_def ju_core_def susp_wf_def)
    have "\<not> is_suspends_conflict ju'"
      using False unfolding conflict_iff [OF k(2)] conflict_with_iff [OF so] k(1) .
    moreover have "merge_lists ju ou (new_jobs (ju_suspends ou) ju) [] (old_jobs (ju_suspends ou) ju)"
      by (rule merge_lists_of [OF so(2)]) (simp add: False)
    moreover have "merge_flags ju ju'"
      using m(3) by (cases "new_jobs (ju_suspends ou) ju") (simp_all add: merge_flags_def merge_shape_def)
    ultimately show ?thesis
      using m False
      by (intro exI [of _ "new_jobs (ju_suspends ou) ju"] exI [of _ "[]"] exI [of _ "old_jobs (ju_suspends ou) ju"]
          exI [of _ ju'] exI [of _ w'])
        (simp add: merge_suspends_def merge_shape_def merge_heap_def)
  next
    case True
    obtain w1 where f: "flush_suspends (ju, w) = Some (get_suspends ju, flushed ju, w1)" "ju_inv w1 (flushed ju)"
      "jw_job w1 = (\<lambda>j. if j \<in> set (get_suspends ju) then (jw_job w j)\<lparr>j_stage := End Cancelled\<rparr> else jw_job w j)"
      using flush_suspends_total [OF inv] by blast
    have gs: "set (get_suspends ju) = ran (map_of (ju_suspends ju))" by (rule set_get_suspends [OF so(1)])
    have keep: "jw_job w1 i = jw_job w i" if "(k, i) \<in> set (ju_suspends ou)" for k i
      using fresh_list_not_susp [OF core fl that] f(3) gs by (simp add: jobs_of_def)
    have fl1: "fresh_list w1 (flushed ju) (ju_suspends ou)"
      using fl keep by (auto simp: fresh_list_def fresh_job_def flushed_def)
    obtain ju' w' where m: "fold_opt merge_one (ju_suspends ou) (([], []), flushed ju, w1) =
        Some (([] @ new_jobs (ju_suspends ou) (flushed ju), [] @ old_jobs (ju_suspends ou) (flushed ju)), ju', w')"
      "ju_inv w' ju'" "merge_shape (ju_suspends ou) (flushed ju) ju'"
      "merge_heap (ju_suspends ou) (flushed ju) w1 w'"
      using merge_fold_total [OF f(2) fl1] by blast
    have e: "ju_suspends (flushed ju) = []" "kinds_of (flushed ju) = {}"
      by (simp_all add: flushed_def kinds_of_def)
    have lists: "set (new_jobs (ju_suspends ou) (flushed ju)) = snd ` set (ju_suspends ou)"
      "old_jobs (ju_suspends ou) (flushed ju) = []"
      using e(2) by (force simp: set_new_jobs, simp add: old_jobs_def)
    have sh: "map_of (ju_suspends ju') = map_of (ju_suspends ou)" "ju_trigger ju' = ju_trigger ju"
      "ju_unit ju' = ju_unit ju"
      using m(3) e(1) by (simp_all add: merge_shape_def flushed_def)
    have k: "kinds_of ju' = kinds_of ou" "susp_ok ju'"
      using sh(1) m(2) by (auto simp: kinds_of_def ju_inv_def ju_core_def susp_wf_def)
    have "\<not> is_suspends_conflict ju'"
      using nc(2) unfolding conflict_iff [OF k(2)] conflict_iff [OF so(2)] k(1) .
    moreover have add: "jw_job w' i = (jw_job w i)\<lparr>j_stage := Wait\<rparr>"
      if "i \<in> set (new_jobs (ju_suspends ou) (flushed ju))" for i
      using merge_heapD(1) [OF m(4) that] keep that unfolding lists by auto
    moreover have oth: "jw_job w' i = jw_job w1 i" if "i \<notin> set (new_jobs (ju_suspends ou) (flushed ju))" for i
      using merge_heapD(3) [OF m(4) that] lists(2) by simp
    moreover have "i \<notin> set (new_jobs (ju_suspends ou) (flushed ju))" if "i \<in> set (get_suspends ju)" for i
      using that fresh_list_not_susp [OF core fl] gs unfolding lists by (auto simp: jobs_of_def)
    moreover have "merge_lists ju ou (new_jobs (ju_suspends ou) (flushed ju)) (get_suspends ju) []"
      using merge_lists_of [OF so(2), of "flushed ju" ju "get_suspends ju"] True e(1) lists(2) by simp
    moreover have "merge_flags ju ju'" using m(3) by (simp add: merge_flags_def merge_shape_def flushed_def)
    ultimately show ?thesis
      using m(1,2) f(1,3) sh gs True lists(2)
      by (intro exI [of _ "new_jobs (ju_suspends ou) (flushed ju)"] exI [of _ "get_suspends ju"] exI [of _ "[]"]
          exI [of _ ju'] exI [of _ w'])
        (simp add: merge_suspends_def)
  qed
qed

text \<open>
  (C7) Merging a transaction into an installed entry. \<open>ou\<close> holds the fresh jobs a transaction built for
  the unit, without a stop beside a start. If the two sets of jobs conflict (a stop against anything
  but a stop or a nop), all waiting jobs of the unit are cancelled and the new ones take their place;
  otherwise the result has the jobs of both, and a kind present on both sides keeps the old job with
  the attributes or-ed. Every new job is waiting, the running job is untouched, nothing conflicts in the
  result, nothing panics and the invariant holds.
\<close>

theorem merge_suspends_correct:
  assumes "ju_inv w ju" and "susp_wf w Init ou" and "ju_unit ou = ju_unit ju"
    and "\<not> is_suspends_conflict ju" "\<not> is_suspends_conflict ou"
  shows "\<exists>adds dels upds ju' w'. merge_suspends ou (ju, w) = Some ((adds, dels, upds), ju', w') \<and>
    ju_inv w' ju' \<and> \<not> is_suspends_conflict ju' \<and>
    ju_trigger ju' = ju_trigger ju \<and> ju_unit ju' = ju_unit ju \<and>
    (if is_suspends_conflict_with ju ou
     then set dels = ran (map_of (ju_suspends ju)) \<and> upds = [] \<and>
       map_of (ju_suspends ju') = map_of (ju_suspends ou) \<and>
       (\<forall>j \<in> set dels. jw_job w' j = (jw_job w j)\<lparr>j_stage := End Cancelled\<rparr>)
     else dels = [] \<and> map_of (ju_suspends ju') = map_of (ju_suspends ou) ++ map_of (ju_suspends ju) \<and>
       (\<forall>k j i. map_of (ju_suspends ju) k = Some j \<longrightarrow> map_of (ju_suspends ou) k = Some i \<longrightarrow>
         jw_job w' j = (jw_job w j)\<lparr>j_attr := job_attr_or (attr_of w j) (attr_of w i)\<rparr>)) \<and>
    (\<forall>j \<in> set adds. jw_job w' j = (jw_job w j)\<lparr>j_stage := Wait\<rparr>) \<and>
    (\<forall>j. j \<notin> set adds \<union> set dels \<union> set upds \<longrightarrow> jw_job w' j = jw_job w j)"
  using merge_suspends_total [OF assms] by blast

theorem merge_suspends_correct_witness:
  "\<exists>adds dels upds ju' w'. merge_suspends (demo_entry [(Stop, 1)])
       (demo_entry [(Start, 0)], demo_world (\<lambda>i. if i = 0 then demo_jobs [Start, Stop] Wait i
          else demo_jobs [Start, Stop] Init i)) = Some ((adds, dels, upds), ju', w') \<and>
     set dels = {0} \<and> stage_of w' 0 = End Cancelled \<and> map_of (ju_suspends ju') = [Stop \<mapsto> 1]"
proof -
  let ?ju = "demo_entry [(Start, 0)]" and ?ou = "demo_entry [(Stop, 1)]"
  let ?w = "demo_world (\<lambda>i. if i = 0 then demo_jobs [Start, Stop] Wait i else demo_jobs [Start, Stop] Init i)"
  have "ju_inv ?w ?ju" "susp_wf ?w Init ?ou" "ju_unit ?ou = ju_unit ?ju" "\<not> is_suspends_conflict ?ju"
    "\<not> is_suspends_conflict ?ou" "is_suspends_conflict_with ?ju ?ou"
    by (simp_all add: ju_inv_def ready_of_def is_suspends_conflict_with_def demo_entry_defs)
  from merge_suspends_correct [OF this(1-5)] this(6)
  obtain adds dels upds ju' w' where "merge_suspends ?ou (?ju, ?w) = Some ((adds, dels, upds), ju', w')"
    "set dels = ran (map_of (ju_suspends ?ju))" "map_of (ju_suspends ju') = map_of (ju_suspends ?ou)"
    "\<forall>j \<in> set dels. jw_job w' j = (jw_job ?w j)\<lparr>j_stage := End Cancelled\<rparr>"
    by (simp only: if_True) blast
  then show ?thesis by (auto simp: demo_entry_def)
qed

section \<open>A nop beside a stop\<close>

text \<open>
  A stranded job. A stop and a nop do not conflict, so both can be suspended; the queue then holds
  the stop only. Once the stop has run, the entry is ordered with an empty queue and the nop still
  waiting. In that state the entry is not ready, and neither reshuffling nor pausing and resuming it
  changes that: the nop waits until another job arrives for the unit.
\<close>

theorem nop_beside_stop_stranded:
  assumes inv: "ju_inv w ju" and "ju_order ju" and "ju_trigger ju = None"
    and "ju_sq ju = []" and "kinds_of ju = {Nop}"
  shows "\<not> ju_ready ju \<and> (\<exists>j. get_suspend ju Nop = Some j \<and> stage_of w j = Wait) \<and>
    reshuffle U (ju, w) = Some ([], ju, w) \<and>
    (\<exists>ju1 ju2. ju_set_pause ju = Some ju1 \<and> ju_resume ju1 = Some ju2 \<and> \<not> ju_ready ju2 \<and> ju_sq ju2 = [])"
proof -
  have rdy: "ready_of ju = None" "\<not> ju_ready ju"
    using assms by (auto simp: ju_inv_def ready_of_def ju_core_def trigger_wf_def)
  have core: "ju_core w ju" and ord: "ju_ordered w ju" using inv assms(2) by (auto simp: ju_inv_def)
  obtain j where j: "map_of (ju_suspends ju) Nop = Some j" using assms(5) by (auto simp: kinds_of_def)
  have "with_ready ju = ju" using rdy by (cases ju) (simp add: with_ready_def)
  moreover have "ju\<lparr>ju_interrupt := next_interrupt w ju\<rparr> = ju" using assms(3) by (simp add: next_interrupt_def)
  ultimately have "reshuffle U (ju, w) = Some ([], ju, w)"
    using ord assms(2) ju_inv_interrupt_ok [OF inv]
    by (simp add: reshuffle_def ju_ordered_def merge_trigger_prepare_eq update_ready_with finish_all_def)
  moreover let ?p = "with_ready (ju\<lparr>ju_dirty := True, ju_pause := True\<rparr>)"
  have "ju_set_pause ju = Some ?p" "ju_resume ?p = Some (with_ready (?p\<lparr>ju_dirty := True, ju_pause := False\<rparr>))"
    using ju_set_pause_total [OF inv assms(2)] ju_resume_total [OF ju_inv_pause_flags [OF inv]] assms(2)
    by simp_all
  ultimately show ?thesis
    using rdy(2) j susp_wfD(4) [OF ju_coreD(1) [OF core] j] assms(3,4) ju_coreD(2) [OF core]
    by (simp add: get_suspend_def ready_of_def trigger_wf_def)
qed

theorem nop_beside_stop_stranded_witness:
  "\<exists>w ju1 info m ju2 w2 d ju3 w3. w = demo_world (demo_jobs [Stop, Nop] Wait) \<and>
     reshuffle demo_ops (demo_entry [(Stop, 0), (Nop, 1)], w) = Some ([], ju1, w) \<and>
     do_trigger demo_ops (ju1, w) = Some (info, m, ju2, w2) \<and>
     finish_trigger Done (ju2, w2) = Some (d, ju3, w3) \<and>
     reshuffle demo_ops (ju3, w3) = Some ([], ju3, w3) \<and> \<not> ju_ready ju3"
proof -
  let ?w = "demo_world (demo_jobs [Stop, Nop] Wait)" and ?ju = "demo_entry [(Stop, 0), (Nop, 1)]"
  let ?r = "?ju\<lparr>ju_order := True, ju_sq := [0], ju_ready := True\<rparr>"
  have r: "reshuffle demo_ops (?ju, ?w) = Some ([], ?r, ?w)"
    by (simp add: reshuffle_def demo_entry_def job_unit_new_def is_suspends_conflict_def
        suspends_kind_len_def has_suspend_def num_others_def Let_def jobs_merge_suspend_def sq_order_def
        sq_order_pushback_def jobs_merge_trigger_prepare_def update_ready_def calc_ready_cases ready_of_def
        finish_all_def ex_bool_eq)
  let ?t = "?ju\<lparr>ju_order := True, ju_sq := [], ju_trigger := Some 0, ju_suspends := [(Nop, 1)], ju_dirty := True\<rparr>"
  have nx: "do_next_trigger ?w ?r = Some (0, None, ?t)"
    by (simp add: do_next_trigger_def do_next_trigger_suspend_def calc_ready_cases ready_of_def
        demo_entry_def job_unit_new_def update_ready_def Let_def demo_world_def demo_jobs_def job_new_def)
  obtain w2 where run: "job_run demo_ops 0 ?w = Some (Inl (Some Done), w2)"
    by (simp add: job_run_def job_enter_running_def rentry_defs Let_def demo_world_def demo_jobs_def job_new_def
        job_trigger_unit_def unit_stop_def demo_ops_def job_attr_new_def)
  have heap: "jw_job w2 = (jw_job ?w)(0 := (jw_job ?w 0)\<lparr>j_stage := Running\<rparr>)" using job_run_heap [OF run] by simp
  have tr: "do_trigger demo_ops (?r, ?w) = Some ((job_info_map (jw_job ?w 0), Some Done), None, ?t, w2)"
    by (simp add: do_trigger_eq [OF nx _ run] merge_interrupted_def)
  have inv: "ju_inv w2 ?t" "ju_order ?t" "ju_trigger ?t = Some 0"
    by (simp_all add: heap ju_inv_def ju_ordered_def ready_of_def one_mutop_def demo_entry_defs)
  obtain w3 where "job_finish Done 0 w2 = Some (False, w3)"
    using job_finish_cases [of w2 0 Done] by (auto simp: heap demo_world_def demo_jobs_def job_new_def job_rkind_ok_def)
  from finish_trigger_ended [OF inv this] obtain ju3 where f: "finish_trigger Done (?t, w2) = Some (Some 0, ju3, w3)"
    "ju_inv w3 ju3" "ju_trigger ju3 = None" "ju_suspends ju3 = [(Nop, 1)]" "ju_order ju3" "ju_sq ju3 = []"
    by auto
  have "kinds_of ju3 = {Nop}" using f(4) by (simp add: kinds_of_def)
  from nop_beside_stop_stranded [OF f(2,5,3,6) this, of demo_ops] show ?thesis using r tr f(1) by blast
qed

end
