(* ===== verification/Job_Table_Inv.thy ===== *)
theory Job_Table_Inv
  imports Job_Ready Job_Unit_Merge
begin

text \<open>
  The invariant of the job table (\<^verbatim>\<open>core/bin/job/table.rs\<close>) and the operations that work on a
  synchronised table: resuming, finishing, triggering. A synchronised table has every entry ordered,
  clean and non-empty, and an entry is in a ready container exactly if it is ready.
\<close>

section \<open>The invariant\<close>

definition tab_wf :: "'w jworld \<Rightarrow> job_unit_table \<Rightarrow> bool" where
  "tab_wf w t \<longleftrightarrow> ready_wf t \<and>
     (\<forall>u r. entry_of t u = Some r \<longrightarrow> r < tu_next t \<and> ju_inv w (tu_uv t r) \<and>
        \<not> is_suspends_conflict (tu_uv t r))"

definition synced :: "job_unit \<Rightarrow> bool" where
  "synced ju \<longleftrightarrow> ju_order ju \<and> \<not> ju_dirty ju \<and> ju_up_ready ju = ju_ready ju \<and> \<not> ju_is_empty ju"

definition tab_inv :: "'w jworld \<Rightarrow> job_unit_table \<Rightarrow> bool" where
  "tab_inv w t \<longleftrightarrow> tab_wf w t \<and> tu_sync t \<and> (\<forall>u r. entry_of t u = Some r \<longrightarrow> synced (tu_uv t r))"

definition all_jobs :: "job_unit_table \<Rightarrow> job_id set" where
  "all_jobs t = {j. \<exists>u r. entry_of t u = Some r \<and> j \<in> jobs_of (tu_uv t r)}"

definition jt_inv :: "'w jworld \<Rightarrow> job_table \<Rightarrow> bool" where
  "jt_inv w T \<longleftrightarrow> tab_inv w (jt_unit T) \<and> jt_id T = all_jobs (jt_unit T)"

text \<open>An operation on the entry of one unit changes jobs of that unit only.\<close>

definition only_unit :: "unit_id \<Rightarrow> 'w jworld \<Rightarrow> 'w jworld \<Rightarrow> bool" where
  "only_unit u w w' \<longleftrightarrow> (\<forall>j. j_unit (jw_job w' j) = j_unit (jw_job w j)) \<and>
     (\<forall>j. j_unit (jw_job w j) \<noteq> u \<longrightarrow> jw_job w' j = jw_job w j)"

lemma only_unit_refl [simp]: "only_unit u w w"
  by (simp add: only_unit_def)

lemma tab_wfD:
  assumes "tab_wf w t"
  shows "ready_wf t" and "entry_of t u = Some r \<Longrightarrow> r < tu_next t"
    and "entry_of t u = Some r \<Longrightarrow> ju_inv w (tu_uv t r)"
    and "entry_of t u = Some r \<Longrightarrow> ju_unit (tu_uv t r) = u"
    and "entry_of t u = Some r \<Longrightarrow> \<not> is_suspends_conflict (tu_uv t r)"
  using assms ready_wfD(2) [of t u r] by (auto simp: tab_wf_def)

lemma tab_invD:
  assumes "tab_inv w t"
  shows "tab_wf w t" and "tu_sync t" and "entry_of t u = Some r \<Longrightarrow> synced (tu_uv t r)"
  using assms by (auto simp: tab_inv_def)

lemma jobs_of_unit: "ju_core w ju \<Longrightarrow> j \<in> jobs_of ju \<Longrightarrow> j_unit (jw_job w j) = ju_unit ju"
  by (auto simp: ju_core_def trigger_wf_def jobs_of_def ran_def dest: susp_wfD(6))

lemma jobs_of_entry:
  "tab_wf w t \<Longrightarrow> entry_of t u = Some r \<Longrightarrow> j \<in> jobs_of (tu_uv t r) \<Longrightarrow> j_unit (jw_job w j) = u"
  using jobs_of_unit [of w "tu_uv t r" j] tab_wfD(3,4) [of w t u r] by (auto simp: ju_inv_def)

lemma same_frame_entry: "same_frame t t' \<Longrightarrow> entry_of t' = entry_of t"
  by (simp add: same_frame_def entry_of_def)

text \<open>Entries of other units keep their invariant.\<close>

lemma ju_inv_other:
  assumes "tab_wf w t" and "entry_of t v = Some x" and "v \<noteq> u" and "only_unit u w w'"
  shows "ju_inv w' (tu_uv t x)"
proof -
  have "jw_job w' j = jw_job w j" if "j \<in> jobs_of (tu_uv t x)" for j
    using jobs_of_entry [OF assms(1,2) that] assms(3,4) by (simp add: only_unit_def)
  then show ?thesis using ju_inv_cong tab_wfD(3) [OF assms(1,2)] by blast
qed

lemma tab_wf_set_uv:
  assumes wf: "tab_wf w t" and u: "entry_of t u = Some r" and o: "only_unit u w w'"
    and ju: "ju_inv w' ju" "ju_unit ju = u" "ju_up_ready ju = ju_up_ready (tu_uv t r)"
      "\<not> is_suspends_conflict ju"
  shows "tab_wf w' (set_uv r ju t)"
proof -
  have "ready_wf (set_uv r ju t)"
    by (rule ready_wf_set_uv [OF tab_wfD(1) [OF wf]]) (use ju tab_wfD(4) [OF wf u] in simp_all)
  moreover have "ju_inv w' (tu_uv (set_uv r ju t) x) \<and> x < tu_next t \<and> \<not> is_suspends_conflict (tu_uv (set_uv r ju t) x)"
    if v: "entry_of t v = Some x" for v x
  proof (cases "v = u")
    case True
    then show ?thesis using v u ju tab_wfD(2) [OF wf u] by simp
  next
    case False
    then have "x \<noteq> r" using v u entry_of_inj [OF tab_wfD(1) [OF wf]] by blast
    then show ?thesis using ju_inv_other [OF wf v False o] tab_wfD(2,5) [OF wf v] by simp
  qed
  ultimately show ?thesis by (simp add: tab_wf_def)
qed

text \<open>
  The common end of reshuffling, finishing and resuming: the changed entry is put back, moved in or
  out of the ready containers and marked clean.
\<close>

definition install :: "unit_id \<Rightarrow> uvref \<Rightarrow> job_unit \<Rightarrow> job_unit_table \<Rightarrow> job_unit_table" where
  "install u r ju t = (let t1 = ready_sync u r (set_uv r ju t) in
     set_uv r (ju_clear_dirty (tu_uv t1 r)) t1)"

definition clean :: "job_unit \<Rightarrow> job_unit" where
  "clean ju = ju\<lparr>ju_up_ready := ju_ready ju, ju_dirty := False\<rparr>"

lemma clean_simps [simp]:
  "ju_unit (clean ju) = ju_unit ju" "ju_suspends (clean ju) = ju_suspends ju"
  "ju_trigger (clean ju) = ju_trigger ju" "ju_ready (clean ju) = ju_ready ju"
  "ju_order (clean ju) = ju_order ju" "\<not> ju_dirty (clean ju)" "ju_up_ready (clean ju) = ju_ready ju"
  "jobs_of (clean ju) = jobs_of ju" "ju_inv w (clean ju) = ju_inv w ju"
  "is_suspends_conflict (clean ju) = is_suspends_conflict ju" "ju_pause (clean ju) = ju_pause ju"
  "ju_is_empty (clean ju) = ju_is_empty ju"
  by (simp_all add: clean_def jobs_of_def is_suspends_conflict_def suspends_kind_len_def has_suspend_def
      num_others_def ju_is_empty_def)

lemma install_wf:
  assumes wf: "tab_wf w t" and u: "entry_of t u = Some r" and o: "only_unit u w w'"
    and ju: "ju_inv w' ju" "ju_unit ju = u" "ju_up_ready ju = ju_up_ready (tu_uv t r)"
      "\<not> is_suspends_conflict ju"
  shows "tab_wf w' (install u r ju t)" and "same_frame t (install u r ju t)"
    and "tu_uv (install u r ju t) = (tu_uv t)(r := clean ju)"
proof -
  let ?s = "set_uv r ju t" and ?t1 = "ready_sync u r (set_uv r ju t)"
  have wf1: "tab_wf w' ?s" by (rule tab_wf_set_uv [OF wf u o ju])
  have sync: "up_ready_set r (ju_ready ju) ?s ?t1"
    using ready_sync_spec [OF tab_wfD(1) [OF wf1], of u r] u by simp
  then have uv1: "tu_uv ?t1 = (tu_uv t)(r := ju\<lparr>ju_up_ready := ju_ready ju\<rparr>)"
    by (simp add: up_ready_set_def)
  then show uv: "tu_uv (install u r ju t) = (tu_uv t)(r := clean ju)"
    by (simp add: install_def Let_def clean_def ju_clear_dirty_def)
  have f: "same_frame ?s ?t1" using sync by (simp add: up_ready_set_def)
  then show fr: "same_frame t (install u r ju t)"
    by (simp add: install_def Let_def same_frame_def)
  have "ready_wf (install u r ju t)"
    unfolding install_def Let_def
    by (rule ready_wf_set_uv) (use sync in \<open>simp_all add: up_ready_set_def ju_clear_dirty_def\<close>)
  moreover have "ju_inv w' (tu_uv (install u r ju t) x) \<and> x < tu_next t \<and>
      \<not> is_suspends_conflict (tu_uv (install u r ju t) x)" if v: "entry_of t v = Some x" for v x
    using tab_wfD(2,3,5) [OF wf1, of v x] v ju uv by (cases "x = r") simp_all
  ultimately show "tab_wf w' (install u r ju t)"
    using fr same_frame_entry [OF fr] by (simp add: tab_wf_def same_frame_def)
qed

lemma synced_clean: "ju_order ju \<Longrightarrow> \<not> ju_is_empty ju \<Longrightarrow> synced (clean ju)"
  by (simp add: synced_def)

lemma install_inv:
  assumes inv: "tab_inv w t" and u: "entry_of t u = Some r" and o: "only_unit u w w'"
    and ju: "ju_inv w' ju" "ju_unit ju = u" "ju_up_ready ju = ju_up_ready (tu_uv t r)"
      "\<not> is_suspends_conflict ju" "ju_order ju" "\<not> ju_is_empty ju"
  shows "tab_inv w' (install u r ju t)"
proof -
  note i = install_wf [OF tab_invD(1) [OF inv] u o ju(1-4)]
  have "synced (tu_uv (install u r ju t) x)" if "entry_of t v = Some x" for v x
    using tab_invD(3) [OF inv that] synced_clean [OF ju(5,6)] i(3) by simp
  then show ?thesis
    using i(1,2) same_frame_entry [OF i(2)] tab_invD(2) [OF inv] by (simp add: tab_inv_def same_frame_def)
qed

section \<open>Resuming\<close>

text \<open>What resuming may change: entries are un-paused and may become ready; no job moves.\<close>

definition resumed :: "'w jworld \<Rightarrow> job_unit_table \<Rightarrow> job_unit_table \<Rightarrow> bool" where
  "resumed w t t' \<longleftrightarrow> tab_inv w t' \<and> same_frame t t' \<and>
     (\<forall>x. ju_suspends (tu_uv t' x) = ju_suspends (tu_uv t x) \<and> ju_trigger (tu_uv t' x) = ju_trigger (tu_uv t x) \<and>
          (ju_pause (tu_uv t' x) \<longrightarrow> ju_pause (tu_uv t x)) \<and>
          (ju_pause (tu_uv t' x) = ju_pause (tu_uv t x) \<longrightarrow> tu_uv t' x = tu_uv t x))"

lemma resumed_refl: "tab_inv w t \<Longrightarrow> resumed w t t"
  by (simp add: resumed_def)

lemma resumed_trans: "resumed w t t' \<Longrightarrow> resumed w t' t'' \<Longrightarrow> resumed w t t''"
  unfolding resumed_def using same_frame_trans by metis

lemma resumed_jobs: "resumed w t t' \<Longrightarrow> all_jobs t' = all_jobs t"
proof -
  assume a: "resumed w t t'"
  have "jobs_of (tu_uv t' x) = jobs_of (tu_uv t x)" for x using a by (simp add: resumed_def jobs_of_def)
  moreover have "entry_of t' = entry_of t" using a by (simp add: resumed_def same_frame_entry)
  ultimately show ?thesis by (simp add: all_jobs_def)
qed

lemma same_suspends_conflict:
  "ju_suspends ju' = ju_suspends ju \<Longrightarrow> is_suspends_conflict ju' = is_suspends_conflict ju"
  by (simp add: is_suspends_conflict_def suspends_kind_len_def has_suspend_def num_others_def)

lemma resume_entry_inv:
  assumes inv: "tab_inv w t" and u: "entry_of t u = Some r"
  shows "\<exists>t'. resume_entry u r t = Some t' \<and> resumed w t t' \<and> \<not> ju_pause (tu_uv t' r)"
proof (cases "ju_pause (tu_uv t r)")
  case False
  then show ?thesis
    using resumed_refl [OF inv] tab_invD(3) [OF inv u] by (simp add: resume_entry_def synced_def)
next
  case True
  note wf = tab_invD(1) [OF inv] and sy = tab_invD(3) [OF inv u]
  let ?j = "with_ready ((tu_uv t r)\<lparr>ju_dirty := True, ju_pause := False\<rparr>)"
  have i: "ju_inv w ?j" by (rule ju_inv_pause_flags [OF tab_wfD(3) [OF wf u]])
  have "ju_resume (tu_uv t r) = Some ?j"
    by (rule ju_resume_total [OF tab_wfD(3) [OF wf u]]) (use sy in \<open>simp add: synced_def\<close>)
  then have eq: "resume_entry u r t = Some (install u r ?j t)"
    using True sy by (simp add: resume_entry_def install_def Let_def synced_def)
  have sus: "ju_suspends ?j = ju_suspends (tu_uv t r)" "ju_trigger ?j = ju_trigger (tu_uv t r)" by simp_all
  have c: "\<not> is_suspends_conflict ?j" "\<not> ju_is_empty ?j"
    using tab_wfD(5) [OF wf u] same_suspends_conflict [OF sus(1)] sy sus
    by (simp_all add: synced_def ju_is_empty_def)
  have un: "ju_unit ?j = u" "ju_up_ready ?j = ju_up_ready (tu_uv t r)" "ju_order ?j"
    using tab_wfD(4) [OF wf u] sy by (simp_all add: synced_def)
  note ii = install_inv [OF inv u only_unit_refl i un(1,2) c(1) un(3) c(2)]
  note iw = install_wf [OF wf u only_unit_refl i un(1,2) c(1)]
  have "ju_pause (tu_uv (install u r ?j t) r) \<noteq> ju_pause (tu_uv t r)" using True iw(3) by simp
  then have "resumed w t (install u r ?j t)"
    unfolding resumed_def using ii iw(2,3) by auto
  then show ?thesis using eq iw(3) by simp
qed

lemma tu_resume_unit_inv:
  assumes inv: "tab_inv w t"
  shows "\<exists>t'. tu_resume_unit u t = Some t' \<and> resumed w t t' \<and>
    (\<forall>r. entry_of t u = Some r \<longrightarrow> \<not> ju_pause (tu_uv t' r))"
proof (cases "entry_of t u")
  case None
  then show ?thesis using resumed_refl [OF inv] by (simp add: tu_resume_unit_def entry_of_def)
next
  case (Some r)
  then show ?thesis using resume_entry_inv [OF inv Some] by (auto simp: tu_resume_unit_def entry_of_def)
qed

lemma resume_all_inv:
  "tab_inv w t \<Longrightarrow> \<exists>t'. fold_opt tu_resume_unit us t = Some t' \<and> resumed w t t' \<and>
     (\<forall>u r. u \<in> set us \<longrightarrow> entry_of t u = Some r \<longrightarrow> \<not> ju_pause (tu_uv t' r))"
proof (induction us arbitrary: t)
  case Nil
  then show ?case by (simp add: resumed_refl)
next
  case (Cons u us)
  obtain t1 where t1: "tu_resume_unit u t = Some t1" "resumed w t t1"
    "\<forall>r. entry_of t u = Some r \<longrightarrow> \<not> ju_pause (tu_uv t1 r)"
    using tu_resume_unit_inv [OF Cons.prems] by blast
  have "tab_inv w t1" "entry_of t1 = entry_of t"
    using t1(2) same_frame_entry by (auto simp: resumed_def)
  with Cons.IH [of t1] obtain t' where t': "fold_opt tu_resume_unit us t1 = Some t'" "resumed w t1 t'"
    "\<forall>v r. v \<in> set us \<longrightarrow> entry_of t v = Some r \<longrightarrow> \<not> ju_pause (tu_uv t' r)" by auto
  have "ju_pause (tu_uv t' x) \<Longrightarrow> ju_pause (tu_uv t1 x)" for x using t'(2) by (auto simp: resumed_def)
  then show ?case using t1 t' resumed_trans [OF t1(2) t'(2)] by auto
qed

lemma process_relation_inv:
  assumes inv: "tab_inv w (jt_unit T)"
  shows "\<exists>T'. process_relation D u b T = Some T' \<and> jt_id T' = jt_id T \<and> resumed w (jt_unit T) (jt_unit T') \<and>
    (\<forall>v r. v \<in> set (D u UnitAtomAfter) \<union> set (D u UnitAtomBefore) \<longrightarrow> entry_of (jt_unit T) v = Some r \<longrightarrow>
       \<not> ju_pause (tu_uv (jt_unit T') r))"
proof -
  obtain t1 where t1: "fold_opt tu_resume_unit (D u UnitAtomAfter) (jt_unit T) = Some t1"
    "resumed w (jt_unit T) t1"
    "\<forall>v r. v \<in> set (D u UnitAtomAfter) \<longrightarrow> entry_of (jt_unit T) v = Some r \<longrightarrow> \<not> ju_pause (tu_uv t1 r)"
    using resume_all_inv [OF inv] by blast
  have i1: "tab_inv w t1" "entry_of t1 = entry_of (jt_unit T)"
    using t1(2) same_frame_entry by (auto simp: resumed_def)
  obtain t2 where t2: "fold_opt tu_resume_unit (D u UnitAtomBefore) t1 = Some t2" "resumed w t1 t2"
    "\<forall>v r. v \<in> set (D u UnitAtomBefore) \<longrightarrow> entry_of t1 v = Some r \<longrightarrow> \<not> ju_pause (tu_uv t2 r)"
    using resume_all_inv [OF i1(1)] by blast
  have "ju_pause (tu_uv t2 x) \<Longrightarrow> ju_pause (tu_uv t1 x)" for x using t2(2) by (auto simp: resumed_def)
  then show ?thesis
    using t1 t2 i1(2) resumed_trans [OF t1(2) t2(2)] by (auto simp: process_relation_def)
qed

section \<open>Collecting empty entries\<close>

lemma empty_not_ready:
  assumes "ju_inv w ju" and "ju_order ju" and "ju_is_empty ju"
  shows "\<not> ju_ready ju"
proof -
  have e: "ju_suspends ju = []" "ju_trigger ju = None" using assms(3) by (simp_all add: ju_is_empty_def)
  then have "kinds_of ju = {}" "queue_of ju = []" by (simp_all add: kinds_of_def queue_of_def)
  then have "ju_sq ju = []" "\<not> ju_interrupt ju"
    using assms(1,2) e by (auto simp: ju_inv_def ju_ordered_def ju_core_def trigger_wf_def)
  then show ?thesis using assms(1) e by (simp add: ju_inv_def ready_of_def)
qed

definition synced_or_empty :: "job_unit \<Rightarrow> bool" where
  "synced_or_empty ju \<longleftrightarrow> ju_order ju \<and> \<not> ju_dirty ju \<and> ju_up_ready ju = ju_ready ju"

lemma gc_spec:
  assumes wf: "tab_wf w t" and u: "entry_of t u = Some r" and s: "synced_or_empty (tu_uv t r)"
  shows "\<exists>t'. try_gc_empty_unit u r t = Some t' \<and> tab_wf w t' \<and> tu_uv t' = tu_uv t \<and>
    tu_sync t' = tu_sync t \<and> tu_next t' = tu_next t \<and>
    entry_of t' = (if ju_is_empty (tu_uv t r) then (entry_of t)(u := None) else entry_of t)"
proof (cases "ju_is_empty (tu_uv t r)")
  case False
  then show ?thesis using wf by (simp add: try_gc_empty_unit_def)
next
  case True
  have nr: "\<not> ju_ready (tu_uv t r)" "\<not> ju_up_ready (tu_uv t r)"
    using empty_not_ready [OF tab_wfD(3) [OF wf u]] True s by (simp_all add: synced_or_empty_def)
  let ?t = "t\<lparr>tu_data := AList.delete u (tu_data t), tu_ready := AList.delete u (tu_ready t)\<rparr>"
  have rw: "ready_wf t" by (rule tab_wfD(1) [OF wf])
  have notin: "(u, x) \<notin> set (ready_abs t)" for x
    using ready_wfD(5) [OF rw, of u x] u nr(2) by auto
  then have "AList.delete u (tu_ready t) = tu_ready t" by (intro delete_id) (auto simp: ready_abs_def)
  then have abs: "ready_abs ?t = ready_abs t" "tu_ready ?t = tu_ready t" by (simp_all add: ready_abs_def)
  have en: "entry_of ?t = (entry_of t)(u := None)" by (simp add: entry_of_def delete_conv')
  have mem: "(v, x) \<in> set (ready_abs t) \<longleftrightarrow> entry_of ?t v = Some x \<and> ju_up_ready (tu_uv t x)" for v x
    using ready_wfD(5) [OF rw, of v x] notin en by auto
  have "ready_wf ?t"
    unfolding ready_wf_def abs
    using mem ready_wfD [OF rw] en by (simp add: distinct_delete)
  then have "tab_wf w ?t" using wf en by (auto simp: tab_wf_def)
  moreover have "try_gc_empty_unit u r t = Some ?t" using True nr by (simp add: try_gc_empty_unit_def)
  ultimately show ?thesis using True en by (intro exI [of _ ?t]) simp
qed

section \<open>Finishing the triggered job of a unit\<close>

lemma only_unit_job:
  assumes "\<And>k. k \<noteq> j \<Longrightarrow> jw_job w' k = jw_job w k" and "j_unit (jw_job w' j) = j_unit (jw_job w j)"
    and "j_unit (jw_job w j) = u"
  shows "only_unit u w w'"
  unfolding only_unit_def using assms by metis

lemma finish_trigger_total:
  assumes inv: "ju_inv w ju" and "ju_order ju" and t: "ju_trigger ju = Some t"
  shows "\<exists>d ju' w'. finish_trigger r (ju, w) = Some (d, ju', w') \<and> ju_inv w' ju' \<and>
    ju_suspends ju' = ju_suspends ju \<and> ju_unit ju' = ju_unit ju \<and> ju_up_ready ju' = ju_up_ready ju \<and>
    ju_order ju' \<and> only_unit (ju_unit ju) w w' \<and>
    (d = None \<and> ju_trigger ju' = Some t \<and> stage_of w' t = Running \<or>
     d = Some t \<and> ju_trigger ju' = None \<and> stage_of w' t = End r) \<and>
    (d = None \<longleftrightarrow> r = Done \<and> kind_of w t = Restart \<and> j_run_kind (jw_job w t) = Stop)"
proof -
  have t_ok: "stage_of w t = Running" "job_rkind_ok (jw_job w t)" "j_unit (jw_job w t) = ju_unit ju"
    using inv t by (simp_all add: ju_inv_def ju_core_def trigger_wf_def job_ok_def)
  let ?again = "r = Done \<and> kind_of w t = Restart \<and> j_run_kind (jw_job w t) = Stop"
  obtain w' where f: "job_finish r t w = Some (?again, w')" using job_finish_cases [OF t_ok(1,2)] by blast
  note heap = job_finish_heap(3) [OF f t_ok(2)]
  have ou: "only_unit (ju_unit ju) w w'"
    by (rule only_unit_job [of t]) (simp_all add: heap t_ok(3))
  show ?thesis
  proof (cases ?again)
    case True
    then have "job_finish r t w = Some (True, w')" using f by simp
    from finish_trigger_again [OF inv assms(2) t this] True heap ou show ?thesis by auto
  next
    case False
    then have "job_finish r t w = Some (False, w')" using f by (metis (full_types))
    from finish_trigger_ended [OF inv assms(2) t this] False heap ou show ?thesis by auto
  qed
qed

text \<open>The index and the entries after the jobs in \<open>del\<close> have left the entry of \<open>u\<close>.\<close>

definition other_jobs :: "job_unit_table \<Rightarrow> unit_id \<Rightarrow> job_id set" where
  "other_jobs t u = {j. \<exists>v x. v \<noteq> u \<and> entry_of t v = Some x \<and> j \<in> jobs_of (tu_uv t x)}"

lemma all_jobs_split:
  "all_jobs t = (case entry_of t u of Some r \<Rightarrow> jobs_of (tu_uv t r) | None \<Rightarrow> {}) \<union> other_jobs t u"
  (is "_ = ?rhs")
proof -
  have "j \<in> ?rhs" if a: "j \<in> all_jobs t" for j
  proof -
    obtain v x where v: "entry_of t v = Some x" "j \<in> jobs_of (tu_uv t x)"
      using a by (auto simp: all_jobs_def)
    show ?thesis using v by (cases "v = u") (auto simp: other_jobs_def)
  qed
  moreover have "j \<in> all_jobs t" if "j \<in> ?rhs" for j
    using that by (auto simp: all_jobs_def other_jobs_def split: option.splits)
  ultimately show ?thesis by blast
qed

lemma other_jobs_cong:
  assumes "\<And>v. v \<noteq> u \<Longrightarrow> entry_of t' v = entry_of t v"
    and "\<And>v x. v \<noteq> u \<Longrightarrow> entry_of t v = Some x \<Longrightarrow> jobs_of (tu_uv t' x) = jobs_of (tu_uv t x)"
  shows "other_jobs t' u = other_jobs t u"
  unfolding other_jobs_def using assms by (intro Collect_cong) (metis (no_types))

lemma all_jobs_change:
  assumes wf: "tab_wf w t" and u: "entry_of t u = Some r"
    and uv: "tu_uv t' = (tu_uv t)(r := ju)"
    and en: "entry_of t' = (if ju_is_empty ju then (entry_of t)(u := None) else entry_of t)"
    and del: "jobs_of ju = jobs_of (tu_uv t r) - del" "del \<subseteq> jobs_of (tu_uv t r)"
  shows "all_jobs t' = all_jobs t - del"
proof -
  have "jobs_of ju = {}" if "ju_is_empty ju" using that by (simp add: ju_is_empty_def jobs_of_def)
  then have "all_jobs t' = jobs_of ju \<union> other_jobs t' u"
    using all_jobs_split [of t' u] u uv en by (auto split: if_splits)
  moreover have "other_jobs t' u = other_jobs t u"
  proof (rule other_jobs_cong)
    fix v x assume "v \<noteq> u" "entry_of t v = Some x"
    then have "x \<noteq> r" using u entry_of_inj [OF tab_wfD(1) [OF wf]] by blast
    then show "jobs_of (tu_uv t' x) = jobs_of (tu_uv t x)" using uv by simp
  qed (use en in \<open>simp split: if_splits\<close>)
  moreover have "other_jobs t u \<inter> del = {}"
    using jobs_of_entry [OF wf] jobs_of_entry [OF wf u] del(2) by (fastforce simp: other_jobs_def)
  ultimately show ?thesis using all_jobs_split [of t u] u del by auto
qed

lemma tu_finish_trigger_inv:
  assumes inv: "tab_inv w t" and u: "entry_of t u = Some r" and tr: "ju_trigger (tu_uv t r) = Some j"
  shows "\<exists>d t' w'. tu_finish_trigger u res (t, w) = Some (d, t', w') \<and> tab_inv w' t' \<and> only_unit u w w' \<and>
    all_jobs t' = all_jobs t - set_option d \<and>
    (d = None \<and> stage_of w' j = Running \<or> d = Some j \<and> stage_of w' j = End res) \<and>
    (d = None \<longleftrightarrow> res = Done \<and> kind_of w j = Restart \<and> j_run_kind (jw_job w j) = Stop)"
proof -
  note wf = tab_invD(1) [OF inv] and sy = tab_invD(3) [OF inv u]
  have un: "ju_unit (tu_uv t r) = u" by (rule tab_wfD(4) [OF wf u])
  obtain d ju w' where f: "finish_trigger res (tu_uv t r, w) = Some (d, ju, w')" "ju_inv w' ju"
    "ju_suspends ju = ju_suspends (tu_uv t r)" "ju_unit ju = u" "ju_up_ready ju = ju_up_ready (tu_uv t r)"
    "ju_order ju" "only_unit u w w'"
    "d = None \<and> ju_trigger ju = Some j \<and> stage_of w' j = Running \<or>
     d = Some j \<and> ju_trigger ju = None \<and> stage_of w' j = End res"
    "d = None \<longleftrightarrow> res = Done \<and> kind_of w j = Restart \<and> j_run_kind (jw_job w j) = Stop"
    using finish_trigger_total [OF tab_wfD(3) [OF wf u] _ tr, of res] sy un unfolding synced_def by blast
  have c: "\<not> is_suspends_conflict ju" using tab_wfD(5) [OF wf u] same_suspends_conflict [OF f(3)] by simp
  let ?i = "install u r ju t"
  note iw = install_wf [OF wf u f(7,2,4,5) c]
  have fe: "finish_entry u r res (t, w) = Some (d, ?i, w')"
    using f(1) sy by (simp add: finish_entry_def install_def Let_def synced_def)
  have ue: "entry_of ?i u = Some r" using u same_frame_entry [OF iw(2)] by simp
  have "synced_or_empty (tu_uv ?i r)" using f(6) by (simp add: iw(3) synced_or_empty_def)
  from gc_spec [OF iw(1) ue this] obtain t' where g: "try_gc_empty_unit u r ?i = Some t'" "tab_wf w' t'"
    "tu_uv t' = tu_uv ?i" "tu_sync t' = tu_sync ?i"
    "entry_of t' = (if ju_is_empty (tu_uv ?i r) then (entry_of ?i)(u := None) else entry_of ?i)" by blast
  have en: "entry_of t' = (if ju_is_empty ju then (entry_of t)(u := None) else entry_of t)"
    using g(5) iw(3) same_frame_entry [OF iw(2)] by simp
  have "synced (tu_uv t' x)" if "entry_of t' v = Some x" for v x
  proof (cases "x = r")
    case True
    then have "\<not> ju_is_empty ju"
      using that en u entry_of_inj [OF tab_wfD(1) [OF wf]] by (auto split: if_splits)
    then show ?thesis using True g(3) iw(3) f(6) synced_clean by simp
  next
    case False
    then show ?thesis using that en g(3) iw(3) tab_invD(3) [OF inv] by (auto split: if_splits)
  qed
  then have "tab_inv w' t'"
    using g(2,4) iw(2) tab_invD(2) [OF inv] by (simp add: tab_inv_def same_frame_def)
  moreover have "all_jobs t' = all_jobs t - set_option d"
  proof (rule all_jobs_change [OF wf u])
    show "tu_uv t' = (tu_uv t)(r := clean ju)" using g(3) iw(3) by simp
    show "entry_of t' = (if ju_is_empty (clean ju) then (entry_of t)(u := None) else entry_of t)" using en by simp
    have "j \<notin> ran (map_of (ju_suspends (tu_uv t r)))"
      using trigger_not_suspended(1) [OF _ tr, of w] tab_wfD(3) [OF wf u] by (simp add: ju_inv_def)
    then show "jobs_of (clean ju) = jobs_of (tu_uv t r) - set_option d"
      using f(3,8) tr by (auto simp: jobs_of_def)
    show "set_option d \<subseteq> jobs_of (tu_uv t r)" using f(8) tr by (auto simp: jobs_of_def)
  qed
  moreover have "tu_finish_trigger u res (t, w) = Some (d, t', w')"
    using fe g(1) tab_invD(2) [OF inv] u tr by (simp add: tu_finish_trigger_def entry_of_def)
  ultimately show ?thesis using f(7,8,9) by blast
qed

section \<open>Triggering a ready unit\<close>

lemma next_order_total:
  assumes "ju_inv w ju" "ju_inv w ou" "ju_ready ju" "ju_order ou"
    and "atom = UnitAtomAfter \<or> atom = UnitAtomBefore"
  shows "\<exists>b. is_next_trigger_order_with w ju ou atom = Some b"
proof -
  obtain j where "get_next_trigger ju = Some j" "j \<in> jobs_of ju"
    using next_trigger_stop_first [OF assms(1,3)] by blast
  from next_order_with [OF assms(1-4) this] assms(5) show ?thesis by blast
qed

definition entries_ordered :: "'w jworld \<Rightarrow> job_unit_table \<Rightarrow> bool" where
  "entries_ordered w t \<longleftrightarrow> (\<forall>v x. entry_of t v = Some x \<longrightarrow> ju_inv w (tu_uv t x) \<and> ju_order (tu_uv t x))"

lemma runnable_scan_total:
  assumes "entries_ordered w t" and "ju_inv w ju" "ju_ready ju"
    and "atom = UnitAtomAfter \<or> atom = UnitAtomBefore"
  shows "\<exists>b. runnable_scan w t ju atom vs = Some b"
proof (induction vs)
  case (Cons v vs)
  then obtain b where b: "runnable_scan w t ju atom vs = Some b" by blast
  show ?case
  proof (cases "entry_of t v")
    case None
    then show ?thesis using b by (simp add: entry_of_def)
  next
    case (Some x)
    then have "ju_inv w (tu_uv t x)" "ju_order (tu_uv t x)" using assms(1) by (auto simp: entries_ordered_def)
    then obtain c where "is_next_trigger_order_with w ju (tu_uv t x) atom = Some c"
      using next_order_total [OF assms(2) _ assms(3) _ assms(4)] by blast
    then show ?thesis using Some b by (simp add: entry_of_def ex_bool_eq)
  qed
qed (simp add: ex_bool_eq)

lemma is_uv_runnable_total:
  assumes "entries_ordered w t" and "ju_inv w ju" "ju_ready ju"
  shows "\<exists>b. is_uv_runnable D w t ju = Some b"
proof -
  obtain a where a: "runnable_scan w t ju UnitAtomAfter (D (ju_unit ju) UnitAtomAfter) = Some a"
    using runnable_scan_total [OF assms] by blast
  obtain b where b: "runnable_scan w t ju UnitAtomBefore (D (ju_unit ju) UnitAtomBefore) = Some b"
    using runnable_scan_total [OF assms] by blast
  show ?thesis using a b by (simp add: is_uv_runnable_def ex_bool_eq)
qed

text \<open>A popped entry, before it is triggered: ready, but in no container.\<close>

lemma popped_wf:
  assumes inv: "tab_inv w t" and v: "ready_view t u = Some r" and s: "up_ready_set r False t t1"
  shows "tab_wf w t1" and "entry_of t1 u = Some r" and "entries_ordered w t1"
    and "ju_ready (tu_uv t1 r)" "\<not> ju_dirty (tu_uv t1 r)" "\<not> ju_up_ready (tu_uv t1 r)"
    and "\<And>x. jobs_of (tu_uv t1 x) = jobs_of (tu_uv t x)" and "tu_sync t1"
proof -
  note wf = tab_invD(1) [OF inv]
  have u: "entry_of t u = Some r" "ju_up_ready (tu_uv t r)"
    using v ready_view_iff [OF tab_wfD(1) [OF wf]] by auto
  have fr: "same_frame t t1" and uv: "tu_uv t1 = (tu_uv t)(r := (tu_uv t r)\<lparr>ju_up_ready := False\<rparr>)"
    and rw: "ready_wf t1" using s by (simp_all add: up_ready_set_def)
  have en: "entry_of t1 = entry_of t" by (rule same_frame_entry [OF fr])
  have cf: "is_suspends_conflict (tu_uv t1 x) = is_suspends_conflict (tu_uv t x)" for x
    by (rule same_suspends_conflict) (simp add: uv)
  have iv: "ju_inv w (tu_uv t1 x) = ju_inv w (tu_uv t x)" for x by (simp add: uv)
  show "tab_wf w t1"
    using rw cf iv en fr wf by (simp add: tab_wf_def same_frame_def)
  show "entry_of t1 u = Some r" using en u by simp
  show "entries_ordered w t1"
    using tab_wfD(3) [OF wf] tab_invD(3) [OF inv] by (simp add: entries_ordered_def en iv) (simp add: uv synced_def)
  show "ju_ready (tu_uv t1 r)" "\<not> ju_dirty (tu_uv t1 r)" "\<not> ju_up_ready (tu_uv t1 r)"
    using tab_invD(3) [OF inv u(1)] u(2) by (simp_all add: uv synced_def)
  show "jobs_of (tu_uv t1 x) = jobs_of (tu_uv t x)" for x by (simp add: uv jobs_of_def)
  show "tu_sync t1" using fr tab_invD(2) [OF inv] by (simp add: same_frame_def)
qed

lemma only_unit_trigger:
  assumes core: "ju_core w ju" and "ju_unit ju = u" and "j \<in> jobs_of ju" and "set_option m \<subseteq> jobs_of ju"
    and "jw_job w' j = (jw_job w j)\<lparr>j_attr := a, j_stage := Running\<rparr>"
    and "\<forall>t. m = Some t \<longrightarrow> jw_job w' t = (jw_job w t)\<lparr>j_stage := End Merged\<rparr>"
    and "\<forall>k. k \<noteq> j \<longrightarrow> m \<noteq> Some k \<longrightarrow> jw_job w' k = jw_job w k"
  shows "only_unit u w w'"
  unfolding only_unit_def
proof (intro conjI allI impI)
  have un: "j_unit (jw_job w i) = u" if "i \<in> jobs_of ju" for i using jobs_of_unit [OF core that] assms(2) by simp
  fix i
  consider "i = j" | "m = Some i" | "i \<noteq> j" "m \<noteq> Some i" by blast
  then show "j_unit (jw_job w' i) = j_unit (jw_job w i)" using assms(5-7) by cases simp_all
  assume "j_unit (jw_job w i) \<noteq> u"
  then have "i \<notin> jobs_of ju" using un by blast
  then show "jw_job w' i = jw_job w i" using assms(3,4,7) by auto
qed

text \<open>What one attempt does to the chosen entry.\<close>

definition tried :: "'w jworld \<Rightarrow> job_unit \<Rightarrow> (job_info \<times> job_result option) option \<Rightarrow> job_id option \<Rightarrow>
    job_unit \<Rightarrow> 'w jworld \<Rightarrow> bool" where
  "tried w ju info m ju' w' \<longleftrightarrow>
     (case info of
        None \<Rightarrow> m = None \<and> ju_pause ju' \<and> ju_trigger ju' = ju_trigger ju \<and>
          ju_suspends ju' = ju_suspends ju \<and> w' = w
      | Some (ji, _) \<Rightarrow> (\<exists>j. ju_trigger ju' = Some j \<and> j \<in> jobs_of ju \<and> stage_of w' j = Running \<and>
          ji = job_info_map (jw_job w j) \<and> set_option m \<subseteq> set_option (ju_trigger ju) - {j} \<and>
          (\<forall>i \<in> set_option m. stage_of w' i = End Merged)))"

lemma tried_cong:
  "jobs_of a = jobs_of b \<Longrightarrow> ju_trigger a = ju_trigger b \<Longrightarrow> ju_suspends a = ju_suspends b \<Longrightarrow>
     tried w a = tried w b"
  by (intro ext) (simp add: tried_def split: option.split prod.split)

lemma try_trigger_entry_inv:
  assumes wf: "tab_wf w t" and u: "entry_of t u = Some r" and eo: "entries_ordered w t"
    and ju: "ju_ready (tu_uv t r)" "\<not> ju_dirty (tu_uv t r)" "\<not> ju_up_ready (tu_uv t r)"
  shows "\<exists>info m ju w'. try_trigger_entry U D r (t, w) = Some (info, m, set_uv r ju t, w') \<and>
    ju_inv w' ju \<and> ju_unit ju = u \<and> ju_order ju \<and> \<not> ju_ready ju \<and> \<not> ju_dirty ju \<and> \<not> ju_up_ready ju \<and>
    \<not> ju_is_empty ju \<and> \<not> is_suspends_conflict ju \<and> only_unit u w w' \<and>
    jobs_of ju = jobs_of (tu_uv t r) - set_option m \<and> set_option m \<subseteq> jobs_of (tu_uv t r) \<and>
    tried w (tu_uv t r) info m ju w'"
proof -
  let ?e = "tu_uv t r"
  have inv: "ju_inv w ?e" and un: "ju_unit ?e = u" using tab_wfD(3,4) [OF wf u] by simp_all
  have core: "ju_core w ?e" using inv by (simp add: ju_inv_def)
  obtain b where b: "is_uv_runnable D w t ?e = Some b" using is_uv_runnable_total [OF eo inv ju(1)] by blast
  show ?thesis
  proof (cases b)
    case True
    obtain info m ju1 w' where d: "do_trigger U (?e, w) = Some (info, m, ju1, w')"
      "trigger_outcome w ?e info m ju1 w'"
      using do_trigger_total [OF inv ju(1)] by blast
    obtain j a where o: "ju_inv w' ju1" "\<not> ju_ready ju1" "ju_order ju1" "ju_trigger ju1 = Some j"
      "ju_unit ju1 = u" "ju_up_ready ju1 = ju_up_ready ?e" "fst info = job_info_map (jw_job w j)"
      "j \<in> jobs_of ?e" "jw_job w' j = (jw_job w j)\<lparr>j_attr := a, j_stage := Running\<rparr>"
      "jobs_of ju1 = jobs_of ?e - set_option m" "set_option m \<subseteq> set_option (ju_trigger ?e) - {j}"
      "\<forall>t. m = Some t \<longrightarrow> jw_job w' t = (jw_job w t)\<lparr>j_stage := End Merged\<rparr>"
      "\<forall>k. k \<noteq> j \<longrightarrow> m \<noteq> Some k \<longrightarrow> jw_job w' k = jw_job w k"
      using d(2) un unfolding trigger_outcome_def by blast
    have m: "set_option m \<subseteq> jobs_of ?e" using o(11) by (auto simp: jobs_of_def)
    have ou: "only_unit u w w'" by (rule only_unit_trigger [OF core un o(8) m o(9,12,13)])
    have cf: "\<not> is_suspends_conflict ju1" using o(1,3) by (simp add: ju_inv_def ju_ordered_def)
    let ?j = "ju_clear_dirty ju1"
    have "tried w ?e (Some info) m ?j w'"
      using o by (cases info) (auto simp: tried_def ju_clear_dirty_def)
    moreover have "jobs_of ?j = jobs_of ju1" by (simp add: ju_clear_dirty_def jobs_of_def)
    moreover have "is_suspends_conflict ?j = is_suspends_conflict ju1"
      by (rule same_suspends_conflict) (simp add: ju_clear_dirty_def)
    moreover have "try_trigger_entry U D r (t, w) = Some (Some info, m, set_uv r ?j t, w')"
      using ju(2) b True d(1) o(2) by (simp add: try_trigger_entry_def)
    ultimately show ?thesis
      using o(1-6,10) m ou cf ju(3)
      by (intro exI [of _ "Some info"] exI [of _ m] exI [of _ ?j] exI [of _ w'])
        (simp add: ju_clear_dirty_def ju_is_empty_def)
  next
    case False
    have ord: "ju_order ?e" using eo u by (simp add: entries_ordered_def)
    let ?p = "with_ready (?e\<lparr>ju_dirty := True, ju_pause := True\<rparr>)"
    let ?j = "ju_clear_dirty ?p"
    have p: "ju_set_pause ?e = Some ?p" by (rule ju_set_pause_total [OF inv ord])
    have pi: "ju_inv w ?p" by (rule ju_inv_pause_flags [OF inv])
    have nr: "\<not> ju_ready ?p" by (simp add: ready_of_def)
    have "try_trigger_entry U D r (t, w) = Some (None, None, set_uv r ?j t, w)"
      using ju(2) b False p nr by (simp add: try_trigger_entry_def)
    moreover have "tried w ?e None None ?j w" by (simp add: tried_def ju_clear_dirty_def)
    moreover have "jobs_of ?j = jobs_of ?e" by (simp add: ju_clear_dirty_def jobs_of_def)
    moreover have "is_suspends_conflict ?j = is_suspends_conflict ?e"
      by (rule same_suspends_conflict) (simp add: ju_clear_dirty_def)
    moreover have "\<not> ju_is_empty ?e"
    proof
      assume "ju_is_empty ?e"
      with empty_not_ready [OF inv ord] ju(1) show False by simp
    qed
    ultimately show ?thesis
      using pi nr un ord ju(3) tab_wfD(5) [OF wf u]
      by (intro exI [of _ None] exI [of _ None] exI [of _ ?j] exI [of _ w])
        (simp add: ju_clear_dirty_def ju_is_empty_def)
  qed
qed

text \<open>The unit an attempt is about: the named one if it is ready, or the greatest ready one.\<close>

definition picks :: "unit_id option \<Rightarrow> job_unit_table \<Rightarrow> unit_id option" where
  "picks uo t =
     (case uo of
        Some u \<Rightarrow> (if ready_view t u = None then None else Some u)
      | None \<Rightarrow> (if ready_view t = Map.empty then None else Some (Max (dom (ready_view t)))))"

lemma ready_pop_picks_none:
  assumes inv: "tab_inv w t" and "picks uo t = None"
  shows "\<exists>t'. ready_pop uo t = (None, t') \<and> same_frame t t' \<and> tu_uv t' = tu_uv t \<and> ready_wf t'"
proof -
  note rw = tab_wfD(1) [OF tab_invD(1) [OF inv]]
  show ?thesis
  proof (cases uo)
    case None
    then have e: "ready_view t = Map.empty" using assms(2) by (simp add: picks_def split: if_splits)
    have "readys_fill t = t" using ready_pop_last_none(2,3) [OF rw e] by (simp add: readys_fill_def)
    then show ?thesis using ready_pop_last_none(1) [OF rw e] None rw by simp
  next
    case (Some u)
    then have "ready_view t u = None" using assms(2) by (simp add: picks_def split: if_splits)
    then show ?thesis
      using ready_pop_named_none [OF rw] readys_backfill_spec [OF rw] Some by auto
  qed
qed

lemma ready_pop_picks_some:
  assumes inv: "tab_inv w t" and "picks uo t = Some u"
  shows "\<exists>r t'. ready_pop uo t = (Some r, t') \<and> ready_view t u = Some r \<and> up_ready_set r False t t'"
proof -
  note rw = tab_wfD(1) [OF tab_invD(1) [OF inv]]
  show ?thesis
  proof (cases uo)
    case None
    then have "ready_view t \<noteq> Map.empty" "u = Max (dom (ready_view t))"
      using assms(2) by (simp_all add: picks_def split: if_splits)
    then show ?thesis using ready_pop_last_some [OF rw] None by blast
  next
    case (Some v)
    then obtain r where "v = u" "ready_view t u = Some r" using assms(2) by (auto simp: picks_def split: if_splits)
    then show ?thesis using ready_pop_named_some [OF rw] Some by blast
  qed
qed

lemma tab_inv_frame:
  assumes "tab_inv w t" and "same_frame t t'" "tu_uv t' = tu_uv t" "ready_wf t'"
  shows "tab_inv w t'"
  using assms same_frame_entry [OF assms(2)] by (simp add: tab_inv_def tab_wf_def same_frame_def)

lemma ready_view_of_inv:
  assumes "tab_inv w t"
  shows "ready_view t u = Some r \<longleftrightarrow> entry_of t u = Some r \<and> ju_ready (tu_uv t r)"
  using ready_view_iff [OF tab_wfD(1) [OF tab_invD(1) [OF assms]], of u r] tab_invD(3) [OF assms, of u r]
  by (auto simp: synced_def)

lemma map_remove_eqI:
  assumes "\<And>v x. f v = Some x \<longleftrightarrow> v \<noteq> u \<and> g v = Some x"
  shows "f = g(u := None)"
proof
  fix v
  show "f v = (g(u := None)) v"
  proof (cases "f v")
    case None
    then show ?thesis using assms [of v] by (cases "g v") auto
  next
    case (Some x)
    then show ?thesis using assms [of v x] by simp
  qed
qed

lemma do_try_trigger_none:
  assumes "tab_inv w t" and "picks uo t = None"
  shows "\<exists>t'. do_try_trigger U D uo (t, w) = Some (None, t', w) \<and> tab_inv w t' \<and> tu_uv t' = tu_uv t \<and>
    same_frame t t'"
  using ready_pop_picks_none [OF assms] tab_inv_frame [OF assms(1)] tab_invD(2) [OF assms(1)]
  by (auto simp: do_try_trigger_def)

lemma do_try_trigger_some:
  assumes inv: "tab_inv w t" and pk: "picks uo t = Some u"
  shows "\<exists>info m r t' w'. do_try_trigger U D uo (t, w) = Some (Some (info, m), t', w') \<and> tab_inv w' t' \<and>
    entry_of t u = Some r \<and> entry_of t' = entry_of t \<and> (\<forall>x. x \<noteq> r \<longrightarrow> tu_uv t' x = tu_uv t x) \<and>
    ready_view t' = (ready_view t)(u := None) \<and> all_jobs t' = all_jobs t - set_option m \<and>
    only_unit u w w' \<and> tried w (tu_uv t r) info m (tu_uv t' r) w'"
proof -
  obtain r t1 where p: "ready_pop uo t = (Some r, t1)" "ready_view t u = Some r" "up_ready_set r False t t1"
    using ready_pop_picks_some [OF inv pk] by blast
  note pw = popped_wf [OF inv p(2,3)]
  have uv1: "tu_uv t1 = (tu_uv t)(r := (tu_uv t r)\<lparr>ju_up_ready := False\<rparr>)" and fr: "same_frame t t1"
    using p(3) by (simp_all add: up_ready_set_def)
  have en: "entry_of t1 = entry_of t" by (rule same_frame_entry [OF fr])
  have u: "entry_of t u = Some r" using pw(2) en by simp
  obtain info m ju w' where e: "try_trigger_entry U D r (t1, w) = Some (info, m, set_uv r ju t1, w')"
    "ju_inv w' ju" "ju_unit ju = u" "ju_order ju" "\<not> ju_ready ju" "\<not> ju_dirty ju" "\<not> ju_up_ready ju"
    "\<not> ju_is_empty ju" "\<not> is_suspends_conflict ju" "only_unit u w w'"
    "jobs_of ju = jobs_of (tu_uv t1 r) - set_option m" "set_option m \<subseteq> jobs_of (tu_uv t1 r)"
    "tried w (tu_uv t1 r) info m ju w'"
    using try_trigger_entry_inv [OF pw(1-6)] by blast
  let ?t = "set_uv r ju t1"
  have wf: "tab_wf w' ?t"
    by (rule tab_wf_set_uv [OF pw(1,2) e(10,2,3) _ e(9)]) (use pw(6) e(7) in simp)
  have "synced (tu_uv ?t x)" if v: "entry_of t v = Some x" for v x
    using e(4-8) tab_invD(3) [OF inv v] by (cases "x = r") (simp_all add: uv1 synced_def)
  then have inv': "tab_inv w' ?t" using wf pw(8) en by (simp add: tab_inv_def)
  have "ready_view ?t = (ready_view t)(u := None)"
  proof (rule map_remove_eqI)
    fix v x
    show "ready_view ?t v = Some x \<longleftrightarrow> v \<noteq> u \<and> ready_view t v = Some x"
    proof (cases "v = u")
      case True
      then show ?thesis using ready_view_of_inv [OF inv', of v x] u en e(5) by auto
    next
      case False
      then have "entry_of t v = Some x \<Longrightarrow> x \<noteq> r"
        using u entry_of_inj [OF tab_wfD(1) [OF tab_invD(1) [OF inv]]] by blast
      then show ?thesis
        using False ready_view_of_inv [OF inv', of v x] ready_view_of_inv [OF inv, of v x] en
        by (auto simp: uv1)
    qed
  qed
  moreover have "all_jobs ?t = all_jobs t1 - set_option m"
    by (rule all_jobs_change [OF pw(1,2) _ _ e(11,12)]) (use e(8) in \<open>simp_all add: entry_of_def\<close>)
  moreover have "all_jobs t1 = all_jobs t" using en pw(7) by (simp add: all_jobs_def)
  moreover have "tried w (tu_uv t r) info m ju w'"
    using e(13) tried_cong [of "tu_uv t1 r" "tu_uv t r" w] pw(7) [of r] by (simp add: uv1)
  moreover have "do_try_trigger U D uo (t, w) = Some (Some (info, m), ?t, w')"
    using tab_invD(2) [OF inv] p(1) e(1,8) by (simp add: do_try_trigger_def)
  ultimately show ?thesis
    using inv' u en e(10) by (intro exI [of _ info] exI [of _ m] exI [of _ r] exI [of _ ?t] exI [of _ w'])
      (simp add: uv1)
qed

section \<open>Properties of a synchronised table\<close>

text \<open>
  (C5) Triggering from the table. On a table that satisfies its invariant, \<open>try_trigger\<close> never panics,
  whatever the dependencies and whatever the unit answers. It reports nothing exactly if nothing (or
  not the named unit) is ready; otherwise it takes that unit, the greatest ready one if none is named,
  and either runs one of its jobs or, if order forbids it, pauses the unit. The unit leaves the ready
  containers, the other ready units stay, no other unit's entry or job changes, the index loses exactly
  the interrupted job, and the invariant holds again.
\<close>

theorem try_trigger_correct:
  assumes "jt_inv w T"
  shows "\<exists>ret T' w'. jt_try_trigger U D uo (T, w) = Some (ret, T', w') \<and> jt_inv w' T' \<and>
    (case picks uo (jt_unit T) of
       None \<Rightarrow> ret = None \<and> w' = w \<and> jt_id T' = jt_id T
     | Some u \<Rightarrow> \<exists>info m r. ret = Some (info, m) \<and> entry_of (jt_unit T) u = Some r \<and>
         ready_view (jt_unit T') = (ready_view (jt_unit T))(u := None) \<and>
         jt_id T' = jt_id T - set_option m \<and> only_unit u w w' \<and>
         (\<forall>x. x \<noteq> r \<longrightarrow> tu_uv (jt_unit T') x = tu_uv (jt_unit T) x) \<and>
         tried w (tu_uv (jt_unit T) r) info m (tu_uv (jt_unit T') r) w')"
proof -
  have inv: "tab_inv w (jt_unit T)" and ids: "jt_id T = all_jobs (jt_unit T)"
    using assms by (simp_all add: jt_inv_def)
  show ?thesis
  proof (cases "picks uo (jt_unit T)")
    case None
    obtain t' where t': "do_try_trigger U D uo (jt_unit T, w) = Some (None, t', w)" "tab_inv w t'"
      "tu_uv t' = tu_uv (jt_unit T)" "same_frame (jt_unit T) t'"
      using do_try_trigger_none [OF inv None] by blast
    have "all_jobs t' = all_jobs (jt_unit T)" using t'(3) same_frame_entry [OF t'(4)] by (simp add: all_jobs_def)
    then show ?thesis using None t'(1,2) ids by (simp add: jt_try_trigger_def jt_inv_def)
  next
    case (Some u)
    from do_try_trigger_some [OF inv Some, of U D] obtain info m r t' w' where
      t': "do_try_trigger U D uo (jt_unit T, w) = Some (Some (info, m), t', w')" "tab_inv w' t'"
      "entry_of (jt_unit T) u = Some r" "\<forall>x. x \<noteq> r \<longrightarrow> tu_uv t' x = tu_uv (jt_unit T) x"
      "ready_view t' = (ready_view (jt_unit T))(u := None)"
      "all_jobs t' = all_jobs (jt_unit T) - set_option m" "only_unit u w w'"
      "tried w (tu_uv (jt_unit T) r) info m (tu_uv t' r) w'" by blast
    let ?T = "T\<lparr>jt_id := jt_id T - set_option m, jt_unit := t'\<rparr>"
    have "jt_try_trigger U D uo (T, w) = Some (Some (info, m), ?T, w')"
      using t'(1) by (cases m) (simp_all add: jt_try_trigger_def)
    then show ?thesis
      using t' ids Some by (intro exI [of _ "Some (info, m)"] exI [of _ ?T] exI [of _ w']) (simp add: jt_inv_def)
  qed
qed

text \<open>
  (C6) Finishing in the table. For a unit with a triggered job, \<open>finish_trigger\<close> never panics. The job
  ends with the given result and leaves the index, unless it is a restart whose stop half is done, which
  stays triggered. An entry that has become empty is collected. No wake-up is lost: afterwards no
  unit ordered before or after this one is paused, so each of them will be tried again. The invariant
  holds.
\<close>

theorem table_finish_trigger_correct:
  assumes "jt_inv w T" and "tu_get_trigger_info (jt_unit T) u = Some (j, p)"
  shows "\<exists>d T' w'. jt_finish_trigger D u res (T, w) = Some (d, T', w') \<and> jt_inv w' T' \<and> only_unit u w w' \<and>
    jt_id T' = jt_id T - set_option d \<and>
    (d = None \<and> stage_of w' j = Running \<or> d = Some j \<and> stage_of w' j = End res) \<and>
    (d = None \<longleftrightarrow> res = Done \<and> kind_of w j = Restart \<and> j_run_kind (jw_job w j) = Stop) \<and>
    (\<forall>v r. v \<in> set (D u UnitAtomAfter) \<union> set (D u UnitAtomBefore) \<longrightarrow>
       entry_of (jt_unit T') v = Some r \<longrightarrow> \<not> ju_pause (tu_uv (jt_unit T') r))"
proof -
  have inv: "tab_inv w (jt_unit T)" and ids: "jt_id T = all_jobs (jt_unit T)"
    using assms(1) by (simp_all add: jt_inv_def)
  obtain r where r: "entry_of (jt_unit T) u = Some r" "ju_trigger (tu_uv (jt_unit T) r) = Some j"
    using assms(2) by (auto simp: tu_get_trigger_info_def entry_of_def split: option.splits)
  obtain d t1 w' where f: "tu_finish_trigger u res (jt_unit T, w) = Some (d, t1, w')" "tab_inv w' t1"
    "only_unit u w w'" "all_jobs t1 = all_jobs (jt_unit T) - set_option d"
    "d = None \<and> stage_of w' j = Running \<or> d = Some j \<and> stage_of w' j = End res"
    "d = None \<longleftrightarrow> res = Done \<and> kind_of w j = Restart \<and> j_run_kind (jw_job w j) = Stop"
    using tu_finish_trigger_inv [OF inv r] by blast
  define T1 where "T1 = T\<lparr>jt_id := jt_id T - set_option d, jt_unit := t1\<rparr>"
  have "tab_inv w' (jt_unit T1)" using f(2) by (simp add: T1_def)
  from process_relation_inv [OF this, of D u "d \<noteq> None"] obtain T' where
    T': "process_relation D u (d \<noteq> None) T1 = Some T'" "jt_id T' = jt_id T1"
    "resumed w' (jt_unit T1) (jt_unit T')"
    "\<forall>v r. v \<in> set (D u UnitAtomAfter) \<union> set (D u UnitAtomBefore) \<longrightarrow> entry_of (jt_unit T1) v = Some r \<longrightarrow>
       \<not> ju_pause (tu_uv (jt_unit T') r)" by blast
  have en: "entry_of (jt_unit T') = entry_of (jt_unit T1)" and i': "tab_inv w' (jt_unit T')"
    using T'(3) same_frame_entry by (auto simp: resumed_def)
  have "jt_inv w' T'"
    using i' T'(2) resumed_jobs [OF T'(3)] f(4) ids by (simp add: jt_inv_def T1_def)
  moreover have "T\<lparr>jt_id := (case d of Some i \<Rightarrow> jt_id T - {i} | None \<Rightarrow> jt_id T), jt_unit := t1\<rparr> = T1"
    by (cases d) (simp_all add: T1_def)
  then have "jt_finish_trigger D u res (T, w) = Some (d, T', w')"
    using assms(2) f(1) T'(1) by (simp add: jt_finish_trigger_def)
  moreover have "jt_id T' = jt_id T - set_option d" using T'(2) by (simp add: T1_def)
  moreover note T'(4) [folded en]
  ultimately show ?thesis using f(3,5,6) by blast
qed

section \<open>Instances\<close>

definition demo_table :: "job_id set \<Rightarrow> job_unit \<Rightarrow> job_table" where
  "demo_table ids ju = \<lparr>jt_id = ids, jt_unit = job_unit_table_new\<lparr>tu_data := [(''a'', 0)],
     tu_ready := (if ju_up_ready ju then [(''a'', 0)] else []), tu_uv := (\<lambda>_. ju), tu_next := 1\<rparr>\<rparr>"

lemma demo_table_inv:
  assumes "ju_inv w ju" "synced ju" "ju_unit ju = ''a''" "\<not> is_suspends_conflict ju"
  shows "jt_inv w (demo_table (jobs_of ju) ju)"
proof -
  let ?t = "jt_unit (demo_table (jobs_of ju) ju)"
  have en: "entry_of ?t u = Some r \<longleftrightarrow> u = ''a'' \<and> r = 0" for u r
    by (auto simp: entry_of_def demo_table_def split: if_splits)
  have "ready_wf ?t"
    unfolding ready_wf_def en
    using assms(3) by (simp add: demo_table_def ready_abs_def bt_sorted_def job_unit_table_new_def)
  then show ?thesis
    using assms by (auto simp: jt_inv_def tab_inv_def tab_wf_def en all_jobs_def)
      (auto simp: demo_table_def job_unit_table_new_def)
qed

theorem try_trigger_correct_witness:
  "\<exists>info m T' w'. jt_try_trigger demo_ops (\<lambda>_ _. []) None
       (demo_table {0} ((demo_entry [(Start, 0)])\<lparr>ju_order := True, ju_sq := [0], ju_ready := True, ju_up_ready := True\<rparr>),
        demo_world (demo_jobs [Start] Wait)) = Some (Some (info, m), T', w') \<and>
     ready_view (jt_unit T') ''a'' = None"
proof -
  let ?ju = "(demo_entry [(Start, 0)])\<lparr>ju_order := True, ju_sq := [0], ju_ready := True, ju_up_ready := True\<rparr>"
  let ?w = "demo_world (demo_jobs [Start] Wait)" and ?T = "demo_table {0} ?ju"
  have j: "jobs_of ?ju = {0}" by (simp add: jobs_of_def demo_entry_def job_unit_new_def)
  have "ju_inv ?w ?ju" "synced ?ju" "ju_unit ?ju = ''a''" "\<not> is_suspends_conflict ?ju"
    by (simp_all add: ju_inv_def ju_ordered_def ready_of_def queue_of_def one_mutop_def synced_def
        ju_is_empty_def demo_entry_defs)
  from demo_table_inv [OF this] have inv: "jt_inv ?w ?T" by (simp add: j)
  have v: "ready_view (jt_unit ?T) = [''a'' \<mapsto> 0]"
    by (simp add: ready_view_def ready_abs_def demo_table_def job_unit_table_new_def)
  then have "picks None (jt_unit ?T) = Some ''a''" by (simp add: picks_def)
  with try_trigger_correct [OF inv, of demo_ops "\<lambda>_ _. []" None] show ?thesis by fastforce
qed

theorem table_finish_trigger_correct_witness:
  "\<exists>T' w'. jt_finish_trigger (\<lambda>_ _. []) ''a'' Failed
       (demo_table {0} ((demo_entry [])\<lparr>ju_order := True, ju_trigger := Some 0\<rparr>),
        demo_world (demo_jobs [Restart] Running)) = Some (Some 0, T', w') \<and>
     stage_of w' 0 = End Failed \<and> jt_id T' = {}"
proof -
  let ?ju = "(demo_entry [])\<lparr>ju_order := True, ju_trigger := Some 0\<rparr>"
  let ?w = "demo_world (demo_jobs [Restart] Running)" and ?T = "demo_table {0} ?ju"
  have j: "jobs_of ?ju = {0}" by (simp add: jobs_of_def demo_entry_def job_unit_new_def)
  have "ju_inv ?w ?ju" "synced ?ju" "ju_unit ?ju = ''a''" "\<not> is_suspends_conflict ?ju"
    by (simp_all add: ju_inv_def ju_ordered_def ready_of_def queue_of_def one_mutop_def synced_def
        ju_is_empty_def demo_entry_defs)
  from demo_table_inv [OF this] have inv: "jt_inv ?w ?T" by (simp add: j)
  have "tu_get_trigger_info (jt_unit ?T) ''a'' = Some (0, False)"
    by (simp add: tu_get_trigger_info_def demo_table_def demo_entry_def job_unit_new_def)
  from table_finish_trigger_correct [OF inv this, of "\<lambda>_ _. []" Failed]
  obtain d T' w' where "jt_finish_trigger (\<lambda>_ _. []) ''a'' Failed (?T, ?w) = Some (d, T', w')"
    "jt_id T' = jt_id ?T - set_option d" "d = Some 0 \<and> stage_of w' 0 = End Failed" by auto
  then show ?thesis by (auto simp: demo_table_def)
qed

end
