(* ===== verification/Job_Commit.thy ===== *)
theory Job_Commit
  imports Job_Table_Inv
begin

text \<open>
  Committing a transaction into the table of installed jobs (\<open>JobTable::commit\<close> of
  \<^verbatim>\<open>core/bin/job/table.rs\<close>): isolate, merge, reshuffle, resume. Between the first and the third step
  the table is not synchronised: the changed entries are dirty and not ordered (\<open>loose\<close>).
\<close>

section \<open>Tables that are not synchronised\<close>

definition loose :: "job_unit \<Rightarrow> bool" where
  "loose ju \<longleftrightarrow> (if ju_dirty ju then \<not> ju_order ju else ju_order ju \<and> ju_up_ready ju = ju_ready ju) \<and>
     \<not> (ju_interrupt ju \<and> kinds_of ju = {})"

definition tab_loose :: "'w jworld \<Rightarrow> job_unit_table \<Rightarrow> bool" where
  "tab_loose w t \<longleftrightarrow> tab_wf w t \<and> (\<forall>u r. entry_of t u = Some r \<longrightarrow> loose (tu_uv t r))"

lemma ordered_interrupt_kinds:
  assumes "ju_inv w ju" and "ju_order ju"
  shows "\<not> (ju_interrupt ju \<and> kinds_of ju = {})"
proof
  assume a: "ju_interrupt ju \<and> kinds_of ju = {}"
  then have q: "queue_of ju = []" by (simp add: kinds_of_def queue_of_def)
  have o: "ju_ordered w ju" using assms by (simp add: ju_inv_def)
  then have "ju_sq ju = []" using q by (auto simp: ju_ordered_def)
  then show False using a o by (simp add: ju_ordered_def)
qed

lemma synced_loose: "ju_inv w ju \<Longrightarrow> synced_or_empty ju \<Longrightarrow> loose ju"
  using ordered_interrupt_kinds [of w ju] by (auto simp: synced_or_empty_def loose_def)

lemma synced_synced_or_empty: "synced ju \<Longrightarrow> synced_or_empty ju"
  by (simp add: synced_def synced_or_empty_def)

lemma tab_inv_loose: "tab_inv w t \<Longrightarrow> tab_loose w t"
  using synced_loose synced_synced_or_empty tab_wfD(3) by (fastforce simp: tab_inv_def tab_loose_def)

lemma tab_loose_set_uv:
  assumes l: "tab_loose w t" and u: "entry_of t u = Some r" and o: "only_unit u w w'"
    and ju: "ju_inv w' ju" "ju_unit ju = u" "ju_up_ready ju = ju_up_ready (tu_uv t r)"
      "\<not> is_suspends_conflict ju" "loose ju"
  shows "tab_loose w' (set_uv r ju t)"
proof -
  have "tab_wf w' (set_uv r ju t)"
    by (rule tab_wf_set_uv [OF _ u o ju(1-4)]) (use l in \<open>simp add: tab_loose_def\<close>)
  moreover have "loose (tu_uv (set_uv r ju t) x)" if "entry_of t v = Some x" for v x
    using that l ju(5) by (cases "x = r") (auto simp: tab_loose_def)
  ultimately show ?thesis by (simp add: tab_loose_def)
qed

lemma tab_sync_simps [simp]:
  "entry_of (t\<lparr>tu_sync := b\<rparr>) = entry_of t" "ready_wf (t\<lparr>tu_sync := b\<rparr>) = ready_wf t"
  "all_jobs (t\<lparr>tu_sync := b\<rparr>) = all_jobs t" "tab_wf w (t\<lparr>tu_sync := b\<rparr>) = tab_wf w t"
  "tab_loose w (t\<lparr>tu_sync := b\<rparr>) = tab_loose w t"
proof -
  show e: "entry_of (t\<lparr>tu_sync := b\<rparr>) = entry_of t" by (simp add: entry_of_def)
  have "ready_abs (t\<lparr>tu_sync := b\<rparr>) = ready_abs t" by (simp add: ready_abs_def)
  then show r: "ready_wf (t\<lparr>tu_sync := b\<rparr>) = ready_wf t" by (simp add: ready_wf_def e)
  show "all_jobs (t\<lparr>tu_sync := b\<rparr>) = all_jobs t" by (simp add: all_jobs_def e)
  show w: "tab_wf w (t\<lparr>tu_sync := b\<rparr>) = tab_wf w t" by (simp add: tab_wf_def e r)
  show "tab_loose w (t\<lparr>tu_sync := b\<rparr>) = tab_loose w t" by (simp add: tab_loose_def e w)
qed

lemma only_unit_set:
  assumes "\<And>j. j_unit (jw_job w' j) = j_unit (jw_job w j)"
    and "\<And>j. j \<notin> J \<Longrightarrow> jw_job w' j = jw_job w j" and "\<And>j. j \<in> J \<Longrightarrow> j_unit (jw_job w j) = u"
  shows "only_unit u w w'"
  unfolding only_unit_def using assms by blast

lemma all_jobs_set_uv:
  assumes wf: "tab_wf w t" and u: "entry_of t u = Some r"
    and j: "jobs_of ju = (jobs_of (tu_uv t r) \<union> adds) - dels" and d: "dels \<subseteq> jobs_of (tu_uv t r)"
  shows "all_jobs (set_uv r ju t) = (all_jobs t \<union> adds) - dels"
proof -
  have "other_jobs (set_uv r ju t) u = other_jobs t u"
  proof (rule other_jobs_cong)
    fix v x assume "v \<noteq> u" "entry_of t v = Some x"
    then have "x \<noteq> r" using u entry_of_inj [OF tab_wfD(1) [OF wf]] by blast
    then show "jobs_of (tu_uv (set_uv r ju t) x) = jobs_of (tu_uv t x)" by simp
  qed simp
  moreover have "other_jobs t u \<inter> dels = {}"
    using jobs_of_entry [OF wf] jobs_of_entry [OF wf u] d by (fastforce simp: other_jobs_def)
  ultimately show ?thesis
    using all_jobs_split [of "set_uv r ju t" u] all_jobs_split [of t u] u j by auto
qed

section \<open>Isolating\<close>

lemma conflict_no_suspends: "ju_suspends ju = [] \<Longrightarrow> \<not> is_suspends_conflict ju"
  by (simp add: is_suspends_conflict_def suspends_kind_len_def has_suspend_def)

definition isolated ::
  "job_unit_table \<Rightarrow> job_unit_table \<Rightarrow> 'w jworld \<Rightarrow> job_id list \<times> 'w tu_state \<Rightarrow> bool" where
  "isolated other t0 w0 s \<longleftrightarrow> (case s of (dels, t, w) \<Rightarrow>
     tab_loose w t \<and> entry_of t = entry_of t0 \<and> tu_data t = tu_data t0 \<and>
     (\<forall>x. ju_interrupt (tu_uv t x) = ju_interrupt (tu_uv t0 x)) \<and>
     all_jobs t = all_jobs t0 - set dels \<and> set dels \<subseteq> all_jobs t0 \<and>
     (\<forall>j \<in> set dels. stage_of w j = End Cancelled \<and> map_of (tu_data other) (j_unit (jw_job w0 j)) = None) \<and>
     (\<forall>j. j_unit (jw_job w j) = j_unit (jw_job w0 j)) \<and>
     (\<forall>j. j \<notin> set dels \<longrightarrow> jw_job w j = jw_job w0 j))"

lemma jobs_of_flushed: "jobs_of (flushed ju) = set_option (ju_trigger ju)"
  by (simp add: flushed_def jobs_of_def)

lemma isolate_one_inv:
  assumes "isolated other t0 w0 s" and u: "entry_of t0 u = Some r" and ni: "\<not> ju_interrupt (tu_uv t0 r)"
  shows "\<exists>s'. isolate_one U other (u, r) s = Some s' \<and> isolated other t0 w0 s'"
proof -
  obtain dels t w where s: "s = (dels, t, w)" by (cases s)
  have i: "tab_loose w t" "entry_of t = entry_of t0" "tu_data t = tu_data t0"
    "\<forall>x. ju_interrupt (tu_uv t x) = ju_interrupt (tu_uv t0 x)"
    "all_jobs t = all_jobs t0 - set dels" "set dels \<subseteq> all_jobs t0"
    "\<forall>j \<in> set dels. stage_of w j = End Cancelled \<and> map_of (tu_data other) (j_unit (jw_job w0 j)) = None"
    "\<forall>j. j_unit (jw_job w j) = j_unit (jw_job w0 j)" "\<forall>j. j \<notin> set dels \<longrightarrow> jw_job w j = jw_job w0 j"
    using assms(1) by (simp_all add: isolated_def s)
  show ?thesis
  proof (cases "IgnoreOnIsolate (uo_config U u (jw_env w)) \<or> map_of (tu_data other) u \<noteq> None")
    case True
    then show ?thesis using assms(1) by (auto simp: isolate_one_def s)
  next
    case False
    let ?e = "tu_uv t r"
    have ut: "entry_of t u = Some r" using u i(2) by simp
    have wf: "tab_wf w t" using i(1) by (simp add: tab_loose_def)
    note inv = tab_wfD(3) [OF wf ut]
    have core: "ju_core w ?e" using inv by (simp add: ju_inv_def)
    obtain w' where f: "flush_suspends (?e, w) = Some (get_suspends ?e, flushed ?e, w')" "ju_inv w' (flushed ?e)"
      "jw_job w' = (\<lambda>j. if j \<in> set (get_suspends ?e) then (jw_job w j)\<lparr>j_stage := End Cancelled\<rparr> else jw_job w j)"
      using flush_suspends_total [OF inv] by blast
    have gs: "set (get_suspends ?e) = ran (map_of (ju_suspends ?e))"
      using set_get_suspends susp_wfD(1) [OF ju_coreD(1) [OF core]] by blast
    have sub: "set (get_suspends ?e) \<subseteq> jobs_of ?e" by (simp add: gs jobs_of_def)
    have o: "only_unit u w w'"
      by (rule only_unit_set [of _ _ "set (get_suspends ?e)"])
        (use sub jobs_of_entry [OF wf ut] in \<open>auto simp: f(3)\<close>)
    have tn: "ju_trigger ?e = Some j \<Longrightarrow> j \<notin> set (get_suspends ?e)" for j
      using trigger_not_suspended(1) [OF core] by (simp add: gs)
    have fl: "ju_unit (flushed ?e) = u" "ju_up_ready (flushed ?e) = ju_up_ready ?e" "ju_dirty (flushed ?e)"
      "ju_interrupt (flushed ?e) = ju_interrupt ?e" "\<not> is_suspends_conflict (flushed ?e)" "loose (flushed ?e)"
      using tab_wfD(4) [OF wf ut] i(4) ni conflict_no_suspends [of "flushed ?e"]
      by (simp_all add: flushed_def loose_def)
    let ?t = "set_uv r (flushed ?e) t"
    have l': "tab_loose w' ?t" by (rule tab_loose_set_uv [OF i(1) ut o f(2) fl(1,2,5,6)])
    have "all_jobs ?t = (all_jobs t \<union> {}) - set (get_suspends ?e)"
      by (rule all_jobs_set_uv [OF wf ut _ sub])
        (unfold jobs_of_flushed, use tn in \<open>auto simp: jobs_of_def gs\<close>)
    then have aj: "all_jobs ?t = all_jobs t0 - set (dels @ get_suspends ?e)" using i(5) by auto
    have "set (get_suspends ?e) \<subseteq> all_jobs t" using sub ut by (auto simp: all_jobs_def)
    moreover have "map_of (tu_data other) (j_unit (jw_job w0 j)) = None" if "j \<in> set (get_suspends ?e)" for j
      using False jobs_of_entry [OF wf ut] sub that i(8) by auto
    ultimately have "isolated other t0 w0 (dels @ get_suspends ?e, ?t, w')"
      unfolding isolated_def using l' i aj fl(4) by (auto simp: f(3))
    moreover have "isolate_one U other (u, r) s = Some (dels @ get_suspends ?e, ?t, w')"
      using False f(1) fl(3) by (simp add: isolate_one_def s)
    ultimately show ?thesis by blast
  qed
qed

lemma tu_isolate_inv:
  assumes inv: "tab_inv w t" and ni: "\<And>u r. entry_of t u = Some r \<Longrightarrow> \<not> ju_interrupt (tu_uv t r)"
  shows "\<exists>dels t' w'. tu_isolate_suspends U other (t, w) = Some (dels, t', w') \<and> isolated other t w (dels, t', w')"
proof -
  have d: "distinct (map fst (tu_data t))" by (rule ready_wfD(1) [OF tab_wfD(1) [OF tab_invD(1) [OF inv]]])
  have "isolated other t w ([], t, w)" using tab_inv_loose [OF inv] by (simp add: isolated_def)
  moreover have "\<exists>s'. isolate_one U other e s = Some s' \<and> isolated other t w s'"
    if "e \<in> set (tu_data t)" "isolated other t w s" for e s
  proof -
    obtain u r where e: "e = (u, r)" by (cases e)
    then have "entry_of t u = Some r" using that(1) d by (simp add: entry_of_def)
    from isolate_one_inv [OF that(2) this ni [OF this]] show ?thesis by (simp add: e)
  qed
  ultimately obtain s where s: "fold_opt (isolate_one U other) (tu_data t) ([], t, w) = Some s" "isolated other t w s"
    using fold_opt_total [of "isolated other t w" "([], t, w)" "tu_data t" "isolate_one U other"] by blast
  obtain dels t' w' where "s = (dels, t', w')" by (cases s)
  moreover have "isolated other t w (dels, t'\<lparr>tu_sync := False\<rparr>, w')" if "isolated other t w (dels, t', w')"
    using that by (simp add: isolated_def)
  ultimately show ?thesis using s by (auto simp: tu_isolate_suspends_def)
qed

section \<open>Entries created on demand\<close>

lemma get_uv_pad_spec:
  assumes l: "tab_loose w t" and g: "get_uv_pad u t = (r, t1)"
  shows "tab_loose w t1" and "entry_of t1 = (entry_of t)(u \<mapsto> r)" and "all_jobs t1 = all_jobs t"
    and "\<And>v x. entry_of t v = Some x \<Longrightarrow> tu_uv t1 x = tu_uv t x"
proof -
  have wf: "tab_wf w t" using l by (simp add: tab_loose_def)
  note rw = tab_wfD(1) [OF wf]
  have "tab_loose w t1 \<and> entry_of t1 = (entry_of t)(u \<mapsto> r) \<and> all_jobs t1 = all_jobs t \<and>
    (\<forall>v x. entry_of t v = Some x \<longrightarrow> tu_uv t1 x = tu_uv t x)"
  proof (cases "entry_of t u")
    case (Some x)
    then have "t1 = t" "r = x" using g by (simp_all add: get_uv_pad_def entry_of_def)
    then show ?thesis using Some l by auto
  next
    case None
    let ?n = "tu_next t"
    have r: "r = ?n" and t1: "t1 = set_uv ?n (job_unit_new u)
        (t\<lparr>tu_data := AList.update u ?n (tu_data t), tu_next := Suc ?n\<rparr>)"
      using g None by (auto simp: get_uv_pad_def entry_of_def)
    have en: "entry_of t1 = (entry_of t)(u \<mapsto> r)" by (simp add: t1 r entry_of_def update_conv')
    have old: "x \<noteq> ?n" if "entry_of t v = Some x" for v x using tab_wfD(2) [OF wf that] by simp
    have uv: "tu_uv t1 x = tu_uv t x" if "entry_of t v = Some x" for v x using old [OF that] by (simp add: t1)
    have new: "tu_uv t1 r = job_unit_new u" by (simp add: t1 r)
    have nin: "(u, x) \<notin> set (ready_abs t)" for x using ready_wfD(5) [OF rw, of u x] None by auto
    have "ju_unit (tu_uv t1 x) = ju_unit (tu_uv t x)" if "x \<in> set (tu_readys t)" for x
    proof -
      have "(ju_unit (tu_uv t x), x) \<in> set (ready_abs t)" using that by (auto simp: ready_abs_def)
      then show ?thesis using ready_wfD(5) [OF rw] uv by metis
    qed
    then have abs: "ready_abs t1 = ready_abs t" by (simp add: ready_abs_def t1)
    have mem: "(v, x) \<in> set (ready_abs t) \<longleftrightarrow> entry_of t1 v = Some x \<and> ju_up_ready (tu_uv t1 x)" for v x
    proof (cases "v = u")
      case True
      then show ?thesis using nin [of x] en new by (auto simp: job_unit_new_def)
    next
      case False
      then show ?thesis using ready_wfD(5) [OF rw, of v x] en uv by auto
    qed
    have unit: "ju_unit (tu_uv t1 x) = v" if "entry_of t1 v = Some x" for v x
      using that ready_wfD(2) [OF rw, of v x] uv [of v x] new en
      by (cases "v = u") (auto simp: job_unit_new_def)
    have "ready_wf t1"
      unfolding ready_wf_def abs using mem unit ready_wfD(1,3,4) [OF rw] by (simp add: t1 distinct_update)
    moreover have "x < tu_next t1 \<and> ju_inv w (tu_uv t1 x) \<and> \<not> is_suspends_conflict (tu_uv t1 x) \<and> loose (tu_uv t1 x)"
      if "entry_of t1 v = Some x" for v x
    proof (cases "v = u")
      case True
      then have "x = r" using that en by simp
      then show ?thesis using new r ju_inv_new [of w u] conflict_no_suspends [of "job_unit_new u"]
        by (simp add: t1 loose_def) (simp add: job_unit_new_def)
    next
      case False
      then have v: "entry_of t v = Some x" using that en by simp
      then show ?thesis
        using uv [OF v] tab_wfD(2,3,5) [OF wf v] l by (auto simp: t1 tab_loose_def)
    qed
    ultimately have "tab_loose w t1" by (simp add: tab_loose_def tab_wf_def)
    moreover have "all_jobs t1 = all_jobs t"
    proof -
      have "other_jobs t1 u = other_jobs t u"
        by (rule other_jobs_cong) (use en uv in auto)
      moreover have "jobs_of (tu_uv t1 r) = {}" using new by (simp add: jobs_of_def job_unit_new_def)
      ultimately show ?thesis using all_jobs_split [of t1 u] all_jobs_split [of t u] None en by simp
    qed
    ultimately show ?thesis using en uv by blast
  qed
  then show "tab_loose w t1" "entry_of t1 = (entry_of t)(u \<mapsto> r)" "all_jobs t1 = all_jobs t"
    "\<And>v x. entry_of t v = Some x \<Longrightarrow> tu_uv t1 x = tu_uv t x" by blast+
qed

section \<open>Merging\<close>

text \<open>The table a transaction has built: fresh jobs only, nothing triggered.\<close>

definition trans_wf :: "'w jworld \<Rightarrow> job_unit_table \<Rightarrow> bool" where
  "trans_wf w ot \<longleftrightarrow> distinct (map fst (tu_data ot)) \<and>
     (\<forall>u r. entry_of ot u = Some r \<longrightarrow> ju_unit (tu_uv ot r) = u \<and> susp_wf w Init (tu_uv ot r) \<and>
        ju_trigger (tu_uv ot r) = None)"

lemma merge_jobs_of:
  assumes core: "ju_core w ju" and wf: "susp_wf w Init ou" and tr: "ju_trigger ju' = ju_trigger ju"
    and ls: "merge_lists ju ou adds dels upds"
    and m: "if is_suspends_conflict_with ju ou
      then set dels = ran (map_of (ju_suspends ju)) \<and> map_of (ju_suspends ju') = map_of (ju_suspends ou)
      else dels = [] \<and> map_of (ju_suspends ju') = map_of (ju_suspends ou) ++ map_of (ju_suspends ju)"
  shows "jobs_of ju' = (jobs_of ju \<union> set adds) - set dels" and "set dels \<subseteq> jobs_of ju"
    and "set adds \<subseteq> ran (map_of (ju_suspends ou))" and "kinds_of ou \<subseteq> kinds_of ju'"
proof -
  have dis: "j \<notin> jobs_of ju" if "j \<in> ran (map_of (ju_suspends ou))" for j
    using that susp_wfD(4) [OF wf] jobs_of_stage [OF core, of j] by (auto simp: ran_def)
  have tn: "ju_trigger ju = Some j \<Longrightarrow> j \<notin> ran (map_of (ju_suspends ju))" for j
    by (rule trigger_not_suspended(1) [OF core])
  show sub: "set adds \<subseteq> ran (map_of (ju_suspends ou))"
    using ls by (auto simp: merge_lists_def Let_def ran_def)
  show "set dels \<subseteq> jobs_of ju" using m by (auto simp: jobs_of_def split: if_splits)
  show "kinds_of ou \<subseteq> kinds_of ju'" using m by (auto simp: kinds_of_def split: if_splits)
  show "jobs_of ju' = (jobs_of ju \<union> set adds) - set dels"
  proof (cases "is_suspends_conflict_with ju ou")
    case True
    then have "set adds = ran (map_of (ju_suspends ou))" using ls by (simp add: merge_lists_def ran_def)
    then show ?thesis using True m tr dis tn unfolding jobs_of_def by auto
  next
    case False
    have "ran (map_of (ju_suspends ou) ++ map_of (ju_suspends ju)) = ran (map_of (ju_suspends ju)) \<union> set adds"
      using ls False by (auto simp: merge_lists_def ran_def map_add_Some_iff)
    then show ?thesis using False m tr by (auto simp: jobs_of_def)
  qed
qed

text \<open>The state of the merge loop after the units in \<open>dn\<close>.\<close>

definition merging :: "job_unit_table \<Rightarrow> job_unit_table \<Rightarrow> 'w jworld \<Rightarrow> unit_id set \<Rightarrow>
    (job_id list \<times> job_id list \<times> job_id list) \<times> 'w tu_state \<Rightarrow> bool" where
  "merging ot t0 w0 dn s \<longleftrightarrow> (case s of ((adds, dels, upds), t, w) \<Rightarrow>
     tab_loose w t \<and> all_jobs t = (all_jobs t0 \<union> set adds) - set dels \<and>
     set adds \<subseteq> all_jobs ot \<and> set dels \<subseteq> all_jobs t0 \<and>
     (\<forall>j \<in> set adds \<union> set dels. j_unit (jw_job w0 j) \<in> dn) \<and>
     (\<forall>j \<in> set dels. stage_of w j = End Cancelled) \<and>
     (\<forall>j. j_unit (jw_job w j) = j_unit (jw_job w0 j)) \<and>
     (\<forall>j. j_unit (jw_job w0 j) \<notin> dn \<longrightarrow> jw_job w j = jw_job w0 j) \<and>
     (\<forall>u \<in> dn. \<forall>x. entry_of ot u = Some x \<longrightarrow>
        (\<exists>r. entry_of t u = Some r \<and> kinds_of (tu_uv ot x) \<subseteq> kinds_of (tu_uv t r))))"

lemma merge_suspends_only_unit:
  assumes inv: "ju_inv w ju" "ju_inv w' ju'" and wf: "susp_wf w Init ou"
    and u: "ju_unit ju = u" "ju_unit ou = u" "ju_unit ju' = u"
    and ls: "merge_lists ju ou adds dels upds"
    and m: "if is_suspends_conflict_with ju ou then upds = [] else
      map_of (ju_suspends ju') = map_of (ju_suspends ou) ++ map_of (ju_suspends ju)"
    and dels: "set dels \<subseteq> jobs_of ju" "\<forall>j \<in> set dels. jw_job w' j = (jw_job w j)\<lparr>j_stage := End Cancelled\<rparr>"
    and adds: "\<forall>j \<in> set adds. jw_job w' j = (jw_job w j)\<lparr>j_stage := Wait\<rparr>"
    and rest: "\<forall>j. j \<notin> set adds \<union> set dels \<union> set upds \<longrightarrow> jw_job w' j = jw_job w j"
  shows "only_unit u w w'"
proof (rule only_unit_set [of _ _ "set adds \<union> set dels \<union> set upds"])
  have core: "ju_core w ju" "ju_core w' ju'" using inv by (simp_all add: ju_inv_def)
  have au: "j_unit (jw_job w j) = u" if "j \<in> set adds" for j
  proof -
    have "\<exists>k. map_of (ju_suspends ou) k = Some j" using ls that by (auto simp: merge_lists_def Let_def)
    then show ?thesis using susp_wfD(6) [OF wf] u(2) by blast
  qed
  have uj: "j \<in> jobs_of ju" if "j \<in> set upds" for j
    using ls that by (auto simp: merge_lists_def Let_def jobs_of_def)
  have uj': "j \<in> jobs_of ju'" if up: "j \<in> set upds" for j
  proof -
    have nc: "map_of (ju_suspends ju') = map_of (ju_suspends ou) ++ map_of (ju_suspends ju)"
      using m up by (auto split: if_splits)
    obtain k where "map_of (ju_suspends ju) k = Some j"
      using ls up by (auto simp: merge_lists_def Let_def ran_def)
    then have "map_of (ju_suspends ju') k = Some j" unfolding nc by simp
    then show ?thesis by (auto simp: jobs_of_def ran_def)
  qed
  show "j_unit (jw_job w j) = u" if "j \<in> set adds \<union> set dels \<union> set upds" for j
    using that au uj dels(1) jobs_of_unit [OF core(1)] u(1) by blast
  show "j_unit (jw_job w' j) = j_unit (jw_job w j)" for j
  proof (cases "j \<in> set upds")
    case True
    then show ?thesis
      using jobs_of_unit [OF core(1) uj] jobs_of_unit [OF core(2) uj'] u by simp
  next
    case False
    then show ?thesis using adds dels(2) rest by (cases "j \<in> set adds \<union> set dels") auto
  qed
qed (use rest in blast)

lemma loose_merge_flags:
  assumes "loose ju" and "merge_flags ju ju'" and "kinds_of ju' = {} \<Longrightarrow> kinds_of ju = {}"
  shows "loose ju'"
  using assms by (auto simp: loose_def merge_flags_def split: if_splits)

lemma merge_entry:
  assumes inv: "ju_inv w ju" and owf: "susp_wf w Init ou" and u: "ju_unit ju = u" "ju_unit ou = u"
    and nc: "\<not> is_suspends_conflict ju" "\<not> is_suspends_conflict ou" and l: "loose ju"
  shows "\<exists>as ds us ju' w'. merge_suspends ou (ju, w) = Some ((as, ds, us), ju', w') \<and> ju_inv w' ju' \<and>
    \<not> is_suspends_conflict ju' \<and> ju_unit ju' = u \<and> ju_up_ready ju' = ju_up_ready ju \<and> loose ju' \<and>
    only_unit u w w' \<and> jobs_of ju' = (jobs_of ju \<union> set as) - set ds \<and> set ds \<subseteq> jobs_of ju \<and>
    set as \<subseteq> ran (map_of (ju_suspends ou)) \<and> kinds_of ou \<subseteq> kinds_of ju' \<and>
    (\<forall>j \<in> set ds. stage_of w' j = End Cancelled)"
proof -
  have core: "ju_core w ju" using inv by (simp add: ju_inv_def)
  have eq: "ju_unit ou = ju_unit ju" using u by simp
  from merge_suspends_total [OF inv owf eq nc] show ?thesis
  proof (elim exE conjE)
    fix as ds us ju' w'
    let ?c = "is_suspends_conflict_with ju ou"
    assume m: "merge_suspends ou (ju, w) = Some ((as, ds, us), ju', w')" "ju_inv w' ju'"
      "\<not> is_suspends_conflict ju'" "ju_trigger ju' = ju_trigger ju" "ju_unit ju' = ju_unit ju"
      and mc: "if ?c
        then set ds = ran (map_of (ju_suspends ju)) \<and> us = [] \<and>
          map_of (ju_suspends ju') = map_of (ju_suspends ou) \<and>
          (\<forall>j \<in> set ds. jw_job w' j = (jw_job w j)\<lparr>j_stage := End Cancelled\<rparr>)
        else ds = [] \<and> map_of (ju_suspends ju') = map_of (ju_suspends ou) ++ map_of (ju_suspends ju) \<and>
          (\<forall>k j i. map_of (ju_suspends ju) k = Some j \<longrightarrow> map_of (ju_suspends ou) k = Some i \<longrightarrow>
            jw_job w' j = (jw_job w j)\<lparr>j_attr := job_attr_or (attr_of w j) (attr_of w i)\<rparr>)"
      and mh: "\<forall>j \<in> set as. jw_job w' j = (jw_job w j)\<lparr>j_stage := Wait\<rparr>"
        "\<forall>j. j \<notin> set as \<union> set ds \<union> set us \<longrightarrow> jw_job w' j = jw_job w j"
      and ml: "merge_lists ju ou as ds us" and mf: "merge_flags ju ju'"
    have m1: "if ?c then set ds = ran (map_of (ju_suspends ju)) \<and> map_of (ju_suspends ju') = map_of (ju_suspends ou)
        else ds = [] \<and> map_of (ju_suspends ju') = map_of (ju_suspends ou) ++ map_of (ju_suspends ju)"
      using mc by (cases ?c) simp_all
    have m2: "if ?c then us = [] else map_of (ju_suspends ju') = map_of (ju_suspends ou) ++ map_of (ju_suspends ju)"
      using mc by (cases ?c) simp_all
    have dh: "\<forall>j \<in> set ds. jw_job w' j = (jw_job w j)\<lparr>j_stage := End Cancelled\<rparr>"
      using mc by (cases ?c) simp_all
    note jb = merge_jobs_of [OF core owf m(4) ml m1]
    have u': "ju_unit ju' = u" using m(5) u by simp
    have oy: "only_unit u w w'"
      by (rule merge_suspends_only_unit [OF inv m(2) owf u u' ml m2 jb(2) dh mh])
    have so: "susp_ok ju" "susp_ok ou" using susp_wfD(1) [OF ju_coreD(1) [OF core]] susp_wfD(1) [OF owf] .
    have "kinds_of ju = {}" if "kinds_of ju' = {}"
    proof (cases ?c)
      case True
      then have "kinds_of ou = {}" using that jb(4) by blast
      then show ?thesis using True nc(1) conflict_with_iff [OF so] conflict_iff [OF so(1)] by simp
    next
      case False
      then show ?thesis using that m1 by (auto simp: kinds_of_def)
    qed
    then have "loose ju'" by (rule loose_merge_flags [OF l mf])
    moreover have "ju_up_ready ju' = ju_up_ready ju" using mf by (simp add: merge_flags_def)
    ultimately show ?thesis using m(1-3) u' oy jb dh by auto
  qed
qed

lemma only_unit_trans_stage:
  "only_unit u w w' \<Longrightarrow> j_unit (jw_job w j) \<noteq> u \<Longrightarrow> stage_of w' j = stage_of w j"
  by (simp add: only_unit_def)

lemma merging_step:
  assumes mg: "merging ot t0 w0 dn ((adds, dels, upds), t, w)" and tw: "trans_wf w0 ot"
    and u: "entry_of ot u = Some x" "u \<notin> dn"
    and t': "tab_loose w' t'" "all_jobs t' = (all_jobs t \<union> set as) - set ds" "entry_of t' = (entry_of t)(u \<mapsto> r)"
      "\<And>v y. v \<noteq> u \<Longrightarrow> entry_of t v = Some y \<Longrightarrow> tu_uv t' y = tu_uv t y"
    and e: "only_unit u w w'" "set ds \<subseteq> all_jobs t" "\<forall>j \<in> set ds. j_unit (jw_job w j) = u"
      "set as \<subseteq> ran (map_of (ju_suspends (tu_uv ot x)))" "kinds_of (tu_uv ot x) \<subseteq> kinds_of (tu_uv t' r)"
      "\<forall>j \<in> set ds. stage_of w' j = End Cancelled"
  shows "merging ot t0 w0 (insert u dn) ((adds @ as, dels @ ds, upds @ us), t', w')"
proof -
  have g: "all_jobs t = (all_jobs t0 \<union> set adds) - set dels"
    "set adds \<subseteq> all_jobs ot" "set dels \<subseteq> all_jobs t0" "\<forall>j \<in> set adds \<union> set dels. j_unit (jw_job w0 j) \<in> dn"
    "\<forall>j \<in> set dels. stage_of w j = End Cancelled" "\<forall>j. j_unit (jw_job w j) = j_unit (jw_job w0 j)"
    "\<forall>j. j_unit (jw_job w0 j) \<notin> dn \<longrightarrow> jw_job w j = jw_job w0 j"
    "\<forall>u \<in> dn. \<forall>x. entry_of ot u = Some x \<longrightarrow>
        (\<exists>r. entry_of t u = Some r \<and> kinds_of (tu_uv ot x) \<subseteq> kinds_of (tu_uv t r))"
    using mg by (simp_all add: merging_def)
  have ou: "ju_unit (tu_uv ot x) = u" "susp_wf w0 Init (tu_uv ot x)" using tw u(1) by (auto simp: trans_wf_def)
  have au: "j_unit (jw_job w0 j) = u" if "j \<in> set as" for j
    using that e(4) susp_wfD(6) [OF ou(2)] ou(1) by (auto simp: ran_def)
  have du: "j_unit (jw_job w0 j) = u" if "j \<in> set ds" for j using that e(3) g(6) by simp
  have "all_jobs t' = (all_jobs t0 \<union> set (adds @ as)) - set (dels @ ds)"
    using t'(2) g(1,4) au u(2) by auto
  moreover have "set (adds @ as) \<subseteq> all_jobs ot"
    using g(2) e(4) u(1) by (auto simp: all_jobs_def jobs_of_def)
  moreover have "set (dels @ ds) \<subseteq> all_jobs t0"
  proof
    fix j assume j: "j \<in> set (dels @ ds)"
    show "j \<in> all_jobs t0"
    proof (cases "j \<in> set dels")
      case True
      then show ?thesis using g(3) by blast
    next
      case False
      then have d: "j \<in> set ds" using j by simp
      then have "j \<notin> set adds" using g(4) du [OF d] u(2) by auto
      moreover have "j \<in> all_jobs t" using d e(2) by blast
      ultimately show ?thesis using g(1) by blast
    qed
  qed
  moreover have "\<forall>j \<in> set (adds @ as) \<union> set (dels @ ds). j_unit (jw_job w0 j) \<in> insert u dn"
    using g(4) au du by auto
  moreover have "\<forall>j \<in> set (dels @ ds). stage_of w' j = End Cancelled"
  proof
    fix j assume j: "j \<in> set (dels @ ds)"
    show "stage_of w' j = End Cancelled"
    proof (cases "j \<in> set ds")
      case True
      then show ?thesis using e(6) by blast
    next
      case False
      then have d: "j \<in> set dels" using j by simp
      then have "j_unit (jw_job w0 j) \<in> dn" using g(4) by blast
      then have "j_unit (jw_job w j) \<noteq> u" using g(6) u(2) by auto
      then show ?thesis using only_unit_trans_stage [OF e(1)] g(5) d by simp
    qed
  qed
  moreover have "\<forall>j. j_unit (jw_job w' j) = j_unit (jw_job w0 j)" using e(1) g(6) by (simp add: only_unit_def)
  moreover have "\<forall>j. j_unit (jw_job w0 j) \<notin> insert u dn \<longrightarrow> jw_job w' j = jw_job w0 j"
    using e(1) g(6,7) by (simp add: only_unit_def)
  moreover have "\<forall>v \<in> insert u dn. \<forall>x. entry_of ot v = Some x \<longrightarrow>
        (\<exists>r. entry_of t' v = Some r \<and> kinds_of (tu_uv ot x) \<subseteq> kinds_of (tu_uv t' r))"
  proof (intro ballI allI impI)
    fix v y assume v: "v \<in> insert u dn" "entry_of ot v = Some y"
    show "\<exists>r. entry_of t' v = Some r \<and> kinds_of (tu_uv ot y) \<subseteq> kinds_of (tu_uv t' r)"
    proof (cases "v = u")
      case True
      then show ?thesis using v(2) u(1) e(5) t'(3) by simp
    next
      case False
      then obtain z where z: "entry_of t v = Some z" "kinds_of (tu_uv ot y) \<subseteq> kinds_of (tu_uv t z)"
        using v g(8) by blast
      then show ?thesis using t'(3) t'(4) [OF False z(1)] False by auto
    qed
  qed
  ultimately show ?thesis using t'(1) by (simp add: merging_def)
qed

lemma merge_unit_inv:
  fixes w0 :: "'w jworld"
  assumes mg: "merging ot t0 w0 dn s" and tw: "trans_wf w0 ot" and u: "entry_of ot u = Some x" "u \<notin> dn"
    and nc: "\<not> is_suspends_conflict (tu_uv ot x)"
  shows "\<exists>s'. merge_unit ot (u, x) s = Some s' \<and> merging ot t0 w0 (insert u dn) s'"
proof -
  obtain adds dels upds t w where s: "s = ((adds, dels, upds), t, w)"
    by (cases s) auto
  have g: "tab_loose w t" "\<forall>j. j_unit (jw_job w0 j) \<notin> dn \<longrightarrow> jw_job w j = jw_job w0 j"
    using mg by (simp_all add: merging_def s)
  let ?ou = "tu_uv ot x"
  have ou: "ju_unit ?ou = u" "susp_wf w0 Init ?ou" using tw u(1) by (auto simp: trans_wf_def)
  have "jw_job w i = jw_job w0 i" if "map_of (ju_suspends ?ou) k = Some i" for k i
    using g(2) susp_wfD(6) [OF ou(2) that] ou(1) u(2) by simp
  then have owf: "susp_wf w Init ?ou"
    using susp_wf_sub [OF ou(2) susp_wfD(1) [OF ou(2)], of w] by simp
  obtain r t1 where p: "get_uv_pad u t = (r, t1)" by (cases "get_uv_pad u t")
  note pad = get_uv_pad_spec [OF g(1) p]
  have wf1: "tab_wf w t1" using pad(1) by (simp add: tab_loose_def)
  have u1: "entry_of t1 u = Some r" by (simp add: pad(2))
  have l: "loose (tu_uv t1 r)" using pad(1) u1 by (simp add: tab_loose_def)
  from merge_entry [OF tab_wfD(3) [OF wf1 u1] owf tab_wfD(4) [OF wf1 u1] ou(1) tab_wfD(5) [OF wf1 u1] nc l]
  obtain as ds us ju w' where m: "merge_suspends ?ou (tu_uv t1 r, w) = Some ((as, ds, us), ju, w')" "ju_inv w' ju"
    "\<not> is_suspends_conflict ju" "ju_unit ju = u" "ju_up_ready ju = ju_up_ready (tu_uv t1 r)" "loose ju"
    "only_unit u w w'" "jobs_of ju = (jobs_of (tu_uv t1 r) \<union> set as) - set ds" "set ds \<subseteq> jobs_of (tu_uv t1 r)"
    "set as \<subseteq> ran (map_of (ju_suspends ?ou))" "kinds_of ?ou \<subseteq> kinds_of ju"
    "\<forall>j \<in> set ds. stage_of w' j = End Cancelled" by blast
  let ?t = "set_uv r ju t1"
  have l': "tab_loose w' ?t" by (rule tab_loose_set_uv [OF pad(1) u1 m(7,2,4,5,3,6)])
  have aj: "all_jobs ?t = (all_jobs t \<union> set as) - set ds"
    using all_jobs_set_uv [OF wf1 u1 m(8,9)] pad(3) by simp
  have du: "\<forall>j \<in> set ds. j_unit (jw_job w j) = u" using m(9) jobs_of_entry [OF wf1 u1] by blast
  have "jobs_of (tu_uv t1 r) \<subseteq> all_jobs t1" using u1 by (auto simp: all_jobs_def)
  then have dj: "set ds \<subseteq> all_jobs t" using m(9) pad(3) by blast
  have en: "entry_of ?t = (entry_of t)(u \<mapsto> r)" using pad(2) by simp
  have uv: "tu_uv ?t y = tu_uv t y" if "v \<noteq> u" "entry_of t v = Some y" for v y
  proof -
    have "entry_of t1 v = Some y" using that pad(2) by simp
    then have "y \<noteq> r" using that(1) u1 entry_of_inj [OF tab_wfD(1) [OF wf1]] by blast
    then show ?thesis using pad(4) [OF that(2)] by simp
  qed
  have "kinds_of ?ou \<subseteq> kinds_of (tu_uv ?t r)" using m(11) by simp
  from merging_step [OF mg [unfolded s] tw u l' aj en uv m(7) dj du m(10) this m(12)]
  have "merging ot t0 w0 (insert u dn) ((adds @ as, dels @ ds, upds @ us), ?t, w')" .
  moreover have "merge_unit ot (u, x) s = Some ((adds @ as, dels @ ds, upds @ us), ?t, w')"
    using p m(1) by (simp add: merge_unit_def s)
  ultimately show ?thesis by blast
qed

lemma merge_fold_inv:
  "merging ot t0 w0 dn s \<Longrightarrow> trans_wf w0 ot \<Longrightarrow> distinct (map fst es) \<Longrightarrow> fst ` set es \<inter> dn = {} \<Longrightarrow>
   (\<And>u x. (u, x) \<in> set es \<Longrightarrow> entry_of ot u = Some x \<and> \<not> is_suspends_conflict (tu_uv ot x)) \<Longrightarrow>
   \<exists>s'. fold_opt (merge_unit ot) es s = Some s' \<and> merging ot t0 w0 (dn \<union> fst ` set es) s'"
proof (induction es arbitrary: dn s)
  case Nil
  then show ?case by simp
next
  case (Cons e es)
  obtain u x where e: "e = (u, x)" by (cases e)
  have "entry_of ot u = Some x" "\<not> is_suspends_conflict (tu_uv ot x)" "u \<notin> dn"
    using Cons.prems(4,5) e by auto
  then obtain s1 where s1: "merge_unit ot e s = Some s1" "merging ot t0 w0 (insert u dn) s1"
    using merge_unit_inv [OF Cons.prems(1,2)] e by blast
  have "fst ` set es \<inter> insert u dn = {}" using Cons.prems(3,4) e by auto
  moreover have "distinct (map fst es)" using Cons.prems(3) by simp
  moreover have "entry_of ot v = Some y \<and> \<not> is_suspends_conflict (tu_uv ot y)" if "(v, y) \<in> set es" for v y
    using Cons.prems(5) [of v y] that by simp
  ultimately obtain s' where "fold_opt (merge_unit ot) es s1 = Some s'"
    "merging ot t0 w0 (insert u dn \<union> fst ` set es) s'"
    using Cons.IH [OF s1(2) Cons.prems(2)] by blast
  then show ?case using s1(1) by (simp add: e Un_commute insert_commute)
qed

section \<open>Reshuffling the table\<close>

text \<open>A request survives a reshuffle as itself, or merged into a job that does at least as much.\<close>

definition covers :: "job_kind set \<Rightarrow> job_kind set \<Rightarrow> bool" where
  "covers K K' \<longleftrightarrow> (\<forall>k \<in> K. k \<in> K' \<or> k \<in> {Start, Reload} \<and> K' \<inter> {Start, Reload, Restart} \<noteq> {})"

lemma covers_refl [simp]: "covers K K"
  by (simp add: covers_def)

lemma covers_merged:
  assumes "susp_ok ju"
  shows "covers (kinds_of ju) (kinds_of (merged act ju))"
  unfolding covers_def kinds_of_merged [OF assms]
  using has_suspend_kinds [of ju] by (auto simp: merged_kinds_def split: if_splits)

text \<open>The state of the reshuffle loop: the entries of \<open>todo\<close> are still loose, the others are synchronised.\<close>

definition shuffling :: "job_unit_table \<Rightarrow> 'w jworld \<Rightarrow> unit_id set \<Rightarrow> job_id list \<times> 'w tu_state \<Rightarrow> bool" where
  "shuffling t0 w0 todo s \<longleftrightarrow> (case s of (ms, t, w) \<Rightarrow>
     tab_wf w t \<and> all_jobs t = all_jobs t0 - set ms \<and> set ms \<subseteq> all_jobs t0 \<and>
     (\<forall>j \<in> set ms. j_unit (jw_job w0 j) \<notin> todo \<and> stage_of w j = End Merged) \<and>
     (\<forall>j. j_unit (jw_job w j) = j_unit (jw_job w0 j)) \<and> (\<forall>j. j \<notin> set ms \<longrightarrow> jw_job w j = jw_job w0 j) \<and>
     (\<forall>u r. entry_of t u = Some r \<longrightarrow> entry_of t0 u = Some r \<and> (if u \<in> todo then loose (tu_uv t r) else synced (tu_uv t r))) \<and>
     (\<forall>u r. u \<in> todo \<longrightarrow> entry_of t0 u = Some r \<longrightarrow> entry_of t u = Some r) \<and>
     (\<forall>u r. entry_of t0 u = Some r \<longrightarrow> kinds_of (tu_uv t0 r) \<noteq> {} \<longrightarrow>
        entry_of t u = Some r \<and> covers (kinds_of (tu_uv t0 r)) (kinds_of (tu_uv t r))) \<and>
     (\<forall>u r. u \<in> todo \<longrightarrow> entry_of t0 u = Some r \<longrightarrow> tu_uv t r = tu_uv t0 r))"

lemma shufflingD:
  assumes "shuffling t0 w0 todo (ms, t, w)"
  shows "tab_wf w t" "all_jobs t = all_jobs t0 - set ms" "set ms \<subseteq> all_jobs t0"
    "\<forall>j \<in> set ms. j_unit (jw_job w0 j) \<notin> todo \<and> stage_of w j = End Merged"
    "\<forall>j. j_unit (jw_job w j) = j_unit (jw_job w0 j)" "\<forall>j. j \<notin> set ms \<longrightarrow> jw_job w j = jw_job w0 j"
    "\<forall>u r. entry_of t u = Some r \<longrightarrow> entry_of t0 u = Some r \<and> (if u \<in> todo then loose (tu_uv t r) else synced (tu_uv t r))"
    "\<forall>u r. u \<in> todo \<longrightarrow> entry_of t0 u = Some r \<longrightarrow> entry_of t u = Some r"
    "\<forall>u r. entry_of t0 u = Some r \<longrightarrow> kinds_of (tu_uv t0 r) \<noteq> {} \<longrightarrow>
        entry_of t u = Some r \<and> covers (kinds_of (tu_uv t0 r)) (kinds_of (tu_uv t r))"
    "\<forall>u r. u \<in> todo \<longrightarrow> entry_of t0 u = Some r \<longrightarrow> tu_uv t r = tu_uv t0 r"
  by (insert assms, unfold shuffling_def prod.case, (elim conjE, assumption)+)

lemma shufflingI:
  assumes "tab_wf w t" "all_jobs t = all_jobs t0 - set ms" "set ms \<subseteq> all_jobs t0"
    "\<forall>j \<in> set ms. j_unit (jw_job w0 j) \<notin> todo \<and> stage_of w j = End Merged"
    "\<forall>j. j_unit (jw_job w j) = j_unit (jw_job w0 j)" "\<forall>j. j \<notin> set ms \<longrightarrow> jw_job w j = jw_job w0 j"
    "\<forall>u r. entry_of t u = Some r \<longrightarrow> entry_of t0 u = Some r \<and> (if u \<in> todo then loose (tu_uv t r) else synced (tu_uv t r))"
    "\<forall>u r. u \<in> todo \<longrightarrow> entry_of t0 u = Some r \<longrightarrow> entry_of t u = Some r"
    "\<forall>u r. entry_of t0 u = Some r \<longrightarrow> kinds_of (tu_uv t0 r) \<noteq> {} \<longrightarrow>
        entry_of t u = Some r \<and> covers (kinds_of (tu_uv t0 r)) (kinds_of (tu_uv t r))"
    "\<forall>u r. u \<in> todo \<longrightarrow> entry_of t0 u = Some r \<longrightarrow> tu_uv t r = tu_uv t0 r"
  shows "shuffling t0 w0 todo (ms, t, w)"
  unfolding shuffling_def prod.case by (intro conjI assms)

text \<open>One entry: reshuffled if it is dirty, put back, moved in the ready containers.\<close>

lemma reshuffle_entry_inv:
  assumes wf: "tab_wf w t" and u: "entry_of t u = Some r" and l: "loose (tu_uv t r)"
  shows "\<exists>ms ju w' t'. reshuffle_entry U u r (t, w) = Some (ms, t', w') \<and> tab_wf w' t' \<and> same_frame t t' \<and>
    tu_uv t' = (tu_uv t)(r := ju) \<and> synced_or_empty ju \<and> jobs_of ju = jobs_of (tu_uv t r) - set ms \<and>
    set ms \<subseteq> jobs_of (tu_uv t r) \<and> only_unit u w w' \<and> covers (kinds_of (tu_uv t r)) (kinds_of ju) \<and>
    (\<forall>j \<in> set ms. stage_of w' j = End Merged) \<and> (\<forall>j. j \<notin> set ms \<longrightarrow> jw_job w' j = jw_job w j)"
proof (cases "ju_dirty (tu_uv t r)")
  case False
  have "synced_or_empty (tu_uv t r)" using False l by (simp add: loose_def synced_or_empty_def)
  moreover have "(tu_uv t)(r := tu_uv t r) = tu_uv t" by simp
  ultimately show ?thesis
    using False wf by (intro exI [of _ "[]"] exI [of _ "tu_uv t r"] exI [of _ w] exI [of _ t])
      (simp add: reshuffle_entry_def)
next
  case True
  let ?e = "tu_uv t r" and ?act = "uo_active_state U u (jw_env w)"
  have un: "ju_unit ?e = u" by (rule tab_wfD(4) [OF wf u])
  have inv: "ju_inv w ?e" by (rule tab_wfD(3) [OF wf u])
  have core: "ju_core w ?e" using inv by (simp add: ju_inv_def)
  note so = susp_wfD(1) [OF ju_coreD(1) [OF core]]
  have st: "\<not> ju_order ?e" "\<not> (ju_interrupt ?e \<and> kinds_of ?e = {})" using l True by (simp_all add: loose_def)
  note nc = tab_wfD(5) [OF wf u]
  let ?r = "reshuffled w ?act ?e" and ?ms = "merged_jobs ?act ?e"
  obtain w' where rs: "reshuffle U (?e, w) = Some (?ms, ?r, w')" and rh: "reshuffle_heap U ?e w w'"
    using reshuffle_unordered [OF core st(1) nc st(2), of U] un by auto
  have heap: "jw_job w' = (\<lambda>j. if j \<in> set ?ms then (jw_job w j)\<lparr>j_stage := End Merged\<rparr> else jw_job w j)"
    using rh un by (simp add: reshuffle_heap_def)
  have inv': "ju_inv w' ?r" using ju_inv_reshuffled [OF core nc st(2) rh] un by simp
  have msub: "set ?ms \<subseteq> jobs_of ?e"
    using merged_jobs_susp [OF so] by (auto simp: jobs_of_def ran_def)
  have rsus: "ju_suspends ?r = ju_suspends (merged ?act ?e)" by (simp add: reshuffled_def)
  have jobs: "jobs_of ?r = jobs_of ?e - set ?ms"
  proof -
    have "jobs_of ?r = jobs_of (merged ?act ?e)" by (simp add: jobs_of_def reshuffled_def)
    moreover have "jobs_of (merged ?act ?e) \<subseteq> jobs_of ?e"
      using map_of_merged [OF so, of ?act]
      by (auto simp: jobs_of_def ran_def restrict_map_def split: if_splits)
    moreover have "jobs_of (merged ?act ?e) \<inter> set ?ms = {}" using merged_jobs_disjoint [OF core] by blast
    moreover have "jobs_of ?e - set ?ms \<subseteq> jobs_of (merged ?act ?e)"
      using map_of_merged [OF so, of ?act] merged_jobs_susp [OF so, of _ ?act]
      by (auto simp: jobs_of_def ran_def restrict_map_def)
    ultimately show ?thesis by blast
  qed
  have oy: "only_unit u w w'"
    by (rule only_unit_set [of _ _ "set ?ms"]) (use msub jobs_of_entry [OF wf u] in \<open>auto simp: heap\<close>)
  have ru: "ju_unit ?r = u" "ju_up_ready ?r = ju_up_ready ?e" "ju_order ?r"
    by (simp_all add: reshuffled_def un) (simp add: queued_def Let_def)
  have nc': "\<not> is_suspends_conflict ?r"
    using conflict_merged [OF so nc] same_suspends_conflict [OF rsus] by simp
  note iw = install_wf [OF wf u oy inv' ru(1,2) nc']
  have "reshuffle_entry U u r (t, w) = Some (?ms, install u r ?r t, w')"
    using True rs by (simp add: reshuffle_entry_def install_def Let_def)
  moreover have "synced_or_empty (clean ?r)" using ru(3) by (simp add: synced_or_empty_def)
  moreover have "kinds_of (clean ?r) = kinds_of (merged ?act ?e)"
    by (rule kinds_of_cong) (simp add: rsus)
  moreover have "jobs_of (clean ?r) = jobs_of ?e - set ?ms" using jobs by simp
  ultimately show ?thesis
    using iw msub oy covers_merged [OF so, of ?act]
    by (intro exI [of _ ?ms] exI [of _ "clean ?r"] exI [of _ w'] exI [of _ "install u r ?r t"]) (simp add: heap)
qed

lemma shuffling_sync: "shuffling t0 w0 todo (ms, t\<lparr>tu_sync := b\<rparr>, w) = shuffling t0 w0 todo (ms, t, w)"
proof -
  have "tu_uv (t\<lparr>tu_sync := b\<rparr>) = tu_uv t" by simp
  then show ?thesis unfolding shuffling_def prod.case by (simp only: tab_sync_simps)
qed

lemma covers_nonempty: "covers K K' \<Longrightarrow> K \<noteq> {} \<Longrightarrow> K' \<noteq> {}"
  by (auto simp: covers_def)

lemma kinds_not_empty: "kinds_of ju \<noteq> {} \<Longrightarrow> \<not> ju_is_empty ju"
  by (auto simp: kinds_of_def ju_is_empty_def)

lemma shuffling_step:
  assumes sh: "shuffling t0 w0 todo (ms, t, w)" and u: "u \<in> todo" "entry_of t0 u = Some r"
    and t': "tab_wf w' t'" "tu_uv t' = (tu_uv t)(r := ju)"
      "entry_of t' = (if ju_is_empty ju then (entry_of t)(u := None) else entry_of t)"
    and ju: "synced_or_empty ju" "jobs_of ju = jobs_of (tu_uv t r) - set ms1" "set ms1 \<subseteq> jobs_of (tu_uv t r)"
      "only_unit u w w'" "covers (kinds_of (tu_uv t r)) (kinds_of ju)"
      "\<forall>j \<in> set ms1. stage_of w' j = End Merged" "\<forall>j. j \<notin> set ms1 \<longrightarrow> jw_job w' j = jw_job w j"
  shows "shuffling t0 w0 (todo - {u}) (ms @ ms1, t', w')"
proof -
  note g = shufflingD [OF sh]
  have ut: "entry_of t u = Some r" using g(8) u by blast
  have xr: "x \<noteq> r" if "entry_of t v = Some x" "v \<noteq> u" for v x
    using that ut entry_of_inj [OF tab_wfD(1) [OF g(1)]] by blast
  have jt: "jobs_of (tu_uv t r) \<subseteq> all_jobs t" using ut by (auto simp: all_jobs_def)
  have mu: "j_unit (jw_job w0 j) = u" if "j \<in> set ms1" for j
    using that ju(3) jobs_of_entry [OF g(1) ut] g(5) by auto
  have aj: "all_jobs t' = all_jobs t - set ms1"
    by (rule all_jobs_change [OF g(1) ut t'(2,3) ju(2,3)])
  have 1: "all_jobs t' = all_jobs t0 - set (ms @ ms1)" using aj g(2) by auto
  have 2: "set (ms @ ms1) \<subseteq> all_jobs t0" using g(2,3) ju(3) jt by auto
  have 3: "\<forall>j \<in> set (ms @ ms1). j_unit (jw_job w0 j) \<notin> todo - {u} \<and> stage_of w' j = End Merged"
  proof
    fix j assume j: "j \<in> set (ms @ ms1)"
    show "j_unit (jw_job w0 j) \<notin> todo - {u} \<and> stage_of w' j = End Merged"
    proof (cases "j \<in> set ms1")
      case True
      then show ?thesis using mu ju(6) by simp
    next
      case False
      then show ?thesis using j g(4) ju(7) by auto
    qed
  qed
  have 4: "\<forall>j. j_unit (jw_job w' j) = j_unit (jw_job w0 j)" using ju(4) g(5) by (simp add: only_unit_def)
  have 5: "\<forall>j. j \<notin> set (ms @ ms1) \<longrightarrow> jw_job w' j = jw_job w0 j" using ju(7) g(6) by simp
  have 6: "entry_of t0 v = Some x \<and> (if v \<in> todo - {u} then loose (tu_uv t' x) else synced (tu_uv t' x))"
    if v: "entry_of t' v = Some x" for v x
  proof (cases "v = u")
    case True
    then have "\<not> ju_is_empty ju" "x = r" using v t'(3) ut by (auto split: if_splits)
    then show ?thesis using True u(2) t'(2) ju(1) by (simp add: synced_def synced_or_empty_def)
  next
    case False
    then have vt: "entry_of t v = Some x" using v t'(3) by (simp split: if_splits)
    then show ?thesis using False xr [OF vt False] g(7) t'(2) by simp
  qed
  have 7: "entry_of t' v = Some x" if "v \<in> todo - {u}" "entry_of t0 v = Some x" for v x
    using that g(8) t'(3) by simp
  have 8: "entry_of t' v = Some x \<and> covers (kinds_of (tu_uv t0 x)) (kinds_of (tu_uv t' x))"
    if v: "entry_of t0 v = Some x" "kinds_of (tu_uv t0 x) \<noteq> {}" for v x
  proof (cases "v = u")
    case True
    then have x: "x = r" using v(1) u(2) by simp
    have "tu_uv t r = tu_uv t0 r" using g(10) u by blast
    then have c: "covers (kinds_of (tu_uv t0 x)) (kinds_of ju)" using ju(5) x by simp
    then have "\<not> ju_is_empty ju" using covers_nonempty [OF c v(2)] kinds_not_empty by blast
    then show ?thesis using c x True ut t'(2,3) by simp
  next
    case False
    then show ?thesis using v g(9) t'(2,3) xr by auto
  qed
  have 9: "tu_uv t' x = tu_uv t0 x" if v: "v \<in> todo - {u}" "entry_of t0 v = Some x" for v x
  proof -
    have "entry_of t v = Some x" using v g(8) by blast
    then have "x \<noteq> r" using xr v(1) by blast
    moreover have "tu_uv t x = tu_uv t0 x" using v g(10) by blast
    ultimately show ?thesis using t'(2) by simp
  qed
  show ?thesis by (rule shufflingI) (use t'(1) 1 2 3 4 5 6 7 8 9 in blast)+
qed

lemma reshuffle_unit_inv:
  assumes sh: "shuffling t0 w0 todo s" and u: "u \<in> todo" "entry_of t0 u = Some r"
  shows "\<exists>s'. reshuffle_unit U (u, r) s = Some s' \<and> shuffling t0 w0 (todo - {u}) s'"
proof -
  obtain ms t w where s: "s = (ms, t, w)" by (cases s)
  note sd = shufflingD [OF sh [unfolded s]]
  have ut: "entry_of t u = Some r" using sd(8) u by blast
  then have "if u \<in> todo then loose (tu_uv t r) else synced (tu_uv t r)" using sd(7) by blast
  with sd(1) ut u(1) have g: "tab_wf w t" "entry_of t u = Some r" "loose (tu_uv t r)" by simp_all
  obtain ms1 ju w' t1 where e: "reshuffle_entry U u r (t, w) = Some (ms1, t1, w')" "tab_wf w' t1" "same_frame t t1"
    "tu_uv t1 = (tu_uv t)(r := ju)" "synced_or_empty ju" "jobs_of ju = jobs_of (tu_uv t r) - set ms1"
    "set ms1 \<subseteq> jobs_of (tu_uv t r)" "only_unit u w w'" "covers (kinds_of (tu_uv t r)) (kinds_of ju)"
    "\<forall>j \<in> set ms1. stage_of w' j = End Merged" "\<forall>j. j \<notin> set ms1 \<longrightarrow> jw_job w' j = jw_job w j"
    using reshuffle_entry_inv [OF g] by blast
  have u1: "entry_of t1 u = Some r" using g(2) same_frame_entry [OF e(3)] by simp
  have "synced_or_empty (tu_uv t1 r)" using e(4,5) by simp
  from gc_spec [OF e(2) u1 this] obtain t2 where c: "try_gc_empty_unit u r t1 = Some t2" "tab_wf w' t2"
    "tu_uv t2 = tu_uv t1"
    "entry_of t2 = (if ju_is_empty (tu_uv t1 r) then (entry_of t1)(u := None) else entry_of t1)" by blast
  have "shuffling t0 w0 (todo - {u}) (ms @ ms1, t2, w')"
    by (rule shuffling_step [OF sh [unfolded s] u c(2) _ _ e(5-11)])
      (use c(3,4) e(4) same_frame_entry [OF e(3)] in simp_all)
  then show ?thesis using e(1) c(1) by (simp add: reshuffle_unit_def s)
qed

lemma reshuffle_fold_inv:
  "shuffling t0 w0 todo s \<Longrightarrow> distinct (map fst es) \<Longrightarrow> todo = fst ` set es \<Longrightarrow>
   (\<And>u r. (u, r) \<in> set es \<Longrightarrow> entry_of t0 u = Some r) \<Longrightarrow>
   \<exists>s'. fold_opt (reshuffle_unit U) es s = Some s' \<and> shuffling t0 w0 {} s'"
proof (induction es arbitrary: todo s)
  case Nil
  then show ?case by simp
next
  case (Cons e es)
  obtain u r where e: "e = (u, r)" by (cases e)
  have "u \<in> todo" "entry_of t0 u = Some r" using Cons.prems(3,4) e by auto
  then obtain s1 where s1: "reshuffle_unit U e s = Some s1" "shuffling t0 w0 (todo - {u}) s1"
    using reshuffle_unit_inv [OF Cons.prems(1)] e by blast
  have td: "todo - {u} = fst ` set es" using Cons.prems(2,3) e by auto
  have di: "distinct (map fst es)" using Cons.prems(2) by simp
  have "entry_of t0 v = Some x" if "(v, x) \<in> set es" for v x using Cons.prems(4) [of v x] that by simp
  from Cons.IH [OF s1(2) di td this] s1(1) show ?case by auto
qed

lemma tu_reshuffle_inv:
  assumes l: "tab_loose w t"
  shows "\<exists>ms t' w'. tu_reshuffle U (t, w) = Some (ms, t', w') \<and> tab_inv w' t' \<and> shuffling t w {} (ms, t', w')"
proof -
  have wf: "tab_wf w t" using l by (simp add: tab_loose_def)
  have d: "distinct (map fst (tu_data t))" by (rule ready_wfD(1) [OF tab_wfD(1) [OF wf]])
  have "shuffling t w (fst ` set (tu_data t)) ([], t, w)"
  proof -
    have "u \<in> fst ` set (tu_data t)" if "entry_of t u = Some r" for u r
      using that by (force simp: entry_of_def dest: map_of_SomeD)
    then show ?thesis using l by (intro shufflingI) (auto simp: tab_loose_def)
  qed
  from reshuffle_fold_inv [OF this d refl, of U]
  obtain s where s: "fold_opt (reshuffle_unit U) (tu_data t) ([], t, w) = Some s" "shuffling t w {} s"
    using d by (auto simp: entry_of_def)
  obtain ms t' w' where s': "s = (ms, t', w')" by (cases s)
  let ?t = "t'\<lparr>tu_sync := True\<rparr>"
  note g = shufflingD [OF s(2) [unfolded s']]
  have "shuffling t w {} (ms, ?t, w')"
    using s(2) by (simp only: shuffling_sync s')
  moreover have "tab_inv w' ?t" using g(1,7) by (simp add: tab_inv_def)
  ultimately show ?thesis using s(1) by (simp add: tu_reshuffle_def s')
qed

section \<open>Committing\<close>

lemma isolate_step:
  assumes inv: "tab_inv w (jt_unit T)" and ids: "jt_id T = all_jobs (jt_unit T)"
    and ni: "mode = ModeIsolate \<or> mode = ModeFlush \<Longrightarrow>
      \<forall>u r. entry_of (jt_unit T) u = Some r \<longrightarrow> \<not> ju_interrupt (tu_uv (jt_unit T) r)"
  shows "\<exists>dels T' w'. jt_isolate_suspends U Tr mode (T, w) = Some (dels, T', w') \<and>
    isolated (jt_unit Tr) (jt_unit T) w (dels, jt_unit T', w') \<and> jt_id T' = all_jobs (jt_unit T')"
proof (cases "mode = ModeIsolate \<or> mode = ModeFlush")
  case True
  then obtain dels t' w' where i: "tu_isolate_suspends U (jt_unit Tr) (jt_unit T, w) = Some (dels, t', w')"
    "isolated (jt_unit Tr) (jt_unit T) w (dels, t', w')"
    using tu_isolate_inv [OF inv] ni by blast
  then have "all_jobs t' = jt_id T - set dels" by (simp add: isolated_def ids)
  then show ?thesis using i True by (auto simp: jt_isolate_suspends_def)
next
  case False
  then show ?thesis
    using tab_inv_loose [OF inv] ids by (auto simp: jt_isolate_suspends_def isolated_def)
qed

lemma trans_wf_unchanged:
  assumes "trans_wf w ot" and "\<And>j. j \<in> all_jobs ot \<Longrightarrow> jw_job w' j = jw_job w j"
  shows "trans_wf w' ot"
proof -
  have "susp_wf w' Init (tu_uv ot r)" if u: "entry_of ot u = Some r" for u r
  proof (rule susp_wf_sub)
    show wf: "susp_wf w Init (tu_uv ot r)" using assms(1) u by (simp add: trans_wf_def)
    show "susp_ok (tu_uv ot r)" by (rule susp_wfD(1) [OF wf])
    fix k i assume k: "map_of (ju_suspends (tu_uv ot r)) k = Some i"
    then have "i \<in> all_jobs ot" using u by (auto simp: all_jobs_def jobs_of_def ran_def)
    with k assms(2) show "map_of (ju_suspends (tu_uv ot r)) k = Some i \<and> jw_job w' i = jw_job w i" by simp
  qed simp
  then show ?thesis using assms(1) by (simp add: trans_wf_def)
qed

lemma trans_jobs:
  assumes "trans_wf w ot" and "j \<in> all_jobs ot"
  shows "stage_of w j = Init" and "j_unit (jw_job w j) \<in> fst ` set (tu_data ot)"
proof -
  obtain u r k where u: "entry_of ot u = Some r" and k: "map_of (ju_suspends (tu_uv ot r)) k = Some j"
    using assms by (auto simp: all_jobs_def jobs_of_def trans_wf_def ran_def)
  then have wf: "susp_wf w Init (tu_uv ot r)" "ju_unit (tu_uv ot r) = u" using assms(1) by (simp_all add: trans_wf_def)
  show "stage_of w j = Init" by (rule susp_wfD(4) [OF wf(1) k])
  have "j_unit (jw_job w j) = u" using susp_wfD(6) [OF wf(1) k] wf(2) by simp
  then show "j_unit (jw_job w j) \<in> fst ` set (tu_data ot)"
    using u by (force simp: entry_of_def dest: map_of_SomeD)
qed

lemma table_jobs_stage: "tab_wf w t \<Longrightarrow> j \<in> all_jobs t \<Longrightarrow> stage_of w j \<noteq> Init"
proof -
  assume wf: "tab_wf w t" and "j \<in> all_jobs t"
  then obtain u r where u: "entry_of t u = Some r" "j \<in> jobs_of (tu_uv t r)" by (auto simp: all_jobs_def)
  have "ju_core w (tu_uv t r)" using tab_wfD(3) [OF wf u(1)] by (simp add: ju_inv_def)
  from jobs_of_stage [OF this u(2)] show ?thesis by auto
qed

lemma merge_step:
  assumes l: "tab_loose w (jt_unit T)" and ids: "jt_id T = all_jobs (jt_unit T)"
    and ot: "trans_wf w (jt_unit Tr)"
    and nc: "\<forall>u x. entry_of (jt_unit Tr) u = Some x \<longrightarrow> \<not> is_suspends_conflict (tu_uv (jt_unit Tr) x)"
  shows "\<exists>c T' w'. jt_merge_suspends Tr (T, w) = Some (c, T', w') \<and>
    merging (jt_unit Tr) (jt_unit T) w (fst ` set (tu_data (jt_unit Tr))) (c, jt_unit T', w') \<and>
    jt_id T' = all_jobs (jt_unit T')"
proof -
  let ?ot = "jt_unit Tr" and ?t = "jt_unit T"
  have d: "distinct (map fst (tu_data ?ot))" using ot by (simp add: trans_wf_def)
  have m0: "merging ?ot ?t w {} (([], [], []), ?t, w)" using l by (simp add: merging_def)
  have ne: "entry_of ?ot u = Some x \<and> \<not> is_suspends_conflict (tu_uv ?ot x)"
    if "(u, x) \<in> set (tu_data ?ot)" for u x
  proof -
    have "entry_of ?ot u = Some x" using that d by (simp add: entry_of_def)
    then show ?thesis using nc by blast
  qed
  have "fst ` set (tu_data ?ot) \<inter> {} = {}" by simp
  from merge_fold_inv [OF m0 ot d this ne] obtain s where
    s: "fold_opt (merge_unit ?ot) (tu_data ?ot) (([], [], []), ?t, w) = Some s"
    "merging ?ot ?t w (fst ` set (tu_data ?ot)) s" by auto
  obtain as ds us t' w' where s': "s = ((as, ds, us), t', w')" by (metis prod_cases3 surj_pair)
  have "all_jobs t' = (jt_id T \<union> set as) - set ds" using s(2) by (simp add: merging_def s' ids)
  moreover have "merging ?ot ?t w (fst ` set (tu_data ?ot)) ((as, ds, us), t'\<lparr>tu_sync := False\<rparr>, w')"
    using s(2) by (simp add: merging_def s')
  ultimately show ?thesis using s(1)
    by (auto simp: jt_merge_suspends_def tu_merge_suspends_def s')
qed

lemma reshuffle_step:
  assumes l: "tab_loose w (jt_unit T)" and ids: "jt_id T = all_jobs (jt_unit T)"
  shows "\<exists>ms T' w'. jt_reshuffle U (T, w) = Some (ms, T', w') \<and> tab_inv w' (jt_unit T') \<and>
    shuffling (jt_unit T) w {} (ms, jt_unit T', w') \<and> jt_id T' = all_jobs (jt_unit T')"
proof -
  obtain ms t' w' where r: "tu_reshuffle U (jt_unit T, w) = Some (ms, t', w')" "tab_inv w' t'"
    "shuffling (jt_unit T) w {} (ms, t', w')" using tu_reshuffle_inv [OF l] by blast
  then show ?thesis using shufflingD(2) [OF r(3)] ids by (auto simp: jt_reshuffle_def)
qed

lemma process_relation_fold:
  "tab_inv w (jt_unit T) \<Longrightarrow> \<exists>T'. fold_opt (\<lambda>u. process_relation D u b) us T = Some T' \<and> jt_id T' = jt_id T \<and>
     resumed w (jt_unit T) (jt_unit T')"
proof (induction us arbitrary: T)
  case Nil
  then show ?case by (simp add: resumed_refl)
next
  case (Cons u us)
  obtain T1 where T1: "process_relation D u b T = Some T1" "jt_id T1 = jt_id T" "resumed w (jt_unit T) (jt_unit T1)"
    using process_relation_inv [OF Cons.prems] by blast
  have "tab_inv w (jt_unit T1)" using T1(3) by (simp add: resumed_def)
  from Cons.IH [OF this] obtain T2 where "fold_opt (\<lambda>u. process_relation D u b) us T1 = Some T2"
    "jt_id T2 = jt_id T1" "resumed w (jt_unit T1) (jt_unit T2)" by blast
  then show ?case using T1 resumed_trans [OF T1(3)] by auto
qed

lemma resume_step:
  assumes "tab_inv w (jt_unit T)"
  shows "\<exists>T'. (if b then do {
        T1 \<leftarrow> fold_opt (\<lambda>u. process_relation D u True) us T;
        fold_opt (\<lambda>u. process_relation D u True) vs T1 } else Some T) = Some T' \<and>
      jt_id T' = jt_id T \<and> resumed w (jt_unit T) (jt_unit T')"
proof -
  obtain T1 where T1: "fold_opt (\<lambda>u. process_relation D u True) us T = Some T1" "jt_id T1 = jt_id T"
    "resumed w (jt_unit T) (jt_unit T1)" using process_relation_fold [OF assms] by blast
  then have "tab_inv w (jt_unit T1)" by (simp add: resumed_def)
  then obtain T2 where "fold_opt (\<lambda>u. process_relation D u True) vs T1 = Some T2" "jt_id T2 = jt_id T1"
    "resumed w (jt_unit T1) (jt_unit T2)" using process_relation_fold by blast
  then show ?thesis using T1 resumed_trans [OF T1(3)] resumed_refl [OF assms] by auto
qed

lemma covers_mono: "K0 \<subseteq> K \<Longrightarrow> covers K K' \<Longrightarrow> covers K0 K'"
  by (auto simp: covers_def)

lemma kinds_of_resumed: "resumed w t t' \<Longrightarrow> kinds_of (tu_uv t' x) = kinds_of (tu_uv t x)"
  by (simp add: resumed_def kinds_of_def)

text \<open>
  The jobs that leave the table over the three steps have ended: an isolated job is in no unit of the
  transaction, so the merge does not touch it, and what a merge flushes is not in the table any more
  when it is reshuffled.
\<close>

lemma commit_dels_ended:
  assumes wf: "tab_wf w t" and ot: "trans_wf w1 ot"
    and i: "isolated ot t w (isos, t1, w1)" and m: "merging ot t1 w1 (fst ` set (tu_data ot)) ((as, ds, us), t2, w2)"
    and s: "shuffling t2 w2 {} (ms, t3, w3)"
  shows "\<forall>j \<in> set isos \<union> set ds. stage_of w3 j = End Cancelled" and "\<forall>j \<in> set ms. stage_of w3 j = End Merged"
    and "all_jobs t3 = (all_jobs t \<union> set as) - set (isos @ ds @ ms)"
proof -
  have i': "all_jobs t1 = all_jobs t - set isos" "set isos \<subseteq> all_jobs t"
    "\<forall>j \<in> set isos. stage_of w1 j = End Cancelled \<and> map_of (tu_data ot) (j_unit (jw_job w j)) = None"
    "\<forall>j. j_unit (jw_job w1 j) = j_unit (jw_job w j)" using i by (simp_all add: isolated_def)
  have m': "all_jobs t2 = (all_jobs t1 \<union> set as) - set ds" "set as \<subseteq> all_jobs ot"
    "\<forall>j \<in> set ds. stage_of w2 j = End Cancelled"
    "\<forall>j. j_unit (jw_job w1 j) \<notin> fst ` set (tu_data ot) \<longrightarrow> jw_job w2 j = jw_job w1 j"
    using m by (simp_all add: merging_def)
  note g = shufflingD [OF s]
  have out: "j_unit (jw_job w1 j) \<notin> fst ` set (tu_data ot)" if "j \<in> set isos" for j
    using that i'(3,4) by (auto simp: map_of_eq_None_iff)
  have na: "j \<notin> set as" if "j \<in> set isos" for j
    using out [OF that] trans_jobs(2) [OF ot] m'(2) by blast
  have nm: "j \<notin> set ms" if "j \<in> set isos \<union> set ds" for j
    using that na i'(1) m'(1) g(3) by blast
  have "stage_of w2 j = End Cancelled" if "j \<in> set isos \<union> set ds" for j
    using that m'(3,4) out i'(3) by auto
  then show "\<forall>j \<in> set isos \<union> set ds. stage_of w3 j = End Cancelled" using nm g(6) by auto
  show "\<forall>j \<in> set ms. stage_of w3 j = End Merged" using g(4) by blast
  show "all_jobs t3 = (all_jobs t \<union> set as) - set (isos @ ds @ ms)"
    using g(2) m'(1) i'(1) na by auto
qed

lemma jt_commit_total:
  assumes inv: "jt_inv w T" and ot: "trans_wf w (jt_unit Tr)"
    and nc: "\<forall>u x. entry_of (jt_unit Tr) u = Some x \<longrightarrow> \<not> is_suspends_conflict (tu_uv (jt_unit Tr) x)"
    and ni: "mode = ModeIsolate \<or> mode = ModeFlush \<Longrightarrow>
      \<forall>u r. entry_of (jt_unit T) u = Some r \<longrightarrow> \<not> ju_interrupt (tu_uv (jt_unit T) r)"
  shows "if jt_id Tr \<inter> jt_id T \<noteq> {} then jt_commit U D Tr mode (T, w) = Some (Inl Internal)
    else \<exists>adds dels upds T' w'. jt_commit U D Tr mode (T, w) = Some (Inr ((adds, dels, upds), T', w')) \<and>
      jt_inv w' T' \<and> jt_id T' = (jt_id T \<union> set adds) - set dels \<and>
      (\<forall>j \<in> set dels. stage_of w' j \<in> {End Cancelled, End Merged}) \<and>
      (\<forall>u x. entry_of (jt_unit Tr) u = Some x \<longrightarrow> kinds_of (tu_uv (jt_unit Tr) x) \<noteq> {} \<longrightarrow>
        (\<exists>r. entry_of (jt_unit T') u = Some r \<and>
             covers (kinds_of (tu_uv (jt_unit Tr) x)) (kinds_of (tu_uv (jt_unit T') r))))"
proof (cases "jt_id Tr \<inter> jt_id T = {}")
  case False
  then show ?thesis by (simp add: jt_commit_def)
next
  case True
  let ?ot = "jt_unit Tr" and ?dn = "fst ` set (tu_data (jt_unit Tr))"
  have ti: "tab_inv w (jt_unit T)" and ids: "jt_id T = all_jobs (jt_unit T)" using inv by (simp_all add: jt_inv_def)
  note wf = tab_invD(1) [OF ti]
  obtain isos T1 w1 where i: "jt_isolate_suspends U Tr mode (T, w) = Some (isos, T1, w1)"
    "isolated ?ot (jt_unit T) w (isos, jt_unit T1, w1)" "jt_id T1 = all_jobs (jt_unit T1)"
    using isolate_step [OF ti ids ni] by blast
  have i': "tab_loose w1 (jt_unit T1)" "set isos \<subseteq> all_jobs (jt_unit T)" "\<forall>j. j \<notin> set isos \<longrightarrow> jw_job w1 j = jw_job w j"
    using i(2) by (simp_all add: isolated_def)
  have ot1: "trans_wf w1 ?ot"
    by (rule trans_wf_unchanged [OF ot])
      (use i'(2,3) table_jobs_stage [OF wf] trans_jobs(1) [OF ot] in blast)
  obtain as ds us T2 w2 where m: "jt_merge_suspends Tr (T1, w1) = Some ((as, ds, us), T2, w2)"
    "merging ?ot (jt_unit T1) w1 ?dn ((as, ds, us), jt_unit T2, w2)" "jt_id T2 = all_jobs (jt_unit T2)"
    using merge_step [OF i'(1) i(3) ot1 nc] by (metis prod_cases3)
  have l2: "tab_loose w2 (jt_unit T2)"
    and rq: "\<forall>u \<in> ?dn. \<forall>x. entry_of ?ot u = Some x \<longrightarrow>
      (\<exists>r. entry_of (jt_unit T2) u = Some r \<and> kinds_of (tu_uv ?ot x) \<subseteq> kinds_of (tu_uv (jt_unit T2) r))"
    using m(2) by (simp_all add: merging_def)
  obtain ms T3 w3 where r: "jt_reshuffle U (T2, w2) = Some (ms, T3, w3)" "tab_inv w3 (jt_unit T3)"
    "shuffling (jt_unit T2) w2 {} (ms, jt_unit T3, w3)" "jt_id T3 = all_jobs (jt_unit T3)"
    using reshuffle_step [OF l2 m(3)] by blast
  obtain T4 where p: "(if isos \<noteq> [] \<or> ds \<noteq> [] then do {
        T1 \<leftarrow> fold_opt (\<lambda>u. process_relation D u True) (jobs_2_units w3 isos) T3;
        fold_opt (\<lambda>u. process_relation D u True) (jobs_2_units w3 ds) T1 } else Some T3) = Some T4"
    "jt_id T4 = jt_id T3" "resumed w3 (jt_unit T3) (jt_unit T4)"
    using resume_step [OF r(2)] by blast
  note e = commit_dels_ended [OF wf ot1 i(2) m(2) r(3)]
  have "jt_commit U D Tr mode (T, w) = Some (Inr ((as, isos @ ds @ ms, us), T4, w3))"
    using True i(1) m(1) r(1) p(1) by (simp add: jt_commit_def)
  moreover have "jt_inv w3 T4" using p(2,3) r(4) resumed_jobs [OF p(3)] by (simp add: jt_inv_def resumed_def)
  moreover have "jt_id T4 = (jt_id T \<union> set as) - set (isos @ ds @ ms)" using p(2) r(4) e(3) ids by simp
  moreover have "\<forall>j \<in> set (isos @ ds @ ms). stage_of w3 j \<in> {End Cancelled, End Merged}" using e(1,2) by auto
  moreover have "\<exists>r. entry_of (jt_unit T4) u = Some r \<and> covers (kinds_of (tu_uv ?ot x)) (kinds_of (tu_uv (jt_unit T4) r))"
    if u: "entry_of ?ot u = Some x" "kinds_of (tu_uv ?ot x) \<noteq> {}" for u x
  proof -
    have "u \<in> ?dn" using u(1) by (force simp: entry_of_def dest: map_of_SomeD)
    then obtain y where y: "entry_of (jt_unit T2) u = Some y" "kinds_of (tu_uv ?ot x) \<subseteq> kinds_of (tu_uv (jt_unit T2) y)"
      using rq u(1) by blast
    then have "kinds_of (tu_uv (jt_unit T2) y) \<noteq> {}" using u(2) by blast
    then have "entry_of (jt_unit T3) u = Some y" "covers (kinds_of (tu_uv (jt_unit T2) y)) (kinds_of (tu_uv (jt_unit T3) y))"
      using shufflingD(9) [OF r(3)] y(1) by blast+
    moreover have "entry_of (jt_unit T4) = entry_of (jt_unit T3)" using p(3) by (simp add: resumed_def same_frame_entry)
    ultimately show ?thesis using kinds_of_resumed [OF p(3)] covers_mono [OF y(2)] by auto
  qed
  ultimately show ?thesis using True by auto
qed

text \<open>
  (C2) Committing a transaction into a table that keeps the invariant succeeds: the result keeps the
  invariant, holds the old jobs and the added ones without the removed ones, every removed job has ended
  (cancelled by the isolation or by a conflict, or merged), and every request of the transaction is in the
  table, as itself or merged into a job of the unit that does at least as much. A transaction that reuses
  an installed id is refused and changes nothing. For an isolating mode no unit may have an interrupted
  trigger (otherwise the flushed entry would still claim one).
\<close>

theorem jt_commit_correct:
  assumes inv: "jt_inv w T" and ot: "trans_wf w (jt_unit Tr)"
    and nc: "\<forall>u x. entry_of (jt_unit Tr) u = Some x \<longrightarrow> \<not> is_suspends_conflict (tu_uv (jt_unit Tr) x)"
    and ni: "mode = ModeIsolate \<or> mode = ModeFlush \<Longrightarrow>
      \<forall>u r. entry_of (jt_unit T) u = Some r \<longrightarrow> \<not> ju_interrupt (tu_uv (jt_unit T) r)"
  shows "if jt_id Tr \<inter> jt_id T \<noteq> {} then jt_commit U D Tr mode (T, w) = Some (Inl Internal)
    else \<exists>adds dels upds T' w'. jt_commit U D Tr mode (T, w) = Some (Inr ((adds, dels, upds), T', w')) \<and>
      jt_inv w' T' \<and> jt_id T' = (jt_id T \<union> set adds) - set dels \<and>
      (\<forall>j \<in> set dels. stage_of w' j \<in> {End Cancelled, End Merged}) \<and>
      (\<forall>u x. entry_of (jt_unit Tr) u = Some x \<longrightarrow> kinds_of (tu_uv (jt_unit Tr) x) \<noteq> {} \<longrightarrow>
        (\<exists>r. entry_of (jt_unit T') u = Some r \<and>
             covers (kinds_of (tu_uv (jt_unit Tr) x)) (kinds_of (tu_uv (jt_unit T') r))))"
  by (rule jt_commit_total [OF assms])

theorem jt_commit_correct_witness:
  "\<exists>c T' w' r w. w = demo_world (\<lambda>i. if i = 0 then (job_new 0 ''a'' Stop)\<lparr>j_stage := Wait\<rparr> else job_new i ''a'' Start) \<and>
     jt_commit demo_ops (\<lambda>_ _. []) (demo_table {1} (demo_entry [(Start, 1)])) ModeReplace
       (demo_table {0} ((demo_entry [(Stop, 0)])\<lparr>ju_order := True, ju_sq := [0], ju_ready := True, ju_up_ready := True\<rparr>), w)
       = Some (Inr (c, T', w')) \<and>
     jt_inv w' T' \<and> entry_of (jt_unit T') ''a'' = Some r \<and> kinds_of (tu_uv (jt_unit T') r) \<noteq> {}"
proof -
  let ?ju = "(demo_entry [(Stop, 0)])\<lparr>ju_order := True, ju_sq := [0], ju_ready := True, ju_up_ready := True\<rparr>"
  define w where "w = demo_world (\<lambda>i. if i = 0 then (job_new 0 ''a'' Stop)\<lparr>j_stage := Wait\<rparr> else job_new i ''a'' Start)"
  let ?T = "demo_table {0} ?ju" and ?o = "demo_entry [(Start, 1)]"
  let ?ot = "jt_unit (demo_table {1} ?o)"
  have j: "jobs_of ?ju = {0}" by (simp add: jobs_of_def demo_entry_def job_unit_new_def)
  have "ju_inv w ?ju" "synced ?ju" "ju_unit ?ju = ''a''" "\<not> is_suspends_conflict ?ju"
    by (simp_all add: w_def ju_inv_def ju_ordered_def ready_of_def queue_of_def one_mutop_def synced_def
        ju_is_empty_def demo_entry_defs)
  from demo_table_inv [OF this] have inv: "jt_inv w ?T" by (simp add: j)
  have en: "entry_of ?ot u = Some r \<longleftrightarrow> u = ''a'' \<and> r = 0" for u r
    by (auto simp: entry_of_def demo_table_def split: if_splits)
  have uv: "tu_uv ?ot r = ?o" for r by (simp add: demo_table_def)
  have "susp_wf w Init ?o" "ju_unit ?o = ''a''" "ju_trigger ?o = None" "\<not> is_suspends_conflict ?o"
    by (simp_all add: w_def demo_entry_defs)
  then have "trans_wf w ?ot" "\<forall>u x. entry_of ?ot u = Some x \<longrightarrow> \<not> is_suspends_conflict (tu_uv ?ot x)"
    by (simp_all add: trans_wf_def en uv) (simp add: demo_table_def)
  from jt_commit_correct [OF inv this, of ModeReplace demo_ops "\<lambda>_ _. []"]
  obtain c T' w' r where c: "jt_commit demo_ops (\<lambda>_ _. []) (demo_table {1} ?o) ModeReplace (?T, w) = Some (Inr (c, T', w'))"
    "jt_inv w' T'" "entry_of (jt_unit T') ''a'' = Some r" "covers (kinds_of ?o) (kinds_of (tu_uv (jt_unit T') r))"
    using en uv by (force simp: demo_table_def kinds_of_def demo_entry_def)
  have "kinds_of ?o \<noteq> {}" by (simp add: kinds_of_def demo_entry_def)
  from covers_nonempty [OF c(4) this] show ?thesis
    by (intro exI [of _ c] exI [of _ T'] exI [of _ w'] exI [of _ r] exI [of _ w] conjI w_def c(1-3))
qed

end
