(* ===== verification/Job_Expand.thy ===== *)
theory Job_Expand
  imports Job_Manager Job_Commit
begin

text \<open>
  A request from the command to the table: the expansion along the dependencies (\<^verbatim>\<open>transaction.rs\<close>) always
  ends, builds a stage of fresh jobs and leaves the installed ones alone, so that what verification accepts can
  be committed (\<^verbatim>\<open>manager.rs\<close>, \<open>exec\<close>).

  \<open>stage_ok\<close> is the invariant of the stage. Termination: every recursive call of the expansion follows the
  staging of a new pair of unit and kind, so the number of pairs not yet staged bounds the depth.
\<close>

section \<open>The stage\<close>

definition staged :: "job_table \<Rightarrow> job_conf set" where
  "staged t = {(u, k). tu_get_suspend (jt_unit t) u k \<noteq> None}"

definition entry_staged :: "'w jworld \<Rightarrow> unit_id \<Rightarrow> job_unit \<Rightarrow> bool" where
  "entry_staged w u ju \<longleftrightarrow> ju_unit ju = u \<and> susp_wf w Init ju \<and> ju_trigger ju = None \<and> \<not> ju_interrupt ju"

definition stage_ok :: "job_id set \<Rightarrow> 'w jworld \<Rightarrow> 'w stage_state \<Rightarrow> bool" where
  "stage_ok I w0 s \<longleftrightarrow> (case s of (a, t, w) \<Rightarrow>
     distinct (map fst (tu_data (jt_unit t))) \<and>
     (\<forall>u r. entry_of (jt_unit t) u = Some r \<longrightarrow> r < tu_next (jt_unit t) \<and> entry_staged w u (tu_uv (jt_unit t) r)) \<and>
     jt_id t = all_jobs (jt_unit t) \<and> jt_id t \<union> I \<subseteq> al_ids a \<and> jt_id t \<inter> I = {} \<and>
     (\<forall>j \<in> I. jw_job w j = jw_job w0 j) \<and> jw_env w = jw_env w0 \<and> jw_rentry w = jw_rentry w0)"

lemma stage_okD:
  assumes "stage_ok I w0 (a, t, w)"
  shows "distinct (map fst (tu_data (jt_unit t)))"
    and "\<And>u r. entry_of (jt_unit t) u = Some r \<Longrightarrow> r < tu_next (jt_unit t) \<and> entry_staged w u (tu_uv (jt_unit t) r)"
    and "jt_id t = all_jobs (jt_unit t)" and "jt_id t \<subseteq> al_ids a" and "I \<subseteq> al_ids a" and "jt_id t \<inter> I = {}"
    and "\<And>j. j \<in> I \<Longrightarrow> jw_job w j = jw_job w0 j" and "jw_env w = jw_env w0" and "jw_rentry w = jw_rentry w0"
  using assms by (auto simp: stage_ok_def)

lemma stage_ok_trans_wf: "stage_ok I w0 (a, t, w) \<Longrightarrow> trans_wf w (jt_unit t)"
  using stage_okD(1,2) [of I w0 a t w] by (simp add: trans_wf_def entry_staged_def)

lemma entry_staged_cong:
  assumes "entry_staged w u ju" and "\<And>j. j \<in> jobs_of ju \<Longrightarrow> jw_job w' j = jw_job w j"
  shows "entry_staged w' u ju"
proof -
  have wf: "susp_wf w Init ju" using assms(1) by (simp add: entry_staged_def)
  have "susp_wf w' Init ju"
    by (rule susp_wf_sub [OF wf susp_wfD(1) [OF wf]]) (use assms(2) in \<open>auto simp: jobs_of_def ran_def\<close>)
  then show ?thesis using assms(1) by (simp add: entry_staged_def)
qed

section \<open>Staging one job\<close>

lemma insert_suspend_staged:
  assumes e: "entry_staged w u ju" and j: "jw_job w j = (job_new j u k)\<lparr>j_time_usec := x, j_attr := y\<rparr>"
    and b: "job_is_basic_op k" and n: "map_of (ju_suspends ju) k = None"
  shows "\<exists>ju'. insert_suspend j False (ju, w) = Some (ju', w) \<and> ju_dirty ju' \<and> entry_staged w u ju' \<and>
    map_of (ju_suspends ju') = (map_of (ju_suspends ju))(k \<mapsto> j)"
proof -
  let ?ju = "ju\<lparr>ju_suspends := AList.update k j (ju_suspends ju), ju_order := False, ju_dirty := True\<rparr>"
  have kj: "kind_of w j = k" "stage_of w j = Init" "j_unit (jw_job w j) = u" "job_ok (jw_job w j)"
    using j by (simp_all add: job_new_def job_ok_def job_rkind_ok_def)
  have "update_ready ?ju = Some (?ju\<lparr>ju_ready := (ready_of ?ju \<noteq> None)\<rparr>)"
    by (rule update_ready_eq) (simp add: interrupt_ok_def)
  moreover have "entry_staged w u (?ju\<lparr>ju_ready := b\<rparr>)" for b
    using e kj b by (auto simp: entry_staged_def susp_wf_def distinct_update update_conv')
  ultimately show ?thesis using e kj b n
    by (auto simp: insert_suspend_def is_trigger_def entry_staged_def update_conv')
qed

lemma all_jobs_staged:
  "stage_ok I w0 (a, t, w) \<Longrightarrow>
   all_jobs (jt_unit t) = {j. \<exists>u r k. entry_of (jt_unit t) u = Some r \<and> map_of (ju_suspends (tu_uv (jt_unit t) r)) k = Some j}"
  using stage_okD(2) [of I w0 a t w] by (fastforce simp: all_jobs_def jobs_of_def ran_def entry_staged_def)

lemma staged_iff:
  "(u, k) \<in> staged t \<longleftrightarrow> (\<exists>r j. entry_of (jt_unit t) u = Some r \<and> map_of (ju_suspends (tu_uv (jt_unit t) r)) k = Some j)"
  by (auto simp: staged_def tu_get_suspend_def entry_of_def get_suspend_def split: option.splits)

lemma new_entry_staged: "entry_staged w u (job_unit_new u)"
  by (simp add: entry_staged_def susp_wf_def job_unit_new_def)

lemma pad_staged:
  assumes ok: "stage_ok I w0 (a, t, w)" and g: "get_uv_pad u (jt_unit t) = (r, t1)"
  shows "stage_ok I w0 (a, t\<lparr>jt_unit := t1\<rparr>, w)" and "entry_of t1 = (entry_of (jt_unit t))(u \<mapsto> r)"
    and "staged (t\<lparr>jt_unit := t1\<rparr>) = staged t"
proof -
  note d = stage_okD [OF ok]
  have "stage_ok I w0 (a, t\<lparr>jt_unit := t1\<rparr>, w) \<and> entry_of t1 = (entry_of (jt_unit t))(u \<mapsto> r) \<and>
    staged (t\<lparr>jt_unit := t1\<rparr>) = staged t"
  proof (cases "entry_of (jt_unit t) u")
    case (Some x)
    then have "t1 = jt_unit t" "r = x" using g by (simp_all add: get_uv_pad_def entry_of_def)
    then show ?thesis using Some ok by auto
  next
    case None
    let ?n = "tu_next (jt_unit t)"
    have r: "r = ?n" and t1: "t1 = set_uv ?n (job_unit_new u) ((jt_unit t)\<lparr>tu_data := AList.update u ?n (tu_data (jt_unit t)), tu_next := Suc ?n\<rparr>)"
      using g None by (auto simp: get_uv_pad_def entry_of_def)
    have en: "entry_of t1 = (entry_of (jt_unit t))(u \<mapsto> r)"
      by (simp add: r t1 entry_of_def set_uv_def update_conv')
    have uv: "tu_uv t1 x = tu_uv (jt_unit t) x" if "entry_of (jt_unit t) v = Some x" for v x
      using d(2) [OF that] by (simp add: t1 set_uv_def)
    have new: "tu_uv t1 r = job_unit_new u" by (simp add: r t1 set_uv_def)
    have e: "x < tu_next t1 \<and> entry_staged w v (tu_uv t1 x)" if v: "entry_of t1 v = Some x" for v x
    proof (cases "v = u")
      case True
      then show ?thesis using v en new new_entry_staged [of w u] by (auto simp: r t1 set_uv_def)
    next
      case False
      then have "entry_of (jt_unit t) v = Some x" using v en by simp
      from d(2) [OF this] uv [OF this] show ?thesis by (simp add: t1 set_uv_def)
    qed
    have none: "ju_suspends (tu_uv t1 r) = []" "ju_trigger (tu_uv t1 r) = None" by (simp_all add: new job_unit_new_def)
    have "other_jobs t1 u = other_jobs (jt_unit t) u" by (rule other_jobs_cong) (use en uv in auto)
    moreover have "jobs_of (tu_uv t1 r) = {}" using none by (simp add: jobs_of_def)
    ultimately have "all_jobs t1 = all_jobs (jt_unit t)"
      using all_jobs_split [of t1 u] all_jobs_split [of "jt_unit t" u] None en by simp
    then have "stage_ok I w0 (a, t\<lparr>jt_unit := t1\<rparr>, w)"
      using d e by (auto simp: stage_ok_def t1 set_uv_def distinct_update)
    moreover have "staged (t\<lparr>jt_unit := t1\<rparr>) = staged t"
    proof -
      have "c \<in> staged (t\<lparr>jt_unit := t1\<rparr>) \<longleftrightarrow> c \<in> staged t" for c
        using none uv None by (cases c) (auto simp: staged_iff en split: if_splits)
      then show ?thesis by blast
    qed
    ultimately show ?thesis using en by blast
  qed
  then show "stage_ok I w0 (a, t\<lparr>jt_unit := t1\<rparr>, w)" and "entry_of t1 = (entry_of (jt_unit t))(u \<mapsto> r)"
    and "staged (t\<lparr>jt_unit := t1\<rparr>) = staged t" by blast+
qed

lemma job_init_attr_init:
  assumes "stage_of w j = Init"
  shows "\<exists>w' y. job_init_attr mode j w = Some w' \<and> jw_job w' = (jw_job w)(j := (jw_job w j)\<lparr>j_attr := y\<rparr>) \<and>
    jw_env w' = jw_env w \<and> jw_rentry w' = jw_rentry w"
proof -
  let ?a = "if mode = ModeIgnoreDependencies \<or> kind_of w j = Nop then (attr_of w j)\<lparr>ignore_order := True\<rparr> else attr_of w j"
  let ?y = "if mode = ModeReplaceIrreversible then ?a\<lparr>irreversible := True\<rparr> else ?a"
  let ?w = "w\<lparr>jw_job := (jw_job w)(j := (jw_job w j)\<lparr>j_attr := ?y\<rparr>)\<rparr>"
  have "job_init_attr mode j w = Some ?w"
    using assms by (cases w) (auto simp: job_init_attr_def upd_job_def)
  then show ?thesis by (intro exI [of _ ?w] exI [of _ ?y]) simp
qed

lemma record_suspend_staged:
  assumes ok: "stage_ok I w0 (a, t, w)" and b: "job_is_basic_op k" and f: "al_ids a \<noteq> UNIV"
  shows "\<exists>a' t' w'. jt_record_suspend U (u, k) mode (a, t, w) = Some ((u, k) \<notin> staged t, a', t', w') \<and>
    stage_ok I w0 (a', t', w') \<and> staged t' = insert (u, k) (staged t) \<and>
    (if (u, k) \<in> staged t then a' = a else \<exists>i. i \<notin> al_ids a \<and> al_ids a' = insert i (al_ids a))"
proof (cases "(u, k) \<in> staged t")
  case True
  then have "tu_get_suspend (jt_unit t) u k \<noteq> None" by (simp add: staged_def)
  then show ?thesis using True ok by (auto simp: jt_record_suspend_def insert_absorb)
next
  case False
  note d = stage_okD [OF ok]
  obtain j a1 where ai: "alloc_id a = Some (j, a1)" using alloc_id_Some [OF f] by blast
  let ?w1 = "job_set_timer U j (upd_job j (\<lambda>_. job_new j u k) w)"
  have al: "alloc_job U (u, k) (a, w) = Some (j, a1, ?w1)" using ai by (simp add: alloc_job_def Let_def)
  note s = alloc_job_SomeD [OF al, simplified]
  obtain x where x: "jw_job ?w1 j = (job_new j u k)\<lparr>j_time_usec := x\<rparr>" using s(4) by auto
  have "stage_of ?w1 j = Init" by (simp add: x) (simp add: job_new_def)
  then obtain w2 y where w2: "job_init_attr mode j ?w1 = Some w2" "jw_job w2 = (jw_job ?w1)(j := (jw_job ?w1 j)\<lparr>j_attr := y\<rparr>)"
    "jw_env w2 = jw_env ?w1" "jw_rentry w2 = jw_rentry ?w1" using job_init_attr_init by blast
  have jj: "jw_job w2 j = (job_new j u k)\<lparr>j_time_usec := x, j_attr := y\<rparr>" using w2(2) x by simp
  have same: "jw_job w2 i = jw_job w i" if "i \<noteq> j" for i using that w2(2) s(3) by simp
  obtain r t1 where g: "get_uv_pad u (jt_unit t) = (r, t1)" by fastforce
  note p = pad_staged [OF ok g]
  note q = stage_okD [OF p(1), simplified]
  have fresh: "j \<notin> al_ids a" using s(1) .
  have tj: "i \<noteq> j" if "i \<in> jt_id t \<union> I" for i using that d(4,5) fresh by blast
  have en: "entry_of t1 u = Some r" by (simp add: p(2))
  have es: "entry_staged w2 v (tu_uv t1 x)" if v: "entry_of t1 v = Some x" for v x
  proof (rule entry_staged_cong)
    show "entry_staged w v (tu_uv t1 x)" using q(2) v by blast
    fix i assume "i \<in> jobs_of (tu_uv t1 x)"
    then have "i \<in> jt_id t" using v q(3) by (auto simp: all_jobs_def)
    then show "jw_job w2 i = jw_job w i" using same tj by blast
  qed
  have nk: "map_of (ju_suspends (tu_uv t1 r)) k = None"
    using False p(3) en staged_iff [of u k "t\<lparr>jt_unit := t1\<rparr>"] by auto
  obtain ju where ju: "insert_suspend j False (tu_uv t1 r, w2) = Some (ju, w2)" "ju_dirty ju" "entry_staged w2 u ju"
    "map_of (ju_suspends ju) = (map_of (ju_suspends (tu_uv t1 r)))(k \<mapsto> j)"
    using insert_suspend_staged [OF es [OF en] jj b nk] by blast
  let ?t2 = "(set_uv r ju t1)\<lparr>tu_sync := False\<rparr>"
  let ?T = "t\<lparr>jt_id := insert j (jt_id t), jt_unit := ?t2\<rparr>"
  have ju2: "j_unit (jw_job w2 j) = u" by (simp add: jj) (simp add: job_new_def)
  have nj: "j \<notin> jt_id t" using d(4) fresh by blast
  have "jt_insert_suspend j (t, w2) = Some (Inr (?T, w2))"
    using nj g ju(1,2) ju2 by (simp add: jt_insert_suspend_def tu_insert_suspend_def)
  then have rec: "jt_record_suspend U (u, k) mode (a, t, w) = Some (True, a1, ?T, w2)"
    using False al w2(1) by (simp add: jt_record_suspend_def staged_def)
  have ne: "x \<noteq> r" if "entry_of t1 v = Some x" "v \<noteq> u" for v x
    using es [OF that(1)] es [OF en] that(2) by (auto simp: entry_staged_def)
  have e2: "x < tu_next ?t2 \<and> entry_staged w2 v (tu_uv ?t2 x)" if v: "entry_of ?t2 v = Some x" for v x
  proof -
    have v1: "entry_of t1 v = Some x" using v by (simp add: entry_of_def set_uv_def)
    then show ?thesis using q(2) [OF v1] es [OF v1] ju(3) en ne [OF v1] by (cases "v = u") (auto simp: set_uv_def)
  qed
  have jr: "jobs_of ju = insert j (jobs_of (tu_uv t1 r))"
    using ju(3,4) es [OF en] nk by (auto simp: jobs_of_def entry_staged_def ran_map_upd)
  have "other_jobs ?t2 u = other_jobs t1 u"
    by (rule other_jobs_cong) (use ne in \<open>auto simp: entry_of_def set_uv_def\<close>)
  then have aj: "all_jobs ?t2 = insert j (all_jobs t1)"
    using all_jobs_split [of ?t2 u] all_jobs_split [of t1 u] en jr by (auto simp: entry_of_def set_uv_def)
  have "stage_ok I w0 (a1, ?T, w2)"
    unfolding stage_ok_def prod.case
  proof (intro conjI allI impI ballI)
    show "distinct (map fst (tu_data (jt_unit ?T)))" using q(1) by (simp add: set_uv_def)
    show "jt_id ?T = all_jobs (jt_unit ?T)" using aj q(3) by simp
    show "jt_id ?T \<union> I \<subseteq> al_ids a1" using d(4,5) s(2) by auto
    show "jt_id ?T \<inter> I = {}" using d(5,6) fresh by auto
    show "jw_env w2 = jw_env w0" "jw_rentry w2 = jw_rentry w0" using w2(3,4) s(5,6) d(8,9) by simp_all
  next
    fix v x assume "entry_of (jt_unit ?T) v = Some x"
    then show "x < tu_next (jt_unit ?T)" "entry_staged w2 v (tu_uv (jt_unit ?T) x)" using e2 by auto
  next
    fix i assume "i \<in> I"
    then show "jw_job w2 i = jw_job w0 i" using same tj d(7) by simp
  qed
  moreover have "staged ?T = insert (u, k) (staged t)"
  proof -
    have "c \<in> staged ?T \<longleftrightarrow> c = (u, k) \<or> c \<in> staged (t\<lparr>jt_unit := t1\<rparr>)" for c
    proof (cases c)
      case (Pair v l)
      have "entry_of ?t2 = entry_of t1" by (simp add: fun_eq_iff entry_of_def set_uv_def)
      then show ?thesis using ju(4) en ne unfolding Pair staged_iff
        by (cases "v = u") (auto simp: set_uv_def)
    qed
    then show ?thesis using p(3) by blast
  qed
  ultimately show ?thesis using False rec s(1,2) by auto
qed

section \<open>Expansion\<close>

text \<open>
  The pairs that can be staged: the units reachable along the dependencies, with a basic kind. There have to be
  as many free ids as pairs that are not staged yet.
\<close>

definition pairs :: "unit_id set \<Rightarrow> job_conf set" where
  "pairs us = us \<times> Collect job_is_basic_op"

definition todo :: "unit_id set \<Rightarrow> 'w stage_state \<Rightarrow> job_conf set" where
  "todo us s = pairs us - staged (fst (snd s))"

definition deps_closed :: "deps \<Rightarrow> unit_id set \<Rightarrow> bool" where
  "deps_closed D us \<longleftrightarrow> finite us \<and> (\<forall>u \<in> us. \<forall>atom. set (D u atom) \<subseteq> us)"

definition room :: "unit_id set \<Rightarrow> 'w stage_state \<Rightarrow> bool" where
  "room us s \<longleftrightarrow> card (todo us s) \<le> card (- al_ids (fst s))"

definition ready :: "unit_id set \<Rightarrow> job_id set \<Rightarrow> 'w jworld \<Rightarrow> nat \<Rightarrow> 'w stage_state \<Rightarrow> bool" where
  "ready us I w0 n s \<longleftrightarrow> stage_ok I w0 s \<and> room us s \<and> card (todo us s) < n"

abbreviation stg :: "'w stage_state \<Rightarrow> job_conf set" where
  "stg s \<equiv> staged (fst (snd s))"

text \<open>An expansion step: it returns, keeps the stage well formed, only adds to it, and fails with \<open>Input\<close> only.\<close>

definition grows :: "unit_id set \<Rightarrow> job_id set \<Rightarrow> 'w jworld \<Rightarrow> nat \<Rightarrow> 'w stage_state \<Rightarrow>
    ((error + unit) \<times> 'w stage_state) option \<Rightarrow> job_conf set \<Rightarrow> bool" where
  "grows us I w0 n s r cs \<longleftrightarrow> (\<exists>x s'. r = Some (x, s') \<and> ready us I w0 n s' \<and> stg s \<subseteq> stg s' \<and>
     (x = Inl Input \<or> x = Inr () \<and> cs \<subseteq> stg s'))"

lemma growsI: "r = Some (x, s') \<Longrightarrow> ready us I w0 n s' \<Longrightarrow> stg s \<subseteq> stg s' \<Longrightarrow> x = Inl Input \<or> x = Inr () \<and> cs \<subseteq> stg s' \<Longrightarrow>
  grows us I w0 n s r cs"
  by (auto simp: grows_def)

lemma growsE:
  assumes "grows us I w0 n s r cs"
  obtains (err) s' where "r = Some (Inl Input, s')" "ready us I w0 n s'" "stg s \<subseteq> stg s'"
    | (fine) s' where "r = Some (Inr (), s')" "ready us I w0 n s'" "stg s \<subseteq> stg s'" "cs \<subseteq> stg s'"
  using assms by (auto simp: grows_def)

lemma finite_basic_kinds [simp]: "finite (Collect job_is_basic_op)"
proof -
  have "k \<in> {Start, Stop, Reload, Restart, Verify, Nop, TryReload, TryRestart, ReloadOrStart}" for k by (cases k) simp_all
  then have "Collect job_is_basic_op \<subseteq> {Start, Stop, Reload, Restart, Verify, Nop, TryReload, TryRestart, ReloadOrStart}" by blast
  then show ?thesis by (rule finite_subset) simp
qed

lemma finite_todo: "deps_closed D us \<Longrightarrow> finite (todo us s)"
  by (simp add: todo_def pairs_def deps_closed_def)

text \<open>What the recursive calls of an expansion satisfy.\<close>

definition rec_ok :: "'w unit_ops \<Rightarrow> unit_id set \<Rightarrow> job_id set \<Rightarrow> 'w jworld \<Rightarrow> nat \<Rightarrow> 'w expander \<Rightarrow> bool" where
  "rec_ok U us I w0 n rec \<longleftrightarrow> (\<forall>c s. fst c \<in> us \<longrightarrow> ready us I w0 n s \<longrightarrow>
     grows us I w0 n s (rec c s) {job_conf_map U c (jw_env w0)})"

lemma rec_okD: "rec_ok U us I w0 n rec \<Longrightarrow> fst c \<in> us \<Longrightarrow> ready us I w0 n s \<Longrightarrow>
  grows us I w0 n s (rec c s) {job_conf_map U c (jw_env w0)}"
  unfolding rec_ok_def by blast

lemma expand_strict_grows:
  assumes "rec_ok U us I w0 n rec"
  shows "set vs \<subseteq> us \<Longrightarrow> ready us I w0 n s \<Longrightarrow>
    grows us I w0 n s (expand_strict rec k vs s) ((\<lambda>v. job_conf_map U (v, k) (jw_env w0)) ` set vs)"
proof (induction vs arbitrary: s)
  case Nil
  then show ?case by (simp add: grows_def)
next
  case (Cons v vs)
  have "grows us I w0 n s (rec (v, k) s) {job_conf_map U (v, k) (jw_env w0)}"
    using Cons.prems by (intro rec_okD [OF assms]) auto
  then show ?case
  proof (cases rule: growsE)
    case (err s1)
    then show ?thesis by (intro growsI [of _ "Inl Input" s1]) simp_all
  next
    case (fine s1)
    have "grows us I w0 n s1 (expand_strict rec k vs s1) ((\<lambda>v. job_conf_map U (v, k) (jw_env w0)) ` set vs)"
      using Cons.IH [OF _ fine(2)] Cons.prems(1) by simp
    then show ?thesis
    proof (cases rule: growsE)
      case (err s2)
      have "expand_strict rec k (v # vs) s = Some (Inl Input, s2)" using fine(1) err(1) by (simp add: case_unit_Unity)
      from growsI [OF this err(2) subset_trans [OF fine(3) err(3)]] show ?thesis by simp
    next
      case fine2: (fine s2)
      have "expand_strict rec k (v # vs) s = Some (Inr (), s2)" using fine(1) fine2(1) by (simp add: case_unit_Unity)
      moreover have "(\<lambda>v. job_conf_map U (v, k) (jw_env w0)) ` set (v # vs) \<subseteq> stg s2"
        using subsetD [OF fine2(3), of "job_conf_map U (v, k) (jw_env w0)"] fine(4) fine2(4) by simp
      ultimately show ?thesis using growsI [OF _ fine2(2) subset_trans [OF fine(3) fine2(3)]] by blast
    qed
  qed
qed

lemma expand_ignored_grows:
  assumes "rec_ok U us I w0 n rec"
  shows "set vs \<subseteq> us \<Longrightarrow> ready us I w0 n s \<Longrightarrow> grows us I w0 n s (expand_ignored rec k vs s) {}"
proof (induction vs arbitrary: s)
  case Nil
  then show ?case by (simp add: grows_def)
next
  case (Cons v vs)
  have "grows us I w0 n s (rec (v, k) s) {job_conf_map U (v, k) (jw_env w0)}"
    using Cons.prems by (intro rec_okD [OF assms]) auto
  then obtain x s1 where s1: "rec (v, k) s = Some (x, s1)" "ready us I w0 n s1" "stg s \<subseteq> stg s1" by (auto simp: grows_def)
  have "grows us I w0 n s1 (expand_ignored rec k vs s1) {}" using Cons.IH [OF _ s1(2)] Cons.prems(1) by simp
  then obtain y s2 where s2: "expand_ignored rec k vs s1 = Some (y, s2)" "ready us I w0 n s2" "stg s1 \<subseteq> stg s2"
    "y = Inl Input \<or> y = Inr ()" by (auto simp: grows_def)
  show ?case by (rule growsI [of _ y s2]) (use s1 s2 in auto)
qed

lemma seq_grows:
  assumes "grows us I w0 n s (f s) cs" and "\<And>s'. ready us I w0 n s' \<Longrightarrow> grows us I w0 n s' (g s') ds"
  shows "grows us I w0 n s (seq_res f g s) (cs \<union> ds)"
  using assms(1)
proof (cases rule: growsE)
  case (err s1)
  then show ?thesis by (intro growsI [of _ "Inl Input" s1]) (simp_all add: seq_res_def)
next
  case (fine s1)
  from assms(2) [OF fine(2)] show ?thesis
  proof (cases rule: growsE)
    case (err s2)
    have "seq_res f g s = Some (Inl Input, s2)" using fine(1) err(1) by (simp add: seq_res_def case_unit_Unity)
    from growsI [OF this err(2) subset_trans [OF fine(3) err(3)]] show ?thesis by simp
  next
    case fine2: (fine s2)
    have "seq_res f g s = Some (Inr (), s2)" using fine(1) fine2(1) by (simp add: seq_res_def case_unit_Unity)
    moreover have "cs \<union> ds \<subseteq> stg s2" using subset_trans [OF fine(4) fine2(3)] fine2(4) by simp
    ultimately show ?thesis using growsI [OF _ fine2(2) subset_trans [OF fine(3) fine2(3)]] by blast
  qed
qed

lemma seq_grows_fun:
  assumes "\<And>s. ready us I w0 n s \<Longrightarrow> grows us I w0 n s (f s) cs" and "\<And>s. ready us I w0 n s \<Longrightarrow> grows us I w0 n s (g s) ds"
    and "ready us I w0 n s"
  shows "grows us I w0 n s (seq_res f g s) (cs \<union> ds)"
  by (rule seq_grows) (use assms in blast)+

lemma grows_sub: "grows us I w0 n s r cs \<Longrightarrow> ds \<subseteq> cs \<Longrightarrow> grows us I w0 n s r ds"
  by (fastforce simp: grows_def)

lemma start_grows:
  assumes r: "rec_ok U us I w0 n rec" and D: "deps_closed D us" and u: "fst c \<in> us" and s: "ready us I w0 n s"
  shows "grows us I w0 n s (trans_expand_start D rec c s)
    ((\<lambda>v. job_conf_map U (v, Start) (jw_env w0)) ` set (D (fst c) UnitAtomPullInStart) \<union>
     (\<lambda>v. job_conf_map U (v, Stop) (jw_env w0)) ` set (D (fst c) UnitAtomPullInStop))"
proof -
  have d: "set (D (fst c) atom) \<subseteq> us" for atom using D u by (simp add: deps_closed_def)
  note strict = expand_strict_grows [OF r d] and ignored = expand_ignored_grows [OF r d]
  let ?st = "\<lambda>k atom. (\<lambda>v. job_conf_map U (v, k) (jw_env w0)) ` set (D (fst c) atom)"
  have "grows us I w0 n s (trans_expand_start D rec c s)
      (?st Start UnitAtomPullInStart \<union> ({} \<union> (?st Verify UnitAtomPullInVerify \<union> (?st Stop UnitAtomPullInStop \<union> {}))))"
    unfolding trans_expand_start_def
    by (intro seq_grows_fun strict ignored s)
  then show ?thesis by (rule grows_sub) blast
qed

lemma stop_grows:
  assumes r: "rec_ok U us I w0 n rec" and D: "deps_closed D us" and u: "fst c \<in> us" and s: "ready us I w0 n s"
    and k: "snd c \<in> {Stop, Restart}"
  shows "grows us I w0 n s (trans_expand_stop D rec c s)
    (if snd c = Stop then (\<lambda>v. job_conf_map U (v, Stop) (jw_env w0)) ` set (D (fst c) UnitAtomPropagateStop) else {})"
proof -
  have d: "set (D (fst c) atom) \<subseteq> us" for atom using D u by (simp add: deps_closed_def)
  from k show ?thesis
    using grows_sub [OF expand_strict_grows [OF r d s], of "{}"] expand_strict_grows [OF r d s]
    by (auto simp: trans_expand_stop_def)
qed

text \<open>The jobs a new job of this kind has to bring along.\<close>

definition pulled :: "'w unit_ops \<Rightarrow> deps \<Rightarrow> 'w \<Rightarrow> job_conf \<Rightarrow> job_conf set" where
  "pulled U D e c =
     (if snd c \<in> {Start, Restart}
      then (\<lambda>v. job_conf_map U (v, Start) e) ` set (D (fst c) UnitAtomPullInStart) \<union>
           (\<lambda>v. job_conf_map U (v, Stop) e) ` set (D (fst c) UnitAtomPullInStop)
      else if snd c = Stop then (\<lambda>v. job_conf_map U (v, Stop) e) ` set (D (fst c) UnitAtomPropagateStop) else {})"

lemma kind_grows:
  assumes r: "rec_ok U us I w0 n rec" and D: "deps_closed D us" and u: "fst c \<in> us" and s: "ready us I w0 n s"
    and k: "job_is_basic_op (snd c)"
  shows "grows us I w0 n s (trans_expand_kind D rec c s) (pulled U D (jw_env w0) c)"
proof -
  have d: "set (D (fst c) atom) \<subseteq> us" for atom using D u by (simp add: deps_closed_def)
  have same: "grows us I w0 n s (Some (Inr (), s)) {}" by (rule growsI [OF refl s]) simp_all
  show ?thesis
  proof (cases "snd c")
    case Restart
    have "grows us I w0 n s' (trans_expand_stop D rec c s') {}" if "ready us I w0 n s'" for s'
      using stop_grows [OF r D u that] Restart by simp
    from seq_grows_fun [where f = "trans_expand_start D rec c", OF start_grows [OF r D u] this s] show ?thesis
      using Restart by (simp add: trans_expand_kind_def pulled_def)
  next
    case Verify
    then have e: "trans_expand_kind D rec c s = Some (Inr (), s)" "pulled U D (jw_env w0) c = {}"
      by (simp_all add: trans_expand_kind_def pulled_def)
    show ?thesis unfolding e by (rule same)
  next
    case Nop
    then have e: "trans_expand_kind D rec c s = Some (Inr (), s)" "pulled U D (jw_env w0) c = {}"
      by (simp_all add: trans_expand_kind_def pulled_def)
    show ?thesis unfolding e by (rule same)
  qed (use k start_grows [OF r D u s] stop_grows [OF r D u s] expand_ignored_grows [OF r d s] in
      \<open>simp_all add: trans_expand_kind_def pulled_def trans_expand_reload_def\<close>)
qed

lemma job_merge_unit_basic: "job_is_basic_op (job_merge_unit k b)"
  by (cases k; cases b) simp_all

lemma check_input_total: "\<exists>r. trans_expand_check_input U c e = Some r \<and> (r = Inr () \<or> r = Inl Input)"
proof (cases c)
  case (Pair u k)
  show ?thesis
  proof (cases "unit_load_complete U u e")
    case True
    show ?thesis
    proof (cases "k = Stop")
      case True
      then show ?thesis by (simp add: trans_expand_check_input_def Pair job_is_unit_applicable_def)
    next
      case False
      have "e' \<noteq> UnitActionEBadR" if "unit_validate_load_state U u e = Inl e'" for e'
        using that validate_load_state_not_EBadR [of U u e] by auto
      then show ?thesis using False
        by (cases "unit_validate_load_state U u e") (simp_all add: trans_expand_check_input_def Pair case_unit_Unity)
    qed
  qed (simp add: trans_expand_check_input_def Pair)
qed

text \<open>
  One call: the pair is staged, and if it is new the dependencies are expanded with one pair less to go.
\<close>

lemma record_ready:
  assumes D: "deps_closed D us" and s: "ready us I w0 (Suc n) s" and c: "fst c \<in> us" "job_is_basic_op (snd c)"
    and id: "al_ids (fst s) \<noteq> UNIV \<or> c \<in> stg s"
  shows "\<exists>s'. jt_record_suspend U c mode s = Some (c \<notin> stg s, s') \<and> stg s' = insert c (stg s) \<and>
    ready us I w0 (Suc n) s' \<and> (c \<notin> stg s \<longrightarrow> ready us I w0 n s')"
proof -
  obtain a t w where s': "s = (a, t, w)" by (cases s)
  obtain u k where c': "c = (u, k)" by (cases c)
  have ok: "stage_ok I w0 (a, t, w)" and rm: "room us (a, t, w)" and cd: "card (todo us (a, t, w)) < Suc n"
    using s by (simp_all add: ready_def s')
  show ?thesis
  proof (cases "c \<in> staged t")
    case True
    then obtain y where "tu_get_suspend (jt_unit t) u k = Some y" by (auto simp: c' staged_def)
    then have "jt_record_suspend U c mode s = Some (False, s)"
      by (simp add: jt_record_suspend_def s' c')
    then show ?thesis using True s by (auto simp: s' insert_absorb)
  next
    case False
    then have "al_ids a \<noteq> UNIV" using id by (simp add: s')
    from record_suspend_staged [OF ok c(2) this, of U "fst c" mode] obtain a' t' w' i where
      r: "jt_record_suspend U c mode (a, t, w) = Some (True, a', t', w')" "stage_ok I w0 (a', t', w')"
      "staged t' = insert c (staged t)" "i \<notin> al_ids a" "al_ids a' = insert i (al_ids a)"
      using False c' by auto
    have ct: "c \<in> todo us (a, t, w)" using c False c' by (auto simp: todo_def pairs_def)
    have td: "todo us (a', t', w') = todo us (a, t, w) - {c}" using r(3) by (auto simp: todo_def)
    have card: "card (todo us (a', t', w')) = card (todo us (a, t, w)) - 1" "card (todo us (a, t, w)) > 0"
      unfolding td using ct finite_todo [OF D, of "(a, t, w)"] by (auto simp: card_gt_0_iff)
    have "- al_ids a' = - al_ids a - {i}" using r(5) by auto
    then have "card (- al_ids a') = card (- al_ids a) - 1" using r(4) by simp
    then have "room us (a', t', w')" using rm card by (simp add: room_def)
    moreover have "card (todo us (a', t', w')) < n" using card cd by linarith
    ultimately show ?thesis using r(1-3) False by (intro exI [of _ "(a', t', w')"]) (simp add: ready_def s')
  qed
qed

lemma ready_Suc: "ready us I w0 n s \<Longrightarrow> ready us I w0 (Suc n) s"
  by (simp add: ready_def)

lemma ready_ids:
  assumes "deps_closed D us" and "ready us I w0 n s" and "fst c \<in> us" and "job_is_basic_op (snd c)"
  shows "al_ids (fst s) \<noteq> UNIV \<or> c \<in> stg s"
proof (cases "c \<in> stg s")
  case False
  then have "c \<in> todo us s" using assms(3,4) by (cases c) (auto simp: todo_def pairs_def)
  then have "card (todo us s) > 0" using finite_todo [OF assms(1), of s] by (auto simp: card_gt_0_iff)
  then have "card (- al_ids (fst s)) > 0" using assms(2) by (simp add: ready_def room_def)
  then show ?thesis by auto
qed simp

lemma expand_grows:
  "deps_closed D us \<Longrightarrow> fst c \<in> us \<Longrightarrow> ready us I w0 n s \<Longrightarrow>
   grows us I w0 n s (job_trans_expand U D mode n c s)
     (insert (job_conf_map U c (jw_env w0))
       (if job_conf_map U c (jw_env w0) \<in> stg s \<or> mode \<in> {ModeIgnoreDependencies, ModeIgnoreRequirements} then {}
        else pulled U D (jw_env w0) (job_conf_map U c (jw_env w0))))"
proof (induction n arbitrary: c s)
  case 0
  then show ?case by (simp add: ready_def)
next
  case (Suc n)
  let ?e = "jw_env w0" and ?c = "job_conf_map U c (jw_env w0)"
  let ?rec = "job_trans_expand U D mode n"
  have rec: "rec_ok U us I w0 n ?rec"
    unfolding rec_ok_def
  proof (intro allI impI)
    fix c :: job_conf and s assume "fst c \<in> us" "ready us I w0 n s"
    from Suc.IH [OF Suc.prems(1) this] show "grows us I w0 n s (?rec c s) {job_conf_map U c ?e}" by (rule grows_sub) simp
  qed
  have env: "jw_env (snd (snd s)) = ?e" using Suc.prems(3) by (cases s) (simp add: ready_def stage_ok_def)
  have c: "fst ?c \<in> us" "job_is_basic_op (snd ?c)" using Suc.prems(2) by (simp_all add: job_conf_map_def job_merge_unit_basic)
  obtain r where r: "trans_expand_check_input U c ?e = Some r" "r = Inr () \<or> r = Inl Input"
    using check_input_total [of U c ?e] by (elim exE conjE)
  show ?case
  proof (cases "r = Inl Input")
    case True
    then have "job_trans_expand U D mode (Suc n) c s = Some (Inl Input, s)" using r(1) env by simp
    from growsI [OF this Suc.prems(3)] show ?thesis by simp
  next
    case False
    then have r: "trans_expand_check_input U c ?e = Some (Inr ())" using r by simp
    obtain s1 where s1: "jt_record_suspend U ?c mode s = Some (?c \<notin> stg s, s1)" "stg s1 = insert ?c (stg s)"
      "ready us I w0 (Suc n) s1" "?c \<notin> stg s \<longrightarrow> ready us I w0 n s1"
      using record_ready [OF Suc.prems(1,3) c ready_ids [OF Suc.prems(1,3) c], of U mode] by (elim exE conjE)
    have eq: "job_trans_expand U D mode (Suc n) c s =
        (if trans_is_expand ?c (?c \<notin> stg s) mode then trans_expand_kind D ?rec ?c s1 else Some (Inr (), s1))"
      using r s1(1) env by (simp add: case_unit_Unity)
    show ?thesis
    proof (cases "trans_is_expand ?c (?c \<notin> stg s) mode")
      case True
      then have new: "?c \<notin> stg s" by (auto simp: trans_is_expand_def split: if_splits)
      then have "ready us I w0 n s1" using s1(4) by simp
      from kind_grows [OF rec Suc.prems(1) c(1) this c(2)] show ?thesis
      proof (cases rule: growsE)
        case (err s2)
        have "job_trans_expand U D mode (Suc n) c s = Some (Inl Input, s2)" using eq True err(1) by simp
        from growsI [OF this ready_Suc [OF err(2)]] show ?thesis using err(3) s1(2) by simp
      next
        case (fine s2)
        have "job_trans_expand U D mode (Suc n) c s = Some (Inr (), s2)" using eq True fine(1) by simp
        from growsI [OF this ready_Suc [OF fine(2)]] show ?thesis using fine(3,4) s1(2) by simp
      qed
    next
      case False
      then have "job_trans_expand U D mode (Suc n) c s = Some (Inr (), s1)" using eq by simp
      moreover have "insert ?c (if ?c \<in> stg s \<or> mode \<in> {ModeIgnoreDependencies, ModeIgnoreRequirements} then {} else pulled U D ?e ?c) \<subseteq> stg s1"
        using False s1(2) by (auto simp: trans_is_expand_def pulled_def split: if_splits)
      moreover have "stg s \<subseteq> stg s1" using s1(2) by blast
      ultimately show ?thesis using growsI [OF _ s1(3)] by blast
    qed
  qed
qed

section \<open>The jobs a mode adds\<close>

lemma ignored_step:
  assumes "rec_ok U us I w0 n rec" and "fst c \<in> us" and "ready us I w0 n s"
    and "\<And>s1. ready us I w0 n s1 \<Longrightarrow> grows us I w0 n s1 (f s1) {}"
  shows "grows us I w0 n s (do { (_, s1) \<leftarrow> rec c s; f s1 }) {}"
proof -
  obtain x s1 where s1: "rec c s = Some (x, s1)" "ready us I w0 n s1" "stg s \<subseteq> stg s1"
    using rec_okD [OF assms(1-3)] by (auto simp: grows_def)
  obtain y s2 where s2: "f s1 = Some (y, s2)" "ready us I w0 n s2" "stg s1 \<subseteq> stg s2" "y = Inl Input \<or> y = Inr ()"
    using assms(4) [OF s1(2)] by (auto simp: grows_def)
  show ?thesis by (rule growsI [of _ y s2]) (use s1 s2 in auto)
qed

lemma isolate_grows:
  assumes "rec_ok U us I w0 n rec"
  shows "set vs \<subseteq> us \<Longrightarrow> ready us I w0 n s \<Longrightarrow> grows us I w0 n s (isolate_scan U rec vs s) {}"
proof (induction vs arbitrary: s)
  case (Cons v vs)
  have "grows us I w0 n s (do { (_, s1) \<leftarrow> rec (v, Stop) s; isolate_scan U rec vs s1 }) {}"
    by (rule ignored_step [OF assms]) (use Cons in auto)
  then show ?case using Cons by simp
qed (simp add: grows_def)

lemma trigger_grows:
  assumes "rec_ok U us I w0 n rec"
  shows "set vs \<subseteq> us \<Longrightarrow> ready us I w0 n s \<Longrightarrow> grows us I w0 n s (trigger_scan rec u vs s) {}"
proof (induction vs arbitrary: s)
  case (Cons v vs)
  have "grows us I w0 n s (do { (_, s1) \<leftarrow> rec (v, Stop) s; trigger_scan rec u vs s1 }) {}"
    by (rule ignored_step [OF assms]) (use Cons in auto)
  then show ?case using Cons by simp
qed (simp add: grows_def)

lemma expand_rec_ok: "deps_closed D us \<Longrightarrow> rec_ok U us I w0 n (job_trans_expand U D mode n)"
  unfolding rec_ok_def by (intro allI impI) (rule grows_sub [OF expand_grows], assumption+, simp)

lemma affect_grows:
  assumes D: "deps_closed D us" and c: "fst c \<in> us" and vs: "set units \<subseteq> us" and s: "ready us I w0 n s"
    and i: "job_trans_check_input c mode = Inr ()"
  shows "grows us I w0 n s (job_trans_affect U D units c mode n s) {}"
proof -
  note rec = expand_rec_ok [OF D]
  have same: "grows us I w0 n s (Some (Inr (), s)) {}" by (rule growsI [OF refl s]) simp_all
  have "set (D (fst c) UnitAtomTriggeredBy) \<subseteq> us" using D c by (simp add: deps_closed_def)
  note t = trigger_grows [OF rec this s] and iso_grows = isolate_grows [OF rec vs s]
  show ?thesis
    by (cases mode) (use i same t iso_grows in \<open>simp_all add: job_trans_affect_def trans_affect_isolate_def
        trans_affect_trigger_def job_trans_check_input_def split: if_splits\<close>)
qed

section \<open>Verification\<close>

lemma conflict_free_iff:
  assumes "distinct (map fst (tu_data t))"
  shows "\<not> tu_is_suspends_conflict t \<longleftrightarrow> (\<forall>u r. entry_of t u = Some r \<longrightarrow> \<not> is_suspends_conflict (tu_uv t r))"
  using map_of_eq_Some_iff [OF assms] by (auto simp: tu_is_suspends_conflict_def entry_of_def list_ex_iff)

lemma replace_scan_total:
  assumes "\<And>u r. (u, r) \<in> set es \<Longrightarrow> \<not> is_suspends_conflict (tu_uv t r)"
    and "\<And>u r. entry_of ot u = Some r \<Longrightarrow> \<not> is_suspends_conflict (tu_uv ot r)"
  shows "replace_scan w t ot es \<noteq> None"
  using assms(1)
proof (induction es)
  case (Cons e es)
  obtain u r where e: "e = (u, r)" by (cases e)
  have nc: "\<not> is_suspends_conflict (tu_uv t r)" using Cons.prems [of u r] e by simp
  have IH: "replace_scan w t ot es \<noteq> None" using Cons.prems by (intro Cons.IH) (metis list.set_intros(2))
  show ?case
  proof (cases "map_of (tu_data ot) u")
    case None
    then show ?thesis using IH by (simp add: e)
  next
    case (Some x)
    then have "\<not> is_suspends_conflict (tu_uv ot x)" using assms(2) [of u x] by (simp add: entry_of_def)
    then obtain b where "is_suspends_replace_with w (tu_uv t r) (tu_uv ot x) = Some b"
      using nc by (simp add: is_suspends_replace_with_def Let_def)
    then show ?thesis using Some IH by (cases b) (simp_all add: e)
  qed
qed simp

lemma verify_total:
  assumes inv: "jt_inv w' T" and ok: "distinct (map fst (tu_data (jt_unit Tr)))"
  shows "\<exists>r. job_trans_verify w Tr T mode = Some r \<and> (r = Inl Conflict \<or>
    r = Inr () \<and> (\<forall>u x. entry_of (jt_unit Tr) u = Some x \<longrightarrow> \<not> is_suspends_conflict (tu_uv (jt_unit Tr) x)))"
proof (cases "tu_is_suspends_conflict (jt_unit Tr)")
  case True
  then show ?thesis by (simp add: job_trans_verify_def trans_verify_is_conflict_def)
next
  case False
  note nc = False [unfolded conflict_free_iff [OF ok], rule_format]
  have d: "distinct (map fst (tu_data (jt_unit T)))"
    and nt: "\<And>u r. entry_of (jt_unit T) u = Some r \<Longrightarrow> \<not> is_suspends_conflict (tu_uv (jt_unit T) r)"
    using inv by (auto simp: jt_inv_def tab_inv_def tab_wf_def ready_wf_def)
  have nt': "\<not> tu_is_suspends_conflict (jt_unit T)" using nt by (simp add: conflict_free_iff [OF d])
  have "\<not> is_suspends_conflict (tu_uv (jt_unit T) r)" if "(u, r) \<in> set (tu_data (jt_unit T))" for u r
    using that nt map_of_eq_Some_iff [OF d] by (simp add: entry_of_def)
  then have "tu_is_suspends_replace_with w (jt_unit T) (jt_unit Tr) \<noteq> None"
    unfolding tu_is_suspends_replace_with_def by (rule replace_scan_total) (use nc in auto)
  then obtain b where b: "tu_is_suspends_replace_with w (jt_unit T) (jt_unit Tr) = Some b" by blast
  have "\<exists>r. job_trans_verify w Tr T mode = Some r \<and> (r = Inl Conflict \<or> r = Inr ())"
    using False b nt'
    by (simp add: job_trans_verify_def trans_verify_is_conflict_def trans_verify_is_destructive_def case_unit_Unity)
  then obtain r where r: "job_trans_verify w Tr T mode = Some r" "r = Inl Conflict \<or> r = Inr ()" by (elim exE conjE)
  from r(2) show ?thesis
  proof
    assume "r = Inl Conflict"
    then show ?thesis using r(1) by simp
  next
    assume "r = Inr ()"
    then show ?thesis using r(1) nc by simp
  qed
qed

lemma jt_inv_cong:
  assumes "jt_inv w T" and "\<And>j. j \<in> jt_id T \<Longrightarrow> jw_job w' j = jw_job w j"
  shows "jt_inv w' T"
proof -
  have "ju_inv w' (tu_uv (jt_unit T) r) = ju_inv w (tu_uv (jt_unit T) r)" if "entry_of (jt_unit T) u = Some r" for u r
    using that assms by (intro ju_inv_cong) (auto simp: jt_inv_def all_jobs_def)
  then show ?thesis using assms(1) by (auto simp: jt_inv_def tab_inv_def tab_wf_def)
qed

section \<open>A request\<close>

lemma clear_stage_ready:
  assumes D: "deps_closed D us" and i: "jt_id (jm_jobs m) \<subseteq> al_ids (jm_alloc m)"
    and ids: "6 * card us \<le> card (- al_ids (jm_alloc m))" and n: "6 * card us < n"
  defines "m1 \<equiv> jm_clear_stage m"
  shows "ready us (jt_id (jm_jobs m)) (jm_world m1) n (jm_alloc m1, jm_stage m1, jm_world m1)"
proof -
  have k: "Collect job_is_basic_op = {Start, Stop, Reload, Restart, Verify, Nop}"
    using job_is_basic_op.simps by (auto elim!: job_is_basic_op.elims)
  have "card (Collect job_is_basic_op) = 6" unfolding k by simp
  then have "card (pairs us) = 6 * card us" by (simp add: pairs_def card_cartesian_product)
  moreover have "staged (jm_stage m1) = {}"
    by (auto simp: m1_def jm_clear_stage_def jt_clear_def tu_clear_def staged_def tu_get_suspend_def)
  ultimately have "card (todo us (jm_alloc m1, jm_stage m1, jm_world m1)) = 6 * card us" by (simp add: todo_def)
  moreover have "stage_ok (jt_id (jm_jobs m)) (jm_world m1) (jm_alloc m1, jm_stage m1, jm_world m1)"
    using i by (simp add: m1_def jm_clear_stage_def jt_clear_def tu_clear_def stage_ok_def entry_of_def all_jobs_def)
  moreover have "jm_alloc m1 = jm_alloc m" by (simp add: m1_def jm_clear_stage_def jt_clear_def)
  ultimately show ?thesis using ids n by (simp add: ready_def room_def)
qed

text \<open>What a request leads to: the jobs it stages directly, and the jobs those pull in.\<close>

definition requested :: "'w env \<Rightarrow> job_conf \<Rightarrow> job_mode \<Rightarrow> 'w jmgr \<Rightarrow> job_conf set" where
  "requested E config mode m = (let c = job_conf_map (env_ops E) config (jw_env (jm_world m)) in
     insert c (if mode \<in> {ModeIgnoreDependencies, ModeIgnoreRequirements} then {}
               else pulled (env_ops E) (env_deps E) (jw_env (jm_world m)) c))"

lemma build_stage_grows:
  assumes D: "deps_closed (env_deps E) us" and c: "fst config \<in> us" and vs: "set (env_units E) \<subseteq> us"
    and inv: "jt_inv (jm_world m) (jm_jobs m)" and i: "jt_id (jm_jobs m) \<subseteq> al_ids (jm_alloc m)"
    and ids: "6 * card us \<le> card (- al_ids (jm_alloc m))" and n: "6 * card us < env_bound E"
    and ci: "job_trans_check_input config mode = Inr ()"
  shows "\<exists>r a t w. jm_build_stage E config mode (jm_clear_stage m) = Some (r, jm_with_stage (jm_clear_stage m) (a, t, w)) \<and>
    stage_ok (jt_id (jm_jobs m)) (jm_world (jm_clear_stage m)) (a, t, w) \<and> (r = Inl Input \<or> r = Inl Conflict \<or>
      r = Inr () \<and> requested E config mode m \<subseteq> staged t \<and>
      (\<forall>u x. entry_of (jt_unit t) u = Some x \<longrightarrow> \<not> is_suspends_conflict (tu_uv (jt_unit t) x)))"
proof -
  let ?m = "jm_clear_stage m" and ?I = "jt_id (jm_jobs m)" and ?n = "env_bound E" and ?D = "env_deps E" and ?U = "env_ops E"
  let ?w = "jm_world ?m" and ?s = "(jm_alloc ?m, jm_stage ?m, jm_world ?m)"
  have env: "jw_env ?w = jw_env (jm_world m)" and job: "jw_job ?w = jw_job (jm_world m)" and jm: "jm_jobs ?m = jm_jobs m"
    and st: "stg ?s = {}"
    by (auto simp: jm_clear_stage_def jt_clear_def tu_clear_def staged_def tu_get_suspend_def)
  have rd: "ready us ?I ?w ?n ?s" by (rule clear_stage_ready [OF D i ids n])
  have g: "grows us ?I ?w ?n ?s (job_trans_expand ?U ?D mode ?n config ?s) (requested E config mode m)"
    using expand_grows [OF D c rd, of ?U mode] unfolding st requested_def Let_def env by simp
  have ok: "stage_ok ?I ?w s" if "ready us ?I ?w ?n s" for s using that by (simp add: ready_def)
  from g show ?thesis
  proof (cases rule: growsE)
    case (err s1)
    obtain a t w where s1: "s1 = (a, t, w)" by (cases s1)
    have "jm_build_stage E config mode ?m = Some (Inl Input, jm_with_stage ?m (a, t, w))"
      using err(1) by (simp add: jm_build_stage_def s1)
    then show ?thesis using ok [OF err(2)] s1 by blast
  next
    case (fine s1)
    from affect_grows [OF D c vs fine(2) ci, of ?U] show ?thesis
    proof (cases rule: growsE)
      case (err s2)
      obtain a t w where s2: "s2 = (a, t, w)" by (cases s2)
      have "jm_build_stage E config mode ?m = Some (Inl Input, jm_with_stage ?m (a, t, w))"
        using fine(1) err(1) by (simp add: jm_build_stage_def case_unit_Unity s2)
      then show ?thesis using ok [OF err(2)] s2 by blast
    next
      case fine2: (fine s2)
      obtain a t w where s2: "s2 = (a, t, w)" by (cases s2)
      have sk: "stage_ok ?I ?w (a, t, w)" using ok [OF fine2(2)] s2 by simp
      obtain r where r: "job_trans_verify w t (jm_jobs m) mode = Some r"
        "r = Inl Conflict \<or> r = Inr () \<and> (\<forall>u x. entry_of (jt_unit t) u = Some x \<longrightarrow> \<not> is_suspends_conflict (tu_uv (jt_unit t) x))"
        using verify_total [OF inv stage_okD(1) [OF sk], of w mode] by (elim exE conjE)
      have "jm_build_stage E config mode ?m = Some (r, jm_with_stage ?m (a, t, w))"
        using fine(1) fine2(1) r(1) jm by (simp add: jm_build_stage_def case_unit_Unity s2 jm_with_stage_def)
      moreover have "requested E config mode m \<subseteq> staged t" using subset_trans [OF fine(4) fine2(3)] s2 by simp
      ultimately show ?thesis using sk r(2) by blast
    qed
  qed
qed

lemma request_total:
  assumes D: "deps_closed (env_deps E) us" and c: "fst config \<in> us" and vs: "set (env_units E) \<subseteq> us"
    and inv: "jt_inv (jm_world m) (jm_jobs m)" and i: "jt_id (jm_jobs m) \<subseteq> al_ids (jm_alloc m)"
    and ids: "6 * card us \<le> card (- al_ids (jm_alloc m))" and n: "6 * card us < env_bound E"
    and ci: "job_trans_check_input config mode = Inr ()"
    and ni: "mode = ModeIsolate \<or> mode = ModeFlush \<longrightarrow>
      (\<forall>u r. entry_of (jt_unit (jm_jobs m)) u = Some r \<longrightarrow> \<not> ju_interrupt (tu_uv (jt_unit (jm_jobs m)) r))"
  shows "\<exists>r m1. jm_build_stage E config mode (jm_clear_stage m) = Some (r, m1) \<and>
    jm_jobs m1 = jm_jobs m \<and> (\<forall>j \<in> jt_id (jm_jobs m). jw_job (jm_world m1) j = jw_job (jm_world m) j) \<and>
    (r = Inl Input \<or> r = Inl Conflict \<or> r = Inr () \<and>
      (\<exists>adds dels upds T w. jt_commit (env_ops E) (env_deps E) (jm_stage m1) mode (jm_jobs m1, jm_world m1) =
           Some (Inr ((adds, dels, upds), T, w)) \<and> jt_inv w T \<and> jt_id T = (jt_id (jm_jobs m) \<union> set adds) - set dels \<and>
         (\<forall>(u, k) \<in> requested E config mode m. \<exists>x. entry_of (jt_unit T) u = Some x \<and>
            covers {k} (kinds_of (tu_uv (jt_unit T) x)))))"
proof -
  let ?m = "jm_clear_stage m"
  obtain r a t w where b: "jm_build_stage E config mode ?m = Some (r, jm_with_stage ?m (a, t, w))"
    and ok: "stage_ok (jt_id (jm_jobs m)) (jm_world ?m) (a, t, w)"
    and r: "r = Inl Input \<or> r = Inl Conflict \<or> r = Inr () \<and> requested E config mode m \<subseteq> staged t \<and>
      (\<forall>u x. entry_of (jt_unit t) u = Some x \<longrightarrow> \<not> is_suspends_conflict (tu_uv (jt_unit t) x))"
    using build_stage_grows [OF D c vs inv i ids n ci] by (elim exE conjE)
  let ?m1 = "jm_with_stage ?m (a, t, w)"
  have job: "jw_job (jm_world ?m) = jw_job (jm_world m)" and jobs: "jm_jobs ?m1 = jm_jobs m" and sw: "jm_stage ?m1 = t" "jm_world ?m1 = w"
    by (simp_all add: jm_clear_stage_def jt_clear_def jm_with_stage_def)
  have keep: "\<forall>j \<in> jt_id (jm_jobs m). jw_job w j = jw_job (jm_world m) j" using stage_okD(7) [OF ok] job by simp
  have committed: "\<exists>adds dels upds T v. jt_commit (env_ops E) (env_deps E) t mode (jm_jobs m, w) =
      Some (Inr ((adds, dels, upds), T, v)) \<and> jt_inv v T \<and> jt_id T = (jt_id (jm_jobs m) \<union> set adds) - set dels \<and>
      (\<forall>(u, k) \<in> requested E config mode m. \<exists>x. entry_of (jt_unit T) u = Some x \<and> covers {k} (kinds_of (tu_uv (jt_unit T) x)))"
    if rq: "requested E config mode m \<subseteq> staged t"
      and nc: "\<forall>u x. entry_of (jt_unit t) u = Some x \<longrightarrow> \<not> is_suspends_conflict (tu_uv (jt_unit t) x)"
  proof -
    have "jt_inv w (jm_jobs m)" by (rule jt_inv_cong [OF inv]) (use keep in blast)
    from jt_commit_total [where U = "env_ops E" and D = "env_deps E" and mode = mode, OF this stage_ok_trans_wf [OF ok] nc mp [OF ni]] stage_okD(6) [OF ok]
    obtain adds dels upds T v where T: "jt_commit (env_ops E) (env_deps E) t mode (jm_jobs m, w) = Some (Inr ((adds, dels, upds), T, v))"
      "jt_inv v T" "jt_id T = (jt_id (jm_jobs m) \<union> set adds) - set dels"
      and cv: "\<And>u x. entry_of (jt_unit t) u = Some x \<Longrightarrow> kinds_of (tu_uv (jt_unit t) x) \<noteq> {} \<Longrightarrow>
        \<exists>r. entry_of (jt_unit T) u = Some r \<and> covers (kinds_of (tu_uv (jt_unit t) x)) (kinds_of (tu_uv (jt_unit T) r))"
      by (auto split: if_splits)
    have "\<exists>x. entry_of (jt_unit T) u = Some x \<and> covers {k} (kinds_of (tu_uv (jt_unit T) x))"
      if "(u, k) \<in> requested E config mode m" for u k
    proof -
      have "(u, k) \<in> staged t" using that rq by blast
      then obtain x j where x: "entry_of (jt_unit t) u = Some x" "map_of (ju_suspends (tu_uv (jt_unit t) x)) k = Some j"
        unfolding staged_iff by (elim exE conjE)
      then have "k \<in> kinds_of (tu_uv (jt_unit t) x)" by (auto simp: kinds_of_def)
      then show ?thesis using cv [OF x(1)] by (auto simp: covers_def)
    qed
    then show ?thesis using T by blast
  qed
  show ?thesis
    by (rule exI [of _ r], rule exI [of _ ?m1], unfold jobs sw, intro conjI, rule b, rule refl, rule keep)
      (use r committed in blast)
qed

text \<open>
  (C3) From a request to the table: on a manager that keeps its invariant, with an id left for every pair of unit and
  kind and a bound above their number, a well-formed request is always answered. Building its transaction
  leaves the installed jobs alone and fails with a bad input or a conflict only. Otherwise the transaction
  holds the requested job and the jobs it pulls in, and committing it succeeds: the table keeps its invariant,
  and what was requested is in it, as itself or merged into a job of its unit that does at least as much.
  The isolating modes need that no unit has an interrupted trigger.
\<close>

theorem request_committed:
  assumes D: "deps_closed (env_deps E) us" and c: "fst config \<in> us" and vs: "set (env_units E) \<subseteq> us"
    and inv: "jt_inv (jm_world m) (jm_jobs m)" and i: "jt_id (jm_jobs m) \<subseteq> al_ids (jm_alloc m)"
    and ids: "6 * card us \<le> card (- al_ids (jm_alloc m))" and n: "6 * card us < env_bound E"
    and ci: "job_trans_check_input config mode = Inr ()"
    and ni: "mode = ModeIsolate \<or> mode = ModeFlush \<longrightarrow>
      (\<forall>u r. entry_of (jt_unit (jm_jobs m)) u = Some r \<longrightarrow> \<not> ju_interrupt (tu_uv (jt_unit (jm_jobs m)) r))"
  shows "\<exists>r m1. jm_build_stage E config mode (jm_clear_stage m) = Some (r, m1) \<and>
    jm_jobs m1 = jm_jobs m \<and> (\<forall>j \<in> jt_id (jm_jobs m). jw_job (jm_world m1) j = jw_job (jm_world m) j) \<and>
    (r = Inl Input \<or> r = Inl Conflict \<or> r = Inr () \<and>
      (\<exists>adds dels upds T w. jt_commit (env_ops E) (env_deps E) (jm_stage m1) mode (jm_jobs m1, jm_world m1) =
           Some (Inr ((adds, dels, upds), T, w)) \<and> jt_inv w T \<and> jt_id T = (jt_id (jm_jobs m) \<union> set adds) - set dels \<and>
         (\<forall>(u, k) \<in> requested E config mode m. \<exists>x. entry_of (jt_unit T) u = Some x \<and>
            covers {k} (kinds_of (tu_uv (jt_unit T) x)))))"
  by (rule request_total [OF assms])

text \<open>A pair whose input is fine is staged, even if the expansion of its dependencies fails.\<close>

lemma expand_stages:
  assumes D: "deps_closed D us" and c: "fst c \<in> us" and s: "ready us I w0 (Suc n) s"
    and i: "trans_expand_check_input U c (jw_env w0) = Some (Inr ())"
  shows "\<exists>x s'. job_trans_expand U D mode (Suc n) c s = Some (x, s') \<and> ready us I w0 (Suc n) s' \<and>
    insert (job_conf_map U c (jw_env w0)) (stg s) \<subseteq> stg s'"
proof -
  let ?c = "job_conf_map U c (jw_env w0)"
  have env: "jw_env (snd (snd s)) = jw_env w0" using s by (cases s) (simp add: ready_def stage_ok_def)
  have b: "fst ?c \<in> us" "job_is_basic_op (snd ?c)" using c by (simp_all add: job_conf_map_def job_merge_unit_basic)
  obtain s1 where s1: "jt_record_suspend U ?c mode s = Some (?c \<notin> stg s, s1)" "stg s1 = insert ?c (stg s)"
    "ready us I w0 (Suc n) s1" "?c \<notin> stg s \<longrightarrow> ready us I w0 n s1"
    using record_ready [OF D s b ready_ids [OF D s b], of U mode] by (elim exE conjE)
  have eq: "job_trans_expand U D mode (Suc n) c s =
      (if trans_is_expand ?c (?c \<notin> stg s) mode then trans_expand_kind D (job_trans_expand U D mode n) ?c s1 else Some (Inr (), s1))"
    using i s1(1) env by (simp add: case_unit_Unity)
  show ?thesis
  proof (cases "trans_is_expand ?c (?c \<notin> stg s) mode")
    case True
    then have "ready us I w0 n s1" using s1(4) by (auto simp: trans_is_expand_def split: if_splits)
    from kind_grows [OF expand_rec_ok [OF D, where U = U and mode = mode] D b(1) this b(2)]
    obtain x s2 where s2: "trans_expand_kind D (job_trans_expand U D mode n) ?c s1 = Some (x, s2)" "ready us I w0 n s2" "stg s1 \<subseteq> stg s2"
      unfolding grows_def by (elim exE conjE)
    then show ?thesis using eq True s1(2) ready_Suc [OF s2(2)] by simp
  next
    case False
    then have "job_trans_expand U D mode (Suc n) c s = Some (Inr (), s1)" using eq by (simp only: if_False)
    then show ?thesis using s1(2,3) by blast
  qed
qed

lemma isolate_scan_stops:
  assumes D: "deps_closed D us" and i: "trans_expand_check_input U (u, Stop) (jw_env w0) = Some (Inr ())"
    and ig: "\<not> IgnoreOnIsolate (uo_config U u (jw_env w0))" and u: "u \<in> us"
  shows "u \<in> set vs \<Longrightarrow> set vs \<subseteq> us \<Longrightarrow> ready us I w0 (Suc n) s \<Longrightarrow> (u, k) \<in> stg s \<Longrightarrow>
    isolate_scan U (job_trans_expand U D mode (Suc n)) vs s = Some (x, s') \<Longrightarrow> {(u, k), (u, Stop)} \<subseteq> stg s'"
proof (induction vs arbitrary: s)
  case (Cons v vs)
  let ?rec = "job_trans_expand U D mode (Suc n)"
  have keep: "(u, l) \<in> stg s'" if "isolate_scan U ?rec vs s1 = Some (x, s')" "ready us I w0 (Suc n) s1" "(u, l) \<in> stg s1" for l s1
    using isolate_grows [OF expand_rec_ok [OF D] _ that(2), of vs U mode] that Cons.prems(2) by (auto simp: grows_def)
  have env: "jw_env (snd (snd s)) = jw_env w0" using Cons.prems(3) by (cases s) (simp add: ready_def stage_ok_def)
  show ?case
  proof (cases "v = u")
    case True
    have "tu_is_unit_empty (jt_unit (fst (snd s))) u"
      using Cons.prems(4) by (auto simp: tu_is_unit_empty_def staged_def tu_get_suspend_def split: option.splits)
    moreover obtain y s1 where s1: "?rec (u, Stop) s = Some (y, s1)" "ready us I w0 (Suc n) s1" "insert (u, Stop) (stg s) \<subseteq> stg s1"
      using expand_stages [OF D _ Cons.prems(3) i, of mode] u by (auto simp: job_conf_map_def)
    ultimately have "isolate_scan U ?rec vs s1 = Some (x, s')"
      using Cons.prems(5) True ig env by (simp del: job_trans_expand.simps)
    then show ?thesis using keep [OF _ s1(2)] s1(3) Cons.prems(4) by blast
  next
    case False
    have u': "u \<in> set vs" "set vs \<subseteq> us" using False Cons.prems(1,2) by auto
    show ?thesis
    proof (cases "isolate_scan U ?rec (v # vs) s = isolate_scan U ?rec vs s")
      case True
      show ?thesis by (rule Cons.IH [OF u' Cons.prems(3,4)]) (use Cons.prems(5) True in \<open>simp only:\<close>)
    next
      case False
      then obtain y s1 where s1: "?rec (v, Stop) s = Some (y, s1)" "isolate_scan U ?rec vs s1 = Some (x, s')"
        using Cons.prems(5) by (auto simp del: job_trans_expand.simps split: if_splits bind_splits)
      have "grows us I w0 (Suc n) s (?rec (v, Stop) s) {job_conf_map U (v, Stop) (jw_env w0)}"
        by (rule rec_okD [OF expand_rec_ok [OF D]]) (use Cons.prems in auto)
      then have "ready us I w0 (Suc n) s1" "stg s \<subseteq> stg s1" using s1(1) by (auto simp: grows_def)
      then show ?thesis using Cons.IH [OF u' _ _ s1(2)] Cons.prems(4) by blast
    qed
  qed
qed simp

lemma stop_and_start_conflict:
  assumes ok: "stage_ok I w0 (a, t, w)" and "{(u, Start), (u, Stop)} \<subseteq> staged t"
  shows "tu_is_suspends_conflict (jt_unit t)"
proof -
  obtain r where r: "entry_of (jt_unit t) u = Some r" "{Start, Stop} \<subseteq> kinds_of (tu_uv (jt_unit t) r)"
    using assms(2) by (fastforce simp: staged_iff kinds_of_def)
  have "susp_ok (tu_uv (jt_unit t) r)" using stage_okD(2) [OF ok r(1)] susp_wfD(1) by (auto simp: entry_staged_def)
  then have "is_suspends_conflict (tu_uv (jt_unit t) r)" using r(2) by (auto simp: conflict_iff)
  then show ?thesis using conflict_free_iff [OF stage_okD(1) [OF ok]] r(1) by blast
qed

lemma jm_with_stage_inject [simp]: "jm_with_stage m x = jm_with_stage m y \<longleftrightarrow> x = y"
  by (cases m; cases x; cases y) (simp add: jm_with_stage_def)


lemma jm_new_inv: "jt_inv (jm_world (jm_new w)) (jm_jobs (jm_new w))"
  by (simp add: jm_new_def jt_inv_def tab_inv_def tab_wf_def ready_wf_def job_table_new_def job_unit_table_new_def
      entry_of_def all_jobs_def ready_abs_def bt_sorted_def)

declare alloc_id.simps [code]

definition demo_env :: "(unit_id \<Rightarrow> unit_active_state) env" where
  "demo_env = \<lparr>env_ops = demo_ops,
     env_deps = (\<lambda>u atom. if u = ''a'' \<and> atom = UnitAtomPullInStart then [''b''] else []),
     env_is_dep = (\<lambda>_ _ _. False), env_units = [''a'', ''b''], env_bound = 13\<rparr>"


theorem request_committed_witness:
  "\<exists>m1 c T w x y. jm_build_stage demo_env (''a'', Start) ModeReplace (jm_clear_stage (jm_new (demo_world (\<lambda>i. job_new i [] Nop)))) =
       Some (Inr (), m1) \<and>
     jt_commit demo_ops (env_deps demo_env) (jm_stage m1) ModeReplace (jm_jobs m1, jm_world m1) = Some (Inr (c, T, w)) \<and>
     jt_inv w T \<and> entry_of (jt_unit T) ''a'' = Some x \<and> entry_of (jt_unit T) ''b'' = Some y \<and>
     covers {Start} (kinds_of (tu_uv (jt_unit T) x)) \<and> covers {Start} (kinds_of (tu_uv (jt_unit T) y))"
proof -
  let ?m = "jm_new (demo_world (\<lambda>i. job_new i [] Nop))" and ?us = "{''a'', ''b''}"
  have D: "deps_closed (env_deps demo_env) ?us" by (auto simp: deps_closed_def demo_env_def)
  have ids: "6 * card ?us \<le> card (- al_ids (jm_alloc ?m))" by (simp add: jm_new_def job_alloc_new_def Compl_empty_eq card_word)
  note inv = jm_new_inv
  have rq: "requested demo_env (''a'', Start) ModeReplace ?m = {(''a'', Start), (''b'', Start)}"
    by code_simp
  have fine: "map_option fst (jm_build_stage demo_env (''a'', Start) ModeReplace (jm_clear_stage ?m)) = Some (Inr ())"
    by code_simp
  have c: "fst (''a'', Start) \<in> ?us" "set (env_units demo_env) \<subseteq> ?us" "jt_id (jm_jobs ?m) \<subseteq> al_ids (jm_alloc ?m)"
    "6 * card ?us < env_bound demo_env" "job_trans_check_input (''a'', Start) ModeReplace = Inr ()"
    by (simp_all add: demo_env_def jm_new_def job_table_new_def job_trans_check_input_def)
  have ni: "ModeReplace = ModeIsolate \<or> ModeReplace = ModeFlush \<longrightarrow>
      (\<forall>u r. entry_of (jt_unit (jm_jobs ?m)) u = Some r \<longrightarrow> \<not> ju_interrupt (tu_uv (jt_unit (jm_jobs ?m)) r))" by simp
  obtain r m1 where b: "jm_build_stage demo_env (''a'', Start) ModeReplace (jm_clear_stage ?m) = Some (r, m1)"
    and r: "r = Inl Input \<or> r = Inl Conflict \<or> r = Inr () \<and>
      (\<exists>adds dels upds T w. jt_commit (env_ops demo_env) (env_deps demo_env) (jm_stage m1) ModeReplace (jm_jobs m1, jm_world m1) =
           Some (Inr ((adds, dels, upds), T, w)) \<and> jt_inv w T \<and> jt_id T = (jt_id (jm_jobs ?m) \<union> set adds) - set dels \<and>
         (\<forall>(u, k) \<in> requested demo_env (''a'', Start) ModeReplace ?m. \<exists>x. entry_of (jt_unit T) u = Some x \<and>
            covers {k} (kinds_of (tu_uv (jt_unit T) x))))"
    using request_committed [OF D c(1,2) inv c(3) ids c(4,5) ni] by (elim exE conjE)
  have "r = Inr ()" using b fine by simp
  then obtain adds dels upds T w where T: "jt_commit (env_ops demo_env) (env_deps demo_env) (jm_stage m1) ModeReplace (jm_jobs m1, jm_world m1) =
      Some (Inr ((adds, dels, upds), T, w))" "jt_inv w T"
    "\<forall>(u, k) \<in> requested demo_env (''a'', Start) ModeReplace ?m. \<exists>x. entry_of (jt_unit T) u = Some x \<and>
            covers {k} (kinds_of (tu_uv (jt_unit T) x))"
    using r by (simp only: sum.distinct simp_thms) (elim exE conjE)
  have o: "env_ops demo_env = demo_ops" by (simp add: demo_env_def)
  obtain x y where "entry_of (jt_unit T) ''a'' = Some x" "covers {Start} (kinds_of (tu_uv (jt_unit T) x))"
    "entry_of (jt_unit T) ''b'' = Some y" "covers {Start} (kinds_of (tu_uv (jt_unit T) y))"
    using T(3) unfolding rq by auto
  then show ?thesis using b T(1,2) \<open>r = Inr ()\<close> unfolding o
    by (intro exI [of _ m1] exI [of _ "(adds, dels, upds)"] exI [of _ T] exI [of _ w] exI [of _ x] exI [of _ y]) simp
qed

end
