(* ===== verification/Unit_Limit.thy ===== *)
theory Unit_Limit
  imports Prelude
begin

text \<open>
  The limit on the starts of a unit (\<^verbatim>\<open>core/bin/unit/entry/ratelimit.rs\<close>) and its use by \<open>Unit::test_start_limit\<close>
  (\<^verbatim>\<open>core/bin/unit/entry/uentry.rs\<close>). \<open>Instant::now\<close> is the argument \<open>now\<close>, in nanoseconds of a clock that never
  goes back; \<open>as_secs\<close> rounds down.
\<close>

section \<open>The limit\<close>

record rate_limit =
  rl_interval :: u64
  rl_burst :: "32 word"
  rl_begin :: "nat option"
  rl_nums :: "32 word"

definition ratelimit_new :: "u64 \<Rightarrow> 32 word \<Rightarrow> rate_limit" where
  "ratelimit_new interval burst = \<lparr>rl_interval = interval, rl_burst = burst, rl_begin = None, rl_nums = 0\<rparr>"

definition ratelimit_enabled :: "rate_limit \<Rightarrow> bool" where
  "ratelimit_enabled r \<longleftrightarrow> rl_interval r > 0 \<and> rl_burst r > 0"

definition nsec :: nat where
  "nsec = 1000000000"

definition ratelimit_below :: "nat \<Rightarrow> rate_limit \<Rightarrow> bool \<times> rate_limit" where
  "ratelimit_below now r =
     (if \<not> ratelimit_enabled r then (True, r)
      else if (case rl_begin r of None \<Rightarrow> True | Some b \<Rightarrow> (now - b) div nsec > unat (rl_interval r))
        then (True, r\<lparr>rl_begin := Some now, rl_nums := 1\<rparr>)
      else if rl_nums r < rl_burst r then (True, r\<lparr>rl_nums := rl_nums r + 1\<rparr>)
      else (False, r))"

definition rl_init_from_config :: "u64 \<Rightarrow> 32 word \<Rightarrow> rate_limit \<Rightarrow> rate_limit" where
  "rl_init_from_config interval burst r = r\<lparr>rl_interval := interval, rl_burst := burst\<rparr>"

record start_limit =
  sl_hit :: bool
  sl_limit :: rate_limit

definition start_limit_new :: start_limit where
  "start_limit_new = \<lparr>sl_hit = False, sl_limit = ratelimit_new 0 0\<rparr>"

datatype start_limit_result = StartLimitNotHit | StartLimitHit

text \<open>The result is the answer, what is reported to the data manager, and the new limit.\<close>

definition test_start_limit ::
  "u64 \<Rightarrow> 32 word \<Rightarrow> nat \<Rightarrow> start_limit \<Rightarrow> bool \<times> start_limit_result \<times> start_limit" where
  "test_start_limit StartLimitInterval StartLimitBurst now l =
     (let l1 = (if StartLimitInterval > 0 \<and> StartLimitBurst > 0
                then l\<lparr>sl_limit := rl_init_from_config StartLimitInterval StartLimitBurst (sl_limit l)\<rparr> else l);
          (below, r) = ratelimit_below now (sl_limit l1);
          l2 = l1\<lparr>sl_limit := r\<rparr> in
      if below then (True, StartLimitNotHit, l2\<lparr>sl_hit := False\<rparr>)
      else (False, StartLimitHit, l2\<lparr>sl_hit := True\<rparr>))"

text \<open>The starts that pass, for tests at the times \<open>ts\<close>.\<close>

fun starts :: "u64 \<Rightarrow> 32 word \<Rightarrow> nat list \<Rightarrow> start_limit \<Rightarrow> nat list" where
  "starts i b [] l = []"
| "starts i b (t # ts) l = (case test_start_limit i b t l of (ok, _, l') \<Rightarrow> (if ok then [t] else []) @ starts i b ts l')"

section \<open>How many starts pass\<close>

text \<open>
  Inside a configuration the limit is at every moment the pair of the begin of its window and the number of starts
  in it; the count never exceeds the burst, so it never overflows.
\<close>

definition limit_inv :: "u64 \<Rightarrow> 32 word \<Rightarrow> nat \<Rightarrow> nat \<Rightarrow> start_limit \<Rightarrow> bool" where
  "limit_inv i b g n l \<longleftrightarrow> rl_begin (sl_limit l) = Some g \<and> rl_nums (sl_limit l) = of_nat n \<and> 1 \<le> n \<and> n \<le> unat b"

definition window :: "u64 \<Rightarrow> nat" where
  "window i = (unat i + 1) * nsec"

lemma test_start_limit_first:
  assumes "i > 0" and "b > 0" and "rl_begin (sl_limit l) = None"
  shows "\<exists>l'. test_start_limit i b t l = (True, StartLimitNotHit, l') \<and> limit_inv i b t 1 l'"
  using assms unat_gt_0 [of b]
  by (simp add: test_start_limit_def rl_init_from_config_def ratelimit_below_def ratelimit_enabled_def limit_inv_def
      word_neq_0_conv Suc_le_eq)

lemma new_window: "(t - g) div nsec > unat i \<longleftrightarrow> g + window i \<le> t"
proof -
  have "(t - g) div nsec > unat i \<longleftrightarrow> (unat i + 1) * nsec \<le> t - g"
    by (simp add: Suc_le_eq [symmetric] less_eq_div_iff_mult_less_eq nsec_def)
  also have "\<dots> \<longleftrightarrow> g + window i \<le> t" by (auto simp: window_def nsec_def)
  finally show ?thesis .
qed

lemma test_start_limit_cases:
  assumes "i > 0" and "b > 0" and "limit_inv i b g n l"
  shows "(if g + window i \<le> t then \<exists>l'. test_start_limit i b t l = (True, StartLimitNotHit, l') \<and> limit_inv i b t 1 l'
    else if n < unat b then \<exists>l'. test_start_limit i b t l = (True, StartLimitNotHit, l') \<and> limit_inv i b g (n + 1) l'
    else \<exists>l'. test_start_limit i b t l = (False, StartLimitHit, l') \<and> limit_inv i b g n l')"
proof -
  let ?r = "sl_limit l"
  have l: "rl_begin ?r = Some g" "rl_nums ?r = of_nat n" "1 \<le> n" "n \<le> unat b" using assms(3) by (auto simp: limit_inv_def)
  have n: "unat (of_nat n :: 32 word) = n" using l(4) by (metis le_unat_uoi)
  then have "(of_nat n :: 32 word) < b \<longleftrightarrow> n < unat b" by (simp add: word_less_nat_alt)
  then show ?thesis using l assms(1,2) new_window [of i t g] unat_gt_0 [of b]
    by (simp add: test_start_limit_def rl_init_from_config_def ratelimit_below_def ratelimit_enabled_def limit_inv_def
        word_neq_0_conv Suc_le_eq)
qed

lemma start_passes_iff:
  assumes "i > 0" and "b > 0" and "limit_inv i b g n l"
  shows "fst (test_start_limit i b t l) \<longleftrightarrow> g + (unat i + 1) * nsec \<le> t \<or> n < unat b"
  using test_start_limit_cases [OF assms, of t] by (auto simp: window_def split: if_splits)

abbreviation within :: "u64 \<Rightarrow> nat \<Rightarrow> nat list \<Rightarrow> nat" where
  "within i a ts \<equiv> length (filter (\<lambda>t. a \<le> t \<and> t < a + window i) ts)"

lemma starts_subset: "set (starts i b ts l) \<subseteq> set ts"
  by (induction ts arbitrary: l) (auto split: prod.splits if_splits)

text \<open>One test, with the number of starts left in the window of the limit.\<close>

lemma starts_step:
  assumes "i > 0" and "b > 0" and "limit_inv i b g n l"
  obtains (fresh) l' where "g + window i \<le> t" "starts i b (t # ts) l = t # starts i b ts l'" "limit_inv i b t 1 l'"
  | (more) l' where "t < g + window i" "n < unat b" "starts i b (t # ts) l = t # starts i b ts l'" "limit_inv i b g (n + 1) l'"
  | (full) l' where "starts i b (t # ts) l = starts i b ts l'" "limit_inv i b g n l'"
  using test_start_limit_cases [OF assms, of t] by (auto split: if_splits)

text \<open>Starts counted in a stretch of one window, by where the current window of the limit begins.\<close>

lemma starts_late_window:
  assumes "i > 0" and "b > 0" and "limit_inv i b g n l" and "a \<le> g" and "sorted ts"
  shows "within i a (starts i b ts l) \<le> unat b - n"
  using assms(3-5)
proof (induction ts arbitrary: g n l)
  case (Cons t ts)
  from assms(1,2) Cons.prems(1) show ?case
  proof (cases rule: starts_step [where t = t and ts = ts])
    case (fresh l')
    have "\<forall>x \<in> set (t # starts i b ts l'). a + window i \<le> x"
      using fresh(1) Cons.prems(2,3) subsetD [OF starts_subset [of i b ts l']] by fastforce
    then have "within i a (t # starts i b ts l') = 0" unfolding length_0_conv filter_empty_conv by (simp add: not_less)
    then show ?thesis unfolding fresh(2) by simp
  next
    case (more l')
    from Cons.IH [OF more(4) Cons.prems(2)] show ?thesis using more(2,3) Cons.prems(3) by auto
  next
    case (full l')
    from Cons.IH [OF full(2) Cons.prems(2)] show ?thesis using full(1) Cons.prems(3) by simp
  qed
qed simp

lemma starts_open_window:
  assumes "i > 0" and "b > 0" and "limit_inv i b g n l" and "sorted ts" and "\<forall>t \<in> set ts. a \<le> t"
  shows "within i a (starts i b ts l) \<le> (unat b - n) + unat b"
  using assms(3-5)
proof (induction ts arbitrary: g n l)
  case (Cons t ts)
  from assms(1,2) Cons.prems(1) show ?case
  proof (cases rule: starts_step [where t = t and ts = ts])
    case (fresh l')
    have "within i a (starts i b ts l') \<le> unat b - 1"
      by (rule starts_late_window [OF assms(1,2) fresh(3)]) (use Cons.prems(2,3) in auto)
    moreover have "1 \<le> unat b" using fresh(3) by (auto simp: limit_inv_def)
    ultimately show ?thesis unfolding fresh(2) by auto
  next
    case (more l')
    from Cons.IH [OF more(4)] show ?thesis using more(2,3) Cons.prems(2,3) by auto
  next
    case (full l')
    from Cons.IH [OF full(2)] show ?thesis using full(1) Cons.prems(2,3) by simp
  qed
qed simp

lemma starts_two_windows:
  assumes "i > 0" and "b > 0" and "limit_inv i b g n l" and "sorted ts"
  shows "within i a (starts i b ts l) \<le> 2 * unat b"
  using assms(3,4)
proof (induction ts arbitrary: g n l)
  case (Cons t ts)
  show ?case
  proof (cases "a \<le> t")
    case True
    then have "\<forall>x \<in> set (t # ts). a \<le> x" using Cons.prems(2) by auto
    from starts_open_window [OF assms(1,2) Cons.prems this] show ?thesis by linarith
  next
    case False
    from assms(1,2) Cons.prems(1) show ?thesis
      by (cases rule: starts_step [where t = t and ts = ts]) (use Cons.IH Cons.prems(2) False in auto)
  qed
qed simp

lemma no_limit: "i = 0 \<or> b = 0 \<Longrightarrow> starts i b ts start_limit_new = ts"
proof (induction ts)
  case (Cons t ts)
  have "test_start_limit i b t start_limit_new = (True, StartLimitNotHit, start_limit_new)"
    using Cons.prems by (auto simp: test_start_limit_def ratelimit_below_def ratelimit_enabled_def start_limit_new_def ratelimit_new_def)
  then show ?case using Cons by simp
qed simp

text \<open>
  (C23) The start limit of a unit: in any stretch of time up to a second longer than the configured interval at most twice
  the burst of starts passes, the first start always passes, and a start is refused only while the window of the limit
  lasts and its burst is used up.
\<close>

theorem start_limit_bounds:
  assumes "sorted ts" and "i > 0" and "b > 0"
  shows "length (filter (\<lambda>t. a \<le> t \<and> t < a + (unat i + 1) * nsec) (starts i b ts start_limit_new)) \<le> 2 * unat b \<and>
    (ts \<noteq> [] \<longrightarrow> hd ts \<in> set (starts i b ts start_limit_new)) \<and>
    (\<forall>g n l t. limit_inv i b g n l \<longrightarrow>
      (fst (test_start_limit i b t l) \<longleftrightarrow> g + (unat i + 1) * nsec \<le> t \<or> n < unat b))"
proof (cases ts)
  case (Cons t us)
  have "rl_begin (sl_limit start_limit_new) = None" by (simp add: start_limit_new_def ratelimit_new_def)
  from test_start_limit_first [OF assms(2,3) this, of t]
  obtain l where l: "starts i b ts start_limit_new = t # starts i b us l" "limit_inv i b t 1 l" using Cons by auto
  have us: "sorted us" "\<forall>x \<in> set us. t \<le> x" using assms(1) Cons by auto
  have "within i a (t # starts i b us l) \<le> 2 * unat b"
  proof (cases "a \<le> t")
    case True
    have "1 \<le> unat b" using l(2) by (auto simp: limit_inv_def)
    with starts_late_window [OF assms(2,3) l(2) True us(1)] show ?thesis by auto
  next
    case False
    with starts_two_windows [OF assms(2,3) l(2) us(1), of a] show ?thesis by simp
  qed
  then show ?thesis unfolding l(1) by (simp add: Cons window_def start_passes_iff [OF assms(2,3)])
qed (simp add: start_passes_iff [OF assms(2,3)])

theorem start_limit_bounds_witness:
  "length (filter (\<lambda>t. 0 \<le> t \<and> t < 11 * nsec) (starts 10 5 [0, 1, 2, 3, 4, 5, 6] start_limit_new)) \<le> 10"
  using start_limit_bounds [of "[0, 1, 2, 3, 4, 5, 6]" 10 5 0] by simp

end
