(* ===== verification/Unit_Manager.thy ===== *)
theory Unit_Manager
  imports Job_Expand Unit_Load Unit_Limit
begin

text \<open>
  The unit manager (\<^verbatim>\<open>core/bin/unit/manager.rs\<close>): the commands that start, stop, restart and reload a unit, the questions the
  unit types ask (\<open>UmIf\<close>), the reaction to a change of state, to a start limit and to a job that timed out, with the
  emergency actions; and the main loop that turns the state of the manager into its next action
  (\<^verbatim>\<open>core/bin/manager/mod.rs\<close>). A command loads the unit (\<open>Unit_Load\<close>) and hands a request to the job manager
  (\<open>Job_Manager\<close>) together with the dependencies the load left in the store.

  The configuration of a unit and the unit types are arguments. \<open>None\<close> is a panic or an exhausted bound.
\<close>

section \<open>State\<close>

datatype emergency_action =
  ActNone | ActReboot | ActRebootForce | ActRebootImmediate | ActPoweroff | ActPoweroffForce | ActPoweroffImmediate
  | ActExit | ActExitForce

definition emergency_action_from :: "string \<Rightarrow> emergency_action" where
  "emergency_action_from s =
     (if s = ''none'' then ActNone
      else if s = ''reboot'' then ActReboot
      else if s = ''reboot-force'' then ActRebootForce
      else if s = ''reboot-immediate'' then ActRebootImmediate
      else if s = ''poweroff'' then ActPoweroff
      else if s = ''poweroff-force'' then ActPoweroffForce
      else if s = ''poweroff-immediate'' then ActPoweroffImmediate
      else if s = ''exit'' then ActExit
      else if s = ''exit-force'' then ActExitForce
      else ActNone)"

record um_conf =
  RefuseManualStart :: bool
  RefuseManualStop :: bool
  SuccessAction :: emergency_action
  FailureAction :: emergency_action
  StartLimitAction :: emergency_action
  JobTimeoutAction :: emergency_action

datatype mgr_state =
  StInit | StOk | StExit | StReLoad | StReExecute | StReboot | StPowerOff | StHalt | StKExec | StSuspend | StSwitchRoot

text \<open>\<open>um_syscalls\<close>: the reboot system calls made at once.\<close>

record 'w umgr =
  um_rt :: unit_rt
  um_jm :: "'w jmgr"
  um_state :: mgr_state
  um_syscalls :: "string list"

record 'w um_env =
  ue_load :: load_env
  ue_rounds :: nat
  ue_ops :: "'w unit_ops"
  ue_conf :: "unit_id \<Rightarrow> um_conf"
  ue_collect_fds :: "unit_id \<Rightarrow> 'w \<Rightarrow> int list"
  ue_order :: "unit_id set \<Rightarrow> unit_id list"
  ue_bound :: nat

text \<open>What the job manager sees of the store.\<close>

definition job_env :: "'w um_env \<Rightarrow> unit_rt \<Rightarrow> 'w env" where
  "job_env U rt = \<lparr>env_ops = ue_ops U, env_deps = dep_gets_atom (rt_dep rt), env_is_dep = is_dep_atom_with (rt_dep rt),
     env_units = ue_order U (rt_units rt), env_bound = ue_bound U\<rparr>"

definition um_world :: "'w umgr \<Rightarrow> 'w" where
  "um_world s = jw_env (jm_world (um_jm s))"

definition um_active_state :: "'w um_env \<Rightarrow> unit_id \<Rightarrow> 'w umgr \<Rightarrow> unit_active_state" where
  "um_active_state U u s = uo_active_state (ue_ops U) u (um_world s)"

definition load_unitx :: "'w um_env \<Rightarrow> unit_id \<Rightarrow> 'w umgr \<Rightarrow> (bool \<times> 'w umgr) option" where
  "load_unitx U name s = do {
     (ok, rt) \<leftarrow> load_unit (ue_load U) (dispatch_load_queue (ue_load U) (ue_rounds U)) name (um_rt s);
     Some (ok, s\<lparr>um_rt := rt\<rparr>) }"

section \<open>Commands\<close>

definition um_exec :: "'w um_env \<Rightarrow> unit_id \<Rightarrow> job_kind \<Rightarrow> 'w umgr \<Rightarrow> ((error + unit) \<times> 'w umgr) option" where
  "um_exec U name k s = do {
     (r, _, m) \<leftarrow> jm_exec (job_env U (um_rt s)) (name, k) ModeReplace (job_affect_new False) (um_jm s);
     Some (r, s\<lparr>um_jm := m\<rparr>) }"

definition start_unit :: "'w um_env \<Rightarrow> unit_id \<Rightarrow> bool \<Rightarrow> 'w umgr \<Rightarrow> ((error + unit) \<times> 'w umgr) option" where
  "start_unit U name is_manual s = do {
     (ok, s1) \<leftarrow> load_unitx U name s;
     if \<not> ok then Some (Inl UnitActionENoent, s1)
     else if is_manual \<and> RefuseManualStart (ue_conf U name) then Some (Inl UnitActionERefuseManualStart, s1)
     else um_exec U name Start s1 }"

definition stop_unit :: "'w um_env \<Rightarrow> unit_id \<Rightarrow> bool \<Rightarrow> 'w umgr \<Rightarrow> ((error + unit) \<times> 'w umgr) option" where
  "stop_unit U name is_manual s = do {
     (ok, s1) \<leftarrow> load_unitx U name s;
     if \<not> ok then Some (Inl UnitActionENoent, s1)
     else if is_manual \<and> ux_load_state (rt_obj (um_rt s1) name) \<in> set [LoadNotFound, LoadError, LoadBadSetting] \<and>
             um_active_state U name s1 \<noteq> UnitActive
       then Some (Inl (Other (''unit '' @ name @ '' Not Found'')), s1)
     else if is_manual \<and> RefuseManualStop (ue_conf U name) then Some (Inl UnitActionERefuseManualStop, s1)
     else um_exec U name Stop s1 }"

definition um_reload :: "'w um_env \<Rightarrow> unit_id \<Rightarrow> 'w umgr \<Rightarrow> ((error + unit) \<times> 'w umgr) option" where
  "um_reload U name s = do {
     (ok, s1) \<leftarrow> load_unitx U name s;
     if \<not> ok then Some (Inl Internal, s1) else um_exec U name Reload s1 }"

definition restart_unit :: "'w um_env \<Rightarrow> unit_id \<Rightarrow> bool \<Rightarrow> 'w umgr \<Rightarrow> ((error + unit) \<times> 'w umgr) option" where
  "restart_unit U name is_manual s = do {
     (ok, s1) \<leftarrow> load_unitx U name s;
     if \<not> ok then Some (Inl UnitActionENoent, s1)
     else if is_manual \<and> RefuseManualStop (ue_conf U name) then Some (Inl UnitActionERefuseManualStop, s1)
     else if RefuseManualStart (ue_conf U name) then Some (Inl UnitActionERefuseManualStart, s1)
     else um_exec U name Restart s1 }"

section \<open>Questions of the unit types\<close>

definition is_active_or_activating :: "unit_active_state \<Rightarrow> bool" where
  "is_active_or_activating st \<longleftrightarrow> st \<in> set [UnitActive, UnitActivating, UnitReloading]"

definition activated :: "unit_active_state \<Rightarrow> bool" where
  "activated st \<longleftrightarrow> st \<notin> set [UnitInActive, UnitFailed, UnitActivating]"

definition unit_enabled :: "'w um_env \<Rightarrow> unit_id \<Rightarrow> 'w umgr \<Rightarrow> error + unit" where
  "unit_enabled U name s =
     (if name \<notin> rt_units (um_rt s) then Inl UnitActionENoent
      else if ux_load_state (rt_obj (um_rt s) name) \<noteq> LoadLoaded then Inl UnitActionENoent
      else if activated (um_active_state U name s) then Inl UnitActionEBusy
      else Inr ())"

definition unit_has_dependecy :: "unit_id \<Rightarrow> unit_relation_atom \<Rightarrow> unit_id \<Rightarrow> 'w umgr \<Rightarrow> bool" where
  "unit_has_dependecy u atom t s \<longleftrightarrow>
     u \<in> rt_units (um_rt s) \<and> t \<in> rt_units (um_rt s) \<and> is_dep_atom_with (rt_dep (um_rt s)) u atom t"

definition get_dependency_list :: "unit_id \<Rightarrow> unit_relation_atom \<Rightarrow> 'w umgr \<Rightarrow> unit_id list" where
  "get_dependency_list u atom s = (if u \<in> rt_units (um_rt s) then dep_gets_atom (rt_dep (um_rt s)) u atom else [])"

definition has_stop_job :: "unit_id \<Rightarrow> 'w umgr \<Rightarrow> bool" where
  "has_stop_job u s \<longleftrightarrow> u \<in> rt_units (um_rt s) \<and> jm_has_stop_job (um_jm s) u"

definition has_start_job :: "unit_id \<Rightarrow> 'w umgr \<Rightarrow> bool" where
  "has_start_job u s \<longleftrightarrow> u \<in> rt_units (um_rt s) \<and> jm_has_start_job (um_jm s) u"

definition um_dep_gets :: "unit_id \<Rightarrow> unit_relations \<Rightarrow> 'w umgr \<Rightarrow> unit_id list" where
  "um_dep_gets u r s = (if u \<in> rt_units (um_rt s) then dep_gets (rt_dep (um_rt s)) u r else [])"

definition collect_socket_fds :: "'w um_env \<Rightarrow> unit_id \<Rightarrow> 'w umgr \<Rightarrow> int list" where
  "collect_socket_fds U name s =
     concat (map (\<lambda>d. if ux_type (rt_obj (um_rt s) d) \<noteq> UnitSocket then [] else ue_collect_fds U d (um_world s))
       (um_dep_gets name UnitTriggeredBy s))"

definition relation_active_or_pending :: "'w um_env \<Rightarrow> unit_id \<Rightarrow> 'w umgr \<Rightarrow> bool" where
  "relation_active_or_pending U name s =
     list_ex (\<lambda>d. is_active_or_activating (um_active_state U d s)) (um_dep_gets name UnitTriggers s)"

definition current_active_state :: "'w um_env \<Rightarrow> unit_id \<Rightarrow> 'w umgr \<Rightarrow> unit_active_state" where
  "current_active_state U u s = (if u \<in> rt_units (um_rt s) then um_active_state U u s else UnitFailed)"

text \<open>The exit code of the status command.\<close>

definition unit_status_code :: "'w um_env \<Rightarrow> unit_id \<Rightarrow> 'w umgr \<Rightarrow> error + int" where
  "unit_status_code U name s =
     (if name \<notin> rt_units (um_rt s) then Inl NotExisted
      else Inr (if current_active_state U name s \<in> set [UnitFailed, UnitInActive] then 3 else 0))"

section \<open>Emergency actions and state changes\<close>

definition shutdown_pending :: "'w um_env \<Rightarrow> 'w umgr \<Rightarrow> bool" where
  "shutdown_pending U s \<longleftrightarrow> ''shutdown.target'' \<in> rt_units (um_rt s) \<and>
     (is_active_or_activating (um_active_state U ''shutdown.target'' s) \<or> jm_has_start_like_job (um_jm s) ''shutdown.target'')"

definition um_set_state :: "mgr_state \<Rightarrow> 'w umgr \<Rightarrow> 'w umgr" where
  "um_set_state st s = s\<lparr>um_state := st\<rparr>"

text \<open>The result of the start is only logged.\<close>

definition start_ignored :: "'w um_env \<Rightarrow> unit_id \<Rightarrow> 'w umgr \<Rightarrow> 'w umgr option" where
  "start_ignored U name s = map_option snd (start_unit U name False s)"

definition um_syscall :: "string \<Rightarrow> 'w umgr \<Rightarrow> 'w umgr" where
  "um_syscall c s = s\<lparr>um_syscalls := um_syscalls s @ [c]\<rparr>"

definition unit_emergency_action :: "'w um_env \<Rightarrow> emergency_action \<Rightarrow> 'w umgr \<Rightarrow> 'w umgr option" where
  "unit_emergency_action U action s =
     (if action = ActNone then Some s
      else if action \<in> set [ActReboot, ActPoweroff, ActExit] \<and> shutdown_pending U s then Some s
      else case action of
             ActReboot \<Rightarrow> start_ignored U ''reboot.target'' s
           | ActRebootForce \<Rightarrow> Some (um_set_state StReboot s)
           | ActRebootImmediate \<Rightarrow> Some (um_syscall ''RB_AUTOBOOT'' s)
           | ActPoweroff \<Rightarrow> start_ignored U ''poweroff.target'' s
           | ActPoweroffForce \<Rightarrow> Some (um_set_state StPowerOff s)
           | ActPoweroffImmediate \<Rightarrow> Some (um_syscall ''RB_POWER_OFF'' s)
           | ActExit \<Rightarrow> start_ignored U ''exit.target'' s
           | ActExitForce \<Rightarrow> Some (um_set_state StExit s)
           | ActNone \<Rightarrow> Some s)"

text \<open>\<open>UnitX::trigger\<close>, called last for the units this one is triggered by, has an empty body.\<close>

definition insert_states :: "'w um_env \<Rightarrow> unit_notify \<Rightarrow> 'w umgr \<Rightarrow> 'w umgr option" where
  "insert_states U note s =
     (case note of (source, os, ns, flags) \<Rightarrow>
        if source \<notin> rt_units (um_rt s) then Some s
        else do {
          s1 \<leftarrow> (if os \<noteq> UnitFailed \<and> ns = UnitFailed then unit_emergency_action U (FailureAction (ue_conf U source)) s else Some s);
          s2 \<leftarrow> (if \<not> is_inactive_or_failed os \<and> ns = UnitInActive
                 then unit_emergency_action U (SuccessAction (ue_conf U source)) s1 else Some s1);
          (_, m) \<leftarrow> jm_try_finish (job_env U (um_rt s2)) note (um_jm s2);
          Some (s2\<lparr>um_jm := m\<rparr>) })"

definition insert_start_limit_res :: "'w um_env \<Rightarrow> unit_id \<Rightarrow> start_limit_result \<Rightarrow> 'w umgr \<Rightarrow> 'w umgr option" where
  "insert_start_limit_res U source res s =
     (if res = StartLimitNotHit then Some s
      else if source \<notin> rt_units (um_rt s) then Some s
      else unit_emergency_action U (StartLimitAction (ue_conf U source)) s)"

definition instert_job_result :: "'w um_env \<Rightarrow> unit_id \<Rightarrow> job_result \<Rightarrow> 'w umgr \<Rightarrow> 'w umgr option" where
  "instert_job_result U source res s =
     (if res \<noteq> TimeOut then Some s
      else if source \<notin> rt_units (um_rt s) then Some s
      else unit_emergency_action U (JobTimeoutAction (ue_conf U source)) s)"

section \<open>The main loop of the process manager\<close>

text \<open>
  \<open>run\<close> is one run of the event loop, \<open>reload\<close> the reload of the units; \<open>um_syscalls\<close> takes the reboot calls. A round of
  \<open>main_loop\<close> runs the inner loop until the state is no longer \<open>Ok\<close> and acts on it: \<open>Inl\<close> is the return of the loop, \<open>None\<close> the
  unfinished branch, or an inner loop that is still running after \<open>n\<close> rounds.
\<close>

fun rloop :: "'w um_env \<Rightarrow> ('w umgr \<Rightarrow> 'w umgr option) \<Rightarrow> nat \<Rightarrow> 'w umgr \<Rightarrow> 'w umgr option" where
  "rloop U run 0 s = (if um_state s = StOk then None else Some s)"
| "rloop U run (Suc n) s =
     (if um_state s = StOk
      then do {
        rt \<leftarrow> dispatch_load_queue (ue_load U) (ue_rounds U) (um_rt s);
        s1 \<leftarrow> run (s\<lparr>um_rt := rt\<rparr>);
        rloop U run n s1 }
      else Some s)"

definition mgr_reload :: "('w umgr \<Rightarrow> 'w umgr) \<Rightarrow> 'w umgr \<Rightarrow> 'w umgr" where
  "mgr_reload recover s = um_set_state StOk (recover s)"

definition main_loop_round ::
  "'w um_env \<Rightarrow> ('w umgr \<Rightarrow> 'w umgr option) \<Rightarrow> ('w umgr \<Rightarrow> 'w umgr) \<Rightarrow> nat \<Rightarrow> 'w umgr \<Rightarrow> ('w umgr + 'w umgr) option" where
  "main_loop_round U run recover n s = do {
     s1 \<leftarrow> rloop U run n s;
     (case um_state s1 of
        StReLoad \<Rightarrow> Some (Inr (mgr_reload recover s1))
      | StReExecute \<Rightarrow> Some (Inl (um_set_state StReExecute s1))
      | StReboot \<Rightarrow> Some (Inr (um_syscall ''RB_AUTOBOOT'' s1))
      | StPowerOff \<Rightarrow> Some (Inr (um_syscall ''RB_POWER_OFF'' s1))
      | StHalt \<Rightarrow> Some (Inr (um_syscall ''RB_HALT_SYSTEM'' s1))
      | StKExec \<Rightarrow> Some (Inr (um_syscall ''RB_KEXEC'' s1))
      | StSuspend \<Rightarrow> Some (Inr (um_syscall ''RB_SW_SUSPEND'' s1))
      | _ \<Rightarrow> None) }"

section \<open>A command is answered\<close>

datatype um_command = CmdStart bool | CmdStop bool | CmdReload | CmdRestart bool

fun run_command :: "'w um_env \<Rightarrow> um_command \<Rightarrow> unit_id \<Rightarrow> 'w umgr \<Rightarrow> ((error + unit) \<times> 'w umgr) option" where
  "run_command U (CmdStart manual) name s = start_unit U name manual s"
| "run_command U (CmdStop manual) name s = stop_unit U name manual s"
| "run_command U CmdReload name s = um_reload U name s"
| "run_command U (CmdRestart manual) name s = restart_unit U name manual s"

fun command_kind :: "um_command \<Rightarrow> job_kind" where
  "command_kind (CmdStart _) = Start"
| "command_kind (CmdStop _) = Stop"
| "command_kind CmdReload = Reload"
| "command_kind (CmdRestart _) = Restart"

text \<open>The refusals that come from the configuration of a loaded unit.\<close>

fun refusal :: "um_conf \<Rightarrow> um_command \<Rightarrow> error option" where
  "refusal C (CmdStart manual) = (if manual \<and> RefuseManualStart C then Some UnitActionERefuseManualStart else None)"
| "refusal C (CmdStop manual) = (if manual \<and> RefuseManualStop C then Some UnitActionERefuseManualStop else None)"
| "refusal C CmdReload = None"
| "refusal C (CmdRestart manual) =
     (if manual \<and> RefuseManualStop C then Some UnitActionERefuseManualStop
      else if RefuseManualStart C then Some UnitActionERefuseManualStart else None)"

lemma run_command_loaded:
  assumes "load_unitx U name s = Some (True, s1)" and "ux_load_state (rt_obj (um_rt s1) name) = LoadLoaded"
  shows "run_command U c name s =
    (case refusal (ue_conf U name) c of Some e \<Rightarrow> Some (Inl e, s1) | None \<Rightarrow> um_exec U name (command_kind c) s1)"
  using assms by (cases c) (simp_all add: start_unit_def stop_unit_def um_reload_def restart_unit_def)

lemma jm_exec_cases:
  assumes "job_trans_check_input conf mode = Inr ()" and "jm_build_stage E conf mode (jm_clear_stage m) = Some (r, m1)"
  shows "r = Inl e \<Longrightarrow> jm_exec E conf mode af m = Some (Inl e, af, m1)"
    and "r = Inr () \<Longrightarrow> jt_commit (env_ops E) (env_deps E) (jm_stage m1) mode (jm_jobs m1, jm_world m1) = Some (Inr (c, T, w)) \<Longrightarrow>
      jm_update_changes c (jm_clear_stage (jm_with m1 (T, w))) = Some m3 \<Longrightarrow>
      \<exists>af'. jm_exec E conf mode af m = Some (Inr (), af', jm_try_enable m3)"
  using assms by (simp_all add: jm_exec_def jm_do_exec_def case_unit_Unity Let_def)

lemma loaded_deps_closed:
  assumes inv: "rt_inv L us S s" and fine: "loads_fine L us"
  shows "deps_closed (dep_gets_atom (rt_dep s)) us"
proof -
  have "set (dep_gets_atom (rt_dep s) u atom) \<subseteq> us" for u atom
  proof
    fix x
    assume "x \<in> set (dep_gets_atom (rt_dep s) u atom)"
    then obtain r where "edge (ud_t (rt_dep s)) u r x" by (auto simp: dep_gets_atom_edge)
    then show "x \<in> us" using edge_base [OF rt_invD(1) [OF inv]] rt_invD(10) [OF inv] by (meson subsetD)
  qed
  then show ?thesis using fine by (simp add: deps_closed_def loads_fine_def)
qed


text \<open>A unit that refuses to be started by hand.\<close>

definition demo_um :: "_ um_env" where
  "demo_um = \<lparr>ue_load = demo_load, ue_rounds = 10, ue_ops = demo_ops,
     ue_conf = (\<lambda>_. \<lparr>RefuseManualStart = True, RefuseManualStop = False, SuccessAction = ActNone, FailureAction = ActNone,
       StartLimitAction = ActNone, JobTimeoutAction = ActNone\<rparr>),
     ue_collect_fds = (\<lambda>_ _. []), ue_order = sorted_list_of_set, ue_bound = 100\<rparr>"

definition demo_umgr :: "_ umgr" where
  "demo_umgr = \<lparr>um_rt = empty_rt, um_jm = jm_new (demo_world (\<lambda>i. job_new i [] Nop)), um_state = StOk, um_syscalls = []\<rparr>"


section \<open>Shutting down\<close>

text \<open>A unit that forbids a manual start cannot be restarted by the manager itself either.\<close>

lemma automatic_restart_refused:
  "RefuseManualStart C \<Longrightarrow> refusal C (CmdStart False) = None \<and> refusal C (CmdRestart False) = Some UnitActionERefuseManualStart"
  by simp

text \<open>A forced exit ends the inner loop in a state the main loop has no branch for.\<close>

lemma exit_force_panics:
  "unit_emergency_action U ActExitForce s = Some s' \<Longrightarrow> main_loop_round U run recover n s' = None"
  by (cases n) (auto simp: unit_emergency_action_def um_set_state_def main_loop_round_def)

text \<open>The state of a suspended manager is never reset: the loop suspends the machine again, round after round.\<close>

fun main_loop_rounds where
  "main_loop_rounds U run recover n 0 s = Some s"
| "main_loop_rounds U run recover n (Suc k) s =
     (case main_loop_round U run recover n s of Some (Inr s1) \<Rightarrow> main_loop_rounds U run recover n k s1 | _ \<Rightarrow> None)"

lemma suspend_repeats:
  assumes "um_state s = StSuspend"
  shows "\<exists>s'. main_loop_rounds U run recover n k s = Some s' \<and> um_syscalls s' = um_syscalls s @ replicate k ''RB_SW_SUSPEND''"
  using assms
proof (induction k arbitrary: s)
  case (Suc k)
  have "main_loop_round U run recover n s = Some (Inr (um_syscall ''RB_SW_SUSPEND'' s))"
    using Suc.prems by (cases n) (simp_all add: main_loop_round_def)
  moreover have "um_state (um_syscall ''RB_SW_SUSPEND'' s) = StSuspend" using Suc.prems by (simp add: um_syscall_def)
  ultimately show ?case using Suc.IH [of "um_syscall ''RB_SW_SUSPEND'' s"] by (simp add: um_syscall_def)
qed simp

end
