(* ===== verification/Unit_Condition.thy ===== *)
theory Unit_Condition
  imports Rust_Str
begin

unbundle bit_operations_syntax

text \<open>
  The conditions of a unit: the single tests (\<^verbatim>\<open>libs/basic/src/condition.rs\<close> with \<^verbatim>\<open>device.rs\<close>, \<^verbatim>\<open>security.rs\<close>,
  \<^verbatim>\<open>proc_cmdline.rs\<close>, \<^verbatim>\<open>user_group_util.rs\<close> and \<^verbatim>\<open>conf_parser.rs\<close>), the list of conditions and asserts of a unit
  (\<^verbatim>\<open>core/bin/unit/entry/condition.rs\<close>) and their collection from the configuration (\<open>Unit::conditions\<close> in
  \<^verbatim>\<open>core/bin/unit/entry/uentry.rs\<close>).

  What a test reads of the system is the record \<open>sys_view\<close>: files, directories, the user database, the kernel's
  answers. \<open>None\<close> is a panic: an \<open>unwrap\<close> on a string with a zero byte or on a missing root user.
\<close>

section \<open>What a test reads\<close>

record sys_view =
  sy_exists :: "string \<Rightarrow> bool"
  sy_is_file :: "string \<Rightarrow> bool"
  sy_is_dir :: "string \<Rightarrow> bool"
  sy_is_symlink :: "string \<Rightarrow> bool"
  sy_read_dir :: "string \<Rightarrow> string option list option"
  sy_stat_mode :: "string \<Rightarrow> 32 word option"
  sy_metadata :: "string \<Rightarrow> (bool \<times> u64) option"
  sy_read :: "string \<Rightarrow> string option"
  sy_lines :: "string \<Rightarrow> string option list option"
  sy_fsize :: "string \<Rightarrow> int option"
  sy_glob :: "string \<Rightarrow> int"
  sy_open :: "string \<Rightarrow> int option"
  sy_mount_root :: "string \<Rightarrow> bool \<times> bool"
  sy_open_path :: "string \<Rightarrow> int option"
  sy_rdonly :: "int \<Rightarrow> bool option"
  sy_cap_bitmask :: "string \<Rightarrow> u64 option"
  sy_selinux :: bool
  sy_audit_socket :: "string + int"
  sy_user_of_uid :: "32 word \<Rightarrow> unit + 32 word option"
  sy_user_of_name :: "string \<Rightarrow> unit + 32 word option"
  sy_uid :: "32 word"
  sy_euid :: "32 word"

text \<open>\<open>CString::new(..).unwrap()\<close>.\<close>

definition cstring :: "string \<Rightarrow> string option" where
  "cstring s = (if CHR 0x00 \<in> set s then None else Some s)"

definition slash :: "string \<Rightarrow> string \<Rightarrow> string" where
  "slash d f = d @ ''/'' @ f"

section \<open>Power, security modules, command line and users\<close>

text \<open>The scan stops at the first mains supply that is online.\<close>

fun ac_scan :: "sys_view \<Rightarrow> string \<Rightarrow> string option list \<Rightarrow> bool \<Rightarrow> bool \<times> bool" where
  "ac_scan S d [] off = (False, off)"
| "ac_scan S d (None # es) off = ac_scan S d es off"
| "ac_scan S d (Some e # es) off =
     (let p = slash d e in
      if sy_read S (slash p ''type'') \<noteq> Some (''Mains'' @ [CHR 0x0A]) then ac_scan S d es off
      else case sy_read S (slash p ''online'') of
             Some [c, nl] \<Rightarrow>
               if nl \<noteq> CHR 0x0A then ac_scan S d es off
               else if c = CHR ''1'' then (True, off)
               else if c = CHR ''0'' then ac_scan S d es True
               else ac_scan S d es off
           | _ \<Rightarrow> ac_scan S d es off)"

definition on_ac_power :: "sys_view \<Rightarrow> bool" where
  "on_ac_power S =
     (let d = ''/sys/class/power_supply'' in
      if \<not> sy_exists S d \<or> \<not> sy_is_dir S d then True
      else case sy_read_dir S d of
             None \<Rightarrow> True
           | Some es \<Rightarrow> (case ac_scan S d es False of (found_online, found_offline) \<Rightarrow> found_online \<or> \<not> found_offline))"

definition apparmor_enabled :: "sys_view \<Rightarrow> bool" where
  "apparmor_enabled S =
     (case sy_read S ''/sys/module/apparmor/parameters/enabled'' of
        None \<Rightarrow> False | Some bs \<Rightarrow> take 2 bs = [CHR ''Y'', CHR 0x0A])"

definition audit_enabled :: "sys_view \<Rightarrow> bool" where
  "audit_enabled S =
     (case sy_audit_socket S of
        Inr fd \<Rightarrow> fd > 0 | Inl e \<Rightarrow> e \<notin> set [''EAFNOSUPPORT'', ''ENOTSUP'', ''EPERM''])"

definition uefi_secureboot_enabled :: "sys_view \<Rightarrow> bool" where
  "uefi_secureboot_enabled S =
     (let f = ''/sys/firmware/efi/efivars/SecureBoot-8be4df61-93ca-11d2-aa0d-00e098032b8c'' in
      case sy_read S f of
        None \<Rightarrow> False
      | Some bs \<Rightarrow>
          (case sy_fsize S f of
             None \<Rightarrow> False
           | Some n \<Rightarrow>
               if n < 4 \<or> n > 4 * 1024 * 1024 + 4 then False
               else if length bs < 5 then False
               else (of_char (bs ! 4) :: nat) > 0))"

definition test_security :: "sys_view \<Rightarrow> string \<Rightarrow> bool" where
  "test_security S m =
     (if m = ''selinux'' then sy_selinux S
      else if m = ''apparmor'' then apparmor_enabled S
      else if m = ''tomoyo'' then sy_exists S ''/sys/kernel/security/tomoyo/version''
      else if m = ''ima'' then sy_exists S ''/sys/kernel/security/ima/''
      else if m = ''smack'' then sy_exists S ''/sys/fs/smackfs''
      else if m = ''audit'' then audit_enabled S
      else if m = ''uefi-secureboot'' then uefi_secureboot_enabled S
      else if m = ''tpm2'' then sy_exists S ''/sys/class/tpmrm''
      else False)"

text \<open>\<open>parse_boolean\<close>; the error is \<open>None\<close>.\<close>

definition parse_boolean :: "string \<Rightarrow> bool option" where
  "parse_boolean item =
     (let l = map ascii_lower item in
      if l \<in> set [''1'', ''yes'', ''y'', ''true'', ''t'', ''on''] then Some True
      else if l \<in> set [''0'', ''no'', ''n'', ''false'', ''f'', ''off''] then Some False
      else None)"

text \<open>The outer option of the command line functions is the error of reading \<^verbatim>\<open>/proc/cmdline\<close>.\<close>

definition cmdline_words :: "sys_view \<Rightarrow> string list option" where
  "cmdline_words S = map_option split_whitespace (sy_read S ''/proc/cmdline'')"

definition cmdline_get_value :: "sys_view \<Rightarrow> string \<Rightarrow> string option option" where
  "cmdline_get_value S key =
     map_option (\<lambda>ws. map_option snd (List.find (\<lambda>kv. fst kv = key) (List.map_filter (split_once CHR ''='') ws)))
       (cmdline_words S)"

definition cmdline_get_item :: "sys_view \<Rightarrow> string \<Rightarrow> string option option" where
  "cmdline_get_item S item = map_option (List.find (starts_with item)) (cmdline_words S)"

definition proc_cmdline_get_bool :: "sys_view \<Rightarrow> string \<Rightarrow> bool option" where
  "proc_cmdline_get_bool S key =
     (case cmdline_get_value S key of
        None \<Rightarrow> None | Some None \<Rightarrow> Some False | Some (Some v) \<Rightarrow> parse_boolean v)"

text \<open>
  \<open>parse_uid\<close>: \<open>None\<close> is the panic for a system without a user 0, \<open>Some None\<close> an error, \<open>Some (Some u)\<close> the user id of
  the user found.
\<close>

definition uid_shape :: "string \<Rightarrow> bool" where
  "uid_shape s = (case s of [] \<Rightarrow> False | c # cs \<Rightarrow> is_digit c \<and> c \<noteq> CHR ''0'' \<and> list_all is_digit cs)"

definition parse_uid :: "sys_view \<Rightarrow> string \<Rightarrow> 32 word option option" where
  "parse_uid S s =
     (if s = [] then Some None
      else if s = ''0'' then (case sy_user_of_uid S 0 of Inr (Some u) \<Rightarrow> Some (Some u) | _ \<Rightarrow> None)
      else if \<not> uid_shape s then Some None
      else case parse_u32 s of
             None \<Rightarrow> Some None
           | Some n \<Rightarrow> (case sy_user_of_uid S n of Inr (Some u) \<Rightarrow> Some (Some u) | _ \<Rightarrow> Some None))"

definition parse_name :: "sys_view \<Rightarrow> string \<Rightarrow> 32 word option" where
  "parse_name S s =
     (if s = [] then None else case sy_user_of_name S s of Inr (Some u) \<Rightarrow> Some u | _ \<Rightarrow> None)"

definition uid_is_system :: "32 word \<Rightarrow> bool" where
  "uid_is_system u \<longleftrightarrow> u \<le> 999"

section \<open>One condition\<close>

datatype condition_type =
  ACPower | Capability | DirectoryNotEmpty | FileIsExecutable | FileNotEmpty | FirstBoot | KernelCommandLine
  | NeedsUpdate | PathExists | PathExistsGlob | PathIsDirectory | PathIsMountPoint | PathIsReadWrite
  | PathIsSymbolicLink | Security | User

record condition =
  c_type :: condition_type
  c_trigger :: int
  c_revert :: int
  c_params :: string

definition test_ac_power :: "sys_view \<Rightarrow> string \<Rightarrow> bool" where
  "test_ac_power S p = (\<not> ((p = ''true'') \<noteq> on_ac_power S))"

text \<open>\<open>u64::from_str_radix(.., 16)\<close>.\<close>

definition hex_digit :: "char \<Rightarrow> int option" where
  "hex_digit c =
     (let n = of_char (ascii_lower c) :: int in
      if 48 \<le> n \<and> n \<le> 57 then Some (n - 48) else if 97 \<le> n \<and> n \<le> 102 then Some (n - 87) else None)"

definition parse_hex_u64 :: "string \<Rightarrow> u64 option" where
  "parse_hex_u64 s =
     (let ds = (case s of c # cs \<Rightarrow> if c = CHR ''+'' then cs else s | [] \<Rightarrow> s) in
      if ds = [] \<or> (\<exists>d \<in> set ds. hex_digit d = None) then None
      else (let n = foldl (\<lambda>n d. 16 * n + the (hex_digit d)) 0 ds in if n < 2 ^ 64 then Some (of_int n) else None))"

lemma starts_with_length: "starts_with p s \<Longrightarrow> length p \<le> length s"
  unfolding starts_with_def by (metis length_take min.cobounded1)

text \<open>\<open>trim_start_matches\<close> with a string pattern removes the pattern as often as it is there.\<close>

function trim_start_str :: "string \<Rightarrow> string \<Rightarrow> string" where
  "trim_start_str p s = (if p \<noteq> [] \<and> starts_with p s then trim_start_str p (drop (length p) s) else s)"
  by pat_completeness auto
termination
  by (relation "measure (length \<circ> snd)") (auto dest!: starts_with_length simp: neq_Nil_conv)

fun cap_scan :: "string option list \<Rightarrow> u64 option" where
  "cap_scan [] = Some 0"
| "cap_scan (None # ls) = None"
| "cap_scan (Some l # ls) =
     (if \<not> starts_with ''CapBnd:'' l then cap_scan ls else parse_hex_u64 (trim_start (trim_start_str ''CapBnd:'' l)))"

definition test_capability :: "sys_view \<Rightarrow> string \<Rightarrow> bool" where
  "test_capability S p =
     (case sy_cap_bitmask S p of
        None \<Rightarrow> False
      | Some v \<Rightarrow>
          (case sy_lines S ''/proc/self/status'' of
             None \<Rightarrow> False
           | Some ls \<Rightarrow> (case cap_scan ls of None \<Rightarrow> False | Some b \<Rightarrow> b AND v \<noteq> 0)))"

definition test_directory_not_empty :: "sys_view \<Rightarrow> string \<Rightarrow> bool" where
  "test_directory_not_empty S p =
     (if sy_is_file S p then False else case sy_read_dir S p of None \<Rightarrow> False | Some es \<Rightarrow> es \<noteq> [])"

definition S_IFMT :: "32 word" where
  "S_IFMT = 0xF000"

definition S_IFREG :: "32 word" where
  "S_IFREG = 0x8000"

definition stat_is_reg :: "32 word \<Rightarrow> bool" where
  "stat_is_reg m \<longleftrightarrow> (m AND S_IFMT) AND S_IFREG > 0"

definition test_file_is_executable :: "sys_view \<Rightarrow> string \<Rightarrow> bool" where
  "test_file_is_executable S p =
     (if sy_is_dir S p then False
      else case sy_stat_mode S p of None \<Rightarrow> False | Some m \<Rightarrow> stat_is_reg m \<and> m AND 111 > 0)"

definition test_file_not_empty :: "sys_view \<Rightarrow> string \<Rightarrow> bool" where
  "test_file_not_empty S p = (case sy_metadata S p of None \<Rightarrow> False | Some (f, n) \<Rightarrow> f \<and> n > 0)"

definition test_first_boot :: "sys_view \<Rightarrow> string \<Rightarrow> bool" where
  "test_first_boot S p =
     (if proc_cmdline_get_bool S ''sysmaster.condition-first-boot'' = Some True then True
      else (p = ''true'') = sy_exists S ''/run/sysmaster/first-boot'')"

definition test_kernel_command_line :: "sys_view \<Rightarrow> string \<Rightarrow> bool" where
  "test_kernel_command_line S p =
     (let search_value = (case split_once CHR ''='' p of Some (k, _) \<Rightarrow> k | None \<Rightarrow> p) in
      case cmdline_get_item S search_value of
        None \<Rightarrow> False
      | Some None \<Rightarrow> False
      | Some (Some v) \<Rightarrow> if CHR ''='' \<in> set p then p = v else True)"

definition test_path_exists_glob :: "sys_view \<Rightarrow> string \<Rightarrow> bool option" where
  "test_path_exists_glob S p = do { pattern \<leftarrow> cstring p; Some (sy_glob S pattern = 0) }"

definition test_path_is_mount_point :: "sys_view \<Rightarrow> string \<Rightarrow> bool option" where
  "test_path_is_mount_point S p =
     (if p = ''/'' then Some True
      else case sy_open S p of
             None \<Rightarrow> Some False
           | Some fd \<Rightarrow> do { path_name \<leftarrow> cstring p; let (mask, attr) = sy_mount_root S path_name; Some (mask \<and> attr) })"

definition test_path_is_read_write :: "sys_view \<Rightarrow> string \<Rightarrow> bool" where
  "test_path_is_read_write S p =
     (if \<not> sy_exists S p then False
      else case sy_open_path S p of
             None \<Rightarrow> False
           | Some fd \<Rightarrow> if fd < 0 then False else (case sy_rdonly S fd of None \<Rightarrow> False | Some ro \<Rightarrow> \<not> ro))"

definition test_user :: "sys_view \<Rightarrow> string \<Rightarrow> bool option" where
  "test_user S p = do {
     r \<leftarrow> parse_uid S p;
     Some (case r of
             Some u \<Rightarrow> u = sy_uid S \<or> u = sy_euid S
           | None \<Rightarrow>
               if p = ''@system'' then uid_is_system (sy_uid S) \<or> uid_is_system (sy_euid S)
               else (case parse_name S p of Some u \<Rightarrow> u = sy_uid S \<or> u = sy_euid S | None \<Rightarrow> False)) }"

fun run_test :: "sys_view \<Rightarrow> condition_type \<Rightarrow> string \<Rightarrow> bool option" where
  "run_test S ACPower p = Some (test_ac_power S p)"
| "run_test S Capability p = Some (test_capability S p)"
| "run_test S DirectoryNotEmpty p = Some (test_directory_not_empty S p)"
| "run_test S FileIsExecutable p = Some (test_file_is_executable S p)"
| "run_test S FileNotEmpty p = Some (test_file_not_empty S p)"
| "run_test S FirstBoot p = Some (test_first_boot S p)"
| "run_test S KernelCommandLine p = Some (test_kernel_command_line S p)"
| "run_test S NeedsUpdate p = Some False"
| "run_test S PathExists p = Some (sy_exists S p)"
| "run_test S PathExistsGlob p = test_path_exists_glob S p"
| "run_test S PathIsDirectory p = Some (sy_is_dir S p)"
| "run_test S PathIsMountPoint p = test_path_is_mount_point S p"
| "run_test S PathIsReadWrite p = Some (test_path_is_read_write S p)"
| "run_test S PathIsSymbolicLink p = Some (sy_is_symlink S p)"
| "run_test S Security p = Some (test_security S p)"
| "run_test S User p = test_user S p"

definition condition_test :: "sys_view \<Rightarrow> condition \<Rightarrow> bool option" where
  "condition_test S c =
     (if c_params c = [] then Some True
      else do { result \<leftarrow> run_test S (c_type c) (c_params c); Some (result \<noteq> (c_revert c \<ge> 1)) })"

section \<open>The conditions of a unit\<close>

definition new_condition :: "condition_type \<Rightarrow> string \<Rightarrow> condition" where
  "new_condition ty params =
     (let (trigger, param_str, s_params) =
        (case strip_prefix CHR ''|'' params of
           Some s \<Rightarrow> (1, s, strip_prefix CHR ''!'' s)
         | None \<Rightarrow> (0, params, strip_prefix CHR ''!'' params)) in
      case s_params of
        Some s \<Rightarrow> \<lparr>c_type = ty, c_trigger = trigger, c_revert = 1, c_params = s\<rparr>
      | None \<Rightarrow> \<lparr>c_type = ty, c_trigger = trigger, c_revert = 0, c_params = param_str\<rparr>)"

record ue_condition =
  ue_init_flag :: int
  ue_conditions :: "condition list"
  ue_asserts :: "condition list"

definition ue_condition_new :: ue_condition where
  "ue_condition_new = \<lparr>ue_init_flag = 0, ue_conditions = [], ue_asserts = []\<rparr>"

definition condition_keys :: "(string \<times> condition_type) list" where
  "condition_keys =
     [(''ConditionACPower'', ACPower), (''ConditionCapability'', Capability),
      (''ConditionDirectoryNotEmpty'', DirectoryNotEmpty), (''ConditionFileIsExecutable'', FileIsExecutable),
      (''ConditionFileNotEmpty'', FileNotEmpty), (''ConditionFirstBoot'', FirstBoot),
      (''ConditionNeedsUpdate'', NeedsUpdate), (''ConditionKernelCommandLine'', KernelCommandLine),
      (''ConditionPathExists'', PathExists), (''ConditionPathExistsGlob'', PathExistsGlob),
      (''ConditionPathIsDirectory'', PathIsDirectory), (''ConditionPathIsMountPoint'', PathIsMountPoint),
      (''ConditionPathIsReadWrite'', PathIsReadWrite), (''ConditionSecurity'', Security),
      (''ConditionPathIsSymbolicLink'', PathIsSymbolicLink), (''ConditionUser'', User)]"

definition assert_keys :: "(string \<times> condition_type) list" where
  "assert_keys = [(''AssertPathExists'', PathExists), (''AssertFileNotEmpty'', FileNotEmpty)]"

definition add_condition :: "string \<Rightarrow> string \<Rightarrow> ue_condition \<Rightarrow> ue_condition" where
  "add_condition condop params u =
     (if params = [] then u
      else case map_of condition_keys condop of
             None \<Rightarrow> u
           | Some ty \<Rightarrow> u\<lparr>ue_conditions := ue_conditions u @ [new_condition ty params]\<rparr>)"

definition add_assert :: "string \<Rightarrow> string \<Rightarrow> ue_condition \<Rightarrow> ue_condition" where
  "add_assert assertop params u =
     (if params = [] then u
      else case map_of assert_keys assertop of
             None \<Rightarrow> u
           | Some ty \<Rightarrow> u\<lparr>ue_asserts := ue_asserts u @ [new_condition ty params]\<rparr>)"

fun vec_scan :: "sys_view \<Rightarrow> condition list \<Rightarrow> int \<Rightarrow> bool \<Rightarrow> bool option" where
  "vec_scan S [] trigger_flag ret = Some ret"
| "vec_scan S (c # cs) trigger_flag ret = do {
     r \<leftarrow> condition_test S c;
     if c_trigger c = 0 \<and> \<not> r then Some False
     else if c_trigger c \<noteq> 0 \<and> trigger_flag = 0 then vec_scan S cs (if r then 1 else trigger_flag) r
     else vec_scan S cs trigger_flag ret }"

definition condition_vec_test :: "sys_view \<Rightarrow> condition list \<Rightarrow> bool option" where
  "condition_vec_test S cs = vec_scan S cs 0 True"

definition conditions_test :: "sys_view \<Rightarrow> ue_condition \<Rightarrow> bool option" where
  "conditions_test S u = condition_vec_test S (ue_conditions u)"

definition asserts_test :: "sys_view \<Rightarrow> ue_condition \<Rightarrow> bool option" where
  "asserts_test S u = condition_vec_test S (ue_asserts u)"

text \<open>The keys of the section \<^verbatim>\<open>[Unit]\<close> that are conditions.\<close>

record condition_conf =
  ConditionACPower :: "bool option"
  ConditionCapability :: string
  ConditionDirectoryNotEmpty :: string
  ConditionFileIsExecutable :: string
  ConditionFileNotEmpty :: string
  ConditionFirstBoot :: "bool option"
  ConditionKernelCommandLine :: string
  ConditionNeedsUpdate :: string
  ConditionPathExists :: string
  ConditionPathExistsGlob :: string
  ConditionPathIsDirectory :: string
  ConditionPathIsMountPoint :: string
  ConditionPathIsReadWrite :: string
  ConditionPathIsSymbolicLink :: string
  ConditionSecurity :: string
  ConditionUser :: string
  AssertPathExists :: string

definition show_bool :: "bool \<Rightarrow> string" where
  "show_bool b = (if b then ''true'' else ''false'')"

definition opt_bool :: "bool option \<Rightarrow> string" where
  "opt_bool ob = (case ob of None \<Rightarrow> [] | Some b \<Rightarrow> show_bool b)"

definition config_conditions :: "condition_conf \<Rightarrow> (string \<times> string) list" where
  "config_conditions C =
     [(''ConditionACPower'', opt_bool (ConditionACPower C)),
      (''ConditionCapability'', ConditionCapability C),
      (''ConditionDirectoryNotEmpty'', ConditionDirectoryNotEmpty C),
      (''ConditionFileIsExecutable'', ConditionFileIsExecutable C),
      (''ConditionFileNotEmpty'', ConditionFileNotEmpty C),
      (''ConditionFirstBoot'', opt_bool (ConditionFirstBoot C)),
      (''ConditionKernelCommandLine'', ConditionKernelCommandLine C),
      (''ConditionNeedsUpdate'', ConditionNeedsUpdate C),
      (''ConditionPathExists'', ConditionPathExists C),
      (''ConditionPathExistsGlob'', ConditionPathExistsGlob C),
      (''ConditionPathIsDirectory'', ConditionPathIsDirectory C),
      (''ConditionPathIsMountPoint'', ConditionPathIsMountPoint C),
      (''ConditionPathIsReadWrite'', ConditionPathIsReadWrite C),
      (''ConditionPathIsSymbolicLink'', ConditionPathIsSymbolicLink C),
      (''ConditionSecurity'', ConditionSecurity C),
      (''ConditionUser'', ConditionUser C)]"

definition unit_conditions :: "condition_conf \<Rightarrow> ue_condition \<Rightarrow> ue_condition" where
  "unit_conditions C u =
     (if ue_init_flag u \<noteq> 0 then u
      else add_assert ''AssertPathExists'' (AssertPathExists C)
             (fold (\<lambda>(k, v). add_condition k v) (config_conditions C) u))"

text \<open>The two guards of \<open>Unit::start\<close>: each collects the conditions again.\<close>

definition start_conditions :: "sys_view \<Rightarrow> condition_conf \<Rightarrow> ue_condition \<Rightarrow> (bool \<times> ue_condition) option" where
  "start_conditions S C u = do {
     let u1 = unit_conditions C u;
     c \<leftarrow> conditions_test S u1;
     if \<not> c then Some (False, u1)
     else do {
       let u2 = unit_conditions C u1;
       a \<leftarrow> asserts_test S u2;
       Some (a, u2) } }"

section \<open>A list of conditions against its meaning\<close>

text \<open>
  The documented meaning (\<^verbatim>\<open>condition.rs\<close>): every usual condition holds, and of the triggering ones, if there are any,
  at least one.
\<close>

definition conditions_hold :: "(condition \<Rightarrow> bool) \<Rightarrow> condition set \<Rightarrow> bool" where
  "conditions_hold h cs \<longleftrightarrow>
     (\<forall>c \<in> cs. c_trigger c = 0 \<longrightarrow> h c) \<and> ((\<exists>c \<in> cs. c_trigger c \<noteq> 0) \<longrightarrow> (\<exists>c \<in> cs. c_trigger c \<noteq> 0 \<and> h c))"

lemma conditions_hold_insert [simp]:
  "conditions_hold h (insert c cs) \<longleftrightarrow>
     (if c_trigger c = 0 then h c \<and> conditions_hold h cs
      else (\<forall>d \<in> cs. c_trigger d = 0 \<longrightarrow> h d) \<and> (h c \<or> (\<exists>d \<in> cs. c_trigger d \<noteq> 0 \<and> h d)))"
  by (auto simp: conditions_hold_def)

text \<open>The two phases of the scan: before and after a triggering condition that holds.\<close>

lemma vec_scan_triggered:
  assumes "\<forall>c \<in> set cs. condition_test S c = Some (h c)" and "f \<noteq> 0"
  shows "vec_scan S cs f ret = Some ((\<forall>c \<in> set cs. c_trigger c = 0 \<longrightarrow> h c) \<and> ret)"
  using assms by (induction cs) auto

lemma vec_scan_fresh:
  assumes "\<forall>c \<in> set cs. condition_test S c = Some (h c)"
  shows "vec_scan S cs 0 ret = Some ((\<forall>c \<in> set cs. c_trigger c = 0 \<longrightarrow> h c) \<and>
    (if \<exists>c \<in> set cs. c_trigger c \<noteq> 0 then \<exists>c \<in> set cs. c_trigger c \<noteq> 0 \<and> h c else ret))"
  using assms
proof (induction cs arbitrary: ret)
  case (Cons c cs)
  then show ?case using vec_scan_triggered [of cs S h 1] by auto
qed simp

lemma condition_vec_test_hold:
  assumes "\<forall>c \<in> set cs. condition_test S c = Some (h c)"
  shows "condition_vec_test S cs = Some (conditions_hold h (set cs))"
  unfolding condition_vec_test_def vec_scan_fresh [OF assms] by (auto simp: conditions_hold_def)

section \<open>Collecting the conditions again and again\<close>

text \<open>One round of \<open>unit_conditions\<close> appends the same conditions each time.\<close>

definition round_conditions :: "condition_conf \<Rightarrow> condition list" where
  "round_conditions C = ue_conditions (fold (\<lambda>(k, v). add_condition k v) (config_conditions C) ue_condition_new)"

definition round_asserts :: "condition_conf \<Rightarrow> condition list" where
  "round_asserts C = ue_asserts (add_assert ''AssertPathExists'' (AssertPathExists C) ue_condition_new)"

lemma add_condition_append:
  "add_condition k v u = u\<lparr>ue_conditions := ue_conditions u @ ue_conditions (add_condition k v ue_condition_new)\<rparr>"
  by (simp add: add_condition_def ue_condition_new_def split: option.split)

lemma fold_add_condition_append:
  "fold (\<lambda>(k, v). add_condition k v) kvs u =
     u\<lparr>ue_conditions := ue_conditions u @ ue_conditions (fold (\<lambda>(k, v). add_condition k v) kvs ue_condition_new)\<rparr>"
proof (induction kvs arbitrary: u)
  case (Cons kv kvs)
  obtain k v where kv: "kv = (k, v)" by fastforce
  let ?n = "add_condition k v ue_condition_new" and ?f = "fold (\<lambda>(k, v). add_condition k v) kvs"
  have "?f (add_condition k v u) = u\<lparr>ue_conditions := (ue_conditions u @ ue_conditions ?n) @ ue_conditions (?f ue_condition_new)\<rparr>"
    by (subst Cons.IH) (simp add: add_condition_append [of k v u])
  moreover have "ue_conditions (?f ?n) = ue_conditions ?n @ ue_conditions (?f ue_condition_new)"
    by (subst Cons.IH) simp
  ultimately show ?case by (simp add: kv)
qed (simp add: ue_condition_new_def)

lemma unit_conditions_append:
  "ue_init_flag u = 0 \<Longrightarrow> unit_conditions C u =
     u\<lparr>ue_conditions := ue_conditions u @ round_conditions C, ue_asserts := ue_asserts u @ round_asserts C\<rparr>"
  unfolding unit_conditions_def round_conditions_def round_asserts_def
  by (subst fold_add_condition_append) (simp add: add_assert_def ue_condition_new_def split: option.split)

lemma unit_conditions_rounds:
  "(unit_conditions C ^^ n) ue_condition_new =
     \<lparr>ue_init_flag = 0, ue_conditions = concat (replicate n (round_conditions C)), ue_asserts = concat (replicate n (round_asserts C))\<rparr>"
proof (induction n)
  case 0
  then show ?case by (simp add: ue_condition_new_def)
next
  case (Suc n)
  have "concat (replicate n xs) @ xs = xs @ concat (replicate n xs)" for xs :: "condition list"
    by (induction n) simp_all
  then show ?case using Suc by (simp add: unit_conditions_append)
qed

lemma set_concat_replicate [simp]: "set (concat (replicate n xs)) = (if n = 0 then {} else set xs)"
  by auto

lemma length_concat_replicate [simp]: "length (concat (replicate n xs)) = n * length xs"
  by (induction n) simp_all


text \<open>A unit on a system with nothing but its path, started for the second time.\<close>

definition demo_view :: sys_view where
  "demo_view = \<lparr>sy_exists = (\<lambda>p. p = ''/etc/a''), sy_is_file = (\<lambda>_. False), sy_is_dir = (\<lambda>_. False), sy_is_symlink = (\<lambda>_. False),
     sy_read_dir = (\<lambda>_. None), sy_stat_mode = (\<lambda>_. None), sy_metadata = (\<lambda>_. None),
     sy_read = (\<lambda>f. if f = ''/proc/cmdline'' then Some ''quietly ab=1 a=b'' else None), sy_lines = (\<lambda>_. None),
     sy_fsize = (\<lambda>_. None), sy_glob = (\<lambda>_. 3), sy_open = (\<lambda>_. None), sy_mount_root = (\<lambda>_. (False, False)),
     sy_open_path = (\<lambda>_. None), sy_rdonly = (\<lambda>_. None), sy_cap_bitmask = (\<lambda>_. None), sy_selinux = False,
     sy_audit_socket = Inl ''EPERM'', sy_user_of_uid = (\<lambda>_. Inr None), sy_user_of_name = (\<lambda>_. Inr None), sy_uid = 0, sy_euid = 0\<rparr>"

definition demo_conf :: condition_conf where
  "demo_conf = \<lparr>ConditionACPower = None, ConditionCapability = [], ConditionDirectoryNotEmpty = [], ConditionFileIsExecutable = [],
     ConditionFileNotEmpty = [], ConditionFirstBoot = None, ConditionKernelCommandLine = [], ConditionNeedsUpdate = [],
     ConditionPathExists = ''|/etc/a'', ConditionPathExistsGlob = [], ConditionPathIsDirectory = ''|!/etc/b'',
     ConditionPathIsMountPoint = [], ConditionPathIsReadWrite = [], ConditionPathIsSymbolicLink = [], ConditionSecurity = [],
     ConditionUser = [], AssertPathExists = ''/etc/a''\<rparr>"

lemma demo_round:
  "round_conditions demo_conf =
     [\<lparr>c_type = PathExists, c_trigger = 1, c_revert = 0, c_params = ''/etc/a''\<rparr>,
      \<lparr>c_type = PathIsDirectory, c_trigger = 1, c_revert = 1, c_params = ''/etc/b''\<rparr>]"
  "round_asserts demo_conf = [\<lparr>c_type = PathExists, c_trigger = 0, c_revert = 0, c_params = ''/etc/a''\<rparr>]"
  by code_simp+


section \<open>The prefixes of a condition, and three tests that miss their point\<close>

lemma new_condition_prefixes:
  assumes "strip_prefix CHR ''|'' p = None" and "strip_prefix CHR ''!'' p = None"
  shows "new_condition ty ((if t then ''|'' else []) @ (if r then ''!'' else []) @ p) =
    \<lparr>c_type = ty, c_trigger = of_bool t, c_revert = of_bool r, c_params = p\<rparr>"
  using assms by (simp add: new_condition_def strip_prefix_def split: list.splits if_splits)

text \<open>
  A plain file of mode 0644, which nobody may execute, passes as executable, because the test masks with the decimal number
  111 instead of the octal one; a socket passes for a regular file; a word of the command line hides a later one
  of which it is an extension.
\<close>

lemma executable_mask_decimal:
  "test_file_is_executable (demo_view\<lparr>sy_stat_mode := (\<lambda>_. Some (0x8000 OR 0x1A4))\<rparr>) p"
  by (simp add: test_file_is_executable_def demo_view_def stat_is_reg_def S_IFMT_def S_IFREG_def)

lemma socket_is_reg: "stat_is_reg 0xC000"
  by (simp add: stat_is_reg_def S_IFMT_def S_IFREG_def)

lemma kernel_command_line_hidden:
  "''a=b'' \<in> set (the (cmdline_words demo_view)) \<and> \<not> test_kernel_command_line demo_view ''a=b''"
  "test_kernel_command_line demo_view ''quiet''"
  by code_simp+

end
