(* ===== verification/Unit_Child.thy ===== *)
theory Unit_Child
  imports Service_Conf
begin

text \<open>
  The processes of the units: the table of watched processes (\<^verbatim>\<open>core/bin/unit/datastore/child.rs\<close>), the processes each
  unit remembers (\<^verbatim>\<open>core/bin/unit/entry/child.rs\<close>) with their row in the reliability table
  (\<^verbatim>\<open>core/bin/unit/rentry.rs\<close>), and the dispatch of ended children (\<^verbatim>\<open>core/bin/unit/sigchld.rs\<close>).

  A unit object is known by its id. The set a unit remembers is a hash set, so the row that mirrors it is a set too; where the
  code walks over the rows of a table, the order is an argument. \<open>None\<close> is a panic: a unit that is not in the table, or a row for
  a unit without a base row.
\<close>

section \<open>The tables\<close>

record child_db =
  cd_units :: "unit_id set"
  cd_base :: "unit_id set"
  cd_watch :: "pid \<rightharpoonup> unit_id"
  cd_pids :: "unit_id \<Rightarrow> pid set"
  cd_rows :: "unit_id \<rightharpoonup> pid set"

definition child_db_new :: child_db where
  "child_db_new = \<lparr>cd_units = {}, cd_base = {}, cd_watch = Map.empty, cd_pids = (\<lambda>_. {}), cd_rows = Map.empty\<rparr>"

text \<open>\<open>UeChild\<close>: the processes a unit remembers.\<close>

definition child_insert :: "unit_id \<Rightarrow> pid set \<Rightarrow> child_db \<Rightarrow> child_db option" where
  "child_insert u ps d = do { rust_assert (u \<in> cd_base d); Some (d\<lparr>cd_rows := (cd_rows d)(u \<mapsto> ps)\<rparr>) }"

definition child_get :: "child_db \<Rightarrow> unit_id \<Rightarrow> pid set" where
  "child_get d u = (case cd_rows d u of Some ps \<Rightarrow> ps | None \<Rightarrow> {})"

definition ue_child_new :: "unit_id \<Rightarrow> child_db \<Rightarrow> child_db option" where
  "ue_child_new u d = child_insert u {} (d\<lparr>cd_pids := (cd_pids d)(u := {})\<rparr>)"

definition add_pids :: "unit_id \<Rightarrow> pid \<Rightarrow> child_db \<Rightarrow> child_db option" where
  "add_pids u p d =
     (let ps = insert p (cd_pids d u) in child_insert u ps (d\<lparr>cd_pids := (cd_pids d)(u := ps)\<rparr>))"

definition remove_pids :: "unit_id \<Rightarrow> pid \<Rightarrow> child_db \<Rightarrow> child_db option" where
  "remove_pids u p d =
     (let ps = cd_pids d u - {p} in child_insert u ps (d\<lparr>cd_pids := (cd_pids d)(u := ps)\<rparr>))"

definition ue_child_db_map :: "unit_id \<Rightarrow> child_db \<Rightarrow> child_db" where
  "ue_child_db_map u d = d\<lparr>cd_pids := (cd_pids d)(u := cd_pids d u \<union> child_get d u)\<rparr>"

text \<open>\<open>UnitChild\<close>: the table of watched processes.\<close>

definition add_watch_pid :: "unit_id \<Rightarrow> pid \<Rightarrow> child_db \<Rightarrow> child_db option" where
  "add_watch_pid u p d = do {
     rust_assert (u \<in> cd_units d);
     add_pids u p (d\<lparr>cd_watch := (cd_watch d)(p \<mapsto> u)\<rparr>) }"

definition unwatch_pid :: "unit_id \<Rightarrow> pid \<Rightarrow> child_db \<Rightarrow> child_db option" where
  "unwatch_pid u p d = do {
     rust_assert (u \<in> cd_units d);
     remove_pids u p (d\<lparr>cd_watch := (cd_watch d)(p := None)\<rparr>) }"

definition get_unit_by_pid :: "child_db \<Rightarrow> pid \<Rightarrow> unit_id option" where
  "get_unit_by_pid d p = cd_watch d p"

definition same_unit_with_pid :: "child_db \<Rightarrow> unit_id \<Rightarrow> pid \<Rightarrow> bool" where
  "same_unit_with_pid d u p = (if p \<le> 0 then False else get_unit_by_pid d p = Some u)"

text \<open>The cgroup of a unit and its processes are read from the system.\<close>

definition child_watch_all_pids ::
  "(unit_id \<Rightarrow> string) \<Rightarrow> (string \<Rightarrow> pid list) \<Rightarrow> unit_id \<Rightarrow> child_db \<Rightarrow> child_db option" where
  "child_watch_all_pids cg_path cg_get_pids u d = do {
     rust_assert (u \<in> cd_units d);
     if cg_path u = [] then Some d else fold_opt (add_watch_pid u) (cg_get_pids (cg_path u)) d }"

definition child_units_insert :: "unit_id \<Rightarrow> child_db \<Rightarrow> child_db option" where
  "child_units_insert u d = do {
     d1 \<leftarrow> ue_child_new u (d\<lparr>cd_base := insert u (cd_base d)\<rparr>);
     Some (d1\<lparr>cd_units := insert u (cd_units d1)\<rparr>) }"

text \<open>The subscription to the removal of a unit does nothing.\<close>

definition child_unit_remove :: "unit_id \<Rightarrow> child_db \<Rightarrow> child_db" where
  "child_unit_remove u d = d\<lparr>cd_units := cd_units d - {u}\<rparr>"

definition child_entry_clear :: "child_db \<Rightarrow> child_db" where
  "child_entry_clear d = d\<lparr>cd_watch := Map.empty, cd_units := {}\<rparr>"

text \<open>The pids of a row are inserted in the order of the list \<open>row u\<close>, the rows in the order \<open>ks\<close>.\<close>

definition child_db_map :: "unit_id list \<Rightarrow> (unit_id \<Rightarrow> pid list) \<Rightarrow> child_db \<Rightarrow> child_db" where
  "child_db_map ks row d =
     fold (\<lambda>u d. if u \<in> cd_units d then fold (\<lambda>p d. d\<lparr>cd_watch := (cd_watch d)(p \<mapsto> u)\<rparr>) (row u) d else d) ks d"

section \<open>Ended children\<close>

record 'w reap_ops =
  ro_peek :: "'w \<Rightarrow> string + wait_status"
  ro_reap :: "pid \<Rightarrow> 'w \<Rightarrow> 'w"
  ro_sigchld_events :: "unit_id \<Rightarrow> wait_status \<Rightarrow> child_db \<times> 'w \<Rightarrow> (child_db \<times> 'w) option"

text \<open>The result says whether the source stays on.\<close>

definition sigchld_dispatch :: "'w reap_ops \<Rightarrow> child_db \<times> 'w \<Rightarrow> (bool \<times> child_db \<times> 'w) option" where
  "sigchld_dispatch R dw =
     (case ro_peek R (snd dw) of
        Inl e \<Rightarrow> Some (False, dw)
      | Inr ws \<Rightarrow>
          (let si = (case ws of Exited p _ \<Rightarrow> Some p | Signaled p _ _ \<Rightarrow> Some p | _ \<Rightarrow> None) in
           case si of
             None \<Rightarrow> Some (ws \<noteq> StillAlive, dw)
           | Some p \<Rightarrow>
               if p \<le> 0 then Some (False, dw)
               else do {
                 dw1 \<leftarrow> (case get_unit_by_pid (fst dw) p of
                          Some u \<Rightarrow> do {
                            dw' \<leftarrow> ro_sigchld_events R u ws dw;
                            d2 \<leftarrow> unwatch_pid u p (fst dw');
                            Some (d2, snd dw') }
                        | None \<Rightarrow> Some dw);
                 Some (True, fst dw1, ro_reap R p (snd dw1)) }))"

section \<open>The tables agree\<close>

text \<open>
  Every watched process belongs to a unit of the table that remembers it, and the row of each unit is what it remembers.
\<close>

definition child_inv :: "child_db \<Rightarrow> bool" where
  "child_inv d \<longleftrightarrow> cd_units d \<subseteq> cd_base d \<and> (\<forall>p u. cd_watch d p = Some u \<longrightarrow> u \<in> cd_units d \<and> p \<in> cd_pids d u) \<and>
     (\<forall>u \<in> cd_units d. cd_rows d u = Some (cd_pids d u))"

lemma child_invD:
  assumes "child_inv d"
  shows "cd_units d \<subseteq> cd_base d" "cd_watch d p = Some u \<Longrightarrow> u \<in> cd_units d \<and> p \<in> cd_pids d u"
    "u \<in> cd_units d \<Longrightarrow> cd_rows d u = Some (cd_pids d u)"
  using assms by (auto simp: child_inv_def)

lemmas child_simps = child_insert_def child_get_def add_pids_def remove_pids_def ue_child_new_def add_watch_pid_def
  unwatch_pid_def get_unit_by_pid_def Let_def

lemma child_new_inv: "child_inv child_db_new"
  by (simp add: child_inv_def child_db_new_def)

lemma child_units_insert_inv:
  assumes "child_inv d" and "u \<notin> cd_units d"
  shows "\<exists>d'. child_units_insert u d = Some d' \<and> child_inv d' \<and> cd_units d' = insert u (cd_units d)"
  using assms by (auto simp: child_units_insert_def child_simps child_inv_def)

lemma add_watch_pid_inv:
  assumes "child_inv d" and "u \<in> cd_units d"
  shows "\<exists>d'. add_watch_pid u p d = Some d' \<and> child_inv d' \<and> cd_units d' = cd_units d \<and>
    cd_watch d' = (cd_watch d)(p \<mapsto> u) \<and> cd_pids d' = (cd_pids d)(u := insert p (cd_pids d u))"
  using assms by (auto simp: child_simps child_inv_def)

lemma unwatch_pid_inv:
  assumes "child_inv d" and "u \<in> cd_units d"
  shows "\<exists>d'. unwatch_pid u p d = Some d' \<and> child_inv d' \<and> cd_units d' = cd_units d \<and>
    cd_watch d' = (cd_watch d)(p := None) \<and> cd_pids d' = (cd_pids d)(u := cd_pids d u - {p})"
  using assms by (auto simp: child_simps child_inv_def)

lemma child_watch_all_pids_inv:
  assumes "child_inv d" and "u \<in> cd_units d"
  shows "\<exists>d'. child_watch_all_pids cg get u d = Some d' \<and> child_inv d' \<and> cd_units d' = cd_units d \<and>
    (cg u \<noteq> [] \<longrightarrow> (\<forall>p \<in> set (get (cg u)). cd_watch d' p = Some u)) \<and>
    (\<forall>p. cd_watch d' p \<noteq> cd_watch d p \<longrightarrow> p \<in> set (get (cg u)))"
proof -
  have "\<exists>d'. fold_opt (add_watch_pid u) ps d = Some d' \<and> child_inv d' \<and> cd_units d' = cd_units d \<and>
    (\<forall>p. cd_watch d' p = (if p \<in> set ps then Some u else cd_watch d p))" for ps
    using assms
  proof (induction ps arbitrary: d)
    case (Cons p ps)
    from add_watch_pid_inv [OF Cons.prems, of p] obtain d1 where
      d1: "add_watch_pid u p d = Some d1" "child_inv d1" "cd_units d1 = cd_units d" "cd_watch d1 = (cd_watch d)(p \<mapsto> u)" by blast
    have "u \<in> cd_units d1" using Cons.prems(2) d1(3) by simp
    from Cons.IH [OF d1(2) this] obtain d2 where
      "fold_opt (add_watch_pid u) ps d1 = Some d2" "child_inv d2" "cd_units d2 = cd_units d1"
      "\<forall>q. cd_watch d2 q = (if q \<in> set ps then Some u else cd_watch d1 q)" by blast
    with d1 show ?case by auto
  qed simp
  then obtain d' where "fold_opt (add_watch_pid u) (get (cg u)) d = Some d'" "child_inv d'" "cd_units d' = cd_units d"
    "\<forall>p. cd_watch d' p = (if p \<in> set (get (cg u)) then Some u else cd_watch d p)" by blast
  then show ?thesis using assms by (cases "cg u = []") (auto simp: child_watch_all_pids_def)
qed

section \<open>Dispatching an ended child\<close>

text \<open>
  A dispatch finds the unit that watches the process, lets it handle the end, forgets the process and reaps it. The units may
  do what they like in between, as long as they keep the tables in agreement and stay in the table.
\<close>

definition handlers_ok :: "'w reap_ops \<Rightarrow> bool" where
  "handlers_ok R \<longleftrightarrow> (\<forall>u ws d w. child_inv d \<and> u \<in> cd_units d \<longrightarrow>
     (\<exists>d' w'. ro_sigchld_events R u ws (d, w) = Some (d', w') \<and> child_inv d' \<and> cd_units d \<subseteq> cd_units d'))"

fun ended :: "wait_status \<Rightarrow> pid option" where
  "ended (Exited p _) = Some p"
| "ended (Signaled p _ _) = Some p"
| "ended _ = None"

lemma sigchld_dispatch_child:
  assumes "handlers_ok R" and "child_inv d" and "ro_peek R w = Inr ws" and "ended ws = Some p" and "p > 0"
  shows "\<exists>d' w'. sigchld_dispatch R (d, w) = Some (True, d', ro_reap R p w') \<and> child_inv d' \<and> cd_units d \<subseteq> cd_units d' \<and>
    (case cd_watch d p of
       None \<Rightarrow> d' = d \<and> w' = w
     | Some u \<Rightarrow> p \<notin> cd_pids d' u \<and>
         (\<exists>d1. ro_sigchld_events R u ws (d, w) = Some (d1, w') \<and> cd_watch d' = (cd_watch d1)(p := None)))"
proof -
  have si: "(case ws of Exited p _ \<Rightarrow> Some p | Signaled p _ _ \<Rightarrow> Some p | _ \<Rightarrow> None) = Some p"
    using assms(4) by (cases ws) simp_all
  show ?thesis
  proof (cases "cd_watch d p")
    case None
    then show ?thesis using assms(2,3,5) si by (simp add: sigchld_dispatch_def get_unit_by_pid_def)
  next
    case (Some u)
    have u: "u \<in> cd_units d" using child_invD(2) [OF assms(2) Some] by simp
    then obtain d1 w' where d1: "ro_sigchld_events R u ws (d, w) = Some (d1, w')" "child_inv d1" "cd_units d \<subseteq> cd_units d1"
      using assms(1,2) by (fastforce simp: handlers_ok_def)
    have "u \<in> cd_units d1" using u d1(3) by blast
    from unwatch_pid_inv [OF d1(2) this, of p] obtain d2 where
      d2: "unwatch_pid u p d1 = Some d2" "child_inv d2" "cd_units d2 = cd_units d1" "cd_watch d2 = (cd_watch d1)(p := None)"
        "cd_pids d2 = (cd_pids d1)(u := cd_pids d1 u - {p})" by blast
    have "sigchld_dispatch R (d, w) = Some (True, d2, ro_reap R p w')"
      using assms(3,5) si Some d1(1) d2(1) by (simp add: sigchld_dispatch_def get_unit_by_pid_def)
    then show ?thesis using Some d1 d2 by auto
  qed
qed

text \<open>
  The kernel behind the dispatch: \<open>zs\<close> are the ends that wait to be collected, the first of them is shown first, and a
  reaped child is gone. Handlers leave the other children alone.
\<close>

definition kernel_laws :: "'w reap_ops \<Rightarrow> ('w \<Rightarrow> wait_status list) \<Rightarrow> bool" where
  "kernel_laws R zs \<longleftrightarrow>
     (\<forall>w. ro_peek R w = (case zs w of [] \<Rightarrow> Inr StillAlive | ws # _ \<Rightarrow> Inr ws)) \<and>
     (\<forall>w ws wss p. zs w = ws # wss \<and> ended ws = Some p \<longrightarrow> zs (ro_reap R p w) = wss) \<and>
     (\<forall>u ws d w d' w'. ro_sigchld_events R u ws (d, w) = Some (d', w') \<longrightarrow> zs w' = zs w)"

text \<open>The source is dispatched until it turns itself off.\<close>

fun sigchld_rounds :: "'w reap_ops \<Rightarrow> nat \<Rightarrow> child_db \<times> 'w \<Rightarrow> (child_db \<times> 'w) option" where
  "sigchld_rounds R 0 dw = None"
| "sigchld_rounds R (Suc n) dw = do {
     (enable, dw') \<leftarrow> sigchld_dispatch R dw;
     if enable then sigchld_rounds R n dw' else Some dw' }"

definition handlers_quiet :: "'w reap_ops \<Rightarrow> bool" where
  "handlers_quiet R \<longleftrightarrow> (\<forall>u ws d w d' w'. ro_sigchld_events R u ws (d, w) = Some (d', w') \<longrightarrow> dom (cd_watch d') \<subseteq> dom (cd_watch d))"

lemma sigchld_step:
  assumes "handlers_ok R" and "kernel_laws R zs" and "child_inv d" and "zs w = ws # wss" and "ended ws = Some p" and "p > 0"
  shows "\<exists>d1 w1. sigchld_dispatch R (d, w) = Some (True, d1, w1) \<and> child_inv d1 \<and> zs w1 = wss \<and> cd_units d \<subseteq> cd_units d1 \<and>
    (handlers_quiet R \<longrightarrow> dom (cd_watch d1) \<subseteq> dom (cd_watch d) - {p})"
proof -
  have "ro_peek R w = Inr ws" using assms(2,4) by (simp add: kernel_laws_def)
  from sigchld_dispatch_child [OF assms(1,3) this assms(5,6)] obtain d1 w' where
    d1: "sigchld_dispatch R (d, w) = Some (True, d1, ro_reap R p w')" "child_inv d1" "cd_units d \<subseteq> cd_units d1"
    and c: "case cd_watch d p of
       None \<Rightarrow> d1 = d \<and> w' = w
     | Some u \<Rightarrow> p \<notin> cd_pids d1 u \<and> (\<exists>d2. ro_sigchld_events R u ws (d, w) = Some (d2, w') \<and> cd_watch d1 = (cd_watch d2)(p := None))"
    by blast
  have "zs w' = zs w" using c assms(2) by (auto simp: kernel_laws_def split: option.splits)
  then have "zs (ro_reap R p w') = wss" using assms(2,4,5) by (simp add: kernel_laws_def)
  moreover have "handlers_quiet R \<longrightarrow> dom (cd_watch d1) \<subseteq> dom (cd_watch d) - {p}"
    using c unfolding handlers_quiet_def by (cases "cd_watch d p") (auto, metis domI domD subsetD)
  ultimately show ?thesis using d1 by blast
qed

lemma sigchld_rounds_drain:
  assumes "handlers_ok R" and "kernel_laws R zs" and "child_inv d" and "\<forall>ws \<in> set (zs w). \<exists>p. ended ws = Some p \<and> p > 0"
  shows "\<exists>d' w'. sigchld_rounds R (length (zs w) + 1) (d, w) = Some (d', w') \<and> child_inv d' \<and> zs w' = [] \<and>
    cd_units d \<subseteq> cd_units d' \<and>
    (handlers_quiet R \<longrightarrow> dom (cd_watch d') \<subseteq> dom (cd_watch d) - {p. \<exists>ws \<in> set (zs w). ended ws = Some p})"
  using assms(3,4)
proof (induction "zs w" arbitrary: d w)
  case Nil
  then have "sigchld_dispatch R (d, w) = Some (False, d, w)" using assms(2) by (simp add: sigchld_dispatch_def kernel_laws_def flip: Nil.hyps)
  then show ?case using Nil by (simp flip: Nil.hyps)
next
  case (Cons ws wss)
  note z = Cons.hyps(2) [symmetric]
  obtain p where p: "ended ws = Some p" "p > 0" using Cons.prems(2) z by auto
  obtain d1 w1 where d1: "sigchld_dispatch R (d, w) = Some (True, d1, w1)" "child_inv d1" "zs w1 = wss" "cd_units d \<subseteq> cd_units d1"
      "handlers_quiet R \<longrightarrow> dom (cd_watch d1) \<subseteq> dom (cd_watch d) - {p}"
    using sigchld_step [OF assms(1,2) Cons.prems(1) z p] by blast
  have "\<forall>ws \<in> set (zs w1). \<exists>p. ended ws = Some p \<and> p > 0" using Cons.prems(2) z d1(3) by simp
  from Cons.hyps(1) [OF d1(3) [symmetric] d1(2) this] obtain d' w' where
    d': "sigchld_rounds R (length (zs w1) + 1) (d1, w1) = Some (d', w')" "child_inv d'" "zs w' = []" "cd_units d1 \<subseteq> cd_units d'"
    and q: "handlers_quiet R \<longrightarrow> dom (cd_watch d') \<subseteq> dom (cd_watch d1) - {p. \<exists>ws \<in> set (zs w1). ended ws = Some p}" by blast
  moreover have "{p. \<exists>ws \<in> set (zs w). ended ws = Some p} = insert p {p. \<exists>ws \<in> set (zs w1). ended ws = Some p}"
    by (auto simp: z d1(3) p(1))
  ultimately have "handlers_quiet R \<longrightarrow> dom (cd_watch d') \<subseteq> dom (cd_watch d) - {p. \<exists>ws \<in> set (zs w). ended ws = Some p}"
    using d1(5) by blast
  then show ?case using d' d1 z by (intro exI [of _ d'] exI [of _ w']) (simp add: subset_trans [OF d1(4)])
qed


section \<open>Recovery and removal\<close>

text \<open>
  What a new manager holds before it maps the table of processes: the units are built anew while writes to the tables are
  ignored, and each remembers what its row says.
\<close>

definition child_rebuilt :: "unit_id list \<Rightarrow> child_db \<Rightarrow> child_db" where
  "child_rebuilt us d = fold ue_child_db_map us (d\<lparr>cd_units := set us, cd_watch := Map.empty, cd_pids := (\<lambda>_. {})\<rparr>)"

lemma ue_child_db_maps:
  "fold ue_child_db_map us d = d\<lparr>cd_pids := (\<lambda>u. if u \<in> set us then cd_pids d u \<union> child_get d u else cd_pids d u)\<rparr>"
proof (induction us arbitrary: d)
  case (Cons v us)
  have "child_get (ue_child_db_map v d) u = child_get d u" for u by (simp add: ue_child_db_map_def child_get_def)
  then show ?case using Cons by (auto simp: ue_child_db_map_def fun_eq_iff intro!: child_db.equality)
qed simp

lemma watch_row:
  "fold (\<lambda>p d. d\<lparr>cd_watch := (cd_watch d)(p \<mapsto> u)\<rparr>) ps d =
     d\<lparr>cd_watch := (\<lambda>p. if p \<in> set ps then Some u else cd_watch d p)\<rparr>"
  by (induction ps arbitrary: d) (auto intro!: child_db.equality)

lemma child_db_map_watch:
  "\<exists>m. child_db_map ks row d = d\<lparr>cd_watch := m\<rparr> \<and>
     (\<forall>p. (\<exists>u \<in> set ks \<inter> cd_units d. p \<in> set (row u) \<and> m p = Some u) \<or>
       m p = cd_watch d p \<and> (\<forall>u \<in> set ks \<inter> cd_units d. p \<notin> set (row u)))"
proof (induction ks arbitrary: d)
  case Nil
  show ?case by (rule exI [of _ "cd_watch d"]) (simp add: child_db_map_def)
next
  case (Cons u ks)
  let ?d = "if u \<in> cd_units d then d\<lparr>cd_watch := (\<lambda>p. if p \<in> set (row u) then Some u else cd_watch d p)\<rparr> else d"
  have s: "child_db_map (u # ks) row d = child_db_map ks row ?d" by (simp add: child_db_map_def watch_row)
  from Cons.IH [of ?d] obtain m where m: "child_db_map ks row ?d = ?d\<lparr>cd_watch := m\<rparr>"
    "\<forall>p. (\<exists>v \<in> set ks \<inter> cd_units ?d. p \<in> set (row v) \<and> m p = Some v) \<or>
       m p = cd_watch ?d p \<and> (\<forall>v \<in> set ks \<inter> cd_units ?d. p \<notin> set (row v))" by blast
  show ?case unfolding s m(1) by (rule exI [of _ m]) (use m(2) in \<open>auto split: if_splits\<close>)
qed

text \<open>
  A new manager watches the processes the old one watched: if no process is remembered by two units, the mapped
  table gives every watched process back to its unit, and every unit remembers what it did. A process that two units
  remember goes to one of them, depending on the order of the table.
\<close>

theorem child_recovery:
  assumes "child_inv d" and "set us = cd_units d" and "set ks = dom (cd_rows d)" and "\<forall>u. set (row u) = child_get d u"
  shows "\<exists>r. child_db_map ks row (child_rebuilt us d) = r \<and> (\<forall>u \<in> cd_units d. cd_pids r u = cd_pids d u) \<and>
    (\<forall>p u. cd_watch d p = Some u \<longrightarrow> (\<exists>v. cd_watch r p = Some v \<and> p \<in> cd_pids d v \<and>
      ((\<forall>x \<in> cd_units d. p \<in> cd_pids d x \<longrightarrow> x = u) \<longrightarrow> v = u)))"
proof -
  let ?b = "child_rebuilt us d"
  have row: "child_get d u = cd_pids d u" if "u \<in> cd_units d" for u
    using child_invD(3) [OF assms(1) that] by (simp add: child_get_def)
  have b: "cd_units ?b = cd_units d" "cd_watch ?b = Map.empty" "\<forall>u \<in> cd_units d. cd_pids ?b u = cd_pids d u"
    using row by (simp_all add: child_rebuilt_def ue_child_db_maps assms(2) child_get_def)
  obtain m where m: "child_db_map ks row ?b = ?b\<lparr>cd_watch := m\<rparr>"
    "\<forall>p. (\<exists>u \<in> set ks \<inter> cd_units ?b. p \<in> set (row u) \<and> m p = Some u) \<or>
       m p = cd_watch ?b p \<and> (\<forall>u \<in> set ks \<inter> cd_units ?b. p \<notin> set (row u))"
    using child_db_map_watch [of ks row ?b] by blast
  have "\<exists>v. m p = Some v \<and> p \<in> cd_pids d v \<and> ((\<forall>x \<in> cd_units d. p \<in> cd_pids d x \<longrightarrow> x = u) \<longrightarrow> v = u)"
    if "cd_watch d p = Some u" for p u
  proof -
    have u: "u \<in> cd_units d" "p \<in> cd_pids d u" using child_invD(2) [OF assms(1) that] by simp_all
    then have "u \<in> set ks" "p \<in> set (row u)" using child_invD(3) [OF assms(1)] assms(3,4) row by auto
    then obtain v where "v \<in> cd_units d" "p \<in> set (row v)" "m p = Some v" using m(2) u(1) b(1) by blast
    then show ?thesis using assms(4) row by auto
  qed
  then show ?thesis using m(1) b(3) by simp
qed

text \<open>A unit that is removed while a process of it runs: its end finds the unit no more, and the manager panics.\<close>

lemma removed_unit_panics:
  assumes "ro_peek R w = Inr ws" and "ended ws = Some p" and "p > 0" and "cd_watch d p = Some u"
    and "\<And>d' w'. ro_sigchld_events R u ws (child_unit_remove u d, w) = Some (d', w') \<Longrightarrow> cd_units d' \<subseteq> cd_units (child_unit_remove u d)"
  shows "sigchld_dispatch R (child_unit_remove u d, w) = None"
proof (cases "ro_sigchld_events R u ws (child_unit_remove u d, w)")
  case None
  then show ?thesis using assms(1-4) by (cases ws) (simp_all add: sigchld_dispatch_def get_unit_by_pid_def child_unit_remove_def)
next
  case (Some dw)
  then have "u \<notin> cd_units (fst dw)" using assms(5) [of "fst dw" "snd dw"] by (auto simp: child_unit_remove_def)
  then show ?thesis using Some assms(1-4)
    by (cases ws) (simp_all add: sigchld_dispatch_def get_unit_by_pid_def child_unit_remove_def unwatch_pid_def)
qed

section \<open>Two services and their ends\<close>

definition demo_children :: child_db where
  "demo_children = \<lparr>cd_units = {''a.service'', ''b.service''}, cd_base = {''a.service'', ''b.service''},
     cd_watch = [7 \<mapsto> ''a.service'', 8 \<mapsto> ''b.service''], cd_pids = (\<lambda>u. if u = ''a.service'' then {7} else if u = ''b.service'' then {8} else {}),
     cd_rows = [''a.service'' \<mapsto> {7}, ''b.service'' \<mapsto> {8}]\<rparr>"

definition demo_reap :: "wait_status list reap_ops" where
  "demo_reap = \<lparr>ro_peek = (\<lambda>zs. case zs of [] \<Rightarrow> Inr StillAlive | ws # _ \<Rightarrow> Inr ws), ro_reap = (\<lambda>_ zs. tl zs),
     ro_sigchld_events = (\<lambda>_ _ dw. Some dw)\<rparr>"

lemma demo_children_inv: "child_inv demo_children"
  by (auto simp: child_inv_def demo_children_def split: if_splits)


theorem child_recovery_witness:
  "cd_watch (child_db_map [''a.service'', ''b.service''] (\<lambda>u. if u = ''a.service'' then [7] else if u = ''b.service'' then [8] else [])
     (child_rebuilt [''a.service'', ''b.service''] demo_children)) 7 = Some ''a.service''"
proof -
  have c: "\<forall>u. set (if u = ''a.service'' then [7] else if u = ''b.service'' then [8] else []) = child_get demo_children u"
    by (simp add: child_get_def demo_children_def)
  have d: "set [''a.service'', ''b.service''] = cd_units demo_children" "set [''a.service'', ''b.service''] = dom (cd_rows demo_children)"
    "cd_watch demo_children 7 = Some ''a.service''" "\<forall>x \<in> cd_units demo_children. 7 \<in> cd_pids demo_children x \<longrightarrow> x = ''a.service''"
    by (auto simp: demo_children_def)
  from child_recovery [OF demo_children_inv d(1,2) c] d(3,4) show ?thesis by blast
qed

end
