(* ===== verification/Mount_Mng.thy ===== *)
theory Mount_Mng
  imports Unit_Load Unit_Limit
begin

text \<open>
  The mount unit type (\<^verbatim>\<open>coms/mount/src/mng.rs\<close>, \<^verbatim>\<open>unit.rs\<close>, \<^verbatim>\<open>rentry.rs\<close>) and the monitor that keeps the mount units in
  step with the mount table of the kernel (\<^verbatim>\<open>coms/mount/src/manager.rs\<close>), on top of the loading of units
  (\<open>Unit_Load\<close>) and the guarded start and stop of a unit (\<open>Unit_State\<close>).

  A mount unit has no file of its own: it is created when its mount point shows up in the table. The world holds the
  runtime of the units, the state of each mount unit with its stored row, its start limit, and what was reported. The mount table
  is the list of entries the parser of the library \<^verbatim>\<open>libmount\<close> yields: an error, or a file system type and a mount point,
  either of which may not be text.
\<close>

section \<open>The mount unit\<close>

datatype mount_state = MountDead | MountMounted

fun mount_state_to_unit_state :: "mount_state \<Rightarrow> unit_active_state" where
  "mount_state_to_unit_state MountDead = UnitInActive"
| "mount_state_to_unit_state MountMounted = UnitActive"

record mount_world =
  mw_rt :: unit_rt
  mw_state :: "unit_id \<Rightarrow> mount_state"
  mw_rows :: "unit_id \<rightharpoonup> mount_state"
  mw_limit :: "unit_id \<Rightarrow> start_limit"
  mw_reports :: "(unit_id \<times> start_limit_result) list"
  mw_notes :: "unit_notify list"
  mw_frame :: bool
  mw_last_unit :: "unit_id option"

record mount_env =
  me_load :: load_env
  me_bound :: nat
  me_interval :: "unit_id \<Rightarrow> u64"
  me_burst :: "unit_id \<Rightarrow> 32 word"
  me_now :: "mount_world \<Rightarrow> nat"
  me_conditions :: "unit_id \<Rightarrow> bool"
  me_asserts :: "unit_id \<Rightarrow> bool"
  me_config :: "unit_id \<Rightarrow> unit_config"
  me_order :: "unit_id set \<Rightarrow> unit_id list"

text \<open>The row is written by the notification only.\<close>

definition mount_set_state :: "mount_state \<Rightarrow> bool \<Rightarrow> unit_id \<Rightarrow> mount_world \<Rightarrow> unit_notify list \<times> mount_world" where
  "mount_set_state st notify u w =
     (let old = mw_state w u; w1 = w\<lparr>mw_state := (mw_state w)(u := st)\<rparr> in
      if notify
      then ([(u, mount_state_to_unit_state old, mount_state_to_unit_state st, UNIT_NOTIFY_RELOAD_FAILURE)],
            w1\<lparr>mw_rows := (mw_rows w1)(u \<mapsto> st)\<rparr>)
      else ([], w1))"

definition mount_enter_dead :: "bool \<Rightarrow> unit_id \<Rightarrow> mount_world \<Rightarrow> unit_notify list \<times> mount_world" where
  "mount_enter_dead = mount_set_state MountDead"

definition mount_enter_mounted :: "bool \<Rightarrow> unit_id \<Rightarrow> mount_world \<Rightarrow> unit_notify list \<times> mount_world" where
  "mount_enter_mounted = mount_set_state MountMounted"

definition mount_start_check :: "mount_env \<Rightarrow> unit_id \<Rightarrow> mount_world \<Rightarrow> (error + bool) \<times> unit_notify list \<times> mount_world" where
  "mount_start_check E u w =
     (case test_start_limit (me_interval E u) (me_burst E u) (me_now E w) (mw_limit w u) of (ret, rep, l) \<Rightarrow>
        let w1 = w\<lparr>mw_limit := (mw_limit w)(u := l), mw_reports := mw_reports w @ [(u, rep)]\<rparr> in
        if \<not> ret then (Inl UnitActionECanceled, mount_enter_dead True u w1) else (Inr False, [], w1))"

definition mount_start :: "mount_env \<Rightarrow> unit_id \<Rightarrow> mount_world unit_action" where
  "mount_start E u w =
     (case mount_start_check E u w of
        (Inl e, notes, w1) \<Rightarrow> (Inl e, notes, w1)
      | (Inr True, notes, w1) \<Rightarrow> (Inr (), notes, w1)
      | (Inr False, notes, w1) \<Rightarrow> (case mount_enter_mounted True u w1 of (ns, w2) \<Rightarrow> (Inr (), notes @ ns, w2)))"

definition mount_stop :: "unit_id \<Rightarrow> bool \<Rightarrow> mount_world unit_action" where
  "mount_stop u force w = (Inr (), mount_enter_dead True u w)"

definition mount_db_map :: "unit_id \<Rightarrow> mount_world \<Rightarrow> mount_world" where
  "mount_db_map u w = (case mw_rows w u of Some st \<Rightarrow> w\<lparr>mw_state := (mw_state w)(u := st)\<rparr> | None \<Rightarrow> w)"

text \<open>The mount unit behind the guards of \<open>Unit\<close>; it cannot be reloaded, the default of a unit type.\<close>

definition mount_ops :: "mount_env \<Rightarrow> mount_world unit_ops" where
  "mount_ops E = \<lparr>uo_active_state = (\<lambda>u w. mount_state_to_unit_state (mw_state w u)),
     uo_load_state = (\<lambda>u w. ux_load_state (rt_obj (mw_rt w) u)), uo_perpetual = (\<lambda>_ _. False), uo_config = (\<lambda>u _. me_config E u),
     uo_conditions_test = (\<lambda>u _. me_conditions E u), uo_asserts_test = (\<lambda>u _. me_asserts E u), uo_can_reload = (\<lambda>_ _. False),
     uo_sub_start = mount_start E, uo_sub_stop = mount_stop, uo_sub_reload = (\<lambda>_ w. (Inl UnitActionEOpNotSupp, [], w))\<rparr>"

section \<open>The calls into the unit manager\<close>

text \<open>A unit that a load creates starts out dead, with a row that says so.\<close>

definition mount_loaded :: "unit_rt \<Rightarrow> mount_world \<Rightarrow> mount_world" where
  "mount_loaded rt w =
     (let new = rt_units rt - rt_units (mw_rt w) in
      w\<lparr>mw_rt := rt, mw_state := (\<lambda>u. if u \<in> new then MountDead else mw_state w u),
        mw_rows := (\<lambda>u. if u \<in> new then Some MountDead else mw_rows w u),
        mw_limit := (\<lambda>u. if u \<in> new then start_limit_new else mw_limit w u)\<rparr>)"

definition mount_load_unit_success :: "mount_env \<Rightarrow> unit_id \<Rightarrow> mount_world \<Rightarrow> (bool \<times> mount_world) option" where
  "mount_load_unit_success E u w = do {
     (ok, rt) \<leftarrow> load_unit_success (me_load E) (dispatch_load_queue (me_load E) (me_bound E)) u (mw_rt w);
     Some (ok, mount_loaded rt w) }"

definition unit_start_directly :: "mount_env \<Rightarrow> unit_id \<Rightarrow> mount_world unit_action" where
  "unit_start_directly E u w =
     (if u \<in> rt_units (mw_rt w) then unit_start (mount_ops E) u w else (Inl UnitActionENoent, [], w))"

definition um_unit_stop :: "mount_env \<Rightarrow> unit_id \<Rightarrow> bool \<Rightarrow> mount_world unit_action" where
  "um_unit_stop E u force w =
     (if u \<in> rt_units (mw_rt w) then unit_stop (mount_ops E) u force w else (Inl UnitActionENoent, [], w))"

text \<open>An action between setting and clearing the last unit; its error is logged, its notifications are delivered.\<close>

definition recorded :: "unit_id \<Rightarrow> mount_world unit_action \<Rightarrow> mount_world \<Rightarrow> mount_world" where
  "recorded u act w =
     (case act (w\<lparr>mw_last_unit := Some u\<rparr>) of (_, notes, w1) \<Rightarrow> w1\<lparr>mw_last_unit := None, mw_notes := mw_notes w1 @ notes\<rparr>)"

section \<open>The monitor\<close>

definition mount_point_to_unit_name :: "string \<Rightarrow> unit_id" where
  "mount_point_to_unit_name mount_point =
     (let res = map (\<lambda>c. if c = CHR ''/'' then CHR ''-'' else c) mount_point @ ''.mount'' in
      if res \<noteq> ''-.mount'' then drop 1 res else res)"

type_synonym mount_entry = "string + string option \<times> string option"

fun mount_scan ::
  "mount_env \<Rightarrow> mount_entry list \<Rightarrow> unit_id set \<Rightarrow> mount_world \<Rightarrow> (unit_id set \<times> mount_world) option" where
  "mount_scan E [] dead w = Some (dead, w)"
| "mount_scan E (Inl err # es) dead w = mount_scan E es dead w"
| "mount_scan E (Inr (fstype, mount_point) # es) dead w =
     (if fstype = Some ''autofs'' then mount_scan E es dead w
      else do {
        mp \<leftarrow> mount_point;
        let unit_name = mount_point_to_unit_name mp;
        if unit_name \<in> dead then mount_scan E es (dead - {unit_name}) w
        else do {
          (ok, w1) \<leftarrow> mount_load_unit_success E unit_name w;
          mount_scan E es dead (if ok then recorded unit_name (unit_start_directly E unit_name) w1 else w1) } })"

definition dispatch_mountinfo :: "mount_env \<Rightarrow> mount_entry list \<Rightarrow> mount_world \<Rightarrow> mount_world option" where
  "dispatch_mountinfo E es w = do {
     let dead0 = {u \<in> rt_units (mw_rt w). ux_type (rt_obj (mw_rt w) u) = UnitMount \<and>
                    mount_state_to_unit_state (mw_state w u) = UnitActive};
     (dead, w1) \<leftarrow> mount_scan E es dead0 w;
     Some (fold (\<lambda>u. recorded u (um_unit_stop E u False)) (me_order E dead) w1) }"

text \<open>Both sources of the monitor run the dispatch inside the frame of the sub-manager.\<close>

definition monitor_dispatch :: "mount_env \<Rightarrow> mount_entry list \<Rightarrow> mount_world \<Rightarrow> mount_world option" where
  "monitor_dispatch E es w = do {
     w1 \<leftarrow> dispatch_mountinfo E es (w\<lparr>mw_frame := True\<rparr>);
     Some (w1\<lparr>mw_frame := False\<rparr>) }"

section \<open>One action on one unit\<close>

text \<open>What an action on a unit leaves alone, and the agreement of rows and states.\<close>

definition rows_agree :: "mount_world \<Rightarrow> bool" where
  "rows_agree w \<longleftrightarrow> (\<forall>u \<in> rt_units (mw_rt w). unit_name_to_type u = UnitMount \<longrightarrow> mw_rows w u = Some (mw_state w u))"

definition excused :: "mount_env \<Rightarrow> mount_world \<Rightarrow> unit_id \<Rightarrow> bool" where
  "excused E w u \<longleftrightarrow> \<not> me_conditions E u \<or> \<not> me_asserts E u \<or> (u, StartLimitHit) \<in> set (mw_reports w)"

lemma test_start_limit_report:
  "test_start_limit i b t l = (False, rep, l') \<Longrightarrow> rep = StartLimitHit"
  by (auto simp: test_start_limit_def Let_def split: prod.splits if_splits)

lemma started_unit:
  assumes "u \<in> rt_units (mw_rt w)" and "ux_load_state (rt_obj (mw_rt w) u) = LoadLoaded" and "rows_agree w"
    and "w' = recorded u (unit_start_directly E u) w"
  shows "mw_rt w' = mw_rt w \<and> rows_agree w' \<and> (\<forall>v. v \<noteq> u \<longrightarrow> mw_state w' v = mw_state w v) \<and>
    set (mw_reports w) \<subseteq> set (mw_reports w') \<and> (mw_state w u = MountMounted \<longrightarrow> mw_state w' u = MountMounted) \<and>
    (mw_state w' u = MountMounted \<or> excused E w' u)"
proof (cases "mw_state w u")
  case MountMounted
  then show ?thesis using assms by (simp add: recorded_def unit_start_directly_def unit_start_def mount_ops_def rows_agree_def)
next
  case MountDead
  obtain ret rep l where t: "test_start_limit (me_interval E u) (me_burst E u) (me_now E (w\<lparr>mw_last_unit := Some u\<rparr>)) (mw_limit w u) = (ret, rep, l)"
    by (metis prod_cases3)
  show ?thesis
  proof (cases "me_conditions E u \<and> me_asserts E u")
    case True
    then show ?thesis using assms MountDead t test_start_limit_report
      by (cases ret) (fastforce simp: recorded_def unit_start_directly_def unit_start_def mount_ops_def mount_start_def mount_start_check_def
          mount_enter_mounted_def mount_enter_dead_def mount_set_state_def rows_agree_def excused_def Let_def)+
  next
    case False
    then show ?thesis using assms MountDead
      by (auto simp: recorded_def unit_start_directly_def unit_start_def mount_ops_def rows_agree_def excused_def)
  qed
qed

lemma stopped_unit:
  assumes "rows_agree w" and "u \<in> rt_units (mw_rt w)" and "w' = recorded u (um_unit_stop E u False) w"
  shows "mw_rt w' = mw_rt w \<and> rows_agree w' \<and> mw_state w' = (mw_state w)(u := MountDead) \<and> mw_reports w' = mw_reports w"
  using assms by (cases "mw_state w u")
    (auto simp: recorded_def um_unit_stop_def unit_stop_def mount_ops_def mount_stop_def mount_enter_dead_def mount_set_state_def rows_agree_def Let_def)

lemma stopped_units:
  assumes "rows_agree w" and "set us \<subseteq> rt_units (mw_rt w)" and "w' = fold (\<lambda>u. recorded u (um_unit_stop E u False)) us w"
  shows "mw_rt w' = mw_rt w \<and> rows_agree w' \<and> mw_state w' = (\<lambda>u. if u \<in> set us then MountDead else mw_state w u) \<and> mw_reports w' = mw_reports w"
  using assms
proof (induction us arbitrary: w)
  case (Cons u us)
  let ?w = "recorded u (um_unit_stop E u False) w"
  have s: "mw_rt ?w = mw_rt w" "rows_agree ?w" "mw_state ?w = (mw_state w)(u := MountDead)" "mw_reports ?w = mw_reports w"
    using stopped_unit [OF Cons.prems(1) _ refl, of u E] Cons.prems(2) by simp_all
  have "set us \<subseteq> rt_units (mw_rt ?w)" using Cons.prems(2) s(1) by simp
  from Cons.IH [OF s(2) this] Cons.prems(3) show ?case using s by auto
qed simp

section \<open>A scan of the table\<close>

lemma last_split_on_append: "last (split_on c (xs @ c # ys)) = last (split_on c ys)"
proof (induction xs)
  case (Cons x xs)
  have "split_on c (xs @ c # ys) = p # ps \<Longrightarrow> ps \<noteq> []" for p ps
    by (induction xs arbitrary: p ps) (auto split: list.splits if_splits)
  with Cons show ?case by (auto split: list.split)
qed simp

lemma mount_name_type: "unit_name_to_type (mount_point_to_unit_name mp) = UnitMount"
proof -
  have m: "last (split_on CHR ''.'' (xs @ ''.mount'')) = ''mount''" for xs
    using last_split_on_append [of "CHR ''.''" xs "''mount''"] by simp
  let ?r = "map (\<lambda>c. if c = CHR ''/'' then CHR ''-'' else c) mp"
  have "last (split_on CHR ''.'' (mount_point_to_unit_name mp)) = ''mount''"
    using m [of "''-''"] m [of "tl ?r"] m [of ?r] by (cases ?r) (simp_all add: mount_point_to_unit_name_def Let_def)
  then show ?thesis by (simp add: unit_name_to_type_def unit_type_from_str_def ascii_lower_def)
qed

fun entry_name :: "mount_entry \<Rightarrow> unit_id option" where
  "entry_name (Inl _) = None"
| "entry_name (Inr (fstype, mp)) = (if fstype = Some ''autofs'' then None else map_option mount_point_to_unit_name mp)"

fun readable :: "mount_entry \<Rightarrow> bool" where
  "readable (Inl _) = True"
| "readable (Inr (fstype, mp)) = (fstype = Some ''autofs'' \<or> mp \<noteq> None)"

definition table_names :: "mount_entry list \<Rightarrow> unit_id set" where
  "table_names es = {u. \<exists>e \<in> set es. entry_name e = Some u}"

definition mount_type :: "unit_id \<Rightarrow> bool" where
  "mount_type u \<longleftrightarrow> unit_name_to_type u = UnitMount"

text \<open>
  After the entries \<open>seen\<close> of the table: the units still in \<open>dead\<close> are mounted and not seen, every other mounted unit was seen,
  and what was seen is there and mounted, or has an excuse.
\<close>

definition scan_inv :: "mount_env \<Rightarrow> unit_id set \<Rightarrow> unit_id set \<Rightarrow> unit_id set \<Rightarrow> mount_world \<Rightarrow> bool" where
  "scan_inv E us seen dead w \<longleftrightarrow> rt_inv (me_load E) us {} (mw_rt w) \<and> rows_agree w \<and>
     (\<forall>u \<in> dead. u \<in> rt_units (mw_rt w) \<and> mount_type u \<and> mw_state w u = MountMounted \<and> u \<notin> seen) \<and>
     (\<forall>u \<in> rt_units (mw_rt w). mount_type u \<and> mw_state w u = MountMounted \<longrightarrow> u \<in> dead \<union> seen) \<and>
     (\<forall>u \<in> seen. u \<in> rt_units (mw_rt w) \<and> mount_type u \<and> (mw_state w u = MountMounted \<or> excused E w u))"

lemma mount_type_good: "mount_type u \<Longrightarrow> good L u"
  by (simp add: mount_type_def good_def)

lemma mount_load:
  assumes fine: "loads_fine (me_load E) us" and n: "(\<Sum>u \<in> us. cost (me_load E) u) < me_bound E" and x: "x \<in> us" "mount_type x"
    and I: "scan_inv E us seen dead w"
  shows "\<exists>w1. mount_load_unit_success E x w = Some (True, w1) \<and> scan_inv E us seen dead w1 \<and> x \<in> rt_units (mw_rt w1) \<and>
    ux_load_state (rt_obj (mw_rt w1) x) = LoadLoaded \<and> set (mw_reports w) \<subseteq> set (mw_reports w1)"
proof -
  let ?L = "me_load E" and ?s = "mw_rt w"
  have inv: "rt_inv ?L us {} ?s" using I by (simp add: scan_inv_def)
  have "weight ?L us ?s + (if x \<in> rt_units ?s then 0 else 1) \<le> me_bound E" using weight_le [OF fine, of ?s] n by simp
  from load_unit_total [OF dispatch_drain_ok [OF fine] fine inv x(1) this] obtain s' where
    s': "load_unit ?L (dispatch_load_queue ?L (me_bound E)) x ?s = Some (True, s')" "rt_inv ?L us {} s'" "kept ?L ?s s'"
      "good ?L x \<longrightarrow> x \<in> rt_units s'" "rt_load_queue s' = []" by (elim exE conjE)
  have xs: "x \<in> rt_units s'" using s'(4) mount_type_good [OF x(2)] by blast
  have ld: "ux_load_state (rt_obj s' x) = LoadLoaded" using rt_invD(9) [OF s'(2) xs] s'(5) by (simp add: unit_ok_def)
  let ?w = "mount_loaded s' w"
  have w: "mw_rt ?w = s'" "mw_reports ?w = mw_reports w" "\<And>u. u \<in> rt_units ?s \<Longrightarrow> mw_state ?w u = mw_state w u"
    "\<And>u. u \<in> rt_units ?s \<Longrightarrow> mw_rows ?w u = mw_rows w u"
    "\<And>u. u \<in> rt_units s' \<Longrightarrow> u \<notin> rt_units ?s \<Longrightarrow> mw_state ?w u = MountDead \<and> mw_rows ?w u = Some MountDead"
    by (simp_all add: mount_loaded_def Let_def)
  have kept: "u \<in> rt_units s'" if "u \<in> rt_units ?s" "mount_type u" for u
    using s'(3) that mount_type_good unfolding kept_def by blast
  have "rows_agree ?w" using I w unfolding scan_inv_def rows_agree_def by metis
  moreover have "u \<in> rt_units s' \<and> mount_type u \<and> mw_state ?w u = MountMounted \<and> u \<notin> seen" if "u \<in> dead" for u
    using I that kept w(3) unfolding scan_inv_def by auto
  moreover have "u \<in> dead \<union> seen" if "u \<in> rt_units s'" "mount_type u" "mw_state ?w u = MountMounted" for u
    using I that w(3,5) [of u] unfolding scan_inv_def by (cases "u \<in> rt_units ?s") auto
  moreover have "u \<in> rt_units s' \<and> mount_type u \<and> (mw_state ?w u = MountMounted \<or> excused E ?w u)" if "u \<in> seen" for u
    using I that kept w(2,3) unfolding scan_inv_def excused_def by auto
  ultimately have "scan_inv E us seen dead ?w" using s'(2) unfolding scan_inv_def w(1) by blast
  moreover have "mount_load_unit_success E x w = Some (True, ?w)"
    using s'(1) ld by (simp add: mount_load_unit_success_def load_unit_success_def)
  ultimately show ?thesis using xs ld w by auto
qed

lemma scan_start:
  assumes I: "scan_inv E us seen dead w" and x: "x \<in> rt_units (mw_rt w)" "ux_load_state (rt_obj (mw_rt w) x) = LoadLoaded"
    and t: "mount_type x" "x \<notin> dead"
  shows "scan_inv E us (insert x seen) dead (recorded x (unit_start_directly E x) w)"
proof -
  let ?w = "recorded x (unit_start_directly E x) w"
  have r: "rows_agree w" using I by (simp add: scan_inv_def)
  have s: "mw_rt ?w = mw_rt w" "rows_agree ?w" "\<forall>v. v \<noteq> x \<longrightarrow> mw_state ?w v = mw_state w v"
    "set (mw_reports w) \<subseteq> set (mw_reports ?w)" "mw_state w x = MountMounted \<longrightarrow> mw_state ?w x = MountMounted"
    "mw_state ?w x = MountMounted \<or> excused E ?w x"
    using started_unit [OF x r refl, of E] by simp_all
  have e: "excused E w u \<Longrightarrow> excused E ?w u" for u using s(4) by (auto simp: excused_def)
  show ?thesis using I t s e x(1) unfolding scan_inv_def s(1) by (metis (no_types, opaque_lifting) Un_iff insert_iff)
qed

lemma mount_scan_ok:
  assumes fine: "loads_fine (me_load E) us" and n: "(\<Sum>u \<in> us. cost (me_load E) u) < me_bound E"
  shows "table_names es \<subseteq> us \<Longrightarrow> list_all readable es \<Longrightarrow> scan_inv E us seen dead w \<Longrightarrow>
    \<exists>dead' w'. mount_scan E es dead w = Some (dead', w') \<and> scan_inv E us (seen \<union> table_names es) dead' w'"
proof (induction es arbitrary: seen dead w)
  case Nil
  then show ?case by (simp add: table_names_def)
next
  case (Cons e es)
  have names: "table_names (e # es) = (case entry_name e of None \<Rightarrow> {} | Some x \<Rightarrow> {x}) \<union> table_names es"
    by (auto simp: table_names_def split: option.split)
  have es: "table_names es \<subseteq> us" "list_all readable es" using Cons.prems(1,2) names by auto
  show ?case
  proof (cases "entry_name e")
    case None
    then have "mount_scan E (e # es) dead w = mount_scan E es dead w"
      using Cons.prems(2) by (cases e rule: entry_name.cases) (auto split: if_splits)
    then show ?thesis using Cons.IH [OF es Cons.prems(3)] None names by simp
  next
    case (Some x)
    then obtain fs mp where e: "e = Inr (fs, Some mp)" "fs \<noteq> Some ''autofs''" "x = mount_point_to_unit_name mp"
      by (cases e rule: entry_name.cases) (auto split: if_splits)
    have x: "x \<in> us" "mount_type x" using Cons.prems(1) names Some e(3) by (simp_all add: mount_type_def mount_name_type)
    have un: "seen \<union> table_names (e # es) = insert x seen \<union> table_names es" using names Some by simp
    show ?thesis
    proof (cases "x \<in> dead")
      case True
      then have "scan_inv E us (insert x seen) (dead - {x}) w" using Cons.prems(3) unfolding scan_inv_def by blast
      from Cons.IH [OF es this] show ?thesis using True e unfolding un by simp
    next
      case False
      obtain w1 where w1: "mount_load_unit_success E x w = Some (True, w1)" "scan_inv E us seen dead w1" "x \<in> rt_units (mw_rt w1)"
        "ux_load_state (rt_obj (mw_rt w1) x) = LoadLoaded" using mount_load [OF fine n x Cons.prems(3)] by blast
      from Cons.IH [OF es scan_start [OF w1(2-4) x(2) False]] show ?thesis using False e w1(1) unfolding un by (simp add: Let_def)
    qed
  qed
qed


section \<open>A small mount table\<close>

text \<open>Two mount points that the mapping to names does not tell apart.\<close>

lemma mount_names_collide: "mount_point_to_unit_name ''/a-b'' = mount_point_to_unit_name ''/a/b''"
  by code_simp

definition demo_mounts :: mount_env where
  "demo_mounts = \<lparr>me_load = demo_files [], me_bound = 10, me_interval = (\<lambda>_. 0), me_burst = (\<lambda>_. 0), me_now = (\<lambda>_. 0),
     me_conditions = (\<lambda>_. True), me_asserts = (\<lambda>_. True),
     me_config = (\<lambda>_. \<lparr>IgnoreOnIsolate = True, JobTimeoutSec = 0, OnFailureJobMode = ModeReplace, OnSuccessJobMode = ModeReplace\<rparr>),
     me_order = sorted_list_of_set\<rparr>"

definition demo_mount_world :: mount_world where
  "demo_mount_world = \<lparr>mw_rt = empty_rt, mw_state = (\<lambda>_. MountDead), mw_rows = Map.empty, mw_limit = (\<lambda>_. start_limit_new),
     mw_reports = [], mw_notes = [], mw_frame = False, mw_last_unit = None\<rparr>"


end
