(* ===== verification/Target_Mng.thy ===== *)
theory Target_Mng
  imports Unit_Load
begin

text \<open>
  The target unit type (\<^verbatim>\<open>coms/target/src/mng.rs\<close>, \<^verbatim>\<open>unit.rs\<close>, \<^verbatim>\<open>rentry.rs\<close>): a unit with no work of its own, whose state
  only records that it was started or stopped, and the ordering it asks for while it is loaded. \<open>None\<close> is the panic of a
  notification without an owner; the world of a target is its state, its owner and its stored row.
\<close>

section \<open>State\<close>

datatype target_state = TargetDead | TargetActive | TargetStateMax

fun target_unit_state :: "target_state \<Rightarrow> unit_active_state" where
  "target_unit_state TargetDead = UnitInActive"
| "target_unit_state TargetStateMax = UnitInActive"
| "target_unit_state TargetActive = UnitActive"

record target =
  tg_owner :: "unit_id option"
  tg_state :: target_state
  tg_rows :: "unit_id \<rightharpoonup> target_state"
  tg_notes :: "unit_notify list"

definition target_new :: "(unit_id \<rightharpoonup> target_state) \<Rightarrow> target" where
  "target_new rows = \<lparr>tg_owner = None, tg_state = TargetStateMax, tg_rows = rows, tg_notes = []\<rparr>"

text \<open>\<open>get_owner_id\<close> is the text None for a target without an owner.\<close>

definition tg_owner_id :: "target \<Rightarrow> unit_id" where
  "tg_owner_id t = (case tg_owner t of None \<Rightarrow> ''None'' | Some u \<Rightarrow> u)"

definition target_db_insert :: "target \<Rightarrow> target" where
  "target_db_insert t = t\<lparr>tg_rows := (tg_rows t)(tg_owner_id t \<mapsto> tg_state t)\<rparr>"

definition target_db_map :: "target \<Rightarrow> target" where
  "target_db_map t = (case tg_rows t (tg_owner_id t) of Some st \<Rightarrow> t\<lparr>tg_state := st\<rparr> | None \<Rightarrow> t)"

definition target_attach_unit :: "unit_id \<Rightarrow> target \<Rightarrow> target" where
  "target_attach_unit u t = target_db_insert (t\<lparr>tg_owner := Some u\<rparr>)"

section \<open>Starting and stopping\<close>

definition target_state_notify :: "target_state \<Rightarrow> target_state \<Rightarrow> target \<Rightarrow> target option" where
  "target_state_notify new old t = do {
     u \<leftarrow> tg_owner t;
     Some (target_db_insert (t\<lparr>tg_notes := tg_notes t @ [(u, target_unit_state old, target_unit_state new, UNIT_NOTIFY_RELOAD_FAILURE)]\<rparr>)) }"

definition target_set_state :: "target_state \<Rightarrow> bool \<Rightarrow> target \<Rightarrow> target option" where
  "target_set_state st notify t =
     (let old = tg_state t; t1 = t\<lparr>tg_state := st\<rparr> in if notify then target_state_notify st old t1 else Some t1)"

definition target_start :: "target \<Rightarrow> ((error + unit) \<times> target) option" where
  "target_start t =
     (if tg_state t = TargetActive then Some (Inl UnitActionEAgain, t)
      else map_option (Pair (Inr ())) (target_set_state TargetActive True t))"

definition target_stop :: "bool \<Rightarrow> target \<Rightarrow> ((error + unit) \<times> target) option" where
  "target_stop force t =
     (if \<not> force \<and> tg_state t = TargetDead then Some (Inl UnitActionEAgain, t)
      else map_option (Pair (Inr ())) (target_set_state TargetDead True t))"

section \<open>Default dependencies\<close>

text \<open>The loop stops at the first dependency that cannot be added, without an error.\<close>

fun target_default_deps :: "load_env \<Rightarrow> drain \<Rightarrow> unit_id \<Rightarrow> unit_id list \<Rightarrow> unit_rt \<Rightarrow> unit_rt option" where
  "target_default_deps L drain u [] s = Some s"
| "target_default_deps L drain u (x # xs) s =
     (if \<not> (x \<in> rt_units s \<and> le_default_dependencies L x) then target_default_deps L drain u xs s
      else if u \<in> rt_units s \<and> is_dep_atom_with (rt_dep s) u UnitAtomBefore x then target_default_deps L drain u xs s
      else do {
        (ok, s1) \<leftarrow> unit_add_dependency L drain u UnitAfter x s;
        if ok then target_default_deps L drain u xs s1 else Some s1 })"

definition target_add_default_dependencies :: "load_env \<Rightarrow> drain \<Rightarrow> unit_id \<Rightarrow> unit_rt \<Rightarrow> unit_rt option" where
  "target_add_default_dependencies L drain u s =
     (if \<not> le_default_dependencies L u then Some s
      else target_default_deps L drain u
             (if u \<in> rt_units s then dep_gets_atom (rt_dep s) u UnitAtomAddDefaultTargetDependencyQueue else []) s)"

section \<open>Properties\<close>

text \<open>
  With an owner every start and stop is answered: it is refused and changes nothing, or it moves the target to the state
  asked for, reports the change and stores it, so that a new manager maps the same state.
\<close>

lemma target_start_ok:
  assumes "tg_owner t = Some u"
  shows "target_start t = Some (if tg_state t = TargetActive then (Inl UnitActionEAgain, t)
    else (Inr (), t\<lparr>tg_state := TargetActive, tg_rows := (tg_rows t)(u \<mapsto> TargetActive),
      tg_notes := tg_notes t @ [(u, UnitInActive, UnitActive, UNIT_NOTIFY_RELOAD_FAILURE)]\<rparr>))"
  using assms by (cases "tg_state t")
    (simp_all add: target_start_def target_set_state_def target_state_notify_def target_db_insert_def tg_owner_id_def Let_def)

lemma target_stop_ok:
  assumes "tg_owner t = Some u"
  shows "target_stop force t = Some (if \<not> force \<and> tg_state t = TargetDead then (Inl UnitActionEAgain, t)
    else (Inr (), t\<lparr>tg_state := TargetDead, tg_rows := (tg_rows t)(u \<mapsto> TargetDead),
      tg_notes := tg_notes t @ [(u, target_unit_state (tg_state t), UnitInActive, UNIT_NOTIFY_RELOAD_FAILURE)]\<rparr>))"
  using assms by (simp add: target_stop_def target_set_state_def target_state_notify_def target_db_insert_def tg_owner_id_def Let_def)

text \<open>What a target does in its life, and what its row says of it.\<close>

inductive target_life :: "unit_id \<Rightarrow> target \<Rightarrow> bool" for u where
  attached: "target_life u (target_attach_unit u (target_new rows))"
| started: "target_life u t \<Longrightarrow> target_start t = Some (r, t') \<Longrightarrow> target_life u t'"
| stopped: "target_life u t \<Longrightarrow> target_stop force t = Some (r, t') \<Longrightarrow> target_life u t'"

lemma target_life_row: "target_life u t \<Longrightarrow> tg_owner t = Some u \<and> tg_rows t u = Some (tg_state t)"
  by (induction rule: target_life.induct)
    (auto simp: target_attach_unit_def target_db_insert_def target_new_def tg_owner_id_def target_start_ok target_stop_ok split: if_splits)

lemma target_recovery:
  assumes "target_life u t"
  shows "tg_state (target_db_map ((target_new (tg_rows t))\<lparr>tg_owner := Some u\<rparr>)) = tg_state t"
  using target_life_row [OF assms] by (simp add: target_db_map_def tg_owner_id_def target_new_def)

end
