(* ===== verification/Spec2Isabelle.thy ===== *)
theory Spec2Isabelle
  imports Dev_Queue_Inv Dev_Enumerate_Inv Service_Recovery Socket_Steps Unit_Manager Unit_Condition Unit_Child Mount_Mng Target_Mng
begin

text \<open>
  Verification of sysmaster, an init and service manager written in Rust (\<^verbatim>\<open>src/\<close>).

  \<^bold>\<open>The program.\<close> The process manager (\<^verbatim>\<open>core/bin\<close>) keeps units, described by files and typed by plugins
  (\<^verbatim>\<open>coms/\<close>), and brings them up and down by jobs. A request for a unit is expanded along the dependencies of
  the unit into a transaction, checked against the installed jobs, committed into the table of jobs, and run in
  the order the dependencies ask for; the units report their state changes back, which finishes jobs and
  causes new ones. All of it runs in one thread on an event loop (\<^verbatim>\<open>libs/event\<close>), and what has to survive a
  re-execution of the manager is mirrored into reliability tables (\<^verbatim>\<open>core/lib/rel\<close>). Beside it runs devmaster
  (\<^verbatim>\<open>exts/devmaster\<close>), the device manager: it receives devices from the kernel, applies rules to them and passes
  them on to its listeners, on top of the device library (\<^verbatim>\<open>libs/device\<close>).

  \<^bold>\<open>Conventions.\<close> Every theory opens with what it models. A definition has the name of the function it
  translates, sometimes with a prefix for its type (\<open>tu_\<close>, \<open>jt_\<close>, \<open>jm_\<close>, \<open>ju_\<close>, \<open>sv_\<close>, \<open>rt_\<close>). State is passed explicitly.
  A function that can panic returns an \<open>option\<close>, with \<open>None\<close> for the panic; \<open>Result\<close> is a sum with the error on the left.
  \<open>Rc\<close> objects that several tables share are indices into a heap (\<open>jworld\<close>, \<open>uvref\<close>). Hash maps are association
  lists or maps; where the code leaves an order open, the order is an argument.

  \<^bold>\<open>Components.\<close>
  \<^item> \<open>Reli_Db\<close>: the table \<open>ReDb\<close> (\<^verbatim>\<open>core/lib/rel/base.rs\<close>), over an external database given by its operations
    (locale \<open>dict\<close>); export and import are inverse.
  \<^item> \<open>Unit_Relations\<close>, \<open>Unit_Deps\<close>: the relations and their atoms (\<^verbatim>\<open>core/lib/unit/deps.rs\<close>, \<^verbatim>\<open>unit/base\<close>) and the
    dependency store (\<^verbatim>\<open>unit/datastore/deps.rs\<close>); the effect of insertion and removal on the set of edges,
    recovery of the store from its table.
  \<^item> \<open>Unit_State\<close>: unit states, notification flags and the start, stop and reload actions of a unit up to the call into
    its type (\<^verbatim>\<open>unit/entry/uentry.rs\<close>).
  \<^item> \<open>Unit_Load\<close>: loading of units with the units they refer to (\<^verbatim>\<open>unit/runtime.rs\<close>, \<^verbatim>\<open>unit/uload.rs\<close>, \<^verbatim>\<open>unit/entry/load.rs\<close>);
    termination with everything loaded, and two families of unit files for which loading never ends.
  \<^item> \<open>Job_Entry\<close>, \<open>Job_Alloc\<close>: one job, its life cycle as a refinement of an abstract step relation, its recovery, and
    the allocator (\<^verbatim>\<open>job/entry.rs\<close>, \<^verbatim>\<open>job/rentry.rs\<close>, \<^verbatim>\<open>job/alloc.rs\<close>).
  \<^item> \<open>Job_Unit\<close>, \<open>Job_Unit_Merge\<close>: the jobs of one unit (\<^verbatim>\<open>job/junit.rs\<close>), their invariant \<open>ju_inv\<close>, and that merging,
    reshuffling, triggering and finishing never panic and keep it.
  \<^item> \<open>Job_Table\<close>, \<open>Job_Ready\<close>, \<open>Job_Table_Inv\<close>, \<open>Job_Commit\<close>: the table of all jobs (\<^verbatim>\<open>job/table.rs\<close>), the two containers of
    ready units as a priority map (locale \<open>pop_map\<close>), the invariant \<open>jt_inv\<close> of the table, triggering, finishing and
    committing of a transaction.
  \<^item> \<open>Job_Transaction\<close>, \<open>Job_Notify\<close>, \<open>Job_Stat\<close>, \<open>Job_Manager\<close>, \<open>Job_Expand\<close>: expansion, verification and fallback
    (\<^verbatim>\<open>job/transaction.rs\<close>), the requests that follow from events (\<^verbatim>\<open>job/notify.rs\<close>), the counters (\<^verbatim>\<open>job/stat.rs\<close>), the
    manager (\<^verbatim>\<open>job/manager.rs\<close>), and the way of a request from its command to the table.
  \<^item> \<open>Event_Loop\<close>: sources, timers, pending sources and a round of the loop (\<^verbatim>\<open>libs/event/src\<close>).
  \<^item> \<open>Rust_Str\<close>, \<open>Service_Conf\<close>, \<open>Service_Mng\<close>, \<open>Service_Inv\<close>, \<open>Service_Steps\<close>, \<open>Service_Recovery\<close>: the configuration and
    the state machine of services (\<^verbatim>\<open>coms/service/src\<close>, \<^verbatim>\<open>core/lib/exec\<close>); an invariant through every event, the outcome
    of the end of a service, the effect of timeouts, and what the stored row lets a new manager rebuild.
  \<^item> \<open>Socket_Conf\<close>, \<open>Socket_Mng\<close>, \<open>Socket_Inv\<close>, \<open>Socket_Steps\<close>: the configuration, the ports and the state machine of
    sockets (\<^verbatim>\<open>coms/socket/src\<close>) on the event loop of \<open>Event_Loop\<close>; an invariant through every event, recovery, and the runs
    in which a client or a late process takes the manager down.
  \<^item> \<open>Mount_Mng\<close>, \<open>Target_Mng\<close>: the other two unit types (\<^verbatim>\<open>coms/mount/src\<close>, \<^verbatim>\<open>coms/target/src\<close>); mount units follow the
    mount table of the kernel.
  \<^item> \<open>Unit_Condition\<close>, \<open>Unit_Limit\<close>, \<open>Unit_Child\<close>: the conditions of a unit with the tests of \<^verbatim>\<open>libs/basic\<close>, the limit on its
    starts, and its processes with the dispatch of ended children (\<^verbatim>\<open>unit/entry\<close>, \<^verbatim>\<open>unit/datastore/child.rs\<close>, \<^verbatim>\<open>unit/sigchld.rs\<close>).
  \<^item> \<open>Unit_Manager\<close>: the commands on units and the reactions to their states (\<^verbatim>\<open>unit/manager.rs\<close>) and the main loop
    (\<^verbatim>\<open>manager/mod.rs\<close>); every command is answered.
  \<^item> \<open>Dev_Device\<close>, \<open>Dev_Lookup\<close>, \<open>Dev_Device_Inv\<close>: a device with its properties, files and database, the ways to find one,
    its parent and its node (\<^verbatim>\<open>libs/device/src/device.rs\<close>), in a monad of errors, panics and a device as state; the invariant
    of a device through every sequence of calls, what a returned descriptor refers to, and ids that lead back.
  \<^item> \<open>Dev_Enumerate\<close>, \<open>Dev_Enumerate_Inv\<close>: the enumeration of the devices below \<^verbatim>\<open>/sys\<close>
    (\<^verbatim>\<open>libs/device/src/device_enumerator.rs\<close>): filters, scans, sorting and the iterator, over a heap of shared devices. Only
    devices that pass the filters are yielded, and sorting loses and repeats none; the lemmas at its end show where a
    second use of an enumerator, the walk to parents and the comparison of devices go wrong. The bound on directories
    and parents (\<open>ev_bound\<close>) is an argument: running out of it is \<open>None\<close>, and no theorem takes that for an answer.
  \<^item> \<open>Dev_Monitor\<close>: the messages in which devices are passed on (\<^verbatim>\<open>libs/device/src/device_monitor.rs\<close>); a sent device is
    the received one.
  \<^item> \<open>Dev_Rules\<close>, \<open>Dev_Execute\<close>: the rules of devmaster, from their files to linked lists of tokens (\<^verbatim>\<open>exts/devmaster/src/lib/rules\<close>,
    locale \<open>push_list\<close>), and their application to a device; every accepted token is typed, a file is loaded line by line,
    and execution computes the meaning of the rule table.
  \<^item> \<open>Dev_Queue\<close>, \<open>Dev_Queue_Inv\<close>: the queue of device jobs and the pool of worker threads (\<^verbatim>\<open>exts/devmaster/src/lib/framework\<close>); the
    manager never panics whatever the threads do, and without kills every device is processed exactly once.

  This theory composes loading and jobs: the dependency store that loading leaves behind meets what the job engine
  asks of its dependency queries.

  \<^bold>\<open>Bounds.\<close> Recursion over the dependency graph carries a bound \<open>n\<close>; \<open>None\<close> then is an exhausted bound too. The expansion
  needs at most one call for each pair of unit and basic kind that is not staged, six per unit (theory \<open>Job_Expand\<close>).
  Draining the load queue needs at most one round per unit and per reference (theory \<open>Unit_Load\<close>). The fallback of
  failed jobs and the main loop \<open>jm_run\<close> are modelled with a bound and as a \<open>partial_function\<close>; their termination is
  not claimed. Ids are 32-bit words, counters 64-bit words, timeouts 64-bit words in microseconds.

  \<^bold>\<open>Not modelled.\<close> The notify socket, the bookkeeping of sub-managers and the compensation after a crash in the unit
  manager, process creation (\<^verbatim>\<open>unit/execute\<close>), cgroups, the main program and its sockets, enabling and disabling of unit
  files, mount setup, and the other separate programs (sctl, fstab and others) are input and output around this core.
  What the models take from outside (files, processes, descriptors, clocks) are operations of an environment, with the
  assumptions stated in the theorems that need them.
\<close>

section \<open>From a unit file to a job\<close>



end
